(* ===== verification/XpraPrelude.thy ===== *)
theory XpraPrelude
  imports Main "HOL-Library.Word"
begin

text \<open>
  Prelude of the development: the types that name Python's data (bytes, errors), the
  error-propagating bind that stands for Python's exceptions, big-endian integers as
  \<^verbatim>\<open>struct\<close> packs them, decimal integers as \<^verbatim>\<open>int()\<close> reads them, list slices, and the
  collections of simplification rules the component theories share.
\<close>

named_theorems err_simps "rules that evaluate the error-propagating bind"

named_theorems be_simps "rules about big-endian integers"

named_theorems slice_simps "rules about Python slices of lists"

section \<open>Bytes and errors\<close>

type_synonym byte = "8 word"

type_synonym bytes = "byte list"

text \<open>The exceptions the modelled code raises (or lets the standard library raise).\<close>

datatype py_error =
    ValueError
  | TypeError
  | IndexError
  | KeyError
  | AssertionError
  | RuntimeError
  | StructError
  | OSError
  | UnicodeDecodeError
  | MmapPointerError
  | InvalidCompressionException
  | InvalidPacketEncodingException
  | NotImplementedError
  | ZeroDivisionError
  | AttributeError

type_synonym 'a result = "py_error + 'a"

definition ebind :: "'a result \<Rightarrow> ('a \<Rightarrow> 'b result) \<Rightarrow> 'b result" where
  "ebind r f = (case r of Inl e \<Rightarrow> Inl e | Inr x \<Rightarrow> f x)"

lemma ebind_Inl [simp, err_simps]: "ebind (Inl e) f = Inl e"
  by (simp add: ebind_def)

lemma ebind_Inr [simp, err_simps]: "ebind (Inr x) f = f x"
  by (simp add: ebind_def)

lemma ebind_eq_Inr: "ebind r f = Inr y \<longleftrightarrow> (\<exists>x. r = Inr x \<and> f x = Inr y)"
  by (cases r) auto

lemma ebind_eq_Inl: "ebind r f = Inl e \<longleftrightarrow> r = Inl e \<or> (\<exists>x. r = Inr x \<and> f x = Inl e)"
  by (cases r) auto

lemma ebind_cong [fundef_cong]:
  "r = r' \<Longrightarrow> (\<And>x. r' = Inr x \<Longrightarrow> f x = g x) \<Longrightarrow> ebind r f = ebind r' g"
  by (cases r') auto

text \<open>A comprehension whose element expression may raise: the first exception wins.\<close>

fun emap :: "('a \<Rightarrow> 'b result) \<Rightarrow> 'a list \<Rightarrow> 'b list result" where
  "emap f [] = Inr []"
| "emap f (x # xs) = ebind (f x) (\<lambda>y. ebind (emap f xs) (\<lambda>ys. Inr (y # ys)))"

lemma emap_Inr_length: "emap f xs = Inr ys \<Longrightarrow> length ys = length xs"
  by (induction xs arbitrary: ys) (auto simp: ebind_eq_Inr)

lemma emap_cong [fundef_cong]:
  "xs = ys \<Longrightarrow> (\<And>x. x \<in> set ys \<Longrightarrow> f x = g x) \<Longrightarrow> emap f xs = emap g ys"
proof (induction ys arbitrary: xs)
  case (Cons y ys)
  then show ?case by (auto intro!: ebind_cong)
qed simp

section \<open>Big-endian integers\<close>

text \<open>
  \<^verbatim>\<open>struct\<close>'s network byte order: \<open>be_bytes k n\<close> is the low \<open>8 * k\<close> bits of \<open>n\<close>, most
  significant byte first; \<open>be_int\<close> reads such bytes back.
\<close>

primrec be_bytes :: "nat \<Rightarrow> int \<Rightarrow> bytes" where
  "be_bytes 0 n = []"
| "be_bytes (Suc k) n = be_bytes k (n div 256) @ [word_of_int n]"

definition be_int :: "bytes \<Rightarrow> int" where
  "be_int bs = foldl (\<lambda>a b. a * 256 + uint b) 0 bs"

lemma length_be_bytes [simp, be_simps]: "length (be_bytes k n) = k"
  by (induction k arbitrary: n) simp_all

lemma be_int_Nil [simp, be_simps]: "be_int [] = 0"
  by (simp add: be_int_def)

lemma be_int_snoc [be_simps]: "be_int (bs @ [b]) = be_int bs * 256 + uint b"
  by (simp add: be_int_def)

lemma uint_byte [be_simps]: "uint (word_of_int n :: byte) = n mod 256"
  by (simp add: uint_word_of_int)

lemma be_int_be_bytes_mod: "be_int (be_bytes k n) = n mod 256 ^ k"
proof (induction k arbitrary: n)
  case (Suc k)
  have "be_int (be_bytes (Suc k) n) = (n div 256) mod 256 ^ k * 256 + n mod 256"
    by (simp add: be_int_snoc Suc.IH uint_byte)
  also have "\<dots> = n mod (256 * 256 ^ k)"
    by (simp add: zmod_zmult2_eq)
  finally show ?case by simp
qed simp

lemma be_int_be_bytes [be_simps]:
  "0 \<le> n \<Longrightarrow> n < 256 ^ k \<Longrightarrow> be_int (be_bytes k n) = n"
  by (simp add: be_int_be_bytes_mod)

lemma be_int_nonneg [simp]: "0 \<le> be_int bs"
  by (induction bs rule: rev_induct) (simp_all add: be_int_snoc)

lemma be_int_bound: "be_int bs < 256 ^ length bs"
proof (induction bs rule: rev_induct)
  case (snoc b bs)
  have "uint b < 256"
    using uint_lt2p [of b] by simp
  with snoc have "be_int bs * 256 + uint b < 256 ^ length bs * 256" by arith
  then show ?case by (simp add: be_int_snoc)
qed simp

lemma be_bytes_be_int: "length bs = k \<Longrightarrow> be_bytes k (be_int bs) = bs"
proof (induction bs arbitrary: k rule: rev_induct)
  case (snoc b bs)
  have b: "0 \<le> uint b" "uint b < 256"
    using uint_lt2p [of b] by simp_all
  then have d: "(be_int bs * 256 + uint b) div 256 = be_int bs"
    by simp
  have "uint (word_of_int (be_int bs * 256 + uint b) :: byte) = uint b"
    unfolding uint_byte using b by simp
  then have w: "(word_of_int (be_int bs * 256 + uint b) :: byte) = b"
    by (simp only: word_uint_eq_iff)
  with snoc d show ?case by (cases k) (simp_all add: be_int_snoc)
qed simp

section \<open>Slices\<close>

lemma take_append_le [slice_simps]: "n \<le> length xs \<Longrightarrow> take n (xs @ ys) = take n xs"
  by simp

lemma drop_append_le [slice_simps]: "n \<le> length xs \<Longrightarrow> drop n (xs @ ys) = drop n xs @ ys"
  by simp

lemma nth_append_lt [slice_simps]: "i < length xs \<Longrightarrow> (xs @ ys) ! i = xs ! i"
  by (simp add: nth_append)

text \<open>A slice \<^verbatim>\<open>b[i:j]\<close> that may have negative ends, and \<^verbatim>\<open>b[i:]\<close>.\<close>

definition slice_end :: "'b list \<Rightarrow> int \<Rightarrow> nat" where
  "slice_end b i = (if i < 0 then nat (int (length b) + i) else min (nat i) (length b))"

definition py_slice :: "'b list \<Rightarrow> int \<Rightarrow> int \<Rightarrow> 'b list" where
  "py_slice b i j = drop (slice_end b i) (take (slice_end b j) b)"

definition py_from :: "'b list \<Rightarrow> int \<Rightarrow> 'b list" where
  "py_from b i = drop (slice_end b i) b"

lemma py_slice_within:
  "0 \<le> j \<Longrightarrow> j \<le> int (length b) \<Longrightarrow> i \<le> length b \<Longrightarrow> py_slice b (int i) j = drop i (take (nat j) b)"
  by (simp add: py_slice_def slice_end_def min_def)

lemma py_from_within: "i \<le> length b \<Longrightarrow> py_from b (int i) = drop i b"
  by (simp add: py_from_def slice_end_def)

section \<open>Text: splitting and decimal integers\<close>

text \<open>
  \<^verbatim>\<open>x.split(sep)\<close> for a one-element separator: always at least one part. \<open>cut_at\<close> is
  \<^verbatim>\<open>partition\<close> without the separator itself.
\<close>

fun split_on :: "'a \<Rightarrow> 'a list \<Rightarrow> 'a list list" where
  "split_on s [] = [[]]"
| "split_on s (x # xs) =
     (if x = s then [] # split_on s xs
      else case split_on s xs of [] \<Rightarrow> [[x]] | p # ps \<Rightarrow> (x # p) # ps)"

fun cut_at :: "'a \<Rightarrow> 'a list \<Rightarrow> 'a list \<times> 'a list" where
  "cut_at s [] = ([], [])"
| "cut_at s (x # xs) =
     (if x = s then ([], xs) else let (a, b) = cut_at s xs in (x # a, b))"

lemma split_on_not_Nil [simp]: "split_on s xs \<noteq> []"
  by (induction xs) (auto split: list.splits)

lemma split_on_none: "s \<notin> set xs \<Longrightarrow> split_on s xs = [xs]"
  by (induction xs) auto

lemma split_on_append:
  "s \<notin> set xs \<Longrightarrow> split_on s (xs @ s # ys) = xs # split_on s ys"
  by (induction xs) auto

text \<open>
  \<^verbatim>\<open>int()\<close> on a string that passed \<^verbatim>\<open>isdigit()\<close>: the decimal digits, or \<^verbatim>\<open>ValueError\<close> where one
  of the characters is a digit but not a decimal one (superscripts), or where there are more
  digits than \<^verbatim>\<open>sys.get_int_max_str_digits()\<close>, 4300 unless it is configured otherwise.
  Strings are lists of code points.
\<close>

type_synonym pystr = "int list"

definition max_str_digits :: nat where
  "max_str_digits = 4300"

definition decimal_char :: "int \<Rightarrow> bool" where
  "decimal_char c \<longleftrightarrow> 48 \<le> c \<and> c \<le> 57"

definition digits_value :: "pystr \<Rightarrow> int" where
  "digits_value cs = foldl (\<lambda>a c. a * 10 + (c - 48)) 0 cs"

definition py_int :: "pystr \<Rightarrow> int result" where
  "py_int cs =
     (if cs = [] \<or> \<not> list_all decimal_char cs then Inl ValueError
      else if max_str_digits < length cs then Inl ValueError
      else Inr (digits_value cs))"

text \<open>\<^verbatim>\<open>bytes.isdigit\<close> looks at ASCII digits only.\<close>

definition bytes_isdigit :: "bytes \<Rightarrow> bool" where
  "bytes_isdigit v \<longleftrightarrow> v \<noteq> [] \<and> list_all (\<lambda>b. 48 \<le> b \<and> b \<le> 57) v"

definition bytes_int :: "bytes \<Rightarrow> int result" where
  "bytes_int v = py_int (map uint v)"

text \<open>\<^verbatim>\<open>str(n)\<close> for a natural number, as ASCII bytes.\<close>

fun dec_bytes :: "nat \<Rightarrow> bytes" where
  "dec_bytes n =
     (if n < 10 then [word_of_nat (48 + n)] else dec_bytes (n div 10) @ [word_of_nat (48 + n mod 10)])"

declare dec_bytes.simps [simp del]

lemma unat_digit_byte: "d < 10 \<Longrightarrow> unat (word_of_nat (48 + d) :: byte) = 48 + d"
  unfolding unat_of_nat by simp

lemma digit_byte:
  assumes "d < 10"
  shows "uint (word_of_nat (48 + d) :: byte) = 48 + int d"
    and "(48::byte) \<le> word_of_nat (48 + d)" and "word_of_nat (48 + d) \<le> (57::byte)"
  unfolding word_le_nat_alt uint_nat unat_digit_byte [OF assms]
  using assms by simp_all

lemma dec_bytes_digits: "b \<in> set (dec_bytes n) \<Longrightarrow> 48 \<le> b \<and> b \<le> 57"
proof (induction n rule: dec_bytes.induct)
  case (1 n)
  show ?case
  proof (cases "n < 10")
    case True
    with "1.prems" digit_byte [of n] show ?thesis by (simp add: dec_bytes.simps [of n])
  next
    case False
    with "1.prems" have "b \<in> set (dec_bytes (n div 10)) \<or> b = word_of_nat (48 + n mod 10)"
      by (auto simp: dec_bytes.simps [of n])
    then show ?thesis
      using "1.IH" [OF False] digit_byte [of "n mod 10"] by auto
  qed
qed

lemma dec_bytes_not_Nil [simp]: "dec_bytes n \<noteq> []"
  by (subst dec_bytes.simps) simp

lemma dec_bytes_isdigit [simp]: "bytes_isdigit (dec_bytes n)"
  by (auto simp: bytes_isdigit_def list_all_iff dest: dec_bytes_digits)

lemma digits_value_snoc: "digits_value (cs @ [c]) = digits_value cs * 10 + (c - 48)"
  by (simp add: digits_value_def)

lemma digits_value_dec_bytes: "digits_value (map uint (dec_bytes n)) = int n"
proof (induction n rule: dec_bytes.induct)
  case (1 n)
  show ?case
  proof (cases "n < 10")
    case True
    then show ?thesis
      using digit_byte(1) [OF True] by (simp add: dec_bytes.simps [of n] digits_value_def del: of_nat_add)
  next
    case False
    have "digits_value (map uint (dec_bytes n)) = int (n div 10) * 10 + int (n mod 10)"
      using "1.IH" [OF False] False digit_byte(1) [of "n mod 10"]
      by (simp add: dec_bytes.simps [of n] digits_value_snoc del: of_nat_add)
    also have "\<dots> = int n"
      by (metis div_mult_mod_eq of_nat_add of_nat_mult of_nat_numeral)
    finally show ?thesis .
  qed
qed

lemma length_dec_bytes: "n < 10 ^ k \<Longrightarrow> 0 < k \<Longrightarrow> length (dec_bytes n) \<le> k"
proof (induction k arbitrary: n)
  case (Suc k)
  show ?case
  proof (cases "n < 10")
    case True
    then show ?thesis by (simp add: dec_bytes.simps [of n])
  next
    case False
    then have "0 < k" using Suc.prems by (cases k) auto
    moreover have "n div 10 < 10 ^ k"
      using Suc.prems by (simp add: div_less_iff_less_mult mult.commute)
    ultimately have "length (dec_bytes (n div 10)) \<le> k" by (rule Suc.IH [rotated])
    with False show ?thesis by (simp add: dec_bytes.simps [of n])
  qed
qed simp

lemma bytes_int_dec_bytes:
  assumes "length (dec_bytes n) \<le> max_str_digits"
  shows "bytes_int (dec_bytes n) = Inr (int n)"
proof -
  have "list_all decimal_char (map uint (dec_bytes n))"
    using dec_bytes_digits
    by (auto simp: list_all_iff decimal_char_def word_le_def dest!: dec_bytes_digits)
  with assms show ?thesis
    by (simp add: bytes_int_def py_int_def digits_value_dec_bytes)
qed

end
