(* ===== verification/Framing.thy ===== *)
theory Framing
  imports XpraPrelude
begin

text \<open>
  The contract of an incremental decoder. Several parts of xpra receive a byte stream in
  arbitrary pieces, append every piece to a buffer and decode what they can: the terminal
  client's input parser, the websocket layer and the RFB server. Each has a function that
  looks at the start of the buffer and says \<open>NeedMore\<close>, \<open>Took n events\<close> (so many elements were
  consumed) or \<open>Raised e\<close>, and a loop that applies it until it needs more. The locale states
  what such a pair has to satisfy for the pieces not to matter, and proves once that they do
  not.
\<close>

datatype 'e outcome =
    NeedMore
  | Took nat "'e list"
  | Raised py_error

text \<open>Feeding a list of pieces: every piece is appended to what the last call left over.\<close>

fun feed_chunks ::
  "('b list \<Rightarrow> ('e list \<times> 'b list) result) \<Rightarrow> 'b list \<Rightarrow> 'b list list \<Rightarrow> ('e list \<times> 'b list) result" where
  "feed_chunks loop buf [] = Inr ([], buf)"
| "feed_chunks loop buf (c # cs) =
     ebind (loop (buf @ c)) (\<lambda>(es, rest).
       ebind (feed_chunks loop rest cs) (\<lambda>(es', rest'). Inr (es @ es', rest')))"

locale incremental_parser =
  fixes parse1 :: "'b list \<Rightarrow> 'e outcome"
    and loop :: "'b list \<Rightarrow> ('e list \<times> 'b list) result"
  assumes took_bounds: "parse1 buf = Took n es \<Longrightarrow> 0 < n \<and> n \<le> length buf"
    and took_stable: "parse1 buf = Took n es \<Longrightarrow> parse1 (buf @ more) = Took n es"
    and raised_stable: "parse1 buf = Raised e \<Longrightarrow> parse1 (buf @ more) = Raised e"
    and empty_needs_more: "parse1 [] = NeedMore"
    and loop_more: "parse1 buf = NeedMore \<Longrightarrow> loop buf = Inr ([], buf)"
    and loop_raised: "parse1 buf = Raised e \<Longrightarrow> loop buf = Inl e"
    and loop_took: "parse1 buf = Took n es \<Longrightarrow>
      loop buf = ebind (loop (drop n buf)) (\<lambda>(es', rest). Inr (es @ es', rest))"
begin

lemma took_shorter: "parse1 buf = Took n es \<Longrightarrow> length (drop n buf) < length buf"
  using took_bounds [of buf n es] by auto

lemma loop_append:
  "loop (a @ b) =
     ebind (loop a) (\<lambda>(ea, ra). ebind (loop (ra @ b)) (\<lambda>(eb, rb). Inr (ea @ eb, rb)))"
proof (induction a rule: length_induct)
  case (1 a)
  show ?case
  proof (cases "parse1 a")
    case NeedMore
    then show ?thesis
      by (cases "loop (a @ b)") (simp_all add: loop_more)
  next
    case (Raised e)
    then show ?thesis
      by (simp add: loop_raised raised_stable)
  next
    case (Took n es)
    from took_bounds [OF Took] have n: "0 < n" "n \<le> length a" by simp_all
    then have "length (drop n a) < length a" by simp
    with "1.IH" have ih: "loop (drop n a @ b) =
        ebind (loop (drop n a)) (\<lambda>(ea, ra). ebind (loop (ra @ b)) (\<lambda>(eb, rb). Inr (ea @ eb, rb)))"
      by blast
    have "loop (a @ b) = ebind (loop (drop n a @ b)) (\<lambda>(es', rest). Inr (es @ es', rest))"
      using loop_took [OF took_stable [OF Took]] n by simp
    then show ?thesis
      unfolding ih loop_took [OF Took]
      by (auto simp: ebind_def split: sum.splits prod.splits)
  qed
qed

lemma loop_rest:
  "loop buf = Inr (es, rest) \<Longrightarrow> loop rest = Inr ([], rest)"
proof (induction buf arbitrary: es rule: length_induct)
  case (1 buf)
  show ?case
  proof (cases "parse1 buf")
    case NeedMore
    with "1.prems" show ?thesis by (simp add: loop_more)
  next
    case (Raised e)
    with "1.prems" show ?thesis by (simp add: loop_raised)
  next
    case (Took n es')
    then have "length (drop n buf) < length buf"
      by (rule took_shorter)
    moreover obtain es'' where "loop (drop n buf) = Inr (es'', rest)"
      using "1.prems" by (auto simp: loop_took [OF Took] ebind_eq_Inr)
    ultimately show ?thesis using "1.IH" by blast
  qed
qed

text \<open>The pieces in which the stream arrives do not matter, errors included.\<close>

theorem feed_concat:
  assumes "loop buf = Inr ([], buf)"
  shows "feed_chunks loop buf cs = loop (buf @ concat cs)"
  using assms
proof (induction cs arbitrary: buf)
  case Nil
  then show ?case by simp
next
  case (Cons c cs)
  have whole: "loop (buf @ concat (c # cs)) =
      ebind (loop (buf @ c))
        (\<lambda>(ea, ra). ebind (loop (ra @ concat cs)) (\<lambda>(eb, rb). Inr (ea @ eb, rb)))"
    using loop_append [of "buf @ c" "concat cs"] by simp
  show ?case
  proof (cases "loop (buf @ c)")
    case (Inl e)
    then show ?thesis unfolding whole by simp
  next
    case (Inr p)
    obtain es rest where p: "p = (es, rest)" by (cases p)
    have "loop rest = Inr ([], rest)"
      using Inr p loop_rest by blast
    then have "feed_chunks loop rest cs = loop (rest @ concat cs)"
      by (rule Cons.IH)
    then show ?thesis unfolding whole by (simp add: Inr p)
  qed
qed

lemma feed_from_empty: "feed_chunks loop [] cs = loop (concat cs)"
  using feed_concat [of "[]" cs] by (simp add: loop_more empty_needs_more)

text \<open>Whatever is buffered is something the one-step function still needs more of.\<close>

lemma loop_rest_needs_more:
  assumes "loop buf = Inr (es, rest)"
  shows "parse1 rest = NeedMore"
proof (cases "parse1 rest")
  case (Took n es')
  have r: "loop rest = Inr ([], rest)"
    using assms by (rule loop_rest)
  have b: "0 < n" "n \<le> length rest"
    using took_bounds [OF Took] by simp_all
  from r loop_took [OF Took] obtain es'' where d: "loop (drop n rest) = Inr (es'', rest)"
    by (auto simp: ebind_eq_Inr)
  have "length rest' \<le> length buf'" if "loop buf' = Inr (e, rest')" for buf' e rest'
    using that
  proof (induction buf' arbitrary: e rule: length_induct)
    case (1 buf')
    show ?case
    proof (cases "parse1 buf'")
      case (Took m f)
      then obtain e' where "loop (drop m buf') = Inr (e', rest')"
        using "1.prems" by (auto simp: loop_took [OF Took] ebind_eq_Inr)
      moreover have "length (drop m buf') < length buf'"
        using Took by (rule took_shorter)
      ultimately have "length rest' \<le> length (drop m buf')"
        using "1.IH" by blast
      then show ?thesis by simp
    qed (use "1.prems" in \<open>simp_all add: loop_more loop_raised\<close>)
  qed
  from this [OF d] b show ?thesis by simp
next
  case (Raised e)
  with loop_rest [OF assms] show ?thesis by (simp add: loop_raised)
qed simp

end

end
