(* ===== verification/TerminalInput.thy ===== *)
theory TerminalInput
  imports Framing
begin

unbundle bit_operations_syntax

text \<open>
  The terminal client's input parser (\<^verbatim>\<open>xpra/client/terminal/input.py\<close>): kitty keyboard
  protocol events, legacy key bytes, SGR mouse reports, kitty graphics answers and window
  reports, decoded incrementally from what the terminal sends on stdin.

  A position \<open>pos\<close> of the source's buffer is modelled by the rest of the buffer from there:
  every function below takes \<open>s\<close>, the source's \<open>buf[pos:]\<close>, and counts from its start, and the
  source's \<open>NEED_MORE\<close> size is the outcome \<open>NeedMore\<close>. Strings are lists of code points.
\<close>

section \<open>Constants and events\<close>

definition max_escape :: nat where
  "max_escape = 8192"

definition ESC :: byte where "ESC = 0x1B"
definition BEL :: byte where "BEL = 0x07"
definition DEL :: byte where "DEL = 0x7F"
definition BACKSLASH :: byte where "BACKSLASH = 0x5C"

definition MOD_SHIFT :: int where "MOD_SHIFT = 1"
definition MOD_ALT :: int where "MOD_ALT = 2"
definition MOD_CTRL :: int where "MOD_CTRL = 4"

definition KEY_PRESS :: int where "KEY_PRESS = 1"
definition KEY_REPEAT :: int where "KEY_REPEAT = 2"
definition KEY_RELEASE :: int where "KEY_RELEASE = 3"

definition KEY_TAB :: int where "KEY_TAB = 9"
definition KEY_ENTER :: int where "KEY_ENTER = 13"
definition KEY_ESCAPE :: int where "KEY_ESCAPE = 27"
definition KEY_BACKSPACE :: int where "KEY_BACKSPACE = 127"

lemmas term_consts =
  ESC_def BEL_def DEL_def BACKSLASH_def MOD_SHIFT_def MOD_ALT_def MOD_CTRL_def
  KEY_PRESS_def KEY_REPEAT_def KEY_RELEASE_def
  KEY_TAB_def KEY_ENTER_def KEY_ESCAPE_def KEY_BACKSPACE_def

definition csi_letter_keys :: "byte \<rightharpoonup> int" where
  "csi_letter_keys = map_of
     [(0x41, 57352), (0x42, 57353), (0x43, 57351), (0x44, 57350), (0x45, 57427),
      (0x46, 57357), (0x48, 57356), (0x50, 57364), (0x51, 57365), (0x53, 57367)]"

definition ss3_keys :: "byte \<rightharpoonup> int" where
  "ss3_keys = map_of
     [(0x41, 57352), (0x42, 57353), (0x43, 57351), (0x44, 57350), (0x45, 57427),
      (0x46, 57357), (0x48, 57356), (0x4D, 57414), (0x50, 57364), (0x51, 57365),
      (0x52, 57366), (0x53, 57367)]"

definition csi_tilde_keys :: "int \<rightharpoonup> int" where
  "csi_tilde_keys = map_of
     [(1, 57356), (2, 57348), (3, 57349), (4, 57357), (5, 57354), (6, 57355), (7, 57356),
      (8, 57357), (11, 57364), (12, 57365), (13, 57366), (14, 57367), (15, 57368),
      (17, 57369), (18, 57370), (19, 57371), (20, 57372), (21, 57373), (23, 57374),
      (24, 57375), (29, 57363)]"

definition c0_keys :: "byte \<rightharpoonup> int" where
  "c0_keys = map_of
     [(0x08, KEY_BACKSPACE), (0x09, KEY_TAB), (0x0D, KEY_ENTER), (DEL, KEY_BACKSPACE)]"

definition sgr_modifiers :: "(int \<times> int) list" where
  "sgr_modifiers = [(4, MOD_SHIFT), (8, MOD_ALT), (16, MOD_CTRL)]"

record key_event =
  key_code :: int
  key_shifted :: int
  key_base :: int
  key_mods :: int
  key_event_type :: int
  key_text :: pystr

text \<open>The dataclass's defaults.\<close>

definition plain_key :: "int \<Rightarrow> key_event" where
  "plain_key code = \<lparr>key_code = code, key_shifted = 0, key_base = 0, key_mods = 0,
     key_event_type = KEY_PRESS, key_text = []\<rparr>"

datatype mouse_action = Wheel | Motion | Press | Release

record mouse_event =
  mouse_x :: int
  mouse_y :: int
  mouse_button :: int
  mouse_action :: mouse_action
  mouse_mods :: int

record graphics_response =
  image_id :: int
  graphics_ok :: bool
  graphics_message :: pystr

datatype tevent =
    Key key_event
  | Mouse mouse_event
  | Graphics graphics_response
  | KeyboardFlags int
  | TextReport int "int list"

section \<open>Parameters\<close>

definition utf8_length :: "byte \<Rightarrow> nat" where
  "utf8_length first =
     (if first < 0x80 then 1
      else if first < 0xC0 then 0
      else if first < 0xE0 then 2
      else if first < 0xF0 then 3
      else if first < 0xF8 then 4
      else 0)"

definition parse_param :: "bytes \<Rightarrow> int result" where
  "parse_param value = (if bytes_isdigit value then bytes_int value else Inr (-1))"

definition parse_params :: "bytes \<Rightarrow> int list list result" where
  "parse_params raw =
     emap (\<lambda>part. emap parse_param (split_on 0x3A part)) (split_on 0x3B raw)"

definition parse_key_params :: "int \<Rightarrow> int list list \<Rightarrow> tevent list" where
  "parse_key_params code groups =
     (if code \<le> 0 then []
      else
        let first = (case groups of [] \<Rightarrow> [] | g # _ \<Rightarrow> g);
            shifted = (if length first > 1 \<and> first ! 1 > 0 then first ! 1 else 0);
            base = (if length first > 2 \<and> first ! 2 > 0 then first ! 2 else 0);
            second = (if length groups > 1 then groups ! 1 else []);
            raw_mods = (if second \<noteq> [] \<and> second ! 0 > 0 then second ! 0 else 1);
            etype = (if length second > 1 \<and> second ! 1 > 0 then second ! 1 else KEY_PRESS);
            etype' = (if etype \<notin> {KEY_PRESS, KEY_REPEAT, KEY_RELEASE} then KEY_PRESS else etype);
            txt = (if length groups > 2 then filter (\<lambda>c. 0 < c \<and> c \<le> 0x10FFFF) (groups ! 2) else [])
        in [Key \<lparr>key_code = code, key_shifted = shifted, key_base = base,
              key_mods = max 0 (raw_mods - 1), key_event_type = etype', key_text = txt\<rparr>])"

definition sgr_mods :: "int \<Rightarrow> int" where
  "sgr_mods b = foldl (\<lambda>m (sgr_bit, mod_bit). if b AND sgr_bit \<noteq> 0 then m OR mod_bit else m) 0 sgr_modifiers"

definition parse_mouse_params :: "int list list \<Rightarrow> byte \<Rightarrow> tevent list result" where
  "parse_mouse_params groups final =
     (if length groups \<noteq> 3 then Inr []
      else ebind (emap (\<lambda>g. case g of [] \<Rightarrow> Inl IndexError | v # _ \<Rightarrow> Inr v) groups) (\<lambda>values.
        if Min (set values) < 0 then Inr []
        else
          let b = values ! 0; x = values ! 1; y = values ! 2;
              low = b AND 3;
              group = drop_bit 6 b AND 3;
              button = (if group = 0 then (if low = 3 then 0 else low + 1) else group * 4 + low);
              event = (if group = 1 then Wheel
                       else if b AND 32 \<noteq> 0 then Motion
                       else if final = 0x4D then Press else Release)
          in Inr [Mouse \<lparr>mouse_x = x, mouse_y = y, mouse_button = button,
                    mouse_action = event, mouse_mods = sgr_mods b\<rparr>]))"

text \<open>
  The graphics answer is decoded as latin1, so its code points are its bytes. \<^verbatim>\<open>str.isdigit\<close>
  accepts the three latin1 superscripts, which \<^verbatim>\<open>int()\<close> does not.
\<close>

definition str_isdigit :: "pystr \<Rightarrow> bool" where
  "str_isdigit v \<longleftrightarrow> v \<noteq> [] \<and> list_all (\<lambda>c. decimal_char c \<or> c \<in> {0xB2, 0xB3, 0xB9}) v"

fun graphics_image_id :: "pystr list \<Rightarrow> int \<Rightarrow> int result" where
  "graphics_image_id [] iid = Inr iid"
| "graphics_image_id (kv # kvs) iid =
     (let (key, value) = cut_at 0x3D kv
      in if key = [0x69] \<and> str_isdigit value
         then ebind (py_int value) (graphics_image_id kvs)
         else graphics_image_id kvs iid)"

definition parse_graphics_response :: "bytes \<Rightarrow> tevent list result" where
  "parse_graphics_response body =
     (if take 1 body \<noteq> [0x47] then Inr []
      else
        let text = map uint (drop 1 body);
            (control, message) = cut_at 0x3B text
        in ebind (graphics_image_id (split_on 0x2C control) 0) (\<lambda>iid.
             Inr [Graphics \<lparr>image_id = iid, graphics_ok = (message = [0x4F, 0x4B]),
                    graphics_message = message\<rparr>]))"

section \<open>The parser\<close>

subsection \<open>Control sequences\<close>

definition csi_events :: "bytes \<Rightarrow> bytes \<Rightarrow> byte \<Rightarrow> tevent list result" where
  "csi_events params intermediates final =
     (if intermediates \<noteq> [] then Inr []
      else
        let prefix = (if take 1 params \<in> {[0x3C], [0x3D], [0x3E], [0x3F]} then take 1 params else []);
            rest = drop (length prefix) params
        in if final = 0x75 then
             (if prefix = [0x3F] then
                (if bytes_isdigit rest
                 then ebind (bytes_int rest) (\<lambda>flags. Inr [KeyboardFlags flags])
                 else Inr [KeyboardFlags 0])
              else if prefix \<noteq> [] then Inr []
              else ebind (parse_params rest) (\<lambda>groups.
                let code = (case groups of (v # _) # _ \<Rightarrow> v | _ \<Rightarrow> -1)
                in Inr (parse_key_params code groups)))
           else if prefix = [0x3C] \<and> final \<in> {0x4D, 0x6D} then
             ebind (parse_params rest) (\<lambda>groups. parse_mouse_params groups final)
           else if prefix \<noteq> [] then Inr []
           else if final = 0x7E then
             ebind (parse_params rest) (\<lambda>groups.
               let number = (case groups of (v # _) # _ \<Rightarrow> v | _ \<Rightarrow> -1)
               in case csi_tilde_keys number of
                    None \<Rightarrow> Inr []
                  | Some code \<Rightarrow> Inr (parse_key_params code groups))
           else (case csi_letter_keys final of
               Some code \<Rightarrow>
                 ebind (parse_params rest) (\<lambda>groups. Inr (parse_key_params code groups))
             | None \<Rightarrow>
                 if final = 0x74 then
                   ebind (parse_params rest) (\<lambda>groups.
                   ebind (emap (\<lambda>g. case g of [] \<Rightarrow> Inl IndexError | v # _ \<Rightarrow> Inr v) groups) (\<lambda>values.
                     case values of
                       [] \<Rightarrow> Inr []
                     | v # vs \<Rightarrow> if v < 0 then Inr [] else Inr [TextReport v vs]))
                 else Inr []))"

text \<open>
  One scanning loop of \<^verbatim>\<open>_parse_csi\<close>: \<open>i\<close> counts from the \<open>ESC\<close>; \<open>True\<close> says that it gave up.
\<close>

fun scan_csi :: "byte \<Rightarrow> byte \<Rightarrow> bytes \<Rightarrow> nat \<Rightarrow> bool \<times> nat" where
  "scan_csi lo hi [] i = (False, i)"
| "scan_csi lo hi (b # bs) i =
     (if lo \<le> b \<and> b \<le> hi
      then (if Suc i > max_escape then (True, Suc i) else scan_csi lo hi bs (Suc i))
      else (False, i))"

definition outcome_of :: "nat \<Rightarrow> 'e list result \<Rightarrow> 'e outcome" where
  "outcome_of n r = (case r of Inl e \<Rightarrow> Raised e | Inr es \<Rightarrow> Took n es)"

definition parse_csi :: "bytes \<Rightarrow> tevent outcome" where
  "parse_csi s =
     (let (gave_up, i) = scan_csi 0x30 0x3F (drop 2 s) 2
      in if gave_up then Took i []
         else
           let params = take (i - 2) (drop 2 s);
               (gave_up', j) = scan_csi 0x20 0x2F (drop i s) i
           in if gave_up' then Took j []
              else
                let intermediates = take (j - i) (drop i s)
                in if j \<ge> length s then NeedMore
                   else
                     let final = s ! j
                     in if \<not> (0x40 \<le> final \<and> final \<le> 0x7E) then Took j []
                        else outcome_of (j + 1) (csi_events params intermediates final))"

subsection \<open>String sequences\<close>

text \<open>
  \<open>scan_string_from allow_bel cs i\<close> is the loop of \<^verbatim>\<open>_scan_string\<close> with \<open>cs\<close> the bytes from index
  \<open>i\<close> on; the second component is \<open>Some j\<close> where a body was found, which ends at index \<open>j\<close>.
\<close>

datatype scan_result = ScanMore | ScanEnd nat "nat option"

fun scan_string_from :: "bool \<Rightarrow> bytes \<Rightarrow> nat \<Rightarrow> scan_result" where
  "scan_string_from allow_bel [] i = ScanMore"
| "scan_string_from allow_bel (c # cs) i =
     (if allow_bel \<and> c = BEL then ScanEnd (i + 1) (Some i)
      else if c = ESC then
        (case cs of
           [] \<Rightarrow> ScanMore
         | d # _ \<Rightarrow> if d = BACKSLASH then ScanEnd (i + 2) (Some i) else ScanEnd i None)
      else if Suc i > max_escape then ScanEnd (Suc i) None
      else scan_string_from allow_bel cs (Suc i))"

definition scan_string :: "bytes \<Rightarrow> bool \<Rightarrow> (nat \<times> bytes option) option" where
  "scan_string s allow_bel =
     (case scan_string_from allow_bel (drop 2 s) 2 of
        ScanMore \<Rightarrow> None
      | ScanEnd n b \<Rightarrow> Some (n, map_option (\<lambda>i. take (i - 2) (drop 2 s)) b))"

definition parse_apc :: "bytes \<Rightarrow> tevent outcome" where
  "parse_apc s =
     (case scan_string s False of
        None \<Rightarrow> NeedMore
      | Some (n, None) \<Rightarrow> Took n []
      | Some (n, Some body) \<Rightarrow> outcome_of n (parse_graphics_response body))"

definition skip_string :: "bytes \<Rightarrow> bool \<Rightarrow> tevent outcome" where
  "skip_string s allow_bel =
     (case scan_string s allow_bel of None \<Rightarrow> NeedMore | Some (n, _) \<Rightarrow> Took n [])"

subsection \<open>Legacy keys\<close>

text \<open>
  The standard library's strict UTF-8 decoder on the bytes of one character: \<open>None\<close> where it
  raises \<^verbatim>\<open>UnicodeDecodeError\<close> (a missing continuation byte, an overlong form, a surrogate or
  a value above 0x10FFFF).
\<close>

definition is_cont :: "byte \<Rightarrow> bool" where
  "is_cont b \<longleftrightarrow> 0x80 \<le> b \<and> b \<le> 0xBF"

fun utf8_decode_char :: "bytes \<Rightarrow> int option" where
  "utf8_decode_char [a] = (if a < 0x80 then Some (uint a) else None)"
| "utf8_decode_char [a, b] =
     (if 0xC2 \<le> a \<and> a \<le> 0xDF \<and> is_cont b
      then Some ((uint a - 0xC0) * 64 + (uint b - 0x80)) else None)"
| "utf8_decode_char [a, b, c] =
     (if 0xE0 \<le> a \<and> a \<le> 0xEF \<and> is_cont b \<and> is_cont c
          \<and> (a = 0xE0 \<longrightarrow> 0xA0 \<le> b) \<and> (a = 0xED \<longrightarrow> b \<le> 0x9F)
      then Some ((uint a - 0xE0) * 4096 + (uint b - 0x80) * 64 + (uint c - 0x80)) else None)"
| "utf8_decode_char [a, b, c, d] =
     (if 0xF0 \<le> a \<and> a \<le> 0xF4 \<and> is_cont b \<and> is_cont c \<and> is_cont d
          \<and> (a = 0xF0 \<longrightarrow> 0x90 \<le> b) \<and> (a = 0xF4 \<longrightarrow> b \<le> 0x8F)
      then Some ((uint a - 0xF0) * 262144 + (uint b - 0x80) * 4096 + (uint c - 0x80) * 64 + (uint d - 0x80))
      else None)"
| "utf8_decode_char _ = None"

definition parse_legacy :: "bytes \<Rightarrow> int \<Rightarrow> tevent outcome" where
  "parse_legacy s mods =
     (case s of
        [] \<Rightarrow> Raised IndexError
      | b # _ \<Rightarrow>
        (case c0_keys b of
           Some code \<Rightarrow> Took 1 [Key ((plain_key code)\<lparr>key_mods := mods\<rparr>)]
         | None \<Rightarrow>
           if b < 0x20 then
             let code = (if 1 \<le> b \<and> b \<le> 26 then uint b + 96 else uint b + 64)
             in Took 1 [Key ((plain_key code)\<lparr>key_mods := mods OR MOD_CTRL\<rparr>)]
           else
             let size = utf8_length b
             in if size = 0 then Took 1 []
                else if size > length s then NeedMore
                else (case utf8_decode_char (take size s) of
                        None \<Rightarrow> Took 1 []
                      | Some c \<Rightarrow> Took size [Key ((plain_key c)\<lparr>key_mods := mods, key_text := [c]\<rparr>)])))"

definition parse_ss3 :: "bytes \<Rightarrow> tevent outcome" where
  "parse_ss3 s =
     (if 2 \<ge> length s then NeedMore
      else
        let final = s ! 2
        in if \<not> (0x20 \<le> final \<and> final \<le> 0x7E) then Took 2 []
           else (case ss3_keys final of
                   None \<Rightarrow> Took 3 []
                 | Some code \<Rightarrow> Took 3 [Key (plain_key code)]))"

subsection \<open>One event, and the loop\<close>

definition parse_escape :: "bytes \<Rightarrow> tevent outcome" where
  "parse_escape s =
     (if 1 \<ge> length s then NeedMore
      else
        let c = s ! 1
        in if c = 0x5B then parse_csi s
           else if c = 0x5F then parse_apc s
           else if c = 0x5D then skip_string s True
           else if c \<in> {0x50, 0x5E, 0x58} then skip_string s False
           else if c = 0x4F then parse_ss3 s
           else if c = ESC then Took 1 [Key (plain_key KEY_ESCAPE)]
           else (case parse_legacy (drop 1 s) MOD_ALT of
                   NeedMore \<Rightarrow> NeedMore
                 | Took n es \<Rightarrow> Took (n + 1) es
                 | Raised e \<Rightarrow> Raised e))"

definition parse_one :: "bytes \<Rightarrow> tevent outcome" where
  "parse_one s =
     (case s of
        [] \<Rightarrow> NeedMore
      | b # _ \<Rightarrow> if b = ESC then parse_escape s else parse_legacy s 0)"

definition force_one :: "bytes \<Rightarrow> nat \<times> tevent list" where
  "force_one s = (if s = [ESC] then (1, [Key (plain_key KEY_ESCAPE)]) else (length s, []))"

section \<open>Every step consumes something, and more input does not change it\<close>

lemma scan_csi_bounds: "scan_csi lo hi bs i = (g, j) \<Longrightarrow> i \<le> j \<and> j \<le> i + length bs"
  by (induction bs arbitrary: i) (fastforce split: if_splits)+

lemma scan_csi_stable:
  "scan_csi lo hi bs i = (g, j) \<Longrightarrow> g \<or> j < i + length bs \<Longrightarrow> scan_csi lo hi (bs @ zs) i = (g, j)"
  by (induction bs arbitrary: i) (fastforce split: if_splits)+

lemma scan_csi_escape: "scan_csi lo hi bs i = (False, j) \<Longrightarrow> i \<le> max_escape \<Longrightarrow> j \<le> max_escape"
  by (induction bs arbitrary: i) (auto split: if_splits)

lemma scan_csi_drop:
  assumes "n \<le> length s" "scan_csi lo hi (drop n s) n = (g, j)"
  shows "n \<le> j" "j \<le> length s"
  using scan_csi_bounds [OF assms(2)] assms(1) by simp_all

lemma scan_csi_drop_stable:
  assumes "n \<le> length s" "scan_csi lo hi (drop n s) n = (g, j)" "g \<or> j < length s"
  shows "scan_csi lo hi (drop n (s @ zs)) n = (g, j)"
  using scan_csi_stable [OF assms(2), of zs] assms(1,3) by simp

lemma outcome_of_Took: "outcome_of n r = Took m es \<longleftrightarrow> m = n \<and> r = Inr es"
  by (auto simp: outcome_of_def split: sum.splits)

lemma outcome_of_Raised: "outcome_of n r = Raised e \<longleftrightarrow> r = Inl e"
  by (auto simp: outcome_of_def split: sum.splits)

lemma outcome_of_more: "outcome_of n r \<noteq> NeedMore"
  by (simp add: outcome_of_def split: sum.splits)

lemma parse_csi_bounds:
  assumes "2 \<le> length s" "parse_csi s = Took n es"
  shows "0 < n \<and> n \<le> length s"
proof -
  obtain g i where i: "scan_csi 0x30 0x3F (drop 2 s) 2 = (g, i)" by fastforce
  obtain h j where j: "scan_csi 0x20 0x2F (drop i s) i = (h, j)" by fastforce
  note b = scan_csi_drop [OF assms(1) i]
  note c = scan_csi_drop [OF b(2) j]
  show ?thesis
    using assms(2) b c by (auto simp: parse_csi_def i j Let_def outcome_of_Took split: if_splits)
qed

lemma parse_csi_stable:
  assumes len: "2 \<le> length s" and r: "parse_csi s \<noteq> NeedMore"
  shows "parse_csi (s @ zs) = parse_csi s"
proof -
  obtain g i where i: "scan_csi 0x30 0x3F (drop 2 s) 2 = (g, i)" by fastforce
  obtain h j where j: "scan_csi 0x20 0x2F (drop i s) i = (h, j)" by fastforce
  note b = scan_csi_drop [OF len i]
  note c = scan_csi_drop [OF b(2) j]
  show ?thesis
  proof (cases g)
    case True
    then show ?thesis
      using scan_csi_drop_stable [OF len i] by (simp add: parse_csi_def i)
  next
    case False
    with r have h: "h \<or> j < length s"
      by (auto simp: parse_csi_def i j Let_def split: if_splits)
    have "i < length s"
    proof (rule ccontr)
      assume "\<not> i < length s"
      with b have "i = length s" by simp
      with j h show False by simp
    qed
    then have i': "scan_csi 0x30 0x3F (drop 2 (s @ zs)) 2 = (g, i)"
      using scan_csi_drop_stable [OF len i] by simp
    have j': "scan_csi 0x20 0x2F (drop i (s @ zs)) i = (h, j)"
      using scan_csi_drop_stable [OF b(2) j h] .
    show ?thesis
      unfolding parse_csi_def i i' Let_def prod.case j j'
      using False h b c len by (auto simp: nth_append)
  qed
qed

lemma scan_string_from_bounds:
  "scan_string_from ab cs i = ScanEnd n b \<Longrightarrow>
     i \<le> n \<and> n \<le> i + length cs \<and> (\<forall>k. b = Some k \<longrightarrow> i \<le> k \<and> k < n)"
proof (induction cs arbitrary: i)
  case (Cons c cs)
  show ?case
  proof (cases "(ab \<and> c = BEL) \<or> c = ESC \<or> Suc i > max_escape")
    case True
    with Cons.prems show ?thesis by (auto split: if_splits list.splits)
  next
    case False
    with Cons.prems have "scan_string_from ab cs (Suc i) = ScanEnd n b" by auto
    from Cons.IH [OF this] show ?thesis by auto
  qed
qed simp

lemma scan_string_from_stable:
  "scan_string_from ab cs i = ScanEnd n b \<Longrightarrow> scan_string_from ab (cs @ zs) i = ScanEnd n b"
  by (induction cs arbitrary: i) (auto split: if_splits list.splits)

lemma scan_string_from_escape:
  "scan_string_from ab cs i = ScanMore \<Longrightarrow> i \<le> max_escape \<Longrightarrow> i + length cs \<le> max_escape + 1"
proof (induction cs arbitrary: i)
  case (Cons c cs)
  show ?case
  proof (cases "c = ESC")
    case True
    with Cons.prems show ?thesis by (auto split: if_splits list.splits)
  next
    case False
    with Cons.prems have "scan_string_from ab cs (Suc i) = ScanMore" "Suc i \<le> max_escape"
      by (auto split: if_splits)
    then have "Suc i + length cs \<le> max_escape + 1" by (rule Cons.IH)
    then show ?thesis by simp
  qed
qed simp

lemma scan_string_Some:
  assumes "2 \<le> length s" "scan_string s ab = Some (n, b)"
  shows "0 < n" "n \<le> length s" "scan_string (s @ zs) ab = Some (n, b)"
proof -
  obtain k where k: "scan_string_from ab (drop 2 s) 2 = ScanEnd n k"
      and b: "b = map_option (\<lambda>i. take (i - 2) (drop 2 s)) k"
    using assms(2) by (auto simp: scan_string_def split: scan_result.splits)
  note bd = scan_string_from_bounds [OF k]
  show "0 < n" "n \<le> length s" using bd assms(1) by auto
  have "scan_string_from ab (drop 2 (s @ zs)) 2 = ScanEnd n k"
    using scan_string_from_stable [OF k, of zs] assms(1) by simp
  then show "scan_string (s @ zs) ab = Some (n, b)"
    using bd assms(1) by (cases k) (auto simp: scan_string_def b)
qed

lemma skip_string_step:
  assumes "2 \<le> length s" "skip_string s ab \<noteq> NeedMore"
  shows "skip_string (s @ zs) ab = skip_string s ab"
    and "skip_string s ab = Took n es \<Longrightarrow> 0 < n \<and> n \<le> length s"
  using assms scan_string_Some [OF assms(1), of ab]
  by (auto simp: skip_string_def split: option.splits)

lemma parse_apc_step:
  assumes "2 \<le> length s" "parse_apc s \<noteq> NeedMore"
  shows "parse_apc (s @ zs) = parse_apc s"
    and "parse_apc s = Took n es \<Longrightarrow> 0 < n \<and> n \<le> length s"
  using assms scan_string_Some [OF assms(1), of False]
  by (auto simp: parse_apc_def outcome_of_Took split: option.splits)

lemma utf8_length_le: "utf8_length b \<le> 4"
  by (simp add: utf8_length_def)

text \<open>What \<^verbatim>\<open>_parse_legacy\<close> does with a byte that starts a character.\<close>

definition legacy_char :: "bytes \<Rightarrow> nat \<Rightarrow> int \<Rightarrow> tevent outcome" where
  "legacy_char s k mods =
     (if k = 0 then Took 1 []
      else if k > length s then NeedMore
      else (case utf8_decode_char (take k s) of
              None \<Rightarrow> Took 1 []
            | Some c \<Rightarrow> Took k [Key ((plain_key c)\<lparr>key_mods := mods, key_text := [c]\<rparr>)]))"

lemma legacy_char_step:
  assumes "s \<noteq> []" "legacy_char s k mods \<noteq> NeedMore"
  shows "legacy_char (s @ zs) k mods = legacy_char s k mods"
    and "legacy_char s k mods = Took n es \<Longrightarrow> 0 < n \<and> n \<le> length s"
proof -
  have sz: "k = 0 \<or> k \<le> length s"
    using assms(2) by (auto simp: legacy_char_def split: if_splits)
  then show "legacy_char (s @ zs) k mods = legacy_char s k mods"
    by (auto simp: legacy_char_def)
  have "1 \<le> length s" using assms(1) by (cases s) simp_all
  with sz show "legacy_char s k mods = Took n es \<Longrightarrow> 0 < n \<and> n \<le> length s"
    by (auto simp: legacy_char_def split: if_splits option.splits)
qed

lemma parse_legacy_Cons:
  "parse_legacy (b # s) mods =
     (case c0_keys b of
        Some code \<Rightarrow> Took 1 [Key ((plain_key code)\<lparr>key_mods := mods\<rparr>)]
      | None \<Rightarrow>
        if b < 0x20 then
          Took 1 [Key ((plain_key (if 1 \<le> b \<and> b \<le> 26 then uint b + 96 else uint b + 64))
            \<lparr>key_mods := mods OR MOD_CTRL\<rparr>)]
        else legacy_char (b # s) (utf8_length b) mods)"
  by (simp only: parse_legacy_def legacy_char_def Let_def list.case)

lemma parse_legacy_step:
  assumes "s \<noteq> []" "parse_legacy s mods \<noteq> NeedMore"
  shows "parse_legacy (s @ zs) mods = parse_legacy s mods"
    and "parse_legacy s mods = Took n es \<Longrightarrow> 0 < n \<and> n \<le> length s"
proof -
  obtain b t where s: "s = b # t" using assms(1) by (cases s) auto
  show "parse_legacy (s @ zs) mods = parse_legacy s mods"
    using assms(2) legacy_char_step(1) [of "b # t" "utf8_length b" mods zs]
    by (auto simp: s parse_legacy_Cons split: option.splits)
  show "parse_legacy s mods = Took n es \<Longrightarrow> 0 < n \<and> n \<le> length s"
    using assms(2) legacy_char_step(2) [of "b # t" "utf8_length b" mods n es]
    by (auto simp: s parse_legacy_Cons split: option.splits if_splits)
qed

lemma parse_ss3_step:
  assumes "parse_ss3 s \<noteq> NeedMore"
  shows "parse_ss3 (s @ zs) = parse_ss3 s"
    and "parse_ss3 s = Took n es \<Longrightarrow> 0 < n \<and> n \<le> length s"
  using assms
  by (auto simp: parse_ss3_def Let_def nth_append split: if_splits option.splits)

lemma parse_escape_step:
  assumes ne: "parse_escape s \<noteq> NeedMore"
  shows "parse_escape (s @ zs) = parse_escape s"
    and "parse_escape s = Took n es \<Longrightarrow> 0 < n \<and> n \<le> length s"
proof -
  have len: "2 \<le> length s"
    using ne by (auto simp: parse_escape_def split: if_splits)
  then obtain e c t where s: "s = e # c # t"
    by (metis One_nat_def Suc_1 Suc_le_length_iff)
  have leg: "parse_legacy (c # t) MOD_ALT \<noteq> NeedMore"
    if "c \<notin> {0x5B, 0x5F, 0x5D, 0x50, 0x5E, 0x58, 0x4F, ESC}"
    using ne that by (auto simp: parse_escape_def s Let_def split: outcome.splits)
  consider "c = 0x5B" | "c = 0x5F" | "c = 0x5D" | "c \<in> {0x50, 0x5E, 0x58}" | "c = 0x4F" | "c = ESC"
    | "c \<notin> {0x5B, 0x5F, 0x5D, 0x50, 0x5E, 0x58, 0x4F, ESC}"
    by blast
  then have "parse_escape (s @ zs) = parse_escape s \<and>
      (\<forall>n es. parse_escape s = Took n es \<longrightarrow> 0 < n \<and> n \<le> length s)"
  proof cases
    case 1
    then show ?thesis
      using ne parse_csi_stable [OF len, of zs] parse_csi_bounds [OF len]
      by (simp add: parse_escape_def s)
  next
    case 2
    then show ?thesis
      using ne parse_apc_step(1) [OF len, of zs] parse_apc_step(2) [OF len] by (simp add: parse_escape_def s)
  next
    case 3
    then show ?thesis
      using ne skip_string_step(1) [OF len, of True zs] skip_string_step(2) [OF len, of True] by (simp add: parse_escape_def s)
  next
    case 4
    then show ?thesis
      using ne skip_string_step(1) [OF len, of False zs] skip_string_step(2) [OF len, of False] by (auto simp add: parse_escape_def s)
  next
    case 5
    then show ?thesis
      using ne parse_ss3_step(1) [of s zs] parse_ss3_step(2) [of s] by (simp add: parse_escape_def s)
  next
    case 6
    then show ?thesis by (simp add: parse_escape_def s ESC_def)
  next
    case 7
    have "parse_legacy (c # t @ zs) MOD_ALT = parse_legacy (c # t) MOD_ALT"
      using parse_legacy_step(1) [of "c # t" MOD_ALT zs] leg [OF 7] by simp
    with 7 show ?thesis
      using parse_legacy_step(2) [of "c # t" MOD_ALT] leg [OF 7] by (auto simp: parse_escape_def s split: outcome.splits)
  qed
  then show "parse_escape (s @ zs) = parse_escape s"
    and "parse_escape s = Took n es \<Longrightarrow> 0 < n \<and> n \<le> length s" by blast+
qed

lemma parse_one_step:
  assumes "parse_one s \<noteq> NeedMore"
  shows "parse_one (s @ zs) = parse_one s"
    and "parse_one s = Took n es \<Longrightarrow> 0 < n \<and> n \<le> length s"
proof -
  obtain b t where s: "s = b # t" using assms by (cases s) (auto simp: parse_one_def)
  show "parse_one (s @ zs) = parse_one s"
    using assms parse_escape_step(1) [of s zs] parse_legacy_step(1) [of s 0 zs]
    by (auto simp: parse_one_def s)
  show "parse_one s = Took n es \<Longrightarrow> 0 < n \<and> n \<le> length s"
    using assms parse_escape_step(2) [of s n es] parse_legacy_step(2) [of s 0 n es]
    by (auto simp: parse_one_def s split: if_splits)
qed

section \<open>The parser object\<close>

text \<open>The \<^verbatim>\<open>while\<close> loop of \<^verbatim>\<open>_parse\<close>: the events and the buffer left over, or an exception.\<close>

function parse_loop :: "bool \<Rightarrow> bytes \<Rightarrow> (tevent list \<times> bytes) result" where
  "parse_loop force s =
     (if s = [] then Inr ([], [])
      else case parse_one s of
        NeedMore \<Rightarrow>
          if \<not> force then Inr ([], s)
          else (case force_one s of (n, es) \<Rightarrow>
            ebind (parse_loop force (drop n s)) (\<lambda>(es', rest). Inr (es @ es', rest)))
      | Took n es \<Rightarrow> ebind (parse_loop force (drop n s)) (\<lambda>(es', rest). Inr (es @ es', rest))
      | Raised e \<Rightarrow> Inl e)"
  by pat_completeness auto
termination
proof (relation "measure (\<lambda>(force, s). length s)", goal_cases)
  case (2 force s n es)
  then show ?case by (auto simp: force_one_def split: if_splits)
next
  case (3 force s n es)
  then show ?case using parse_one_step(2) [of s n es] by auto
qed simp

declare parse_loop.simps [simp del]

record input_parser =
  parser_buf :: bytes

definition new_parser :: input_parser where
  "new_parser = \<lparr>parser_buf = []\<rparr>"

definition pending :: "input_parser \<Rightarrow> nat" where
  "pending p = length (parser_buf p)"

text \<open>
  \<^verbatim>\<open>_parse\<close> stores the new buffer only when its loop ends: an exception leaves \<^verbatim>\<open>_buf\<close> as it was.
\<close>

definition parse_buf :: "input_parser \<Rightarrow> bool \<Rightarrow> tevent list result \<times> input_parser" where
  "parse_buf p force =
     (case parse_loop force (parser_buf p) of
        Inl e \<Rightarrow> (Inl e, p)
      | Inr (es, rest) \<Rightarrow> (Inr es, p\<lparr>parser_buf := rest\<rparr>))"

definition feed :: "input_parser \<Rightarrow> bytes \<Rightarrow> tevent list result \<times> input_parser" where
  "feed p data = parse_buf (p\<lparr>parser_buf := parser_buf p @ data\<rparr>) False"

definition flush :: "input_parser \<Rightarrow> tevent list result \<times> input_parser" where
  "flush p = parse_buf p True"

interpretation term_parser: incremental_parser parse_one "parse_loop False"
proof
  fix s zs :: bytes and n es e
  show "parse_one s = Took n es \<Longrightarrow> 0 < n \<and> n \<le> length s"
    using parse_one_step(2) by force
  show "parse_one s = Took n es \<Longrightarrow> parse_one (s @ zs) = Took n es"
    using parse_one_step(1) by force
  show "parse_one s = Raised e \<Longrightarrow> parse_one (s @ zs) = Raised e"
    using parse_one_step(1) by force
  show "parse_one [] = NeedMore"
    by (simp add: parse_one_def)
  show "parse_one s = NeedMore \<Longrightarrow> parse_loop False s = Inr ([], s)"
    by (simp add: parse_loop.simps)
  show "parse_one s = Raised e \<Longrightarrow> parse_loop False s = Inl e"
    by (auto simp: parse_loop.simps [of False s] parse_one_def)
  show "parse_one s = Took n es \<Longrightarrow> parse_loop False s =
      ebind (parse_loop False (drop n s)) (\<lambda>(es', rest). Inr (es @ es', rest))"
    by (cases "s = []") (auto simp: parse_loop.simps [of False s] parse_one_def)
qed

section \<open>What the parser guarantees\<close>

text \<open>A run of \<open>feed\<close> calls: the events of all of them, or the first exception.\<close>

fun feeds :: "input_parser \<Rightarrow> bytes list \<Rightarrow> tevent list result \<times> input_parser" where
  "feeds p [] = (Inr [], p)"
| "feeds p (c # cs) =
     (case feed p c of
        (Inl e, p') \<Rightarrow> (Inl e, p')
      | (Inr es, p') \<Rightarrow>
          (case feeds p' cs of
             (Inl e, p'') \<Rightarrow> (Inl e, p'')
           | (Inr es', p'') \<Rightarrow> (Inr (es @ es'), p'')))"

lemma feeds_feed_chunks:
  "case feed_chunks (parse_loop False) (parser_buf p) cs of
     Inl e \<Rightarrow> fst (feeds p cs) = Inl e
   | Inr (es, rest) \<Rightarrow> feeds p cs = (Inr es, \<lparr>parser_buf = rest\<rparr>)"
proof (induction cs arbitrary: p)
  case Nil
  then show ?case by simp
next
  case (Cons c cs)
  show ?case
  proof (cases "parse_loop False (parser_buf p @ c)")
    case (Inl e)
    then show ?thesis by (simp add: feed_def parse_buf_def)
  next
    case (Inr r)
    obtain es rest where r: "r = (es, rest)" by (cases r)
    with Inr have f: "feed p c = (Inr es, \<lparr>parser_buf = rest\<rparr>)"
      by (simp add: feed_def parse_buf_def)
    show ?thesis
      using Cons.IH [of "\<lparr>parser_buf = rest\<rparr>"]
      by (auto simp: f Inr r split: sum.splits prod.splits)
  qed
qed

text \<open>
  C31: the module's own promise, that feeding the same bytes one at a time or all at once yields
  the same events: for any way of cutting the input into pieces, the run of \<open>feed\<close> calls returns
  the events, and leaves the buffer, of one \<open>feed\<close> of the whole; and it raises exactly when
  that one call raises, with the same exception.
\<close>

theorem terminal_pieces_do_not_matter:
  "case feeds new_parser pieces of
     (Inl e, _) \<Rightarrow> fst (feed new_parser (concat pieces)) = Inl e
   | (Inr es, p) \<Rightarrow> feed new_parser (concat pieces) = (Inr es, p)"
proof -
  have whole: "feed_chunks (parse_loop False) (parser_buf new_parser) pieces = parse_loop False (concat pieces)"
    by (simp add: new_parser_def term_parser.feed_from_empty)
  have one: "feed new_parser (concat pieces) =
      (case parse_loop False (concat pieces) of
         Inl e \<Rightarrow> (Inl e, \<lparr>parser_buf = concat pieces\<rparr>)
       | Inr (es, rest) \<Rightarrow> (Inr es, \<lparr>parser_buf = rest\<rparr>))"
    by (simp add: feed_def parse_buf_def new_parser_def split: sum.splits prod.splits)
  show ?thesis
    using feeds_feed_chunks [of new_parser pieces] unfolding whole one
    by (auto split: sum.splits prod.splits)
qed

subsection \<open>The buffer is bounded\<close>

lemma parse_csi_more:
  assumes "2 \<le> length s" "parse_csi s = NeedMore"
  shows "length s \<le> max_escape"
proof -
  obtain g i where i: "scan_csi 0x30 0x3F (drop 2 s) 2 = (g, i)" by fastforce
  obtain h j where j: "scan_csi 0x20 0x2F (drop i s) i = (h, j)" by fastforce
  have "\<not> g" "\<not> h" "length s \<le> j"
    using assms(2)
    by (auto simp: parse_csi_def i j Let_def outcome_of_more split: if_splits)
  with i j have "i \<le> max_escape" "j \<le> max_escape"
    using scan_csi_escape [of _ _ "drop 2 s" 2 i] scan_csi_escape [of _ _ "drop i s" i j]
    by (auto simp: max_escape_def)
  with \<open>length s \<le> j\<close> show ?thesis by simp
qed

lemma scan_string_more: "scan_string s ab = None \<Longrightarrow> length s \<le> max_escape + 1"
  using scan_string_from_escape [of ab "drop 2 s" 2]
  by (auto simp: scan_string_def max_escape_def split: scan_result.splits)

lemma parse_legacy_more: "parse_legacy s mods = NeedMore \<Longrightarrow> length s \<le> 3"
proof (cases s)
  case (Cons b t)
  assume "parse_legacy s mods = NeedMore"
  then have "length s < utf8_length b"
    by (auto simp: Cons parse_legacy_Cons legacy_char_def split: option.splits if_splits)
  with utf8_length_le [of b] show ?thesis by simp
qed (simp add: parse_legacy_def)

lemma parse_one_more:
  assumes "parse_one s = NeedMore"
  shows "length s \<le> max_escape + 1"
proof (cases "parse_escape s = NeedMore \<and> 2 \<le> length s")
  case True
  then show ?thesis
    using parse_csi_more [of s] scan_string_more [of s] parse_legacy_more [of "drop 1 s" MOD_ALT]
    by (auto simp: parse_escape_def parse_apc_def skip_string_def parse_ss3_def Let_def
        outcome_of_more max_escape_def split: if_splits option.splits outcome.splits)
next
  case False
  then show ?thesis
    using assms parse_legacy_more [of s 0]
    by (auto simp: parse_one_def max_escape_def split: list.splits if_splits)
qed

text \<open>
  A terminal cannot make the client buffer without limit: whatever is fed in whatever state,
  a \<open>feed\<close> that returns leaves at most \<open>max_escape + 1\<close> bytes waiting.
\<close>

theorem terminal_buffer_bounded:
  assumes "feed p data = (Inr es, p')"
  shows "pending p' \<le> max_escape + 1"
proof -
  have "parse_loop False (parser_buf p @ data) = Inr (es, parser_buf p')"
    using assms by (auto simp: feed_def parse_buf_def split: sum.splits)
  then have "parse_one (parser_buf p') = NeedMore"
    by (rule term_parser.loop_rest_needs_more)
  then show ?thesis
    unfolding pending_def by (rule parse_one_more)
qed

theorem terminal_buffer_bounded_witness:
  "pending (snd (feed new_parser [ESC, 0x5B, 0x31])) \<le> max_escape + 1"
proof -
  have "feed new_parser [ESC, 0x5B, 0x31] = (Inr [], \<lparr>parser_buf = [ESC, 0x5B, 0x31]\<rparr>)"
    by (simp add: feed_def parse_buf_def new_parser_def parse_loop.simps parse_one_def
        parse_escape_def parse_csi_def ESC_def max_escape_def)
  from terminal_buffer_bounded [OF this] show ?thesis
    unfolding \<open>feed new_parser [ESC, 0x5B, 0x31] = _\<close> by simp
qed

subsection \<open>Flushing\<close>

lemma parse_loop_forced:
  assumes "parse_one s = NeedMore"
  shows "parse_loop True s = Inr (if s = [ESC] then [Key (plain_key KEY_ESCAPE)] else [], [])"
  using assms
  by (auto simp: parse_loop.simps [of True s] parse_loop.simps [of True "[]"] force_one_def
      split: if_splits)

lemma feed_pending: "feed p data = (Inr es, p') \<Longrightarrow> parse_one (parser_buf p') = NeedMore"
  by (auto simp: feed_def parse_buf_def intro: term_parser.loop_rest_needs_more split: sum.splits)

text \<open>
  \<open>flush\<close> drains whatever a successful \<open>feed\<close> left: a lone \<open>ESC\<close> becomes the Escape key, any
  other truncated sequence is dropped whole (none of its bytes is typed), nothing is raised and
  the buffer is empty again.
\<close>

theorem terminal_flush:
  assumes "feed p data = (Inr es, p')"
  shows "flush p' =
    (Inr (if parser_buf p' = [ESC] then [Key (plain_key KEY_ESCAPE)] else []), new_parser)"
  using parse_loop_forced [OF feed_pending [OF assms]]
  by (auto simp: flush_def parse_buf_def new_parser_def)

theorem terminal_flush_witness:
  "flush (snd (feed new_parser [ESC])) = (Inr [Key (plain_key KEY_ESCAPE)], new_parser)"
proof -
  have f: "feed new_parser [ESC] = (Inr [], \<lparr>parser_buf = [ESC]\<rparr>)"
    by (simp add: feed_def parse_buf_def new_parser_def parse_loop.simps parse_one_def parse_escape_def)
  show ?thesis
    using terminal_flush [OF f] by (simp add: f)
qed

subsection \<open>Legacy text round trip\<close>

text \<open>\<^verbatim>\<open>chr(c).encode("utf8")\<close>, which is what a terminal sends for a typed character.\<close>

definition utf8_encode_char :: "int \<Rightarrow> bytes" where
  "utf8_encode_char c =
     (if c < 0x80 then [word_of_int c]
      else if c < 0x800 then [word_of_int (0xC0 + c div 64), word_of_int (0x80 + c mod 64)]
      else if c < 0x10000 then
        [word_of_int (0xE0 + c div 4096), word_of_int (0x80 + c div 64 mod 64), word_of_int (0x80 + c mod 64)]
      else
        [word_of_int (0xF0 + c div 262144), word_of_int (0x80 + c div 4096 mod 64),
         word_of_int (0x80 + c div 64 mod 64), word_of_int (0x80 + c mod 64)])"

definition scalar_value :: "int \<Rightarrow> bool" where
  "scalar_value c \<longleftrightarrow> 0 \<le> c \<and> c \<le> 0x10FFFF \<and> \<not> (0xD800 \<le> c \<and> c \<le> 0xDFFF)"

lemma uint_byte_id: "0 \<le> k \<Longrightarrow> k < 256 \<Longrightarrow> uint (word_of_int k :: byte) = k"
  unfolding uint_byte by simp

lemma byte_eq_iff: "0 \<le> k \<Longrightarrow> k < 256 \<Longrightarrow> (word_of_int k :: byte) = b \<longleftrightarrow> k = uint b"
  using uint_byte_id [of k] by auto

text \<open>The 6-bit digits of a code point.\<close>

lemma sextets:
  fixes c :: int
  shows "c div 4096 * 4096 + c div 64 mod 64 * 64 + c mod 64 = c"
    and "c div 262144 * 262144 + c div 4096 mod 64 * 4096 + c div 64 mod 64 * 64 + c mod 64 = c"
    and "c div 64 = c div 4096 * 64 + c div 64 mod 64"
    and "c div 4096 = c div 262144 * 64 + c div 4096 mod 64"
proof -
  have d: "c div 4096 = c div 64 div 64" "c div 262144 = c div 4096 div 64"
    using zdiv_zmult2_eq [of 64 c 64] zdiv_zmult2_eq [of 64 c 4096] by simp_all
  have m: "c = c div 64 * 64 + c mod 64" "c div 64 = c div 64 div 64 * 64 + c div 64 mod 64"
    "c div 4096 = c div 4096 div 64 * 64 + c div 4096 mod 64"
    by simp_all
  show "c div 64 = c div 4096 * 64 + c div 64 mod 64" "c div 4096 = c div 262144 * 64 + c div 4096 mod 64"
    using m(2,3) unfolding d by simp_all
  then show "c div 4096 * 4096 + c div 64 mod 64 * 64 + c mod 64 = c"
    "c div 262144 * 262144 + c div 4096 mod 64 * 4096 + c div 64 mod 64 * 64 + c mod 64 = c"
    using m(1) by linarith+
qed

lemma utf8_two:
  assumes "2 \<le> q" "q < 32" "0 \<le> t" "t < 64"
  shows "utf8_decode_char [word_of_int (0xC0 + q), word_of_int (0x80 + t)] = Some (q * 64 + t)"
    and "utf8_length (word_of_int (0xC0 + q)) = 2"
  using assms
  by (simp_all add: word_le_def word_less_def is_cont_def utf8_length_def uint_byte_id del: of_int_add)

lemma utf8_three:
  assumes "0 \<le> q" "q < 16" "0 \<le> r" "r < 64" "0 \<le> t" "t < 64"
    and "q = 0 \<longrightarrow> 32 \<le> r" "q = 13 \<longrightarrow> r < 32"
  shows "utf8_decode_char [word_of_int (0xE0 + q), word_of_int (0x80 + r), word_of_int (0x80 + t)]
      = Some (q * 4096 + r * 64 + t)"
    and "utf8_length (word_of_int (0xE0 + q)) = 3"
  using assms
  by (auto simp add: word_le_def word_less_def is_cont_def utf8_length_def uint_byte_id byte_eq_iff
      simp del: of_int_add)

lemma utf8_four:
  assumes "0 \<le> q" "q < 5" "0 \<le> r" "r < 64" "0 \<le> t" "t < 64" "0 \<le> u" "u < 64"
    and "q = 0 \<longrightarrow> 16 \<le> r" "q = 4 \<longrightarrow> r < 16"
  shows "utf8_decode_char [word_of_int (0xF0 + q), word_of_int (0x80 + r), word_of_int (0x80 + t),
      word_of_int (0x80 + u)] = Some (q * 262144 + r * 4096 + t * 64 + u)"
    and "utf8_length (word_of_int (0xF0 + q)) = 4"
  using assms
  by (auto simp add: word_le_def word_less_def is_cont_def utf8_length_def uint_byte_id byte_eq_iff
      simp del: of_int_add)

lemma sextet_ranges:
  fixes q r t u c :: int
  shows "q * 4096 + r * 64 + t = c \<Longrightarrow> t < 64 \<Longrightarrow> 0x800 \<le> c \<Longrightarrow> q = 0 \<longrightarrow> 32 \<le> r"
    and "q * 4096 + r * 64 + t = c \<Longrightarrow> 0 \<le> t \<Longrightarrow> \<not> (0xD800 \<le> c \<and> c \<le> 0xDFFF) \<Longrightarrow> r < 64 \<Longrightarrow> t < 64
      \<Longrightarrow> q = 13 \<longrightarrow> r < 32"
    and "q * 262144 + r * 4096 + t * 64 + u = c \<Longrightarrow> t < 64 \<Longrightarrow> u < 64 \<Longrightarrow> 0x10000 \<le> c
      \<Longrightarrow> q = 0 \<longrightarrow> 16 \<le> r"
    and "q * 262144 + r * 4096 + t * 64 + u = c \<Longrightarrow> 0 \<le> t \<Longrightarrow> 0 \<le> u \<Longrightarrow> c \<le> 0x10FFFF
      \<Longrightarrow> q = 4 \<longrightarrow> r < 16"
  by auto

lemma utf8_char:
  assumes "scalar_value c"
  shows "utf8_decode_char (utf8_encode_char c) = Some c"
    and "utf8_length (hd (utf8_encode_char c)) = length (utf8_encode_char c)"
proof -
  have c: "0 \<le> c" "c \<le> 0x10FFFF" "\<not> (0xD800 \<le> c \<and> c \<le> 0xDFFF)"
    using assms by (auto simp: scalar_value_def)
  have m: "0 \<le> c mod 64" "c mod 64 < 64" "0 \<le> c div 64 mod 64" "c div 64 mod 64 < 64"
    "0 \<le> c div 4096 mod 64" "c div 4096 mod 64 < 64" by simp_all
  consider "c < 0x80" | "0x80 \<le> c" "c < 0x800" | "0x800 \<le> c" "c < 0x10000" | "0x10000 \<le> c"
    by linarith
  then have "utf8_decode_char (utf8_encode_char c) = Some c \<and>
      utf8_length (hd (utf8_encode_char c)) = length (utf8_encode_char c)"
  proof cases
    case 1
    then have "uint (word_of_int c :: byte) = c" using c by (intro uint_byte_id) auto
    with 1 show ?thesis by (simp add: utf8_encode_char_def word_less_def utf8_length_def)
  next
    case 2
    have q: "2 \<le> c div 64" "c div 64 < 32" using 2 by linarith+
    have "utf8_encode_char c = [word_of_int (0xC0 + c div 64), word_of_int (0x80 + c mod 64)]"
      using 2 by (simp add: utf8_encode_char_def del: of_int_add)
    note u = utf8_two [OF q m(1,2)]
    show ?thesis
      unfolding \<open>utf8_encode_char c = _\<close> list.sel u(1) u(2) by simp
  next
    case 3
    note e = sextets(1) [of c]
    have q: "0 \<le> c div 4096" "c div 4096 < 16" using 3 by linarith+
    have x: "c div 4096 = 0 \<longrightarrow> 32 \<le> c div 64 mod 64" "c div 4096 = 13 \<longrightarrow> c div 64 mod 64 < 32"
      by (rule sextet_ranges(1) [OF e m(2) 3(1)], rule sextet_ranges(2) [OF e m(1) c(3) m(4) m(2)])
    have d: "utf8_encode_char c = [word_of_int (0xE0 + c div 4096),
        word_of_int (0x80 + c div 64 mod 64), word_of_int (0x80 + c mod 64)]"
      using 3 by (simp add: utf8_encode_char_def del: of_int_add)
    note u = utf8_three [OF q m(3,4,1,2) x]
    show ?thesis
      unfolding d list.sel u(1) u(2) by (simp add: e)
  next
    case 4
    note e = sextets(2) [of c]
    have q: "0 \<le> c div 262144" "c div 262144 < 5" using 4 c by linarith+
    have x: "c div 262144 = 0 \<longrightarrow> 16 \<le> c div 4096 mod 64"
      "c div 262144 = 4 \<longrightarrow> c div 4096 mod 64 < 16"
      by (rule sextet_ranges(3) [OF e m(4) m(2) 4], rule sextet_ranges(4) [OF e m(3) m(1) c(2)])
    have d: "utf8_encode_char c = [word_of_int (0xF0 + c div 262144),
        word_of_int (0x80 + c div 4096 mod 64), word_of_int (0x80 + c div 64 mod 64),
        word_of_int (0x80 + c mod 64)]"
      using 4 by (simp add: utf8_encode_char_def del: of_int_add)
    note u = utf8_four [OF q m(5,6,3,4,1,2) x]
    show ?thesis
      unfolding d list.sel u(1) u(2) by (simp add: e)
  qed
  then show "utf8_decode_char (utf8_encode_char c) = Some c"
    and "utf8_length (hd (utf8_encode_char c)) = length (utf8_encode_char c)" by blast+
qed

lemma c0_keys_None: "0x20 \<le> uint b \<Longrightarrow> uint b \<noteq> 0x7F \<Longrightarrow> c0_keys b = None"
  by (auto simp: c0_keys_def term_consts)

lemma utf8_first_byte:
  assumes "scalar_value c" "0x20 \<le> c" "c \<noteq> 0x7F" "utf8_encode_char c = b # t"
  shows "0x20 \<le> uint b" "uint b \<noteq> 0x7F"
proof -
  have "uint b = c \<and> c < 0x80 \<or> 0xC0 \<le> uint b"
  proof (cases "c < 0x80")
    case True
    with assms show ?thesis by (auto simp: utf8_encode_char_def intro!: uint_byte_id)
  next
    case False
    have "c div 64 < 32" if "c < 0x800" using that by linarith
    moreover have "c div 4096 < 16" if "c < 0x10000" using that by linarith
    moreover have "c div 262144 < 5" using assms(1) by (auto simp: scalar_value_def)
    ultimately show ?thesis
      using False assms(1,4) by (auto simp: utf8_encode_char_def uint_byte_id
          pos_imp_zdiv_nonneg_iff scalar_value_def simp del: of_int_add split: if_splits)
  qed
  with assms(2,3) show "0x20 \<le> uint b" "uint b \<noteq> 0x7F" by auto
qed

text \<open>
  A typed character comes through: the UTF-8 encoding of any printable character (any scalar
  value from the space on, but for DEL) is decoded to the one key event with that code and that
  text, with nothing left over.
\<close>

theorem terminal_text_roundtrip:
  assumes "scalar_value c" "0x20 \<le> c" "c \<noteq> 0x7F"
  shows "feed new_parser (utf8_encode_char c) =
    (Inr [Key ((plain_key c)\<lparr>key_text := [c]\<rparr>)], new_parser)"
proof -
  obtain b t where bt: "utf8_encode_char c = b # t"
    by (cases "utf8_encode_char c") (auto simp: utf8_encode_char_def split: if_splits)
  note b = utf8_first_byte [OF assms bt]
  have "b \<noteq> ESC" "\<not> b < 0x20" using b by (auto simp: ESC_def word_less_def)
  moreover have "utf8_length b = length (b # t)" "utf8_decode_char (b # t) = Some c"
    using utf8_char [OF assms(1)] by (simp_all add: bt)
  ultimately have "parse_one (b # t) =
      Took (length (b # t)) [Key ((plain_key c)\<lparr>key_mods := 0, key_text := [c]\<rparr>)]"
    using c0_keys_None [OF b] by (simp add: parse_one_def parse_legacy_Cons legacy_char_def)
  then show ?thesis
    by (simp add: feed_def parse_buf_def new_parser_def bt parse_loop.simps plain_key_def)
qed

theorem terminal_text_roundtrip_witness:
  "scalar_value 0x20AC \<and>
   feed new_parser [0xE2, 0x82, 0xAC] =
     (Inr [Key ((plain_key 0x20AC)\<lparr>key_text := [0x20AC]\<rparr>)], new_parser)"
proof -
  have s: "scalar_value 0x20AC" by (simp add: scalar_value_def)
  have e: "utf8_encode_char 0x20AC = [0xE2, 0x82, 0xAC]" by (simp add: utf8_encode_char_def)
  show ?thesis
    using s terminal_text_roundtrip [OF s] unfolding e by simp
qed

subsection \<open>Kitty key events round trip\<close>

lemma scan_csi_run:
  "list_all (\<lambda>b. lo \<le> b \<and> b \<le> hi) bs \<Longrightarrow> \<not> (lo \<le> c \<and> c \<le> hi) \<Longrightarrow> i + length bs \<le> max_escape \<Longrightarrow>
   scan_csi lo hi (bs @ c # cs) i = (False, i + length bs)"
  by (induction bs arbitrary: i) auto

text \<open>A control sequence whose parameter bytes are in range and are followed by its final byte.\<close>

lemma parse_csi_complete:
  assumes "list_all (\<lambda>b. 0x30 \<le> b \<and> b \<le> 0x3F) params" "2 + length params \<le> max_escape"
    and "0x40 \<le> final" "final \<le> 0x7E"
  shows "parse_csi ([ESC, 0x5B] @ params @ [final]) =
    outcome_of (length params + 3) (csi_events params [] final)"
proof -
  have f: "\<not> (0x30 \<le> final \<and> final \<le> 0x3F)" "\<not> (0x20 \<le> final \<and> final \<le> 0x2F)"
    using assms(3) by (auto simp: word_le_nat_alt)
  have 1: "scan_csi 0x30 0x3F (params @ [final]) 2 = (False, 2 + length params)"
    using scan_csi_run [OF assms(1) f(1) assms(2)] by simp
  have 2: "scan_csi 0x20 0x2F [final] i = (False, i)" for i
    using f(2) by simp
  let ?s = "[ESC, 0x5B] @ params @ [final]"
  have 3: "drop (2 + length params) ?s = [final]" "?s ! (2 + length params) = final"
    "drop 2 ?s = params @ [final]" "\<not> length ?s \<le> 2 + length params"
    "2 + length params + 1 = length params + 3"
    by (simp_all add: nth_append)
  show ?thesis
    unfolding parse_csi_def 3(3) 1 using assms(3,4)
    by (simp only: Let_def prod.case 2 3 if_False diff_self_eq_0 take_0 diff_add_inverse
        simp_thms take_append order_refl append_Nil2 take_all if_True)
qed

lemma feed_complete:
  assumes "parse_one s = Took (length s) es" "s \<noteq> []"
  shows "feed new_parser s = (Inr es, new_parser)"
  using assms by (simp add: feed_def parse_buf_def new_parser_def parse_loop.simps)

text \<open>How a kitty terminal writes a key event: code, modifiers (plus one) and event type.\<close>

definition csi_u_params :: "nat \<Rightarrow> nat \<Rightarrow> nat \<Rightarrow> bytes" where
  "csi_u_params code mods etype =
     dec_bytes code @ [0x3B] @ dec_bytes (mods + 1) @ [0x3A] @ dec_bytes etype"

lemma dec_bytes_no_sep: "0x3A \<notin> set (dec_bytes n)" "0x3B \<notin> set (dec_bytes n)"
  using dec_bytes_digits [of "0x3A" n] dec_bytes_digits [of "0x3B" n] by auto

lemma parse_param_dec_bytes:
  "length (dec_bytes n) \<le> max_str_digits \<Longrightarrow> parse_param (dec_bytes n) = Inr (int n)"
  by (simp add: parse_param_def bytes_int_dec_bytes)

lemma parse_params_csi_u:
  assumes "length (dec_bytes code) \<le> max_str_digits" "length (dec_bytes (mods + 1)) \<le> max_str_digits"
    "length (dec_bytes etype) \<le> max_str_digits"
  shows "parse_params (csi_u_params code mods etype) = Inr [[int code], [int mods + 1, int etype]]"
proof -
  have 1: "split_on 0x3B (csi_u_params code mods etype) =
      [dec_bytes code, dec_bytes (mods + 1) @ 0x3A # dec_bytes etype]"
    using split_on_append [of "0x3B" "dec_bytes code" "dec_bytes (mods + 1) @ 0x3A # dec_bytes etype"]
    by (simp add: csi_u_params_def dec_bytes_no_sep split_on_none)
  have 2: "split_on 0x3A (dec_bytes (mods + 1) @ 0x3A # dec_bytes etype) =
      [dec_bytes (mods + 1), dec_bytes etype]"
    by (simp add: split_on_append dec_bytes_no_sep split_on_none)
  have 3: "parse_param (dec_bytes (mods + 1)) = Inr (int mods + 1)"
    using parse_param_dec_bytes [OF assms(2)] by simp
  show ?thesis
    unfolding parse_params_def 1 using assms(1,3)
    by (simp add: 2 3 split_on_none dec_bytes_no_sep parse_param_dec_bytes del: add_Suc_right One_nat_def)
qed

text \<open>
  A kitty keyboard protocol event comes through: \<open>ESC [ code ; mods+1 : type u\<close> is decoded to
  the one key event with that code, those modifiers and that event type.
\<close>

theorem terminal_kitty_roundtrip:
  assumes "0 < code" "code < 10 ^ 7" "mods < 256" "etype \<in> {1, 2, 3}"
  shows "feed new_parser ([ESC, 0x5B] @ csi_u_params code mods etype @ [0x75]) =
    (Inr [Key ((plain_key (int code))\<lparr>key_mods := int mods, key_event_type := int etype\<rparr>)], new_parser)"
proof -
  have len: "length (dec_bytes code) \<le> 7" "length (dec_bytes (mods + 1)) \<le> 3" "length (dec_bytes etype) \<le> 1"
    using assms length_dec_bytes [of code 7] length_dec_bytes [of "mods + 1" 3] length_dec_bytes [of etype 1]
    by auto
  then have pp: "parse_params (csi_u_params code mods etype) = Inr [[int code], [int mods + 1, int etype]]"
    by (intro parse_params_csi_u) (simp_all add: max_str_digits_def)
  let ?p = "csi_u_params code mods etype"
  have range: "list_all (\<lambda>b. 0x30 \<le> b \<and> b \<le> 0x3F) (dec_bytes n)" for n
    using dec_bytes_digits [of _ n] by (force simp: list_all_iff intro: order_trans)
  have "list_all (\<lambda>b. 0x30 \<le> b \<and> b \<le> 0x3F) ?p"
    using range by (simp add: csi_u_params_def)
  moreover have "2 + length ?p \<le> max_escape"
    using len by (simp add: csi_u_params_def max_escape_def)
  ultimately have csi: "parse_csi ([ESC, 0x5B] @ ?p @ [0x75]) =
      outcome_of (length ?p + 3) (csi_events ?p [] 0x75)"
    by (rule parse_csi_complete) simp_all
  obtain b t where d: "dec_bytes code = b # t" by (cases "dec_bytes code") auto
  then have "48 \<le> b \<and> b \<le> 57" using dec_bytes_digits [of b code] by simp
  then have "[b] \<notin> {[0x3C], [0x3D], [0x3E], [0x3F]}" by auto
  then have ev: "csi_events ?p [] 0x75 =
      Inr [Key ((plain_key (int code))\<lparr>key_mods := int mods, key_event_type := int etype\<rparr>)]"
    using assms pp
    by (auto simp: csi_events_def csi_u_params_def d parse_key_params_def plain_key_def term_consts)
  show ?thesis
    using csi by (intro feed_complete) (simp_all add: parse_one_def parse_escape_def ev outcome_of_def)
qed

theorem terminal_kitty_roundtrip_witness:
  "feed new_parser ([ESC, 0x5B] @ csi_u_params 97 5 3 @ [0x75]) =
    (Inr [Key ((plain_key 97)\<lparr>key_mods := 5, key_event_type := 3\<rparr>)], new_parser)"
  using terminal_kitty_roundtrip [of 97 5 3] by simp

subsection \<open>An input that stops the parser for good\<close>

definition superscript_answer :: bytes where
  "superscript_answer = [ESC, 0x5F, 0x47, 0x69, 0x3D, 0xB2, ESC, BACKSLASH]"

lemma superscript_raises: "parse_one superscript_answer = Raised ValueError"
  by (simp add: superscript_answer_def parse_one_def parse_escape_def parse_apc_def scan_string_def
      outcome_of_def parse_graphics_response_def str_isdigit_def py_int_def decimal_char_def
      ESC_def BEL_def BACKSLASH_def max_escape_def)

text \<open>
  The graphics answer \<open>ESC _ G i=\<close>, superscript two, \<open>ESC \\<close> raises \<open>ValueError\<close> out of
  \<open>feed\<close> (\<open>str.isdigit\<close> accepts the character, \<open>int\<close> does not), and the exception leaves the
  sequence at the head of the buffer: every later \<open>feed\<close>, of any bytes, raises again and delivers
  no event, while the buffer grows by all it is given.
\<close>

theorem terminal_superscript_wedges:
  "fst (feed new_parser superscript_answer) = Inl ValueError \<and>
   feed \<lparr>parser_buf = superscript_answer @ earlier\<rparr> data =
     (Inl ValueError, \<lparr>parser_buf = superscript_answer @ earlier @ data\<rparr>)"
proof -
  have "parse_loop False (superscript_answer @ zs) = Inl ValueError" for zs
    by (rule term_parser.loop_raised, rule term_parser.raised_stable, rule superscript_raises)
  from this [of "[]"] this [of "earlier @ data"] show ?thesis
    by (simp add: feed_def parse_buf_def new_parser_def)
qed

end
