(* ===== verification/PacketHeader.thy ===== *)
theory PacketHeader
  imports XpraPrelude
begin

text \<open>
  The eight byte packet header of \<^verbatim>\<open>src/xpra/net/protocol/header.py\<close>: \<open>'P'\<close>, the protocol flags,
  the compression byte, the index of a raw chunk and the size of the payload. The theory models
  the whole file: packing and unpacking (\<^verbatim>\<open>struct\<close> with the format \<open>!BBBBL\<close>, which refuses values
  out of range), the validation of the flags and the search for a header in garbage.
\<close>

unbundle bit_operations_syntax

section \<open>Flags\<close>

definition FLAGS_BENCODE :: int where "FLAGS_BENCODE = 0x0"
definition FLAGS_RENCODE :: int where "FLAGS_RENCODE = 0x1"
definition FLAGS_YAML :: int where "FLAGS_YAML = 0x4"
definition FLAGS_RENCODEPLUS :: int where "FLAGS_RENCODEPLUS = 0x10"
definition FLAGS_FLUSH :: int where "FLAGS_FLUSH = 0x8"
definition FLAGS_CIPHER :: int where "FLAGS_CIPHER = 0x2"
definition LZ4_FLAG :: int where "LZ4_FLAG = 0x10"
definition BROTLI_FLAG :: int where "BROTLI_FLAG = 0x40"
definition ZSTD_FLAG :: int where "ZSTD_FLAG = 0x80"
definition FLAGS_NOHEADER :: int where "FLAGS_NOHEADER = 0x10000"

definition ENCODER_FLAGS :: "int list" where
  "ENCODER_FLAGS = [FLAGS_RENCODE, FLAGS_YAML, FLAGS_RENCODEPLUS]"

definition KNOWN_PROTOCOL_FLAGS :: int where
  "KNOWN_PROTOCOL_FLAGS = FLAGS_RENCODE OR FLAGS_YAML OR FLAGS_RENCODEPLUS OR FLAGS_FLUSH OR FLAGS_CIPHER"

definition COMPRESSOR_FLAGS :: "int list" where
  "COMPRESSOR_FLAGS = [LZ4_FLAG, BROTLI_FLAG, ZSTD_FLAG]"

definition KNOWN_COMPRESSOR_FLAGS :: int where
  "KNOWN_COMPRESSOR_FLAGS = LZ4_FLAG OR BROTLI_FLAG OR ZSTD_FLAG"

definition HEADER_SIZE :: nat where "HEADER_SIZE = 8"

lemmas flag_defs = FLAGS_BENCODE_def FLAGS_RENCODE_def FLAGS_YAML_def FLAGS_RENCODEPLUS_def
  FLAGS_FLUSH_def FLAGS_CIPHER_def LZ4_FLAG_def BROTLI_FLAG_def ZSTD_FLAG_def FLAGS_NOHEADER_def
  ENCODER_FLAGS_def KNOWN_PROTOCOL_FLAGS_def COMPRESSOR_FLAGS_def KNOWN_COMPRESSOR_FLAGS_def

section \<open>Packing and unpacking\<close>

definition in_range :: "int \<Rightarrow> int \<Rightarrow> bool" where
  "in_range n limit \<longleftrightarrow> 0 \<le> n \<and> n < limit"

text \<open>\<^verbatim>\<open>struct.pack\<close> raises \<^verbatim>\<open>struct.error\<close> for a value its format code cannot hold.\<close>

definition pack_header :: "int \<Rightarrow> int \<Rightarrow> int \<Rightarrow> int \<Rightarrow> bytes result" where
  "pack_header proto_flags level index payload_size =
     (if in_range proto_flags 256 \<and> in_range level 256 \<and> in_range index 256 \<and> in_range payload_size (2 ^ 32)
      then Inr (be_bytes 1 80 @ be_bytes 1 proto_flags @ be_bytes 1 level @ be_bytes 1 index
                @ be_bytes 4 payload_size)
      else Inl StructError)"

text \<open>The unpacked header: the first byte (the format code \<open>c\<close> keeps it as bytes), then four integers.\<close>

record header =
  hd_char :: byte
  hd_flags :: int
  hd_level :: int
  hd_index :: int
  hd_size :: int

definition unpack_header :: "bytes \<Rightarrow> header result" where
  "unpack_header buf =
     (if length buf < HEADER_SIZE then Inl StructError
      else Inr \<lparr>hd_char = buf ! 0,
                hd_flags = be_int (take 1 (drop 1 buf)),
                hd_level = be_int (take 1 (drop 2 buf)),
                hd_index = be_int (take 1 (drop 3 buf)),
                hd_size = be_int (take 4 (drop 4 buf))\<rparr>)"

section \<open>Validation\<close>

text \<open>The messages of \<^verbatim>\<open>validate_packet_header\<close>; the empty string is \<open>None\<close>.\<close>

datatype header_error =
    UnknownProtocolFlags int
  | RawChunkEncoder
  | RawChunkFlush
  | ModernEncoder
  | TooManyEncoders
  | ZeroCompressionLevel
  | UnknownCompressorFlags int
  | CompressorCount

definition count_flags :: "int \<Rightarrow> int list \<Rightarrow> nat" where
  "count_flags v flags = length (filter (\<lambda>f. v AND f \<noteq> 0) flags)"

definition validate_encoder :: "int \<Rightarrow> int \<Rightarrow> bool \<Rightarrow> header_error option" where
  "validate_encoder protocol_flags packet_index modern =
     (let encoder_flags = protocol_flags AND sum_list ENCODER_FLAGS;
          encoder_count = count_flags encoder_flags ENCODER_FLAGS
      in if packet_index \<noteq> 0 then
           if encoder_flags \<noteq> 0 then Some RawChunkEncoder
           else if protocol_flags AND FLAGS_FLUSH \<noteq> 0 then Some RawChunkFlush
           else None
         else if modern then
           if encoder_count \<noteq> 1 \<or> encoder_flags AND FLAGS_RENCODE \<noteq> 0 then Some ModernEncoder else None
         else if encoder_count > 1 then Some TooManyEncoders
         else None)"

definition validate_compression :: "int \<Rightarrow> header_error option" where
  "validate_compression compression =
     (if compression = 0 then None
      else if compression AND 0x0f = 0 then Some ZeroCompressionLevel
      else
        let compressor_flags = compression AND 0xf0;
            unknown = compressor_flags AND NOT KNOWN_COMPRESSOR_FLAGS
        in if unknown \<noteq> 0 then Some (UnknownCompressorFlags unknown)
           else if count_flags compressor_flags COMPRESSOR_FLAGS \<noteq> 1 then Some CompressorCount
           else None)"

definition validate_packet_header :: "int \<Rightarrow> int \<Rightarrow> int \<Rightarrow> bool \<Rightarrow> header_error option" where
  "validate_packet_header protocol_flags compression packet_index modern =
     (let unknown = protocol_flags AND NOT KNOWN_PROTOCOL_FLAGS
      in if unknown \<noteq> 0 then Some (UnknownProtocolFlags unknown)
         else case validate_encoder protocol_flags packet_index modern of
           Some e \<Rightarrow> Some e
         | None \<Rightarrow> validate_compression compression)"

section \<open>Looking for a header\<close>

text \<open>\<^verbatim>\<open>data.find(b, pos)\<close>, \<open>None\<close> where Python returns \<open>-1\<close>.\<close>

fun find_byte :: "byte \<Rightarrow> bytes \<Rightarrow> nat \<Rightarrow> nat option" where
  "find_byte b [] pos = None"
| "find_byte b (c # cs) 0 = (if c = b then Some 0 else map_option Suc (find_byte b cs 0))"
| "find_byte b (c # cs) (Suc pos) = map_option Suc (find_byte b cs pos)"

lemma find_byte_bounds: "find_byte b data pos = Some p \<Longrightarrow> pos \<le> p \<and> p < length data \<and> data ! p = b"
  by (induction b data pos arbitrary: p rule: find_byte.induct) (auto split: if_splits)

lemma find_byte_first:
  "find_byte b data pos = Some p \<Longrightarrow> pos \<le> q \<Longrightarrow> q < p \<Longrightarrow> data ! q \<noteq> b"
proof (induction b data pos arbitrary: p q rule: find_byte.induct)
  case (2 b c cs)
  then show ?case by (cases q) (auto split: if_splits)
next
  case (3 b c cs pos)
  then show ?case by (cases q) auto
qed simp

lemma find_byte_None: "find_byte b data pos = None \<Longrightarrow> pos \<le> q \<Longrightarrow> q < length data \<Longrightarrow> data ! q \<noteq> b"
proof (induction b data pos arbitrary: q rule: find_byte.induct)
  case (2 b c cs)
  then show ?case by (cases q) (auto split: if_splits)
next
  case (3 b c cs pos)
  then show ?case by (cases q) auto
qed simp

definition header_ok :: "int \<Rightarrow> int \<Rightarrow> header \<Rightarrow> bool" where
  "header_ok index max_data_size h \<longleftrightarrow>
     hd_char h = 80 \<and> hd_index h = index \<and> hd_size h < max_data_size \<and>
     validate_packet_header (hd_flags h) (hd_level h) (hd_index h) False = None"

text \<open>
  The loop of \<^verbatim>\<open>find_xpra_header\<close>, from the result of the last \<^verbatim>\<open>find\<close> on. \<open>unpack_header\<close> cannot
  raise here: the slice has been checked to have its eight bytes.
\<close>

function find_header_loop :: "bytes \<Rightarrow> int \<Rightarrow> int \<Rightarrow> nat option \<Rightarrow> int result" where
  "find_header_loop data index max_data_size None = Inr (-1)"
| "find_header_loop data index max_data_size (Some pos) =
     (if length data < pos + 8 then Inr (-1)
      else ebind (unpack_header (take 8 (drop pos data))) (\<lambda>h.
        if header_ok index max_data_size h then Inr (int pos)
        else find_header_loop data index max_data_size (find_byte 80 data (pos + 1))))"
  by pat_completeness auto
termination
  by (relation "measure (\<lambda>(data, _, _, p). case p of None \<Rightarrow> 0 | Some pos \<Rightarrow> Suc (length data - pos))")
    (auto split: option.splits dest: find_byte_bounds)

definition find_xpra_header :: "bytes \<Rightarrow> int \<Rightarrow> int \<Rightarrow> int result" where
  "find_xpra_header data index max_data_size =
     find_header_loop data index max_data_size (find_byte 80 data 0)"

section \<open>Packing and unpacking are inverse\<close>

lemma unpack_header_long [simp]: "unpack_header buf \<noteq> Inl e \<longleftrightarrow> \<not> (e = StructError \<and> length buf < 8)"
  by (auto simp: unpack_header_def HEADER_SIZE_def)

lemma unpack_header_Inr_iff: "(\<exists>h. unpack_header buf = Inr h) \<longleftrightarrow> 8 \<le> length buf"
  by (auto simp: unpack_header_def HEADER_SIZE_def)

lemma unpack_header_append: "8 \<le> length buf \<Longrightarrow> unpack_header (buf @ rest) = unpack_header buf"
  by (cases buf) (simp_all add: unpack_header_def HEADER_SIZE_def slice_simps)

lemma unpack_header_short: "length buf < 8 \<Longrightarrow> unpack_header buf = Inl StructError"
  by (simp add: unpack_header_def HEADER_SIZE_def)

lemma unpack_header_take: "8 \<le> length buf \<Longrightarrow> unpack_header (take 8 buf) = unpack_header buf"
  using unpack_header_append [of "take 8 buf" "drop 8 buf"] by simp

lemma pack_header_length: "pack_header f l i s = Inr bs \<Longrightarrow> length bs = HEADER_SIZE"
  by (auto simp: pack_header_def HEADER_SIZE_def split: if_splits)

lemma pack_header_Inr_iff:
  "(\<exists>bs. pack_header f l i s = Inr bs) \<longleftrightarrow>
   in_range f 256 \<and> in_range l 256 \<and> in_range i 256 \<and> in_range s (2 ^ 32)"
  by (auto simp: pack_header_def)

lemma be_bytes_1: "be_bytes (Suc 0) n = [word_of_int n]"
  by simp

lemma unpack_pack_header:
  assumes "pack_header f l i s = Inr bs"
  shows "unpack_header (bs @ rest) =
    Inr \<lparr>hd_char = 80, hd_flags = f, hd_level = l, hd_index = i, hd_size = s\<rparr>"
proof -
  have r: "0 \<le> f" "f < 256" "0 \<le> l" "l < 256" "0 \<le> i" "i < 256" "0 \<le> s" "s < 256 ^ 4"
    and bs: "bs = [80, word_of_int f, word_of_int l, word_of_int i] @ be_bytes 4 s"
    using assms by (auto simp: pack_header_def in_range_def split: if_splits)
  have one: "be_int [b] = uint b" for b
    by (simp add: be_int_def)
  show ?thesis
    unfolding bs using r
    by (simp add: unpack_header_def HEADER_SIZE_def one uint_byte be_int_be_bytes del: be_bytes.simps)
qed

lemma unpack_header_ranges:
  assumes "unpack_header buf = Inr h"
  shows "in_range (hd_flags h) 256" "in_range (hd_level h) 256" "in_range (hd_index h) 256"
    "in_range (hd_size h) (2 ^ 32)"
proof -
  have l: "8 \<le> length buf" using assms unpack_header_Inr_iff by blast
  have "be_int (take k (drop n buf)) < 256 ^ k" if "n + k \<le> 8" for n k
    using be_int_bound [of "take k (drop n buf)"] l that by simp
  from this [of 1 1] this [of 2 1] this [of 3 1] this [of 4 4] assms
  show "in_range (hd_flags h) 256" "in_range (hd_level h) 256" "in_range (hd_index h) 256"
    "in_range (hd_size h) (2 ^ 32)"
    by (auto simp: unpack_header_def in_range_def split: if_splits)
qed

lemma pack_unpack_header:
  assumes "unpack_header buf = Inr h" "hd_char h = 80"
  shows "pack_header (hd_flags h) (hd_level h) (hd_index h) (hd_size h) = Inr (take 8 buf)"
proof -
  have l: "8 \<le> length buf" using assms(1) unpack_header_Inr_iff by blast
  note inv = be_bytes_be_int
  have "be_bytes (Suc 0) (hd_flags h) = take 1 (drop 1 buf)"
    "be_bytes (Suc 0) (hd_level h) = take 1 (drop 2 buf)"
    "be_bytes (Suc 0) (hd_index h) = take 1 (drop 3 buf)"
    "be_bytes 4 (hd_size h) = take 4 (drop 4 buf)"
    using assms(1) l by (auto simp: unpack_header_def inv simp del: be_bytes.simps split: if_splits)
  moreover have "[80] = take 1 buf"
    using assms l by (cases buf) (auto simp: unpack_header_def split: if_splits)
  moreover have "take 8 buf = take 1 buf @ take 1 (drop 1 buf) @ take 1 (drop 2 buf) @
      take 1 (drop 3 buf) @ take 4 (drop 4 buf)"
    using take_add [of 1 7 buf] take_add [of 1 6 "drop 1 buf"] take_add [of 1 5 "drop 2 buf"]
      take_add [of 1 4 "drop 3 buf"] by (simp add: eval_nat_numeral)
  ultimately show ?thesis
    using unpack_header_ranges [OF assms(1)] by (simp add: pack_header_def be_bytes_1 del: be_bytes.simps(2))
qed

text \<open>
  C30: packing and unpacking a packet header are inverse to each other: a packed header is eight
  bytes and unpacks, whatever follows it, to the four values that were packed; and any eight
  bytes that start with \<open>'P'\<close> are what packing their unpacked fields gives back.
\<close>

theorem packet_header_roundtrip:
  "(case pack_header f l i s of
      Inl e \<Rightarrow> e = StructError
    | Inr bs \<Rightarrow> length bs = HEADER_SIZE \<and>
        unpack_header (bs @ rest) =
          Inr \<lparr>hd_char = 80, hd_flags = f, hd_level = l, hd_index = i, hd_size = s\<rparr>) \<and>
   (case unpack_header (80 # buf) of
      Inl e \<Rightarrow> e = StructError \<and> length (80 # buf) < HEADER_SIZE
    | Inr h \<Rightarrow> pack_header (hd_flags h) (hd_level h) (hd_index h) (hd_size h) =
        Inr (take HEADER_SIZE (80 # buf)))"
proof -
  have "pack_header f l i s = Inl e \<Longrightarrow> e = StructError" for e
    by (auto simp: pack_header_def split: if_splits)
  moreover have "unpack_header (80 # buf) = Inl e \<Longrightarrow> e = StructError \<and> length (80 # buf) < 8" for e
    by (auto simp: unpack_header_def HEADER_SIZE_def split: if_splits)
  moreover have "unpack_header (80 # buf) = Inr h \<Longrightarrow> hd_char h = 80" for h
    by (auto simp: unpack_header_def split: if_splits)
  ultimately show ?thesis
    using pack_header_length unpack_pack_header pack_unpack_header
    by (fastforce simp: HEADER_SIZE_def split: sum.split)
qed

section \<open>The search finds the first valid header\<close>

definition header_at :: "bytes \<Rightarrow> int \<Rightarrow> int \<Rightarrow> nat \<Rightarrow> bool" where
  "header_at data index max_data_size p \<longleftrightarrow>
     (case unpack_header (take 8 (drop p data)) of
        Inl _ \<Rightarrow> False | Inr h \<Rightarrow> header_ok index max_data_size h)"

lemma header_at_short: "length data < p + 8 \<Longrightarrow> \<not> header_at data index max_data_size p"
  using unpack_header_short [of "take 8 (drop p data)"] by (auto simp: header_at_def)

lemma header_at_P: "header_at data index max_data_size p \<Longrightarrow> p + 8 \<le> length data \<and> data ! p = 80"
  by (auto simp: header_at_def unpack_header_def HEADER_SIZE_def header_ok_def split: if_splits sum.splits)

definition first_or_minus_one :: "nat list \<Rightarrow> int" where
  "first_or_minus_one ps = (case ps of [] \<Rightarrow> -1 | p # _ \<Rightarrow> int p)"

lemma filter_upt_skip:
  "pos \<le> p \<Longrightarrow> p \<le> n \<Longrightarrow> (\<And>q. pos \<le> q \<Longrightarrow> q < p \<Longrightarrow> \<not> P q) \<Longrightarrow> filter P [pos..<n] = filter P [p..<n]"
  using upt_add_eq_append [of pos p "n - p"] by (simp add: filter_empty_conv)

lemma find_header_loop_filter:
  "find_header_loop data index mx (find_byte 80 data pos) =
     Inr (first_or_minus_one (filter (header_at data index mx) [pos..<length data]))"
proof (induction "length data - pos" arbitrary: pos rule: less_induct)
  case less
  let ?H = "header_at data index mx"
  show ?case
  proof (cases "find_byte 80 data pos")
    case None
    then have "filter ?H [pos..<length data] = []"
      using find_byte_None [OF None] header_at_P by (fastforce simp: filter_empty_conv)
    then show ?thesis by (simp add: None first_or_minus_one_def)
  next
    case (Some p)
    from find_byte_bounds [OF this] have p: "pos \<le> p" "p < length data" by simp_all
    have skip: "filter ?H [pos..<length data] = filter ?H [p..<length data]"
    proof (rule filter_upt_skip [OF p(1) less_imp_le [OF p(2)]])
      show "\<not> ?H q" if "pos \<le> q" "q < p" for q
        using find_byte_first [OF Some that] header_at_P by blast
    qed
    show ?thesis
    proof (cases "length data < p + 8")
      case True
      then have "filter ?H [p..<length data] = []"
        using header_at_short by (fastforce simp: filter_empty_conv)
      then show ?thesis using True by (simp add: Some skip first_or_minus_one_def)
    next
      case False
      then obtain h where h: "unpack_header (take 8 (drop p data)) = Inr h"
        using unpack_header_Inr_iff [of "take 8 (drop p data)"] by auto
      then have at: "?H p = header_ok index mx h" by (simp add: header_at_def)
      have ih: "find_header_loop data index mx (find_byte 80 data (Suc p)) =
          Inr (first_or_minus_one (filter ?H [Suc p..<length data]))"
        by (rule less) (use p in simp)
      have "[p..<length data] = p # [Suc p..<length data]"
        using p by (simp add: upt_conv_Cons)
      then show ?thesis
        using False h at by (simp add: Some skip ih first_or_minus_one_def del: upt_Suc)
    qed
  qed
qed

text \<open>
  \<^verbatim>\<open>find_xpra_header\<close> never raises and returns the first position of the data at which a
  complete and valid header stands (with the index asked for and a size under the limit), or
  \<open>-1\<close> where there is none.
\<close>

theorem find_xpra_header_first:
  "find_xpra_header data index max_data_size =
     Inr (first_or_minus_one (filter (header_at data index max_data_size) [0..<length data]))"
  by (simp add: find_xpra_header_def find_header_loop_filter)

end
