(* ===== verification/PacketValues.thy ===== *)
theory PacketValues
  imports XpraPrelude
begin

text \<open>
  The values packets are made of, and the class \<^verbatim>\<open>Packet\<close> of \<^verbatim>\<open>src/xpra/net/common.py\<close> with its
  typed accessors. \<open>pval\<close> has one constructor for each Python type the network layer tells apart
  with \<^verbatim>\<open>isinstance\<close>; \<open>PBuffer\<close> is a bytes-like object that is not \<^verbatim>\<open>bytes\<close> (a memoryview), and
  \<open>POther\<close> any object of a type the code has no branch for. The wrappers \<^verbatim>\<open>Compressed\<close>,
  \<^verbatim>\<open>LevelCompressed\<close>, \<^verbatim>\<open>LargeStructure\<close> and \<^verbatim>\<open>Compressible\<close> are those of
  \<^verbatim>\<open>src/xpra/net/compression.py\<close>; their \<^verbatim>\<open>datatype\<close> label is only logged and is left out.
\<close>

datatype pval =
    PNone
  | PBool bool
  | PInt int
  | PIntEnum int
  | PEnum pystr
  | PStr pystr
  | PBytes bytes
  | PBuffer bytes
  | PList "pval list"
  | PTuple "pval list"
  | PDict "(pval \<times> pval) list"
  | PCompressed pval bool
  | PLevelCompressed pval int string bool
  | PLargeStructure pval
  | PCompressible pval
  | POther

type_synonym packet = "pval list"

definition pstr :: "string \<Rightarrow> pval" where
  "pstr s = PStr (map (\<lambda>c. of_char c) s)"

section \<open>What Python does with the values\<close>

text \<open>
  \<^verbatim>\<open>len()\<close>, \<open>TypeError\<close> where the type has none. \<^verbatim>\<open>bool()\<close>: the wrappers have \<^verbatim>\<open>__len__\<close>, which
  decides.
\<close>

fun py_len :: "pval \<Rightarrow> nat result" where
  "py_len (PStr s) = Inr (length s)"
| "py_len (PBytes b) = Inr (length b)"
| "py_len (PBuffer b) = Inr (length b)"
| "py_len (PList xs) = Inr (length xs)"
| "py_len (PTuple xs) = Inr (length xs)"
| "py_len (PDict kvs) = Inr (length kvs)"
| "py_len (PCompressed v _) = py_len v"
| "py_len (PLevelCompressed v _ _ _) = py_len v"
| "py_len (PLargeStructure v) = py_len v"
| "py_len (PCompressible v) = py_len v"
| "py_len _ = Inl TypeError"

definition py_bool :: "pval \<Rightarrow> bool" where
  "py_bool v =
     (case v of
        PNone \<Rightarrow> False
      | PBool b \<Rightarrow> b
      | PInt n \<Rightarrow> n \<noteq> 0
      | PIntEnum n \<Rightarrow> n \<noteq> 0
      | PEnum _ \<Rightarrow> True
      | POther \<Rightarrow> True
      | _ \<Rightarrow> (case py_len v of Inr n \<Rightarrow> n \<noteq> 0 | Inl _ \<Rightarrow> True))"

text \<open>
  \<^verbatim>\<open>isinstance(v, collections.abc.Sequence)\<close>: besides lists and tuples, \<^verbatim>\<open>str\<close>, \<^verbatim>\<open>bytes\<close> and
  \<^verbatim>\<open>memoryview\<close> are registered as sequences.
\<close>

fun is_sequence :: "pval \<Rightarrow> bool" where
  "is_sequence (PStr _) = True"
| "is_sequence (PBytes _) = True"
| "is_sequence (PBuffer _) = True"
| "is_sequence (PList _) = True"
| "is_sequence (PTuple _) = True"
| "is_sequence _ = False"

text \<open>The elements a sequence (or any iterable) yields, as \<^verbatim>\<open>list(v)\<close> collects them.\<close>

fun py_list :: "pval \<Rightarrow> pval list result" where
  "py_list (PList xs) = Inr xs"
| "py_list (PTuple xs) = Inr xs"
| "py_list (PStr cs) = Inr (map (\<lambda>c. PStr [c]) cs)"
| "py_list (PBytes bs) = Inr (map (\<lambda>b. PInt (uint b)) bs)"
| "py_list (PBuffer bs) = Inr (map (\<lambda>b. PInt (uint b)) bs)"
| "py_list (PDict kvs) = Inr (map fst kvs)"
| "py_list _ = Inl TypeError"

text \<open>
  \<^verbatim>\<open>int(v)\<close>. Reading an integer out of text is the interpreter's (it knows the decimal digits of
  every script), so it is the argument \<open>text_int\<close>, on the code points of the text.
\<close>

definition py_int_of :: "(pystr \<Rightarrow> int result) \<Rightarrow> pval \<Rightarrow> int result" where
  "py_int_of text_int v =
     (case v of
        PInt n \<Rightarrow> Inr n
      | PIntEnum n \<Rightarrow> Inr n
      | PBool b \<Rightarrow> Inr (if b then 1 else 0)
      | PStr cs \<Rightarrow> text_int cs
      | PBytes bs \<Rightarrow> text_int (map uint bs)
      | PBuffer bs \<Rightarrow> text_int (map uint bs)
      | _ \<Rightarrow> Inl TypeError)"

text \<open>\<^verbatim>\<open>bytes(v)\<close>: a copy of a buffer, so many zeroes for an integer, the bytes a sequence lists.\<close>

definition byte_of_int :: "pval \<Rightarrow> byte result" where
  "byte_of_int v =
     (case v of
        PInt n \<Rightarrow> if 0 \<le> n \<and> n < 256 then Inr (word_of_int n) else Inl ValueError
      | PIntEnum n \<Rightarrow> if 0 \<le> n \<and> n < 256 then Inr (word_of_int n) else Inl ValueError
      | PBool b \<Rightarrow> Inr (if b then 1 else 0)
      | _ \<Rightarrow> Inl TypeError)"

definition zero_bytes :: "int \<Rightarrow> bytes result" where
  "zero_bytes n = (if n < 0 then Inl ValueError else Inr (replicate (nat n) 0))"

definition py_bytes_of :: "pval \<Rightarrow> bytes result" where
  "py_bytes_of v =
     (case v of
        PBytes bs \<Rightarrow> Inr bs
      | PBuffer bs \<Rightarrow> Inr bs
      | PInt n \<Rightarrow> zero_bytes n
      | PIntEnum n \<Rightarrow> zero_bytes n
      | PBool b \<Rightarrow> zero_bytes (if b then 1 else 0)
      | PList xs \<Rightarrow> emap byte_of_int xs
      | PTuple xs \<Rightarrow> emap byte_of_int xs
      | PDict kvs \<Rightarrow> emap byte_of_int (map fst kvs)
      | _ \<Rightarrow> Inl TypeError)"

text \<open>\<^verbatim>\<open>data[i]\<close> on a tuple: a negative index counts from the end, any other one out of range raises.\<close>

definition py_index :: "'a list \<Rightarrow> int \<Rightarrow> 'a result" where
  "py_index xs i =
     (let j = (if i < 0 then i + int (length xs) else i)
      in if 0 \<le> j \<and> j < int (length xs) then Inr (xs ! nat j) else Inl IndexError)"

section \<open>The class Packet\<close>

fun is_packet_element :: "pval \<Rightarrow> bool" where
  "is_packet_element PNone = False"
| "is_packet_element (PEnum _) = False"
| "is_packet_element POther = False"
| "is_packet_element _ = True"

definition Packet_init :: "pval list \<Rightarrow> packet result" where
  "Packet_init args =
     (case args of
        [] \<Rightarrow> Inl TypeError
      | PStr t # data \<Rightarrow> if list_all is_packet_element data then Inr args else Inl TypeError
      | _ \<Rightarrow> Inl TypeError)"

definition get_ranged :: "int \<Rightarrow> int \<Rightarrow> (pystr \<Rightarrow> int result) \<Rightarrow> packet \<Rightarrow> int \<Rightarrow> int result" where
  "get_ranged lo hi text_int data i =
     ebind (py_index data i) (\<lambda>x. ebind (py_int_of text_int x) (\<lambda>v.
       if v < lo \<or> v \<ge> hi then Inl ValueError else Inr v))"

definition get_wid where "get_wid = get_ranged (-1) (2 ^ 48)"
definition get_i8 where "get_i8 = get_ranged (- (2 ^ 7)) (2 ^ 7)"
definition get_u8 where "get_u8 = get_ranged 0 (2 ^ 8)"
definition get_i16 where "get_i16 = get_ranged (- (2 ^ 15)) (2 ^ 15)"
definition get_u16 where "get_u16 = get_ranged 0 (2 ^ 16)"
definition get_i32 where "get_i32 = get_ranged (- (2 ^ 31)) (2 ^ 31)"
definition get_u32 where "get_u32 = get_ranged 0 (2 ^ 32)"
definition get_i64 where "get_i64 = get_ranged (- (2 ^ 63)) (2 ^ 63)"
definition get_u64 where "get_u64 = get_ranged 0 (2 ^ 64)"

definition get_bool :: "packet \<Rightarrow> int \<Rightarrow> bool result" where
  "get_bool data i = ebind (py_index data i) (\<lambda>v. Inr (py_bool v))"

text \<open>
  The text accessors: \<open>utf8\<close> and \<open>unutf8\<close> are the interpreter's encoder and decoder, \<open>str_of\<close> its
  \<^verbatim>\<open>str()\<close> for the values that are not text.
\<close>

definition get_str ::
  "(bytes \<Rightarrow> pystr result) \<Rightarrow> (pval \<Rightarrow> pystr) \<Rightarrow> packet \<Rightarrow> int \<Rightarrow> pystr result" where
  "get_str unutf8 str_of data i =
     ebind (py_index data i) (\<lambda>v.
       case v of PBytes bs \<Rightarrow> unutf8 bs | PStr cs \<Rightarrow> Inr cs | _ \<Rightarrow> Inr (str_of v))"

definition get_bytes :: "packet \<Rightarrow> int \<Rightarrow> bytes result" where
  "get_bytes data i =
     ebind (py_index data i) (\<lambda>v.
       case v of PBytes bs \<Rightarrow> Inr bs | PStr [] \<Rightarrow> Inr [] | _ \<Rightarrow> py_bytes_of v)"

definition get_buffer :: "(pystr \<Rightarrow> bytes result) \<Rightarrow> packet \<Rightarrow> int \<Rightarrow> bytes result" where
  "get_buffer utf8 data i =
     ebind (py_index data i) (\<lambda>v.
       case v of PBuffer bs \<Rightarrow> Inr bs | PBytes bs \<Rightarrow> Inr bs | PStr cs \<Rightarrow> utf8 cs | _ \<Rightarrow> py_bytes_of v)"

definition get_dict :: "packet \<Rightarrow> int \<Rightarrow> (pval \<times> pval) list result" where
  "get_dict data i =
     ebind (py_index data i) (\<lambda>v. case v of PDict kvs \<Rightarrow> Inr kvs | _ \<Rightarrow> Inl TypeError)"

definition get_seq :: "(pval \<Rightarrow> 'a result) \<Rightarrow> packet \<Rightarrow> int \<Rightarrow> 'a list result" where
  "get_seq f data i =
     ebind (py_index data i) (\<lambda>v.
       if is_sequence v then ebind (py_list v) (emap f) else Inl TypeError)"

definition get_strs :: "(pval \<Rightarrow> pystr) \<Rightarrow> packet \<Rightarrow> int \<Rightarrow> pystr list result" where
  "get_strs str_of = get_seq (\<lambda>v. Inr (case v of PStr cs \<Rightarrow> cs | _ \<Rightarrow> str_of v))"

definition get_bytes_seq :: "packet \<Rightarrow> int \<Rightarrow> bytes list result" where
  "get_bytes_seq = get_seq py_bytes_of"

definition get_ints :: "(pystr \<Rightarrow> int result) \<Rightarrow> packet \<Rightarrow> int \<Rightarrow> int list result" where
  "get_ints text_int = get_seq (py_int_of text_int)"

definition get_u16s :: "(pystr \<Rightarrow> int result) \<Rightarrow> packet \<Rightarrow> int \<Rightarrow> int list result" where
  "get_u16s text_int data i =
     ebind (get_ints text_int data i) (\<lambda>values.
       if list_all (\<lambda>v. 0 \<le> v \<and> v < 2 ^ 16) values then Inr values else Inl ValueError)"

section \<open>Properties\<close>

lemma py_index_nonneg:
  "0 \<le> i \<Longrightarrow> py_index xs i = (if nat i < length xs then Inr (xs ! nat i) else Inl IndexError)"
  by (auto simp: py_index_def nat_less_iff)

lemma py_index_pval: "py_index xs i = Inr x \<Longrightarrow> x \<in> set xs"
  by (auto simp: py_index_def Let_def nat_less_iff split: if_splits)

lemma get_ranged_Inr:
  "get_ranged lo hi text_int data i = Inr v \<longleftrightarrow>
     (\<exists>x. py_index data i = Inr x \<and> py_int_of text_int x = Inr v \<and> lo \<le> v \<and> v < hi)"
  by (cases "ebind (py_index data i) (py_int_of text_int)")
    (auto simp: get_ranged_def ebind_def split: sum.splits if_splits)

lemma get_ranged_cases:
  "get_ranged lo hi text_int data i =
     (case ebind (py_index data i) (py_int_of text_int) of
        Inl e \<Rightarrow> Inl e | Inr v \<Rightarrow> if v \<in> {lo..<hi} then Inr v else Inl ValueError)"
  by (simp add: get_ranged_def ebind_def split: sum.split)

lemmas packet_getters = get_wid_def get_i8_def get_u8_def get_i16_def get_u16_def get_i32_def
  get_u32_def get_i64_def get_u64_def

definition results :: "(packet \<Rightarrow> int \<Rightarrow> 'a result) \<Rightarrow> 'a set" where
  "results get = {v. \<exists>data i. get data i = Inr v}"

lemma results_get_ranged: "results (get_ranged lo hi text_int) = {lo..<hi}"
proof -
  have "get_ranged lo hi text_int [PInt v] 0 = Inr v" if "lo \<le> v" "v < hi" for v
    using that by (simp add: get_ranged_def py_index_def py_int_of_def)
  then show ?thesis
    unfolding results_def get_ranged_Inr by (auto simp: get_ranged_Inr) metis
qed

lemma get_u16s_range: "get_u16s text_int data i = Inr vs \<Longrightarrow> v \<in> set vs \<Longrightarrow> 0 \<le> v \<and> v < 2 ^ 16"
  by (auto simp: get_u16s_def ebind_eq_Inr list_all_iff split: if_splits)

text \<open>
  The integer accessors of a packet are exact: the values each of them can return, whatever
  the packet holds and however the interpreter reads text, are the integers of its width, all of
  them and no others; \<^verbatim>\<open>get_u16s\<close> returns 16 bit values only.
\<close>

theorem packet_accessors_exact:
  "results (get_wid text_int) = {-1..<2 ^ 48} \<and>
   results (get_i8 text_int) = {- (2 ^ 7)..<2 ^ 7} \<and> results (get_u8 text_int) = {0..<2 ^ 8} \<and>
   results (get_i16 text_int) = {- (2 ^ 15)..<2 ^ 15} \<and> results (get_u16 text_int) = {0..<2 ^ 16} \<and>
   results (get_i32 text_int) = {- (2 ^ 31)..<2 ^ 31} \<and> results (get_u32 text_int) = {0..<2 ^ 32} \<and>
   results (get_i64 text_int) = {- (2 ^ 63)..<2 ^ 63} \<and> results (get_u64 text_int) = {0..<2 ^ 64} \<and>
   \<Union> (set ` results (get_u16s text_int)) \<subseteq> {0..<2 ^ 16}"
  unfolding packet_getters results_get_ranged
  by (auto simp: results_def dest: get_u16s_range)

end
