(* ===== verification/PacketCodec.thy ===== *)
theory PacketCodec
  imports PacketHeader PacketValues
begin

text \<open>
  Compressors and packet encoders: \<^verbatim>\<open>src/xpra/net/compression.py\<close> and
  \<^verbatim>\<open>src/xpra/net/packet_encoding.py\<close>. The compression libraries (lz4, brotli, zstd) and the
  serialisers (rencodeplus, yaml) are extension modules the files only call: they are arguments
  of the model. The two registries \<^verbatim>\<open>COMPRESSION\<close> and \<^verbatim>\<open>ENCODERS\<close> are maps from names.
\<close>

section \<open>Compressors\<close>

definition ALL_COMPRESSORS :: "string list" where
  "ALL_COMPRESSORS = [''lz4'', ''zlib'', ''lzo'', ''brotli'', ''zstd'', ''none'']"

definition VALID_COMPRESSORS :: "string list" where
  "VALID_COMPRESSORS = [''lz4'', ''brotli'', ''zstd'']"

definition TRY_COMPRESSORS :: "string list" where
  "TRY_COMPRESSORS = [''lz4'', ''zstd'', ''brotli'', ''none'']"

definition PERFORMANCE_ORDER :: "string list" where
  "PERFORMANCE_ORDER = [''none'', ''lz4'', ''zstd'', ''brotli'']"

definition PERFORMANCE_COMPRESSION :: "string list" where
  "PERFORMANCE_COMPRESSION = [''lz4'', ''zstd'', ''brotli'']"

definition MIN_COMPRESS_SIZE :: nat where "MIN_COMPRESS_SIZE = 378"

definition MAX_DECOMPRESSED_SIZE :: nat where "MAX_DECOMPRESSED_SIZE = 256 * 1024 * 1024"

text \<open>
  What an extension module offers: \<open>lib_compress data parameter\<close> (lz4's acceleration, the quality
  or the level of the others) and \<open>lib_decompress data\<close>.
\<close>

record compression_lib =
  lib_version :: string
  lib_compress :: "bytes \<Rightarrow> int \<Rightarrow> bytes result"
  lib_decompress :: "bytes \<Rightarrow> bytes result"

text \<open>The data class \<^verbatim>\<open>Compression\<close>.\<close>

record compression =
  c_name :: string
  c_version :: string
  c_compress :: "bytes \<Rightarrow> int \<Rightarrow> (int \<times> bytes) result"
  c_decompress :: "bytes \<Rightarrow> bytes result"

type_synonym compressions = "string \<Rightarrow> compression option"

definition lz4_compress :: "compression_lib \<Rightarrow> bytes \<Rightarrow> int \<Rightarrow> (int \<times> bytes) result" where
  "lz4_compress lib data level =
     (let flag = min 15 level OR LZ4_FLAG
      in ebind (lib_compress lib data (max 0 (5 - level div 3))) (\<lambda>c. Inr (flag, c)))"

definition init_lz4 :: "compression_lib \<Rightarrow> compression" where
  "init_lz4 lib = \<lparr>c_name = ''lz4'', c_version = lib_version lib,
     c_compress = lz4_compress lib, c_decompress = lib_decompress lib\<rparr>"

definition brotli_compress_shim :: "compression_lib \<Rightarrow> bytes \<Rightarrow> int \<Rightarrow> (int \<times> bytes) result" where
  "brotli_compress_shim lib packet level =
     (let level = (if length packet > 1024 * 1024 then min 9 level else min 11 level)
      in ebind (lib_compress lib packet level) (\<lambda>c. Inr (level OR BROTLI_FLAG, c)))"

definition init_brotli :: "compression_lib \<Rightarrow> compression" where
  "init_brotli lib = \<lparr>c_name = ''brotli'', c_version = lib_version lib,
     c_compress = brotli_compress_shim lib, c_decompress = lib_decompress lib\<rparr>"

definition zstd_compress_shim :: "compression_lib \<Rightarrow> bytes \<Rightarrow> int \<Rightarrow> (int \<times> bytes) result" where
  "zstd_compress_shim lib packet level =
     ebind (lib_compress lib packet level) (\<lambda>c. Inr (min 15 level OR ZSTD_FLAG, c))"

definition init_zstd :: "compression_lib \<Rightarrow> compression" where
  "init_zstd lib = \<lparr>c_name = ''zstd'', c_version = lib_version lib,
     c_compress = zstd_compress_shim lib, c_decompress = lib_decompress lib\<rparr>"

definition init_none :: compression where
  "init_none = \<lparr>c_name = ''none'', c_version = ''0'',
     c_compress = (\<lambda>data level. Inr (0, data)), c_decompress = (\<lambda>v. Inr v)\<rparr>"

text \<open>
  \<open>libs\<close> says which module can be imported (\<^verbatim>\<open>ImportError\<close> is \<open>None\<close>), \<open>enabled\<close> what the
  environment variable \<^verbatim>\<open>XPRA_<NAME>\<close> says.
\<close>

definition init_compression :: "(string \<Rightarrow> compression_lib option) \<Rightarrow> string \<Rightarrow> compression option" where
  "init_compression libs x =
     (if x = ''lz4'' then map_option init_lz4 (libs x)
      else if x = ''brotli'' then map_option init_brotli (libs x)
      else if x = ''zstd'' then map_option init_zstd (libs x)
      else Some init_none)"

definition compressor_names :: "string set" where
  "compressor_names = {''lz4'', ''brotli'', ''zstd'', ''none''}"

fun init_compressors ::
  "(string \<Rightarrow> compression_lib option) \<Rightarrow> (string \<Rightarrow> bool) \<Rightarrow> string list \<Rightarrow> compressions \<Rightarrow> compressions result" where
  "init_compressors libs enabled [] comps = Inr comps"
| "init_compressors libs enabled (x # names) comps =
     (if x = ''compressors'' \<or> x = ''all'' then Inl AssertionError
      else if \<not> enabled x then init_compressors libs enabled names comps
      else if x \<notin> compressor_names then init_compressors libs enabled names comps
      else case init_compression libs x of
        None \<Rightarrow> init_compressors libs enabled names comps
      | Some c \<Rightarrow> init_compressors libs enabled names (comps(x \<mapsto> c)))"

definition init_all ::
  "(string \<Rightarrow> compression_lib option) \<Rightarrow> (string \<Rightarrow> bool) \<Rightarrow> compressions \<Rightarrow> compressions result" where
  "init_all libs enabled = init_compressors libs enabled (TRY_COMPRESSORS @ [''zstd'', ''none''])"

definition use_compressor :: "compressions \<Rightarrow> string \<Rightarrow> bool" where
  "use_compressor comps compressor \<longleftrightarrow> compressor \<in> dom comps"

text \<open>The capabilities: a name and, where full information is asked for, its version.\<close>

definition get_compression_caps :: "compressions \<Rightarrow> int \<Rightarrow> (string \<times> string option) list" where
  "get_compression_caps comps full_info =
     List.map_filter (\<lambda>x. map_option (\<lambda>c.
       (x, if full_info > 1 \<and> c_version c \<noteq> [] then Some (c_version c) else None)) (comps x)) TRY_COMPRESSORS"

definition get_enabled_compressors :: "compressions \<Rightarrow> string list \<Rightarrow> string list" where
  "get_enabled_compressors comps order = filter (\<lambda>x. comps x \<noteq> None) order"

definition get_compressor :: "compressions \<Rightarrow> string \<Rightarrow> (bytes \<Rightarrow> int \<Rightarrow> (int \<times> bytes) result) result" where
  "get_compressor comps name =
     (case comps name of Some c \<Rightarrow> Inr (c_compress c) | None \<Rightarrow> Inl ValueError)"

section \<open>Compressed values\<close>

text \<open>
  \<^verbatim>\<open>Compressed(datatype, data, can_inline)\<close> raises for empty data that is not a sequence.
\<close>

definition Compressed_init :: "pval \<Rightarrow> bool \<Rightarrow> pval result" where
  "Compressed_init data can_inline =
     (if \<not> py_bool data \<and> \<not> is_sequence data then Inl ValueError else Inr (PCompressed data can_inline))"

definition LevelCompressed_init :: "pval \<Rightarrow> int \<Rightarrow> string \<Rightarrow> bool \<Rightarrow> pval result" where
  "LevelCompressed_init data level algo can_inline =
     (if \<not> py_bool data \<and> \<not> is_sequence data then Inl ValueError
      else Inr (PLevelCompressed data level algo can_inline))"

text \<open>\<^verbatim>\<open>Compressible.compress\<close> has to be overridden.\<close>

definition Compressible_compress :: "pval \<Rightarrow> pval result" where
  "Compressible_compress v = Inl NotImplementedError"

text \<open>
  \<^verbatim>\<open>compressed_wrapper\<close>: \<open>allowed\<close> are the algorithms the keyword arguments switch on and
  \<open>min_saving\<close> the keyword of that name.
\<close>

definition compressed_wrapper ::
  "compressions \<Rightarrow> bytes \<Rightarrow> int \<Rightarrow> bool \<Rightarrow> (string \<Rightarrow> bool) \<Rightarrow> int \<Rightarrow> pval result" where
  "compressed_wrapper comps data level can_inline allowed min_saving =
     (let size = length data;
          no = Compressed_init (PBytes data) can_inline
      in if size \<le> MIN_COMPRESS_SIZE then no
         else if size > MAX_DECOMPRESSED_SIZE then Inl ValueError
         else case filter (\<lambda>x. allowed x \<and> comps x \<noteq> None) PERFORMANCE_COMPRESSION of
           [] \<Rightarrow> no
         | algo # _ \<Rightarrow>
             ebind (c_compress (the (comps algo)) data level) (\<lambda>(cl, cdata).
               if int (length cdata) \<ge> int size + min_saving then no
               else LevelCompressed_init (PBuffer cdata) cl algo can_inline))"

section \<open>Decompression\<close>

definition get_compression_type :: "int \<Rightarrow> string" where
  "get_compression_type level =
     (if level AND LZ4_FLAG \<noteq> 0 then ''lz4''
      else if level AND ZSTD_FLAG \<noteq> 0 then ''zstd''
      else if level AND BROTLI_FLAG \<noteq> 0 then ''brotli''
      else ''zlib'')"

definition decompress_by_name :: "compressions \<Rightarrow> bytes \<Rightarrow> string \<Rightarrow> bytes result" where
  "decompress_by_name comps data algo =
     (case comps algo of None \<Rightarrow> Inl InvalidCompressionException | Some c \<Rightarrow> c_decompress c data)"

definition decompress :: "compressions \<Rightarrow> bytes \<Rightarrow> int \<Rightarrow> bytes result" where
  "decompress comps data level =
     (let algo = (if level AND LZ4_FLAG \<noteq> 0 then ''lz4''
                  else if level AND ZSTD_FLAG \<noteq> 0 then ''zstd''
                  else if level AND BROTLI_FLAG \<noteq> 0 then ''brotli''
                  else ''zlib'')
      in decompress_by_name comps data algo)"

section \<open>Packet encoders\<close>

definition VALID_ENCODERS :: "string list" where
  "VALID_ENCODERS = [''rencodeplus'', ''yaml'', ''none'']"

definition TRY_ENCODERS :: "string list" where
  "TRY_ENCODERS = [''rencodeplus'', ''yaml'', ''none'']"

definition ENCODER_PERFORMANCE_ORDER :: "string list" where
  "ENCODER_PERFORMANCE_ORDER = [''rencodeplus'', ''yaml'']"

record serialiser =
  s_version :: string
  s_dumps :: "pval \<Rightarrow> bytes result"
  s_loads :: "bytes \<Rightarrow> pval result"

record packet_encoder =
  e_name :: string
  e_flag :: int
  e_version :: string
  e_encode :: "pval \<Rightarrow> (bytes \<times> int) result"
  e_decode :: "bytes \<Rightarrow> pval result"

type_synonym encoders = "string \<Rightarrow> packet_encoder option"

definition init_rencodeplus :: "serialiser \<Rightarrow> packet_encoder" where
  "init_rencodeplus s = \<lparr>e_name = ''rencodeplus'', e_flag = FLAGS_RENCODEPLUS, e_version = s_version s,
     e_encode = (\<lambda>v. ebind (s_dumps s v) (\<lambda>b. Inr (b, FLAGS_RENCODEPLUS))), e_decode = s_loads s\<rparr>"

definition init_yaml :: "serialiser \<Rightarrow> packet_encoder" where
  "init_yaml s = \<lparr>e_name = ''yaml'', e_flag = FLAGS_YAML, e_version = s_version s,
     e_encode = (\<lambda>v. ebind (s_dumps s v) (\<lambda>b. Inr (b, FLAGS_YAML))), e_decode = s_loads s\<rparr>"

text \<open>
  The function \<^verbatim>\<open>b\<close>: iterables are flattened, joined with spaces, anything else is
  \<^verbatim>\<open>memoryview_to_bytes\<close>; \<open>str_bytes\<close> is \<^verbatim>\<open>strtobytes\<close> for values that are not bytes.
\<close>

fun join_spaces :: "bytes list \<Rightarrow> bytes" where
  "join_spaces [] = []"
| "join_spaces [x] = x"
| "join_spaces (x # y # zs) = x @ [0x20] @ join_spaces (y # zs)"

function plain_bytes :: "(pval \<Rightarrow> bytes) \<Rightarrow> pval \<Rightarrow> bytes" where
  "plain_bytes str_bytes v =
     (case v of
        PBytes bs \<Rightarrow> bs
      | PBuffer bs \<Rightarrow> bs
      | PList xs \<Rightarrow> join_spaces (map (plain_bytes str_bytes) xs)
      | PTuple xs \<Rightarrow> join_spaces (map (plain_bytes str_bytes) xs)
      | PDict kvs \<Rightarrow> join_spaces (map (\<lambda>kv. plain_bytes str_bytes (fst kv)) kvs)
      | _ \<Rightarrow> str_bytes v)"
  by pat_completeness auto
termination
proof (relation "measure (\<lambda>(_, v). size v)", goal_cases)
  case (2 s v xs x) then show ?case by (simp add: less_Suc_eq_le size_list_estimation')
next
  case (3 s v xs x) then show ?case by (simp add: less_Suc_eq_le size_list_estimation')
next
  case (4 s v kvs kv)
  have "size_prod size size kv \<le> size_list (size_prod size size) kvs"
    using 4 size_list_estimation' [of kv kvs "size_prod size size kv" "size_prod size size"] by simp
  then show ?case using 4 by (cases kv) simp
qed simp

declare plain_bytes.simps [simp del]

definition none_encode :: "(pval \<Rightarrow> bytes) \<Rightarrow> pval \<Rightarrow> (bytes \<times> int) result" where
  "none_encode str_bytes v = Inr (plain_bytes str_bytes v @ [0x0A], FLAGS_NOHEADER)"

definition init_none_encoder :: "(pval \<Rightarrow> bytes) \<Rightarrow> packet_encoder" where
  "init_none_encoder str_bytes = \<lparr>e_name = ''none'', e_flag = FLAGS_NOHEADER, e_version = ''0'',
     e_encode = none_encode str_bytes, e_decode = (\<lambda>data. Inr (PBytes data))\<rparr>"

definition init_encoder :: "(string \<Rightarrow> serialiser option) \<Rightarrow> (pval \<Rightarrow> bytes) \<Rightarrow> string \<Rightarrow> packet_encoder option" where
  "init_encoder libs str_bytes x =
     (if x = ''rencodeplus'' then map_option init_rencodeplus (libs x)
      else if x = ''yaml'' then map_option init_yaml (libs x)
      else Some (init_none_encoder str_bytes))"

fun init_encoders ::
  "(string \<Rightarrow> serialiser option) \<Rightarrow> (pval \<Rightarrow> bytes) \<Rightarrow> (string \<Rightarrow> bool) \<Rightarrow> string list \<Rightarrow> encoders \<Rightarrow> encoders" where
  "init_encoders libs sb enabled [] encs = encs"
| "init_encoders libs sb enabled (x # names) encs =
     (if x \<notin> set TRY_ENCODERS \<or> \<not> enabled x then init_encoders libs sb enabled names encs
      else case init_encoder libs sb x of
        None \<Rightarrow> init_encoders libs sb enabled names encs
      | Some e \<Rightarrow> init_encoders libs sb enabled names (encs(x \<mapsto> e)))"

definition init_all_encoders ::
  "(string \<Rightarrow> serialiser option) \<Rightarrow> (pval \<Rightarrow> bytes) \<Rightarrow> (string \<Rightarrow> bool) \<Rightarrow> encoders \<Rightarrow> encoders" where
  "init_all_encoders libs sb enabled = init_encoders libs sb enabled (TRY_ENCODERS @ [''none''])"

definition get_packet_encoding_caps :: "encoders \<Rightarrow> int \<Rightarrow> (string \<times> bool \<times> string option) list" where
  "get_packet_encoding_caps encs full_info = map (\<lambda>name.
     case encs name of
       None \<Rightarrow> (name, False, None)
     | Some e \<Rightarrow> (name, True, if full_info > 1 \<and> e_version e \<noteq> [] then Some (e_version e) else None))
     TRY_ENCODERS"

definition get_enabled_encoders :: "encoders \<Rightarrow> string list \<Rightarrow> string list" where
  "get_enabled_encoders encs order = filter (\<lambda>x. encs x \<noteq> None) order"

definition get_encoder :: "encoders \<Rightarrow> string \<Rightarrow> (pval \<Rightarrow> (bytes \<times> int) result) result" where
  "get_encoder encs e =
     (if e \<notin> set VALID_ENCODERS then Inl ValueError
      else case encs e of None \<Rightarrow> Inl ValueError | Some enc \<Rightarrow> Inr (e_encode enc))"

definition get_packet_encoding_type :: "int \<Rightarrow> string" where
  "get_packet_encoding_type protocol_flags =
     (if protocol_flags AND FLAGS_RENCODEPLUS \<noteq> 0 then ''rencodeplus''
      else if protocol_flags AND FLAGS_RENCODE \<noteq> 0 then ''rencode''
      else if protocol_flags AND FLAGS_YAML \<noteq> 0 then ''yaml''
      else ''bencode'')"

definition pack_one_packet :: "encoders \<Rightarrow> (pval \<Rightarrow> bytes) \<Rightarrow> pval list \<Rightarrow> bytes result" where
  "pack_one_packet encs str_bytes packet =
     (case get_enabled_encoders encs TRY_ENCODERS of
        [] \<Rightarrow> Inr (str_bytes (PTuple packet))
      | e # _ \<Rightarrow>
          ebind (get_encoder encs e) (\<lambda>encode.
          ebind (encode (PTuple packet)) (\<lambda>(data, flags).
          ebind (pack_header flags 0 0 (int (length data))) (\<lambda>h. Inr (h @ data)))))"

definition decode :: "encoders \<Rightarrow> bytes \<Rightarrow> int \<Rightarrow> pval result" where
  "decode encs data protocol_flags =
     (case encs (get_packet_encoding_type protocol_flags) of
        Some e \<Rightarrow> e_decode e data
      | None \<Rightarrow> Inl InvalidPacketEncodingException)"

section \<open>The flags the encoders write are the flags the decoders read\<close>

text \<open>
  The compression bytes a validated header can carry: none, or a level from 1 to 15 with the flag
  of exactly one algorithm, the one the decompressor picks.
\<close>

definition algo_flags :: "(string \<times> int) list" where
  "algo_flags = [(''lz4'', LZ4_FLAG), (''zstd'', ZSTD_FLAG), (''brotli'', BROTLI_FLAG)]"

definition unambiguous_compression :: "int \<Rightarrow> bool" where
  "unambiguous_compression l \<longleftrightarrow>
     l = 0 \<or> list_ex (\<lambda>(name, flag).
       list_ex (\<lambda>level. l = level OR flag) [1..15] \<and> get_compression_type l = name) algo_flags"

lemma upto_range: "in_range n limit \<longleftrightarrow> n \<in> set [0..limit - 1]"
  by (auto simp: in_range_def)

lemma validated_compression_table:
  "list_all (\<lambda>l. (validate_compression l = None) = unambiguous_compression l) [0..255]"
  by code_simp

lemma validated_compression:
  "in_range l 256 \<Longrightarrow> (validate_compression l = None) = unambiguous_compression l"
  using validated_compression_table by (auto simp: list_all_iff in_range_def)

lemma compressor_flag_table:
  "list_all (\<lambda>(name, flag). list_all (\<lambda>level.
     validate_compression (level OR flag) = None \<and> get_compression_type (level OR flag) = name \<and>
     0 \<le> level OR flag \<and> level OR flag < 256) [1..15]) algo_flags"
  by code_simp

text \<open>
  The protocol flags a validated header can carry: exactly one of the two encoders, the one the
  decoder picks, in the main chunk of a packet; no encoder and no flush flag in a raw chunk.
\<close>

definition unambiguous_encoder :: "int \<Rightarrow> int \<Rightarrow> bool" where
  "unambiguous_encoder f i \<longleftrightarrow>
     (if i \<noteq> 0 then f = 0 \<or> f = FLAGS_CIPHER
      else list_ex (\<lambda>(name, e).
        list_ex (\<lambda>x. f = e OR x) [0, FLAGS_CIPHER, FLAGS_FLUSH, FLAGS_CIPHER OR FLAGS_FLUSH] \<and>
        get_packet_encoding_type f = name)
        [(''rencodeplus'', FLAGS_RENCODEPLUS), (''yaml'', FLAGS_YAML)])"

definition flags_ok :: "int \<Rightarrow> int \<Rightarrow> bool" where
  "flags_ok f i \<longleftrightarrow> f AND NOT KNOWN_PROTOCOL_FLAGS = 0 \<and> validate_encoder f i True = None"

lemma validate_packet_header_None:
  "validate_packet_header f l i True = None \<longleftrightarrow> flags_ok f i \<and> validate_compression l = None"
  by (auto simp: validate_packet_header_def flags_ok_def Let_def split: option.splits)

lemma flags_table: "list_all (\<lambda>f. flags_ok f 0 = unambiguous_encoder f 0 \<and> flags_ok f 1 = unambiguous_encoder f 1) [0..255]"
  by code_simp

lemma flags_ok_raw: "i \<noteq> 0 \<Longrightarrow> flags_ok f i = flags_ok f 1 \<and> unambiguous_encoder f i = unambiguous_encoder f 1"
  by (simp add: flags_ok_def validate_encoder_def unambiguous_encoder_def)

lemma flags_ok_unambiguous: "in_range f 256 \<Longrightarrow> flags_ok f i = unambiguous_encoder f i"
  using flags_table flags_ok_raw [of i f] by (cases "i = 0") (auto simp: list_all_iff in_range_def)

text \<open>
  C29: the receiver's validation admits exactly the unambiguous headers: for one byte fields,
  \<^verbatim>\<open>validate_packet_header\<close> accepts the flags if and only if the compression byte is zero or a
  level from 1 to 15 combined with the flag of the one algorithm that \<^verbatim>\<open>get_compression_type\<close>
  reads off it, and the protocol flags name exactly the one encoder \<^verbatim>\<open>get_packet_encoding_type\<close>
  reads off them (none, and no flush flag, in a raw chunk).
\<close>

theorem validated_header_unambiguous:
  assumes "in_range f 256" "in_range l 256"
  shows "validate_packet_header f l i True = None \<longleftrightarrow> unambiguous_encoder f i \<and> unambiguous_compression l"
  using assms by (simp add: validate_packet_header_None flags_ok_unambiguous validated_compression)

theorem validated_header_unambiguous_witness:
  "unambiguous_encoder 0x1A 0 \<and> unambiguous_compression 0x43 \<and>
   \<not> (unambiguous_encoder 0x11 0 \<and> unambiguous_compression 0x43) \<and>
   validate_packet_header 0x1A 0x43 0 True = None \<and> validate_packet_header 0x11 0x43 0 True \<noteq> None"
proof -
  have r: "in_range 0x1A 256" "in_range 0x43 256" "in_range 0x11 256"
    by (simp_all add: in_range_def)
  have u: "unambiguous_encoder 0x1A 0" "unambiguous_compression 0x43" "\<not> unambiguous_encoder 0x11 0"
    by code_simp+
  show ?thesis
    using validated_header_unambiguous [OF r(1,2), of 0] validated_header_unambiguous [OF r(3,2), of 0] u
    by simp
qed

section \<open>Compressing and decompressing\<close>

lemma init_compression_cases:
  assumes "init_compression libs x = Some c" "x \<in> compressor_names"
  shows "c_name c = x" "x \<noteq> ''none'' \<Longrightarrow> \<exists>lib. libs x = Some lib \<and> c_decompress c = lib_decompress lib \<and>
     c_compress c = (if x = ''lz4'' then lz4_compress lib else if x = ''brotli'' then brotli_compress_shim lib
       else zstd_compress_shim lib)"
  using assms by (auto simp: compressor_names_def init_compression_def init_lz4_def init_brotli_def
      init_zstd_def init_none_def split: if_splits)

definition registry_of :: "(string \<Rightarrow> compression_lib option) \<Rightarrow> compressions \<Rightarrow> bool" where
  "registry_of libs comps \<longleftrightarrow>
     (\<forall>x c. comps x = Some c \<longrightarrow> init_compression libs x = Some c \<and> x \<in> compressor_names)"

lemma registry_of_upd:
  "registry_of libs comps \<Longrightarrow> init_compression libs x = Some c \<Longrightarrow> x \<in> compressor_names \<Longrightarrow>
   registry_of libs (comps(x \<mapsto> c))"
  unfolding registry_of_def by simp

lemma init_compressors_registry:
  "init_compressors libs enabled names comps = Inr comps' \<Longrightarrow> registry_of libs comps \<Longrightarrow> registry_of libs comps'"
proof (induction names arbitrary: comps)
  case (Cons x names)
  then show ?case
    using registry_of_upd [of libs comps x]
    by (cases "init_compression libs x") (simp_all split: if_splits)
qed simp

lemma init_all_registry: "init_all libs enabled Map.empty = Inr comps \<Longrightarrow> registry_of libs comps"
  unfolding init_all_def by (rule init_compressors_registry) (auto simp: registry_of_def)

lemma compressor_flag:
  assumes "(name, flag) \<in> set algo_flags" "1 \<le> level" "level \<le> 15"
  shows "validate_compression (level OR flag) = None" "get_compression_type (level OR flag) = name"
    "in_range (level OR flag) 256"
  using compressor_flag_table assms by (auto simp: list_all_iff in_range_def)

text \<open>What the shims do: clip the level to four bits and add the flag.\<close>

definition levelled :: "int \<Rightarrow> compression_lib \<Rightarrow> bytes \<Rightarrow> int \<Rightarrow> bytes \<Rightarrow> bool" where
  "levelled flag lib data cl cdata \<longleftrightarrow>
     (\<exists>k p. 1 \<le> k \<and> k \<le> 15 \<and> cl = k OR flag \<and> lib_compress lib data p = Inr cdata)"

lemma levelledI:
  "lib_compress lib data p = Inr cdata \<Longrightarrow> 1 \<le> k \<Longrightarrow> k \<le> 15 \<Longrightarrow> levelled flag lib data (k OR flag) cdata"
  unfolding levelled_def by blast

lemma lz4_levelled:
  "1 \<le> level \<Longrightarrow> lz4_compress lib data level = Inr (cl, cdata) \<Longrightarrow> levelled LZ4_FLAG lib data cl cdata"
  by (auto simp: lz4_compress_def Let_def ebind_eq_Inr intro!: levelledI)

lemma brotli_levelled:
  "1 \<le> level \<Longrightarrow> brotli_compress_shim lib data level = Inr (cl, cdata) \<Longrightarrow> levelled BROTLI_FLAG lib data cl cdata"
  by (cases "1024 * 1024 < length data") (auto simp: brotli_compress_shim_def Let_def ebind_eq_Inr intro!: levelledI)

lemma zstd_levelled:
  "1 \<le> level \<Longrightarrow> zstd_compress_shim lib data level = Inr (cl, cdata) \<Longrightarrow> levelled ZSTD_FLAG lib data cl cdata"
  by (auto simp: zstd_compress_shim_def ebind_eq_Inr intro!: levelledI)

text \<open>What every compressor of the registry satisfies: a valid flag byte that names it.\<close>

lemma registry_compress:
  assumes "registry_of libs comps" "comps algo = Some c" "algo \<noteq> ''none''" "1 \<le> level"
    and "c_compress c data level = Inr (cl, cdata)"
  shows "validate_compression cl = None" "get_compression_type cl = algo" "in_range cl 256"
    and "\<exists>lib p. libs algo = Some lib \<and> lib_compress lib data p = Inr cdata \<and> c_decompress c = lib_decompress lib"
proof -
  from assms(1,2) have c: "init_compression libs algo = Some c"
    and mem: "algo \<in> compressor_names"
    unfolding registry_of_def by blast+
  from init_compression_cases(2) [OF c mem assms(3)] obtain lib where
    lib: "libs algo = Some lib" "c_decompress c = lib_decompress lib"
    and comp: "c_compress c = (if algo = ''lz4'' then lz4_compress lib
       else if algo = ''brotli'' then brotli_compress_shim lib else zstd_compress_shim lib)"
    by blast
  have "\<exists>flag. (algo, flag) \<in> set algo_flags \<and> levelled flag lib data cl cdata"
    using mem assms(3-5) lz4_levelled [of level lib data cl cdata] brotli_levelled [of level lib data cl cdata]
      zstd_levelled [of level lib data cl cdata]
    unfolding comp algo_flags_def compressor_names_def by (auto split: if_splits)
  then obtain flag k p where k: "(algo, flag) \<in> set algo_flags" "1 \<le> k" "k \<le> 15" "cl = k OR flag"
      and p: "lib_compress lib data p = Inr cdata"
    unfolding levelled_def by blast
  show "validate_compression cl = None" "get_compression_type cl = algo" "in_range cl 256"
    using compressor_flag [OF k(1-3)] k(4) by simp_all
  show "\<exists>lib p. libs algo = Some lib \<and> lib_compress lib data p = Inr cdata \<and> c_decompress c = lib_decompress lib"
    using lib p by blast
qed

text \<open>The libraries' documented contract: decompression undoes compression.\<close>

definition libs_invertible :: "(string \<Rightarrow> compression_lib option) \<Rightarrow> bool" where
  "libs_invertible libs \<longleftrightarrow>
     (\<forall>algo lib data p c. libs algo = Some lib \<longrightarrow> lib_compress lib data p = Inr c \<longrightarrow> lib_decompress lib c = Inr data)"

lemma decompress_is_by_name: "decompress comps data level = decompress_by_name comps data (get_compression_type level)"
  by (simp add: decompress_def get_compression_type_def)

lemma registry_decompress:
  assumes "registry_of libs comps" "comps algo = Some c" "algo \<noteq> ''none''" "1 \<le> level"
    and "c_compress c data level = Inr (cl, cdata)" "libs_invertible libs"
  shows "decompress comps cdata cl = Inr data"
  using registry_compress(2,4) [OF assms(1-5)] assms(2,6)
  by (auto simp: decompress_is_by_name decompress_by_name_def libs_invertible_def)

text \<open>
  Whatever \<^verbatim>\<open>compressed_wrapper\<close> returns can be undone by the peer: with the registry that
  \<^verbatim>\<open>init_all\<close> builds from invertible libraries and any level from 1 on, it is either the data
  itself, or data compressed with an algorithm the caller allowed, smaller than the original plus
  the saving asked for, whose flag byte fits the header, passes the receiver's validation, names
  that algorithm, and makes \<^verbatim>\<open>decompress\<close> return the original.
\<close>

theorem compressed_wrapper_decompresses:
  assumes "init_all libs enabled Map.empty = Inr comps" "libs_invertible libs" "1 \<le> level"
    and "compressed_wrapper comps data level can_inline allowed min_saving = Inr v"
  shows "case v of
      PCompressed d ci \<Rightarrow> d = PBytes data \<and> ci = can_inline
    | PLevelCompressed (PBuffer c) cl algo ci \<Rightarrow>
        allowed algo \<and> ci = can_inline \<and> in_range cl 256 \<and> validate_compression cl = None \<and>
        get_compression_type cl = algo \<and> decompress comps c cl = Inr data \<and>
        int (length c) < int (length data) + min_saving
    | _ \<Rightarrow> False"
proof -
  have reg: "registry_of libs comps" using assms(1) by (rule init_all_registry)
  have no: "Compressed_init (PBytes data) can_inline = Inr (PCompressed (PBytes data) can_inline)"
    by (simp add: Compressed_init_def)
  show ?thesis
  proof (cases "v = PCompressed (PBytes data) can_inline")
    case False
    then obtain algo rest cl c where f:
      "filter (\<lambda>x. allowed x \<and> comps x \<noteq> None) PERFORMANCE_COMPRESSION = algo # rest"
      and comp: "c_compress (the (comps algo)) data level = Inr (cl, c)"
      and small: "int (length c) < int (length data) + min_saving"
      and v: "v = PLevelCompressed (PBuffer c) cl algo can_inline"
      using assms(4) by (auto simp: compressed_wrapper_def no Let_def LevelCompressed_init_def ebind_eq_Inr
          split: if_splits list.splits)
    have "algo \<in> {x \<in> set PERFORMANCE_COMPRESSION. allowed x \<and> comps x \<noteq> None}"
      unfolding set_filter [symmetric] f by simp
    then have algo: "allowed algo" "algo \<noteq> ''none''" and "comps algo \<noteq> None"
      by (auto simp: PERFORMANCE_COMPRESSION_def)
    then obtain k where k: "comps algo = Some k" by auto
    with comp have comp': "c_compress k data level = Inr (cl, c)" by simp
    show ?thesis
      using registry_compress(1-3) [OF reg k algo(2) assms(3) comp']
        registry_decompress [OF reg k algo(2) assms(3) comp' assms(2)] algo(1) small
      by (simp add: v)
  qed simp
qed

definition copy_lib :: compression_lib where
  "copy_lib = \<lparr>lib_version = ''1'', lib_compress = (\<lambda>d p. Inr d), lib_decompress = (\<lambda>d. Inr d)\<rparr>"

definition copy_registry :: compressions where
  "copy_registry = [''lz4'' \<mapsto> init_lz4 copy_lib, ''none'' \<mapsto> init_none]"

theorem compressed_wrapper_decompresses_witness:
  "compressed_wrapper copy_registry (replicate 400 7) 1 True (\<lambda>_. True) 1 =
      Inr (PLevelCompressed (PBuffer (replicate 400 7)) 0x11 ''lz4'' True) \<and>
    decompress copy_registry (replicate 400 7) 0x11 = Inr (replicate 400 7)"
proof -
  let ?libs = "\<lambda>x. if x = ''lz4'' then Some copy_lib else None"
  have init: "init_all ?libs (\<lambda>_. True) Map.empty = Inr copy_registry"
    unfolding copy_registry_def init_all_def TRY_COMPRESSORS_def
    by (simp add: compressor_names_def init_compression_def fun_upd_twist)
  have inv: "libs_invertible ?libs"
    by (auto simp: libs_invertible_def copy_lib_def)
  have w: "compressed_wrapper copy_registry (replicate 400 7) 1 True (\<lambda>_. True) 1 =
      Inr (PLevelCompressed (PBuffer (replicate 400 7)) 0x11 ''lz4'' True)"
    by (simp add: copy_registry_def compressed_wrapper_def Let_def MIN_COMPRESS_SIZE_def MAX_DECOMPRESSED_SIZE_def
        PERFORMANCE_COMPRESSION_def init_lz4_def lz4_compress_def copy_lib_def LZ4_FLAG_def LevelCompressed_init_def)
  show ?thesis
    using compressed_wrapper_decompresses [OF init inv order_refl w] w by simp
qed

end
