(* ===== verification/PacketCrypto.thy ===== *)
theory PacketCrypto
  imports PacketValues
begin

text \<open>
  The checks and the padding of \<^verbatim>\<open>src/xpra/net/crypto.py\<close>. The ciphers themselves and the key
  derivation belong to python-cryptography; they are the fields of the record \<open>backend\<close>, an
  argument of every definition that uses them.
\<close>

section \<open>The backend\<close>

text \<open>
  A cipher context of type \<open>'c\<close> is what \<^verbatim>\<open>encryptor()\<close> and \<^verbatim>\<open>decryptor()\<close> return: \<open>ctx_update\<close> maps
  it and some bytes to bytes and the context afterwards, \<open>ctx_finalize\<close> gives what is left.
\<close>

record 'c backend =
  kdf_derive :: "string \<Rightarrow> int \<Rightarrow> bytes \<Rightarrow> int \<Rightarrow> bytes \<Rightarrow> bytes"
  new_encryptor :: "bytes \<Rightarrow> bytes \<Rightarrow> string \<Rightarrow> 'c result"
  new_decryptor :: "bytes \<Rightarrow> bytes \<Rightarrow> string \<Rightarrow> 'c result"
  ctx_update :: "'c \<Rightarrow> bytes \<Rightarrow> (bytes \<times> 'c) result"
  ctx_finalize :: "'c \<Rightarrow> bytes result"

definition DEFAULT_MODE :: string where "DEFAULT_MODE = ''CBC''"
definition MODES :: "string list" where "MODES = [''CBC'', ''CTR'']"
definition KEY_HASHES :: "string list" where
  "KEY_HASHES = [''SHA1'', ''SHA224'', ''SHA256'', ''SHA384'', ''SHA512'']"
definition MIN_ITERATIONS :: int where "MIN_ITERATIONS = 1000"
definition MAX_ITERATIONS :: int where "MAX_ITERATIONS = 1000000"
definition PADDING_PKCS7 :: string where "PADDING_PKCS7 = ''PKCS#7''"
definition ALL_PADDING_OPTIONS :: "string list" where "ALL_PADDING_OPTIONS = [PADDING_PKCS7]"
definition INITIAL_PADDING :: string where "INITIAL_PADDING = PADDING_PKCS7"
definition PREFERRED_PADDING :: string where "PREFERRED_PADDING = PADDING_PKCS7"

section \<open>Padding\<close>

definition get_padding_options :: "string list" where
  "get_padding_options =
     fold (\<lambda>x options. if x \<in> set options then options else options @ [x]) ALL_PADDING_OPTIONS [PREFERRED_PADDING]"

text \<open>\<^verbatim>\<open>pack("B", size) * size\<close>: \<open>struct.error\<close> unless the size is a byte.\<close>

definition pad :: "string \<Rightarrow> int \<Rightarrow> bytes result" where
  "pad padding n =
     (if padding \<noteq> PADDING_PKCS7 then Inl ValueError
      else if n < 0 \<or> n \<ge> 256 then Inl StructError
      else Inr (replicate (nat n) (word_of_int n)))"

definition choose_padding :: "string list \<Rightarrow> string result" where
  "choose_padding options =
     (if PREFERRED_PADDING \<in> set options then Inr PREFERRED_PADDING
      else case filter (\<lambda>x. x \<in> set get_padding_options) options of
        x # _ \<Rightarrow> Inr x | [] \<Rightarrow> Inl ValueError)"

section \<open>Modes and keys\<close>

definition get_mode :: "string \<Rightarrow> string result" where
  "get_mode ciphername =
     (let part = split_on CHR ''-'' (ciphername @ ''-'') ! 1;
          mode = (if part = [] then DEFAULT_MODE else part)
      in if take 3 ciphername \<noteq> ''AES'' then Inl ValueError
         else if mode \<notin> set MODES then Inl ValueError
         else Inr mode)"

definition get_block_size :: "string \<Rightarrow> nat" where
  "get_block_size mode = (if mode = ''CBC'' then 16 else 0)"

definition char_upper :: "char \<Rightarrow> char" where
  "char_upper c = (if 97 \<le> (of_char c :: nat) \<and> (of_char c :: nat) \<le> 122 then char_of ((of_char c :: nat) - 32) else c)"

definition get_key :: "'c backend \<Rightarrow> bytes \<Rightarrow> bytes \<Rightarrow> string \<Rightarrow> int \<Rightarrow> int \<Rightarrow> bytes result" where
  "get_key be key_data key_salt key_hash key_size iterations =
     (if key_size < 16 then Inl AssertionError
      else if iterations < MIN_ITERATIONS \<or> iterations > MAX_ITERATIONS then Inl ValueError
      else if key_data = [] then Inl ValueError
      else if map char_upper key_hash \<notin> set KEY_HASHES then Inl ValueError
      else Inr (kdf_derive be (map char_upper key_hash) key_size key_salt iterations key_data))"

definition get_encryptor :: "'c backend \<Rightarrow> bytes \<Rightarrow> bytes \<Rightarrow> string \<Rightarrow> 'c result" where
  "get_encryptor be key iv mode = (if iv = [] then Inl ValueError else new_encryptor be key iv mode)"

definition get_decryptor :: "'c backend \<Rightarrow> bytes \<Rightarrow> bytes \<Rightarrow> string \<Rightarrow> 'c result" where
  "get_decryptor be key iv mode = (if iv = [] then Inl ValueError else new_decryptor be key iv mode)"

section \<open>The size of the padding\<close>

text \<open>
  The computation that \<^verbatim>\<open>SocketProtocol.encrypt\<close> and \<^verbatim>\<open>SocketProtocol.parse_packet_header\<close> both
  spell out (\<^verbatim>\<open>src/xpra/net/protocol/socket_handler.py\<close>).
\<close>

definition padding_for :: "nat \<Rightarrow> bool \<Rightarrow> nat \<Rightarrow> nat" where
  "padding_for block_size always_pad n =
     (if block_size = 0 then 0
      else
        let padding_size = block_size - n mod block_size
        in if always_pad \<and> padding_size = 0 then block_size else padding_size)"

lemma padding_for_bounds:
  "block_size \<noteq> 0 \<Longrightarrow> 1 \<le> padding_for block_size ap n \<and> padding_for block_size ap n \<le> block_size"
  using mod_less_divisor [of block_size n] by (auto simp: padding_for_def Let_def Suc_le_eq)

lemma padding_for_block: "block_size \<noteq> 0 \<Longrightarrow> (n + padding_for block_size ap n) mod block_size = 0"
proof -
  assume b: "block_size \<noteq> 0"
  then have "n mod block_size < block_size" by simp
  then have "padding_for block_size ap n = block_size - n mod block_size"
    by (auto simp: padding_for_def Let_def not_le)
  then have "(n + padding_for block_size ap n) mod block_size =
      (n mod block_size + (block_size - n mod block_size)) mod block_size"
    by (metis mod_add_left_eq)
  also have "\<dots> = 0"
    using \<open>n mod block_size < block_size\<close> by simp
  finally show ?thesis .
qed

lemma padding_for_always_pad: "padding_for block_size ap n = padding_for block_size False n"
proof (cases "block_size = 0")
  case False
  then have "n mod block_size < block_size" by simp
  then show ?thesis by (simp add: padding_for_def Let_def not_le)
qed (simp add: padding_for_def)

lemma padding_for_iv: "padding_for (get_block_size mode) ap (n + 16) = padding_for (get_block_size mode) ap n"
  by (simp add: padding_for_def get_block_size_def)

lemma get_block_size_cases: "get_block_size mode = 0 \<or> get_block_size mode = 16"
  by (simp add: get_block_size_def)

lemma pad_small: "n \<le> 16 \<Longrightarrow> pad PADDING_PKCS7 (int n) = Inr (replicate n (word_of_nat n))"
  by (simp add: pad_def)

lemma get_mode_Inr: "get_mode name = Inr mode \<Longrightarrow> mode \<in> set MODES"
  by (auto simp: get_mode_def Let_def split: if_splits)

end
