(* ===== verification/SocketState.thy ===== *)
theory SocketState
  imports PacketCodec PacketCrypto
begin

text \<open>
  The state of the class \<^verbatim>\<open>SocketProtocol\<close> (\<^verbatim>\<open>src/xpra/net/protocol/socket_handler.py\<close>) and the
  operations that configure, save, restore and close it. What the class asks others to do (the
  packet callback, the main loop's \<^verbatim>\<open>idle_add\<close> and \<^verbatim>\<open>timeout_add\<close>, closing the connection) is
  recorded in order in the list \<open>actions\<close>. Log messages are left out; the texts that are passed on
  are the constructors of \<open>reason\<close>.
\<close>

section \<open>Data\<close>

text \<open>Why the peer's data was refused, or the connection lost.\<close>

datatype reason =
    NoReason
  | Text string
  | InvalidHeaderByte byte
  | InvalidHeader header_error
  | InvalidSize int
  | InvalidIndex int
  | NoCipherConfigured
  | PacketTooBig int
  | UnencryptedDropped
  | WebsocketClosed int bytes
  | InvalidCompression
  | DecompressionFailed string "py_error option"
  | DuplicateRaw int
  | TooManyRaw nat
  | InvalidEncoding
  | ParseFailed string
  | RawIndexRange int nat
  | RawIndexUsed int
  | PaddingMismatch
  | ThreadError py_error

datatype action =
    Deliver packet
  | IdleInvalid reason
  | IdleGibberish reason
  | IdleClose
  | IdleConnectionLost reason
  | TimeoutConnectionLost nat reason
  | IdleLostPacket reason
  | IdleClean
  | CleanAuthenticators
  | CloseConnection

text \<open>
  The connection object: what its reads will return, one element for each chunk the transport
  delivers (an empty one is the end of the stream, as is the end of the list), all the bytes
  written so far, how many bytes each of the next writes accepts (all of them where the list has
  ended), and the socket options.
\<close>

record conn =
  segments :: "bytes list"
  written :: bytes
  accepts :: "nat list"
  socktype :: string
  conn_error :: int
  conn_active :: bool
  nodelay :: bool
  cork :: bool

text \<open>A work item of the write thread: the buffers, the packet type, \<open>synchronous\<close> and \<open>more\<close>.\<close>

record write_item =
  wi_items :: "bytes list"
  wi_type :: pystr
  wi_synchronous :: bool
  wi_more :: bool

text \<open>\<open>'c\<close> is the type of the cipher contexts of the backend.\<close>

record 'c proto =
  connection :: "conn option"
  closed :: bool
  exit_error :: int
  pre_read :: "bytes list"
  read_buffer_size :: nat
  hangup_delay :: nat
  input_stats :: "pystr \<Rightarrow> nat option"
  input_packetcount :: nat
  input_raw_packetcount :: nat
  output_stats :: "pystr \<Rightarrow> nat option"
  output_packetcount :: nat
  output_raw_packetcount :: nat
  max_packet_size :: int
  abs_max_packet_size :: int
  large_packets :: "string list"
  encoder :: string
  encode_fn :: "(pval \<Rightarrow> (bytes \<times> int) result) option"
  compressor :: string
  compress_fn :: "(bytes \<Rightarrow> int \<Rightarrow> (int \<times> bytes) result) option"
  compression_level :: int
  chunks :: bool
  cipher_in_name :: string
  cipher_in_block_size :: nat
  cipher_in_padding :: string
  cipher_in_always_pad :: bool
  cipher_in_stream :: bool
  cipher_in_key :: bytes
  cipher_in_decryptor :: "'c option"
  cipher_out_name :: string
  cipher_out_block_size :: nat
  cipher_out_padding :: string
  cipher_out_always_pad :: bool
  cipher_out_stream :: bool
  cipher_out_key :: bytes
  cipher_out_encryptor :: "'c option"
  receive_pending :: bool
  wait_for_header :: bool
  write_queue :: "write_item option list"
  write_thread :: bool
  source_has_more :: bool
  actions :: "action list"

definition emit :: "action \<Rightarrow> 'c proto \<Rightarrow> 'c proto" where
  "emit a p = p\<lparr>actions := actions p @ [a]\<rparr>"

section \<open>Construction\<close>

definition MAX_PACKET_SIZE :: int where "MAX_PACKET_SIZE = 16 * 1024 * 1024"
definition MODERN_INITIAL_PACKET_SIZE :: int where "MODERN_INITIAL_PACKET_SIZE = 16 * 1024"
definition READ_BUFFER_SIZE :: nat where "READ_BUFFER_SIZE = 65536"
definition PACKET_JOIN_SIZE :: nat where "PACKET_JOIN_SIZE = READ_BUFFER_SIZE"
definition LARGE_PACKET_SIZE :: nat where "LARGE_PACKET_SIZE = 16384"
definition INLINE_SIZE :: nat where "INLINE_SIZE = 32768"
definition PACKET_HEADER_CHAR :: byte where "PACKET_HEADER_CHAR = 80"

definition large_packet_types :: "string list" where
  "large_packet_types = [''hello'', ''window-metadata'', ''audio-data'', ''notification-show'',
     ''setting-change'', ''shell-reply'', ''display-configure'', ''encoding-set'', ''info-response'']"

definition SocketProtocol_init :: "bool \<Rightarrow> encoders \<Rightarrow> compressions \<Rightarrow> conn \<Rightarrow> 'c proto result" where
  "SocketProtocol_init backwards_compatible encs comps c =
     ebind (get_encoder encs ''none'') (\<lambda>enc.
     ebind (get_compressor comps ''none'') (\<lambda>comp.
     Inr \<lparr>connection = Some c, closed = False, exit_error = 0, pre_read = [],
          read_buffer_size = READ_BUFFER_SIZE, hangup_delay = 1000,
          input_stats = Map.empty, input_packetcount = 0, input_raw_packetcount = 0,
          output_stats = Map.empty, output_packetcount = 0, output_raw_packetcount = 0,
          max_packet_size = (if backwards_compatible then MAX_PACKET_SIZE
            else min MAX_PACKET_SIZE MODERN_INITIAL_PACKET_SIZE),
          abs_max_packet_size = 256 * 1024 * 1024,
          large_packets = large_packet_types,
          encoder = ''none'', encode_fn = Some enc, compressor = ''none'', compress_fn = Some comp,
          compression_level = 0, chunks = True,
          cipher_in_name = '''', cipher_in_block_size = 0, cipher_in_padding = INITIAL_PADDING,
          cipher_in_always_pad = False, cipher_in_stream = True, cipher_in_key = [], cipher_in_decryptor = None,
          cipher_out_name = '''', cipher_out_block_size = 0, cipher_out_padding = INITIAL_PADDING,
          cipher_out_always_pad = False, cipher_out_stream = True, cipher_out_key = [], cipher_out_encryptor = None,
          receive_pending = False, wait_for_header = (socktype c = ''ssh''),
          write_queue = [], write_thread = False, source_has_more = False, actions = []\<rparr>))"

section \<open>Encoders and compressors\<close>

definition enable_encoder :: "encoders \<Rightarrow> string \<Rightarrow> 'c proto \<Rightarrow> 'c proto result" where
  "enable_encoder encs e p =
     ebind (get_encoder encs e) (\<lambda>f. Inr (p\<lparr>encode_fn := Some f, encoder := e\<rparr>))"

definition enable_default_encoder :: "encoders \<Rightarrow> 'c proto \<Rightarrow> 'c proto result" where
  "enable_default_encoder encs p =
     (case get_enabled_encoders encs TRY_ENCODERS of
        [] \<Rightarrow> Inl AssertionError | e # _ \<Rightarrow> enable_encoder encs e p)"

text \<open>
  The peer's capabilities: \<open>caps_encoders\<close> and \<open>caps_compressors\<close> are what \<^verbatim>\<open>strtupleget\<close> returns,
  \<open>caps_chunks\<close> the value of \<open>chunks\<close>, if there is one.
\<close>

definition enable_encoder_from_caps ::
  "encoders \<Rightarrow> string list \<Rightarrow> bool option \<Rightarrow> 'c proto \<Rightarrow> (bool \<times> 'c proto) result" where
  "enable_encoder_from_caps encs caps_encoders caps_chunks p =
     (let options = get_enabled_encoders encs ENCODER_PERFORMANCE_ORDER;
          p = p\<lparr>chunks := (case caps_chunks of None \<Rightarrow> True | Some b \<Rightarrow> b)\<rparr>
      in case filter (\<lambda>e. e \<in> set caps_encoders) options of
           e # _ \<Rightarrow> ebind (enable_encoder encs e p) (\<lambda>p. Inr (True, p))
         | [] \<Rightarrow> Inr (False, p))"

definition enable_compressor :: "compressions \<Rightarrow> string \<Rightarrow> 'c proto \<Rightarrow> 'c proto result" where
  "enable_compressor comps c p =
     ebind (get_compressor comps c) (\<lambda>f. Inr (p\<lparr>compress_fn := Some f, compressor := c\<rparr>))"

definition enable_default_compressor :: "compressions \<Rightarrow> 'c proto \<Rightarrow> 'c proto result" where
  "enable_default_compressor comps p =
     (case get_enabled_compressors comps TRY_COMPRESSORS of
        c # _ \<Rightarrow> enable_compressor comps c p
      | [] \<Rightarrow> enable_compressor comps ''none'' p)"

definition enable_compressor_from_caps :: "compressions \<Rightarrow> string list \<Rightarrow> 'c proto \<Rightarrow> 'c proto result" where
  "enable_compressor_from_caps comps caps_compressors p =
     (if compression_level p = 0 then enable_compressor comps ''none'' p
      else
        let opts = get_enabled_compressors comps PERFORMANCE_ORDER
        in case filter (\<lambda>c. c \<noteq> ''none'' \<and> c \<in> set caps_compressors) opts of
             c # _ \<Rightarrow> enable_compressor comps c p
           | [] \<Rightarrow> enable_compressor comps ''none'' p)"

definition set_compression_level :: "int \<Rightarrow> 'c proto \<Rightarrow> 'c proto result" where
  "set_compression_level level p =
     (if level < 0 \<or> level > 10 then Inl ValueError else Inr (p\<lparr>compression_level := level\<rparr>))"

definition parse_remote_caps :: "'c proto \<Rightarrow> 'c proto" where
  "parse_remote_caps p = p\<lparr>max_packet_size := max (max_packet_size p) MAX_PACKET_SIZE\<rparr>"

section \<open>Ciphers\<close>

text \<open>The arguments of \<^verbatim>\<open>set_cipher_in\<close> and \<^verbatim>\<open>set_cipher_out\<close>.\<close>

record cipher_args =
  ca_name :: string
  ca_iv :: bytes
  ca_key_data :: bytes
  ca_key_salt :: bytes
  ca_key_hash :: string
  ca_key_size :: int
  ca_iterations :: int
  ca_padding :: string
  ca_always_pad :: bool
  ca_stream :: bool

definition args_key :: "'c backend \<Rightarrow> cipher_args \<Rightarrow> bytes result" where
  "args_key be a = get_key be (ca_key_data a) (ca_key_salt a) (ca_key_hash a) (ca_key_size a) (ca_iterations a)"

definition set_cipher_in :: "'c backend \<Rightarrow> cipher_args \<Rightarrow> 'c proto \<Rightarrow> 'c proto result" where
  "set_cipher_in be a p =
     ebind (get_mode (ca_name a)) (\<lambda>mode.
     ebind (args_key be a) (\<lambda>key.
     let p = p\<lparr>cipher_in_block_size := get_block_size mode, cipher_in_padding := ca_padding a,
               cipher_in_always_pad := ca_always_pad a, cipher_in_stream := ca_stream a, cipher_in_key := key\<rparr>
     in ebind (if ca_stream a then ebind (get_decryptor be key (ca_iv a) mode) (\<lambda>d. Inr (p\<lparr>cipher_in_decryptor := Some d\<rparr>))
               else Inr p) (\<lambda>p.
          Inr (if cipher_in_name p \<noteq> ca_name a then p\<lparr>cipher_in_name := ca_name a\<rparr> else p))))"

definition set_cipher_out :: "'c backend \<Rightarrow> cipher_args \<Rightarrow> 'c proto \<Rightarrow> 'c proto result" where
  "set_cipher_out be a p =
     ebind (get_mode (ca_name a)) (\<lambda>mode.
     ebind (args_key be a) (\<lambda>key.
     let p = p\<lparr>cipher_out_block_size := get_block_size mode, cipher_out_padding := ca_padding a,
               cipher_out_always_pad := ca_always_pad a, cipher_out_stream := ca_stream a, cipher_out_key := key\<rparr>
     in ebind (if ca_stream a then ebind (get_encryptor be key (ca_iv a) mode) (\<lambda>e. Inr (p\<lparr>cipher_out_encryptor := Some e\<rparr>))
               else Inr p) (\<lambda>p.
          Inr (if cipher_out_name p \<noteq> ca_name a then p\<lparr>cipher_out_name := ca_name a\<rparr> else p))))"

text \<open>
  \<^verbatim>\<open>new_cipher_caps\<close> of \<^verbatim>\<open>src/xpra/net/crypto.py\<close>: it configures the receiving side with a fresh
  iv and salt (arguments here) and tells the peer how; of the dictionary it returns, the model
  keeps what the peer's \<^verbatim>\<open>set_cipher_out\<close> will need.
\<close>

definition new_cipher_caps ::
  "'c backend \<Rightarrow> bytes \<Rightarrow> bytes \<Rightarrow> string \<Rightarrow> string \<Rightarrow> bytes \<Rightarrow> string list \<Rightarrow> bool \<Rightarrow> bool \<Rightarrow> 'c proto \<Rightarrow>
   (cipher_args \<times> 'c proto) result" where
  "new_cipher_caps be iv key_salt cipher cipher_mode encryption_key padding_options always_pad stream p =
     ebind (choose_padding padding_options) (\<lambda>padding.
       let a = \<lparr>ca_name = cipher @ ''-'' @ cipher_mode, ca_iv = iv, ca_key_data = encryption_key,
                ca_key_salt = key_salt, ca_key_hash = ''SHA1'', ca_key_size = 32, ca_iterations = 10000,
                ca_padding = padding, ca_always_pad = always_pad, ca_stream = stream\<rparr>
       in ebind (set_cipher_in be a p) (\<lambda>p. Inr (a, p)))"

section \<open>Saving and restoring\<close>

text \<open>
  The fields of \<^verbatim>\<open>STATE_FIELDS\<close>. (\<^verbatim>\<open>cipher_in\<close> and \<^verbatim>\<open>cipher_out\<close> are in that list too, but the
  class never sets them to anything but \<^verbatim>\<open>None\<close>.)
\<close>

record saved_state =
  ss_max_packet_size :: int
  ss_large_packets :: "string list"
  ss_cipher_in :: "string \<times> nat \<times> string \<times> bool \<times> bool \<times> bytes"
  ss_cipher_out :: "string \<times> nat \<times> string \<times> bool \<times> bool \<times> bytes"
  ss_compression_level :: int
  ss_chunks :: bool
  ss_encoder :: string
  ss_compressor :: string

definition save_state :: "'c proto \<Rightarrow> saved_state" where
  "save_state p =
     \<lparr>ss_max_packet_size = max_packet_size p, ss_large_packets = large_packets p,
      ss_cipher_in = (cipher_in_name p, cipher_in_block_size p, cipher_in_padding p, cipher_in_always_pad p,
        cipher_in_stream p, cipher_in_key p),
      ss_cipher_out = (cipher_out_name p, cipher_out_block_size p, cipher_out_padding p, cipher_out_always_pad p,
        cipher_out_stream p, cipher_out_key p),
      ss_compression_level = compression_level p, ss_chunks = chunks p,
      ss_encoder = encoder p, ss_compressor = compressor p\<rparr>"

definition restore_state :: "encoders \<Rightarrow> compressions \<Rightarrow> saved_state \<Rightarrow> 'c proto \<Rightarrow> 'c proto result" where
  "restore_state encs comps s p =
     (case ss_cipher_in s of (n, b, pd, ap, st, k) \<Rightarrow>
      case ss_cipher_out s of (n', b', pd', ap', st', k') \<Rightarrow>
      let p = p\<lparr>max_packet_size := ss_max_packet_size s, large_packets := ss_large_packets s,
          cipher_in_name := n, cipher_in_block_size := b, cipher_in_padding := pd, cipher_in_always_pad := ap,
          cipher_in_stream := st, cipher_in_key := k,
          cipher_out_name := n', cipher_out_block_size := b', cipher_out_padding := pd', cipher_out_always_pad := ap',
          cipher_out_stream := st', cipher_out_key := k',
          compression_level := ss_compression_level s, chunks := ss_chunks s,
          encoder := ss_encoder s, compressor := ss_compressor s\<rparr>
      in ebind (enable_compressor comps (compressor p) p) (\<lambda>p. enable_encoder encs (encoder p) p))"

section \<open>Closing\<close>

definition exit_queue :: "write_item option list" where
  "exit_queue = replicate 10 None"

text \<open>
  \<^verbatim>\<open>terminate_queue_threads\<close> replaces the write queue by one of markers only: what was queued and
  not yet taken by the write thread is dropped.
\<close>

definition terminate_queue_threads :: "'c proto \<Rightarrow> 'c proto" where
  "terminate_queue_threads p = p\<lparr>source_has_more := True, write_queue := exit_queue\<rparr>"

definition close :: "reason \<Rightarrow> 'c proto \<Rightarrow> 'c proto" where
  "close message p =
     (if closed p then p
      else
        let p1 = p\<lparr>closed := True,
                   exit_error := (if exit_error p = 0
                     then (case connection p of None \<Rightarrow> 0 | Some c \<Rightarrow> conn_error c) else exit_error p)\<rparr>;
            p2 = emit (IdleLostPacket message) p1;
            p3 = (case connection p2 of
                    None \<Rightarrow> p2 | Some c \<Rightarrow> emit CloseConnection (p2\<lparr>connection := None\<rparr>));
            p4 = emit CleanAuthenticators p3
        in emit IdleClean (terminate_queue_threads p4))"

definition connection_lost :: "reason \<Rightarrow> 'c proto \<Rightarrow> 'c proto" where
  "connection_lost message p = close message p"

definition internal_error :: "reason \<Rightarrow> 'c proto \<Rightarrow> 'c proto" where
  "internal_error message p = (if closed p then p else emit (IdleConnectionLost message) p)"

definition invalid :: "reason \<Rightarrow> 'c proto \<Rightarrow> 'c proto" where
  "invalid msg p = emit (TimeoutConnectionLost 1000 msg) (emit (IdleInvalid msg) p)"

definition gibberish :: "reason \<Rightarrow> 'c proto \<Rightarrow> 'c proto" where
  "gibberish msg p = emit (TimeoutConnectionLost (hangup_delay p) msg) (emit (IdleGibberish msg) p)"

definition invalid_header :: "reason \<Rightarrow> 'c proto \<Rightarrow> 'c proto" where
  "invalid_header msg p = gibberish msg p"

text \<open>
  \<^verbatim>\<open>steal_connection\<close> with a callback: besides the connection, the buffers the callback is given.
\<close>

definition steal_connection :: "bool \<Rightarrow> 'c proto \<Rightarrow> (conn option \<times> bytes list \<times> 'c proto) result" where
  "steal_connection with_callback p =
     (if closed p then Inl AssertionError
      else Inr (map_option (\<lambda>c. c\<lparr>conn_active := False\<rparr>) (connection p),
        (if with_callback then pre_read p else []),
        terminate_queue_threads (p\<lparr>closed := True, connection := None, pre_read := []\<rparr>)))"

definition clean :: "'c proto \<Rightarrow> 'c proto" where
  "clean p = p\<lparr>encode_fn := None, compress_fn := None, write_thread := False, connection := None\<rparr>"

text \<open>
  \<^verbatim>\<open>is_sending_encrypted\<close>: \<open>trusted\<close>, \<open>forwarded_proto\<close> and \<open>trust_proxy_headers\<close> are the values the
  connection's options hold for \<open>trusted\<close>, for the header \<open>X-Forwarded-Proto\<close> of \<open>http-headers\<close> and
  for \<open>trust-proxy-headers\<close> (empty strings, and \<open>no\<close>, where there is none).
\<close>

definition char_lower :: "char \<Rightarrow> char" where
  "char_lower c = (if 65 \<le> (of_char c :: nat) \<and> (of_char c :: nat) \<le> 90 then char_of ((of_char c :: nat) + 32) else c)"

definition TRUE_OPTIONS :: "string list" where
  "TRUE_OPTIONS = [''yes'', ''true'', ''1'', ''on'']"

definition is_sending_encrypted :: "string \<Rightarrow> string \<Rightarrow> string \<Rightarrow> 'c proto \<Rightarrow> bool" where
  "is_sending_encrypted trusted forwarded_proto trust_proxy_headers p =
     (if trusted \<noteq> '''' then map char_lower trusted \<in> set TRUE_OPTIONS
      else if forwarded_proto \<noteq> '''' \<and> map char_lower trust_proxy_headers \<in> set TRUE_OPTIONS
      then forwarded_proto = ''https''
      else cipher_out_name p \<noteq> '''' \<or>
        (case connection p of None \<Rightarrow> False | Some c \<Rightarrow> socktype c \<in> {''ssl'', ''wss'', ''ssh'', ''quic''}))"

section \<open>Closing is final and tells the main loop once\<close>

lemma close_closed [simp]: "closed p \<Longrightarrow> close m p = p"
  by (simp add: close_def)

lemma closed_close [simp]: "closed (close m p)"
  by (cases "connection p") (simp_all add: close_def emit_def terminate_queue_threads_def)

lemma connection_close: "connection (close m p) = (if closed p then connection p else None)"
  by (cases "connection p") (simp_all add: close_def emit_def terminate_queue_threads_def)

lemma close_twice: "close m' (close m p) = close m p"
  by simp

lemma actions_close:
  "\<not> closed p \<Longrightarrow> actions (close m p) = actions p @ [IdleLostPacket m] @
     (if connection p = None then [] else [CloseConnection]) @ [CleanAuthenticators, IdleClean]"
  by (cases "connection p") (simp_all add: close_def emit_def terminate_queue_threads_def)

end
