(* ===== verification/SocketReceive.thy ===== *)
theory SocketReceive
  imports SocketState
begin

text \<open>
  The receiving half of \<^verbatim>\<open>SocketProtocol\<close> (\<^verbatim>\<open>src/xpra/net/protocol/socket_handler.py\<close>): reading
  exactly so many bytes off the connection, finding and checking headers, decrypting,
  decompressing and decoding payloads, putting raw chunks back into their packet, and the loop of
  the parse thread. An operation that may raise returns its result beside the state, so that
  what it did before raising is kept.
\<close>

section \<open>The environment\<close>

text \<open>
  The registries, the crypto backend, \<^verbatim>\<open>str()\<close> for values that are not strings, the interpreter's
  UTF-8 encoder, the overridden \<^verbatim>\<open>compress()\<close> of compressible values, and the two functions a
  transport can replace: the one that makes the header of a chunk, and the one that makes a header
  for all the items of a packet.
\<close>

record 'c env =
  env_encoders :: encoders
  env_compressions :: compressions
  env_backend :: "'c backend"
  env_str :: "pval \<Rightarrow> pystr"
  env_utf8 :: "pystr \<Rightarrow> bytes"
  env_compress :: "pval \<Rightarrow> pval result"
  env_chunk_header :: "int \<Rightarrow> int \<Rightarrow> int \<Rightarrow> int \<Rightarrow> bytes result"
  env_frame_header :: "bytes list \<Rightarrow> bytes result"

definition make_xpra_header :: "int \<Rightarrow> int \<Rightarrow> int \<Rightarrow> int \<Rightarrow> bytes result" where
  "make_xpra_header proto_flags level index payload_size = pack_header proto_flags level index payload_size"

definition noframe_header :: "bytes list \<Rightarrow> bytes result" where
  "noframe_header items = Inr []"

definition str_of_val :: "'c env \<Rightarrow> pval \<Rightarrow> pystr" where
  "str_of_val env v = (case v of PStr cs \<Rightarrow> cs | _ \<Rightarrow> env_str env v)"

section \<open>Reading bytes\<close>

text \<open>The first \<open>k\<close> bytes of a list of buffers' head; what is left of it goes back to the front.\<close>

definition take_front :: "nat \<Rightarrow> bytes \<Rightarrow> bytes list \<Rightarrow> bytes \<times> bytes list" where
  "take_front k d ds =
     (let n = min (length d) k in (take n d, if n < length d then drop n d # ds else ds))"

definition recv_into :: "nat \<Rightarrow> 'c proto \<Rightarrow> bytes \<times> 'c proto" where
  "recv_into k p =
     (case pre_read p of
        d # ds \<Rightarrow> let (x, ds') = take_front k d ds in (x, p\<lparr>pre_read := ds'\<rparr>)
      | [] \<Rightarrow>
          (case connection p of
             None \<Rightarrow> ([], p)
           | Some c \<Rightarrow>
               (case segments c of
                  [] \<Rightarrow> ([], p)
                | s # ss \<Rightarrow>
                    let (x, ss') = take_front k s ss;
                        p' = p\<lparr>connection := Some (c\<lparr>segments := ss'\<rparr>)\<rparr>
                    in (x, if x \<noteq> [] then p'\<lparr>input_raw_packetcount := input_raw_packetcount p' + 1\<rparr> else p'))))"

text \<open>All that reads can still return.\<close>

definition unread :: "'c proto \<Rightarrow> nat" where
  "unread p = length (concat (pre_read p)) + (case connection p of None \<Rightarrow> 0 | Some c \<Rightarrow> length (concat (segments c)))"

lemma take_front_concat:
  "take_front k d ds = (x, ds') \<Longrightarrow> x @ concat ds' = d @ concat ds \<and> length x \<le> k"
  by (auto simp: take_front_def Let_def split: if_splits)

lemma take_front_length: "take_front k d ds = (x, ds') \<Longrightarrow> length (concat ds') + length x = length d + length (concat ds)"
  using take_front_concat [of k d ds x ds'] by (metis add.commute length_append)

lemma recv_into_unread: "recv_into k p = (x, p') \<Longrightarrow> unread p' + length x = unread p"
  by (auto simp: recv_into_def unread_def Let_def dest!: take_front_length
      split: list.splits option.splits prod.splits if_splits)

lemma recv_into_length: "recv_into k p = (x, p') \<Longrightarrow> length x \<le> k"
  by (auto simp: recv_into_def Let_def dest!: take_front_concat split: list.splits option.splits prod.splits if_splits)

text \<open>
  \<^verbatim>\<open>read_exact\<close>: \<open>data\<close> is what the view holds so far. Where the protocol is closed meanwhile, the
  rest of the view is still zero.
\<close>

function read_exact_from :: "nat \<Rightarrow> bytes \<Rightarrow> 'c proto \<Rightarrow> bytes option \<times> 'c proto" where
  "read_exact_from n data p =
     (if length data < n \<and> \<not> closed p then
        let (x, p') = recv_into (n - length data) p
        in if x = [] then (None, p') else read_exact_from n (data @ x) p'
      else (Some (data @ replicate (n - length data) 0), p))"
  by pat_completeness auto
termination
  by (relation "measure (\<lambda>(n, data, _). n - length data)") (auto simp: neq_Nil_conv)

declare read_exact_from.simps [simp del]

definition read_exact :: "nat \<Rightarrow> 'c proto \<Rightarrow> bytes option \<times> 'c proto" where
  "read_exact n p = read_exact_from n [] p"

text \<open>\<^verbatim>\<open>read_header\<close> while waiting for a valid header: everything read so far is searched again.\<close>

function wait_header_from :: "bytes \<Rightarrow> 'c proto \<Rightarrow> bytes option result \<times> 'c proto" where
  "wait_header_from data p =
     (if closed p then (Inr None, p)
      else
        let (x, p') = recv_into (read_buffer_size p) p
        in if x = [] then (Inr None, p')
           else
             let data = data @ x
             in case find_xpra_header data 0 (256 * 1024) of
                  Inl e \<Rightarrow> (Inl e, p')
                | Inr pos \<Rightarrow>
                    if pos < 0 then wait_header_from data p'
                    else
                      let stop = nat pos + HEADER_SIZE;
                          p'' = p'\<lparr>wait_for_header := False\<rparr>;
                          p3 = (if stop < length data then p''\<lparr>pre_read := drop stop data # pre_read p''\<rparr> else p'')
                      in (Inr (Some (take HEADER_SIZE (drop (nat pos) data))), p3))"
  by pat_completeness auto
termination
  by (relation "measure (\<lambda>(_, p). unread p)") (auto dest!: recv_into_unread [OF sym] simp: neq_Nil_conv)

declare wait_header_from.simps [simp del]

definition read_header :: "'c proto \<Rightarrow> bytes option result \<times> 'c proto" where
  "read_header p =
     (if wait_for_header p then wait_header_from [] p
      else let (h, p') = read_exact HEADER_SIZE p in (Inr h, p'))"

section \<open>Headers\<close>

record packet_read_info =
  pi_flags :: int
  pi_level :: int
  pi_index :: int
  pi_data_size :: nat
  pi_padding_size :: nat
  pi_payload_size :: nat

definition parse_packet_header :: "bytes \<Rightarrow> 'c proto \<Rightarrow> packet_read_info option result \<times> 'c proto" where
  "parse_packet_header hdr p =
     (case unpack_header hdr of
        Inl e \<Rightarrow> (Inl e, p)
      | Inr h \<Rightarrow>
          let flags = hd_flags h; level = hd_level h; index = hd_index h; data_size = hd_size h
          in (case validate_packet_header flags level index True of
               Some e \<Rightarrow> (Inr None, invalid_header (InvalidHeader e) p)
             | None \<Rightarrow>
                 if data_size > abs_max_packet_size p then (Inr None, invalid_header (InvalidSize data_size) p)
                 else if index \<ge> 16 then (Inr None, invalid_header (InvalidIndex index) p)
                 else if flags AND FLAGS_CIPHER \<noteq> 0 \<and> cipher_in_name p = '''' then
                   (Inr None, invalid_header NoCipherConfigured p)
                 else
                   let n = nat data_size;
                       padding_size = (if flags AND FLAGS_CIPHER \<noteq> 0
                         then padding_for (cipher_in_block_size p) (cipher_in_always_pad p) n else 0);
                       payload_size = n + padding_size
                   in if payload_size = 0 then (Inl ValueError, p)
                      else if int payload_size > max_packet_size p then
                        (Inr None, invalid_header (PacketTooBig (int payload_size)) p)
                      else (Inr (Some \<lparr>pi_flags = flags, pi_level = level, pi_index = index,
                        pi_data_size = n, pi_padding_size = padding_size, pi_payload_size = payload_size\<rparr>), p)))"

section \<open>Payloads\<close>

definition ends_with :: "bytes \<Rightarrow> bytes \<Rightarrow> bool" where
  "ends_with data t \<longleftrightarrow> length t \<le> length data \<and> drop (length data - length t) data = t"

text \<open>The part of \<^verbatim>\<open>decrypt\<close> that runs the cipher: the deciphered bytes and the context afterwards.\<close>

definition decipher :: "'c env \<Rightarrow> bytes \<Rightarrow> 'c proto \<Rightarrow> bytes result \<times> 'c proto" where
  "decipher env encrypted p =
     (case get_mode (cipher_in_name p) of
        Inl e \<Rightarrow> (Inl e, p)
      | Inr mode \<Rightarrow>
          let be = env_backend env
          in if cipher_in_stream p then
               (case cipher_in_decryptor p of
                  None \<Rightarrow> (Inl AssertionError, p)
                | Some d \<Rightarrow>
                    (case ctx_update be d encrypted of
                       Inl e \<Rightarrow> (Inl e, p)
                     | Inr (data, d') \<Rightarrow> (Inr data, p\<lparr>cipher_in_decryptor := Some d'\<rparr>)))
             else
               (ebind (get_decryptor be (cipher_in_key p) (take 16 encrypted) mode) (\<lambda>d.
                  ebind (ctx_update be d (drop 16 encrypted)) (\<lambda>(a, d').
                    ebind (ctx_finalize be d') (\<lambda>b. Inr (a @ b)))), p))"

definition decrypt :: "'c env \<Rightarrow> bytes \<Rightarrow> nat \<Rightarrow> 'c proto \<Rightarrow> bytes result \<times> 'c proto" where
  "decrypt env encrypted padding_size p =
     (case decipher env encrypted p of
        (Inl e, p') \<Rightarrow> (Inl e, p')
      | (Inr data, p') \<Rightarrow>
          if padding_size = 0 then (Inr data, p')
          else
            (case pad (cipher_in_padding p') (int padding_size) of
              Inl e \<Rightarrow> (Inl e, p')
            | Inr padtext \<Rightarrow>
                if ends_with data padtext then (Inr (take (length data - padding_size) data), p')
                else (Inr [], internal_error PaddingMismatch p')))"

text \<open>The raw chunks received so far, in the order a Python dictionary keeps them.\<close>

type_synonym raw_packets = "(int \<times> bytes) list"

text \<open>The loop that puts the raw chunks into the packet.\<close>

fun place_raw :: "raw_packets \<Rightarrow> packet \<Rightarrow> reason + packet" where
  "place_raw [] packet = Inr packet"
| "place_raw ((index, raw) # raws) packet =
     (if index \<ge> int (length packet) then Inl (RawIndexRange index (length packet))
      else if py_bool (packet ! nat index) then Inl (RawIndexUsed index)
      else place_raw raws (packet[nat index := PBuffer raw]))"

text \<open>\<^verbatim>\<open>except (ValueError, TypeError, IndexError)\<close>, subclasses included.\<close>

definition parse_error :: "py_error \<Rightarrow> bool" where
  "parse_error e \<longleftrightarrow> e \<in> {ValueError, UnicodeDecodeError, MmapPointerError, TypeError, IndexError}"

definition count_stat :: "pystr \<Rightarrow> (pystr \<Rightarrow> nat option) \<Rightarrow> (pystr \<Rightarrow> nat option)" where
  "count_stat t stats = stats(t \<mapsto> (case stats t of None \<Rightarrow> 0 | Some n \<Rightarrow> n) + 1)"

text \<open>The end of \<^verbatim>\<open>process_payload\<close>: a complete packet is counted, wrapped and passed on.\<close>

definition deliver_packet :: "'c env \<Rightarrow> packet_read_info \<Rightarrow> packet \<Rightarrow> 'c proto \<Rightarrow> bool result \<times> 'c proto" where
  "deliver_packet env pinfo packet p =
     (case packet of
        [] \<Rightarrow> (Inl IndexError, p)
      | t # _ \<Rightarrow>
          let p1 = p\<lparr>input_stats := count_stat (str_of_val env t) (input_stats p),
                     input_packetcount := input_packetcount p + 1,
                     receive_pending := (pi_flags pinfo AND FLAGS_FLUSH = 0)\<rparr>
          in (case Packet_init packet of
                Inl _ \<Rightarrow> (Inr True, p1)
              | Inr wrapped \<Rightarrow> (Inr True, emit (Deliver wrapped) p1)))"

text \<open>The part of \<^verbatim>\<open>process_payload\<close> after decompression.\<close>

definition process_data ::
  "'c env \<Rightarrow> raw_packets \<Rightarrow> packet_read_info \<Rightarrow> bytes \<Rightarrow> 'c proto \<Rightarrow> bool result \<times> raw_packets \<times> 'c proto" where
  "process_data env raws pinfo data p =
     (if closed p then (Inr False, raws, p)
      else if pi_index pinfo > 0 then
        if map_of raws (pi_index pinfo) \<noteq> None then (Inr False, raws, invalid (DuplicateRaw (pi_index pinfo)) p)
        else
          let raws' = raws @ [(pi_index pinfo, data)]
          in if length raws' \<ge> 4 then (Inr False, raws', invalid (TooManyRaw (length raws')) p)
             else (Inr True, raws', p\<lparr>receive_pending := True\<rparr>)
      else
        case ebind (decode (env_encoders env) data (pi_flags pinfo)) py_list of
          Inl e \<Rightarrow>
            if e = InvalidPacketEncodingException then (Inr False, raws, invalid InvalidEncoding p)
            else if parse_error e then
              (Inr False, raws, gibberish (ParseFailed (get_packet_encoding_type (pi_flags pinfo))) p)
            else (Inl e, raws, p)
        | Inr packet \<Rightarrow>
            (case place_raw raws packet of
               Inl r \<Rightarrow> (Inr False, raws, invalid r p)
             | Inr packet' \<Rightarrow> (let (r, p') = deliver_packet env pinfo packet' p in (r, [], p'))))"

definition process_payload ::
  "'c env \<Rightarrow> raw_packets \<Rightarrow> packet_read_info \<Rightarrow> bytes \<Rightarrow> 'c proto \<Rightarrow> bool result \<times> raw_packets \<times> 'c proto" where
  "process_payload env raws pinfo raw_data p =
     (let decrypted =
        (if cipher_in_name p = '''' then (Inr (Some raw_data), p)
         else if pi_flags pinfo AND FLAGS_CIPHER = 0 then (Inr None, invalid UnencryptedDropped p)
         else (case decrypt env raw_data (pi_padding_size pinfo) p of
           (Inl e, p') \<Rightarrow> (Inl e, p')
         | (Inr data, p') \<Rightarrow> (Inr (if data = [] then None else Some data), p')))
      in case decrypted of
           (Inl e, p') \<Rightarrow> (Inl e, raws, p')
         | (Inr None, p') \<Rightarrow> (Inr False, raws, p')
         | (Inr (Some data), p') \<Rightarrow>
             if pi_level pinfo > 0 then
               (case decompress (env_compressions env) data (pi_level pinfo) of
                  Inr data' \<Rightarrow> process_data env raws pinfo data' p'
                | Inl InvalidCompressionException \<Rightarrow> (Inr False, raws, invalid InvalidCompression p')
                | Inl e \<Rightarrow> (Inr False, raws,
                    gibberish (DecompressionFailed (get_compression_type (pi_level pinfo)) (Some e)) p'))
             else process_data env raws pinfo data p')"

section \<open>What is read is gone from the stream\<close>

lemma read_exact_from_unread:
  "read_exact_from n data p = (r, p') \<Longrightarrow>
   unread p' \<le> unread p \<and> (r \<noteq> None \<and> length data < n \<and> \<not> closed p \<longrightarrow> unread p' < unread p)"
proof (induction n data p rule: read_exact_from.induct)
  case (1 n data p)
  show ?case
  proof (cases "length data < n \<and> \<not> closed p")
    case True
    obtain x p1 where x: "recv_into (n - length data) p = (x, p1)"
      by (cases "recv_into (n - length data) p")
    note u = recv_into_unread [OF x]
    show ?thesis
    proof (cases "x = []")
      case True': True
      with "1.prems" x u True show ?thesis by (auto simp: read_exact_from.simps [of n data p])
    next
      case False
      with "1.prems" x True have "read_exact_from n (data @ x) p1 = (r, p')"
        by (simp add: read_exact_from.simps [of n data p])
      from "1.IH" [OF True x [symmetric] refl False this] have "unread p' \<le> unread p1" by simp
      moreover have "0 < length x" using False by simp
      ultimately show ?thesis using u by linarith
    qed
  next
    case False
    with "1.prems" show ?thesis by (auto simp: read_exact_from.simps [of n data p])
  qed
qed

lemma find_xpra_header_pos:
  assumes "find_xpra_header data index mx = Inr pos" "0 \<le> pos"
  shows "header_at data index mx (nat pos)" "nat pos + 8 \<le> length data"
proof -
  have "pos = first_or_minus_one (filter (header_at data index mx) [0..<length data])"
    using assms(1) by (simp add: find_xpra_header_def find_header_loop_filter)
  with assms(2) obtain q qs where "filter (header_at data index mx) [0..<length data] = q # qs" "pos = int q"
    by (auto simp: first_or_minus_one_def split: list.splits)
  then have "q \<in> set (filter (header_at data index mx) [0..<length data])" "nat pos = q" by simp_all
  then show "header_at data index mx (nat pos)" by simp
  then show "nat pos + 8 \<le> length data" by (simp add: header_at_P)
qed

lemma wait_header_from_unread:
  "wait_header_from data p = (Inr (Some h), p') \<Longrightarrow> unread p' + 8 \<le> unread p + length data"
proof (induction data p rule: wait_header_from.induct)
  case (1 data p)
  obtain x p1 where x: "recv_into (read_buffer_size p) p = (x, p1)"
    by (cases "recv_into (read_buffer_size p) p")
  note u = recv_into_unread [OF x]
  have open_p: "\<not> closed p" and ne: "x \<noteq> []"
    using "1.prems" x by (auto simp: wait_header_from.simps [of data p] split: if_splits)
  obtain pos where pos: "find_xpra_header (data @ x) 0 (256 * 1024) = Inr pos"
    using "1.prems" x open_p ne by (cases "find_xpra_header (data @ x) 0 (256 * 1024)")
      (auto simp: wait_header_from.simps [of data p])
  show ?case
  proof (cases "pos < 0")
    case True
    then have "wait_header_from (data @ x) p1 = (Inr (Some h), p')"
      using "1.prems" x open_p ne pos by (simp add: wait_header_from.simps [of data p])
    from "1.IH" [OF open_p x [symmetric] refl ne refl pos True this] u show ?thesis by simp
  next
    case False
    then have "nat pos + 8 \<le> length (data @ x)"
      using find_xpra_header_pos(2) [OF pos] by simp
    then show ?thesis
      using "1.prems" x open_p ne pos False u
      by (auto simp: wait_header_from.simps [of data p] HEADER_SIZE_def unread_def Let_def split: if_splits)
  qed
qed

lemma read_header_unread:
  assumes "read_header p = (Inr (Some h), p')" "\<not> closed p"
  shows "unread p' < unread p"
proof (cases "wait_for_header p")
  case True
  with assms have "wait_header_from [] p = (Inr (Some h), p')" by (simp add: read_header_def)
  from wait_header_from_unread [OF this] show ?thesis by simp
next
  case False
  with assms(1) have "read_exact_from HEADER_SIZE [] p = (Some h, p')"
    by (auto simp: read_header_def read_exact_def split: prod.splits)
  from read_exact_from_unread [OF this] assms(2) show ?thesis by (simp add: HEADER_SIZE_def)
qed

text \<open>
  Processing does not read: it leaves the connection, what is buffered and the reader's settings
  alone.
\<close>

definition same_stream :: "'c proto \<Rightarrow> 'c proto \<Rightarrow> bool" where
  "same_stream p q \<longleftrightarrow> pre_read q = pre_read p \<and> connection q = connection p \<and> closed q = closed p \<and>
     read_buffer_size q = read_buffer_size p"

lemma same_stream_refl [simp]: "same_stream p p"
  by (simp add: same_stream_def)

lemma same_stream_trans: "same_stream p q \<Longrightarrow> same_stream q r \<Longrightarrow> same_stream p r"
  by (simp add: same_stream_def)

lemma same_stream_emits [simp]:
  "same_stream p (emit a p)" "same_stream p (invalid r p)" "same_stream p (gibberish r p)"
  "same_stream p (invalid_header r p)" "same_stream p (internal_error r p)"
  by (simp_all add: same_stream_def emit_def invalid_def gibberish_def invalid_header_def internal_error_def)

lemma same_stream_unread: "same_stream p q \<Longrightarrow> unread q = unread p"
  by (simp add: same_stream_def unread_def)

lemma same_stream_parse_packet_header: "same_stream p (snd (parse_packet_header h p))"
  by (auto simp: parse_packet_header_def Let_def split: sum.split option.split)

lemma same_stream_decipher: "same_stream p (snd (decipher env x p))"
  by (auto simp: decipher_def Let_def same_stream_def split: sum.split option.split)

lemma same_stream_decrypt: "same_stream p (snd (decrypt env x n p))"
proof (cases "decipher env x p")
  case (Pair r q)
  have "same_stream p q" using same_stream_decipher [of p env x] Pair by simp
  then show ?thesis
    using same_stream_trans [OF _ same_stream_emits(5), of p q]
    by (auto simp: decrypt_def Pair Let_def split: sum.split)
qed

lemma same_stream_deliver: "same_stream p (snd (deliver_packet env i pk p))"
  by (auto simp: deliver_packet_def Let_def same_stream_def emit_def split: list.split sum.split)

lemma same_stream_process_data: "same_stream p (snd (snd (process_data env raws i d p)))"
proof -
  have "same_stream p (p\<lparr>receive_pending := True\<rparr>)" by (simp add: same_stream_def)
  moreover have "deliver_packet env i pk p = (r, q) \<Longrightarrow> same_stream p q" for pk r q
    using same_stream_deliver [of p env i pk] by simp
  ultimately show ?thesis
    by (auto simp: process_data_def Let_def split: sum.split prod.split)
qed

lemma same_stream_process_payload: "same_stream p (snd (snd (process_payload env raws i d p)))"
proof -
  have step: "same_stream p q \<Longrightarrow> same_stream p (snd (snd (process_data env raws i d' q)))" for q d'
    using same_stream_process_data same_stream_trans by blast
  have bad: "same_stream p q \<Longrightarrow> same_stream p (gibberish r q)" "same_stream p q \<Longrightarrow> same_stream p (invalid r q)" for q r
    using same_stream_emits same_stream_trans by blast+
  have rest: "same_stream p q \<Longrightarrow> same_stream p (snd (snd (
      if pi_level i > 0 then
        (case decompress (env_compressions env) d' (pi_level i) of
           Inr data' \<Rightarrow> process_data env raws i data' q
         | Inl InvalidCompressionException \<Rightarrow> (Inr False, raws, invalid InvalidCompression q)
         | Inl e \<Rightarrow> (Inr False, raws, gibberish (DecompressionFailed (get_compression_type (pi_level i)) (Some e)) q))
      else process_data env raws i d' q)))" for q d'
    using step bad by (auto split: sum.split py_error.split)
  show ?thesis
  proof (cases "cipher_in_name p = '''' \<or> pi_flags i AND FLAGS_CIPHER = 0")
    case True
    then show ?thesis
      using rest [of p d] by (auto simp: process_payload_def)
  next
    case False
    obtain r q where q: "decrypt env d (pi_padding_size i) p = (r, q)"
      by (cases "decrypt env d (pi_padding_size i) p")
    have "same_stream p q" using same_stream_decrypt [of p env d "pi_padding_size i"] q by simp
    then show ?thesis
      using False rest [of q] by (cases r) (auto simp: process_payload_def q)
  qed
qed

section \<open>The loop of the parse thread\<close>

text \<open>
  One iteration of \<^verbatim>\<open>do_read_parse_thread_loop\<close>: it returns from the loop (or raises), or goes on
  with the raw chunks kept for the next packet.
\<close>

datatype iteration = Return "unit result" | Continue raw_packets

definition read_payload ::
  "'c env \<Rightarrow> raw_packets \<Rightarrow> packet_read_info \<Rightarrow> 'c proto \<Rightarrow> iteration \<times> 'c proto" where
  "read_payload env raws pinfo p =
     (case read_exact (pi_payload_size pinfo) p of
        (None, p1) \<Rightarrow> (Return (Inr ()), emit IdleClose p1)
      | (Some payload, p1) \<Rightarrow>
          (case process_payload env raws pinfo payload p1 of
             (Inl e, _, p2) \<Rightarrow> (Return (Inl e), p2)
           | (Inr False, _, p2) \<Rightarrow> (Return (Inr ()), p2)
           | (Inr True, raws', p2) \<Rightarrow> (Continue raws', p2)))"

definition read_one :: "'c env \<Rightarrow> raw_packets \<Rightarrow> 'c proto \<Rightarrow> iteration \<times> 'c proto" where
  "read_one env raws p =
     (case read_header p of
        (Inl e, p1) \<Rightarrow> (Return (Inl e), p1)
      | (Inr None, p1) \<Rightarrow> (Return (Inr ()), emit IdleClose p1)
      | (Inr (Some h), p1) \<Rightarrow>
          if h ! 0 \<noteq> PACKET_HEADER_CHAR then (Return (Inr ()), invalid_header (InvalidHeaderByte (h ! 0)) p1)
          else
            (case parse_packet_header h p1 of
               (Inl e, p2) \<Rightarrow> (Return (Inl e), p2)
             | (Inr None, p2) \<Rightarrow> (Return (Inr ()), p2)
             | (Inr (Some pinfo), p2) \<Rightarrow> read_payload env raws pinfo p2))"

lemma read_payload_unread: "unread (snd (read_payload env raws pinfo p)) \<le> unread p"
proof -
  obtain r p1 where r: "read_exact (pi_payload_size pinfo) p = (r, p1)"
    by (cases "read_exact (pi_payload_size pinfo) p")
  then have u: "unread p1 \<le> unread p"
    using read_exact_from_unread [of "pi_payload_size pinfo" "[]" p] by (auto simp: read_exact_def)
  have v: "unread (snd (snd (process_payload env raws pinfo d p1))) = unread p1" for d
    by (rule same_stream_unread [OF same_stream_process_payload])
  show ?thesis
  proof (cases r)
    case None
    then show ?thesis
      using u same_stream_unread [OF same_stream_emits(1), of IdleClose p1] by (simp add: read_payload_def r)
  next
    case (Some d)
    then show ?thesis
      using u v [of d] by (auto simp: read_payload_def r split: prod.split sum.split bool.split)
  qed
qed

lemma read_one_unread:
  assumes "read_one env raws p = (Continue raws', p')" "\<not> closed p"
  shows "unread p' < unread p"
proof -
  obtain h p1 where h: "read_header p = (Inr (Some h), p1)"
    using assms(1) by (auto simp: read_one_def split: prod.splits sum.splits option.splits)
  obtain pinfo p2 where i: "parse_packet_header h p1 = (Inr (Some pinfo), p2)"
    using assms(1) h by (auto simp: read_one_def split: prod.splits sum.splits option.splits if_splits)
  have "read_payload env raws pinfo p2 = (Continue raws', p')"
    using assms(1) h i by (simp add: read_one_def split: if_splits)
  then have "unread p' \<le> unread p2"
    using read_payload_unread [of env raws pinfo p2] by simp
  also have "unread p2 = unread p1"
    using same_stream_unread [OF same_stream_parse_packet_header, of h p1] i by simp
  also have "unread p1 < unread p"
    using read_header_unread [OF h assms(2)] .
  finally show ?thesis .
qed

text \<open>The loop ends: every iteration that goes on has taken a header off the stream.\<close>

function read_parse_loop :: "'c env \<Rightarrow> raw_packets \<Rightarrow> 'c proto \<Rightarrow> unit result \<times> 'c proto" where
  "read_parse_loop env raws p =
     (if closed p then (Inr (), p)
      else
        (case read_one env raws p of
           (Return r, p') \<Rightarrow> (r, p')
         | (Continue raws', p') \<Rightarrow> read_parse_loop env raws' p'))"
  by pat_completeness auto
termination
  by (relation "measure (\<lambda>(_, _, p). unread p)") (auto dest: read_one_unread [OF sym])

declare read_parse_loop.simps [simp del]

definition do_read_parse_thread_loop :: "'c env \<Rightarrow> 'c proto \<Rightarrow> unit result \<times> 'c proto" where
  "do_read_parse_thread_loop env p = read_parse_loop env [] p"

text \<open>The thread's body: an exception is reported through the main loop, unless already closed.\<close>

definition read_parse_thread_loop :: "'c env \<Rightarrow> 'c proto \<Rightarrow> 'c proto" where
  "read_parse_thread_loop env p =
     (if connection p = None then p
      else
        (case do_read_parse_thread_loop env p of
           (Inr _, p') \<Rightarrow> p'
         | (Inl e, p') \<Rightarrow> if closed p' then p' else internal_error (ThreadError e) p'))"

end
