(* ===== verification/SocketSend.thy ===== *)
theory SocketSend
  imports SocketReceive
begin

text \<open>
  The sending half of \<^verbatim>\<open>SocketProtocol\<close> (\<^verbatim>\<open>src/xpra/net/protocol/socket_handler.py\<close>): turning a
  packet into its chunks, compressing, encrypting and padding them, putting the headers in front,
  queueing the buffers and writing them to the connection.
\<close>

section \<open>Encoding a packet\<close>

text \<open>\<^verbatim>\<open>NetPacketType\<close>: protocol flags, index, compression level and the data.\<close>

type_synonym netpacket = "int \<times> int \<times> int \<times> pval"

definition strtobytes :: "'c env \<Rightarrow> pval \<Rightarrow> bytes" where
  "strtobytes env v =
     (case v of
        PBytes b \<Rightarrow> b
      | _ \<Rightarrow> let s = str_of_val env v
             in if list_all (\<lambda>c. 0 \<le> c \<and> c < 256) s then map word_of_int s else env_utf8 env s)"

definition memoryview_to_bytes :: "'c env \<Rightarrow> pval \<Rightarrow> bytes" where
  "memoryview_to_bytes env v = (case v of PBytes b \<Rightarrow> b | PBuffer b \<Rightarrow> b | _ \<Rightarrow> strtobytes env v)"

definition tobytes_unless_rencodeplus :: "'c proto \<Rightarrow> pval \<Rightarrow> pval" where
  "tobytes_unless_rencodeplus p v =
     (case v of PBuffer b \<Rightarrow> if encoder p \<noteq> ''rencodeplus'' then PBytes b else v | _ \<Rightarrow> v)"

text \<open>The branches of \<^verbatim>\<open>encode\<close>'s loop that are past the type checks: \<open>sz\<close> is \<^verbatim>\<open>len(item)\<close>.\<close>

definition encode_large :: "'c proto \<Rightarrow> int \<Rightarrow> nat \<Rightarrow> pval \<Rightarrow> (pval \<times> netpacket list \<times> nat) result" where
  "encode_large p i sz item =
     (case item of
        PBuffer b \<Rightarrow> Inr (tobytes_unless_rencodeplus p item, [], 0)
      | PLargeStructure d \<Rightarrow> Inr (d, [], 0)
      | PCompressible d \<Rightarrow> Inr (d, [], 0)
      | PCompressed d can_inline \<Rightarrow>
          if chunks p \<and> (\<not> can_inline \<or> sz > INLINE_SIZE) then Inr (PBytes [], [(0, i, 0, d)], 0)
          else Inr (tobytes_unless_rencodeplus p d, [], sz)
      | PLevelCompressed d level algo can_inline \<Rightarrow>
          if chunks p \<and> (\<not> can_inline \<or> sz > INLINE_SIZE) then Inr (PBytes [], [(0, i, level, d)], 0)
          else Inr (tobytes_unless_rencodeplus p d, [], sz)
      | PBytes b \<Rightarrow>
          if chunks p \<and> compression_level p > 0 \<and> sz > LARGE_PACKET_SIZE then
            (case compress_fn p of
               None \<Rightarrow> Inl TypeError
             | Some f \<Rightarrow> ebind (f b (compression_level p)) (\<lambda>(cl, cdata). Inr (PStr [], [(0, i, cl, PBuffer cdata)], 0)))
          else Inr (item, [], 0)
      | _ \<Rightarrow> Inr (item, [], 0))"

text \<open>
  One iteration: the value that takes the item's place, the chunk it adds, the size inlined. Text,
  bytes and buffers are sequences, and stay in the packet whatever their size.
\<close>

definition encode_item :: "'c env \<Rightarrow> 'c proto \<Rightarrow> int \<Rightarrow> pval \<Rightarrow> (pval \<times> netpacket list \<times> nat) result" where
  "encode_item env p i item =
     (case item of
        PNone \<Rightarrow> Inl TypeError
      | PIntEnum n \<Rightarrow> Inr (PInt n, [], 0)
      | PInt n \<Rightarrow> Inr (item, [], 0)
      | PBool b \<Rightarrow> Inr (item, [], 0)
      | PDict kvs \<Rightarrow> Inr (item, [], 0)
      | PEnum s \<Rightarrow> Inr (PStr s, [], 0)
      | _ \<Rightarrow>
          if is_sequence item then Inr (item, [], 0)
          else ebind (py_len item) (\<lambda>n.
            case item of
              PCompressible v \<Rightarrow> ebind (env_compress env item) (encode_large p i n)
            | _ \<Rightarrow> encode_large p i n item))"

fun encode_items :: "'c env \<Rightarrow> 'c proto \<Rightarrow> int \<Rightarrow> pval list \<Rightarrow> (packet \<times> netpacket list \<times> nat) result" where
  "encode_items env p i [] = Inr ([], [], 0)"
| "encode_items env p i (x # xs) =
     ebind (encode_item env p i x) (\<lambda>(y, cs, n).
     ebind (encode_items env p (i + 1) xs) (\<lambda>(ys, cs', n'). Inr (y # ys, cs @ cs', n + n')))"

text \<open>
  \<^verbatim>\<open>do_encode\<close>: encode the main chunk, compress it unless it is small. A failure to encode is
  ignored once the protocol is closed.
\<close>

definition do_encode :: "'c proto \<Rightarrow> packet \<Rightarrow> netpacket list \<Rightarrow> nat \<Rightarrow> netpacket list result" where
  "do_encode p packet packets inlined_size =
     (case (case encode_fn p of None \<Rightarrow> Inl TypeError | Some f \<Rightarrow> f (PList packet)) of
        Inl e \<Rightarrow> if closed p then Inr [] else Inl e
      | Inr (main_packet, proto_flags) \<Rightarrow>
          let sz = length main_packet
          in if compression_level p > 0 \<and> sz > MIN_COMPRESS_SIZE + inlined_size then
               (case compress_fn p of
                  None \<Rightarrow> Inl TypeError
                | Some f \<Rightarrow> ebind (f main_packet (compression_level p)) (\<lambda>(level, c).
                    Inr (packets @ [(proto_flags, 0, level, PBuffer c)])))
             else Inr (packets @ [(proto_flags, 0, 0, PBytes main_packet)]))"

definition encode :: "'c env \<Rightarrow> packet \<Rightarrow> 'c proto \<Rightarrow> (netpacket list \<times> 'c proto) result" where
  "encode env packet_in p =
     (case packet_in of
        [] \<Rightarrow> Inl IndexError
      | t # _ \<Rightarrow>
          ebind (encode_items env p 0 packet_in) (\<lambda>(packet, packets, inlined_size).
            let p' = p\<lparr>output_stats := count_stat (str_of_val env t) (output_stats p)\<rparr>
            in ebind (do_encode p' packet packets inlined_size) (\<lambda>cs. Inr (cs, p'))))"

section \<open>Encryption\<close>

text \<open>
  \<^verbatim>\<open>encrypt\<close>: the payload and the sz the header will carry, that of the data before padding plus
  that of the iv. \<open>iv\<close> is what \<^verbatim>\<open>os.urandom(16)\<close> returns.
\<close>

definition encrypt :: "'c env \<Rightarrow> bytes \<Rightarrow> pval \<Rightarrow> 'c proto \<Rightarrow> ((bytes \<times> nat) \<times> 'c proto) result" where
  "encrypt env iv data p =
     ebind (py_len data) (\<lambda>sz.
     let padding_size = padding_for (cipher_out_block_size p) (cipher_out_always_pad p) sz;
         bs = memoryview_to_bytes env data;
         be = env_backend env
     in ebind (if padding_size = 0 then Inr bs
               else ebind (pad (cipher_out_padding p) (int padding_size)) (\<lambda>t. Inr (bs @ t))) (\<lambda>padded.
        if cipher_out_name p = '''' then Inl AssertionError
        else if cipher_out_stream p then
          (case cipher_out_encryptor p of
             None \<Rightarrow> Inl AssertionError
           | Some e \<Rightarrow> ebind (ctx_update be e padded) (\<lambda>(payload, e').
               Inr ((payload, sz), p\<lparr>cipher_out_encryptor := Some e'\<rparr>)))
        else
          ebind (get_mode (cipher_out_name p)) (\<lambda>mode.
          ebind (get_encryptor be (cipher_out_key p) iv mode) (\<lambda>e.
          ebind (ctx_update be e padded) (\<lambda>(a, e').
          ebind (ctx_finalize be e') (\<lambda>b. Inr ((iv @ a @ b, sz + length iv), p)))))))"

section \<open>Queueing the chunks\<close>

text \<open>
  One iteration of \<^verbatim>\<open>_add_chunks_to_queue\<close>: the buffers a chunk adds to the work item. A chunk
  small enough is joined to its header.
\<close>

definition chunk_items ::
  "'c env \<Rightarrow> bytes \<Rightarrow> bool \<Rightarrow> netpacket \<Rightarrow> 'c proto \<Rightarrow> (bytes list \<times> 'c proto) result" where
  "chunk_items env iv more_packets chunk p =
     (case chunk of (proto_flags, index, level, data) \<Rightarrow>
        if \<not> py_bool data then Inl RuntimeError
        else
          ebind (if cipher_out_name p \<noteq> ''''
                 then ebind (encrypt env iv data p) (\<lambda>((payload, sz), p'). Inr (proto_flags OR FLAGS_CIPHER, payload, sz, p'))
                 else ebind (py_len data) (\<lambda>sz. Inr (proto_flags, memoryview_to_bytes env data, sz, p)))
            (\<lambda>(flags, payload, sz, p').
              if flags AND FLAGS_NOHEADER \<noteq> 0 then Inr ([payload], p')
              else
                let flags' = (if index = 0 \<and> \<not> more_packets then flags OR FLAGS_FLUSH else flags)
                in ebind (env_chunk_header env flags' level index (int sz)) (\<lambda>header.
                     Inr (if sz < PACKET_JOIN_SIZE then [header @ payload] else [header, payload], p'))))"

text \<open>\<open>rnd k\<close> is the iv drawn for the \<open>k\<close>-th chunk.\<close>

fun chunks_items ::
  "'c env \<Rightarrow> (nat \<Rightarrow> bytes) \<Rightarrow> bool \<Rightarrow> netpacket list \<Rightarrow> 'c proto \<Rightarrow> (bytes list \<times> 'c proto) result" where
  "chunks_items env rnd more_packets [] p = Inr ([], p)"
| "chunks_items env rnd more_packets (c # cs) p =
     ebind (chunk_items env (rnd 0) more_packets c p) (\<lambda>(items, p').
     ebind (chunks_items env (\<lambda>k. rnd (Suc k)) more_packets cs p') (\<lambda>(items', p''). Inr (items @ items', p'')))"

definition add_frame_header :: "bytes \<Rightarrow> bytes list \<Rightarrow> bytes list result" where
  "add_frame_header frame_header items =
     (if frame_header = [] then Inr items
      else case items of
        [] \<Rightarrow> Inl IndexError
      | item0 # rest \<Rightarrow>
          if length item0 < PACKET_JOIN_SIZE then Inr ((frame_header @ item0) # rest)
          else Inr (frame_header # items))"

definition raw_write :: "bytes list \<Rightarrow> pystr \<Rightarrow> bool \<Rightarrow> bool \<Rightarrow> 'c proto \<Rightarrow> 'c proto" where
  "raw_write items packet_type synchronous more_packets p =
     p\<lparr>write_thread := True,
       write_queue := write_queue p @
         [Some \<lparr>wi_items = items, wi_type = packet_type, wi_synchronous = synchronous, wi_more = more_packets\<rparr>]\<rparr>"

definition add_chunks_to_queue ::
  "'c env \<Rightarrow> (nat \<Rightarrow> bytes) \<Rightarrow> pystr \<Rightarrow> netpacket list \<Rightarrow> bool \<Rightarrow> bool \<Rightarrow> 'c proto \<Rightarrow> 'c proto result" where
  "add_chunks_to_queue env rnd packet_type cs synchronous more_packets p =
     ebind (chunks_items env rnd more_packets cs p) (\<lambda>(items, p').
     ebind (env_frame_header env items) (\<lambda>frame_header.
     ebind (add_frame_header frame_header items) (\<lambda>items'.
     Inr (raw_write items' packet_type synchronous more_packets p'))))"

definition add_packet_to_queue ::
  "'c env \<Rightarrow> (nat \<Rightarrow> bytes) \<Rightarrow> packet \<Rightarrow> bool \<Rightarrow> bool \<Rightarrow> 'c proto \<Rightarrow> 'c proto result" where
  "add_packet_to_queue env rnd packet synchronous more_packets p =
     (let p = (if more_packets then p else p\<lparr>source_has_more := False\<rparr>)
      in case packet of
           [] \<Rightarrow> Inr p
         | t # _ \<Rightarrow>
             if t = pstr ''closed'' \<or> t = pstr ''none'' then Inr p
             else
               ebind (encode env packet p) (\<lambda>(cs, p').
                 if closed p' then Inr p'
                 else add_chunks_to_queue env rnd (str_of_val env t) cs synchronous more_packets p'))"

section \<open>The write thread\<close>

text \<open>
  The inner loop of \<^verbatim>\<open>write_buffers\<close>: the connection says how much of the buffer it has taken, the
  rest is offered again.
\<close>

definition conn_write :: "bytes \<Rightarrow> conn \<Rightarrow> nat \<times> conn" where
  "conn_write buf c =
     (case accepts c of
        [] \<Rightarrow> (length buf, c\<lparr>written := written c @ buf\<rparr>)
      | k # ks \<Rightarrow> let n = min k (length buf) in (n, c\<lparr>written := written c @ take n buf, accepts := ks\<rparr>))"

function write_buffer :: "bytes \<Rightarrow> conn \<Rightarrow> nat \<Rightarrow> nat \<times> conn" where
  "write_buffer buf c count =
     (if buf = [] then (count, c)
      else
        let (n, c') = conn_write buf c
        in if n > 0 then write_buffer (drop n buf) c' (count + 1) else write_buffer buf c' count)"
  by pat_completeness auto
termination
  by (relation "measures [\<lambda>(buf, _, _). length buf, \<lambda>(_, c, _). length (accepts c)]")
    (auto simp: conn_write_def Let_def split: list.splits)

declare write_buffer.simps [simp del]

fun write_all :: "bytes list \<Rightarrow> conn \<Rightarrow> nat \<Rightarrow> nat \<times> conn" where
  "write_all [] c count = (count, c)"
| "write_all (b # bs) c count = (let (count', c') = write_buffer b c count in write_all bs c' count')"

definition write_buffers :: "bytes list \<Rightarrow> 'c proto \<Rightarrow> 'c proto" where
  "write_buffers buf_data p =
     (case connection p of
        None \<Rightarrow> p
      | Some c \<Rightarrow>
          let (count, c') = (if closed p then (output_raw_packetcount p, c)
                             else write_all buf_data c (output_raw_packetcount p))
          in p\<lparr>connection := Some c', output_raw_packetcount := count,
               output_packetcount := output_packetcount p + 1\<rparr>)"

definition write_items :: "write_item \<Rightarrow> 'c proto \<Rightarrow> bool \<times> 'c proto" where
  "write_items w p =
     (case connection p of
        None \<Rightarrow> (False, p)
      | Some c \<Rightarrow>
          let many = length (wi_items w) > 1;
              c1 = (if wi_more w \<or> many then c\<lparr>nodelay := False\<rparr> else c);
              c2 = (if many then c1\<lparr>cork := True\<rparr> else c1);
              p1 = write_buffers (wi_items w) (p\<lparr>connection := Some c2\<rparr>)
          in (True, p1\<lparr>connection := map_option (\<lambda>c.
                let c3 = (if many then c\<lparr>cork := False\<rparr> else c)
                in if wi_more w then c3 else c3\<lparr>nodelay := True\<rparr>) (connection p1)\<rparr>))"

text \<open>\<^verbatim>\<open>_write\<close>; \<open>None\<close> where it would wait for the queue.\<close>

definition write_one :: "'c proto \<Rightarrow> (bool \<times> 'c proto) option" where
  "write_one p =
     (case write_queue p of
        [] \<Rightarrow> None
      | None # q \<Rightarrow> Some (False, close NoReason (p\<lparr>write_queue := q\<rparr>))
      | Some w # q \<Rightarrow> Some (write_items w (p\<lparr>write_queue := q\<rparr>)))"

definition flush_write_queue_step :: "'c proto \<Rightarrow> (bool \<times> 'c proto) option" where
  "flush_write_queue_step p = (if write_queue p \<noteq> [] \<and> \<not> closed p then write_one p else None)"

section \<open>Whatever a write accepts, everything is written once and in order\<close>

lemma conn_write_written:
  "conn_write buf c = (n, c') \<Longrightarrow> n \<le> length buf \<and> written c' = written c @ take n buf \<and> segments c' = segments c"
  by (cases "accepts c") (auto simp: conn_write_def Let_def)

lemma write_buffer_written:
  "write_buffer buf c count = (count', c') \<Longrightarrow> written c' = written c @ buf \<and> segments c' = segments c"
proof (induction buf c count rule: write_buffer.induct)
  case (1 buf c count)
  show ?case
  proof (cases "buf = []")
    case True
    with "1.prems" show ?thesis by (simp add: write_buffer.simps [of "[]" c count])
  next
    case False
    obtain n c1 where n: "conn_write buf c = (n, c1)" by (cases "conn_write buf c")
    note w = conn_write_written [OF n]
    have run: "(if n > 0 then write_buffer (drop n buf) c1 (count + 1) else write_buffer buf c1 count) = (count', c')"
      using "1.prems" False n by (simp add: write_buffer.simps [of buf c count])
    show ?thesis
    proof (cases "n > 0")
      case True
      with run "1.IH"(1) [OF False n [symmetric] refl True] w show ?thesis by simp
    next
      case n0: False
      with run "1.IH"(2) [OF False n [symmetric] refl n0] w show ?thesis by simp
    qed
  qed
qed

lemma write_all_written:
  "write_all bs c count = (count', c') \<Longrightarrow> written c' = written c @ concat bs \<and> segments c' = segments c"
proof (induction bs arbitrary: c count)
  case (Cons b bs)
  obtain n c1 where n: "write_buffer b c count = (n, c1)" by (cases "write_buffer b c count")
  have "written c1 = written c @ b" "segments c1 = segments c"
    using write_buffer_written [OF n] by simp_all
  with Cons.IH [of c1 n] Cons.prems n show ?case by simp
qed simp

lemma write_items_written:
  assumes "connection p = Some c" "\<not> closed p"
  shows "\<exists>c' p'. write_items w p = (True, p') \<and> connection p' = Some c' \<and> closed p' = closed p \<and>
    written c' = written c @ concat (wi_items w) \<and> segments c' = segments c \<and> write_queue p' = write_queue p \<and>
    (wi_more w \<or> nodelay c') \<and> (length (wi_items w) > 1 \<longrightarrow> \<not> cork c')"
proof -
  let ?many = "length (wi_items w) > 1"
  let ?c1 = "if wi_more w \<or> ?many then c\<lparr>nodelay := False\<rparr> else c"
  let ?c2 = "if ?many then ?c1\<lparr>cork := True\<rparr> else ?c1"
  obtain n c3 where n: "write_all (wi_items w) ?c2 (output_raw_packetcount p) = (n, c3)"
    by (cases "write_all (wi_items w) ?c2 (output_raw_packetcount p)")
  have "written c3 = written c @ concat (wi_items w)" "segments c3 = segments c"
    using write_all_written [OF n] by auto
  then show ?thesis
    using assms n by (auto simp: write_items_def write_buffers_def Let_def)
qed

end
