(* ===== verification/SocketStream.thy ===== *)
theory SocketStream
  imports SocketReceive
begin

text \<open>
  How the transport cuts the byte stream does not matter to the receiver: the parse thread behaves
  the same on two protocols that differ only in the pieces in which the same bytes arrive (and in
  the counter of the pieces).
\<close>

section \<open>The stream of a protocol\<close>

definition stream :: "'c proto \<Rightarrow> bytes" where
  "stream p = concat (pre_read p) @ (case connection p of None \<Rightarrow> [] | Some c \<Rightarrow> concat (segments c))"

definition with_stream :: "bytes \<Rightarrow> 'c proto \<Rightarrow> 'c proto" where
  "with_stream s p =
     p\<lparr>pre_read := (if s = [] then [] else [s]),
       connection := map_option (\<lambda>c. c\<lparr>segments := []\<rparr>) (connection p),
       input_raw_packetcount := 0\<rparr>"

definition flat :: "'c proto \<Rightarrow> 'c proto" where
  "flat p = with_stream (stream p) p"

text \<open>The transport has delivered no empty piece, and pieces are asked for with a real buffer.\<close>

definition wf_stream :: "'c proto \<Rightarrow> bool" where
  "wf_stream p \<longleftrightarrow> [] \<notin> set (pre_read p) \<and>
     (case connection p of None \<Rightarrow> True | Some c \<Rightarrow> [] \<notin> set (segments c)) \<and> 0 < read_buffer_size p"

lemma stream_with_stream [simp]: "stream (with_stream s p) = s"
  by (cases "connection p") (simp_all add: stream_def with_stream_def)

lemma with_stream_twice [simp]: "with_stream s (with_stream t p) = with_stream s p"
  by (cases p, cases "connection p") (simp_all add: with_stream_def)

lemma flat_eq_iff: "flat p = flat q \<longleftrightarrow> stream p = stream q \<and> with_stream [] p = with_stream [] q"
proof
  assume f: "flat p = flat q"
  from arg_cong [OF f, of stream] arg_cong [OF f, of "with_stream []"]
  show "stream p = stream q \<and> with_stream [] p = with_stream [] q"
    by (simp add: flat_def)
next
  assume "stream p = stream q \<and> with_stream [] p = with_stream [] q"
  then have "with_stream (stream p) (with_stream [] p) = with_stream (stream q) (with_stream [] q)" by simp
  then show "flat p = flat q" by (simp add: flat_def)
qed

lemma flat_flat [simp]: "flat (flat p) = flat p"
  by (simp add: flat_eq_iff) (simp add: flat_def)

lemma wf_stream_flat: "0 < read_buffer_size p \<Longrightarrow> wf_stream (flat p)"
  by (cases "connection p") (auto simp: wf_stream_def flat_def with_stream_def)

lemma with_stream_fields [simp]:
  "closed (with_stream s p) = closed p" "read_buffer_size (with_stream s p) = read_buffer_size p"
  "hangup_delay (with_stream s p) = hangup_delay p"
  "input_stats (with_stream s p) = input_stats p" "input_packetcount (with_stream s p) = input_packetcount p"
  "max_packet_size (with_stream s p) = max_packet_size p"
  "abs_max_packet_size (with_stream s p) = abs_max_packet_size p"
  "cipher_in_name (with_stream s p) = cipher_in_name p"
  "cipher_in_block_size (with_stream s p) = cipher_in_block_size p"
  "cipher_in_padding (with_stream s p) = cipher_in_padding p"
  "cipher_in_always_pad (with_stream s p) = cipher_in_always_pad p"
  "cipher_in_stream (with_stream s p) = cipher_in_stream p"
  "cipher_in_key (with_stream s p) = cipher_in_key p"
  "cipher_in_decryptor (with_stream s p) = cipher_in_decryptor p"
  "receive_pending (with_stream s p) = receive_pending p"
  "wait_for_header (with_stream s p) = wait_for_header p"
  "actions (with_stream s p) = actions p"
  "connection (with_stream s p) = None \<longleftrightarrow> connection p = None"
  by (simp_all add: with_stream_def)

section \<open>Reading, in terms of the stream\<close>

lemma take_front_no_empty:
  "take_front k d ds = (x, ds') \<Longrightarrow> [] \<notin> set (d # ds) \<Longrightarrow> 0 < k \<Longrightarrow> x \<noteq> [] \<and> [] \<notin> set ds'"
  by (auto simp: take_front_def Let_def split: if_splits)

lemma recv_into_stream:
  assumes "recv_into k p = (x, p')" "wf_stream p" "0 < k"
  shows "stream p = x @ stream p'" "wf_stream p'" "with_stream [] p' = with_stream [] p"
    "x = [] \<longleftrightarrow> stream p = []"
proof -
  have "stream p = x @ stream p' \<and> wf_stream p' \<and> with_stream [] p' = with_stream [] p \<and> (x = [] \<longleftrightarrow> stream p = [])"
  proof (cases "pre_read p")
    case (Cons d ds)
    obtain y ds' where f: "take_front k d ds = (y, ds')" by (cases "take_front k d ds")
    from assms(1) Cons f have x: "x = y" "p' = p\<lparr>pre_read := ds'\<rparr>"
      by (auto simp: recv_into_def)
    have "y \<noteq> [] \<and> [] \<notin> set ds'"
      using take_front_no_empty [OF f _ assms(3)] assms(2) Cons by (simp add: wf_stream_def)
    then show ?thesis
      using take_front_concat [OF f] assms(2) Cons
      by (cases "connection p") (auto simp: x stream_def wf_stream_def with_stream_def)
  next
    case Nil
    show ?thesis
    proof (cases "connection p")
      case None
      with Nil assms(1,2) show ?thesis by (auto simp: recv_into_def stream_def)
    next
      case (Some c)
      show ?thesis
      proof (cases "segments c")
        case Nil': Nil
        with Nil Some assms(1,2) show ?thesis by (auto simp: recv_into_def stream_def)
      next
        case (Cons s ss)
        obtain y ss' where f: "take_front k s ss = (y, ss')" by (cases "take_front k s ss")
        have y: "y \<noteq> []" "[] \<notin> set ss'"
          using take_front_no_empty [OF f _ assms(3)] assms(2) Nil Some Cons by (simp_all add: wf_stream_def)
        have x: "x = y" "p' = p\<lparr>connection := Some (c\<lparr>segments := ss'\<rparr>),
            input_raw_packetcount := input_raw_packetcount p + 1\<rparr>"
          using assms(1) Nil Some Cons f y by (auto simp: recv_into_def Let_def)
        show ?thesis
          using take_front_concat [OF f] assms(2) Nil Some Cons y
          by (auto simp: x stream_def wf_stream_def with_stream_def)
      qed
    qed
  qed
  then show "stream p = x @ stream p'" "wf_stream p'" "with_stream [] p' = with_stream [] p"
    "x = [] \<longleftrightarrow> stream p = []" by blast+
qed

lemma closed_via: "with_stream [] p' = with_stream [] p \<Longrightarrow> closed p' = closed p"
  by (metis with_stream_fields(1))

lemma read_exact_from_stream:
  assumes "wf_stream p" "\<not> closed p" "length data \<le> n" "read_exact_from n data p = (r, p')"
  shows "r = (if n \<le> length data + length (stream p)
      then Some (data @ take (n - length data) (stream p)) else None) \<and>
    stream p' = drop (n - length data) (stream p) \<and> wf_stream p' \<and> with_stream [] p' = with_stream [] p"
  using assms
proof (induction n data p rule: read_exact_from.induct)
  case (1 n data p)
  show ?case
  proof (cases "length data < n")
    case False
    with "1.prems" show ?thesis by (auto simp: read_exact_from.simps [of n data p])
  next
    case True
    obtain x p1 where x: "recv_into (n - length data) p = (x, p1)"
      by (cases "recv_into (n - length data) p")
    have k: "0 < n - length data" using True by simp
    note rs = recv_into_stream [OF x "1.prems"(1) k]
    have lx: "length x \<le> n - length data" by (rule recv_into_length [OF x])
    show ?thesis
    proof (cases "x = []")
      case True': True
      then have "stream p = []" using rs(4) by simp
      then show ?thesis
        using "1.prems" True x True' rs(1-3) by (auto simp: read_exact_from.simps [of n data p])
    next
      case False
      have run: "read_exact_from n (data @ x) p1 = (r, p')"
        using "1.prems"(2,4) x True False by (simp add: read_exact_from.simps [of n data p])
      have "\<not> closed p1" using closed_via [OF rs(3)] "1.prems"(2) by simp
      moreover have "length (data @ x) \<le> n" using lx True by simp
      moreover have "length data < n \<and> \<not> closed p" using True "1.prems"(2) by simp
      ultimately have "r = (if n \<le> length (data @ x) + length (stream p1)
          then Some ((data @ x) @ take (n - length (data @ x)) (stream p1)) else None) \<and>
        stream p' = drop (n - length (data @ x)) (stream p1) \<and> wf_stream p' \<and> with_stream [] p' = with_stream [] p1"
        using "1.IH" [OF _ x [symmetric] refl False rs(2)] run by blast
      then show ?thesis
        using lx rs(1,3) by (auto simp: diff_diff_add)
    qed
  qed
qed

lemma read_exact_stream:
  assumes "wf_stream p" "\<not> closed p" "read_exact n p = (r, p')"
  shows "r = (if n \<le> length (stream p) then Some (take n (stream p)) else None)"
    "stream p' = drop n (stream p)" "wf_stream p'" "with_stream [] p' = with_stream [] p"
  using read_exact_from_stream [of p "[]" n r p'] assms by (simp_all add: read_exact_def)

section \<open>Waiting for a header, in terms of the stream\<close>

definition first_header :: "bytes \<Rightarrow> nat option" where
  "first_header s = (case filter (header_at s 0 (256 * 1024)) [0..<length s] of [] \<Rightarrow> None | q # _ \<Rightarrow> Some q)"

lemma find_xpra_header_first_header:
  "find_xpra_header s 0 (256 * 1024) = Inr (case first_header s of None \<Rightarrow> -1 | Some q \<Rightarrow> int q)"
  by (simp add: find_xpra_header_def find_header_loop_filter first_or_minus_one_def first_header_def
      split: list.split)

lemma header_at_append: "q + 8 \<le> length s \<Longrightarrow> header_at (s @ t) index mx q = header_at s index mx q"
  by (simp add: header_at_def)

lemma first_header_Some:
  assumes "first_header s = Some q"
  shows "q + 8 \<le> length s" "first_header (s @ t) = Some q"
proof -
  let ?H = "header_at s 0 (256 * 1024)" and ?G = "header_at (s @ t) 0 (256 * 1024)"
  obtain qs where f: "filter ?H [0..<length s] = q # qs"
    using assms by (auto simp: first_header_def split: list.splits)
  then have "q \<in> set (filter ?H [0..<length s])" by simp
  then have q: "?H q" "q < length s" by simp_all
  then show le: "q + 8 \<le> length s" using header_at_P by blast
  have before: "\<not> ?H r" if "r < q" for r
  proof
    assume "?H r"
    have "sorted (filter ?H [0..<length s])" by (rule sorted_wrt_filter) simp
    moreover have "r \<in> set (filter ?H [0..<length s])" using that q(2) \<open>?H r\<close> by simp
    ultimately show False using that unfolding f by auto
  qed
  have "filter ?G [0..<length (s @ t)] = filter ?G [q..<length (s @ t)]"
    using before le by (intro filter_upt_skip) (auto simp: header_at_append)
  moreover have "[q..<length (s @ t)] = q # [Suc q..<length (s @ t)]"
    using q(2) by (simp add: upt_conv_Cons)
  ultimately show "first_header (s @ t) = Some q"
    using q le header_at_append [OF le, of t 0] by (simp add: first_header_def del: upt_Suc length_append)
qed

lemma with_stream_wait_for_header:
  "with_stream [] (p\<lparr>wait_for_header := w\<rparr>) = (with_stream [] p)\<lparr>wait_for_header := w\<rparr>"
  "with_stream [] (p\<lparr>wait_for_header := w, pre_read := d\<rparr>) = (with_stream [] p)\<lparr>wait_for_header := w\<rparr>"
  by (cases p, simp add: with_stream_def)+

lemma wait_header_from_stream:
  assumes "wf_stream p" "\<not> closed p" "first_header data = None" "wait_header_from data p = (r, p')"
  shows "case first_header (data @ stream p) of
      None \<Rightarrow> r = Inr None \<and> stream p' = [] \<and> wf_stream p' \<and> with_stream [] p' = with_stream [] p
    | Some q \<Rightarrow> r = Inr (Some (take HEADER_SIZE (drop q (data @ stream p)))) \<and>
        stream p' = drop (q + HEADER_SIZE) (data @ stream p) \<and> wf_stream p' \<and>
        with_stream [] p' = (with_stream [] p)\<lparr>wait_for_header := False\<rparr>"
  using assms
proof (induction data p rule: wait_header_from.induct)
  case (1 data p)
  obtain x p1 where x: "recv_into (read_buffer_size p) p = (x, p1)"
    by (cases "recv_into (read_buffer_size p) p")
  have "0 < read_buffer_size p" using "1.prems"(1) by (simp add: wf_stream_def)
  note rs = recv_into_stream [OF x "1.prems"(1) this]
  show ?case
  proof (cases "x = []")
    case True
    then have "stream p = []" using rs(4) by simp
    then show ?thesis
      using "1.prems" x True rs(1-3) by (auto simp: wait_header_from.simps [of data p])
  next
    case False
    note find = find_xpra_header_first_header [of "data @ x"]
    have whole: "data @ stream p = (data @ x) @ stream p1" using rs(1) by simp
    show ?thesis
    proof (cases "first_header (data @ x)")
      case None
      have find': "find_xpra_header (data @ x) 0 (256 * 1024) = Inr (-1)" using find None by simp
      have run: "wait_header_from (data @ x) p1 = (r, p')"
        using "1.prems"(2,4) x False find' by (simp add: wait_header_from.simps [of data p])
      have "\<not> closed p1" using closed_via [OF rs(3)] "1.prems"(2) by simp
      from "1.IH" [OF "1.prems"(2) x [symmetric] refl False refl find' _ rs(2) this None run]
      show ?thesis unfolding whole rs(3) by simp
    next
      case (Some q)
      note q = first_header_Some [OF Some]
      let ?stop = "q + HEADER_SIZE"
      have "r = Inr (Some (take HEADER_SIZE (drop q (data @ x))))"
        "p' = (let p2 = p1\<lparr>wait_for_header := False\<rparr>
          in if ?stop < length (data @ x) then p2\<lparr>pre_read := drop ?stop (data @ x) # pre_read p2\<rparr> else p2)"
        using "1.prems"(2,4) x False find Some by (auto simp: wait_header_from.simps [of data p] Let_def)
      moreover have "stream (p1\<lparr>wait_for_header := False, pre_read := drop ?stop (data @ x) # pre_read p1\<rparr>) =
          drop ?stop (data @ x) @ stream p1"
        by (simp add: stream_def)
      moreover have "stream (p1\<lparr>wait_for_header := False\<rparr>) = stream p1" by (simp add: stream_def)
      ultimately show ?thesis
        using q rs(2,3) unfolding whole
        by (auto simp: Let_def HEADER_SIZE_def wf_stream_def with_stream_wait_for_header)
    qed
  qed
qed

lemma read_header_stream:
  assumes "wf_stream p" "\<not> closed p" "wf_stream q" "flat p = flat q"
  shows "fst (read_header p) = fst (read_header q)" "flat (snd (read_header p)) = flat (snd (read_header q))"
    "wf_stream (snd (read_header p))"
proof -
  have eq: "stream p = stream q" "with_stream [] p = with_stream [] q"
    using assms(4) by (simp_all add: flat_eq_iff)
  have cq: "\<not> closed q" using closed_via [OF eq(2)] assms(2) by simp
  have wq: "wait_for_header q = wait_for_header p" using eq(2) by (metis with_stream_fields(16))
  obtain r p' where p': "read_header p = (r, p')" by (cases "read_header p")
  obtain r2 q' where q': "read_header q = (r2, q')" by (cases "read_header q")
  have "r = r2 \<and> stream p' = stream q' \<and> with_stream [] p' = with_stream [] q' \<and> wf_stream p'"
  proof (cases "wait_for_header p")
    case False
    obtain a p1 where a: "read_exact HEADER_SIZE p = (a, p1)" by (cases "read_exact HEADER_SIZE p")
    obtain b q1 where b: "read_exact HEADER_SIZE q = (b, q1)" by (cases "read_exact HEADER_SIZE q")
    show ?thesis
      using read_exact_stream [OF assms(1,2) a] read_exact_stream [OF assms(3) cq b] p' q' False wq eq
      by (auto simp: read_header_def a b)
  next
    case True
    have n: "first_header [] = None" by (simp add: first_header_def)
    have "wait_header_from [] p = (r, p')" "wait_header_from [] q = (r2, q')"
      using True wq p' q' by (simp_all add: read_header_def)
    from wait_header_from_stream [OF assms(1,2) n this(1)] wait_header_from_stream [OF assms(3) cq n this(2)]
    show ?thesis using eq by (auto split: option.splits)
  qed
  then show "fst (read_header p) = fst (read_header q)" "flat (snd (read_header p)) = flat (snd (read_header q))"
    "wf_stream (snd (read_header p))"
    by (simp_all add: p' q' flat_eq_iff)
qed

section \<open>Processing does not look at the stream\<close>

lemma emit_with_stream [simp]: "emit a (with_stream s p) = with_stream s (emit a p)"
  by (cases p) (simp add: emit_def with_stream_def)

lemma errors_with_stream [simp]:
  "invalid r (with_stream s p) = with_stream s (invalid r p)"
  "gibberish r (with_stream s p) = with_stream s (gibberish r p)"
  "invalid_header r (with_stream s p) = with_stream s (invalid_header r p)"
  "internal_error r (with_stream s p) = with_stream s (internal_error r p)"
  by (simp_all add: invalid_def gibberish_def invalid_header_def internal_error_def)

lemma parse_packet_header_with_stream:
  "parse_packet_header h (with_stream s p) = map_prod id (with_stream s) (parse_packet_header h p)"
  by (auto simp: parse_packet_header_def Let_def split: sum.split option.split)

lemma decipher_with_stream: "decipher env x (with_stream s p) = map_prod id (with_stream s) (decipher env x p)"
proof -
  have "(with_stream s p)\<lparr>cipher_in_decryptor := d\<rparr> = with_stream s (p\<lparr>cipher_in_decryptor := d\<rparr>)" for d
    by (cases p) (simp add: with_stream_def)
  then show ?thesis
    by (simp add: decipher_def Let_def split: sum.split option.split)
qed

lemma decrypt_with_stream: "decrypt env x n (with_stream s p) = map_prod id (with_stream s) (decrypt env x n p)"
  by (cases "decipher env x p") (simp add: decrypt_def decipher_with_stream Let_def split: sum.split)

lemma deliver_with_stream:
  "deliver_packet env i pk (with_stream s p) = map_prod id (with_stream s) (deliver_packet env i pk p)"
proof -
  have "(with_stream s p)\<lparr>input_stats := a, input_packetcount := b, receive_pending := c\<rparr> =
      with_stream s (p\<lparr>input_stats := a, input_packetcount := b, receive_pending := c\<rparr>)" for a b c
    by (cases p) (simp add: with_stream_def)
  then show ?thesis
    by (simp add: deliver_packet_def Let_def split: list.split sum.split)
qed

lemma process_data_with_stream:
  "process_data env raws i d (with_stream s p) =
     map_prod id (map_prod id (with_stream s)) (process_data env raws i d p)"
proof -
  have "(with_stream s p)\<lparr>receive_pending := c\<rparr> = with_stream s (p\<lparr>receive_pending := c\<rparr>)" for c
    by (cases p) (simp add: with_stream_def)
  then show ?thesis
    by (simp add: process_data_def Let_def deliver_with_stream split: sum.split prod.split)
qed

lemma process_payload_with_stream:
  "process_payload env raws i d (with_stream s p) =
     map_prod id (map_prod id (with_stream s)) (process_payload env raws i d p)"
proof -
  obtain r q where "decrypt env d (pi_padding_size i) p = (r, q)"
    by (cases "decrypt env d (pi_padding_size i) p")
  then show ?thesis
    by (simp add: process_payload_def decrypt_with_stream process_data_with_stream
        split: sum.split option.split py_error.split)
qed

text \<open>Therefore two protocols that agree up to the cut of the stream still do afterwards.\<close>

lemma same_stream_stream: "same_stream p q \<Longrightarrow> stream q = stream p"
  by (simp add: same_stream_def stream_def)

lemma flat_step:
  assumes "\<And>s p. f (with_stream s p) = map_prod id (with_stream s) (f p)"
    and "\<And>p. same_stream p (snd (f p))" "flat p = flat q"
  shows "fst (f p) = fst (f q)" "flat (snd (f p)) = flat (snd (f q))"
proof -
  have "f (flat r) = (fst (f r), flat (snd (f r)))" for r
    using same_stream_stream [OF assms(2) [of r]]
    by (simp add: flat_def assms(1)) (metis map_prod_simp prod.collapse id_apply)
  then show "fst (f p) = fst (f q)" "flat (snd (f p)) = flat (snd (f q))"
    using assms(3) by (metis fst_conv, metis snd_conv)
qed

lemma wf_stream_same: "same_stream p q \<Longrightarrow> wf_stream p \<Longrightarrow> wf_stream q"
  by (simp add: same_stream_def wf_stream_def)

section \<open>One iteration, and the loop\<close>

lemma read_header_closed:
  assumes "wf_stream p" "\<not> closed p" "read_header p = (r, p')"
  shows "closed p' = closed p"
proof (cases "wait_for_header p")
  case True
  have n: "first_header [] = None" by (simp add: first_header_def)
  have "wait_header_from [] p = (r, p')" using assms(3) True by (simp add: read_header_def)
  note w = wait_header_from_stream [OF assms(1,2) n this]
  show ?thesis
  proof (cases "first_header ([] @ stream p)")
    case None
    then have "with_stream [] p' = with_stream [] p" using w by simp
    then show ?thesis by (rule closed_via)
  next
    case (Some q)
    then have "with_stream [] p' = (with_stream [] p)\<lparr>wait_for_header := False\<rparr>" using w by simp
    from arg_cong [OF this, of closed] show ?thesis by simp
  qed
next
  case False
  then obtain a where "read_exact HEADER_SIZE p = (a, p')"
    using assms(3) by (auto simp: read_header_def split: prod.splits)
  from read_exact_stream(4) [OF assms(1,2) this] show ?thesis by (rule closed_via)
qed

lemma wf_stream_emits [simp]:
  "wf_stream p \<Longrightarrow> wf_stream (emit a p)" "wf_stream p \<Longrightarrow> wf_stream (invalid_header r p)"
  by (rule wf_stream_same [OF same_stream_emits(1)], assumption,
      rule wf_stream_same [OF same_stream_emits(4)], assumption)

definition agree :: "'a \<times> 'c proto \<Rightarrow> 'a \<times> 'c proto \<Rightarrow> bool" where
  "agree x y \<longleftrightarrow> fst x = fst y \<and> flat (snd x) = flat (snd y) \<and> wf_stream (snd x) \<and> wf_stream (snd y)"

lemma agree_emit:
  "flat p = flat q \<Longrightarrow> wf_stream p \<Longrightarrow> wf_stream q \<Longrightarrow> agree (r, emit a p) (r, emit a q)"
  using flat_step [of "\<lambda>p. ((), emit a p)" p q]
  by (simp add: agree_def)

lemma agree_invalid_header:
  "flat p = flat q \<Longrightarrow> wf_stream p \<Longrightarrow> wf_stream q \<Longrightarrow> agree (r, invalid_header a p) (r, invalid_header a q)"
  using flat_step [of "\<lambda>p. ((), invalid_header a p)" p q]
  by (simp add: agree_def)

lemma agree_step:
  assumes "\<And>s p. f (with_stream s p) = map_prod id (with_stream s) (f p)"
    and "\<And>p. same_stream p (snd (f p))" "flat p = flat q" "wf_stream p" "wf_stream q"
  shows "agree (f p) (f q)"
  using flat_step [of f, OF assms(1-3)] wf_stream_same [OF assms(2)] assms(4,5) by (simp add: agree_def)

lemma closed_flat: "flat p = flat q \<Longrightarrow> closed p = closed q"
  by (metis flat_def with_stream_fields(1))

lemma agree_read_exact:
  assumes "wf_stream p" "wf_stream q" "flat p = flat q" "\<not> closed p"
  shows "agree (read_exact n p) (read_exact n q)"
proof -
  obtain r p' where p': "read_exact n p = (r, p')" by (cases "read_exact n p")
  obtain r2 q' where q': "read_exact n q = (r2, q')" by (cases "read_exact n q")
  have "\<not> closed q" using assms(3,4) closed_flat by blast
  from read_exact_stream [OF assms(1,4) p'] read_exact_stream [OF assms(2) this q'] assms(3)
  show ?thesis by (simp add: agree_def p' q' flat_eq_iff)
qed

lemma agree_read_payload:
  assumes "wf_stream p" "wf_stream q" "flat p = flat q" "\<not> closed p"
  shows "agree (read_payload env raws i p) (read_payload env raws i q)"
proof -
  obtain r p1 where p1: "read_exact (pi_payload_size i) p = (r, p1)" by (cases "read_exact (pi_payload_size i) p")
  obtain r' q1 where q1: "read_exact (pi_payload_size i) q = (r', q1)" by (cases "read_exact (pi_payload_size i) q")
  have a: "r' = r" "flat p1 = flat q1" "wf_stream p1" "wf_stream q1"
    using agree_read_exact [OF assms, of "pi_payload_size i"] by (simp_all add: agree_def p1 q1)
  show ?thesis
  proof (cases r)
    case None
    then show ?thesis
      using agree_emit [OF a(2-4)] by (simp add: read_payload_def p1 q1 a(1))
  next
    case (Some d)
    let ?f = "\<lambda>p. case process_payload env raws i d p of (x, rs, p2) \<Rightarrow> ((x, rs), p2)"
    have "agree (?f p1) (?f q1)"
    proof (rule agree_step [OF _ _ a(2-4)])
      show "?f (with_stream s p) = map_prod id (with_stream s) (?f p)" for s p
        by (simp add: process_payload_with_stream split: prod.split)
      show "same_stream p (snd (?f p))" for p
        using same_stream_process_payload [of p env raws i d] by (cases "process_payload env raws i d p") simp
    qed
    then show ?thesis
      by (auto simp: read_payload_def p1 q1 a(1) Some agree_def split: prod.splits sum.splits bool.splits)
  qed
qed

lemma agree_read_one:
  assumes "wf_stream p" "wf_stream q" "flat p = flat q" "\<not> closed p"
  shows "agree (read_one env raws p) (read_one env raws q)"
proof -
  obtain r p1 where p1: "read_header p = (r, p1)" by (cases "read_header p")
  obtain r' q1 where q1: "read_header q = (r', q1)" by (cases "read_header q")
  have "\<not> closed q" using assms(3,4) closed_flat by blast
  then have "r' = r" "flat p1 = flat q1" "wf_stream p1" "wf_stream q1"
    using read_header_stream [OF assms(1,4,2,3)] read_header_stream(3) [OF assms(2) _ assms(1) assms(3) [symmetric]]
    by (simp_all add: p1 q1)
  note a = this
  show ?thesis
  proof (cases r)
    case (Inl e)
    then show ?thesis using a by (simp add: read_one_def p1 q1 agree_def)
  next
    case (Inr ho)
    show ?thesis
    proof (cases ho)
      case None
      then show ?thesis using Inr agree_emit [OF a(2-4)] by (simp add: read_one_def p1 q1 a(1))
    next
      case (Some h)
      have op1: "\<not> closed p1"
      proof -
        have "closed p1 = closed p"
          using assms(1,4) p1 read_header_closed by fastforce
        then show ?thesis using assms(4) by simp
      qed
      obtain x p2 where p2: "parse_packet_header h p1 = (x, p2)" by (cases "parse_packet_header h p1")
      obtain y q2 where q2: "parse_packet_header h q1 = (y, q2)" by (cases "parse_packet_header h q1")
      have b: "y = x" "flat p2 = flat q2" "wf_stream p2" "wf_stream q2"
        using agree_step [where f = "parse_packet_header h",
          OF parse_packet_header_with_stream same_stream_parse_packet_header a(2-4)]
        by (simp_all add: agree_def p2 q2)
      have op2: "\<not> closed p2"
        using same_stream_parse_packet_header [of p1 h] op1 by (simp add: p2 same_stream_def)
      show ?thesis
        using Inr Some b agree_invalid_header [OF a(2-4)] agree_read_payload [OF b(3,4,2) op2]
        by (auto simp: read_one_def p1 q1 a(1) p2 q2 agree_def split: sum.splits option.splits)
    qed
  qed
qed

lemma agree_read_parse_loop:
  assumes "wf_stream p" "wf_stream q" "flat p = flat q"
  shows "agree (read_parse_loop env raws p) (read_parse_loop env raws q)"
  using assms
proof (induction env raws p arbitrary: q rule: read_parse_loop.induct)
  case (1 env raws p)
  have cq: "closed q = closed p" using closed_flat [OF "1.prems"(3)] by simp
  show ?case
  proof (cases "closed p")
    case True
    with cq "1.prems" show ?thesis
      by (simp add: read_parse_loop.simps [of env raws p] read_parse_loop.simps [of env raws q] agree_def)
  next
    case False
    obtain x p1 where p1: "read_one env raws p = (x, p1)" by (cases "read_one env raws p")
    obtain y q1 where q1: "read_one env raws q = (y, q1)" by (cases "read_one env raws q")
    have a: "y = x" "flat p1 = flat q1" "wf_stream p1" "wf_stream q1"
      using agree_read_one [OF "1.prems" False, of env raws] by (simp_all add: agree_def p1 q1)
    show ?thesis
    proof (cases x)
      case (Return r)
      with a False cq p1 q1 show ?thesis
        by (simp add: read_parse_loop.simps [of env raws p] read_parse_loop.simps [of env raws q] agree_def)
    next
      case (Continue raws')
      from "1.IH" [OF False p1 [symmetric] Continue a(3,4,2)] Continue a(1) False cq p1 q1
      show ?thesis
        by (simp add: read_parse_loop.simps [of env raws p] read_parse_loop.simps [of env raws q])
    qed
  qed
qed

section \<open>A small protocol to evaluate\<close>

definition ping_serialiser :: serialiser where
  "ping_serialiser = \<lparr>s_version = ''1'', s_dumps = (\<lambda>_. Inr [1, 2, 3]), s_loads = (\<lambda>_. Inr (PList [PStr [112]]))\<rparr>"

definition null_backend :: "unit backend" where
  "null_backend = \<lparr>kdf_derive = (\<lambda>_ _ _ _ k. k), new_encryptor = (\<lambda>_ _ _. Inr ()), new_decryptor = (\<lambda>_ _ _. Inr ()),
     ctx_update = (\<lambda>c x. Inr (x, c)), ctx_finalize = (\<lambda>_. Inr [])\<rparr>"

definition ping_env :: "unit env" where
  "ping_env = \<lparr>env_encoders = [''rencodeplus'' \<mapsto> init_rencodeplus ping_serialiser],
     env_compressions = Map.empty, env_backend = null_backend, env_str = (\<lambda>_. []), env_utf8 = map word_of_int,
     env_compress = Compressible_compress, env_chunk_header = make_xpra_header, env_frame_header = noframe_header\<rparr>"

definition ping_proto :: "bytes list \<Rightarrow> unit proto" where
  "ping_proto segs =
     \<lparr>connection = Some \<lparr>segments = segs, written = [], accepts = [], socktype = ''tcp'', conn_error = 0,
        conn_active = True, nodelay = False, cork = False\<rparr>,
      closed = False, exit_error = 0, pre_read = [], read_buffer_size = 65536, hangup_delay = 1000,
      input_stats = Map.empty, input_packetcount = 0, input_raw_packetcount = 0,
      output_stats = Map.empty, output_packetcount = 0, output_raw_packetcount = 0,
      max_packet_size = MAX_PACKET_SIZE, abs_max_packet_size = 256 * 1024 * 1024, large_packets = [],
      encoder = ''rencodeplus'', encode_fn = Some (e_encode (init_rencodeplus ping_serialiser)),
      compressor = ''none'', compress_fn = Some (c_compress init_none), compression_level = 0, chunks = True,
      cipher_in_name = [], cipher_in_block_size = 0, cipher_in_padding = INITIAL_PADDING,
      cipher_in_always_pad = False, cipher_in_stream = True, cipher_in_key = [], cipher_in_decryptor = None,
      cipher_out_name = [], cipher_out_block_size = 0, cipher_out_padding = INITIAL_PADDING,
      cipher_out_always_pad = False, cipher_out_stream = True, cipher_out_key = [], cipher_out_encryptor = None,
      receive_pending = False, wait_for_header = False, write_queue = [], write_thread = False,
      source_has_more = False, actions = []\<rparr>"

section \<open>The property\<close>

text \<open>
  C2: the parse thread does not depend on how the transport cuts the stream. For two protocols
  that agree on everything but the pieces in which the same unread bytes arrive, whether or not
  they first have to find a header in garbage, the loop returns the same result or raises the
  same exception, and leaves states that again agree: the same packets delivered in the same
  order, the same errors reported, the same cipher state, statistics and unread bytes.
\<close>

theorem receive_any_segmentation:
  assumes "wf_stream p" "wf_stream q" "flat p = flat q"
  shows "fst (do_read_parse_thread_loop env p) = fst (do_read_parse_thread_loop env q) \<and>
    flat (snd (do_read_parse_thread_loop env p)) = flat (snd (do_read_parse_thread_loop env q)) \<and>
    actions (snd (do_read_parse_thread_loop env p)) = actions (snd (do_read_parse_thread_loop env q))"
proof -
  have a: "agree (do_read_parse_thread_loop env p) (do_read_parse_thread_loop env q)"
    unfolding do_read_parse_thread_loop_def by (rule agree_read_parse_loop [OF assms])
  have "actions x = actions y" if "flat x = flat y" for x y :: "'a proto"
    using arg_cong [OF that, of actions] by (simp only: flat_def with_stream_fields)
  then have "actions (snd (do_read_parse_thread_loop env p)) = actions (snd (do_read_parse_thread_loop env q))"
    using a unfolding agree_def by blast
  then show ?thesis using a unfolding agree_def by blast
qed

theorem receive_any_segmentation_witness:
  "actions (snd (do_read_parse_thread_loop ping_env (ping_proto [[80, 16, 0], [0, 0, 0, 0, 3, 7], [8, 9]]))) =
   actions (snd (do_read_parse_thread_loop ping_env (ping_proto [[80, 16, 0, 0, 0, 0, 0, 3, 7, 8, 9]])))"
proof -
  let ?p = "ping_proto [[80, 16, 0], [0, 0, 0, 0, 3, 7], [8, 9]]"
  let ?q = "ping_proto [[80, 16, 0, 0, 0, 0, 0, 3, 7, 8, 9]]"
  have "wf_stream ?p" "wf_stream ?q" by (simp_all add: wf_stream_def ping_proto_def)
  moreover have "flat ?p = flat ?q"
    by (simp add: flat_def with_stream_def stream_def ping_proto_def)
  ultimately show ?thesis
    by (rule receive_any_segmentation [THEN conjunct2, THEN conjunct2])
qed

end
