(* ===== verification/SocketWire.thy ===== *)
theory SocketWire
  imports SocketSend SocketStream
begin

text \<open>
  Both halves of \<^verbatim>\<open>SocketProtocol\<close> together: what one end sends is what the other end delivers.
  First the cipher, then one chunk, then a packet, then any number of packets.
\<close>

section \<open>The two ends' ciphers\<close>

text \<open>
  The documented behaviour of the backend's contexts for one mode: with any key and a 16 byte iv
  an encryptor and a decryptor can be made that are in step; contexts in step stay so, the
  decryptor undoing what the encryptor did, for any whole number of blocks; nothing is left for
  \<open>finalize\<close>. \<open>sync\<close> is the backend's own relation of being in step.
\<close>

definition cipher_contract :: "'c backend \<Rightarrow> string \<Rightarrow> ('c \<Rightarrow> 'c \<Rightarrow> bool) \<Rightarrow> bool" where
  "cipher_contract be mode sync \<longleftrightarrow>
     (\<forall>key iv. length iv = 16 \<longrightarrow>
        (\<exists>E D. new_encryptor be key iv mode = Inr E \<and> new_decryptor be key iv mode = Inr D \<and> sync E D)) \<and>
     (\<forall>E D x. sync E D \<longrightarrow> (get_block_size mode = 0 \<or> length x mod get_block_size mode = 0) \<longrightarrow>
        (\<exists>y E' D'. ctx_update be E x = Inr (y, E') \<and> length y = length x \<and>
           ctx_update be D y = Inr (x, D') \<and> sync E' D')) \<and>
     (\<forall>E D. sync E D \<longrightarrow> ctx_finalize be E = Inr [] \<and> ctx_finalize be D = Inr [])"

lemma cipher_contractD:
  assumes "cipher_contract be mode sync"
  shows "length iv = 16 \<Longrightarrow>
      \<exists>E D. new_encryptor be key iv mode = Inr E \<and> new_decryptor be key iv mode = Inr D \<and> sync E D"
    and "sync E D \<Longrightarrow> get_block_size mode = 0 \<or> length x mod get_block_size mode = 0 \<Longrightarrow>
      \<exists>y E' D'. ctx_update be E x = Inr (y, E') \<and> length y = length x \<and> ctx_update be D y = Inr (x, D') \<and> sync E' D'"
    and "sync E D \<Longrightarrow> ctx_finalize be E = Inr [] \<and> ctx_finalize be D = Inr []"
  subgoal by (rule assms [unfolded cipher_contract_def, THEN conjunct1, THEN spec, THEN spec, THEN mp])
  subgoal by (rule assms [unfolded cipher_contract_def, THEN conjunct2, THEN conjunct1,
        THEN spec, THEN spec, THEN spec, THEN mp, THEN mp])
  subgoal by (rule assms [unfolded cipher_contract_def, THEN conjunct2, THEN conjunct2, THEN spec, THEN spec, THEN mp])
  done

text \<open>The receiving end \<open>q\<close> is set up for what the sending end \<open>p\<close> does.\<close>

definition linked :: "'c backend \<Rightarrow> ('c \<Rightarrow> 'c \<Rightarrow> bool) \<Rightarrow> 'c proto \<Rightarrow> 'c proto \<Rightarrow> bool" where
  "linked be sync p q \<longleftrightarrow>
     cipher_in_name q = cipher_out_name p \<and>
     (cipher_out_name p \<noteq> '''' \<longrightarrow>
       (\<exists>mode. get_mode (cipher_out_name p) = Inr mode \<and> cipher_contract be mode sync \<and>
          cipher_out_block_size p = get_block_size mode \<and> cipher_in_block_size q = get_block_size mode \<and>
          cipher_out_padding p = PADDING_PKCS7 \<and> cipher_in_padding q = PADDING_PKCS7 \<and>
          cipher_in_stream q = cipher_out_stream p \<and> cipher_in_key q = cipher_out_key p \<and>
          (cipher_out_stream p \<longrightarrow>
            (\<exists>E D. cipher_out_encryptor p = Some E \<and> cipher_in_decryptor q = Some D \<and> sync E D))))"

definition chunk_bytes :: "pval \<Rightarrow> bytes option" where
  "chunk_bytes v = (case v of PBytes b \<Rightarrow> Some b | PBuffer b \<Rightarrow> Some b | _ \<Rightarrow> None)"

lemma chunk_bytes_Some:
  assumes "chunk_bytes v = Some b"
  shows "memoryview_to_bytes env v = b" "py_len v = Inr (length b)" "py_bool v \<longleftrightarrow> b \<noteq> []"
  using assms by (auto simp: chunk_bytes_def memoryview_to_bytes_def py_bool_def split: pval.splits)

lemma padded_block:
  "get_block_size mode = 0 \<or>
   length (b @ replicate (padding_for (get_block_size mode) ap (length b)) w) mod get_block_size mode = 0"
  using padding_for_block [of "get_block_size mode" "length b" ap]
  by (cases "get_block_size mode = 0") simp_all

lemma ends_with_padding: "ends_with (b @ replicate k w) (replicate k w)"
  by (simp add: ends_with_def)

lemma padding_le_16: "padding_for (get_block_size mode) ap n \<le> 16"
  using padding_for_bounds [of "get_block_size mode" ap n]
  by (cases "get_block_size mode = 0") (auto simp: padding_for_def get_block_size_def)

lemma pad_bytes:
  "(if k = 0 then Inr b else ebind (pad PADDING_PKCS7 (int k)) (\<lambda>t. Inr (b @ t))) =
   (Inr (b @ replicate k (word_of_nat k)) :: bytes result)" if "k \<le> 16"
  using pad_small [OF that] by simp

lemma unpad_bytes:
  assumes "k \<le> 16" "cipher_in_padding p = PADDING_PKCS7"
    and "decipher env x q = (Inr (b @ replicate k (word_of_nat k)), p)"
  shows "decrypt env x k q = (Inr b, p)"
  using assms pad_small [OF assms(1)] ends_with_padding [of b k "word_of_nat k"]
  by (simp add: decrypt_def)

text \<open>Decryption undoes encryption, padding included, and the two ends stay in step.\<close>

lemma encrypt_decrypt:
  assumes l: "linked (env_backend env) sync p q" and name: "cipher_out_name p \<noteq> ''''"
    and data: "chunk_bytes data = Some b" and iv: "length iv = 16"
  shows "\<exists>payload sz p' d'. encrypt env iv data p = Inr ((payload, sz), p') \<and> length b \<le> sz \<and> sz \<le> length b + 16 \<and>
    length payload = sz + padding_for (cipher_in_block_size q) (cipher_in_always_pad q) sz \<and>
    decrypt env payload (padding_for (cipher_in_block_size q) (cipher_in_always_pad q) sz) q =
      (Inr b, q\<lparr>cipher_in_decryptor := d'\<rparr>) \<and>
    linked (env_backend env) sync p' (q\<lparr>cipher_in_decryptor := d'\<rparr>) \<and>
    p' = p\<lparr>cipher_out_encryptor := cipher_out_encryptor p'\<rparr>"
proof -
  let ?be = "env_backend env"
  obtain mode where mode: "get_mode (cipher_out_name p) = Inr mode" and con: "cipher_contract ?be mode sync"
    and bs: "cipher_out_block_size p = get_block_size mode" "cipher_in_block_size q = get_block_size mode"
    and pads: "cipher_out_padding p = PADDING_PKCS7" "cipher_in_padding q = PADDING_PKCS7"
    and same: "cipher_in_stream q = cipher_out_stream p" "cipher_in_key q = cipher_out_key p"
      "cipher_in_name q = cipher_out_name p"
    and ctx: "cipher_out_stream p \<Longrightarrow>
      \<exists>E D. cipher_out_encryptor p = Some E \<and> cipher_in_decryptor q = Some D \<and> sync E D"
    using l name by (auto simp: linked_def)
  define k where "k = padding_for (get_block_size mode) (cipher_out_always_pad p) (length b)"
  define padded where "padded = b @ replicate k (word_of_nat k)"
  have k: "k \<le> 16" unfolding k_def by (rule padding_le_16)
  have kq: "padding_for (get_block_size mode) (cipher_in_always_pad q) (length b) = k"
    "padding_for (get_block_size mode) (cipher_in_always_pad q) (length b + 16) = k"
    unfolding k_def padding_for_iv by (metis padding_for_always_pad)+
  have block: "get_block_size mode = 0 \<or> length padded mod get_block_size mode = 0"
    unfolding padded_def k_def by (rule padded_block)
  note d = chunk_bytes_Some [OF data]
  have pad: "(if k = 0 then Inr b else ebind (pad (cipher_out_padding p) (int k)) (\<lambda>t. Inr (b @ t))) = Inr padded"
    unfolding pads padded_def by (rule pad_bytes [OF k])
  have upd: "\<exists>y E' D'. ctx_update ?be E padded = Inr (y, E') \<and> length y = length padded \<and>
      ctx_update ?be D y = Inr (padded, D') \<and> sync E' D'" if "sync E D" for E D
    by (rule cipher_contractD(2) [OF con that block])
  show ?thesis
  proof (cases "cipher_out_stream p")
    case True
    then obtain E D where ED: "cipher_out_encryptor p = Some E" "cipher_in_decryptor q = Some D" "sync E D"
      using ctx by blast
    obtain y E' D' where y: "ctx_update ?be E padded = Inr (y, E')" "length y = length padded"
        "ctx_update ?be D y = Inr (padded, D')" "sync E' D'"
      using upd [OF ED(3)] by blast
    have "encrypt env iv data p = Inr ((y, length b), p\<lparr>cipher_out_encryptor := Some E'\<rparr>)"
      using pad y(1) by (simp add: encrypt_def d bs(1) k_def [symmetric] name True ED(1))
    moreover have "decipher env y q = (Inr padded, q\<lparr>cipher_in_decryptor := Some D'\<rparr>)"
      using mode y(3) by (simp add: decipher_def same True ED(2))
    then have "decrypt env y k q = (Inr b, q\<lparr>cipher_in_decryptor := Some D'\<rparr>)"
      unfolding padded_def by (intro unpad_bytes [OF k]) (simp_all add: pads)
    moreover have "linked ?be sync (p\<lparr>cipher_out_encryptor := Some E'\<rparr>) (q\<lparr>cipher_in_decryptor := Some D'\<rparr>)"
      using mode con bs pads same y(4) by (simp add: linked_def)
    ultimately show ?thesis
      using y(2) bs(2) kq(1) by (intro exI [of _ y] exI [of _ "length b"] exI
          [of _ "p\<lparr>cipher_out_encryptor := Some E'\<rparr>"] exI [of _ "Some D'"]) (simp add: padded_def)
  next
    case False
    obtain E D where ED: "new_encryptor ?be (cipher_out_key p) iv mode = Inr E"
        "new_decryptor ?be (cipher_out_key p) iv mode = Inr D" "sync E D"
      using cipher_contractD(1) [OF con iv] by blast
    obtain y E' D' where y: "ctx_update ?be E padded = Inr (y, E')" "length y = length padded"
        "ctx_update ?be D y = Inr (padded, D')" "sync E' D'"
      using upd [OF ED(3)] by blast
    have fin: "ctx_finalize ?be E' = Inr []" "ctx_finalize ?be D' = Inr []"
      using cipher_contractD(3) [OF con y(4)] by simp_all
    have iv0: "iv \<noteq> []" using iv by auto
    have "encrypt env iv data p = Inr ((iv @ y @ [], length b + 16), p)"
      using pad y(1) fin(1) mode ED(1) iv iv0
      by (simp add: encrypt_def d bs(1) k_def [symmetric] name False get_encryptor_def)
    moreover have "decipher env (iv @ y) q = (Inr padded, q\<lparr>cipher_in_decryptor := cipher_in_decryptor q\<rparr>)"
      using mode y(3) fin(2) ED(2) iv iv0 by (simp add: decipher_def same False get_decryptor_def)
    then have "decrypt env (iv @ y) k q = (Inr b, q\<lparr>cipher_in_decryptor := cipher_in_decryptor q\<rparr>)"
      unfolding padded_def by (intro unpad_bytes [OF k]) (simp_all add: pads)
    ultimately show ?thesis
      using y(2) bs(2) kq(2) iv l by (intro exI [of _ "iv @ y"] exI [of _ "length b + 16"] exI [of _ p]
          exI [of _ "cipher_in_decryptor q"]) (simp add: padded_def)
  qed
qed

section \<open>The flags of a chunk on the wire\<close>

definition wire_flags :: "bool \<Rightarrow> bool \<Rightarrow> int \<Rightarrow> int \<Rightarrow> int" where
  "wire_flags cipher more_packets index fl =
     (let fl1 = (if cipher then fl OR FLAGS_CIPHER else fl)
      in if index = 0 \<and> \<not> more_packets then fl1 OR FLAGS_FLUSH else fl1)"

definition chunk_flags_ok :: "int \<Rightarrow> int \<Rightarrow> bool" where
  "chunk_flags_ok index fl \<longleftrightarrow> (if index = 0 then fl = FLAGS_RENCODEPLUS \<or> fl = FLAGS_YAML else fl = 0)"

definition wire_flags_good :: "bool \<Rightarrow> bool \<Rightarrow> int \<Rightarrow> int \<Rightarrow> bool" where
  "wire_flags_good cipher m i fl \<longleftrightarrow>
     flags_ok (wire_flags cipher m i fl) i \<and> in_range (wire_flags cipher m i fl) 256 \<and>
     ((wire_flags cipher m i fl AND FLAGS_CIPHER = 0) = (\<not> cipher)) \<and>
     (i \<noteq> 0 \<or> (wire_flags cipher m i fl AND FLAGS_FLUSH = 0) = m) \<and>
     (if cipher then fl OR FLAGS_CIPHER else fl) AND FLAGS_NOHEADER = 0 \<and>
     get_packet_encoding_type (wire_flags cipher m i fl) = get_packet_encoding_type fl"

lemma wire_flags_table:
  "list_all (\<lambda>cipher. list_all (\<lambda>m.
     wire_flags_good cipher m 0 FLAGS_RENCODEPLUS \<and> wire_flags_good cipher m 0 FLAGS_YAML \<and>
     wire_flags_good cipher m 1 0) [True, False]) [True, False]"
  by code_simp

lemma wire_flags_good: "chunk_flags_ok i fl \<Longrightarrow> wire_flags_good cipher m i fl"
proof (cases "i = 0")
  case True
  assume "chunk_flags_ok i fl"
  with True have "fl = FLAGS_RENCODEPLUS \<or> fl = FLAGS_YAML" by (simp add: chunk_flags_ok_def)
  then show ?thesis
    using wire_flags_table True by (cases cipher; cases m) auto
next
  case False
  assume "chunk_flags_ok i fl"
  with False have "fl = 0" by (simp add: chunk_flags_ok_def)
  moreover have "wire_flags_good cipher m 1 0"
    using wire_flags_table by (cases cipher; cases m) auto
  moreover have "wire_flags cipher m i 0 = wire_flags cipher m 1 0" "flags_ok f i = flags_ok f 1" for f
    using False flags_ok_raw [OF False, of f] by (simp_all add: wire_flags_def)
  ultimately show ?thesis using False by (simp add: wire_flags_good_def)
qed

lemma wire_flags_ok:
  assumes "chunk_flags_ok i fl"
  shows "flags_ok (wire_flags cipher m i fl) i" "in_range (wire_flags cipher m i fl) 256"
    "wire_flags cipher m i fl AND FLAGS_CIPHER = 0 \<longleftrightarrow> \<not> cipher"
    "fl AND FLAGS_NOHEADER = 0" "(fl OR FLAGS_CIPHER) AND FLAGS_NOHEADER = 0"
    "i = 0 \<Longrightarrow> wire_flags cipher m i fl AND FLAGS_FLUSH = 0 \<longleftrightarrow> m"
    "get_packet_encoding_type (wire_flags cipher m i fl) = get_packet_encoding_type fl"
  using wire_flags_good [OF assms, of cipher m] wire_flags_good [OF assms, of True m]
    wire_flags_good [OF assms, of False m]
  by (simp_all add: wire_flags_good_def)

section \<open>One chunk\<close>

text \<open>
  A chunk the receiver can take: real data within the size limit (an iv and a block of padding
  included), flags as the encoders set them, a compression byte its libraries undo. \<open>opened\<close> is
  the data after decompression.
\<close>

definition opened :: "'c env \<Rightarrow> netpacket \<Rightarrow> bytes option" where
  "opened env c =
     (case c of (fl, i, lvl, data) \<Rightarrow>
        (case chunk_bytes data of
           None \<Rightarrow> None
         | Some b \<Rightarrow>
             if lvl > 0 then (case decompress (env_compressions env) b lvl of Inr d \<Rightarrow> Some d | Inl _ \<Rightarrow> None)
             else Some b))"

definition sendable :: "'c env \<Rightarrow> int \<Rightarrow> netpacket \<Rightarrow> bool" where
  "sendable env limit c \<longleftrightarrow>
     (case c of (fl, i, lvl, data) \<Rightarrow>
        (case chunk_bytes data of None \<Rightarrow> False | Some b \<Rightarrow> b \<noteq> [] \<and> int (length b) + 32 \<le> limit) \<and>
        chunk_flags_ok i fl \<and> 0 \<le> i \<and> i < 16 \<and>
        in_range lvl 256 \<and> validate_compression lvl = None \<and> opened env c \<noteq> None)"

text \<open>The receiver between two chunks.\<close>

definition receiving :: "'c proto \<Rightarrow> bool" where
  "receiving q \<longleftrightarrow> wf_stream q \<and> \<not> closed q \<and> \<not> wait_for_header q \<and>
     max_packet_size q \<le> abs_max_packet_size q \<and> max_packet_size q < 2 ^ 32"

text \<open>What a chunk looks like on the wire.\<close>

definition chunk_frame :: "bool \<Rightarrow> netpacket \<Rightarrow> bool \<Rightarrow> nat \<Rightarrow> bytes \<Rightarrow> bytes \<Rightarrow> bool" where
  "chunk_frame cipher c m sz payload w \<longleftrightarrow>
     (case c of (fl, i, lvl, data) \<Rightarrow>
        \<exists>hdr. pack_header (wire_flags cipher m i fl) lvl i (int sz) = Inr hdr \<and> w = hdr @ payload)"

lemma chunk_items_plain:
  assumes "cipher_out_name p = ''''" "sendable env limit c" "limit < 2 ^ 32" "env_chunk_header env = make_xpra_header"
  shows "\<exists>items b. chunk_items env iv m c p = Inr (items, p) \<and> chunk_bytes (snd (snd (snd c))) = Some b \<and>
    chunk_frame False c m (length b) b (concat items)"
proof -
  obtain fl i lvl data where c: "c = (fl, i, lvl, data)" by (cases c)
  obtain b where b: "chunk_bytes data = Some b" "b \<noteq> []" "int (length b) + 32 \<le> limit"
    using assms(2) by (auto simp: sendable_def c split: option.splits)
  have ok: "chunk_flags_ok i fl" "in_range i 256" "in_range lvl 256"
    using assms(2) by (auto simp: sendable_def c in_range_def)
  note w = wire_flags_ok [OF ok(1)]
  have "in_range (int (length b)) (2 ^ 32)" using b(3) assms(3) by (simp add: in_range_def)
  then obtain hdr where h: "pack_header (wire_flags False m i fl) lvl i (int (length b)) = Inr hdr"
    using pack_header_Inr_iff [of "wire_flags False m i fl" lvl i "int (length b)"] w(2) ok by auto
  have "chunk_items env iv m c p =
      Inr (if length b < PACKET_JOIN_SIZE then [hdr @ b] else [hdr, b], p)"
    using h w(4) chunk_bytes_Some(1) [OF b(1), of env] chunk_bytes_Some(2,3) [OF b(1)] b(2)
    by (simp add: chunk_items_def c assms(1,4) make_xpra_header_def wire_flags_def Let_def)
  then show ?thesis
    using h b(1) by (auto simp: chunk_frame_def c)
qed

lemma chunk_items_cipher:
  assumes "linked (env_backend env) sync p q" "cipher_out_name p \<noteq> ''''" "length iv = 16"
    and "sendable env limit c" "limit < 2 ^ 32" "env_chunk_header env = make_xpra_header"
  shows "\<exists>items b payload sz p' d'. chunk_items env iv m c p = Inr (items, p') \<and>
    chunk_bytes (snd (snd (snd c))) = Some b \<and>
    chunk_frame True c m sz payload (concat items) \<and> length b \<le> sz \<and> sz \<le> length b + 16 \<and>
    length payload = sz + padding_for (cipher_in_block_size q) (cipher_in_always_pad q) sz \<and>
    decrypt env payload (padding_for (cipher_in_block_size q) (cipher_in_always_pad q) sz) q =
      (Inr b, q\<lparr>cipher_in_decryptor := d'\<rparr>) \<and>
    linked (env_backend env) sync p' (q\<lparr>cipher_in_decryptor := d'\<rparr>) \<and>
    p' = p\<lparr>cipher_out_encryptor := cipher_out_encryptor p'\<rparr>"
proof -
  obtain fl i lvl data where c: "c = (fl, i, lvl, data)" by (cases c)
  obtain b where b: "chunk_bytes data = Some b" "b \<noteq> []" "int (length b) + 32 \<le> limit"
    using assms(4) by (auto simp: sendable_def c split: option.splits)
  have ok: "chunk_flags_ok i fl" "in_range i 256" "in_range lvl 256"
    using assms(4) by (auto simp: sendable_def c in_range_def)
  note w = wire_flags_ok [OF ok(1)]
  obtain payload sz p' d' where e: "encrypt env iv data p = Inr ((payload, sz), p')"
    and sz: "length b \<le> sz" "sz \<le> length b + 16"
    and rest: "length payload = sz + padding_for (cipher_in_block_size q) (cipher_in_always_pad q) sz"
      "decrypt env payload (padding_for (cipher_in_block_size q) (cipher_in_always_pad q) sz) q =
        (Inr b, q\<lparr>cipher_in_decryptor := d'\<rparr>)"
      "linked (env_backend env) sync p' (q\<lparr>cipher_in_decryptor := d'\<rparr>)"
      "p' = p\<lparr>cipher_out_encryptor := cipher_out_encryptor p'\<rparr>"
    using encrypt_decrypt [OF assms(1,2) b(1) assms(3)] by blast
  have "in_range (int sz) (2 ^ 32)" using sz b(3) assms(5) by (simp add: in_range_def)
  then obtain hdr where h: "pack_header (wire_flags True m i fl) lvl i (int sz) = Inr hdr"
    using pack_header_Inr_iff [of "wire_flags True m i fl" lvl i "int sz"] w(2) ok by auto
  have "chunk_items env iv m c p =
      Inr (if sz < PACKET_JOIN_SIZE then [hdr @ payload] else [hdr, payload], p')"
    using h w(5) chunk_bytes_Some(1) [OF b(1), of env] chunk_bytes_Some(2,3) [OF b(1)] b(2)
    by (simp add: chunk_items_def c assms(2,6) e make_xpra_header_def wire_flags_def Let_def)
  moreover have "chunk_frame True c m sz payload (concat (if sz < PACKET_JOIN_SIZE then [hdr @ payload] else [hdr, payload]))"
    using h by (simp add: chunk_frame_def c)
  moreover have "chunk_bytes (snd (snd (snd c))) = Some b" using b(1) by (simp add: c)
  ultimately show ?thesis
    using sz rest by (intro exI conjI)
qed

section \<open>Receiving one chunk\<close>

text \<open>\<open>q1\<close> is \<open>q\<close> with the unread bytes \<open>s\<close>.\<close>

definition at_stream :: "'c proto \<Rightarrow> bytes \<Rightarrow> 'c proto \<Rightarrow> bool" where
  "at_stream q s q1 \<longleftrightarrow> stream q1 = s \<and> wf_stream q1 \<and> with_stream [] q1 = with_stream [] q"

definition iter_of :: "bool result \<times> raw_packets \<times> 'c proto \<Rightarrow> iteration \<times> 'c proto" where
  "iter_of r = (case r of
     (Inl e, _, p) \<Rightarrow> (Return (Inl e), p)
   | (Inr False, _, p) \<Rightarrow> (Return (Inr ()), p)
   | (Inr True, raws, p) \<Rightarrow> (Continue raws, p))"

lemma read_payload_iter:
  "read_payload env raws pinfo p =
     (case read_exact (pi_payload_size pinfo) p of
        (None, p1) \<Rightarrow> (Return (Inr ()), emit IdleClose p1)
      | (Some payload, p1) \<Rightarrow> iter_of (process_payload env raws pinfo payload p1))"
  by (simp add: read_payload_def iter_of_def split: prod.split option.split)

lemma at_stream_fields:
  assumes "at_stream q s q1"
  shows "closed q1 = closed q" "wait_for_header q1 = wait_for_header q" "max_packet_size q1 = max_packet_size q"
    "abs_max_packet_size q1 = abs_max_packet_size q" "cipher_in_name q1 = cipher_in_name q"
    "cipher_in_block_size q1 = cipher_in_block_size q" "cipher_in_padding q1 = cipher_in_padding q"
    "cipher_in_always_pad q1 = cipher_in_always_pad q" "cipher_in_stream q1 = cipher_in_stream q"
    "cipher_in_key q1 = cipher_in_key q" "cipher_in_decryptor q1 = cipher_in_decryptor q"
    "actions q1 = actions q" "input_packetcount q1 = input_packetcount q" "receive_pending q1 = receive_pending q"
    "input_stats q1 = input_stats q"
proof -
  have e: "with_stream [] q1 = with_stream [] q" using assms by (simp add: at_stream_def)
  note f = arg_cong [OF e]
  show "closed q1 = closed q" "wait_for_header q1 = wait_for_header q" "max_packet_size q1 = max_packet_size q"
    "abs_max_packet_size q1 = abs_max_packet_size q" "cipher_in_name q1 = cipher_in_name q"
    "cipher_in_block_size q1 = cipher_in_block_size q" "cipher_in_padding q1 = cipher_in_padding q"
    "cipher_in_always_pad q1 = cipher_in_always_pad q" "cipher_in_stream q1 = cipher_in_stream q"
    "cipher_in_key q1 = cipher_in_key q" "cipher_in_decryptor q1 = cipher_in_decryptor q"
    "actions q1 = actions q" "input_packetcount q1 = input_packetcount q" "receive_pending q1 = receive_pending q"
    "input_stats q1 = input_stats q"
    using f [of closed] f [of wait_for_header] f [of max_packet_size] f [of abs_max_packet_size]
      f [of cipher_in_name] f [of cipher_in_block_size] f [of cipher_in_padding] f [of cipher_in_always_pad]
      f [of cipher_in_stream] f [of cipher_in_key] f [of cipher_in_decryptor] f [of actions]
      f [of input_packetcount] f [of receive_pending] f [of input_stats]
    by simp_all
qed

text \<open>What is left of the stream is what follows the frame.\<close>

lemma read_one_frame:
  assumes q: "receiving q" and c: "c = (fl, i, lvl, data)"
    and frame: "chunk_frame cipher c m sz payload w" and st: "stream q = w @ rest"
    and ok: "chunk_flags_ok i fl" "0 \<le> i" "i < 16" "in_range lvl 256" "validate_compression lvl = None"
    and ciph: "cipher \<longleftrightarrow> cipher_in_name q \<noteq> ''''"
    and psz: "psz = (if cipher then padding_for (cipher_in_block_size q) (cipher_in_always_pad q) sz else 0)"
    and len: "length payload = sz + psz" "payload \<noteq> []" "int (length payload) \<le> max_packet_size q"
  shows "\<exists>q1. at_stream q rest q1 \<and> read_one env raws q =
    iter_of (process_payload env raws
      \<lparr>pi_flags = wire_flags cipher m i fl, pi_level = lvl, pi_index = i, pi_data_size = sz,
       pi_padding_size = psz, pi_payload_size = length payload\<rparr> payload q1)"
proof -
  let ?f = "wire_flags cipher m i fl"
  obtain hdr where hdr: "pack_header ?f lvl i (int sz) = Inr hdr" "w = hdr @ payload"
    using frame by (auto simp: chunk_frame_def c)
  have lh: "length hdr = 8" using pack_header_length [OF hdr(1)] by (simp add: HEADER_SIZE_def)
  have un: "unpack_header hdr = Inr \<lparr>hd_char = 80, hd_flags = ?f, hd_level = lvl, hd_index = i, hd_size = int sz\<rparr>"
    using unpack_pack_header [OF hdr(1), of "[]"] by simp
  have h0: "hdr ! 0 = PACKET_HEADER_CHAR"
    using hdr(1) by (auto simp: pack_header_def PACKET_HEADER_CHAR_def split: if_splits)
  have rq: "wf_stream q" "\<not> closed q" "\<not> wait_for_header q" "max_packet_size q \<le> abs_max_packet_size q"
    using q by (simp_all add: receiving_def)
  obtain a p1 where p1: "read_exact HEADER_SIZE q = (a, p1)" by (cases "read_exact HEADER_SIZE q")
  note r1 = read_exact_stream [OF rq(1,2) p1]
  have a1: "a = Some hdr" "stream p1 = payload @ rest"
    using r1(1,2) st hdr(2) lh by (simp_all add: HEADER_SIZE_def)
  have at1: "at_stream q (payload @ rest) p1" using r1 a1 by (simp add: at_stream_def)
  note f1 = at_stream_fields [OF at1]
  have val: "validate_packet_header ?f lvl i True = None"
    using wire_flags_ok(1) [OF ok(1)] ok(5) by (simp add: validate_packet_header_None)
  have parse: "parse_packet_header hdr p1 = (Inr (Some
      \<lparr>pi_flags = ?f, pi_level = lvl, pi_index = i, pi_data_size = sz,
       pi_padding_size = psz, pi_payload_size = length payload\<rparr>), p1)"
  proof -
    have nm: "cipher_in_name q = [] \<longleftrightarrow> \<not> cipher" using ciph by simp
    have "\<not> abs_max_packet_size q < int sz" "\<not> max_packet_size q < int sz + int psz" "sz + psz \<noteq> 0"
      using len rq(4) by auto
    then show ?thesis
      using ok(3) by (simp add: parse_packet_header_def un val f1 Let_def nm
          wire_flags_ok(3) [OF ok(1), of cipher m] len(1) psz split del: if_split cong: if_cong) simp
  qed
  obtain b p2 where p2: "read_exact (length payload) p1 = (b, p2)" by (cases "read_exact (length payload) p1")
  have w1: "wf_stream p1" "\<not> closed p1" using r1(3) f1(1) rq(2) by simp_all
  note r2 = read_exact_stream [OF w1 p2]
  have "at_stream q rest p2" "b = Some payload"
    using r2 r1(4) a1(2) by (simp_all add: at_stream_def)
  moreover have "read_one env raws q = iter_of (process_payload env raws
      \<lparr>pi_flags = ?f, pi_level = lvl, pi_index = i, pi_data_size = sz,
       pi_padding_size = psz, pi_payload_size = length payload\<rparr> payload p2)"
    using \<open>b = Some payload\<close> h0 parse p2
    by (simp add: read_one_def read_header_def rq(3) p1 a1(1) read_payload_iter)
  ultimately show ?thesis by blast
qed

text \<open>The frame of a chunk the sender made reaches the processing of its data.\<close>

lemma receive_chunk:
  assumes l: "linked (env_backend env) sync p q" and q: "receiving q" and iv: "length iv = 16"
    and s: "sendable env (max_packet_size q) c" and hd: "env_chunk_header env = make_xpra_header"
  shows "\<exists>items p' d' b. chunk_items env iv m c p = Inr (items, p') \<and> opened env c = Some b \<and>
    linked (env_backend env) sync p' (q\<lparr>cipher_in_decryptor := d'\<rparr>) \<and>
    p' = p\<lparr>cipher_out_encryptor := cipher_out_encryptor p'\<rparr> \<and>
    (\<forall>rest raws. stream q = concat items @ rest \<longrightarrow>
      (\<exists>q2 pinfo. at_stream (q\<lparr>cipher_in_decryptor := d'\<rparr>) rest q2 \<and>
        read_one env raws q = iter_of (process_data env raws pinfo b q2) \<and>
        pi_index pinfo = fst (snd c) \<and>
        get_packet_encoding_type (pi_flags pinfo) = get_packet_encoding_type (fst c) \<and>
        (fst (snd c) = 0 \<longrightarrow> (pi_flags pinfo AND FLAGS_FLUSH = 0) = m)))"
proof -
  obtain fl i lvl data where c: "c = (fl, i, lvl, data)" by (cases c)
  obtain b where b: "chunk_bytes data = Some b" "b \<noteq> []" "int (length b) + 32 \<le> max_packet_size q"
    using s by (auto simp: sendable_def c split: option.splits)
  have ok: "chunk_flags_ok i fl" "0 \<le> i" "i < 16" "in_range lvl 256" "validate_compression lvl = None"
    using s by (auto simp: sendable_def c)
  obtain b' where b': "opened env c = Some b'" using s by (auto simp: sendable_def c)
  have lim: "max_packet_size q < 2 ^ 32" using q by (simp add: receiving_def)
  have open_data: "process_payload env raws pinfo payload q1 = process_data env raws pinfo b' q2"
    if "(cipher_in_name q1 = '''' \<and> payload = b \<and> q2 = q1) \<or>
        (cipher_in_name q1 \<noteq> '''' \<and> pi_flags pinfo AND FLAGS_CIPHER \<noteq> 0 \<and>
         decrypt env payload (pi_padding_size pinfo) q1 = (Inr b, q2))"
      "pi_level pinfo = lvl" for raws pinfo payload q1 q2
    using that b b' by (auto simp: process_payload_def opened_def c split: sum.splits if_splits)
  show ?thesis
  proof (cases "cipher_out_name p = ''''")
    case True
    then have n: "cipher_in_name q = ''''" using l by (simp add: linked_def)
    obtain items b1 where it: "chunk_items env iv m c p = Inr (items, p)" "chunk_bytes (snd (snd (snd c))) = Some b1"
        "chunk_frame False c m (length b1) b1 (concat items)"
      using chunk_items_plain [OF True s lim hd, of iv m] by blast
    have b1: "b1 = b" using it(2) b(1) by (simp add: c)
    have "\<exists>q2 pinfo. at_stream (q\<lparr>cipher_in_decryptor := cipher_in_decryptor q\<rparr>) rest q2 \<and>
        read_one env raws q = iter_of (process_data env raws pinfo b' q2) \<and> pi_index pinfo = i \<and>
        get_packet_encoding_type (pi_flags pinfo) = get_packet_encoding_type fl \<and>
        (i = 0 \<longrightarrow> (pi_flags pinfo AND FLAGS_FLUSH = 0) = m)"
      if st: "stream q = concat items @ rest" for rest raws
    proof -
      obtain q1 where q1: "at_stream q rest q1" "read_one env raws q = iter_of (process_payload env raws
          \<lparr>pi_flags = wire_flags False m i fl, pi_level = lvl, pi_index = i, pi_data_size = length b,
           pi_padding_size = 0, pi_payload_size = length b\<rparr> b q1)"
        using read_one_frame [OF q c it(3) st ok, of 0 env raws] n b(2,3) b1 by auto
      have "cipher_in_name q1 = ''''" using at_stream_fields(5) [OF q1(1)] n by simp
      with q1 show ?thesis
        using open_data [of q1 b q1] wire_flags_ok(6,7) [OF ok(1)] by (intro exI conjI) auto
    qed
    with it b' l show ?thesis by (intro exI [of _ items] exI [of _ p] exI [of _ "cipher_in_decryptor q"]) (simp add: c)
  next
    case False
    then have n: "cipher_in_name q \<noteq> ''''" using l by (simp add: linked_def)
    obtain items b1 payload sz p' d' where it: "chunk_items env iv m c p = Inr (items, p')"
        "chunk_bytes (snd (snd (snd c))) = Some b1" "chunk_frame True c m sz payload (concat items)"
        "length b1 \<le> sz" "sz \<le> length b1 + 16"
      and pl: "length payload = sz + padding_for (cipher_in_block_size q) (cipher_in_always_pad q) sz"
      and dec: "decrypt env payload (padding_for (cipher_in_block_size q) (cipher_in_always_pad q) sz) q =
        (Inr b1, q\<lparr>cipher_in_decryptor := d'\<rparr>)"
      and l': "linked (env_backend env) sync p' (q\<lparr>cipher_in_decryptor := d'\<rparr>)"
        "p' = p\<lparr>cipher_out_encryptor := cipher_out_encryptor p'\<rparr>"
      using chunk_items_cipher [OF l False iv s lim hd, of m] by blast
    have b1: "b1 = b" using it(2) b(1) by (simp add: c)
    define psz where "psz = padding_for (cipher_in_block_size q) (cipher_in_always_pad q) sz"
    obtain mode where "cipher_in_block_size q = get_block_size mode"
      using l False by (auto simp: linked_def)
    then have bs: "cipher_in_block_size q \<in> {0, 16}"
      using get_block_size_cases [of mode] by simp
    have p16: "psz \<le> 16"
      using bs padding_for_bounds [of "cipher_in_block_size q" "cipher_in_always_pad q" sz]
      by (auto simp: psz_def padding_for_def)
    have plen: "payload \<noteq> []" "int (length payload) \<le> max_packet_size q"
      using pl it(4,5) b(2,3) b1 p16 by (auto simp: psz_def [symmetric])
    have "\<exists>q2 pinfo. at_stream (q\<lparr>cipher_in_decryptor := d'\<rparr>) rest q2 \<and>
        read_one env raws q = iter_of (process_data env raws pinfo b' q2) \<and> pi_index pinfo = i \<and>
        get_packet_encoding_type (pi_flags pinfo) = get_packet_encoding_type fl \<and>
        (i = 0 \<longrightarrow> (pi_flags pinfo AND FLAGS_FLUSH = 0) = m)"
      if st: "stream q = concat items @ rest" for rest raws
    proof -
      let ?pinfo = "\<lparr>pi_flags = wire_flags True m i fl, pi_level = lvl, pi_index = i, pi_data_size = sz,
           pi_padding_size = psz, pi_payload_size = length payload\<rparr>"
      obtain q1 where q1: "at_stream q rest q1"
          "read_one env raws q = iter_of (process_payload env raws ?pinfo payload q1)"
        using read_one_frame [OF q c it(3) st ok, of psz env raws] n pl plen by (auto simp: psz_def)
      obtain r q2 where d1: "decrypt env payload psz q1 = (r, q2)" by (cases "decrypt env payload psz q1")
      have e: "with_stream [] q1 = with_stream [] q" using q1(1) by (simp add: at_stream_def)
      have "map_prod id (with_stream []) (decrypt env payload psz q1) =
          map_prod id (with_stream []) (decrypt env payload psz q)"
        unfolding decrypt_with_stream [symmetric] e ..
      then have r: "r = Inr b" "with_stream [] q2 = with_stream [] (q\<lparr>cipher_in_decryptor := d'\<rparr>)"
        using dec d1 by (simp_all add: psz_def b1)
      have "same_stream q1 q2" using same_stream_decrypt [of q1 env payload psz] by (simp add: d1)
      then have "at_stream (q\<lparr>cipher_in_decryptor := d'\<rparr>) rest q2"
        using q1(1) r(2) same_stream_stream wf_stream_same by (auto simp: at_stream_def)
      moreover have "cipher_in_name q1 \<noteq> ''''" using at_stream_fields(5) [OF q1(1)] n by simp
      then have "process_payload env raws ?pinfo payload q1 = process_data env raws ?pinfo b' q2"
        using wire_flags_ok(3) [OF ok(1), of True m] d1 r(1) by (intro open_data) simp_all
      ultimately show ?thesis
        using q1(2) wire_flags_ok(6,7) [OF ok(1)] by (intro exI [of _ q2] exI [of _ ?pinfo]) simp
    qed
    with it b' l' show ?thesis by (intro exI [of _ items] exI [of _ p'] exI [of _ d']) (simp add: c)
  qed
qed

section \<open>The chunks of a packet\<close>

definition one_chunk :: "int \<Rightarrow> pval \<Rightarrow> netpacket list \<Rightarrow> bool" where
  "one_chunk i y cs \<longleftrightarrow> cs = [] \<or> (\<exists>lvl d. cs = [(0, i, lvl, d)] \<and> \<not> py_bool y)"

lemma one_chunk_Nil [simp]: "one_chunk i y []"
  by (simp add: one_chunk_def)

lemma encode_large_chunk: "encode_large p i n x = Inr (y, cs, k) \<Longrightarrow> one_chunk i y cs"
  by (cases x)
    (auto simp: encode_large_def one_chunk_def py_bool_def ebind_eq_Inr split: if_splits option.splits)

lemma encode_item_chunk: "encode_item env p i x = Inr (y, cs, k) \<Longrightarrow> one_chunk i y cs"
  by (cases x) (auto simp: encode_item_def ebind_eq_Inr dest: encode_large_chunk)

definition chunk_index :: "netpacket \<Rightarrow> int" where
  "chunk_index c = fst (snd c)"

lemma encode_items_chunks:
  "encode_items env p i xs = Inr (ys, cs, n) \<Longrightarrow>
   length ys = length xs \<and> distinct (map chunk_index cs) \<and> (\<forall>c\<in>set cs. i \<le> chunk_index c)"
proof (induction xs arbitrary: i ys cs n)
  case (Cons x xs)
  obtain y cs1 n1 ys2 cs2 n2 where x: "encode_item env p i x = Inr (y, cs1, n1)"
      and xs: "encode_items env p (i + 1) xs = Inr (ys2, cs2, n2)"
      and eq: "ys = y # ys2" "cs = cs1 @ cs2"
    using Cons.prems by (auto simp: ebind_eq_Inr)
  from Cons.IH [OF xs] have ih: "length ys2 = length xs" "distinct (map chunk_index cs2)"
      "\<forall>c\<in>set cs2. i + 1 \<le> chunk_index c" by auto
  from encode_item_chunk [OF x] show ?case
    unfolding one_chunk_def
  proof (elim disjE exE conjE)
    assume "cs1 = []"
    then show ?case using ih by (auto simp: eq)
  next
    fix lvl d assume "cs1 = [(0, i, lvl, d)]"
    then have "cs = (0, i, lvl, d) # cs2" "chunk_index (0, i, lvl, d) = i"
      by (simp_all add: eq chunk_index_def)
    then show ?case using ih by (auto simp: eq(1))
  qed
qed simp

text \<open>
  What the peer gets for an item: the value the encoder put in its place or, for an item that
  travels in a chunk of its own, its data as a buffer.
\<close>

definition peer_view :: "'c env \<Rightarrow> 'c proto \<Rightarrow> int \<Rightarrow> pval \<Rightarrow> pval" where
  "peer_view env p i item =
     (case encode_item env p i item of
        Inr (y, [], _) \<Rightarrow> y
      | Inr (y, c # _, _) \<Rightarrow> PBuffer (the (opened env c))
      | Inl _ \<Rightarrow> PNone)"

fun peer_packet :: "'c env \<Rightarrow> 'c proto \<Rightarrow> int \<Rightarrow> packet \<Rightarrow> packet" where
  "peer_packet env p i [] = []"
| "peer_packet env p i (x # xs) = peer_view env p i x # peer_packet env p (i + 1) xs"

definition chunk_raw :: "'c env \<Rightarrow> netpacket \<Rightarrow> int \<times> bytes" where
  "chunk_raw env c = (chunk_index c, the (opened env c))"

lemma place_raw_encoded:
  "encode_items env p i xs = Inr (ys, cs, n) \<Longrightarrow> int (length zs) = i \<Longrightarrow>
   place_raw (map (chunk_raw env) cs) (zs @ ys) = Inr (zs @ peer_packet env p i xs)"
proof (induction xs arbitrary: i ys cs n zs)
  case (Cons x xs)
  obtain y cs1 n1 ys2 cs2 n2 where x: "encode_item env p i x = Inr (y, cs1, n1)"
      and xs: "encode_items env p (i + 1) xs = Inr (ys2, cs2, n2)"
      and eq: "ys = y # ys2" "cs = cs1 @ cs2"
    using Cons.prems by (auto simp: ebind_eq_Inr)
  have ih: "place_raw (map (chunk_raw env) cs2) ((zs @ [v]) @ ys2) = Inr ((zs @ [v]) @ peer_packet env p (i + 1) xs)" for v
    by (rule Cons.IH [OF xs]) (use Cons.prems(2) in simp)
  from encode_item_chunk [OF x] show ?case
    unfolding one_chunk_def
  proof (elim disjE exE conjE)
    assume "cs1 = []"
    then show ?case using ih [of y] x by (simp add: eq peer_view_def)
  next
    fix lvl d assume c: "cs1 = [(0, i, lvl, d)]" "\<not> py_bool y"
    have "nat i = length zs" using Cons.prems(2) by simp
    moreover have "chunk_raw env (0, i, lvl, d) = (i, the (opened env (0, i, lvl, d)))"
      by (simp add: chunk_raw_def chunk_index_def)
    ultimately show ?case
      using ih [of "PBuffer (the (opened env (0, i, lvl, d)))"] x c Cons.prems(2)
      by (simp add: eq peer_view_def)
  qed
qed simp

section \<open>Receiving the chunks of a packet\<close>

text \<open>What the relation between the two ends reads of the receiver.\<close>

lemma linked_at:
  assumes "linked be sync p (q\<lparr>cipher_in_decryptor := d\<rparr>)" "at_stream (q\<lparr>cipher_in_decryptor := d\<rparr>) s q2"
  shows "linked be sync p q2"
  using assms(1) at_stream_fields [OF assms(2)] by (simp add: linked_def)

lemma receiving_at:
  "receiving q \<Longrightarrow> at_stream (q\<lparr>cipher_in_decryptor := d\<rparr>) s q2 \<Longrightarrow> receiving q2"
  using at_stream_fields [of "q\<lparr>cipher_in_decryptor := d\<rparr>" s q2] by (simp add: receiving_def at_stream_def)

lemma receiving_decryptor: "receiving q \<Longrightarrow> receiving (q\<lparr>cipher_in_decryptor := d\<rparr>)"
  by (simp add: receiving_def wf_stream_def)

lemma read_parse_loop_step:
  "\<not> closed q \<Longrightarrow> read_one env raws q = (Continue raws', q') \<Longrightarrow>
   read_parse_loop env raws q = read_parse_loop env raws' q'"
  by (simp add: read_parse_loop.simps [of env raws q])

lemma encryptor_trans:
  "p1 = p\<lparr>cipher_out_encryptor := a\<rparr> \<Longrightarrow> p2 = p1\<lparr>cipher_out_encryptor := b\<rparr> \<Longrightarrow>
   p2 = p\<lparr>cipher_out_encryptor := b\<rparr>"
  by simp

lemma chunks_items_total:
  assumes "linked (env_backend env) sync p q" "receiving q" "\<And>k. length (rnd k) = 16"
    and "list_all (sendable env (max_packet_size q)) cs" "env_chunk_header env = make_xpra_header"
  shows "\<exists>items p'. chunks_items env rnd m cs p = Inr (items, p') \<and>
    p' = p\<lparr>cipher_out_encryptor := cipher_out_encryptor p'\<rparr>"
  using assms(1-4)
proof (induction cs arbitrary: p q rnd)
  case (Cons c cs)
  have sc: "sendable env (max_packet_size q) c"
    and scs: "list_all (sendable env (max_packet_size (q\<lparr>cipher_in_decryptor := d\<rparr>))) cs" for d
    using Cons.prems(4) by simp_all
  obtain items p1 d' where c: "chunk_items env (rnd 0) m c p = Inr (items, p1)"
      "linked (env_backend env) sync p1 (q\<lparr>cipher_in_decryptor := d'\<rparr>)"
      "p1 = p\<lparr>cipher_out_encryptor := cipher_out_encryptor p1\<rparr>"
    using receive_chunk [OF Cons.prems(1,2) Cons.prems(3) [of 0] sc assms(5), of m] by blast
  obtain items2 p2 where r: "chunks_items env (\<lambda>k. rnd (Suc k)) m cs p1 = Inr (items2, p2)"
      "p2 = p1\<lparr>cipher_out_encryptor := cipher_out_encryptor p2\<rparr>"
    using Cons.IH [OF c(2) receiving_decryptor [OF Cons.prems(2)] Cons.prems(3) scs] by blast
  have "p2 = p\<lparr>cipher_out_encryptor := cipher_out_encryptor p2\<rparr>"
    by (rule encryptor_trans [OF c(3) r(2)])
  moreover have "chunks_items env rnd m (c # cs) p = Inr (items @ items2, p2)"
    using c(1) r(1) by simp
  ultimately show ?case by blast
qed simp

lemma receive_raw_chunks:
  assumes "linked (env_backend env) sync p q" "receiving q" "\<And>k. length (rnd k) = 16"
    and "list_all (sendable env (max_packet_size q)) cs" "env_chunk_header env = make_xpra_header"
    and "chunks_items env rnd m cs p = Inr (items, p')" "stream q = concat items @ rest"
    and "list_all (\<lambda>c. 0 < chunk_index c) cs" "distinct (map fst raws @ map chunk_index cs)"
    and "length raws + length cs \<le> 3"
  shows "\<exists>q'. linked (env_backend env) sync p' q' \<and> receiving q' \<and> stream q' = rest \<and>
    max_packet_size q' = max_packet_size q \<and> actions q' = actions q \<and> input_packetcount q' = input_packetcount q \<and>
    read_parse_loop env raws q = read_parse_loop env (raws @ map (chunk_raw env) cs) q'"
  using assms(1-4,6-10)
proof (induction cs arbitrary: p q rnd raws items)
  case Nil
  then show ?case by (intro exI [of _ q]) simp
next
  case (Cons c cs)
  have sc: "sendable env (max_packet_size q) c" and scs: "list_all (sendable env (max_packet_size q)) cs"
    using Cons.prems(4) by simp_all
  obtain items1 p1 d' b where c: "chunk_items env (rnd 0) m c p = Inr (items1, p1)" "opened env c = Some b"
      "linked (env_backend env) sync p1 (q\<lparr>cipher_in_decryptor := d'\<rparr>)"
    and recv: "\<And>rest raws. stream q = concat items1 @ rest \<Longrightarrow>
      (\<exists>q2 pinfo. at_stream (q\<lparr>cipher_in_decryptor := d'\<rparr>) rest q2 \<and>
        read_one env raws q = iter_of (process_data env raws pinfo b q2) \<and> pi_index pinfo = chunk_index c)"
    using receive_chunk [OF Cons.prems(1,2) Cons.prems(3) [of 0] sc assms(5), of m]
    unfolding chunk_index_def by blast
  obtain items2 where r: "chunks_items env (\<lambda>k. rnd (Suc k)) m cs p1 = Inr (items2, p')" "items = items1 @ items2"
    using Cons.prems(5) c(1) by (auto simp: ebind_eq_Inr)
  obtain q2 pinfo where q2: "at_stream (q\<lparr>cipher_in_decryptor := d'\<rparr>) (concat items2 @ rest) q2"
      "read_one env raws q = iter_of (process_data env raws pinfo b q2)" "pi_index pinfo = chunk_index c"
    using recv [of "concat items2 @ rest" raws] Cons.prems(6) r(2) by auto
  note f = at_stream_fields [OF q2(1)]
  have opq: "\<not> closed q" using Cons.prems(2) by (simp add: receiving_def)
  let ?q3 = "q2\<lparr>receive_pending := True\<rparr>"
  have "map_of raws (chunk_index c) = None" using Cons.prems(8) by (auto simp: map_of_eq_None_iff)
  then have "read_one env raws q = (Continue (raws @ [chunk_raw env c]), ?q3)"
    using q2(2,3) f(1) opq Cons.prems(7,9) c(2)
    by (simp add: process_data_def iter_of_def chunk_raw_def Let_def)
  note step = read_parse_loop_step [OF opq this]
  have l3: "linked (env_backend env) sync p1 ?q3"
    using linked_at [OF c(3) q2(1)] by (simp add: linked_def)
  have r3: "receiving ?q3"
    using receiving_at [OF Cons.prems(2) q2(1)] by (simp add: receiving_def wf_stream_def)
  have s3: "stream ?q3 = concat items2 @ rest" using q2(1) by (simp add: at_stream_def stream_def)
  have "\<exists>q'. linked (env_backend env) sync p' q' \<and> receiving q' \<and> stream q' = rest \<and>
      max_packet_size q' = max_packet_size ?q3 \<and> actions q' = actions ?q3 \<and> input_packetcount q' = input_packetcount ?q3 \<and>
      read_parse_loop env (raws @ [chunk_raw env c]) ?q3 =
        read_parse_loop env ((raws @ [chunk_raw env c]) @ map (chunk_raw env) cs) q'"
  proof (rule Cons.IH [OF l3 r3 Cons.prems(3) _ r(1) s3])
    show "list_all (sendable env (max_packet_size ?q3)) cs" using scs f(3) by simp
    show "list_all (\<lambda>c. 0 < chunk_index c) cs" using Cons.prems(7) by simp
    show "distinct (map fst (raws @ [chunk_raw env c]) @ map chunk_index cs)"
      using Cons.prems(8) by (auto simp: chunk_raw_def)
    show "length (raws @ [chunk_raw env c]) + length cs \<le> 3" using Cons.prems(9) by simp
  qed
  then show ?case using step f by simp
qed

section \<open>Receiving a packet\<close>

lemma chunks_items_append:
  "chunks_items env rnd m (cs @ ds) p =
     ebind (chunks_items env rnd m cs p) (\<lambda>(a, p').
       ebind (chunks_items env (\<lambda>k. rnd (k + length cs)) m ds p') (\<lambda>(b, p''). Inr (a @ b, p'')))"
proof (induction cs arbitrary: rnd p)
  case Nil
  then show ?case by (cases "chunks_items env rnd m ds p") auto
next
  case (Cons c cs)
  show ?case
  proof (cases "chunk_items env (rnd 0) m c p")
    case (Inr r)
    then show ?thesis
      using Cons.IH [of "\<lambda>k. rnd (Suc k)" "snd r"]
      by (cases r) (auto simp: ebind_def split: sum.split prod.split)
  qed simp
qed

lemma peer_packet_elements:
  "encode_items env p i xs = Inr (ys, cs, n) \<Longrightarrow> list_all is_packet_element ys \<Longrightarrow>
   list_all is_packet_element (peer_packet env p i xs)"
proof (induction xs arbitrary: i ys cs n)
  case (Cons x xs)
  then obtain y cs1 n1 ys2 cs2 n2 where x: "encode_item env p i x = Inr (y, cs1, n1)"
      "encode_items env p (i + 1) xs = Inr (ys2, cs2, n2)" "ys = y # ys2"
    by (auto simp: ebind_eq_Inr)
  with Cons show ?case by (auto simp: peer_view_def split: list.split)
qed simp

lemma encode_string: "encode_item env p i (PStr t) = Inr (PStr t, [], 0)"
  by (simp add: encode_item_def)

lemma peer_view_string [simp]: "peer_view env p i (PStr t) = PStr t"
  by (simp add: peer_view_def encode_string)

lemma decode_type:
  "get_packet_encoding_type f = get_packet_encoding_type g \<Longrightarrow> decode encs b f = decode encs b g"
  by (simp add: decode_def)

lemma receive_main_chunk:
  assumes "linked (env_backend env) sync p q" "receiving q" "length iv = 16"
    and s: "sendable env (max_packet_size q) (fl, 0, lvl, data)" and hd: "env_chunk_header env = make_xpra_header"
    and items: "chunk_items env iv m (fl, 0, lvl, data) p = Inr (items, p')" and st: "stream q = concat items @ rest"
    and dec: "ebind (decode (env_encoders env) (the (opened env (fl, 0, lvl, data))) fl) py_list = Inr ys"
    and place: "place_raw raws ys = Inr (PStr t # pk)" and el: "list_all is_packet_element pk"
  shows "\<exists>q'. linked (env_backend env) sync p' q' \<and> receiving q' \<and> stream q' = rest \<and>
    max_packet_size q' = max_packet_size q \<and> actions q' = actions q @ [Deliver (PStr t # pk)] \<and>
    input_packetcount q' = input_packetcount q + 1 \<and> receive_pending q' = m \<and>
    read_parse_loop env raws q = read_parse_loop env [] q'"
proof -
  obtain d' b where o: "opened env (fl, 0, lvl, data) = Some b"
      and l: "linked (env_backend env) sync p' (q\<lparr>cipher_in_decryptor := d'\<rparr>)"
      and r: "\<And>rest raws. stream q = concat items @ rest \<Longrightarrow>
      (\<exists>q2 pinfo. at_stream (q\<lparr>cipher_in_decryptor := d'\<rparr>) rest q2 \<and>
        read_one env raws q = iter_of (process_data env raws pinfo b q2) \<and> pi_index pinfo = 0 \<and>
        get_packet_encoding_type (pi_flags pinfo) = get_packet_encoding_type fl \<and>
        (pi_flags pinfo AND FLAGS_FLUSH = 0) = m)"
    using receive_chunk [OF assms(1,2,3) s hd, of m] unfolding items by auto
  obtain q2 pinfo where q2: "at_stream (q\<lparr>cipher_in_decryptor := d'\<rparr>) rest q2"
      "read_one env raws q = iter_of (process_data env raws pinfo b q2)" "pi_index pinfo = 0"
      "get_packet_encoding_type (pi_flags pinfo) = get_packet_encoding_type fl"
      "(pi_flags pinfo AND FLAGS_FLUSH = 0) = m"
    using r [OF st] by blast
  note f = at_stream_fields [OF q2(1)]
  have opq: "\<not> closed q" using assms(2) by (simp add: receiving_def)
  define q3 where "q3 = emit (Deliver (PStr t # pk)) (q2\<lparr>input_stats := count_stat t (input_stats q2),
      input_packetcount := input_packetcount q2 + 1, receive_pending := m\<rparr>)"
  have "ebind (decode (env_encoders env) b (pi_flags pinfo)) py_list = Inr ys"
    using dec o decode_type [OF q2(4), of "env_encoders env" b] by simp
  then have "process_data env raws pinfo b q2 = (Inr True, [], q3)"
    using f(1) opq q2(3,5) place el
    by (simp add: process_data_def deliver_packet_def Packet_init_def Let_def q3_def str_of_val_def)
  then have "read_one env raws q = (Continue [], q3)" using q2(2) by (simp add: iter_of_def)
  note step = read_parse_loop_step [OF opq this]
  have "linked (env_backend env) sync p' q3"
    using linked_at [OF l q2(1)] by (simp add: linked_def q3_def emit_def)
  moreover have "receiving q3"
    using receiving_at [OF assms(2) q2(1)] by (simp add: receiving_def wf_stream_def q3_def emit_def)
  moreover have "stream q3 = rest" using q2(1) by (simp add: at_stream_def stream_def q3_def emit_def)
  ultimately show ?thesis
    using step f by (intro exI [of _ q3]) (simp add: q3_def emit_def)
qed

text \<open>
  A packet both ends can handle: it starts with its type, travels in at most three raw chunks and
  a main one, each of which the receiver takes, its elements are of the types a packet may hold,
  and the serialiser of the main chunk gives back what was serialised.
\<close>

definition transmissible :: "'c env \<Rightarrow> 'c proto \<Rightarrow> int \<Rightarrow> packet \<Rightarrow> bool" where
  "transmissible env p limit pk \<longleftrightarrow>
     (case pk of
        PStr t # rest \<Rightarrow>
          PStr t \<noteq> pstr ''closed'' \<and> PStr t \<noteq> pstr ''none'' \<and>
          (case encode_items env p 0 pk of
             Inl _ \<Rightarrow> False
           | Inr (ys, cs, n) \<Rightarrow>
               list_all is_packet_element ys \<and> length cs \<le> 3 \<and>
               (case do_encode p ys cs n of
                  Inl _ \<Rightarrow> False
                | Inr cs' \<Rightarrow> list_all (sendable env limit) cs' \<and>
                    (case drop (length cs) cs' of
                       [main] \<Rightarrow> chunk_index main = 0 \<and>
                         ebind (decode (env_encoders env) (the (opened env main)) (fst main)) py_list = Inr ys
                     | _ \<Rightarrow> False)))
      | _ \<Rightarrow> False)"

lemma do_encode_chunks:
  "do_encode p ys cs n = Inr cs' \<Longrightarrow> \<not> closed p \<Longrightarrow> \<exists>fl lvl data. cs' = cs @ [(fl, 0, lvl, data)]"
  by (auto simp: do_encode_def Let_def ebind_eq_Inr split: sum.splits option.splits if_splits)

lemma receive_packet:
  assumes l: "linked (env_backend env) sync p q" and q: "receiving q" and rnd: "\<And>k. length (rnd k) = 16"
    and tr: "transmissible env pe (max_packet_size q) pk" and pe: "\<not> closed pe"
    and hd: "env_chunk_header env = make_xpra_header"
    and enc: "encode_items env pe 0 pk = Inr (ys, cs, n)" "do_encode pe ys cs n = Inr cs'"
    and items: "chunks_items env rnd m cs' p = Inr (items, p')" and st: "stream q = concat items @ rest"
  shows "\<exists>q'. linked (env_backend env) sync p' q' \<and> receiving q' \<and> stream q' = rest \<and>
    max_packet_size q' = max_packet_size q \<and> actions q' = actions q @ [Deliver (peer_packet env pe 0 pk)] \<and>
    input_packetcount q' = input_packetcount q + 1 \<and> receive_pending q' = m \<and>
    read_parse_loop env [] q = read_parse_loop env [] q'"
proof -
  obtain fl lvl data where cs': "cs' = cs @ [(fl, 0, lvl, data)]"
    using do_encode_chunks [OF enc(2) pe] by blast
  obtain t xs where pk: "pk = PStr t # xs"
    using tr by (auto simp: transmissible_def split: list.splits pval.splits)
  have c: "list_all is_packet_element ys" "length cs \<le> 3" "list_all (sendable env (max_packet_size q)) cs"
    and s: "sendable env (max_packet_size q) (fl, 0, lvl, data)"
    and dec: "ebind (decode (env_encoders env) (the (opened env (fl, 0, lvl, data))) fl) py_list = Inr ys"
    using tr enc unfolding pk transmissible_def by (simp_all add: cs' del: encode_items.simps)
  obtain ys2 cs2 n2 where e2: "encode_items env pe 1 xs = Inr (ys2, cs2, n2)" "ys = PStr t # ys2" "cs = cs2"
    using enc(1) by (auto simp: pk encode_string ebind_eq_Inr)
  have idx: "list_all (\<lambda>c. 0 < chunk_index c) cs" "distinct (map chunk_index cs)"
    using encode_items_chunks [OF e2(1)] e2(3) by (auto simp: list_all_iff)
  obtain items1 p1 items2 where i1: "chunks_items env rnd m cs p = Inr (items1, p1)"
    and i2: "chunk_items env (rnd (length cs)) m (fl, 0, lvl, data) p1 = Inr (items2, p')"
    and it: "items = items1 @ items2"
    using items by (auto simp: cs' chunks_items_append ebind_eq_Inr)
  obtain q1 where q1: "linked (env_backend env) sync p1 q1" "receiving q1" "stream q1 = concat items2 @ rest"
      "max_packet_size q1 = max_packet_size q" "actions q1 = actions q" "input_packetcount q1 = input_packetcount q"
      "read_parse_loop env [] q = read_parse_loop env ([] @ map (chunk_raw env) cs) q1"
    using receive_raw_chunks [OF l q rnd c(3) hd i1, of "concat items2 @ rest" "[]"] st idx c(2) it by auto
  have "place_raw (map (chunk_raw env) cs) ([] @ ys) = Inr ([] @ peer_packet env pe 0 pk)"
    by (rule place_raw_encoded [OF enc(1)]) simp
  then have place: "place_raw (map (chunk_raw env) cs) ys = Inr (PStr t # peer_packet env pe 1 xs)"
    by (simp add: pk)
  have el: "list_all is_packet_element (peer_packet env pe 1 xs)"
    by (rule peer_packet_elements [OF e2(1)]) (use c(1) e2(2) in simp)
  have s1: "sendable env (max_packet_size q1) (fl, 0, lvl, data)" using s q1(4) by simp
  obtain q' where "linked (env_backend env) sync p' q' \<and> receiving q' \<and> stream q' = rest \<and>
    max_packet_size q' = max_packet_size q1 \<and> actions q' = actions q1 @ [Deliver (PStr t # peer_packet env pe 1 xs)] \<and>
    input_packetcount q' = input_packetcount q1 + 1 \<and> receive_pending q' = m \<and>
    read_parse_loop env (map (chunk_raw env) cs) q1 = read_parse_loop env [] q'"
    using receive_main_chunk [OF q1(1,2) rnd s1 hd i2 q1(3) dec place el] by blast
  then show ?thesis
    using q1(4-7) by (intro exI [of _ q']) (simp add: pk)
qed

section \<open>Sending a packet\<close>

text \<open>
  What the format thread and the write thread do with one packet between them: it is encoded and
  queued, then taken off the queue and written. (The queue holds one item, so they alternate.)
\<close>

definition send_packet :: "'c env \<Rightarrow> (nat \<Rightarrow> bytes) \<Rightarrow> bool \<Rightarrow> packet \<Rightarrow> 'c proto \<Rightarrow> 'c proto result" where
  "send_packet env rnd m pk p =
     ebind (add_packet_to_queue env rnd pk True m p) (\<lambda>p'.
       case write_one p' of None \<Rightarrow> Inr p' | Some (_, p'') \<Rightarrow> Inr p'')"

text \<open>A list of packets, each with the ivs drawn for it and whether more follow.\<close>

type_synonym message = "(nat \<Rightarrow> bytes) \<times> bool \<times> packet"

fun send_packets :: "'c env \<Rightarrow> message list \<Rightarrow> 'c proto \<Rightarrow> 'c proto result" where
  "send_packets env [] p = Inr p"
| "send_packets env ((rnd, m, pk) # msgs) p = ebind (send_packet env rnd m pk p) (send_packets env msgs)"

definition enc_same :: "'c proto \<Rightarrow> 'c proto \<Rightarrow> bool" where
  "enc_same p p' \<longleftrightarrow> chunks p' = chunks p \<and> encoder p' = encoder p \<and> compression_level p' = compression_level p \<and>
     compress_fn p' = compress_fn p \<and> encode_fn p' = encode_fn p \<and> closed p' = closed p"

lemma enc_same_trans: "enc_same p q \<Longrightarrow> enc_same q r \<Longrightarrow> enc_same p r"
  by (simp add: enc_same_def)

lemma enc_sameD:
  assumes "enc_same p p'"
  shows "chunks p' = chunks p" "encoder p' = encoder p" "compression_level p' = compression_level p"
    "compress_fn p' = compress_fn p" "encode_fn p' = encode_fn p" "closed p' = closed p"
  using assms by (simp_all add: enc_same_def)

lemma enc_same_item: "enc_same p p' \<Longrightarrow> encode_item env p' i x = encode_item env p i x"
proof -
  assume "enc_same p p'"
  note e = enc_sameD [OF this]
  show ?thesis
    unfolding encode_item_def encode_large_def tobytes_unless_rencodeplus_def e ..
qed

lemma enc_same_items: "enc_same p p' \<Longrightarrow> encode_items env p' i xs = encode_items env p i xs"
  by (induction xs arbitrary: i) (simp_all add: enc_same_item)

lemma enc_same_do_encode: "enc_same p p' \<Longrightarrow> do_encode p' ys cs n = do_encode p ys cs n"
proof -
  assume "enc_same p p'"
  note e = enc_sameD [OF this]
  show ?thesis
    unfolding do_encode_def e ..
qed

lemma enc_same_peer_packet: "enc_same p p' \<Longrightarrow> peer_packet env p' i xs = peer_packet env p i xs"
  by (induction xs arbitrary: i) (simp_all add: peer_view_def enc_same_item)

lemma enc_same_transmissible: "enc_same p p' \<Longrightarrow> transmissible env p' lim pk = transmissible env p lim pk"
  by (simp only: transmissible_def enc_same_items enc_same_do_encode)

definition transmitted :: "'c proto \<Rightarrow> 'c proto \<Rightarrow> bytes \<Rightarrow> bool" where
  "transmitted p p' w \<longleftrightarrow> enc_same p p' \<and> write_queue p' = [] \<and>
     (\<exists>c c'. connection p = Some c \<and> connection p' = Some c' \<and> written c' = written c @ w)"

definition sending :: "'c proto \<Rightarrow> bool" where
  "sending p \<longleftrightarrow> \<not> closed p \<and> connection p \<noteq> None \<and> write_queue p = []"

lemma transmitted_sending: "transmitted p p' w \<Longrightarrow> sending p \<Longrightarrow> sending p'"
  by (auto simp: transmitted_def sending_def enc_same_def)

lemma transmitted_trans: "transmitted p q v \<Longrightarrow> transmitted q r w \<Longrightarrow> transmitted p r (v @ w)"
  using enc_same_trans by (fastforce simp: transmitted_def)

lemma write_items_cipher_out:
  "write_items w p = (b, p') \<Longrightarrow>
   cipher_out_name p' = cipher_out_name p \<and> cipher_out_block_size p' = cipher_out_block_size p \<and>
   cipher_out_padding p' = cipher_out_padding p \<and> cipher_out_stream p' = cipher_out_stream p \<and>
   cipher_out_key p' = cipher_out_key p \<and> cipher_out_encryptor p' = cipher_out_encryptor p \<and> enc_same p p'"
  by (auto simp: write_items_def write_buffers_def enc_same_def Let_def split: option.splits prod.splits if_splits)

lemma linked_out:
  "cipher_out_name p' = cipher_out_name p \<Longrightarrow> cipher_out_block_size p' = cipher_out_block_size p \<Longrightarrow>
   cipher_out_padding p' = cipher_out_padding p \<Longrightarrow> cipher_out_stream p' = cipher_out_stream p \<Longrightarrow>
   cipher_out_key p' = cipher_out_key p \<Longrightarrow> cipher_out_encryptor p' = cipher_out_encryptor p \<Longrightarrow>
   linked be sync p' q = linked be sync p q"
  by (simp add: linked_def)

text \<open>What receiving the packets \<open>pks\<close> off the front of the stream does.\<close>

definition received_as :: "'c env \<Rightarrow> packet list \<Rightarrow> bytes \<Rightarrow> 'c proto \<Rightarrow> 'c proto \<Rightarrow> bool" where
  "received_as env pks rest q q' \<longleftrightarrow> receiving q' \<and> stream q' = rest \<and> max_packet_size q' = max_packet_size q \<and>
     actions q' = actions q @ map Deliver pks \<and> input_packetcount q' = input_packetcount q + length pks \<and>
     read_parse_loop env [] q = read_parse_loop env [] q'"

lemma send_packet_received:
  assumes l: "linked (env_backend env) sync p q0" and q: "receiving q0" and rnd: "\<And>k. length (rnd k) = 16"
    and tr: "transmissible env p (max_packet_size q0) pk" and p: "sending p"
    and hd: "env_chunk_header env = make_xpra_header" and fr: "env_frame_header env = noframe_header"
  shows "\<exists>p' w. send_packet env rnd m pk p = Inr p' \<and> transmitted p p' w \<and>
    (\<forall>q rest. linked (env_backend env) sync p q \<longrightarrow> receiving q \<longrightarrow> max_packet_size q = max_packet_size q0 \<longrightarrow>
       stream q = w @ rest \<longrightarrow>
       (\<exists>q'. linked (env_backend env) sync p' q' \<and> received_as env [peer_packet env p 0 pk] rest q q'))"
proof -
  obtain t xs where pk: "pk = PStr t # xs" "PStr t \<noteq> pstr ''closed''" "PStr t \<noteq> pstr ''none''"
    using tr by (auto simp: transmissible_def split: list.splits pval.splits)
  obtain ys cs n where e1: "encode_items env p 0 pk = Inr (ys, cs, n)"
    using tr pk(1) by (cases "encode_items env p 0 pk") (auto simp: transmissible_def)
  obtain cs' where e2: "do_encode p ys cs n = Inr cs'" and s: "list_all (sendable env (max_packet_size q0)) cs'"
    using tr pk(1) e1 by (cases "do_encode p ys cs n") (auto simp: transmissible_def simp del: encode_items.simps)
  define p0 where "p0 = (if m then p else p\<lparr>source_has_more := False\<rparr>)
    \<lparr>output_stats := count_stat t (output_stats (if m then p else p\<lparr>source_has_more := False\<rparr>))\<rparr>"
  have s0: "enc_same p p0" "closed p0 = closed p" "connection p0 = connection p" "write_queue p0 = write_queue p"
    by (simp_all add: p0_def enc_same_def)
  have l0: "linked (env_backend env) sync p0 q \<longleftrightarrow> linked (env_backend env) sync p q" for q
    by (rule linked_out) (simp_all add: p0_def)
  have sm: "enc_same p (if m then p else p\<lparr>source_has_more := False\<rparr>)" by (simp add: enc_same_def)
  have en: "encode env pk (if m then p else p\<lparr>source_has_more := False\<rparr>) = Inr (cs', p0)"
    using e1 e2 s0(1) enc_same_items [OF sm, of env 0] enc_same_do_encode [OF s0(1)]
    by (simp add: encode_def pk(1) str_of_val_def Let_def p0_def [symmetric] del: encode_items.simps)
  obtain items p1 where it: "chunks_items env rnd m cs' p0 = Inr (items, p1)"
      and p1: "p1 = p0\<lparr>cipher_out_encryptor := cipher_out_encryptor p1\<rparr>"
    using chunks_items_total [where rnd = rnd, OF l0 [THEN iffD2, OF l] q rnd s hd] by blast
  have f1: "enc_same p0 p1 \<and> closed p1 = closed p0 \<and> connection p1 = connection p0 \<and> write_queue p1 = write_queue p0"
    by (subst p1, subst (2) p1, subst (3) p1, subst (4) p1) (simp add: enc_same_def)
  define p2 where "p2 = raw_write items t True m p1"
  have q2: "add_packet_to_queue env rnd pk True m p = Inr p2"
    using en p s0(2) it fr pk
    by (simp add: add_packet_to_queue_def Let_def sending_def add_chunks_to_queue_def noframe_header_def
        add_frame_header_def p2_def str_of_val_def)
  let ?w = "\<lparr>wi_items = items, wi_type = t, wi_synchronous = True, wi_more = m\<rparr>"
  have wq: "write_queue p2 = [Some ?w]"
    using f1 s0(4) p by (simp add: p2_def raw_write_def sending_def)
  obtain c where c: "connection p = Some c" using p by (auto simp: sending_def)
  let ?p3 = "p2\<lparr>write_queue := []\<rparr>"
  have c3: "connection ?p3 = Some c" "\<not> closed ?p3"
    using f1 s0(2,3) c p by (simp_all add: p2_def raw_write_def sending_def)
  obtain c' p' where w: "write_items ?w ?p3 = (True, p')" "connection p' = Some c'"
      "written c' = written c @ concat items" "write_queue p' = []"
    using write_items_written [OF c3, of ?w] by auto
  note wc = write_items_cipher_out [OF w(1)]
  have sent: "send_packet env rnd m pk p = Inr p'"
    using q2 wq w(1) by (simp add: send_packet_def write_one_def)
  have "enc_same p1 ?p3" by (simp add: p2_def raw_write_def enc_same_def)
  then have "enc_same p p'" using s0(1) f1 wc enc_same_trans by blast
  then have trm: "transmitted p p' (concat items)" using c w(2,3,4) by (auto simp: transmitted_def)
  have lp': "linked (env_backend env) sync p' q = linked (env_backend env) sync p1 q" for q
    by (rule linked_out) (use wc in \<open>simp_all add: p2_def raw_write_def\<close>)
  have "\<exists>q'. linked (env_backend env) sync p' q' \<and> received_as env [peer_packet env p 0 pk] rest q q'"
    if "linked (env_backend env) sync p q" "receiving q" "max_packet_size q = max_packet_size q0"
      "stream q = concat items @ rest" for q rest
  proof -
    have tr': "transmissible env p (max_packet_size q) pk" using tr that(3) by simp
    have cp: "\<not> closed p" using p by (simp add: sending_def)
    show ?thesis
      using receive_packet [OF l0 [THEN iffD2, OF that(1)] that(2) rnd tr' cp hd e1 e2 it that(4)]
      unfolding received_as_def lp' by auto
  qed
  with sent trm show ?thesis by blast
qed

section \<open>Any number of packets\<close>

lemma linked_with_stream [simp]: "linked be sync p (with_stream s q) = linked be sync p q"
  by (simp add: linked_def)

lemma receiving_with_stream: "receiving q \<Longrightarrow> receiving (with_stream s q)"
  by (cases "connection q") (auto simp: receiving_def wf_stream_def with_stream_def)

lemma received_as_trans:
  "received_as env xs rest1 q q1 \<Longrightarrow> received_as env ys rest q1 q2 \<Longrightarrow> received_as env (xs @ ys) rest q q2"
  by (simp add: received_as_def)

definition peer_packets :: "'c env \<Rightarrow> 'c proto \<Rightarrow> message list \<Rightarrow> packet list" where
  "peer_packets env p msgs = map (\<lambda>(_, _, pk). peer_packet env p 0 pk) msgs"

lemma peer_packets_Cons:
  "peer_packets env p ((rnd, m, pk) # msgs) = peer_packet env p 0 pk # peer_packets env p msgs"
  by (simp add: peer_packets_def)

definition good_messages :: "'c env \<Rightarrow> 'c proto \<Rightarrow> int \<Rightarrow> message list \<Rightarrow> bool" where
  "good_messages env p limit msgs \<longleftrightarrow>
     (\<forall>(rnd, m, pk) \<in> set msgs. (\<forall>k. length (rnd k) = 16) \<and> transmissible env p limit pk)"

lemma good_messages_same: "enc_same p p' \<Longrightarrow> good_messages env p' limit msgs = good_messages env p limit msgs"
  by (simp add: good_messages_def enc_same_transmissible)

lemma peer_packets_same: "enc_same p p' \<Longrightarrow> peer_packets env p' msgs = peer_packets env p msgs"
  by (simp add: peer_packets_def enc_same_peer_packet)

lemma send_packets_received:
  assumes "linked (env_backend env) sync p q0" "receiving q0" "sending p" "good_messages env p (max_packet_size q0) msgs"
    and hd: "env_chunk_header env = make_xpra_header" and fr: "env_frame_header env = noframe_header"
  shows "\<exists>p' w. send_packets env msgs p = Inr p' \<and> transmitted p p' w \<and>
    (\<forall>q rest. linked (env_backend env) sync p q \<longrightarrow> receiving q \<longrightarrow> max_packet_size q = max_packet_size q0 \<longrightarrow>
       stream q = w @ rest \<longrightarrow> (\<exists>q'. received_as env (peer_packets env p msgs) rest q q'))"
  using assms(1-4)
proof (induction msgs arbitrary: p q0)
  case Nil
  have "transmitted p p []" using Nil.prems(3) by (auto simp: transmitted_def sending_def enc_same_def)
  then show ?case by (intro exI [of _ p] exI [of _ "[]"]) (auto simp: received_as_def peer_packets_def)
next
  case (Cons msg msgs)
  obtain rnd m pk where msg: "msg = (rnd, m, pk)" by (cases msg)
  have g: "\<And>k. length (rnd k) = 16" "transmissible env p (max_packet_size q0) pk"
    and gs: "good_messages env p (max_packet_size q0) msgs"
    using Cons.prems(4) by (auto simp: good_messages_def msg)
  obtain p1 w1 where s1: "send_packet env rnd m pk p = Inr p1" "transmitted p p1 w1"
    and r1: "\<And>q rest. linked (env_backend env) sync p q \<Longrightarrow> receiving q \<Longrightarrow> max_packet_size q = max_packet_size q0 \<Longrightarrow>
       stream q = w1 @ rest \<Longrightarrow>
       (\<exists>q'. linked (env_backend env) sync p1 q' \<and> received_as env [peer_packet env p 0 pk] rest q q')"
    using send_packet_received [where rnd = rnd and m = m, OF Cons.prems(1,2) g Cons.prems(3) hd fr] by blast
  have same: "enc_same p p1" using s1(2) by (simp add: transmitted_def)
  obtain q1 where q1: "linked (env_backend env) sync p1 q1" "receiving q1" "max_packet_size q1 = max_packet_size q0"
    using r1 [of "with_stream w1 q0" "[]"] Cons.prems(1,2) receiving_with_stream
    by (auto simp: received_as_def)
  have "good_messages env p1 (max_packet_size q1) msgs" using gs good_messages_same [OF same] q1(3) by simp
  from Cons.IH [OF q1(1,2) transmitted_sending [OF s1(2) Cons.prems(3)] this] obtain p2 w2
    where s2: "send_packets env msgs p1 = Inr p2" "transmitted p1 p2 w2"
      and r2: "\<And>q rest. linked (env_backend env) sync p1 q \<Longrightarrow> receiving q \<Longrightarrow> max_packet_size q = max_packet_size q1 \<Longrightarrow>
        stream q = w2 @ rest \<Longrightarrow> \<exists>q'. received_as env (peer_packets env p1 msgs) rest q q'" by blast
  have "\<exists>q'. received_as env (peer_packets env p (msg # msgs)) rest q q'"
    if a: "linked (env_backend env) sync p q" "receiving q" "max_packet_size q = max_packet_size q0"
      "stream q = (w1 @ w2) @ rest" for q rest
  proof -
    obtain q' where q': "linked (env_backend env) sync p1 q'" "received_as env [peer_packet env p 0 pk] (w2 @ rest) q q'"
      using r1 [OF a(1-3), of "w2 @ rest"] a(4) by auto
    moreover from q'(2) have "receiving q'" "max_packet_size q' = max_packet_size q1" "stream q' = w2 @ rest"
      using a(3) q1(3) by (simp_all add: received_as_def)
    ultimately obtain q'' where "received_as env (peer_packets env p1 msgs) rest q' q''" using r2 by blast
    from received_as_trans [OF q'(2) this] show ?thesis
      unfolding peer_packets_same [OF same] msg peer_packets_Cons by auto
  qed
  moreover have "send_packets env (msg # msgs) p = Inr p2" using s1(1) s2(1) by (simp add: msg)
  ultimately show ?case using transmitted_trans [OF s1(2) s2(2)] by blast
qed

text \<open>The bytes that sending the packets writes to the connection.\<close>

definition wire_bytes :: "'c env \<Rightarrow> message list \<Rightarrow> 'c proto \<Rightarrow> bytes" where
  "wire_bytes env msgs p =
     (let sofar = (\<lambda>p. case connection p of None \<Rightarrow> [] | Some c \<Rightarrow> written c)
      in case send_packets env msgs p of Inl _ \<Rightarrow> [] | Inr p' \<Rightarrow> drop (length (sofar p)) (sofar p'))"

lemma read_parse_loop_end:
  assumes "receiving q" "stream q = []"
  shows "\<exists>q'. read_parse_loop env raws q = (Inr (), q') \<and> actions q' = actions q @ [IdleClose] \<and>
    input_packetcount q' = input_packetcount q"
proof -
  have q: "wf_stream q" "\<not> closed q" "\<not> wait_for_header q" using assms(1) by (simp_all add: receiving_def)
  obtain r p1 where p1: "read_exact HEADER_SIZE q = (r, p1)" by (cases "read_exact HEADER_SIZE q")
  note x = read_exact_stream [OF q(1,2) p1]
  have "r = None" using x(1) assms(2) by (simp add: HEADER_SIZE_def)
  then have "read_one env raws q = (Return (Inr ()), emit IdleClose p1)"
    using q(3) p1 by (simp add: read_one_def read_header_def)
  moreover have "at_stream q (stream p1) p1" using x by (simp add: at_stream_def)
  note f = at_stream_fields [OF this]
  ultimately show ?thesis
    using q(2) f by (simp add: read_parse_loop.simps [of env raws q] emit_def)
qed


text \<open>Two packets over an encrypted connection (with a backend that only copies).\<close>

definition cipher_proto :: "unit proto" where
  "cipher_proto = (ping_proto [])
     \<lparr>cipher_out_name := ''AES-CBC'', cipher_out_block_size := 16, cipher_out_padding := PADDING_PKCS7,
      cipher_out_encryptor := Some (), cipher_in_name := ''AES-CBC'', cipher_in_block_size := 16,
      cipher_in_padding := PADDING_PKCS7, cipher_in_decryptor := Some ()\<rparr>"

definition two_pings :: "message list" where
  "two_pings = [(\<lambda>_. replicate 16 7, True, [PStr [112]]), (\<lambda>_. replicate 16 7, False, [PStr [112]])]"

definition cipher_peer :: "unit proto" where
  "cipher_peer = with_stream (wire_bytes ping_env two_pings cipher_proto) cipher_proto"


end
