(* ===== verification/SocketSafety.thy ===== *)
theory SocketSafety
  imports SocketWire
begin

text \<open>
  What a peer cannot do to the receiver: the bounds every accepted header keeps, the bound on the
  raw chunks held back, and that nothing unencrypted gets through once a cipher is configured.
  Then what saving and restoring the state of an encrypted connection loses.
\<close>

section \<open>Accepted headers\<close>

text \<open>
  A header that is accepted promises little enough: a payload that is not empty and not over
  the packet size limit, data under the absolute limit, an index under 16, encryption only where
  there is a cipher, exactly one encoder and at most one compressor; and accepting it changes
  nothing.
\<close>

theorem accepted_header_bounds:
  assumes "parse_packet_header hdr p = (Inr (Some pinfo), p')"
  shows "p' = p \<and> 0 < pi_payload_size pinfo \<and> int (pi_payload_size pinfo) \<le> max_packet_size p \<and>
    int (pi_data_size pinfo) \<le> abs_max_packet_size p \<and>
    pi_payload_size pinfo = pi_data_size pinfo + pi_padding_size pinfo \<and>
    in_range (pi_index pinfo) 16 \<and>
    (pi_flags pinfo AND FLAGS_CIPHER = 0 \<or> cipher_in_name p \<noteq> '''') \<and>
    unambiguous_encoder (pi_flags pinfo) (pi_index pinfo) \<and> unambiguous_compression (pi_level pinfo)"
proof -
  obtain h where h: "unpack_header hdr = Inr h"
    using assms by (cases "unpack_header hdr") (auto simp: parse_packet_header_def)
  note r = unpack_header_ranges [OF h]
  have v: "validate_packet_header (hd_flags h) (hd_level h) (hd_index h) True = None"
    using assms h by (cases "validate_packet_header (hd_flags h) (hd_level h) (hd_index h) True")
      (auto simp: parse_packet_header_def)
  then have "unambiguous_encoder (hd_flags h) (hd_index h) \<and> unambiguous_compression (hd_level h)"
    using r by (simp add: validate_packet_header_None flags_ok_unambiguous validated_compression)
  then show ?thesis
    using assms h v r(3,4)
    by (cases "hd_size h = 0") (auto simp: parse_packet_header_def Let_def in_range_def split: if_splits)
qed

definition ping_header :: bytes where
  "ping_header = [80, 0x10, 0, 0, 0, 0, 0, 3]"

theorem accepted_header_bounds_witness:
  "fst (parse_packet_header ping_header (ping_proto [])) =
     Inr (Some \<lparr>pi_flags = 0x10, pi_level = 0, pi_index = 0, pi_data_size = 3, pi_padding_size = 0,
       pi_payload_size = 3\<rparr>) \<and>
   unambiguous_encoder 0x10 0 \<and> (3::int) \<le> max_packet_size (ping_proto [])"
proof -
  have p: "pack_header 0x10 0 0 3 = Inr ping_header"
    by (simp add: pack_header_def in_range_def ping_header_def eval_nat_numeral)
  have u: "unpack_header ping_header =
      Inr \<lparr>hd_char = 80, hd_flags = 0x10, hd_level = 0, hd_index = 0, hd_size = 3\<rparr>"
    using unpack_pack_header [OF p, of "[]"] by simp
  have v: "validate_packet_header 0x10 0 0 True = None" by code_simp
  have e: "parse_packet_header ping_header (ping_proto []) =
     (Inr (Some \<lparr>pi_flags = 0x10, pi_level = 0, pi_index = 0, pi_data_size = 3, pi_padding_size = 0,
       pi_payload_size = 3\<rparr>), ping_proto [])"
    by (simp add: parse_packet_header_def u v FLAGS_CIPHER_def ping_proto_def MAX_PACKET_SIZE_def)
  from accepted_header_bounds [OF e] e show ?thesis by simp
qed

section \<open>Raw chunks\<close>

definition raws_ok :: "raw_packets \<Rightarrow> bool" where
  "raws_ok raws \<longleftrightarrow> length raws \<le> 3 \<and> distinct (map fst raws) \<and> list_all (\<lambda>(i, _). 0 < i \<and> i < 16) raws"

lemma raws_ok_Nil [simp]: "raws_ok []"
  by (simp add: raws_ok_def)

lemma process_data_raws:
  assumes "raws_ok raws" "process_data env raws pinfo d p = (Inr True, raws', p')" "pi_index pinfo < 16"
  shows "raws_ok raws'"
proof (cases "pi_index pinfo > 0")
  case True
  then have "raws' = raws @ [(pi_index pinfo, d)]" "map_of raws (pi_index pinfo) = None" "length raws' < 4"
    using assms(2) by (auto simp: process_data_def Let_def split: if_splits)
  then show ?thesis
    using assms(1,3) True by (auto simp: raws_ok_def map_of_eq_None_iff)
next
  case False
  then have "raws' = []"
    using assms(2) by (auto simp: process_data_def Let_def split: if_splits sum.splits prod.splits)
  then show ?thesis by simp
qed

lemma process_payload_raws:
  assumes "raws_ok raws" "process_payload env raws pinfo d p = (Inr True, raws', p')" "pi_index pinfo < 16"
  shows "raws_ok raws'"
proof -
  have "\<exists>d q. process_data env raws pinfo d q = (Inr True, raws', p')"
    using assms(2) by (auto simp: process_payload_def Let_def
        split: if_splits sum.splits option.splits prod.splits py_error.splits)
  then show ?thesis using process_data_raws [OF assms(1) _ assms(3)] by blast
qed

text \<open>
  The receiver never holds more than three raw chunks of an unfinished packet, with distinct
  indices from 1 to 15: whatever one iteration of the loop reads, if it goes on, it goes on with
  such a store.
\<close>

theorem raw_chunks_bounded:
  assumes "raws_ok raws"
  shows "case fst (read_one env raws p) of Continue raws' \<Rightarrow> raws_ok raws' | Return _ \<Rightarrow> True"
proof (cases "fst (read_one env raws p)")
  case (Continue raws')
  then obtain p' where r: "read_one env raws p = (Continue raws', p')" by (cases "read_one env raws p") auto
  obtain h p1 where h: "read_header p = (Inr (Some h), p1)"
    using r by (auto simp: read_one_def split: prod.splits sum.splits option.splits)
  obtain pinfo p2 where i: "parse_packet_header h p1 = (Inr (Some pinfo), p2)"
    using r h by (auto simp: read_one_def split: prod.splits sum.splits option.splits if_splits)
  have "pi_index pinfo < 16"
    using i by (auto simp: parse_packet_header_def Let_def split: sum.splits option.splits if_splits)
  moreover have "read_payload env raws pinfo p2 = (Continue raws', p')"
    using r h i by (simp add: read_one_def split: if_splits)
  then obtain d p3 where "process_payload env raws pinfo d p3 = (Inr True, raws', p')"
    by (auto simp: read_payload_def split: prod.splits option.splits sum.splits bool.splits)
  ultimately have "raws_ok raws'" using process_payload_raws [OF assms] by blast
  with Continue show ?thesis by simp
qed simp

theorem raw_chunks_bounded_witness:
  "case fst (read_one ping_env [(1, [7]), (2, [8])] (ping_proto [[80, 0, 0, 3, 0, 0, 0, 1, 9]])) of
     Continue raws' \<Rightarrow> raws_ok raws' | Return _ \<Rightarrow> True"
  by (rule raw_chunks_bounded) (simp add: raws_ok_def)

section \<open>Nothing unencrypted once there is a cipher\<close>

definition deliveries :: "'c proto \<Rightarrow> packet list" where
  "deliveries p = List.map_filter (\<lambda>a. case a of Deliver pk \<Rightarrow> Some pk | _ \<Rightarrow> None) (actions p)"

lemma deliveries_errors [simp]:
  "deliveries (invalid r p) = deliveries p" "deliveries (gibberish r p) = deliveries p"
  "deliveries (invalid_header r p) = deliveries p" "deliveries (emit IdleClose p) = deliveries p"
  by (simp_all add: deliveries_def invalid_def gibberish_def invalid_header_def emit_def List.map_filter_def)

lemma deliveries_at:
  assumes "with_stream [] q = with_stream [] p"
  shows "deliveries q = deliveries p"
proof -
  have "actions q = actions p" using arg_cong [OF assms, of actions] by simp
  then show ?thesis by (simp add: deliveries_def)
qed

text \<open>
  Once a cipher is configured for receiving, a chunk that is not flagged as encrypted ends the
  parse thread and is not delivered, whatever else its header says and whatever follows it.
\<close>

theorem unencrypted_chunk_refused:
  assumes "cipher_in_name p \<noteq> ''''" "receiving p"
    and "unpack_header (stream p) = Inr h" "hd_flags h AND FLAGS_CIPHER = 0"
  shows "(case fst (read_one env raws p) of Continue _ \<Rightarrow> False | Return _ \<Rightarrow> True) \<and>
    deliveries (snd (read_parse_loop env raws p)) = deliveries p"
proof -
  have p: "wf_stream p" "\<not> closed p" "\<not> wait_for_header p" using assms(2) by (simp_all add: receiving_def)
  have len: "8 \<le> length (stream p)" using assms(3) unpack_header_Inr_iff by blast
  obtain a p1 where a: "read_exact HEADER_SIZE p = (a, p1)" by (cases "read_exact HEADER_SIZE p")
  note x = read_exact_stream [OF p(1,2) a]
  have rh: "read_header p = (Inr (Some (take 8 (stream p))), p1)"
    using a x(1) len p(3) by (simp add: read_header_def HEADER_SIZE_def)
  have uh: "unpack_header (take 8 (stream p)) = Inr h" using assms(3) len by (simp add: unpack_header_take)
  have d1: "deliveries p1 = deliveries p" using x(4) by (rule deliveries_at)
  have n1: "cipher_in_name p1 \<noteq> ''''"
    using assms(1) arg_cong [OF x(4), of cipher_in_name] by simp
  have fin: "(case fst r of Continue _ \<Rightarrow> False | Return _ \<Rightarrow> True) \<and> deliveries (snd r) = deliveries p"
    if r: "r = read_one env raws p" for r
  proof (cases "parse_packet_header (take 8 (stream p)) p1")
    case (Pair pr p2)
    have d2: "deliveries p2 = deliveries p" "pr \<noteq> Inr None \<Longrightarrow> p2 = p1"
      using Pair d1 by (auto simp: parse_packet_header_def uh Let_def split: option.splits if_splits)
    show ?thesis
    proof (cases "\<exists>pinfo. pr = Inr (Some pinfo)")
      case False
      then show ?thesis
        using r rh Pair d1 d2 by (cases pr) (auto simp: read_one_def split: option.splits)
    next
      case True
      then obtain pinfo where pinfo: "pr = Inr (Some pinfo)" by blast
      then have f: "pi_flags pinfo = hd_flags h"
        using Pair by (auto simp: parse_packet_header_def uh Let_def split: option.splits if_splits)
      have p2: "p2 = p1" using d2(2) pinfo by simp
      obtain b p3 where b: "read_exact (pi_payload_size pinfo) p1 = (b, p3)"
        by (cases "read_exact (pi_payload_size pinfo) p1")
      have "\<not> closed p1" using closed_via [OF x(4)] p(2) by simp
      note y = read_exact_stream [OF x(3) this b]
      have d3: "deliveries p3 = deliveries p" using deliveries_at [OF y(4)] d1 by simp
      have n3: "cipher_in_name p3 \<noteq> ''''" using n1 arg_cong [OF y(4), of cipher_in_name] by simp
      have "process_payload env raws pinfo d p3 = (Inr False, raws, invalid UnencryptedDropped p3)" for d
        using n3 f assms(4) by (simp add: process_payload_def)
      then show ?thesis
        using r rh Pair pinfo p2 b d1 d3
        by (auto simp: read_one_def read_payload_def split: option.splits)
    qed
  qed
  have "read_parse_loop env raws p =
      (case read_one env raws p of (Return r, p') \<Rightarrow> (r, p') | (Continue raws', p') \<Rightarrow> read_parse_loop env raws' p')"
    using p(2) by (simp add: read_parse_loop.simps [of env raws p])
  then show ?thesis
    using fin [OF refl] by (auto split: prod.splits iteration.splits)
qed

theorem unencrypted_chunk_refused_witness:
  "deliveries (snd (read_parse_loop ping_env [] (with_stream (ping_header @ [1, 2, 3]) cipher_proto))) = []"
proof -
  let ?p = "with_stream (ping_header @ [1, 2, 3]) cipher_proto"
  have p: "pack_header 0x10 0 0 3 = Inr ping_header"
    by (simp add: pack_header_def in_range_def ping_header_def eval_nat_numeral)
  have n: "cipher_in_name ?p \<noteq> ''''" by (simp add: cipher_proto_def)
  have r: "receiving ?p"
    by (rule receiving_with_stream)
      (simp add: receiving_def wf_stream_def cipher_proto_def ping_proto_def MAX_PACKET_SIZE_def)
  have u: "unpack_header (stream ?p) =
      Inr \<lparr>hd_char = 80, hd_flags = 0x10, hd_level = 0, hd_index = 0, hd_size = 3\<rparr>"
    using unpack_pack_header [OF p, of "[1, 2, 3]"] by simp
  have "deliveries (snd (read_parse_loop ping_env [] ?p)) = deliveries ?p"
    using unencrypted_chunk_refused [OF n r u, where env = ping_env and raws = "[]"] by (simp add: FLAGS_CIPHER_def)
  then show ?thesis by (simp add: deliveries_def cipher_proto_def ping_proto_def)
qed

section \<open>Restoring an encrypted connection\<close>

text \<open>
  The state that \<^verbatim>\<open>save_state\<close> keeps does not include the stream ciphers: a protocol whose
  state is restored from an encrypted stream connection says it encrypts, and every attempt to
  send data on it fails with an assertion error.
\<close>

theorem restored_stream_cipher_fails:
  assumes "restore_state encs comps (save_state p) q = Inr r"
    and "cipher_out_name p \<noteq> ''''" "cipher_out_stream p" "cipher_out_padding p = PADDING_PKCS7"
    and "cipher_out_block_size p \<le> 16" "cipher_out_encryptor q = None" "chunk_bytes data = Some b"
  shows "cipher_out_name r = cipher_out_name p \<and> encrypt env iv data r = Inl AssertionError"
proof -
  have r: "cipher_out_name r = cipher_out_name p" "cipher_out_stream r = cipher_out_stream p"
    "cipher_out_padding r = cipher_out_padding p" "cipher_out_block_size r = cipher_out_block_size p"
    "cipher_out_encryptor r = cipher_out_encryptor q"
    using assms(1) by (auto simp: restore_state_def save_state_def Let_def ebind_eq_Inr
        enable_compressor_def enable_encoder_def)
  define k where "k = padding_for (cipher_out_block_size p) (cipher_out_always_pad r) (length b)"
  have "k \<le> cipher_out_block_size p"
    using padding_for_bounds [of "cipher_out_block_size p" "cipher_out_always_pad r" "length b"]
    by (cases "cipher_out_block_size p = 0") (auto simp: k_def padding_for_def)
  then have "k \<le> 16" using assms(5) by simp
  from pad_bytes [OF this, of b] show ?thesis
    using r assms(2-4,6) chunk_bytes_Some(1) [OF assms(7), of env] chunk_bytes_Some(2) [OF assms(7)]
    by (cases "k = 0") (simp_all add: encrypt_def Let_def k_def [symmetric])
qed

theorem restored_stream_cipher_fails_witness:
  "encrypt ping_env [] (PBytes [1, 2, 3])
     ((ping_proto [])\<lparr>cipher_out_name := ''AES-CBC'', cipher_out_block_size := 16,
       cipher_in_name := ''AES-CBC'', cipher_in_block_size := 16\<rparr>) = Inl AssertionError"
proof -
  let ?r = "(ping_proto [])\<lparr>cipher_out_name := ''AES-CBC'', cipher_out_block_size := 16,
       cipher_in_name := ''AES-CBC'', cipher_in_block_size := 16\<rparr>"
  let ?encs = "[''rencodeplus'' \<mapsto> init_rencodeplus ping_serialiser]"
  have "restore_state ?encs [''none'' \<mapsto> init_none] (save_state cipher_proto) (ping_proto []) = Inr ?r"
    by (simp add: restore_state_def save_state_def cipher_proto_def ping_proto_def enable_compressor_def
        enable_encoder_def get_compressor_def get_encoder_def VALID_ENCODERS_def INITIAL_PADDING_def)
  from restored_stream_cipher_fails [OF this, of "PBytes [1, 2, 3]" "[1, 2, 3]" ping_env "[]"] show ?thesis
    by (simp add: cipher_proto_def ping_proto_def chunk_bytes_def)
qed

end
