(* ===== verification/SocketClose.thy ===== *)
theory SocketClose
  imports SocketSend SocketStream
begin

text \<open>
  \<^verbatim>\<open>flush_then_close\<close> of \<^verbatim>\<open>src/xpra/net/protocol/socket_handler.py\<close>: the last packet is queued
  once the write queue is empty, the connection is closed when it has been sent or after a while,
  and the caller is told. Its timers, the write thread and the other threads that may close the
  connection in the meantime take turns: the step relation \<open>fstep\<close>.
\<close>

section \<open>State\<close>

text \<open>
  The timers of the main loop: \<^verbatim>\<open>wait_for_queue\<close> with the retries left, \<^verbatim>\<open>wait_for_packet_sent\<close>
  (100 ms, again as long as it returns true), and the final \<^verbatim>\<open>close_and_release\<close> (5 s).
\<close>

datatype timer = WaitForQueue nat | WaitForPacketSent | CloseAndRelease

text \<open>What is sent last: nothing, a packet for the encoder, or raw data when there is no encoder.\<close>

datatype last_packet = NoLast | EncodeLast packet | RawLast bytes

fun last_empty :: "last_packet \<Rightarrow> bool" where
  "last_empty NoLast = True"
| "last_empty (EncodeLast pk) = (pk = [])"
| "last_empty (RawLast b) = (b = [])"

text \<open>
  \<open>lock_set\<close>: \<^verbatim>\<open>self._write_lock\<close> is not \<^verbatim>\<open>None\<close>; \<open>lock_held\<close>: the lock is held; \<open>in_write\<close>: what
  the write thread has taken off the queue and not yet marked as done; \<open>done_calls\<close>: how often
  \<^verbatim>\<open>done_callback\<close> was called; \<open>raised\<close>: the exception that ended a call or a timer; \<open>flush_called\<close>:
  \<^verbatim>\<open>self.flush_then_close\<close> has been replaced by \<^verbatim>\<open>closing_already\<close>.
\<close>

record 'c main =
  proto_of :: "'c proto"
  lock_set :: bool
  lock_held :: bool
  in_write :: "write_item option"
  timers :: "timer list"
  done_calls :: nat
  raised :: "py_error option"
  flush_called :: bool

section \<open>Operations\<close>

definition call_done :: "'c main \<Rightarrow> 'c main" where
  "call_done m = m\<lparr>done_calls := done_calls m + 1\<rparr>"

definition main_close :: "reason \<Rightarrow> 'c main \<Rightarrow> 'c main" where
  "main_close msg m = m\<lparr>proto_of := close msg (proto_of m)\<rparr>"

definition add_timer :: "timer \<Rightarrow> 'c main \<Rightarrow> 'c main" where
  "add_timer t m = m\<lparr>timers := timers m @ [t]\<rparr>"

text \<open>Releasing a lock that is not held raises an exception, which is swallowed.\<close>

definition writelockrelease :: "'c main \<Rightarrow> 'c main" where
  "writelockrelease m = (if lock_set m then m\<lparr>lock_held := False\<rparr> else m)"

definition close_and_release :: "'c main \<Rightarrow> 'c main" where
  "close_and_release m = call_done (writelockrelease (main_close NoReason m))"

definition unfinished_tasks :: "'c main \<Rightarrow> nat" where
  "unfinished_tasks m = length (write_queue (proto_of m)) + (if in_write m = None then 0 else 1)"

definition wait_for_packet_sent :: "'c main \<Rightarrow> bool \<times> 'c main" where
  "wait_for_packet_sent m =
     (let is_closed = closed (proto_of m);
          sent = (is_closed \<or> unfinished_tasks m = 0)
      in if sent then (False, close_and_release m) else (\<not> is_closed, m))"

definition queue_last :: "'c env \<Rightarrow> (nat \<Rightarrow> bytes) \<Rightarrow> last_packet \<Rightarrow> 'c proto \<Rightarrow> 'c proto result" where
  "queue_last env rnd lp p =
     (case lp of
        NoLast \<Rightarrow> Inr p
      | EncodeLast [] \<Rightarrow> Inr p
      | EncodeLast (t # args) \<Rightarrow>
          ebind (encode env (t # args) p) (\<lambda>(cs, p').
            add_chunks_to_queue env rnd (str_of_val env t) cs False False p')
      | RawLast b \<Rightarrow> Inr (raw_write [b] (map of_char ''flush-then-close'') True False p))"

definition send_last :: "'c env \<Rightarrow> (nat \<Rightarrow> bytes) \<Rightarrow> last_packet \<Rightarrow> 'c main \<Rightarrow> 'c main" where
  "send_last env rnd lp m =
     (case queue_last env rnd lp (proto_of m) of
        Inl e \<Rightarrow> m\<lparr>raised := Some e\<rparr>
      | Inr p \<Rightarrow>
          let (again, m') = wait_for_packet_sent (m\<lparr>proto_of := p\<rparr>)
          in add_timer CloseAndRelease (if again then add_timer WaitForPacketSent m' else m'))"

definition wait_for_queue :: "'c env \<Rightarrow> (nat \<Rightarrow> bytes) \<Rightarrow> last_packet \<Rightarrow> nat \<Rightarrow> 'c main \<Rightarrow> 'c main" where
  "wait_for_queue env rnd lp timeout m =
     (if write_queue (proto_of m) \<noteq> [] then
        (if timeout = 0 then close_and_release m else add_timer (WaitForQueue (timeout - 1)) m)
      else if last_empty lp then close_and_release m
      else send_last env rnd lp m)"

text \<open>\<open>acquired\<close>: whether the lock could be had within 100 ms.\<close>

definition wait_for_write_lock :: "'c env \<Rightarrow> (nat \<Rightarrow> bytes) \<Rightarrow> last_packet \<Rightarrow> bool \<Rightarrow> 'c main \<Rightarrow> 'c main" where
  "wait_for_write_lock env rnd lp acquired m =
     (if \<not> lock_set m then m
      else if acquired then wait_for_queue env rnd lp 10 (m\<lparr>lock_held := True\<rparr>)
      else call_done (main_close NoReason m))"

definition do_flush_then_close :: "'c env \<Rightarrow> (nat \<Rightarrow> bytes) \<Rightarrow> last_packet \<Rightarrow> bool \<Rightarrow> 'c main \<Rightarrow> 'c main" where
  "do_flush_then_close env rnd lp acquired m =
     (let m = m\<lparr>flush_called := True\<rparr>
      in if closed (proto_of m) then call_done m else wait_for_write_lock env rnd lp acquired m)"

definition flush_then_close :: "'c env \<Rightarrow> (nat \<Rightarrow> bytes) \<Rightarrow> last_packet \<Rightarrow> bool \<Rightarrow> 'c main \<Rightarrow> 'c main" where
  "flush_then_close env rnd lp acquired m =
     (if flush_called m then m else do_flush_then_close env rnd lp acquired m)"

text \<open>\<^verbatim>\<open>clean\<close>, which \<^verbatim>\<open>close\<close> has left for the main loop to run, also forgets the lock.\<close>

definition main_clean :: "'c main \<Rightarrow> 'c main" where
  "main_clean m = m\<lparr>proto_of := clean (proto_of m), lock_set := False\<rparr>"

fun fire :: "'c env \<Rightarrow> (nat \<Rightarrow> bytes) \<Rightarrow> last_packet \<Rightarrow> timer \<Rightarrow> 'c main \<Rightarrow> 'c main" where
  "fire env rnd lp (WaitForQueue n) m = wait_for_queue env rnd lp n m"
| "fire env rnd lp WaitForPacketSent m =
     (let (again, m') = wait_for_packet_sent m in if again then add_timer WaitForPacketSent m' else m')"
| "fire env rnd lp CloseAndRelease m = close_and_release m"

text \<open>
  Who may act next: a timer, the write thread (taking an item, or done with one), anyone who closes
  the connection, and the main loop running \<^verbatim>\<open>clean\<close>.
\<close>

inductive fstep :: "'c env \<Rightarrow> (nat \<Rightarrow> bytes) \<Rightarrow> last_packet \<Rightarrow> 'c main \<Rightarrow> 'c main \<Rightarrow> bool"
  for env rnd lp where
  timer: "timers m = ts @ t # ts' \<Longrightarrow> fstep env rnd lp m (fire env rnd lp t (m\<lparr>timers := ts @ ts'\<rparr>))"
| take: "\<not> closed (proto_of m) \<Longrightarrow> in_write m = None \<Longrightarrow> write_queue (proto_of m) = Some w # q \<Longrightarrow>
    fstep env rnd lp m (m\<lparr>proto_of := (proto_of m)\<lparr>write_queue := q\<rparr>, in_write := Some w\<rparr>)"
| wrote: "in_write m = Some w \<Longrightarrow>
    fstep env rnd lp m (m\<lparr>proto_of := snd (write_items w (proto_of m)), in_write := None\<rparr>)"
| lost: "fstep env rnd lp m (main_close msg m)"
| clean: "closed (proto_of m) \<Longrightarrow> fstep env rnd lp m (main_clean m)"

inductive_cases fstepE: "fstep env rnd lp m m'"

abbreviation fsteps :: "'c env \<Rightarrow> (nat \<Rightarrow> bytes) \<Rightarrow> last_packet \<Rightarrow> 'c main \<Rightarrow> 'c main \<Rightarrow> bool" where
  "fsteps env rnd lp \<equiv> (fstep env rnd lp)\<^sup>*\<^sup>*"

section \<open>What each operation does to the timers and the lock\<close>

lemma main_simps [simp]:
  "timers (call_done m) = timers m" "done_calls (call_done m) = done_calls m + 1"
  "raised (call_done m) = raised m" "proto_of (call_done m) = proto_of m"
  "lock_set (call_done m) = lock_set m" "lock_held (call_done m) = lock_held m"
  "timers (main_close msg m) = timers m" "done_calls (main_close msg m) = done_calls m"
  "raised (main_close msg m) = raised m" "proto_of (main_close msg m) = close msg (proto_of m)"
  "lock_set (main_close msg m) = lock_set m" "lock_held (main_close msg m) = lock_held m"
  "timers (add_timer t m) = timers m @ [t]" "done_calls (add_timer t m) = done_calls m"
  "raised (add_timer t m) = raised m" "proto_of (add_timer t m) = proto_of m"
  "lock_set (add_timer t m) = lock_set m" "lock_held (add_timer t m) = lock_held m"
  by (simp_all add: call_done_def main_close_def add_timer_def)

lemma close_and_release_simps [simp]:
  "timers (close_and_release m) = timers m" "done_calls (close_and_release m) = done_calls m + 1"
  "raised (close_and_release m) = raised m" "proto_of (close_and_release m) = close NoReason (proto_of m)"
  "lock_set (close_and_release m) = lock_set m" "lock_held (close_and_release m) = (lock_held m \<and> \<not> lock_set m)"
  by (simp_all add: close_and_release_def writelockrelease_def)

lemma closed_write_items [simp]: "closed (snd (write_items w p)) = closed p"
  by (simp add: write_items_def write_buffers_def Let_def split: option.splits prod.splits)

lemma closed_clean [simp]: "closed (clean p) = closed p"
  by (simp add: clean_def)

lemma wait_for_packet_sent_cases:
  "(\<not> closed (proto_of m) \<and> wait_for_packet_sent m = (True, m)) \<or> wait_for_packet_sent m = (False, close_and_release m)"
  by (simp add: wait_for_packet_sent_def Let_def)

section \<open>The phases of a call\<close>

text \<open>
  Waiting for the queue; sent nothing and closed; waiting for the last packet with both timers;
  closed by one of them with the other still to come; closed by both; or ended by an exception.
\<close>

fun phase :: "timer list \<Rightarrow> bool \<Rightarrow> nat \<Rightarrow> py_error option \<Rightarrow> bool" where
  "phase [WaitForQueue n] c d e = (n < 10 \<and> d = 0 \<and> e = None)"
| "phase [WaitForPacketSent, CloseAndRelease] c d e = (d = 0 \<and> e = None)"
| "phase [CloseAndRelease, WaitForPacketSent] c d e = (d = 0 \<and> e = None)"
| "phase [WaitForPacketSent] c d e = (c \<and> d = 1 \<and> e = None)"
| "phase [CloseAndRelease] c d e = (c \<and> d = 1 \<and> e = None)"
| "phase [] c d e = (e \<noteq> None \<and> d = 0 \<or> e = None \<and> c \<and> (d = 1 \<or> d = 2))"
| "phase _ c d e = False"

definition in_phase :: "'c main \<Rightarrow> bool" where
  "in_phase m = phase (timers m) (closed (proto_of m)) (done_calls m) (raised m)"

lemma in_phase_eq: "\<lbrakk>timers m' = timers m; closed (proto_of m) \<longrightarrow> closed (proto_of m'); done_calls m' = done_calls m;
    raised m' = raised m; in_phase m\<rbrakk> \<Longrightarrow> in_phase m'"
  unfolding in_phase_def
  by (rule phase.cases [of "(timers m, closed (proto_of m), done_calls m, raised m)"]) auto

lemma send_last_phase:
  assumes "timers m = []" "done_calls m = 0" "raised m = None"
  shows "in_phase (send_last env rnd lp m)"
proof (cases "queue_last env rnd lp (proto_of m)")
  case (Inl e)
  with assms show ?thesis by (simp add: send_last_def in_phase_def)
next
  case (Inr p)
  with assms wait_for_packet_sent_cases [of "m\<lparr>proto_of := p\<rparr>"] show ?thesis
    by (auto simp: send_last_def in_phase_def)
qed

lemma wait_for_queue_phase:
  assumes "timers m = []" "done_calls m = 0" "raised m = None" "n \<le> 10"
  shows "in_phase (wait_for_queue env rnd lp n m)"
  using assms send_last_phase [of m env rnd lp] by (auto simp: wait_for_queue_def in_phase_def)

lemma flush_phase:
  assumes "timers m = []" "done_calls m = 0" "raised m = None" "lock_set m"
  shows "in_phase (do_flush_then_close env rnd lp acquired m)"
  using assms wait_for_queue_phase [of "m\<lparr>flush_called := True, lock_held := True\<rparr>" 10 env rnd lp]
  by (auto simp: do_flush_then_close_def Let_def wait_for_write_lock_def in_phase_def)

lemma fire_phase:
  assumes "in_phase m" "timers m = ts @ t # ts'"
  shows "in_phase (fire env rnd lp t (m\<lparr>timers := ts @ ts'\<rparr>))"
proof -
  let ?m = "m\<lparr>timers := ts @ ts'\<rparr>"
  have ph: "phase (ts @ t # ts') (closed (proto_of m)) (done_calls m) (raised m)"
    using assms by (simp add: in_phase_def)
  show ?thesis
  proof (cases t)
    case (WaitForQueue n)
    then have "ts = []" "ts' = []" "n < 10" "done_calls m = 0" "raised m = None"
      using ph by (auto elim!: phase.elims simp: append_eq_Cons_conv Cons_eq_append_conv)
    then show ?thesis using wait_for_queue_phase [of ?m n env rnd lp] WaitForQueue by simp
  next
    case WaitForPacketSent
    with ph wait_for_packet_sent_cases [of ?m] show ?thesis
      by (auto elim!: phase.elims simp: in_phase_def append_eq_Cons_conv Cons_eq_append_conv)
  next
    case CloseAndRelease
    with ph show ?thesis
      by (auto elim!: phase.elims simp: in_phase_def append_eq_Cons_conv Cons_eq_append_conv)
  qed
qed

lemma fstep_phase:
  assumes "fstep env rnd lp m m'" "in_phase m"
  shows "in_phase m'"
  using assms(1)
proof cases
  case timer
  then show ?thesis using fire_phase assms(2) by blast
qed (auto intro: in_phase_eq [OF _ _ _ _ assms(2)] simp: main_clean_def)

lemma fsteps_phase:
  assumes "fsteps env rnd lp m m'" "in_phase m"
  shows "in_phase m'"
  using assms by induction (auto intro: fstep_phase)

section \<open>Every call ends\<close>

text \<open>
  C34: \<^verbatim>\<open>flush_then_close\<close> ends: whatever the write thread does and whoever else closes the
  connection, when no timer of it is left the connection is closed and the caller has been told,
  unless the last packet could not be encoded.
\<close>

theorem flush_then_close_ends:
  assumes "timers m = []" "done_calls m = 0" "raised m = None" "lock_set m"
    and "fsteps env rnd lp (do_flush_then_close env rnd lp acquired m) m'" "timers m' = []"
  shows "raised m' \<noteq> None \<or> closed (proto_of m') \<and> done_calls m' \<in> {1, 2}"
  using fsteps_phase [OF assms(5) flush_phase [OF assms(1-4)]] assms(6)
  by (auto simp: in_phase_def)

text \<open>A connection with nothing queued, closed with one byte of raw data to send last.\<close>

definition flush_idle :: "unit main" where
  "flush_idle = \<lparr>proto_of = ping_proto [], lock_set = True, lock_held = False, in_write = None,
     timers = [], done_calls = 0, raised = None, flush_called = False\<rparr>"

definition flush_begun :: "unit main" where
  "flush_begun = do_flush_then_close ping_env (\<lambda>_. []) (RawLast [1]) True flush_idle"

lemma flush_begun_timers: "timers flush_begun = [WaitForPacketSent, CloseAndRelease]"
  by (simp add: flush_begun_def flush_idle_def do_flush_then_close_def wait_for_write_lock_def wait_for_queue_def
      send_last_def queue_last_def wait_for_packet_sent_def unfinished_tasks_def raw_write_def ping_proto_def)

text \<open>The 5 s timer fires first, then the next check.\<close>

definition flush_over :: "unit main" where
  "flush_over = fire ping_env (\<lambda>_. []) (RawLast [1]) WaitForPacketSent
     ((fire ping_env (\<lambda>_. []) (RawLast [1]) CloseAndRelease
       (flush_begun\<lparr>timers := [WaitForPacketSent]\<rparr>))\<lparr>timers := []\<rparr>)"

lemma flush_over_run: "fsteps ping_env (\<lambda>_. []) (RawLast [1]) flush_begun flush_over"
proof -
  let ?m = "fire ping_env (\<lambda>_. []) (RawLast [1]) CloseAndRelease (flush_begun\<lparr>timers := [WaitForPacketSent]\<rparr>)"
  have "fstep ping_env (\<lambda>_. []) (RawLast [1]) flush_begun ?m"
    using fstep.timer [of flush_begun "[WaitForPacketSent]" CloseAndRelease "[]"] flush_begun_timers by simp
  moreover have "timers ?m = [WaitForPacketSent]" by simp
  then have "fstep ping_env (\<lambda>_. []) (RawLast [1]) ?m flush_over"
    using fstep.timer [of ?m "[]" WaitForPacketSent "[]"] unfolding flush_over_def by simp
  ultimately show ?thesis by (meson r_into_rtranclp rtranclp.rtrancl_into_rtrancl)
qed

lemma flush_over_end: "timers flush_over = []" "raised flush_over = None"
proof -
  have "raised flush_begun = None"
    by (simp add: flush_begun_def flush_idle_def do_flush_then_close_def wait_for_write_lock_def wait_for_queue_def
        send_last_def queue_last_def wait_for_packet_sent_def unfinished_tasks_def raw_write_def ping_proto_def)
  then show "timers flush_over = []" "raised flush_over = None"
    by (simp_all add: flush_over_def wait_for_packet_sent_def)
qed

theorem flush_then_close_ends_witness: "closed (proto_of flush_over) \<and> done_calls flush_over \<in> {1, 2}"
proof -
  have i: "timers flush_idle = []" "done_calls flush_idle = 0" "raised flush_idle = None" "lock_set flush_idle"
    by (simp_all add: flush_idle_def)
  from flush_then_close_ends [OF i flush_over_run [unfolded flush_begun_def] flush_over_end(1)] flush_over_end(2)
  show ?thesis by simp
qed

text \<open>
  C35: the timers do run out: each time one fires, except for a check that finds the last packet
  still unsent, the sum of the weights of those that are left goes down, and nothing else adds any.
\<close>

fun timer_weight :: "timer \<Rightarrow> nat" where
  "timer_weight (WaitForQueue n) = n + 3"
| "timer_weight WaitForPacketSent = 1"
| "timer_weight CloseAndRelease = 1"

definition timers_weight :: "'c main \<Rightarrow> nat" where
  "timers_weight m = sum_list (map timer_weight (timers m))"

lemma wait_for_queue_weight: "timers_weight (wait_for_queue env rnd lp n m) < n + 3 + timers_weight m"
proof -
  have "timers_weight (send_last env rnd lp m) \<le> timers_weight m + 2"
  proof (cases "queue_last env rnd lp (proto_of m)")
    case (Inr p)
    with wait_for_packet_sent_cases [of "m\<lparr>proto_of := p\<rparr>"] show ?thesis
      by (auto simp: send_last_def timers_weight_def)
  qed (simp add: send_last_def timers_weight_def)
  then show ?thesis by (simp add: wait_for_queue_def timers_weight_def)
qed

theorem flush_timers_run_out:
  assumes "timers m = ts @ t # ts'"
    and "t = WaitForPacketSent \<longrightarrow> closed (proto_of m) \<or> unfinished_tasks m = 0"
  shows "timers_weight (fire env rnd lp t (m\<lparr>timers := ts @ ts'\<rparr>)) < timers_weight m"
proof -
  let ?m = "m\<lparr>timers := ts @ ts'\<rparr>"
  have w: "timers_weight m = timer_weight t + timers_weight ?m"
    using assms(1) by (simp add: timers_weight_def)
  show ?thesis
  proof (cases t)
    case (WaitForQueue n)
    then show ?thesis using wait_for_queue_weight [of env rnd lp n ?m] w by simp
  next
    case WaitForPacketSent
    then have "wait_for_packet_sent ?m = (False, close_and_release ?m)"
      using assms(2) by (auto simp: wait_for_packet_sent_def unfinished_tasks_def)
    then show ?thesis
      using WaitForPacketSent w by (simp add: timers_weight_def)
  next
    case CloseAndRelease
    then show ?thesis using w by (simp add: timers_weight_def)
  qed
qed

theorem flush_timers_run_out_witness:
  "timers_weight (fire ping_env (\<lambda>_. []) (RawLast [1]) CloseAndRelease
     (flush_begun\<lparr>timers := [WaitForPacketSent] @ []\<rparr>)) < timers_weight flush_begun"
  by (rule flush_timers_run_out) (simp_all add: flush_begun_timers)

section \<open>What goes wrong\<close>

text \<open>
  The last packet has been queued: both timers are set or have fired, each once.
\<close>

definition last_queued :: "'c main \<Rightarrow> bool" where
  "last_queued m \<longleftrightarrow> raised m = None \<and> (\<forall>n. WaitForQueue n \<notin> set (timers m)) \<and>
     length (timers m) + done_calls m = 2"

lemma last_queued_timers: "in_phase m \<Longrightarrow> CloseAndRelease \<in> set (timers m) \<Longrightarrow> last_queued m"
  unfolding in_phase_def last_queued_def
  by (rule phase.cases [of "(timers m, closed (proto_of m), done_calls m, raised m)"]) auto

lemma fstep_last_queued:
  assumes "fstep env rnd lp m m'" "last_queued m"
  shows "last_queued m'"
  using assms(1)
proof cases
  case (timer ts t ts')
  with assms(2) wait_for_packet_sent_cases [of "m\<lparr>timers := ts @ ts'\<rparr>"] show ?thesis
    by (cases t) (auto simp: last_queued_def)
qed (use assms(2) in \<open>auto simp: last_queued_def main_clean_def\<close>)

text \<open>
  Once the last packet is queued, the caller's \<^verbatim>\<open>done_callback\<close> is called twice, every time:
  the final timer is set even when the connection is closed at once, and is never cancelled.
\<close>

theorem flush_done_twice:
  assumes "timers m = []" "done_calls m = 0" "raised m = None" "lock_set m"
    and "fsteps env rnd lp (do_flush_then_close env rnd lp acquired m) m'"
    and "CloseAndRelease \<in> set (timers m')" "fsteps env rnd lp m' m''" "timers m'' = []"
  shows "done_calls m'' = 2"
proof -
  have "last_queued m'"
    using last_queued_timers fsteps_phase [OF assms(5) flush_phase [OF assms(1-4)]] assms(6) by blast
  with assms(7) have "last_queued m''" by induction (auto intro: fstep_last_queued)
  with assms(8) show ?thesis by (simp add: last_queued_def)
qed

theorem flush_done_twice_witness: "done_calls flush_over = 2"
proof -
  have i: "timers flush_idle = []" "done_calls flush_idle = 0" "raised flush_idle = None" "lock_set flush_idle"
    by (simp_all add: flush_idle_def)
  have b: "fsteps ping_env (\<lambda>_. []) (RawLast [1])
      (do_flush_then_close ping_env (\<lambda>_. []) (RawLast [1]) True flush_idle) flush_begun"
    by (simp add: flush_begun_def)
  show ?thesis
    by (rule flush_done_twice [OF i b _ flush_over_run flush_over_end(1)]) (simp add: flush_begun_timers)
qed

text \<open>
  When the connection is lost and cleaned up while \<^verbatim>\<open>flush_then_close\<close> holds the write lock,
  nothing releases that lock any more: \<^verbatim>\<open>clean\<close> has dropped the reference that
  \<^verbatim>\<open>close_and_release\<close> releases it through.
\<close>

theorem flush_lock_never_released:
  assumes "fsteps env rnd lp m m'" "lock_held m" "\<not> lock_set m"
  shows "lock_held m' \<and> \<not> lock_set m'"
  using assms
proof induction
  case (step m1 m2)
  then have l: "lock_held m1" "\<not> lock_set m1" by simp_all
  from step(2) show ?case
  proof cases
    case (timer ts t ts')
    let ?m = "m1\<lparr>timers := ts @ ts'\<rparr>"
    have "lock_held (send_last env rnd lp m) \<and> \<not> lock_set (send_last env rnd lp m)"
      if "lock_held m" "\<not> lock_set m" for m
    proof (cases "queue_last env rnd lp (proto_of m)")
      case (Inr p)
      with that wait_for_packet_sent_cases [of "m\<lparr>proto_of := p\<rparr>"] show ?thesis
        by (auto simp: send_last_def)
    qed (use that in \<open>simp add: send_last_def\<close>)
    with timer l wait_for_packet_sent_cases [of ?m] show ?thesis
      by (cases t) (auto simp: wait_for_queue_def)
  qed (use l in \<open>simp_all add: main_clean_def\<close>)
qed simp

theorem flush_lock_never_released_witness:
  "\<exists>m m'. fsteps ping_env (\<lambda>_. []) (RawLast [1]) flush_begun m \<and> lock_held m \<and> \<not> lock_set m \<and>
     fsteps ping_env (\<lambda>_. []) (RawLast [1]) m m' \<and> timers m' = [] \<and> lock_held m'"
proof -
  let ?s = "fstep ping_env (\<lambda>_. []) (RawLast [1])"
  let ?l = "main_close NoReason flush_begun"
  let ?c = "main_clean ?l"
  let ?a = "fire ping_env (\<lambda>_. []) (RawLast [1]) CloseAndRelease (?c\<lparr>timers := [WaitForPacketSent]\<rparr>)"
  let ?b = "fire ping_env (\<lambda>_. []) (RawLast [1]) WaitForPacketSent (?a\<lparr>timers := []\<rparr>)"
  have h: "lock_held ?c" "\<not> lock_set ?c"
    by (simp_all add: main_clean_def flush_begun_def flush_idle_def do_flush_then_close_def wait_for_write_lock_def
        wait_for_queue_def send_last_def queue_last_def wait_for_packet_sent_def unfinished_tasks_def raw_write_def
        ping_proto_def)
  have "?s flush_begun ?l" by (rule fstep.lost)
  moreover have "?s ?l ?c" by (rule fstep.clean) simp
  ultimately have one: "?s\<^sup>*\<^sup>* flush_begun ?c" by (meson r_into_rtranclp rtranclp.rtrancl_into_rtrancl)
  have "timers ?c = [WaitForPacketSent] @ CloseAndRelease # []" by (simp add: main_clean_def flush_begun_timers)
  then have "?s ?c ?a" using fstep.timer [of ?c "[WaitForPacketSent]" CloseAndRelease "[]"] by simp
  moreover have "timers ?a = [] @ WaitForPacketSent # []" by simp
  then have "?s ?a ?b" using fstep.timer [of ?a "[]" WaitForPacketSent "[]"] by simp
  ultimately have two: "?s\<^sup>*\<^sup>* ?c ?b" by (meson r_into_rtranclp rtranclp.rtrancl_into_rtrancl)
  have "timers ?b = []" by (simp add: wait_for_packet_sent_def main_clean_def)
  with one two h flush_lock_never_released [OF two h] show ?thesis by blast
qed

end
