(* ===== verification/WebSocketFrames.thy ===== *)
theory WebSocketFrames
  imports Framing "HOL-Library.Word"
begin

unbundle bit_operations_syntax

text \<open>
  Websocket frames: \<^verbatim>\<open>src/xpra/net/websockets/header.py\<close> and the masking routine of
  \<^verbatim>\<open>src/xpra/net/websockets/mask.pyx\<close>, which works on 32-bit words from the first aligned
  address on. It is shown to be the plain byte-by-byte masking wherever the data happens to lie,
  and encoding and decoding a frame to be inverse to each other.
\<close>

section \<open>Masking\<close>

definition MAX_WEBSOCKET_PAYLOAD :: nat where "MAX_WEBSOCKET_PAYLOAD = 0x3FFFFFFF"

text \<open>A 32-bit load and store on a little-endian machine.\<close>

definition load32 :: "bytes \<Rightarrow> nat \<Rightarrow> 32 word" where
  "load32 b i = (\<Sum>k\<leftarrow>[0..<4]. push_bit (8 * k) (ucast (b ! (i + k))))"

definition store32 :: "32 word \<Rightarrow> bytes" where
  "store32 w = map (\<lambda>k. ucast (drop_bit (8 * k) w)) [0..<4]"

text \<open>
  \<^verbatim>\<open>do_hybi_mask\<close>; \<open>dp\<close> is the address of the data. The output buffer is shifted so that it has the
  same alignment as the input; what is returned starts after the shift.
\<close>

definition do_hybi_mask :: "nat \<Rightarrow> bytes \<Rightarrow> bytes \<Rightarrow> bytes result" where
  "do_hybi_mask dp key d =
     (let datalen = length d
      in if datalen > MAX_WEBSOCKET_PAYLOAD then Inl ValueError
      else
        let align = dp mod 4;
            initial_chars = 4 - align;
            first = map (\<lambda>i. d ! i XOR key ! (i mod 4)) [0..<min initial_chars datalen];
            uint32_steps = (datalen - initial_chars) div 4;
            mask_value = foldl (\<lambda>v i. push_bit 8 v + ucast (key ! ((3 - i + initial_chars) mod 4))) (0::32 word) [0..<4];
            words = concat (map (\<lambda>i. store32 (load32 d (initial_chars + 4 * i) XOR mask_value)) [0..<uint32_steps]);
            last_chars = (datalen - initial_chars) mod 4;
            final = map (\<lambda>i. let j = datalen - last_chars + i in d ! j XOR key ! (j mod 4)) [0..<last_chars]
        in Inr (first @ words @ final))"

definition hybi_mask :: "nat \<Rightarrow> bytes \<Rightarrow> bytes \<Rightarrow> bytes result" where
  "hybi_mask dp key d = (if length key \<noteq> 4 then Inl ValueError else do_hybi_mask dp key d)"

text \<open>
  \<^verbatim>\<open>hybi_unmask\<close>: the mask is at the offset, the data follows it. The length check is made with
  32-bit unsigned arithmetic. \<open>bp\<close> is the address of the buffer.
\<close>

definition hybi_unmask :: "nat \<Rightarrow> bytes \<Rightarrow> nat \<Rightarrow> nat \<Rightarrow> bytes result" where
  "hybi_unmask bp buf offset datalen =
     (if length buf < (offset + 4 + datalen) mod 2 ^ 32 then Inl ValueError
      else do_hybi_mask (bp + offset + 4) (take 4 (drop offset buf)) (take datalen (drop (offset + 4) buf)))"

text \<open>What it has to compute.\<close>

definition xor_mask :: "bytes \<Rightarrow> bytes \<Rightarrow> bytes" where
  "xor_mask key d = map (\<lambda>i. d ! i XOR key ! (i mod 4)) [0..<length d]"

lemma length_xor_mask [simp]: "length (xor_mask key d) = length d"
  by (simp add: xor_mask_def)

lemma xor_mask_twice [simp]: "xor_mask key (xor_mask key d) = d"
  by (rule nth_equalityI) (simp_all add: xor_mask_def ac_simps)

lemma nth_store32: "k < 4 \<Longrightarrow> store32 w ! k = ucast (drop_bit (8 * k) w)"
  by (simp add: store32_def)

lemma upt_4: "[0..<4] = [0, 1, 2, 3::nat]"
  by (simp add: upt_rec)

lemma lt_4: "k < 4 \<longleftrightarrow> k = 0 \<or> k = 1 \<or> k = 2 \<or> k = (3::nat)"
  by arith

text \<open>Words put together from four bytes, and their bytes.\<close>

definition word4 :: "byte \<Rightarrow> byte \<Rightarrow> byte \<Rightarrow> byte \<Rightarrow> 32 word" where
  "word4 a b c d = ucast a OR push_bit 8 (ucast b) OR push_bit 16 (ucast c) OR push_bit 24 (ucast d)"

lemma byte_bit: "bit (b::byte) n \<Longrightarrow> n < 8"
  using bit_imp_le_length [of b n] by simp

lemma word4_bytes:
  "(ucast (word4 a b c d) :: byte) = a" "(ucast (drop_bit 8 (word4 a b c d)) :: byte) = b"
  "(ucast (drop_bit 16 (word4 a b c d)) :: byte) = c" "(ucast (drop_bit 24 (word4 a b c d)) :: byte) = d"
  by (rule bit_word_eqI; auto simp: word4_def bit_simps dest: byte_bit)+

lemma word4_xor: "word4 a b c d XOR word4 a' b' c' d' = word4 (a XOR a') (b XOR b') (c XOR c') (d XOR d')"
  by (rule bit_word_eqI) (auto simp: word4_def bit_simps dest: byte_bit)

lemma plus_or: "(\<And>n. \<not> (bit x n \<and> bit y n)) \<Longrightarrow> x + y = x OR (y::32 word)"
  by (rule disjunctive_add_eq_or) (auto intro!: bit_word_eqI simp: bit_simps)

lemma word4_plus:
  "ucast a + (push_bit 8 (ucast b) + (push_bit 16 (ucast c) + push_bit 24 (ucast d))) = word4 a b c d"
proof -
  have 1: "push_bit 16 (ucast c) + push_bit 24 (ucast d) = push_bit 16 (ucast c) OR push_bit 24 (ucast d :: 32 word)"
    by (rule plus_or) (auto simp: bit_simps dest: byte_bit)
  have 2: "push_bit 8 (ucast b) + (push_bit 16 (ucast c) OR push_bit 24 (ucast d)) =
      push_bit 8 (ucast b) OR (push_bit 16 (ucast c) OR push_bit 24 (ucast d :: 32 word))"
    by (rule plus_or) (auto simp: bit_simps dest: byte_bit)
  have 3: "ucast a + (push_bit 8 (ucast b) OR (push_bit 16 (ucast c) OR push_bit 24 (ucast d))) =
      ucast a OR (push_bit 8 (ucast b) OR (push_bit 16 (ucast c) OR push_bit 24 (ucast d :: 32 word)))"
    by (rule plus_or) (auto simp: bit_simps dest: byte_bit)
  show ?thesis unfolding 1 2 3 word4_def by (simp add: ac_simps)
qed

lemma load32_word4: "load32 b i = word4 (b ! i) (b ! (i + 1)) (b ! (i + 2)) (b ! (i + 3))"
  unfolding load32_def upt_4 using word4_plus [of "b ! i" "b ! (i + 1)" "b ! (i + 2)" "b ! (i + 3)"] by simp

lemma horner_word4:
  "push_bit 8 (push_bit 8 (push_bit 8 (ucast d) + ucast c) + ucast b) + ucast a = word4 a b c d"
  unfolding word4_plus [symmetric] by (simp add: push_bit_add algebra_simps push_bit_eq_mult)

lemma do_hybi_mask_words:
  assumes "length key = 4" "a < (4::nat)" "4 - a + 4 * i + 4 \<le> length d"
  shows "store32 (load32 d (4 - a + 4 * i) XOR
      foldl (\<lambda>v k. push_bit 8 v + ucast (key ! ((3 - k + (4 - a)) mod 4))) (0::32 word) [0..<4]) =
    map (\<lambda>k. d ! (4 - a + 4 * i + k) XOR key ! ((4 - a + 4 * i + k) mod 4)) [0..<4]"
proof -
  let ?c = "4 - a"
  have "foldl (\<lambda>v k. push_bit 8 v + ucast (key ! ((3 - k + ?c) mod 4))) (0::32 word) [0..<4] =
      word4 (key ! (?c mod 4)) (key ! ((1 + ?c) mod 4)) (key ! ((2 + ?c) mod 4)) (key ! ((3 + ?c) mod 4))"
    unfolding upt_4 horner_word4 [symmetric] by simp
  moreover have m: "(c + 4 * i + k) mod 4 = (k + c) mod 4" for c k :: nat
    by presburger
  have "map (\<lambda>k. d ! (?c + 4 * i + k) XOR key ! ((?c + 4 * i + k) mod 4)) [0..<4] =
      map (\<lambda>k. d ! (?c + 4 * i + k) XOR key ! ((k + ?c) mod 4)) [0..<4]"
    by (simp only: m)
  moreover have "store32 (word4 a b e f) = [a, b, e, f]" for a b e f
    by (simp add: store32_def upt_4 word4_bytes)
  ultimately show ?thesis
    by (simp only: load32_word4 word4_xor upt_4 list.map add_0_left add_0_right)
qed

lemma concat_blocks:
  "concat (map (\<lambda>i. map (\<lambda>k. f (c + 4 * i + k)) [0..<4]) [0..<n]) = map f [c..<c + 4 * n]"
proof (induction n)
  case (Suc n)
  have "map f [c..<c + 4 * Suc n] = map f [c..<c + 4 * n] @ map f [c + 4 * n..<c + 4 * n + 4]"
    using upt_add_eq_append [of c "c + 4 * n" 4] by (simp add: add.commute add.left_commute)
  moreover have "map f [c + 4 * n..<c + 4 * n + 4] = map (\<lambda>k. f (c + 4 * n + k)) [0..<4]"
    by (rule nth_equalityI) simp_all
  ultimately show ?case using Suc.IH by simp
qed simp

lemma do_hybi_mask_eq:
  assumes "length key = 4"
  shows "do_hybi_mask dp key d = (if length d \<le> MAX_WEBSOCKET_PAYLOAD then Inr (xor_mask key d) else Inl ValueError)"
proof (cases "length d \<le> MAX_WEBSOCKET_PAYLOAD")
  case True
  define c where "c = 4 - dp mod 4"
  define n where "n = (length d - c) div 4"
  define f where "f = (\<lambda>i. d ! i XOR key ! (i mod 4))"
  have c: "c \<le> 4" "0 < c" by (simp_all add: c_def)
  have "concat (map (\<lambda>i. store32 (load32 d (c + 4 * i) XOR
      foldl (\<lambda>v k. push_bit 8 v + ucast (key ! ((3 - k + c) mod 4))) (0::32 word) [0..<4])) [0..<n]) =
    concat (map (\<lambda>i. map (\<lambda>k. f (c + 4 * i + k)) [0..<4]) [0..<n])"
  proof (rule arg_cong [where f = concat], rule map_cong [OF refl])
    fix i assume "i \<in> set [0..<n]"
    then have "c + 4 * i + 4 \<le> length d" by (simp add: n_def)
    then show "store32 (load32 d (c + 4 * i) XOR
        foldl (\<lambda>v k. push_bit 8 v + ucast (key ! ((3 - k + c) mod 4))) (0::32 word) [0..<4]) =
        map (\<lambda>k. f (c + 4 * i + k)) [0..<4]"
      using do_hybi_mask_words [OF assms, of "dp mod 4" i d] by (simp add: c_def f_def)
  qed
  then have w: "concat (map (\<lambda>i. store32 (load32 d (c + 4 * i) XOR
      foldl (\<lambda>v k. push_bit 8 v + ucast (key ! ((3 - k + c) mod 4))) (0::32 word) [0..<4])) [0..<n]) =
    map f [c..<c + 4 * n]" by (simp add: concat_blocks)
  define l where "l = (length d - c) mod 4"
  have "map (\<lambda>i. f (length d + i - l)) [0..<l] = map f [length d - l..<length d]"
    by (rule nth_equalityI) (auto simp: l_def add.commute intro!: arg_cong [where f = f])
  then have "do_hybi_mask dp key d = Inr (map f [0..<min c (length d)] @ map f [c..<c + 4 * n] @ map f [length d - l..<length d])"
    using True w by (simp add: do_hybi_mask_def Let_def c_def [symmetric] n_def [symmetric] l_def [symmetric] f_def [symmetric])
  also have "map f [0..<min c (length d)] @ map f [c..<c + 4 * n] @ map f [length d - l..<length d] = map f [0..<length d]"
  proof (cases "c \<le> length d")
    case True
    then have len: "length d = c + (4 * n + l)"
      by (simp add: l_def n_def)
    have "[0..<c + (4 * n + l)] = [0..<c] @ [c..<c + 4 * n] @ [c + 4 * n..<c + (4 * n + l)]"
      using upt_add_eq_append [of 0 c "4 * n + l"] upt_add_eq_append [of c "c + 4 * n" l] by (simp add: add.assoc)
    then show ?thesis unfolding len by simp
  next
    case False
    then show ?thesis by (simp add: n_def l_def min_def)
  qed
  also have "map f [0..<length d] = xor_mask key d" by (simp add: f_def xor_mask_def)
  finally show ?thesis using True by simp
qed (simp add: do_hybi_mask_def)

text \<open>
  The masking routine, which handles the bytes up to the first aligned address, then whole
  words, then the last bytes, masks every byte with the byte of the key at its position modulo 4,
  wherever in memory the data lies; and refuses what is over the limit.
\<close>

theorem do_hybi_mask_xor:
  assumes "length key = 4"
  shows "do_hybi_mask dp key d = (if length d \<le> MAX_WEBSOCKET_PAYLOAD then Inr (xor_mask key d) else Inl ValueError)"
  using assms by (rule do_hybi_mask_eq)

theorem do_hybi_mask_xor_witness:
  "do_hybi_mask 3 [1, 2, 3, 4] [10, 20, 30, 40, 50, 60, 70, 80, 90] =
     Inr (xor_mask [1, 2, 3, 4] [10, 20, 30, 40, 50, 60, 70, 80, 90])"
  by (subst do_hybi_mask_xor) (simp_all add: MAX_WEBSOCKET_PAYLOAD_def)

section \<open>Frame headers\<close>

definition OPCODE_CONTINUE :: int where "OPCODE_CONTINUE = 0"
definition OPCODE_TEXT :: int where "OPCODE_TEXT = 1"
definition OPCODE_BINARY :: int where "OPCODE_BINARY = 2"
definition OPCODE_CLOSE :: int where "OPCODE_CLOSE = 8"
definition OPCODE_PING :: int where "OPCODE_PING = 9"
definition OPCODE_PONG :: int where "OPCODE_PONG = 10"

lemmas opcode_defs = OPCODE_CONTINUE_def OPCODE_TEXT_def OPCODE_BINARY_def OPCODE_CLOSE_def
  OPCODE_PING_def OPCODE_PONG_def

definition encode_hybi_header :: "int \<Rightarrow> nat \<Rightarrow> bool \<Rightarrow> bool \<Rightarrow> bytes result" where
  "encode_hybi_header opcode payload_len has_mask fin =
     (if opcode AND 15 \<noteq> opcode then Inl ValueError
      else
        let mask_bit = (if has_mask then 128 else 0);
            b1 = word_of_int (opcode OR (if fin then 128 else 0))
        in if payload_len \<le> 125 then Inr [b1, word_of_int (int payload_len OR mask_bit)]
           else if payload_len < 65536 then Inr ([b1, word_of_int (126 OR mask_bit)] @ be_bytes 2 (int payload_len))
           else if payload_len < 2 ^ 64 then Inr ([b1, word_of_int (127 OR mask_bit)] @ be_bytes 8 (int payload_len))
           else Inl StructError)"

text \<open>
  \<^verbatim>\<open>decode_hybi\<close>: nothing while the buffer is too short, else the opcode, the payload, how much was
  consumed, and whether the frame is final. \<open>addr\<close> gives the address of a buffer.
\<close>

definition decode_hybi :: "(bytes \<Rightarrow> nat) \<Rightarrow> bytes \<Rightarrow> (int \<times> bytes \<times> nat \<times> bool) option result" where
  "decode_hybi addr buf =
     (let blen = length buf
      in if blen < 2 then Inr None
      else
        let b1 = buf ! 0; b2 = buf ! 1;
            opcode = uint (b1 AND 15);
            fin = (b1 AND 128 \<noteq> 0);
            masked = (b2 AND 128 \<noteq> 0);
            hlen = (if masked then 6 else 2)
        in if masked \<and> blen < hlen then Inr None
        else
          let len7 = unat (b2 AND 127);
              hlen = hlen + (if len7 = 126 then 2 else if len7 = 127 then 8 else 0)
          in if blen < hlen then Inr None
          else
            let payload_len = (if len7 = 126 then nat (be_int (take 2 (drop 2 buf)))
                  else if len7 = 127 then nat (be_int (take 8 (drop 2 buf))) else len7);
                frame_len = hlen + payload_len
            in if blen < frame_len then Inr None
            else
              ebind (if masked then hybi_unmask (addr buf) buf (hlen - 4) payload_len
                     else Inr (take payload_len (drop hlen buf)))
                (\<lambda>payload. Inr (Some (opcode, payload, frame_len, fin))))"

definition close_packet :: "int \<Rightarrow> bytes \<Rightarrow> bytes result" where
  "close_packet code reason =
     (if code < 0 \<or> 65536 \<le> code then Inl StructError
      else
        let d = be_bytes 2 code @ reason
        in ebind (encode_hybi_header OPCODE_CLOSE (length d) False True) (\<lambda>header. Inr (header @ d)))"

section \<open>Decoding a buffer that grows\<close>

text \<open>The header alone: what the frame's first bytes say of its shape.\<close>

definition frame_hlen :: "bytes \<Rightarrow> nat" where
  "frame_hlen buf = (if buf ! 1 AND 128 \<noteq> 0 then 6 else 2) +
     (if buf ! 1 AND 127 = 126 then 2 else if buf ! 1 AND 127 = 127 then 8 else 0)"

definition frame_payload_len :: "bytes \<Rightarrow> nat" where
  "frame_payload_len buf =
     (if buf ! 1 AND 127 = 126 then nat (be_int (take 2 (drop 2 buf)))
      else if buf ! 1 AND 127 = 127 then nat (be_int (take 8 (drop 2 buf))) else unat (buf ! 1 AND 127))"

definition frame_complete :: "bytes \<Rightarrow> bool" where
  "frame_complete buf \<longleftrightarrow> 2 \<le> length buf \<and> frame_hlen buf \<le> length buf \<and>
     frame_hlen buf + frame_payload_len buf \<le> length buf"

lemma unat_and_127: "unat (b AND 127 :: byte) = 126 \<longleftrightarrow> b AND 127 = 126" "unat (b AND 127 :: byte) = 127 \<longleftrightarrow> b AND 127 = 127"
  by (simp_all add: word_unat_eq_iff)

lemma decode_hybi_eq:
  "decode_hybi addr buf =
     (if \<not> frame_complete buf then Inr None
      else ebind (if buf ! 1 AND 128 \<noteq> 0 then hybi_unmask (addr buf) buf (frame_hlen buf - 4) (frame_payload_len buf)
                  else Inr (take (frame_payload_len buf) (drop (frame_hlen buf) buf)))
        (\<lambda>payload. Inr (Some (uint (buf ! 0 AND 15), payload, frame_hlen buf + frame_payload_len buf, buf ! 0 AND 128 \<noteq> 0))))"
proof -
  let ?m = "buf ! 1 AND 128 \<noteq> 0"
  have h: "(if ?m then 6 else 2) + (if unat (buf ! 1 AND 127) = 126 then 2 else if unat (buf ! 1 AND 127) = 127 then 8 else 0) =
      frame_hlen buf"
    by (simp add: frame_hlen_def unat_and_127)
  have p: "(if unat (buf ! 1 AND 127) = 126 then nat (be_int (take 2 (drop 2 buf)))
        else if unat (buf ! 1 AND 127) = 127 then nat (be_int (take 8 (drop 2 buf))) else unat (buf ! 1 AND 127)) =
      frame_payload_len buf"
    by (simp add: frame_payload_len_def unat_and_127)
  have m: "(if ?m then 6 else 2) \<le> frame_hlen buf" by (simp add: frame_hlen_def)
  show ?thesis
    unfolding decode_hybi_def Let_def h p frame_complete_def using m by auto
qed

lemma frame_hlen_ge: "2 \<le> frame_hlen buf" "buf ! 1 AND 128 \<noteq> 0 \<Longrightarrow> 6 \<le> frame_hlen buf"
  by (simp_all add: frame_hlen_def)

text \<open>Masked payloads are unmasked byte by byte, or refused for their size.\<close>

definition frame_payload :: "bytes \<Rightarrow> bytes" where
  "frame_payload buf =
     (let body = take (frame_payload_len buf) (drop (frame_hlen buf) buf)
      in if buf ! 1 AND 128 \<noteq> 0 then xor_mask (take 4 (drop (frame_hlen buf - 4) buf)) body else body)"

definition frame_too_big :: "bytes \<Rightarrow> bool" where
  "frame_too_big buf \<longleftrightarrow> buf ! 1 AND 128 \<noteq> 0 \<and> MAX_WEBSOCKET_PAYLOAD < frame_payload_len buf"

lemma decode_hybi_frame:
  "decode_hybi addr buf =
     (if \<not> frame_complete buf then Inr None
      else if frame_too_big buf then Inl ValueError
      else Inr (Some (uint (buf ! 0 AND 15), frame_payload buf, frame_hlen buf + frame_payload_len buf, buf ! 0 AND 128 \<noteq> 0)))"
proof (cases "frame_complete buf \<and> buf ! 1 AND 128 \<noteq> 0")
  case True
  let ?h = "frame_hlen buf" and ?n = "frame_payload_len buf"
  have h: "6 \<le> ?h" "?h \<le> length buf" "?h + ?n \<le> length buf" using True frame_hlen_ge by (auto simp: frame_complete_def)
  have "length (take 4 (drop (?h - 4) buf)) = 4" using h by simp
  from do_hybi_mask_eq [OF this]
  have "do_hybi_mask dp (take 4 (drop (?h - 4) buf)) (take ?n (drop (?h - 4 + 4) buf)) =
      (if ?n \<le> MAX_WEBSOCKET_PAYLOAD then Inr (frame_payload buf) else Inl ValueError)" for dp
    using h True by (simp add: frame_payload_def)
  moreover have "length buf < (?h - 4 + 4 + ?n) mod 2 ^ 32 \<longleftrightarrow> False"
    using h mod_less_eq_dividend [of "?h + ?n" "2 ^ 32"] by (simp del: mod_less_eq_dividend)
  ultimately show ?thesis
    using True by (simp add: decode_hybi_eq hybi_unmask_def frame_too_big_def)
qed (auto simp: decode_hybi_eq frame_too_big_def frame_payload_def Let_def)

lemma frame_header_append:
  assumes "frame_complete buf"
  shows "frame_complete (buf @ rest)" "frame_hlen (buf @ rest) = frame_hlen buf"
    "frame_payload_len (buf @ rest) = frame_payload_len buf"
proof -
  have len: "2 \<le> length buf" "frame_hlen buf \<le> length buf" "frame_hlen buf + frame_payload_len buf \<le> length buf"
    using assms by (simp_all add: frame_complete_def)
  have n: "(buf @ rest) ! 1 = buf ! 1" using len by (simp add: nth_append)
  then show h: "frame_hlen (buf @ rest) = frame_hlen buf" by (simp add: frame_hlen_def)
  show p: "frame_payload_len (buf @ rest) = frame_payload_len buf"
    using len(2) by (auto simp: frame_payload_len_def frame_hlen_def n [simplified] split: if_splits)
  show "frame_complete (buf @ rest)" using len by (simp add: frame_complete_def h p)
qed

lemma frame_payload_append:
  assumes "frame_complete buf"
  shows "frame_payload (buf @ rest) = frame_payload buf" "frame_too_big (buf @ rest) = frame_too_big buf"
proof -
  have len: "2 \<le> length buf" "frame_hlen buf + frame_payload_len buf \<le> length buf"
    using assms by (simp_all add: frame_complete_def)
  have n: "(buf @ rest) ! 1 = buf ! 1" using len by (simp add: nth_append)
  have "frame_hlen buf \<le> length buf" using len by simp
  moreover have "take 4 (drop (frame_hlen buf - 4) (buf @ rest)) = take 4 (drop (frame_hlen buf - 4) buf)"
    if "buf ! 1 AND 128 \<noteq> 0"
    using frame_hlen_ge(2) [OF that] calculation by simp
  ultimately show "frame_payload (buf @ rest) = frame_payload buf"
    using len by (cases "buf ! 1 AND 128 \<noteq> 0")
      (simp_all only: frame_payload_def frame_header_append [OF assms] n Let_def, auto)
  show "frame_too_big (buf @ rest) = frame_too_big buf"
    by (simp only: frame_too_big_def frame_header_append [OF assms] n)
qed

lemma decode_hybi_stable:
  assumes "decode_hybi addr buf \<noteq> Inr None"
  shows "decode_hybi addr (buf @ rest) = decode_hybi addr buf"
proof -
  have c: "frame_complete buf" using assms by (auto simp: decode_hybi_frame split: if_splits)
  then have "2 \<le> length buf" by (simp add: frame_complete_def)
  then have "(buf @ rest) ! 0 = buf ! 0" by (cases buf) auto
  with c show ?thesis
    by (simp add: decode_hybi_frame frame_header_append frame_payload_append)
qed

lemma decode_hybi_bounds:
  "decode_hybi addr buf = Inr (Some (op, payload, n, fin)) \<Longrightarrow>
     2 \<le> n \<and> n \<le> length buf \<and> length payload + 2 \<le> n \<and> 0 \<le> op \<and> op < 16"
proof -
  assume a: "decode_hybi addr buf = Inr (Some (op, payload, n, fin))"
  have "uint (x AND 15 :: byte) < 16" for x
    by (simp add: uint_and)
  then show ?thesis
    using a frame_hlen_ge(1) [of buf]
    by (auto simp: decode_hybi_frame frame_payload_def Let_def frame_complete_def split: if_splits)
qed

section \<open>Encoding and decoding are inverse\<close>

lemma opcode_low: "0 \<le> op \<Longrightarrow> op < 16 \<Longrightarrow> op AND 15 = (op::int)"
  using take_bit_int_eq_self [of op 4] by (simp add: take_bit_eq_mask mask_eq_exp_minus_1)

lemma first_byte:
  assumes "0 \<le> op" "op < 16"
  shows "uint (word_of_int (op OR (if fin then 128 else 0)) AND (15::byte)) = op"
    "(word_of_int (op OR (if fin then 128 else 0)) AND (128::byte) \<noteq> 0) = fin"
proof -
  have "\<forall>x \<in> set [0..15::int]. (uint (word_of_int (x OR 128) AND (15::byte)) = x \<and> (word_of_int (x OR 128) AND (128::byte) \<noteq> 0)) \<and>
      uint (word_of_int x AND (15::byte)) = x \<and> word_of_int x AND (128::byte) = 0"
    by code_simp
  moreover have "op \<in> set [0..15::int]" using assms by simp
  ultimately show "uint (word_of_int (op OR (if fin then 128 else 0)) AND (15::byte)) = op"
    "(word_of_int (op OR (if fin then 128 else 0)) AND (128::byte) \<noteq> 0) = fin"
    by auto
qed

lemma second_byte:
  assumes "0 \<le> n" "n < 128"
  shows "(word_of_int (n OR (if m then 128 else 0)) AND (128::byte) \<noteq> 0) = m"
    "word_of_int (n OR (if m then 128 else 0)) AND (127::byte) = word_of_int n"
proof -
  have "\<forall>x \<in> set [0..127::int]. word_of_int (x OR 128) AND (128::byte) \<noteq> 0 \<and> word_of_int x AND (128::byte) = 0 \<and>
      word_of_int (x OR 128) AND (127::byte) = word_of_int x \<and> word_of_int x AND (127::byte) = word_of_int x"
    by code_simp
  moreover have "n \<in> set [0..127::int]" using assms by simp
  ultimately show "(word_of_int (n OR (if m then 128 else 0)) AND (128::byte) \<noteq> 0) = m"
    "word_of_int (n OR (if m then 128 else 0)) AND (127::byte) = word_of_int n"
    by auto
qed

lemma encode_hybi_header_shape:
  assumes "encode_hybi_header op n m fin = Inr h" "0 \<le> op" "op < 16"
  shows "\<exists>b1 b2 ext. h = b1 # b2 # ext \<and> uint (b1 AND 15) = op \<and> (b1 AND 128 \<noteq> 0) = fin \<and> (b2 AND 128 \<noteq> 0) = m \<and>
    ((n \<le> 125 \<and> b2 AND 127 = word_of_int (int n) \<and> ext = []) \<or>
     (125 < n \<and> n < 65536 \<and> b2 AND 127 = 126 \<and> ext = be_bytes 2 (int n)) \<or>
     (65536 \<le> n \<and> n < 2 ^ 64 \<and> b2 AND 127 = 127 \<and> ext = be_bytes 8 (int n)))"
proof -
  have l: "op AND 15 = op" using assms(2,3) by (rule opcode_low)
  let ?b1 = "word_of_int (op OR (if fin then 128 else 0)) :: byte"
  let ?b2 = "\<lambda>k. word_of_int (k OR (if m then 128 else 0)) :: byte"
  note b1 = first_byte [OF assms(2,3), of fin]
  have ex: ?thesis if "h = ?b1 # ?b2 k # ext" "0 \<le> k" "k < 128"
    "(n \<le> 125 \<and> k = int n \<and> ext = []) \<or> (125 < n \<and> n < 65536 \<and> k = 126 \<and> ext = be_bytes 2 (int n)) \<or>
     (65536 \<le> n \<and> n < 2 ^ 64 \<and> k = 127 \<and> ext = be_bytes 8 (int n))" for k ext
  proof (rule exI [of _ ?b1], rule exI [of _ "?b2 k"], rule exI [of _ ext], intro conjI)
    show "(n \<le> 125 \<and> ?b2 k AND 127 = word_of_int (int n) \<and> ext = []) \<or>
      (125 < n \<and> n < 65536 \<and> ?b2 k AND 127 = 126 \<and> ext = be_bytes 2 (int n)) \<or>
      (65536 \<le> n \<and> n < 2 ^ 64 \<and> ?b2 k AND 127 = 127 \<and> ext = be_bytes 8 (int n))"
      using that(4) unfolding second_byte(2) [OF that(2,3), of m] by auto
  qed (fact that(1) b1 second_byte(1) [OF that(2,3), of m])+
  consider "n \<le> 125" | "125 < n" "n < 65536" | "65536 \<le> n" "n < 2 ^ 64"
    using assms(1) l by (fastforce simp: encode_hybi_header_def Let_def split: if_splits)
  then show ?thesis
  proof cases
    case 1
    show ?thesis by (rule ex [of "int n" "[]"]) (use 1 assms(1) l in \<open>auto simp: encode_hybi_header_def Let_def\<close>)
  next
    case 2
    show ?thesis
      by (rule ex [of 126 "be_bytes 2 (int n)"]) (use 2 assms(1) l in \<open>auto simp: encode_hybi_header_def Let_def\<close>)
  next
    case 3
    show ?thesis
      by (rule ex [of 127 "be_bytes 8 (int n)"]) (use 3 assms(1) l in \<open>auto simp: encode_hybi_header_def Let_def\<close>)
  qed
qed

lemma frame_lengths:
  assumes "encode_hybi_header op n m fin = Inr h" "0 \<le> op" "op < 16"
  shows "frame_hlen (h @ rest) = length h + (if m then 4 else 0)" "frame_payload_len (h @ rest) = n"
    "uint ((h @ rest) ! 0 AND 15) = op" "((h @ rest) ! 0 AND 128 \<noteq> 0) = fin" "((h @ rest) ! 1 AND 128 \<noteq> 0) = m"
    "2 \<le> length h"
proof -
  obtain b1 b2 ext where h: "h = b1 # b2 # ext" "uint (b1 AND 15) = op" "(b1 AND 128 \<noteq> 0) = fin"
      "(b2 AND 128 \<noteq> 0) = m" and e:
    "(n \<le> 125 \<and> b2 AND 127 = word_of_int (int n) \<and> ext = []) \<or>
     (125 < n \<and> n < 65536 \<and> b2 AND 127 = 126 \<and> ext = be_bytes 2 (int n)) \<or>
     (65536 \<le> n \<and> n < 2 ^ 64 \<and> b2 AND 127 = 127 \<and> ext = be_bytes 8 (int n))"
    using encode_hybi_header_shape [OF assms] by blast
  show "uint ((h @ rest) ! 0 AND 15) = op" "((h @ rest) ! 0 AND 128 \<noteq> 0) = fin" "((h @ rest) ! 1 AND 128 \<noteq> 0) = m"
    "2 \<le> length h"
    using h by simp_all
  have u: "unat (word_of_int (int n) :: byte) = n" "(word_of_int (int n) :: byte) \<noteq> 126" "(word_of_int (int n) :: byte) \<noteq> 127"
    if "n \<le> 125"
  proof -
    show u: "unat (word_of_int (int n) :: byte) = n"
      using that by (simp add: unat_of_nat)
    show "(word_of_int (int n) :: byte) \<noteq> 126" "(word_of_int (int n) :: byte) \<noteq> 127"
      using that u by auto
  qed
  from e show "frame_hlen (h @ rest) = length h + (if m then 4 else 0)"
    using h u by (auto simp: frame_hlen_def simp del: of_int_of_nat_eq)
  from e show "frame_payload_len (h @ rest) = n"
    using h u by (auto simp: frame_payload_len_def be_int_be_bytes numeral_2_eq_2 [symmetric] simp del: of_int_of_nat_eq)
qed

lemma hybi_roundtrip_step:
  assumes "encode_hybi_header op (length d) m fin = Inr h" "0 \<le> op" "op < 16" "length key = 4"
    and "m \<longrightarrow> length d \<le> MAX_WEBSOCKET_PAYLOAD"
  shows "decode_hybi addr (h @ (if m then key @ xor_mask key d else d) @ rest) =
    Inr (Some (op, d, length h + (if m then 4 else 0) + length d, fin))"
proof -
  let ?body = "if m then key @ xor_mask key d else d"
  let ?buf = "h @ ?body @ rest"
  note l = frame_lengths(1-5) [OF assms(1-3), of "?body @ rest"] and l6 = frame_lengths(6) [OF assms(1-3)]
  have c: "frame_complete ?buf"
    using l6 assms(4) unfolding frame_complete_def l(1,2) by simp
  have b: "\<not> frame_too_big ?buf"
    using assms(5) unfolding frame_too_big_def l(2,5) by auto
  have p: "frame_payload ?buf = d"
    using assms(4) unfolding frame_payload_def l(1,2,5) by simp
  have z: "?buf ! 0 = h ! 0" using l6 by (cases h) auto
  show ?thesis
    using l(3,4) unfolding decode_hybi_frame l(1,2) p using c b by (simp add: add.assoc)
qed

text \<open>
  C36: a frame decodes to what was encoded: with its header, the key where it is masked, and the
  masked payload, for every opcode, flag and length up to the limits; whatever follows it in the
  buffer is left alone.
\<close>

theorem hybi_roundtrip:
  assumes "encode_hybi_header op (length d) m fin = Inr h" "0 \<le> op" "op < 16" "length key = 4"
    and "m \<longrightarrow> length d \<le> MAX_WEBSOCKET_PAYLOAD"
  shows "decode_hybi addr (h @ (if m then key @ xor_mask key d else d) @ rest) =
    Inr (Some (op, d, length h + (if m then 4 else 0) + length d, fin))"
  using assms by (rule hybi_roundtrip_step)

theorem hybi_roundtrip_witness:
  "decode_hybi length ([130, 131] @ [1, 2, 3, 4] @ xor_mask [1, 2, 3, 4] [7, 8, 9] @ [5]) =
     Inr (Some (2, [7, 8, 9], 9, True))"
proof -
  have "encode_hybi_header 2 (length [7, 8, 9::byte]) True True = Inr [130, 131]"
    by (simp add: encode_hybi_header_def)
  from hybi_roundtrip [OF this, of "[1, 2, 3, 4]" length "[5]"] show ?thesis
    by (simp add: MAX_WEBSOCKET_PAYLOAD_def)
qed

section \<open>Frames of a stream\<close>

text \<open>All the frames of a buffer, and the start of one that is not complete.\<close>

type_synonym frame = "int \<times> bytes \<times> bool"

function decode_frames :: "(bytes \<Rightarrow> nat) \<Rightarrow> bytes \<Rightarrow> (frame list \<times> bytes) result" where
  "decode_frames addr buf =
     (case decode_hybi addr buf of
        Inl e \<Rightarrow> Inl e
      | Inr None \<Rightarrow> Inr ([], buf)
      | Inr (Some (op, payload, n, fin)) \<Rightarrow>
          ebind (decode_frames addr (drop n buf)) (\<lambda>(fs, rest). Inr ((op, payload, fin) # fs, rest)))"
  by pat_completeness auto
termination
  by (relation "measure (\<lambda>(_, buf). length buf)") (use decode_hybi_bounds in fastforce)+

declare decode_frames.simps [simp del]

definition frame_step :: "(bytes \<Rightarrow> nat) \<Rightarrow> bytes \<Rightarrow> frame outcome" where
  "frame_step addr buf =
     (case decode_hybi addr buf of
        Inl e \<Rightarrow> Raised e
      | Inr None \<Rightarrow> NeedMore
      | Inr (Some (op, payload, n, fin)) \<Rightarrow> Took n [(op, payload, fin)])"

lemma frame_step_cases:
  "frame_step addr buf = Raised e \<longleftrightarrow> decode_hybi addr buf = Inl e"
  "frame_step addr buf = NeedMore \<longleftrightarrow> decode_hybi addr buf = Inr None"
  "frame_step addr buf = Took n es \<longleftrightarrow>
     (\<exists>op payload fin. decode_hybi addr buf = Inr (Some (op, payload, n, fin)) \<and> es = [(op, payload, fin)])"
  by (auto simp: frame_step_def split: sum.splits option.splits)

interpretation ws: incremental_parser "frame_step addr" "decode_frames addr" for addr
proof
  fix buf n es
  assume t: "frame_step addr buf = Took n es"
  then show "0 < n \<and> n \<le> length buf" using decode_hybi_bounds by (fastforce simp: frame_step_cases)
  fix rest
  from t show "frame_step addr (buf @ rest) = Took n es"
    using decode_hybi_stable [of addr buf rest] by (auto simp: frame_step_cases)
  from t show "decode_frames addr buf = ebind (decode_frames addr (drop n buf)) (\<lambda>(es', rest). Inr (es @ es', rest))"
    by (auto simp: frame_step_cases decode_frames.simps [of addr buf])
next
  fix buf e rest
  assume "frame_step addr buf = Raised e"
  then show "frame_step addr (buf @ rest) = Raised e" "decode_frames addr buf = Inl e"
    using decode_hybi_stable [of addr buf rest] by (simp_all add: frame_step_cases decode_frames.simps [of addr buf])
next
  fix buf
  assume "frame_step addr buf = NeedMore"
  then show "decode_frames addr buf = Inr ([], buf)"
    by (simp add: frame_step_cases decode_frames.simps [of addr buf])
next
  show "frame_step addr [] = NeedMore" by (simp add: frame_step_def decode_hybi_def)
qed

end
