(* ===== verification/WebSocket.thy ===== *)
theory WebSocket
  imports WebSocketFrames SocketClose
begin

unbundle bit_operations_syntax

text \<open>
  \<^verbatim>\<open>WebSocketProtocol\<close> of \<^verbatim>\<open>src/xpra/net/websockets/protocol.py\<close>: the socket protocol with a
  layer that takes the packet stream out of websocket frames, or puts it into them. What
  \<^verbatim>\<open>WebSocketProtocol\<close> inherits is the state \<open>ws_main\<close>, a socket protocol with the timers of
  \<^verbatim>\<open>flush_then_close\<close>.
\<close>

section \<open>State\<close>

text \<open>
  \<open>ws_raw_writes\<close> are the calls of \<^verbatim>\<open>raw_write\<close> that answer pings, with their first two arguments
  in the order in which they are passed.
\<close>

record 'c ws =
  ws_main :: "'c main"
  ws_data :: bytes
  ws_payload :: "bytes list"
  ws_xpra_data :: "bytes list"
  ws_payload_opcode :: int
  ws_mask :: bool
  ws_raw_writes :: "(string \<times> bytes list) list"

text \<open>
  What the layer uses besides: the address of a buffer, whether the write lock can be had in time,
  the UTF-8 text of a reason, and the environment of the protocol.
\<close>

record 'c wsenv =
  wse_env :: "'c env"
  wse_ivs :: "nat \<Rightarrow> bytes"
  wse_addr :: "bytes \<Rightarrow> nat"
  wse_acquired :: bool
  wse_text :: "reason \<Rightarrow> bytes"

abbreviation ws_proto :: "'c ws \<Rightarrow> 'c proto" where
  "ws_proto s \<equiv> proto_of (ws_main s)"

abbreviation ws_closed :: "'c ws \<Rightarrow> bool" where
  "ws_closed s \<equiv> closed (ws_proto s)"

section \<open>Closing\<close>

definition send_ws_close :: "'c wsenv \<Rightarrow> int \<Rightarrow> reason \<Rightarrow> 'c ws \<Rightarrow> 'c ws result" where
  "send_ws_close we code reason s =
     ebind (close_packet code (wse_text we reason)) (\<lambda>d.
       Inr (s\<lparr>ws_main := flush_then_close (wse_env we) (wse_ivs we) (RawLast d) (wse_acquired we) (ws_main s)\<rparr>))"

definition ws_close :: "'c wsenv \<Rightarrow> reason \<Rightarrow> 'c ws \<Rightarrow> 'c ws result" where
  "ws_close we message s =
     (if ws_closed s then Inr s
      else ebind (send_ws_close we 1000 message s) (\<lambda>s.
        Inr (s\<lparr>ws_main := main_close message (ws_main s), ws_data := [], ws_payload := [], ws_xpra_data := []\<rparr>)))"

section \<open>Sending\<close>

text \<open>
  \<^verbatim>\<open>make_wsframe_header\<close>: the bytes put in front, and the items, masked one by one where masking
  is on. \<open>key\<close> is what \<^verbatim>\<open>os.urandom\<close> returns.
\<close>

definition make_wsframe_header :: "bytes \<Rightarrow> bool \<Rightarrow> bytes list \<Rightarrow> (bytes \<times> bytes list) result" where
  "make_wsframe_header key masked items =
     ebind (encode_hybi_header OPCODE_BINARY (sum_list (map length items)) masked True) (\<lambda>header.
       if masked then ebind (emap (hybi_mask 0 key) items) (\<lambda>items. Inr (header @ key, items))
       else Inr (header, items))"

section \<open>Receiving frames\<close>

definition process_ws_ping :: "bytes \<Rightarrow> 'c ws \<Rightarrow> 'c ws result" where
  "process_ws_ping payload s =
     ebind (encode_hybi_header OPCODE_PONG (length payload) False True) (\<lambda>header.
       Inr (s\<lparr>ws_raw_writes := ws_raw_writes s @ [(''ws-ping'', [header @ payload])]\<rparr>))"

definition process_ws_close :: "'c wsenv \<Rightarrow> bytes \<Rightarrow> 'c ws \<Rightarrow> 'c ws result" where
  "process_ws_close we payload s =
     (if length payload < 2 then ws_close we (Text ''unknown reason'') s
      else ws_close we (WebsocketClosed (be_int (take 2 payload)) (drop 2 payload)) s)"

text \<open>A whole message: what is done for its opcode.\<close>

definition ws_message :: "'c wsenv \<Rightarrow> int \<Rightarrow> bytes \<Rightarrow> 'c ws \<Rightarrow> 'c ws result" where
  "ws_message we opcode full_payload s =
     (if opcode = OPCODE_BINARY \<or> opcode = OPCODE_TEXT then
        Inr (if full_payload = [] then s else s\<lparr>ws_xpra_data := ws_xpra_data s @ [full_payload]\<rparr>)
      else if opcode = OPCODE_CLOSE then process_ws_close we full_payload s
      else if opcode = OPCODE_PING then process_ws_ping full_payload s
      else Inr s)"

definition with_error :: "'s \<Rightarrow> 's result \<Rightarrow> py_error option \<times> 's" where
  "with_error s r = (case r of Inl e \<Rightarrow> (Some e, s) | Inr s' \<Rightarrow> (None, s'))"

definition ws_frame :: "'c wsenv \<Rightarrow> frame \<Rightarrow> 'c ws \<Rightarrow> py_error option \<times> 'c ws" where
  "ws_frame we f s =
     (case f of (opcode, payload, fin) \<Rightarrow>
        if opcode = OPCODE_CONTINUE then
          (if \<not> (ws_payload_opcode s \<noteq> 0 \<and> ws_payload s \<noteq> []) then (Some AssertionError, s)
           else
             let s1 = s\<lparr>ws_payload := ws_payload s @ [payload]\<rparr>
             in if \<not> fin then (None, s1)
                else
                  let s2 = s1\<lparr>ws_payload := [], ws_payload_opcode := 0\<rparr>
                  in with_error s2 (ws_message we (ws_payload_opcode s1) (concat (ws_payload s1)) s2))
        else if ws_payload s \<noteq> [] \<and> ws_payload_opcode s \<noteq> 0 then (Some ValueError, s)
        else if \<not> fin then
          (if opcode \<noteq> OPCODE_BINARY \<and> opcode \<noteq> OPCODE_TEXT then (Some RuntimeError, s)
           else (None, s\<lparr>ws_payload_opcode := opcode, ws_payload := ws_payload s @ [payload]\<rparr>))
        else with_error s (ws_message we opcode payload s))"

function ws_frames :: "'c wsenv \<Rightarrow> bytes \<Rightarrow> 'c ws \<Rightarrow> py_error option \<times> 'c ws" where
  "ws_frames we buf s =
     (if buf = [] \<or> ws_closed s then (None, s)
      else case decode_hybi (wse_addr we) buf of
             Inl e \<Rightarrow> (Some e, s)
           | Inr None \<Rightarrow> (None, s\<lparr>ws_data := buf\<rparr>)
           | Inr (Some (opcode, payload, processed, fin)) \<Rightarrow>
               (case ws_frame we (opcode, payload, fin) s of
                  (Some e, s') \<Rightarrow> (Some e, s')
                | (None, s') \<Rightarrow> ws_frames we (drop processed buf) s'))"
  by pat_completeness auto
termination
  by (relation "measure (\<lambda>(_, buf, _). length buf)") (use decode_hybi_bounds in fastforce)+

declare ws_frames.simps [simp del]

fun strip_crlf :: "bytes \<Rightarrow> bytes" where
  "strip_crlf (a # b # d) = (if a = 13 \<and> b = 10 then strip_crlf d else a # b # d)"
| "strip_crlf d = d"

definition parse_ws_frame :: "'c wsenv \<Rightarrow> bytes \<Rightarrow> 'c ws \<Rightarrow> py_error option \<times> 'c ws" where
  "parse_ws_frame we buf s =
     (let joined = ws_data s @ buf;
          start = (if input_packetcount (ws_proto s) = 0 then strip_crlf joined else joined)
      in ws_frames we start (s\<lparr>ws_data := []\<rparr>))"

section \<open>Nothing the frames do makes the connection longer\<close>

lemma unread_close: "unread (close msg p) \<le> unread p"
  by (cases "connection p") (simp_all add: unread_def close_def emit_def terminate_queue_threads_def)

lemma unread_raw_write [simp]: "unread (raw_write i t sy m p) = unread p"
  by (simp add: raw_write_def unread_def)

lemma unread_close_and_release: "unread (proto_of (close_and_release m)) \<le> unread (proto_of m)"
  by (simp add: unread_close)

lemma unread_flush: "unread (proto_of (flush_then_close env rnd (RawLast d) acq m)) \<le> unread (proto_of m)"
proof -
  have "unread (proto_of (send_last env rnd (RawLast d) m)) \<le> unread (proto_of m)" for m
    using wait_for_packet_sent_cases [of "m\<lparr>proto_of := raw_write [d] (map of_char ''flush-then-close'') True False (proto_of m)\<rparr>"]
      unread_close [of NoReason "raw_write [d] (map of_char ''flush-then-close'') True False (proto_of m)"]
    by (auto simp: send_last_def queue_last_def)
  then have "unread (proto_of (wait_for_queue env rnd (RawLast d) n m)) \<le> unread (proto_of m)" for n m
    by (simp add: wait_for_queue_def unread_close)
  from this [of 10 "m\<lparr>flush_called := True, lock_held := True\<rparr>"] show ?thesis
    by (simp add: flush_then_close_def do_flush_then_close_def Let_def wait_for_write_lock_def unread_close)
qed

lemma unread_ws_close: "ws_close we msg s = Inr s' \<Longrightarrow> unread (ws_proto s') \<le> unread (ws_proto s)"
  by (auto simp: ws_close_def send_ws_close_def ebind_eq_Inr split: if_splits
      intro: order_trans [OF unread_close unread_flush])

lemma unread_ws_message: "ws_message we op d s = Inr s' \<Longrightarrow> unread (ws_proto s') \<le> unread (ws_proto s)"
  by (auto simp: ws_message_def process_ws_close_def process_ws_ping_def ebind_eq_Inr split: if_splits
      dest: unread_ws_close)

lemma unread_ws_frame: "ws_frame we f s = (e, s') \<Longrightarrow> unread (ws_proto s') \<le> unread (ws_proto s)"
  by (auto simp: ws_frame_def with_error_def Let_def split: prod.splits if_splits sum.splits dest!: unread_ws_message)

lemma unread_ws_frames: "ws_frames we buf s = (e, s') \<Longrightarrow> unread (ws_proto s') \<le> unread (ws_proto s)"
proof (induction we buf s rule: ws_frames.induct)
  case (1 we buf s)
  show ?case
  proof (cases "buf = [] \<or> ws_closed s")
    case False
    show ?thesis
    proof (cases "decode_hybi (wse_addr we) buf")
      case (Inr r)
      show ?thesis
      proof (cases r)
        case (Some t)
        obtain op payload n fin where t: "t = (op, payload, n, fin)" by (cases t)
        obtain e1 s1 where s1: "ws_frame we (op, payload, fin) s = (e1, s1)" by fastforce
        have "unread (ws_proto s1) \<le> unread (ws_proto s)" using s1 by (rule unread_ws_frame)
        moreover have "unread (ws_proto s') \<le> unread (ws_proto s1)"
          using "1.prems" "1.IH" [OF False Inr Some t [symmetric] refl refl s1 [symmetric]] False Inr Some t s1
          by (cases e1) (auto simp: ws_frames.simps [of we buf s])
        ultimately show ?thesis by simp
      qed (use "1.prems" False Inr in \<open>auto simp: ws_frames.simps [of we buf s]\<close>)
    qed (use "1.prems" False in \<open>auto simp: ws_frames.simps [of we buf s]\<close>)
  qed (use "1.prems" in \<open>auto simp: ws_frames.simps [of we buf s]\<close>)
qed

lemma unread_parse_ws_frame: "parse_ws_frame we buf s = (e, s') \<Longrightarrow> unread (ws_proto s') \<le> unread (ws_proto s)"
  by (auto simp: parse_ws_frame_def Let_def dest: unread_ws_frames)

section \<open>Reading\<close>

text \<open>
  \<^verbatim>\<open>recv_into\<close>: reads from the connection until there is payload, then hands out as much as fits.
\<close>

function ws_fill :: "'c wsenv \<Rightarrow> 'c ws \<Rightarrow> bool result \<times> 'c ws" where
  "ws_fill we s =
     (if ws_xpra_data s \<noteq> [] \<or> ws_closed s then (Inr True, s)
      else
        let (x, p) = recv_into (read_buffer_size (ws_proto s)) (ws_proto s);
            s1 = s\<lparr>ws_main := (ws_main s)\<lparr>proto_of := p\<rparr>\<rparr>
        in if x = [] then (Inr False, s1)
           else (case parse_ws_frame we x s1 of
                   (Some e, s2) \<Rightarrow> (Inl e, s2)
                 | (None, s2) \<Rightarrow> ws_fill we s2))"
  by pat_completeness auto
termination
proof (relation "measure (\<lambda>(_, s). unread (ws_proto s))", goal_cases)
  case (2 we s r x p s1 e s2)
  have "unread p + length x = unread (ws_proto s)" using 2(2,3) by (auto intro: recv_into_unread)
  moreover have "unread (ws_proto s2) \<le> unread (ws_proto s1)" using 2(6) by (metis unread_parse_ws_frame)
  ultimately have "unread (ws_proto s2) < unread (ws_proto s)" using 2(4,5) by (cases x) auto
  then show ?case by simp
qed simp

declare ws_fill.simps [simp del]

definition ws_recv_into :: "'c wsenv \<Rightarrow> nat \<Rightarrow> 'c ws \<Rightarrow> bytes result \<times> 'c ws" where
  "ws_recv_into we k s =
     (case ws_fill we s of
        (Inl e, s') \<Rightarrow> (Inl e, s')
      | (Inr False, s') \<Rightarrow> (Inr [], s')
      | (Inr True, s') \<Rightarrow>
          (case ws_xpra_data s' of
             [] \<Rightarrow> (Inr [], s')
           | d # ds \<Rightarrow> let (x, ds') = take_front k d ds in (Inr x, s'\<lparr>ws_xpra_data := ds'\<rparr>)))"

section \<open>What is received does not depend on the pieces\<close>

text \<open>Feeding pieces until one of them raises.\<close>

fun ws_feed :: "'c wsenv \<Rightarrow> bytes list \<Rightarrow> 'c ws \<Rightarrow> py_error option \<times> 'c ws" where
  "ws_feed we [] s = (None, s)"
| "ws_feed we (c # cs) s =
     (case parse_ws_frame we c s of (Some e, s') \<Rightarrow> (Some e, s') | (None, s') \<Rightarrow> ws_feed we cs s')"

lemma ws_frames_Nil [simp]: "ws_frames we [] s = (None, s)"
  by (simp add: ws_frames.simps [of we "[]"])

lemma ws_frames_closed [simp]: "ws_closed s \<Longrightarrow> ws_frames we buf s = (None, s)"
  by (simp add: ws_frames.simps [of we buf])

lemma ws_frames_None:
  "buf \<noteq> [] \<Longrightarrow> \<not> ws_closed s \<Longrightarrow> decode_hybi (wse_addr we) buf = Inr None \<Longrightarrow>
     ws_frames we buf s = (None, s\<lparr>ws_data := buf\<rparr>)"
  by (simp add: ws_frames.simps [of we buf])

lemma ws_frames_Some:
  "\<not> ws_closed s \<Longrightarrow> decode_hybi (wse_addr we) buf = Inr (Some (op, payload, n, fin)) \<Longrightarrow>
     ws_frames we buf s = (case ws_frame we (op, payload, fin) s of
       (Some e, s') \<Rightarrow> (Some e, s') | (None, s') \<Rightarrow> ws_frames we (drop n buf) s')"
  using decode_hybi_bounds [of "wse_addr we" buf op payload n fin]
  by (cases "buf = []") (auto simp: ws_frames.simps [of we buf])

text \<open>Handling a list of frames.\<close>

fun ws_handle :: "'c wsenv \<Rightarrow> frame list \<Rightarrow> 'c ws \<Rightarrow> py_error option \<times> 'c ws" where
  "ws_handle we [] s = (None, s)"
| "ws_handle we (f # fs) s =
     (if ws_closed s then (None, s)
      else case ws_frame we f s of (Some e, s') \<Rightarrow> (Some e, s') | (None, s') \<Rightarrow> ws_handle we fs s')"

text \<open>A frame as it is on the wire; \<open>key\<close> where it is masked.\<close>

definition enc_frame :: "bytes option \<Rightarrow> frame \<Rightarrow> bytes" where
  "enc_frame key f =
     (case f of (op, d, fin) \<Rightarrow>
        (case encode_hybi_header op (length d) (key \<noteq> None) fin of
           Inl _ \<Rightarrow> []
         | Inr h \<Rightarrow> h @ (case key of None \<Rightarrow> d | Some k \<Rightarrow> k @ xor_mask k d)))"

definition frame_ok :: "bytes option \<Rightarrow> frame \<Rightarrow> bool" where
  "frame_ok key f \<longleftrightarrow> (case f of (op, d, fin) \<Rightarrow>
     op \<in> {OPCODE_CONTINUE, OPCODE_TEXT, OPCODE_BINARY, OPCODE_CLOSE, OPCODE_PING, OPCODE_PONG} \<and>
     length d \<le> MAX_WEBSOCKET_PAYLOAD \<and> (case key of None \<Rightarrow> True | Some k \<Rightarrow> length k = 4))"

lemma opcodes_low:
  assumes "op \<in> {OPCODE_CONTINUE, OPCODE_TEXT, OPCODE_BINARY, OPCODE_CLOSE, OPCODE_PING, OPCODE_PONG}"
  shows "0 \<le> op" "op < 16" "op AND 15 = op" "op \<noteq> 13"
  using assms opcode_low [of op] by (auto simp: opcode_defs)

lemma enc_frame_decode:
  assumes "frame_ok key f"
  shows "decode_hybi addr (enc_frame key f @ rest) =
      Inr (Some (fst f, fst (snd f), length (enc_frame key f), snd (snd f)))"
    "2 \<le> length (enc_frame key f)" "enc_frame key f ! 0 \<noteq> 13"
proof -
  obtain op d fin where f: "f = (op, d, fin)" by (cases f)
  have o: "op \<in> {OPCODE_CONTINUE, OPCODE_TEXT, OPCODE_BINARY, OPCODE_CLOSE, OPCODE_PING, OPCODE_PONG}"
    using assms f by (simp add: frame_ok_def)
  note l = opcodes_low [OF o]
  have "length d < 2 ^ 64" using assms f by (simp add: frame_ok_def MAX_WEBSOCKET_PAYLOAD_def)
  then obtain h where h: "encode_hybi_header op (length d) (key \<noteq> None) fin = Inr h"
    using l(3) by (cases "encode_hybi_header op (length d) (key \<noteq> None) fin")
      (auto simp: encode_hybi_header_def Let_def split: if_splits)
  let ?k = "case key of None \<Rightarrow> [0, 0, 0, 0] | Some k \<Rightarrow> k"
  have e: "enc_frame key f = h @ (if key \<noteq> None then ?k @ xor_mask ?k d else d)"
    by (cases key) (use f h in \<open>simp_all add: enc_frame_def\<close>)
  have k4: "length ?k = 4" using assms f by (cases key) (simp_all add: frame_ok_def)
  from hybi_roundtrip_step [OF h l(1,2) k4] k4 assms f e
  show "decode_hybi addr (enc_frame key f @ rest) =
      Inr (Some (fst f, fst (snd f), length (enc_frame key f), snd (snd f)))"
    by (simp add: frame_ok_def)
  note fl = frame_lengths(3) [OF h l(1,2), of "[]"] frame_lengths(6) [OF h l(1,2)]
  show "2 \<le> length (enc_frame key f)" using fl(2) e by simp
  have "enc_frame key f ! 0 = h ! 0" using fl(2) e by (cases h) auto
  moreover have "h ! 0 \<noteq> 13" using fl(1) l(4) by auto
  ultimately show "enc_frame key f ! 0 \<noteq> 13" by simp
qed

section \<open>A stream of frames, cut anywhere\<close>

definition enc_frames :: "(bytes option \<times> frame) list \<Rightarrow> bytes" where
  "enc_frames kfs = concat (map (\<lambda>(k, f). enc_frame k f) kfs)"

abbreviation frames_ok :: "(bytes option \<times> frame) list \<Rightarrow> bool" where
  "frames_ok kfs \<equiv> list_all (\<lambda>(k, f). frame_ok k f) kfs"

lemma enc_frames_Nil [simp]: "enc_frames [] = []"
  by (simp add: enc_frames_def)

lemma enc_frames_Cons [simp]: "enc_frames ((k, f) # kfs) = enc_frame k f @ enc_frames kfs"
  by (simp add: enc_frames_def)

text \<open>What is left over when a stream of frames is cut: a part of the next frame, or nothing.\<close>

definition partial_frame :: "bytes \<Rightarrow> (bytes option \<times> frame) list \<Rightarrow> bool" where
  "partial_frame u kfs \<longleftrightarrow> (\<exists>v. u @ v = enc_frames kfs) \<and>
     (case kfs of [] \<Rightarrow> u = [] | (k, f) # _ \<Rightarrow> length u < length (enc_frame k f))"

lemma partial_frame_needs_more:
  assumes "partial_frame u kfs" "frames_ok kfs"
  shows "decode_hybi addr u = Inr None"
proof (cases kfs)
  case Nil
  with assms show ?thesis by (simp add: partial_frame_def decode_hybi_def)
next
  case (Cons kf rest)
  obtain k f where kf: "kf = (k, f)" by (cases kf)
  obtain v where v: "u @ v = enc_frame k f @ enc_frames rest" and len: "length u < length (enc_frame k f)"
    using assms(1) Cons kf by (auto simp: partial_frame_def)
  have "frame_ok k f" using assms(2) Cons kf by simp
  note d = enc_frame_decode(1) [OF this, of addr "enc_frames rest", folded v]
  show ?thesis
  proof (rule ccontr)
    assume n: "decode_hybi addr u \<noteq> Inr None"
    with d have "decode_hybi addr u = Inr (Some (fst f, fst (snd f), length (enc_frame k f), snd (snd f)))"
      using decode_hybi_stable [OF n, of v] by simp
    with decode_hybi_bounds len show False by fastforce
  qed
qed

lemma frames_start:
  assumes "u @ v = enc_frames kfs" "frames_ok kfs"
  shows "strip_crlf u = u"
proof (cases kfs)
  case (Cons kf rest)
  obtain k f where kf: "kf = (k, f)" by (cases kf)
  then have ok: "frame_ok k f" using assms(2) Cons by simp
  have v: "u @ v = enc_frame k f @ enc_frames rest" using assms(1) Cons kf by simp
  have "u \<noteq> [] \<Longrightarrow> u ! 0 \<noteq> 13"
    using enc_frame_decode(2,3) [OF ok] arg_cong [OF v, of "\<lambda>x. x ! 0"] by (cases u) (auto simp: nth_append split: if_splits)
  then show ?thesis by (induction u rule: strip_crlf.induct) auto
qed (use assms in simp)

text \<open>Any start of the stream is a number of whole frames and a part of the next.\<close>

lemma cut_frames:
  assumes "u @ v = enc_frames kfs"
  shows "\<exists>ks1 ks2 w. kfs = ks1 @ ks2 \<and> u = enc_frames ks1 @ w \<and> partial_frame w ks2 \<and> w @ v = enc_frames ks2"
  using assms
proof (induction kfs arbitrary: u)
  case Nil
  then have "u = [] \<and> v = []" by simp
  then show ?case by (intro exI [of _ "[]"]) (simp add: partial_frame_def)
next
  case (Cons kf kfs)
  obtain k f where kf: "kf = (k, f)" by (cases kf)
  show ?case
  proof (cases "length u < length (enc_frame k f)")
    case True
    then have "partial_frame u (kf # kfs)" using Cons.prems kf by (auto simp: partial_frame_def)
    with Cons.prems show ?thesis by (intro exI [of _ "[]"] exI [of _ "kf # kfs"] exI [of _ u]) simp
  next
    case False
    let ?n = "length (enc_frame k f)"
    have "take ?n u = enc_frame k f" using arg_cong [OF Cons.prems, of "take ?n"] kf False by simp
    then have u: "u = enc_frame k f @ drop ?n u" by (metis append_take_drop_id)
    have "drop ?n u @ v = enc_frames kfs" using arg_cong [OF Cons.prems, of "drop ?n"] kf False by simp
    from Cons.IH [OF this] obtain ks1 ks2 w where i: "kfs = ks1 @ ks2" "drop ?n u = enc_frames ks1 @ w"
        "partial_frame w ks2" "w @ v = enc_frames ks2" by blast
    have "u = enc_frames (kf # ks1) @ w" using u i(2) kf by simp
    with i show ?thesis by (intro exI [of _ "kf # ks1"] exI [of _ ks2] exI [of _ w]) simp
  qed
qed

text \<open>
  Handling frames does not look at \<open>ws_data\<close>; the frames of a buffer are handled in order and what
  is left over is kept.
\<close>

lemma ws_frames_enc:
  assumes "frames_ok ks1" "ws_handle we (map snd ks1) s = (None, s')" "\<not> ws_closed s'"
    and "\<And>t. decode_hybi (wse_addr we) w = Inr None"
  shows "ws_frames we (enc_frames ks1 @ w) s = (None, if w = [] then s' else s'\<lparr>ws_data := w\<rparr>)"
  using assms(1,2)
proof (induction ks1 arbitrary: s)
  case Nil
  with assms(3,4) show ?case by (simp add: ws_frames_None)
next
  case (Cons kf ks1)
  obtain k f where kf: "kf = (k, f)" by (cases kf)
  then have ok: "frame_ok k f" using Cons.prems(1) by simp
  have nc: "\<not> ws_closed s" using Cons.prems(2) assms(3) by (auto split: if_splits)
  obtain s1 where s1: "ws_frame we f s = (None, s1)" "ws_handle we (map snd ks1) s1 = (None, s')"
    using Cons.prems(2) kf nc by (auto split: prod.splits option.splits)
  note d = enc_frame_decode(1) [OF ok, of "wse_addr we" "enc_frames ks1 @ w"]
  have "ws_frames we (enc_frame k f @ enc_frames ks1 @ w) s = ws_frames we (enc_frames ks1 @ w) s1"
    using ws_frames_Some [OF nc d] s1(1) by simp
  with Cons.IH [OF _ s1(2)] Cons.prems(1) kf show ?case by simp
qed

lemma ws_handle_append:
  "ws_handle we (fs @ fs') s = (None, s') \<Longrightarrow> \<not> ws_closed s' \<Longrightarrow>
     \<exists>s1. ws_handle we fs s = (None, s1) \<and> \<not> ws_closed s1 \<and> ws_handle we fs' s1 = (None, s')"
proof (induction fs arbitrary: s)
  case Nil
  then show ?case by (cases fs') (auto split: if_splits)
next
  case (Cons f fs)
  then show ?case by (auto split: if_splits prod.splits option.splits)
qed

text \<open>The leftover bytes are not looked at by the handlers; only closing drops them.\<close>

lemma ws_close_data: "ws_close we msg s = Inr s' \<Longrightarrow> ws_data s = [] \<Longrightarrow> ws_data s' = []"
  by (auto simp: ws_close_def send_ws_close_def ebind_eq_Inr split: if_splits)

lemma ws_frame_data:
  assumes "ws_frame we f s = (None, s')" "ws_data s = []"
  shows "ws_data s' = []"
proof -
  have "ws_data t' = []" if "ws_message we op d t = Inr t'" "ws_data t = []" for op d t t'
    using that by (auto simp: ws_message_def process_ws_close_def process_ws_ping_def ebind_eq_Inr split: if_splits
        dest: ws_close_data)
  with assms show ?thesis
    by (auto simp: ws_frame_def with_error_def Let_def split: prod.splits if_splits sum.splits)
qed

lemma ws_handle_data: "ws_handle we fs s = (None, s') \<Longrightarrow> ws_data s = [] \<Longrightarrow> ws_data s' = []"
proof (induction fs arbitrary: s)
  case (Cons f fs)
  then show ?case by (auto split: if_splits prod.splits option.splits dest: ws_frame_data)
qed simp

lemma ws_feed_frames:
  assumes "partial_frame (ws_data s) kfs" "ws_data s @ concat cs = enc_frames kfs" "frames_ok kfs"
    and "ws_handle we (map snd kfs) (s\<lparr>ws_data := []\<rparr>) = (None, s')" "\<not> ws_closed s'"
  shows "ws_feed we cs s = (None, s')"
  using assms(1-4)
proof (induction cs arbitrary: s kfs)
  case Nil
  have "kfs = []"
    using Nil by (cases kfs) (auto simp: partial_frame_def)
  with Nil have "ws_data s = []" "s' = s\<lparr>ws_data := []\<rparr>" by (simp_all add: partial_frame_def)
  then show ?case by simp
next
  case (Cons c cs)
  have st: "(ws_data s @ c) @ concat cs = enc_frames kfs" using Cons.prems(2) by simp
  from cut_frames [OF this] obtain ks1 ks2 w where k: "kfs = ks1 @ ks2" "ws_data s @ c = enc_frames ks1 @ w"
      "partial_frame w ks2" "w @ concat cs = enc_frames ks2" by blast
  have ok: "frames_ok ks1" "frames_ok ks2" using Cons.prems(3) k(1) by simp_all
  obtain s1 where s1: "ws_handle we (map snd ks1) (s\<lparr>ws_data := []\<rparr>) = (None, s1)" "\<not> ws_closed s1"
      "ws_handle we (map snd ks2) s1 = (None, s')"
    using ws_handle_append [of we "map snd ks1" "map snd ks2"] Cons.prems(4) assms(5) k(1) by auto
  have d1: "ws_data s1 = []" using ws_handle_data [OF s1(1)] by simp
  have "parse_ws_frame we c s = ws_frames we (enc_frames ks1 @ w) (s\<lparr>ws_data := []\<rparr>)"
    using frames_start [OF st Cons.prems(3)] k(2) by (simp add: parse_ws_frame_def Let_def)
  also have "\<dots> = (None, if w = [] then s1 else s1\<lparr>ws_data := w\<rparr>)"
    by (rule ws_frames_enc [OF ok(1) s1(1,2)]) (rule partial_frame_needs_more [OF k(3) ok(2)])
  also have "\<dots> = (None, s1\<lparr>ws_data := w\<rparr>)" using d1 by simp
  finally have p: "parse_ws_frame we c s = (None, s1\<lparr>ws_data := w\<rparr>)" .
  have "s1\<lparr>ws_data := w, ws_data := []\<rparr> = s1" using d1 by simp
  with Cons.IH [of "s1\<lparr>ws_data := w\<rparr>" ks2] k(3,4) ok(2) s1(3) p show ?case by simp
qed

text \<open>
  The messages a peer sends: data, in one frame or in fragments, and control frames between them.
\<close>

datatype ws_sent = Data int "bytes list" | Ping bytes | Pong bytes

fun continuation :: "bytes list \<Rightarrow> frame list" where
  "continuation [] = []"
| "continuation [d] = [(OPCODE_CONTINUE, d, True)]"
| "continuation (d # ds) = (OPCODE_CONTINUE, d, False) # continuation ds"

fun sent_frames :: "ws_sent \<Rightarrow> frame list" where
  "sent_frames (Data op []) = []"
| "sent_frames (Data op (d # ds)) = (op, d, ds = []) # continuation ds"
| "sent_frames (Ping d) = [(OPCODE_PING, d, True)]"
| "sent_frames (Pong d) = [(OPCODE_PONG, d, True)]"

fun sent_ok :: "ws_sent \<Rightarrow> bool" where
  "sent_ok (Data op ds) = ((op = OPCODE_BINARY \<or> op = OPCODE_TEXT) \<and> ds \<noteq> [])"
| "sent_ok (Ping d) = (length d \<le> 125)"
| "sent_ok (Pong d) = True"

text \<open>What they leave: the data in one piece, unless it is empty; an answer to each ping.\<close>

fun sent_data :: "ws_sent \<Rightarrow> bytes list" where
  "sent_data (Data op ds) = (if concat ds = [] then [] else [concat ds])"
| "sent_data _ = []"

fun sent_pong :: "ws_sent \<Rightarrow> (string \<times> bytes list) list" where
  "sent_pong (Ping d) = [(''ws-ping'', [[0x8A, of_nat (length d)] @ d])]"
| "sent_pong _ = []"

lemma ws_handle_continuation:
  assumes "ds \<noteq> []" "\<not> ws_closed s" "ws_payload s \<noteq> []" "ws_payload_opcode s \<in> {OPCODE_BINARY, OPCODE_TEXT}"
  shows "ws_handle we (continuation ds @ fs) s = ws_handle we fs
     (s\<lparr>ws_payload := [], ws_payload_opcode := 0, ws_xpra_data := ws_xpra_data s @
        (if concat (ws_payload s @ ds) = [] then [] else [concat (ws_payload s @ ds)])\<rparr>)"
  using assms
proof (induction ds arbitrary: s rule: continuation.induct)
  case (2 d)
  then show ?case
    by (auto simp: ws_frame_def Let_def ws_message_def with_error_def opcode_defs)
next
  case (3 d d' ds)
  then have f: "ws_frame we (OPCODE_CONTINUE, d, False) s = (None, s\<lparr>ws_payload := ws_payload s @ [d]\<rparr>)"
    by (auto simp: ws_frame_def Let_def opcode_defs)
  show ?case
    using 3 f by simp
qed simp

lemma ws_handle_sent:
  assumes "sent_ok m" "\<not> ws_closed s" "ws_payload s = []" "ws_payload_opcode s = 0"
  shows "ws_handle we (sent_frames m @ fs) s = ws_handle we fs
    (s\<lparr>ws_xpra_data := ws_xpra_data s @ sent_data m, ws_raw_writes := ws_raw_writes s @ sent_pong m\<rparr>)"
proof (cases m)
  case (Data op ds)
  then obtain d ds' where ds: "ds = d # ds'" using assms(1) by (cases ds) auto
  have op: "op \<in> {OPCODE_BINARY, OPCODE_TEXT}" using assms(1) Data by auto
  show ?thesis
  proof (cases "ds' = []")
    case True
    then show ?thesis using Data ds op assms
      by (auto simp: ws_frame_def ws_message_def with_error_def opcode_defs)
  next
    case False
    let ?s = "s\<lparr>ws_payload_opcode := op, ws_payload := [d]\<rparr>"
    have f: "ws_frame we (op, d, False) s = (None, ?s)"
      using op assms by (auto simp: ws_frame_def opcode_defs)
    have "ws_handle we (continuation ds' @ fs) ?s = ws_handle we fs
       (?s\<lparr>ws_payload := [], ws_payload_opcode := 0, ws_xpra_data := ws_xpra_data ?s @
          (if concat (ws_payload ?s @ ds') = [] then [] else [concat (ws_payload ?s @ ds')])\<rparr>)"
      by (rule ws_handle_continuation) (use False assms op in simp_all)
    moreover have "s\<lparr>ws_payload := [], ws_payload_opcode := 0, ws_xpra_data := x\<rparr> = s\<lparr>ws_xpra_data := x\<rparr>" for x
      using assms(3,4) by (cases s) simp
    ultimately show ?thesis using Data ds f False assms by simp
  qed
next
  case (Ping d)
  have "encode_hybi_header OPCODE_PONG (length d) False True = Inr [0x8A, of_nat (length d)]"
    using assms(1) Ping by (simp add: encode_hybi_header_def opcode_defs)
  with Ping assms show ?thesis
    by (simp add: ws_frame_def ws_message_def process_ws_ping_def with_error_def opcode_defs)
next
  case (Pong d)
  with assms show ?thesis by (simp add: ws_frame_def ws_message_def with_error_def opcode_defs)
qed

lemma ws_handle_all_sent:
  assumes "list_all sent_ok ms" "\<not> ws_closed s" "ws_payload s = []" "ws_payload_opcode s = 0"
  shows "ws_handle we (concat (map sent_frames ms)) s = (None,
    s\<lparr>ws_xpra_data := ws_xpra_data s @ concat (map sent_data ms),
      ws_raw_writes := ws_raw_writes s @ concat (map sent_pong ms)\<rparr>)"
  using assms
proof (induction ms arbitrary: s)
  case (Cons m ms)
  then show ?case
    using ws_handle_sent [of m s we "concat (map sent_frames ms)"] by simp
qed simp


text \<open>A websocket connection over the example protocol, and its environment.\<close>

definition ping_ws :: "unit ws" where
  "ping_ws = \<lparr>ws_main = flush_idle, ws_data = [], ws_payload = [], ws_xpra_data = [], ws_payload_opcode = 0,
     ws_mask = False, ws_raw_writes = []\<rparr>"

definition ping_wsenv :: "unit wsenv" where
  "ping_wsenv = \<lparr>wse_env = ping_env, wse_ivs = (\<lambda>_. []), wse_addr = length, wse_acquired = True, wse_text = (\<lambda>_. [])\<rparr>"


section \<open>Masking item by item\<close>

lemma hybi_mask_eq:
  "length key = 4 \<Longrightarrow> length d \<le> MAX_WEBSOCKET_PAYLOAD \<Longrightarrow> hybi_mask dp key d = Inr (xor_mask key d)"
  by (simp add: hybi_mask_def do_hybi_mask_eq)

lemma emap_hybi_mask:
  assumes "length key = 4" "list_all (\<lambda>i. length i \<le> MAX_WEBSOCKET_PAYLOAD) items"
  shows "emap (hybi_mask dp key) items = Inr (map (xor_mask key) items)"
  using assms(2) by (induction items) (simp_all add: hybi_mask_eq assms(1))

lemma xor_mask_append:
  assumes "length a mod 4 = 0"
  shows "xor_mask key (a @ b) = xor_mask key a @ xor_mask key b"
proof (rule nth_equalityI)
  have "(i - length a) mod 4 = i mod 4" if le: "length a \<le> i" for i
  proof -
    obtain k where k: "i = length a + k" using le_Suc_ex [OF le] by blast
    show ?thesis unfolding k using assms by (metis add_0 diff_add_inverse mod_add_left_eq)
  qed
  then show "xor_mask key (a @ b) ! i = (xor_mask key a @ xor_mask key b) ! i" if "i < length (xor_mask key (a @ b))" for i
    using that by (auto simp: xor_mask_def nth_append)
qed simp

lemma xor_mask_items:
  "list_all (\<lambda>i. length i mod 4 = 0) (butlast items) \<Longrightarrow>
     concat (map (xor_mask key) items) = xor_mask key (concat items)"
proof (induction items)
  case (Cons a items)
  then show ?case by (cases items) (simp_all add: xor_mask_append)
qed (simp add: xor_mask_def)

text \<open>
  What is sent for the items of a packet is one frame whose payload is all of them, where
  masking is off, or every item but the last is a multiple of four bytes long.
\<close>

theorem wsframe_carries_items:
  assumes "make_wsframe_header key masked items = Inr (h, items')" "length key = 4"
    and "masked \<longrightarrow> list_all (\<lambda>i. length i mod 4 = 0) (butlast items) \<and>
      sum_list (map length items) \<le> MAX_WEBSOCKET_PAYLOAD"
  shows "decode_hybi addr (h @ concat items' @ rest) =
    Inr (Some (OPCODE_BINARY, concat items, length h + length (concat items), True))"
proof -
  have o: "0 \<le> OPCODE_BINARY" "OPCODE_BINARY < 16" by (simp_all add: opcode_defs)
  have len: "sum_list (map length items) = length (concat items)" by (simp add: length_concat)
  obtain hd where hd: "encode_hybi_header OPCODE_BINARY (length (concat items)) masked True = Inr hd"
    using assms(1) by (auto simp: make_wsframe_header_def ebind_eq_Inr len)
  show ?thesis
  proof (cases masked)
    case False
    then have "h = hd" "items' = items" using assms(1) hd by (simp_all add: make_wsframe_header_def len)
    then show ?thesis
      using hybi_roundtrip_step [OF hd o assms(2), of addr rest] False by simp
  next
    case True
    have "length i \<le> length (concat items)" if "i \<in> set items" for i
      using that by (induction items) auto
    then have "list_all (\<lambda>i. length i \<le> MAX_WEBSOCKET_PAYLOAD) items"
      using assms(3) True len by (fastforce simp: list_all_iff)
    then have "h = hd @ key" "items' = map (xor_mask key) items"
      using assms(1,2) True hd by (simp_all add: make_wsframe_header_def len emap_hybi_mask)
    moreover have "concat (map (xor_mask key) items) = xor_mask key (concat items)"
      using assms(3) True xor_mask_items by blast
    ultimately show ?thesis
      using hybi_roundtrip_step [OF hd o assms(2), of addr rest] True assms(2,3) len by simp
  qed
qed

theorem wsframe_carries_items_witness:
  "decode_hybi length ([0x82, 0x86, 1, 2, 3, 4] @ concat [xor_mask [1, 2, 3, 4] [5, 6, 7, 8], xor_mask [1, 2, 3, 4] [9, 10]] @ []) =
     Inr (Some (OPCODE_BINARY, [5, 6, 7, 8, 9, 10], 12, True))"
proof -
  have "make_wsframe_header [1, 2, 3, 4] True [[5, 6, 7, 8], [9, 10]] =
      Inr ([0x82, 0x86, 1, 2, 3, 4], [xor_mask [1, 2, 3, 4] [5, 6, 7, 8], xor_mask [1, 2, 3, 4] [9, 10]])"
    by (simp add: make_wsframe_header_def encode_hybi_header_def emap_hybi_mask opcode_defs MAX_WEBSOCKET_PAYLOAD_def hybi_mask_eq)
  from wsframe_carries_items [OF this, of length "[]"] show ?thesis
    by (simp add: MAX_WEBSOCKET_PAYLOAD_def)
qed

text \<open>
  Each item is masked from the start of the key, so an item whose length is not a multiple of
  four puts the following ones out of step: here the second byte of the payload arrives changed.
\<close>

theorem masked_items_out_of_step:
  "\<exists>h items'. make_wsframe_header [1, 2, 3, 4] True [[10], [20]] = Inr (h, items') \<and>
     decode_hybi length (h @ concat items') = Inr (Some (OPCODE_BINARY, [10, 23], 8, True))"
proof -
  have m: "make_wsframe_header [1, 2, 3, 4] True [[10], [20]] =
      Inr ([0x82, 0x82, 1, 2, 3, 4], [xor_mask [1, 2, 3, 4] [10], xor_mask [1, 2, 3, 4] [20]])"
    by (simp add: make_wsframe_header_def encode_hybi_header_def emap_hybi_mask opcode_defs MAX_WEBSOCKET_PAYLOAD_def hybi_mask_eq)
  have x: "xor_mask [1, 2, 3, 4] [10] @ xor_mask [1, 2, 3, 4] [20] = xor_mask [1, 2, 3, 4] [10, 23]"
    by (simp add: xor_mask_def)
  have "encode_hybi_header OPCODE_BINARY (length [10, 23::byte]) True True = Inr [0x82, 0x82]"
    by (simp add: encode_hybi_header_def opcode_defs)
  from hybi_roundtrip_step [OF this, of "[1, 2, 3, 4]" length "[]"] m x show ?thesis
    by (simp add: opcode_defs MAX_WEBSOCKET_PAYLOAD_def)
qed

end
