(* ===== verification/MmapRing.thy ===== *)
theory MmapRing
  imports PacketValues
begin

text \<open>
  The shared memory area of \<^verbatim>\<open>src/xpra/net/mmap/io.py\<close>: a ring buffer whose first eight bytes are
  two 32-bit pointers, \<^verbatim>\<open>data_start\<close>, which only the reader moves, and \<^verbatim>\<open>data_end\<close>, which only the
  writer moves. What is written stays intact until it is read, as long as no write fills the free
  space exactly; one that does makes the area look empty, and unread data is overwritten.
\<close>

section \<open>The area\<close>

text \<open>The bytes of the area; \<open>put_at\<close> replaces some of them.\<close>

definition put_at :: "nat \<Rightarrow> bytes \<Rightarrow> bytes \<Rightarrow> bytes" where
  "put_at pos d area = take pos area @ d @ drop (pos + length d) area"

text \<open>A \<^verbatim>\<open>c_uint32\<close> in the area (of a little-endian machine): reading and assigning its value.\<close>

definition int_from_buffer :: "bytes \<Rightarrow> nat \<Rightarrow> int result" where
  "int_from_buffer area pos =
     (if length area < pos + 4 then Inl ValueError else Inr (be_int (rev (take 4 (drop pos area)))))"

definition set_uint32 :: "nat \<Rightarrow> int \<Rightarrow> bytes \<Rightarrow> bytes" where
  "set_uint32 pos v area = put_at pos (rev (be_bytes 4 v)) area"

definition MIN_SIZE :: int where "MIN_SIZE = 64 * 1024 * 1024"
definition MAX_SIZE :: int where "MAX_SIZE = 4 * 1024 * 1024 * 1024"

definition validate_size :: "int \<Rightarrow> unit result" where
  "validate_size sz = (if sz < MIN_SIZE then Inl ValueError else if sz \<ge> MAX_SIZE then Inl ValueError else Inr ())"

definition read_pointer :: "bytes \<Rightarrow> int \<Rightarrow> nat \<Rightarrow> int result" where
  "read_pointer area mmap_size pos =
     ebind (int_from_buffer area pos) (\<lambda>v.
       if v \<noteq> 0 \<and> \<not> (8 \<le> v \<and> v \<le> mmap_size) then Inl MmapPointerError else Inr (max 8 v))"

section \<open>Writing\<close>

type_synonym chunk = "int \<times> int"

text \<open>\<^verbatim>\<open>seek\<close> and \<^verbatim>\<open>write\<close> of a \<^verbatim>\<open>mmap\<close> object, several times.\<close>

fun seek_write :: "(int \<times> bytes) list \<Rightarrow> bytes \<Rightarrow> py_error option \<times> bytes" where
  "seek_write [] area = (None, area)"
| "seek_write ((pos, d) # ws) area =
     (if pos < 0 \<or> int (length area) < pos + int (length d) then (Some ValueError, area)
      else seek_write ws (put_at (nat pos) d area))"

text \<open>
  Where the data goes: the writes, and the chunks that describe them; nothing where it does not
  fit. \<open>always_wrap\<close> is \<^verbatim>\<open>ALWAYS_WRAP\<close>.
\<close>

definition free_chunk :: "int \<Rightarrow> int \<Rightarrow> int \<Rightarrow> int" where
  "free_chunk mmap_size st en = (if en < st then st - en else mmap_size - en)"

definition free_space :: "int \<Rightarrow> int \<Rightarrow> int \<Rightarrow> int" where
  "free_space mmap_size st en = (if en < st then st - en else (mmap_size - en) + (st - 8))"

definition place :: "bool \<Rightarrow> int \<Rightarrow> int \<Rightarrow> int \<Rightarrow> int \<Rightarrow> chunk list" where
  "place always_wrap mmap_size st en sz =
     (let chunk = free_chunk mmap_size st en; available = free_space mmap_size st en
      in if sz > available then []
         else if sz < chunk then [(en, sz)]
         else if \<not> always_wrap \<and> available \<ge> mmap_size div 2 \<and> available \<ge> sz * 3 \<and> sz < st - 8 then [(8, sz)]
         else [(en, chunk), (8, sz - chunk)])"

text \<open>The data cut as the chunks say.\<close>

fun cut_data :: "chunk list \<Rightarrow> bytes \<Rightarrow> (int \<times> bytes) list" where
  "cut_data [] d = []"
| "cut_data ((pos, l) # cs) d = (pos, take (nat l) d) # cut_data cs (drop (nat l) d)"

definition chunks_end :: "chunk list \<Rightarrow> int" where
  "chunks_end cs = (case last cs of (pos, l) \<Rightarrow> pos + l)"

definition mmap_write :: "bool \<Rightarrow> bytes \<Rightarrow> int \<Rightarrow> bytes \<Rightarrow> chunk list result \<times> bytes" where
  "mmap_write always_wrap area mmap_size d =
     (if int (length d) > mmap_size - 8 then (Inr [], area)
      else
        case ebind (int_from_buffer area 4) (\<lambda>_.
             ebind (read_pointer area mmap_size 0) (\<lambda>st.
             ebind (read_pointer area mmap_size 4) (\<lambda>en. Inr (st, en)))) of
          Inl e \<Rightarrow> (Inl e, area)
        | Inr (st, en) \<Rightarrow>
            let cs = place always_wrap mmap_size st en (int (length d))
            in if cs = [] then (Inr [], area)
               else
                 (case seek_write (cut_data cs d) area of
                   (Some e, area') \<Rightarrow> (Inl e, area')
                 | (None, area') \<Rightarrow> (Inr cs, set_uint32 4 (chunks_end cs) area')))"

definition mmap_free_size :: "bytes \<Rightarrow> int \<Rightarrow> int result" where
  "mmap_free_size area mmap_size =
     ebind (read_pointer area mmap_size 0) (\<lambda>st.
     ebind (read_pointer area mmap_size 4) (\<lambda>en.
     Inr (free_space mmap_size st en)))"

section \<open>Reading\<close>

text \<open>
  \<^verbatim>\<open>validate_chunks\<close>: the description comes from the peer, so nothing is known of it. (A boolean is
  an integer to \<^verbatim>\<open>isinstance\<close>.)
\<close>

fun index_value :: "pval \<Rightarrow> int option" where
  "index_value (PInt n) = Some n"
| "index_value (PIntEnum n) = Some n"
| "index_value (PBool b) = Some (if b then 1 else 0)"
| "index_value _ = None"

definition validate_chunk :: "nat \<Rightarrow> pval \<Rightarrow> chunk result" where
  "validate_chunk sz c =
     (case (case c of PList xs \<Rightarrow> Some xs | PTuple xs \<Rightarrow> Some xs | _ \<Rightarrow> None) of
        Some [a, b] \<Rightarrow>
          (case (index_value a, index_value b) of
             (Some offset, Some l) \<Rightarrow>
               if offset < 8 \<or> l < 0 \<or> offset + l > int sz then Inl ValueError else Inr (offset, l)
           | _ \<Rightarrow> Inl ValueError)
      | _ \<Rightarrow> Inl ValueError)"

definition validate_chunks :: "bytes \<Rightarrow> pval list \<Rightarrow> chunk list result" where
  "validate_chunks area descr = emap (validate_chunk (length area)) descr"

definition view :: "bytes \<Rightarrow> chunk \<Rightarrow> bytes" where
  "view area c = take (nat (snd c)) (drop (nat (fst c)) area)"

definition free_mem :: "int \<Rightarrow> bytes \<Rightarrow> bytes" where
  "free_mem v area = set_uint32 0 v area"

text \<open>
  \<^verbatim>\<open>mmap_read\<close>: the data, and the pointer value that its callback will store; with one chunk the
  data is a view of the area and the callback moves the pointer, otherwise the data is a copy, the
  pointer is moved at once and there is nothing left to do.
\<close>

definition mmap_read :: "bytes \<Rightarrow> pval list \<Rightarrow> (bytes \<times> int option \<times> bytes) result" where
  "mmap_read area descr =
     ebind (validate_chunks area descr) (\<lambda>cs.
     ebind (int_from_buffer area 0) (\<lambda>data_start.
       case cs of
         [c] \<Rightarrow> Inr (view area c, Some (fst c + snd c), area)
       | _ \<Rightarrow>
           let en = (if cs = [] then data_start else chunks_end cs)
           in Inr (concat (map (view area) cs), None, free_mem en area)))"

text \<open>How the writer's chunks are described to the reader.\<close>

definition describe :: "chunk list \<Rightarrow> pval list" where
  "describe cs = map (\<lambda>(a, b). PTuple [PInt a, PInt b]) cs"

section \<open>Tokens\<close>

definition MAX_TOKEN_BYTES :: nat where "MAX_TOKEN_BYTES = 128 * 4"

definition validate_token_range :: "bytes \<Rightarrow> int \<Rightarrow> int \<Rightarrow> unit result" where
  "validate_token_range area index count =
     (if \<not> (0 < count \<and> count \<le> int MAX_TOKEN_BYTES) then Inl ValueError
      else if index < 0 \<or> index + count > int (length area) then Inl ValueError
      else Inr ())"

fun poke_token :: "nat \<Rightarrow> nat \<Rightarrow> int \<Rightarrow> bytes \<Rightarrow> int \<times> bytes" where
  "poke_token 0 i v area = (v, area)"
| "poke_token (Suc n) i v area = poke_token n (Suc i) (v div 256) (area[i := word_of_int (v mod 256)])"

definition write_mmap_token :: "bytes \<Rightarrow> int \<Rightarrow> int \<Rightarrow> int \<Rightarrow> py_error option \<times> bytes" where
  "write_mmap_token area token index count =
     (case validate_token_range area index count of
        Inl e \<Rightarrow> (Some e, area)
      | Inr _ \<Rightarrow>
          let (v, area') = poke_token (nat count) (nat index) token area
          in (if v = 0 then None else Some AssertionError, area'))"

definition read_mmap_token :: "bytes \<Rightarrow> int \<Rightarrow> int \<Rightarrow> int result" where
  "read_mmap_token area index count =
     ebind (validate_token_range area index count) (\<lambda>_.
       Inr (foldl (\<lambda>v i. v * 256 + uint (area ! (nat index + nat count - 1 - i))) 0 [0..<nat count]))"

section \<open>Replacing and viewing bytes\<close>

lemma length_put_at [simp]: "pos + length d \<le> length area \<Longrightarrow> length (put_at pos d area) = length area"
  by (simp add: put_at_def)

lemma nth_put_at:
  "pos + length d \<le> length area \<Longrightarrow> i < length area \<Longrightarrow>
     put_at pos d area ! i = (if pos \<le> i \<and> i < pos + length d then d ! (i - pos) else area ! i)"
  by (auto simp: put_at_def nth_append)

lemma length_set_uint32 [simp]: "pos + 4 \<le> length area \<Longrightarrow> length (set_uint32 pos v area) = length area"
  by (simp add: set_uint32_def)

lemma view_put_at_other:
  assumes "0 \<le> off" "0 \<le> l" "off + l \<le> int (length area)" "pos + length d \<le> length area"
    and "off + l \<le> int pos \<or> int (pos + length d) \<le> off"
  shows "view (put_at pos d area) (off, l) = view area (off, l)"
proof (rule nth_equalityI)
  show "length (view (put_at pos d area) (off, l)) = length (view area (off, l))"
    using assms(4) by (simp add: view_def)
  fix i assume i: "i < length (view (put_at pos d area) (off, l))"
  then have i': "i < nat l" using assms(3,4) by (simp add: view_def)
  then have "nat off + i < length area" "\<not> (pos \<le> nat off + i \<and> nat off + i < pos + length d)"
    using assms by auto
  then show "view (put_at pos d area) (off, l) ! i = view area (off, l) ! i"
    using i' assms by (auto simp: view_def nth_put_at)
qed

lemma view_put_at_same:
  assumes "pos + length d \<le> length area"
  shows "view (put_at pos d area) (int pos, int (length d)) = d"
  using assms by (simp add: view_def put_at_def)

lemma view_set_uint32:
  assumes "8 \<le> off" "0 \<le> l" "off + l \<le> int (length area)" "pos + 4 \<le> 8"
  shows "view (set_uint32 pos v area) (off, l) = view area (off, l)"
  unfolding set_uint32_def by (rule view_put_at_other) (use assms in auto)

section \<open>The pointers\<close>

definition pointers :: "bytes \<Rightarrow> int \<Rightarrow> int \<Rightarrow> int \<Rightarrow> bool" where
  "pointers area mmap_size st en \<longleftrightarrow> read_pointer area mmap_size 0 = Inr st \<and> read_pointer area mmap_size 4 = Inr en"

lemma int_from_buffer_set:
  assumes "pos + 4 \<le> length area" "0 \<le> v" "v < 2 ^ 32"
  shows "int_from_buffer (set_uint32 pos v area) pos = Inr v"
  using assms by (simp add: int_from_buffer_def set_uint32_def put_at_def be_int_be_bytes)

lemma int_from_buffer_put_at:
  assumes "q + 4 \<le> length area" "pos + length d \<le> length area" "q + 4 \<le> pos \<or> pos + length d \<le> q"
  shows "int_from_buffer (put_at pos d area) q = int_from_buffer area q"
proof -
  have "take 4 (drop q (put_at pos d area)) = take 4 (drop q area)"
    by (rule nth_equalityI) (use assms in \<open>auto simp: nth_put_at\<close>)
  with assms show ?thesis by (simp add: int_from_buffer_def)
qed

lemma read_pointer_set:
  assumes "pos + 4 \<le> length area" "8 \<le> v" "v \<le> mmap_size" "v < 2 ^ 32"
  shows "read_pointer (set_uint32 pos v area) mmap_size pos = Inr v"
  using assms by (simp add: read_pointer_def int_from_buffer_set)

lemma read_pointer_set_other:
  assumes "q + 4 \<le> length area" "pos + 4 \<le> length area" "q + 4 \<le> pos \<or> pos + 4 \<le> q"
  shows "read_pointer (set_uint32 pos v area) mmap_size q = read_pointer area mmap_size q"
  using assms by (simp add: read_pointer_def set_uint32_def int_from_buffer_put_at)

lemma read_pointer_put_at:
  assumes "q + 4 \<le> 8" "8 \<le> pos" "pos + length d \<le> length area"
  shows "read_pointer (put_at pos d area) mmap_size q = read_pointer area mmap_size q"
  using assms by (simp add: read_pointer_def int_from_buffer_put_at)

lemma pointers_put_at:
  "pointers area sz st en \<Longrightarrow> 8 \<le> pos \<Longrightarrow> pos + length d \<le> length area \<Longrightarrow> pointers (put_at pos d area) sz st en"
  by (simp add: pointers_def read_pointer_put_at)

lemma pointers_set:
  assumes "pointers area sz st en" "8 \<le> length area" "8 \<le> v" "v \<le> sz" "v < 2 ^ 32"
  shows "pointers (set_uint32 0 v area) sz v en" "pointers (set_uint32 4 v area) sz st v"
  using assms by (simp_all add: pointers_def read_pointer_set read_pointer_set_other)

section \<open>The writes\<close>

text \<open>Chunks inside the area, and where their data is after the write.\<close>

definition chunk_ok :: "int \<Rightarrow> chunk \<Rightarrow> bool" where
  "chunk_ok sz c \<longleftrightarrow> 8 \<le> fst c \<and> 0 \<le> snd c \<and> fst c + snd c \<le> sz"

definition apart :: "chunk \<Rightarrow> chunk \<Rightarrow> bool" where
  "apart a b \<longleftrightarrow> fst a + snd a \<le> fst b \<or> fst b + snd b \<le> fst a"

definition chunks_len :: "chunk list \<Rightarrow> int" where
  "chunks_len cs = sum_list (map snd cs)"

lemma seek_write_chunks:
  assumes "list_all (chunk_ok (int (length area))) cs" "chunks_len cs = int (length d)"
    and "\<forall>i<length cs. \<forall>j<i. apart (cs ! j) (cs ! i)"
  shows "\<exists>area'. seek_write (cut_data cs d) area = (None, area') \<and> length area' = length area \<and>
    concat (map (view area') cs) = d \<and>
    (\<forall>sz st en. pointers area sz st en \<longrightarrow> pointers area' sz st en) \<and>
    (\<forall>c. chunk_ok (int (length area)) c \<longrightarrow> (\<forall>c'\<in>set cs. apart c c') \<longrightarrow> view area' c = view area c)"
  using assms
proof (induction cs arbitrary: d area)
  case Nil
  then show ?case by (simp add: chunks_len_def)
next
  case (Cons c cs)
  obtain pos l where c: "c = (pos, l)" by (cases c)
  have ok: "8 \<le> pos" "0 \<le> l" "pos + l \<le> int (length area)" using Cons.prems(1) c by (simp_all add: chunk_ok_def)
  have tail: "list_all (chunk_ok (int (length area))) cs" using Cons.prems(1) by simp
  have "0 \<le> chunks_len cs"
    unfolding chunks_len_def using tail by (induction cs) (auto simp: chunk_ok_def)
  then have l: "l \<le> int (length d)" "chunks_len cs = int (length (drop (nat l) d))"
    using Cons.prems(2) c ok by (auto simp: chunks_len_def)
  let ?d = "take (nat l) d"
  have ld: "length ?d = nat l" using l(1) by simp
  let ?a = "put_at (nat pos) ?d area"
  have b: "nat pos + length ?d \<le> length area" using ok ld by linarith
  have la: "length ?a = length area" using b by (rule length_put_at)
  have ap: "\<forall>i<length cs. \<forall>j<i. apart (cs ! j) (cs ! i)" using Cons.prems(3) by fastforce
  from Cons.IH [of ?a "drop (nat l) d"] tail l(2) ap la obtain area' where
    a': "seek_write (cut_data cs (drop (nat l) d)) ?a = (None, area')" "length area' = length area"
      "concat (map (view area') cs) = drop (nat l) d"
      "\<forall>sz st en. pointers ?a sz st en \<longrightarrow> pointers area' sz st en"
      "\<forall>c. chunk_ok (int (length area)) c \<longrightarrow> (\<forall>c'\<in>set cs. apart c c') \<longrightarrow> view area' c = view ?a c"
    by auto
  have "\<forall>c'\<in>set cs. apart c c'"
    using Cons.prems(3) by (fastforce simp: in_set_conv_nth)
  then have "view area' c = view ?a c" using a'(5) ok c by (simp add: chunk_ok_def)
  also have "\<dots> = ?d" using view_put_at_same [OF b] ok ld c by simp
  finally have own: "view area' c = ?d" .
  have other: "view area' e = view area e" if "chunk_ok (int (length area)) e" "\<forall>c'\<in>set (c # cs). apart e c'" for e
  proof -
    obtain o' l' where e: "e = (o', l')" by (cases e)
    have "view ?a e = view area e"
      unfolding e by (rule view_put_at_other) (use that e c ok ld in \<open>auto simp: chunk_ok_def apart_def\<close>)
    moreover have "view area' e = view ?a e" using a'(5) that by (meson list.set_intros(2))
    ultimately show ?thesis by simp
  qed
  have "pointers area sz st en \<longrightarrow> pointers area' sz st en" for sz st en
    using a'(4) pointers_put_at [of area sz st en "nat pos" ?d] ok b by auto
  then show ?case
    using a' own other ok ld l(1) c by (intro exI [of _ area']) auto
qed

section \<open>The ring\<close>

text \<open>The area with what was written and not yet read: the chunks, and the data.\<close>

record ring =
  r_area :: bytes
  r_queue :: "(chunk list \<times> bytes) list"

text \<open>
  The writer writes, which appends to the queue unless there is no room; the reader reads the oldest
  entry and moves the pointer. \<open>exact\<close>: whether writes that fill the free space exactly may happen.
\<close>

inductive ring_step :: "bool \<Rightarrow> bool \<Rightarrow> ring \<Rightarrow> ring \<Rightarrow> bool" for always_wrap exact where
  writes: "\<lbrakk>mmap_write always_wrap (r_area r) (int (length (r_area r))) d = (Inr cs, area'); cs \<noteq> [];
    exact \<or> mmap_free_size (r_area r) (int (length (r_area r))) \<noteq> Inr (int (length d))\<rbrakk> \<Longrightarrow>
    ring_step always_wrap exact r \<lparr>r_area = area', r_queue = r_queue r @ [(cs, d)]\<rparr>"
| reads: "\<lbrakk>r_queue r = (cs, d) # q; mmap_read (r_area r) (describe cs) = Inr (x, later, area1)\<rbrakk> \<Longrightarrow>
    ring_step always_wrap exact r
      \<lparr>r_area = (case later of None \<Rightarrow> area1 | Some v \<Rightarrow> free_mem v area1), r_queue = q\<rparr>"

definition fresh_ring :: "nat \<Rightarrow> ring" where
  "fresh_ring n = \<lparr>r_area = replicate n 0, r_queue = []\<rparr>"

text \<open>Chunks that follow each other without a gap, and the one entry that goes round the end.\<close>

fun chain :: "int \<Rightarrow> chunk list list \<Rightarrow> int \<Rightarrow> bool" where
  "chain p [] m = (p = m)"
| "chain p (cs # css) m = (\<exists>l\<ge>0. cs = [(p, l)] \<and> chain (p + l) css m)"

definition wraps :: "int \<Rightarrow> int \<Rightarrow> chunk list \<Rightarrow> int \<Rightarrow> bool" where
  "wraps sz p cs n \<longleftrightarrow> 8 \<le> n \<and> (cs = [(8, n - 8)] \<or> cs = [(p, sz - p), (8, n - 8)])"

definition in_order :: "int \<Rightarrow> int \<Rightarrow> int \<Rightarrow> chunk list list \<Rightarrow> bool" where
  "in_order sz st en css \<longleftrightarrow>
     (8 \<le> st \<and> st \<le> en \<and> en < sz \<and> chain st css en) \<or>
     (8 \<le> en \<and> en < st \<and> st < sz \<and> (\<exists>as w bs m n. css = as @ w # bs \<and> chain st as m \<and> m < sz \<and> wraps sz m w n \<and> chain n bs en))"

text \<open>The part of the area that the unread chunks may be in.\<close>

definition within :: "int \<Rightarrow> int \<Rightarrow> int \<Rightarrow> chunk \<Rightarrow> bool" where
  "within sz st en c \<longleftrightarrow> 8 \<le> fst c \<and> 0 \<le> snd c \<and> fst c + snd c \<le> sz \<and>
     (if st \<le> en then st \<le> fst c \<and> fst c + snd c \<le> en else st \<le> fst c \<or> fst c + snd c \<le> en)"

lemma chain_mono: "chain p css m \<Longrightarrow> p \<le> m"
  by (induction css arbitrary: p) fastforce+

lemma chain_within: "chain p css m \<Longrightarrow> cs \<in> set css \<Longrightarrow> c \<in> set cs \<Longrightarrow> p \<le> fst c \<and> 0 \<le> snd c \<and> fst c + snd c \<le> m"
proof (induction css arbitrary: p)
  case (Cons x css)
  then obtain l where l: "0 \<le> l" "x = [(p, l)]" "chain (p + l) css m" by auto
  show ?case
  proof (cases "cs = x")
    case True
    then show ?thesis using l chain_mono [OF l(3)] Cons.prems(3) by simp
  next
    case False
    then show ?thesis using Cons.IH [OF l(3)] Cons.prems l(1) by fastforce
  qed
qed simp

lemma chain_snoc: "chain p (css @ [cs]) m \<longleftrightarrow> (\<exists>q l. chain p css q \<and> 0 \<le> l \<and> cs = [(q, l)] \<and> m = q + l)"
  by (induction css arbitrary: p) auto

lemma in_order_within:
  assumes "in_order sz st en css" "cs \<in> set css" "c \<in> set cs"
  shows "within sz st en c"
  using assms(1) [unfolded in_order_def]
proof (elim disjE conjE exE)
  assume "8 \<le> st" "st \<le> en" "en < sz" "chain st css en"
  then show ?thesis using chain_within [OF _ assms(2,3), of st en] by (simp add: within_def)
next
  fix as w bs m n
  assume a: "8 \<le> en" "en < st" "st < sz" "css = as @ w # bs" "chain st as m" "m < sz" "wraps sz m w n" "chain n bs en"
  have n: "8 \<le> n" "n \<le> en" "st \<le> m" using a chain_mono by (auto simp: wraps_def)
  consider "cs \<in> set as" | "cs = w" | "cs \<in> set bs" using assms(2) a(4) by auto
  then show ?thesis
  proof cases
    case 1
    then show ?thesis using chain_within [OF a(5) _ assms(3)] a n by (simp add: within_def)
  next
    case 2
    then show ?thesis using a n assms(3) by (auto simp: within_def wraps_def)
  next
    case 3
    then show ?thesis using chain_within [OF a(8) _ assms(3)] a n by (simp add: within_def)
  qed
qed

text \<open>Reading the oldest entry moves the start to its end and keeps the order.\<close>

lemma in_order_read:
  assumes "in_order sz st en (cs # css)"
  shows "cs \<noteq> [] \<and> in_order sz (chunks_end cs) en css \<and> 8 \<le> chunks_end cs \<and> chunks_end cs < sz"
  using assms [unfolded in_order_def]
proof (elim disjE conjE exE)
  assume a: "8 \<le> st" "st \<le> en" "en < sz" "chain st (cs # css) en"
  then obtain l where l: "0 \<le> l" "cs = [(st, l)]" "chain (st + l) css en" by auto
  with a chain_mono [OF l(3)] show ?thesis by (simp add: in_order_def chunks_end_def)
next
  fix as w bs m n
  assume a: "8 \<le> en" "en < st" "st < sz" "cs # css = as @ w # bs" "chain st as m" "m < sz" "wraps sz m w n" "chain n bs en"
  have n: "8 \<le> n" "n \<le> en" using a chain_mono by (auto simp: wraps_def)
  show ?thesis
  proof (cases as)
    case Nil
    with a n show ?thesis by (auto simp: in_order_def chunks_end_def wraps_def)
  next
    case (Cons x as')
    then obtain l where l: "0 \<le> l" "cs = [(st, l)]" "chain (st + l) as' m" "css = as' @ w # bs"
      using a by auto
    have "in_order sz (st + l) en css"
      unfolding in_order_def using a l n chain_mono [OF l(3)] by fastforce
    with l a chain_mono [OF l(3)] show ?thesis by (simp add: chunks_end_def)
  qed
qed

text \<open>Writing less than the free space puts the new chunks where nothing unread is.\<close>

lemma in_order_write:
  assumes "in_order sz st en css" "0 \<le> n" "n < free_space sz st en"
  shows "let cs = place always_wrap sz st en n in cs \<noteq> [] \<and> in_order sz st (chunks_end cs) (css @ [cs]) \<and>
    8 \<le> chunks_end cs \<and> chunks_end cs < sz \<and> chunks_len cs = n \<and> list_all (chunk_ok sz) cs \<and>
    (\<forall>i<length cs. \<forall>j<i. apart (cs ! j) (cs ! i)) \<and>
    (\<forall>c. within sz st en c \<longrightarrow> (\<forall>c'\<in>set cs. apart c c'))"
proof -
  define cs where "cs = place always_wrap sz st en n"
  have b: "8 \<le> st" "8 \<le> en" "st < sz" "en < sz" using assms(1) by (auto simp: in_order_def)
  have apart2: "(\<forall>i<length [x, y]. \<forall>j<i. apart ([x, y] ! j) ([x, y] ! i)) \<longleftrightarrow> apart x y" for x y
    by (auto simp: less_Suc_eq nth_Cons')
  show ?thesis
  proof (cases "en < st")
    case True
    then have cs: "cs = [(en, n)]" "n < st - en"
      using assms(3) by (simp_all add: cs_def place_def free_space_def free_chunk_def Let_def)
    obtain as w bs m k where o: "css = as @ w # bs" "chain st as m" "m < sz" "wraps sz m w k" "chain k bs en"
      using assms(1) True by (auto simp: in_order_def)
    have "chain k (bs @ [cs]) (en + n)" using o(5) cs assms(2) by (auto simp: chain_snoc)
    then have "in_order sz st (en + n) (css @ [cs])"
      unfolding in_order_def using o b cs assms(2) by (intro disjI2) fastforce
    then show ?thesis
      unfolding cs_def [symmetric] Let_def using cs b assms(2) True
      by (auto simp: chunks_end_def chunks_len_def chunk_ok_def within_def apart_def)
  next
    case False
    then have ch: "chain st css en" "st \<le> en" using assms(1) by (auto simp: in_order_def)
    have f: "n < sz - en + (st - 8)" using assms(3) False by (simp add: free_space_def)
    define restart where "restart \<longleftrightarrow> \<not> always_wrap \<and> sz - en + (st - 8) \<ge> sz div 2 \<and> sz - en + (st - 8) \<ge> n * 3 \<and> n < st - 8"
    have e: "cs = (if n < sz - en then [(en, n)] else if restart then [(8, n)] else [(en, sz - en), (8, n - (sz - en))])"
      using f False by (simp add: cs_def place_def free_space_def free_chunk_def restart_def Let_def)
    have "restart \<Longrightarrow> n < st - 8" by (simp add: restart_def)
    then consider "cs = [(en, n)]" "n < sz - en" | "cs = [(8, n)]" "n < st - 8" | "cs = [(en, sz - en), (8, n - (sz - en))]" "sz - en \<le> n"
      using e by (metis not_le)
    then show ?thesis
    proof cases
      case 1
      have "in_order sz st (en + n) (css @ [cs])"
        unfolding in_order_def using ch b 1 assms(2) by (intro disjI1) (auto simp: chain_snoc)
      then show ?thesis
        unfolding cs_def [symmetric] Let_def using 1 b assms(2) ch(2)
        by (auto simp: chunks_end_def chunks_len_def chunk_ok_def within_def apart_def)
    next
      case 2
      have "wraps sz en cs (8 + n)" using 2 assms(2) by (simp add: wraps_def)
      then have "in_order sz st (8 + n) (css @ [cs])"
        unfolding in_order_def using ch b 2 assms(2)
        by (intro disjI2 conjI exI [of _ css] exI [of _ cs] exI [of _ "[]"] exI [of _ en] exI [of _ "8 + n"]) auto
      then show ?thesis
        unfolding cs_def [symmetric] Let_def using 2 b assms(2) ch(2)
        by (auto simp: chunks_end_def chunks_len_def chunk_ok_def within_def apart_def)
    next
      case 3
      let ?e = "8 + (n - (sz - en))"
      have "wraps sz en cs ?e" using 3 by (simp add: wraps_def)
      then have "in_order sz st ?e (css @ [cs])"
        unfolding in_order_def using ch b 3 f
        by (intro disjI2 conjI exI [of _ css] exI [of _ cs] exI [of _ "[]"] exI [of _ en] exI [of _ ?e]) auto
      moreover have "apart (en, sz - en) (8, n - (sz - en))" using f ch(2) by (simp add: apart_def)
      ultimately show ?thesis
        unfolding cs_def [symmetric] Let_def 3(1) apart2 using 3(2) b f ch(2)
        by (auto simp: chunks_end_def chunks_len_def chunk_ok_def within_def apart_def)
    qed
  qed
qed

section \<open>What is unread stays intact\<close>

definition ring_inv :: "nat \<Rightarrow> ring \<Rightarrow> bool" where
  "ring_inv n r \<longleftrightarrow> length (r_area r) = n \<and> 8 < n \<and> int n < 2 ^ 32 \<and>
     (\<exists>st en. pointers (r_area r) (int n) st en \<and> in_order (int n) st en (map fst (r_queue r))) \<and>
     (\<forall>(cs, d) \<in> set (r_queue r). concat (map (view (r_area r)) cs) = d)"

lemma be_int_zeroes: "be_int (replicate k 0) = 0"
  by (induction k) (simp_all add: be_int_def)

lemma ring_inv_fresh: "8 < n \<Longrightarrow> int n < 2 ^ 32 \<Longrightarrow> ring_inv n (fresh_ring n)"
proof -
  assume n: "8 < n" "int n < 2 ^ 32"
  have "int_from_buffer (replicate n 0) q = Inr 0" if "q + 4 \<le> 8" for q
    using that n by (simp add: int_from_buffer_def be_int_zeroes)
  then have "pointers (replicate n 0) (int n) 8 8" by (simp add: pointers_def read_pointer_def)
  then show ?thesis using n by (auto simp: ring_inv_def fresh_ring_def in_order_def)
qed

lemma views_kept:
  assumes "\<And>c. c \<in> set cs \<Longrightarrow> view area' c = view area c"
  shows "concat (map (view area') cs) = concat (map (view area) cs)"
  using assms by (metis map_cong)

lemma view_set_pointer:
  assumes "within (int (length area)) st en c" "pos + 4 \<le> 8" "8 \<le> length area"
  shows "view (set_uint32 pos v area) c = view area c"
  using assms view_set_uint32 [of "fst c" "snd c" area pos v] by (cases c) (simp add: within_def)

lemma ring_inv_write:
  assumes "ring_inv n r" "mmap_write always_wrap (r_area r) (int n) d = (Inr cs, area')" "cs \<noteq> []"
    and "mmap_free_size (r_area r) (int n) \<noteq> Inr (int (length d))"
  shows "ring_inv n \<lparr>r_area = area', r_queue = r_queue r @ [(cs, d)]\<rparr>"
proof -
  let ?a = "r_area r" and ?q = "map fst (r_queue r)"
  have len: "length ?a = n" "8 < n" "int n < 2 ^ 32" using assms(1) by (simp_all add: ring_inv_def)
  obtain st en where p: "pointers ?a (int n) st en" and o: "in_order (int n) st en ?q"
    using assms(1) by (auto simp: ring_inv_def)
  have rp: "read_pointer ?a (int n) 0 = Inr st" "read_pointer ?a (int n) 4 = Inr en" using p by (simp_all add: pointers_def)
  have "int_from_buffer ?a 4 \<noteq> Inl e" for e using len by (simp add: int_from_buffer_def)
  then obtain v where v: "int_from_buffer ?a 4 = Inr v" by (cases "int_from_buffer ?a 4") auto
  let ?l = "int (length d)"
  have cs: "cs = place always_wrap (int n) st en ?l" "place always_wrap (int n) st en ?l \<noteq> []"
    and wr: "(case seek_write (cut_data cs d) ?a of (Some e, a) \<Rightarrow> (Inl e, a)
        | (None, a) \<Rightarrow> (Inr cs, set_uint32 4 (chunks_end cs) a)) = (Inr cs, area')"
    using assms(2,3) rp v by (auto simp: mmap_write_def Let_def split: if_splits prod.splits option.splits)
  have "?l \<le> free_space (int n) st en" using cs by (auto simp: place_def Let_def split: if_splits)
  moreover have "?l \<noteq> free_space (int n) st en"
    using assms(4) rp by (simp add: mmap_free_size_def)
  ultimately have "?l < free_space (int n) st en" by simp
  from in_order_write [OF o of_nat_0_le_iff this, of always_wrap] have w: "in_order (int n) st (chunks_end cs) (?q @ [cs])"
      "8 \<le> chunks_end cs" "chunks_end cs < int n" "chunks_len cs = ?l" "list_all (chunk_ok (int n)) cs"
      "\<forall>i<length cs. \<forall>j<i. apart (cs ! j) (cs ! i)" "\<And>c. within (int n) st en c \<Longrightarrow> \<forall>c'\<in>set cs. apart c c'"
    unfolding cs(1) [symmetric] Let_def by blast+
  obtain a1 where a1: "seek_write (cut_data cs d) ?a = (None, a1)" "length a1 = n" "concat (map (view a1) cs) = d"
      "pointers a1 (int n) st en"
      "\<And>c. chunk_ok (int n) c \<Longrightarrow> \<forall>c'\<in>set cs. apart c c' \<Longrightarrow> view a1 c = view ?a c"
    using seek_write_chunks [of ?a cs d] w(4-6) p len(1) by auto
  have area': "area' = set_uint32 4 (chunks_end cs) a1" using wr a1(1) by simp
  have ptr: "pointers area' (int n) st (chunks_end cs)"
    unfolding area' by (rule pointers_set(2) [OF a1(4)]) (use a1(2) len w(2,3) in auto)
  have la: "length area' = n" unfolding area' using a1(2) len by simp
  have pos: "view area' c = view a1 c" if "c \<in> set e" "e \<in> set (?q @ [cs])" for c e
    unfolding area' using view_set_pointer [of a1 st "chunks_end cs" c 4] in_order_within [OF w(1) that(2,1)] a1(2) len by simp
  have "concat (map (view area') cs') = d'" if "(cs', d') \<in> set (r_queue r)" for cs' d'
  proof -
    have m: "cs' \<in> set ?q" using that by force
    have "view area' c = view ?a c" if "c \<in> set cs'" for c
    proof -
      have "within (int n) st en c" using in_order_within [OF o m that] .
      then have "chunk_ok (int n) c" "\<forall>c'\<in>set cs. apart c c'" using w(7) by (auto simp: within_def chunk_ok_def)
      then show ?thesis using a1(5) pos [OF that] m by simp
    qed
    then show ?thesis using views_kept [of cs' area' ?a] assms(1) that by (auto simp: ring_inv_def)
  qed
  moreover have "concat (map (view area') cs) = d" using views_kept [of cs area' a1] pos a1(3) by simp
  ultimately show ?thesis using ptr w(1) la len by (auto simp: ring_inv_def)
qed

lemma validate_described:
  "list_all (chunk_ok (int n)) cs \<Longrightarrow> emap (validate_chunk n) (describe cs) = Inr cs"
  by (induction cs) (auto simp: describe_def validate_chunk_def chunk_ok_def)

lemma mmap_read_described:
  assumes "list_all (chunk_ok (int (length area))) cs" "cs \<noteq> []" "8 \<le> length area"
  shows "\<exists>later area1. mmap_read area (describe cs) = Inr (concat (map (view area) cs), later, area1) \<and>
    (case later of None \<Rightarrow> area1 | Some v \<Rightarrow> free_mem v area1) = set_uint32 0 (chunks_end cs) area"
proof -
  obtain v where v: "int_from_buffer area 0 = Inr v" using assms(3) by (simp add: int_from_buffer_def)
  show ?thesis
    using assms v validate_described [OF assms(1)]
    by (cases cs; cases "tl cs") (auto simp: mmap_read_def validate_chunks_def Let_def chunks_end_def free_mem_def)
qed

lemma ring_queue_ok:
  assumes "ring_inv n r" "r_queue r = (cs, d) # q"
  shows "cs \<noteq> []" "list_all (chunk_ok (int n)) cs" "concat (map (view (r_area r)) cs) = d"
proof -
  obtain st en where o: "in_order (int n) st en (cs # map fst q)" using assms by (auto simp: ring_inv_def)
  show "cs \<noteq> []" using in_order_read [OF o] by simp
  show "list_all (chunk_ok (int n)) cs"
    using in_order_within [OF o] by (auto simp: list_all_iff within_def chunk_ok_def)
  show "concat (map (view (r_area r)) cs) = d" using assms by (auto simp: ring_inv_def)
qed

lemma ring_inv_read:
  assumes "ring_inv n r" "r_queue r = (cs, d) # q"
  shows "ring_inv n \<lparr>r_area = set_uint32 0 (chunks_end cs) (r_area r), r_queue = q\<rparr>"
proof -
  let ?a = "r_area r" and ?a' = "set_uint32 0 (chunks_end cs) (r_area r)"
  have len: "length ?a = n" "8 < n" "int n < 2 ^ 32" using assms(1) by (simp_all add: ring_inv_def)
  obtain st en where p: "pointers ?a (int n) st en" and o: "in_order (int n) st en (cs # map fst q)"
    using assms by (auto simp: ring_inv_def)
  note i = in_order_read [OF o]
  have "pointers ?a' (int n) (chunks_end cs) en" by (rule pointers_set(1) [OF p]) (use i len in auto)
  moreover have "concat (map (view ?a') cs') = d'" if "(cs', d') \<in> set q" for cs' d'
  proof -
    have m: "cs' \<in> set (cs # map fst q)" using that by force
    have "view ?a' c = view ?a c" if "c \<in> set cs'" for c
      using view_set_pointer [of ?a st en c 0] in_order_within [OF o m that] len by simp
    then have "concat (map (view ?a') cs') = concat (map (view ?a) cs')" by (rule views_kept)
    then show ?thesis using assms that by (auto simp: ring_inv_def)
  qed
  ultimately show ?thesis using i len by (auto simp: ring_inv_def)
qed

lemma ring_inv_step:
  assumes "ring_step always_wrap False r r'" "ring_inv n r"
  shows "ring_inv n r'"
  using assms(1)
proof cases
  case (writes d cs area')
  then show ?thesis using ring_inv_write [of n r always_wrap d cs area'] assms(2) by (simp add: ring_inv_def)
next
  case (reads cs d q x later area1)
  note k = ring_queue_ok [OF assms(2) reads(2)]
  have "length (r_area r) = n" "8 < n" using assms(2) by (simp_all add: ring_inv_def)
  then show ?thesis
    using mmap_read_described [of "r_area r" cs] k reads ring_inv_read [OF assms(2) reads(2)] by auto
qed

lemma ring_inv_steps:
  "(ring_step always_wrap False)\<^sup>*\<^sup>* r r' \<Longrightarrow> ring_inv n r \<Longrightarrow> ring_inv n r'"
  by (induction rule: rtranclp_induct) (auto intro: ring_inv_step)



text \<open>
  A write that fills the free space exactly leaves an area that reports free space where the
  unread data is.
\<close>

theorem exact_fill_reported_free:
  assumes "pointers area (int n) st en" "length area = n" "int n < 2 ^ 32" "8 \<le> st" "st < int n" "8 \<le> en" "en < int n"
    and "mmap_free_size area (int n) = Inr (int (length d))" "mmap_write always_wrap area (int n) d = (Inr cs, area')" "cs \<noteq> []"
  shows "mmap_free_size area' (int n) = Inr (if en < st then st - 8 else int n - 8)"
proof -
  have rp: "read_pointer area (int n) 0 = Inr st" "read_pointer area (int n) 4 = Inr en" using assms(1) by (simp_all add: pointers_def)
  have len: "int (length d) = free_space (int n) st en" using assms(8) rp by (simp add: mmap_free_size_def)
  have "int_from_buffer area 4 \<noteq> Inl e" for e using assms by (simp add: int_from_buffer_def)
  then obtain v where v: "int_from_buffer area 4 = Inr v" by (cases "int_from_buffer area 4") auto
  have cs: "cs = place always_wrap (int n) st en (int (length d))"
    and wr: "(case seek_write (cut_data cs d) area of (Some e, a) \<Rightarrow> (Inl e, a)
        | (None, a) \<Rightarrow> (Inr cs, set_uint32 4 (chunks_end cs) a)) = (Inr cs, area')"
    using assms(9,10) rp v by (auto simp: mmap_write_def Let_def split: if_splits prod.splits option.splits)
  obtain e where e: "e = free_chunk (int n) st en" by simp
  have c: "cs = [(en, e), (8, int (length d) - e)]"
    using assms(4-7) len unfolding cs e by (auto simp: place_def Let_def free_space_def free_chunk_def)
  have ch: "chunks_len cs = int (length d)" "list_all (chunk_ok (int (length area))) cs"
    "\<forall>i<length cs. \<forall>j<i. apart (cs ! j) (cs ! i)"
    using assms(2,4-7) len unfolding c e
    by (auto simp: chunks_len_def chunk_ok_def apart_def free_space_def free_chunk_def less_Suc_eq nth_Cons')
  obtain a1 where a1: "seek_write (cut_data cs d) area = (None, a1)" "length a1 = n" "pointers a1 (int n) st en"
    using seek_write_chunks [OF ch(2,1,3)] assms(1,2) by auto
  have end8: "chunks_end cs = (if en < st then 8 else st)"
    using assms(4-7) len unfolding c e by (auto simp: chunks_end_def free_space_def free_chunk_def)
  have area': "area' = set_uint32 4 (chunks_end cs) a1" using wr a1(1) by simp
  have "pointers area' (int n) st (chunks_end cs)"
    unfolding area' by (rule pointers_set(2) [OF a1(3)]) (use a1(2) assms(3-7) end8 in auto)
  then show ?thesis using end8 assms(4,6) by (auto simp: pointers_def mmap_free_size_def free_space_def)
qed

text \<open>The free space of the fresh area is filled exactly; one more byte overwrites the first.\<close>

theorem exact_fill_reported_free_witness:
  "mmap_free_size [0,0,0,0, 8,0,0,0, 1,2,3,4,5,6,7,8] 16 = Inr 8 \<and>
   (\<exists>r q d'. (ring_step False True)\<^sup>*\<^sup>* (fresh_ring 16) r \<and>
     r_queue r = ([(8, 8), (8, 0)], [1, 2, 3, 4, 5, 6, 7, 8]) # q \<and>
     mmap_read (r_area r) (describe [(8, 8), (8, 0)]) = Inr ([9, 2, 3, 4, 5, 6, 7, 8], None, d'))"
proof -
  let ?d = "[1, 2, 3, 4, 5, 6, 7, 8] :: bytes"
  let ?a = "[0,0,0,0, 8,0,0,0, 1,2,3,4,5,6,7,8] :: bytes"
  let ?b = "[0,0,0,0, 9,0,0,0, 9,2,3,4,5,6,7,8] :: bytes"
  let ?c = "[8,0,0,0, 9,0,0,0, 9,2,3,4,5,6,7,8] :: bytes"
  let ?ra = "\<lparr>r_area = ?a, r_queue = [([(8, 8), (8, 0)], ?d)]\<rparr>"
  let ?rb = "\<lparr>r_area = ?b, r_queue = [([(8, 8), (8, 0)], ?d), ([(8, 1)], [9])]\<rparr>"
  have w: "mmap_write False (replicate 16 0) 16 ?d = (Inr [(8, 8), (8, 0)], ?a)"
    "mmap_write False ?a 16 [9] = (Inr [(8, 1)], ?b)" by code_simp+
  have p: "pointers (replicate 16 0) (int 16) 8 8" unfolding pointers_def by code_simp
  have f: "mmap_free_size (replicate 16 0) (int 16) = Inr (int (length ?d))" by code_simp
  have free: "mmap_free_size ?a 16 = Inr 8"
    using exact_fill_reported_free [OF p _ _ _ _ _ _ f, of False "[(8, 8), (8, 0)]" ?a] w(1) by simp
  have "ring_step False True (fresh_ring 16) ?ra"
    using ring_step.writes [of False "fresh_ring 16" ?d "[(8, 8), (8, 0)]" ?a True] w(1) by (simp add: fresh_ring_def)
  moreover have "ring_step False True ?ra ?rb"
    using ring_step.writes [of False ?ra "[9]" "[(8, 1)]" ?b True] w(2) by simp
  ultimately have s: "(ring_step False True)\<^sup>*\<^sup>* (fresh_ring 16) ?rb" by (meson r_into_rtranclp rtranclp.rtrancl_into_rtrancl)
  have "mmap_read ?b (describe [(8, 8), (8, 0)]) = Inr ([9, 2, 3, 4, 5, 6, 7, 8], None, ?c)" by code_simp
  then show ?thesis using free s by (intro conjI exI [of _ ?rb] exI [of _ "[([(8, 1)], [9])]"] exI [of _ ?c]) simp_all
qed

section \<open>Tokens\<close>

lemma poke_token_length [simp]: "length (snd (poke_token n i v area)) = length area"
  by (induction n i v area rule: poke_token.induct) auto

lemma poke_token_value: "fst (poke_token n i v area) = v div 256 ^ n"
  by (induction n i v area rule: poke_token.induct) (auto simp: zdiv_zmult2_eq)

lemma poke_token_nth:
  "i + n \<le> length area \<Longrightarrow> k < length area \<Longrightarrow>
     snd (poke_token n i v area) ! k = (if i \<le> k \<and> k < i + n then word_of_int (v div 256 ^ (k - i) mod 256) else area ! k)"
proof (induction n i v area rule: poke_token.induct)
  case (2 n i v area)
  have "v div 256 div 256 ^ (k - Suc i) = v div 256 ^ (k - i)" if "Suc i \<le> k"
  proof -
    have "k - i = Suc (k - Suc i)" using that by simp
    then show ?thesis by (simp add: zdiv_zmult2_eq)
  qed
  with 2 show ?case by (auto simp: nth_list_update)
qed auto

lemma foldl_digits:
  "0 \<le> v \<Longrightarrow> foldl (\<lambda>a i. a * 256 + v div 256 ^ (m - 1 - i) mod 256) 0 [0..<n] = v div 256 ^ (m - n) mod 256 ^ n"
  if "n \<le> m" for v :: int
  using that
proof (induction n)
  case (Suc n)
  have e: "m - n = Suc (m - 1 - n)" using Suc.prems by simp
  let ?u = "v div 256 ^ (m - 1 - n)"
  have "v div 256 ^ (m - n) = ?u div 256" unfolding e power_Suc2 by (simp add: zdiv_zmult2_eq)
  then have "foldl (\<lambda>a i. a * 256 + v div 256 ^ (m - 1 - i) mod 256) 0 [0..<Suc n] = ?u div 256 mod 256 ^ n * 256 + ?u mod 256"
    using Suc by simp
  also have "\<dots> = ?u mod (256 * 256 ^ n)" by (simp add: zmod_zmult2_eq)
  also have "m - 1 - n = m - Suc n" by simp
  finally show ?case by simp
qed simp

lemma token_written:
  assumes "validate_token_range area index count = Inr ()" "0 \<le> token" "token < 256 ^ nat count"
  shows "\<exists>area'. write_mmap_token area token index count = (None, area') \<and>
    read_mmap_token area' index count = Inr token \<and>
    (\<forall>k < length area. int k < index \<or> index + count \<le> int k \<longrightarrow> area' ! k = area ! k)"
proof -
  let ?a = "snd (poke_token (nat count) (nat index) token area)"
  let ?n = "nat count"
  have r: "0 < count" "0 \<le> index" "index + count \<le> int (length area)" "count \<le> int MAX_TOKEN_BYTES"
    using assms(1) by (auto simp: validate_token_range_def split: if_splits)
  have z: "fst (poke_token ?n (nat index) token area) = 0"
    using assms(2,3) by (simp add: poke_token_value)
  have "uint (?a ! (nat index + ?n - 1 - i)) = token div 256 ^ (?n - 1 - i) mod 256" if "i < ?n" for i
    using that r by (subst poke_token_nth) (auto simp: uint_word_of_int)
  then have "foldl (\<lambda>v i. v * 256 + uint (?a ! (nat index + ?n - 1 - i))) 0 [0..<?n] =
      foldl (\<lambda>v i. v * 256 + token div 256 ^ (?n - 1 - i) mod 256) 0 [0..<?n]"
    by (intro foldl_cong) auto
  also have "\<dots> = token" using foldl_digits [OF order_refl assms(2), of ?n] assms(2,3) by simp
  finally have "read_mmap_token ?a index count = Inr token"
    using r by (simp add: read_mmap_token_def validate_token_range_def)
  moreover have "write_mmap_token area token index count = (None, ?a)"
    using assms(1) z by (cases "poke_token ?n (nat index) token area") (simp add: write_mmap_token_def)
  moreover have "?a ! k = area ! k" if "k < length area" "int k < index \<or> index + count \<le> int k" for k
    using that r by (subst poke_token_nth) auto
  ultimately show ?thesis by blast
qed

text \<open>
  A token that fits in the bytes it is given is read back as it was written, and nothing else
  of the area changes.
\<close>

theorem mmap_token_roundtrip:
  assumes "validate_token_range area index count = Inr ()" "0 \<le> token" "token < 256 ^ nat count"
  shows "\<exists>area'. write_mmap_token area token index count = (None, area') \<and>
    read_mmap_token area' index count = Inr token \<and>
    (\<forall>k < length area. int k < index \<or> index + count \<le> int k \<longrightarrow> area' ! k = area ! k)"
  using assms by (rule token_written)

theorem mmap_token_roundtrip_witness:
  "\<exists>area'. write_mmap_token (replicate 32 0) 0xABCDEF 10 4 = (None, area') \<and> read_mmap_token area' 10 4 = Inr 0xABCDEF"
  using mmap_token_roundtrip [where area = "replicate 32 0" and index = 10 and count = 4 and token = "0xABCDEF"]
  by (auto simp: validate_token_range_def MAX_TOKEN_BYTES_def)

end
