(* ===== verification/MmapArea.thy ===== *)
theory MmapArea
  imports MmapRing
begin

unbundle bit_operations_syntax

text \<open>
  Setting up the shared memory area: opening the file a client names without following links
  (\<^verbatim>\<open>src/xpra/net/mmap/io.py\<close>), and the object that holds the area and checks its token
  (\<^verbatim>\<open>src/xpra/net/mmap/objects.py\<close>). The system calls are arguments.
\<close>

section \<open>Opening the file\<close>

record os_stat =
  st_uid :: int
  st_mode :: int
  st_nlink :: int
  st_size :: int

definition S_IFMT :: int where "S_IFMT = 0xF000"
definition S_IFREG :: int where "S_IFREG = 0x8000"
definition S_IWOTH :: int where "S_IWOTH = 2"
definition S_ISVTX :: int where "S_ISVTX = 512"

text \<open>
  The calls: opening the directory, opening a name in it, and the status of a descriptor; \<open>None\<close>
  where one raises \<^verbatim>\<open>OSError\<close>.
\<close>

record os_calls =
  os_open_dir :: "string \<Rightarrow> int option"
  os_open_at :: "int \<Rightarrow> string \<Rightarrow> int option"
  os_fstat :: "int \<Rightarrow> os_stat"

definition check_mmap_dir :: "os_stat \<Rightarrow> int list \<Rightarrow> bool" where
  "check_mmap_dir st uids =
     (if st_uid st \<noteq> 0 \<and> st_uid st \<notin> set uids then False
      else if st_mode st AND S_IWOTH \<noteq> 0 \<and> st_mode st AND S_ISVTX = 0 then False
      else True)"

definition check_mmap_fd :: "os_stat \<Rightarrow> int list \<Rightarrow> bool" where
  "check_mmap_fd st uids =
     (if st_mode st AND S_IFMT \<noteq> S_IFREG then False
      else if st_nlink st \<noteq> 1 then False
      else if st_uid st \<notin> set uids then False
      else True)"

definition basename :: "string \<Rightarrow> string" where
  "basename path = last (split_on (CHR ''/'') path)"

text \<open>\<open>safe_open_mmap_file\<close> returns the descriptor or -1, and which descriptors it has closed.\<close>

definition safe_open_mmap_file :: "os_calls \<Rightarrow> string \<Rightarrow> string \<Rightarrow> int list \<Rightarrow> int \<times> int list" where
  "safe_open_mmap_file os mmap_dir filename uids =
     (if filename = '''' \<or> filename \<noteq> basename filename \<or> filename = ''.'' \<or> filename = ''..'' then (-1, [])
      else case os_open_dir os mmap_dir of
        None \<Rightarrow> (-1, [])
      | Some dirfd \<Rightarrow>
          if \<not> check_mmap_dir (os_fstat os dirfd) uids then (-1, [dirfd])
          else
            (case os_open_at os dirfd filename of
               None \<Rightarrow> (-1, [dirfd])
             | Some fd \<Rightarrow>
                 if check_mmap_fd (os_fstat os fd) uids then (fd, [dirfd]) else (-1, [dirfd, fd])))"

text \<open>
  \<^verbatim>\<open>init_server_mmap\<close>; \<open>os_mmap\<close> maps so many bytes of the file, all of it for 0, or fails.
\<close>

definition init_server_mmap :: "(int \<Rightarrow> bytes option) \<Rightarrow> os_stat \<Rightarrow> int \<Rightarrow> bytes option \<times> nat" where
  "init_server_mmap os_mmap st mmap_size =
     (if mmap_size > st_size st then (None, 0)
      else case validate_size (if mmap_size \<noteq> 0 then mmap_size else st_size st) of
        Inl _ \<Rightarrow> (None, 0)
      | Inr _ \<Rightarrow> (case os_mmap mmap_size of None \<Rightarrow> (None, 0) | Some area \<Rightarrow> (Some area, length area)))"

section \<open>The area object\<close>

definition DEFAULT_TOKEN_BYTES :: int where "DEFAULT_TOKEN_BYTES = 128"

record mmap_obj =
  m_mmap :: "bytes option"
  m_enabled :: bool
  m_token :: int
  m_token_index :: int
  m_token_bytes :: int
  m_size :: int

definition BaseMmapArea_init :: "int \<Rightarrow> mmap_obj" where
  "BaseMmapArea_init sz = \<lparr>m_mmap = None, m_enabled = False, m_token = 0, m_token_index = 0, m_token_bytes = 0, m_size = sz\<rparr>"

definition mmap_bool :: "mmap_obj \<Rightarrow> bool" where
  "mmap_bool m \<longleftrightarrow> (case m_mmap m of None \<Rightarrow> False | Some a \<Rightarrow> a \<noteq> []) \<and> m_enabled m \<and> m_size m > 0"

definition mmap_close :: "mmap_obj \<Rightarrow> mmap_obj" where
  "mmap_close m = m\<lparr>m_mmap := None, m_enabled := False\<rparr>"

definition set_mmap :: "bytes \<Rightarrow> mmap_obj \<Rightarrow> mmap_obj" where
  "set_mmap area m = m\<lparr>m_mmap := Some area, m_size := int (length area)\<rparr>"

text \<open>The capabilities of the peer, as \<^verbatim>\<open>boolget\<close> and \<^verbatim>\<open>intget\<close> return them.\<close>

record mmap_caps =
  mc_enabled :: "bool option"
  mc_token :: "int option"
  mc_token_index :: "int option"
  mc_token_bytes :: "int option"
  mc_size :: "int option"

definition or_default :: "'a \<Rightarrow> 'a option \<Rightarrow> 'a" where
  "or_default d v = (case v of None \<Rightarrow> d | Some x \<Rightarrow> x)"

definition mmap_parse_caps :: "mmap_caps \<Rightarrow> mmap_obj \<Rightarrow> mmap_obj" where
  "mmap_parse_caps c m =
     (let m = m\<lparr>m_enabled := or_default True (mc_enabled c), m_token := or_default 0 (mc_token c),
        m_token_index := or_default 0 (mc_token_index c), m_token_bytes := or_default DEFAULT_TOKEN_BYTES (mc_token_bytes c)\<rparr>
      in m\<lparr>m_size := (case m_mmap m of
              Some a \<Rightarrow> (if a \<noteq> [] then int (length a) else if m_size m \<noteq> 0 then m_size m else or_default 0 (mc_size c))
            | None \<Rightarrow> if m_size m \<noteq> 0 then m_size m else or_default 0 (mc_size c))\<rparr>)"

definition verify_token :: "mmap_obj \<Rightarrow> bool result \<times> mmap_obj" where
  "verify_token m =
     (case m_mmap m of
        None \<Rightarrow> (Inl RuntimeError, m)
      | Some area \<Rightarrow>
          if area = [] then (Inl RuntimeError, m)
          else
            (case read_mmap_token area (m_token_index m) (m_token_bytes m) of
               Inl _ \<Rightarrow> (Inr False, m\<lparr>m_enabled := False\<rparr>)
             | Inr token \<Rightarrow>
                 if token = 0 then (Inr False, m)
                 else if token \<noteq> m_token m then (Inr False, m\<lparr>m_enabled := False\<rparr>)
                 else (Inr True, m)))"

text \<open>\<open>uuid\<close> and \<open>rnd\<close> are what the two random generators return.\<close>

definition gen_token :: "int \<Rightarrow> (int \<Rightarrow> int) \<Rightarrow> mmap_obj \<Rightarrow> mmap_obj" where
  "gen_token uuid rnd m =
     m\<lparr>m_token := uuid, m_token_bytes := DEFAULT_TOKEN_BYTES, m_token_index := rnd (m_size m - DEFAULT_TOKEN_BYTES)\<rparr>"

definition write_token :: "mmap_obj \<Rightarrow> py_error option \<times> mmap_obj" where
  "write_token m =
     (case m_mmap m of
        None \<Rightarrow> (Some (if 0 < m_token_bytes m \<and> m_token_bytes m \<le> int MAX_TOKEN_BYTES then TypeError else ValueError), m)
      | Some area \<Rightarrow>
          let (e, area') = write_mmap_token area (m_token m) (m_token_index m) (m_token_bytes m)
          in (e, m\<lparr>m_mmap := Some area'\<rparr>))"

section \<open>What opening guarantees\<close>

lemma split_on_last_eq: "last (split_on s xs) = xs \<Longrightarrow> s \<notin> set xs"
proof (induction xs)
  case (Cons x xs)
  have len: "length (last (split_on s xs)) \<le> length xs" for xs :: "'a list"
    by (induction xs) (auto split: list.splits)
  have "x \<noteq> s"
  proof
    assume "x = s"
    then show False using Cons.prems len [of xs] by simp
  qed
  moreover obtain p ps where p: "split_on s xs = p # ps" by (meson neq_Nil_conv split_on_not_Nil)
  moreover have "ps = []"
  proof (rule ccontr)
    assume "ps \<noteq> []"
    then have "last (split_on s (x # xs)) = last (split_on s xs)" using \<open>x \<noteq> s\<close> p by simp
    then show False using Cons.prems len [of xs] by simp
  qed
  ultimately have "last (split_on s xs) = xs" using Cons.prems by simp
  with Cons.IH \<open>x \<noteq> s\<close> show ?case by simp
qed simp

text \<open>
  A descriptor is returned only for a regular file with one link that belongs to one of the
  allowed users, opened by a single name in a directory of root or of one of them that others
  cannot write to freely; and every other descriptor that was opened has been closed.
\<close>

theorem safe_open_checked:
  assumes "safe_open_mmap_file os mmap_dir filename uids = (fd, closed_fds)" "fd \<noteq> -1"
  shows "\<exists>dirfd. os_open_dir os mmap_dir = Some dirfd \<and> os_open_at os dirfd filename = Some fd \<and> closed_fds = [dirfd] \<and>
    CHR ''/'' \<notin> set filename \<and> filename \<notin> {'''', ''.'', ''..''} \<and>
    (st_uid (os_fstat os dirfd) = 0 \<or> st_uid (os_fstat os dirfd) \<in> set uids) \<and>
    (st_mode (os_fstat os dirfd) AND S_IWOTH = 0 \<or> st_mode (os_fstat os dirfd) AND S_ISVTX \<noteq> 0) \<and>
    st_mode (os_fstat os fd) AND S_IFMT = S_IFREG \<and> st_nlink (os_fstat os fd) = 1 \<and> st_uid (os_fstat os fd) \<in> set uids"
proof -
  have f: "filename \<notin> {'''', ''.'', ''..''}" "basename filename = filename"
    using assms by (auto simp: safe_open_mmap_file_def split: if_splits)
  then have "CHR ''/'' \<notin> set filename" using split_on_last_eq [of "CHR ''/''" filename] by (simp add: basename_def)
  then show ?thesis
    using assms f by (auto simp: safe_open_mmap_file_def check_mmap_dir_def check_mmap_fd_def split: if_splits option.splits)
qed

definition tmp_calls :: os_calls where
  "tmp_calls = \<lparr>os_open_dir = (\<lambda>_. Some 3), os_open_at = (\<lambda>_ _. Some 4),
     os_fstat = (\<lambda>fd. if fd = 3 then \<lparr>st_uid = 0, st_mode = 0x43FF, st_nlink = 2, st_size = 0\<rparr>
                      else \<lparr>st_uid = 1000, st_mode = 0x8180, st_nlink = 1, st_size = 134217728\<rparr>)\<rparr>"

theorem safe_open_checked_witness:
  "safe_open_mmap_file tmp_calls ''/run/user/1000/xpra'' ''xpra.mmap'' [1000] = (4, [3]) \<and>
   CHR ''/'' \<notin> set ''xpra.mmap'' \<and> st_uid (os_fstat tmp_calls 4) \<in> set [1000]"
proof -
  have o: "safe_open_mmap_file tmp_calls ''/run/user/1000/xpra'' ''xpra.mmap'' [1000] = (4, [3])"
    by code_simp
  from safe_open_checked [OF o] o show ?thesis by simp
qed

text \<open>
  The token that one side writes is the one that the other side finds: with the area, index
  and size it is told, it accepts the area exactly if it is told the same token, and a wrong one
  disables the area.
\<close>

theorem token_verified:
  assumes "write_token m = (None, m')" "0 < m_token m" "m_token m < 256 ^ nat (m_token_bytes m)"
    and "m_mmap peer = m_mmap m'" "m_token_index peer = m_token_index m" "m_token_bytes peer = m_token_bytes m"
  shows "verify_token peer = (Inr (m_token peer = m_token m), if m_token peer = m_token m then peer else peer\<lparr>m_enabled := False\<rparr>)"
proof -
  obtain area where a: "m_mmap m = Some area" using assms(1) by (auto simp: write_token_def split: option.splits)
  obtain area' where w: "write_mmap_token area (m_token m) (m_token_index m) (m_token_bytes m) = (None, area')"
    and m': "m_mmap m' = Some area'"
    using assms(1) a by (auto simp: write_token_def split: prod.splits)
  have v: "validate_token_range area (m_token_index m) (m_token_bytes m) = Inr ()"
    using w by (auto simp: write_mmap_token_def split: sum.splits)
  have r: "read_mmap_token area' (m_token_index m) (m_token_bytes m) = Inr (m_token m)"
    using token_written [OF v, of "m_token m"] assms(2,3) w by auto
  then have "area' \<noteq> []"
    by (auto simp: read_mmap_token_def validate_token_range_def ebind_eq_Inr split: if_splits)
  with r m' assms show ?thesis by (simp add: verify_token_def)
qed

definition token_area :: mmap_obj where
  "token_area = \<lparr>m_mmap = Some (replicate 64 0), m_enabled = True, m_token = 12345678, m_token_index = 20, m_token_bytes = 4, m_size = 64\<rparr>"

theorem token_verified_witness:
  "fst (verify_token (snd (write_token token_area))) = Inr True \<and>
   fst (verify_token ((snd (write_token token_area))\<lparr>m_token := 1\<rparr>)) = Inr False"
proof -
  have w: "write_token token_area = (None, snd (write_token token_area))" by code_simp
  have t: "m_token (snd (write_token token_area)) = 12345678" "m_token_index (snd (write_token token_area)) = 20"
    "m_token_bytes (snd (write_token token_area)) = 4"
    by (simp_all add: write_token_def token_area_def split: prod.splits)
  have "verify_token (snd (write_token token_area)) = (Inr (12345678 = (12345678::int)), snd (write_token token_area))"
    using token_verified [OF w, of "snd (write_token token_area)"] t by (simp add: token_area_def)
  moreover have "fst (verify_token ((snd (write_token token_area))\<lparr>m_token := 1\<rparr>)) = Inr (1 = (12345678::int))"
    using token_verified [OF w, of "(snd (write_token token_area))\<lparr>m_token := 1\<rparr>"] t by (simp add: token_area_def)
  ultimately show ?thesis by simp
qed

end
