(* ===== verification/FileNames.thy ===== *)
theory FileNames
  imports XpraPrelude
begin

text \<open>
  Names of transferred files: the text cleaning of \<^verbatim>\<open>src/xpra/util/str_fn.py\<close>, and \<^verbatim>\<open>basename\<close> and
  the choice of a download path of \<^verbatim>\<open>src/xpra/net/file_transfer.py\<close>, on a POSIX system. A name
  that the peer chooses cannot leave the download directory, and is never that of an existing file.
\<close>

section \<open>Text\<close>

text \<open>
  \<^verbatim>\<open>valid_text\<close>: encoding with \<^verbatim>\<open>replace\<close> puts a question mark for each lone surrogate.
\<close>

definition valid_text :: "pystr \<Rightarrow> pystr" where
  "valid_text t = map (\<lambda>c. if 0xD800 \<le> c \<and> c \<le> 0xDFFF then 63 else c) t"

definition single_line_space :: "int \<Rightarrow> bool" where
  "single_line_space c \<longleftrightarrow> (9 \<le> c \<and> c \<le> 13) \<or> c = 0x85 \<or> c = 0x2028 \<or> c = 0x2029"

definition single_line_strip :: "int \<Rightarrow> bool" where
  "single_line_strip c \<longleftrightarrow> c < 0x20 \<or> (0x7f \<le> c \<and> c < 0xa0) \<or> c = 0x061c \<or> c = 0x200e \<or> c = 0x200f \<or>
     (0x202a \<le> c \<and> c < 0x202f) \<or> (0x2066 \<le> c \<and> c < 0x206a)"

definition single_line :: "pystr \<Rightarrow> pystr" where
  "single_line t = concat (map (\<lambda>c. if single_line_space c then [32] else if single_line_strip c then [] else [c]) (valid_text t))"

definition truncate :: "pystr \<Rightarrow> nat \<Rightarrow> pystr" where
  "truncate t limit = (if length t \<le> limit then t else take (limit - 1) t @ [0x2026])"

text \<open>\<^verbatim>\<open>str.strip()\<close>: the white space of Unicode.\<close>

definition py_isspace :: "int \<Rightarrow> bool" where
  "py_isspace c \<longleftrightarrow> (9 \<le> c \<and> c \<le> 13) \<or> (28 \<le> c \<and> c \<le> 32) \<or> c = 0x85 \<or> c = 0xa0 \<or> c = 0x1680 \<or>
     (0x2000 \<le> c \<and> c \<le> 0x200a) \<or> c = 0x2028 \<or> c = 0x2029 \<or> c = 0x202f \<or> c = 0x205f \<or> c = 0x3000"

definition strip :: "pystr \<Rightarrow> pystr" where
  "strip t = rev (dropWhile py_isspace (rev (dropWhile py_isspace t)))"

section \<open>Names\<close>

definition SLASH :: int where "SLASH = 47"
definition BACKSLASH :: int where "BACKSLASH = 92"
definition DOT :: int where "DOT = 46"

text \<open>\<^verbatim>\<open>tmp[tmp.rfind(sep) + 1:]\<close>\<close>

definition after_last :: "int \<Rightarrow> pystr \<Rightarrow> pystr" where
  "after_last sep t = rev (takeWhile (\<lambda>c. c \<noteq> sep) (rev t))"

text \<open>
  \<^verbatim>\<open>os.path.splitext\<close>: the extension starts at the last dot of the last component, unless there is
  nothing but dots before it in that component.
\<close>

definition splitext :: "pystr \<Rightarrow> pystr \<times> pystr" where
  "splitext t =
     (let name = after_last SLASH t;
          ext = after_last DOT name;
          root = take (length name - length ext - 1) name
      in if DOT \<in> set name \<and> (\<exists>c \<in> set root. c \<noteq> DOT)
         then (take (length t - length ext - 1) t, DOT # ext) else (t, []))"

definition MAX_FILENAME :: nat where "MAX_FILENAME = 128"

definition file_basename :: "pystr \<Rightarrow> pystr" where
  "file_basename filename =
     (let tmp = after_last SLASH (after_last SLASH (after_last BACKSLASH filename));
          name = strip (single_line tmp)
      in if length name > MAX_FILENAME then
           (let (root, ext) = splitext name;
                ext = (if length ext > 16 then [] else ext)
            in truncate root (MAX_FILENAME - length ext) @ ext)
         else name)"

definition valid_url :: "pystr \<Rightarrow> bool" where
  "valid_url url \<longleftrightarrow> single_line url = url"

section \<open>The download path\<close>

text \<open>\<^verbatim>\<open>os.path.abspath\<close> of an absolute path, as its components.\<close>

fun norm_components :: "pystr list \<Rightarrow> pystr list \<Rightarrow> pystr list" where
  "norm_components done [] = done"
| "norm_components done (c # cs) =
     (if c = [] \<or> c = [DOT] then norm_components done cs
      else if c = [DOT, DOT] then norm_components (butlast done) cs
      else norm_components (done @ [c]) cs)"

definition abs_components :: "pystr \<Rightarrow> pystr list" where
  "abs_components path = norm_components [] (split_on SLASH path)"

definition path_of :: "pystr list \<Rightarrow> pystr" where
  "path_of cs = (if cs = [] then [SLASH] else concat (map (\<lambda>c. SLASH # c) cs))"

definition path_join :: "pystr \<Rightarrow> pystr \<Rightarrow> pystr" where
  "path_join dir name =
     (case name of
        c # _ \<Rightarrow> if c = SLASH then name
               else if dir = [] \<or> last dir = SLASH then dir @ name else dir @ SLASH # name
      | [] \<Rightarrow> if dir = [] \<or> last dir = SLASH then dir else dir @ [SLASH])"

definition inside :: "pystr list \<Rightarrow> pystr list \<Rightarrow> bool" where
  "inside dir path \<longleftrightarrow> take (length dir) path = dir"

definition MIMETYPE_EXTS :: "pystr \<Rightarrow> pystr option" where
  "MIMETYPE_EXTS m =
     (if m = map of_char ''application/postscript'' then Some (map of_char ''ps'')
      else if m = map of_char ''application/pdf'' then Some (map of_char ''pdf'')
      else if m = map of_char ''raw'' then Some (map of_char ''raw'')
      else None)"

definition ends_with :: "pystr \<Rightarrow> pystr \<Rightarrow> bool" where
  "ends_with t suf \<longleftrightarrow> length suf \<le> length t \<and> drop (length t - length suf) t = suf"

definition safe_basename :: "pystr \<Rightarrow> pystr" where
  "safe_basename name =
     (let b = dropWhile (\<lambda>c. c = DOT) (file_basename name)
      in if b = [] then map of_char ''download'' else b)"

text \<open>The first path that is tried; \<open>dd\<close> is the absolute download directory.\<close>

definition download_path :: "pystr \<Rightarrow> pystr \<Rightarrow> pystr \<Rightarrow> pystr result" where
  "download_path dd name mimetype =
     (let path = abs_components (path_join dd (safe_basename name))
      in if \<not> inside (abs_components dd) path then Inl ValueError
         else
           let filename = path_of path
           in Inr (case MIMETYPE_EXTS mimetype of
                     Some ext \<Rightarrow> if ends_with filename (DOT # ext) then filename else filename @ DOT # ext
                   | None \<Rightarrow> filename))"

text \<open>The names that are tried after it, and the loop; \<open>taken\<close>: outside the directory, or there already.\<close>

definition numbered :: "pystr \<Rightarrow> pystr \<Rightarrow> nat \<Rightarrow> pystr" where
  "numbered root ext n = root @ 45 # map uint (dec_bytes n) @ ext"

partial_function (option) pick_name ::
  "(pystr \<Rightarrow> bool) \<Rightarrow> pystr \<Rightarrow> pystr \<Rightarrow> nat \<Rightarrow> pystr \<Rightarrow> pystr option" where
  "pick_name taken root ext base filename =
     (if taken filename then pick_name taken root ext (base + 1) (numbered root ext (base + 1)) else Some filename)"

declare pick_name.simps [code]

definition pick_download :: "(pystr \<Rightarrow> bool) \<Rightarrow> pystr \<Rightarrow> pystr option" where
  "pick_download taken filename =
     (let (root, ext) = splitext filename in pick_name taken root ext 0 filename)"

section \<open>Names are clean and short\<close>

lemma set_after_last: "c \<in> set (after_last sep t) \<Longrightarrow> c \<noteq> sep \<and> c \<in> set t"
  by (auto simp: after_last_def dest: set_takeWhileD)

lemma set_single_line:
  "c \<in> set (single_line t) \<Longrightarrow> \<not> single_line_strip c \<and> (c = 32 \<or> c = 63 \<or> c \<in> set t)"
proof -
  assume "c \<in> set (single_line t)"
  then obtain x where x: "x \<in> set (valid_text t)" "c \<in> set (if single_line_space x then [32] else if single_line_strip x then [] else [x])"
    unfolding single_line_def set_concat set_map by blast
  have "\<not> single_line_strip 32" by (simp add: single_line_strip_def)
  with x(2) have "\<not> single_line_strip c \<and> (c = 32 \<or> c = x)" by (auto split: if_splits)
  moreover have "x = 63 \<or> x \<in> set t" using x(1) by (auto simp: valid_text_def split: if_splits)
  ultimately show ?thesis by blast
qed

lemma set_strip: "c \<in> set (strip t) \<Longrightarrow> c \<in> set t"
  by (auto simp: strip_def dest!: set_dropWhileD)

lemma length_after_last: "length (after_last sep t) \<le> length t"
  by (simp add: after_last_def) (metis length_rev length_takeWhile_le)

lemma splitext_parts:
  assumes "splitext t = (root, ext)"
  shows "set root \<subseteq> set t" "set ext \<subseteq> set t"
proof -
  let ?n = "after_last SLASH t"
  have "set (after_last DOT ?n) \<subseteq> set t" using set_after_last by blast
  moreover have "set (take k t) \<subseteq> set t" for k by (rule set_take_subset)
  ultimately show "set root \<subseteq> set t" "set ext \<subseteq> set t"
    using assms set_after_last [of _ SLASH t] by (auto simp: splitext_def Let_def split: if_splits)
qed

lemma truncate_props:
  "0 < n \<Longrightarrow> length (truncate t n) \<le> n" "c \<in> set (truncate t n) \<Longrightarrow> c \<in> set t \<or> c = 0x2026"
  by (auto simp: truncate_def split: if_splits dest: in_set_takeD)

lemma basename_clean:
  "length (file_basename name) \<le> MAX_FILENAME \<and>
   (\<forall>c \<in> set (file_basename name). c \<noteq> SLASH \<and> c \<noteq> BACKSLASH \<and> \<not> single_line_strip c)"
proof -
  let ?tmp = "after_last SLASH (after_last SLASH (after_last BACKSLASH name))"
  let ?n = "strip (single_line ?tmp)"
  have n: "c \<noteq> SLASH \<and> c \<noteq> BACKSLASH \<and> \<not> single_line_strip c" if "c \<in> set ?n" for c
  proof -
    from set_strip [OF that] set_single_line [of c ?tmp]
    have "\<not> single_line_strip c" "c = 32 \<or> c = 63 \<or> c \<in> set ?tmp" by blast+
    moreover have "c \<noteq> SLASH \<and> c \<noteq> BACKSLASH" if "c \<in> set ?tmp"
      using that set_after_last by blast
    ultimately show ?thesis by (auto simp: SLASH_def BACKSLASH_def)
  qed
  show ?thesis
  proof (cases "length ?n > MAX_FILENAME")
    case False
    with n show ?thesis by (simp add: file_basename_def Let_def)
  next
    case True
    obtain root ext where s: "splitext ?n = (root, ext)" by (cases "splitext ?n")
    let ?e = "if length ext > 16 then [] else ext"
    have l: "length ?e \<le> 16" by simp
    have b: "file_basename name = truncate root (MAX_FILENAME - length ?e) @ ?e"
      using True s by (simp add: file_basename_def Let_def)
    have "length (truncate root (MAX_FILENAME - length ?e)) \<le> MAX_FILENAME - length ?e"
      by (rule truncate_props(1)) (use l in \<open>simp add: MAX_FILENAME_def\<close>)
    then have "length (file_basename name) \<le> MAX_FILENAME"
      unfolding b using l by (simp add: MAX_FILENAME_def)
    moreover have "c \<noteq> SLASH \<and> c \<noteq> BACKSLASH \<and> \<not> single_line_strip c" if "c \<in> set (file_basename name)" for c
    proof -
      have "c \<in> set ?n \<or> c = 0x2026"
        using that splitext_parts [OF s] truncate_props(2) [of c root] unfolding b by (auto split: if_splits)
      then show ?thesis using n by (auto simp: SLASH_def BACKSLASH_def single_line_strip_def)
    qed
    ultimately show ?thesis by blast
  qed
qed

lemma norm_components_append: "norm_components done (cs @ ds) = norm_components (norm_components done cs) ds"
  by (induction "done" cs rule: norm_components.induct) auto

lemma split_on_snoc: "s \<notin> set ys \<Longrightarrow> split_on s (xs @ s # ys) = split_on s xs @ [ys]"
proof (induction xs)
  case Nil
  then show ?case by (simp add: split_on_none)
next
  case (Cons x xs)
  then show ?case by (cases "split_on s xs") (auto split: list.splits)
qed

lemma safe_basename_props:
  "safe_basename name \<noteq> []" "hd (safe_basename name) \<noteq> DOT" "SLASH \<notin> set (safe_basename name)"
proof -
  let ?b = "dropWhile (\<lambda>c. c = DOT) (file_basename name)"
  have d: "map of_char ''download'' \<noteq> ([] :: pystr)" "hd (map of_char ''download'') \<noteq> DOT"
    "SLASH \<notin> set (map of_char ''download'')" by code_simp+
  have "SLASH \<notin> set ?b" using basename_clean [of name] set_dropWhileD by metis
  moreover have "?b \<noteq> [] \<Longrightarrow> hd ?b \<noteq> DOT" by (rule hd_dropWhile)
  ultimately show "safe_basename name \<noteq> []" "hd (safe_basename name) \<noteq> DOT" "SLASH \<notin> set (safe_basename name)"
    using d by (simp_all add: safe_basename_def Let_def)
qed

lemma split_on_end: "s \<notin> set ys \<Longrightarrow> xs \<noteq> [] \<Longrightarrow> last xs = s \<Longrightarrow> split_on s (xs @ ys) = butlast (split_on s xs) @ [ys]"
proof -
  assume a: "s \<notin> set ys" "xs \<noteq> []" "last xs = s"
  then have xs: "xs = butlast xs @ [s]" by (metis append_butlast_last_id)
  have "split_on s (butlast xs @ s # ys) = split_on s (butlast xs) @ [ys]" using a(1) by (rule split_on_snoc)
  moreover have "split_on s (butlast xs @ s # []) = split_on s (butlast xs) @ [[]]" by (rule split_on_snoc) simp
  ultimately show ?thesis using xs by (metis append.assoc append_Cons append_Nil butlast_snoc)
qed

lemma abs_join_safe:
  assumes "dd \<noteq> []"
  shows "abs_components (path_join dd (safe_basename name)) = abs_components dd @ [safe_basename name]"
proof -
  let ?b = "safe_basename name"
  note b = safe_basename_props [of name]
  have n: "norm_components cs [?b] = cs @ [?b]" for cs
    using b(1,2) by (cases ?b) auto
  have "hd ?b \<noteq> SLASH" using b(1,3) by (metis hd_in_set)
  then have j: "path_join dd ?b = (if last dd = SLASH then dd @ ?b else dd @ SLASH # ?b)"
    using b(1) assms by (cases ?b) (auto simp: path_join_def)
  show ?thesis
  proof (cases "last dd = SLASH")
    case False
    then show ?thesis
      using split_on_snoc [OF b(3), of dd] j n by (simp add: abs_components_def norm_components_append)
  next
    case True
    have dd: "dd = butlast dd @ SLASH # []" using True assms by (metis append_butlast_last_id)
    have "split_on SLASH dd = split_on SLASH (butlast dd) @ [[]]"
      by (subst dd) (rule split_on_snoc, simp)
    then show ?thesis
      using split_on_end [OF b(3) assms True] j n True by (simp add: abs_components_def norm_components_append)
  qed
qed

text \<open>
  The name that is taken from what a peer sends has no path separators, no control or
  bidirectional characters, and at most 128 characters; the path it gives is one component inside
  the download directory, whatever the peer sends.
\<close>

theorem download_path_inside:
  assumes "dd \<noteq> []"
  shows "\<exists>ext. download_path dd name mimetype = Inr (path_of (abs_components dd @ [safe_basename name]) @ ext) \<and>
    safe_basename name \<noteq> [] \<and> length (safe_basename name) \<le> MAX_FILENAME \<and> SLASH \<notin> set ext \<and>
    (\<forall>c \<in> set (safe_basename name). c \<noteq> SLASH \<and> c \<noteq> BACKSLASH \<and> \<not> single_line_strip c)"
proof -
  let ?b = "safe_basename name"
  have "inside (abs_components dd) (abs_components (path_join dd ?b))"
    by (simp add: abs_join_safe [OF assms] inside_def)
  then have p: "\<exists>ext. download_path dd name mimetype = Inr (path_of (abs_components dd @ [?b]) @ ext) \<and>
      (ext = [] \<or> (\<exists>e. MIMETYPE_EXTS mimetype = Some e \<and> ext = DOT # e))"
    by (auto simp: download_path_def Let_def abs_join_safe [OF assms] split: option.splits)
  have e: "SLASH \<notin> set e" if "MIMETYPE_EXTS m = Some e" for m e
  proof -
    have "SLASH \<notin> set (map of_char ''ps'')" "SLASH \<notin> set (map of_char ''pdf'')" "SLASH \<notin> set (map of_char ''raw'')"
      by code_simp+
    then show ?thesis using that by (auto simp: MIMETYPE_EXTS_def split: if_splits)
  qed
  have dl: "list_all (\<lambda>c. c \<noteq> SLASH \<and> c \<noteq> BACKSLASH \<and> \<not> single_line_strip c) (map of_char ''download'')"
    "length (map of_char ''download'' :: pystr) \<le> MAX_FILENAME"
    by code_simp+
  have "length ?b \<le> MAX_FILENAME \<and> (\<forall>c \<in> set ?b. c \<noteq> SLASH \<and> c \<noteq> BACKSLASH \<and> \<not> single_line_strip c)"
  proof (cases "dropWhile (\<lambda>c. c = DOT) (file_basename name) = []")
    case True
    then have "?b = map of_char ''download''" by (simp add: safe_basename_def)
    then show ?thesis using dl by (simp only: list_all_iff)
  next
    case False
    then have "?b = dropWhile (\<lambda>c. c = DOT) (file_basename name)" unfolding safe_basename_def Let_def by (rule if_not_P)
    then show ?thesis
      using basename_clean [of name] length_dropWhile_le [of "\<lambda>c. c = DOT" "file_basename name"] set_dropWhileD
      by (metis le_trans)
  qed
  moreover have "SLASH \<noteq> DOT" by (simp add: SLASH_def DOT_def)
  ultimately show ?thesis
    using p e safe_basename_props(1) [of name] by (metis empty_iff list.set(1) set_ConsD)
qed

theorem download_path_inside_witness:
  "\<exists>ext. download_path (map of_char ''/home/u/Downloads'') (map of_char ''../../etc/..secret.txt'') [] =
     Inr (path_of (abs_components (map of_char ''/home/u/Downloads'') @ [map of_char ''secret.txt'']) @ ext)"
proof -
  have "safe_basename (map of_char ''../../etc/..secret.txt'') = map of_char ''secret.txt''" by code_simp
  with download_path_inside [of "map of_char ''/home/u/Downloads''" "map of_char ''../../etc/..secret.txt''" "[]"]
  show ?thesis by auto
qed

section \<open>A free name is found\<close>

text \<open>
  Choosing the path ends, and with one that is free, as long as not every name is taken: the
  loop reaches the first number whose name is free.
\<close>

theorem pick_download_ends:
  assumes "\<not> taken (numbered (fst (splitext filename)) (snd (splitext filename)) n)" "0 < n"
  shows "\<exists>name. pick_download taken filename = Some name \<and> \<not> taken name \<and>
    (name = filename \<or> (\<exists>k \<le> n. name = numbered (fst (splitext filename)) (snd (splitext filename)) k))"
proof -
  obtain root ext where s: "splitext filename = (root, ext)" by (cases "splitext filename")
  have run: "\<exists>name. pick_name taken root ext base f = Some name \<and> \<not> taken name \<and> (name = f \<or> (\<exists>k \<le> n. name = numbered root ext k))"
    if "base \<le> n" "f = numbered root ext base \<or> base < n" for base f
    using that
  proof (induction "n - base" arbitrary: base f)
    case 0
    then show ?case using assms(1) s by (auto simp: pick_name.simps [of taken root ext base "numbered root ext base"])
  next
    case (Suc k)
    show ?case
    proof (cases "taken f")
      case True
      have "k = n - (base + 1)" "base + 1 \<le> n" using Suc.hyps(2) by simp_all
      from Suc.hyps(1) [OF this] obtain name where
        "pick_name taken root ext (base + 1) (numbered root ext (base + 1)) = Some name" "\<not> taken name"
        "name = numbered root ext (base + 1) \<or> (\<exists>k \<le> n. name = numbered root ext k)" by blast
      with \<open>base + 1 \<le> n\<close> True show ?thesis by (auto simp: pick_name.simps [of taken root ext base f])
    qed (simp add: pick_name.simps [of taken root ext base f])
  qed
  from run [of 0 filename] assms(2) s show ?thesis by (auto simp: pick_download_def)
qed

theorem pick_download_ends_witness:
  "\<exists>name. pick_download (\<lambda>f. f = map of_char ''/d/a.txt'') (map of_char ''/d/a.txt'') = Some name \<and> name \<noteq> map of_char ''/d/a.txt''"
proof -
  have t: "numbered (fst (splitext (map of_char ''/d/a.txt''))) (snd (splitext (map of_char ''/d/a.txt''))) 1 \<noteq> map of_char ''/d/a.txt''"
    by code_simp
  from pick_download_ends [of "\<lambda>f. f = map of_char ''/d/a.txt''" "map of_char ''/d/a.txt''" 1, OF t] show ?thesis by auto
qed

end
