(* ===== verification/TypeDict.thy ===== *)
theory TypeDict
  imports PacketValues
begin

text \<open>
  \<^verbatim>\<open>typedict\<close> of \<^verbatim>\<open>src/xpra/util/objects.py\<close>, the dictionary through which every capability and
  option a peer sends is read: lookup by dotted names in nested dictionaries, conversion with a
  default, and lists with a type for their items. Keys are strings.
\<close>

section \<open>Lookup\<close>

type_synonym tdict = "(pval \<times> pval) list"

abbreviation td_item :: "tdict \<Rightarrow> pystr \<Rightarrow> pval option" where
  "td_item d k \<equiv> map_of d (PStr k)"

text \<open>\<^verbatim>\<open>k.find(".") > 0\<close>\<close>

definition dotted :: "pystr \<Rightarrow> bool" where
  "dotted k \<longleftrightarrow> (case k of [] \<Rightarrow> False | c # cs \<Rightarrow> c \<noteq> 46 \<and> 46 \<in> set cs)"

lemma cut_at_shorter: "s \<in> set xs \<Longrightarrow> length (snd (cut_at s xs)) < length xs"
  by (induction xs) (auto split: prod.splits)

lemma dotted_shorter: "dotted k \<Longrightarrow> length (snd (cut_at 46 k)) < length k"
  by (rule cut_at_shorter) (auto simp: dotted_def split: list.splits)

text \<open>\<^verbatim>\<open>get\<close>: the key itself, else the part after the first dot in the dictionary of that name.\<close>

function td_get :: "pystr \<Rightarrow> tdict \<Rightarrow> pval option" where
  "td_get k d =
     (case td_item d k of
        Some v \<Rightarrow> Some v
      | None \<Rightarrow>
          if dotted k then
            (case td_item d (fst (cut_at 46 k)) of
               Some (PDict d') \<Rightarrow> td_get (snd (cut_at 46 k)) d'
             | _ \<Rightarrow> None)
          else None)"
  by pat_completeness auto
termination
  by (relation "measure (\<lambda>(k, _). length k)") (use dotted_shorter in auto)

declare td_get.simps [simp del]

text \<open>The lookup of \<^verbatim>\<open>conv_get\<close>: its loop follows all the dots once the key itself is not there.\<close>

function td_descend :: "pystr \<Rightarrow> tdict \<Rightarrow> pval option" where
  "td_descend k d =
     (if dotted k then
        (case td_item d (fst (cut_at 46 k)) of
           Some (PDict d') \<Rightarrow> td_descend (snd (cut_at 46 k)) d'
         | _ \<Rightarrow> None)
      else td_item d k)"
  by pat_completeness auto
termination
  by (relation "measure (\<lambda>(k, _). length k)") (use dotted_shorter in auto)

declare td_descend.simps [simp del]

definition conv_lookup :: "pystr \<Rightarrow> tdict \<Rightarrow> pval option" where
  "conv_lookup k d = (case td_item d k of Some v \<Rightarrow> Some v | None \<Rightarrow> td_descend k d)"

section \<open>Conversion\<close>

text \<open>
  \<^verbatim>\<open>conv_get\<close>; \<open>basic\<close>: the conversion is one of \<^verbatim>\<open>bytestostr\<close>, \<^verbatim>\<open>strtobytes\<close>, \<^verbatim>\<open>int\<close> and \<^verbatim>\<open>bool\<close>,
  for which a dictionary stands for its item with the empty name.
\<close>

definition unwrap :: "pval \<Rightarrow> pval" where
  "unwrap v = (case v of PDict d \<Rightarrow> (case td_item d [] of Some x \<Rightarrow> x | None \<Rightarrow> v) | _ \<Rightarrow> v)"

definition conv_caught :: "py_error \<Rightarrow> bool" where
  "conv_caught e \<longleftrightarrow> e \<in> {TypeError, ValueError, AssertionError, UnicodeDecodeError}"

definition conv_get :: "bool \<Rightarrow> (pval \<Rightarrow> 'a result) \<Rightarrow> pystr \<Rightarrow> 'a \<Rightarrow> tdict \<Rightarrow> 'a result" where
  "conv_get basic conv k dflt d =
     (case conv_lookup k d of
        None \<Rightarrow> Inr dflt
      | Some v \<Rightarrow>
          (case conv (if basic then unwrap v else v) of
             Inr x \<Rightarrow> Inr x
           | Inl e \<Rightarrow> if conv_caught e then Inr dflt else Inl e))"

text \<open>\<^verbatim>\<open>bytestostr\<close>; \<open>str_of\<close> is \<^verbatim>\<open>str()\<close> for what is not text.\<close>

definition bytestostr :: "(pval \<Rightarrow> pystr) \<Rightarrow> pval \<Rightarrow> pystr" where
  "bytestostr str_of v = (case v of PBytes b \<Rightarrow> map uint b | PStr s \<Rightarrow> s | _ \<Rightarrow> str_of v)"

definition strget :: "(pval \<Rightarrow> pystr) \<Rightarrow> pystr \<Rightarrow> pystr \<Rightarrow> tdict \<Rightarrow> pystr result" where
  "strget str_of k dflt d = conv_get True (\<lambda>v. Inr (bytestostr str_of v)) k dflt d"

text \<open>\<^verbatim>\<open>strtobytes\<close>: Latin-1 when all the characters are in it, else UTF-8.\<close>

definition strtobytes :: "(pval \<Rightarrow> pystr) \<Rightarrow> (pystr \<Rightarrow> bytes result) \<Rightarrow> pval \<Rightarrow> bytes result" where
  "strtobytes str_of utf8 v =
     (case v of
        PBytes b \<Rightarrow> Inr b
      | _ \<Rightarrow>
          (let t = (case v of PStr t \<Rightarrow> t | _ \<Rightarrow> str_of v)
           in if list_all (\<lambda>c. 0 \<le> c \<and> c < 256) t then Inr (map word_of_int t) else utf8 t))"

definition bytesget ::
  "(pval \<Rightarrow> pystr) \<Rightarrow> (pystr \<Rightarrow> bytes result) \<Rightarrow> pystr \<Rightarrow> bytes \<Rightarrow> tdict \<Rightarrow> bytes result" where
  "bytesget str_of utf8 k dflt d = conv_get True (strtobytes str_of utf8) k dflt d"

definition intget :: "(pystr \<Rightarrow> int result) \<Rightarrow> pystr \<Rightarrow> int \<Rightarrow> tdict \<Rightarrow> int result" where
  "intget text_int k dflt d = conv_get True (py_int_of text_int) k dflt d"

definition boolget :: "pystr \<Rightarrow> bool \<Rightarrow> tdict \<Rightarrow> bool result" where
  "boolget k dflt d = conv_get True (\<lambda>v. Inr (py_bool v)) k dflt d"

definition checkdict :: "pval \<Rightarrow> tdict result" where
  "checkdict v = (case v of PDict d \<Rightarrow> Inr d | _ \<Rightarrow> Inl ValueError)"

definition dictget :: "pystr \<Rightarrow> tdict \<Rightarrow> tdict \<Rightarrow> tdict result" where
  "dictget k dflt d = conv_get False checkdict k dflt d"

section \<open>Lists\<close>

text \<open>
  \<^verbatim>\<open>_listget\<close>: the items, the default, or, when an item does not have the type, that item
  converted, alone.
\<close>

datatype item_type = AnyItem | StrItem | IntItem

datatype list_result = Items "pval list" | Converted pval | UseDefault

fun is_int :: "pval \<Rightarrow> bool" where
  "is_int (PInt _) = True"
| "is_int (PIntEnum _) = True"
| "is_int (PBool _) = True"
| "is_int _ = False"

fun convert_items ::
  "(pval \<Rightarrow> pystr) \<Rightarrow> (pystr \<Rightarrow> int result) \<Rightarrow> item_type \<Rightarrow> pval list \<Rightarrow> pval list \<Rightarrow> list_result" where
  "convert_items str_of text_int it done [] = Items done"
| "convert_items str_of text_int it done (x # xs) =
     (case it of
        AnyItem \<Rightarrow> Items (done @ x # xs)
      | StrItem \<Rightarrow>
          (case x of
             PBytes b \<Rightarrow> convert_items str_of text_int it (done @ [PStr (map uint b)]) xs
           | PStr s \<Rightarrow> convert_items str_of text_int it (done @ [x]) xs
           | _ \<Rightarrow> Converted (PStr (str_of x)))
      | IntItem \<Rightarrow>
          if is_int x then convert_items str_of text_int it (done @ [x]) xs
          else (case py_int_of text_int x of
                  Inr n \<Rightarrow> Converted (PInt n)
                | Inl e \<Rightarrow> UseDefault))"

definition listget ::
  "(pval \<Rightarrow> pystr) \<Rightarrow> (pystr \<Rightarrow> int result) \<Rightarrow> item_type \<Rightarrow> nat option \<Rightarrow> nat option \<Rightarrow> pystr \<Rightarrow> tdict \<Rightarrow> list_result" where
  "listget str_of text_int it min_items max_items k d =
     (case td_get k d of
        None \<Rightarrow> UseDefault
      | Some v \<Rightarrow>
          (case (case unwrap v of PList xs \<Rightarrow> Some xs | PTuple xs \<Rightarrow> Some xs | _ \<Rightarrow> None) of
             None \<Rightarrow> UseDefault
           | Some xs \<Rightarrow>
               if (case min_items of None \<Rightarrow> False | Some n \<Rightarrow> length xs < n) then UseDefault
               else if (case max_items of None \<Rightarrow> False | Some n \<Rightarrow> length xs > n) then UseDefault
               else convert_items str_of text_int it [] xs))"

definition tupleget ::
  "(pval \<Rightarrow> pystr) \<Rightarrow> (pystr \<Rightarrow> int result) \<Rightarrow> item_type \<Rightarrow> nat option \<Rightarrow> nat option \<Rightarrow> pystr \<Rightarrow> pval list \<Rightarrow> tdict \<Rightarrow>
   pval list result" where
  "tupleget str_of text_int it min_items max_items k dflt d =
     (case listget str_of text_int it min_items max_items k d of
        Items xs \<Rightarrow> Inr xs
      | Converted v \<Rightarrow> if py_bool v then py_list v else Inr []
      | UseDefault \<Rightarrow> Inr dflt)"

definition strtupleget where
  "strtupleget str_of text_int = tupleget str_of text_int StrItem"

definition inttupleget where
  "inttupleget str_of text_int = tupleget str_of text_int IntItem"

definition intpair ::
  "(pval \<Rightarrow> pystr) \<Rightarrow> (pystr \<Rightarrow> int result) \<Rightarrow> pystr \<Rightarrow> int \<times> int \<Rightarrow> tdict \<Rightarrow> (int \<times> int) result" where
  "intpair str_of text_int k dflt d =
     ebind (inttupleget str_of text_int None None k [PInt (fst dflt), PInt (snd dflt)] d) (\<lambda>v.
       case v of
         [a, b] \<Rightarrow>
           (case ebind (py_int_of text_int a) (\<lambda>x. ebind (py_int_of text_int b) (\<lambda>y. Inr (x, y))) of
              Inl ValueError \<Rightarrow> Inr dflt | r \<Rightarrow> r)
       | _ \<Rightarrow> Inr dflt)"

section \<open>Both lookups find the same\<close>

text \<open>Nested dictionaries whose keys have no dots.\<close>

fun plain_keys :: "pval \<Rightarrow> bool" where
  "plain_keys (PDict d) = list_all (\<lambda>(k, v). (case k of PStr s \<Rightarrow> 46 \<notin> set s | _ \<Rightarrow> True) \<and> plain_keys v) d"
| "plain_keys _ = True"

lemma plain_keys_lookup:
  "plain_keys (PDict d) \<Longrightarrow> td_item d k = Some v \<Longrightarrow> 46 \<notin> set k \<and> plain_keys v"
  by (induction d) (auto split: if_splits)

lemma dotted_dot: "dotted k \<Longrightarrow> 46 \<in> set k"
  by (auto simp: dotted_def split: list.splits)

lemma td_descend_plain: "plain_keys (PDict d) \<Longrightarrow> td_descend k d = td_get k d"
proof (induction k d rule: td_descend.induct)
  case (1 k d)
  show ?case
  proof (cases "dotted k")
    case False
    then show ?thesis by (simp add: td_descend.simps [of k d] td_get.simps [of k d] split: option.splits)
  next
    case True
    then have n: "td_item d k = None"
      using plain_keys_lookup [OF "1.prems", of k] dotted_dot by (cases "td_item d k") auto
    show ?thesis
    proof (cases "\<exists>d'. td_item d (fst (cut_at 46 k)) = Some (PDict d')")
      case True
      then obtain d' where d': "td_item d (fst (cut_at 46 k)) = Some (PDict d')" by blast
      then have "plain_keys (PDict d')" using plain_keys_lookup [OF "1.prems"] by blast
      from "1.IH" [OF \<open>dotted k\<close> d' refl this] d' n \<open>dotted k\<close> show ?thesis
        by (simp add: td_descend.simps [of k d] td_get.simps [of k d])
    next
      case False
      then show ?thesis using n \<open>dotted k\<close>
        by (auto simp: td_descend.simps [of k d] td_get.simps [of k d] split: option.splits pval.splits)
    qed
  qed
qed

text \<open>
  The two lookups of the class agree on every name, however many dots it has, for dictionaries
  whose nested dictionaries have no keys with dots.
\<close>

theorem lookups_agree:
  assumes "\<And>k' v. td_item d k' = Some v \<Longrightarrow> plain_keys v"
  shows "conv_lookup k d = td_get k d"
proof (cases "td_item d k")
  case None
  show ?thesis
  proof (cases "dotted k \<and> (\<exists>d'. td_item d (fst (cut_at 46 k)) = Some (PDict d'))")
    case True
    then obtain d' where d': "td_item d (fst (cut_at 46 k)) = Some (PDict d')" by blast
    with assms have "plain_keys (PDict d')" by blast
    from td_descend_plain [OF this] True d' None show ?thesis
      by (simp add: conv_lookup_def td_descend.simps [of k d] td_get.simps [of k d])
  next
    case False
    with None show ?thesis
      by (auto simp: conv_lookup_def td_descend.simps [of k d] td_get.simps [of k d] split: option.splits pval.splits)
  qed
qed (simp add: conv_lookup_def td_get.simps [of k d])

theorem lookups_agree_witness:
  "conv_lookup (map of_char ''a.b'') [(pstr ''a'', PDict [(pstr ''b'', PInt 7)])] = Some (PInt 7)"
proof -
  have e: "conv_lookup (map of_char ''a.b'') [(pstr ''a'', PDict [(pstr ''b'', PInt 7)])] =
      td_get (map of_char ''a.b'') [(pstr ''a'', PDict [(pstr ''b'', PInt 7)])]"
    by (rule lookups_agree) (auto simp: pstr_def split: if_splits)
  have "td_get (map of_char ''a.b'') [(pstr ''a'', PDict [(pstr ''b'', PInt 7)])] = Some (PInt 7)"
    by code_simp
  with e show ?thesis by simp
qed

section \<open>What comes back\<close>

lemma convert_items_str:
  "convert_items str_of text_int StrItem done xs = Items ys \<Longrightarrow> \<forall>x \<in> set done. \<exists>s. x = PStr s \<Longrightarrow>
     (\<forall>y \<in> set ys. \<exists>s. y = PStr s) \<and> length ys = length done + length xs"
proof (induction xs arbitrary: "done")
  case (Cons x xs)
  show ?case
  proof (cases x)
    case (PStr s)
    then show ?thesis using Cons.IH [of "done @ [x]"] Cons.prems by auto
  next
    case (PBytes b)
    then show ?thesis using Cons.IH [of "done @ [PStr (map uint b)]"] Cons.prems by auto
  qed (use Cons.prems in auto)
qed simp

lemma convert_items_str_single:
  "convert_items str_of text_int StrItem done xs = Converted v \<Longrightarrow> \<exists>s. v = PStr s"
proof (induction xs arbitrary: "done")
  case (Cons x xs)
  then show ?case by (cases x) auto
qed simp

text \<open>
  C39: \<^verbatim>\<open>strtupleget\<close> never raises, and returns nothing but strings, or the default, whatever the
  peer put there.
\<close>

theorem strtupleget_strings:
  "\<exists>xs. strtupleget str_of text_int lo hi k dflt d = Inr xs \<and> (xs = dflt \<or> (\<forall>x \<in> set xs. \<exists>s. x = PStr s))"
proof (cases "listget str_of text_int StrItem lo hi k d")
  case (Items xs)
  then have "\<forall>x \<in> set xs. \<exists>s. x = PStr s"
    by (auto simp: listget_def split: option.splits if_splits pval.splits dest: convert_items_str)
  with Items show ?thesis by (simp add: strtupleget_def tupleget_def)
next
  case (Converted v)
  then have "\<exists>s. v = PStr s"
    by (auto simp: listget_def split: option.splits if_splits pval.splits dest: convert_items_str_single)
  then obtain s where v: "v = PStr s" ..
  with Converted show ?thesis
    by (cases "py_bool v") (auto simp: strtupleget_def tupleget_def)
next
  case UseDefault
  then show ?thesis by (simp add: strtupleget_def tupleget_def)
qed

theorem strtupleget_strings_witness:
  "strtupleget (\<lambda>_. []) (\<lambda>_. Inl ValueError) None None [107] [] [(PStr [107], PList [PStr [97], PBytes [98]])] =
     Inr [PStr [97], PStr [98]] \<and>
   (\<exists>xs. strtupleget (\<lambda>_. []) (\<lambda>_. Inl ValueError) None None [107] [] [(PStr [107], PList [PStr [97], PBytes [98]])] = Inr xs \<and>
     (xs = [] \<or> (\<forall>x \<in> set xs. \<exists>s. x = PStr s)))"
proof
  show "strtupleget (\<lambda>_. []) (\<lambda>_. Inl ValueError) None None [107] [] [(PStr [107], PList [PStr [97], PBytes [98]])] =
     Inr [PStr [97], PStr [98]]" by code_simp
qed (rule strtupleget_strings)

text \<open>
  A list with an item of another type is not converted: the first such item alone is, and the
  result is taken apart again. A list with the number 10 gives the strings \<open>1\<close> and \<open>0\<close>; where
  integers are asked for, a list with a text that is a number other than zero raises
  \<^verbatim>\<open>TypeError\<close>, which none of the callers' defaults prevents.
\<close>

theorem mixed_list_not_converted:
  assumes "text_int s = Inr n" "n \<noteq> 0" "str_of (PInt 10) = [49, 48]" "list_all is_int ints"
  shows "strtupleget str_of text_int None None k dflt [(PStr k, PList (PStr t # PInt 10 # rest))] = Inr [PStr [49], PStr [48]] \<and>
    inttupleget str_of text_int None None k dflt [(PStr k, PList (ints @ PStr s # rest))] = Inl TypeError"
proof
  have "convert_items str_of text_int IntItem done (ints @ PStr s # rest) = Converted (PInt n)" for "done"
    using assms(4) by (induction ints arbitrary: "done") (use assms(1) in \<open>simp_all add: py_int_of_def\<close>)
  then show "inttupleget str_of text_int None None k dflt [(PStr k, PList (ints @ PStr s # rest))] = Inl TypeError"
    using assms(2) by (simp add: inttupleget_def tupleget_def listget_def td_get.simps [of k] unwrap_def py_bool_def)
  show "strtupleget str_of text_int None None k dflt [(PStr k, PList (PStr t # PInt 10 # rest))] = Inr [PStr [49], PStr [48]]"
    using assms(3) by (simp add: strtupleget_def tupleget_def listget_def td_get.simps [of k] unwrap_def py_bool_def)
qed

theorem mixed_list_not_converted_witness:
  "inttupleget (\<lambda>_. [49, 48]) py_int None None [120] [] [(PStr [120], PList [PInt 1, PStr [50]])] = Inl TypeError"
  using mixed_list_not_converted [where text_int = py_int and s = "[50]" and n = 2 and str_of = "\<lambda>_. [49, 48]" and
      ints = "[PInt 1]" and t = "[]" and rest = "[]" and k = "[120]" and dflt = "[]"]
  by (simp add: py_int_def digits_value_def decimal_char_def max_str_digits_def)

end
