(* ===== verification/FileTransfer.thy ===== *)
theory FileTransfer
  imports FileNames TypeDict "HOL-Library.AList"
begin

text \<open>
  Receiving files: the class \<^verbatim>\<open>FileTransferHandler\<close> of \<^verbatim>\<open>src/xpra/net/file_transfer.py\<close>, the side
  that is sent files, data requests and URLs. What it asks others to do (packets it sends, programs
  it starts, callbacks) is the list \<open>ft_out\<close>; log messages and elapsed times are left out. The text
  of an error is a short label for the message of the code.
\<close>

section \<open>The environment\<close>

text \<open>
  \<open>fe_str\<close> and \<open>fe_text_int\<close> are \<^verbatim>\<open>str()\<close> and \<^verbatim>\<open>int()\<close> for values that are not text or numbers,
  \<open>fe_utf8\<close> and \<open>fe_unutf8\<close> the interpreter's codec, \<open>fe_fnmatch\<close> is \<^verbatim>\<open>fnmatch\<close>, \<open>fe_hexdigest\<close> the
  hash function of a name. Of the file system: the download directory, which paths lead out of it by
  links, which paths cannot be created, the next file descriptor, and how much of some data
  \<^verbatim>\<open>os.write\<close> writes to a file that holds so much already (\<open>None\<close>: an \<^verbatim>\<open>OSError\<close>). \<open>fe_wrap\<close> is the
  abstract method \<^verbatim>\<open>compressed_wrapper\<close>: what the other end reads of the data it is given (\<open>PacketCodec\<close>
  has the compressed chunks of a packet, and that they are decompressed to the same data).
\<close>

record file_env =
  fe_str :: "pval \<Rightarrow> pystr"
  fe_text_int :: "pystr \<Rightarrow> int result"
  fe_utf8 :: "pystr \<Rightarrow> bytes result"
  fe_unutf8 :: "bytes \<Rightarrow> pystr result"
  fe_fnmatch :: "pystr \<Rightarrow> pystr \<Rightarrow> bool"
  fe_hexdigest :: "string \<Rightarrow> bytes \<Rightarrow> pystr"
  fe_download_dir :: pystr
  fe_escapes :: "pystr \<Rightarrow> bool"
  fe_cannot_create :: "pystr \<Rightarrow> bool"
  fe_open_fd :: "int list \<Rightarrow> int"
  fe_os_write :: "bytes \<Rightarrow> bytes \<Rightarrow> nat option"
  fe_wrap :: "bytes \<Rightarrow> pval result"

definition ustr :: "string \<Rightarrow> pystr" where
  "ustr s = map of_char s"

section \<open>State\<close>

record receive_chunk_state =
  rc_send_id :: pystr
  rc_filesize :: int
  rc_fd :: int
  rc_filename :: pystr
  rc_mimetype :: pystr
  rc_printit :: bool
  rc_openit :: bool
  rc_options :: tdict
  rc_digest :: "string option"
  rc_hashed :: bytes
  rc_written :: int
  rc_cancelled :: bool
  rc_timer :: bool
  rc_chunk :: int

record send_chunk_state =
  sd_send_id :: pystr
  sd_filesize :: int
  sd_data :: bytes
  sd_chunk_size :: nat
  sd_timer :: bool
  sd_chunk :: int

record send_pending_data =
  sp_datatype :: pystr
  sp_url :: pystr
  sp_mimetype :: pystr
  sp_data :: bytes
  sp_filesize :: int
  sp_printit :: bool
  sp_openit :: bool
  sp_options :: tdict

record requested_file =
  rf_filename :: pystr
  rf_openit :: bool
  rf_pattern :: pystr

record accepted_data =
  ad_printit :: bool
  ad_openit :: bool

record accepted_request =
  ar_dtype :: pystr
  ar_url :: pystr
  ar_mimetype :: pystr
  ar_filesize :: int
  ar_printit :: bool
  ar_openit :: bool
  ar_options :: tdict

datatype file_action =
    SendAckChunk pystr bool pval int
  | SendFile pystr pystr bool bool int pval tdict pystr
  | SendChunk pystr int pval bool
  | SendDataRequest pystr pystr pystr pystr int bool bool tdict
  | SendDataResponse pystr bool
  | SendFileRequest pystr bool pystr
  | SendOpenUrl pystr pystr
  | AskUser pystr pystr pystr
  | Progress bool pystr int int string
  | StartDownloadThread pystr pystr bool bool tdict
  | PrintFile pystr pystr tdict
  | OpenFile pystr
  | OpenUrl pystr
  | RequestCallback pystr pystr int

record ft =
  file_transfer :: bool
  file_transfer_ask :: bool
  file_size_limit :: int
  file_chunks :: int
  printing :: bool
  printing_ask :: bool
  open_files :: bool
  open_files_ask :: bool
  open_url :: bool
  open_url_ask :: bool
  files_requested :: "(pystr \<times> requested_file) list"
  files_accepted :: "(pystr \<times> accepted_data) list"
  data_send_requests :: "(pystr \<times> accepted_request) list"
  file_request_callback :: "pystr list"
  remote_file_transfer :: bool
  remote_file_transfer_ask :: bool
  remote_printing :: bool
  remote_printing_ask :: bool
  remote_open_files :: bool
  remote_open_files_ask :: bool
  remote_open_url :: bool
  remote_open_url_ask :: bool
  remote_file_size_limit :: int
  remote_file_chunks :: int
  pending_send_data :: "(pystr \<times> send_pending_data) list"
  pending_send_data_timers :: "pystr list"
  send_chunks :: "(pystr \<times> send_chunk_state) list"
  receive_chunks :: "(pystr \<times> receive_chunk_state) list"
  file_descriptors :: "int list"
  disk :: "pystr \<Rightarrow> bytes option"
  ft_out :: "file_action list"

definition MAX_CONCURRENT_FILES :: nat where "MAX_CONCURRENT_FILES = 10"

definition file_do :: "file_action \<Rightarrow> ft \<Rightarrow> ft" where
  "file_do a s = s\<lparr>ft_out := ft_out s @ [a]\<rparr>"

definition set_receive :: "pystr \<Rightarrow> receive_chunk_state \<Rightarrow> ft \<Rightarrow> ft" where
  "set_receive cid c s = s\<lparr>receive_chunks := AList.update cid c (receive_chunks s)\<rparr>"

definition os_unlink :: "pystr \<Rightarrow> ft \<Rightarrow> ft" where
  "os_unlink path s = s\<lparr>disk := (disk s)(path := None)\<rparr>"

definition close_fd :: "int \<Rightarrow> ft \<Rightarrow> ft" where
  "close_fd fd s = s\<lparr>file_descriptors := filter (\<lambda>x. x \<noteq> fd) (file_descriptors s)\<rparr>"

text \<open>\<^verbatim>\<open>transfer_progress_error\<close>\<close>

definition receive_progress_error :: "receive_chunk_state \<Rightarrow> string \<Rightarrow> ft \<Rightarrow> ft" where
  "receive_progress_error c message s = file_do (Progress False (rc_send_id c) (-1) (rc_filesize c) message) s"

section \<open>Settings\<close>

text \<open>
  The options of the configuration, already read: \<open>(ask, enabled)\<close> for each, as \<^verbatim>\<open>pask\<close> and
  \<^verbatim>\<open>str_to_bool\<close> return them.
\<close>

definition init_attributes ::
  "bool \<times> bool \<Rightarrow> int \<Rightarrow> bool \<times> bool \<Rightarrow> bool \<times> bool \<Rightarrow> bool \<times> bool \<Rightarrow> int \<Rightarrow> bool \<Rightarrow> (pystr \<Rightarrow> bytes option) \<Rightarrow> ft" where
  "init_attributes tf limit pr opf opu chunk_size can_ask fs =
     \<lparr>file_transfer = fst tf \<or> snd tf, file_transfer_ask = fst tf \<and> can_ask, file_size_limit = limit,
      file_chunks = chunk_size, printing = fst pr \<or> snd pr, printing_ask = fst pr \<and> can_ask,
      open_files = fst opf \<or> snd opf, open_files_ask = fst opf \<and> can_ask,
      open_url = fst opu \<or> snd opu, open_url_ask = fst opu \<and> can_ask,
      files_requested = [], files_accepted = [], data_send_requests = [], file_request_callback = [],
      remote_file_transfer = False, remote_file_transfer_ask = False, remote_printing = False,
      remote_printing_ask = False, remote_open_files = False, remote_open_files_ask = False,
      remote_open_url = False, remote_open_url_ask = False, remote_file_size_limit = 0, remote_file_chunks = 0,
      pending_send_data = [], pending_send_data_timers = [], send_chunks = [], receive_chunks = [],
      file_descriptors = [], disk = fs, ft_out = []\<rparr>"

definition parse_file_transfer_caps :: "file_env \<Rightarrow> tdict \<Rightarrow> ft \<Rightarrow> ft result" where
  "parse_file_transfer_caps fe c s =
     ebind (dictget (ustr ''file'') [] c) (\<lambda>fc.
     ebind (boolget (ustr ''enabled'') False fc) (\<lambda>en.
     ebind (boolget (ustr ''ask'') False fc) (\<lambda>ask.
     ebind (boolget (ustr ''open'') False fc) (\<lambda>op.
     ebind (boolget (ustr ''open-ask'') False fc) (\<lambda>opask.
     ebind (boolget (ustr ''open-url'') False fc) (\<lambda>url.
     ebind (boolget (ustr ''open-url-ask'') False fc) (\<lambda>urlask.
     ebind (intget (fe_text_int fe) (ustr ''max-file-size'') 0 fc) (\<lambda>m.
     ebind (if m \<noteq> 0 then Inr m else intget (fe_text_int fe) (ustr ''size-limit'') 0 fc) (\<lambda>limit.
     ebind (intget (fe_text_int fe) (ustr ''chunks'') 0 fc) (\<lambda>ch.
     Inr (s\<lparr>remote_file_transfer := en, remote_file_transfer_ask := ask, remote_open_files := op,
            remote_open_files_ask := opask, remote_open_url := url, remote_open_url_ask := urlask,
            remote_file_size_limit := limit, remote_file_chunks := max 0 ch\<rparr>)))))))))))"

definition parse_printer_caps :: "tdict \<Rightarrow> ft \<Rightarrow> ft result" where
  "parse_printer_caps c s =
     ebind (dictget (ustr ''printer'') [] c) (\<lambda>fc.
     ebind (boolget (ustr ''printing'') False fc) (\<lambda>pr.
     ebind (boolget (ustr ''printing-ask'') False fc) (\<lambda>ask.
     Inr (s\<lparr>remote_printing := pr, remote_printing_ask := ask\<rparr>))))"

section \<open>Cancelling\<close>

definition cancel_file :: "pystr \<Rightarrow> string \<Rightarrow> int \<Rightarrow> ft \<Rightarrow> ft" where
  "cancel_file cid message chunk s =
     (case map_of (receive_chunks s) cid of
        None \<Rightarrow> file_do (SendAckChunk cid False (PStr (ustr message)) chunk) s
      | Some c \<Rightarrow>
          if rc_cancelled c then file_do (SendAckChunk cid False (PStr (ustr message)) chunk) s
          else
            let s = receive_progress_error c message (set_receive cid (c\<lparr>rc_cancelled := True, rc_timer := False\<rparr>) s);
                s = os_unlink (rc_filename c) (close_fd (rc_fd c) s)
            in file_do (SendAckChunk cid False (PStr (ustr message)) chunk) s)"

text \<open>The timer that \<^verbatim>\<open>cancel_file\<close> leaves: 20 seconds later the entry is dropped.\<close>

definition clean_receive_state :: "pystr \<Rightarrow> ft \<Rightarrow> ft" where
  "clean_receive_state cid s = s\<lparr>receive_chunks := AList.delete cid (receive_chunks s)\<rparr>"

definition check_chunk_receiving :: "pystr \<Rightarrow> int \<Rightarrow> ft \<Rightarrow> ft" where
  "check_chunk_receiving cid chunk_no s =
     (case map_of (receive_chunks s) cid of
        None \<Rightarrow> s
      | Some c \<Rightarrow>
          if rc_cancelled c then s
          else if rc_chunk c \<noteq> chunk_no then s
          else cancel_file cid ''chunked file transfer timed out'' chunk_no (set_receive cid (c\<lparr>rc_timer := False\<rparr>) s))"

definition cancel_download :: "pystr \<Rightarrow> string \<Rightarrow> ft \<Rightarrow> ft" where
  "cancel_download send_id message s =
     (case filter (\<lambda>(cid, c). rc_send_id c = send_id) (receive_chunks s) of
        [] \<Rightarrow> s
      | (cid, c) # _ \<Rightarrow> cancel_file cid message 0 s)"

section \<open>Requests and approvals\<close>

definition APPROVAL_OPTION_KEYS :: "pystr list" where
  "APPROVAL_OPTION_KEYS = map ustr [''request-file'', ''printer'', ''title'', ''copies'', ''options'']"

definition comparable_transfer_options :: "file_env \<Rightarrow> tdict \<Rightarrow> tdict" where
  "comparable_transfer_options fe options =
     List.map_filter (\<lambda>(k, v). let t = (case k of PStr t \<Rightarrow> t | _ \<Rightarrow> fe_str fe k)
        in if t \<in> set APPROVAL_OPTION_KEYS then Some (PStr t, v) else None) options"

text \<open>Comparing two dictionaries does not depend on the order of the items.\<close>

definition same_dict :: "tdict \<Rightarrow> tdict \<Rightarrow> bool" where
  "same_dict a b \<longleftrightarrow> list_all (\<lambda>(k, v). map_of b k = map_of a k) a \<and> list_all (\<lambda>(k, v). map_of a k = map_of b k) b"

definition request_matches ::
  "file_env \<Rightarrow> accepted_request \<Rightarrow> pystr \<Rightarrow> pystr \<Rightarrow> pystr \<Rightarrow> int \<Rightarrow> tdict \<Rightarrow> bool" where
  "request_matches fe r dtype url mimetype filesize options \<longleftrightarrow>
     ar_dtype r = dtype \<and> ar_url r = url \<and> ar_mimetype r = mimetype \<and> ar_filesize r = filesize \<and>
     same_dict (ar_options r) (comparable_transfer_options fe options)"

definition request_file_match :: "file_env \<Rightarrow> requested_file \<Rightarrow> pystr \<Rightarrow> tdict \<Rightarrow> bool result" where
  "request_file_match fe r filename options =
     ebind (tupleget (fe_str fe) (fe_text_int fe) AnyItem None None (ustr ''request-file'') [] options) (\<lambda>rf.
       case rf of
         [a, b] \<Rightarrow>
           if a \<noteq> PStr (rf_filename r) \<or> py_bool b \<noteq> rf_openit r then Inr False
           else if rf_pattern r \<noteq> [] then Inr (fe_fnmatch fe (file_basename filename) (rf_pattern r))
           else Inr (file_basename filename = file_basename (rf_filename r))
       | _ \<Rightarrow> Inr False)"

definition record_data_request_acceptance ::
  "file_env \<Rightarrow> pystr \<Rightarrow> pystr \<Rightarrow> pystr \<Rightarrow> pystr \<Rightarrow> int \<Rightarrow> bool \<Rightarrow> bool \<Rightarrow> tdict \<Rightarrow> ft \<Rightarrow> ft" where
  "record_data_request_acceptance fe send_id dtype url mimetype filesize printit openit options s =
     s\<lparr>data_send_requests := AList.update send_id
        \<lparr>ar_dtype = dtype, ar_url = url, ar_mimetype = mimetype, ar_filesize = filesize, ar_printit = printit,
         ar_openit = openit, ar_options = comparable_transfer_options fe options\<rparr> (data_send_requests s)\<rparr>"

text \<open>\<^verbatim>\<open>accept_data\<close>: accepted, to be printed, to be opened.\<close>

definition accept_data ::
  "file_env \<Rightarrow> pystr \<Rightarrow> pystr \<Rightarrow> pystr \<Rightarrow> bool \<Rightarrow> bool \<Rightarrow> pystr \<Rightarrow> int \<Rightarrow> tdict \<Rightarrow> ft \<Rightarrow> (bool \<times> bool \<times> bool) \<times> ft" where
  "accept_data fe send_id dtype basefilename printit openit mimetype filesize options s =
     (case map_of (data_send_requests s) send_id of
        Some r \<Rightarrow>
          ((if request_matches fe r dtype basefilename mimetype filesize options
            then (True, ar_printit r, ar_openit r) else (False, False, False)),
           s\<lparr>data_send_requests := AList.delete send_id (data_send_requests s)\<rparr>)
      | None \<Rightarrow>
          if dtype = ustr ''url'' then
            (if \<not> open_url s \<or> open_url_ask s then (False, False, False) else (True, False, True), s)
          else if dtype \<noteq> ustr ''file'' then ((False, False, False), s)
          else
            (case map_of (files_accepted s) send_id of
               Some a \<Rightarrow> ((True, ad_printit a, ad_openit a), s\<lparr>files_accepted := AList.delete send_id (files_accepted s)\<rparr>)
             | None \<Rightarrow>
                 (if printit then
                    (if \<not> printing s \<or> printing_ask s then (False, False, False) else (True, True, False))
                  else if \<not> file_transfer s \<or> file_transfer_ask s then (False, False, False)
                  else (True, printit, if openit \<and> (\<not> open_files s \<or> open_files_ask s) then False else openit), s)))"

section \<open>Writing\<close>

text \<open>The loop over \<^verbatim>\<open>os.write\<close>: what the file holds when it ends, and whether everything was written.\<close>

function write_file_data :: "(bytes \<Rightarrow> bytes \<Rightarrow> nat option) \<Rightarrow> bytes \<Rightarrow> bytes \<Rightarrow> bytes \<times> bool" where
  "write_file_data os_write content view =
     (if view = [] then (content, True)
      else
        (case os_write content view of
           None \<Rightarrow> (content, False)
         | Some n \<Rightarrow>
             if n = 0 then (content, False)
             else write_file_data os_write (content @ take n view) (drop n view)))"
  by pat_completeness auto
termination
  by (relation "measure (\<lambda>(_, _, view). length view)") auto

declare write_file_data.simps [simp del]

definition write_to :: "file_env \<Rightarrow> pystr \<Rightarrow> bytes \<Rightarrow> ft \<Rightarrow> bool \<times> ft" where
  "write_to fe path data s =
     (let (content, ok) = write_file_data (fe_os_write fe) (case disk s path of Some c \<Rightarrow> c | None \<Rightarrow> []) data
      in (ok, if disk s path = None then s else s\<lparr>disk := (disk s)(path \<mapsto> content)\<rparr>))"

section \<open>Handlers\<close>

text \<open>What a handler leaves, and the exception it ends with; \<open>None\<close>: it does not end.\<close>

type_synonym handled = "(ft \<times> py_error option) option"

definition done_with :: "ft \<Rightarrow> handled" where
  "done_with s = Some (s, None)"

definition with_result :: "'a result \<Rightarrow> ft \<Rightarrow> ('a \<Rightarrow> handled) \<Rightarrow> handled" where
  "with_result r s f = (case r of Inl e \<Rightarrow> Some (s, Some e) | Inr x \<Rightarrow> f x)"

lemma with_result_simps [simp]:
  "with_result (Inl e) s f = Some (s, Some e)" "with_result (Inr x) s f = f x"
  by (simp_all add: with_result_def)

definition file_str :: "file_env \<Rightarrow> packet \<Rightarrow> int \<Rightarrow> pystr result" where
  "file_str fe = get_str (fe_unutf8 fe) (fe_str fe)"

section \<open>A file that has arrived\<close>

definition process_downloaded_file ::
  "file_env \<Rightarrow> pystr \<Rightarrow> pystr \<Rightarrow> bool \<Rightarrow> bool \<Rightarrow> int \<Rightarrow> tdict \<Rightarrow> pystr \<Rightarrow> ft \<Rightarrow> handled" where
  "process_downloaded_file fe filename mimetype printit openit filesize options send_id s =
     (let request = (if send_id = [] then None else map_of (files_requested s) send_id) in
      with_result (case request of None \<Rightarrow> Inr False | Some r \<Rightarrow> request_file_match fe r filename options) s (\<lambda>match.
        let cb = match \<and> send_id \<in> set (file_request_callback s);
            s = (if match then s\<lparr>files_requested := AList.delete send_id (files_requested s),
                                 file_request_callback := filter (\<lambda>x. x \<noteq> send_id) (file_request_callback s)\<rparr> else s)
        in done_with
             (if cb then file_do (RequestCallback send_id filename filesize) s
              else if printit \<or> openit then file_do (StartDownloadThread filename mimetype printit openit options) s
              else s)))"

text \<open>The body of the thread.\<close>

definition do_process_downloaded_file :: "pystr \<Rightarrow> pystr \<Rightarrow> bool \<Rightarrow> bool \<Rightarrow> tdict \<Rightarrow> ft \<Rightarrow> ft" where
  "do_process_downloaded_file filename mimetype printit openit options s =
     (if printit then file_do (PrintFile filename mimetype options) s
      else if openit then
        (if \<not> open_files s then s else file_do (OpenFile filename) s)
      else s)"

section \<open>Chunks\<close>

definition digest_ok :: "file_env \<Rightarrow> string option \<Rightarrow> bytes \<Rightarrow> tdict \<Rightarrow> bool result" where
  "digest_ok fe digest hashed options =
     (case digest of
        None \<Rightarrow> Inr True
      | Some h \<Rightarrow> ebind (strget (fe_str fe) (ustr h) [] options) (\<lambda>expected.
          Inr (expected = [] \<or> fe_hexdigest fe h hashed = expected)))"

definition chunk_complete :: "file_env \<Rightarrow> pystr \<Rightarrow> int \<Rightarrow> receive_chunk_state \<Rightarrow> ft \<Rightarrow> handled" where
  "chunk_complete fe cid chunk c s =
     with_result (digest_ok fe (rc_digest c) (rc_hashed c) (rc_options c)) s (\<lambda>ok.
       if \<not> ok then done_with (cancel_file cid ''checksum mismatch'' chunk s)
       else if rc_written c \<noteq> rc_filesize c then done_with (cancel_file cid ''unexpected file size'' chunk s)
       else
         let s = close_fd (rc_fd c) (s\<lparr>receive_chunks := AList.delete cid (receive_chunks s)\<rparr>);
             s = file_do (Progress False (rc_send_id c) (rc_written c) (rc_filesize c) []) s
         in process_downloaded_file fe (rc_filename c) (rc_mimetype c) (rc_printit c) (rc_openit c) (rc_filesize c)
              (rc_options c) (rc_send_id c) s)"

text \<open>The digest object has been given the data of \<open>rc_hashed\<close>, if there is one.\<close>

definition digest_update :: "receive_chunk_state \<Rightarrow> bytes \<Rightarrow> bytes" where
  "digest_update c data = (if rc_digest c = None then rc_hashed c else rc_hashed c @ data)"

lemma digest_update_chunk [simp]: "digest_update (c\<lparr>rc_chunk := n\<rparr>) data = digest_update c data"
  by (simp add: digest_update_def)

definition receive_chunk :: "file_env \<Rightarrow> pystr \<Rightarrow> int \<Rightarrow> bytes \<Rightarrow> bool \<Rightarrow> ft \<Rightarrow> handled" where
  "receive_chunk fe cid chunk data has_more s =
     (case map_of (receive_chunks s) cid of
        None \<Rightarrow> done_with (cancel_file cid ''file transfer id not found'' chunk s)
      | Some c \<Rightarrow>
          if rc_cancelled c then done_with s
          else if rc_chunk c + 1 \<noteq> chunk then done_with (cancel_file cid ''chunk number mismatch'' chunk s)
          else if data = [] then done_with (cancel_file cid ''empty file chunk'' chunk s)
          else
            let (written, s) = write_to fe (rc_filename c) data s; c = c\<lparr>rc_chunk := chunk\<rparr>
            in if \<not> written then done_with (cancel_file cid ''cannot write file chunk'' chunk (set_receive cid c s))
               else
                 let c = c\<lparr>rc_hashed := digest_update c data,
                           rc_written := rc_written c + int (length data)\<rparr>;
                     s = set_receive cid c s
                 in if rc_written c > rc_filesize c then done_with (cancel_file cid ''more data received than specified'' chunk s)
                    else if has_more \<and> rc_written c = rc_filesize c
                    then done_with (cancel_file cid ''more chunks requested'' chunk s)
                    else
                      let s = file_do (SendAckChunk cid True (PStr []) chunk) s
                      in if has_more then
                           done_with (set_receive cid (c\<lparr>rc_timer := True\<rparr>)
                             (file_do (Progress False (rc_send_id c) (rc_written c) (rc_filesize c) []) s))
                         else chunk_complete fe cid chunk c s)"

definition do_process_file_send_chunk :: "file_env \<Rightarrow> packet \<Rightarrow> ft \<Rightarrow> handled" where
  "do_process_file_send_chunk fe packet s =
     with_result (file_str fe packet 1) s (\<lambda>cid.
     with_result (get_u32 (fe_text_int fe) packet 2) s (\<lambda>chunk.
     with_result (get_buffer (fe_utf8 fe) packet 3) s (\<lambda>data.
     with_result (get_bool packet 4) s (\<lambda>has_more.
       receive_chunk fe cid chunk data has_more s))))"

section \<open>A file that is announced\<close>

text \<open>
  \<^verbatim>\<open>safe_open_download_file\<close>: the path and the descriptor; \<open>None\<close> when every name it tries is taken.
\<close>

definition safe_open_download_file :: "file_env \<Rightarrow> pystr \<Rightarrow> pystr \<Rightarrow> ft \<Rightarrow> (pystr \<times> int) result option" where
  "safe_open_download_file fe name mimetype s =
     (case download_path (fe_download_dir fe) name mimetype of
        Inl e \<Rightarrow> Some (Inl e)
      | Inr path \<Rightarrow>
          (case pick_download (\<lambda>f. fe_escapes fe f \<or> disk s f \<noteq> None) path of
             None \<Rightarrow> None
           | Some f \<Rightarrow> Some (if fe_cannot_create fe f then Inl OSError else Inr (f, fe_open_fd fe (file_descriptors s)))))"

fun pick_digest :: "file_env \<Rightarrow> tdict \<Rightarrow> string list \<Rightarrow> string option result" where
  "pick_digest fe options [] = Inr None"
| "pick_digest fe options (h # hs) =
     ebind (strget (fe_str fe) (ustr h) [] options) (\<lambda>v.
       if v \<noteq> [] then Inr (Some h) else pick_digest fe options hs)"

definition DIGESTS :: "string list" where
  "DIGESTS = [''sha512'', ''sha384'', ''sha256'', ''sha224'', ''sha1'']"

text \<open>The two local functions of the handler: \<^verbatim>\<open>cancel\<close> and \<^verbatim>\<open>error\<close>.\<close>

definition send_cancel :: "pystr \<Rightarrow> string \<Rightarrow> ft \<Rightarrow> ft" where
  "send_cancel cid message s = (if cid \<noteq> [] then cancel_file cid message 0 s else s)"

definition send_error :: "pystr \<Rightarrow> pystr \<Rightarrow> int \<Rightarrow> pystr \<Rightarrow> int \<Rightarrow> string \<Rightarrow> ft \<Rightarrow> ft" where
  "send_error cid filename fd send_id filesize message s =
     (let s = send_cancel cid message s;
          s = (if fd \<noteq> 0 then close_fd fd s else s)
      in file_do (Progress False send_id (-1) filesize message) (os_unlink filename s))"

text \<open>
  The whole file came with the packet. \<open>basefilename\<close> has been reduced to its last component
  already.
\<close>

definition receive_whole_file ::
  "file_env \<Rightarrow> pystr \<Rightarrow> int \<Rightarrow> pystr \<Rightarrow> bool \<Rightarrow> bool \<Rightarrow> int \<Rightarrow> bytes \<Rightarrow> tdict \<Rightarrow> pystr \<Rightarrow> string option \<Rightarrow> ft \<Rightarrow> handled" where
  "receive_whole_file fe filename fd mimetype printit openit filesize data options send_id digest s =
     (let fail = (\<lambda>m s. done_with (send_error [] filename fd send_id filesize m s)) in
      if data = [] then fail ''no file data'' s
      else if int (length data) \<noteq> filesize then fail ''unexpected file size'' s
      else with_result (digest_ok fe digest data options) s (\<lambda>ok.
        if \<not> ok then fail ''checksum mismatch'' s
        else
          let (written, s) = write_to fe filename data s
          in if \<not> written then fail ''failed to write file data'' s
             else process_downloaded_file fe filename mimetype printit openit filesize options send_id
                    (file_do (Progress False send_id filesize filesize []) (close_fd fd s))))"

definition receive_file_data ::
  "file_env \<Rightarrow> pystr \<Rightarrow> int \<Rightarrow> pystr \<Rightarrow> bool \<Rightarrow> bool \<Rightarrow> int \<Rightarrow> bytes \<Rightarrow> tdict \<Rightarrow> pystr \<Rightarrow> pystr \<Rightarrow> ft \<Rightarrow> handled" where
  "receive_file_data fe filename fd mimetype printit openit filesize data options send_id cid s =
     with_result (pick_digest fe options DIGESTS) s (\<lambda>digest.
       if cid \<noteq> [] then
         (if length (receive_chunks s) \<ge> MAX_CONCURRENT_FILES
          then done_with (send_error cid filename fd send_id filesize ''too many file transfers in progress'' s)
          else done_with (file_do (SendAckChunk cid True (PBytes []) 0) (set_receive cid
            \<lparr>rc_send_id = send_id, rc_filesize = filesize, rc_fd = fd, rc_filename = filename,
             rc_mimetype = mimetype, rc_printit = printit, rc_openit = openit, rc_options = options,
             rc_digest = digest, rc_hashed = [], rc_written = 0, rc_cancelled = False, rc_timer = True,
             rc_chunk = 0\<rparr> s)))
       else receive_whole_file fe filename fd mimetype printit openit filesize data options send_id digest s)"

definition receive_file ::
  "file_env \<Rightarrow> pystr \<Rightarrow> pystr \<Rightarrow> bool \<Rightarrow> bool \<Rightarrow> int \<Rightarrow> bytes \<Rightarrow> tdict \<Rightarrow> pystr \<Rightarrow> pystr \<Rightarrow> ft \<Rightarrow> handled" where
  "receive_file fe basefilename mimetype printit openit filesize data options send_id cid s =
     (if filesize \<le> 0 then done_with (send_cancel cid ''invalid file size'' s)
      else if filesize > file_size_limit s then done_with (send_cancel cid ''file is too large'' s)
      else if cid \<noteq> [] \<and> map_of (receive_chunks s) cid \<noteq> None
      then done_with (file_do (SendAckChunk cid False (PStr (ustr ''file transfer id is already in use'')) 0) s)
      else
        let ((acceptit, printit, openit), s) =
              accept_data fe send_id (ustr ''file'') basefilename printit openit mimetype filesize options s
        in if \<not> acceptit then done_with (send_cancel cid ''rejected'' s)
           else if \<not> (if printit then printing s else file_transfer s) then Some (s, Some AssertionError)
           else
             (case safe_open_download_file fe basefilename mimetype s of
                None \<Rightarrow> None
              | Some (Inl e) \<Rightarrow> done_with (send_cancel cid ''failed to save downloaded file'' s)
              | Some (Inr (filename, fd)) \<Rightarrow>
                  receive_file_data fe filename fd mimetype printit openit filesize data options send_id cid
                    (s\<lparr>file_descriptors := file_descriptors s @ [fd], disk := (disk s)(filename \<mapsto> [])\<rparr>)))"

definition do_process_file_send :: "file_env \<Rightarrow> packet \<Rightarrow> ft \<Rightarrow> handled" where
  "do_process_file_send fe packet s =
     with_result (file_str fe packet 1) s (\<lambda>name.
     with_result (file_str fe packet 2) s (\<lambda>mimetype.
     with_result (get_bool packet 3) s (\<lambda>printit.
     with_result (get_bool packet 4) s (\<lambda>openit.
     with_result (get_u64 (fe_text_int fe) packet 5) s (\<lambda>filesize.
     with_result (get_buffer (fe_utf8 fe) packet 6) s (\<lambda>data.
     with_result (get_dict packet 7) s (\<lambda>options.
     with_result (if length packet \<ge> 9 then file_str fe packet 8 else Inr []) s (\<lambda>send_id.
     with_result (strget (fe_str fe) (ustr ''file-chunk-id'') [] options) s (\<lambda>cid.
       receive_file fe (file_basename name) mimetype printit openit filesize data options send_id cid s)))))))))"

section \<open>Requests\<close>

definition send_request_file :: "pystr \<Rightarrow> pystr \<Rightarrow> bool \<Rightarrow> pystr \<Rightarrow> bool \<Rightarrow> ft \<Rightarrow> ft" where
  "send_request_file send_id filename openit pattern has_callback s =
     file_do (SendFileRequest filename openit send_id)
       (s\<lparr>files_requested := AList.update send_id \<lparr>rf_filename = filename, rf_openit = openit, rf_pattern = pattern\<rparr> (files_requested s),
          file_request_callback := (if has_callback then send_id # filter (\<lambda>x. x \<noteq> send_id) (file_request_callback s) else file_request_callback s)\<rparr>)"

text \<open>
  \<^verbatim>\<open>ask_data_request\<close> of the subclasses asks the user (\<open>AskUser\<close>); the class itself denies.
\<close>

definition ask_data_request :: "bool \<Rightarrow> pystr \<Rightarrow> pystr \<Rightarrow> pystr \<Rightarrow> ft \<Rightarrow> ft" where
  "ask_data_request prompt send_id dtype url s =
     file_do (if prompt then AskUser send_id dtype url else SendDataResponse send_id False) s"

text \<open>What the settings say of a request: denied, or to be asked, or neither.\<close>

definition request_ask :: "ft \<Rightarrow> pystr \<Rightarrow> pystr \<Rightarrow> bool \<Rightarrow> bool \<Rightarrow> bool option" where
  "request_ask s dtype url printit openit =
     (if dtype = ustr ''file'' then
        (if printit then (if \<not> printing s then None else Some (printing_ask s))
         else if \<not> file_transfer s then None
         else if openit then (if \<not> open_files s then None else Some (file_transfer_ask s \<or> open_files_ask s))
         else Some (file_transfer_ask s))
      else if dtype = ustr ''url'' then
        (if \<not> open_url s \<or> \<not> valid_url url then None else Some (open_url_ask s))
      else None)"

definition ask_request :: "bool \<Rightarrow> pystr \<Rightarrow> pystr \<Rightarrow> pystr \<Rightarrow> bool \<Rightarrow> bool \<Rightarrow> ft \<Rightarrow> ft" where
  "ask_request prompt dtype send_id url printit openit s =
     (let url = (if dtype = ustr ''file'' then file_basename url else url) in
      case request_ask s dtype url printit openit of
        None \<Rightarrow> file_do (SendDataResponse send_id False) s
      | Some ask \<Rightarrow>
          if \<not> ask then file_do (SendDataResponse send_id False) s
          else ask_data_request prompt send_id dtype url s)"

definition do_process_file_data_request ::
  "file_env \<Rightarrow> bool \<Rightarrow> pystr \<Rightarrow> pystr \<Rightarrow> pystr \<Rightarrow> int \<Rightarrow> bool \<Rightarrow> bool \<Rightarrow> tdict \<Rightarrow> pystr \<Rightarrow> ft \<Rightarrow> handled" where
  "do_process_file_data_request fe prompt dtype send_id url filesize printit openit options mimetype s =
     (let request = (if send_id = [] then None else map_of (files_requested s) send_id) in
      with_result (case request of None \<Rightarrow> Inr False | Some r \<Rightarrow> request_file_match fe r url options) s (\<lambda>match.
        if match then
          done_with (file_do (SendDataResponse send_id True)
            (record_data_request_acceptance fe send_id dtype (if dtype = ustr ''file'' then file_basename url else url)
               mimetype filesize printit (rf_openit (the request)) options
               (s\<lparr>files_requested := AList.delete send_id (files_requested s)\<rparr>)))
        else done_with (ask_request prompt dtype send_id url printit openit s)))"

definition process_data_request :: "file_env \<Rightarrow> bool \<Rightarrow> packet \<Rightarrow> ft \<Rightarrow> handled" where
  "process_data_request fe prompt packet s =
     with_result (file_str fe packet 1) s (\<lambda>dtype.
     with_result (file_str fe packet 2) s (\<lambda>send_id.
     with_result (file_str fe packet 3) s (\<lambda>url.
     with_result (file_str fe packet 4) s (\<lambda>mimetype.
     with_result (get_u64 (fe_text_int fe) packet 5) s (\<lambda>filesize.
     with_result (get_bool packet 6) s (\<lambda>printit.
     with_result (get_bool packet 7) s (\<lambda>openit.
     with_result (if length packet \<ge> 9 then get_dict packet 8 else Inr []) s (\<lambda>options.
       do_process_file_data_request fe prompt dtype send_id url filesize printit openit options mimetype s))))))))"

text \<open>\<^verbatim>\<open>_process_open_url\<close>; \<open>lower\<close> is \<^verbatim>\<open>str.lower\<close>, \<open>prefixes\<close> the URL prefixes that are allowed.\<close>

definition process_open_url :: "file_env \<Rightarrow> (pystr \<Rightarrow> pystr) \<Rightarrow> pystr list \<Rightarrow> packet \<Rightarrow> ft \<Rightarrow> handled" where
  "process_open_url fe lower prefixes packet s =
     with_result (file_str fe packet 1) s (\<lambda>url.
     with_result (file_str fe packet 2) s (\<lambda>send_id.
       if \<not> open_url s then done_with s
       else if \<not> list_ex (\<lambda>p. take (length (lower p)) (lower url) = lower p) prefixes then done_with s
       else if \<not> valid_url url then done_with s
       else
         let ((ok, _, _), s) = (if open_url_ask s then accept_data fe send_id (ustr ''url'') url False True [] 0 [] s
                                else ((True, False, True), s))
         in done_with (if ok then file_do (OpenUrl url) s else s)))"

end
