(* ===== verification/FileSend.thy ===== *)
theory FileSend
  imports FileTransfer
begin

text \<open>
  Sending files: the sending half of \<^verbatim>\<open>FileTransferHandler\<close> of \<^verbatim>\<open>src/xpra/net/file_transfer.py\<close>, its
  clean up, and a transfer in chunks from one end to the other.
\<close>

section \<open>Limits\<close>

definition check_file_size :: "int \<Rightarrow> ft \<Rightarrow> bool" where
  "check_file_size filesize s \<longleftrightarrow> \<not> filesize > file_size_limit s \<and> \<not> filesize > remote_file_size_limit s"

definition send_progress_error :: "send_chunk_state \<Rightarrow> string \<Rightarrow> ft \<Rightarrow> ft" where
  "send_progress_error c message s = file_do (Progress True (sd_send_id c) (-1) (sd_filesize c) message) s"

section \<open>Sending\<close>

text \<open>
  \<open>send_id\<close> and \<open>cid\<close>, where they are not given, are new identifiers, drawn with \<^verbatim>\<open>uuid4\<close>.
\<close>

definition send_data_request ::
  "pystr \<Rightarrow> pystr \<Rightarrow> pystr \<Rightarrow> bytes \<Rightarrow> int \<Rightarrow> bool \<Rightarrow> bool \<Rightarrow> tdict \<Rightarrow> pystr \<Rightarrow> ft \<Rightarrow> pystr \<times> ft" where
  "send_data_request dtype url mimetype data filesize printit openit options send_id s =
     (if length (pending_send_data s) \<ge> MAX_CONCURRENT_FILES then ([], s)
      else
        (send_id, file_do (SendDataRequest dtype send_id url mimetype filesize printit openit options)
          (s\<lparr>pending_send_data := AList.update send_id
               \<lparr>sp_datatype = dtype, sp_url = url, sp_mimetype = mimetype, sp_data = data, sp_filesize = filesize,
                sp_printit = printit, sp_openit = openit, sp_options = options\<rparr> (pending_send_data s),
             pending_send_data_timers := List.insert send_id (pending_send_data_timers s)\<rparr>)))"

definition set_item :: "pystr \<Rightarrow> pval \<Rightarrow> tdict \<Rightarrow> tdict" where
  "set_item k v d = AList.update (PStr k) v d"

definition do_send_file ::
  "file_env \<Rightarrow> pystr \<Rightarrow> pystr \<Rightarrow> bytes \<Rightarrow> int \<Rightarrow> bool \<Rightarrow> bool \<Rightarrow> tdict \<Rightarrow> pystr \<Rightarrow> pystr \<Rightarrow> ft \<Rightarrow> handled" where
  "do_send_file fe filename mimetype data filesize printit openit options send_id cid s =
     (if \<not> check_file_size filesize s then done_with s
      else
        let options = set_item (ustr ''sha256'') (PStr (fe_hexdigest fe ''sha256'' data)) options;
            chunk_size = min (file_chunks s) (remote_file_chunks s)
        in if 0 < chunk_size \<and> chunk_size < filesize then
             (if length (send_chunks s) \<ge> MAX_CONCURRENT_FILES then Some (s, Some RuntimeError)
              else done_with (file_do (SendFile (after_last SLASH filename) mimetype printit openit filesize (PBytes [])
                     (set_item (ustr ''file-chunk-id'') (PStr cid) options) send_id)
                (s\<lparr>send_chunks := AList.update cid
                     \<lparr>sd_send_id = send_id, sd_filesize = filesize, sd_data = data, sd_chunk_size = nat chunk_size,
                      sd_timer = True, sd_chunk = 0\<rparr> (send_chunks s)\<rparr>)))
           else
             with_result (fe_wrap fe data) s (\<lambda>cdata.
               done_with (file_do (SendFile (after_last SLASH filename) mimetype printit openit filesize cdata options send_id)
                 (file_do (Progress True send_id filesize filesize []) s))))"

definition send_file ::
  "file_env \<Rightarrow> pystr \<Rightarrow> pystr \<Rightarrow> bytes \<Rightarrow> nat \<Rightarrow> bool \<Rightarrow> bool \<Rightarrow> tdict \<Rightarrow> pystr \<Rightarrow> pystr \<Rightarrow> ft \<Rightarrow> handled" where
  "send_file fe filename mimetype data filesize printit openit options send_id cid s =
     (if printit \<and> (\<not> printing s \<or> \<not> remote_printing s) then done_with s
      else if \<not> printit \<and> (\<not> file_transfer s \<or> \<not> remote_file_transfer s) then done_with s
      else
        let op = (openit \<and> (printit \<or> remote_open_files s));
            ask = (if printit then remote_printing_ask s
                   else remote_file_transfer_ask s \<or> (op \<and> remote_open_files_ask s))
        in if length data < filesize then Some (s, Some AssertionError)
           else if \<not> check_file_size (int filesize) s then done_with s
           else if ask then
             done_with (snd (send_data_request (ustr ''file'') filename mimetype (take filesize data) (int filesize) printit op
               options send_id s))
           else do_send_file fe filename mimetype (take filesize data) (int filesize) printit op options send_id cid s)"

definition send_open_url :: "pystr \<Rightarrow> pystr \<Rightarrow> ft \<Rightarrow> bool \<times> ft" where
  "send_open_url url send_id s =
     (if \<not> remote_open_url s then (False, s)
      else if remote_open_url_ask s then
        (let (sid, s) = send_data_request (ustr ''url'') url [] [] 0 False True [] send_id s in (sid \<noteq> [], s))
      else (True, file_do (SendOpenUrl url []) s))"

section \<open>The answer to a request\<close>

definition DENY :: int where "DENY = 0"
definition ACCEPT :: int where "ACCEPT = 1"
definition OPEN :: int where "OPEN = 2"

definition send_accepted :: "file_env \<Rightarrow> pystr \<Rightarrow> pystr \<Rightarrow> int \<Rightarrow> send_pending_data \<Rightarrow> ft \<Rightarrow> handled" where
  "send_accepted fe cid send_id accept d s =
     (if accept = DENY then done_with s
      else if accept \<noteq> ACCEPT \<and> accept \<noteq> OPEN then Some (s, Some ValueError)
      else if sp_datatype d = ustr ''file'' then
        (if accept = ACCEPT then
           do_send_file fe (sp_url d) (sp_mimetype d) (sp_data d) (sp_filesize d) (sp_printit d) (sp_openit d)
             (sp_options d) send_id cid s
         else if \<not> sp_openit d then Some (s, Some AssertionError)
         else done_with (file_do (OpenFile (sp_url d)) s))
      else if sp_datatype d = ustr ''url'' then
        (if accept = ACCEPT then done_with (file_do (SendOpenUrl (sp_url d) send_id) s)
         else done_with (file_do (OpenUrl (sp_url d)) s))
      else done_with s)"

definition process_data_response :: "file_env \<Rightarrow> pystr \<Rightarrow> packet \<Rightarrow> ft \<Rightarrow> handled" where
  "process_data_response fe cid packet s =
     with_result (file_str fe packet 1) s (\<lambda>send_id.
     with_result (get_i8 (fe_text_int fe) packet 2) s (\<lambda>accept.
       if accept = DENY \<and> map_of (files_requested s) send_id \<noteq> None then
         done_with (s\<lparr>files_requested := AList.delete send_id (files_requested s),
                     file_request_callback := filter (\<lambda>x. x \<noteq> send_id) (file_request_callback s)\<rparr>)
       else
         let s = s\<lparr>pending_send_data_timers := filter (\<lambda>x. x \<noteq> send_id) (pending_send_data_timers s)\<rparr>
         in (case map_of (pending_send_data s) send_id of
               None \<Rightarrow> done_with s
             | Some d \<Rightarrow> send_accepted fe cid send_id accept d
                 (s\<lparr>pending_send_data := AList.delete send_id (pending_send_data s)\<rparr>))))"

definition send_data_ask_timeout :: "pystr \<Rightarrow> ft \<Rightarrow> ft" where
  "send_data_ask_timeout send_id s =
     (let s = s\<lparr>pending_send_data_timers := filter (\<lambda>x. x \<noteq> send_id) (pending_send_data_timers s)\<rparr>
      in case map_of (pending_send_data s) send_id of
           None \<Rightarrow> s
         | Some d \<Rightarrow>
             file_do (Progress True send_id (-1) (sp_filesize d) ''approval request timed out'')
               (s\<lparr>pending_send_data := AList.delete send_id (pending_send_data s)\<rparr>))"

section \<open>Chunks\<close>

definition cancel_sending :: "pystr \<Rightarrow> ft \<Rightarrow> ft" where
  "cancel_sending cid s = s\<lparr>send_chunks := AList.delete cid (send_chunks s)\<rparr>"

definition check_chunk_sending :: "pystr \<Rightarrow> int \<Rightarrow> ft \<Rightarrow> ft" where
  "check_chunk_sending cid chunk_no s =
     (case map_of (send_chunks s) cid of
        None \<Rightarrow> s
      | Some c \<Rightarrow>
          if sd_chunk c \<noteq> chunk_no then s
          else cancel_sending cid (send_progress_error c ''chunk timed out'' s))"

definition send_next_chunk :: "file_env \<Rightarrow> pystr \<Rightarrow> send_chunk_state \<Rightarrow> ft \<Rightarrow> handled" where
  "send_next_chunk fe cid c s =
     (if sd_chunk_size c = 0 then Some (s, Some AssertionError)
      else with_result (fe_wrap fe (take (sd_chunk_size c) (sd_data c))) s (\<lambda>cdata.
        let rest = drop (sd_chunk_size c) (sd_data c);
            c = c\<lparr>sd_data := rest, sd_chunk := sd_chunk c + 1, sd_timer := True\<rparr>
        in done_with (file_do (SendChunk cid (sd_chunk c) cdata (rest \<noteq> []))
             (s\<lparr>send_chunks := AList.update cid c (send_chunks s)\<rparr>))))"

definition ack_chunk :: "file_env \<Rightarrow> pystr \<Rightarrow> bool \<Rightarrow> string \<Rightarrow> int \<Rightarrow> ft \<Rightarrow> handled" where
  "ack_chunk fe cid state error_message chunk s =
     (case map_of (send_chunks s) cid of
        None \<Rightarrow> done_with s
      | Some c \<Rightarrow>
          if \<not> state then done_with (cancel_sending cid (send_progress_error c error_message s))
          else if sd_chunk c \<noteq> chunk then
            done_with (cancel_sending cid (send_progress_error c ''chunk number mismatch'' s))
          else
            let s = file_do (Progress True (sd_send_id c) (sd_filesize c - int (length (sd_data c))) (sd_filesize c) []) s
            in if sd_data c = [] then done_with (cancel_sending cid s)
               else send_next_chunk fe cid c s)"

definition do_process_file_ack_chunk :: "file_env \<Rightarrow> (pystr \<Rightarrow> string) \<Rightarrow> packet \<Rightarrow> ft \<Rightarrow> handled" where
  "do_process_file_ack_chunk fe label_of packet s =
     with_result (file_str fe packet 1) s (\<lambda>cid.
     with_result (get_bool packet 2) s (\<lambda>state.
     with_result (file_str fe packet 3) s (\<lambda>error_message.
     with_result (get_u32 (fe_text_int fe) packet 4) s (\<lambda>chunk.
       ack_chunk fe cid state (label_of error_message) chunk s))))"

section \<open>The end\<close>

text \<open>
  \<^verbatim>\<open>cleanup\<close>, once the worker thread has ended: incomplete downloads are deleted, all the descriptors
  closed, all the settings and states set anew.
\<close>

definition cleanup :: "ft \<Rightarrow> ft" where
  "cleanup s =
     init_attributes (False, False) (10 ^ 9) (False, False) (False, False) (False, False) 65536 True
       (fold (\<lambda>(cid, c) fs. fs(rc_filename c := None)) (receive_chunks s) (disk s))
       \<lparr>ft_out := ft_out s\<rparr>"

end
