(* ===== verification/FileSafety.thy ===== *)
theory FileSafety
  imports FileSend
begin

text \<open>
  What a peer can do to the file system: the steps that anything received, any timer and the local
  user can take, and the invariant that all of them keep.
\<close>

section \<open>The path that is chosen\<close>

definition clean_name :: "pystr \<Rightarrow> bool" where
  "clean_name b \<longleftrightarrow> b \<noteq> [] \<and> hd b \<noteq> DOT \<and> SLASH \<notin> set b"

definition saved_name :: "file_env \<Rightarrow> pystr \<Rightarrow> bool" where
  "saved_name fe p \<longleftrightarrow> (\<exists>b. p = path_of (abs_components (fe_download_dir fe) @ [b]) \<and> clean_name b)"

lemma path_of_snoc: "path_of (ds @ [b]) = concat (map (\<lambda>c. SLASH # c) ds) @ SLASH # b"
  by (simp add: path_of_def)

lemma after_last_snoc: "SLASH \<notin> set b \<Longrightarrow> after_last SLASH (pre @ SLASH # b) = b"
proof -
  assume "SLASH \<notin> set b"
  then have "takeWhile (\<lambda>c. c \<noteq> SLASH) (rev b @ SLASH # rev pre) = rev b"
    by (subst takeWhile_append2) auto
  then show ?thesis by (simp add: after_last_def)
qed

lemma splitext_snoc:
  assumes "SLASH \<notin> set b" "b \<noteq> []"
  shows "\<exists>r e. splitext (pre @ SLASH # b) = (pre @ SLASH # r, e) \<and> b = r @ e \<and> r \<noteq> []"
proof -
  let ?e = "after_last DOT b" and ?n = "length b - length (after_last DOT b) - 1"
  note a = after_last_snoc [OF assms(1), of pre]
  show ?thesis
  proof (cases "DOT \<in> set b \<and> (\<exists>c \<in> set (take ?n b). c \<noteq> DOT)")
    case False
    then have "splitext (pre @ SLASH # b) = (pre @ SLASH # b, [])"
      by (simp only: splitext_def a Let_def if_False)
    with assms(2) show ?thesis by (intro exI [of _ b] exI [of _ "[]"]) simp
  next
    case True
    obtain ys zs where yz: "b = ys @ DOT # zs" "DOT \<notin> set zs"
      using True split_list_last by metis
    have e: "?e = zs"
    proof -
      have "takeWhile (\<lambda>c. c \<noteq> DOT) (rev zs @ DOT # rev ys) = rev zs"
        using yz(2) by (subst takeWhile_append2) auto
      then show ?thesis by (simp add: after_last_def yz(1))
    qed
    have "splitext (pre @ SLASH # b) = (take (length (pre @ SLASH # b) - length ?e - 1) (pre @ SLASH # b), DOT # ?e)"
      using True by (simp only: splitext_def a Let_def if_True simp_thms)
    then have "splitext (pre @ SLASH # b) = (pre @ SLASH # ys, DOT # zs)"
      unfolding e by (simp add: yz(1))
    moreover have "ys \<noteq> []" using True unfolding e by (auto simp: yz(1))
    ultimately show ?thesis using yz(1) by blast
  qed
qed

lemma dec_bytes_no_slash: "SLASH \<notin> set (map uint (dec_bytes n))"
proof
  assume "SLASH \<in> set (map uint (dec_bytes n))"
  then obtain d where "d \<in> set (dec_bytes n)" "uint d = 47" by (auto simp: SLASH_def)
  moreover from this(2) have "d = 47" by (simp add: word_uint_eq_iff)
  ultimately show False using dec_bytes_digits [of 47 n] by simp
qed

lemma clean_numbered:
  assumes "clean_name b"
  shows "\<exists>b'. numbered (fst (splitext (pre @ SLASH # b))) (snd (splitext (pre @ SLASH # b))) k = pre @ SLASH # b' \<and> clean_name b'"
proof -
  obtain r e where s: "splitext (pre @ SLASH # b) = (pre @ SLASH # r, e)" "b = r @ e" "r \<noteq> []"
    using splitext_snoc [of b pre] assms by (auto simp: clean_name_def)
  have "clean_name (r @ 45 # map uint (dec_bytes k) @ e)"
    using assms s(2,3) dec_bytes_no_slash [of k] by (auto simp: clean_name_def SLASH_def)
  with s show ?thesis by (auto simp: numbered_def)
qed

lemma pick_name_result:
  assumes "pick_name taken root ext base f = Some name"
  shows "\<not> taken name \<and> (name = f \<or> (\<exists>k. name = numbered root ext k))"
proof (rule pick_name.raw_induct [OF _ assms])
  fix pick taken root ext base f name
  assume ih: "\<And>taken root ext base f name. pick taken root ext base f = Some name \<Longrightarrow>
      \<not> taken name \<and> (name = f \<or> (\<exists>k. name = numbered root ext k))"
    and run: "(if taken f then pick taken root ext (base + 1) (numbered root ext (base + 1)) else Some f) = Some name"
  show "\<not> taken name \<and> (name = f \<or> (\<exists>k. name = numbered root ext k))"
  proof (cases "taken f")
    case True
    with run have "pick taken root ext (base + 1) (numbered root ext (base + 1)) = Some name" by simp
    from ih [OF this] show ?thesis by blast
  qed (use run in auto)
qed

lemma download_path_clean:
  assumes "fe_download_dir fe \<noteq> []" "download_path (fe_download_dir fe) name mimetype = Inr path"
  shows "\<exists>b. path = path_of (abs_components (fe_download_dir fe) @ [b]) \<and> clean_name b"
proof -
  let ?dd = "fe_download_dir fe" and ?b = "safe_basename name"
  note b = safe_basename_props [of name]
  have p: "path = path_of (abs_components ?dd @ [?b]) \<or>
      (\<exists>e. MIMETYPE_EXTS mimetype = Some e \<and> path = path_of (abs_components ?dd @ [?b]) @ DOT # e)"
    using assms(2) by (auto simp: download_path_def abs_join_safe [OF assms(1)] Let_def split: if_splits option.splits)
  then show ?thesis
  proof
    assume "path = path_of (abs_components ?dd @ [?b])"
    with b show ?thesis by (auto simp: clean_name_def)
  next
    assume "\<exists>e. MIMETYPE_EXTS mimetype = Some e \<and> path = path_of (abs_components ?dd @ [?b]) @ DOT # e"
    then obtain e where e: "MIMETYPE_EXTS mimetype = Some e" "path = path_of (abs_components ?dd @ [?b]) @ DOT # e" by blast
    have "SLASH \<notin> set (map of_char ''ps'')" "SLASH \<notin> set (map of_char ''pdf'')" "SLASH \<notin> set (map of_char ''raw'')"
      by code_simp+
    with e(1) have "SLASH \<notin> set e" by (auto simp: MIMETYPE_EXTS_def split: if_splits)
    then have "clean_name (?b @ DOT # e)" using b by (auto simp: clean_name_def SLASH_def DOT_def)
    moreover have "path = path_of (abs_components ?dd @ [?b @ DOT # e])" using e(2) by (simp add: path_of_snoc)
    ultimately show ?thesis by blast
  qed
qed

lemma safe_open_result:
  assumes "safe_open_download_file fe name mimetype s = Some (Inr (f, fd))" "fe_download_dir fe \<noteq> []"
  shows "saved_name fe f" "disk s f = None" "\<not> fe_escapes fe f" "fd = fe_open_fd fe (file_descriptors s)"
proof -
  let ?t = "\<lambda>f. fe_escapes fe f \<or> disk s f \<noteq> None"
  from assms(1) obtain path where p: "download_path (fe_download_dir fe) name mimetype = Inr path"
    "pick_download ?t path = Some f" "fd = fe_open_fd fe (file_descriptors s)"
    by (auto simp: safe_open_download_file_def split: sum.splits option.splits if_splits)
  obtain b where b: "path = path_of (abs_components (fe_download_dir fe) @ [b])" "clean_name b"
    using download_path_clean [OF assms(2) p(1)] by blast
  have "pick_name ?t (fst (splitext path)) (snd (splitext path)) 0 path = Some f"
    using p(2) by (simp add: pick_download_def case_prod_unfold Let_def)
  note r = pick_name_result [OF this]
  then show "disk s f = None" "\<not> fe_escapes fe f" by auto
  show "fd = fe_open_fd fe (file_descriptors s)" by (rule p(3))
  from r show "saved_name fe f"
    unfolding saved_name_def using b clean_numbered [OF b(2)] by (metis path_of_snoc)
qed

section \<open>The steps\<close>

inductive file_step :: "file_env \<Rightarrow> ft \<Rightarrow> ft \<Rightarrow> bool" for fe where
  got_file: "do_process_file_send fe packet s = Some (s', e) \<Longrightarrow> file_step fe s s'"
| got_chunk: "do_process_file_send_chunk fe packet s = Some (s', e) \<Longrightarrow> file_step fe s s'"
| got_request: "process_data_request fe prompt packet s = Some (s', e) \<Longrightarrow> file_step fe s s'"
| got_response: "process_data_response fe cid packet s = Some (s', e) \<Longrightarrow> file_step fe s s'"
| got_ack: "do_process_file_ack_chunk fe label_of packet s = Some (s', e) \<Longrightarrow> file_step fe s s'"
| got_url: "process_open_url fe lower prefixes packet s = Some (s', e) \<Longrightarrow> file_step fe s s'"
| chunk_timer: "file_step fe s (check_chunk_receiving cid n s)"
| clean_timer: "file_step fe s (clean_receive_state cid s)"
| sending_timer: "file_step fe s (check_chunk_sending cid n s)"
| ask_timer: "file_step fe s (send_data_ask_timeout send_id s)"
| user_cancels: "file_step fe s (cancel_download send_id message s)"
| user_accepts: "file_step fe s (record_data_request_acceptance fe send_id dtype url mimetype filesize printit openit options s)"
| user_requests: "file_step fe s (send_request_file send_id filename openit pattern cb s)"
| user_sends: "send_file fe filename mimetype data n printit openit options send_id cid s = Some (s', e) \<Longrightarrow> file_step fe s s'"
| user_sends_url: "file_step fe s (snd (send_open_url url send_id s))"
| thread_runs: "file_step fe s (do_process_downloaded_file filename mimetype printit openit options s)"

text \<open>Most of them do not touch the files or the transfers that are being received.\<close>

named_theorems file_frame "operations that leave files and incoming transfers alone"

definition same_files :: "ft \<Rightarrow> ft \<Rightarrow> bool" where
  "same_files s s' \<longleftrightarrow> disk s' = disk s \<and> receive_chunks s' = receive_chunks s \<and> file_size_limit s' = file_size_limit s"

lemma same_files_refl [file_frame]: "same_files s s"
  by (simp add: same_files_def)

lemma same_files_trans: "same_files a b \<Longrightarrow> same_files b c \<Longrightarrow> same_files a c"
  by (simp add: same_files_def)

lemma same_files_do [file_frame]: "same_files s (file_do a s)"
  by (simp add: same_files_def file_do_def)

definition leaves_files :: "ft \<Rightarrow> handled \<Rightarrow> bool" where
  "leaves_files s h \<longleftrightarrow> (\<forall>s' e. h = Some (s', e) \<longrightarrow> same_files s s')"

lemma leaves_files_with_result [file_frame]:
  "(\<And>x. r = Inr x \<Longrightarrow> leaves_files s (f x)) \<Longrightarrow> leaves_files s (with_result r s f)"
  by (cases r) (simp_all add: leaves_files_def same_files_refl)

lemma leaves_files_done [simp]: "leaves_files s (done_with s') \<longleftrightarrow> same_files s s'"
  by (simp add: leaves_files_def done_with_def)

lemma leaves_files_raise [simp]: "leaves_files s (Some (s', Some e)) \<longleftrightarrow> same_files s s'"
  by (simp add: leaves_files_def)

lemmas file_ops = same_files_def file_do_def record_data_request_acceptance_def ask_request_def ask_data_request_def
  cancel_sending_def send_progress_error_def

lemma process_downloaded_leaves: "leaves_files s (process_downloaded_file fe f m p op sz opts sid s)"
  unfolding process_downloaded_file_def Let_def
  by (rule leaves_files_with_result) (simp add: file_ops)

lemma data_request_leaves: "leaves_files s (process_data_request fe prompt packet s)"
  unfolding process_data_request_def do_process_file_data_request_def Let_def
  by (intro leaves_files_with_result) (simp add: file_ops Let_def split: option.split)

lemma do_send_file_leaves: "leaves_files s (do_send_file fe f m d sz p op opts sid cid s)"
  unfolding do_send_file_def Let_def
  by (auto simp: file_ops intro!: leaves_files_with_result)

lemma send_data_request_leaves: "same_files s (snd (send_data_request dt url m d sz p op opts sid s))"
  by (simp add: send_data_request_def file_ops)

lemma send_file_leaves: "leaves_files s (send_file fe f m d n p op opts sid cid s)"
  unfolding send_file_def Let_def
  by (simp add: do_send_file_leaves send_data_request_leaves same_files_refl)

lemma leaves_files_from: "leaves_files s' h \<Longrightarrow> same_files s s' \<Longrightarrow> leaves_files s h"
  by (auto simp: leaves_files_def intro: same_files_trans)

lemma send_accepted_leaves: "leaves_files s (send_accepted fe cid sid a d s)"
  unfolding send_accepted_def by (simp add: do_send_file_leaves file_ops)

lemma data_response_leaves: "leaves_files s (process_data_response fe cid packet s)"
  unfolding process_data_response_def Let_def
  by (intro leaves_files_with_result)
    (auto simp: file_ops split: option.split intro: leaves_files_from [OF send_accepted_leaves])

lemma ack_chunk_leaves: "leaves_files s (do_process_file_ack_chunk fe l packet s)"
proof -
  have n: "leaves_files s (send_next_chunk fe cid c s)" for cid c s
    unfolding send_next_chunk_def Let_def by (auto simp: file_ops intro!: leaves_files_with_result)
  have "leaves_files s (ack_chunk fe cid st m k s)" for cid st m k
    unfolding ack_chunk_def Let_def
    by (auto simp: file_ops split: option.split intro: leaves_files_from [OF n])
  then show ?thesis
    unfolding do_process_file_ack_chunk_def by (intro leaves_files_with_result)
qed

lemma accept_data_leaves: "same_files s (snd (accept_data fe sid dt b p op m sz opts s))"
  by (auto simp: accept_data_def same_files_def split: option.split)

lemma accept_data_same: "accept_data fe sid dt b p op m sz opts s = (r, s') \<Longrightarrow> same_files s s'"
  using accept_data_leaves [of s fe sid dt b p op m sz opts] by simp

lemma open_url_leaves: "leaves_files s (process_open_url fe lower prefixes packet s)"
  unfolding process_open_url_def
  by (intro leaves_files_with_result)
    (auto simp: same_files_refl Let_def split: prod.split
       dest!: accept_data_same intro: same_files_trans [OF _ same_files_do] same_files_do)

lemma send_open_url_leaves: "same_files s (snd (send_open_url url sid s))"
  using send_data_request_leaves [of s "ustr ''url''" url "[]" "[]" 0 False True "[]" sid]
  by (auto simp: send_open_url_def file_ops split: prod.split)

section \<open>The invariant\<close>

definition receiving :: "ft \<Rightarrow> pystr \<Rightarrow> receive_chunk_state \<Rightarrow> bool" where
  "receiving s cid c \<longleftrightarrow> map_of (receive_chunks s) cid = Some c \<and> \<not> rc_cancelled c"

text \<open>
  \<open>fs\<close> and \<open>limit\<close>: the files that were there at the start, and the limit on the size of a file.
\<close>

definition transfer_ok :: "file_env \<Rightarrow> (pystr \<Rightarrow> bytes option) \<Rightarrow> int \<Rightarrow> (pystr \<Rightarrow> bytes option) \<Rightarrow> receive_chunk_state \<Rightarrow> bool" where
  "transfer_ok fe fs limit d c \<longleftrightarrow>
     fs (rc_filename c) = None \<and> (\<exists>x. d (rc_filename c) = Some x \<and> int (length x) = rc_written c) \<and>
     rc_written c \<le> rc_filesize c \<and> rc_filesize c \<le> limit"

definition new_file_ok :: "file_env \<Rightarrow> int \<Rightarrow> pystr \<Rightarrow> bytes \<Rightarrow> bool" where
  "new_file_ok fe limit p x \<longleftrightarrow> saved_name fe p \<and> \<not> fe_escapes fe p \<and> int (length x) \<le> limit"

definition file_kept :: "file_env \<Rightarrow> (pystr \<Rightarrow> bytes option) \<Rightarrow> int \<Rightarrow> pystr \<Rightarrow> bytes option \<Rightarrow> bool" where
  "file_kept fe fs limit p v \<longleftrightarrow>
     (case fs p of Some x \<Rightarrow> v = Some x | None \<Rightarrow> (case v of None \<Rightarrow> True | Some x \<Rightarrow> new_file_ok fe limit p x))"

definition files_kept :: "file_env \<Rightarrow> (pystr \<Rightarrow> bytes option) \<Rightarrow> int \<Rightarrow> (pystr \<Rightarrow> bytes option) \<Rightarrow> bool" where
  "files_kept fe fs limit d \<longleftrightarrow> (\<forall>p. file_kept fe fs limit p (d p))"

definition files_ok :: "file_env \<Rightarrow> (pystr \<Rightarrow> bytes option) \<Rightarrow> int \<Rightarrow> ft \<Rightarrow> bool" where
  "files_ok fe fs limit s \<longleftrightarrow>
     file_size_limit s = limit \<and> files_kept fe fs limit (disk s) \<and>
     (\<forall>cid c. receiving s cid c \<longrightarrow> transfer_ok fe fs limit (disk s) c) \<and>
     (\<forall>cid c cid' c'. receiving s cid c \<and> receiving s cid' c' \<and> cid \<noteq> cid' \<longrightarrow> rc_filename c \<noteq> rc_filename c')"

lemma files_okI:
  assumes "file_size_limit s = limit" "files_kept fe fs limit (disk s)"
    "\<And>cid c. receiving s cid c \<Longrightarrow> transfer_ok fe fs limit (disk s) c"
    "\<And>cid c cid' c'. receiving s cid c \<Longrightarrow> receiving s cid' c' \<Longrightarrow> cid \<noteq> cid' \<Longrightarrow> rc_filename c \<noteq> rc_filename c'"
  shows "files_ok fe fs limit s"
  using assms unfolding files_ok_def by blast

lemma receiving_same: "same_files s s' \<Longrightarrow> receiving s' = receiving s"
  by (intro ext) (simp add: receiving_def same_files_def)

lemma files_ok_same: "files_ok fe fs limit s \<Longrightarrow> same_files s s' \<Longrightarrow> files_ok fe fs limit s'"
  using receiving_same [of s s'] by (simp add: files_ok_def same_files_def)

lemma files_ok_leaves: "files_ok fe fs limit s \<Longrightarrow> leaves_files s h \<Longrightarrow> h = Some (s', e) \<Longrightarrow> files_ok fe fs limit s'"
  by (auto simp: leaves_files_def intro: files_ok_same)

lemma files_kept_update: "files_kept fe fs limit d \<Longrightarrow> file_kept fe fs limit p v \<Longrightarrow> files_kept fe fs limit (d(p := v))"
  by (simp add: files_kept_def)

lemma files_kept_unlink: "files_kept fe fs limit d \<Longrightarrow> fs p = None \<Longrightarrow> files_kept fe fs limit (d(p := None))"
  by (rule files_kept_update) (simp_all add: file_kept_def)

lemma files_kept_write:
  "files_kept fe fs limit d \<Longrightarrow> fs p = None \<Longrightarrow> new_file_ok fe limit p x \<Longrightarrow> files_kept fe fs limit (d(p \<mapsto> x))"
  by (rule files_kept_update) (simp_all add: file_kept_def)

lemma files_ok_transfer:
  "files_ok fe fs limit s \<Longrightarrow> receiving s cid c \<Longrightarrow> transfer_ok fe fs limit (disk s) c"
  by (auto simp: files_ok_def)

text \<open>Dropping a transfer, with its file or without, keeps the invariant; so does changing its state.\<close>

lemma files_ok_drop:
  assumes "files_ok fe fs limit s" "map_of (receive_chunks s) cid = Some c"
    "map_of (receive_chunks s') = (map_of (receive_chunks s))(cid := r)" "\<And>c'. r = Some c' \<Longrightarrow> rc_cancelled c'"
    "disk s' = disk s \<or> (receiving s cid c \<and> disk s' = (disk s)(rc_filename c := None))" "file_size_limit s' = file_size_limit s"
  shows "files_ok fe fs limit s'"
proof -
  have r: "receiving s' k x \<longleftrightarrow> receiving s k x \<and> k \<noteq> cid" for k x
    using assms(3,4) by (auto simp: receiving_def)
  have d: "disk s' (rc_filename x) = disk s (rc_filename x)" if "receiving s' k x" for k x
  proof -
    from that r have "receiving s k x" "k \<noteq> cid" by auto
    with assms(1,5) show ?thesis by (auto simp: files_ok_def)
  qed
  have k: "files_kept fe fs limit (disk s)" using assms(1) by (simp add: files_ok_def)
  have "files_kept fe fs limit (disk s')"
    using assms(5)
  proof
    assume "receiving s cid c \<and> disk s' = (disk s)(rc_filename c := None)"
    with files_kept_unlink [OF k] files_ok_transfer [OF assms(1), of cid c] show ?thesis
      by (simp add: transfer_ok_def)
  qed (use k in simp)
  with assms(1,6) r d show ?thesis
    by (auto simp: files_ok_def transfer_ok_def)
qed

lemma cancel_file_ok:
  assumes "files_ok fe fs limit s"
  shows "files_ok fe fs limit (cancel_file cid m n s)"
proof (cases "map_of (receive_chunks s) cid")
  case None
  then show ?thesis using assms by (simp add: cancel_file_def files_ok_same [OF _ same_files_do])
next
  case (Some c)
  show ?thesis
  proof (cases "rc_cancelled c")
    case True
    with Some assms show ?thesis by (simp add: cancel_file_def files_ok_same [OF _ same_files_do])
  next
    case False
    let ?c = "c\<lparr>rc_cancelled := True, rc_timer := False\<rparr>"
    have u: "map_of (receive_chunks (cancel_file cid m n s)) = (map_of (receive_chunks s))(cid := Some ?c)"
      using Some False by (simp add: cancel_file_def Let_def file_do_def receive_progress_error_def set_receive_def
          os_unlink_def close_fd_def update_conv')
    show ?thesis
      by (rule files_ok_drop [OF assms Some u])
        (use Some False in \<open>simp_all add: receiving_def cancel_file_def Let_def file_do_def receive_progress_error_def
           set_receive_def os_unlink_def close_fd_def\<close>)
  qed
qed

lemma write_file_data_content:
  "write_file_data w content view = (c, ok) \<Longrightarrow>
     (\<exists>k. c = content @ take k view) \<and> (ok \<longrightarrow> c = content @ view)"
proof (induction w content view arbitrary: c ok rule: write_file_data.induct)
  case (1 w content view)
  show ?case
  proof (cases "view = [] \<or> w content view = None \<or> w content view = Some 0")
    case True
    with "1.prems" show ?thesis
      by (auto simp: write_file_data.simps [of w content view] split: if_splits intro: exI [of _ 0])
  next
    case False
    then obtain n where n: "w content view = Some n" "n \<noteq> 0" "view \<noteq> []" by auto
    with "1.prems" have r: "write_file_data w (content @ take n view) (drop n view) = (c, ok)"
      by (simp add: write_file_data.simps [of w content view])
    from "1.IH" [OF n(3,1,2) r] obtain k where k: "c = (content @ take n view) @ take k (drop n view)"
      "ok \<longrightarrow> c = (content @ take n view) @ drop n view" by blast
    have "take n view @ take k (drop n view) = take (n + k) view" by (simp add: take_add)
    with k show ?thesis by (auto intro!: exI [of _ "n + k"])
  qed
qed

lemma write_to_result:
  assumes "write_to fe p data s = (ok, s')" "disk s p = Some x"
  shows "\<exists>y. s' = s\<lparr>disk := (disk s)(p \<mapsto> y)\<rparr> \<and> (ok \<longrightarrow> y = x @ data)"
proof -
  obtain y k where w: "write_file_data (fe_os_write fe) x data = (y, k)" by fastforce
  with assms have "ok = k" "s' = s\<lparr>disk := (disk s)(p \<mapsto> y)\<rparr>"
    by (auto simp: write_to_def)
  with write_file_data_content [OF w] show ?thesis by blast
qed

text \<open>\<open>follows\<close>: \<open>s'\<close> is \<open>s\<close> in which the transfer's own file and state have changed.\<close>

definition follows :: "ft \<Rightarrow> pystr \<Rightarrow> receive_chunk_state \<Rightarrow> ft \<Rightarrow> receive_chunk_state \<Rightarrow> bytes \<Rightarrow> bool" where
  "follows s cid c s' c' x \<longleftrightarrow>
     map_of (receive_chunks s') = (map_of (receive_chunks s))(cid \<mapsto> c') \<and> disk s' = (disk s)(rc_filename c \<mapsto> x) \<and>
     file_size_limit s' = file_size_limit s \<and> rc_filename c' = rc_filename c \<and> rc_filesize c' = rc_filesize c \<and>
     \<not> rc_cancelled c'"

lemma cancel_follows:
  assumes "files_ok fe fs limit s" "receiving s cid c" "follows s cid c s' c' x"
  shows "files_ok fe fs limit (cancel_file cid m n s')"
proof -
  let ?c = "c'\<lparr>rc_cancelled := True, rc_timer := False\<rparr>"
  have m: "map_of (receive_chunks s) cid = Some c" using assms(2) by (simp add: receiving_def)
  have u: "map_of (receive_chunks (cancel_file cid m n s')) = (map_of (receive_chunks s))(cid := Some ?c)"
    using assms(3) by (simp add: follows_def cancel_file_def Let_def file_do_def receive_progress_error_def set_receive_def
        os_unlink_def close_fd_def update_conv')
  show ?thesis
    by (rule files_ok_drop [OF assms(1) m u])
      (use assms(2,3) in \<open>simp_all add: follows_def cancel_file_def Let_def file_do_def receive_progress_error_def
         set_receive_def os_unlink_def close_fd_def\<close>)
qed

lemma files_ok_follows:
  assumes "files_ok fe fs limit s" "receiving s cid c" "follows s cid c s' c' x"
    "int (length x) = rc_written c'" "rc_written c' \<le> rc_filesize c'"
  shows "files_ok fe fs limit s'"
proof -
  note t = files_ok_transfer [OF assms(1,2)]
  have r: "receiving s' k y \<longleftrightarrow> (if k = cid then y = c' else receiving s k y)" for k y
    using assms(3) by (auto simp: receiving_def follows_def)
  have k: "files_kept fe fs limit (disk s)" using assms(1) by (simp add: files_ok_def)
  then have "file_kept fe fs limit (rc_filename c) (disk s (rc_filename c))" by (simp add: files_kept_def)
  with t assms(3-5) have "new_file_ok fe limit (rc_filename c) x"
    by (auto simp: transfer_ok_def file_kept_def new_file_ok_def follows_def)
  with files_kept_write [OF k] t assms(3) have fk: "files_kept fe fs limit (disk s')"
    by (simp add: transfer_ok_def follows_def)
  have n: "rc_filename y \<noteq> rc_filename c" if "receiving s k y" "k \<noteq> cid" for k y
    using assms(1,2) that by (auto simp: files_ok_def)
  have "transfer_ok fe fs limit (disk s') y" if "receiving s' k y" for k y
  proof (cases "k = cid")
    case True
    with that r t assms(3-5) show ?thesis by (auto simp: transfer_ok_def follows_def)
  next
    case False
    with that r have s: "receiving s k y" by simp
    with n [OF s False] files_ok_transfer [OF assms(1) s] assms(3) show ?thesis
      by (auto simp: transfer_ok_def follows_def)
  qed
  moreover have "rc_filename y \<noteq> rc_filename y'" if "receiving s' k y" "receiving s' k' y'" "k \<noteq> k'" for k y k' y'
  proof -
    have "rc_filename c' = rc_filename c" using assms(3) by (simp add: follows_def)
    with that n [of k y] n [of k' y'] assms(1) show ?thesis unfolding r by (auto simp: files_ok_def split: if_splits)
  qed
  ultimately show ?thesis
    using assms(1,3) fk by (auto simp: files_ok_def follows_def)
qed

definition keeps_ok :: "file_env \<Rightarrow> (pystr \<Rightarrow> bytes option) \<Rightarrow> int \<Rightarrow> handled \<Rightarrow> bool" where
  "keeps_ok fe fs limit h \<longleftrightarrow> (\<forall>s' e. h = Some (s', e) \<longrightarrow> files_ok fe fs limit s')"

lemma keeps_ok_simps [simp]:
  "keeps_ok fe fs limit (done_with s) \<longleftrightarrow> files_ok fe fs limit s"
  "keeps_ok fe fs limit (Some (s, e)) \<longleftrightarrow> files_ok fe fs limit s"
  by (auto simp: keeps_ok_def done_with_def)

lemma keeps_ok_with_result:
  "files_ok fe fs limit s \<Longrightarrow> (\<And>x. r = Inr x \<Longrightarrow> keeps_ok fe fs limit (f x)) \<Longrightarrow> keeps_ok fe fs limit (with_result r s f)"
  by (cases r) simp_all

lemma keeps_ok_leaves: "leaves_files s h \<Longrightarrow> files_ok fe fs limit s \<Longrightarrow> keeps_ok fe fs limit h"
  by (auto simp: keeps_ok_def intro: files_ok_leaves)

lemma chunk_complete_ok:
  assumes "files_ok fe fs limit s" "receiving s cid c"
  shows "keeps_ok fe fs limit (chunk_complete fe cid n c s)"
proof -
  let ?s = "file_do (Progress False (rc_send_id c) (rc_written c) (rc_filesize c) [])
    (close_fd (rc_fd c) (s\<lparr>receive_chunks := AList.delete cid (receive_chunks s)\<rparr>))"
  have m: "map_of (receive_chunks s) cid = Some c" using assms(2) by (simp add: receiving_def)
  have "files_ok fe fs limit ?s"
    by (rule files_ok_drop [OF assms(1) m, of _ None]) (simp_all add: file_do_def close_fd_def delete_conv')
  from keeps_ok_leaves [OF process_downloaded_leaves this] assms(1) show ?thesis
    unfolding chunk_complete_def Let_def
    by (intro keeps_ok_with_result) (auto intro: cancel_file_ok)
qed

lemma receive_chunk_ok:
  assumes "files_ok fe fs limit s"
  shows "keeps_ok fe fs limit (receive_chunk fe cid n data has_more s)"
proof (cases "map_of (receive_chunks s) cid")
  case None
  with assms show ?thesis by (simp add: receive_chunk_def cancel_file_ok)
next
  case (Some c)
  show ?thesis
  proof (cases "rc_cancelled c \<or> rc_chunk c + 1 \<noteq> n \<or> data = []")
    case True
    with assms Some show ?thesis by (auto simp: receive_chunk_def cancel_file_ok)
  next
    case False
    then have rec: "receiving s cid c" using Some by (simp add: receiving_def)
    obtain x where x: "disk s (rc_filename c) = Some x" "int (length x) = rc_written c"
      using files_ok_transfer [OF assms rec] by (auto simp: transfer_ok_def)
    obtain ok s1 where w: "write_to fe (rc_filename c) data s = (ok, s1)" by fastforce
    from write_to_result [OF w x(1)] obtain y where
      y: "s1 = s\<lparr>disk := (disk s)(rc_filename c \<mapsto> y)\<rparr>" "ok \<longrightarrow> y = x @ data" by blast
    let ?c = "c\<lparr>rc_chunk := n\<rparr>"
    let ?d = "?c\<lparr>rc_hashed := digest_update c data,
      rc_written := rc_written c + int (length data)\<rparr>"
    have f: "follows s cid c (set_receive cid e s1) e y"
      if "rc_filename e = rc_filename c" "rc_filesize e = rc_filesize c" "\<not> rc_cancelled e" for e
      using that by (simp add: follows_def set_receive_def y(1) update_conv')
    have fc: "follows s cid c (set_receive cid ?c s1) ?c y" and fd: "follows s cid c (set_receive cid ?d s1) ?d y"
      using False by (auto intro: f)
    let ?s = "file_do (SendAckChunk cid True (PStr []) n) (set_receive cid ?d s1)"
    show ?thesis
    proof (cases "ok \<and> rc_written ?d \<le> rc_filesize c")
      case True
      then have "int (length y) = rc_written ?d" using x(2) y(2) by simp
      from files_ok_follows [OF assms rec fd this] True have "files_ok fe fs limit (set_receive cid ?d s1)" by simp
      then have s: "files_ok fe fs limit ?s" by (rule files_ok_same [OF _ same_files_do])
      have rs: "receiving ?s cid ?d"
        using False by (simp add: receiving_def file_do_def set_receive_def update_conv')
      have "follows s cid c (set_receive cid (?d\<lparr>rc_timer := True\<rparr>) (file_do a ?s)) (?d\<lparr>rc_timer := True\<rparr>) y" for a
        using False by (simp add: follows_def set_receive_def file_do_def update_conv' y(1))
      from files_ok_follows [OF assms rec this] True x(2) y(2)
      have t: "files_ok fe fs limit (set_receive cid (?d\<lparr>rc_timer := True\<rparr>) (file_do a ?s))" for a by simp
      let ?cond = "has_more \<and> rc_written ?d = rc_filesize c"
      let ?p = "Progress False (rc_send_id c) (rc_written ?d) (rc_filesize c) []"
      have e: "receive_chunk fe cid n data has_more s =
          (if ?cond then done_with (cancel_file cid ''more chunks requested'' n (set_receive cid ?d s1))
           else if has_more then done_with (set_receive cid (?d\<lparr>rc_timer := True\<rparr>) (file_do ?p ?s))
           else chunk_complete fe cid n ?d ?s)"
        using True False Some w by (simp add: receive_chunk_def Let_def)
      show ?thesis
      proof (cases ?cond)
        case True
        show ?thesis unfolding e if_P [OF True] keeps_ok_simps by (rule cancel_follows [OF assms rec fd])
      next
        case c: False
        show ?thesis unfolding e if_not_P [OF c] by (cases has_more) (simp_all only: if_True if_False keeps_ok_simps t chunk_complete_ok [OF s rs])
      qed
    next
      case o: False
      with cancel_follows [OF assms rec fd] cancel_follows [OF assms rec fc] False Some w show ?thesis
        by (cases ok) (simp_all add: receive_chunk_def Let_def)
    qed
  qed
qed

text \<open>\<open>saved\<close>: \<open>s'\<close> is \<open>s\<close> with a new file, or without it again.\<close>

lemma files_ok_saved:
  assumes "files_ok fe fs limit s" "saved_name fe f" "\<not> fe_escapes fe f" "disk s f = None"
    "disk s' = (disk s)(f := v)" "\<And>x. v = Some x \<Longrightarrow> int (length x) \<le> limit"
    "receive_chunks s' = receive_chunks s" "file_size_limit s' = file_size_limit s"
  shows "files_ok fe fs limit s'"
proof -
  have k: "files_kept fe fs limit (disk s)" using assms(1) by (simp add: files_ok_def)
  then have "file_kept fe fs limit f (disk s f)" by (simp add: files_kept_def)
  with assms(2-6) have "file_kept fe fs limit f v"
    by (cases v) (auto simp: file_kept_def new_file_ok_def split: option.splits)
  with files_kept_update [OF k] assms(5) have "files_kept fe fs limit (disk s')" by simp
  moreover have r: "receiving s' = receiving s" using assms(7) by (intro ext) (simp add: receiving_def)
  moreover have "transfer_ok fe fs limit (disk s') c" if "receiving s cid c" for cid c
    using files_ok_transfer [OF assms(1) that] assms(4,5) by (auto simp: transfer_ok_def)
  ultimately show ?thesis using assms(1,8) by (simp add: files_ok_def)
qed

lemma send_error_parts:
  assumes "cid = [] \<or> map_of (receive_chunks s) cid = None"
  shows "disk (send_error cid f fd sid sz m s) = (disk s)(f := None)"
    "receive_chunks (send_error cid f fd sid sz m s) = receive_chunks s"
    "file_size_limit (send_error cid f fd sid sz m s) = file_size_limit s"
  using assms by (auto simp: send_error_def send_cancel_def cancel_file_def Let_def file_do_def os_unlink_def close_fd_def)

lemma receive_whole_ok:
  assumes "files_ok fe fs limit s" "saved_name fe f" "\<not> fe_escapes fe f" "disk s f = None" "0 < sz" "sz \<le> limit"
  shows "keeps_ok fe fs limit (receive_whole_file fe f fd m p op sz data opts sid dg (s\<lparr>file_descriptors := fds, disk := (disk s)(f \<mapsto> [])\<rparr>))"
proof -
  let ?s = "s\<lparr>file_descriptors := fds, disk := (disk s)(f \<mapsto> [])\<rparr>"
  note saved = files_ok_saved [OF assms(1-4)]
  have b: "files_ok fe fs limit ?s"
    by (rule saved [where v = "Some []"]) (use assms(5,6) in auto)
  obtain ok s1 where w: "write_to fe f data ?s = (ok, s1)" by fastforce
  from write_to_result [OF w, of "[]"] obtain y where
    y: "s1 = ?s\<lparr>disk := (disk s)(f \<mapsto> y)\<rparr>" "ok \<longrightarrow> y = data" by auto
  have fail: "files_ok fe fs limit (send_error [] f fd sid z msg s')"
    if "(disk s')(f := None) = (disk s)(f := None)" "receive_chunks s' = receive_chunks s" "file_size_limit s' = file_size_limit s"
    for s' msg z
    by (rule saved [where v = None]) (use that in \<open>simp_all add: send_error_parts\<close>)
  have good: "files_ok fe fs limit (file_do a (close_fd fd (s\<lparr>file_descriptors := fds, disk := (disk s)(f \<mapsto> y)\<rparr>)))" if "ok" "int (length data) = sz" for a
    by (rule saved [where v = "Some y"]) (use y that assms(6) in \<open>auto simp: file_do_def close_fd_def\<close>)
  show ?thesis
    unfolding receive_whole_file_def Let_def w
    by (auto intro!: fail keeps_ok_with_result
        keeps_ok_leaves [OF process_downloaded_leaves] good b simp: y(1))
qed

lemma send_cancel_ok: "files_ok fe fs limit s \<Longrightarrow> files_ok fe fs limit (send_cancel cid m s)"
  by (simp add: send_cancel_def cancel_file_ok)

lemma receive_file_data_ok:
  assumes "files_ok fe fs limit s" "saved_name fe f" "\<not> fe_escapes fe f" "disk s f = None" "0 < sz" "sz \<le> limit"
    "cid = [] \<or> map_of (receive_chunks s) cid = None"
  shows "keeps_ok fe fs limit (receive_file_data fe f fd m p op sz data opts sid cid
    (s\<lparr>file_descriptors := fds, disk := (disk s)(f \<mapsto> [])\<rparr>))"
proof -
  let ?s = "s\<lparr>file_descriptors := fds, disk := (disk s)(f \<mapsto> [])\<rparr>"
  note saved = files_ok_saved [OF assms(1-4)]
  have b: "files_ok fe fs limit ?s"
    by (rule saved [where v = "Some []"]) (use assms(5,6) in auto)
  have e: "files_ok fe fs limit (send_error cid f fd sid sz msg ?s)" for msg
    by (rule saved [where v = None]) (use assms(7) in \<open>simp_all add: send_error_parts\<close>)
  have fresh: "disk s (rc_filename c) \<noteq> None" if "receiving s k c" for k c
    using files_ok_transfer [OF assms(1) that] by (auto simp: transfer_ok_def)
  have "file_kept fe fs limit f (disk s f)" using assms(1) by (simp add: files_ok_def files_kept_def)
  then have fsf: "fs f = None" using assms(4) by (simp add: file_kept_def split: option.splits)
  have n: "files_ok fe fs limit (file_do a (set_receive cid c ?s))"
    if "map_of (receive_chunks s) cid = None" "rc_filename c = f" "rc_written c = 0" "rc_filesize c = sz" for a c
  proof -
    have r: "receiving (file_do a (set_receive cid c ?s)) k y \<longleftrightarrow>
        (if k = cid then y = c \<and> \<not> rc_cancelled c else receiving s k y)" for k y
      by (auto simp: receiving_def file_do_def set_receive_def update_conv')
    have d: "disk (file_do a (set_receive cid c ?s)) = disk ?s"
      and l: "file_size_limit (file_do a (set_receive cid c ?s)) = file_size_limit s"
      by (simp_all add: file_do_def set_receive_def)
    have "transfer_ok fe fs limit (disk ?s) y" if "if k = cid then y = c \<and> \<not> rc_cancelled c else receiving s k y" for k y
    proof (cases "k = cid")
      case True
      with that \<open>rc_filename c = f\<close> \<open>rc_written c = 0\<close> \<open>rc_filesize c = sz\<close> fsf assms(5,6)
      show ?thesis by (simp add: transfer_ok_def)
    next
      case False
      with that have s: "receiving s k y" by simp
      have "rc_filename y \<noteq> f" using fresh [OF s] assms(4) by auto
      with files_ok_transfer [OF assms(1) s] show ?thesis by (auto simp: transfer_ok_def)
    qed
    moreover have "rc_filename y \<noteq> rc_filename y'"
      if "if k = cid then y = c \<and> \<not> rc_cancelled c else receiving s k y"
        "if k' = cid then y' = c \<and> \<not> rc_cancelled c else receiving s k' y'" "k \<noteq> k'" for k y k' y'
      using that fresh [of k y] fresh [of k' y'] assms(1,4) \<open>rc_filename c = f\<close>
      by (auto simp: files_ok_def split: if_splits)
    moreover have "file_size_limit s = limit" "files_kept fe fs limit (disk ?s)"
      using b by (simp_all add: files_ok_def)
    ultimately show ?thesis by (intro files_okI) (simp_all only: r d l)
  qed
  show ?thesis
    unfolding receive_file_data_def
    using e b n assms(7) receive_whole_ok [OF assms(1-6)]
    by (intro keeps_ok_with_result) auto
qed

lemma receive_file_ok:
  assumes "files_ok fe fs limit s" "fe_download_dir fe \<noteq> []"
  shows "keeps_ok fe fs limit (receive_file fe b m p op sz data opts sid cid s)"
proof -
  obtain r s1 where a: "accept_data fe sid (ustr ''file'') b p op m sz opts s = (r, s1)" by fastforce
  obtain acc p1 op1 where r: "r = (acc, p1, op1)" by (cases r) auto
  note same = accept_data_same [OF a]
  have s1: "files_ok fe fs limit s1" using assms(1) same by (rule files_ok_same)
  have l: "file_size_limit s = limit" using assms(1) by (simp add: files_ok_def)
  have opened: "keeps_ok fe fs limit
      (case safe_open_download_file fe b m s1 of None \<Rightarrow> None
       | Some (Inl e) \<Rightarrow> done_with (send_cancel cid msg s1)
       | Some (Inr (f, fd)) \<Rightarrow> receive_file_data fe f fd m p1 op1 sz data opts sid cid
           (s1\<lparr>file_descriptors := file_descriptors s1 @ [fd], disk := (disk s1)(f \<mapsto> [])\<rparr>))"
    if c: "0 < sz" "sz \<le> limit" "cid = [] \<or> map_of (receive_chunks s) cid = None" for msg
  proof (cases "safe_open_download_file fe b m s1")
    case None
    then show ?thesis by (simp add: keeps_ok_def)
  next
    case (Some r)
    show ?thesis
    proof (cases r)
      case (Inl e)
      with Some s1 show ?thesis by (simp add: send_cancel_ok)
    next
      case (Inr x)
      obtain f fd where x: "x = (f, fd)" by (cases x)
      note o = safe_open_result [OF Some [unfolded Inr x] assms(2)]
      have "cid = [] \<or> map_of (receive_chunks s1) cid = None" using c(3) same by (simp add: same_files_def)
      from receive_file_data_ok [OF s1 o(1,3,2) c(1,2) this] Some Inr x show ?thesis by simp
    qed
  qed
  show ?thesis
    using opened assms(1) s1 files_ok_same [OF assms(1) same_files_do]
    by (auto simp: receive_file_def a r send_cancel_ok l)
qed

lemma file_send_ok:
  assumes "files_ok fe fs limit s" "fe_download_dir fe \<noteq> []"
  shows "keeps_ok fe fs limit (do_process_file_send fe packet s)"
  unfolding do_process_file_send_def
  by (intro keeps_ok_with_result assms(1) receive_file_ok [OF assms])

lemma send_chunk_ok:
  "files_ok fe fs limit s \<Longrightarrow> keeps_ok fe fs limit (do_process_file_send_chunk fe packet s)"
  unfolding do_process_file_send_chunk_def
  by (intro keeps_ok_with_result receive_chunk_ok)

lemma chunk_timer_ok:
  assumes "files_ok fe fs limit s"
  shows "files_ok fe fs limit (check_chunk_receiving cid n s)"
proof (cases "map_of (receive_chunks s) cid")
  case (Some c)
  show ?thesis
  proof (cases "rc_cancelled c \<or> rc_chunk c \<noteq> n")
    case False
    then have r: "receiving s cid c" using Some by (simp add: receiving_def)
    obtain x where x: "disk s (rc_filename c) = Some x"
      using files_ok_transfer [OF assms r] by (auto simp: transfer_ok_def)
    have "follows s cid c (set_receive cid (c\<lparr>rc_timer := False\<rparr>) s) (c\<lparr>rc_timer := False\<rparr>) x"
      using False x by (simp add: follows_def set_receive_def update_conv' fun_upd_idem)
    from cancel_follows [OF assms r this] False Some show ?thesis by (simp add: check_chunk_receiving_def)
  qed (use Some assms in \<open>auto simp: check_chunk_receiving_def\<close>)
qed (use assms in \<open>simp add: check_chunk_receiving_def\<close>)

lemma clean_receive_ok:
  assumes "files_ok fe fs limit s"
  shows "files_ok fe fs limit (clean_receive_state cid s)"
proof (cases "map_of (receive_chunks s) cid")
  case None
  then have "map_of (receive_chunks (clean_receive_state cid s)) = map_of (receive_chunks s)"
    by (auto simp: clean_receive_state_def delete_conv')
  then have "receiving (clean_receive_state cid s) = receiving s" by (intro ext) (simp add: receiving_def)
  with assms show ?thesis by (simp add: files_ok_def clean_receive_state_def)
next
  case (Some c)
  show ?thesis
    by (rule files_ok_drop [OF assms Some, of _ None]) (simp_all add: clean_receive_state_def delete_conv')
qed

lemma cancel_download_ok: "files_ok fe fs limit s \<Longrightarrow> files_ok fe fs limit (cancel_download sid m s)"
  by (auto simp: cancel_download_def cancel_file_ok split: list.split)

lemma file_step_ok:
  assumes "file_step fe s s'" "files_ok fe fs limit s" "fe_download_dir fe \<noteq> []"
  shows "files_ok fe fs limit s'"
  using assms(1)
proof cases
  case (got_file packet e)
  with file_send_ok [OF assms(2,3), of packet] show ?thesis by simp
next
  case (got_chunk packet e)
  with send_chunk_ok [OF assms(2), of packet] show ?thesis by simp
next
  case (got_request prompt packet e)
  with files_ok_leaves [OF assms(2) data_request_leaves] show ?thesis by blast
next
  case (got_response cid packet e)
  with files_ok_leaves [OF assms(2) data_response_leaves] show ?thesis by blast
next
  case (got_ack l packet e)
  with files_ok_leaves [OF assms(2) ack_chunk_leaves] show ?thesis by blast
next
  case (got_url lower prefixes packet e)
  with files_ok_leaves [OF assms(2) open_url_leaves] show ?thesis by blast
next
  case (user_sends filename mimetype data n printit openit options send_id cid e)
  with files_ok_leaves [OF assms(2) send_file_leaves] show ?thesis by blast
qed (use assms(2) in \<open>auto simp: chunk_timer_ok clean_receive_ok cancel_download_ok file_ops check_chunk_sending_def
       send_data_ask_timeout_def send_request_file_def do_process_downloaded_file_def Let_def split: option.split
       intro!: files_ok_same [OF assms(2)] send_open_url_leaves\<close>)

lemma files_ok_start:
  assumes "receive_chunks s = []"
  shows "files_ok fe (disk s) (file_size_limit s) s"
  by (rule files_okI) (simp_all add: receiving_def assms files_kept_def file_kept_def split: option.split)

lemma files_ok_reached:
  "(file_step fe)\<^sup>*\<^sup>* s s' \<Longrightarrow> receive_chunks s = [] \<Longrightarrow> fe_download_dir fe \<noteq> [] \<Longrightarrow>
     files_ok fe (disk s) (file_size_limit s) s'"
  by (induction rule: rtranclp_induct) (auto intro: files_ok_start file_step_ok)


section \<open>A concrete environment\<close>

definition plain_env :: file_env where
  "plain_env = \<lparr>fe_str = (\<lambda>_. []), fe_text_int = (\<lambda>_. Inl ValueError), fe_utf8 = (\<lambda>t. Inr (map word_of_int t)),
     fe_unutf8 = (\<lambda>b. Inr (map uint b)), fe_fnmatch = (\<lambda>_ _. False),
     fe_hexdigest = (\<lambda>h b. ustr h @ map uint b),
     fe_download_dir = ustr ''/d'', fe_escapes = (\<lambda>_. False), fe_cannot_create = (\<lambda>_. False),
     fe_open_fd = (\<lambda>fds. int (length fds) + 3), fe_os_write = (\<lambda>_ view. Some (min 3 (length view))),
     fe_wrap = (\<lambda>b. Inr (PBytes b))\<rparr>"

definition plain_ft :: ft where
  "plain_ft = init_attributes (False, True) 100 (False, True) (False, True) (False, True) 4 True
     [ustr ''/d/a'' \<mapsto> [1, 2]]"

definition small_file :: packet where
  "small_file = [pstr ''file-send'', pstr ''../a'', pstr '''', PBool False, PBool False, PInt 5, PBytes [5, 6, 7, 8, 9],
     PDict [], pstr ''id'']"

lemma small_file_saved:
  "(case do_process_file_send plain_env small_file plain_ft of
      Some (s, e) \<Rightarrow> (disk s (ustr ''/d/a''), disk s (ustr ''/d/a-1''), e) | None \<Rightarrow> (None, None, None))
   = (Some [1, 2], Some [5, 6, 7, 8, 9], None)"
  by code_simp


end
