(* ===== verification/Runs.thy ===== *)
theory Runs
  imports Main
begin

text \<open>
  An interface for protocols whose runs are determined and get ahead: a step relation, the stages its
  states go through, and how much each stage has left to do.
\<close>

locale guided_run =
  fixes step :: "'k \<Rightarrow> 'k \<Rightarrow> bool" and at :: "'st \<Rightarrow> 'k \<Rightarrow> bool" and left :: "'st \<Rightarrow> nat" and final :: "'st \<Rightarrow> bool"
  assumes moves: "at st k \<Longrightarrow> \<not> final st \<Longrightarrow>
      \<exists>k' st'. step k k' \<and> at st' k' \<and> left st' < left st \<and> (\<forall>k''. step k k'' \<longrightarrow> k'' = k')"
    and ends: "at st k \<Longrightarrow> final st \<Longrightarrow> \<not> step k k'"
begin

lemma step_ahead: "at st k \<Longrightarrow> step k k' \<Longrightarrow> \<exists>st'. at st' k' \<and> left st' < left st"
  using moves ends by metis

lemma run_bounded: "(step ^^ n) k k' \<Longrightarrow> at st k \<Longrightarrow> \<exists>st'. at st' k' \<and> n + left st' \<le> left st"
proof (induction n arbitrary: k')
  case (Suc n)
  from Suc.prems(1) obtain k1 where r: "(step ^^ n) k k1" "step k1 k'" by auto
  from Suc.IH [OF r(1) Suc.prems(2)] obtain st1 where "at st1 k1" "n + left st1 \<le> left st" by blast
  with step_ahead [OF _ r(2)] show ?case by (metis add_Suc less_le_trans nat_add_left_cancel_less Suc_leI)
qed auto

lemma run_length: "(step ^^ n) k k' \<Longrightarrow> at st k \<Longrightarrow> n \<le> left st"
  using run_bounded by (meson add_leD1)

lemma run_ends_final:
  assumes "step\<^sup>*\<^sup>* k k'" "at st k" "\<And>k''. \<not> step k' k''"
  shows "\<exists>st'. at st' k' \<and> final st'"
proof -
  obtain n where "(step ^^ n) k k'" using assms(1) by (auto simp: rtranclp_power)
  with run_bounded assms(2) obtain st' where "at st' k'" by blast
  with moves assms(3) show ?thesis by metis
qed

end

end
