(* ===== verification/FileDelivery.thy ===== *)
theory FileDelivery
  imports FileSafety Runs
begin

text \<open>
  A file sent in chunks, from one \<^verbatim>\<open>FileTransferHandler\<close> to another: both ends and the packets between
  them. What is delivered, and two things that go wrong around it.
\<close>

section \<open>Two ends\<close>

text \<open>The packets that \<^verbatim>\<open>send\<close> is called with, as the other end reads them.\<close>

definition packet_of :: "file_action \<Rightarrow> packet option" where
  "packet_of a =
     (case a of
        SendAckChunk cid ok m n \<Rightarrow> Some [pstr ''file-ack-chunk'', PStr cid, PBool ok, m, PInt n]
      | SendFile name mimetype printit openit sz d options sid \<Rightarrow>
          Some [pstr ''file-send'', PStr name, PStr mimetype, PBool printit, PBool openit, PInt sz, d, PDict options, PStr sid]
      | SendChunk cid n d has_more \<Rightarrow> Some [pstr ''file-send-chunk'', PStr cid, PInt n, d, PBool has_more]
      | _ \<Rightarrow> None)"

text \<open>Running a handler: the packets that it sends, and the state that it leaves.\<close>

definition packets :: "ft \<Rightarrow> packet list" where
  "packets s = List.map_filter packet_of (ft_out s)"

definition run :: "(ft \<Rightarrow> handled) \<Rightarrow> ft \<Rightarrow> (packet list \<times> ft) option" where
  "run h s =
     (case h (s\<lparr>ft_out := []\<rparr>) of
        Some (s', None) \<Rightarrow> Some (packets s', s')
      | _ \<Rightarrow> None)"

record link =
  sender :: ft
  receiver :: ft
  to_receiver :: "packet list"
  to_sender :: "packet list"

text \<open>A packet arrives at one end or the other.\<close>

inductive link_step :: "file_env \<Rightarrow> file_env \<Rightarrow> (pystr \<Rightarrow> string) \<Rightarrow> link \<Rightarrow> link \<Rightarrow> bool" for fs fr l where
  file_arrives:
    "to_receiver k = p # ps \<Longrightarrow> hd p = pstr ''file-send'' \<Longrightarrow>
     run (do_process_file_send fr p) (receiver k) = Some (out, r) \<Longrightarrow>
     link_step fs fr l k (k\<lparr>receiver := r, to_receiver := ps, to_sender := to_sender k @ out\<rparr>)"
| chunk_arrives:
    "to_receiver k = p # ps \<Longrightarrow> hd p = pstr ''file-send-chunk'' \<Longrightarrow>
     run (do_process_file_send_chunk fr p) (receiver k) = Some (out, r) \<Longrightarrow>
     link_step fs fr l k (k\<lparr>receiver := r, to_receiver := ps, to_sender := to_sender k @ out\<rparr>)"
| ack_arrives:
    "to_sender k = p # ps \<Longrightarrow> hd p = pstr ''file-ack-chunk'' \<Longrightarrow>
     run (do_process_file_ack_chunk fs l p) (sender k) = Some (out, s) \<Longrightarrow>
     link_step fs fr l k (k\<lparr>sender := s, to_sender := ps, to_receiver := to_receiver k @ out\<rparr>)"

section \<open>The stages of a transfer\<close>

text \<open>
  \<open>n\<close> chunks have been written: the receiver waits for the next one, with the data so far on disk;
  the sender holds what is left.
\<close>

record transfer =
  tr_cid :: pystr
  tr_data :: bytes
  tr_size :: nat
  tr_file :: pystr
  tr_fd :: int

definition sent :: "transfer \<Rightarrow> nat \<Rightarrow> bytes" where
  "sent t n = take (n * tr_size t) (tr_data t)"

definition waiting :: "transfer \<Rightarrow> nat \<Rightarrow> ft \<Rightarrow> bool" where
  "waiting t n r \<longleftrightarrow> (\<exists>c. map_of (receive_chunks r) (tr_cid t) = Some c \<and> \<not> rc_cancelled c \<and> rc_chunk c = int n \<and>
     rc_filesize c = int (length (tr_data t)) \<and> rc_filename c = tr_file t \<and> rc_fd c = tr_fd t \<and>
     rc_written c = int (length (sent t n)) \<and> disk r (tr_file t) = Some (sent t n) \<and>
     n * tr_size t < length (tr_data t))"

definition digests :: "file_env \<Rightarrow> transfer \<Rightarrow> nat \<Rightarrow> ft \<Rightarrow> bool" where
  "digests fr t n r \<longleftrightarrow> (\<forall>c. map_of (receive_chunks r) (tr_cid t) = Some c \<longrightarrow>
     rc_hashed c = (if rc_digest c = None then [] else sent t n) \<and>
     digest_ok fr (rc_digest c) (tr_data t) (rc_options c) = Inr True)"

definition holding :: "transfer \<Rightarrow> nat \<Rightarrow> ft \<Rightarrow> bool" where
  "holding t n s \<longleftrightarrow> (\<exists>c. map_of (send_chunks s) (tr_cid t) = Some c \<and> sd_chunk c = int n \<and>
     sd_chunk_size c = tr_size t \<and> sd_data c = drop (n * tr_size t) (tr_data t))"

definition stored :: "transfer \<Rightarrow> ft \<Rightarrow> bool" where
  "stored t r \<longleftrightarrow> map_of (receive_chunks r) (tr_cid t) = None \<and> tr_fd t \<notin> set (file_descriptors r) \<and>
     disk r (tr_file t) = Some (tr_data t)"

definition ack :: "transfer \<Rightarrow> nat \<Rightarrow> pval \<Rightarrow> packet" where
  "ack t n m = [pstr ''file-ack-chunk'', PStr (tr_cid t), PBool True, m, PInt (int n)]"

definition chunk_packet :: "transfer \<Rightarrow> nat \<Rightarrow> packet" where
  "chunk_packet t n = [pstr ''file-send-chunk'', PStr (tr_cid t), PInt (int n + 1),
     PBytes (take (tr_size t) (drop (n * tr_size t) (tr_data t))), PBool (drop (Suc n * tr_size t) (tr_data t) \<noteq> [])]"

text \<open>The empty message of an acknowledgement.\<close>

definition empty_text :: "pval \<Rightarrow> bool" where
  "empty_text m \<longleftrightarrow> m = PStr [] \<or> m = PBytes []"

datatype stage = Announced | Acked nat | Chunk nat | LastAck | Finished

fun at_stage :: "file_env \<Rightarrow> transfer \<Rightarrow> stage \<Rightarrow> link \<Rightarrow> bool" where
  "at_stage fr t Announced k \<longleftrightarrow> holding t 0 (sender k) \<and> to_sender k = [] \<and>
     (\<exists>p r m. to_receiver k = [p] \<and> hd p = pstr ''file-send'' \<and> run (do_process_file_send fr p) (receiver k) = Some ([ack t 0 m], r) \<and>
        empty_text m \<and> waiting t 0 r \<and> digests fr t 0 r)"
| "at_stage fr t (Acked n) k \<longleftrightarrow> waiting t n (receiver k) \<and> digests fr t n (receiver k) \<and> holding t n (sender k) \<and>
     to_receiver k = [] \<and> (\<exists>m. to_sender k = [ack t n m] \<and> empty_text m)"
| "at_stage fr t (Chunk n) k \<longleftrightarrow> waiting t n (receiver k) \<and> digests fr t n (receiver k) \<and> holding t (Suc n) (sender k) \<and>
     to_receiver k = [chunk_packet t n] \<and> to_sender k = []"
| "at_stage fr t LastAck k \<longleftrightarrow> stored t (receiver k) \<and> to_receiver k = [] \<and>
     (\<exists>n m. holding t n (sender k) \<and> length (tr_data t) \<le> n * tr_size t \<and> n \<le> length (tr_data t) \<and>
        to_sender k = [ack t n m] \<and> empty_text m)"
| "at_stage fr t Finished k \<longleftrightarrow> stored t (receiver k) \<and> map_of (send_chunks (sender k)) (tr_cid t) = None \<and>
     to_receiver k = [] \<and> to_sender k = []"

text \<open>What is left to do.\<close>

fun steps_left :: "transfer \<Rightarrow> stage \<Rightarrow> nat" where
  "steps_left t Announced = 2 * length (tr_data t) + 3"
| "steps_left t (Acked n) = 2 * (length (tr_data t) - n) + 2"
| "steps_left t (Chunk n) = 2 * (length (tr_data t) - n) + 1"
| "steps_left t LastAck = 1"
| "steps_left t Finished = 0"

section \<open>One packet\<close>

definition reliable_disk :: "file_env \<Rightarrow> bool" where
  "reliable_disk fe \<longleftrightarrow> (\<forall>content view. view \<noteq> [] \<longrightarrow> (\<exists>n. fe_os_write fe content view = Some n \<and> 0 < n))"

lemma write_file_data_all:
  "(\<And>content view. view \<noteq> [] \<Longrightarrow> \<exists>n. w content view = Some n \<and> 0 < n) \<Longrightarrow>
     write_file_data w content view = (content @ view, True)"
proof (induction w content view rule: write_file_data.induct)
  case (1 w content view)
  show ?case
  proof (cases "view = []")
    case False
    then obtain n where n: "w content view = Some n" "0 < n" using "1.prems" by blast
    with "1.IH" [of n, OF False n(1)] "1.prems" have
      "write_file_data w (content @ take n view) (drop n view) = ((content @ take n view) @ drop n view, True)" by blast
    with n False show ?thesis by (simp add: write_file_data.simps [of w content view])
  qed (simp add: write_file_data.simps)
qed

lemma write_to_all:
  "reliable_disk fe \<Longrightarrow> disk s p = Some x \<Longrightarrow> write_to fe p data s = (True, s\<lparr>disk := (disk s)(p \<mapsto> x @ data)\<rparr>)"
  by (simp add: write_to_def write_file_data_all reliable_disk_def)

lemma packets_do [simp]: "packets (file_do a s) = packets s @ (case packet_of a of None \<Rightarrow> [] | Some p \<Rightarrow> [p])"
  by (simp add: packets_def file_do_def List.map_filter_def split: option.split)

lemma packets_update [simp]:
  "packets (s\<lparr>send_chunks := a\<rparr>) = packets s" "packets (s\<lparr>receive_chunks := b\<rparr>) = packets s"
  "packets (s\<lparr>files_requested := q\<rparr>) = packets s" "packets (s\<lparr>file_request_callback := cb\<rparr>) = packets s"
  "packets (s\<lparr>disk := d\<rparr>) = packets s" "packets (s\<lparr>file_descriptors := fds\<rparr>) = packets s"
  "packets (s\<lparr>ft_out := []\<rparr>) = []"
  by (simp_all add: packets_def List.map_filter_def)

lemma done_with_eq [simp]: "done_with s = done_with s' \<longleftrightarrow> s = s'"
  by (simp add: done_with_def)

lemma convert_any: "convert_items str_of text_int AnyItem d xs = Items (d @ xs)"
  by (cases xs) simp_all

lemma request_file_match_Inr: "\<exists>b. request_file_match fe r f options = Inr b"
proof -
  have "\<exists>xs. tupleget (fe_str fe) (fe_text_int fe) AnyItem None None (ustr ''request-file'') [] options = Inr xs"
    by (simp add: tupleget_def listget_def convert_any split: option.split)
  then show ?thesis
    by (auto simp: request_file_match_def split: list.split)
qed

lemma process_downloaded_result:
  "\<exists>s'. process_downloaded_file fe f m p op sz opts sid s = done_with s' \<and> same_files s s' \<and>
     file_descriptors s' = file_descriptors s \<and> packets s' = packets s"
proof -
  obtain b where "(case (if sid = [] then None else map_of (files_requested s) sid) of
      None \<Rightarrow> Inr False | Some r \<Rightarrow> request_file_match fe r f opts) = Inr b"
    using request_file_match_Inr [of fe _ f opts]
    by (cases "if sid = [] then None else map_of (files_requested s) sid") (simp_all only: option.case, blast+)
  then show ?thesis
    by (simp add: process_downloaded_file_def Let_def same_files_def packet_of_def) (simp add: file_do_def)
qed

lemma packet_items:
  "py_index (a # b # xs) 1 = Inr b" "py_index (a # b # c # xs) 2 = Inr c" "py_index (a # b # c # d # xs) 3 = Inr d"
  "py_index (a # b # c # d # e # xs) 4 = Inr e"
  by (simp_all add: py_index_nonneg)

lemma get_u32_PInt: "py_index p i = Inr (PInt n) \<Longrightarrow> 0 \<le> n \<Longrightarrow> n < 2 ^ 32 \<Longrightarrow> get_u32 f p i = Inr n"
  by (simp add: get_u32_def get_ranged_def py_int_of_def)

lemma sent_Suc: "sent t (Suc n) = sent t n @ take (tr_size t) (drop (n * tr_size t) (tr_data t))"
  unfolding sent_def by (simp only: mult_Suc add.commute [of "tr_size t"] take_add)

lemma sent_all: "length (tr_data t) \<le> n * tr_size t \<Longrightarrow> sent t n = tr_data t"
  by (simp add: sent_def)

lemma sent_part: "n * tr_size t < length (tr_data t) \<Longrightarrow> length (sent t n) < length (tr_data t)"
  by (simp add: sent_def)

lemma ack_more:
  assumes "holding t n s" "n * tr_size t < length (tr_data t)" "0 < tr_size t" "int n < 2 ^ 32" "empty_text m"
    "fe_unutf8 fs [] = Inr []" "\<And>d. fe_wrap fs d = Inr (PBytes d)"
  shows "\<exists>s'. run (do_process_file_ack_chunk fs l (ack t n m)) s = Some ([chunk_packet t n], s') \<and> holding t (Suc n) s'"
proof -
  obtain c where c: "map_of (send_chunks s) (tr_cid t) = Some c" "sd_chunk c = int n" "sd_chunk_size c = tr_size t"
    "sd_data c = drop (n * tr_size t) (tr_data t)" using assms(1) by (auto simp: holding_def)
  have str: "file_str fs (ack t n m) 3 = Inr []"
    using assms(5,6) by (auto simp: ack_def file_str_def get_str_def packet_items empty_text_def)
  have d: "drop (tr_size t) (drop (n * tr_size t) (tr_data t)) = drop (Suc n * tr_size t) (tr_data t)"
    by (simp add: add.commute)
  have ne: "drop (n * tr_size t) (tr_data t) \<noteq> []" using assms(2) by simp
  have "get_u32 (fe_text_int fs) (ack t n m) 4 = Inr (int n)"
    by (rule get_u32_PInt) (use assms(4) in \<open>simp_all add: ack_def packet_items\<close>)
  with str have "do_process_file_ack_chunk fs l (ack t n m) (s\<lparr>ft_out := []\<rparr>) =
      ack_chunk fs (tr_cid t) True (l []) (int n) (s\<lparr>ft_out := []\<rparr>)"
    by (simp add: do_process_file_ack_chunk_def) (simp add: ack_def file_str_def get_str_def get_bool_def packet_items py_bool_def)
  with c ne assms(3,7) show ?thesis
    by (simp add: run_def ack_chunk_def send_next_chunk_def done_with_def Let_def packet_of_def
        chunk_packet_def holding_def d) (simp add: file_do_def update_conv')
qed

lemma ack_last:
  assumes "holding t n s" "length (tr_data t) \<le> n * tr_size t" "int n < 2 ^ 32" "empty_text m" "fe_unutf8 fs [] = Inr []"
  shows "\<exists>s'. run (do_process_file_ack_chunk fs l (ack t n m)) s = Some ([], s') \<and> map_of (send_chunks s') (tr_cid t) = None"
proof -
  obtain c where c: "map_of (send_chunks s) (tr_cid t) = Some c" "sd_chunk c = int n" "sd_data c = []"
    using assms(1,2) by (auto simp: holding_def)
  have str: "file_str fs (ack t n m) 3 = Inr []"
    using assms(4,5) by (auto simp: ack_def file_str_def get_str_def packet_items empty_text_def)
  have "get_u32 (fe_text_int fs) (ack t n m) 4 = Inr (int n)"
    by (rule get_u32_PInt) (use assms(3) in \<open>simp_all add: ack_def packet_items\<close>)
  with str have "do_process_file_ack_chunk fs l (ack t n m) (s\<lparr>ft_out := []\<rparr>) =
      ack_chunk fs (tr_cid t) True (l []) (int n) (s\<lparr>ft_out := []\<rparr>)"
    by (simp add: do_process_file_ack_chunk_def) (simp add: ack_def file_str_def get_str_def get_bool_def packet_items py_bool_def)
  with c show ?thesis
    by (simp add: run_def ack_chunk_def done_with_def Let_def packet_of_def cancel_sending_def) (simp add: file_do_def delete_conv')
qed

lemma packets_receive [simp]: "packets (set_receive cid c s) = packets s" "packets (close_fd fd s) = packets s"
  by (simp_all add: set_receive_def close_fd_def)

lemma receive_frames [simp]:
  "disk (set_receive cid c s) = disk s" "map_of (receive_chunks (set_receive cid c s)) = (map_of (receive_chunks s))(cid \<mapsto> c)"
  "disk (file_do a s) = disk s" "receive_chunks (file_do a s) = receive_chunks s"
  "file_descriptors (file_do a s) = file_descriptors s"
  "disk (close_fd fd s) = disk s" "receive_chunks (close_fd fd s) = receive_chunks s"
  by (simp_all add: set_receive_def file_do_def close_fd_def update_conv')

lemma chunk_complete_result:
  assumes "digest_ok fe (rc_digest c) (rc_hashed c) (rc_options c) = Inr True" "rc_written c = rc_filesize c"
  shows "\<exists>s'. chunk_complete fe cid n c s = done_with s' \<and> packets s' = packets s \<and> disk s' = disk s \<and>
    map_of (receive_chunks s') cid = None \<and> rc_fd c \<notin> set (file_descriptors s')"
proof -
  let ?s = "file_do (Progress False (rc_send_id c) (rc_written c) (rc_filesize c) [])
    (close_fd (rc_fd c) (s\<lparr>receive_chunks := AList.delete cid (receive_chunks s)\<rparr>))"
  obtain s' where s': "process_downloaded_file fe (rc_filename c) (rc_mimetype c) (rc_printit c) (rc_openit c) (rc_filesize c)
      (rc_options c) (rc_send_id c) ?s = done_with s'" "same_files ?s s'" "file_descriptors s' = file_descriptors ?s"
    "packets s' = packets ?s" using process_downloaded_result by metis
  have "chunk_complete fe cid n c s = done_with s'"
    using assms s'(1) by (simp add: chunk_complete_def Let_def)
  with s'(2-4) show ?thesis
    by (simp add: same_files_def packet_of_def delete_conv') (simp add: close_fd_def file_do_def)
qed

lemma chunk_arrival:
  assumes w: "waiting t n r" and h: "digests fr t n r" and "reliable_disk fr" "0 < tr_size t" "int n + 1 < 2 ^ 32"
  shows "\<exists>r'. run (do_process_file_send_chunk fr (chunk_packet t n)) r = Some ([ack t (Suc n) (PStr [])], r') \<and>
    (if Suc n * tr_size t < length (tr_data t) then waiting t (Suc n) r' \<and> digests fr t (Suc n) r' else stored t r')"
proof -
  let ?r = "r\<lparr>ft_out := []\<rparr>" and ?L = "length (tr_data t)"
  let ?d = "take (tr_size t) (drop (n * tr_size t) (tr_data t))"
  let ?more = "Suc n * tr_size t < ?L"
  obtain c where c: "map_of (receive_chunks r) (tr_cid t) = Some c" "\<not> rc_cancelled c" "rc_chunk c = int n"
     "rc_filesize c = int ?L" "rc_filename c = tr_file t" "rc_fd c = tr_fd t"
     "rc_written c = int (length (sent t n))" "disk r (tr_file t) = Some (sent t n)" and lt: "n * tr_size t < ?L"
    using w unfolding waiting_def by blast
  have hd: "rc_hashed c = (if rc_digest c = None then [] else sent t n)"
    and ok: "digest_ok fr (rc_digest c) (tr_data t) (rc_options c) = Inr True"
    using h c(1) by (auto simp: digests_def)
  have ne: "?d \<noteq> []" using lt assms(4) by simp
  have len: "rc_written c + int (length ?d) = int (length (sent t (Suc n)))" using c(7) by (simp add: sent_Suc)
  have le: "length (sent t (Suc n)) \<le> ?L" by (simp add: sent_def)
  have eq: "length (sent t (Suc n)) = ?L \<longleftrightarrow> \<not> ?more" by (auto simp: sent_def min_def)
  have hn: "digest_update c ?d = (if rc_digest c = None then [] else sent t (Suc n))"
    using hd by (simp add: digest_update_def sent_Suc)
  define s1 where "s1 = ?r\<lparr>disk := (disk r)(tr_file t \<mapsto> sent t (Suc n))\<rparr>"
  have wr: "write_to fr (rc_filename c) ?d ?r = (True, s1)"
    using write_to_all [OF assms(3), of ?r "tr_file t" "sent t n" ?d] c(5,8) by (simp add: s1_def sent_Suc)
  define e where "e = c\<lparr>rc_chunk := int n + 1, rc_hashed := digest_update c ?d, rc_written := int (length (sent t (Suc n)))\<rparr>"
  define s2 where "s2 = file_do (SendAckChunk (tr_cid t) True (PStr []) (int n + 1)) (set_receive (tr_cid t) e s1)"
  have u: "get_u32 (fe_text_int fr) (chunk_packet t n) 2 = Inr (int n + 1)"
    by (rule get_u32_PInt) (use assms(5) in \<open>simp_all add: chunk_packet_def packet_items\<close>)
  have "do_process_file_send_chunk fr (chunk_packet t n) ?r = receive_chunk fr (tr_cid t) (int n + 1) ?d ?more ?r"
    unfolding do_process_file_send_chunk_def u
    by (simp add: chunk_packet_def file_str_def get_str_def get_buffer_def get_bool_def packet_items py_bool_def not_le)
  also have "\<dots> = (if ?more then done_with (set_receive (tr_cid t) (e\<lparr>rc_timer := True\<rparr>)
        (file_do (Progress False (rc_send_id e) (rc_written e) (rc_filesize e) []) s2))
      else chunk_complete fr (tr_cid t) (int n + 1) e s2)"
    using c ne wr le eq len by (simp add: receive_chunk_def Let_def e_def s2_def)
  finally have run: "do_process_file_send_chunk fr (chunk_packet t n) ?r = \<dots>" .
  have out: "packets s2 = [ack t (Suc n) (PStr [])]"
    by (simp add: s2_def s1_def packet_of_def ack_def)
  show ?thesis
  proof (cases ?more)
    case True
    then show ?thesis
      using run out c eq ok hn
      by (simp add: run_def done_with_def packet_of_def waiting_def digests_def e_def s2_def s1_def)
  next
    case False
    have "digest_ok fr (rc_digest e) (rc_hashed e) (rc_options e) = Inr True"
      using ok hn sent_all [of t "Suc n"] False by (auto simp: e_def digest_ok_def split: option.split)
    moreover have "rc_written e = rc_filesize e" using eq False c(4) by (simp add: e_def)
    ultimately obtain s' where s': "chunk_complete fr (tr_cid t) (int n + 1) e s2 = done_with s'" "packets s' = packets s2"
      "disk s' = disk s2" "map_of (receive_chunks s') (tr_cid t) = None" "rc_fd e \<notin> set (file_descriptors s')"
      using chunk_complete_result by metis
    then have "stored t s'"
      using c(6) False sent_all [of t "Suc n"] by (simp add: stored_def e_def s2_def s1_def)
    with run False s'(1,2) out show ?thesis by (simp add: run_def done_with_def)
  qed
qed

section \<open>All the packets\<close>

inductive_cases link_stepE: "link_step fs fr l k k'"

lemma packet_types [simp]:
  "hd (ack t n m) = pstr ''file-ack-chunk''" "hd (chunk_packet t n) = pstr ''file-send-chunk''"
  by (simp_all add: ack_def chunk_packet_def)

lemma packet_types_differ: "pstr ''file-send'' \<noteq> pstr ''file-send-chunk''"
  by code_simp

text \<open>Both ends work: their files can be written, their texts and chunks are read as they were sent.\<close>

definition ends_work :: "file_env \<Rightarrow> file_env \<Rightarrow> bool" where
  "ends_work fs fr \<longleftrightarrow> reliable_disk fr \<and> fe_unutf8 fs [] = Inr [] \<and> (\<forall>d. fe_wrap fs d = Inr (PBytes d))"

lemma chunk_index: "n * tr_size t < length (tr_data t) \<Longrightarrow> 0 < tr_size t \<Longrightarrow> n < length (tr_data t)"
proof -
  assume "n * tr_size t < length (tr_data t)" "0 < tr_size t"
  moreover from this(2) have "n * 1 \<le> n * tr_size t" by (intro mult_le_mono2) simp
  ultimately show ?thesis by (simp only: mult_1_right)
qed

lemma index_u32: "n \<le> length (tr_data t) \<Longrightarrow> length (tr_data t) < 2 ^ 32 \<Longrightarrow> int n < 2 ^ 32"
  by simp

definition on_course :: "file_env \<Rightarrow> file_env \<Rightarrow> transfer \<Rightarrow> stage \<Rightarrow> link \<Rightarrow> bool" where
  "on_course fs fr t st k \<longleftrightarrow> ends_work fs fr \<and> 0 < tr_size t \<and> length (tr_data t) < 2 ^ 32 \<and> at_stage fr t st k"

lemma stage_moves:
  assumes "at_stage fr t st k" "st \<noteq> Finished"
    and work: "ends_work fs fr" and size_pos: "0 < tr_size t" and short: "length (tr_data t) < 2 ^ 32"
  shows "\<exists>k' st'. link_step fs fr l k k' \<and> at_stage fr t st' k' \<and> steps_left t st' < steps_left t st \<and>
    (\<forall>k''. link_step fs fr l k k'' \<longrightarrow> k'' = k')"
proof (cases st)
  case Announced
  then obtain p r m where p: "to_receiver k = [p]" "hd p = pstr ''file-send''" "to_sender k = []"
    "run (do_process_file_send fr p) (receiver k) = Some ([ack t 0 m], r)" "empty_text m"
    "waiting t 0 r" "digests fr t 0 r" "holding t 0 (sender k)" using assms(1) by auto
  let ?k = "k\<lparr>receiver := r, to_receiver := [], to_sender := [ack t 0 m]\<rparr>"
  have "link_step fs fr l k ?k" using file_arrives [OF p(1,2,4), of fs l] p(3) by simp
  moreover have "at_stage fr t (Acked 0) ?k" using p by auto
  moreover have "k'' = ?k" if "link_step fs fr l k k''" for k''
    using that by (rule link_stepE) (use p packet_types_differ in auto)
  ultimately show ?thesis using Announced by (metis steps_left.simps(1,2) diff_zero add_less_cancel_left numeral_2_eq_2 numeral_3_eq_3 lessI)
next
  case (Acked n)
  then obtain m where p: "to_receiver k = []" "to_sender k = [ack t n m]" "empty_text m"
    "waiting t n (receiver k)" "digests fr t n (receiver k)" "holding t n (sender k)" using assms(1) by auto
  have lt: "n * tr_size t < length (tr_data t)" using p(4) by (auto simp: waiting_def)
  from ack_more [OF p(6) lt size_pos _ p(3), of fs l] index_u32 [of n t] chunk_index [OF lt size_pos] short work obtain s' where
    s': "run (do_process_file_ack_chunk fs l (ack t n m)) (sender k) = Some ([chunk_packet t n], s')" "holding t (Suc n) s'"
    by (auto simp: ends_work_def)
  let ?k = "k\<lparr>sender := s', to_sender := [], to_receiver := [chunk_packet t n]\<rparr>"
  have "link_step fs fr l k ?k" using ack_arrives [OF p(2) _ s'(1), of fr] p(1) by simp
  moreover have "at_stage fr t (Chunk n) ?k" using p s'(2) by simp
  moreover have "k'' = ?k" if "link_step fs fr l k k''" for k''
    using that by (rule link_stepE) (use p s' in auto)
  ultimately show ?thesis using Acked by (metis steps_left.simps(2,3) add_less_cancel_left one_less_numeral_iff semiring_norm(76))
next
  case (Chunk n)
  then have p: "to_receiver k = [chunk_packet t n]" "to_sender k = []"
    "waiting t n (receiver k)" "digests fr t n (receiver k)" "holding t (Suc n) (sender k)" using assms(1) by auto
  have lt: "n * tr_size t < length (tr_data t)" using p(3) by (auto simp: waiting_def)
  have n: "n < length (tr_data t)" by (rule chunk_index [OF lt size_pos])
  from chunk_arrival [OF p(3,4) _ size_pos] index_u32 [of "Suc n" t] n short work obtain r' where
    r': "run (do_process_file_send_chunk fr (chunk_packet t n)) (receiver k) = Some ([ack t (Suc n) (PStr [])], r')"
    "if Suc n * tr_size t < length (tr_data t) then waiting t (Suc n) r' \<and> digests fr t (Suc n) r' else stored t r'"
    by (auto simp: ends_work_def)
  let ?k = "k\<lparr>receiver := r', to_receiver := [], to_sender := [ack t (Suc n) (PStr [])]\<rparr>"
  let ?st = "if Suc n * tr_size t < length (tr_data t) then Acked (Suc n) else LastAck"
  have "link_step fs fr l k ?k" using chunk_arrives [OF p(1) _ r'(1), of fs l] p(2) by simp
  moreover have "at_stage fr t ?st ?k"
  proof (cases "Suc n * tr_size t < length (tr_data t)")
    case True
    with r'(2) p(5) show ?thesis by (auto simp: empty_text_def)
  next
    case False
    then have "length (tr_data t) \<le> Suc n * tr_size t" "Suc n \<le> length (tr_data t)" using n by simp_all
    with r'(2) p(5) False show ?thesis by (auto simp: empty_text_def)
  qed
  moreover have "k'' = ?k" if "link_step fs fr l k k''" for k''
    using that by (rule link_stepE) (use p r' packet_types_differ in auto)
  moreover have "steps_left t ?st < steps_left t st" using n Chunk by (simp, intro impI, linarith)
  ultimately show ?thesis by blast
next
  case LastAck
  then obtain n m where p: "to_receiver k = []" "to_sender k = [ack t n m]" "empty_text m" "stored t (receiver k)"
    "holding t n (sender k)" "length (tr_data t) \<le> n * tr_size t" "n \<le> length (tr_data t)" using assms(1) by auto
  from ack_last [OF p(5,6) index_u32 [OF p(7) short] p(3), of fs l] work obtain s' where
    s': "run (do_process_file_ack_chunk fs l (ack t n m)) (sender k) = Some ([], s')" "map_of (send_chunks s') (tr_cid t) = None"
    by (auto simp: ends_work_def)
  let ?k = "k\<lparr>sender := s', to_sender := [], to_receiver := []\<rparr>"
  have "link_step fs fr l k ?k" using ack_arrives [OF p(2) _ s'(1), of fr] p(1) by simp
  moreover have "at_stage fr t Finished ?k" using p s'(2) by simp
  moreover have "k'' = ?k" if "link_step fs fr l k k''" for k''
    using that by (rule link_stepE) (use p s' in auto)
  ultimately show ?thesis using LastAck by (metis steps_left.simps(4,5) less_one)
qed (use assms(2) in simp)

lemma finished_stuck: "at_stage fr t Finished k \<Longrightarrow> \<not> link_step fs fr l k k'"
  by (auto elim: link_stepE)

interpretation transfer_run: guided_run "link_step fs fr l" "on_course fs fr t" "steps_left t" "\<lambda>st. st = Finished" for fs fr l t
proof
  fix st k k'
  assume a: "on_course fs fr t st k"
  { assume "st \<noteq> Finished"
    with a have c: "at_stage fr t st k" "st \<noteq> Finished" "ends_work fs fr" "0 < tr_size t" "length (tr_data t) < 2 ^ 32"
      by (simp_all add: on_course_def)
    from stage_moves [OF c, of l] obtain k' st' where "link_step fs fr l k k'" "at_stage fr t st' k'"
      "steps_left t st' < steps_left t st" "\<forall>k''. link_step fs fr l k k'' \<longrightarrow> k'' = k'" by blast
    with c(3-5) show "\<exists>k' st'. link_step fs fr l k k' \<and> on_course fs fr t st' k' \<and>
        steps_left t st' < steps_left t st \<and> (\<forall>k''. link_step fs fr l k k'' \<longrightarrow> k'' = k')"
      unfolding on_course_def by blast }
  assume "st = Finished"
  with a have "at_stage fr t Finished k" unfolding on_course_def by (simp only:)
  then show "\<not> link_step fs fr l k k'" by (rule finished_stuck)
qed

section \<open>The announcement\<close>

text \<open>
  The receiving end takes the file: it is willing, it has room for another transfer, and there is a
  path to save it to.
\<close>

definition takes_file :: "file_env \<Rightarrow> ft \<Rightarrow> pystr \<Rightarrow> pystr \<Rightarrow> bool \<Rightarrow> int \<Rightarrow> tdict \<Rightarrow> pystr \<Rightarrow> pystr \<Rightarrow> pystr \<Rightarrow> int \<Rightarrow> bool" where
  "takes_file fr r name mimetype openit sz options sid cid f fd \<longleftrightarrow>
     (let b = file_basename name; (acc, r') = accept_data fr sid (ustr ''file'') b False openit mimetype sz options r in
      sz \<le> file_size_limit r \<and> map_of (receive_chunks r) cid = None \<and> length (receive_chunks r) < MAX_CONCURRENT_FILES \<and>
      fst acc \<and> (if fst (snd acc) then printing r' else file_transfer r') \<and>
      safe_open_download_file fr b mimetype r' = Some (Inr (f, fd)))"

lemma strget_present:
  "td_item d k = Some (PStr v) \<Longrightarrow> strget str_of k dflt d = Inr v"
  by (simp add: strget_def conv_get_def conv_lookup_def unwrap_def bytestostr_def)

lemma strget_absent:
  "td_item d k = None \<Longrightarrow> \<not> dotted k \<Longrightarrow> strget str_of k dflt d = Inr dflt"
  by (simp add: strget_def conv_get_def conv_lookup_def td_descend.simps [of k d])

lemma td_item_set_item: "td_item (set_item k v d) k' = (if k' = k then Some v else td_item d k')"
  by (simp add: set_item_def update_conv')

lemma digest_names:
  "\<not> dotted (ustr ''sha512'')" "\<not> dotted (ustr ''sha384'')" "ustr ''sha512'' \<noteq> ustr ''sha256''"
  "ustr ''sha384'' \<noteq> ustr ''sha256''" "ustr ''sha512'' \<noteq> ustr ''file-chunk-id''"
  "ustr ''sha384'' \<noteq> ustr ''file-chunk-id''" "ustr ''sha256'' \<noteq> ustr ''file-chunk-id''"
  by code_simp+

definition sent_options :: "tdict \<Rightarrow> pystr \<Rightarrow> pystr \<Rightarrow> tdict" where
  "sent_options options hex cid =
     set_item (ustr ''file-chunk-id'') (PStr cid) (set_item (ustr ''sha256'') (PStr hex) options)"

lemma sent_options_items:
  assumes "td_item options (ustr ''sha512'') = None" "td_item options (ustr ''sha384'') = None" "hex \<noteq> []"
  shows "strget str_of (ustr ''file-chunk-id'') [] (sent_options options hex cid) = Inr cid"
    "strget str_of (ustr ''sha256'') [] (sent_options options hex cid) = Inr hex"
    "pick_digest fe (sent_options options hex cid) DIGESTS = Inr (Some ''sha256'')"
proof -
  show "strget str_of (ustr ''file-chunk-id'') [] (sent_options options hex cid) = Inr cid" for str_of
    by (rule strget_present) (simp add: sent_options_def td_item_set_item)
  show h: "strget str_of (ustr ''sha256'') [] (sent_options options hex cid) = Inr hex" for str_of
    by (rule strget_present) (use digest_names(7) in \<open>simp add: sent_options_def td_item_set_item\<close>)
  have "strget str_of (ustr ''sha512'') [] (sent_options options hex cid) = Inr []"
    "strget str_of (ustr ''sha384'') [] (sent_options options hex cid) = Inr []" for str_of
    by (rule strget_absent; use assms(1,2) digest_names in \<open>simp add: sent_options_def td_item_set_item\<close>)+
  with h assms(3) show "pick_digest fe (sent_options options hex cid) DIGESTS = Inr (Some ''sha256'')"
    by (simp add: DIGESTS_def)
qed

lemma accept_data_out:
  "accept_data fe sid dt b p op m sz opts (s\<lparr>ft_out := x\<rparr>) =
     apsnd (\<lambda>s'. s'\<lparr>ft_out := x\<rparr>) (accept_data fe sid dt b p op m sz opts s)"
  by (cases "map_of (data_send_requests s) sid"; cases "map_of (files_accepted s) sid") (simp_all add: accept_data_def)

lemma safe_open_out: "safe_open_download_file fe b m (s\<lparr>ft_out := x\<rparr>) = safe_open_download_file fe b m s"
  by (simp add: safe_open_download_file_def cong: sum.case_cong option.case_cong if_cong)

lemma announcement_accepted:
  assumes takes: "takes_file fr r name mimetype openit (int (length data)) (sent_options options hex cid) sid cid f fd"
    and opts: "td_item options (ustr ''sha512'') = None" "td_item options (ustr ''sha384'') = None"
    and hex: "hex = fe_hexdigest fr ''sha256'' data" "hex \<noteq> []"
    and data: "data \<noteq> []" "length data < 2 ^ 32" and cid: "cid \<noteq> []"
    and t: "t = \<lparr>tr_cid = cid, tr_data = data, tr_size = n, tr_file = f, tr_fd = fd\<rparr>"
    and p: "packet_of (SendFile name mimetype False openit (int (length data)) (PBytes []) (sent_options options hex cid) sid) = Some p"
  shows "\<exists>r' m. run (do_process_file_send fr p) r = Some ([ack t 0 m], r') \<and> empty_text m \<and> waiting t 0 r' \<and> digests fr t 0 r'"
proof -
  let ?o = "sent_options options hex cid" and ?r = "r\<lparr>ft_out := []\<rparr>" and ?b = "file_basename name"
  note o = sent_options_items [OF opts hex(2)]
  have p': "p = [pstr ''file-send'', PStr name, PStr mimetype, PBool False, PBool openit, PInt (int (length data)),
      PBytes [], PDict ?o, PStr sid]" using p by (simp add: packet_of_def)
  have ix: "py_index p 1 = Inr (PStr name)" "py_index p 2 = Inr (PStr mimetype)" "py_index p 3 = Inr (PBool False)"
    "py_index p 4 = Inr (PBool openit)" "py_index p 5 = Inr (PInt (int (length data)))" "py_index p 6 = Inr (PBytes [])"
    "py_index p 7 = Inr (PDict ?o)" "py_index p 8 = Inr (PStr sid)" "9 \<le> length p"
    by (simp_all add: p' py_index_nonneg)
  have u: "get_u64 (fe_text_int fr) p 5 = Inr (int (length data))"
    using data(2) by (simp add: get_u64_def get_ranged_def ix py_int_of_def)
  have run: "do_process_file_send fr p ?r = receive_file fr ?b mimetype False openit (int (length data)) [] ?o sid cid ?r"
    by (simp add: do_process_file_send_def file_str_def get_str_def get_bool_def get_buffer_def get_dict_def ix u
        py_bool_def o(1))
  obtain a pr op r1 where acc: "accept_data fr sid (ustr ''file'') ?b False openit mimetype (int (length data)) ?o r = ((a, pr, op), r1)"
    by (metis prod_cases3 prod.exhaust)
  have acc': "accept_data fr sid (ustr ''file'') ?b False openit mimetype (int (length data)) ?o ?r = ((a, pr, op), r1\<lparr>ft_out := []\<rparr>)"
    by (simp add: accept_data_out acc)
  have tk: "int (length data) \<le> file_size_limit r" "map_of (receive_chunks r) cid = None"
    "length (receive_chunks r) < MAX_CONCURRENT_FILES" "a" "if pr then printing r1 else file_transfer r1"
    "safe_open_download_file fr ?b mimetype r1 = Some (Inr (f, fd))"
    using takes by (auto simp: takes_file_def acc Let_def)
  have so: "safe_open_download_file fr ?b mimetype (r1\<lparr>ft_out := []\<rparr>) = Some (Inr (f, fd))"
    by (simp add: safe_open_out tk(6))
  have rc: "receive_chunks r1 = receive_chunks r" using accept_data_same [OF acc] by (simp add: same_files_def)
  define c where "c = \<lparr>rc_send_id = sid, rc_filesize = int (length data), rc_fd = fd, rc_filename = f,
    rc_mimetype = mimetype, rc_printit = pr, rc_openit = op, rc_options = ?o,
    rc_digest = Some ''sha256'', rc_hashed = [], rc_written = 0, rc_cancelled = False, rc_timer = True, rc_chunk = 0\<rparr>"
  define r2 where "r2 = file_do (SendAckChunk cid True (PBytes []) 0) (set_receive cid c
    (r1\<lparr>ft_out := [], file_descriptors := file_descriptors r1 @ [fd], disk := (disk r1)(f \<mapsto> [])\<rparr>))"
  have "receive_file fr ?b mimetype False openit (int (length data)) [] ?o sid cid ?r = done_with r2"
    using tk data(1) cid by (simp add: receive_file_def acc' so receive_file_data_def o(3) rc r2_def c_def)
  with run have res: "do_process_file_send fr p ?r = done_with r2" by simp
  have "packets r2 = [ack t 0 (PBytes [])]"
    by (simp add: r2_def packet_of_def ack_def t)
  moreover have "waiting t 0 r2"
    using data(1) by (simp add: waiting_def r2_def c_def t sent_def)
  moreover have "digests fr t 0 r2"
    using hex(1) o(2) by (simp add: digests_def r2_def t sent_def c_def digest_ok_def)
  ultimately show ?thesis using res
    by (auto simp: run_def done_with_def empty_text_def intro!: exI [of _ "PBytes []"])
qed

lemma do_send_file_starts:
  assumes "run (do_send_file fs filename mimetype data (int (length data)) False openit options sid cid) s = Some ([p], s')"
    "0 < min (file_chunks s) (remote_file_chunks s)" "min (file_chunks s) (remote_file_chunks s) < int (length data)"
    "t = \<lparr>tr_cid = cid, tr_data = data, tr_size = nat (min (file_chunks s) (remote_file_chunks s)), tr_file = f, tr_fd = fd\<rparr>"
  shows "packet_of (SendFile (after_last SLASH filename) mimetype False openit (int (length data)) (PBytes [])
      (sent_options options (fe_hexdigest fs ''sha256'' data) cid) sid) = Some p" "holding t 0 s'"
proof -
  let ?n = "min (file_chunks s) (remote_file_chunks s)"
  let ?a = "SendFile (after_last SLASH filename) mimetype False openit (int (length data)) (PBytes [])
      (sent_options options (fe_hexdigest fs ''sha256'' data) cid) sid"
  have c: "check_file_size (int (length data)) (s\<lparr>ft_out := []\<rparr>)" "length (send_chunks s) < MAX_CONCURRENT_FILES"
    using assms(1-3) by (auto simp: run_def do_send_file_def Let_def done_with_def split: if_splits)
  let ?s = "file_do ?a (s\<lparr>ft_out := [], send_chunks := AList.update cid
    \<lparr>sd_send_id = sid, sd_filesize = int (length data), sd_data = data, sd_chunk_size = nat ?n, sd_timer = True, sd_chunk = 0\<rparr> (send_chunks s)\<rparr>)"
  have "do_send_file fs filename mimetype data (int (length data)) False openit options sid cid (s\<lparr>ft_out := []\<rparr>) = done_with ?s"
    using c assms(2,3) by (simp add: do_send_file_def Let_def sent_options_def)
  then have "run (do_send_file fs filename mimetype data (int (length data)) False openit options sid cid) s = Some (packets ?s, ?s)"
    by (simp only: run_def done_with_def option.case prod.case)
  from trans [OF sym [OF this] assms(1)] have e: "packets ?s = [p]" "s' = ?s" by blast+
  from e(1) show "packet_of ?a = Some p" by (simp add: packet_of_def)
  show "holding t 0 s'"
    unfolding e(2) using assms(4) by (simp add: holding_def file_do_def update_conv')
qed

lemma chunked_delivery:
  assumes sends: "run (do_send_file fs filename mimetype data (int (length data)) False openit options sid cid) s = Some ([p], s')"
    and chunks: "0 < min (file_chunks s) (remote_file_chunks s)" "min (file_chunks s) (remote_file_chunks s) < int (length data)"
    and hex: "hex = fe_hexdigest fs ''sha256'' data" "hex = fe_hexdigest fr ''sha256'' data" "hex \<noteq> []"
    and takes: "takes_file fr r (after_last SLASH filename) mimetype openit (int (length data)) (sent_options options hex cid) sid cid f fd"
    and opts: "td_item options (ustr ''sha512'') = None" "td_item options (ustr ''sha384'') = None"
    and others: "ends_work fs fr" "length data < 2 ^ 32" "cid \<noteq> []"
    and start: "start = \<lparr>sender = s', receiver = r, to_receiver = [p], to_sender = []\<rparr>"
  shows "(link_step fs fr l ^^ n) start k \<Longrightarrow> n \<le> 2 * length data + 3"
    and "(link_step fs fr l)\<^sup>*\<^sup>* start k \<Longrightarrow> (\<And>k'. \<not> link_step fs fr l k k') \<Longrightarrow>
      disk (receiver k) f = Some data \<and> map_of (receive_chunks (receiver k)) cid = None \<and>
      fd \<notin> set (file_descriptors (receiver k)) \<and> map_of (send_chunks (sender k)) cid = None"
proof -
  define t where "t = \<lparr>tr_cid = cid, tr_data = data, tr_size = nat (min (file_chunks s) (remote_file_chunks s)), tr_file = f, tr_fd = fd\<rparr>"
  note st = do_send_file_starts [OF sends chunks t_def]
  have ne: "data \<noteq> []" using chunks by auto
  have p: "hd p = pstr ''file-send''" using st(1) by (auto simp: packet_of_def)
  from announcement_accepted [OF takes opts hex(2,3) ne others(2,3) t_def st(1) [folded hex(1)]] obtain r' m where
    "run (do_process_file_send fr p) r = Some ([ack t 0 m], r')" "empty_text m" "waiting t 0 r'" "digests fr t 0 r'" by blast
  then have "at_stage fr t Announced start" using st(2) p start by auto
  then have c: "on_course fs fr t Announced start" using others chunks by (simp add: on_course_def t_def)
  show "n \<le> 2 * length data + 3" if "(link_step fs fr l ^^ n) start k"
    using transfer_run.run_length [OF that c] by (simp add: t_def)
  assume "(link_step fs fr l)\<^sup>*\<^sup>* start k" "\<And>k'. \<not> link_step fs fr l k k'"
  from transfer_run.run_ends_final [OF this(1) c this(2)] have "on_course fs fr t Finished k" by auto
  then show "disk (receiver k) f = Some data \<and> map_of (receive_chunks (receiver k)) cid = None \<and>
      fd \<notin> set (file_descriptors (receiver k)) \<and> map_of (send_chunks (sender k)) cid = None"
    by (auto simp: on_course_def stored_def t_def)
qed

text \<open>
  C21: a file that is sent in chunks and that the other end takes arrives, whatever its size and the
  size of the chunks: every run of the packets between the two ends is finite, and where it cannot
  continue, the path that the receiver had chosen holds the file, byte for byte, the file is closed,
  and neither end has anything left of the transfer.
\<close>

theorem chunked_file_delivered:
  assumes "run (do_send_file fs filename mimetype data (int (length data)) False openit options sid cid) s = Some ([p], s')"
    and "0 < min (file_chunks s) (remote_file_chunks s)" "min (file_chunks s) (remote_file_chunks s) < int (length data)"
    and "hex = fe_hexdigest fs ''sha256'' data" "hex = fe_hexdigest fr ''sha256'' data" "hex \<noteq> []"
    and "takes_file fr r (after_last SLASH filename) mimetype openit (int (length data)) (sent_options options hex cid) sid cid f fd"
    and "td_item options (ustr ''sha512'') = None" "td_item options (ustr ''sha384'') = None"
    and "ends_work fs fr" "length data < 2 ^ 32" "cid \<noteq> []"
    and "start = \<lparr>sender = s', receiver = r, to_receiver = [p], to_sender = []\<rparr>"
  shows "(\<forall>n k. (link_step fs fr l ^^ n) start k \<longrightarrow> n \<le> 2 * length data + 3) \<and>
    (\<forall>k. (link_step fs fr l)\<^sup>*\<^sup>* start k \<and> (\<forall>k'. \<not> link_step fs fr l k k') \<longrightarrow>
       disk (receiver k) f = Some data \<and> map_of (receive_chunks (receiver k)) cid = None \<and>
       fd \<notin> set (file_descriptors (receiver k)) \<and> map_of (send_chunks (sender k)) cid = None)"
  using chunked_delivery [OF assms] by blast

definition sending_ft :: ft where
  "sending_ft = plain_ft\<lparr>remote_file_transfer := True, remote_file_size_limit := 100, remote_file_chunks := 3\<rparr>"

definition ten_bytes :: bytes where
  "ten_bytes = [0, 1, 2, 3, 4, 5, 6, 7, 8, 9]"

theorem chunked_file_delivered_witness:
  "\<exists>p s'. run (do_send_file plain_env (ustr ''/tmp/a'') [] ten_bytes 10 False False [] (ustr ''id'') (ustr ''c'')) sending_ft = Some ([p], s') \<and>
     (\<forall>k. (link_step plain_env plain_env (\<lambda>_. []))\<^sup>*\<^sup>* \<lparr>sender = s', receiver = plain_ft, to_receiver = [p], to_sender = []\<rparr> k \<and>
        (\<forall>k'. \<not> link_step plain_env plain_env (\<lambda>_. []) k k') \<longrightarrow> disk (receiver k) (ustr ''/d/a-1'') = Some ten_bytes)"
proof -
  let ?hex = "fe_hexdigest plain_env ''sha256'' ten_bytes"
  have "case run (do_send_file plain_env (ustr ''/tmp/a'') [] ten_bytes 10 False False [] (ustr ''id'') (ustr ''c'')) sending_ft of
      Some (ps, s') \<Rightarrow> length ps = 1 | None \<Rightarrow> False" by code_simp
  then obtain p s' where r: "run (do_send_file plain_env (ustr ''/tmp/a'') [] ten_bytes 10 False False [] (ustr ''id'') (ustr ''c'')) sending_ft =
      Some ([p], s')" by (auto split: option.splits simp: length_Suc_conv)
  have len: "int (length ten_bytes) = 10" "length ten_bytes < 2 ^ 32" by (simp_all add: ten_bytes_def)
  have k: "file_chunks sending_ft = 4" "remote_file_chunks sending_ft = 3" by code_simp+
  have tk: "takes_file plain_env plain_ft (after_last SLASH (ustr ''/tmp/a'')) [] False (int (length ten_bytes))
      (sent_options [] ?hex (ustr ''c'')) (ustr ''id'') (ustr ''c'') (ustr ''/d/a-1'') 3"
    unfolding len(1) by code_simp
  have h: "?hex \<noteq> []" "ustr ''c'' \<noteq> []" by code_simp+
  have w: "ends_work plain_env plain_env"
    by (simp add: ends_work_def reliable_disk_def plain_env_def)
  have r': "run (do_send_file plain_env (ustr ''/tmp/a'') [] ten_bytes (int (length ten_bytes)) False False [] (ustr ''id'') (ustr ''c'')) sending_ft =
      Some ([p], s')" using r len(1) by simp
  from chunked_file_delivered [OF r' _ _ refl refl h(1) tk _ _ w len(2) h(2) refl, of "\<lambda>_. []"] len(1) k r
  show ?thesis by auto
qed

section \<open>What goes wrong\<close>

text \<open>
  A file that was asked for with a callback, and that the peer announces with a data request, is
  accepted with the peer's choice to print it, although printing has to be confirmed or the request
  did not ask for it; and as the request has been dropped by then, the callback is never called:
  the file is printed, or opened, instead.
\<close>

theorem requested_callback_lost:
  assumes "map_of (files_requested s) sid = Some q" "sid \<noteq> []" "request_file_match fe q url options = Inr True"
  shows "\<exists>s1 s2. do_process_file_data_request fe prompt (ustr ''file'') sid url sz printit openit options mimetype s = done_with s1 \<and>
    last (ft_out s1) = SendDataResponse sid True \<and>
    accept_data fe sid (ustr ''file'') (file_basename url) printit openit mimetype sz options s1 = ((True, printit, rf_openit q), s2) \<and>
    process_downloaded_file fe f mimetype printit (rf_openit q) sz options sid s2 =
      done_with (if printit \<or> rf_openit q then file_do (StartDownloadThread f mimetype printit (rf_openit q) options) s2 else s2)"
proof -
  let ?s = "s\<lparr>files_requested := AList.delete sid (files_requested s)\<rparr>"
  let ?a = "record_data_request_acceptance fe sid (ustr ''file'') (file_basename url) mimetype sz printit (rf_openit q) options ?s"
  let ?s1 = "file_do (SendDataResponse sid True) ?a"
  have 1: "do_process_file_data_request fe prompt (ustr ''file'') sid url sz printit openit options mimetype s = done_with ?s1"
    using assms by (simp add: do_process_file_data_request_def Let_def)
  have "same_dict d d" for d by (simp add: same_dict_def list_all_iff split: prod.split)
  then have 2: "accept_data fe sid (ustr ''file'') (file_basename url) printit openit mimetype sz options ?s1 =
      ((True, printit, rf_openit q), ?s1\<lparr>data_send_requests := AList.delete sid (data_send_requests ?s1)\<rparr>)"
    by (simp add: accept_data_def record_data_request_acceptance_def file_do_def update_conv' request_matches_def)
  show ?thesis
    by (rule exI [of _ ?s1], rule exI, intro conjI, rule 1, simp add: file_do_def, rule 2)
      (simp add: process_downloaded_file_def file_do_def record_data_request_acceptance_def delete_conv' assms(2))
qed

definition requested_env :: tdict where
  "requested_env = [(pstr ''request-file'', PTuple [pstr ''a.log'', PBool False])]"

theorem requested_callback_lost_witness:
  "\<exists>s1 s2. accept_data plain_env (ustr ''id'') (ustr ''file'') (ustr ''a.log'') True False [] 5 requested_env s1 = ((True, True, False), s2) \<and>
     process_downloaded_file plain_env (ustr ''/d/a.log'') [] True False 5 requested_env (ustr ''id'') s2 =
       done_with (file_do (StartDownloadThread (ustr ''/d/a.log'') [] True False requested_env) s2)"
proof -
  let ?q = "\<lparr>rf_filename = ustr ''a.log'', rf_openit = False, rf_pattern = []\<rparr>"
  let ?s = "send_request_file (ustr ''id'') (ustr ''a.log'') False [] True plain_ft"
  have q: "map_of (files_requested ?s) (ustr ''id'') = Some ?q" "ustr ''id'' \<noteq> []" by code_simp+
  have m: "request_file_match plain_env ?q (ustr ''/var/a.log'') requested_env = Inr True" by code_simp
  have b: "file_basename (ustr ''/var/a.log'') = ustr ''a.log''" by code_simp
  from requested_callback_lost [OF q m, where prompt = True and sz = 5 and printit = True and openit = False
      and mimetype = "[]" and f = "ustr ''/d/a.log''"] b
  show ?thesis by auto
qed

text \<open>
  A transfer that was cancelled keeps the path it had, although that file is gone and its name is free
  again: when another file has been saved there since, \<^verbatim>\<open>cleanup\<close> deletes it.
\<close>

definition announced_file :: packet where
  "announced_file = [pstr ''file-send'', pstr ''b'', pstr '''', PBool False, PBool False, PInt 5, PBytes [],
     PDict [(pstr ''file-chunk-id'', pstr ''c'')], pstr ''one'']"

definition whole_file :: packet where
  "whole_file = [pstr ''file-send'', pstr ''b'', pstr '''', PBool False, PBool False, PInt 5, PBytes [5, 6, 7, 8, 9],
     PDict [], pstr ''two'']"

theorem cleanup_deletes_completed:
  "\<exists>s. (file_step plain_env)\<^sup>*\<^sup>* plain_ft s \<and> disk s (ustr ''/d/b'') = Some [5, 6, 7, 8, 9] \<and>
     file_descriptors s = [] \<and> disk (cleanup s) (ustr ''/d/b'') = None"
proof -
  have e: "case do_process_file_send plain_env announced_file plain_ft of None \<Rightarrow> False
    | Some (s1, _) \<Rightarrow>
        (case do_process_file_send plain_env whole_file (cancel_download (ustr ''one'') ''Cancelled'' s1) of None \<Rightarrow> False
         | Some (s2, _) \<Rightarrow> disk s2 (ustr ''/d/b'') = Some [5, 6, 7, 8, 9] \<and> file_descriptors s2 = [] \<and>
             disk (cleanup s2) (ustr ''/d/b'') = None)"
    by code_simp
  then obtain s1 e1 s2 e2 where s: "do_process_file_send plain_env announced_file plain_ft = Some (s1, e1)"
    "do_process_file_send plain_env whole_file (cancel_download (ustr ''one'') ''Cancelled'' s1) = Some (s2, e2)"
    "disk s2 (ustr ''/d/b'') = Some [5, 6, 7, 8, 9] \<and> file_descriptors s2 = [] \<and> disk (cleanup s2) (ustr ''/d/b'') = None"
    by (auto split: option.splits)
  have "(file_step plain_env)\<^sup>*\<^sup>* plain_ft s2"
    using got_file [OF s(1)] user_cancels got_file [OF s(2)] by (meson converse_rtranclp_into_rtranclp rtranclp.rtrancl_refl)
  with s(3) show ?thesis by blast
qed

end
