(* ===== verification/D3DES.thy ===== *)
theory D3DES
  imports XpraPrelude
begin

text \<open>
  The DES of \<^verbatim>\<open>src/xpra/net/rfb/d3des.py\<close>, which VNC clients and the \<^verbatim>\<open>des\<close> digest use: the key
  schedule, the cipher, and the response to a challenge. The code computes with Python's unbounded
  integers and masks them only at the end; so does the model.
\<close>

unbundle bit_operations_syntax

section \<open>Tables\<close>

definition vnckey :: "byte list" where
  "vnckey =
   [23, 82, 107, 6, 35, 78, 88, 7]"

definition bytebit :: "int list" where
  "bytebit =
   [1, 2, 4, 8, 16, 32, 64, 128]"

definition bigbyte :: "int list" where
  "bigbyte =
   [8388608, 4194304, 2097152, 1048576, 524288, 262144, 131072, 65536, 32768, 16384, 8192, 4096, 2048, 1024,
    512, 256, 128, 64, 32, 16, 8, 4, 2, 1]"

definition pc1 :: "nat list" where
  "pc1 =
   [56, 48, 40, 32, 24, 16, 8, 0, 57, 49, 41, 33, 25, 17,
    9, 1, 58, 50, 42, 34, 26, 18, 10, 2, 59, 51, 43, 35,
    62, 54, 46, 38, 30, 22, 14, 6, 61, 53, 45, 37, 29, 21,
    13, 5, 60, 52, 44, 36, 28, 20, 12, 4, 27, 19, 11, 3]"

definition totrot :: "nat list" where
  "totrot =
   [1, 2, 4, 6, 8, 10, 12, 14, 15, 17, 19, 21, 23, 25,
    27, 28]"

definition pc2 :: "nat list" where
  "pc2 =
   [13, 16, 10, 23, 0, 4, 2, 27, 14, 5, 20, 9, 22, 18,
    11, 3, 25, 7, 15, 6, 26, 19, 12, 1, 40, 51, 30, 36,
    46, 54, 29, 39, 50, 44, 32, 47, 43, 48, 38, 55, 33, 52,
    45, 41, 49, 35, 28, 31]"

definition SP1 :: "int list" where
  "SP1 =
   [0x01010400, 0x00000000, 0x00010000, 0x01010404, 0x01010004, 0x00010404,
    0x00000004, 0x00010000, 0x00000400, 0x01010400, 0x01010404, 0x00000400,
    0x01000404, 0x01010004, 0x01000000, 0x00000004, 0x00000404, 0x01000400,
    0x01000400, 0x00010400, 0x00010400, 0x01010000, 0x01010000, 0x01000404,
    0x00010004, 0x01000004, 0x01000004, 0x00010004, 0x00000000, 0x00000404,
    0x00010404, 0x01000000, 0x00010000, 0x01010404, 0x00000004, 0x01010000,
    0x01010400, 0x01000000, 0x01000000, 0x00000400, 0x01010004, 0x00010000,
    0x00010400, 0x01000004, 0x00000400, 0x00000004, 0x01000404, 0x00010404,
    0x01010404, 0x00010004, 0x01010000, 0x01000404, 0x01000004, 0x00000404,
    0x00010404, 0x01010400, 0x00000404, 0x01000400, 0x01000400, 0x00000000,
    0x00010004, 0x00010400, 0x00000000, 0x01010004]"

definition SP2 :: "int list" where
  "SP2 =
   [0x80108020, 0x80008000, 0x00008000, 0x00108020, 0x00100000, 0x00000020,
    0x80100020, 0x80008020, 0x80000020, 0x80108020, 0x80108000, 0x80000000,
    0x80008000, 0x00100000, 0x00000020, 0x80100020, 0x00108000, 0x00100020,
    0x80008020, 0x00000000, 0x80000000, 0x00008000, 0x00108020, 0x80100000,
    0x00100020, 0x80000020, 0x00000000, 0x00108000, 0x00008020, 0x80108000,
    0x80100000, 0x00008020, 0x00000000, 0x00108020, 0x80100020, 0x00100000,
    0x80008020, 0x80100000, 0x80108000, 0x00008000, 0x80100000, 0x80008000,
    0x00000020, 0x80108020, 0x00108020, 0x00000020, 0x00008000, 0x80000000,
    0x00008020, 0x80108000, 0x00100000, 0x80000020, 0x00100020, 0x80008020,
    0x80000020, 0x00100020, 0x00108000, 0x00000000, 0x80008000, 0x00008020,
    0x80000000, 0x80100020, 0x80108020, 0x00108000]"

definition SP3 :: "int list" where
  "SP3 =
   [0x00000208, 0x08020200, 0x00000000, 0x08020008, 0x08000200, 0x00000000,
    0x00020208, 0x08000200, 0x00020008, 0x08000008, 0x08000008, 0x00020000,
    0x08020208, 0x00020008, 0x08020000, 0x00000208, 0x08000000, 0x00000008,
    0x08020200, 0x00000200, 0x00020200, 0x08020000, 0x08020008, 0x00020208,
    0x08000208, 0x00020200, 0x00020000, 0x08000208, 0x00000008, 0x08020208,
    0x00000200, 0x08000000, 0x08020200, 0x08000000, 0x00020008, 0x00000208,
    0x00020000, 0x08020200, 0x08000200, 0x00000000, 0x00000200, 0x00020008,
    0x08020208, 0x08000200, 0x08000008, 0x00000200, 0x00000000, 0x08020008,
    0x08000208, 0x00020000, 0x08000000, 0x08020208, 0x00000008, 0x00020208,
    0x00020200, 0x08000008, 0x08020000, 0x08000208, 0x00000208, 0x08020000,
    0x00020208, 0x00000008, 0x08020008, 0x00020200]"

definition SP4 :: "int list" where
  "SP4 =
   [0x00802001, 0x00002081, 0x00002081, 0x00000080, 0x00802080, 0x00800081,
    0x00800001, 0x00002001, 0x00000000, 0x00802000, 0x00802000, 0x00802081,
    0x00000081, 0x00000000, 0x00800080, 0x00800001, 0x00000001, 0x00002000,
    0x00800000, 0x00802001, 0x00000080, 0x00800000, 0x00002001, 0x00002080,
    0x00800081, 0x00000001, 0x00002080, 0x00800080, 0x00002000, 0x00802080,
    0x00802081, 0x00000081, 0x00800080, 0x00800001, 0x00802000, 0x00802081,
    0x00000081, 0x00000000, 0x00000000, 0x00802000, 0x00002080, 0x00800080,
    0x00800081, 0x00000001, 0x00802001, 0x00002081, 0x00002081, 0x00000080,
    0x00802081, 0x00000081, 0x00000001, 0x00002000, 0x00800001, 0x00002001,
    0x00802080, 0x00800081, 0x00002001, 0x00002080, 0x00800000, 0x00802001,
    0x00000080, 0x00800000, 0x00002000, 0x00802080]"

definition SP5 :: "int list" where
  "SP5 =
   [0x00000100, 0x02080100, 0x02080000, 0x42000100, 0x00080000, 0x00000100,
    0x40000000, 0x02080000, 0x40080100, 0x00080000, 0x02000100, 0x40080100,
    0x42000100, 0x42080000, 0x00080100, 0x40000000, 0x02000000, 0x40080000,
    0x40080000, 0x00000000, 0x40000100, 0x42080100, 0x42080100, 0x02000100,
    0x42080000, 0x40000100, 0x00000000, 0x42000000, 0x02080100, 0x02000000,
    0x42000000, 0x00080100, 0x00080000, 0x42000100, 0x00000100, 0x02000000,
    0x40000000, 0x02080000, 0x42000100, 0x40080100, 0x02000100, 0x40000000,
    0x42080000, 0x02080100, 0x40080100, 0x00000100, 0x02000000, 0x42080000,
    0x42080100, 0x00080100, 0x42000000, 0x42080100, 0x02080000, 0x00000000,
    0x40080000, 0x42000000, 0x00080100, 0x02000100, 0x40000100, 0x00080000,
    0x00000000, 0x40080000, 0x02080100, 0x40000100]"

definition SP6 :: "int list" where
  "SP6 =
   [0x20000010, 0x20400000, 0x00004000, 0x20404010, 0x20400000, 0x00000010,
    0x20404010, 0x00400000, 0x20004000, 0x00404010, 0x00400000, 0x20000010,
    0x00400010, 0x20004000, 0x20000000, 0x00004010, 0x00000000, 0x00400010,
    0x20004010, 0x00004000, 0x00404000, 0x20004010, 0x00000010, 0x20400010,
    0x20400010, 0x00000000, 0x00404010, 0x20404000, 0x00004010, 0x00404000,
    0x20404000, 0x20000000, 0x20004000, 0x00000010, 0x20400010, 0x00404000,
    0x20404010, 0x00400000, 0x00004010, 0x20000010, 0x00400000, 0x20004000,
    0x20000000, 0x00004010, 0x20000010, 0x20404010, 0x00404000, 0x20400000,
    0x00404010, 0x20404000, 0x00000000, 0x20400010, 0x00000010, 0x00004000,
    0x20400000, 0x00404010, 0x00004000, 0x00400010, 0x20004010, 0x00000000,
    0x20404000, 0x20000000, 0x00400010, 0x20004010]"

definition SP7 :: "int list" where
  "SP7 =
   [0x00200000, 0x04200002, 0x04000802, 0x00000000, 0x00000800, 0x04000802,
    0x00200802, 0x04200800, 0x04200802, 0x00200000, 0x00000000, 0x04000002,
    0x00000002, 0x04000000, 0x04200002, 0x00000802, 0x04000800, 0x00200802,
    0x00200002, 0x04000800, 0x04000002, 0x04200000, 0x04200800, 0x00200002,
    0x04200000, 0x00000800, 0x00000802, 0x04200802, 0x00200800, 0x00000002,
    0x04000000, 0x00200800, 0x04000000, 0x00200800, 0x00200000, 0x04000802,
    0x04000802, 0x04200002, 0x04200002, 0x00000002, 0x00200002, 0x04000000,
    0x04000800, 0x00200000, 0x04200800, 0x00000802, 0x00200802, 0x04200800,
    0x00000802, 0x04000002, 0x04200802, 0x04200000, 0x00200800, 0x00000000,
    0x00000002, 0x04200802, 0x00000000, 0x00200802, 0x04200000, 0x00000800,
    0x04000002, 0x04000800, 0x00000800, 0x00200002]"

definition SP8 :: "int list" where
  "SP8 =
   [0x10001040, 0x00001000, 0x00040000, 0x10041040, 0x10000000, 0x10001040,
    0x00000040, 0x10000000, 0x00040040, 0x10040000, 0x10041040, 0x00041000,
    0x10041000, 0x00041040, 0x00001000, 0x00000040, 0x10040000, 0x10000040,
    0x10001000, 0x00001040, 0x00041000, 0x00040040, 0x10040040, 0x10041000,
    0x00001040, 0x00000000, 0x00000000, 0x10040040, 0x10000040, 0x10001000,
    0x00041040, 0x00040000, 0x00041040, 0x00040000, 0x10041000, 0x00001000,
    0x00000040, 0x10040040, 0x00001000, 0x00041040, 0x10001000, 0x00000040,
    0x10000040, 0x10040000, 0x10040040, 0x10000000, 0x00040000, 0x10001040,
    0x00000000, 0x10041040, 0x00040040, 0x10000040, 0x10040000, 0x10001000,
    0x10001040, 0x00000000, 0x10041040, 0x00041000, 0x00041000, 0x00001040,
    0x00001040, 0x00040040, 0x10000000, 0x10041000]"

section \<open>Keys\<close>

text \<open>\<^verbatim>\<open>cookey\<close>: two numbers of 24 bits become two of 32.\<close>

definition cook :: "int \<times> int \<Rightarrow> int \<times> int" where
  "cook raw =
     (let (raw0, raw1) = raw in
      (push_bit 6 (raw0 AND 0x00fc0000) OR push_bit 10 (raw0 AND 0x00000fc0) OR
       drop_bit 10 (raw1 AND 0x00fc0000) OR drop_bit 6 (raw1 AND 0x00000fc0),
       push_bit 12 (raw0 AND 0x0003f000) OR push_bit 16 (raw0 AND 0x0000003f) OR
       drop_bit 4 (raw1 AND 0x0003f000) OR (raw1 AND 0x0000003f)))"

definition cookey :: "(int \<times> int) list \<Rightarrow> (int \<times> int) list" where
  "cookey raw = map cook raw"

definition permuted_key :: "bytes \<Rightarrow> bool list" where
  "permuted_key key = map (\<lambda>l. uint (key ! (l div 8)) AND bytebit ! (l mod 8) \<noteq> 0) pc1"

definition rotated :: "bool list \<Rightarrow> nat \<Rightarrow> bool list" where
  "rotated pc1m i =
     map (\<lambda>j. let l = j + totrot ! i in if l < (if j < 28 then 28 else 56) then pc1m ! l else pc1m ! (l - 28)) [0..<56]"

fun or_bits :: "bool list \<Rightarrow> nat list \<Rightarrow> int list \<Rightarrow> int" where
  "or_bits pcr (p # ps) (b # bs) = (if pcr ! p then b else 0) OR or_bits pcr ps bs"
| "or_bits pcr _ _ = 0"

definition round_key :: "bool list \<Rightarrow> nat \<Rightarrow> int \<times> int" where
  "round_key pc1m i =
     (let pcr = rotated pc1m i in (or_bits pcr (take 24 pc2) bigbyte, or_bits pcr (drop 24 pc2) bigbyte))"

text \<open>
  \<^verbatim>\<open>deskey\<close>: the keys of the 16 rounds, two numbers each, the last round's first for decryption.
\<close>

definition deskey :: "bytes \<Rightarrow> bool \<Rightarrow> (int \<times> int) list result" where
  "deskey key decrypt =
     (if length key \<noteq> 8 then Inl StructError
      else Inr (cookey (map (\<lambda>p. round_key (permuted_key key) (if decrypt then 15 - p else p)) [0..<16])))"

section \<open>The cipher\<close>

text \<open>\<^verbatim>\<open>work = ((a >> k) ^ b) & m; b ^= work; a ^= work << k\<close>\<close>

definition swap_bits :: "nat \<Rightarrow> int \<Rightarrow> int \<times> int \<Rightarrow> int \<times> int" where
  "swap_bits k m ab =
     (let (a, b) = ab; work = (drop_bit k a XOR b) AND m in (a XOR push_bit k work, b XOR work))"

definition rotate_left :: "int \<Rightarrow> int" where
  "rotate_left x = (push_bit 1 x OR (drop_bit 31 x AND 1)) AND 0xffffffff"

definition rotate_right :: "int \<Rightarrow> int" where
  "rotate_right x = push_bit 31 x OR drop_bit 1 x"

definition initial_permutation :: "int \<times> int \<Rightarrow> int \<times> int" where
  "initial_permutation lr =
     (let (l, r) = swap_bits 16 0x0000ffff (swap_bits 4 0x0f0f0f0f lr);
          (r, l) = swap_bits 8 0x00ff00ff (swap_bits 2 0x33333333 (r, l));
          (l, r) = swap_bits 0 0xaaaaaaaa (l, rotate_left r)
      in (rotate_left l, r))"

definition final_permutation :: "int \<times> int \<Rightarrow> int \<times> int" where
  "final_permutation lr =
     (let (l, r) = swap_bits 0 0xaaaaaaaa (fst lr, rotate_right (snd lr));
          (l, r) = swap_bits 2 0x33333333 (swap_bits 8 0x00ff00ff (rotate_right l, r));
          (r, l) = swap_bits 4 0x0f0f0f0f (swap_bits 16 0x0000ffff (r, l))
      in (l AND 0xffffffff, r AND 0xffffffff))"

definition sbox :: "int list \<Rightarrow> int \<Rightarrow> nat \<Rightarrow> int" where
  "sbox t work k = t ! nat (drop_bit k work AND 0x3f)"

definition round_value :: "int \<times> int \<Rightarrow> int \<Rightarrow> int" where
  "round_value key x =
     (let work = (push_bit 28 x OR drop_bit 4 x) XOR fst key;
          fval = sbox SP7 work 0 OR sbox SP5 work 8 OR sbox SP3 work 16 OR sbox SP1 work 24;
          work = x XOR snd key
      in fval OR sbox SP8 work 0 OR sbox SP6 work 8 OR sbox SP4 work 16 OR sbox SP2 work 24)"

text \<open>The loop, two rounds at a time.\<close>

fun des_rounds :: "(int \<times> int) list \<Rightarrow> int \<times> int \<Rightarrow> int \<times> int" where
  "des_rounds (k1 # k2 # ks) (l, r) =
     (let l' = l XOR round_value k1 r; r' = r XOR round_value k2 l' in des_rounds ks (l', r'))"
| "des_rounds _ lr = lr"

definition desfunc :: "bytes \<Rightarrow> (int \<times> int) list \<Rightarrow> bytes result" where
  "desfunc block keys =
     (if length block \<noteq> 8 then Inl StructError
      else if length keys < 16 then Inl IndexError
      else
        let (l, r) = final_permutation (des_rounds (take 16 keys)
              (initial_permutation (be_int (take 4 block), be_int (drop 4 block))))
        in if 0 \<le> l \<and> l < 2 ^ 32 \<and> 0 \<le> r \<and> r < 2 ^ 32 then Inr (be_bytes 4 r @ be_bytes 4 l) else Inl StructError)"

definition decrypt_passwd :: "bytes \<Rightarrow> bytes result" where
  "decrypt_passwd data = ebind (deskey vnckey True) (\<lambda>dk. desfunc data dk)"

definition generate_response :: "bytes \<Rightarrow> bytes \<Rightarrow> bytes result" where
  "generate_response passwd challenge =
     ebind (deskey (take 8 (passwd @ replicate 8 0)) False) (\<lambda>ek.
     ebind (desfunc (take 8 challenge) ek) (\<lambda>a.
     ebind (desfunc (drop 8 challenge) ek) (\<lambda>b. Inr (a @ b))))"

section \<open>Feistel networks\<close>

text \<open>
  Rounds that mix a function of one half into the other undo themselves when they are run again, with
  the halves exchanged and the keys in reverse, whatever the function.
\<close>

fun feistel_rounds :: "('k \<Rightarrow> 'a \<Rightarrow> 'a) \<Rightarrow> ('a \<Rightarrow> 'a \<Rightarrow> 'a) \<Rightarrow> 'k list \<Rightarrow> 'a \<times> 'a \<Rightarrow> 'a \<times> 'a" where
  "feistel_rounds f mix [] lr = lr"
| "feistel_rounds f mix (k # ks) (l, r) = feistel_rounds f mix ks (r, mix l (f k r))"

locale feistel =
  fixes f :: "'k \<Rightarrow> 'a \<Rightarrow> 'a" and mix :: "'a \<Rightarrow> 'a \<Rightarrow> 'a"
  assumes cancel: "mix (mix a b) b = a"
begin

lemma rounds_append: "feistel_rounds f mix (ks @ ks') lr = feistel_rounds f mix ks' (feistel_rounds f mix ks lr)"
  by (induction f mix ks lr rule: feistel_rounds.induct) simp_all

lemma rounds_undone:
  "feistel_rounds f mix (rev ks) (prod.swap (feistel_rounds f mix ks lr)) = prod.swap lr"
proof (induction ks arbitrary: lr)
  case (Cons k ks)
  obtain l r where lr: "lr = (l, r)" by (cases lr)
  have "feistel_rounds f mix (rev (k # ks)) (prod.swap (feistel_rounds f mix (k # ks) lr)) =
      feistel_rounds f mix [k] (prod.swap (r, mix l (f k r)))"
    unfolding lr by (simp add: rounds_append Cons.IH)
  then show ?case by (simp add: lr cancel)
qed simp

end

lemma xor_cancel: "((a :: int) XOR b) XOR b = a"
  by (simp add: xor.assoc)

interpretation des: feistel round_value "(XOR) :: int \<Rightarrow> int \<Rightarrow> int"
  by unfold_locales (rule xor_cancel)

lemma des_rounds_feistel:
  "even (length ks) \<Longrightarrow> des_rounds ks lr = feistel_rounds round_value (XOR) ks lr"
  by (induction ks lr rule: des_rounds.induct) (simp_all add: Let_def)

section \<open>Exchanges of bits\<close>

lemma swap_bits_pair:
  "swap_bits k m (a, b) =
     (a XOR push_bit k ((drop_bit k a XOR b) AND m), b XOR ((drop_bit k a XOR b) AND m))"
  unfolding swap_bits_def Let_def by simp

lemma swap_bits_twice [simp]: "swap_bits k m (swap_bits k m ab) = ab"
proof -
  obtain a b where ab: "ab = (a, b)" by (cases ab)
  let ?w = "(drop_bit k a XOR b) AND m"
  have "(drop_bit k (a XOR push_bit k ?w) XOR (b XOR ?w)) AND m = ?w"
    by (rule bit_eqI) (auto simp: bit_simps)
  then show ?thesis by (simp only: ab swap_bits_pair xor_cancel)
qed

lemma ones_32: "x AND 0xffffffff = take_bit 32 (x :: int)"
  by (simp add: take_bit_eq_mask mask_eq_exp_minus_1)

definition low :: "int \<times> int \<Rightarrow> int \<times> int" where
  "low ab = (take_bit 32 (fst ab), take_bit 32 (snd ab))"

text \<open>A mask that leaves the bits that are shifted in and out alone.\<close>

definition fits :: "nat \<Rightarrow> int \<Rightarrow> bool" where
  "fits k m \<longleftrightarrow> k \<le> 32 \<and> take_bit (32 - k) m = m"

lemma low_swap_bits: "fits k m \<Longrightarrow> low (swap_bits k m ab) = swap_bits k m (low ab)"
proof -
  assume "fits k m"
  then have "bit m i \<Longrightarrow> i + k < 32" for i
    unfolding fits_def by (metis bit_take_bit_iff less_diff_conv)
  then have m: "bit m i \<Longrightarrow> i < 32 \<and> k + i < 32" for i by fastforce
  obtain a b where ab: "ab = (a, b)" by (cases ab)
  have w: "(drop_bit k (take_bit 32 a) XOR take_bit 32 b) AND m = (drop_bit k a XOR b) AND m"
    by (rule bit_eqI) (auto simp: bit_simps dest: m)
  have "take_bit 32 (b XOR ((drop_bit k a XOR b) AND m)) = take_bit 32 b XOR ((drop_bit k a XOR b) AND m)"
    by (rule bit_eqI) (auto simp: bit_simps dest: m)
  moreover have "take_bit 32 (a XOR push_bit k ((drop_bit k a XOR b) AND m)) = take_bit 32 a XOR push_bit k ((drop_bit k a XOR b) AND m)"
    by (rule bit_eqI) (auto simp: bit_simps dest: m)
  ultimately show ?thesis by (simp only: ab low_def swap_bits_pair fst_conv snd_conv w)
qed

lemma masks_fit:
  "fits 16 0x0000ffff" "fits 4 0x0f0f0f0f" "fits 8 0x00ff00ff" "fits 2 0x33333333" "fits 0 0xaaaaaaaa"
  by (simp_all add: fits_def)

lemma low_idem [simp]: "low (low ab) = low ab"
  by (simp add: low_def)

definition ror32 :: "int \<Rightarrow> int" where
  "ror32 x = take_bit 32 (rotate_right x)"

lemma bit_rotate_left: "bit (rotate_left x) n \<longleftrightarrow> n < 32 \<and> (if n = 0 then bit x 31 else bit x (n - 1))"
  unfolding rotate_left_def ones_32 bit_take_bit_iff bit_or_iff bit_and_iff bit_push_bit_iff bit_drop_bit_eq
  by (auto simp: bit_1_iff)

lemma bit_ror32: "bit (ror32 x) n \<longleftrightarrow> n < 32 \<and> (n = 31 \<and> bit x 0 \<or> bit x (Suc n))"
  by (auto simp: ror32_def rotate_right_def bit_simps)

lemma in_32: "take_bit 32 x = x \<Longrightarrow> bit x n \<Longrightarrow> n < 32" for x :: int
  by (metis bit_take_bit_iff)

lemma rotate_left_ror32: "take_bit 32 x = x \<Longrightarrow> rotate_left (ror32 x) = x"
  by (rule bit_eqI) (auto simp: bit_rotate_left bit_ror32 dest: in_32 split: if_splits)

lemma ror32_rotate_left:
  assumes "take_bit 32 x = x"
  shows "ror32 (rotate_left x) = x"
proof (rule bit_eqI)
  fix n
  have "bit x n \<Longrightarrow> n < 32" by (rule in_32 [OF assms])
  then show "bit (ror32 (rotate_left x)) n \<longleftrightarrow> bit x n"
    by (cases "n = 31") (auto simp: bit_rotate_left bit_ror32)
qed

section \<open>The permutations are inverse\<close>

definition small :: "int \<times> int \<Rightarrow> bool" where
  "small ab \<longleftrightarrow> low ab = ab"

lemma small_pair: "small (a, b) \<longleftrightarrow> take_bit 32 a = a \<and> take_bit 32 b = b"
  by (simp add: small_def low_def)

lemma small_swap_bits: "fits k m \<Longrightarrow> small ab \<Longrightarrow> small (swap_bits k m ab)"
  by (simp add: small_def low_swap_bits)

lemma small_rotate: "take_bit 32 (rotate_left x) = rotate_left x" "take_bit 32 (ror32 x) = ror32 x"
  by (simp_all add: rotate_left_def ror32_def ones_32)

lemma small_swap: "small (prod.swap ab) \<longleftrightarrow> small ab"
  by (cases ab) (auto simp: small_pair)

definition step_a :: "int \<times> int \<Rightarrow> int \<times> int" where
  "step_a lr = prod.swap (swap_bits 8 0x00ff00ff (swap_bits 2 0x33333333 (prod.swap
     (swap_bits 16 0x0000ffff (swap_bits 4 0x0f0f0f0f lr)))))"

definition step_b :: "int \<times> int \<Rightarrow> int \<times> int" where
  "step_b lr = map_prod rotate_left id (swap_bits 0 0xaaaaaaaa (map_prod id rotate_left lr))"

definition undo_a :: "int \<times> int \<Rightarrow> int \<times> int" where
  "undo_a lr = swap_bits 4 0x0f0f0f0f (swap_bits 16 0x0000ffff (prod.swap
     (swap_bits 2 0x33333333 (swap_bits 8 0x00ff00ff (prod.swap lr)))))"

definition undo_b :: "int \<times> int \<Rightarrow> int \<times> int" where
  "undo_b lr = map_prod id ror32 (swap_bits 0 0xaaaaaaaa (map_prod ror32 id lr))"

lemma initial_steps: "initial_permutation lr = step_b (step_a lr)"
  unfolding initial_permutation_def step_a_def step_b_def Let_def by (simp add: split_beta prod.swap_def map_prod_def)

lemma steps_a: "undo_a (step_a lr) = lr" "step_a (undo_a lr) = lr"
  by (simp_all add: step_a_def undo_a_def)

lemma small_a: "small lr \<Longrightarrow> small (step_a lr)" "small lr \<Longrightarrow> small (undo_a lr)"
  unfolding step_a_def undo_a_def by (simp_all add: small_swap small_swap_bits masks_fit)

lemma rotations [simp]:
  "small ab \<Longrightarrow> map_prod rotate_left id (map_prod ror32 id ab) = ab"
  "small ab \<Longrightarrow> map_prod id rotate_left (map_prod id ror32 ab) = ab"
  "small ab \<Longrightarrow> map_prod ror32 id (map_prod rotate_left id ab) = ab"
  "small ab \<Longrightarrow> map_prod id ror32 (map_prod id rotate_left ab) = ab"
  by (cases ab; simp add: small_pair rotate_left_ror32 ror32_rotate_left)+

lemma small_rotations:
  "small ab \<Longrightarrow> small (map_prod rotate_left id ab)" "small ab \<Longrightarrow> small (map_prod id rotate_left ab)"
  "small ab \<Longrightarrow> small (map_prod ror32 id ab)" "small ab \<Longrightarrow> small (map_prod id ror32 ab)"
  by (cases ab; simp add: small_pair small_rotate)+

lemma small_b: "small lr \<Longrightarrow> small (step_b lr)" "small lr \<Longrightarrow> small (undo_b lr)"
  unfolding step_b_def undo_b_def by (simp_all add: small_rotations small_swap_bits masks_fit)

lemma steps_b: "small lr \<Longrightarrow> undo_b (step_b lr) = lr" "small lr \<Longrightarrow> step_b (undo_b lr) = lr"
  unfolding step_b_def undo_b_def by (simp_all add: small_rotations small_swap_bits masks_fit)

text \<open>The unmasked integers of the final permutation agree with it on their low 32 bits.\<close>

lemma final_steps:
  assumes "small lr"
  shows "final_permutation lr = prod.swap (undo_a (undo_b (prod.swap lr)))"
proof -
  obtain l r where lr: "lr = (l, r)" by (cases lr)
  have s: "take_bit 32 l = l" "take_bit 32 r = r" using assms by (simp_all add: lr small_pair)
  obtain l1 r1 where 1: "swap_bits 0 0xaaaaaaaa (l, rotate_right r) = (l1, r1)" by fastforce
  have low1: "low (l1, r1) = swap_bits 0 0xaaaaaaaa (l, ror32 r)"
    unfolding 1 [symmetric] low_swap_bits [OF masks_fit(5)] by (simp add: low_def ror32_def s)
  have m: "bit (0xaaaaaaaa :: int) n \<Longrightarrow> n < 32" for n by (rule in_32) simp_all
  have "take_bit 32 l1 = l1"
    using 1 s by (auto simp: swap_bits_pair) (rule bit_eqI, auto simp: bit_simps dest: in_32 m)
  with low1 have b1: "swap_bits 0 0xaaaaaaaa (l, ror32 r) = (l1, take_bit 32 r1)" by (simp add: low_def)
  have xor0: "swap_bits 0 m (b, a) = prod.swap (swap_bits 0 m (a, b))" for m a b
    by (simp add: swap_bits_pair xor.commute)
  have u: "undo_b (prod.swap lr) = (take_bit 32 r1, ror32 l1)"
    using b1 by (simp add: undo_b_def lr xor0 [of _ "ror32 r" l])
  have "low (swap_bits 2 0x33333333 (swap_bits 8 0x00ff00ff (rotate_right l1, r1))) =
      swap_bits 2 0x33333333 (swap_bits 8 0x00ff00ff (ror32 l1, take_bit 32 r1))"
    unfolding low_swap_bits [OF masks_fit(4)] low_swap_bits [OF masks_fit(3)] by (simp add: low_def ror32_def)
  moreover have "low (prod.swap ab) = prod.swap (low ab)" for ab by (simp add: low_def)
  ultimately have "low (swap_bits 4 0x0f0f0f0f (swap_bits 16 0x0000ffff (prod.swap
      (swap_bits 2 0x33333333 (swap_bits 8 0x00ff00ff (rotate_right l1, r1)))))) = undo_a (undo_b (prod.swap lr))"
    unfolding low_swap_bits [OF masks_fit(2)] low_swap_bits [OF masks_fit(1)] u by (simp add: undo_a_def)
  then show ?thesis
    unfolding final_permutation_def lr
    by (simp only: fst_conv snd_conv 1 Let_def prod.case)
       (auto simp: split_beta ones_32 low_def prod.swap_def prod_eq_iff)
qed

lemma initial_undone:
  assumes "small lr"
  shows "final_permutation (prod.swap (initial_permutation lr)) = prod.swap lr"
  using assms by (simp add: initial_steps final_steps small_swap small_a small_b steps_a steps_b)

lemma final_undone:
  assumes "small lr"
  shows "initial_permutation (prod.swap (final_permutation lr)) = prod.swap lr"
  using assms by (simp add: initial_steps final_steps small_swap small_a small_b steps_a steps_b)

lemma small_initial: "small lr \<Longrightarrow> small (initial_permutation lr)"
  by (simp add: initial_steps small_a small_b)

lemma small_final: "small lr \<Longrightarrow> small (final_permutation lr)"
  by (simp add: final_steps small_swap small_a small_b)

section \<open>Rounds\<close>

lemma tables_small:
  "\<forall>t \<in> set [SP1, SP2, SP3, SP4, SP5, SP6, SP7, SP8]. length t = 64 \<and> list_all (\<lambda>v. take_bit 32 v = v) t"
  by code_simp

lemma sbox_small:
  assumes "t \<in> set [SP1, SP2, SP3, SP4, SP5, SP6, SP7, SP8]"
  shows "take_bit 32 (sbox t work k) = sbox t work k"
proof -
  have "drop_bit k work AND 0x3f = take_bit 6 (drop_bit k work)"
    by (simp add: take_bit_eq_mask mask_eq_exp_minus_1)
  moreover have "take_bit 6 (drop_bit k work) < 2 ^ 6" by (rule take_bit_int_less_exp)
  ultimately have i: "nat (drop_bit k work AND 0x3f) < 64" by (simp only: nat_less_iff) simp
  from tables_small assms have "length t = 64" "list_all (\<lambda>v. take_bit 32 v = v) t" by blast+
  with i show ?thesis unfolding sbox_def list_all_length by simp
qed

lemma round_value_small: "take_bit 32 (round_value k x) = round_value k x"
  unfolding round_value_def Let_def by (simp add: sbox_small)

lemma small_rounds: "small lr \<Longrightarrow> small (des_rounds ks lr)"
proof (induction ks lr rule: des_rounds.induct)
  case (1 k1 k2 ks l r)
  let ?l = "l XOR round_value k1 r" and ?r = "r XOR round_value k2 (l XOR round_value k1 r)"
  have "small (?l, ?r)" using "1.prems" by (simp add: small_pair round_value_small)
  with "1.IH" [OF refl refl] show ?case by (simp add: Let_def)
qed simp_all

lemma rounds_reversed:
  assumes "length ks = 16"
  shows "des_rounds (rev ks) (prod.swap (des_rounds ks lr)) = prod.swap lr"
  using assms by (simp add: des_rounds_feistel des.rounds_undone)

section \<open>Keys and blocks\<close>

lemma deskey_reversed:
  assumes "length key = 8"
  obtains ks where "deskey key False = Inr ks" "deskey key True = Inr (rev ks)" "length ks = 16"
proof
  let ?ks = "cookey (map (\<lambda>p. round_key (permuted_key key) p) [0..<16])"
  show "deskey key False = Inr ?ks" using assms by (simp add: deskey_def)
  have r: "map (\<lambda>p. 15 - p) [0..<16] = rev [0..<16]" by code_simp
  have "map (\<lambda>p. round_key (permuted_key key) (15 - p)) [0..<16] =
      map (round_key (permuted_key key)) (map (\<lambda>p. 15 - p) [0..<16])" by simp
  also have "\<dots> = rev (map (round_key (permuted_key key)) [0..<16])" unfolding r rev_map ..
  finally have "map (\<lambda>p. round_key (permuted_key key) (15 - p)) [0..<16] = rev (map (round_key (permuted_key key)) [0..<16])" .
  then show "deskey key True = Inr (rev ?ks)" using assms by (simp add: deskey_def cookey_def rev_map)
  show "length ?ks = 16" by (simp add: cookey_def)
qed

lemma small_halves: "length block = 8 \<Longrightarrow> small (be_int (take 4 block), be_int (drop 4 block))"
proof -
  assume "length block = 8"
  then have "be_int (take 4 block) < 256 ^ 4" "be_int (drop 4 block) < 256 ^ 4"
    using be_int_bound [of "take 4 block"] be_int_bound [of "drop 4 block"] by simp_all
  then show ?thesis by (simp add: small_pair take_bit_int_eq_self_iff)
qed

lemma desfunc_result:
  assumes "length block = 8" "length ks = 16"
  shows "desfunc block ks = (let (l, r) = final_permutation (des_rounds ks
      (initial_permutation (be_int (take 4 block), be_int (drop 4 block)))) in Inr (be_bytes 4 r @ be_bytes 4 l))"
proof -
  let ?f = "final_permutation (des_rounds ks (initial_permutation (be_int (take 4 block), be_int (drop 4 block))))"
  have "small ?f" by (intro small_final small_rounds small_initial small_halves assms(1))
  then have "0 \<le> fst ?f" "fst ?f < 2 ^ 32" "0 \<le> snd ?f" "snd ?f < 2 ^ 32"
    by (cases ?f; simp add: small_pair take_bit_int_eq_self_iff)+
  then show ?thesis using assms by (simp add: desfunc_def Let_def split_beta)
qed

lemma des_decrypts:
  assumes "length block = 8" "length ks = 16" "desfunc block ks = Inr c"
  shows "length c = 8" "desfunc c (rev ks) = Inr block"
proof -
  let ?b = "(be_int (take 4 block), be_int (drop 4 block))"
  obtain l r where f: "final_permutation (des_rounds ks (initial_permutation ?b)) = (l, r)" by fastforce
  with desfunc_result [OF assms(1,2)] assms(3) have c: "c = be_bytes 4 r @ be_bytes 4 l" by simp
  then show len: "length c = 8" by simp
  have sb: "small ?b" by (rule small_halves [OF assms(1)])
  have s: "small (des_rounds ks (initial_permutation ?b))" by (intro small_rounds small_initial sb)
  have "small (l, r)" using small_final [OF s] f by simp
  then have "0 \<le> l" "l < 2 ^ 32" "0 \<le> r" "r < 2 ^ 32" by (simp_all add: small_pair take_bit_int_eq_self_iff)
  then have "(be_int (take 4 c), be_int (drop 4 c)) = prod.swap (l, r)"
    unfolding c by (simp add: be_simps)
  also have "\<dots> = prod.swap (final_permutation (des_rounds ks (initial_permutation ?b)))" unfolding f ..
  finally have "initial_permutation (be_int (take 4 c), be_int (drop 4 c)) =
      prod.swap (des_rounds ks (initial_permutation ?b))" by (simp only: final_undone [OF s])
  then have "final_permutation (des_rounds (rev ks) (initial_permutation (be_int (take 4 c), be_int (drop 4 c)))) = prod.swap ?b"
    by (simp add: rounds_reversed [OF assms(2)] initial_undone [OF sb])
  with desfunc_result [OF len, of "rev ks"] assms(1,2) show "desfunc c (rev ks) = Inr block"
    by (simp add: be_bytes_be_int)
qed

text \<open>
  C33: the cipher never fails on a block and a key of 8 bytes, and what it encrypts with any key, it
  decrypts with the same key to the same block; its unbounded integers never leave the 32 bits that
  are packed.
\<close>

theorem des_roundtrip:
  assumes "length key = 8" "length block = 8"
  shows "\<exists>ek dk c. deskey key False = Inr ek \<and> deskey key True = Inr dk \<and>
    desfunc block ek = Inr c \<and> length c = 8 \<and> desfunc c dk = Inr block"
proof -
  obtain ks where k: "deskey key False = Inr ks" "deskey key True = Inr (rev ks)" "length ks = 16"
    using deskey_reversed [OF assms(1)] .
  obtain c where c: "desfunc block ks = Inr c"
    using desfunc_result [OF assms(2) k(3)] by (auto simp: split_beta Let_def)
  with des_decrypts [OF assms(2) k(3) c] k show ?thesis by blast
qed

theorem des_roundtrip_witness:
  "\<exists>ek c. deskey vnckey False = Inr ek \<and> desfunc [112, 97, 115, 115, 119, 111, 114, 100] ek = Inr c \<and>
     decrypt_passwd c = Inr [112, 97, 115, 115, 119, 111, 114, 100]"
proof -
  have "length vnckey = 8" by code_simp
  from des_roundtrip [OF this, of "[112, 97, 115, 115, 119, 111, 114, 100]"] show ?thesis
    by (auto simp: decrypt_passwd_def)
qed

text \<open>The password \<open>password\<close>, as VNC files have it.\<close>

lemma vnc_password:
  "decrypt_passwd [0xdb, 0xd8, 0x3c, 0xfd, 0x72, 0x7a, 0x14, 0x58] = Inr [112, 97, 115, 115, 119, 111, 114, 100]"
  by code_simp

end
