(* ===== verification/AuthDigest.thy ===== *)
theory AuthDigest
  imports TypeDict D3DES
begin

text \<open>
  Digests: \<^verbatim>\<open>src/xpra/net/digest.py\<close>, which chooses the digest of a challenge, computes the responses
  and verifies them, and draws the salts. The hash functions of the interpreter are parameters.
\<close>

definition dname :: "string \<Rightarrow> pystr" where
  "dname s = map of_char s"

text \<open>
  \<open>dl_algorithms\<close>: the names that \<^verbatim>\<open>hashlib\<close> has, reversed and sorted; \<open>dl_attribute\<close>: it has an attribute
  of that name; \<open>dl_hmac\<close>: the hexadecimal HMAC with that hash, of a key and a message.
\<close>

record digest_lib =
  dl_algorithms :: "pystr list"
  dl_attribute :: "pystr \<Rightarrow> bool"
  dl_hmac :: "pystr \<Rightarrow> bytes \<Rightarrow> bytes \<Rightarrow> bytes"
  dl_str :: "pval \<Rightarrow> pystr"
  dl_utf8 :: "pystr \<Rightarrow> bytes result"
  dl_unutf8 :: "bytes \<Rightarrow> pystr result"

definition starts_with :: "pystr \<Rightarrow> pystr \<Rightarrow> bool" where
  "starts_with t pre \<longleftrightarrow> take (length pre) t = pre"

definition BLOCKLISTED_HASHES :: "pystr list" where
  "BLOCKLISTED_HASHES = [dname ''sha1'', dname ''md5'']"

definition get_hmac_digests :: "digest_lib \<Rightarrow> pystr list" where
  "get_hmac_digests dl =
     map (\<lambda>x. dname ''hmac+'' @ x) (filter (\<lambda>x. \<not> starts_with x (dname ''shake_'') \<and> x \<notin> set BLOCKLISTED_HASHES \<and> dl_attribute dl x)
       (dl_algorithms dl))"

definition get_digests :: "digest_lib \<Rightarrow> pystr list" where
  "get_digests dl = dname ''xor'' # get_hmac_digests dl @ [dname ''des'']"

text \<open>The capabilities: the digests, and those that may be used for a salt.\<close>

definition digest_caps :: "digest_lib \<Rightarrow> pystr list \<times> pystr list" where
  "digest_caps dl =
     (get_digests dl, filter (\<lambda>x. x \<noteq> dname ''xor'' \<and> x \<noteq> dname ''des'') (get_digests dl))"

text \<open>The name of the hash, for \<^verbatim>\<open>hmac+name\<close>.\<close>

definition get_digest_module :: "digest_lib \<Rightarrow> pystr \<Rightarrow> pystr option" where
  "get_digest_module dl digest =
     (if \<not> starts_with digest (dname ''hmac'') then None
      else
        (case split_on 43 digest of
           _ # name # _ \<Rightarrow> if dl_attribute dl name then Some name else None
         | _ \<Rightarrow> None))"

definition choose_digest :: "pystr list \<Rightarrow> pystr result" where
  "choose_digest options =
     (if options = [] then Inl AssertionError
      else
        (case filter (\<lambda>h. h \<in> set options) (map dname [''hmac+sha512'', ''hmac+sha384'', ''hmac+sha256'', ''hmac+sha224'']) of
           h # _ \<Rightarrow> Inr h
         | [] \<Rightarrow>
             if dname ''xor'' \<in> set options then Inr (dname ''xor'')
             else if dname ''des'' \<in> set options then Inr (dname ''des'')
             else Inl ValueError))"

text \<open>\<^verbatim>\<open>b.ljust(n, zero)[:n]\<close>\<close>

definition ljust :: "nat \<Rightarrow> bytes \<Rightarrow> bytes" where
  "ljust n b = take n (b @ replicate (n - length b) 0)"

definition hex_digit :: "nat \<Rightarrow> byte" where
  "hex_digit n = (if n < 10 then of_nat (48 + n) else of_nat (87 + n))"

definition hexlify :: "bytes \<Rightarrow> bytes" where
  "hexlify b = concat (map (\<lambda>x. [hex_digit (unat x div 16), hex_digit (unat x mod 16)]) b)"

definition xor_str :: "bytes \<Rightarrow> bytes \<Rightarrow> bytes result" where
  "xor_str a b = (if length a \<noteq> length b then Inl ValueError else Inr (map2 (XOR) a b))"

definition gendigest :: "digest_lib \<Rightarrow> pystr \<Rightarrow> pval \<Rightarrow> bytes option \<Rightarrow> bytes result" where
  "gendigest dl digest password_in salt_in =
     (case salt_in of
        None \<Rightarrow> Inl AssertionError
      | Some salt \<Rightarrow>
          if \<not> py_bool password_in \<or> salt = [] then Inl AssertionError
          else
            ebind (strtobytes (dl_str dl) (dl_utf8 dl) password_in) (\<lambda>password.
              if digest = dname ''des'' then
                ebind (generate_response (ljust 8 password) (ljust 16 salt)) (\<lambda>v. Inr (hexlify v))
              else if digest \<in> set (map dname [''xor'', ''kerberos'', ''gss'', ''keycloak'']) then
                xor_str password (ljust (length password) salt)
              else
                (case get_digest_module dl digest of
                   None \<Rightarrow> Inr []
                 | Some name \<Rightarrow> Inr (dl_hmac dl name password salt))))"

definition verify_digest :: "digest_lib \<Rightarrow> pystr \<Rightarrow> pystr \<Rightarrow> bytes \<Rightarrow> bytes \<Rightarrow> bool result" where
  "verify_digest dl digest password salt challenge_response =
     (if digest = [] \<or> password = [] \<or> salt = [] \<or> challenge_response = [] then Inr False
      else ebind (gendigest dl digest (PStr password) (Some salt)) (\<lambda>verify. Inr (verify = challenge_response)))"

definition DEFAULT_SALT_LENGTH :: nat where "DEFAULT_SALT_LENGTH = 64"

text \<open>\<open>urandom\<close>: that many random bytes.\<close>

definition get_salt :: "(nat \<Rightarrow> bytes) \<Rightarrow> nat \<Rightarrow> bytes result" where
  "get_salt urandom len =
     (if len < 32 then Inl ValueError else if len \<ge> 1024 then Inl ValueError else Inr (urandom len))"

section \<open>Properties\<close>

lemma choose_digest_offered: "choose_digest options = Inr h \<Longrightarrow> h \<in> set options"
proof -
  assume c: "choose_digest options = Inr h"
  let ?f = "filter (\<lambda>h. h \<in> set options) (map dname [''hmac+sha512'', ''hmac+sha384'', ''hmac+sha256'', ''hmac+sha224''])"
  have "set ?f \<subseteq> set options" by auto
  with c show ?thesis by (auto simp: choose_digest_def split: if_splits list.splits)
qed

lemma ljust_length [simp]: "length (ljust n b) = n"
  by (simp add: ljust_def)

lemma xor_str_twice:
  "length a = length b \<Longrightarrow> ebind (xor_str a b) (\<lambda>c. xor_str c b) = Inr a"
proof -
  assume l: "length a = length b"
  have "map2 (XOR) (map2 (XOR) a b) b = a"
    using l by (induction a b rule: list_induct2) (simp_all add: xor.assoc)
  with l show ?thesis by (simp add: xor_str_def)
qed

end
