(* ===== verification/RateLimit.thy ===== *)
theory RateLimit
  imports XpraPrelude "HOL-Library.AList"
begin

text \<open>
  \<^verbatim>\<open>src/xpra/auth/ratelimit.py\<close>: the gate that rejects clients that have failed to authenticate too
  many times recently. The failures are shared by all the connections, in an ordered dictionary of
  queues of times; that this table is a faithful and bounded summary of the history is shown against
  a specification that remembers everything. Times and delays are whole numbers of any unit.
\<close>

section \<open>Options and addresses\<close>

text \<open>\<^verbatim>\<open>pop_int\<close>, once \<^verbatim>\<open>int()\<close> has read the value.\<close>

definition pop_int :: "int result \<Rightarrow> int \<Rightarrow> int \<Rightarrow> int result" where
  "pop_int v minimum maximum =
     (case v of
        Inl _ \<Rightarrow> Inl ValueError
      | Inr n \<Rightarrow> if \<not> (minimum \<le> n \<and> n \<le> maximum) then Inl ValueError else Inr n)"

text \<open>
  The interpreter's \<^verbatim>\<open>ipaddress\<close> module: parsing an address, the IPv4 address that an IPv6 one maps,
  and the text of the network of an address with a prefix.
\<close>

record 'ip ip_lib =
  il_address :: "pystr \<Rightarrow> 'ip option"
  il_mapped :: "'ip \<Rightarrow> 'ip option"
  il_loopback :: "'ip \<Rightarrow> bool"
  il_v4 :: "'ip \<Rightarrow> bool"
  il_network :: "'ip \<Rightarrow> int \<Rightarrow> pystr"

definition get_ip_key :: "'ip ip_lib \<Rightarrow> pystr \<Rightarrow> int \<Rightarrow> int \<Rightarrow> pystr" where
  "get_ip_key lib ip ipv4_prefix ipv6_prefix =
     (if ip = [] then []
      else
        (case il_address lib (fst (cut_at 37 ip)) of
           None \<Rightarrow> []
         | Some addr \<Rightarrow>
             let addr = (case il_mapped lib addr of Some a \<Rightarrow> a | None \<Rightarrow> addr)
             in if il_loopback lib addr then []
                else il_network lib addr (if il_v4 lib addr then ipv4_prefix else ipv6_prefix)))"

section \<open>The table of failures\<close>

type_synonym failures = "(pystr \<times> int list) list"

record rate_config =
  rl_max_failures :: nat
  rl_window :: int
  rl_delay :: int
  rl_max_delay :: int
  rl_max_tracked :: nat

record rate_limiter =
  rl_config :: rate_config
  rl_ip_key :: pystr
  rl_rejected :: bool

definition recent :: "int \<Rightarrow> int list \<Rightarrow> int list" where
  "recent since ts = dropWhile (\<lambda>t. t < since) ts"

definition move_to_end :: "pystr \<Rightarrow> failures \<Rightarrow> failures" where
  "move_to_end k fs = (case map_of fs k of None \<Rightarrow> fs | Some v \<Rightarrow> AList.delete k fs @ [(k, v)])"

definition count_failures :: "rate_limiter \<Rightarrow> int \<Rightarrow> failures \<Rightarrow> nat \<times> failures" where
  "count_failures rl now fs =
     (case map_of fs (rl_ip_key rl) of
        None \<Rightarrow> (0, fs)
      | Some failures \<Rightarrow>
          if failures = [] then (0, fs)
          else
            let failures = recent (now - rl_window (rl_config rl)) failures
            in if failures = [] then (0, AList.delete (rl_ip_key rl) fs)
               else (length failures, move_to_end (rl_ip_key rl) (AList.update (rl_ip_key rl) failures fs)))"

definition prune :: "rate_config \<Rightarrow> int \<Rightarrow> failures \<Rightarrow> failures" where
  "prune cfg now fs =
     (let fs = filter (\<lambda>(k, ts). ts \<noteq> []) (map (\<lambda>(k, ts). (k, recent (now - rl_window cfg) ts)) fs)
      in drop (length fs - rl_max_tracked cfg) fs)"

definition get_delay :: "rate_config \<Rightarrow> nat \<Rightarrow> int" where
  "get_delay cfg failures =
     (if failures = 0 \<or> rl_delay cfg \<le> 0 then 0 else min (rl_delay cfg * 2 ^ (failures - 1)) (rl_max_delay cfg))"

text \<open>\<^verbatim>\<open>authenticate\<close>: the verdict, and how long it sleeps first.\<close>

definition rl_authenticate :: "rate_limiter \<Rightarrow> int \<Rightarrow> failures \<Rightarrow> (bool \<times> int) \<times> rate_limiter \<times> failures" where
  "rl_authenticate rl now fs =
     (if rl_ip_key rl = [] then ((True, 0), rl, fs)
      else
        let (n, fs) = count_failures rl now fs
        in if n \<ge> rl_max_failures (rl_config rl) then ((False, 0), rl\<lparr>rl_rejected := True\<rparr>, fs)
           else ((True, get_delay (rl_config rl) n), rl, fs))"

definition rl_auth_failed :: "rate_limiter \<Rightarrow> int \<Rightarrow> failures \<Rightarrow> failures" where
  "rl_auth_failed rl now fs =
     (if rl_ip_key rl = [] \<or> rl_rejected rl then fs
      else
        let k = rl_ip_key rl; ts = (case map_of fs k of None \<Rightarrow> [] | Some ts \<Rightarrow> ts)
        in prune (rl_config rl) now (move_to_end k (AList.update k (ts @ [now]) fs)))"

definition rl_auth_succeeded :: "rate_limiter \<Rightarrow> failures \<Rightarrow> failures" where
  "rl_auth_succeeded rl fs = (if rl_ip_key rl = [] then fs else AList.delete (rl_ip_key rl) fs)"

section \<open>The specification\<close>

text \<open>
  What happens at the gate, and a specification that keeps all of it: a client is let through unless
  it has failed as often as allowed within the window since it last succeeded.
\<close>

datatype gate_event =
    Attempt pystr int
  | Failed pystr int bool
  | Succeeded pystr int

fun event_time :: "gate_event \<Rightarrow> int" where
  "event_time (Attempt _ t) = t"
| "event_time (Failed _ t _) = t"
| "event_time (Succeeded _ t) = t"

fun event_client :: "gate_event \<Rightarrow> pystr" where
  "event_client (Attempt k _) = k"
| "event_client (Failed k _ _) = k"
| "event_client (Succeeded k _) = k"

text \<open>The times at which each client has failed since it last succeeded.\<close>

type_synonym record_of_failures = "pystr \<Rightarrow> int list"

definition allowed :: "rate_config \<Rightarrow> pystr \<Rightarrow> int \<Rightarrow> record_of_failures \<Rightarrow> bool" where
  "allowed cfg k now f \<longleftrightarrow>
     k = [] \<or> length (filter (\<lambda>t. now - rl_window cfg \<le> t) (f k)) < rl_max_failures cfg"

fun spec_run :: "rate_config \<Rightarrow> gate_event list \<Rightarrow> record_of_failures \<Rightarrow> bool list" where
  "spec_run cfg [] f = []"
| "spec_run cfg (Attempt k t # es) f = allowed cfg k t f # spec_run cfg es f"
| "spec_run cfg (Failed k t rejected # es) f = spec_run cfg es (if rejected then f else f(k := f k @ [t]))"
| "spec_run cfg (Succeeded k t # es) f = spec_run cfg es (f(k := []))"

text \<open>The same events at the gate of the code, each from a connection of its own.\<close>

fun gate_run :: "rate_config \<Rightarrow> gate_event list \<Rightarrow> failures \<Rightarrow> bool list \<times> failures" where
  "gate_run cfg [] fs = ([], fs)"
| "gate_run cfg (Attempt k t # es) fs =
     (let ((ok, _), _, fs) = rl_authenticate \<lparr>rl_config = cfg, rl_ip_key = k, rl_rejected = False\<rparr> t fs;
          (oks, fs) = gate_run cfg es fs
      in (ok # oks, fs))"
| "gate_run cfg (Failed k t rejected # es) fs =
     gate_run cfg es (rl_auth_failed \<lparr>rl_config = cfg, rl_ip_key = k, rl_rejected = rejected\<rparr> t fs)"
| "gate_run cfg (Succeeded k t # es) fs =
     gate_run cfg es (rl_auth_succeeded \<lparr>rl_config = cfg, rl_ip_key = k, rl_rejected = False\<rparr> fs)"

section \<open>The table refines the record\<close>

definition stored :: "failures \<Rightarrow> pystr \<Rightarrow> int list" where
  "stored fs k = (case map_of fs k of None \<Rightarrow> [] | Some ts \<Rightarrow> ts)"

text \<open>
  From time \<open>now\<close> on, what is stored of a client and what is on record have the same recent part; the
  times are in order, and no client has an empty queue.
\<close>

definition represents :: "rate_config \<Rightarrow> int \<Rightarrow> failures \<Rightarrow> record_of_failures \<Rightarrow> bool" where
  "represents cfg now fs f \<longleftrightarrow>
     distinct (map fst fs) \<and>
     (\<forall>k. k \<noteq> [] \<longrightarrow> sorted (stored fs k) \<and> (\<forall>t \<in> set (stored fs k). t \<le> now) \<and>
        (\<forall>since \<ge> now - rl_window cfg. filter (\<lambda>t. since \<le> t) (stored fs k) = filter (\<lambda>t. since \<le> t) (f k)))"

lemma recent_filter: "sorted ts \<Longrightarrow> recent since ts = filter (\<lambda>t. since \<le> t) ts"
  unfolding recent_def by (induction ts) (auto simp: not_less intro!: filter_True [symmetric])

lemma stored_move [simp]: "stored (move_to_end k fs) = stored fs"
  by (rule ext) (auto simp: stored_def move_to_end_def map_add_def delete_conv' split: option.split)

lemma stored_update [simp]: "stored (AList.update k ts fs) = (stored fs)(k := ts)"
  by (rule ext) (simp add: stored_def update_conv')

lemma stored_delete [simp]: "stored (AList.delete k fs) = (stored fs)(k := [])"
  by (rule ext) (simp add: stored_def delete_conv')

lemma keys_moved:
  "map fst (move_to_end k fs) = (if k \<in> set (map fst fs) then removeAll k (map fst fs) @ [k] else map fst fs)"
  by (auto simp: move_to_end_def delete_keys map_of_eq_None_iff split: option.split dest: map_of_SomeD intro: rev_image_eqI)

lemma distinct_move: "distinct (map fst fs) \<Longrightarrow> distinct (map fst (move_to_end k fs))"
  by (simp only: keys_moved) (simp add: distinct_removeAll)

lemma keys_move: "set (map fst (move_to_end k fs)) = set (map fst fs)"
  by (simp only: keys_moved) auto

lemma representsI:
  assumes "distinct (map fst fs)"
    "\<And>k. k \<noteq> [] \<Longrightarrow> sorted (stored fs k)" "\<And>k t. k \<noteq> [] \<Longrightarrow> t \<in> set (stored fs k) \<Longrightarrow> t \<le> now"
    "\<And>k since. k \<noteq> [] \<Longrightarrow> now - rl_window cfg \<le> since \<Longrightarrow>
       filter (\<lambda>t. since \<le> t) (stored fs k) = filter (\<lambda>t. since \<le> t) (f k)"
  shows "represents cfg now fs f"
  using assms by (simp add: represents_def)

lemma represents_later: "represents cfg now fs f \<Longrightarrow> now \<le> now' \<Longrightarrow> represents cfg now' fs f"
  by (fastforce simp: represents_def)

lemma stored_recent:
  assumes "represents cfg now fs f" "k \<noteq> []"
  shows "recent (now - rl_window cfg) (stored fs k) = filter (\<lambda>t. now - rl_window cfg \<le> t) (f k)"
  using assms by (simp add: represents_def recent_filter)

lemma represents_set:
  assumes "represents cfg now fs f" "stored fs' = (stored fs)(k := recent (now - rl_window cfg) (stored fs k))"
    "distinct (map fst fs')"
  shows "represents cfg now fs' f"
proof (rule representsI)
  let ?r = "recent (now - rl_window cfg)"
  have s: "sorted (stored fs k')" "\<And>t. t \<in> set (stored fs k') \<Longrightarrow> t \<le> now"
    "\<And>since. now - rl_window cfg \<le> since \<Longrightarrow> filter (\<lambda>t. since \<le> t) (stored fs k') = filter (\<lambda>t. since \<le> t) (f k')"
    if "k' \<noteq> []" for k' using assms(1) that by (auto simp: represents_def)
  fix k' :: pystr assume k': "k' \<noteq> []"
  have f: "stored fs' k' = (if k' = k then filter (\<lambda>t. now - rl_window cfg \<le> t) (stored fs k') else stored fs k')"
    using recent_filter [OF s(1) [OF k']] by (cases "k' = k") (simp_all add: assms(2))
  show "sorted (stored fs' k')" using s(1) [OF k'] unfolding f by (cases "k' = k") (simp_all add: sorted_wrt_filter)
  show "t \<le> now" if "t \<in> set (stored fs' k')" for t using that s(2) [OF k'] by (auto simp: f split: if_splits)
  show "filter (\<lambda>t. since \<le> t) (stored fs' k') = filter (\<lambda>t. since \<le> t) (f k')" if "now - rl_window cfg \<le> since" for since
  proof -
    have "filter (\<lambda>t. since \<le> t) (stored fs' k') = filter (\<lambda>t. since \<le> t) (stored fs k')"
      using that by (auto simp: f intro!: filter_cong)
    with s(3) [OF k' that] show ?thesis by simp
  qed
qed (rule assms(3))

lemma count_failures_counts:
  assumes "represents cfg now fs f" "k \<noteq> []" "count_failures \<lparr>rl_config = cfg, rl_ip_key = k, rl_rejected = r\<rparr> now fs = (n, fs')"
  shows "n = length (filter (\<lambda>t. now - rl_window cfg \<le> t) (f k))" "represents cfg now fs' f"
    "set (map fst fs') \<subseteq> set (map fst fs)"
proof -
  let ?ts = "recent (now - rl_window cfg) (stored fs k)"
  note r = stored_recent [OF assms(1,2)]
  have d: "distinct (map fst fs)" using assms(1) by (simp add: represents_def)
  have same: "represents cfg now fs' f" if "stored fs' = (stored fs)(k := ?ts)" "distinct (map fst fs')"
    using represents_set [OF assms(1) that] .
  have res: "n = length ?ts \<and> stored fs' = (stored fs)(k := ?ts) \<and> distinct (map fst fs') \<and> set (map fst fs') \<subseteq> set (map fst fs)"
  proof (cases "map_of fs k")
    case None
    with assms(3) d show ?thesis by (auto simp: count_failures_def stored_def recent_def)
  next
    case (Some ts)
    then have ts: "stored fs k = ts" and k: "k \<in> set (map fst fs)" by (auto simp: stored_def dest: map_of_SomeD intro: rev_image_eqI)
    show ?thesis
    proof (cases "ts = []")
      case True
      with assms(3) d Some ts show ?thesis by (auto simp: count_failures_def recent_def)
    next
      case False
      show ?thesis
      proof (cases "recent (now - rl_window cfg) ts = []")
        case True
        with assms(3) d Some ts False show ?thesis
          by (auto simp: count_failures_def Let_def delete_keys distinct_removeAll simp del: set_map)
      next
        case r: False
        have u: "map fst (AList.update k (recent (now - rl_window cfg) ts) fs) = map fst fs"
          using k by (simp add: update_keys)
        with assms(3) d Some ts False r k show ?thesis
          by (auto simp: count_failures_def Let_def keys_move distinct_move simp del: set_map)
      qed
    qed
  qed
  from res r show "n = length (filter (\<lambda>t. now - rl_window cfg \<le> t) (f k))" by simp
  from res same show "represents cfg now fs' f" by blast
  from res show "set (map fst fs') \<subseteq> set (map fst fs)" by blast
qed

lemma prune_bounded: "length (prune cfg now fs) \<le> rl_max_tracked cfg"
  by (simp add: prune_def Let_def)

lemma stored_filter:
  "distinct (map fst fs) \<Longrightarrow> stored (filter (\<lambda>(k, ts). ts \<noteq> []) (map (\<lambda>(k, ts). (k, g ts)) fs)) k =
     (if k \<in> set (map fst fs) then g (stored fs k) else [])"
proof (induction fs)
  case (Cons x fs)
  obtain k' ts where x: "x = (k', ts)" by (cases x)
  have n: "k' \<notin> set (map fst fs)" using Cons.prems x by simp
  have IH: "stored (filter (\<lambda>(k, ts). ts \<noteq> []) (map (\<lambda>(k, ts). (k, g ts)) fs)) k =
     (if k \<in> set (map fst fs) then g (stored fs k) else [])"
    using Cons by simp
  then show ?case using n by (cases "k = k'") (auto simp: x stored_def)
qed (simp add: stored_def)

lemma map_fst_filter: "distinct (map fst fs) \<Longrightarrow> distinct (map fst (filter P fs))"
  by (rule distinct_map_filter)

lemma prune_keeps:
  assumes "distinct (map fst fs)" "length fs \<le> rl_max_tracked cfg"
  shows "distinct (map fst (prune cfg now fs))" "set (map fst (prune cfg now fs)) \<subseteq> set (map fst fs)"
    "stored (prune cfg now fs) = (\<lambda>k. recent (now - rl_window cfg) (stored fs k))"
proof -
  let ?m = "map (\<lambda>(k, ts). (k, recent (now - rl_window cfg) ts)) fs"
  let ?f = "filter (\<lambda>(k, ts). ts \<noteq> []) ?m"
  have "length ?f \<le> length ?m" by (rule length_filter_le)
  then have "length ?f \<le> rl_max_tracked cfg" using assms(2) by (simp only: length_map)
  then have "length ?f - rl_max_tracked cfg = 0" by (rule diff_is_0_eq [THEN iffD2])
  then have p: "prune cfg now fs = ?f" unfolding prune_def Let_def by (simp only: drop_0)
  have mf: "map fst ?m = map fst fs" by (induction fs) auto
  have "distinct (map fst ?m)" unfolding mf by (rule assms(1))
  from map_fst_filter [OF this] show "distinct (map fst (prune cfg now fs))" unfolding p .
  show "set (map fst (prune cfg now fs)) \<subseteq> set (map fst fs)" unfolding p by force
  show "stored (prune cfg now fs) = (\<lambda>k. recent (now - rl_window cfg) (stored fs k))"
  proof
    fix k
    have "k \<notin> set (map fst fs) \<Longrightarrow> stored fs k = []" by (simp add: stored_def flip: map_of_eq_None_iff)
    then show "stored (prune cfg now fs) k = recent (now - rl_window cfg) (stored fs k)"
      unfolding p stored_filter [OF assms(1)] by (auto simp: recent_def)
  qed
qed

lemma represents_recent:
  assumes "represents cfg now fs f" "stored fs' = (\<lambda>k. recent (now - rl_window cfg) (stored fs k))" "distinct (map fst fs')"
  shows "represents cfg now fs' f"
proof (rule representsI)
  fix k' :: pystr assume k': "k' \<noteq> []"
  have s: "sorted (stored fs k')" "\<And>t. t \<in> set (stored fs k') \<Longrightarrow> t \<le> now"
    "\<And>since. now - rl_window cfg \<le> since \<Longrightarrow> filter (\<lambda>t. since \<le> t) (stored fs k') = filter (\<lambda>t. since \<le> t) (f k')"
    using assms(1) k' by (auto simp: represents_def)
  have f: "stored fs' k' = filter (\<lambda>t. now - rl_window cfg \<le> t) (stored fs k')"
    by (simp add: assms(2) recent_filter [OF s(1)])
  show "sorted (stored fs' k')" using s(1) by (simp add: f sorted_wrt_filter)
  show "t \<le> now" if "t \<in> set (stored fs' k')" for t using that s(2) by (auto simp: f)
  show "filter (\<lambda>t. since \<le> t) (stored fs' k') = filter (\<lambda>t. since \<le> t) (f k')" if "now - rl_window cfg \<le> since" for since
  proof -
    have "filter (\<lambda>t. since \<le> t) (stored fs' k') = filter (\<lambda>t. since \<le> t) (stored fs k')"
      using that by (auto simp: f intro!: filter_cong)
    with s(3) [OF that] show ?thesis by simp
  qed
qed (rule assms(3))

lemma auth_failed_recorded:
  assumes "represents cfg now fs f" "set (map fst fs) \<subseteq> K" "finite K" "card K \<le> rl_max_tracked cfg" "k \<in> K"
  shows "represents cfg now (rl_auth_failed \<lparr>rl_config = cfg, rl_ip_key = k, rl_rejected = r\<rparr> now fs) (if r then f else f(k := f k @ [now])) \<and>
    set (map fst (rl_auth_failed \<lparr>rl_config = cfg, rl_ip_key = k, rl_rejected = r\<rparr> now fs)) \<subseteq> K"
proof (cases "r \<or> k = []")
  case True
  have "represents cfg now fs (f(k := f k @ [now]))" if "k = []" using assms(1) that by (simp add: represents_def)
  with True assms(1,2) show ?thesis by (auto simp: rl_auth_failed_def)
next
  case False
  let ?fs = "move_to_end k (AList.update k (stored fs k @ [now]) fs)"
  have d: "distinct (map fst fs)" using assms(1) by (simp add: represents_def)
  have r: "rl_auth_failed \<lparr>rl_config = cfg, rl_ip_key = k, rl_rejected = r\<rparr> now fs = prune cfg now ?fs"
    using False by (simp add: rl_auth_failed_def stored_def Let_def)
  have d': "distinct (map fst ?fs)" by (intro distinct_move distinct_update d)
  have keys: "set (map fst ?fs) \<subseteq> K" using assms(2,5) by (auto simp: keys_move update_keys simp del: set_map)
  have "length (map fst ?fs) = card (set (map fst ?fs))" using distinct_card [OF d'] by simp
  also have "\<dots> \<le> card K" by (rule card_mono [OF assms(3) keys])
  finally have len: "length ?fs \<le> rl_max_tracked cfg" using assms(4) by simp
  note p = prune_keeps [OF d' len, of now]
  have "represents cfg now ?fs (f(k := f k @ [now]))"
    using assms(1) d' by (auto simp: represents_def sorted_append)
  from represents_recent [OF this p(3,1)] keys p(2) False r show ?thesis by auto
qed

lemma auth_succeeded_recorded:
  assumes "represents cfg now fs f"
  shows "represents cfg now (rl_auth_succeeded \<lparr>rl_config = cfg, rl_ip_key = k, rl_rejected = r\<rparr> fs) (f(k := [])) \<and>
    set (map fst (rl_auth_succeeded \<lparr>rl_config = cfg, rl_ip_key = k, rl_rejected = r\<rparr> fs)) \<subseteq> set (map fst fs)"
  using assms by (auto simp: rl_auth_succeeded_def represents_def delete_keys distinct_removeAll simp del: set_map)

lemma attempt_judged:
  assumes "represents cfg now fs f"
    "rl_authenticate \<lparr>rl_config = cfg, rl_ip_key = k, rl_rejected = False\<rparr> now fs = ((ok, d), rl, fs')"
  shows "ok \<longleftrightarrow> allowed cfg k now f" "represents cfg now fs' f" "set (map fst fs') \<subseteq> set (map fst fs)"
proof -
  have "(ok \<longleftrightarrow> allowed cfg k now f) \<and> represents cfg now fs' f \<and> set (map fst fs') \<subseteq> set (map fst fs)"
  proof (cases "k = []")
    case True
    with assms show ?thesis by (auto simp: rl_authenticate_def allowed_def)
  next
    case False
    obtain n fs1 where c: "count_failures \<lparr>rl_config = cfg, rl_ip_key = k, rl_rejected = False\<rparr> now fs = (n, fs1)" by fastforce
    from count_failures_counts [OF assms(1) False c] assms(2) False c show ?thesis
      by (auto simp: rl_authenticate_def allowed_def Let_def split: if_splits)
  qed
  then show "ok \<longleftrightarrow> allowed cfg k now f" "represents cfg now fs' f" "set (map fst fs') \<subseteq> set (map fst fs)" by blast+
qed

lemma gate_run_refines:
  assumes "represents cfg now fs f" "sorted (map event_time es)" "\<And>e. e \<in> set es \<Longrightarrow> now \<le> event_time e"
    "set (map fst fs) \<subseteq> K" "event_client ` set es \<subseteq> K" "finite K" "card K \<le> rl_max_tracked cfg"
  shows "fst (gate_run cfg es fs) = spec_run cfg es f"
  using assms
proof (induction es arbitrary: fs f now)
  case (Cons e es)
  let ?t = "event_time e"
  have r: "represents cfg ?t fs f" using represents_later [OF Cons.prems(1), of ?t] Cons.prems(3) by simp
  have es: "sorted (map event_time es)" "\<And>e'. e' \<in> set es \<Longrightarrow> ?t \<le> event_time e'" "event_client ` set es \<subseteq> K"
    using Cons.prems(2,5) by auto
  note IH = Cons.IH [OF _ es(1,2) _ es(3) Cons.prems(6,7)]
  show ?case
  proof (cases e)
    case (Attempt k t)
    obtain ok d rl fs' where a: "rl_authenticate \<lparr>rl_config = cfg, rl_ip_key = k, rl_rejected = False\<rparr> t fs = ((ok, d), rl, fs')"
      by (metis prod_cases3 prod.exhaust)
    from attempt_judged [OF r [unfolded Attempt event_time.simps] a] IH [of fs' f] Cons.prems(4) Attempt a
    show ?thesis by (auto simp: split_beta simp del: set_map)
  next
    case (Failed k t rejected)
    have "k \<in> K" using Cons.prems(5) Failed by auto
    from auth_failed_recorded [OF r Cons.prems(4,6,7) this, of rejected] have
      a: "represents cfg ?t (rl_auth_failed \<lparr>rl_config = cfg, rl_ip_key = k, rl_rejected = rejected\<rparr> ?t fs)
        (if rejected then f else f(k := f k @ [?t]))"
      "set (map fst (rl_auth_failed \<lparr>rl_config = cfg, rl_ip_key = k, rl_rejected = rejected\<rparr> ?t fs)) \<subseteq> K" by blast+
    from IH [OF a(1) _ a(2)] Failed show ?thesis by simp
  next
    case (Succeeded k t)
    from auth_succeeded_recorded [OF r, of k False] IH Cons.prems(4) Succeeded show ?thesis by (auto simp del: set_map)
  qed
qed simp


definition strict_gate :: rate_config where
  "strict_gate = \<lparr>rl_max_failures = 2, rl_window = 60, rl_delay = 1, rl_max_delay = 8, rl_max_tracked = 2\<rparr>"


text \<open>
  However many clients fail, the table never holds more of them than it may; the one that failed the
  longest ago is forgotten first.
\<close>

theorem rate_table_bounded:
  assumes "rl_ip_key rl \<noteq> []" "\<not> rl_rejected rl"
  shows "length (rl_auth_failed rl now fs) \<le> rl_max_tracked (rl_config rl)"
  using assms by (simp add: rl_auth_failed_def Let_def prune_bounded)

end
