(* ===== verification/Authenticators.thy ===== *)
theory Authenticators
  imports AuthDigest RateLimit
begin

text \<open>
  The authentication modules: \<^verbatim>\<open>SysAuthenticatorBase\<close> of \<^verbatim>\<open>src/xpra/auth/sys_auth_base.py\<close>, which the
  password modules are made of, and the one-time codes of \<^verbatim>\<open>src/xpra/auth/code_base.py\<close>. The locks of
  the code make its critical sections atomic; here each operation is atomic as a whole.
\<close>

section \<open>What all the connections share\<close>

text \<open>
  The clock, what \<^verbatim>\<open>os.urandom\<close> and \<^verbatim>\<open>secrets.randbelow\<close> return next, the salts that have been used and
  how many of them are kept (\<^verbatim>\<open>USED_SALT_CACHE_SIZE\<close>), the table of failures, and the messages with codes that have been sent, by kind and recipient or peer.
\<close>

record auth_world =
  aw_now :: int
  aw_urandom :: "nat \<Rightarrow> bytes"
  aw_randbelow :: "nat \<Rightarrow> nat"
  aw_used_salts :: "bytes list"
  aw_salt_cache :: nat
  aw_failures :: failures
  aw_sends :: "((bool \<times> pystr) \<times> int list) list"

definition use_salt :: "bytes \<Rightarrow> auth_world \<Rightarrow> auth_world" where
  "use_salt salt w =
     (let ss = aw_used_salts w @ [salt] in w\<lparr>aw_used_salts := drop (length ss - aw_salt_cache w) ss\<rparr>)"

definition caps_bytes :: "digest_lib \<Rightarrow> string \<Rightarrow> tdict \<Rightarrow> bytes result" where
  "caps_bytes dl k caps = bytesget (dl_str dl) (dl_utf8 dl) (dname k) [] caps"

definition caps_str :: "digest_lib \<Rightarrow> string \<Rightarrow> tdict \<Rightarrow> pystr result" where
  "caps_str dl k caps = strget (dl_str dl) (dname k) [] caps"

section \<open>Passwords\<close>

text \<open>
  \<open>sa_passwords\<close> is what \<^verbatim>\<open>get_passwords\<close> returns, \<open>sa_hmac\<close> whether \<^verbatim>\<open>authenticate_check\<close> is
  \<^verbatim>\<open>authenticate_hmac\<close>.
\<close>

record sys_auth =
  sa_salt :: "bytes option"
  sa_digest :: pystr
  sa_salt_digest :: pystr
  sa_challenge_sent :: bool
  sa_passed :: bool
  sa_password_used :: "pystr option"
  sa_prompt :: pystr
  sa_passwords :: "pystr list"
  sa_hmac :: bool

definition new_sys_auth :: "pystr list \<Rightarrow> bool \<Rightarrow> pystr \<Rightarrow> sys_auth" where
  "new_sys_auth passwords hmac prompt =
     \<lparr>sa_salt = None, sa_digest = [], sa_salt_digest = [], sa_challenge_sent = False, sa_passed = False,
      sa_password_used = None, sa_prompt = prompt, sa_passwords = passwords, sa_hmac = hmac\<rparr>"

definition do_get_challenge :: "pystr list \<Rightarrow> auth_world \<Rightarrow> sys_auth \<Rightarrow> (bytes \<times> pystr) result \<times> sys_auth" where
  "do_get_challenge digests w a =
     (case get_salt (aw_urandom w) DEFAULT_SALT_LENGTH of
        Inl e \<Rightarrow> (Inl e, a)
      | Inr salt \<Rightarrow>
          let a = a\<lparr>sa_salt := Some salt\<rparr>
          in (case choose_digest digests of
                Inl e \<Rightarrow> (Inl e, a)
              | Inr d \<Rightarrow> (Inr (salt, d), a\<lparr>sa_digest := d, sa_challenge_sent := True\<rparr>)))"

definition sys_get_challenge :: "pystr list \<Rightarrow> auth_world \<Rightarrow> sys_auth \<Rightarrow> (bytes \<times> pystr) result \<times> sys_auth" where
  "sys_get_challenge digests w a =
     (if sa_salt a \<noteq> None then (Inr ([], []), a) else do_get_challenge digests w a)"

definition choose_salt_digest :: "pystr list \<Rightarrow> sys_auth \<Rightarrow> pystr result \<times> sys_auth" where
  "choose_salt_digest modes a =
     (case choose_digest modes of Inl e \<Rightarrow> (Inl e, a) | Inr d \<Rightarrow> (Inr d, a\<lparr>sa_salt_digest := d\<rparr>))"

text \<open>\<^verbatim>\<open>get_response_salt\<close>: whatever comes of it, the salt is gone.\<close>

definition get_response_salt ::
  "digest_lib \<Rightarrow> pystr \<Rightarrow> bytes option \<Rightarrow> pval \<Rightarrow> auth_world \<Rightarrow> bytes result \<times> auth_world" where
  "get_response_salt dl salt_digest server_salt client_salt w =
     (case gendigest dl salt_digest client_salt server_salt of
        Inl e \<Rightarrow> (Inl e, w)
      | Inr salt \<Rightarrow>
          if salt \<in> set (aw_used_salts w) then (Inl RuntimeError, w)
          else (Inr salt, use_salt salt w))"

definition validate_caps :: "digest_lib \<Rightarrow> tdict \<Rightarrow> bool \<Rightarrow> bool \<Rightarrow> bool result" where
  "validate_caps dl caps passed challenge_sent =
     (if passed then Inr False
      else if caps = [] then Inr False
      else if \<not> challenge_sent then Inr False
      else ebind (caps_bytes dl ''challenge_response'' caps) (\<lambda>r. Inr (r \<noteq> [])))"

fun verify_passwords :: "digest_lib \<Rightarrow> pystr \<Rightarrow> bytes \<Rightarrow> bytes \<Rightarrow> pystr list \<Rightarrow> pystr option result" where
  "verify_passwords dl digest salt response [] = Inr None"
| "verify_passwords dl digest salt response (x # xs) =
     ebind (verify_digest dl digest x salt response) (\<lambda>ok.
       if ok then Inr (Some x) else verify_passwords dl digest salt response xs)"

definition authenticate_hmac :: "digest_lib \<Rightarrow> tdict \<Rightarrow> auth_world \<Rightarrow> sys_auth \<Rightarrow> bool result \<times> sys_auth \<times> auth_world" where
  "authenticate_hmac dl caps w a =
     (case ebind (caps_bytes dl ''challenge_response'' caps) (\<lambda>r.
           ebind (caps_str dl ''challenge_client_salt'' caps) (\<lambda>c. Inr (r, c))) of
        Inl e \<Rightarrow> (Inl e, a, w)
      | Inr (response, client_salt) \<Rightarrow>
          if sa_salt a = None \<or> sa_salt a = Some [] then (Inr False, a, w)
          else
            (case get_response_salt dl (sa_salt_digest a) (sa_salt a) (PStr client_salt) w of
               (Inl e, w) \<Rightarrow> (Inl e, a\<lparr>sa_salt := None\<rparr>, w)
             | (Inr salt, w) \<Rightarrow>
                 (let a = a\<lparr>sa_salt := None\<rparr> in
                  case verify_passwords dl (sa_digest a) salt response (sa_passwords a) of
                    Inl e \<Rightarrow> (Inl e, a, w)
                  | Inr None \<Rightarrow> (Inr False, a, w)
                  | Inr (Some x) \<Rightarrow> (Inr True, a\<lparr>sa_password_used := Some x\<rparr>, w))))"

text \<open>
  \<^verbatim>\<open>default_authenticate_check\<close>: the response is the password, hidden with the salt;
  \<^verbatim>\<open>get_password\<close> is the first of the passwords, or empty.
\<close>

definition get_password :: "sys_auth \<Rightarrow> pystr" where
  "get_password a = (case sa_passwords a of [] \<Rightarrow> [] | p # _ \<Rightarrow> p)"

definition check_password :: "digest_lib \<Rightarrow> bytes \<Rightarrow> sys_auth \<Rightarrow> bool" where
  "check_password dl value a =
     (let password = (case dl_unutf8 dl value of Inr t \<Rightarrow> t | Inl _ \<Rightarrow> map uint value)
      in password \<noteq> [] \<and> get_password a = password)"

definition default_authenticate_check ::
  "digest_lib \<Rightarrow> tdict \<Rightarrow> auth_world \<Rightarrow> sys_auth \<Rightarrow> bool result \<times> sys_auth \<times> auth_world" where
  "default_authenticate_check dl caps w a =
     (case ebind (caps_bytes dl ''challenge_response'' caps) (\<lambda>r.
           ebind (caps_str dl ''challenge_client_salt'' caps) (\<lambda>c. Inr (r, c))) of
        Inl e \<Rightarrow> (Inl e, a, w)
      | Inr (response, client_salt) \<Rightarrow>
          if sa_salt a = None then (Inr (check_password dl [] a), a, w)
          else
            (case get_response_salt dl (sa_salt_digest a) (sa_salt a) (PStr client_salt) w of
               (Inl e, w) \<Rightarrow> (Inl e, a\<lparr>sa_salt := None\<rparr>, w)
             | (Inr salt, w) \<Rightarrow>
                 (let a = a\<lparr>sa_salt := None\<rparr> in
                  case gendigest dl (dname ''xor'') (PBytes response) (Some salt) of
                    Inl e \<Rightarrow> (Inl e, a, w)
                  | Inr value \<Rightarrow> (Inr (check_password dl value a), a, w))))"

definition sys_authenticate :: "digest_lib \<Rightarrow> tdict \<Rightarrow> auth_world \<Rightarrow> sys_auth \<Rightarrow> bool result \<times> sys_auth \<times> auth_world" where
  "sys_authenticate dl caps w a =
     (case validate_caps dl caps (sa_passed a) (sa_challenge_sent a) of
        Inl e \<Rightarrow> (Inl e, a, w)
      | Inr False \<Rightarrow> (Inr False, a, w)
      | Inr True \<Rightarrow>
          (case (if sa_hmac a then authenticate_hmac dl caps w a else default_authenticate_check dl caps w a) of
             (Inr True, a, w) \<Rightarrow> (Inr True, a\<lparr>sa_passed := True\<rparr>, w)
           | r \<Rightarrow> r))"

section \<open>One-time codes\<close>

datatype code_state = NewCode | Sending | Address | CodeSent | Complete | CodeFailed

text \<open>
  What the subclasses define: the address, if it is known or how it is looked up, or parsed from what
  the client enters, and sending a code to it. \<open>co_lower\<close> is \<^verbatim>\<open>str.lower\<close>, \<open>co_peer\<close> the text of the peer's
  address, if it has one; \<open>co_max_response\<close> is the class's \<^verbatim>\<open>MAX_RESPONSE\<close>.
\<close>

record code_ops =
  co_prompt_mode :: bool
  co_resolve :: "pystr result"
  co_parse :: "pystr \<Rightarrow> pystr result"
  co_send :: "pystr \<Rightarrow> pystr \<Rightarrow> unit result"
  co_lower :: "pystr \<Rightarrow> pystr"
  co_ascii :: "bytes \<Rightarrow> pystr result"
  co_peer :: "pystr option"
  co_digits :: nat
  co_timeout :: int
  co_address_prompt :: pystr
  co_code_prompt :: pystr
  co_max_response :: nat

record code_auth =
  ca_state :: code_state
  ca_salt :: "bytes option"
  ca_digest :: pystr
  ca_salt_digest :: pystr
  ca_challenge_sent :: bool
  ca_passed :: bool
  ca_code :: pystr
  ca_code_digest :: pystr
  ca_expires :: int
  ca_pending :: "(bytes \<times> pystr \<times> pystr) option"
  ca_cancelled :: bool
  ca_prompt :: pystr

definition new_code_auth :: "code_ops \<Rightarrow> code_auth" where
  "new_code_auth co =
     \<lparr>ca_state = NewCode, ca_salt = None, ca_digest = [], ca_salt_digest = [], ca_challenge_sent = False, ca_passed = False,
      ca_code = [], ca_code_digest = [], ca_expires = 0, ca_pending = None, ca_cancelled = False,
      ca_prompt = co_code_prompt co\<rparr>"

definition code_cleanup :: "code_auth \<Rightarrow> code_auth" where
  "code_cleanup a =
     a\<lparr>ca_cancelled := True, ca_code := [], ca_expires := 0, ca_salt := None, ca_pending := None,
       ca_state := (if ca_state a \<noteq> Complete then CodeFailed else ca_state a)\<rparr>"

definition MAX_SEND_KEYS :: nat where "MAX_SEND_KEYS = 10000"

text \<open>
  \<^verbatim>\<open>reserve_send\<close>: one code a minute for a recipient, five in five minutes for a peer.
\<close>

definition send_window :: "bool \<times> pystr \<Rightarrow> int" where
  "send_window k = (if fst k then 60 else 300)"

definition send_limit :: "bool \<times> pystr \<Rightarrow> nat" where
  "send_limit k = (if fst k then 1 else 5)"

definition forget_sends :: "int \<Rightarrow> ((bool \<times> pystr) \<times> int list) list \<Rightarrow> ((bool \<times> pystr) \<times> int list) list" where
  "forget_sends now sends =
     filter (\<lambda>(k, ts). ts \<noteq> []) (map (\<lambda>(k, ts). (k, dropWhile (\<lambda>t. t \<le> now - send_window k) ts)) sends)"

definition sends_of :: "((bool \<times> pystr) \<times> int list) list \<Rightarrow> bool \<times> pystr \<Rightarrow> int list" where
  "sends_of sends k = (case map_of sends k of None \<Rightarrow> [] | Some ts \<Rightarrow> ts)"

definition reserve_send :: "code_ops \<Rightarrow> pystr \<Rightarrow> auth_world \<Rightarrow> unit result \<times> auth_world" where
  "reserve_send co address w =
     (let now = aw_now w;
          keys = (True, co_lower co address) # (case co_peer co of None \<Rightarrow> [] | Some p \<Rightarrow> [(False, p)]);
          sends = forget_sends now (aw_sends w); w = w\<lparr>aw_sends := sends\<rparr>
      in if length sends + length (filter (\<lambda>k. map_of sends k = None) keys) > MAX_SEND_KEYS then (Inl ValueError, w)
         else if list_ex (\<lambda>k. length (sends_of sends k) \<ge> send_limit k) keys then (Inl ValueError, w)
         else (Inr (), w\<lparr>aw_sends := fold (\<lambda>k ss. AList.update k (sends_of ss k @ [now]) ss) keys sends\<rparr>))"

text \<open>The code, in decimal with leading zeros.\<close>

definition code_text :: "nat \<Rightarrow> nat \<Rightarrow> pystr" where
  "code_text digits n = (let t = map uint (dec_bytes n) in replicate (digits - length t) 48 @ t)"

definition issue_code :: "code_ops \<Rightarrow> pystr \<Rightarrow> auth_world \<Rightarrow> code_auth \<Rightarrow> (bytes \<times> pystr) result \<times> code_auth \<times> auth_world" where
  "issue_code co address w a =
     (if ca_cancelled a then (Inl ValueError, a, w)
      else
        (case reserve_send co address w of
           (Inl e, w) \<Rightarrow> (Inl e, a, w)
         | (Inr _, w) \<Rightarrow>
             (let code = code_text (co_digits co) (aw_randbelow w (10 ^ co_digits co)) in
              case co_send co address code of
                Inl e \<Rightarrow> (Inl e, a, w)
              | Inr _ \<Rightarrow>
                  let a = a\<lparr>ca_code := code, ca_expires := aw_now w + co_timeout co, ca_state := CodeSent\<rparr>
                  in (case get_salt (aw_urandom w) DEFAULT_SALT_LENGTH of
                        Inl e \<Rightarrow> (Inl e, a, w)
                      | Inr salt \<Rightarrow> (Inr (salt, ca_code_digest a),
                          a\<lparr>ca_salt := Some salt, ca_digest := ca_code_digest a, ca_prompt := co_code_prompt co,
                            ca_challenge_sent := True\<rparr>, w)))))"

definition code_get_challenge ::
  "code_ops \<Rightarrow> pystr list \<Rightarrow> auth_world \<Rightarrow> code_auth \<Rightarrow> (bytes \<times> pystr) result \<times> code_auth \<times> auth_world" where
  "code_get_challenge co digests w a =
     (if ca_state a \<noteq> NewCode \<or> ca_cancelled a then (Inr ([], []), a, w)
      else
        let a = a\<lparr>ca_state := Sending\<rparr>
        in (case (case choose_digest (filter (\<lambda>d. starts_with d (dname ''hmac+'')) digests) of
                    Inl e \<Rightarrow> (Inl e, a, w)
                  | Inr d \<Rightarrow>
                      let a = a\<lparr>ca_code_digest := d\<rparr>
                      in if co_prompt_mode co then
                           (if dname ''xor'' \<notin> set digests then (Inl ValueError, a, w)
                            else
                              (case get_salt (aw_urandom w) DEFAULT_SALT_LENGTH of
                                 Inl e \<Rightarrow> (Inl e, a, w)
                               | Inr salt \<Rightarrow> (Inr (salt, dname ''xor''),
                                   a\<lparr>ca_state := Address, ca_prompt := co_address_prompt co, ca_salt := Some salt,
                                     ca_digest := dname ''xor'', ca_challenge_sent := True\<rparr>, w)))
                         else
                           (case co_resolve co of
                              Inl e \<Rightarrow> (Inl e, a, w)
                            | Inr address \<Rightarrow> issue_code co address w a)) of
              (Inl e, a, w) \<Rightarrow> (Inl ValueError, code_cleanup a, w)
            | r \<Rightarrow> r))"

definition code_next_challenge :: "code_auth \<Rightarrow> (bytes \<times> pystr \<times> pystr) option \<times> code_auth" where
  "code_next_challenge a = (ca_pending a, a\<lparr>ca_pending := None\<rparr>)"

text \<open>
  \<^verbatim>\<open>authenticate\<close>: whatever goes wrong, the module is cleaned up and cannot be used again. A right
  code passes; an address that a code could be sent to succeeds with another challenge pending.
\<close>

definition code_salt :: "digest_lib \<Rightarrow> tdict \<Rightarrow> auth_world \<Rightarrow> code_auth \<Rightarrow> bytes result \<times> auth_world" where
  "code_salt dl caps w a =
     (case caps_bytes dl ''challenge_client_salt'' caps of
        Inl e \<Rightarrow> (Inl e, w)
      | Inr client_salt \<Rightarrow> get_response_salt dl (ca_salt_digest a) (ca_salt a) (PBytes client_salt) w)"

definition code_check :: "digest_lib \<Rightarrow> tdict \<Rightarrow> auth_world \<Rightarrow> code_auth \<Rightarrow> bool result \<times> code_auth \<times> auth_world" where
  "code_check dl caps w a =
     (case code_salt dl caps w a of
        (Inl e, w) \<Rightarrow> (Inl e, a, w)
      | (Inr salt, w) \<Rightarrow>
          (case ebind (gendigest dl (ca_digest a) (PStr (ca_code a)) (Some salt)) (\<lambda>expected.
                if aw_now w < ca_expires a then
                  ebind (caps_bytes dl ''challenge_response'' caps) (\<lambda>response. Inr (expected = response))
                else Inr False) of
             Inl e \<Rightarrow> (Inl e, a, w)
           | Inr valid \<Rightarrow>
               (Inr valid,
                a\<lparr>ca_salt := None, ca_code := [], ca_expires := 0,
                  ca_state := (if valid then Complete else CodeFailed), ca_passed := valid\<rparr>, w)))"

definition code_address :: "code_ops \<Rightarrow> digest_lib \<Rightarrow> tdict \<Rightarrow> auth_world \<Rightarrow> code_auth \<Rightarrow> bool result \<times> code_auth \<times> auth_world" where
  "code_address co dl caps w a =
     (case caps_bytes dl ''challenge_response'' caps of
        Inl e \<Rightarrow> (Inl e, a, w)
      | Inr response \<Rightarrow>
          if length response > co_max_response co then (Inl ValueError, a, w)
          else
            (case code_salt dl caps w a of
               (Inl e, w) \<Rightarrow> (Inl e, a, w)
             | (Inr salt, w) \<Rightarrow>
                 (case ebind (gendigest dl (dname ''xor'') (PBytes response) (Some salt)) (\<lambda>v.
                       ebind (co_ascii co v) (co_parse co)) of
                    Inl e \<Rightarrow> (Inl e, a, w)
                  | Inr address \<Rightarrow>
                      (case issue_code co address w (a\<lparr>ca_salt := None, ca_state := Sending\<rparr>) of
                         (Inl e, a, w) \<Rightarrow> (Inl e, a, w)
                       | (Inr (salt, digest), a, w) \<Rightarrow>
                           (Inr True, a\<lparr>ca_pending := Some (salt, digest, ca_prompt a)\<rparr>, w)))))"

definition code_authenticate :: "code_ops \<Rightarrow> digest_lib \<Rightarrow> tdict \<Rightarrow> auth_world \<Rightarrow> code_auth \<Rightarrow> bool result \<times> code_auth \<times> auth_world" where
  "code_authenticate co dl caps w a =
     (case (if ca_cancelled a \<or> ca_state a \<notin> {Address, CodeSent} \<or> ca_salt a = None \<or> ca_salt a = Some [] then (Inl ValueError, a, w)
            else
              (case validate_caps dl caps (ca_passed a) (ca_challenge_sent a) of
                 Inl e \<Rightarrow> (Inl e, a, w)
               | Inr False \<Rightarrow> (Inl ValueError, a, w)
               | Inr True \<Rightarrow> if ca_state a = CodeSent then code_check dl caps w a else code_address co dl caps w a)) of
        (Inl e, a, w) \<Rightarrow> (Inr False, code_cleanup a, w)
      | r \<Rightarrow> r)"

section \<open>Properties\<close>

lemma get_salt_default [simp]: "get_salt u DEFAULT_SALT_LENGTH = Inr (u DEFAULT_SALT_LENGTH)"
  by (simp add: get_salt_def DEFAULT_SALT_LENGTH_def)

lemma caps_str_total: "\<exists>t. caps_str dl k caps = Inr t"
  by (simp add: caps_str_def strget_def conv_get_def split: option.split)

lemma choose_digest_known:
  "choose_digest options = Inr h \<Longrightarrow>
    h \<in> set (map dname [''hmac+sha512'', ''hmac+sha384'', ''hmac+sha256'', ''hmac+sha224'', ''xor'', ''des''])"
proof -
  assume c: "choose_digest options = Inr h"
  let ?f = "filter (\<lambda>h. h \<in> set options) (map dname [''hmac+sha512'', ''hmac+sha384'', ''hmac+sha256'', ''hmac+sha224''])"
  have f: "set ?f \<subseteq> set (map dname [''hmac+sha512'', ''hmac+sha384'', ''hmac+sha256'', ''hmac+sha224''])" by auto
  show ?thesis
  proof (cases ?f)
    case Nil
    with c show ?thesis by (auto simp: choose_digest_def split: if_splits)
  next
    case (Cons x xs)
    with c have "h = x" by (auto simp: choose_digest_def split: if_splits)
    with Cons f show ?thesis by auto
  qed
qed

lemma choose_digest_nonempty: "choose_digest options = Inr h \<Longrightarrow> h \<noteq> []"
  using choose_digest_known by (fastforce simp: dname_def)

end
