(* ===== verification/AuthServer.thy ===== *)
theory AuthServer
  imports Authenticators
begin

text \<open>
  The server's side of authentication, \<^verbatim>\<open>src/xpra/server/auth.py\<close>: every hello that a connection
  receives is checked by its authentication modules, in order, until one of them fails or has a
  challenge for the client, or all of them have passed and the connection is accepted. The manager
  only knows the methods of the modules, here a record of operations; what it relies on is the locale
  \<open>auth_modules\<close>, and that is enough to show what an accepted connection has proved.
\<close>

section \<open>The methods of an authentication module\<close>

record 'a auth_ops =
  ao_requires :: "'a \<Rightarrow> bool"
  ao_sent :: "'a \<Rightarrow> bool"
  ao_passed :: "'a \<Rightarrow> bool"
  ao_set_passed :: "'a \<Rightarrow> 'a"
  ao_prompt :: "'a \<Rightarrow> pystr"
  ao_get_challenge :: "pystr list \<Rightarrow> auth_world \<Rightarrow> 'a \<Rightarrow> (bytes \<times> pystr) result \<times> 'a \<times> auth_world"
  ao_authenticate :: "tdict \<Rightarrow> auth_world \<Rightarrow> 'a \<Rightarrow> bool result \<times> 'a \<times> auth_world"
  ao_next :: "'a \<Rightarrow> (bytes \<times> pystr \<times> pystr) option \<times> 'a"
  ao_choose :: "pystr list \<Rightarrow> 'a \<Rightarrow> pystr result \<times> 'a"
  ao_failed :: "'a \<Rightarrow> auth_world \<Rightarrow> auth_world"
  ao_succeeded :: "'a \<Rightarrow> auth_world \<Rightarrow> auth_world"
  ao_cleanup :: "'a \<Rightarrow> 'a"

section \<open>One module\<close>

datatype auth_msg =
    SetupFailed
  | NoChallengeFailed
  | ChallengeError
  | InvalidState
  | NoDigestSupport pystr
  | InsecureSaltDigest pystr
  | AuthenticationFailed

text \<open>
  What \<^verbatim>\<open>verify_authenticator\<close> comes to: the module failed, a challenge goes out (salt, digest, salt
  digest and prompt), it passed, or an exception ends the thread that verifies the connection.
\<close>

datatype verdict =
    Fail auth_msg
  | Challenge bytes pystr pystr pystr
  | Pass
  | Raise py_error

text \<open>\<^verbatim>\<open>send_fake_challenge\<close>: the salt, the digest and the salt digest that it sends.\<close>

definition fake_challenge :: "pystr list \<Rightarrow> pystr list \<Rightarrow> auth_world \<Rightarrow> (bytes \<times> pystr \<times> pystr) result" where
  "fake_challenge digest_modes salt_digest_modes w =
     ebind (get_salt (aw_urandom w) DEFAULT_SALT_LENGTH) (\<lambda>salt.
       ebind (choose_digest digest_modes) (\<lambda>digest.
         ebind (choose_digest salt_digest_modes) (\<lambda>salt_digest. Inr (salt, digest, salt_digest))))"

definition fake_verdict :: "pystr list \<Rightarrow> pystr list \<Rightarrow> auth_world \<Rightarrow> verdict" where
  "fake_verdict digest_modes salt_digest_modes w =
     (case fake_challenge digest_modes salt_digest_modes w of
        Inl e \<Rightarrow> Raise e
      | Inr (salt, digest, salt_digest) \<Rightarrow> Challenge salt digest salt_digest (dname ''password''))"

text \<open>\<^verbatim>\<open>digest.split(colon, 1)[0]\<close>\<close>

definition actual_digest :: "pystr \<Rightarrow> pystr" where
  "actual_digest digest = fst (cut_at 58 digest)"

definition insecure_salt_digests :: "pystr list" where
  "insecure_salt_digests = [dname ''xor'', dname ''des'']"

text \<open>The exceptions that \<^verbatim>\<open>get_challenge\<close> may raise: \<^verbatim>\<open>UnicodeDecodeError\<close> is a \<^verbatim>\<open>ValueError\<close>.\<close>

definition challenge_caught :: "py_error \<Rightarrow> bool" where
  "challenge_caught e \<longleftrightarrow> e \<in> {ValueError, UnicodeDecodeError}"

text \<open>
  What is sent once a module has a challenge: its digest has to be one the client has, and the salt
  digest a secure one.
\<close>

definition offer_challenge ::
  "'a auth_ops \<Rightarrow> pystr list \<Rightarrow> pystr list \<Rightarrow> bytes \<Rightarrow> pystr \<Rightarrow> pystr option \<Rightarrow> 'a \<Rightarrow> verdict \<times> 'a" where
  "offer_challenge ao digest_modes salt_digest_modes salt digest prompt a =
     (if actual_digest digest \<notin> set digest_modes then (Fail (NoDigestSupport (actual_digest digest)), a)
      else
        (case ao_choose ao salt_digest_modes a of
           (Inl e, a) \<Rightarrow> (Raise e, a)
         | (Inr salt_digest, a) \<Rightarrow>
             if salt_digest \<in> set insecure_salt_digests then (Fail (InsecureSaltDigest salt_digest), a)
             else (Challenge salt digest salt_digest (case prompt of Some t \<Rightarrow> t | None \<Rightarrow> ao_prompt ao a), a)))"

text \<open>\<^verbatim>\<open>verify_authenticator\<close>, and whether it has cancelled the timer that watches the connection.\<close>

definition verify_authenticator ::
  "'a auth_ops \<Rightarrow> pystr list \<Rightarrow> pystr list \<Rightarrow> tdict \<Rightarrow> auth_world \<Rightarrow> 'a \<Rightarrow> verdict \<times> bool \<times> 'a \<times> auth_world" where
  "verify_authenticator ao digest_modes salt_digest_modes caps w a =
     (if \<not> ao_requires ao a then
        (case ao_authenticate ao caps w a of
           (Inr True, a, w) \<Rightarrow> (Pass, False, ao_set_passed ao a, w)
         | (_, a, w) \<Rightarrow> (Fail NoChallengeFailed, False, a, w))
      else if \<not> ao_sent ao a then
        (case ao_get_challenge ao digest_modes w a of
           (Inl e, a, w) \<Rightarrow> (if challenge_caught e then Fail ChallengeError else Raise e, True, a, w)
         | (Inr (salt, digest), a, w) \<Rightarrow>
             if salt = [] \<and> digest = [] then
               (if ao_requires ao a then Fail InvalidState else fake_verdict digest_modes salt_digest_modes w, True, a, w)
             else
               let (v, a) = offer_challenge ao digest_modes salt_digest_modes salt digest None a
               in (v, True, a, w))
      else
        (case ao_authenticate ao caps w a of
           (Inr True, a, w) \<Rightarrow>
             (case ao_next ao a of
                (None, a) \<Rightarrow> (Pass, False, a, w)
              | (Some (salt, digest, prompt), a) \<Rightarrow>
                  if salt \<noteq> [] \<and> digest \<noteq> [] then
                    let (v, a) = offer_challenge ao digest_modes salt_digest_modes salt digest (Some prompt) a
                    in (v, case v of Challenge _ _ _ _ \<Rightarrow> True | _ \<Rightarrow> False, a, w)
                  else (Pass, False, a, w))
         | (_, a, w) \<Rightarrow> (Fail AuthenticationFailed, False, a, w)))"

section \<open>All the modules\<close>

text \<open>The modules that have passed already are skipped; the first one that does not pass is the last one asked.\<close>

fun verify_modules ::
  "'a auth_ops \<Rightarrow> pystr list \<Rightarrow> pystr list \<Rightarrow> tdict \<Rightarrow> auth_world \<Rightarrow> 'a list \<Rightarrow> verdict \<times> bool \<times> 'a list \<times> auth_world" where
  "verify_modules ao digest_modes salt_digest_modes caps w [] = (Pass, False, [], w)"
| "verify_modules ao digest_modes salt_digest_modes caps w (a # as) =
     (if ao_passed ao a then
        (let (v, t, as, w) = verify_modules ao digest_modes salt_digest_modes caps w as in (v, t, a # as, w))
      else
        (case verify_authenticator ao digest_modes salt_digest_modes caps w a of
           (Pass, t, a, w) \<Rightarrow>
             (let (v, t', as, w) = verify_modules ao digest_modes salt_digest_modes caps w as in (v, t \<or> t', a # as, w))
         | (v, t, a, w) \<Rightarrow> (v, t, a # as, w)))"

definition notify_failed :: "'a auth_ops \<Rightarrow> 'a list \<Rightarrow> auth_world \<Rightarrow> auth_world" where
  "notify_failed ao as w = fold (ao_failed ao) as w"

definition notify_succeeded :: "'a auth_ops \<Rightarrow> 'a list \<Rightarrow> auth_world \<Rightarrow> auth_world" where
  "notify_succeeded ao as w = fold (ao_succeeded ao) as w"

text \<open>
  The connection: its modules, whether the timer is set that closes it unless it is accepted, whether it
  is going to be disconnected, and whether it is closed.
\<close>

record 'a auth_conn =
  av_auths :: "'a list"
  av_timer :: bool
  av_disconnect :: bool
  av_closed :: bool

text \<open>
  The manager: the methods, the modules for a new connection, from what the client says of itself, and
  \<^verbatim>\<open>setup_encryption\<close>, which is given the capabilities and the modules.
\<close>

record ('a, 'e) auth_server =
  as_ops :: "'a auth_ops"
  as_make :: "(string \<times> pystr) list \<Rightarrow> 'a list result"
  as_encryption :: "tdict \<Rightarrow> 'a list \<Rightarrow> 'e result"
  as_lib :: digest_lib

datatype 'e outcome =
    NotConnected
  | Rejected auth_msg
  | NoEncryption
  | Challenged bytes pystr pystr pystr 'e
  | Accepted tdict 'e
  | Errored py_error

definition remote_caps :: "digest_lib \<Rightarrow> tdict \<Rightarrow> (string \<times> pystr) list result" where
  "remote_caps dl caps =
     ebind (emap (\<lambda>k. ebind (caps_str dl k caps) (\<lambda>v. Inr (k, v))) [''hostname'', ''uuid'', ''session-id'', ''username'', ''name''])
       (\<lambda>kvs. Inr (filter (\<lambda>(k, v). v \<noteq> []) kvs))"

text \<open>\<^verbatim>\<open>auth_failed\<close>, which has the client disconnected after a second.\<close>

definition auth_failed :: "'a auth_ops \<Rightarrow> 'a auth_conn \<Rightarrow> auth_world \<Rightarrow> 'a auth_conn \<times> auth_world" where
  "auth_failed ao c w = (c\<lparr>av_disconnect := True\<rparr>, notify_failed ao (av_auths c) w)"

definition init_authenticators ::
  "('a, 'e) auth_server \<Rightarrow> tdict \<Rightarrow> auth_world \<Rightarrow> 'a auth_conn \<Rightarrow> 'e outcome option \<times> 'a auth_conn \<times> auth_world" where
  "init_authenticators sv caps w c =
     (case remote_caps (as_lib sv) caps of
        Inl e \<Rightarrow> (Some (Errored e), c, w)
      | Inr remote \<Rightarrow>
          if av_closed c then (Some NotConnected, c, w)
          else if av_auths c \<noteq> [] then (None, c, w)
          else
            (case as_make sv remote of
               Inr as \<Rightarrow> (None, c\<lparr>av_auths := as\<rparr>, w)
             | Inl _ \<Rightarrow> let (c, w) = auth_failed (as_ops sv) c w in (Some (Rejected SetupFailed), c, w)))"

text \<open>\<^verbatim>\<open>strtupleget\<close> of the text of the items.\<close>

definition caps_strs :: "digest_lib \<Rightarrow> string \<Rightarrow> string list \<Rightarrow> tdict \<Rightarrow> pystr list result" where
  "caps_strs dl k dflt caps =
     ebind (strtupleget (dl_str dl) (\<lambda>_. Inl ValueError) None None (dname k) (map (PStr \<circ> dname) dflt) caps)
       (\<lambda>vs. Inr (map (bytestostr (dl_str dl)) vs))"

text \<open>
  What follows the verdict on the modules: a failure is notified to all of them, a challenge is sent
  and watched, and the connection is accepted when all have passed, unless the client insists on a
  challenge, which is then a fake one.
\<close>

definition conclude ::
  "('a, 'e) auth_server \<Rightarrow> pystr list \<Rightarrow> pystr list \<Rightarrow> 'e \<Rightarrow> tdict \<Rightarrow> verdict \<Rightarrow> auth_world \<Rightarrow> 'a auth_conn \<Rightarrow>
   'e outcome \<times> 'a auth_conn \<times> auth_world" where
  "conclude sv digest_modes salt_digest_modes enc caps v w c =
     (case v of
        Fail msg \<Rightarrow> let (c, w) = auth_failed (as_ops sv) c w in (Rejected msg, c, w)
      | Challenge salt digest salt_digest prompt \<Rightarrow>
          (Challenged salt digest salt_digest prompt enc, c\<lparr>av_timer := True\<rparr>, w)
      | Raise e \<Rightarrow> (Errored e, c, w)
      | Pass \<Rightarrow>
          (case caps_str (as_lib sv) ''challenge'' caps of
             Inl e \<Rightarrow> (Errored e, c, w)
           | Inr expects \<Rightarrow>
               if expects \<noteq> [] then
                 (case fake_challenge digest_modes salt_digest_modes w of
                    Inl e \<Rightarrow> (Errored e, c, w)
                  | Inr (salt, digest, salt_digest) \<Rightarrow>
                      (Challenged salt digest salt_digest (dname ''password'') enc, c\<lparr>av_timer := True\<rparr>, w))
               else
                 (Accepted caps enc, c\<lparr>av_auths := map (ao_cleanup (as_ops sv)) (av_auths c)\<rparr>,
                  notify_succeeded (as_ops sv) (av_auths c) w)))"

definition verify_auth ::
  "('a, 'e) auth_server \<Rightarrow> tdict \<Rightarrow> auth_world \<Rightarrow> 'a auth_conn \<Rightarrow> 'e outcome \<times> 'a auth_conn \<times> auth_world" where
  "verify_auth sv caps w c =
     (case init_authenticators sv caps w c of
        (Some r, c, w) \<Rightarrow> (r, c, w)
      | (None, c, w) \<Rightarrow>
          (case ebind (caps_strs (as_lib sv) ''digest'' [''hmac''] caps) (\<lambda>digest_modes.
                ebind (caps_strs (as_lib sv) ''salt-digest'' [''xor''] caps) (\<lambda>salt_digest_modes.
                  Inr (digest_modes, salt_digest_modes))) of
             Inl e \<Rightarrow> (Errored e, c, w)
           | Inr (digest_modes, salt_digest_modes) \<Rightarrow>
               (case as_encryption sv caps (av_auths c) of
                  Inl e \<Rightarrow> (if challenge_caught e then NoEncryption else Errored e, c, w)
                | Inr enc \<Rightarrow>
                    (case verify_modules (as_ops sv) digest_modes salt_digest_modes caps w (av_auths c) of
                       (v, cancelled, as, w) \<Rightarrow>
                         conclude sv digest_modes salt_digest_modes enc caps v w
                           (c\<lparr>av_auths := as, av_timer := av_timer c \<and> \<not> cancelled\<rparr>)))))"

section \<open>A connection\<close>

text \<open>
  The hellos of a connection, each with the shared state as it finds it, which the other connections
  change in between. \<open>conn_at\<close>: the connection after some hellos; \<open>answer\<close>: what the next one comes to.
\<close>

type_synonym hello = "tdict \<times> auth_world"

definition hello_step :: "('a, 'e) auth_server \<Rightarrow> hello \<Rightarrow> 'a auth_conn \<Rightarrow> 'a auth_conn" where
  "hello_step sv h c = fst (snd (verify_auth sv (fst h) (snd h) c))"

definition conn_at :: "('a, 'e) auth_server \<Rightarrow> hello list \<Rightarrow> 'a auth_conn \<Rightarrow> 'a auth_conn" where
  "conn_at sv hs c = fold (hello_step sv) hs c"

definition answer :: "('a, 'e) auth_server \<Rightarrow> hello \<Rightarrow> 'a auth_conn \<Rightarrow> 'e outcome" where
  "answer sv h c = fst (verify_auth sv (fst h) (snd h) c)"

definition is_accepted :: "'e outcome \<Rightarrow> bool" where
  "is_accepted r \<longleftrightarrow> (case r of Accepted _ _ \<Rightarrow> True | _ \<Rightarrow> False)"

text \<open>What the shared state has to be like: the system's random bytes are as many as asked for.\<close>

definition world_ok :: "auth_world \<Rightarrow> bool" where
  "world_ok w \<longleftrightarrow> (\<forall>n. length (aw_urandom w n) = n)"

definition same_env :: "auth_world \<Rightarrow> auth_world \<Rightarrow> bool" where
  "same_env w w' \<longleftrightarrow> aw_now w' = aw_now w \<and> aw_urandom w' = aw_urandom w"

lemma same_env_refl [simp]: "same_env w w"
  by (simp add: same_env_def)

lemma same_env_trans: "same_env w w' \<Longrightarrow> same_env w' w'' \<Longrightarrow> same_env w w''"
  by (simp add: same_env_def)

lemma same_env_ok: "same_env w w' \<Longrightarrow> world_ok w \<Longrightarrow> world_ok w'"
  by (simp add: same_env_def world_ok_def)

section \<open>What the manager relies on\<close>

text \<open>
  A module keeps what it is, \<open>ident\<close>, and its salt, unless it drops it or draws a new one; \<open>proves\<close>:
  the client proves who it is with these capabilities. A module that is asked for a challenge and has
  been given a wrong answer is \<open>spent\<close>, and never succeeds.
\<close>

definition kept :: "('a \<Rightarrow> bool) \<Rightarrow> ('a \<Rightarrow> 'i) \<Rightarrow> ('a \<Rightarrow> bytes option) \<Rightarrow> auth_world \<Rightarrow> 'a \<Rightarrow> 'a \<Rightarrow> bool" where
  "kept good ident salt_of w a a' \<longleftrightarrow>
     good a' \<and> ident a' = ident a \<and> salt_of a' \<in> {None, salt_of a, Some (aw_urandom w DEFAULT_SALT_LENGTH)}"

lemma kept_refl: "good a \<Longrightarrow> kept good ident salt_of w a a"
  by (simp add: kept_def)

lemma kept_trans: "kept good ident salt_of w a a' \<Longrightarrow> kept good ident salt_of w' a' a'' \<Longrightarrow> same_env w w' \<Longrightarrow>
    kept good ident salt_of w a a''"
  by (auto simp: kept_def same_env_def)

locale auth_modules =
  fixes ao :: "'a auth_ops" and good :: "'a \<Rightarrow> bool" and ident :: "'a \<Rightarrow> 'i" and salt_of :: "'a \<Rightarrow> bytes option"
    and proves :: "tdict \<Rightarrow> auth_world \<Rightarrow> 'a \<Rightarrow> bool" and spent :: "'a \<Rightarrow> bool" and answers :: "tdict \<Rightarrow> bool"
  assumes challenge_kept: "good a \<Longrightarrow> world_ok w \<Longrightarrow> ao_requires ao a \<Longrightarrow> \<not> ao_sent ao a \<Longrightarrow>
      ao_get_challenge ao ds w a = (r, a', w') \<Longrightarrow>
      kept good ident salt_of w a a' \<and> ao_passed ao a' = ao_passed ao a \<and> (spent a \<longrightarrow> spent a') \<and> same_env w w'"
    and choose_kept: "good a \<Longrightarrow> ao_choose ao ds a = (r', a') \<Longrightarrow>
      kept good ident salt_of w a a' \<and> ao_passed ao a' = ao_passed ao a \<and> (spent a \<longrightarrow> spent a')"
    and next_kept: "good a \<Longrightarrow> ao_next ao a = (n, a') \<Longrightarrow>
      kept good ident salt_of w a a' \<and> ao_passed ao a' = ao_passed ao a \<and> (spent a \<longrightarrow> spent a')"
    and cleanup_kept: "good a \<Longrightarrow>
      kept good ident salt_of w a (ao_cleanup ao a) \<and> ao_passed ao (ao_cleanup ao a) = ao_passed ao a \<and>
      (spent a \<longrightarrow> spent (ao_cleanup ao a))"
    and set_passed_kept: "good a \<Longrightarrow> kept good ident salt_of w a (ao_set_passed ao a)"
    and authenticate_kept: "good a \<Longrightarrow> world_ok w \<Longrightarrow> ao_authenticate ao caps w a = (b, a', w') \<Longrightarrow>
      kept good ident salt_of w a a' \<and> (ao_passed ao a' \<longrightarrow> ao_passed ao a \<or> proves caps w a) \<and>
      (spent a \<longrightarrow> spent a') \<and> same_env w w'"
    and authenticate_proves: "good a \<Longrightarrow> world_ok w \<Longrightarrow> \<not> ao_passed ao a \<Longrightarrow>
      ao_authenticate ao caps w a = (Inr True, a', w') \<Longrightarrow>
      proves caps w a \<or>
      ao_requires ao a \<and> (\<exists>salt digest prompt. fst (ao_next ao a') = Some (salt, digest, prompt) \<and> salt \<noteq> [] \<and> digest \<noteq> [])"
    and spent_never: "good a \<Longrightarrow> spent a \<Longrightarrow> ao_requires ao a \<and> \<not> ao_passed ao a"
    and spent_fails: "good a \<Longrightarrow> world_ok w \<Longrightarrow> spent a \<Longrightarrow> ao_authenticate ao caps w a = (b, a', w') \<Longrightarrow> b \<noteq> Inr True"
    and wrong_spent: "good a \<Longrightarrow> world_ok w \<Longrightarrow> \<not> ao_passed ao a \<Longrightarrow> ao_requires ao a \<Longrightarrow> ao_sent ao a \<Longrightarrow> answers caps \<Longrightarrow>
      ao_authenticate ao caps w a = (b, a', w') \<Longrightarrow> b \<noteq> Inr True \<Longrightarrow> spent a'"
    and notified: "same_env w (ao_failed ao a w)" "same_env w (ao_succeeded ao a w)"
begin

definition stepped :: "tdict \<Rightarrow> auth_world \<Rightarrow> 'a \<Rightarrow> 'a \<Rightarrow> bool" where
  "stepped caps w a a' \<longleftrightarrow>
     kept good ident salt_of w a a' \<and> (spent a \<longrightarrow> spent a') \<and>
     (ao_passed ao a' \<longrightarrow> ao_passed ao a \<or> (\<exists>w'. same_env w w' \<and> proves caps w' a))"

lemma stepped_refl: "good a \<Longrightarrow> stepped caps w a a"
  by (simp add: stepped_def kept_refl)

lemma stepped_env: "stepped caps w' a a' \<Longrightarrow> same_env w w' \<Longrightarrow> stepped caps w a a'"
  unfolding stepped_def by (auto simp: kept_def same_env_def)

lemma stepped_then:
  assumes "stepped caps w a a'" "kept good ident salt_of w a' a''" "ao_passed ao a'' = ao_passed ao a'" "spent a' \<longrightarrow> spent a''"
  shows "stepped caps w a a''"
  using assms kept_trans [OF _ assms(2)] unfolding stepped_def by auto

lemma offer_stepped:
  assumes g: "good a" and o: "offer_challenge ao ds sds salt digest prompt a = (v, a')"
  shows "kept good ident salt_of w a a' \<and> ao_passed ao a' = ao_passed ao a \<and> (spent a \<longrightarrow> spent a') \<and>
    v \<noteq> Pass \<and> v \<noteq> Fail AuthenticationFailed"
proof (cases "actual_digest digest \<in> set ds")
  case False
  with o g show ?thesis by (auto simp: offer_challenge_def kept_refl)
next
  case True
  obtain r a1 where c: "ao_choose ao sds a = (r, a1)" by fastforce
  have "a' = a1" "v \<noteq> Pass" "v \<noteq> Fail AuthenticationFailed"
    using o True c by (auto simp: offer_challenge_def split: sum.splits if_splits)
  with choose_kept [OF g c, of w] show ?thesis by simp
qed

lemma ask_stepped:
  assumes a: "good a" "world_ok w" "ao_requires ao a" "\<not> ao_sent ao a"
    and v: "verify_authenticator ao ds sds caps w a = (v, t, a', w')"
  shows "stepped caps w a a' \<and> same_env w w' \<and> v \<noteq> Pass \<and> v \<noteq> Fail AuthenticationFailed"
proof -
  obtain r a1 w1 where g: "ao_get_challenge ao ds w a = (r, a1, w1)" by (metis prod_cases3)
  note k = challenge_kept [OF a g]
  have s1: "stepped caps w a a1" using k by (simp add: stepped_def)
  show ?thesis
  proof (cases r)
    case (Inl e)
    with v a g have "a' = a1" "w' = w1" "v \<noteq> Pass" "v \<noteq> Fail AuthenticationFailed"
      by (auto simp: verify_authenticator_def split: if_splits)
    with k s1 show ?thesis by simp
  next
    case (Inr sd)
    obtain salt digest where sd: "sd = (salt, digest)" by fastforce
    show ?thesis
    proof (cases "salt = [] \<and> digest = []")
      case True
      with v a g Inr sd have "a' = a1" "w' = w1" "v \<noteq> Pass" "v \<noteq> Fail AuthenticationFailed"
        by (auto simp: verify_authenticator_def fake_verdict_def split: if_splits sum.splits prod.splits)
      with k s1 show ?thesis by simp
    next
      case False
      obtain v2 a2 where o: "offer_challenge ao ds sds salt digest None a1 = (v2, a2)" by fastforce
      with v a g Inr sd False have e: "a' = a2" "w' = w1" "v = v2"
        by (auto simp: verify_authenticator_def)
      have "good a1" using k by (simp add: kept_def)
      from offer_stepped [OF this o, of w] stepped_then [OF s1] e k show ?thesis by auto
    qed
  qed
qed

lemma check_stepped:
  assumes a: "good a" "world_ok w" "ao_requires ao a" "ao_sent ao a"
    and v: "verify_authenticator ao ds sds caps w a = (v, t, a', w')"
  shows "stepped caps w a a' \<and> same_env w w' \<and> (v = Pass \<and> \<not> ao_passed ao a \<longrightarrow> proves caps w a) \<and>
    (spent a \<longrightarrow> v \<noteq> Pass) \<and> (v = Fail AuthenticationFailed \<and> answers caps \<and> \<not> ao_passed ao a \<longrightarrow> spent a')"
proof -
  obtain b a1 w1 where g: "ao_authenticate ao caps w a = (b, a1, w1)" by (metis prod_cases3)
  note k = authenticate_kept [OF a(1,2) g]
  have s1: "stepped caps w a a1" using k same_env_refl unfolding stepped_def by blast
  have never: "\<not> spent a" if "b = Inr True"
    using spent_fails [OF a(1,2) _ g] that by auto
  show ?thesis
  proof (cases "b = Inr True")
    case False
    with v a g have e: "a' = a1" "w' = w1" "v = Fail AuthenticationFailed"
      by (auto simp: verify_authenticator_def split: sum.splits bool.splits)
    with k s1 wrong_spent [OF a(1,2) _ a(3,4) _ g False] show ?thesis by auto
  next
    case True
    obtain n a2 where n: "ao_next ao a1 = (n, a2)" by fastforce
    have g1: "good a1" using k by (simp add: kept_def)
    note k2 = next_kept [OF g1 n, of w]
    have g2: "good a2" using k2 by (simp add: kept_def)
    have s2: "stepped caps w a a2" using stepped_then [OF s1] k2 by blast
    show ?thesis
    proof (cases "\<exists>salt digest prompt. n = Some (salt, digest, prompt) \<and> salt \<noteq> [] \<and> digest \<noteq> []")
      case False
      with v a g True n have e: "a' = a2" "w' = w1" "v = Pass"
        by (auto simp: verify_authenticator_def split: option.splits if_splits)
      from authenticate_proves [OF a(1,2) _ g [unfolded True]] False n
      have "\<not> ao_passed ao a \<longrightarrow> proves caps w a" by auto
      with e k s2 never [OF True] show ?thesis by simp
    next
      case more: True
      then obtain salt digest prompt where nn: "n = Some (salt, digest, prompt)" "salt \<noteq> []" "digest \<noteq> []" by blast
      obtain v3 a3 where o: "offer_challenge ao ds sds salt digest (Some prompt) a2 = (v3, a3)" by fastforce
      with v a g True n nn have e: "a' = a3" "w' = w1" "v = v3"
        by (auto simp: verify_authenticator_def)
      from offer_stepped [OF g2 o, of w] stepped_then [OF s2] e k show ?thesis by auto
    qed
  qed
qed

lemma free_stepped:
  assumes a: "good a" "world_ok w" "\<not> ao_requires ao a"
    and v: "verify_authenticator ao ds sds caps w a = (v, t, a', w')"
  shows "(\<not> ao_passed ao a \<longrightarrow> stepped caps w a a' \<and> (v = Pass \<longrightarrow> proves caps w a)) \<and> same_env w w' \<and>
    v \<noteq> Fail AuthenticationFailed"
proof -
  obtain b a1 w1 where g: "ao_authenticate ao caps w a = (b, a1, w1)" by (metis prod_cases3)
  note k = authenticate_kept [OF a(1,2) g]
  have n: "\<not> spent a" using spent_never [OF a(1)] a(3) by blast
  show ?thesis
  proof (cases "b = Inr True")
    case False
    with v a g have "a' = a1" "w' = w1" "v = Fail NoChallengeFailed"
      by (auto simp: verify_authenticator_def split: sum.splits bool.splits)
    with k show ?thesis unfolding stepped_def using same_env_refl by blast
  next
    case True
    with v a g have e: "a' = ao_set_passed ao a1" "w' = w1" "v = Pass"
      by (auto simp: verify_authenticator_def)
    have "good a1" using k by (simp add: kept_def)
    from kept_trans [OF _ set_passed_kept [OF this, of w] same_env_refl] k
    have k2: "kept good ident salt_of w a (ao_set_passed ao a1)" by blast
    from authenticate_proves [OF a(1,2) _ g [unfolded True]] a(3) have p: "\<not> ao_passed ao a \<longrightarrow> proves caps w a" by blast
    have "stepped caps w a a'" if "\<not> ao_passed ao a"
      unfolding stepped_def e using k2 n p that same_env_refl by blast
    with e k p show ?thesis by simp
  qed
qed

lemma verify_authenticator_stepped:
  assumes "good a" "world_ok w" "\<not> ao_passed ao a" "verify_authenticator ao ds sds caps w a = (v, t, a', w')"
  shows "stepped caps w a a'" "same_env w w'" "v = Pass \<Longrightarrow> proves caps w a" "v = Pass \<Longrightarrow> \<not> spent a"
    "v = Fail AuthenticationFailed \<Longrightarrow> answers caps \<Longrightarrow> spent a'"
  using ask_stepped [OF assms(1,2) _ _ assms(4)] check_stepped [OF assms(1,2) _ _ assms(4)]
    free_stepped [OF assms(1,2) _ assms(4)] spent_never [OF assms(1)] assms(3)
  by (metis (no_types))+

lemma verify_modules_stepped:
  assumes "\<forall>a\<in>set as. good a" "world_ok w" "verify_modules ao ds sds caps w as = (v, t, as', w')"
  shows "list_all2 (stepped caps w) as as' \<and> same_env w w' \<and>
    (v = Pass \<longrightarrow> (\<forall>a\<in>set as. ao_passed ao a \<or> (\<exists>w'. same_env w w' \<and> proves caps w' a))) \<and>
    (v = Pass \<longrightarrow> (\<forall>a\<in>set as. \<not> spent a)) \<and>
    (v = Fail AuthenticationFailed \<and> answers caps \<longrightarrow> (\<exists>a\<in>set as'. spent a))"
  using assms
proof (induction as arbitrary: w v t as' w')
  case Nil
  then show ?case by simp
next
  case (Cons a as)
  have g: "good a" and gs: "\<forall>a\<in>set as. good a" using Cons.prems(1) by auto
  have ident_steps: "list_all2 (stepped caps w) xs xs" if "\<forall>a\<in>set xs. good a" for xs
    using that by (induction xs) (auto simp: stepped_refl)
  show ?case
  proof (cases "ao_passed ao a")
    case True
    obtain v1 t1 as1 w1 where r: "verify_modules ao ds sds caps w as = (v1, t1, as1, w1)" by (metis prod_cases4)
    with Cons.prems(3) True have e: "v = v1" "as' = a # as1" "w' = w1" by auto
    have n: "\<not> spent a" using spent_never [OF g] True by blast
    from Cons.IH [OF gs Cons.prems(2) r] e stepped_refl [OF g, of caps w] n True show ?thesis by auto
  next
    case False
    obtain v1 t1 a1 w1 where r1: "verify_authenticator ao ds sds caps w a = (v1, t1, a1, w1)" by (metis prod_cases4)
    note s = verify_authenticator_stepped [OF g Cons.prems(2) False r1]
    show ?thesis
    proof (cases "v1 = Pass")
      case stop: False
      with Cons.prems(3) False r1 have "v = v1" "as' = a1 # as" "w' = w1" by (auto split: verdict.splits)
      with s stop ident_steps [OF gs] show ?thesis by auto
    next
      case True
      obtain v2 t2 as2 w2 where r2: "verify_modules ao ds sds caps w1 as = (v2, t2, as2, w2)" by (metis prod_cases4)
      with Cons.prems(3) False r1 True have e: "v = v2" "as' = a1 # as2" "w' = w2" by auto
      note IH = Cons.IH [OF gs same_env_ok [OF s(2) Cons.prems(2)] r2]
      have "list_all2 (stepped caps w) as as2"
        using list_all2_mono [OF conjunct1 [OF IH], of "stepped caps w"] stepped_env [OF _ s(2)] by blast
      moreover have "\<exists>w'. same_env w w' \<and> proves caps w' x" if "\<exists>w'. same_env w1 w' \<and> proves caps w' x" for x
        using that same_env_trans [OF s(2)] by blast
      ultimately show ?thesis
        using e s(1) s(3,4) [OF True] IH same_env_trans [OF s(2)] same_env_refl by auto
    qed
  qed
qed

lemma notify_env: "same_env w (notify_failed ao as w)" "same_env w (notify_succeeded ao as w)"
proof -
  have "same_env w (fold f as w)" if "\<And>a w. same_env w (f a w)" for f :: "'a \<Rightarrow> auth_world \<Rightarrow> auth_world"
  proof (induction as arbitrary: w)
    case (Cons a as)
    show ?case using same_env_trans [OF that Cons] by simp
  qed simp
  then show "same_env w (notify_failed ao as w)" "same_env w (notify_succeeded ao as w)"
    using notified by (auto simp: notify_failed_def notify_succeeded_def)
qed

text \<open>One hello, once the connection has its modules.\<close>

lemma hello_stepped:
  assumes o: "as_ops sv = ao" and g: "\<forall>a\<in>set (av_auths c). good a" and w: "world_ok w" and ne: "av_auths c \<noteq> []"
  shows "list_all2 (stepped caps w) (av_auths c) (av_auths (hello_step sv (caps, w) c)) \<and>
    (is_accepted (answer sv (caps, w) c) \<longrightarrow>
      (\<forall>a\<in>set (av_auths c). (ao_passed ao a \<or> (\<exists>w'. same_env w w' \<and> proves caps w' a)) \<and> \<not> spent a)) \<and>
    (answer sv (caps, w) c = Rejected AuthenticationFailed \<and> answers caps \<longrightarrow>
      (\<exists>a\<in>set (av_auths (hello_step sv (caps, w) c)). spent a))"
proof -
  have steps: "list_all2 (stepped caps w) (av_auths c) (av_auths c)"
    using g by (simp add: list_all2_same stepped_refl)
  show ?thesis
  proof (cases "\<exists>r c' w'. init_authenticators sv caps w c = (Some r, c', w')")
    case True
    then obtain r c' w' where i: "init_authenticators sv caps w c = (Some r, c', w')" by blast
    with ne have "c' = c" "\<not> is_accepted r" "r \<noteq> Rejected AuthenticationFailed"
      by (auto simp: init_authenticators_def is_accepted_def split: sum.splits if_splits)
    with i steps show ?thesis by (simp add: hello_step_def answer_def verify_auth_def)
  next
    case False
    then have i: "init_authenticators sv caps w c = (None, c, w)"
      using ne by (auto simp: init_authenticators_def split: sum.splits if_splits)
    let ?m = "ebind (caps_strs (as_lib sv) ''digest'' [''hmac''] caps) (\<lambda>digest_modes.
                ebind (caps_strs (as_lib sv) ''salt-digest'' [''xor''] caps) (\<lambda>salt_digest_modes.
                  Inr (digest_modes, salt_digest_modes)))"
    show ?thesis
    proof (cases ?m)
      case (Inl e)
      then show ?thesis using i steps by (simp add: hello_step_def answer_def verify_auth_def is_accepted_def)
    next
      case (Inr m)
      obtain ds sds where m: "m = (ds, sds)" by fastforce
      show ?thesis
      proof (cases "as_encryption sv caps (av_auths c)")
        case (Inl e)
        then show ?thesis using i Inr m steps by (simp add: hello_step_def answer_def verify_auth_def is_accepted_def)
      next
        case enc: (Inr enc)
        obtain v t as' w' where v: "verify_modules ao ds sds caps w (av_auths c) = (v, t, as', w')" by (metis prod_cases4)
        let ?c = "c\<lparr>av_auths := as', av_timer := av_timer c \<and> \<not> t\<rparr>"
        have r: "verify_auth sv caps w c = conclude sv ds sds enc caps v w' ?c"
          using i Inr m enc v o by (simp add: verify_auth_def)
        note V = verify_modules_stepped [OF g w v]
        have cl: "list_all2 (stepped caps w) (av_auths c) (map (ao_cleanup ao) as')"
        proof -
          have "stepped caps w a (ao_cleanup ao a')" if "stepped caps w a a'" for a a'
          proof -
            have "good a'" using that by (simp add: stepped_def kept_def)
            from cleanup_kept [OF this, of w] stepped_then [OF that] show ?thesis by blast
          qed
          then show ?thesis using V by (auto simp: list_all2_conv_all_nth)
        qed
        show ?thesis
        proof (cases v)
          case Pass
          with r V cl o show ?thesis
            by (auto simp: hello_step_def answer_def conclude_def is_accepted_def split: sum.splits if_splits)
        qed (use r V o in \<open>auto simp: hello_step_def answer_def conclude_def auth_failed_def is_accepted_def\<close>)
      qed
    qed
  qed
qed

text \<open>A connection: what its hellos have proved to its modules.\<close>

definition proved_at :: "('a, 'e) auth_server \<Rightarrow> hello list \<Rightarrow> 'a auth_conn \<Rightarrow> nat \<Rightarrow> nat \<Rightarrow> bool" where
  "proved_at sv hs c i j \<longleftrightarrow>
     (\<exists>w'. same_env (snd (hs ! j)) w' \<and> proves (fst (hs ! j)) w' (av_auths (conn_at sv (take j hs) c) ! i))"

definition drawn_before :: "hello list \<Rightarrow> nat \<Rightarrow> 'a \<Rightarrow> bool" where
  "drawn_before hs n a \<longleftrightarrow>
     (\<forall>s. salt_of a = Some s \<longrightarrow> (\<exists>h\<in>set (take n hs). s = aw_urandom (snd h) DEFAULT_SALT_LENGTH))"

definition fresh :: "'a auth_conn \<Rightarrow> bool" where
  "fresh c \<longleftrightarrow> av_auths c \<noteq> [] \<and> (\<forall>a\<in>set (av_auths c). good a \<and> \<not> ao_passed ao a \<and> salt_of a = None)"

lemma conn_at_snoc: "conn_at sv (hs @ [h]) c = hello_step sv h (conn_at sv hs c)"
  by (simp add: conn_at_def)

lemma proved_at_snoc: "j < length hs \<Longrightarrow> proved_at sv (hs @ hs') c i j = proved_at sv hs c i j"
  by (simp add: proved_at_def nth_append)

lemma run_invariant:
  assumes o: "as_ops sv = ao" and f: "fresh c" and w: "\<forall>h\<in>set hs. world_ok (snd h)"
  shows "length (av_auths (conn_at sv hs c)) = length (av_auths c) \<and>
    (\<forall>i<length (av_auths c). good (av_auths (conn_at sv hs c) ! i) \<and>
      ident (av_auths (conn_at sv hs c) ! i) = ident (av_auths c ! i) \<and>
      drawn_before hs (length hs) (av_auths (conn_at sv hs c) ! i) \<and>
      (ao_passed ao (av_auths (conn_at sv hs c) ! i) \<longrightarrow> (\<exists>j<length hs. proved_at sv hs c i j)))"
  using w
proof (induction hs rule: rev_induct)
  case Nil
  from f show ?case by (auto simp: conn_at_def drawn_before_def fresh_def)
next
  case (snoc h hs)
  let ?c = "conn_at sv hs c" and ?c' = "conn_at sv (hs @ [h]) c"
  obtain caps w where h: "h = (caps, w)" by fastforce
  have IH: "length (av_auths ?c) = length (av_auths c)"
    "\<And>i. i < length (av_auths c) \<Longrightarrow> good (av_auths ?c ! i) \<and> ident (av_auths ?c ! i) = ident (av_auths c ! i) \<and>
      drawn_before hs (length hs) (av_auths ?c ! i) \<and>
      (ao_passed ao (av_auths ?c ! i) \<longrightarrow> (\<exists>j<length hs. proved_at sv hs c i j))"
    using snoc.IH snoc.prems by auto
  have g: "\<forall>a\<in>set (av_auths ?c). good a" using IH by (auto simp: in_set_conv_nth)
  have wk: "world_ok w" using snoc.prems h by simp
  have ne: "av_auths ?c \<noteq> []" using IH(1) f by (auto simp: fresh_def)
  have steps: "list_all2 (stepped caps w) (av_auths ?c) (av_auths ?c')"
    using hello_stepped [OF o g wk ne, of caps] unfolding conn_at_snoc h by blast
  show ?case
  proof (intro conjI allI impI)
    show "length (av_auths ?c') = length (av_auths c)" using steps IH(1) by (simp add: list_all2_lengthD)
  next
    fix i assume i: "i < length (av_auths c)"
    have s: "stepped caps w (av_auths ?c ! i) (av_auths ?c' ! i)"
      using steps i IH(1) by (simp add: list_all2_nthD)
    show "good (av_auths ?c' ! i)" "ident (av_auths ?c' ! i) = ident (av_auths c ! i)"
      using s IH(2) [OF i] by (simp_all add: stepped_def kept_def)
    show "drawn_before (hs @ [h]) (length (hs @ [h])) (av_auths ?c' ! i)"
      using s IH(2) [OF i] h by (auto simp: stepped_def kept_def drawn_before_def)
    show "\<exists>j<length (hs @ [h]). proved_at sv (hs @ [h]) c i j" if p: "ao_passed ao (av_auths ?c' ! i)"
    proof (cases "ao_passed ao (av_auths ?c ! i)")
      case True
      with IH(2) [OF i] obtain j where "j < length hs" "proved_at sv hs c i j" by blast
      then show ?thesis by (metis proved_at_snoc less_SucI length_append_singleton)
    next
      case False
      with s p have "proved_at sv (hs @ [h]) c i (length hs)"
        by (simp add: stepped_def proved_at_def h)
      then show ?thesis by auto
    qed
  qed
qed

theorem accepted_has_proved:
  assumes o: "as_ops sv = ao" and f: "fresh c" and w: "\<forall>h\<in>set (hs @ [h]). world_ok (snd h)"
    and acc: "is_accepted (answer sv h (conn_at sv hs c))" and i: "i < length (av_auths c)"
  shows "\<exists>j\<le>length hs. proved_at sv (hs @ [h]) c i j \<and>
    ident (av_auths (conn_at sv (take j hs) c) ! i) = ident (av_auths c ! i) \<and>
    drawn_before hs j (av_auths (conn_at sv (take j hs) c) ! i)"
proof -
  let ?c = "conn_at sv hs c"
  obtain caps w where h: "h = (caps, w)" by fastforce
  have inv: "length (av_auths (conn_at sv (take j hs) c)) = length (av_auths c) \<and>
    (\<forall>i<length (av_auths c). good (av_auths (conn_at sv (take j hs) c) ! i) \<and>
      ident (av_auths (conn_at sv (take j hs) c) ! i) = ident (av_auths c ! i) \<and>
      drawn_before hs j (av_auths (conn_at sv (take j hs) c) ! i) \<and>
      (ao_passed ao (av_auths (conn_at sv (take j hs) c) ! i) \<longrightarrow> (\<exists>k<j. proved_at sv hs c i k)))" if j: "j \<le> length hs" for j
  proof -
    have "\<forall>h\<in>set (take j hs). world_ok (snd h)" using assms(3) by (auto dest: in_set_takeD)
    note r = run_invariant [OF o f this]
    have "proved_at sv (take j hs) c i k = proved_at sv hs c i k" if "k < j" for i k
      using proved_at_snoc [of k "take j hs" sv "drop j hs" c i] that j by simp
    moreover have "drawn_before (take j hs) j a = drawn_before hs j a" for a
      by (simp add: drawn_before_def)
    moreover have "length (take j hs) = j" using j by simp
    ultimately show ?thesis using r by (metis (no_types, lifting))
  qed
  have inv': "length (av_auths ?c) = length (av_auths c)" "\<forall>a\<in>set (av_auths ?c). good a"
    "ao_passed ao (av_auths ?c ! i) \<Longrightarrow> \<exists>k<length hs. proved_at sv hs c i k"
    using inv [OF order_refl] i by (auto simp: in_set_conv_nth)
  have "av_auths ?c \<noteq> []" using f inv'(1) by (auto simp: fresh_def)
  from hello_stepped [OF o inv'(2) _ this, of w caps] acc h w
  have p: "\<forall>a\<in>set (av_auths ?c). ao_passed ao a \<or> (\<exists>w'. same_env w w' \<and> proves caps w' a)" by auto
  have "\<exists>j\<le>length hs. proved_at sv (hs @ [h]) c i j"
  proof (cases "ao_passed ao (av_auths ?c ! i)")
    case True
    with inv'(3) obtain k where "k < length hs" "proved_at sv hs c i k" by blast
    then show ?thesis by (metis proved_at_snoc less_imp_le)
  next
    case False
    have "av_auths ?c ! i \<in> set (av_auths ?c)" using i inv'(1) by simp
    with p False have "proved_at sv (hs @ [h]) c i (length hs)" by (auto simp: proved_at_def h)
    then show ?thesis by blast
  qed
  then obtain j where "j \<le> length hs" "proved_at sv (hs @ [h]) c i j" by blast
  with inv i show ?thesis by blast
qed

lemma spent_stays:
  assumes "list_all2 (stepped caps w) as as'" "\<exists>a\<in>set as. spent a"
  shows "\<exists>a\<in>set as'. spent a"
  using assms by (induction rule: list_all2_induct) (auto simp: stepped_def)

text \<open>A connection that has given a wrong answer is never accepted.\<close>

theorem wrong_answer_final:
  assumes o: "as_ops sv = ao" and f: "fresh c" and w: "\<forall>h\<in>set (hs @ [h] @ hs' @ [h']). world_ok (snd h)"
    and a: "answers (fst h)" and r: "answer sv h (conn_at sv hs c) = Rejected AuthenticationFailed"
  shows "\<not> is_accepted (answer sv h' (conn_at sv (hs @ [h] @ hs') c))"
proof -
  have good: "\<forall>a\<in>set (av_auths (conn_at sv gs c)). good a" "av_auths (conn_at sv gs c) \<noteq> []"
    if "\<forall>h\<in>set gs. world_ok (snd h)" for gs
    using run_invariant [OF o f that] f by (auto simp: in_set_conv_nth fresh_def)
  have step: "av_auths c' = av_auths (conn_at sv gs c) \<Longrightarrow> list_all2 (stepped caps u) (av_auths c') (av_auths (hello_step sv (caps, u) c'))"
    if "\<forall>h\<in>set gs. world_ok (snd h)" "world_ok u" for gs caps u c'
    using hello_stepped [OF o _ that(2), of c' caps] good [OF that(1)] by simp
  have "\<exists>a\<in>set (av_auths (conn_at sv (hs @ [h] @ gs) c)). spent a" if "\<forall>h\<in>set gs. world_ok (snd h)" for gs
    using that
  proof (induction gs rule: rev_induct)
    case Nil
    have hs: "\<forall>h\<in>set hs. world_ok (snd h)" "world_ok (snd h)" using w by auto
    from hello_stepped [OF o good(1) [OF hs(1)] hs(2) good(2) [OF hs(1)], of "fst h"] r a
    show ?case by (simp add: conn_at_snoc)
  next
    case (snoc g gs)
    let ?c = "conn_at sv (hs @ [h] @ gs) c"
    have wk: "\<forall>h\<in>set (hs @ [h] @ gs). world_ok (snd h)" "world_ok (snd g)" using w snoc.prems by auto
    have "list_all2 (stepped (fst g) (snd g)) (av_auths ?c) (av_auths (hello_step sv g ?c))"
      using step [OF wk refl, of "fst g"] by simp
    moreover from snoc have "\<exists>a\<in>set (av_auths ?c). spent a" by auto
    ultimately have "\<exists>a\<in>set (av_auths (hello_step sv g ?c)). spent a"
      by (rule spent_stays)
    then show ?case using conn_at_snoc [of sv "hs @ [h] @ gs" g c] by simp
  qed
  then have s: "\<exists>a\<in>set (av_auths (conn_at sv (hs @ [h] @ hs') c)). spent a" using w by auto
  have wk: "\<forall>h\<in>set (hs @ [h] @ hs'). world_ok (snd h)" "world_ok (snd h')" using w by auto
  from hello_stepped [OF o good(1) [OF wk(1)] wk(2) good(2) [OF wk(1)], of "fst h'"] s show ?thesis by auto
qed

end

end
