(* ===== verification/AuthModules.thy ===== *)
theory AuthModules
  imports AuthServer
begin

text \<open>
  The authentication modules that the manager is given, each with the methods that its class has or
  inherits: \<^verbatim>\<open>password\<close>, \<^verbatim>\<open>env\<close> and the other classes of \<^verbatim>\<open>SysAuthenticator\<close> that only provide the
  passwords, \<^verbatim>\<open>allow\<close>, \<^verbatim>\<open>none\<close>, \<^verbatim>\<open>ratelimit\<close>, \<^verbatim>\<open>capability\<close>, \<^verbatim>\<open>peercred\<close>, the one-time codes and
  \<^verbatim>\<open>reject\<close>. They satisfy the manager's contract, so what it shows holds of them.
\<close>

section \<open>The modules\<close>

datatype auth_module =
    PasswordModule sys_auth
  | AllowModule sys_auth
  | NoneModule sys_auth
  | GateModule rate_limiter sys_auth
  | CapabilityModule pystr pystr sys_auth
  | PeercredModule bool sys_auth
  | CodeModule code_ops code_auth
  | RejectModule pystr bool bool

text \<open>
  \<^verbatim>\<open>password\<close> has the password that it is given, if any; \<^verbatim>\<open>get_passwords\<close> wraps it. \<^verbatim>\<open>peercred\<close> has
  compared the peer's credentials, if it has got them, when it was made; \<open>allow_uids\<close> and \<open>allow_gids\<close>
  are the lists of its options.
\<close>

definition get_passwords :: "pystr \<Rightarrow> pystr list" where
  "get_passwords p = (if p = [] then [] else [p])"

definition password_authenticator :: "pystr \<Rightarrow> pystr \<Rightarrow> auth_module" where
  "password_authenticator value prompt = PasswordModule (new_sys_auth (get_passwords value) True prompt)"

definition peercred_check :: "int \<Rightarrow> bool \<Rightarrow> int list option \<Rightarrow> int list option \<Rightarrow> (int \<times> int) option \<Rightarrow> bool" where
  "peercred_check owner allow_owner allow_uids allow_gids peercred =
     (case peercred of
        None \<Rightarrow> False
      | Some (uid, gid) \<Rightarrow>
          (allow_owner \<and> uid = owner) \<or>
          (case allow_uids of Some uids \<Rightarrow> uid \<in> set uids | None \<Rightarrow> False) \<or>
          (case allow_gids of Some gids \<Rightarrow> gid \<in> set gids | None \<Rightarrow> False))"

definition capability_authenticate :: "digest_lib \<Rightarrow> pystr \<Rightarrow> pystr \<Rightarrow> tdict \<Rightarrow> bool result" where
  "capability_authenticate dl k v caps = ebind (strget (dl_str dl) k [] caps) (\<lambda>value. Inr (value = v))"

definition reject_get_challenge :: "pystr list \<Rightarrow> auth_world \<Rightarrow> (bytes \<times> pystr) result" where
  "reject_get_challenge ds w =
     ebind (get_salt (aw_urandom w) DEFAULT_SALT_LENGTH) (\<lambda>salt. ebind (choose_digest ds) (\<lambda>d. Inr (salt, d)))"

text \<open>What a class inherits from \<^verbatim>\<open>SysAuthenticator\<close>.\<close>

fun base_of :: "auth_module \<Rightarrow> sys_auth option" where
  "base_of (PasswordModule s) = Some s"
| "base_of (AllowModule s) = Some s"
| "base_of (NoneModule s) = Some s"
| "base_of (GateModule rl s) = Some s"
| "base_of (CapabilityModule k v s) = Some s"
| "base_of (PeercredModule ok s) = Some s"
| "base_of (CodeModule co c) = None"
| "base_of (RejectModule prompt sent passed) = None"

fun with_base :: "sys_auth \<Rightarrow> auth_module \<Rightarrow> auth_module" where
  "with_base s (PasswordModule _) = PasswordModule s"
| "with_base s (AllowModule _) = AllowModule s"
| "with_base s (NoneModule _) = NoneModule s"
| "with_base s (GateModule rl _) = GateModule rl s"
| "with_base s (CapabilityModule k v _) = CapabilityModule k v s"
| "with_base s (PeercredModule ok _) = PeercredModule ok s"
| "with_base s m = m"

fun module_requires :: "auth_module \<Rightarrow> bool" where
  "module_requires (NoneModule s) = False"
| "module_requires (GateModule rl s) = False"
| "module_requires (CapabilityModule k v s) = False"
| "module_requires (PeercredModule ok s) = False"
| "module_requires _ = True"

fun module_sent :: "auth_module \<Rightarrow> bool" where
  "module_sent (CodeModule co c) = ca_challenge_sent c"
| "module_sent (RejectModule prompt sent passed) = sent"
| "module_sent m = (case base_of m of Some s \<Rightarrow> sa_challenge_sent s | None \<Rightarrow> False)"

fun module_passed :: "auth_module \<Rightarrow> bool" where
  "module_passed (CodeModule co c) = ca_passed c"
| "module_passed (RejectModule prompt sent passed) = passed"
| "module_passed m = (case base_of m of Some s \<Rightarrow> sa_passed s | None \<Rightarrow> False)"

fun module_set_passed :: "auth_module \<Rightarrow> auth_module" where
  "module_set_passed (CodeModule co c) = CodeModule co (c\<lparr>ca_passed := True\<rparr>)"
| "module_set_passed (RejectModule prompt sent passed) = RejectModule prompt sent True"
| "module_set_passed m = (case base_of m of Some s \<Rightarrow> with_base (s\<lparr>sa_passed := True\<rparr>) m | None \<Rightarrow> m)"

fun module_prompt :: "auth_module \<Rightarrow> pystr" where
  "module_prompt (CodeModule co c) = ca_prompt c"
| "module_prompt (RejectModule prompt sent passed) = prompt"
| "module_prompt m = (case base_of m of Some s \<Rightarrow> sa_prompt s | None \<Rightarrow> [])"

fun module_get_challenge ::
  "pystr list \<Rightarrow> auth_world \<Rightarrow> auth_module \<Rightarrow> (bytes \<times> pystr) result \<times> auth_module \<times> auth_world" where
  "module_get_challenge ds w (NoneModule s) = (Inr ([], []), NoneModule s, w)"
| "module_get_challenge ds w (CodeModule co c) =
     (let (r, c, w) = code_get_challenge co ds w c in (r, CodeModule co c, w))"
| "module_get_challenge ds w (RejectModule prompt sent passed) =
     (reject_get_challenge ds w, RejectModule prompt True passed, w)"
| "module_get_challenge ds w m =
     (case base_of m of
        Some s \<Rightarrow> let (r, s) = sys_get_challenge ds w s in (r, with_base s m, w)
      | None \<Rightarrow> (Inr ([], []), m, w))"

fun module_authenticate ::
  "digest_lib \<Rightarrow> tdict \<Rightarrow> auth_world \<Rightarrow> auth_module \<Rightarrow> bool result \<times> auth_module \<times> auth_world" where
  "module_authenticate dl caps w (PasswordModule s) =
     (let (r, s, w) = sys_authenticate dl caps w s in (r, PasswordModule s, w))"
| "module_authenticate dl caps w (AllowModule s) = (Inr True, AllowModule s, w)"
| "module_authenticate dl caps w (NoneModule s) = (Inr True, NoneModule s, w)"
| "module_authenticate dl caps w (GateModule rl s) =
     (let ((ok, _), rl, fs) = rl_authenticate rl (aw_now w) (aw_failures w)
      in (Inr ok, GateModule rl s, w\<lparr>aw_failures := fs\<rparr>))"
| "module_authenticate dl caps w (CapabilityModule k v s) =
     (capability_authenticate dl k v caps, CapabilityModule k v s, w)"
| "module_authenticate dl caps w (PeercredModule ok s) = (Inr ok, PeercredModule ok s, w)"
| "module_authenticate dl caps w (CodeModule co c) =
     (let (r, c, w) = code_authenticate co dl caps w c in (r, CodeModule co c, w))"
| "module_authenticate dl caps w (RejectModule prompt sent passed) = (Inr False, RejectModule prompt sent passed, w)"

fun module_next :: "auth_module \<Rightarrow> (bytes \<times> pystr \<times> pystr) option \<times> auth_module" where
  "module_next (CodeModule co c) = (let (n, c) = code_next_challenge c in (n, CodeModule co c))"
| "module_next m = (None, m)"

fun module_choose :: "pystr list \<Rightarrow> auth_module \<Rightarrow> pystr result \<times> auth_module" where
  "module_choose ds (CodeModule co c) =
     (case choose_digest ds of Inl e \<Rightarrow> (Inl e, CodeModule co c) | Inr d \<Rightarrow> (Inr d, CodeModule co (c\<lparr>ca_salt_digest := d\<rparr>)))"
| "module_choose ds (RejectModule prompt sent passed) = (choose_digest ds, RejectModule prompt sent passed)"
| "module_choose ds m =
     (case base_of m of
        Some s \<Rightarrow> let (r, s) = choose_salt_digest ds s in (r, with_base s m)
      | None \<Rightarrow> (choose_digest ds, m))"

fun module_failed :: "auth_module \<Rightarrow> auth_world \<Rightarrow> auth_world" where
  "module_failed (GateModule rl s) w = w\<lparr>aw_failures := rl_auth_failed rl (aw_now w) (aw_failures w)\<rparr>"
| "module_failed m w = w"

fun module_succeeded :: "auth_module \<Rightarrow> auth_world \<Rightarrow> auth_world" where
  "module_succeeded (GateModule rl s) w = w\<lparr>aw_failures := rl_auth_succeeded rl (aw_failures w)\<rparr>"
| "module_succeeded m w = w"

fun module_cleanup :: "auth_module \<Rightarrow> auth_module" where
  "module_cleanup (CodeModule co c) = CodeModule co (code_cleanup c)"
| "module_cleanup m = m"

definition module_ops :: "digest_lib \<Rightarrow> auth_module auth_ops" where
  "module_ops dl =
     \<lparr>ao_requires = module_requires, ao_sent = module_sent, ao_passed = module_passed, ao_set_passed = module_set_passed,
      ao_prompt = module_prompt, ao_get_challenge = module_get_challenge, ao_authenticate = module_authenticate dl,
      ao_next = module_next, ao_choose = module_choose, ao_failed = module_failed, ao_succeeded = module_succeeded,
      ao_cleanup = module_cleanup\<rparr>"

section \<open>What a client proves\<close>

text \<open>A module as its constructor makes it.\<close>

definition made_sys :: "sys_auth \<Rightarrow> sys_auth" where
  "made_sys s = new_sys_auth (sa_passwords s) (sa_hmac s) (sa_prompt s)"

fun made :: "auth_module \<Rightarrow> auth_module" where
  "made (GateModule rl s) = GateModule (rl\<lparr>rl_rejected := False\<rparr>) (made_sys s)"
| "made (CodeModule co c) = CodeModule co (new_code_auth co)"
| "made (RejectModule prompt sent passed) = RejectModule prompt False False"
| "made m = (case base_of m of Some s \<Rightarrow> with_base (made_sys s) m | None \<Rightarrow> m)"

fun module_salt :: "auth_module \<Rightarrow> bytes option" where
  "module_salt (CodeModule co c) = ca_salt c"
| "module_salt m = (case base_of m of Some s \<Rightarrow> sa_salt s | None \<Rightarrow> None)"

text \<open>
  The salt of a response mixes the one of the challenge with the client's; a password is proved by its
  HMAC with that salt, or by the password itself, hidden with it, and a code by its HMAC, in time.
\<close>

definition mixed_salt :: "digest_lib \<Rightarrow> pystr \<Rightarrow> pval \<Rightarrow> bytes option \<Rightarrow> bytes option" where
  "mixed_salt dl salt_digest client_salt server_salt =
     (case gendigest dl salt_digest client_salt server_salt of Inr salt \<Rightarrow> Some salt | Inl _ \<Rightarrow> None)"

definition password_proof :: "digest_lib \<Rightarrow> tdict \<Rightarrow> sys_auth \<Rightarrow> bool" where
  "password_proof dl caps s \<longleftrightarrow>
     (case (caps_bytes dl ''challenge_response'' caps, caps_str dl ''challenge_client_salt'' caps) of
        (Inr response, Inr client_salt) \<Rightarrow>
          response \<noteq> [] \<and> sa_salt s \<noteq> None \<and>
          (case mixed_salt dl (sa_salt_digest s) (PStr client_salt) (sa_salt s) of
             None \<Rightarrow> False
           | Some salt \<Rightarrow>
               if sa_hmac s then list_ex (\<lambda>p. p \<noteq> [] \<and> gendigest dl (sa_digest s) (PStr p) (Some salt) = Inr response) (sa_passwords s)
               else (case gendigest dl (dname ''xor'') (PBytes response) (Some salt) of
                       Inr value \<Rightarrow> check_password dl value s
                     | Inl _ \<Rightarrow> False))
      | _ \<Rightarrow> False)"

definition code_proof :: "digest_lib \<Rightarrow> tdict \<Rightarrow> auth_world \<Rightarrow> code_auth \<Rightarrow> bool" where
  "code_proof dl caps w c \<longleftrightarrow>
     \<not> ca_cancelled c \<and> ca_state c = CodeSent \<and> aw_now w < ca_expires c \<and>
     (case (caps_bytes dl ''challenge_response'' caps, caps_bytes dl ''challenge_client_salt'' caps) of
        (Inr response, Inr client_salt) \<Rightarrow>
          response \<noteq> [] \<and> ca_salt c \<noteq> None \<and>
          (case mixed_salt dl (ca_salt_digest c) (PBytes client_salt) (ca_salt c) of
             None \<Rightarrow> False
           | Some salt \<Rightarrow> gendigest dl (ca_digest c) (PStr (ca_code c)) (Some salt) = Inr response)
      | _ \<Rightarrow> False)"

fun module_proof :: "digest_lib \<Rightarrow> tdict \<Rightarrow> auth_world \<Rightarrow> auth_module \<Rightarrow> bool" where
  "module_proof dl caps w (PasswordModule s) = password_proof dl caps s"
| "module_proof dl caps w (GateModule rl s) = fst (fst (rl_authenticate rl (aw_now w) (aw_failures w)))"
| "module_proof dl caps w (CapabilityModule k v s) = (strget (dl_str dl) k [] caps = Inr v)"
| "module_proof dl caps w (PeercredModule ok s) = ok"
| "module_proof dl caps w (CodeModule co c) = code_proof dl caps w c"
| "module_proof dl caps w (RejectModule prompt sent passed) = False"
| "module_proof dl caps w (AllowModule s) = True"
| "module_proof dl caps w (NoneModule s) = True"

definition answers :: "digest_lib \<Rightarrow> tdict \<Rightarrow> bool" where
  "answers dl caps \<longleftrightarrow>
     caps \<noteq> [] \<and> (case caps_bytes dl ''challenge_response'' caps of Inr r \<Rightarrow> r \<noteq> [] | Inl _ \<Rightarrow> False)"

fun module_spent :: "auth_module \<Rightarrow> bool" where
  "module_spent (PasswordModule s) \<longleftrightarrow> sa_challenge_sent s \<and> \<not> sa_passed s \<and> sa_salt s \<in> {None, Some []}"
| "module_spent (CodeModule co c) \<longleftrightarrow> \<not> ca_passed c \<and> (ca_cancelled c \<or> ca_state c = CodeFailed)"
| "module_spent (RejectModule prompt sent passed) \<longleftrightarrow> \<not> passed"
| "module_spent _ \<longleftrightarrow> False"

text \<open>Nothing decodes as nothing; and a code that has been asked for has its digest.\<close>

fun module_good :: "digest_lib \<Rightarrow> auth_module \<Rightarrow> bool" where
  "module_good dl (PasswordModule s) \<longleftrightarrow> sa_hmac s \<or> dl_unutf8 dl [] = Inr []"
| "module_good dl (CodeModule co c) \<longleftrightarrow> ca_state c \<in> {Address, CodeSent} \<longrightarrow> ca_code_digest c \<noteq> []"
| "module_good dl _ \<longleftrightarrow> True"

section \<open>Passwords\<close>

lemma response_salt_env: "get_response_salt dl sd s c w = (r, w') \<Longrightarrow> same_env w w'"
  by (auto simp: get_response_salt_def same_env_def use_salt_def Let_def split: sum.splits if_splits)

lemma response_salt_mixed: "get_response_salt dl sd s c w = (Inr salt, w') \<Longrightarrow> mixed_salt dl sd c s = Some salt"
  by (auto simp: get_response_salt_def mixed_salt_def split: sum.splits if_splits)

lemma verify_passwords_proof:
  "verify_passwords dl d salt response ps = Inr (Some x) \<Longrightarrow>
    response \<noteq> [] \<and> list_ex (\<lambda>p. p \<noteq> [] \<and> gendigest dl d (PStr p) (Some salt) = Inr response) ps"
  by (induction ps) (auto simp: verify_digest_def ebind_eq_Inr split: if_splits)

definition sys_kept :: "sys_auth \<Rightarrow> sys_auth \<Rightarrow> bool" where
  "sys_kept s s' \<longleftrightarrow>
     made_sys s' = made_sys s \<and> sa_challenge_sent s' = sa_challenge_sent s \<and> sa_passed s' = sa_passed s \<and>
     sa_salt s' \<in> {None, sa_salt s}"

lemma sys_kept_simps [simp]: "sys_kept s s" "sys_kept s (s\<lparr>sa_salt := None\<rparr>)"
    "sys_kept s (s\<lparr>sa_salt := None, sa_password_used := p\<rparr>)" "sys_kept s (s\<lparr>sa_salt_digest := d\<rparr>)"
  by (simp_all add: sys_kept_def made_sys_def new_sys_auth_def)

lemma hmac_kept:
  assumes "authenticate_hmac dl caps w s = (r, s', w')" "sa_hmac s"
  shows "sys_kept s s' \<and> same_env w w' \<and> (r = Inr True \<longrightarrow> password_proof dl caps s) \<and>
    (r \<noteq> Inr True \<and> answers dl caps \<longrightarrow> sa_salt s' \<in> {None, Some []})"
proof -
  obtain c where c: "caps_str dl ''challenge_client_salt'' caps = Inr c" using caps_str_total by blast
  show ?thesis
  proof (cases "caps_bytes dl ''challenge_response'' caps")
    case (Inl e)
    with assms c show ?thesis by (auto simp: authenticate_hmac_def answers_def)
  next
    case (Inr response)
    show ?thesis
    proof (cases "sa_salt s = None \<or> sa_salt s = Some []")
      case True
      with assms c Inr show ?thesis by (auto simp: authenticate_hmac_def)
    next
      case False
      obtain m w1 where m: "get_response_salt dl (sa_salt_digest s) (sa_salt s) (PStr c) w = (m, w1)" by fastforce
      have e: "same_env w w1" using response_salt_env [OF m] .
      show ?thesis
      proof (cases m)
        case (Inl e')
        with assms c Inr False m e show ?thesis by (auto simp: authenticate_hmac_def)
      next
        case (Inr salt)
        note mixed = response_salt_mixed [OF m [unfolded Inr]]
        obtain v where v: "verify_passwords dl (sa_digest s) salt response (sa_passwords s) = v" by blast
        have pf: "password_proof dl caps s" if "v = Inr (Some x)" for x
          using verify_passwords_proof [of dl "sa_digest s" salt response "sa_passwords s" x] v that
            \<open>caps_bytes dl ''challenge_response'' caps = Inr response\<close> c False mixed assms(2)
          by (simp add: password_proof_def)
        from assms(1) c \<open>caps_bytes dl ''challenge_response'' caps = Inr response\<close> False m Inr v e pf show ?thesis
          by (auto simp: authenticate_hmac_def Let_def split: sum.splits option.splits)
      qed
    qed
  qed
qed

lemma check_password_kept: "check_password dl v (s\<lparr>sa_salt := None\<rparr>) = check_password dl v s"
  by (simp add: check_password_def get_password_def)

lemma default_kept:
  assumes "default_authenticate_check dl caps w s = (r, s', w')" "\<not> sa_hmac s" "dl_unutf8 dl [] = Inr []" "answers dl caps"
  shows "sys_kept s s' \<and> same_env w w' \<and> (r = Inr True \<longrightarrow> password_proof dl caps s) \<and>
    (r \<noteq> Inr True \<longrightarrow> sa_salt s' = None)"
proof -
  obtain c where c: "caps_str dl ''challenge_client_salt'' caps = Inr c" using caps_str_total by blast
  obtain response where b: "caps_bytes dl ''challenge_response'' caps = Inr response" "response \<noteq> []"
    using assms(4) by (auto simp: answers_def split: sum.splits)
  show ?thesis
  proof (cases "sa_salt s = None")
    case True
    with assms c b show ?thesis by (auto simp: default_authenticate_check_def check_password_def)
  next
    case False
    obtain m w1 where m: "get_response_salt dl (sa_salt_digest s) (sa_salt s) (PStr c) w = (m, w1)" by fastforce
    have e: "same_env w w1" using response_salt_env [OF m] .
    show ?thesis
    proof (cases m)
      case (Inl e')
      with assms(1) c b False m e show ?thesis by (auto simp: default_authenticate_check_def)
    next
      case (Inr salt)
      note mixed = response_salt_mixed [OF m [unfolded Inr]]
      show ?thesis
      proof (cases "gendigest dl (dname ''xor'') (PBytes response) (Some salt)")
        case (Inl e')
        with assms(1) c b False m e \<open>m = Inr salt\<close> show ?thesis
          by (auto simp: default_authenticate_check_def Let_def)
      next
        case (Inr v)
        have "check_password dl v s \<Longrightarrow> password_proof dl caps s"
          using Inr b c False mixed assms(2) by (simp add: password_proof_def)
        with assms(1) c b False m e \<open>m = Inr salt\<close> Inr show ?thesis
          by (auto simp: default_authenticate_check_def Let_def check_password_kept)
      qed
    qed
  qed
qed

lemma sys_authenticate_kept:
  assumes "sys_authenticate dl caps w s = (r, s', w')" "sa_hmac s \<or> dl_unutf8 dl [] = Inr []"
  shows "made_sys s' = made_sys s \<and> sa_challenge_sent s' = sa_challenge_sent s \<and> sa_salt s' \<in> {None, sa_salt s} \<and>
    same_env w w' \<and> (sa_passed s' \<longrightarrow> sa_passed s \<or> password_proof dl caps s) \<and>
    (r = Inr True \<longrightarrow> password_proof dl caps s \<and> sa_challenge_sent s) \<and>
    (r \<noteq> Inr True \<longrightarrow> sa_passed s' = sa_passed s) \<and>
    (r \<noteq> Inr True \<and> answers dl caps \<and> sa_challenge_sent s \<and> \<not> sa_passed s \<longrightarrow> sa_salt s' \<in> {None, Some []})"
proof (cases "validate_caps dl caps (sa_passed s) (sa_challenge_sent s) = Inr True")
  case False
  have "\<not> (answers dl caps \<and> sa_challenge_sent s \<and> \<not> sa_passed s)"
    using False by (auto simp: validate_caps_def answers_def split: sum.splits if_splits)
  moreover from False assms(1) have "s' = s" "w' = w" "r \<noteq> Inr True"
    by (auto simp: sys_authenticate_def split: sum.splits bool.splits)
  ultimately show ?thesis by auto
next
  case True
  then have v: "answers dl caps" "sa_challenge_sent s"
    by (auto simp: validate_caps_def answers_def ebind_eq_Inr split: if_splits)
  obtain r1 s1 w1 where c: "(if sa_hmac s then authenticate_hmac dl caps w s else default_authenticate_check dl caps w s) = (r1, s1, w1)"
    by (metis prod_cases3)
  have k: "sys_kept s s1 \<and> same_env w w1 \<and> (r1 = Inr True \<longrightarrow> password_proof dl caps s) \<and>
    (r1 \<noteq> Inr True \<and> answers dl caps \<longrightarrow> sa_salt s1 \<in> {None, Some []})"
    using c hmac_kept default_kept assms(2) v(1) by (auto split: if_splits)
  have "r = r1 \<and> w' = w1 \<and> s' = (if r1 = Inr True then s1\<lparr>sa_passed := True\<rparr> else s1)"
    using assms(1) True c by (auto simp: sys_authenticate_def split: sum.splits bool.splits)
  with k v show ?thesis by (auto simp: sys_kept_def made_sys_def new_sys_auth_def)
qed

lemma sys_challenge_kept:
  assumes "sys_get_challenge ds w s = (r, s')"
  shows "made_sys s' = made_sys s \<and> sa_passed s' = sa_passed s \<and>
    sa_salt s' \<in> {sa_salt s, Some (aw_urandom w DEFAULT_SALT_LENGTH)}"
  using assms by (auto simp: sys_get_challenge_def do_get_challenge_def made_sys_def new_sys_auth_def Let_def
      split: if_splits sum.splits)

section \<open>Codes\<close>

lemma reserve_env: "reserve_send co address w = (r, w') \<Longrightarrow> same_env w w'"
  by (auto simp: reserve_send_def Let_def same_env_def split: if_splits)

lemma issue_code_kept:
  assumes "issue_code co address w c = (r, c', w')"
  shows "same_env w w' \<and> ca_passed c' = ca_passed c \<and> ca_cancelled c' = ca_cancelled c \<and> ca_code_digest c' = ca_code_digest c \<and>
    ca_salt c' \<in> {ca_salt c, Some (aw_urandom w DEFAULT_SALT_LENGTH)} \<and>
    ca_state c' \<in> {ca_state c, CodeSent} \<and>
    (case r of Inr (salt, digest) \<Rightarrow> salt = aw_urandom w DEFAULT_SALT_LENGTH \<and> digest = ca_code_digest c | Inl _ \<Rightarrow> True)"
proof -
  obtain q w1 where q: "reserve_send co address w = (q, w1)" by fastforce
  from reserve_env [OF q] have "same_env w w1" .
  with assms q show ?thesis
    by (auto simp: issue_code_def Let_def same_env_def split: if_splits sum.splits)
qed

lemma cleanup_spent: "\<not> ca_passed c \<Longrightarrow> module_spent (CodeModule co (code_cleanup c))"
  by (simp add: code_cleanup_def)

lemma cleanup_simps [simp]: "ca_salt (code_cleanup c) = None" "ca_passed (code_cleanup c) = ca_passed c"
    "ca_state (code_cleanup c) = (if ca_state c = Complete then Complete else CodeFailed)" "ca_cancelled (code_cleanup c)"
  by (simp_all add: code_cleanup_def)

lemma cleanup_good [simp]: "module_good dl (CodeModule co (code_cleanup c))"
  by (simp add: code_cleanup_def)

lemma code_challenge_kept:
  assumes c: "code_get_challenge co ds w c = (r, c', w')" and g: "module_good dl (CodeModule co c)"
  shows "same_env w w' \<and> ca_passed c' = ca_passed c \<and> module_good dl (CodeModule co c') \<and>
    (module_spent (CodeModule co c) \<longrightarrow> module_spent (CodeModule co c')) \<and>
    ca_salt c' \<in> {None, ca_salt c, Some (aw_urandom w DEFAULT_SALT_LENGTH)}"
proof (cases "ca_state c \<noteq> NewCode \<or> ca_cancelled c")
  case True
  with assms show ?thesis by (auto simp: code_get_challenge_def)
next
  case False
  then have n: "\<not> module_spent (CodeModule co c)" by auto
  show ?thesis
  proof (cases "choose_digest (filter (\<lambda>d. starts_with d (dname ''hmac+'')) ds)")
    case (Inl e)
    with c False n show ?thesis by (auto simp: code_get_challenge_def)
  next
    case (Inr d)
    have d: "d \<noteq> []" using choose_digest_nonempty [OF Inr] .
    show ?thesis
    proof (cases "co_prompt_mode co")
      case True
      with c False Inr n d show ?thesis by (auto simp: code_get_challenge_def Let_def split: if_splits)
    next
      case fixed: False
      show ?thesis
      proof (cases "co_resolve co")
        case (Inl e)
        with c False Inr n fixed \<open>choose_digest _ = Inr d\<close> show ?thesis by (auto simp: code_get_challenge_def Let_def)
      next
        case (Inr address)
        let ?c = "c\<lparr>ca_state := Sending, ca_code_digest := d\<rparr>"
        obtain r1 c1 w1 where i: "issue_code co address w ?c = (r1, c1, w1)" by (metis prod_cases3)
        note k = issue_code_kept [OF i]
        show ?thesis
        proof (cases r1)
          case (Inl e)
          with c False n fixed \<open>choose_digest _ = Inr d\<close> \<open>co_resolve co = Inr address\<close> i k show ?thesis
            by (auto simp: code_get_challenge_def Let_def)
        next
          case (Inr sd)
          with c False fixed \<open>choose_digest _ = Inr d\<close> \<open>co_resolve co = Inr address\<close> i
          have "r = r1" "c' = c1" "w' = w1" by (auto simp: code_get_challenge_def Let_def)
          with k n d show ?thesis by auto
        qed
      qed
    qed
  qed
qed

lemma code_salt_env: "code_salt dl caps w c = (r, w') \<Longrightarrow> same_env w w'"
  by (auto simp: code_salt_def dest: response_salt_env split: sum.splits)

lemma code_check_kept:
  assumes c: "code_check dl caps w c = (r, c', w')" and s: "ca_state c = CodeSent" "\<not> ca_cancelled c" "ca_salt c \<noteq> None"
    and a: "answers dl caps"
  shows "same_env w w' \<and> (case r of Inl _ \<Rightarrow> c' = c
    | Inr b \<Rightarrow> ca_passed c' = b \<and> ca_salt c' = None \<and> ca_state c' = (if b then Complete else CodeFailed) \<and>
        ca_pending c' = ca_pending c \<and> (b \<longrightarrow> code_proof dl caps w c))"
proof -
  obtain m w1 where m: "code_salt dl caps w c = (m, w1)" by fastforce
  note e = code_salt_env [OF m]
  show ?thesis
  proof (cases m)
    case (Inl x)
    with c m e show ?thesis by (auto simp: code_check_def)
  next
    case (Inr salt)
    obtain client where cl: "caps_bytes dl ''challenge_client_salt'' caps = Inr client"
      "get_response_salt dl (ca_salt_digest c) (ca_salt c) (PBytes client) w = (Inr salt, w1)"
      using m Inr by (auto simp: code_salt_def split: sum.splits)
    obtain resp where b: "caps_bytes dl ''challenge_response'' caps = Inr resp" "resp \<noteq> []"
      using a by (auto simp: answers_def split: sum.splits)
    have now: "aw_now w1 = aw_now w" using e by (simp add: same_env_def)
    show ?thesis
    proof (cases "gendigest dl (ca_digest c) (PStr (ca_code c)) (Some salt)")
      case (Inl x)
      with c m \<open>m = Inr salt\<close> e show ?thesis by (auto simp: code_check_def)
    next
      case (Inr expected)
      then have "code_proof dl caps w c" if "aw_now w < ca_expires c" "expected = resp"
        using that cl b s response_salt_mixed [OF cl(2)] by (simp add: code_proof_def)
      with c m \<open>m = Inr salt\<close> e Inr b now show ?thesis
        by (cases "aw_now w < ca_expires c") (auto simp: code_check_def)
    qed
  qed
qed

lemma code_address_kept:
  assumes c: "code_address co dl caps w c = (r, c', w')" and d: "ca_code_digest c \<noteq> []" and w: "world_ok w"
    and p: "\<not> ca_passed c"
  shows "same_env w w' \<and> \<not> ca_passed c' \<and>
    (case r of Inl _ \<Rightarrow> True
     | Inr b \<Rightarrow> b \<and> ca_code_digest c' \<noteq> [] \<and> ca_cancelled c' = ca_cancelled c \<and> ca_state c' \<in> {Sending, CodeSent} \<and>
        ca_salt c' \<in> {None, Some (aw_urandom w DEFAULT_SALT_LENGTH)} \<and>
        (\<exists>salt digest prompt. ca_pending c' = Some (salt, digest, prompt) \<and> salt \<noteq> [] \<and> digest \<noteq> []))"
proof -
  obtain m w1 where m: "code_salt dl caps w c = (m, w1)" by fastforce
  note e = code_salt_env [OF m]
  let ?c = "c\<lparr>ca_salt := None, ca_state := Sending\<rparr>"
  have len: "length (aw_urandom w DEFAULT_SALT_LENGTH) \<noteq> 0"
    using w by (simp add: world_ok_def DEFAULT_SALT_LENGTH_def)
  have ur: "aw_urandom w1 = aw_urandom w" using e by (simp add: same_env_def)
  show ?thesis
  proof (cases "\<exists>resp salt address. caps_bytes dl ''challenge_response'' caps = Inr resp \<and> length resp \<le> co_max_response co \<and>
      m = Inr salt \<and> ebind (gendigest dl (dname ''xor'') (PBytes resp) (Some salt)) (\<lambda>v. ebind (co_ascii co v) (co_parse co)) = Inr address")
    case False
    with c m e p show ?thesis
      by (auto simp: code_address_def split: sum.splits if_splits)
  next
    case True
    then obtain resp salt address where t: "caps_bytes dl ''challenge_response'' caps = Inr resp" "length resp \<le> co_max_response co"
      "m = Inr salt" "ebind (gendigest dl (dname ''xor'') (PBytes resp) (Some salt)) (\<lambda>v. ebind (co_ascii co v) (co_parse co)) = Inr address"
      by blast
    obtain r2 c2 w2 where i: "issue_code co address w1 ?c = (r2, c2, w2)" by (metis prod_cases3)
    note k = issue_code_kept [OF i]
    show ?thesis
    proof (cases r2)
      case (Inl x)
      with c m e t i k p same_env_trans show ?thesis by (auto simp: code_address_def)
    next
      case (Inr sd)
      obtain s2 d2 where sd: "sd = (s2, d2)" by fastforce
      have "r = Inr True" "c' = c2\<lparr>ca_pending := Some (s2, d2, ca_prompt c2)\<rparr>" "w' = w2"
        using c m t i Inr sd by (auto simp: code_address_def)
      with k e p d len Inr sd ur same_env_trans show ?thesis by auto
    qed
  qed
qed

lemma code_authenticate_kept:
  assumes c: "code_authenticate co dl caps w c = (r, c', w')" and g: "module_good dl (CodeModule co c)" and w: "world_ok w"
  shows "same_env w w' \<and> module_good dl (CodeModule co c') \<and>
    ca_salt c' \<in> {None, Some (aw_urandom w DEFAULT_SALT_LENGTH)} \<and>
    (ca_passed c' \<longrightarrow> ca_passed c \<or> code_proof dl caps w c) \<and>
    (r \<noteq> Inr True \<and> \<not> ca_passed c \<longrightarrow> module_spent (CodeModule co c')) \<and>
    (r = Inr True \<longrightarrow> \<not> module_spent (CodeModule co c) \<and> (code_proof dl caps w c \<or>
      (\<exists>salt digest prompt. ca_pending c' = Some (salt, digest, prompt) \<and> salt \<noteq> [] \<and> digest \<noteq> [])))"
proof (cases "\<not> ca_cancelled c \<and> ca_state c \<in> {Address, CodeSent} \<and> ca_salt c \<noteq> None \<and> ca_salt c \<noteq> Some [] \<and>
    validate_caps dl caps (ca_passed c) (ca_challenge_sent c) = Inr True")
  case False
  then have "r = Inr False \<and> c' = code_cleanup c \<and> w' = w"
    using c by (auto simp: code_authenticate_def split: sum.splits bool.splits if_splits)
  then show ?thesis using cleanup_spent cleanup_good by auto
next
  case True
  then have v: "answers dl caps" "\<not> ca_passed c" "ca_code_digest c \<noteq> []" "\<not> module_spent (CodeModule co c)"
    using g by (auto simp: validate_caps_def answers_def ebind_eq_Inr split: if_splits)
  show ?thesis
  proof (cases "ca_state c = CodeSent")
    case sent: True
    obtain r1 c1 w1 where k: "code_check dl caps w c = (r1, c1, w1)" by (metis prod_cases3)
    note K = code_check_kept [OF k sent _ _ v(1)]
    show ?thesis
    proof (cases r1)
      case (Inl e)
      then have "r = Inr False \<and> c' = code_cleanup c1 \<and> w' = w1"
        using c True sent k by (auto simp: code_authenticate_def)
      with K Inl True v(2) show ?thesis using cleanup_spent cleanup_good by auto
    next
      case (Inr b)
      then have "r = r1 \<and> c' = c1 \<and> w' = w1"
        using c True sent k by (auto simp: code_authenticate_def)
      with K Inr True v show ?thesis by (cases b) auto
    qed
  next
    case False
    obtain r1 c1 w1 where k: "code_address co dl caps w c = (r1, c1, w1)" by (metis prod_cases3)
    note K = code_address_kept [OF k v(3) w v(2)]
    show ?thesis
    proof (cases r1)
      case (Inl e)
      then have "r = Inr False \<and> c' = code_cleanup c1 \<and> w' = w1"
        using c True False k by (auto simp: code_authenticate_def)
      with K Inl show ?thesis using cleanup_spent cleanup_good by auto
    next
      case (Inr b)
      then have "r = r1 \<and> c' = c1 \<and> w' = w1"
        using c True False k by (auto simp: code_authenticate_def)
      with K Inr v show ?thesis by auto
    qed
  qed
qed

section \<open>The contract\<close>

lemma module_ops_simps [simp]:
  "ao_requires (module_ops dl) = module_requires" "ao_sent (module_ops dl) = module_sent"
  "ao_passed (module_ops dl) = module_passed" "ao_set_passed (module_ops dl) = module_set_passed"
  "ao_prompt (module_ops dl) = module_prompt" "ao_get_challenge (module_ops dl) = module_get_challenge"
  "ao_authenticate (module_ops dl) = module_authenticate dl" "ao_next (module_ops dl) = module_next"
  "ao_choose (module_ops dl) = module_choose" "ao_failed (module_ops dl) = module_failed"
  "ao_succeeded (module_ops dl) = module_succeeded" "ao_cleanup (module_ops dl) = module_cleanup"
  by (simp_all add: module_ops_def)

lemma made_sys_simps [simp]:
  "made_sys (s\<lparr>sa_passed := b\<rparr>) = made_sys s" "made_sys (s\<lparr>sa_salt_digest := d\<rparr>) = made_sys s"
  by (simp_all add: made_sys_def new_sys_auth_def)

lemma made_sys_hmac: "made_sys s' = made_sys s \<Longrightarrow> sa_hmac s' = sa_hmac s"
  by (simp add: made_sys_def new_sys_auth_def)

definition module_kept :: "digest_lib \<Rightarrow> auth_world \<Rightarrow> auth_module \<Rightarrow> auth_module \<Rightarrow> bool" where
  "module_kept dl w m m' \<longleftrightarrow> kept (module_good dl) made module_salt w m m' \<and> (module_spent m \<longrightarrow> module_spent m')"

lemma module_challenge_kept:
  assumes "module_good dl m" "\<not> module_sent m" "module_get_challenge ds w m = (r, m', w')"
  shows "module_kept dl w m m' \<and> module_passed m' = module_passed m \<and> same_env w w'"
proof (cases m)
  case (CodeModule co c)
  obtain q c1 w1 where k: "code_get_challenge co ds w c = (q, c1, w1)" by (metis prod_cases3)
  with CodeModule assms have "m' = CodeModule co c1" "w' = w1" by auto
  with code_challenge_kept [OF k] CodeModule assms(1) show ?thesis
    by (simp add: module_kept_def kept_def)
next
  case (PasswordModule s)
  obtain q s1 where k: "sys_get_challenge ds w s = (q, s1)" by fastforce
  with sys_challenge_kept [OF k] PasswordModule assms show ?thesis
    by (auto simp: module_kept_def kept_def dest: made_sys_hmac)
qed (use assms in \<open>auto simp: module_kept_def kept_def split: prod.splits dest!: sys_challenge_kept\<close>)

lemma module_authenticate_kept:
  assumes "module_good dl m" "world_ok w" "module_authenticate dl caps w m = (r, m', w')"
  shows "module_kept dl w m m' \<and> (module_passed m' \<longrightarrow> module_passed m \<or> module_proof dl caps w m) \<and> same_env w w' \<and>
    (r = Inr True \<longrightarrow> \<not> module_spent m)"
proof (cases m)
  case (CodeModule co c)
  obtain q c1 w1 where k: "code_authenticate co dl caps w c = (q, c1, w1)" by (metis prod_cases3)
  with CodeModule assms have e: "m' = CodeModule co c1" "w' = w1" "r = q" by auto
  note K = code_authenticate_kept [OF k assms(1) [unfolded CodeModule] assms(2)]
  have p: "module_spent (CodeModule co c) \<Longrightarrow> \<not> ca_passed c" by simp
  have "module_spent (CodeModule co c) \<longrightarrow> module_spent (CodeModule co c1)"
    using K p by blast
  moreover have "kept (module_good dl) made module_salt w (CodeModule co c) (CodeModule co c1)"
    using K by (auto simp: kept_def)
  ultimately show ?thesis using K unfolding module_kept_def e CodeModule module_proof.simps module_passed.simps by blast
next
  case (PasswordModule s)
  obtain q s1 w1 where k: "sys_authenticate dl caps w s = (q, s1, w1)" by (metis prod_cases3)
  with PasswordModule assms have e: "m' = PasswordModule s1" "w' = w1" "r = q" by auto
  have g: "sa_hmac s \<or> dl_unutf8 dl [] = Inr []" using assms(1) PasswordModule by simp
  note K = sys_authenticate_kept [OF k g]
  have f: "q \<noteq> Inr True" if "module_spent m"
  proof
    assume "q = Inr True"
    with K have "password_proof dl caps s" by simp
    moreover have "mixed_salt dl d c (Some []) = None" for d c
      by (auto simp: mixed_salt_def gendigest_def)
    ultimately show False using that PasswordModule
      by (auto simp: password_proof_def split: sum.splits option.splits)
  qed
  have "module_spent m \<longrightarrow> module_spent (PasswordModule s1)"
  proof
    assume sp: "module_spent m"
    from K f [OF sp] have "sa_challenge_sent s1 = sa_challenge_sent s" "sa_passed s1 = sa_passed s" "sa_salt s1 \<in> {None, sa_salt s}"
      by blast+
    with sp PasswordModule show "module_spent (PasswordModule s1)" by auto
  qed
  moreover have "kept (module_good dl) made module_salt w (PasswordModule s) (PasswordModule s1)"
    using K g made_sys_hmac [of s1 s] by (simp add: kept_def) blast
  moreover have "module_passed (PasswordModule x) = sa_passed x" for x by simp
  ultimately show ?thesis
    using K f unfolding module_kept_def e PasswordModule module_proof.simps by blast
next
  case (GateModule rl s)
  obtain ok d rl1 fs where k: "rl_authenticate rl (aw_now w) (aw_failures w) = ((ok, d), rl1, fs)" by (metis surj_pair)
  have "rl1\<lparr>rl_rejected := False\<rparr> = rl\<lparr>rl_rejected := False\<rparr>"
    using k by (auto simp: rl_authenticate_def Let_def split: if_splits prod.splits)
  with k GateModule assms(3) show ?thesis
    by (auto simp: module_kept_def kept_def same_env_def)
qed (use assms in \<open>auto simp: module_kept_def kept_def\<close>)

lemma module_authenticate_proves:
  assumes "module_good dl m" "world_ok w" "\<not> module_passed m" "module_authenticate dl caps w m = (Inr True, m', w')"
  shows "module_proof dl caps w m \<or>
    module_requires m \<and> (\<exists>salt digest prompt. fst (module_next m') = Some (salt, digest, prompt) \<and> salt \<noteq> [] \<and> digest \<noteq> [])"
proof (cases m)
  case (CodeModule co c)
  obtain q c1 w1 where k: "code_authenticate co dl caps w c = (q, c1, w1)" by (metis prod_cases3)
  with CodeModule assms have e: "m' = CodeModule co c1" "q = Inr True" by auto
  from code_authenticate_kept [OF k _ assms(2)] e CodeModule assms(1) show ?thesis
    by (auto simp: code_next_challenge_def)
next
  case (PasswordModule s)
  with assms show ?thesis using sys_authenticate_kept [of dl caps w s "Inr True"]
    by (auto split: prod.splits)
qed (use assms in \<open>auto simp: capability_authenticate_def ebind_eq_Inr split: prod.splits\<close>)

lemma module_wrong_spent:
  assumes "module_good dl m" "world_ok w" "\<not> module_passed m" "module_requires m" "module_sent m" "answers dl caps"
    "module_authenticate dl caps w m = (r, m', w')" "r \<noteq> Inr True"
  shows "module_spent m'"
proof (cases m)
  case (CodeModule co c)
  obtain q c1 w1 where k: "code_authenticate co dl caps w c = (q, c1, w1)" by (metis prod_cases3)
  with CodeModule assms have e: "m' = CodeModule co c1" "q \<noteq> Inr True" by auto
  from code_authenticate_kept [OF k _ assms(2)] e CodeModule assms(1,3) show ?thesis by auto
next
  case (PasswordModule s)
  obtain q s1 w1 where k: "sys_authenticate dl caps w s = (q, s1, w1)" by (metis prod_cases3)
  with PasswordModule assms sys_authenticate_kept [OF k] show ?thesis by auto
qed (use assms in \<open>auto split: prod.splits\<close>)

lemma module_choose_kept:
  "module_good dl m \<Longrightarrow> module_choose ds m = (r, m') \<Longrightarrow> module_kept dl w m m' \<and> module_passed m' = module_passed m"
  by (cases m) (auto simp: module_kept_def kept_def choose_salt_digest_def split: sum.splits)

lemma module_next_kept:
  "module_good dl m \<Longrightarrow> module_next m = (n, m') \<Longrightarrow> module_kept dl w m m' \<and> module_passed m' = module_passed m"
  by (cases m) (auto simp: module_kept_def kept_def code_next_challenge_def)

lemma module_cleanup_kept:
  "module_good dl m \<Longrightarrow> module_kept dl w m (module_cleanup m) \<and> module_passed (module_cleanup m) = module_passed m"
  by (cases m) (auto simp: module_kept_def kept_def)

lemma module_set_passed_kept: "module_good dl m \<Longrightarrow> kept (module_good dl) made module_salt w m (module_set_passed m)"
  by (cases m) (auto simp: kept_def)

lemma module_spent_never: "module_spent m \<Longrightarrow> module_requires m \<and> \<not> module_passed m"
  by (cases m) auto

interpretation modules: auth_modules "module_ops dl" "module_good dl" made module_salt "module_proof dl" module_spent "answers dl"
  for dl
proof (unfold_locales, unfold module_ops_simps, goal_cases)
  case 1 then show ?case using module_challenge_kept unfolding module_kept_def by blast
next
  case 2 then show ?case using module_choose_kept unfolding module_kept_def by blast
next
  case 3 then show ?case using module_next_kept unfolding module_kept_def by blast
next
  case 4 then show ?case using module_cleanup_kept unfolding module_kept_def by blast
next
  case 5 then show ?case by (rule module_set_passed_kept)
next
  case 6 then show ?case using module_authenticate_kept unfolding module_kept_def by blast
next
  case 7 then show ?case by (rule module_authenticate_proves)
next
  case 8 then show ?case using module_spent_never by blast
next
  case 9 then show ?case using module_authenticate_kept by blast
next
  case 10 then show ?case using module_wrong_spent by blast
next
  case (11 w a) then show ?case by (cases a) (simp_all add: same_env_def)
next
  case (12 w a) then show ?case by (cases a) (simp_all add: same_env_def)
qed

section \<open>Properties\<close>

lemma fresh_modules:
  assumes "av_auths c \<noteq> []" "\<forall>m\<in>set (av_auths c). made m = m \<and> module_good dl m"
  shows "modules.fresh dl c"
proof -
  have "\<not> module_passed m \<and> module_salt m = None" if "made m = m" for m
    using that by (cases m) (auto simp: made_sys_def new_sys_auth_def new_code_auth_def sys_auth.defs code_auth.defs
        dest: arg_cong [of _ _ sa_passed] arg_cong [of _ _ sa_salt] arg_cong [of _ _ ca_passed] arg_cong [of _ _ ca_salt])
  with assms show ?thesis by (simp add: modules.fresh_def)
qed


text \<open>A client with the password: the first hello is challenged, the second one answers.\<close>

definition toy_lib :: digest_lib where
  "toy_lib =
     \<lparr>dl_algorithms = [dname ''sha512''], dl_attribute = (\<lambda>n. n = dname ''sha512''), dl_hmac = (\<lambda>n k m. k @ take 3 m),
      dl_str = (\<lambda>v. []), dl_utf8 = (\<lambda>t. Inl UnicodeDecodeError), dl_unutf8 = (\<lambda>b. Inr (map uint b))\<rparr>"

definition toy_world :: auth_world where
  "toy_world =
     \<lparr>aw_now = 1000, aw_urandom = (\<lambda>n. replicate n 7), aw_randbelow = (\<lambda>n. 0), aw_used_salts = [], aw_salt_cache = 16, aw_failures = [], aw_sends = []\<rparr>"

definition toy_server :: "(auth_module, unit) auth_server" where
  "toy_server = \<lparr>as_ops = module_ops toy_lib, as_make = (\<lambda>r. Inr []), as_encryption = (\<lambda>c as. Inr ()), as_lib = toy_lib\<rparr>"

definition toy_conn :: "auth_module auth_conn" where
  "toy_conn =
     \<lparr>av_auths = [password_authenticator (dname ''secret'') (dname ''password'')], av_timer = True,
      av_disconnect = False, av_closed = False\<rparr>"

definition toy_caps :: tdict where
  "toy_caps =
     [(PStr (dname ''digest''), PList [PStr (dname ''hmac+sha512'')]),
      (PStr (dname ''salt-digest''), PList [PStr (dname ''hmac+sha512'')])]"

definition toy_response :: "string \<Rightarrow> tdict" where
  "toy_response password =
     [(PStr (dname ''challenge_response''), PBytes (map of_char password @ map of_char ''abc'')),
      (PStr (dname ''challenge_client_salt''), PStr (dname ''abc''))] @ toy_caps"

lemma toy_accepted: "is_accepted (answer toy_server (toy_response ''secret'', toy_world) (conn_at toy_server [(toy_caps, toy_world)] toy_conn))"
  by code_simp

lemma toy_fresh: "\<forall>m\<in>set (av_auths toy_conn). made m = m \<and> module_good toy_lib m"
  by (simp add: toy_conn_def password_authenticator_def made_sys_def new_sys_auth_def)

lemma toy_world_ok: "world_ok toy_world"
  by (simp add: world_ok_def toy_world_def)




section \<open>Connections that nothing watches\<close>

lemma conclude_watched:
  assumes "conclude sv ds sds enc caps v w c = (r, c', w')"
  shows "is_accepted r \<or> av_disconnect c' \<or> av_timer c' \<or> (\<exists>e. r = Errored e)"
  using assms by (auto simp: conclude_def auth_failed_def is_accepted_def Let_def split: verdict.splits sum.splits if_splits)

text \<open>
  A connection that is watched stays watched. After a hello, either the timer is set that closes the
  connection unless it is accepted, or the connection is accepted or going to be disconnected, unless an
  exception has ended the thread that was verifying it.
\<close>

theorem hello_keeps_watch:
  assumes "verify_auth sv caps w c = (r, c', w')" "av_timer c \<or> av_disconnect c"
  shows "is_accepted r \<or> av_disconnect c' \<or> av_timer c' \<or> (\<exists>e. r = Errored e)"
proof -
  obtain r1 c1 w1 where i: "init_authenticators sv caps w c = (r1, c1, w1)" by (metis prod_cases3)
  then have k: "av_timer c1 \<or> av_disconnect c1"
    using assms(2) by (auto simp: init_authenticators_def auth_failed_def Let_def split: sum.splits if_splits)
  show ?thesis
  proof (cases r1)
    case (Some r2)
    with i k assms(1) show ?thesis by (auto simp: verify_auth_def)
  next
    case None
    with i k assms(1) show ?thesis
      by (auto simp: verify_auth_def split: sum.splits prod.splits if_splits dest: conclude_watched)
  qed
qed

theorem hello_keeps_watch_witness:
  "\<exists>r c' w'. verify_auth toy_server toy_caps toy_world toy_conn = (r, c', w') \<and>
    (is_accepted r \<or> av_disconnect c' \<or> av_timer c' \<or> (\<exists>e. r = Errored e))"
  using hello_keeps_watch [of toy_server toy_caps toy_world toy_conn]
  by (cases "verify_auth toy_server toy_caps toy_world toy_conn") (auto simp: toy_conn_def)

text \<open>
  And such an exception leaves it unwatched. A client that asks for a salt digest that the server does
  not know ends the thread with a \<^verbatim>\<open>ValueError\<close>, after the timer has been cancelled: the connection
  stays, unauthenticated, and nothing will close it.
\<close>

definition toy_strange_caps :: tdict where
  "toy_strange_caps =
     [(PStr (dname ''digest''), PList [PStr (dname ''hmac+sha512'')]),
      (PStr (dname ''salt-digest''), PList [PStr (dname ''hmac+none'')])]"

lemma strange_salt_digest_unwatched:
  "answer toy_server (toy_strange_caps, toy_world) toy_conn = Errored ValueError \<and>
   \<not> av_timer (conn_at toy_server [(toy_strange_caps, toy_world)] toy_conn) \<and>
   \<not> av_disconnect (conn_at toy_server [(toy_strange_caps, toy_world)] toy_conn)"
  by code_simp

end
