(* ===== verification/RFBProtocol.thy ===== *)
theory RFBProtocol
  imports AuthModules Framing
begin

text \<open>
  The VNC server: \<^verbatim>\<open>RFBProtocol\<close> of \<^verbatim>\<open>src/xpra/net/rfb/protocol.py\<close> and \<^verbatim>\<open>RFBServerProtocol\<close> of
  \<^verbatim>\<open>src/xpra/server/rfb/protocol.py\<close>, a state machine whose states are the parsers that look at the
  start of the buffer, one after the other. The socket, the TLS handshake and the threads are what the
  environment says they are; what the protocol asks of them is recorded, in order.
\<close>

section \<open>Structures\<close>

text \<open>The formats of \<^verbatim>\<open>struct\<close>, big-endian: bytes, unsigned 16 and 32 bits, signed 32 bits.\<close>

datatype field = FB | FH | FI | Fi

fun field_size :: "field \<Rightarrow> nat" where
  "field_size FB = 1" | "field_size FH = 2" | "field_size FI = 4" | "field_size Fi = 4"

definition struct_size :: "field list \<Rightarrow> nat" where
  "struct_size fs = sum_list (map field_size fs)"

definition signed32 :: "int \<Rightarrow> int" where
  "signed32 n = (if n < 2 ^ 31 then n else n - 2 ^ 32)"

fun field_value :: "field \<Rightarrow> bytes \<Rightarrow> int" where
  "field_value Fi b = signed32 (be_int b)"
| "field_value _ b = be_int b"

fun field_ok :: "field \<Rightarrow> int \<Rightarrow> bool" where
  "field_ok Fi v \<longleftrightarrow> - (2 ^ 31) \<le> v \<and> v < 2 ^ 31"
| "field_ok f v \<longleftrightarrow> 0 \<le> v \<and> v < 256 ^ field_size f"

fun unpack_fields :: "field list \<Rightarrow> bytes \<Rightarrow> int list" where
  "unpack_fields [] b = []"
| "unpack_fields (f # fs) b = field_value f (take (field_size f) b) # unpack_fields fs (drop (field_size f) b)"

fun pack_fields :: "field list \<Rightarrow> int list \<Rightarrow> bytes result" where
  "pack_fields [] [] = Inr []"
| "pack_fields (f # fs) (v # vs) =
     (if field_ok f v then ebind (pack_fields fs vs) (\<lambda>b. Inr (be_bytes (field_size f) v @ b)) else Inl StructError)"
| "pack_fields _ _ = Inl StructError"

definition PIXEL_FORMAT :: "field list" where
  "PIXEL_FORMAT = [FB, FB, FB, FB, FH, FH, FH, FB, FB, FB, FB, FB, FB]"

definition CLIENT_INIT :: "field list" where
  "CLIENT_INIT = [FH, FH] @ PIXEL_FORMAT @ [FI]"

section \<open>Messages of the client\<close>

definition client_packet_types :: "int list" where
  "client_packet_types =
     [0, 2, 3, 4, 5, 6, 7, 8, 9, 10, 11, 12, 13, 15, 20, 21, 80, 127, 128, 150, 248, 249, 250, 251, 252, 253, 255]"

definition packet_struct :: "int \<Rightarrow> field list option" where
  "packet_struct ptype =
     map_of [(0, [FB, FB, FB, FB] @ PIXEL_FORMAT), (2, [FB, FB, FH]), (3, [FB, FB, FH, FH, FH, FH]), (4, [FB, FB, FB, FB, Fi]),
             (5, [FB, FB, FH, FH]), (6, [FB, FB, FB, FB, Fi]), (150, [FB, FB, FH, FH, FH, FH])] ptype"

text \<open>The packet that is delivered: its type, the values after it, and the encodings or the text.\<close>

datatype rfb_extra = NoExtra | Encodings "int list" | Cut bytes

datatype rfb_packet = RfbPacket int "int list" rfb_extra

section \<open>The protocol\<close>

datatype rfb_parser =
    ParseHandshake
  | ParseSecurity
  | ParseVencryptVersion
  | ParseVencryptSubtype
  | ParseChallenge
  | ParseSecurityResult
  | ParseRfb
  | ParseInvalid

text \<open>
  What the protocol does, in order: data queued for sending, the acknowledgement written straight to the
  socket, packets delivered, the connection that is to be lost, in a second or when idle, the failure
  that is sent in a second, and what the code logs of the authentication.
\<close>

datatype rfb_action =
    Send bytes
  | SendAll bytes
  | Deliver rfb_packet
  | Authenticated
  | InvalidPacket
  | LoseLater
  | LoseIdle
  | FailLater
  | CloseLater
  | Closed
  | Upgraded
  | AuthSucceeded

record 'a rfb =
  f_parser :: rfb_parser
  f_buffer :: bytes
  f_auth :: "'a option"
  f_world :: auth_world
  f_subtypes :: "int list"
  f_subtype :: int
  f_challenge :: "bytes option"
  f_share :: bool
  f_packets :: nat
  f_reads :: nat
  f_read_size :: int
  f_closed :: bool
  f_out :: "rfb_action list"

text \<open>
  The methods of the authentication module, whether there is a certificate for TLS, the name of the
  session, the pixel format, whether the acknowledgement can be written and the TLS handshake succeeds.
\<close>

record 'a rfb_env =
  fe_ops :: "'a auth_ops"
  fe_cert :: bool
  fe_name :: bytes
  fe_pixel :: "int list"
  fe_ack :: bool
  fe_tls :: bool

definition READ_BUFFER_SIZE :: int where "READ_BUFFER_SIZE = 65536"

definition new_rfb :: "'a option \<Rightarrow> auth_world \<Rightarrow> bytes \<Rightarrow> 'a rfb" where
  "new_rfb auth w data =
     \<lparr>f_parser = ParseHandshake, f_buffer = data, f_auth = auth, f_world = w, f_subtypes = [], f_subtype = 0,
      f_challenge = None, f_share = False, f_packets = 0, f_reads = 0, f_read_size = READ_BUFFER_SIZE,
      f_closed = False, f_out = []\<rparr>"

definition act :: "rfb_action list \<Rightarrow> 'a rfb \<Rightarrow> 'a rfb" where
  "act as p = p\<lparr>f_out := f_out p @ as\<rparr>"

definition send :: "bytes \<Rightarrow> 'a rfb \<Rightarrow> 'a rfb" where
  "send b p = (if f_closed p then p else act [Send b] p)"

definition internal_error :: "'a rfb \<Rightarrow> 'a rfb" where
  "internal_error p = (if f_closed p then p else act [LoseIdle] p)"

definition invalid :: "'a rfb \<Rightarrow> 'a rfb" where
  "invalid p = act [InvalidPacket, LoseLater] (p\<lparr>f_parser := ParseInvalid\<rparr>)"

definition needs_auth :: "'a rfb_env \<Rightarrow> 'a rfb \<Rightarrow> bool" where
  "needs_auth fe p \<longleftrightarrow> (case f_auth p of None \<Rightarrow> False | Some a \<Rightarrow> ao_requires (fe_ops fe) a)"

subsection \<open>Handshake\<close>

text \<open>\<^verbatim>\<open>int(x)\<close> of bytes: spaces around, a sign, and single underscores between digits are allowed.\<close>

definition ascii_space :: "byte \<Rightarrow> bool" where
  "ascii_space b \<longleftrightarrow> b = 32 \<or> (9 \<le> b \<and> b \<le> 13)"

fun drop_underscores :: "bytes \<Rightarrow> bytes option" where
  "drop_underscores [] = Some []"
| "drop_underscores [b] = (if b = 95 then None else Some [b])"
| "drop_underscores (b # c # bs) =
     (if b = 95 then None
      else if c = 95 then map_option (Cons b) (case bs of [] \<Rightarrow> None | _ \<Rightarrow> drop_underscores bs)
      else map_option (Cons b) (drop_underscores (c # bs)))"

definition bytes_to_int :: "bytes \<Rightarrow> int result" where
  "bytes_to_int v =
     (let t = rev (dropWhile ascii_space (rev (dropWhile ascii_space v)));
          (sign, d) = (case t of b # bs \<Rightarrow> if b = 45 then (-1, bs) else if b = 43 then (1, bs) else (1, t) | [] \<Rightarrow> (1, t))
      in case drop_underscores d of None \<Rightarrow> Inl ValueError | Some d \<Rightarrow> ebind (bytes_int d) (\<lambda>n. Inr (sign * n)))"

definition RFB_MAGIC :: bytes where "RFB_MAGIC = [82, 70, 66, 32]"

definition HANDSHAKE :: bytes where "HANDSHAKE = RFB_MAGIC @ [48, 48, 51, 46, 48, 48, 56, 10]"

definition unsupported_version :: bytes where
  "unsupported_version = map of_char ''unsupported protocol version''"

definition send_protocol_handshake :: "'a rfb \<Rightarrow> 'a rfb" where
  "send_protocol_handshake p = send HANDSHAKE p"

definition X509NONE :: int where "X509NONE = 260"
definition X509VNC :: int where "X509VNC = 261"
definition vencrypt_values :: "int list" where "vencrypt_values = [256, 257, 258, 259, 260, 261, 262, 263, 264]"
definition rfb_auth_values :: "int list" where "rfb_auth_values = [0, 1, 2, 16, 19]"

definition handshake_complete :: "'a rfb_env \<Rightarrow> 'a rfb \<Rightarrow> 'a rfb" where
  "handshake_complete fe p =
     (let (types, subtypes) = (if needs_auth fe p then ([2], [X509VNC]) else ([1], [X509NONE]));
          types = (if fe_cert fe then 19 # types else types)
      in send (word_of_nat (length types) # types) (p\<lparr>f_parser := ParseSecurity, f_subtypes := subtypes\<rparr>))"

definition parse_protocol_handshake :: "'a rfb_env \<Rightarrow> bytes \<Rightarrow> 'a rfb \<Rightarrow> int result \<times> 'a rfb" where
  "parse_protocol_handshake fe data p =
     (if length data < 12 then (Inr 0, p)
      else if take 4 data \<noteq> RFB_MAGIC then (Inr 0, invalid p)
      else
        (case emap bytes_to_int (split_on 46 (take 7 (drop 4 data))) of
           Inl e \<Rightarrow> (Inl e, p)
         | Inr version \<Rightarrow>
             if version \<noteq> [3, 8] then
               (Inr 0, invalid (send (0 # be_bytes 4 (int (length unsupported_version)) @ unsupported_version) p))
             else (Inr 12, handshake_complete fe p)))"

subsection \<open>Security\<close>

definition send_challenge :: "'a rfb_env \<Rightarrow> 'a rfb \<Rightarrow> unit result \<times> 'a rfb" where
  "send_challenge fe p =
     (let p = p\<lparr>f_parser := ParseChallenge\<rparr> in
      case f_auth p of
        None \<Rightarrow> (Inl AssertionError, p)
      | Some a \<Rightarrow>
          (case ao_get_challenge (fe_ops fe) [dname ''des''] (f_world p) a of
             (r, a, w) \<Rightarrow>
               (let p = p\<lparr>f_auth := Some a, f_world := w\<rparr> in
                case r of
                  Inl e \<Rightarrow> (Inl e, p)
                | Inr (challenge, digest) \<Rightarrow>
                    if digest \<noteq> dname ''des'' then (Inl AssertionError, p)
                    else (Inr (), send (take 16 challenge) (p\<lparr>f_challenge := Some (take 16 challenge)\<rparr>)))))"

definition security_result :: "'a rfb \<Rightarrow> 'a rfb" where
  "security_result p = send (be_bytes 4 0) (p\<lparr>f_parser := ParseSecurityResult\<rparr>)"

definition parse_security_handshake :: "'a rfb_env \<Rightarrow> bytes \<Rightarrow> 'a rfb \<Rightarrow> int result \<times> 'a rfb" where
  "parse_security_handshake fe data p =
     (case data of
        [] \<Rightarrow> (Inr 0, p)
      | b # _ \<Rightarrow>
          let auth = uint b in
          if auth \<notin> set rfb_auth_values then (Inr 0, invalid p)
          else if auth = 19 then
            (if \<not> fe_cert fe then (Inr 0, invalid p)
             else (Inr 1, send [0, 2] (p\<lparr>f_parser := ParseVencryptVersion\<rparr>)))
          else if auth = 2 then
            (case send_challenge fe p of (Inl e, p) \<Rightarrow> (Inl e, p) | (Inr _, p) \<Rightarrow> (Inr 1, p))
          else if needs_auth fe p then (Inr 0, invalid p)
          else (Inr 1, security_result p))"

definition parse_vencrypt_version :: "bytes \<Rightarrow> 'a rfb \<Rightarrow> int result \<times> 'a rfb" where
  "parse_vencrypt_version data p =
     (if length data < 2 then (Inr 0, p)
      else if take 2 data \<noteq> [0, 2] then (Inr 0, internal_error (send [1] p))
      else
        let p = send [0] (p\<lparr>f_parser := ParseVencryptSubtype\<rparr>);
            p = send (word_of_nat (length (f_subtypes p)) # concat (map (be_bytes 4) (f_subtypes p))) p
        in (Inr 2, p\<lparr>f_read_size := 4\<rparr>))"

definition send_vencrypt_subtype_ack :: "'a rfb_env \<Rightarrow> bool \<Rightarrow> 'a rfb \<Rightarrow> bool \<times> 'a rfb" where
  "send_vencrypt_subtype_ack fe accepted p =
     (if fe_ack fe then (True, act [SendAll [if accepted then 1 else 0]] p) else (False, internal_error p))"

definition upgrade_to_tls :: "'a rfb_env \<Rightarrow> 'a rfb \<Rightarrow> unit result \<times> 'a rfb" where
  "upgrade_to_tls fe p =
     (if \<not> fe_tls fe then (Inr (), internal_error p)
      else
        let p = act [Upgraded] p in
        if f_subtype p = X509VNC then send_challenge fe p else (Inr (), security_result p))"

definition parse_vencrypt_subtype :: "'a rfb_env \<Rightarrow> bytes \<Rightarrow> 'a rfb \<Rightarrow> int result \<times> 'a rfb" where
  "parse_vencrypt_subtype fe data p =
     (if length data < 4 then (Inr 0, p)
      else
        let p = p\<lparr>f_read_size := READ_BUFFER_SIZE\<rparr>; subtype = be_int (take 4 data) in
        if subtype \<notin> set vencrypt_values \<or> subtype \<notin> set (f_subtypes p)
        then (Inr 0, internal_error (snd (send_vencrypt_subtype_ack fe False p)))
        else
          let (sent, p) = send_vencrypt_subtype_ack fe True (p\<lparr>f_subtype := subtype\<rparr>) in
          if \<not> sent then (Inr 0, p)
          else (case upgrade_to_tls fe p of (Inl e, p) \<Rightarrow> (Inl e, p) | (Inr _, p) \<Rightarrow> (Inr 4, p)))"

text \<open>
  The response: the capabilities that the module is given hold nothing else, and the sixteen bytes have
  to be all there is in the buffer.
\<close>

definition response_caps :: "bytes \<Rightarrow> tdict" where
  "response_caps response = [(PStr (dname ''challenge_response''), PStr (map uint (hexlify response)))]"

definition parse_challenge :: "'a rfb_env \<Rightarrow> bytes \<Rightarrow> 'a rfb \<Rightarrow> int result \<times> 'a rfb" where
  "parse_challenge fe response p =
     (if length response < 16 then (Inr 0, p)
      else
        (case f_auth p of
           None \<Rightarrow> (Inl AssertionError, p)
         | Some a \<Rightarrow>
             if length response \<noteq> 16 then (Inr (int (length response)), act [FailLater] p)
             else
               (case ao_authenticate (fe_ops fe) (response_caps response) (f_world p) a of
                  (r, a, w) \<Rightarrow>
                    (let p = p\<lparr>f_auth := Some a, f_world := w\<rparr> in
                     if r = Inr True then (Inr 16, security_result (act [AuthSucceeded] p))
                     else (Inr (int (length response)), act [FailLater] p)))))"

definition parse_security_result :: "'a rfb_env \<Rightarrow> bytes \<Rightarrow> 'a rfb \<Rightarrow> int result \<times> 'a rfb" where
  "parse_security_result fe data p =
     (let p = p\<lparr>f_share := (data \<noteq> [0]), f_parser := ParseRfb\<rparr> in
      case pack_fields CLIENT_INIT (fe_pixel fe @ [0, 0, 0, int (length (fe_name fe))]) of
        Inl e \<Rightarrow> (Inl e, p)
      | Inr packet \<Rightarrow> (Inr 1, act [Authenticated] (send (packet @ fe_name fe) p)))"

subsection \<open>Messages\<close>

definition deliver_packet :: "rfb_packet \<Rightarrow> 'a rfb \<Rightarrow> 'a rfb" where
  "deliver_packet pkt p = act [Deliver pkt] (p\<lparr>f_packets := f_packets p + 1\<rparr>)"

definition parse_rfb :: "bytes \<Rightarrow> 'a rfb \<Rightarrow> int result \<times> 'a rfb" where
  "parse_rfb data p =
     (case data of
        [] \<Rightarrow> (Inl IndexError, p)
      | b # _ \<Rightarrow>
          let ptype = uint b in
          if ptype \<notin> set client_packet_types then (Inr 0, invalid p)
          else
            (case packet_struct ptype of
               None \<Rightarrow> (Inr 0, invalid p)
             | Some s \<Rightarrow>
                 if length data < struct_size s then (Inr 0, p)
                 else
                   let size = int (struct_size s); values = unpack_fields s (take (struct_size s) data) in
                   if ptype = 2 then
                     let n = nat (values ! 2); size = size + 4 * int n in
                     if int (length data) < size then (Inr 0, p)
                     else
                       let encodings = unpack_fields (replicate n Fi) (py_slice data (int (struct_size s)) size) in
                       (Inr size, deliver_packet (RfbPacket ptype (tl values) (Encodings encodings)) p)
                   else if ptype = 6 then
                     let size = size + values ! 4 in
                     if int (length data) < size then (Inr 0, p)
                     else
                       (Inr size, deliver_packet (RfbPacket ptype (tl values) (Cut (py_slice data (int (struct_size s)) size))) p)
                   else (Inr size, deliver_packet (RfbPacket ptype (tl values) NoExtra) p)))"

definition rfb_parse :: "'a rfb_env \<Rightarrow> bytes \<Rightarrow> 'a rfb \<Rightarrow> int result \<times> 'a rfb" where
  "rfb_parse fe data p =
     (case f_parser p of
        ParseHandshake \<Rightarrow> parse_protocol_handshake fe data p
      | ParseSecurity \<Rightarrow> parse_security_handshake fe data p
      | ParseVencryptVersion \<Rightarrow> parse_vencrypt_version data p
      | ParseVencryptSubtype \<Rightarrow> parse_vencrypt_subtype fe data p
      | ParseChallenge \<Rightarrow> parse_challenge fe data p
      | ParseSecurityResult \<Rightarrow> parse_security_result fe data p
      | ParseRfb \<Rightarrow> parse_rfb data p
      | ParseInvalid \<Rightarrow> (Inr (int (length data)), p))"

section \<open>Reading\<close>

text \<open>
  The loop of \<^verbatim>\<open>_read\<close>. A negative size is not zero, so the loop goes on with what the slice leaves;
  not coming back is the value \<^verbatim>\<open>None\<close>.
\<close>

partial_function (option) rfb_loop :: "'a rfb_env \<Rightarrow> 'a rfb \<Rightarrow> (unit result \<times> 'a rfb) option" where
  "rfb_loop fe p =
     (if f_buffer p = [] then Some (Inr (), p)
      else
        (case rfb_parse fe (f_buffer p) p of
           (Inl e, p) \<Rightarrow> Some (Inl e, p)
         | (Inr n, p) \<Rightarrow>
             if n = 0 then Some (Inr (), p)
             else rfb_loop fe (p\<lparr>f_buffer := py_from (f_buffer p) n\<rparr>)))"

definition rfb_close :: "'a rfb \<Rightarrow> 'a rfb" where
  "rfb_close p = (if f_closed p then p else act [Closed] (p\<lparr>f_closed := True\<rparr>))"

text \<open>
  \<^verbatim>\<open>_read\<close> with what the socket gives, in \<^verbatim>\<open>_io_thread_loop\<close>: whether the thread goes on, and the
  protocol. An exception closes the connection.
\<close>

definition rfb_read :: "'a rfb_env \<Rightarrow> auth_world \<Rightarrow> bytes \<Rightarrow> 'a rfb \<Rightarrow> (bool \<times> 'a rfb) option" where
  "rfb_read fe w data p =
     (if f_closed p then Some (False, p)
      else if data = [] then Some (False, act [CloseLater] p)
      else
        (case rfb_loop fe (p\<lparr>f_world := w, f_reads := f_reads p + 1, f_buffer := f_buffer p @ data\<rparr>) of
           None \<Rightarrow> None
         | Some (Inl e, p) \<Rightarrow> Some (False, rfb_close p)
         | Some (Inr _, p) \<Rightarrow> Some (True, p)))"

text \<open>The failure that is sent when the second is over.\<close>

definition send_fail_challenge :: "'a rfb \<Rightarrow> 'a rfb" where
  "send_fail_challenge p = rfb_close (send (be_bytes 4 1) p)"

end
