(* ===== verification/RFBSafety.thy ===== *)
theory RFBSafety
  imports RFBProtocol
begin

text \<open>
  What the VNC server's handshake guarantees: a session is only given to a client that the
  authentication module has accepted, whatever the client sends and however it arrives. The contract
  between the protocol and the module that it is given is a locale; the modules satisfy it.
\<close>

section \<open>Steps\<close>

text \<open>
  What may happen to a protocol: bytes arrive, or a timer closes the connection or sends the failure.
  What the environment answers may change from one step to the next, the module's methods do not.
\<close>

inductive rfb_step :: "'a auth_ops \<Rightarrow> 'a rfb \<Rightarrow> 'a rfb \<Rightarrow> bool" where
  read: "fe_ops fe = ops \<Longrightarrow> rfb_read fe w data p = Some (go, p') \<Longrightarrow> rfb_step ops p p'"
| close: "rfb_step ops p (rfb_close p)"
| fail: "rfb_step ops p (send_fail_challenge p)"

inductive_cases rfb_stepE: "rfb_step ops p p'"

text \<open>The start of a session, and that nothing of one comes before a successful authentication.\<close>

fun is_session :: "rfb_action \<Rightarrow> bool" where
  "is_session Authenticated = True"
| "is_session (Deliver pkt) = True"
| "is_session _ = False"

fun login_first :: "rfb_action list \<Rightarrow> bool" where
  "login_first [] = True"
| "login_first (x # xs) = (x = AuthSucceeded \<or> (\<not> is_session x \<and> login_first xs))"

lemma login_first_append:
  "login_first (xs @ ys) \<longleftrightarrow> login_first xs \<and> (AuthSucceeded \<in> set xs \<or> login_first ys)"
  by (induction xs) auto

lemma rfb_loop_induct [consumes 1, case_names loop]:
  assumes "rfb_loop fe p = Some y"
    and "\<And>rec fe p y.
      (\<And>fe p y. rec fe p = Some y \<Longrightarrow> Q fe p y) \<Longrightarrow>
      (if f_buffer p = [] then Some (Inr (), p)
       else
         (case rfb_parse fe (f_buffer p) p of
            (Inl e, p) \<Rightarrow> Some (Inl e, p)
          | (Inr n, p) \<Rightarrow>
              if n = 0 then Some (Inr (), p)
              else rec fe (p\<lparr>f_buffer := py_from (f_buffer p) n\<rparr>))) = Some y \<Longrightarrow> Q fe p y"
  shows "Q fe p y"
  using rfb_loop.raw_induct [where P = Q] assms by blast

lemma rfb_loop_keeps:
  assumes "rfb_loop fe p = Some (r, p')" "I p"
    and "\<And>p r p'. I p \<Longrightarrow> rfb_parse fe (f_buffer p) p = (r, p') \<Longrightarrow> I p'"
    and "\<And>p b. I p \<Longrightarrow> I (p\<lparr>f_buffer := b\<rparr>)"
  shows "I p'"
proof -
  have "I q \<Longrightarrow> fe' = fe \<Longrightarrow> I (snd y)" if "rfb_loop fe' q = Some y" for fe' q y
    using that
  proof (induction rule: rfb_loop_induct)
    case (loop rec fe' q y)
    obtain r q' where q: "rfb_parse fe' (f_buffer q) q = (r, q')" by fastforce
    show ?case
      using loop.hyps loop.prems q assms(3) [of q r q'] assms(4) loop.IH by (auto split: if_splits sum.splits)
  qed
  then show ?thesis using assms(1,2) by fastforce
qed

section \<open>The contract with the module\<close>

text \<open>
  The protocol keeps the module that it is given; a module that is \<open>good\<close> requires a challenge and
  stays so. That a login was proved is that the module accepted a response of sixteen bytes.
\<close>

definition accepted_response :: "'a auth_ops \<Rightarrow> ('a \<Rightarrow> bool) \<Rightarrow> bool" where
  "accepted_response ops good \<longleftrightarrow>
     (\<exists>response w a a' w'. length response = 16 \<and> good a \<and> ao_authenticate ops (response_caps response) w a = (Inr True, a', w'))"

locale rfb_gate =
  fixes ops :: "'a auth_ops"
    and good :: "'a \<Rightarrow> bool"
  assumes good_requires: "good a \<Longrightarrow> ao_requires ops a"
    and challenge_good: "good a \<Longrightarrow> ao_get_challenge ops ds w a = (r, a', w') \<Longrightarrow> good a'"
    and authenticate_good: "good a \<Longrightarrow> ao_authenticate ops caps w a = (ok, a', w') \<Longrightarrow> good a'"
begin

definition guarded :: "'a rfb \<Rightarrow> bool" where
  "guarded p \<longleftrightarrow>
     (\<exists>a. f_auth p = Some a \<and> good a) \<and> set (f_subtypes p) \<subseteq> {X509VNC} \<and> login_first (f_out p) \<and>
     (f_parser p \<in> {ParseSecurityResult, ParseRfb} \<longrightarrow> AuthSucceeded \<in> set (f_out p)) \<and>
     (AuthSucceeded \<in> set (f_out p) \<longrightarrow> accepted_response ops good)"

lemma guarded_fields [simp]:
  "guarded (p\<lparr>f_buffer := b\<rparr>) = guarded p" "guarded (p\<lparr>f_world := w\<rparr>) = guarded p"
  "guarded (p\<lparr>f_reads := n\<rparr>) = guarded p" "guarded (p\<lparr>f_read_size := i\<rparr>) = guarded p"
  "guarded (p\<lparr>f_subtype := k\<rparr>) = guarded p" "guarded (p\<lparr>f_challenge := c\<rparr>) = guarded p"
  "guarded (p\<lparr>f_closed := x\<rparr>) = guarded p" "guarded (p\<lparr>f_share := x\<rparr>) = guarded p"
  "guarded (p\<lparr>f_packets := n\<rparr>) = guarded p"
  by (simp_all add: guarded_def)

lemma guarded_parser: "guarded p \<Longrightarrow> s \<notin> {ParseSecurityResult, ParseRfb} \<Longrightarrow> guarded (p\<lparr>f_parser := s\<rparr>)"
  by (simp add: guarded_def)

lemma guarded_act: "guarded p \<Longrightarrow> \<forall>a\<in>set as. \<not> is_session a \<and> a \<noteq> AuthSucceeded \<Longrightarrow> guarded (act as p)"
  by (induction as rule: rev_induct) (auto simp: guarded_def act_def login_first_append)

lemma guarded_send [simp]: "guarded p \<Longrightarrow> guarded (send b p)"
  by (simp add: send_def guarded_act)

lemma guarded_internal [simp]: "guarded p \<Longrightarrow> guarded (internal_error p)"
  by (simp add: internal_error_def guarded_act)

lemma guarded_invalid [simp]: "guarded p \<Longrightarrow> guarded (invalid p)"
  by (simp add: invalid_def guarded_act guarded_parser)

lemma guarded_needs: "guarded p \<Longrightarrow> fe_ops fe = ops \<Longrightarrow> needs_auth fe p"
  using good_requires by (auto simp: guarded_def needs_auth_def)

lemma guarded_challenge:
  "guarded p \<Longrightarrow> fe_ops fe = ops \<Longrightarrow> send_challenge fe p = (r, p') \<Longrightarrow> guarded p'"
  using challenge_good
  by (auto simp: send_challenge_def Let_def guarded_def send_def act_def login_first_append split: option.splits prod.splits sum.splits if_splits)

lemma guarded_result: "guarded p \<Longrightarrow> AuthSucceeded \<in> set (f_out p) \<Longrightarrow> guarded (security_result p)"
  by (auto simp: security_result_def guarded_def send_def act_def login_first_append)

lemma guarded_logged: "guarded p \<Longrightarrow> AuthSucceeded \<in> set (f_out p) \<Longrightarrow> guarded (act as p)"
  by (simp add: guarded_def act_def login_first_append)

lemma guarded_handshake:
  assumes "guarded p" "fe_ops fe = ops" "parse_protocol_handshake fe data p = (r, p')"
  shows "guarded p'"
proof -
  have "guarded (p\<lparr>f_parser := ParseSecurity, f_subtypes := [X509VNC]\<rparr>)"
    using assms(1) by (simp add: guarded_def)
  then have "guarded (handshake_complete fe p)"
    using guarded_needs [OF assms(1,2)] by (simp add: handshake_complete_def Let_def)
  then show ?thesis
    using assms(1,3) by (auto simp: parse_protocol_handshake_def split: if_splits sum.splits)
qed

lemma guarded_security:
  assumes "guarded p" "fe_ops fe = ops" "parse_security_handshake fe data p = (r, p')"
  shows "guarded p'"
  using assms(1,3) guarded_needs [OF assms(1,2)] guarded_challenge [OF assms(1,2)]
  by (auto simp: parse_security_handshake_def Let_def guarded_parser split: list.splits if_splits prod.splits sum.splits)

lemma guarded_version: "guarded p \<Longrightarrow> parse_vencrypt_version data p = (r, p') \<Longrightarrow> guarded p'"
  by (auto simp: parse_vencrypt_version_def Let_def guarded_parser split: if_splits)

lemma guarded_ack: "guarded p \<Longrightarrow> send_vencrypt_subtype_ack fe b p = (r, p') \<Longrightarrow> guarded p'"
  by (auto simp: send_vencrypt_subtype_ack_def guarded_act split: if_splits)

lemma ack_subtype: "send_vencrypt_subtype_ack fe b p = (r, p') \<Longrightarrow> f_subtype p' = f_subtype p"
  by (auto simp: send_vencrypt_subtype_ack_def act_def internal_error_def split: if_splits)

lemma guarded_upgrade:
  assumes "guarded p" "fe_ops fe = ops" "f_subtype p = X509VNC" "upgrade_to_tls fe p = (r, p')"
  shows "guarded p'"
proof -
  have "guarded (act [Upgraded] p)" using assms(1) by (simp add: guarded_act)
  then show ?thesis
    using assms(1,3,4) guarded_challenge [OF _ assms(2), of "act [Upgraded] p"]
    by (auto simp: upgrade_to_tls_def Let_def act_def split: if_splits)
qed

lemma guarded_subtype:
  assumes "guarded p" "fe_ops fe = ops" "parse_vencrypt_subtype fe data p = (r, p')"
  shows "guarded p'"
proof (cases "length data < 4")
  case True
  with assms show ?thesis by (simp add: parse_vencrypt_subtype_def)
next
  case False
  define q where "q = p\<lparr>f_read_size := READ_BUFFER_SIZE\<rparr>"
  define k where "k = be_int (take 4 data)"
  have q: "guarded q" using assms(1) by (simp add: q_def)
  show ?thesis
  proof (cases "k \<notin> set vencrypt_values \<or> k \<notin> set (f_subtypes q)")
    case True
    obtain x y where "send_vencrypt_subtype_ack fe False q = (x, y)" by fastforce
    with True False assms(3) guarded_ack [OF q this] show ?thesis
      by (auto simp: parse_vencrypt_subtype_def Let_def q_def [symmetric] k_def [symmetric])
  next
    case k: False
    then have v: "k = X509VNC" using q by (auto simp: guarded_def)
    obtain x y where a: "send_vencrypt_subtype_ack fe True (q\<lparr>f_subtype := k\<rparr>) = (x, y)" by fastforce
    have y: "guarded y" "f_subtype y = X509VNC"
      using guarded_ack [OF _ a] ack_subtype [OF a] q v by simp_all
    show ?thesis
      using k False assms(3) a y guarded_upgrade [OF y(1) assms(2) y(2)]
      by (auto simp: parse_vencrypt_subtype_def Let_def q_def [symmetric] k_def [symmetric] split: if_splits prod.splits sum.splits)
  qed
qed

lemma guarded_response:
  assumes "guarded p" "fe_ops fe = ops" "parse_challenge fe response p = (r, p')"
  shows "guarded p'"
proof -
  obtain a where a: "f_auth p = Some a" "good a" using assms(1) by (auto simp: guarded_def)
  obtain ok a' w' where ok: "ao_authenticate ops (response_caps response) (f_world p) a = (ok, a', w')"
    by (metis prod_cases3)
  define q where "q = p\<lparr>f_auth := Some a', f_world := w'\<rparr>"
  have q: "guarded q" using assms(1) a authenticate_good [OF a(2) ok] by (simp add: guarded_def q_def)
  have "guarded (security_result (act [AuthSucceeded] q))" if "ok = Inr True" "length response = 16"
  proof (rule guarded_result)
    have "accepted_response ops good" unfolding accepted_response_def using that ok a(2) by blast
    with q show "guarded (act [AuthSucceeded] q)" by (simp add: guarded_def act_def login_first_append)
  qed (simp add: act_def)
  then show ?thesis
    using assms a ok q guarded_act [OF q, of "[FailLater]"] guarded_act [OF assms(1), of "[FailLater]"]
    by (auto simp: parse_challenge_def Let_def q_def split: if_splits)
qed

lemma guarded_init:
  assumes "guarded p" "f_parser p = ParseSecurityResult" "parse_security_result fe data p = (r, p')"
  shows "guarded p'"
proof -
  define q where "q = p\<lparr>f_share := (data \<noteq> [0]), f_parser := ParseRfb\<rparr>"
  have q: "guarded q" "AuthSucceeded \<in> set (f_out q)" using assms(1,2) by (simp_all add: q_def guarded_def)
  have "guarded (act [Authenticated] (send b q))" for b
    using guarded_logged [OF guarded_send [OF q(1)]] q(2) by (simp add: send_def act_def)
  then show ?thesis
    using assms(3) q(1) by (auto simp: parse_security_result_def Let_def q_def [symmetric] split: sum.splits)
qed

lemma guarded_messages:
  assumes "guarded p" "f_parser p = ParseRfb" "parse_rfb data p = (r, p')"
  shows "guarded p'"
proof -
  have "guarded (deliver_packet pkt p)" for pkt
    using assms(1,2) by (simp add: deliver_packet_def guarded_logged guarded_def act_def login_first_append)
  then show ?thesis
    using assms(1,3) by (auto simp: parse_rfb_def Let_def split: list.splits option.splits if_splits)
qed

lemma guarded_parse:
  assumes "guarded p" "fe_ops fe = ops" "rfb_parse fe data p = (r, p')"
  shows "guarded p'"
  using assms(3) guarded_handshake [OF assms(1,2)] guarded_security [OF assms(1,2)] guarded_version [OF assms(1)]
    guarded_subtype [OF assms(1,2)] guarded_response [OF assms(1,2)] guarded_init [OF assms(1)] guarded_messages [OF assms(1)]
    assms(1)
  by (cases "f_parser p") (auto simp: rfb_parse_def)

lemma guarded_close [simp]: "guarded p \<Longrightarrow> guarded (rfb_close p)"
  by (auto simp: rfb_close_def guarded_act)

lemma guarded_step:
  assumes "rfb_step ops p p'" "guarded p"
  shows "guarded p'"
  using assms(1)
proof cases
  case (read fe w data go)
  define q where "q = p\<lparr>f_world := w, f_reads := Suc (f_reads p), f_buffer := f_buffer p @ data\<rparr>"
  have "guarded q" using assms(2) by (simp add: q_def)
  then have keeps: "guarded x" if "rfb_loop fe q = Some (r, x)" for r x
    using rfb_loop_keeps [OF that, of guarded] guarded_parse [OF _ read(1)] by auto
  show ?thesis
    using read(2) assms(2) keeps guarded_act [OF assms(2), of "[CloseLater]"]
    by (auto simp: rfb_read_def q_def [symmetric] split: if_splits option.splits sum.splits)
next
  case close
  with assms(2) show ?thesis by simp
next
  case fail
  with assms(2) show ?thesis by (simp add: send_fail_challenge_def)
qed

lemma guarded_reached:
  assumes "(rfb_step ops)\<^sup>*\<^sup>* (new_rfb (Some a) w data) p" "good a"
  shows "guarded p"
  using assms(1)
proof (induction rule: rtranclp_induct)
  case base
  with assms(2) show ?case by (simp add: guarded_def new_rfb_def)
next
  case (step p q)
  then show ?case by (blast intro: guarded_step)
qed

lemma session_proved:
  assumes "(rfb_step ops)\<^sup>*\<^sup>* (new_rfb (Some a) w data) p" "good a" "list_ex is_session (f_out p)"
  shows "login_first (f_out p) \<and> AuthSucceeded \<in> set (f_out p) \<and> accepted_response ops good"
proof -
  have g: "login_first (f_out p)" "AuthSucceeded \<in> set (f_out p) \<longrightarrow> accepted_response ops good"
    using guarded_reached [OF assms(1,2)] by (simp_all add: guarded_def)
  have "login_first xs \<Longrightarrow> list_ex is_session xs \<Longrightarrow> AuthSucceeded \<in> set xs" for xs
    by (induction xs) auto
  with g assms(3) show ?thesis by blast
qed

end

section \<open>The modules\<close>

lemma get_challenge_requires:
  "module_get_challenge ds w m = (r, m', w') \<Longrightarrow> module_requires m' = module_requires m"
  by (cases m) (auto split: prod.splits)

lemma authenticate_requires:
  "module_authenticate dl caps w m = (r, m', w') \<Longrightarrow> module_requires m' = module_requires m"
  by (cases m) (auto split: prod.splits)

interpretation gate: rfb_gate "module_ops dl" module_requires
  for dl
  by unfold_locales (simp_all add: module_ops_def get_challenge_requires authenticate_requires)


definition toy_rfb_env :: "auth_module rfb_env" where
  "toy_rfb_env =
     \<lparr>fe_ops = module_ops toy_lib, fe_cert = False, fe_name = [88],
      fe_pixel = [640, 480, 32, 24, 0, 1, 255, 255, 255, 16, 8, 0], fe_ack = True, fe_tls = True\<rparr>"

definition toy_rfb :: "auth_module \<Rightarrow> auth_module rfb" where
  "toy_rfb m = new_rfb (Some m) toy_world []"

text \<open>Running the loop for a number of rounds, to evaluate it.\<close>

fun rfb_run :: "nat \<Rightarrow> 'a rfb_env \<Rightarrow> 'a rfb \<Rightarrow> (unit result \<times> 'a rfb) option" where
  "rfb_run 0 fe p = None"
| "rfb_run (Suc k) fe p =
     (if f_buffer p = [] then Some (Inr (), p)
      else
        (case rfb_parse fe (f_buffer p) p of
           (Inl e, p) \<Rightarrow> Some (Inl e, p)
         | (Inr n, p) \<Rightarrow> if n = 0 then Some (Inr (), p) else rfb_run k fe (p\<lparr>f_buffer := py_from (f_buffer p) n\<rparr>)))"

lemma rfb_run_loop: "rfb_run k fe p = Some y \<Longrightarrow> rfb_loop fe p = Some y"
proof (induction k arbitrary: p)
  case (Suc k)
  then show ?case
    by (subst rfb_loop.simps) (auto split: if_splits sum.splits prod.splits)
qed simp

definition toy_reads :: "auth_module \<Rightarrow> bytes list \<Rightarrow> auth_module rfb option" where
  "toy_reads m chunks =
     foldl (\<lambda>p data.
       case p of
         None \<Rightarrow> None
       | Some p \<Rightarrow>
           (case rfb_run 5 toy_rfb_env (p\<lparr>f_world := toy_world, f_reads := f_reads p + 1, f_buffer := f_buffer p @ data\<rparr>) of
              Some (Inr _, q) \<Rightarrow> if f_closed p \<or> data = [] then None else Some q
            | _ \<Rightarrow> None)) (Some (toy_rfb m)) chunks"

lemma toy_reads_snoc:
  "toy_reads m (cs @ [data]) =
     (case toy_reads m cs of
        None \<Rightarrow> None
      | Some p \<Rightarrow>
          (case rfb_run 5 toy_rfb_env (p\<lparr>f_world := toy_world, f_reads := f_reads p + 1, f_buffer := f_buffer p @ data\<rparr>) of
             Some (Inr _, q) \<Rightarrow> if f_closed p \<or> data = [] then None else Some q
           | _ \<Rightarrow> None))"
  by (simp add: toy_reads_def)

lemma toy_reads_reached: "toy_reads m cs = Some p \<Longrightarrow> (rfb_step (module_ops toy_lib))\<^sup>*\<^sup>* (toy_rfb m) p"
proof (induction cs arbitrary: p rule: rev_induct)
  case Nil
  then show ?case by (simp add: toy_reads_def)
next
  case (snoc data cs)
  then obtain q where q: "toy_reads m cs = Some q"
    "rfb_run 5 toy_rfb_env (q\<lparr>f_world := toy_world, f_reads := f_reads q + 1, f_buffer := f_buffer q @ data\<rparr>) = Some (Inr (), p)"
    "\<not> f_closed q" "data \<noteq> []"
    by (auto simp: toy_reads_snoc split: option.splits sum.splits if_splits)
  have "rfb_read toy_rfb_env toy_world data q = Some (True, p)"
    using rfb_run_loop [OF q(2)] q(3,4) by (simp add: rfb_read_def)
  moreover have "fe_ops toy_rfb_env = module_ops toy_lib" by (simp add: toy_rfb_env_def)
  ultimately have "rfb_step (module_ops toy_lib) q p" by (rule rfb_step.read [rotated])
  with snoc.IH [OF q(1)] show ?case by simp
qed

definition toy_module :: auth_module where
  "toy_module = AllowModule (new_sys_auth [] True [])"

lemma toy_session: "map_option (\<lambda>p. list_ex is_session (f_out p)) (toy_reads toy_module [HANDSHAKE @ [2] @ replicate 16 0, [1]]) = Some True"
  by code_simp


section \<open>The modules that need the client's salt\<close>

text \<open>
  A VNC client sends a response and nothing else. The modules that ask for a challenge mix its salt with
  one of the client's, which is missing, so they refuse every response; only \<^verbatim>\<open>allow\<close> does not look at it.
\<close>

fun wants_client_salt :: "auth_module \<Rightarrow> bool" where
  "wants_client_salt (PasswordModule s) = True"
| "wants_client_salt (CodeModule co c) = True"
| "wants_client_salt (RejectModule prompt sent passed) = True"
| "wants_client_salt _ = False"

lemma response_caps_lookup: "conv_lookup (dname ''challenge_client_salt'') (response_caps r) = None"
  by (simp add: conv_lookup_def td_descend.simps dotted_def response_caps_def dname_def)

lemma response_caps_salt [simp]:
  "caps_bytes dl ''challenge_client_salt'' (response_caps r) = Inr []"
  "caps_str dl ''challenge_client_salt'' (response_caps r) = Inr []"
  by (simp_all add: caps_bytes_def caps_str_def bytesget_def strget_def conv_get_def response_caps_lookup)

lemma no_client_salt:
  "\<not> py_bool c \<Longrightarrow> get_response_salt dl sd s c w = (Inl AssertionError, w)"
  by (simp add: get_response_salt_def gendigest_def split: option.splits)

lemma hmac_refuses: "authenticate_hmac dl (response_caps r) w s \<noteq> (Inr True, s', w')"
  by (auto simp: authenticate_hmac_def no_client_salt py_bool_def ebind_def split: sum.splits)

lemma default_refuses:
  "dl_unutf8 dl [] = Inr [] \<Longrightarrow> default_authenticate_check dl (response_caps r) w s \<noteq> (Inr True, s', w')"
  by (auto simp: default_authenticate_check_def no_client_salt py_bool_def ebind_def check_password_def split: sum.splits)

lemma code_salt_refuses: "code_salt dl (response_caps r) w c = (Inl AssertionError, w)"
  by (simp add: code_salt_def no_client_salt py_bool_def)

lemma code_refuses: "code_authenticate co dl (response_caps r) w c \<noteq> (Inr True, c', w')"
  by (auto simp: code_authenticate_def code_check_def code_address_def code_salt_refuses split: sum.splits bool.splits if_splits)

lemma vnc_refused:
  assumes "wants_client_salt m" "dl_unutf8 dl [] = Inr []"
  shows "module_authenticate dl (response_caps r) w m \<noteq> (Inr True, m', w')"
proof (cases m)
  case (PasswordModule s)
  with hmac_refuses default_refuses [OF assms(2)] show ?thesis
    by (auto simp: sys_authenticate_def split: sum.splits bool.splits if_splits prod.splits)
next
  case (CodeModule co c)
  with code_refuses show ?thesis by (auto split: prod.splits)
qed (use assms in auto)

lemma get_challenge_wants:
  "module_get_challenge ds w m = (r, m', w') \<Longrightarrow> wants_client_salt m' = wants_client_salt m"
  by (cases m) (auto split: prod.splits)

lemma authenticate_wants:
  "module_authenticate dl caps w m = (r, m', w') \<Longrightarrow> wants_client_salt m' = wants_client_salt m"
  by (cases m) (auto split: prod.splits)

lemma wants_requires: "wants_client_salt m \<Longrightarrow> module_requires m"
  by (cases m) auto

interpretation salted: rfb_gate "module_ops dl" wants_client_salt
  for dl
  by unfold_locales (simp_all add: module_ops_def wants_requires get_challenge_wants authenticate_wants)

text \<open>
  C40: A VNC client cannot log in to a server whose authentication module checks a password or a one-time
  code: no response is accepted, the one that the client computes from the right password included, and
  the session never starts.
\<close>

theorem rfb_password_never_accepted:
  assumes "(rfb_step (module_ops dl))\<^sup>*\<^sup>* (new_rfb (Some m) w data) p" "wants_client_salt m" "dl_unutf8 dl [] = Inr []"
  shows "\<not> list_ex is_session (f_out p) \<and> AuthSucceeded \<notin> set (f_out p)"
proof -
  have no: "\<not> accepted_response (module_ops dl) wants_client_salt"
    using vnc_refused [OF _ assms(3)] unfolding accepted_response_def module_ops_simps by blast
  have "salted.guarded dl p" by (rule salted.guarded_reached [OF assms(1,2)])
  with no salted.session_proved [OF assms(1,2)] show ?thesis unfolding salted.guarded_def by blast
qed

definition toy_password :: auth_module where
  "toy_password = password_authenticator (dname ''secret'') []"

lemma toy_refused: "map_option (\<lambda>p. FailLater \<in> set (f_out p)) (toy_reads toy_password [HANDSHAKE @ [2], replicate 16 0]) = Some True"
  by code_simp

theorem rfb_password_never_accepted_witness:
  "\<exists>p. toy_reads toy_password [HANDSHAKE @ [2], replicate 16 0] = Some p \<and> FailLater \<in> set (f_out p) \<and>
     \<not> list_ex is_session (f_out p) \<and> AuthSucceeded \<notin> set (f_out p)"
proof -
  obtain p where p: "toy_reads toy_password [HANDSHAKE @ [2], replicate 16 0] = Some p" "FailLater \<in> set (f_out p)"
    using toy_refused by auto
  have "wants_client_salt toy_password" "dl_unutf8 toy_lib [] = Inr []"
    by (simp_all add: toy_password_def password_authenticator_def toy_lib_def)
  with p rfb_password_never_accepted [OF toy_reads_reached [OF p(1), unfolded toy_rfb_def]] show ?thesis by blast
qed

end
