(* ===== verification/RFBMessages.thy ===== *)
theory RFBMessages
  imports RFBSafety
begin

text \<open>
  The messages of a VNC client: packing and unpacking them, that they are delivered in order in whatever
  pieces they arrive, as \<^verbatim>\<open>incremental_parser\<close> has it, and the message that the reading never gets over.
\<close>

section \<open>Structures\<close>

lemma struct_size_simps [simp]: "struct_size [] = 0" "struct_size (f # fs) = field_size f + struct_size fs"
  by (simp_all add: struct_size_def)

lemma be_bytes_mod: "be_bytes k (n mod 256 ^ k) = be_bytes k n"
  using be_bytes_be_int [of "be_bytes k n" k] by (simp add: be_int_be_bytes_mod)

lemma signed32_mod: "- (2 ^ 31) \<le> v \<Longrightarrow> v < 2 ^ 31 \<Longrightarrow> signed32 (v mod 2 ^ 32) = v"
proof (cases "0 \<le> v")
  case False
  assume v: "- (2 ^ 31) \<le> v" "v < 2 ^ 31"
  have "v mod 2 ^ 32 = (v + 2 ^ 32) mod 2 ^ 32" by simp
  also have "\<dots> = v + 2 ^ 32" using v False by (intro mod_pos_pos_trivial) simp_all
  finally show ?thesis using v by (simp add: signed32_def)
qed (simp add: signed32_def)

lemma field_roundtrip: "field_ok f v \<Longrightarrow> field_value f (be_bytes (field_size f) v) = v"
  using be_int_be_bytes [of v 1] signed32_mod [of v]
  by (cases f) (simp_all add: be_int_be_bytes be_int_be_bytes_mod)

lemma pack_fields_length: "pack_fields fs vs = Inr b \<Longrightarrow> length b = struct_size fs"
  by (induction fs vs arbitrary: b rule: pack_fields.induct) (auto simp: ebind_eq_Inr split: if_splits)

lemma unpack_fields_prefix: "struct_size fs \<le> length b \<Longrightarrow> unpack_fields fs (b @ x) = unpack_fields fs b"
  by (induction fs arbitrary: b) auto

lemma unpack_fields_take: "unpack_fields fs (take (struct_size fs) b) = unpack_fields fs b"
  by (induction fs arbitrary: b) (simp_all add: drop_take)

lemma length_unpack_fields [simp]: "length (unpack_fields fs b) = length fs"
  by (induction fs arbitrary: b) auto

lemma struct_size_encodings [simp]: "struct_size (replicate n Fi) = 4 * n"
  by (induction n) auto

lemma unpack_pack_fields: "pack_fields fs vs = Inr b \<Longrightarrow> unpack_fields fs (b @ x) = vs"
proof (induction fs vs arbitrary: b rule: pack_fields.induct)
  case (2 f fs v vs)
  then obtain c where c: "field_ok f v" "pack_fields fs vs = Inr c" "b = be_bytes (field_size f) v @ c"
    by (auto simp: ebind_eq_Inr split: if_splits)
  with 2 show ?case by (simp add: field_roundtrip)
qed auto

lemma pack_unpack_fields: "length b = struct_size fs \<Longrightarrow> pack_fields fs (unpack_fields fs b) = Inr b"
proof (induction fs arbitrary: b)
  case (Cons f fs)
  have "field_ok f (field_value f (take (field_size f) b)) \<and>
      be_bytes (field_size f) (field_value f (take (field_size f) b)) = take (field_size f) b"
    if "field_size f \<le> length b"
  proof (cases "f = Fi")
    case True
    have b: "0 \<le> be_int (take 4 b)" "be_int (take 4 b) < 2 ^ 32" "length (take 4 b) = 4"
      using be_int_bound [of "take 4 b"] that True by simp_all
    have "be_bytes 4 (signed32 (be_int (take 4 b))) = be_bytes 4 (be_int (take 4 b))"
    proof -
      have "(n - 2 ^ 32) mod 256 ^ 4 = n mod 256 ^ 4" for n :: int by (simp add: mod_simps)
      then have "signed32 n mod 256 ^ 4 = n mod 256 ^ 4" for n unfolding signed32_def by simp
      then show ?thesis by (metis be_bytes_mod)
    qed
    with b True show ?thesis by (auto simp: signed32_def be_bytes_be_int intro: order_trans [OF _ b(1)])
  next
    case False
    with that be_int_bound [of "take (field_size f) b"] show ?thesis
      by (cases f) (simp_all add: be_bytes_be_int del: be_bytes.simps)
  qed
  with Cons.prems Cons.IH [of "drop (field_size f) b"] show ?case by simp
qed simp

section \<open>One message\<close>

text \<open>
  What the start of a buffer says, without the protocol around it: the sizes of the structures, the count
  of the encodings and the length of the text. A text of negative length is no message.
\<close>

definition rfb_format :: "bytes \<Rightarrow> field list option" where
  "rfb_format buf =
     (case buf of [] \<Rightarrow> None | b # _ \<Rightarrow> if uint b \<in> set client_packet_types then packet_struct (uint b) else None)"

definition rfb_tail :: "int list \<Rightarrow> int" where
  "rfb_tail vs = (if hd vs = 2 then 4 * vs ! 2 else if hd vs = 6 then vs ! 4 else 0)"

definition message_extra :: "int list \<Rightarrow> bytes \<Rightarrow> rfb_extra" where
  "message_extra vs b =
     (if hd vs = 2 then Encodings (unpack_fields (replicate (nat (vs ! 2)) Fi) b)
      else if hd vs = 6 then Cut b else NoExtra)"

definition rfb_message :: "bytes \<Rightarrow> rfb_packet Framing.outcome" where
  "rfb_message buf =
     (if buf = [] then NeedMore
      else
        (case rfb_format buf of
           None \<Rightarrow> Raised ValueError
         | Some s \<Rightarrow>
             if length buf < struct_size s then NeedMore
             else
               let vs = unpack_fields s buf; n = struct_size s; m = n + nat (rfb_tail vs) in
               if rfb_tail vs < 0 then Raised ValueError
               else if length buf < m then NeedMore
               else Took m [RfbPacket (hd vs) (tl vs) (message_extra vs (drop n (take m buf)))]))"

function rfb_messages :: "bytes \<Rightarrow> (rfb_packet list \<times> bytes) result" where
  "rfb_messages buf =
     (case rfb_message buf of
        NeedMore \<Rightarrow> Inr ([], buf)
      | Raised e \<Rightarrow> Inl e
      | Took n ps \<Rightarrow>
          if 0 < n \<and> n \<le> length buf
          then ebind (rfb_messages (drop n buf)) (\<lambda>(ps', rest). Inr (ps @ ps', rest)) else Inl ValueError)"
  by pat_completeness auto
termination
  by (relation "measure length") auto

declare rfb_messages.simps [simp del]

lemma format_app: "buf \<noteq> [] \<Longrightarrow> rfb_format (buf @ x) = rfb_format buf"
  by (cases buf) (simp_all add: rfb_format_def)

lemma packet_struct_cases:
  assumes "packet_struct t = Some s"
  obtains "t = 0" | "t = 2" "s = [FB, FB, FH]" | "t = 3" | "t = 4" | "t = 5" | "t = 6" "s = [FB, FB, FB, FB, Fi]" | "t = 150"
  using assms by (auto simp: packet_struct_def split: if_splits)

lemma packet_struct_first: "packet_struct t = Some s \<Longrightarrow> \<exists>fs. s = FB # fs"
  by (auto simp: packet_struct_def split: if_splits)

lemma format_first: "rfb_format (b # bs) = Some s \<Longrightarrow> hd (unpack_fields s (b # bs)) = uint b \<and> 0 < struct_size s"
  by (auto simp: rfb_format_def be_int_def split: if_splits dest!: packet_struct_first)

lemma message_took:
  assumes "rfb_message buf = Took n ps"
  obtains b bs s where "buf = b # bs" "rfb_format buf = Some s" "struct_size s \<le> length buf"
    "0 \<le> rfb_tail (unpack_fields s buf)" "n = struct_size s + nat (rfb_tail (unpack_fields s buf))" "n \<le> length buf"
    "ps = [RfbPacket (hd (unpack_fields s buf)) (tl (unpack_fields s buf))
             (message_extra (unpack_fields s buf) (drop (struct_size s) (take n buf)))]"
  using assms by (cases buf) (auto simp: rfb_message_def Let_def not_less split: option.splits if_splits)

interpretation rfb_stream: incremental_parser rfb_message rfb_messages
proof
  fix buf n ps more e
  {
    assume t: "rfb_message buf = Took n ps"
    then show "0 < n \<and> n \<le> length buf"
      by (rule message_took) (auto dest: format_first)
    show "rfb_message (buf @ more) = Took n ps"
      using t
    proof (rule message_took)
      fix b bs s
      assume "buf = b # bs" "rfb_format buf = Some s" "struct_size s \<le> length buf"
        "0 \<le> rfb_tail (unpack_fields s buf)" "n = struct_size s + nat (rfb_tail (unpack_fields s buf))" "n \<le> length buf"
        "ps = [RfbPacket (hd (unpack_fields s buf)) (tl (unpack_fields s buf))
             (message_extra (unpack_fields s buf) (drop (struct_size s) (take n buf)))]"
      then show ?thesis
        using format_app [of buf more] unpack_fields_prefix [of s buf more] take_append_le [of n buf more]
        by (simp add: rfb_message_def Let_def del: take_append)
    qed
    then show "rfb_messages buf = ebind (rfb_messages (drop n buf)) (\<lambda>(ps', rest). Inr (ps @ ps', rest))"
      using t \<open>0 < n \<and> n \<le> length buf\<close> by (simp add: rfb_messages.simps [of buf])
  next
    assume r: "rfb_message buf = Raised e"
    then show "rfb_messages buf = Inl e" by (simp add: rfb_messages.simps [of buf])
    have "buf \<noteq> []" using r by (auto simp: rfb_message_def)
    with r show "rfb_message (buf @ more) = Raised e"
      using format_app [of buf more] unpack_fields_prefix [of _ buf more]
      by (auto simp: rfb_message_def Let_def split: option.splits if_splits)
  next
    assume "rfb_message buf = NeedMore"
    then show "rfb_messages buf = Inr ([], buf)" by (simp add: rfb_messages.simps [of buf])
  }
qed (simp add: rfb_message_def)

section \<open>Delivery\<close>

text \<open>A message of the client, packed: the structure of its type, then the encodings or the text.\<close>

definition client_message :: "rfb_packet \<Rightarrow> bytes result" where
  "client_message pkt =
     (case pkt of RfbPacket t vs x \<Rightarrow>
        (case packet_struct t of
           None \<Rightarrow> Inl ValueError
         | Some s \<Rightarrow>
             ebind (pack_fields s (t # vs)) (\<lambda>b.
               (case x of
                  NoExtra \<Rightarrow> if t \<noteq> 2 \<and> t \<noteq> 6 then Inr b else Inl ValueError
                | Encodings es \<Rightarrow>
                    if t = 2 \<and> vs ! 1 = int (length es)
                    then ebind (pack_fields (replicate (length es) Fi) es) (\<lambda>c. Inr (b @ c)) else Inl ValueError
                | Cut text \<Rightarrow> if t = 6 \<and> vs ! 3 = int (length text) then Inr (b @ text) else Inl ValueError))))"

lemma packet_struct_supported: "packet_struct t = Some s \<Longrightarrow> t \<in> set client_packet_types \<and> 0 \<le> t \<and> t < 256"
  by (auto simp: packet_struct_def client_packet_types_def split: if_splits)

lemma encodings_roundtrip:
  "pack_fields (replicate n Fi) es = Inr c \<Longrightarrow> length c = 4 * n \<and> unpack_fields (replicate n Fi) c = es"
  using pack_fields_length [of "replicate n Fi" es c] unpack_pack_fields [of "replicate n Fi" es c "[]"] by simp

lemma client_message_parsed:
  assumes "client_message pkt = Inr b"
  shows "rfb_message b = Took (length b) [pkt]"
proof -
  obtain t vs x where pkt: "pkt = RfbPacket t vs x" by (cases pkt)
  obtain s h where s: "packet_struct t = Some s" and h: "pack_fields s (t # vs) = Inr h"
    using assms by (auto simp: client_message_def pkt ebind_eq_Inr split: option.splits)
  define c where "c = drop (length h) b"
  have b: "b = h @ c" and n: "rfb_tail (t # vs) = int (length c)" and e: "message_extra (t # vs) c = x"
    using assms s h
    by (auto simp: client_message_def pkt c_def ebind_eq_Inr rfb_tail_def message_extra_def
        dest!: encodings_roundtrip split: rfb_extra.splits if_splits)
  have lh: "length h = struct_size s" using h by (rule pack_fields_length)
  have u: "unpack_fields s (h @ c) = t # vs" using h by (rule unpack_pack_fields)
  obtain fs where fs: "s = FB # fs" using packet_struct_first [OF s] by blast
  have ne: "h \<noteq> []" using lh fs by auto
  have "uint (hd h) = t" using h fs packet_struct_supported [OF s] by (auto simp: ebind_eq_Inr uint_byte split: if_splits)
  then have f: "rfb_format (h @ c) = Some s"
    using ne s packet_struct_supported [OF s] by (cases h) (auto simp: rfb_format_def)
  show ?thesis
    using ne f u n e lh unfolding b pkt by (simp add: rfb_message_def Let_def)
qed

lemma client_messages_parsed: "emap client_message pkts = Inr bs \<Longrightarrow> rfb_messages (concat bs) = Inr (pkts, [])"
proof (induction pkts arbitrary: bs)
  case Nil
  then show ?case by (simp add: rfb_messages.simps [of "[]"] rfb_message_def)
next
  case (Cons pkt pkts)
  then obtain b bs' where b: "client_message pkt = Inr b" "emap client_message pkts = Inr bs'" "bs = b # bs'"
    by (auto simp: ebind_eq_Inr)
  have "rfb_message (b @ concat bs') = Took (length b) [pkt]"
    by (rule rfb_stream.took_stable) (rule client_message_parsed [OF b(1)])
  from rfb_stream.loop_took [OF this] Cons.IH [OF b(2)] b(3) show ?case by simp
qed

text \<open>The protocol does what the messages say: they are delivered, and what is left stays in the buffer.\<close>

definition delivered :: "rfb_packet list \<Rightarrow> bytes \<Rightarrow> 'a rfb \<Rightarrow> 'a rfb" where
  "delivered pkts rest p =
     p\<lparr>f_buffer := rest, f_packets := f_packets p + length pkts, f_out := f_out p @ map Deliver pkts\<rparr>"

lemma parse_rfb_eq:
  assumes "buf \<noteq> []" "rfb_format buf = Some s"
  shows "parse_rfb buf p =
    (if length buf < struct_size s then (Inr 0, p)
     else
       let vs = unpack_fields s buf; size = int (struct_size s) + (if hd vs = 2 then 4 * int (nat (vs ! 2)) else rfb_tail vs)
       in if int (length buf) < size then (Inr 0, p)
          else (Inr size, deliver_packet (RfbPacket (hd vs) (tl vs) (message_extra vs (py_slice buf (int (struct_size s)) size))) p))"
proof -
  obtain b bs where buf: "buf = b # bs" using assms(1) by (cases buf) auto
  have s: "uint b \<in> set client_packet_types" "packet_struct (uint b) = Some s"
    using assms(2) buf by (auto simp: rfb_format_def split: if_splits)
  have h: "hd (unpack_fields s buf) = uint b" using format_first [of b bs s] assms(2) buf by simp
  show ?thesis
    unfolding parse_rfb_def unpack_fields_take
    using s h by (simp add: buf Let_def rfb_tail_def message_extra_def)
qed

lemma unsigned_count: "packet_struct 2 = Some s \<Longrightarrow> 0 \<le> unpack_fields s b ! 2"
  by (auto simp: packet_struct_def)

lemma rfb_size_eq:
  assumes "rfb_format buf = Some s"
  shows "(if hd (unpack_fields s buf) = 2 then 4 * int (nat (unpack_fields s buf ! 2)) else rfb_tail (unpack_fields s buf)) =
    rfb_tail (unpack_fields s buf)"
proof -
  obtain b bs where buf: "buf = b # bs" using assms by (cases buf) (auto simp: rfb_format_def)
  have h: "hd (unpack_fields s buf) = uint b" "packet_struct (uint b) = Some s"
    using format_first [of b bs s] assms buf by (auto simp: rfb_format_def split: if_splits)
  with unsigned_count [of s buf] show ?thesis by (auto simp: rfb_tail_def)
qed

lemma parse_rfb_message:
  assumes "rfb_message buf = Took n ps"
  obtains pkt where "ps = [pkt]" "parse_rfb buf p = (Inr (int n), deliver_packet pkt p)"
  using assms
proof (rule message_took)
  fix b bs s
  assume a: "buf = b # bs" "rfb_format buf = Some s" "struct_size s \<le> length buf"
    "0 \<le> rfb_tail (unpack_fields s buf)" "n = struct_size s + nat (rfb_tail (unpack_fields s buf))" "n \<le> length buf"
    "ps = [RfbPacket (hd (unpack_fields s buf)) (tl (unpack_fields s buf))
             (message_extra (unpack_fields s buf) (drop (struct_size s) (take n buf)))]"
  have n: "int (struct_size s) + rfb_tail (unpack_fields s buf) = int n" using a(4,5) by simp
  have "buf \<noteq> []" using a(1) by simp
  note eq = parse_rfb_eq [OF this a(2), of p, unfolded rfb_size_eq [OF a(2)] Let_def n]
  have "py_slice buf (int (struct_size s)) (int n) = drop (struct_size s) (take n buf)"
    using py_slice_within [of "int n" buf "struct_size s"] a(3,6) by simp
  with eq a(3,6,7) that show thesis by simp
qed

lemma parse_rfb_more:
  assumes "rfb_message buf = NeedMore" "buf \<noteq> []"
  shows "parse_rfb buf p = (Inr 0, p)"
proof -
  obtain s where s: "rfb_format buf = Some s" using assms by (auto simp: rfb_message_def split: option.splits)
  note eq = parse_rfb_eq [OF assms(2) s, of p, unfolded rfb_size_eq [OF s] Let_def]
  show ?thesis
    using assms s unfolding eq by (auto simp: rfb_message_def Let_def split: if_splits)
qed

lemma rfb_loop_messages:
  assumes "rfb_messages buf = Inr (pkts, rest)" "f_parser p = ParseRfb" "f_buffer p = buf"
  shows "rfb_loop fe p = Some (Inr (), delivered pkts rest p)"
  using assms
proof (induction buf arbitrary: pkts p rule: length_induct)
  case (1 buf)
  show ?case
  proof (cases "rfb_message buf")
    case NeedMore
    with "1.prems"(1) rfb_stream.loop_more have "pkts = []" "rest = buf" by simp_all
    then have "delivered pkts rest p = p" using "1.prems"(3) by (simp add: delivered_def)
    with NeedMore "1.prems" show ?thesis
      by (subst rfb_loop.simps) (simp add: rfb_parse_def parse_rfb_more)
  next
    case (Raised e)
    with "1.prems"(1) rfb_stream.loop_raised show ?thesis by simp
  next
    case (Took n ps)
    have n: "0 < n" "n \<le> length buf" using rfb_stream.took_bounds [OF Took] by simp_all
    obtain pkt where pkt: "ps = [pkt]" "parse_rfb buf p = (Inr (int n), deliver_packet pkt p)"
      by (rule parse_rfb_message [OF Took])
    obtain pkts' where m: "rfb_messages (drop n buf) = Inr (pkts', rest)" "pkts = pkt # pkts'"
      using "1.prems"(1) pkt(1) by (auto simp: rfb_stream.loop_took [OF Took] ebind_eq_Inr)
    define q where "q = (deliver_packet pkt p)\<lparr>f_buffer := drop n buf\<rparr>"
    have "rfb_loop fe p = rfb_loop fe q"
      using "1.prems"(2,3) n pkt(2) py_from_within [of n buf]
      by (subst rfb_loop.simps) (auto simp: rfb_parse_def q_def deliver_packet_def act_def)
    moreover have "rfb_loop fe q = Some (Inr (), delivered pkts' rest q)"
    proof -
      have "length (drop n buf) < length buf" using n by simp
      moreover have "f_parser q = ParseRfb" "f_buffer q = drop n buf"
        using "1.prems"(2) by (simp_all add: q_def deliver_packet_def act_def)
      ultimately show ?thesis using "1.IH" m(1) by blast
    qed
    moreover have "delivered pkts' rest q = delivered pkts rest p"
      using "1.prems"(3) by (simp add: delivered_def q_def deliver_packet_def act_def m(2))
    ultimately show ?thesis by simp
  qed
qed

text \<open>Reading piece after piece, as long as the thread goes on.\<close>

fun rfb_reads :: "'a rfb_env \<Rightarrow> auth_world \<Rightarrow> bytes list \<Rightarrow> 'a rfb \<Rightarrow> (bool \<times> 'a rfb) option" where
  "rfb_reads fe w [] p = Some (True, p)"
| "rfb_reads fe w (c # cs) p =
     (case rfb_read fe w c p of
        Some (True, q) \<Rightarrow> rfb_reads fe w cs q
      | r \<Rightarrow> r)"

lemma rfb_read_messages:
  assumes "rfb_messages (f_buffer p @ data) = Inr (pkts, rest)" "f_parser p = ParseRfb" "\<not> f_closed p" "data \<noteq> []"
  shows "rfb_read fe w data p = Some (True, (delivered pkts rest p)\<lparr>f_world := w, f_reads := Suc (f_reads p)\<rparr>)"
proof -
  let ?p = "p\<lparr>f_world := w, f_reads := Suc (f_reads p), f_buffer := f_buffer p @ data\<rparr>"
  have "rfb_loop fe ?p = Some (Inr (), delivered pkts rest ?p)"
    using assms(1,2) by (intro rfb_loop_messages) simp_all
  then show ?thesis using assms(3,4) by (simp add: rfb_read_def delivered_def)
qed

lemma rfb_reads_messages:
  assumes "feed_chunks rfb_messages (f_buffer p) cs = Inr (pkts, rest)" "f_parser p = ParseRfb" "\<not> f_closed p" "\<forall>c\<in>set cs. c \<noteq> []"
  shows "\<exists>q. rfb_reads fe w cs p = Some (True, q) \<and> f_buffer q = rest \<and> f_out q = f_out p @ map Deliver pkts \<and>
    f_packets q = f_packets p + length pkts \<and> f_parser q = ParseRfb \<and> \<not> f_closed q"
  using assms
proof (induction cs arbitrary: p pkts)
  case Nil
  then show ?case by simp
next
  case (Cons c cs)
  obtain ps r pkts' where m: "rfb_messages (f_buffer p @ c) = Inr (ps, r)" "feed_chunks rfb_messages r cs = Inr (pkts', rest)"
    "pkts = ps @ pkts'"
    using Cons.prems(1) by (auto simp: ebind_eq_Inr)
  let ?q = "(delivered ps r p)\<lparr>f_world := w, f_reads := Suc (f_reads p)\<rparr>"
  have "rfb_read fe w c p = Some (True, ?q)"
    using m(1) Cons.prems by (intro rfb_read_messages) simp_all
  moreover obtain q where "rfb_reads fe w cs ?q = Some (True, q)" "f_buffer q = rest" "f_out q = f_out ?q @ map Deliver pkts'"
      "f_packets q = f_packets ?q + length pkts'" "f_parser q = ParseRfb" "\<not> f_closed q"
    using Cons.IH [of ?q pkts'] m(2) Cons.prems by (auto simp: delivered_def)
  ultimately show ?case using m(3) by (auto simp: delivered_def)
qed

text \<open>
  C9: Once the session has started, the messages of a VNC client are delivered, every one and in order,
  with the values that the client packed, in whatever pieces the bytes arrive; nothing is left over.
\<close>

theorem rfb_messages_delivered:
  assumes "emap client_message pkts = Inr bs" "concat cs = concat bs" "\<forall>c\<in>set cs. c \<noteq> []"
    and "f_parser p = ParseRfb" "f_buffer p = []" "\<not> f_closed p"
  shows "\<exists>q. rfb_reads fe w cs p = Some (True, q) \<and> f_buffer q = [] \<and> f_out q = f_out p @ map Deliver pkts \<and>
    f_packets q = f_packets p + length pkts"
proof -
  have "feed_chunks rfb_messages (f_buffer p) cs = Inr (pkts, [])"
    using client_messages_parsed [OF assms(1)] rfb_stream.feed_from_empty [of cs] assms(2,5) by simp
  from rfb_reads_messages [OF this assms(4,6,3)] show ?thesis by blast
qed

definition toy_client :: "rfb_packet list" where
  "toy_client = [RfbPacket 2 [0, 2] (Encodings [7, -239]), RfbPacket 6 [0, 0, 0, 2] (Cut [104, 105]), RfbPacket 5 [1, 30, 40] NoExtra]"

definition toy_client_bytes :: "bytes list" where
  "toy_client_bytes =
     [[2, 0, 0, 2, 0, 0, 0, 7, 255, 255, 255, 17], [6, 0, 0, 0, 0, 0, 0, 2, 104, 105], [5, 1, 0, 30, 0, 40]]"

lemma toy_client_packed: "emap client_message toy_client = Inr toy_client_bytes"
  by code_simp

theorem rfb_messages_delivered_witness:
  "\<exists>q. rfb_reads toy_rfb_env toy_world (map (\<lambda>b. [b]) (concat toy_client_bytes)) ((toy_rfb toy_module)\<lparr>f_parser := ParseRfb\<rparr>) =
       Some (True, q) \<and> f_buffer q = [] \<and> f_out q = map Deliver toy_client \<and> f_packets q = 3"
proof -
  have "concat (map (\<lambda>b. [b]) xs) = xs" for xs :: bytes by (induction xs) simp_all
  with rfb_messages_delivered [OF toy_client_packed, of "map (\<lambda>b. [b]) (concat toy_client_bytes)"
      "(toy_rfb toy_module)\<lparr>f_parser := ParseRfb\<rparr>" toy_rfb_env toy_world]
  show ?thesis by (simp add: toy_rfb_def new_rfb_def toy_client_def numeral_3_eq_3)
qed

section \<open>A text of negative length\<close>

text \<open>
  The length of a clipboard text is signed, and the code adds it to the size of the message. When the sum
  is so negative that the slice starts at the first byte, the same message is parsed again.
\<close>

definition endless_text :: "bytes \<Rightarrow> bool" where
  "endless_text buf \<longleftrightarrow>
     8 \<le> length buf \<and> hd buf = 6 \<and> signed32 (be_int (take 4 (drop 4 buf))) + 8 + int (length buf) \<le> 0"

definition spinning :: "'a rfb \<Rightarrow> bool" where
  "spinning p \<longleftrightarrow> f_parser p = ParseRfb \<and> endless_text (f_buffer p)"

lemma cut_text_format: "rfb_format (6 # bs) = Some [FB, FB, FB, FB, Fi]"
  by (simp add: rfb_format_def client_packet_types_def packet_struct_def)

lemma spinning_parsed:
  assumes "spinning p"
  obtains n pkt where "parse_rfb (f_buffer p) p = (Inr n, deliver_packet pkt p)" "n \<noteq> 0" "py_from (f_buffer p) n = f_buffer p"
proof -
  let ?b = "f_buffer p" and ?s = "[FB, FB, FB, FB, Fi]"
  obtain bs where b: "?b = 6 # bs" and l: "8 \<le> length ?b"
    and c: "signed32 (be_int (take 4 (drop 4 ?b))) + 8 + int (length ?b) \<le> 0"
    using assms by (cases "f_buffer p") (auto simp: spinning_def endless_text_def)
  have s: "rfb_format ?b = Some ?s" using b by (simp add: cut_text_format)
  have ne: "?b \<noteq> []" using b by simp
  have h: "hd (unpack_fields ?s ?b) = 6" using b by (simp add: be_int_def)
  define m where "m = signed32 (be_int (take 4 (drop 4 ?b)))"
  have "drop 1 (drop 1 (drop 1 (drop 1 ?b))) = drop 4 ?b" by (simp add: eval_nat_numeral)
  then have t: "rfb_tail (unpack_fields ?s ?b) = m"
    using h by (simp add: rfb_tail_def m_def eval_nat_numeral)
  have "parse_rfb ?b p = (Inr (8 + m), deliver_packet
      (RfbPacket 6 (tl (unpack_fields ?s ?b)) (message_extra (unpack_fields ?s ?b) (py_slice ?b 8 (8 + m)))) p)"
    using parse_rfb_eq [OF ne s, of p, unfolded rfb_size_eq [OF s] Let_def t h] l c by (simp add: m_def [symmetric])
  moreover have "8 + m \<noteq> 0" using c l by (simp add: m_def)
  moreover have "py_from ?b (8 + m) = ?b" using c l by (simp add: m_def py_from_def slice_end_def)
  ultimately show thesis by (rule that)
qed

lemma spinning_never_returns: "spinning p \<Longrightarrow> rfb_loop fe p = None"
proof (rule ccontr)
  assume "spinning p" "rfb_loop fe p \<noteq> None"
  then obtain y where "rfb_loop fe p = Some y" by blast
  then have "\<not> spinning p"
  proof (induction rule: rfb_loop_induct)
    case (loop rec fe p y)
    show ?case
    proof
      assume s: "spinning p"
      obtain n pkt where k: "parse_rfb (f_buffer p) p = (Inr n, deliver_packet pkt p)" "n \<noteq> 0" "py_from (f_buffer p) n = f_buffer p"
        using s by (rule spinning_parsed)
      have f: "f_parser p = ParseRfb" "f_buffer p \<noteq> []" using s by (auto simp: spinning_def endless_text_def)
      define q where "q = deliver_packet pkt p"
      have q: "q\<lparr>f_buffer := f_buffer p\<rparr> = q" by (simp add: q_def deliver_packet_def act_def)
      have "py_from (f_buffer q) n = f_buffer p" using k(3) by (simp add: q_def deliver_packet_def act_def)
      then have "rec fe q = Some y"
        using loop.hyps f k(1,2) q by (simp add: rfb_parse_def q_def [symmetric])
      moreover have "spinning q" using s by (simp add: spinning_def q_def deliver_packet_def act_def)
      ultimately show False using loop.IH by blast
    qed
  qed
  with \<open>spinning p\<close> show False by blast
qed

text \<open>
  A message with a clipboard text of negative length, more negative than there are bytes, is never
  got over: the thread that reads it does not come back, whatever the bytes after it.
\<close>

theorem rfb_negative_text_hangs:
  assumes "f_parser p = ParseRfb" "\<not> f_closed p" "data \<noteq> []"
    and "f_buffer p @ data = 6 # unused @ be_bytes 4 n @ rest" "length unused = 3"
    and "- (2 ^ 31) \<le> n" "n + 16 + int (length rest) \<le> 0"
  shows "rfb_read fe w data p = None"
proof -
  have "drop 4 (6 # unused @ be_bytes 4 n @ rest) = be_bytes 4 n @ rest"
    using assms(5) by (simp add: numeral_eq_Suc)
  then have "endless_text (f_buffer p @ data)"
    using assms(4-7) signed32_mod [of n] by (simp add: endless_text_def be_int_be_bytes_mod)
  then have "spinning (p\<lparr>f_world := w, f_reads := f_reads p + 1, f_buffer := f_buffer p @ data\<rparr>)"
    using assms(1) by (simp add: spinning_def)
  from spinning_never_returns [OF this, of fe] assms(2,3) show ?thesis by (simp add: rfb_read_def)
qed

theorem rfb_negative_text_hangs_witness:
  "rfb_read toy_rfb_env toy_world [6, 0, 0, 0, 128, 0, 0, 0] ((toy_rfb toy_module)\<lparr>f_parser := ParseRfb\<rparr>) = None"
proof -
  have "be_bytes 4 (- (2 ^ 31)) = [128, 0, 0, 0]" by code_simp
  then show ?thesis
    by (intro rfb_negative_text_hangs [where unused = "[0, 0, 0]" and n = "- (2 ^ 31)" and rest = "[]"])
      (simp_all add: toy_rfb_def new_rfb_def)
qed

section \<open>Pieces\<close>

text \<open>
  Before the messages the pieces do matter: the client's choice to share the screen is taken to be made
  when anything comes with it, and a response with something after it is a failure.
\<close>

lemma share_depends_on_pieces:
  "map_option f_share (toy_reads toy_module [HANDSHAKE @ [2] @ replicate 16 0, [0]]) = Some False"
  "map_option f_share (toy_reads toy_module [HANDSHAKE @ [2] @ replicate 16 0, [0, 5, 0, 0, 0, 0, 0]]) = Some True"
  by code_simp+

lemma response_depends_on_pieces:
  "map_option (\<lambda>p. AuthSucceeded \<in> set (f_out p)) (toy_reads toy_module [HANDSHAKE @ [2] @ replicate 16 0, [0]]) = Some True"
  "map_option (\<lambda>p. FailLater \<in> set (f_out p)) (toy_reads toy_module [HANDSHAKE @ [2] @ replicate 16 0 @ [0]]) = Some True"
  by code_simp+

end
