(* ===== verification/Images.thy ===== *)
theory Images
  imports XpraPrelude
begin

text \<open>
  \<^verbatim>\<open>ImageWrapper\<close> of \<^verbatim>\<open>src/xpra/codecs/image.py\<close>: pixels in rows that are \<open>i_stride\<close> bytes apart, of
  which the first ones are the image's. Changing the stride and taking a part of the image keep the
  pixels. Planar images, which neither operation supports, have no model of their planes.
\<close>

unbundle bit_operations_syntax

section \<open>The wrapper\<close>

definition PACKED :: int where "PACKED = 0"
definition PLANES_INVALID :: int where "PLANES_INVALID = -1"

record image =
  i_x :: int
  i_y :: int
  i_target_x :: int
  i_target_y :: int
  i_width :: int
  i_height :: int
  i_pixels :: bytes
  i_format :: string
  i_depth :: int
  i_stride :: int
  i_bpp :: int
  i_planes :: int
  i_safe :: bool
  i_freed :: bool

definition new_image ::
  "int \<Rightarrow> int \<Rightarrow> int \<Rightarrow> int \<Rightarrow> bytes \<Rightarrow> string \<Rightarrow> int \<Rightarrow> int \<Rightarrow> int \<Rightarrow> int \<Rightarrow> bool \<Rightarrow> image result" where
  "new_image x y w h pixels pixel_format depth rowstride bytesperpixel planes thread_safe =
     (if w \<le> 0 \<or> h \<le> 0 then Inl ValueError
      else
        Inr \<lparr>i_x = x, i_y = y, i_target_x = x, i_target_y = y, i_width = w, i_height = h, i_pixels = pixels,
             i_format = pixel_format, i_depth = depth, i_stride = rowstride, i_bpp = bytesperpixel, i_planes = planes,
             i_safe = thread_safe, i_freed = False\<rparr>)"

text \<open>Slices of \<open>len\<close> bytes, \<open>stride\<close> bytes apart.\<close>

definition image_lines :: "bytes \<Rightarrow> int \<Rightarrow> int \<Rightarrow> int \<Rightarrow> nat \<Rightarrow> bytes list" where
  "image_lines pixels pos len stride n =
     map (\<lambda>i. py_slice pixels (pos + int i * stride) (pos + int i * stride + len)) [0..<n]"

definition restride :: "int \<Rightarrow> image \<Rightarrow> bool result \<times> image" where
  "restride rowstride img =
     (if i_freed img then (Inl RuntimeError, img)
      else if i_planes img > 0 then (Inr False, img)
      else if i_pixels img = [] then (Inl AssertionError, img)
      else
        let lines = image_lines (i_pixels img) 0 rowstride (i_stride img) (nat (i_height img));
            padding = i_height img * rowstride - int (sum_list (map length lines));
            extra = (if i_height img > 0 \<and> i_stride img < rowstride \<and> padding > 0 then [replicate (nat padding) 0] else [])
        in (Inr True, img\<lparr>i_stride := rowstride, i_pixels := concat (lines @ extra)\<rparr>))"

definition roundup :: "int \<Rightarrow> int \<Rightarrow> int" where
  "roundup n m = (n + m - 1) AND NOT (m - 1)"

definition may_restride :: "image \<Rightarrow> bool result \<times> image" where
  "may_restride img =
     (let newstride = roundup (i_width img * i_bpp img) 4
      in if i_stride img > newstride then restride newstride img else (Inr False, img))"

definition get_sub_image :: "int \<Rightarrow> int \<Rightarrow> int \<Rightarrow> int \<Rightarrow> image \<Rightarrow> image result" where
  "get_sub_image x y w h img =
     (if w \<le> 0 \<or> h \<le> 0 then Inl ValueError
      else if x + w > i_width img then Inl ValueError
      else if y + h > i_height img then Inl ValueError
      else if i_planes img \<noteq> PACKED then Inl NotImplementedError
      else if x = 0 \<and> y = 0 \<and> w = i_width img \<and> h = i_height img then Inr img
      else
        let newstride = w * i_bpp img;
            lines = image_lines (i_pixels img) (y * i_stride img + x * i_bpp img) newstride (i_stride img) (nat h)
        in ebind (new_image (i_x img + x) (i_y img + y) w h (concat lines) (i_format img) (i_depth img) newstride 4 (i_planes img) True)
             (\<lambda>sub. Inr (sub\<lparr>i_target_x := i_target_x img + x, i_target_y := i_target_y img + y\<rparr>)))"

definition free_image :: "image \<Rightarrow> image" where
  "free_image img =
     (if i_freed img then img
      else img\<lparr>i_freed := True, i_planes := PLANES_INVALID, i_pixels := [], i_format := []\<rparr>)"

section \<open>Pixels\<close>

text \<open>The bytes of the pixel in column \<open>c\<close> of row \<open>r\<close>, and that there are as many as the size says.\<close>

definition pixel_at :: "image \<Rightarrow> int \<Rightarrow> int \<Rightarrow> bytes" where
  "pixel_at img c r = take (nat (i_bpp img)) (drop (nat (r * i_stride img + c * i_bpp img)) (i_pixels img))"

definition holds_pixels :: "image \<Rightarrow> bool" where
  "holds_pixels img \<longleftrightarrow>
     0 < i_width img \<and> 0 < i_height img \<and> 0 < i_bpp img \<and> i_width img * i_bpp img \<le> i_stride img \<and>
     i_stride img * (i_height img - 1) + i_width img * i_bpp img \<le> int (length (i_pixels img))"

lemma drop_concat_rows:
  "r \<le> length ls \<Longrightarrow> \<forall>i<r. length (ls ! i) = n \<Longrightarrow> drop (r * n) (concat ls) = concat (drop r ls)"
proof (induction r arbitrary: ls)
  case (Suc r)
  then obtain l ls' where ls: "ls = l # ls'" by (cases ls) auto
  have "length l = n" using Suc.prems(2) ls by force
  moreover have "\<forall>i<r. length (ls' ! i) = n" using Suc.prems(2) ls by force
  ultimately show ?case using Suc.IH [of ls'] Suc.prems(1) ls by (simp add: add.commute)
qed simp

text \<open>A part of a row, when the rows before it are complete.\<close>

lemma take_concat_rows:
  assumes "r < length ls" "\<forall>i<r. length (ls ! i) = n" "a + k \<le> length (ls ! r)"
  shows "take k (drop (r * n + a) (concat ls @ x)) = take k (drop a (ls ! r))"
proof -
  have "drop r ls = ls ! r # drop (Suc r) ls" using assms(1) by (simp add: Cons_nth_drop_Suc)
  moreover have "drop (r * n) (concat ls) = concat (drop r ls)" by (rule drop_concat_rows) (use assms in auto)
  moreover have "r * n \<le> length (concat ls)"
  proof -
    have "length (concat (take r ls)) = r * n"
    proof -
      have "length (concat zs) = length zs * n" if "\<forall>z\<in>set zs. length z = n" for zs :: "'a list list"
        using that by (induction zs) auto
      moreover have "\<forall>z\<in>set (take r ls). length z = n" using assms(1,2) by (auto simp: in_set_conv_nth)
      ultimately show ?thesis using assms(1) by simp
    qed
    moreover have "length (concat (take r ls)) \<le> length (concat ls)"
      by (metis append_take_drop_id concat_append length_append le_add1)
    ultimately show ?thesis by simp
  qed
  ultimately have d: "drop (r * n) (concat ls @ x) = ls ! r @ concat (drop (Suc r) ls) @ x" by simp
  have "drop (r * n + a) (concat ls @ x) = drop a (drop (r * n) (concat ls @ x))"
    unfolding drop_drop by (simp only: add.commute)
  then show ?thesis using assms(3) unfolding d by simp
qed

lemma take_image_lines:
  assumes "r < n" "\<forall>i<r. pos + i * s + m \<le> length px" "a + k \<le> m" "pos + r * s + a + k \<le> length px"
  shows "take k (drop (r * m + a) (concat (map (\<lambda>i. take m (drop (pos + i * s) px)) [0..<n]) @ x)) =
    take k (drop (pos + r * s + a) px)"
proof -
  let ?ls = "map (\<lambda>i. take m (drop (pos + i * s) px)) [0..<n]"
  have l: "\<forall>i<r. length (?ls ! i) = m" using assms(1,2) by fastforce
  have "take k (drop (r * m + a) (concat ?ls @ x)) = take k (drop a (?ls ! r))"
    by (rule take_concat_rows) (use l assms in \<open>auto simp: min_def\<close>)
  also have "\<dots> = take k (drop a (take m (drop (pos + r * s) px)))" using assms(1) by simp
  also have "\<dots> = take k (drop (pos + r * s + a) px)"
    using assms(3) by (simp add: drop_take min_def add.commute)
  finally show ?thesis .
qed

lemma py_slice_nonneg: "0 \<le> i \<Longrightarrow> 0 \<le> j \<Longrightarrow> py_slice b i j = drop (nat i) (take (nat j) b)"
  by (simp add: py_slice_def slice_end_def min_def)

lemma image_lines_nat:
  "image_lines px (int pos) (int m) (int s) n = map (\<lambda>i. take m (drop (pos + i * s) px)) [0..<n]"
proof -
  have "py_slice px (int pos + int i * int s) (int pos + int i * int s + int m) = take m (drop (pos + i * s) px)" for i
  proof -
    have "nat (int pos + int i * int s) = pos + i * s" "nat (int pos + int i * int s + int m) = pos + i * s + m"
      by (simp_all add: nat_add_distrib nat_mult_distrib)
    then show ?thesis by (simp add: py_slice_nonneg drop_take)
  qed
  then show ?thesis by (simp add: image_lines_def)
qed

lemma image_lines_length:
  assumes "\<forall>i<r. pos + i * s + m \<le> length px"
  shows "length (concat (map (\<lambda>i. take m (drop (pos + i * s) px)) [0..<Suc r])) = r * m + min m (length px - (pos + r * s))"
proof -
  have "sum_list (map (\<lambda>i. length (take m (drop (pos + i * s) px))) [0..<r]) = sum_list (map (\<lambda>i. m) [0..<r])"
    using assms by (intro arg_cong [where f = sum_list] map_cong) fastforce+
  then have "length (concat (map (\<lambda>i. take m (drop (pos + i * s) px)) [0..<r])) = r * m"
    by (simp add: length_concat comp_def sum_list_triv)
  then show ?thesis by (simp add: min.commute)
qed

section \<open>What the operations keep\<close>

text \<open>The numbers of an image that holds its pixels, as natural numbers.\<close>

lemma holds_pixels_nat:
  assumes "holds_pixels img"
  obtains w h b s where "i_width img = int w" "i_height img = int (Suc h)" "i_bpp img = int b" "i_stride img = int s"
    "0 < w" "0 < b" "w * b \<le> s" "s * h + w * b \<le> length (i_pixels img)"
proof -
  have p: "0 < i_width img" "0 < i_height img" "0 < i_bpp img" "i_width img * i_bpp img \<le> i_stride img"
    "i_stride img * (i_height img - 1) + i_width img * i_bpp img \<le> int (length (i_pixels img))"
    using assms by (simp_all add: holds_pixels_def)
  have "0 \<le> i_width img * i_bpp img" using p(1,3) by simp
  with p(4) have "0 \<le> i_stride img" by linarith
  with p(1-3) obtain w h b s where e: "i_width img = int w" "i_height img - 1 = int h" "i_bpp img = int b" "i_stride img = int s"
    by (metis diff_ge_0_iff_ge nonneg_int_cases order_less_imp_le zless_imp_add1_zle add_0)
  have "int (w * b) \<le> int s" using p(4) e by simp
  then have "w * b \<le> s" by (simp only: of_nat_le_iff)
  moreover have "int (s * h + w * b) \<le> int (length (i_pixels img))" using p(5) e by simp
  then have "s * h + w * b \<le> length (i_pixels img)" by (simp only: of_nat_le_iff)
  moreover have "i_height img = int (Suc h)" using e(2) by simp
  moreover have "0 < w" "0 < b" using p(1,3) e by simp_all
  ultimately show thesis using that e(1,3,4) by blast
qed

lemma column_fits: "c < w \<Longrightarrow> c * b + b \<le> w * (b::nat)"
  using mult_le_mono1 [of "Suc c" w b] by simp

lemma row_fits: "r < Suc h \<Longrightarrow> c < w \<Longrightarrow> s * h + w * b \<le> n \<Longrightarrow> r * s + c * b + b \<le> (n::nat)"
  using column_fits [of c w b] mult_le_mono1 [of r h s] mult.commute [of h s] by linarith

lemma pixel_at_nat:
  "i_bpp img = int b \<Longrightarrow> i_stride img = int s \<Longrightarrow>
    pixel_at img (int c) (int r) = take b (drop (r * s + c * b) (i_pixels img))"
  unfolding pixel_at_def by (simp add: nat_add_distrib nat_mult_distrib)

lemma restride_pixels:
  assumes img: "holds_pixels img" "\<not> i_freed img" "i_planes img \<le> 0"
    and rs: "i_width img * i_bpp img \<le> rs"
    and fit: "i_height img = 1 \<or> (i_height img - 2) * i_stride img + rs \<le> int (length (i_pixels img))"
  obtains img' where "restride rs img = (Inr True, img')" "i_stride img' = rs" "holds_pixels img'"
    "\<And>c r. 0 \<le> c \<Longrightarrow> c < i_width img \<Longrightarrow> 0 \<le> r \<Longrightarrow> r < i_height img \<Longrightarrow> pixel_at img' c r = pixel_at img c r"
    "i_width img' = i_width img" "i_height img' = i_height img" "i_bpp img' = i_bpp img" "i_format img' = i_format img"
proof -
  let ?px = "i_pixels img"
  obtain w h b s where e: "i_width img = int w" "i_height img = int (Suc h)" "i_bpp img = int b" "i_stride img = int s"
    and p: "0 < w" "0 < b" "w * b \<le> s" "s * h + w * b \<le> length ?px"
    using img(1) by (rule holds_pixels_nat)
  obtain m where m: "rs = int m" using rs e(1,3) by (metis nonneg_int_cases of_nat_0_le_iff of_nat_mult order_trans)
  have wm: "w * b \<le> m" using rs e m by (simp flip: of_nat_mult)
  have full: "0 + i * s + m \<le> length ?px" if "i < h" for i
  proof -
    have "i_height img - 2 = int (h - 1)" using that e(2) by simp
    then have "int ((h - 1) * s + m) \<le> int (length ?px)" using fit that e m by simp
    then have "(h - 1) * s + m \<le> length ?px" by (simp only: of_nat_le_iff)
    moreover have "i * s \<le> (h - 1) * s" using that by (intro mult_le_mono1) simp
    ultimately show ?thesis by linarith
  qed
  let ?f = "\<lambda>i. take m (drop (0 + i * s) ?px)"
  define lines where "lines = map ?f [0..<Suc h]"
  have lines: "image_lines ?px 0 rs (i_stride img) (nat (i_height img)) = lines"
    using image_lines_nat [of ?px 0 m s "Suc h"] unfolding lines_def e m nat_int by simp
  define extra where "extra = (if i_height img > 0 \<and> i_stride img < rs \<and> i_height img * rs - int (sum_list (map length lines)) > 0
    then [replicate (nat (i_height img * rs - int (sum_list (map length lines)))) (0::byte)] else [])"
  define img' where "img' = img\<lparr>i_stride := rs, i_pixels := concat (lines @ extra)\<rparr>"
  have "?px \<noteq> []" using p by auto
  then have r: "restride rs img = (Inr True, img')"
    using img(2,3) by (simp add: restride_def lines Let_def extra_def img'_def)
  have len: "length (concat lines) = h * m + min m (length ?px - (0 + h * s))"
    unfolding lines_def using full by (intro image_lines_length) blast
  have "m * h + w * b \<le> length (concat lines)" using len p(4) wm by (simp add: mult.commute)
  then have "m * h + w * b \<le> length (concat (lines @ extra))" unfolding concat_append length_append by (rule trans_le_add1)
  then have "int (m * h + w * b) \<le> int (length (concat (lines @ extra)))" by (simp only: of_nat_le_iff)
  then have holds: "holds_pixels img'"
    using e p wm m by (simp add: holds_pixels_def img'_def flip: of_nat_mult of_nat_add)
  have px: "pixel_at img' c r = pixel_at img c r" if "0 \<le> c" "c < i_width img" "0 \<le> r" "r < i_height img" for c r
  proof -
    note cr = that
    obtain c' r' where c: "c = int c'" "r = int r'" using cr(1,3) by (metis nonneg_int_cases)
    have b: "c' < w" "r' < Suc h" using cr e c by simp_all
    have "take b (drop (r' * m + c' * b) (concat lines @ concat extra)) = take b (drop (0 + r' * s + c' * b) ?px)"
      unfolding lines_def
    proof (rule take_image_lines)
      show "\<forall>i<r'. 0 + i * s + m \<le> length ?px" using full b(2) by simp
      show "c' * b + b \<le> m" using column_fits [OF b(1)] wm by (rule order_trans)
      show "0 + r' * s + c' * b + b \<le> length ?px" using row_fits [OF b(2,1) p(4)] by simp
    qed (rule b(2))
    then show ?thesis
      using pixel_at_nat [of img b s c' r'] pixel_at_nat [of img' b m c' r'] e m c by (simp add: img'_def)
  qed
  show thesis by (rule that [OF r _ holds px]) (simp_all add: img'_def)
qed

lemma sub_image_pixels:
  assumes img: "holds_pixels img" "i_planes img = PACKED" and bpp: "i_bpp img = 4"
    and g: "0 \<le> x" "0 \<le> y" "0 < w" "0 < h" "x + w \<le> i_width img" "y + h \<le> i_height img"
  obtains sub where "get_sub_image x y w h img = Inr sub" "holds_pixels sub" "i_width sub = w" "i_height sub = h"
    "\<And>c r. 0 \<le> c \<Longrightarrow> c < w \<Longrightarrow> 0 \<le> r \<Longrightarrow> r < h \<Longrightarrow> pixel_at sub c r = pixel_at img (x + c) (y + r)"
    "i_format sub = i_format img" "i_target_x sub = i_target_x img + x" "i_target_y sub = i_target_y img + y"
proof (cases "x = 0 \<and> y = 0 \<and> w = i_width img \<and> h = i_height img")
  case True
  show thesis
    by (rule that [of img]) (use True assms in \<open>simp_all add: get_sub_image_def\<close>)
next
  case False
  let ?px = "i_pixels img"
  obtain W H b s where e: "i_width img = int W" "i_height img = int (Suc H)" "i_bpp img = int b" "i_stride img = int s"
    and p: "0 < W" "0 < b" "W * b \<le> s" "s * H + W * b \<le> length ?px"
    using img(1) by (rule holds_pixels_nat)
  obtain x' y' w' h' where n: "x = int x'" "y = int y'" "w = int w'" "h - 1 = int h'"
    using g(1-4) by (metis nonneg_int_cases order_less_imp_le diff_ge_0_iff_ge zless_imp_add1_zle add_0)
  have h: "h = int (Suc h')" using n(4) by simp
  have fits: "x' + w' \<le> W" "y' + h' \<le> H" using g(5,6) e n by simp_all
  define m where "m = w' * b"
  define pos where "pos = y' * s + x' * b"
  have inside: "pos + r * s + c * b + b \<le> length ?px" if "c < w'" "r \<le> h'" for c r
  proof -
    have "(y' + r) * s + (x' + c) * b + b \<le> length ?px"
      by (rule row_fits [OF _ _ p(4)]) (use that fits in auto)
    then show ?thesis by (simp add: pos_def algebra_simps)
  qed
  have row: "pos + r * s + m \<le> length ?px" if "r \<le> h'" for r
  proof -
    have "0 < w'" using g(3) n by simp
    then show ?thesis using inside [of "w' - 1" r] that by (cases w') (simp_all add: m_def algebra_simps)
  qed
  let ?f = "\<lambda>i. take m (drop (pos + i * s) ?px)"
  define lines where "lines = map ?f [0..<Suc h']"
  have lines: "image_lines ?px (y * i_stride img + x * i_bpp img) (w * i_bpp img) (i_stride img) (nat h) = lines"
    using image_lines_nat [of ?px pos m s "Suc h'"] unfolding lines_def e n h nat_int by (simp add: pos_def m_def)
  define sub where "sub = \<lparr>i_x = i_x img + x, i_y = i_y img + y, i_target_x = i_target_x img + x, i_target_y = i_target_y img + y,
    i_width = w, i_height = h, i_pixels = concat lines, i_format = i_format img, i_depth = i_depth img, i_stride = w * i_bpp img,
    i_bpp = 4, i_planes = i_planes img, i_safe = True, i_freed = False\<rparr>"
  have r: "get_sub_image x y w h img = Inr sub"
    unfolding get_sub_image_def Let_def if_not_P [OF False] lines using assms by (simp add: new_image_def sub_def)
  have "length (concat lines) = h' * m + min m (length ?px - (pos + h' * s))"
    unfolding lines_def using row by (intro image_lines_length) simp
  moreover have "m \<le> length ?px - (pos + h' * s)" using row [of h'] by simp
  ultimately have len: "length (concat lines) = h' * m + m" by simp
  have "i_stride sub * (h - 1) + w * i_bpp sub = int (h' * m + m)" using n bpp by (simp add: sub_def m_def e algebra_simps)
  then have holds: "holds_pixels sub"
    using len g bpp by (simp add: holds_pixels_def sub_def)
  have px: "pixel_at sub c r = pixel_at img (x + c) (y + r)" if "0 \<le> c" "c < w" "0 \<le> r" "r < h" for c r
  proof -
    note cr = that
    obtain c' r' where c: "c = int c'" "r = int r'" using cr(1,3) by (metis nonneg_int_cases)
    have b: "c' < w'" "r' \<le> h'" using cr n h c by simp_all
    have "take b (drop (r' * m + c' * b) (concat lines @ [])) = take b (drop (pos + r' * s + c' * b) ?px)"
      unfolding lines_def
    proof (rule take_image_lines)
      show "\<forall>i<r'. pos + i * s + m \<le> length ?px" using row b(2) by simp
      show "c' * b + b \<le> m" using column_fits [OF b(1)] by (simp add: m_def)
      show "pos + r' * s + c' * b + b \<le> length ?px" by (rule inside [OF b])
    qed (use b(2) in simp)
    moreover have "pixel_at sub c r = take b (drop (r' * m + c' * b) (concat lines))"
      using pixel_at_nat [of sub b m c' r'] c bpp e n by (simp add: sub_def m_def)
    moreover have "pixel_at img (x + c) (y + r) = take b (drop (pos + r' * s + c' * b) ?px)"
      using pixel_at_nat [of img b s "x' + c'" "y' + r'"] c e n by (simp add: pos_def algebra_simps)
    ultimately show ?thesis by simp
  qed
  show thesis by (rule that [OF r holds _ _ px]) (simp_all add: sub_def)
qed

section \<open>Properties\<close>

text \<open>
  Changing the stride of an image keeps every one of its pixels, makes the rows as far apart as it
  was told to, and leaves enough bytes for them, provided that no row but the last one runs past the end
  of the old buffer.
\<close>

theorem restride_keeps_pixels:
  assumes "holds_pixels img" "\<not> i_freed img" "i_planes img = PACKED" "i_width img * i_bpp img \<le> rs"
    and "i_height img = 1 \<or> (i_height img - 2) * i_stride img + rs \<le> int (length (i_pixels img))"
  shows "\<exists>img'. restride rs img = (Inr True, img') \<and> i_stride img' = rs \<and> holds_pixels img' \<and>
    (\<forall>c r. c \<in> {0..<i_width img} \<and> r \<in> {0..<i_height img} \<longrightarrow> pixel_at img' c r = pixel_at img c r)"
proof -
  have "i_planes img \<le> 0" using assms(3) by (simp add: PACKED_def)
  from restride_pixels [OF assms(1,2) this assms(4,5)] show ?thesis
    by (metis atLeastLessThan_iff)
qed

definition toy_image :: image where
  "toy_image =
     \<lparr>i_x = 0, i_y = 0, i_target_x = 0, i_target_y = 0, i_width = 2, i_height = 2, i_pixels = map word_of_nat [0..<20],
      i_format = ''BGRX'', i_depth = 24, i_stride = 12, i_bpp = 4, i_planes = 0, i_safe = True, i_freed = False\<rparr>"

theorem restride_keeps_pixels_witness:
  "\<exists>img'. restride 8 toy_image = (Inr True, img') \<and> i_stride img' = 8 \<and> pixel_at img' 1 1 = [16, 17, 18, 19]"
proof -
  have "holds_pixels toy_image" by code_simp
  moreover have "pixel_at toy_image 1 1 = [16, 17, 18, 19]" by code_simp
  ultimately show ?thesis
    using restride_keeps_pixels [of toy_image 8] by (fastforce simp: toy_image_def PACKED_def)
qed

text \<open>
  With a stride that is more than twice the old one, the row before the last one is short as well, and
  the padding at the very end moves the last row: its pixel is not where the stride says.
\<close>

lemma restride_moves_rows:
  "\<exists>img img'. holds_pixels img \<and> i_planes img = PACKED \<and> restride 12 img = (Inr True, img') \<and>
     int (length (i_pixels img')) = 12 * i_height img \<and> pixel_at img' 0 3 \<noteq> pixel_at img 0 3"
proof -
  let ?img = "toy_image\<lparr>i_width := 1, i_height := 4, i_stride := 4, i_pixels := map word_of_nat [0..<16]\<rparr>"
  have "holds_pixels ?img" "fst (restride 12 ?img) = Inr True" "length (i_pixels (snd (restride 12 ?img))) = 48"
    "pixel_at (snd (restride 12 ?img)) 0 3 \<noteq> pixel_at ?img 0 3" by code_simp+
  moreover have "i_planes ?img = PACKED" "i_height ?img = 4" by (simp_all add: toy_image_def PACKED_def)
  ultimately show ?thesis by (intro exI [of _ ?img] exI [of _ "snd (restride 12 ?img)"]) (simp add: prod_eq_iff)
qed

text \<open>
  A part of an image has the pixels of that part, at four bytes for each, and keeps its place on the
  target.
\<close>

theorem sub_image_keeps_pixels:
  assumes "holds_pixels img" "i_planes img = PACKED" "i_bpp img = 4"
    and "0 \<le> x" "0 \<le> y" "0 < w" "0 < h" "x + w \<le> i_width img" "y + h \<le> i_height img"
  shows "\<exists>sub. get_sub_image x y w h img = Inr sub \<and> holds_pixels sub \<and> i_width sub = w \<and> i_height sub = h \<and>
    i_target_x sub = i_target_x img + x \<and> i_target_y sub = i_target_y img + y \<and>
    (\<forall>c r. c \<in> {0..<w} \<and> r \<in> {0..<h} \<longrightarrow> pixel_at sub c r = pixel_at img (x + c) (y + r))"
  using sub_image_pixels [OF assms] by (metis atLeastLessThan_iff)

theorem sub_image_keeps_pixels_witness:
  "\<exists>sub. get_sub_image 1 1 1 1 toy_image = Inr sub \<and> i_target_x sub = 1 \<and> pixel_at sub 0 0 = [16, 17, 18, 19]"
proof -
  have "holds_pixels toy_image" by code_simp
  moreover have "pixel_at toy_image 1 1 = [16, 17, 18, 19]" by code_simp
  ultimately show ?thesis
    using sub_image_keeps_pixels [of toy_image 1 1 1 1] by (fastforce simp: toy_image_def PACKED_def)
qed

text \<open>With three bytes for a pixel, the part of the image says that it has four.\<close>

lemma sub_image_forgets_bytes:
  "\<exists>img sub. holds_pixels img \<and> i_bpp img = 3 \<and> get_sub_image 0 0 2 1 img = Inr sub \<and> i_bpp sub = 4 \<and>
     pixel_at sub 1 0 \<noteq> pixel_at img 1 0"
proof -
  let ?img = "toy_image\<lparr>i_bpp := 3, i_stride := 6, i_pixels := map word_of_nat [0..<12]\<rparr>"
  let ?sub = "case get_sub_image 0 0 2 1 ?img of Inr s \<Rightarrow> s | Inl _ \<Rightarrow> ?img"
  have "holds_pixels ?img" "get_sub_image 0 0 2 1 ?img = Inr ?sub" "i_bpp ?sub = 4" "pixel_at ?sub 1 0 \<noteq> pixel_at ?img 1 0"
    by code_simp+
  then show ?thesis by (intro exI [of _ ?img] exI [of _ ?sub]) simp
qed

end
