(* ===== verification/RFBEncode.thy ===== *)
theory RFBEncode
  imports RFBMessages Images
begin

text \<open>
  The updates of the VNC server: \<^verbatim>\<open>src/xpra/net/rfb/encode.py\<close>, with the compressors as what they make
  of the pixels, and the reader of a client, as the RFB protocol (RFC 6143) describes it, that every
  update is read back with.
\<close>

section \<open>Encodings\<close>

definition RAW :: int where "RAW = 0"
definition ZLIB :: int where "ZLIB = 6"
definition TIGHT :: int where "TIGHT = 7"
definition TIGHT_PNG :: int where "TIGHT_PNG = -260"
definition CURSOR :: int where "CURSOR = -239"
definition POINTER_POS :: int where "POINTER_POS = -232"
definition DESKTOPSIZE :: int where "DESKTOPSIZE = -223"

definition rfb_encoding_values :: "int list" where
  "rfb_encoding_values =
     [0, 1, 2, 4, 5, 6, 7, 8, 15, 16, 20, 21, 22, 23, 24, 17, -232, -223, -224, -239, -240, -257, -258, -259, -260,
      -305, -307, -308, -309, -312, -313, -314, 1211250228]"

text \<open>
  Pillow's encoder, as the image, the quality and the speed decide, and the stream of a zlib compressor,
  as what it was given before and the bytes to compress decide: what comes out up to the sync flush.
\<close>

record rfb_codecs =
  cx_pillow :: "string \<Rightarrow> image \<Rightarrow> int \<Rightarrow> int \<Rightarrow> bytes result"
  cx_zlib :: "bytes list \<Rightarrow> bytes \<Rightarrow> bytes"

definition cap_pct :: "int \<Rightarrow> int" where
  "cap_pct v = max 0 (min 100 v)"

text \<open>\<^verbatim>\<open>pillow_encode\<close>: the options hold a quality and a speed only when they are positive.\<close>

definition pillow_encode :: "rfb_codecs \<Rightarrow> string \<Rightarrow> image \<Rightarrow> int \<Rightarrow> int \<Rightarrow> bytes result" where
  "pillow_encode cx encoding img quality speed =
     cx_pillow cx encoding img (if quality > 0 then min 100 (max 0 quality) else 0) (if speed > 0 then min 100 (max 0 speed) else 0)"

definition rect_header :: "int \<Rightarrow> int \<Rightarrow> int \<Rightarrow> int \<Rightarrow> int \<Rightarrow> bytes result" where
  "rect_header encoding x y w h = pack_fields [FH, FH, FH, FH, Fi] [x, y, w, h, encoding]"

definition make_header :: "int \<Rightarrow> int \<Rightarrow> int \<Rightarrow> int \<Rightarrow> int \<Rightarrow> bytes result" where
  "make_header encoding x y w h =
     ebind (pack_fields [FB, FB, FH] [0, 0, 1]) (\<lambda>fbupdate. ebind (rect_header encoding x y w h) (\<lambda>r. Inr (fbupdate @ r)))"

definition raw_pixels :: "image option \<Rightarrow> bytes result" where
  "raw_pixels img =
     (case img of
        None \<Rightarrow> Inr []
      | Some img \<Rightarrow>
          let w = i_width img; h = i_height img; bpp = int (length (i_format img))
          in ebind (if i_stride img \<noteq> w * bpp
                    then (case restride (w * bpp) img of (Inl e, img) \<Rightarrow> Inl e | (Inr _, img) \<Rightarrow> Inr img)
                    else Inr img)
               (\<lambda>img. let pixels = i_pixels img in
                  if int (length pixels) \<ge> bpp * w * h then Inr (py_slice pixels 0 (bpp * w * h)) else Inl AssertionError))"

text \<open>\<^verbatim>\<open>bgra_to_rgb222\<close>: two bits of each colour, one byte for every four.\<close>

fun rgb222_bytes :: "bytes \<Rightarrow> bytes" where
  "rgb222_bytes (b # g # r # a # px) = ((drop_bit 2 r AND 48) OR (drop_bit 4 g AND 12) OR (drop_bit 6 b AND 3)) # rgb222_bytes px"
| "rgb222_bytes _ = []"

definition bgra_to_rgb222 :: "bytes \<Rightarrow> bytes result" where
  "bgra_to_rgb222 buf = (if length buf mod 4 \<noteq> 0 then Inl AssertionError else Inr (rgb222_bytes buf))"

text \<open>The encoders: the header and the data, or nothing.\<close>

definition rgb222_encode_image :: "image \<Rightarrow> int \<Rightarrow> int \<Rightarrow> int \<Rightarrow> int \<Rightarrow> bytes list result" where
  "rgb222_encode_image img x y w h =
     ebind (make_header RAW x y w h) (\<lambda>header.
       if i_format img \<noteq> ''BGRX'' then Inr []
       else ebind (bgra_to_rgb222 (i_pixels img)) (\<lambda>data. Inr [header, data]))"

definition raw_encode_image :: "image option \<Rightarrow> int \<Rightarrow> int \<Rightarrow> int \<Rightarrow> int \<Rightarrow> bytes list result" where
  "raw_encode_image img x y w h =
     ebind (make_header RAW x y w h) (\<lambda>header. ebind (raw_pixels img) (\<lambda>data. Inr [header, data]))"

definition zlib_encode_image ::
  "rfb_codecs \<Rightarrow> image option \<Rightarrow> int \<Rightarrow> int \<Rightarrow> int \<Rightarrow> int \<Rightarrow> bytes list \<Rightarrow> bytes list result \<times> bytes list" where
  "zlib_encode_image cx img x y w h history =
     (case img of
        None \<Rightarrow> (Inr [], history)
      | Some _ \<Rightarrow>
          (case raw_pixels img of
             Inl e \<Rightarrow> (Inl e, history)
           | Inr pixels \<Rightarrow>
               let data = cx_zlib cx history pixels
               in (ebind (make_header ZLIB x y w h) (\<lambda>header.
                     ebind (pack_fields [FI] [int (length data)]) (\<lambda>n. Inr [header @ n, data])), history @ [pixels])))"

definition tight_length :: "int \<Rightarrow> bytes result" where
  "tight_length n =
     (if n < 128 then pack_fields [FB] [n]
      else if n < 16383 then pack_fields [FB, FB] [128 + (n AND 127), drop_bit 7 n]
      else if n < 4194303 then pack_fields [FB, FB, FB] [128 + (n AND 127), 128 + (drop_bit 7 n AND 127), drop_bit 14 n]
      else Inl AssertionError)"

definition tight_header :: "int \<Rightarrow> int \<Rightarrow> int \<Rightarrow> int \<Rightarrow> int \<Rightarrow> int \<Rightarrow> int \<Rightarrow> bytes result" where
  "tight_header encoding x y w h control n =
     ebind (make_header encoding x y w h) (\<lambda>header.
       ebind (pack_fields [FB] [control]) (\<lambda>c. ebind (tight_length n) (\<lambda>l. Inr (header @ c @ l))))"

definition tight_encode_image ::
  "rfb_codecs \<Rightarrow> image option \<Rightarrow> int \<Rightarrow> int \<Rightarrow> int \<Rightarrow> int \<Rightarrow> int \<Rightarrow> int \<Rightarrow> bytes list result" where
  "tight_encode_image cx img x y w h quality speed =
     (case img of
        None \<Rightarrow> Inr []
      | Some img \<Rightarrow>
          ebind (pillow_encode cx ''jpeg'' img quality speed) (\<lambda>data.
            ebind (tight_header TIGHT x y w h 144 (int (length data))) (\<lambda>header. Inr [header, data])))"

definition tight_png_image :: "rfb_codecs \<Rightarrow> image option \<Rightarrow> int \<Rightarrow> int \<Rightarrow> int \<Rightarrow> int \<Rightarrow> int \<Rightarrow> bytes list result" where
  "tight_png_image cx img x y w h speed =
     (case img of
        None \<Rightarrow> Inr []
      | Some img \<Rightarrow>
          ebind (pillow_encode cx ''png'' img 0 speed) (\<lambda>data.
            ebind (tight_header TIGHT_PNG x y w h 160 (int (length data))) (\<lambda>header. Inr [header, data])))"

section \<open>Reading\<close>

text \<open>
  A length of the tight encoding: seven bits of every byte, the lowest first, while the top bit is set,
  three bytes at most.
\<close>

fun read_tight_length :: "bytes \<Rightarrow> (int \<times> bytes) option" where
  "read_tight_length (a # bs) =
     (if uint a < 128 then Some (uint a, bs)
      else
        (case bs of
           [] \<Rightarrow> None
         | b # bs \<Rightarrow>
             if uint b < 128 then Some (uint a - 128 + uint b * 128, bs)
             else
               (case bs of
                  [] \<Rightarrow> None
                | c # bs \<Rightarrow> Some (uint a - 128 + (uint b - 128) * 128 + uint c * 16384, bs))))"
| "read_tight_length [] = None"

datatype rect_data = RawData bytes | ZlibData bytes | TightData int bytes

definition read_data :: "int \<Rightarrow> bytes \<Rightarrow> (bytes \<times> bytes) option" where
  "read_data n b = (if n < 0 \<or> int (length b) < n then None else Some (take (nat n) b, drop (nat n) b))"

definition read_rect :: "int \<Rightarrow> bytes \<Rightarrow> ((int list \<times> rect_data) \<times> bytes) option" where
  "read_rect bpp b =
     (if length b < 12 then None
      else
        let r = unpack_fields [FH, FH, FH, FH, Fi] b; b = drop 12 b; enc = r ! 4
        in if enc = RAW then map_option (\<lambda>(d, b). ((r, RawData d), b)) (read_data (r ! 2 * r ! 3 * bpp) b)
           else if enc = ZLIB then
             (if length b < 4 then None
              else map_option (\<lambda>(d, b). ((r, ZlibData d), b)) (read_data (be_int (take 4 b)) (drop 4 b)))
           else if enc = TIGHT \<or> enc = TIGHT_PNG then
             (case b of
                [] \<Rightarrow> None
              | c # b \<Rightarrow>
                  (case read_tight_length b of
                     None \<Rightarrow> None
                   | Some (n, b) \<Rightarrow> map_option (\<lambda>(d, b). ((r, TightData (uint c) d), b)) (read_data n b)))
           else None)"

fun read_rects :: "int \<Rightarrow> nat \<Rightarrow> bytes \<Rightarrow> ((int list \<times> rect_data) list \<times> bytes) option" where
  "read_rects bpp 0 b = Some ([], b)"
| "read_rects bpp (Suc n) b =
     (case read_rect bpp b of
        None \<Rightarrow> None
      | Some (r, b) \<Rightarrow> map_option (\<lambda>(rs, b). (r # rs, b)) (read_rects bpp n b))"

definition read_update :: "int \<Rightarrow> bytes \<Rightarrow> ((int list \<times> rect_data) list \<times> bytes) option" where
  "read_update bpp b =
     (if length b < 4 \<or> b ! 0 \<noteq> 0 then None
      else read_rects bpp (nat (be_int (take 2 (drop 2 b)))) (drop 4 b))"

section \<open>What is written is read\<close>

lemma uint_byte_fits: "0 \<le> k \<Longrightarrow> k < 256 \<Longrightarrow> uint (word_of_int k :: byte) = k"
  by (simp add: uint_byte)

lemma pack_bytes:
  "0 \<le> a \<Longrightarrow> a < 256 \<Longrightarrow> pack_fields [FB] [a] = Inr [word_of_int a]"
  "0 \<le> a \<Longrightarrow> a < 256 \<Longrightarrow> 0 \<le> b \<Longrightarrow> b < 256 \<Longrightarrow> pack_fields [FB, FB] [a, b] = Inr [word_of_int a, word_of_int b]"
  "0 \<le> a \<Longrightarrow> a < 256 \<Longrightarrow> 0 \<le> b \<Longrightarrow> b < 256 \<Longrightarrow> 0 \<le> c \<Longrightarrow> c < 256 \<Longrightarrow>
    pack_fields [FB, FB, FB] [a, b, c] = Inr [word_of_int a, word_of_int b, word_of_int c]"
  by simp_all

lemma low_bits: "n AND 127 = n mod (128 :: int)"
  using take_bit_eq_mod [of 7 n] by (simp add: take_bit_eq_mask mask_eq_exp_minus_1)

lemma high_bits: "drop_bit 7 n = n div (128 :: int)" "drop_bit 14 n = n div (16384 :: int)"
  by (simp_all add: drop_bit_eq_div)

lemma tight_length_read:
  assumes "0 \<le> n" "n < 4194303"
  shows "\<exists>b. tight_length n = Inr b \<and> length b \<le> 3 \<and> read_tight_length (b @ rest) = Some (n, rest)"
proof -
  have n: "n = n mod 128 + n div 128 * 128" by simp
  have m: "0 \<le> n mod 128" "n mod 128 < 128" by simp_all
  consider "n < 128" | "128 \<le> n" "n < 16383" | "16383 \<le> n" by linarith
  then show ?thesis
  proof cases
    case 1
    with assms(1) show ?thesis
      by (simp add: tight_length_def pack_bytes(1) uint_byte_fits del: pack_fields.simps)
  next
    case 2
    then have d: "0 \<le> n div 128" "n div 128 < 128" by simp_all
    let ?b = "[word_of_int (128 + n mod 128), word_of_int (n div 128)] :: bytes"
    have "tight_length n = Inr ?b"
      using 2 d m pack_bytes(2) [of "128 + n mod 128" "n div 128"]
      by (simp add: tight_length_def low_bits high_bits del: pack_fields.simps)
    moreover have "uint (word_of_int (128 + n mod 128) :: byte) = 128 + n mod 128" "uint (word_of_int (n div 128) :: byte) = n div 128"
      using m d by (intro uint_byte_fits; linarith)+
    then have "read_tight_length (?b @ rest) = Some (n, rest)" using m d n by simp
    ultimately show ?thesis by (intro exI [of _ ?b]) simp
  next
    case 3
    define k where "k = n div 128"
    have k: "n div 16384 = k div 128" unfolding k_def using zdiv_zmult2_eq [of 128 n 128] by simp
    have d: "0 \<le> k div 128" "k div 128 < 256" "0 \<le> k mod 128" "k mod 128 < 128"
      using assms by (simp_all add: k_def zdiv_zmult2_eq [symmetric])
    let ?b = "[word_of_int (128 + n mod 128), word_of_int (128 + k mod 128), word_of_int (k div 128)] :: bytes"
    have "tight_length n = Inr ?b"
      using 3 assms d m pack_bytes(3) [of "128 + n mod 128" "128 + k mod 128" "k div 128"]
      unfolding tight_length_def low_bits high_bits k k_def [symmetric] by simp
    moreover have "uint (word_of_int (128 + n mod 128) :: byte) = 128 + n mod 128"
        "uint (word_of_int (128 + k mod 128) :: byte) = 128 + k mod 128" "uint (word_of_int (k div 128) :: byte) = k div 128"
      using m d by (intro uint_byte_fits; linarith)+
    moreover have "k = k mod 128 + k div 128 * 128" by simp
    then have "n = n mod 128 + k mod 128 * 128 + k div 128 * 16384" using n unfolding k_def [symmetric] by linarith
    ultimately have "read_tight_length (?b @ rest) = Some (n, rest)" using m d by (simp add: not_less)
    with \<open>tight_length n = Inr ?b\<close> show ?thesis by (intro exI [of _ ?b]) simp
  qed
qed

end
