(* ===== verification/Rectangles.thy ===== *)
theory Rectangles
  imports XpraPrelude
begin

text \<open>
  \<^verbatim>\<open>src/xpra/util/rectangle.pyx\<close>: the rectangles that damaged areas are kept in, and the lists of
  them. What a rectangle stands for is its set of pixels, and every operation is shown to do to the
  sets what its name says. The C integers of the source are unbounded here: the coordinates of
  windows, and those that the RFB protocol carries in sixteen bits, are far from overflowing them.
\<close>

section \<open>Rectangles\<close>

record rectangle =
  r_x :: int
  r_y :: int
  r_width :: int
  r_height :: int

definition new_rectangle :: "int \<Rightarrow> int \<Rightarrow> int \<Rightarrow> int \<Rightarrow> rectangle result" where
  "new_rectangle x y w h =
     (if w < 0 \<or> h < 0 then Inl ValueError else Inr \<lparr>r_x = x, r_y = y, r_width = w, r_height = h\<rparr>)"

abbreviation rect :: "int \<Rightarrow> int \<Rightarrow> int \<Rightarrow> int \<Rightarrow> rectangle" where
  "rect x y w h \<equiv> \<lparr>r_x = x, r_y = y, r_width = w, r_height = h\<rparr>"

definition intersects_rect :: "rectangle \<Rightarrow> rectangle \<Rightarrow> bool" where
  "intersects_rect r q =
     (let ix = max (r_x r) (r_x q); iw = min (r_x r + r_width r) (r_x q + r_width q) - ix
      in if iw \<le> 0 then False
         else
           let iy = max (r_y r) (r_y q); ih = min (r_y r + r_height r) (r_y q + r_height q) - iy
           in ih > 0)"

definition intersection_rect :: "rectangle \<Rightarrow> rectangle \<Rightarrow> rectangle option" where
  "intersection_rect r q =
     (let ix = max (r_x r) (r_x q); iw = min (r_x r + r_width r) (r_x q + r_width q) - ix
      in if iw \<le> 0 then None
         else
           let iy = max (r_y r) (r_y q); ih = min (r_y r + r_height r) (r_y q + r_height q) - iy
           in if ih \<le> 0 then None else Some (rect ix iy iw ih))"

definition contains_rect :: "rectangle \<Rightarrow> rectangle \<Rightarrow> bool" where
  "contains_rect r q \<longleftrightarrow>
     r_x r \<le> r_x q \<and> r_y r \<le> r_y q \<and> r_x r + r_width r \<ge> r_x q + r_width q \<and> r_y r + r_height r \<ge> r_y q + r_height q"

text \<open>What remains of the first rectangle: above the second, on both sides of it and below.\<close>

definition subtract_rect :: "rectangle \<Rightarrow> rectangle \<Rightarrow> rectangle list" where
  "subtract_rect r q =
     (if r_width q = 0 \<or> r_height q = 0 \<or> r_width r = 0 \<or> r_height r = 0 then [r]
      else if r_x r + r_width r \<le> r_x q \<or> r_y r + r_height r \<le> r_y q \<or> r_x q + r_width q \<le> r_x r \<or> r_y q + r_height q \<le> r_y r
      then [r]
      else if r_x q \<le> r_x r \<and> r_y q \<le> r_y r \<and> r_x q + r_width q \<ge> r_x r + r_width r \<and> r_y q + r_height q \<ge> r_y r + r_height r
      then []
      else
        let sy = max (r_y r) (r_y q); sh = min (r_y r + r_height r) (r_y q + r_height q) - sy
        in (if r_y r < r_y q then [rect (r_x r) (r_y r) (r_width r) (r_y q - r_y r)] else []) @
           (if sh > 0 then
              (if r_x r < r_x q then [rect (r_x r) sy (r_x q - r_x r) sh] else []) @
              (if r_x r + r_width r > r_x q + r_width q
               then [rect (r_x q + r_width q) sy (r_x r + r_width r - (r_x q + r_width q)) sh] else [])
            else []) @
           (if r_y r + r_height r > r_y q + r_height q
            then [rect (r_x r) (r_y q + r_height q) (r_width r) (r_y r + r_height r - (r_y q + r_height q))] else []))"

section \<open>Lists of rectangles\<close>

definition regions_contain :: "rectangle list \<Rightarrow> rectangle \<Rightarrow> bool" where
  "regions_contain rs q \<longleftrightarrow> list_ex (\<lambda>r. contains_rect r q) rs"

text \<open>The first rectangle that contains the new one or overlaps it.\<close>

definition first_touched :: "rectangle list \<Rightarrow> rectangle \<Rightarrow> rectangle option" where
  "first_touched rs q = List.find (\<lambda>r. contains_rect r q \<or> intersects_rect r q) rs"

text \<open>The area in pixels, for the recursion: an overlapping part is taken off before it goes on.\<close>

definition area :: "rectangle \<Rightarrow> int" where
  "area r = r_width r * r_height r"

lemma subtract_smaller:
  assumes "s \<in> set (subtract_rect q r)" "intersects_rect r q"
  shows "nat (r_width s) * nat (r_height s) < nat (r_width q) * nat (r_height q)"
proof -
  have i: "r_width q > 0" "r_height q > 0" "r_x q < r_x r + r_width r" "r_x r < r_x q + r_width q"
    "r_y q < r_y r + r_height r" "r_y r < r_y q + r_height q" "r_width r > 0" "r_height r > 0"
    using assms(2) by (auto simp: intersects_rect_def Let_def split: if_splits)
  have "0 \<le> r_width s \<and> 0 \<le> r_height s \<and> r_width s \<le> r_width q \<and> r_height s \<le> r_height q \<and>
    (r_width s < r_width q \<or> r_height s < r_height q)"
    using assms(1) i by (auto simp: subtract_rect_def Let_def split: if_splits)
  then have s: "r_width s \<le> r_width q" "r_height s \<le> r_height q" "r_width s < r_width q \<or> r_height s < r_height q"
    by blast+
  show ?thesis
  proof (cases "r_width s < r_width q")
    case True
    then have "nat (r_width s) * nat (r_height s) \<le> nat (r_width s) * nat (r_height q)"
      using s by (intro mult_le_mono) auto
    also have "\<dots> < nat (r_width q) * nat (r_height q)" using True i by (intro mult_strict_right_mono) auto
    finally show ?thesis .
  next
    case False
    then have "nat (r_width s) * nat (r_height s) \<le> nat (r_width q) * nat (r_height s)"
      using s by (intro mult_le_mono) auto
    also have "\<dots> < nat (r_width q) * nat (r_height q)" using False s i by (intro mult_strict_left_mono) auto
    finally show ?thesis .
  qed
qed

lemma first_touchedD:
  "first_touched rs q = Some r \<Longrightarrow> r \<in> set rs \<and> (contains_rect r q \<or> intersects_rect r q)"
  by (auto simp: first_touched_def find_Some_iff)

text \<open>\<^verbatim>\<open>add_rectangle\<close>: the number of pixels added, and the list.\<close>

function add_rectangle :: "rectangle \<Rightarrow> rectangle list \<Rightarrow> int \<times> rectangle list" where
  "add_rectangle q rs =
     (case first_touched rs q of
        None \<Rightarrow> (area q, rs @ [q])
      | Some r \<Rightarrow>
          if contains_rect r q then (0, rs)
          else
            fold (\<lambda>s (total, rs). let (n, rs) = add_rectangle s rs in (total + n, rs)) (subtract_rect q r) (0, rs))"
  by pat_completeness auto

termination
  by (relation "measure (\<lambda>(q, rs). nat (r_width q) * nat (r_height q))")
    (auto dest!: first_touchedD intro: subtract_smaller)

declare add_rectangle.simps [simp del]

definition remove_rectangle :: "rectangle list \<Rightarrow> rectangle \<Rightarrow> rectangle list" where
  "remove_rectangle rs q = concat (map (\<lambda>r. subtract_rect r q) rs)"

fun grow_box :: "rectangle \<Rightarrow> int \<times> int \<times> int \<times> int \<Rightarrow> int \<times> int \<times> int \<times> int" where
  "grow_box r (x, y, x2, y2) = (min x (r_x r), min y (r_y r), max x2 (r_x r + r_width r), max y2 (r_y r + r_height r))"

definition merge_all :: "rectangle list \<Rightarrow> rectangle result" where
  "merge_all rs =
     (case rs of
        [] \<Rightarrow> Inl ValueError
      | r # _ \<Rightarrow>
          let (x, y, x2, y2) = fold grow_box rs (r_x r, r_y r, r_x r + r_width r, r_y r + r_height r)
          in new_rectangle x y (x2 - x) (y2 - y))"

text \<open>Each rectangle once; the code makes a \<^verbatim>\<open>set\<close> of them, which has no order.\<close>

definition unique_regions :: "rectangle list \<Rightarrow> rectangle list" where
  "unique_regions regions = fold (\<lambda>r us. if r \<in> set us then us else us @ [r]) regions []"

section \<open>Pixels\<close>

definition pixels :: "rectangle \<Rightarrow> (int \<times> int) set" where
  "pixels r = {r_x r..<r_x r + r_width r} \<times> {r_y r..<r_y r + r_height r}"

definition all_pixels :: "rectangle list \<Rightarrow> (int \<times> int) set" where
  "all_pixels rs = (\<Union>r\<in>set rs. pixels r)"

definition wf_rect :: "rectangle \<Rightarrow> bool" where
  "wf_rect r \<longleftrightarrow> 0 \<le> r_width r \<and> 0 \<le> r_height r"

text \<open>No two of the rectangles overlap.\<close>

fun apart_rects :: "rectangle list \<Rightarrow> bool" where
  "apart_rects [] = True"
| "apart_rects (r # rs) \<longleftrightarrow> pixels r \<inter> all_pixels rs = {} \<and> apart_rects rs"

lemma all_pixels_simps [simp]:
  "all_pixels [] = {}" "all_pixels (r # rs) = pixels r \<union> all_pixels rs" "all_pixels (rs @ qs) = all_pixels rs \<union> all_pixels qs"
  by (auto simp: all_pixels_def)

lemma in_pixels: "(a, b) \<in> pixels r \<longleftrightarrow> r_x r \<le> a \<and> a < r_x r + r_width r \<and> r_y r \<le> b \<and> b < r_y r + r_height r"
  by (simp add: pixels_def)

lemma finite_pixels [simp]: "finite (pixels r)"
  by (simp add: pixels_def)

lemma finite_all_pixels [simp]: "finite (all_pixels rs)"
  by (simp add: all_pixels_def)

lemma card_pixels: "wf_rect r \<Longrightarrow> int (card (pixels r)) = area r"
  by (simp add: pixels_def area_def wf_rect_def card_cartesian_product)

lemma intersects_pixels: "intersects_rect r q \<longleftrightarrow> pixels r \<inter> pixels q \<noteq> {}"
proof
  assume "intersects_rect r q"
  then have "(max (r_x r) (r_x q), max (r_y r) (r_y q)) \<in> pixels r \<inter> pixels q"
    by (auto simp: intersects_rect_def Let_def in_pixels split: if_splits)
  then show "pixels r \<inter> pixels q \<noteq> {}" by blast
next
  assume "pixels r \<inter> pixels q \<noteq> {}"
  then obtain a b where "(a, b) \<in> pixels r" "(a, b) \<in> pixels q" by (metis disjoint_iff surj_pair)
  then show "intersects_rect r q" by (auto simp: intersects_rect_def Let_def in_pixels)
qed

lemma intersection_pixels:
  "(case intersection_rect r q of None \<Rightarrow> {} | Some i \<Rightarrow> pixels i) = pixels r \<inter> pixels q"
  by (auto simp: intersection_rect_def Let_def in_pixels)

lemma contains_pixels: "contains_rect r q \<Longrightarrow> pixels q \<subseteq> pixels r"
  by (auto simp: contains_rect_def in_pixels)

lemma subtract_pixels:
  assumes "wf_rect r" "wf_rect q"
  shows "all_pixels (subtract_rect r q) = pixels r - pixels q"
proof (rule set_eqI)
  fix p :: "int \<times> int"
  obtain a b where p: "p = (a, b)" by fastforce
  have w: "0 \<le> r_width q" "0 \<le> r_height q" "0 \<le> r_width r" "0 \<le> r_height r"
    using assms by (simp_all add: wf_rect_def)
  show "p \<in> all_pixels (subtract_rect r q) \<longleftrightarrow> p \<in> pixels r - pixels q"
  proof (cases "intersects_rect r q")
    case False
    then have d: "pixels r \<inter> pixels q = {}" by (simp add: intersects_pixels)
    have g: "(r_width q = 0 \<or> r_height q = 0 \<or> r_width r = 0 \<or> r_height r = 0) \<or>
      (r_x r + r_width r \<le> r_x q \<or> r_y r + r_height r \<le> r_y q \<or> r_x q + r_width q \<le> r_x r \<or> r_y q + r_height q \<le> r_y r)"
      using False w by (auto simp: intersects_rect_def Let_def split: if_splits)
    have "subtract_rect r q = [r]" unfolding subtract_rect_def using g by argo
    with d show ?thesis by auto
  next
    case True
    then have t: "r_x q < r_x r + r_width r" "r_x r < r_x q + r_width q" "r_y q < r_y r + r_height r" "r_y r < r_y q + r_height q"
      "r_width q > 0" "r_height q > 0" "r_width r > 0" "r_height r > 0"
      by (auto simp: intersects_rect_def Let_def split: if_splits)
    show ?thesis
    proof (cases "contains_rect q r")
      case True
      with contains_pixels [OF True] t show ?thesis by (auto simp: subtract_rect_def contains_rect_def)
    next
      case False
      consider "b < r_y q" | "r_y q + r_height q \<le> b" | "r_y q \<le> b" "b < r_y q + r_height q" "a < r_x q"
        | "r_y q \<le> b" "b < r_y q + r_height q" "r_x q + r_width q \<le> a"
        | "r_y q \<le> b" "b < r_y q + r_height q" "r_x q \<le> a" "a < r_x q + r_width q" by linarith
      then show ?thesis
        using t False by cases (auto simp: subtract_rect_def Let_def contains_rect_def p in_pixels)
    qed
  qed
qed

lemma subtract_apart: "wf_rect q \<Longrightarrow> apart_rects (subtract_rect r q)"
  by (auto simp: subtract_rect_def Let_def in_pixels wf_rect_def)

lemma subtract_wf: "wf_rect r \<Longrightarrow> wf_rect q \<Longrightarrow> s \<in> set (subtract_rect r q) \<Longrightarrow> wf_rect s"
  by (auto simp: subtract_rect_def Let_def wf_rect_def split: if_splits)

section \<open>Adding and removing\<close>

lemma apart_snoc: "apart_rects rs \<Longrightarrow> pixels q \<inter> all_pixels rs = {} \<Longrightarrow> apart_rects (rs @ [q])"
  by (induction rs) auto

lemma apart_append: "apart_rects (as @ bs) \<longleftrightarrow> apart_rects as \<and> apart_rects bs \<and> all_pixels as \<inter> all_pixels bs = {}"
  by (induction as) auto

definition adds :: "(int \<times> int) set \<Rightarrow> rectangle list \<Rightarrow> int \<Rightarrow> rectangle list \<Rightarrow> bool" where
  "adds new rs n rs' \<longleftrightarrow>
     all_pixels rs' = all_pixels rs \<union> new \<and> n = int (card (new - all_pixels rs)) \<and> apart_rects rs' \<and> list_all wf_rect rs'"

lemma adds_then:
  assumes "finite s" "finite t" "adds s rs m rs'" "adds t rs' n rs''"
  shows "adds (s \<union> t) rs (m + n) rs''"
proof -
  have "(s \<union> t) - all_pixels rs = (s - all_pixels rs) \<union> (t - (all_pixels rs \<union> s))" by auto
  moreover have "(s - all_pixels rs) \<inter> (t - (all_pixels rs \<union> s)) = {}" by auto
  ultimately have "card ((s \<union> t) - all_pixels rs) = card (s - all_pixels rs) + card (t - (all_pixels rs \<union> s))"
    using assms(1,2) by (simp add: card_Un_disjoint)
  with assms(3,4) show ?thesis by (auto simp: adds_def)
qed

lemma adds_all:
  assumes "\<And>s rs. s \<in> set subs \<Longrightarrow> apart_rects rs \<Longrightarrow> list_all wf_rect rs \<Longrightarrow>
      adds (pixels s) rs (fst (add_rectangle s rs)) (snd (add_rectangle s rs))"
    and "apart_rects rs" "list_all wf_rect rs"
    and "fold (\<lambda>s (total, rs). let (n, rs) = add_rectangle s rs in (total + n, rs)) subs (t, rs) = (t', rs')"
  shows "adds (all_pixels subs) rs (t' - t) rs'"
  using assms
proof (induction subs arbitrary: t rs)
  case Nil
  then show ?case by (simp add: adds_def)
next
  case (Cons s subs)
  obtain n rs1 where a: "add_rectangle s rs = (n, rs1)" by fastforce
  have s: "adds (pixels s) rs n rs1" using Cons.prems(1) [of s rs] Cons.prems(2,3) a by simp
  then have w: "apart_rects rs1" "list_all wf_rect rs1" by (simp_all add: adds_def)
  have "adds (all_pixels subs) rs1 (t' - (t + n)) rs'"
    by (rule Cons.IH [OF Cons.prems(1) w]) (use Cons.prems(4) a in \<open>auto\<close>)
  from adds_then [OF _ _ s this] show ?case by (simp add: algebra_simps)
qed

lemma add_rectangle_adds:
  "wf_rect q \<Longrightarrow> apart_rects rs \<Longrightarrow> list_all wf_rect rs \<Longrightarrow>
    adds (pixels q) rs (fst (add_rectangle q rs)) (snd (add_rectangle q rs))"
proof (induction q rs rule: add_rectangle.induct)
  case (1 q rs)
  show ?case
  proof (cases "first_touched rs q")
    case None
    then have "\<not> intersects_rect r q" if "r \<in> set rs" for r
      using that by (auto simp: first_touched_def find_None_iff)
    then have d: "pixels q \<inter> all_pixels rs = {}" by (auto simp: all_pixels_def intersects_pixels)
    with None "1.prems" show ?thesis
      by (auto simp: add_rectangle.simps [of q rs] adds_def card_pixels Diff_triv intro: apart_snoc)
  next
    case (Some r)
    note r = first_touchedD [OF Some]
    show ?thesis
    proof (cases "contains_rect r q")
      case True
      then have "pixels q \<subseteq> all_pixels rs" using r contains_pixels by (force simp: all_pixels_def)
      with Some True "1.prems" show ?thesis
        by (auto simp: add_rectangle.simps [of q rs] adds_def Diff_eq_empty_iff [THEN iffD2])
    next
      case False
      have wr: "wf_rect r" using r "1.prems" by (auto simp: list_all_iff)
      obtain t rs' where f: "fold (\<lambda>s (total, rs). let (n, rs) = add_rectangle s rs in (total + n, rs))
          (subtract_rect q r) (0, rs) = (t, rs')" by fastforce
      have "adds (all_pixels (subtract_rect q r)) rs (t - 0) rs'"
        by (rule adds_all [OF _ "1.prems"(2,3) f])
          (use "1.IH" [OF Some False] subtract_wf [OF "1.prems"(1) wr] in blast)
      moreover have "all_pixels rs \<union> (pixels q - pixels r) = all_pixels rs \<union> pixels q"
        "pixels q - pixels r - all_pixels rs = pixels q - all_pixels rs"
        using r by (auto simp: all_pixels_def)
      ultimately have "adds (pixels q) rs t rs'"
        by (simp add: adds_def subtract_pixels [OF "1.prems"(1) wr])
      with Some False f show ?thesis by (simp add: add_rectangle.simps [of q rs])
    qed
  qed
qed



text \<open>
  Removing a rectangle from a list removes exactly its pixels, and leaves rectangles that do not
  overlap when there were none before.
\<close>

theorem remove_rectangle_exact:
  assumes "wf_rect q" "list_all wf_rect rs"
  shows "all_pixels (remove_rectangle rs q) = all_pixels rs - pixels q \<and>
    (apart_rects rs \<longrightarrow> apart_rects (remove_rectangle rs q))"
  using assms(2)
proof (induction rs)
  case (Cons r rs)
  have "all_pixels (remove_rectangle (r # rs) q) = (pixels r - pixels q) \<union> (all_pixels rs - pixels q)"
    using Cons subtract_pixels [OF _ assms(1), of r] by (simp add: remove_rectangle_def)
  moreover have "apart_rects (remove_rectangle (r # rs) q)" if "apart_rects (r # rs)"
    using that Cons subtract_pixels [OF _ assms(1), of r] subtract_apart [OF assms(1)]
    by (auto simp: remove_rectangle_def apart_append)
  ultimately show ?case by auto
qed (simp add: remove_rectangle_def)

theorem remove_rectangle_exact_witness:
  "all_pixels (remove_rectangle [rect 0 0 4 4] (rect 1 1 2 2)) = all_pixels [rect 0 0 4 4] - pixels (rect 1 1 2 2) \<and>
   length (remove_rectangle [rect 0 0 4 4] (rect 1 1 2 2)) = 4"
proof -
  have "length (remove_rectangle [rect 0 0 4 4] (rect 1 1 2 2)) = 4" by code_simp
  with remove_rectangle_exact [of "rect 1 1 2 2" "[rect 0 0 4 4]"] show ?thesis by (simp add: wf_rect_def)
qed

fun box_in :: "int \<times> int \<times> int \<times> int \<Rightarrow> int \<times> int \<times> int \<times> int \<Rightarrow> bool" where
  "box_in (x, y, x2, y2) (x', y', x2', y2') \<longleftrightarrow> x' \<le> x \<and> y' \<le> y \<and> x2 \<le> x2' \<and> y2 \<le> y2'"

definition box_of :: "rectangle \<Rightarrow> int \<times> int \<times> int \<times> int" where
  "box_of r = (r_x r, r_y r, r_x r + r_width r, r_y r + r_height r)"

lemma box_in_trans: "box_in a b \<Longrightarrow> box_in b c \<Longrightarrow> box_in a c"
  by (cases a; cases b; cases c) auto

lemma grow_box_in: "box_in a (grow_box r a)" "box_in (box_of r) (grow_box r a)"
  by (cases a; simp add: box_of_def)+

lemma grow_boxes_in: "box_in a (fold grow_box rs a)"
proof (induction rs arbitrary: a)
  case Nil
  show ?case by (cases a) simp
next
  case (Cons r rs)
  show ?case using box_in_trans [OF grow_box_in(1) Cons] by simp
qed

lemma grow_boxes_cover: "r \<in> set rs \<Longrightarrow> box_in (box_of r) (fold grow_box rs a)"
proof (induction rs arbitrary: a)
  case (Cons q rs)
  then show ?case using box_in_trans [OF grow_box_in(2) grow_boxes_in] by (cases "r = q") auto
qed simp

lemma merge_all_covers:
  assumes "merge_all rs = Inr m" "r \<in> set rs"
  shows "contains_rect m r"
proof -
  obtain q qs where rs: "rs = q # qs" using assms(2) by (cases rs) auto
  obtain x y x2 y2 where f: "fold grow_box rs (box_of q) = (x, y, x2, y2)" by (metis prod_cases4)
  have "m = rect x y (x2 - x) (y2 - y)"
    using assms(1) f by (simp add: merge_all_def rs new_rectangle_def box_of_def split: if_splits)
  with grow_boxes_cover [OF assms(2), of "box_of q", unfolded f] show ?thesis
    by (simp add: contains_rect_def box_of_def)
qed

lemma merge_all_some:
  assumes "rs \<noteq> []" "list_all wf_rect rs"
  shows "\<exists>m. merge_all rs = Inr m \<and> wf_rect m"
proof -
  obtain q qs where rs: "rs = q # qs" using assms(1) by (cases rs) auto
  obtain x y x2 y2 where f: "fold grow_box rs (box_of q) = (x, y, x2, y2)" by (metis prod_cases4)
  have "box_in (box_of q) (x, y, x2, y2)" using grow_boxes_cover [of q rs "box_of q"] f by (simp add: rs)
  with assms(2) have "x \<le> x2" "y \<le> y2" by (auto simp: rs box_of_def wf_rect_def)
  with f show ?thesis by (simp add: merge_all_def rs new_rectangle_def box_of_def wf_rect_def)
qed

section \<open>Sets of rectangles\<close>

lemma unique_regions_set [simp]: "set (unique_regions rs) = set rs"
proof -
  have "set (fold (\<lambda>r us. if r \<in> set us then us else us @ [r]) rs us) = set us \<union> set rs" for us
    by (induction rs arbitrary: us) auto
  then show ?thesis by (simp add: unique_regions_def)
qed

lemma unique_regions_distinct: "distinct (unique_regions rs)"
proof -
  have "distinct us \<Longrightarrow> distinct (fold (\<lambda>r us. if r \<in> set us then us else us @ [r]) rs us)" for us
    by (induction rs arbitrary: us) auto
  then show ?thesis by (simp add: unique_regions_def)
qed

lemma unique_regions_pixels [simp]: "all_pixels (unique_regions rs) = all_pixels rs"
  by (simp add: all_pixels_def)

lemma merge_all_pixels: "merge_all rs = Inr m \<Longrightarrow> all_pixels rs \<subseteq> pixels m"
  using merge_all_covers contains_pixels by (fastforce simp: all_pixels_def)

end
