(* ===== verification/RFBSource.thy ===== *)
theory RFBSource
  imports RFBEncode Rectangles
begin

text \<open>
  \<^verbatim>\<open>RFBSource\<close> of \<^verbatim>\<open>src/xpra/server/rfb/source.py\<close>: the damaged areas that are collected for a VNC client,
  which regions of the window are sent for them, and how they are encoded. The window, the write queue
  of the protocol and the timer belong to the environment of each operation.
\<close>

section \<open>State\<close>

definition RFB_ENCODE_QUEUE_MAX_SIZE :: nat where "RFB_ENCODE_QUEUE_MAX_SIZE = 2"
definition RFB_WRITE_QUEUE_MAX_SIZE :: nat where "RFB_WRITE_QUEUE_MAX_SIZE = 2"
definition RFB_WRITE_QUEUE_MAX_BYTES :: int where "RFB_WRITE_QUEUE_MAX_BYTES = 8 * 1024 * 1024"
definition RFB_DAMAGE_DELAY :: int where "RFB_DAMAGE_DELAY = 20"
definition RFB_DAMAGE_DELAY_MIN :: int where "RFB_DAMAGE_DELAY_MIN = 10"
definition RFB_DAMAGE_DELAY_MAX :: int where "RFB_DAMAGE_DELAY_MAX = 100"
definition RFB_MIN_WINDOW_REGION_SIZE :: int where "RFB_MIN_WINDOW_REGION_SIZE = 1024"
definition RFB_MAX_SMALL_REGIONS :: nat where "RFB_MAX_SMALL_REGIONS = 40"
definition RFB_MAX_BYTES_PERCENT :: int where "RFB_MAX_BYTES_PERCENT = 60"
definition RFB_SMALL_PACKET_COST :: int where "RFB_SMALL_PACKET_COST = 1024"
definition RFB_TINY_REGION_SIZE :: int where "RFB_TINY_REGION_SIZE = 4096"
definition RFB_LOW_QUALITY :: int where "RFB_LOW_QUALITY = 50"
definition PACKET_JOIN_BYTES :: int where "PACKET_JOIN_BYTES = 65536"

text \<open>A region to encode: its image, where it is, and the encoding.\<close>

record enc_region =
  er_image :: image
  er_x :: int
  er_y :: int
  er_w :: int
  er_h :: int
  er_enc :: int

text \<open>
  \<open>rs_zlib\<close> is what the compressor was given so far, if there is one; a \<open>None\<close> in the queue ends the
  encoding thread; \<open>rs_window\<close> says that a window is kept, and \<open>rs_out\<close> is what the protocol was given
  to send.
\<close>

record rfb_source =
  rs_encodings :: "int list"
  rs_quality :: int
  rs_speed :: int
  rs_format :: "int list"
  rs_generation :: nat
  rs_cursor :: "(int list \<times> bytes) option"
  rs_zlib :: "bytes list option"
  rs_continuous :: bool
  rs_cu_rect :: "(int \<times> int \<times> int \<times> int) option"
  rs_pending :: "(int \<times> int \<times> int \<times> int) option"
  rs_pointer :: "(int \<times> int) option"
  rs_delay :: int
  rs_timer :: "int option"
  rs_rects :: "rectangle list"
  rs_clip :: "rectangle option"
  rs_wid :: int
  rs_window :: bool
  rs_queue :: "(nat \<times> int \<times> enc_region list) option list"
  rs_closed :: bool
  rs_out :: "bytes list"

text \<open>
  The protocol, if there is one, and its queue; the size of the window, if it says, and its pixels.
\<close>

record rfb_view =
  rv_protocol :: bool
  rv_queue_size :: nat
  rv_pending_bytes :: int
  rv_dimensions :: "(int \<times> int) option"
  rv_image :: "int \<Rightarrow> int \<Rightarrow> int \<Rightarrow> int \<Rightarrow> image option"

definition default_pixel_format :: "int list" where
  "default_pixel_format = [32, 24, 0, 1, 255, 255, 255, 16, 8, 0]"

definition new_source :: rfb_source where
  "new_source =
     \<lparr>rs_encodings = [RAW], rs_quality = 0, rs_speed = 0, rs_format = default_pixel_format, rs_generation = 0,
      rs_cursor = None, rs_zlib = None, rs_continuous = False, rs_cu_rect = None, rs_pending = None, rs_pointer = None,
      rs_delay = RFB_DAMAGE_DELAY, rs_timer = None, rs_rects = [], rs_clip = None, rs_wid = 0, rs_window = False,
      rs_queue = [], rs_closed = False, rs_out = []\<rparr>"

definition send_msg :: "rfb_view \<Rightarrow> bytes \<Rightarrow> rfb_source \<Rightarrow> rfb_source" where
  "send_msg v msg s = (if rv_protocol v then s\<lparr>rs_out := rs_out s @ [msg]\<rparr> else s)"

section \<open>Settings\<close>

text \<open>\<^verbatim>\<open>round(100 * k / 9)\<close>: no multiple of a ninth is half-way between two integers.\<close>

definition ninths_pct :: "int \<Rightarrow> int" where
  "ninths_pct k = (200 * k + 9) div 18"

definition rfb_level_to_pct :: "int \<Rightarrow> int" where
  "rfb_level_to_pct level = (if level \<le> 0 then 0 else cap_pct (ninths_pct level))"

definition rfb_compression_level_to_speed :: "int \<Rightarrow> int" where
  "rfb_compression_level_to_speed level = (if level \<le> 0 then 0 else cap_pct (ninths_pct (10 - level)))"

fun set_encoding :: "int \<Rightarrow> rfb_source \<Rightarrow> rfb_source" where
  "set_encoding v s =
     (if -32 \<le> v \<and> v \<le> -23 then s\<lparr>rs_quality := rfb_level_to_pct (v + 32)\<rparr>
      else if -512 \<le> v \<and> v \<le> -412 then s\<lparr>rs_quality := cap_pct (v + 512)\<rparr>
      else if -256 \<le> v \<and> v \<le> -247 then s\<lparr>rs_speed := rfb_compression_level_to_speed (v + 256)\<rparr>
      else if v \<in> set rfb_encoding_values then s\<lparr>rs_encodings := rs_encodings s @ [v]\<rparr>
      else s)"

definition set_encodings :: "int list \<Rightarrow> rfb_source \<Rightarrow> rfb_source" where
  "set_encodings encodings s = fold set_encoding encodings (s\<lparr>rs_encodings := []\<rparr>)"

definition set_refresh_rate :: "int \<Rightarrow> rfb_source \<Rightarrow> rfb_source" where
  "set_refresh_rate rate s =
     s\<lparr>rs_delay := (if rate \<le> 0 then RFB_DAMAGE_DELAY
                    else max RFB_DAMAGE_DELAY_MIN (min RFB_DAMAGE_DELAY_MAX (1000 div rate)))\<rparr>"

definition set_pixel_format :: "int list \<Rightarrow> rfb_source \<Rightarrow> rfb_source" where
  "set_pixel_format pf s =
     (let s = (if pf \<noteq> rs_format s then s\<lparr>rs_zlib := None, rs_generation := rs_generation s + 1\<rparr> else s)
      in s\<lparr>rs_format := pf\<rparr>)"

definition set_continuous_updates :: "rfb_view \<Rightarrow> bool \<Rightarrow> int \<Rightarrow> int \<Rightarrow> int \<Rightarrow> int \<Rightarrow> rfb_source \<Rightarrow> rfb_source" where
  "set_continuous_updates v enabled x y w h s =
     (if enabled then s\<lparr>rs_continuous := True, rs_cu_rect := Some (x, y, w, h)\<rparr>
      else
        let was_enabled = rs_continuous s; s = s\<lparr>rs_continuous := False, rs_cu_rect := None\<rparr>
        in if was_enabled \<and> \<not> rs_closed s then send_msg v [150] s else s)"

definition request_update :: "int \<Rightarrow> int \<Rightarrow> int \<Rightarrow> int \<Rightarrow> rfb_source \<Rightarrow> rfb_source" where
  "request_update x y w h s =
     (case rs_pending s of
        None \<Rightarrow> s\<lparr>rs_pending := Some (x, y, w, h)\<rparr>
      | Some (px, py, pw, ph) \<Rightarrow>
          let nx = min px x; ny = min py y; nw = max (px + pw) (x + w) - nx; nh = max (py + ph) (y + h) - ny
          in s\<lparr>rs_pending := Some (nx, ny, nw, nh)\<rparr>)"

definition close_source :: "rfb_source \<Rightarrow> rfb_source" where
  "close_source s =
     (if rs_closed s then s
      else s\<lparr>rs_closed := True, rs_timer := None, rs_rects := [], rs_clip := None, rs_window := False,
             rs_queue := rs_queue s @ [None]\<rparr>)"

section \<open>Damage\<close>

definition has_backlog :: "rfb_view \<Rightarrow> rfb_source \<Rightarrow> bool" where
  "has_backlog v s \<longleftrightarrow>
     \<not> rv_protocol v \<or> rv_queue_size v \<ge> RFB_WRITE_QUEUE_MAX_SIZE \<or> rv_pending_bytes v \<ge> RFB_WRITE_QUEUE_MAX_BYTES \<or>
     length (rs_queue s) \<ge> RFB_ENCODE_QUEUE_MAX_SIZE"

text \<open>The timer: after how many milliseconds it is due.\<close>

definition schedule_damage :: "rfb_source \<Rightarrow> rfb_source" where
  "schedule_damage s = (if rs_timer s \<noteq> None \<or> rs_closed s then s else s\<lparr>rs_timer := Some (max 1 (rs_delay s))\<rparr>)"

definition add_damage_clip :: "rectangle \<Rightarrow> rfb_source \<Rightarrow> unit result \<times> rfb_source" where
  "add_damage_clip clip s =
     (case rs_clip s of
        None \<Rightarrow> (Inr (), s\<lparr>rs_clip := Some clip\<rparr>)
      | Some c \<Rightarrow>
          (case merge_all [c, clip] of
             Inl e \<Rightarrow> (Inl e, s)
           | Inr m \<Rightarrow> (Inr (), s\<lparr>rs_clip := Some m\<rparr>)))"

definition add_damage_rectangle :: "int \<Rightarrow> rectangle \<Rightarrow> rfb_source \<Rightarrow> rfb_source" where
  "add_damage_rectangle wid region s =
     (if r_width region \<le> 0 \<or> r_height region \<le> 0 then s
      else
        let schedule = (rs_rects s = []);
            s = s\<lparr>rs_rects := snd (add_rectangle region (rs_rects s)), rs_wid := wid, rs_window := True\<rparr>
        in if schedule then schedule_damage s else s)"

text \<open>
  \<^verbatim>\<open>damage\<close>: \<open>take_request\<close> makes an outstanding request the clip, and \<open>damage_within\<close> adds what is inside a
  rectangle, if there is one.
\<close>

definition take_request :: "rfb_source \<Rightarrow> unit result \<times> rfb_source" where
  "take_request s =
     (case rs_pending s of
        None \<Rightarrow> (Inr (), s)
      | Some (px, py, pw, ph) \<Rightarrow>
          (case new_rectangle px py pw ph of
             Inl e \<Rightarrow> (Inl e, s)
           | Inr clip \<Rightarrow>
               (case add_damage_clip clip s of
                  (Inl e, s) \<Rightarrow> (Inl e, s)
                | (Inr _, s) \<Rightarrow> (Inr (), s\<lparr>rs_pending := None\<rparr>))))"

definition damage_within :: "int \<Rightarrow> rectangle \<Rightarrow> rectangle option \<Rightarrow> rfb_source \<Rightarrow> rfb_source" where
  "damage_within wid region clip s =
     (case clip of
        None \<Rightarrow> add_damage_rectangle wid region s
      | Some c \<Rightarrow> (case intersection_rect region c of None \<Rightarrow> s | Some region \<Rightarrow> add_damage_rectangle wid region s))"

definition damage :: "rfb_view \<Rightarrow> int \<Rightarrow> int \<Rightarrow> int \<Rightarrow> int \<Rightarrow> int \<Rightarrow> bool \<Rightarrow> rfb_source \<Rightarrow> unit result \<times> rfb_source" where
  "damage v wid x y w h polling s =
     (if polling \<and> has_backlog v s then (Inr (), s)
      else if rs_closed s then (Inr (), s)
      else
        (case new_rectangle x y w h of
           Inl e \<Rightarrow> (Inl e, s)
         | Inr region \<Rightarrow>
             if polling \<and> \<not> rs_continuous s then
               (if rs_pending s = None \<and> rs_rects s = [] then (Inr (), s)
                else
                  (case take_request s of
                     (Inl e, s) \<Rightarrow> (Inl e, s)
                   | (Inr _, s) \<Rightarrow> (Inr (), damage_within wid region (rs_clip s) s)))
             else if polling then
               (Inr (), damage_within wid region (map_option (\<lambda>(cx, cy, cw, ch). rect cx cy cw ch) (rs_cu_rect s)) s)
             else if \<not> rs_continuous s \<and> rs_rects s = [] then
               (Inr (), add_damage_rectangle wid region (s\<lparr>rs_clip := Some region\<rparr>))
             else (Inr (), add_damage_rectangle wid region s)))"

section \<open>Which regions\<close>

definition get_window_dimensions :: "rfb_view \<Rightarrow> rectangle list \<Rightarrow> (int \<times> int) result" where
  "get_window_dimensions v regions =
     (case rv_dimensions v of
        Some d \<Rightarrow> Inr d
      | None \<Rightarrow> ebind (merge_all regions) (\<lambda>full. Inr (r_x full + r_width full, r_y full + r_height full)))"

definition regions_cost :: "rectangle list \<Rightarrow> int" where
  "regions_cost regions = sum_list (map area regions) + RFB_SMALL_PACKET_COST * int (length regions)"

definition merge_regions :: "int \<Rightarrow> int \<Rightarrow> rectangle list \<Rightarrow> rectangle list result" where
  "merge_regions ww wh regions =
     (if length regions > RFB_MAX_SMALL_REGIONS then Inr [rect 0 0 ww wh]
      else if ww * wh \<le> RFB_MIN_WINDOW_REGION_SIZE then Inr [rect 0 0 ww wh]
      else if length regions > 1 then
        (let merge_threshold = ww * wh * RFB_MAX_BYTES_PERCENT div 100;
             pixel_count = sum_list (map area regions); packet_cost = regions_cost regions
         in if packet_cost \<ge> merge_threshold then Inr [rect 0 0 ww wh]
            else
              ebind (merge_all regions) (\<lambda>merged.
                if area merged + RFB_SMALL_PACKET_COST < packet_cost \<or> area merged < pixel_count then Inr [merged]
                else Inr regions))
      else Inr regions)"

definition whole_window :: "int \<Rightarrow> int \<Rightarrow> rectangle list \<Rightarrow> rectangle list" where
  "whole_window ww wh regions =
     (case regions of
        [merged] \<Rightarrow>
          if r_x merged \<le> 1 \<and> r_y merged \<le> 1 \<and> \<bar>ww - r_width merged\<bar> < 2 \<and> \<bar>wh - r_height merged\<bar> < 2
          then [rect 0 0 ww wh] else regions
      | _ \<Rightarrow> regions)"

definition choose_regions :: "int \<Rightarrow> int \<Rightarrow> rectangle list \<Rightarrow> rectangle list result" where
  "choose_regions ww wh regions =
     ebind (merge_regions ww wh (unique_regions regions)) (\<lambda>regions. Inr (whole_window ww wh regions))"

definition get_region_encoding :: "int \<Rightarrow> int \<Rightarrow> rfb_source \<Rightarrow> int" where
  "get_region_encoding w h s =
     (if take 2 (rs_format s) \<noteq> [32, 24] then RAW
      else if w * h \<le> RFB_TINY_REGION_SIZE \<and> ZLIB \<in> set (rs_encodings s) then ZLIB
      else if TIGHT \<in> set (rs_encodings s) \<and> 0 < rs_quality s \<and> rs_quality s \<le> RFB_LOW_QUALITY then TIGHT
      else if TIGHT_PNG \<in> set (rs_encodings s) then TIGHT_PNG
      else if TIGHT \<in> set (rs_encodings s) then TIGHT
      else if ZLIB \<in> set (rs_encodings s) then ZLIB
      else RAW)"

definition grab_region :: "rfb_view \<Rightarrow> rfb_source \<Rightarrow> rectangle \<Rightarrow> enc_region list" where
  "grab_region v s r =
     (case rv_image v (r_x r) (r_y r) (r_width r) (r_height r) of
        None \<Rightarrow> []
      | Some img \<Rightarrow>
          [\<lparr>er_image = img, er_x = r_x r, er_y = r_y r, er_w = r_width r, er_h = r_height r,
            er_enc = get_region_encoding (r_width r) (r_height r) s\<rparr>])"

definition send_regions :: "rfb_view \<Rightarrow> int \<Rightarrow> rectangle list \<Rightarrow> rfb_source \<Rightarrow> unit result \<times> rfb_source" where
  "send_regions v wid regions s =
     (case get_window_dimensions v regions of
        Inl e \<Rightarrow> (Inl e, s)
      | Inr (ww, wh) \<Rightarrow>
          if ww \<le> 0 \<or> wh \<le> 0 then (Inr (), s)
          else
            (case choose_regions ww wh regions of
               Inl e \<Rightarrow> (Inl e, s)
             | Inr regions \<Rightarrow>
                 let encode_regions = concat (map (grab_region v s) regions)
                 in if regions = [] \<or> encode_regions = [] then (Inr (), s)
                    else (Inr (), s\<lparr>rs_queue := rs_queue s @ [Some (rs_generation s, wid, encode_regions)]\<rparr>)))"

definition process_damage :: "rfb_view \<Rightarrow> rfb_source \<Rightarrow> unit result \<times> rfb_source" where
  "process_damage v s =
     (if rs_closed s then (Inr (), s)
      else if rs_rects s = [] then (Inr (), s)
      else if \<not> rv_protocol v then (Inr (), s\<lparr>rs_rects := [], rs_clip := None, rs_window := False\<rparr>)
      else if has_backlog v s then (Inr (), schedule_damage s)
      else send_regions v (rs_wid s) (rs_rects s) (s\<lparr>rs_rects := [], rs_clip := None, rs_window := False\<rparr>))"

definition process_damage_timer :: "rfb_view \<Rightarrow> rfb_source \<Rightarrow> unit result \<times> rfb_source" where
  "process_damage_timer v s = process_damage v (s\<lparr>rs_timer := None\<rparr>)"

section \<open>Encoding\<close>

definition encode_region :: "rfb_codecs \<Rightarrow> enc_region \<Rightarrow> rfb_source \<Rightarrow> bytes list result \<times> rfb_source" where
  "encode_region cx r s =
     (let img = er_image r; x = er_x r; y = er_y r; w = er_w r; h = er_h r in
      if rs_closed s then (Inr [], s)
      else if take 2 (rs_format s) \<noteq> [32, 24] then
        (if take 3 (rs_format s) = [8, 6, 0] then (rgb222_encode_image img x y w h, s) else (Inr [], s))
      else if er_enc r = TIGHT_PNG then (tight_png_image cx (Some img) x y w h (rs_speed s), s)
      else if er_enc r = TIGHT then (tight_encode_image cx (Some img) x y w h (rs_quality s) (rs_speed s), s)
      else if er_enc r = ZLIB then
        (case zlib_encode_image cx (Some img) x y w h (case rs_zlib s of None \<Rightarrow> [] | Some hist \<Rightarrow> hist) of
           (res, hist) \<Rightarrow> (res, s\<lparr>rs_zlib := Some hist\<rparr>))
      else (raw_encode_image (Some img) x y w h, s))"

fun join_packets :: "bytes list \<Rightarrow> bytes list \<Rightarrow> bytes list" where
  "join_packets joined [] = (if joined = [] then [] else [concat joined])"
| "join_packets joined (p # ps) =
     (if int (length (concat (joined @ [p]))) > PACKET_JOIN_BYTES
      then (if joined = [] then [] else [concat joined]) @ p # join_packets [] ps
      else join_packets (joined @ [p]) ps)"

definition send_many :: "rfb_view \<Rightarrow> bytes list \<Rightarrow> rfb_source \<Rightarrow> rfb_source" where
  "send_many v packets s = fold (send_msg v) (join_packets [] packets) s"

fun encode_each :: "rfb_codecs \<Rightarrow> enc_region list \<Rightarrow> rfb_source \<Rightarrow> bytes list list result \<times> rfb_source" where
  "encode_each cx [] s = (Inr [], s)"
| "encode_each cx (r # rs) s =
     (case encode_region cx r s of
        (Inl e, s) \<Rightarrow> (Inl e, s)
      | (Inr packets, s) \<Rightarrow>
          (case encode_each cx rs s of
             (Inl e, s) \<Rightarrow> (Inl e, s)
           | (Inr es, s) \<Rightarrow> (Inr (case packets of [] \<Rightarrow> es | p # ps \<Rightarrow> (drop 4 p # ps) # es), s)))"

definition encode_regions :: "rfb_codecs \<Rightarrow> rfb_view \<Rightarrow> enc_region list \<Rightarrow> rfb_source \<Rightarrow> unit result \<times> rfb_source" where
  "encode_regions cx v regions s =
     (if rs_closed s then (Inr (), s)
      else
        (case encode_each cx regions s of
           (Inl e, s) \<Rightarrow> (Inl e, s)
         | (Inr encoded, s) \<Rightarrow>
             if encoded = [] then (Inr (), s)
             else
               (case pack_fields [FB, FB, FH] [0, 0, int (length encoded)] of
                  Inl e \<Rightarrow> (Inl e, s)
                | Inr header \<Rightarrow> (Inr (), send_many v (header # concat encoded) s))))"

text \<open>
  One turn of \<^verbatim>\<open>encode_loop\<close>: what it takes off the queue, if there is anything; an exception is logged.
  Whether the thread goes on.
\<close>

definition encode_turn :: "rfb_codecs \<Rightarrow> rfb_view \<Rightarrow> rfb_source \<Rightarrow> bool \<times> rfb_source" where
  "encode_turn cx v s =
     (case rs_queue s of
        [] \<Rightarrow> (True, s)
      | None # q \<Rightarrow> (False, s\<lparr>rs_queue := q\<rparr>)
      | Some (generation, wid, regions) # q \<Rightarrow>
          let s = s\<lparr>rs_queue := q\<rparr>
          in (True, if \<not> rs_closed s \<and> generation = rs_generation s then snd (encode_regions cx v regions s) else s))"

section \<open>Cursor, pointer and clipboard\<close>

text \<open>\<^verbatim>\<open>make_rfb_cursor\<close>: the pixels and the mask, a bit for every pixel that is not transparent.\<close>

definition mask_byte :: "int \<Rightarrow> bytes \<Rightarrow> nat \<Rightarrow> nat \<Rightarrow> byte" where
  "mask_byte w rgba row k =
     fold (\<lambda>j m. if int (8 * k + j) < w \<and> rgba ! (4 * (row * nat w + 8 * k + j) + 3) \<noteq> 0 then m OR drop_bit j 128 else m) [0..<8] 0"

definition make_rfb_cursor :: "int \<Rightarrow> int \<Rightarrow> bytes \<Rightarrow> rfb_source \<Rightarrow> bytes" where
  "make_rfb_cursor w h rgba s =
     (if rs_format s \<noteq> default_pixel_format then []
      else if int (length rgba) < w * h * 4 then []
      else
        concat (map (\<lambda>i. [rgba ! (4 * i + 2), rgba ! (4 * i + 1), rgba ! (4 * i), 0]) [0..<nat (w * h)]) @
        concat (map (\<lambda>row. map (mask_byte w rgba row) [0..<nat ((w + 7) div 8)]) [0..<nat h]))"

text \<open>The cursor: size, hot spot, serial number, pixels and name, where the client wants it drawn.\<close>

definition send_cursor :: "rfb_view \<Rightarrow> (int list \<times> bytes) option \<Rightarrow> rfb_source \<Rightarrow> unit result \<times> rfb_source" where
  "send_cursor v cursor s =
     (if CURSOR \<notin> set (rs_encodings s) then (Inr (), s)
      else
        (case cursor of
           None \<Rightarrow> (Inr (), s)
         | Some (geometry, px) \<Rightarrow>
             if rs_cursor s = Some (geometry, px) then (Inr (), s)
             else
               let w = geometry ! 0; h = geometry ! 1; xhot = geometry ! 2; yhot = geometry ! 3;
                   cursor = make_rfb_cursor w h px s
               in if cursor = [] then (Inr (), s)
                  else
                    let s = s\<lparr>rs_cursor := Some (geometry, px)\<rparr>
                    in (case make_header CURSOR xhot yhot w h of
                          Inl e \<Rightarrow> (Inl e, s)
                        | Inr header \<Rightarrow> (Inr (), send_msg v (header @ cursor) s))))"

definition update_mouse :: "rfb_view \<Rightarrow> int \<Rightarrow> int \<Rightarrow> rfb_source \<Rightarrow> bool result \<times> rfb_source" where
  "update_mouse v x y s =
     (if POINTER_POS \<notin> set (rs_encodings s) \<or> rs_closed s \<or> rs_pointer s = Some (x, y) then (Inr False, s)
      else
        let s = s\<lparr>rs_pointer := Some (x, y)\<rparr>
        in (case make_header POINTER_POS x y 0 0 of
              Inl e \<Rightarrow> (Inl e, s)
            | Inr header \<Rightarrow> (Inr True, send_msg v header s)))"

definition updated_desktop_size :: "rfb_view \<Rightarrow> int \<Rightarrow> int \<Rightarrow> rfb_source \<Rightarrow> bool result \<times> rfb_source" where
  "updated_desktop_size v w h s =
     (if DESKTOPSIZE \<notin> set (rs_encodings s) \<or> rs_closed s then (Inr False, s)
      else
        (case make_header DESKTOPSIZE 0 0 w h of
           Inl e \<Rightarrow> (Inl e, s)
         | Inr header \<Rightarrow> (Inr True, send_msg v header s)))"

definition send_clipboard :: "rfb_view \<Rightarrow> pystr \<Rightarrow> rfb_source \<Rightarrow> unit result \<times> rfb_source" where
  "send_clipboard v text s =
     (let t = filter (\<lambda>c. c \<noteq> 13) text
      in if \<not> list_all (\<lambda>c. 0 \<le> c \<and> c < 256) t then (Inl ValueError, s)
         else
           (case pack_fields [FB, FB, FB, FB, FI] [3, 0, 0, 0, int (length t)] of
              Inl e \<Rightarrow> (Inl e, s)
            | Inr header \<Rightarrow> (Inr (), send_msg v (header @ map word_of_int t) s)))"

definition bell :: "rfb_view \<Rightarrow> rfb_source \<Rightarrow> rfb_source" where
  "bell v s = send_msg v [2] s"

end
