(* ===== verification/RFBUpdates.thy ===== *)
theory RFBUpdates
  imports RFBSource
begin

text \<open>
  What a VNC client gets: the regions that are sent cover what was damaged, nothing that is damaged is
  left without a timer, the queues stay short, and every update is read back as what was encoded.
\<close>

section \<open>Regions\<close>

lemma merge_regions_covers:
  assumes "merge_regions ww wh rs = Inr qs"
  shows "all_pixels rs \<inter> pixels (rect 0 0 ww wh) \<subseteq> all_pixels qs \<and> length qs \<le> RFB_MAX_SMALL_REGIONS"
  using assms merge_all_pixels [of rs]
  by (auto simp: merge_regions_def Let_def RFB_MAX_SMALL_REGIONS_def ebind_eq_Inr split: if_splits)

lemma whole_window_covers:
  "all_pixels rs \<inter> pixels (rect 0 0 ww wh) \<subseteq> all_pixels (whole_window ww wh rs) \<and>
    length (whole_window ww wh rs) = length rs"
  by (auto simp: whole_window_def split: list.splits)

lemma choose_regions_covers:
  assumes "choose_regions ww wh rs = Inr qs"
  shows "all_pixels rs \<inter> pixels (rect 0 0 ww wh) \<subseteq> all_pixels qs \<and> length qs \<le> RFB_MAX_SMALL_REGIONS"
proof -
  obtain ms where m: "merge_regions ww wh (unique_regions rs) = Inr ms" "qs = whole_window ww wh ms"
    using assms by (auto simp: choose_regions_def ebind_eq_Inr)
  show ?thesis
    using merge_regions_covers [OF m(1)] whole_window_covers [of ms ww wh] m(2) by auto
qed

lemma merge_regions_total:
  assumes "rs = [] \<or> (\<exists>m. merge_all rs = Inr m)"
  shows "\<exists>ms. merge_regions ww wh rs = Inr ms \<and> (rs \<noteq> [] \<longrightarrow> ms \<noteq> [])"
proof (cases "rs = []")
  case True
  then show ?thesis by (simp add: merge_regions_def RFB_MAX_SMALL_REGIONS_def)
next
  case False
  then obtain m where "merge_all rs = Inr m" using assms by blast
  then show ?thesis using False by (simp add: merge_regions_def Let_def)
qed

lemma choose_regions_total:
  assumes "list_all wf_rect rs"
  shows "\<exists>qs. choose_regions ww wh rs = Inr qs \<and> (rs \<noteq> [] \<longrightarrow> qs \<noteq> [])"
proof -
  have w: "list_all wf_rect (unique_regions rs)" using assms by (simp add: list_all_iff)
  then have "unique_regions rs = [] \<or> (\<exists>m. merge_all (unique_regions rs) = Inr m)"
    using merge_all_some by blast
  from merge_regions_total [OF this] obtain ms
    where m: "merge_regions ww wh (unique_regions rs) = Inr ms" "unique_regions rs \<noteq> [] \<longrightarrow> ms \<noteq> []" by blast
  have "unique_regions rs \<noteq> []" if "rs \<noteq> []" using unique_regions_set [of rs] that by fastforce
  moreover have "whole_window ww wh ms \<noteq> []" if "ms \<noteq> []"
    using whole_window_covers [of ms ww wh] that by auto
  ultimately show ?thesis using m by (simp add: choose_regions_def)
qed

text \<open>
  The regions that are sent for the damaged ones cover every damaged pixel of the window, whether
  they are sent as they are, merged, or replaced by the whole window; and there are at most forty.
\<close>

theorem sent_regions_cover:
  assumes "list_all wf_rect rs"
  shows "\<exists>qs. choose_regions ww wh rs = Inr qs \<and> all_pixels rs \<inter> pixels (rect 0 0 ww wh) \<subseteq> all_pixels qs \<and> length qs \<le> 40"
  using choose_regions_total [OF assms, of ww wh] choose_regions_covers [of ww wh rs]
  by (auto simp: RFB_MAX_SMALL_REGIONS_def)

theorem sent_regions_cover_witness:
  "\<exists>qs. choose_regions 1000 1000 [rect 0 0 10 10, rect 900 900 10 10] = Inr qs \<and> length qs \<le> 40 \<and>
     all_pixels [rect 0 0 10 10, rect 900 900 10 10] \<inter> pixels (rect 0 0 1000 1000) \<subseteq> all_pixels qs"
  using sent_regions_cover [of "[rect 0 0 10 10, rect 900 900 10 10]" 1000 1000] by (auto simp: wf_rect_def)

section \<open>The state\<close>

text \<open>What may happen to a source; the timer fires only when there is one.\<close>

datatype src_op =
    SetEncodings "int list"
  | SetRefreshRate int
  | SetPixelFormat "int list"
  | ContinuousUpdates bool int int int int
  | RequestUpdate int int int int
  | Damage int int int int int bool
  | DamageTimer
  | EncodeTurn
  | SendCursor "(int list \<times> bytes) option"
  | UpdateMouse int int
  | DesktopSize int int
  | SendClipboard pystr
  | Bell
  | CloseSource

fun src_step :: "rfb_codecs \<Rightarrow> src_op \<times> rfb_view \<Rightarrow> rfb_source \<Rightarrow> rfb_source" where
  "src_step cx (SetEncodings es, v) s = set_encodings es s"
| "src_step cx (SetRefreshRate rate, v) s = set_refresh_rate rate s"
| "src_step cx (SetPixelFormat pf, v) s = set_pixel_format pf s"
| "src_step cx (ContinuousUpdates enabled x y w h, v) s = set_continuous_updates v enabled x y w h s"
| "src_step cx (RequestUpdate x y w h, v) s = request_update x y w h s"
| "src_step cx (Damage wid x y w h polling, v) s = snd (damage v wid x y w h polling s)"
| "src_step cx (DamageTimer, v) s = (if rs_timer s = None then s else snd (process_damage_timer v s))"
| "src_step cx (EncodeTurn, v) s = snd (encode_turn cx v s)"
| "src_step cx (SendCursor c, v) s = snd (send_cursor v c s)"
| "src_step cx (UpdateMouse x y, v) s = snd (update_mouse v x y s)"
| "src_step cx (DesktopSize w h, v) s = snd (updated_desktop_size v w h s)"
| "src_step cx (SendClipboard text, v) s = snd (send_clipboard v text s)"
| "src_step cx (Bell, v) s = bell v s"
| "src_step cx (CloseSource, v) s = close_source s"

definition settings_ok :: "rfb_source \<Rightarrow> bool" where
  "settings_ok s \<longleftrightarrow>
     0 \<le> rs_quality s \<and> rs_quality s \<le> 100 \<and> 0 \<le> rs_speed s \<and> rs_speed s \<le> 100 \<and>
     set (rs_encodings s) \<subseteq> set rfb_encoding_values \<and> 10 \<le> rs_delay s \<and> rs_delay s \<le> 100"

fun is_job :: "'j option \<Rightarrow> bool" where
  "is_job None = False"
| "is_job (Some j) = True"

definition damage_ok :: "rfb_source \<Rightarrow> bool" where
  "damage_ok s \<longleftrightarrow>
     (rs_closed s \<longrightarrow> rs_rects s = [] \<and> rs_timer s = None) \<and> (rs_rects s \<noteq> [] \<longrightarrow> rs_timer s \<noteq> None) \<and>
     apart_rects (rs_rects s) \<and> list_all wf_rect (rs_rects s) \<and>
     length (filter is_job (rs_queue s)) \<le> RFB_ENCODE_QUEUE_MAX_SIZE"

lemma damage_ok_fields [simp]:
  "damage_ok (s\<lparr>rs_encodings := es\<rparr>) = damage_ok s" "damage_ok (s\<lparr>rs_quality := q\<rparr>) = damage_ok s"
  "damage_ok (s\<lparr>rs_speed := q\<rparr>) = damage_ok s" "damage_ok (s\<lparr>rs_format := pf\<rparr>) = damage_ok s"
  "damage_ok (s\<lparr>rs_generation := g\<rparr>) = damage_ok s" "damage_ok (s\<lparr>rs_cursor := c\<rparr>) = damage_ok s"
  "damage_ok (s\<lparr>rs_zlib := z\<rparr>) = damage_ok s" "damage_ok (s\<lparr>rs_continuous := b\<rparr>) = damage_ok s"
  "damage_ok (s\<lparr>rs_cu_rect := r\<rparr>) = damage_ok s" "damage_ok (s\<lparr>rs_pending := r\<rparr>) = damage_ok s"
  "damage_ok (s\<lparr>rs_pointer := p\<rparr>) = damage_ok s" "damage_ok (s\<lparr>rs_delay := d\<rparr>) = damage_ok s"
  "damage_ok (s\<lparr>rs_clip := cl\<rparr>) = damage_ok s" "damage_ok (s\<lparr>rs_out := out\<rparr>) = damage_ok s"
  by (simp_all add: damage_ok_def)

lemma settings_ok_fields [simp]:
  "settings_ok (s\<lparr>rs_format := pf\<rparr>) = settings_ok s" "settings_ok (s\<lparr>rs_generation := g\<rparr>) = settings_ok s"
  "settings_ok (s\<lparr>rs_cursor := c\<rparr>) = settings_ok s" "settings_ok (s\<lparr>rs_zlib := z\<rparr>) = settings_ok s"
  "settings_ok (s\<lparr>rs_continuous := b\<rparr>) = settings_ok s" "settings_ok (s\<lparr>rs_cu_rect := r\<rparr>) = settings_ok s"
  "settings_ok (s\<lparr>rs_pending := r\<rparr>) = settings_ok s" "settings_ok (s\<lparr>rs_pointer := p\<rparr>) = settings_ok s"
  "settings_ok (s\<lparr>rs_timer := t\<rparr>) = settings_ok s" "settings_ok (s\<lparr>rs_rects := rs\<rparr>) = settings_ok s"
  "settings_ok (s\<lparr>rs_clip := cl\<rparr>) = settings_ok s" "settings_ok (s\<lparr>rs_wid := wid\<rparr>) = settings_ok s"
  "settings_ok (s\<lparr>rs_window := b\<rparr>) = settings_ok s" "settings_ok (s\<lparr>rs_queue := q\<rparr>) = settings_ok s"
  "settings_ok (s\<lparr>rs_closed := b\<rparr>) = settings_ok s" "settings_ok (s\<lparr>rs_out := out\<rparr>) = settings_ok s"
  by (simp_all add: settings_ok_def)

definition src_ok :: "rfb_source \<Rightarrow> bool" where
  "src_ok s \<longleftrightarrow> settings_ok s \<and> damage_ok s"

text \<open>Steps that only send, or that feed the compressor.\<close>

lemma send_msg_ok [simp]: "damage_ok (send_msg v m s) = damage_ok s" "settings_ok (send_msg v m s) = settings_ok s"
  by (simp_all add: send_msg_def)

lemma send_many_ok [simp]: "damage_ok (send_many v ps s) = damage_ok s" "settings_ok (send_many v ps s) = settings_ok s"
proof -
  have "damage_ok (fold (send_msg v) ms s) = damage_ok s \<and> settings_ok (fold (send_msg v) ms s) = settings_ok s" for ms
    by (induction ms arbitrary: s) simp_all
  then show "damage_ok (send_many v ps s) = damage_ok s" "settings_ok (send_many v ps s) = settings_ok s"
    by (simp_all add: send_many_def)
qed

lemma encode_region_only: "encode_region cx r s = (res, s') \<Longrightarrow> \<exists>z. s' = s\<lparr>rs_zlib := z\<rparr>"
  by (auto simp: encode_region_def Let_def split: if_splits prod.splits intro: exI [of _ "rs_zlib s"])

lemma encode_each_only: "encode_each cx rs s = (res, s') \<Longrightarrow> \<exists>z. s' = s\<lparr>rs_zlib := z\<rparr>"
proof (induction rs arbitrary: s res s')
  case (Cons r rs)
  obtain r1 s1 where s1: "encode_region cx r s = (r1, s1)" by fastforce
  obtain r2 s2 where s2: "encode_each cx rs s1 = (r2, s2)" by fastforce
  obtain z where z: "s1 = s\<lparr>rs_zlib := z\<rparr>" using encode_region_only [OF s1] by blast
  with Cons.IH [OF s2] Cons.prems s1 s2 show ?case by (cases r1; cases r2) auto
next
  case Nil
  then show ?case by (intro exI [of _ "rs_zlib s"]) simp
qed

lemma encode_regions_ok: "encode_regions cx v rs s = (res, s') \<Longrightarrow> damage_ok s' = damage_ok s \<and> settings_ok s' = settings_ok s"
  by (auto simp: encode_regions_def dest!: encode_each_only split: if_splits sum.splits prod.splits)

section \<open>Steps\<close>

lemma ninths_pct_bounds: "0 \<le> cap_pct v \<and> cap_pct v \<le> 100"
  by (simp add: cap_pct_def)

lemma set_encoding_ok: "damage_ok (set_encoding v s) = damage_ok s" "settings_ok s \<Longrightarrow> settings_ok (set_encoding v s)"
  using ninths_pct_bounds by (simp_all add: settings_ok_def rfb_level_to_pct_def rfb_compression_level_to_speed_def)

lemma set_encodings_ok: "src_ok s \<Longrightarrow> src_ok (set_encodings es s)"
proof -
  assume "src_ok s"
  then have "src_ok (s\<lparr>rs_encodings := []\<rparr>)" by (simp add: src_ok_def settings_ok_def)
  moreover have "src_ok t \<Longrightarrow> src_ok (fold set_encoding es t)" for t
    by (induction es arbitrary: t) (simp_all add: src_ok_def set_encoding_ok del: set_encoding.simps)
  ultimately show ?thesis by (simp add: set_encodings_def)
qed

lemma settings_steps_ok:
  "src_ok s \<Longrightarrow> src_ok (set_refresh_rate rate s)" "src_ok s \<Longrightarrow> src_ok (set_pixel_format pf s)"
  "src_ok s \<Longrightarrow> src_ok (set_continuous_updates v b x y w h s)" "src_ok s \<Longrightarrow> src_ok (request_update x y w h s)"
  "src_ok s \<Longrightarrow> src_ok (close_source s)" "src_ok s \<Longrightarrow> src_ok (bell v s)"
proof -
  show "src_ok s \<Longrightarrow> src_ok (set_refresh_rate rate s)"
    by (simp add: src_ok_def set_refresh_rate_def)
      (simp add: settings_ok_def RFB_DAMAGE_DELAY_def RFB_DAMAGE_DELAY_MIN_def RFB_DAMAGE_DELAY_MAX_def)
  show "src_ok s \<Longrightarrow> src_ok (close_source s)"
    by (simp add: src_ok_def close_source_def) (auto simp: damage_ok_def)
qed (auto simp: src_ok_def set_pixel_format_def set_continuous_updates_def request_update_def bell_def Let_def
    split: option.splits prod.splits)

lemma sending_steps_ok:
  "src_ok s \<Longrightarrow> src_ok (snd (send_cursor v c s))" "src_ok s \<Longrightarrow> src_ok (snd (update_mouse v x y s))"
  "src_ok s \<Longrightarrow> src_ok (snd (updated_desktop_size v w h s))" "src_ok s \<Longrightarrow> src_ok (snd (send_clipboard v text s))"
  by (auto simp: src_ok_def send_cursor_def update_mouse_def updated_desktop_size_def send_clipboard_def Let_def
      split: option.splits sum.splits prod.splits)

lemma schedule_damage_ok:
  assumes "settings_ok s" "\<not> rs_closed s" "apart_rects (rs_rects s)" "list_all wf_rect (rs_rects s)"
    "length (filter is_job (rs_queue s)) \<le> RFB_ENCODE_QUEUE_MAX_SIZE"
  shows "src_ok (schedule_damage s)"
  using assms by (auto simp: src_ok_def schedule_damage_def damage_ok_def)

lemma add_damage_rectangle_ok:
  assumes "src_ok s" "\<not> rs_closed s"
  shows "src_ok (add_damage_rectangle wid region s)"
proof (cases "r_width region \<le> 0 \<or> r_height region \<le> 0")
  case True
  with assms show ?thesis by (simp add: add_damage_rectangle_def)
next
  case False
  then have "wf_rect region" by (simp add: wf_rect_def)
  with assms have a: "adds (pixels region) (rs_rects s) (fst (add_rectangle region (rs_rects s))) (snd (add_rectangle region (rs_rects s)))"
    by (intro add_rectangle_adds) (simp_all add: src_ok_def damage_ok_def)
  let ?s = "s\<lparr>rs_rects := snd (add_rectangle region (rs_rects s)), rs_wid := wid, rs_window := True\<rparr>"
  have ok: "settings_ok ?s" "\<not> rs_closed ?s" "apart_rects (rs_rects ?s)" "list_all wf_rect (rs_rects ?s)"
    "length (filter is_job (rs_queue ?s)) \<le> RFB_ENCODE_QUEUE_MAX_SIZE"
    using assms a by (simp_all add: src_ok_def damage_ok_def adds_def)
  have "src_ok ?s" if "rs_rects s \<noteq> []"
    using that assms ok by (simp add: src_ok_def damage_ok_def)
  with False schedule_damage_ok [OF ok] show ?thesis by (cases "rs_rects s = []") (simp_all add: add_damage_rectangle_def Let_def)
qed

lemma add_damage_clip_ok: "src_ok s \<Longrightarrow> add_damage_clip c s = (r, s') \<Longrightarrow> src_ok s' \<and> rs_closed s' = rs_closed s"
  by (auto simp: add_damage_clip_def src_ok_def split: option.splits sum.splits)

lemma take_request_ok:
  assumes "src_ok s" "take_request s = (r, s')"
  shows "src_ok s' \<and> rs_closed s' = rs_closed s"
proof -
  have "src_ok (t\<lparr>rs_pending := None\<rparr>) = src_ok t" for t by (simp add: src_ok_def)
  then show ?thesis
    using assms by (auto simp: take_request_def dest: add_damage_clip_ok split: option.splits sum.splits prod.splits)
qed

lemma damage_within_ok: "src_ok s \<Longrightarrow> \<not> rs_closed s \<Longrightarrow> src_ok (damage_within wid region clip s)"
  by (simp add: damage_within_def add_damage_rectangle_ok split: option.splits)

lemma damage_step_ok:
  assumes "src_ok s"
  shows "src_ok (snd (damage v wid x y w h polling s))"
proof (cases "(polling \<and> has_backlog v s) \<or> rs_closed s")
  case True
  with assms show ?thesis by (auto simp: damage_def)
next
  case gate: False
  show ?thesis
  proof (cases "new_rectangle x y w h")
    case (Inl e)
    with assms gate show ?thesis by (simp add: damage_def)
  next
    case (Inr region)
    have "src_ok (s\<lparr>rs_clip := c\<rparr>)" for c using assms by (simp add: src_ok_def)
    then have clip: "src_ok (add_damage_rectangle wid region (s\<lparr>rs_clip := c\<rparr>))" for c
      using gate by (intro add_damage_rectangle_ok) simp_all
    obtain r t where t: "take_request s = (r, t)" by fastforce
    have "src_ok t" "\<not> rs_closed t" using take_request_ok [OF assms t] gate by simp_all
    then show ?thesis
      using assms gate Inr clip damage_within_ok add_damage_rectangle_ok [OF assms]
      by (simp add: damage_def t split: sum.splits)
  qed
qed

lemma send_regions_ok:
  assumes "src_ok s" "length (rs_queue s) < RFB_ENCODE_QUEUE_MAX_SIZE"
  shows "src_ok (snd (send_regions v wid rs s))"
proof -
  have "length (filter is_job (rs_queue s)) < RFB_ENCODE_QUEUE_MAX_SIZE"
    using length_filter_le assms(2) by (rule le_less_trans)
  with assms have "damage_ok (s\<lparr>rs_queue := rs_queue s @ [Some item]\<rparr>)" for item
    by (simp add: damage_ok_def src_ok_def)
  with assms show ?thesis
    by (auto simp: send_regions_def Let_def src_ok_def split: sum.splits prod.splits if_splits)
qed

lemma timer_step_ok:
  assumes "src_ok s"
  shows "src_ok (snd (process_damage_timer v s))"
proof -
  let ?s = "s\<lparr>rs_timer := None\<rparr>"
  have p: "settings_ok ?s" "apart_rects (rs_rects ?s)" "list_all wf_rect (rs_rects ?s)"
    "length (filter is_job (rs_queue ?s)) \<le> RFB_ENCODE_QUEUE_MAX_SIZE" "rs_closed ?s \<longrightarrow> rs_rects ?s = []"
    using assms by (simp_all add: src_ok_def damage_ok_def)
  have emptied: "src_ok (?s\<lparr>rs_rects := [], rs_clip := None, rs_window := False\<rparr>)"
    using p by (simp add: src_ok_def damage_ok_def)
  consider "rs_closed ?s \<or> rs_rects ?s = []" | "\<not> rs_closed ?s" "rs_rects ?s \<noteq> []" "\<not> rv_protocol v"
    | "\<not> rs_closed ?s" "rs_rects ?s \<noteq> []" "rv_protocol v" "has_backlog v ?s"
    | "\<not> rs_closed ?s" "rs_rects ?s \<noteq> []" "rv_protocol v" "\<not> has_backlog v ?s" by blast
  then show ?thesis
  proof cases
    case 1
    with p have "src_ok ?s" by (auto simp: src_ok_def damage_ok_def)
    with 1 show ?thesis by (auto simp: process_damage_timer_def process_damage_def)
  next
    case 2
    with emptied show ?thesis by (simp add: process_damage_timer_def process_damage_def)
  next
    case 3
    with schedule_damage_ok [OF p(1) 3(1) p(2,3,4)] show ?thesis by (simp add: process_damage_timer_def process_damage_def)
  next
    case 4
    with send_regions_ok [OF emptied] show ?thesis
      by (simp add: process_damage_timer_def process_damage_def has_backlog_def)
  qed
qed

lemma encode_turn_ok:
  assumes "src_ok s"
  shows "src_ok (snd (encode_turn cx v s))"
proof (cases "rs_queue s")
  case (Cons item q)
  have "src_ok (s\<lparr>rs_queue := q\<rparr>)"
    using assms Cons by (auto simp: src_ok_def damage_ok_def split: if_splits)
  then have "src_ok (snd (encode_regions cx v regions (s\<lparr>rs_queue := q\<rparr>)))" for regions
    using encode_regions_ok [of cx v regions "s\<lparr>rs_queue := q\<rparr>"] unfolding src_ok_def by (metis prod.collapse)
  with \<open>src_ok (s\<lparr>rs_queue := q\<rparr>)\<close> show ?thesis
    using Cons by (simp add: encode_turn_def Let_def split: option.splits prod.splits)
qed (use assms in \<open>simp add: encode_turn_def\<close>)

lemma src_step_ok: "src_ok s \<Longrightarrow> src_ok (src_step cx (op, v) s)"
  by (cases op) (simp_all add: set_encodings_ok settings_steps_ok sending_steps_ok damage_step_ok timer_step_ok encode_turn_ok)

lemma new_source_ok: "src_ok new_source"
  by (simp add: src_ok_def settings_ok_def damage_ok_def new_source_def rfb_encoding_values_def RAW_def RFB_DAMAGE_DELAY_def)

text \<open>
  Whatever a VNC client asks for and whatever happens to the window, the source never holds damage
  without a timer that will process it, keeps the damaged rectangles apart, has at most two updates
  waiting to be encoded, and its settings are in their ranges.
\<close>

theorem source_invariant: "src_ok (fold (src_step cx) ops new_source)"
proof -
  have "src_ok s \<Longrightarrow> src_ok (fold (src_step cx) ops s)" for s
    by (induction ops arbitrary: s) (auto intro: src_step_ok)
  then show ?thesis by (simp add: new_source_ok)
qed

section \<open>Damage is served\<close>

definition region_rect :: "enc_region \<Rightarrow> rectangle" where
  "region_rect r = rect (er_x r) (er_y r) (er_w r) (er_h r)"

text \<open>Damage that does not come from polling is all kept, together with what was there.\<close>

lemma damage_recorded:
  assumes "src_ok s" "\<not> rs_closed s" "0 \<le> w" "0 \<le> h" "damage v wid x y w h False s = (r, s')"
  shows "r = Inr () \<and> all_pixels (rs_rects s') = all_pixels (rs_rects s) \<union> pixels (rect x y w h)"
proof -
  have a: "all_pixels (snd (add_rectangle q (rs_rects s))) = all_pixels (rs_rects s) \<union> pixels q" if "wf_rect q" for q
    using add_rectangle_adds [OF that] assms(1) by (simp add: src_ok_def damage_ok_def adds_def)
  have "all_pixels (rs_rects (add_damage_rectangle wid (rect x y w h) t)) = all_pixels (rs_rects s) \<union> pixels (rect x y w h)"
    if "rs_rects t = rs_rects s" for t
    using that a [of "rect x y w h"] assms(3,4)
    by (auto simp: add_damage_rectangle_def schedule_damage_def Let_def wf_rect_def in_pixels)
  then show ?thesis
    using assms(2-5) by (auto simp: damage_def new_rectangle_def split: if_splits)
qed

lemma grab_regions:
  assumes "\<forall>x y w h. rv_image v x y w h \<noteq> None"
  shows "map region_rect (concat (map (grab_region v s) rs)) = rs"
proof (induction rs)
  case (Cons r rs)
  obtain img where "rv_image v (r_x r) (r_y r) (r_width r) (r_height r) = Some img" using assms by fastforce
  with Cons show ?case by (simp add: grab_region_def region_rect_def)
qed simp

lemma timer_serves:
  assumes s: "src_ok s" "\<not> rs_closed s" "rs_rects s \<noteq> []" "rv_protocol v" "\<not> has_backlog v s"
    and v: "rv_dimensions v = Some (ww, wh)" "0 < ww" "0 < wh" "\<forall>x y w h. rv_image v x y w h \<noteq> None"
  shows "\<exists>s' regions. process_damage_timer v s = (Inr (), s') \<and> rs_rects s' = [] \<and>
    rs_queue s' = rs_queue s @ [Some (rs_generation s, rs_wid s, regions)] \<and>
    all_pixels (rs_rects s) \<inter> pixels (rect 0 0 ww wh) \<subseteq> all_pixels (map region_rect regions)"
proof -
  obtain qs where qs: "choose_regions ww wh (rs_rects s) = Inr qs" "qs \<noteq> []"
    using choose_regions_total [of "rs_rects s" ww wh] s(1,3) by (auto simp: src_ok_def damage_ok_def)
  have b: "\<not> has_backlog v (s\<lparr>rs_timer := None\<rparr>)" using s(5) by (simp add: has_backlog_def)
  let ?t = "s\<lparr>rs_timer := None, rs_rects := [], rs_clip := None, rs_window := False\<rparr>"
  let ?regions = "concat (map (grab_region v ?t) qs)"
  have m: "map region_rect ?regions = qs" by (rule grab_regions [OF v(4)])
  then have ne: "?regions \<noteq> []" using qs(2) by (metis list.simps(8))
  have "process_damage_timer v s = send_regions v (rs_wid s) (rs_rects s) ?t"
    using s b by (simp add: process_damage_timer_def process_damage_def)
  also have "\<dots> = (Inr (), ?t\<lparr>rs_queue := rs_queue s @ [Some (rs_generation s, rs_wid s, ?regions)]\<rparr>)"
    using v qs ne unfolding send_regions_def get_window_dimensions_def
    by (simp add: Let_def del: concat_eq_Nil_conv)
  finally show ?thesis
    using choose_regions_covers [OF qs(1)] m by simp
qed

text \<open>
  Damage is served. While there is any, a timer is due; when it fires and the client keeps up, the
  next update to be encoded covers all of it that is inside the window, and when the client does not, the
  damage is kept and the timer is due again.
\<close>

theorem damage_served:
  assumes "src_ok s" "\<not> rs_closed s" "rs_rects s \<noteq> []" "rv_protocol v"
    and "rv_dimensions v = Some (ww, wh)" "0 < ww" "0 < wh" "\<forall>x y w h. rv_image v x y w h \<noteq> None"
  shows "rs_timer s \<noteq> None \<and>
    (\<exists>s'. process_damage_timer v s = (Inr (), s') \<and>
      (if has_backlog v s then rs_rects s' = rs_rects s \<and> rs_timer s' \<noteq> None
       else rs_rects s' = [] \<and>
         (\<exists>regions. rs_queue s' = rs_queue s @ [Some (rs_generation s, rs_wid s, regions)] \<and>
           all_pixels (rs_rects s) \<inter> pixels (rect 0 0 ww wh) \<subseteq> all_pixels (map region_rect regions))))"
proof -
  have t: "rs_timer s \<noteq> None" using assms(1,3) by (simp add: src_ok_def damage_ok_def)
  show ?thesis
  proof (cases "has_backlog v s")
    case True
    then have "has_backlog v (s\<lparr>rs_timer := None\<rparr>)" by (simp add: has_backlog_def)
    with True t assms show ?thesis by (simp add: process_damage_timer_def process_damage_def schedule_damage_def)
  next
    case False
    with t timer_serves [OF assms(1-4) False assms(5-8)] show ?thesis by auto
  qed
qed

definition toy_view :: rfb_view where
  "toy_view =
     \<lparr>rv_protocol = True, rv_queue_size = 0, rv_pending_bytes = 0, rv_dimensions = Some (100, 100),
      rv_image = (\<lambda>x y w h. Some (toy_image\<lparr>i_width := w, i_height := h, i_stride := w * 4, i_pixels := replicate (nat (w * h * 4)) 0\<rparr>))\<rparr>"

definition toy_source :: rfb_source where
  "toy_source = snd (damage toy_view 1 10 20 5 6 False new_source)"

theorem damage_served_witness:
  "rs_timer toy_source = Some 20 \<and>
   (\<exists>s' regions. process_damage_timer toy_view toy_source = (Inr (), s') \<and> rs_rects s' = [] \<and>
     rs_queue s' = [Some (0, 1, regions)] \<and>
     pixels (rect 10 20 5 6) \<inter> pixels (rect 0 0 100 100) \<subseteq> all_pixels (map region_rect regions))"
proof -
  have s: "rs_rects toy_source = [rect 10 20 5 6]" "rs_queue toy_source = []" "rs_generation toy_source = 0"
    "rs_wid toy_source = 1" "rs_timer toy_source = Some 20" "\<not> rs_closed toy_source" "\<not> has_backlog toy_view toy_source"
    by code_simp+
  have "src_ok toy_source" unfolding toy_source_def by (rule damage_step_ok [OF new_source_ok])
  from damage_served [OF this s(6), of toy_view 100 100] s show ?thesis by (auto simp: toy_view_def)
qed

section \<open>Updates are read back\<close>

text \<open>Joining small packets changes nothing of the stream, and makes no message too big.\<close>

lemma join_packets_concat: "concat (join_packets joined ps) = concat joined @ concat ps"
  by (induction joined ps rule: join_packets.induct) auto

lemma join_packets_bound:
  "int (length (concat joined)) \<le> PACKET_JOIN_BYTES \<Longrightarrow> m \<in> set (join_packets joined ps) \<Longrightarrow>
    int (length m) \<le> PACKET_JOIN_BYTES \<or> m \<in> set ps"
proof (induction joined ps rule: join_packets.induct)
  case (2 joined p ps)
  show ?case
  proof (cases "int (length (concat (joined @ [p]))) > PACKET_JOIN_BYTES")
    case True
    have "int (length (concat ([] :: bytes list))) \<le> PACKET_JOIN_BYTES" by (simp add: PACKET_JOIN_BYTES_def)
    with True 2 show ?thesis by (auto split: if_splits)
  next
    case False
    with 2 show ?thesis by auto
  qed
qed (auto split: if_splits)

lemma send_many_out: "rv_protocol v \<Longrightarrow> rs_out (send_many v ps s) = rs_out s @ join_packets [] ps"
proof -
  assume v: "rv_protocol v"
  have "rs_out (fold (send_msg v) ms s) = rs_out s @ ms" for ms
    using v by (induction ms arbitrary: s) (simp_all add: send_msg_def)
  then show ?thesis by (simp add: send_many_def)
qed

text \<open>What the client is to read for a region, and what the compressor has been given after it.\<close>

definition region_data :: "rfb_codecs \<Rightarrow> rfb_source \<Rightarrow> bytes list \<Rightarrow> enc_region \<Rightarrow> (rect_data \<times> bytes list) result" where
  "region_data cx s hist r =
     (if er_enc r = TIGHT_PNG then ebind (pillow_encode cx ''png'' (er_image r) 0 (rs_speed s)) (\<lambda>d. Inr (TightData 160 d, hist))
      else if er_enc r = TIGHT then
        ebind (pillow_encode cx ''jpeg'' (er_image r) (rs_quality s) (rs_speed s)) (\<lambda>d. Inr (TightData 144 d, hist))
      else
        ebind (raw_pixels (Some (er_image r))) (\<lambda>px.
          Inr (if er_enc r = ZLIB then (ZlibData (cx_zlib cx hist px), hist @ [px]) else (RawData px, hist))))"

fun regions_data :: "rfb_codecs \<Rightarrow> rfb_source \<Rightarrow> bytes list \<Rightarrow> enc_region list \<Rightarrow> (int list \<times> rect_data) list result" where
  "regions_data cx s hist [] = Inr []"
| "regions_data cx s hist (r # rs) =
     ebind (region_data cx s hist r) (\<lambda>(d, hist).
       ebind (regions_data cx s hist rs) (\<lambda>ds. Inr (([er_x r, er_y r, er_w r, er_h r, er_enc r], d) # ds)))"

text \<open>A region as the source makes it, of an image that has the size of the region.\<close>

definition region_ok :: "enc_region \<Rightarrow> bool" where
  "region_ok r \<longleftrightarrow>
     er_enc r \<in> {RAW, ZLIB, TIGHT, TIGHT_PNG} \<and> i_width (er_image r) = er_w r \<and> i_height (er_image r) = er_h r \<and>
     length (i_format (er_image r)) = 4"

lemma raw_pixels_length:
  assumes "raw_pixels (Some img) = Inr px" "0 \<le> i_width img" "0 \<le> i_height img"
  shows "int (length px) = int (length (i_format img)) * i_width img * i_height img"
proof -
  let ?n = "int (length (i_format img)) * i_width img * i_height img"
  obtain pixels where p: "?n \<le> int (length pixels)" "px = py_slice pixels 0 ?n"
    using assms(1) by (auto simp: raw_pixels_def Let_def ebind_eq_Inr split: if_splits prod.splits sum.splits)
  have "0 \<le> ?n" using assms(2,3) by simp
  with p show ?thesis using py_slice_nonneg [of 0 ?n pixels] by (simp add: nat_le_iff)
qed

lemma rect_header_read:
  assumes "rect_header enc x y w h = Inr b"
  shows "length b = 12" "unpack_fields [FH, FH, FH, FH, Fi] (b @ rest) = [x, y, w, h, enc]" "0 \<le> w" "0 \<le> h"
  using pack_fields_length [OF assms [unfolded rect_header_def]] unpack_pack_fields [OF assms [unfolded rect_header_def], of rest]
    assms
  by (auto simp: rect_header_def ebind_eq_Inr split: if_splits)

lemma read_data_all: "read_data (int (length d)) (d @ rest) = Some (d, rest)"
  by (simp add: read_data_def)

lemma make_header_split: "make_header enc x y w h = Inr b \<Longrightarrow> \<exists>rh. rect_header enc x y w h = Inr rh \<and> drop 4 b = rh \<and> length b = 16"
  using rect_header_read(1) by (fastforce simp: make_header_def ebind_eq_Inr)

lemma read_raw:
  assumes "rect_header RAW x y w h = Inr rh" "int (length d) = w * h * 4"
  shows "read_rect 4 (rh @ d @ rest) = Some (([x, y, w, h, RAW], RawData d), rest)"
proof -
  note rh = rect_header_read [OF assms(1)]
  show ?thesis
    using rh(1) rh(2) [of "d @ rest"] read_data_all [of d rest] assms(2)
    by (simp add: read_rect_def Let_def del: unpack_fields.simps)
qed

lemma read_zlib:
  assumes "rect_header ZLIB x y w h = Inr rh" "pack_fields [FI] [int (length d)] = Inr n"
  shows "read_rect 4 (rh @ n @ d @ rest) = Some (([x, y, w, h, ZLIB], ZlibData d), rest)"
proof -
  note rh = rect_header_read [OF assms(1)]
  have n: "length n = 4" "be_int n = int (length d)"
    using assms(2) pack_fields_length [OF assms(2)] by (auto simp: ebind_eq_Inr be_int_be_bytes split: if_splits)
  show ?thesis
    using rh(1) rh(2) [of "n @ d @ rest"] n read_data_all [of d rest]
    by (simp add: read_rect_def Let_def RAW_def ZLIB_def del: unpack_fields.simps)
qed

lemma read_tight:
  assumes "rect_header enc x y w h = Inr rh" "enc = TIGHT \<or> enc = TIGHT_PNG" "pack_fields [FB] [c] = Inr cb"
    "tight_length (int (length d)) = Inr l"
  shows "read_rect 4 (rh @ cb @ l @ d @ rest) = Some (([x, y, w, h, enc], TightData c d), rest)"
proof -
  note rh = rect_header_read [OF assms(1)]
  have cb: "cb = [word_of_int c]" "uint (word_of_int c :: byte) = c"
    using assms(3) by (auto simp: ebind_eq_Inr uint_byte split: if_splits)
  have "int (length d) < 4194303" using assms(4) by (simp add: tight_length_def split: if_splits)
  then have "read_tight_length (l @ d @ rest) = Some (int (length d), d @ rest)"
    using tight_length_read [of "int (length d)" "d @ rest"] assms(4) by auto
  then show ?thesis
    using rh(1) rh(2) [of "cb @ l @ d @ rest"] cb read_data_all [of d rest] assms(2)
    by (auto simp: read_rect_def Let_def RAW_def ZLIB_def TIGHT_def TIGHT_PNG_def simp del: unpack_fields.simps)
qed

lemma encode_region_read:
  assumes "encode_region cx r s = (Inr packets, s')" "region_ok r" "\<not> rs_closed s" "take 2 (rs_format s) = [32, 24]"
    and hist: "hist = (case rs_zlib s of None \<Rightarrow> [] | Some h \<Rightarrow> h)"
  shows "\<exists>p ps d hist'. packets = p # ps \<and> region_data cx s hist r = Inr (d, hist') \<and>
    s' = (if er_enc r = ZLIB then s\<lparr>rs_zlib := Some hist'\<rparr> else s) \<and> (er_enc r \<noteq> ZLIB \<longrightarrow> hist' = hist) \<and>
    (\<forall>rest. read_rect 4 (concat (drop 4 p # ps) @ rest) = Some (([er_x r, er_y r, er_w r, er_h r, er_enc r], d), rest))"
proof -
  let ?img = "er_image r"
  have ok: "i_width ?img = er_w r" "i_height ?img = er_h r" "length (i_format ?img) = 4"
    using assms(2) by (simp_all add: region_ok_def)
  consider "er_enc r = TIGHT_PNG" | "er_enc r = TIGHT" | "er_enc r = ZLIB" | "er_enc r = RAW"
    using assms(2) by (auto simp: region_ok_def)
  then show ?thesis
  proof cases
    case 1
    have e: "tight_png_image cx (Some ?img) (er_x r) (er_y r) (er_w r) (er_h r) (rs_speed s) = Inr packets" "s' = s"
      using assms(1) 1 assms(3,4) by (auto simp: encode_region_def Let_def)
    then obtain d hdr where d: "pillow_encode cx ''png'' ?img 0 (rs_speed s) = Inr d" "s' = s"
      "tight_header TIGHT_PNG (er_x r) (er_y r) (er_w r) (er_h r) 160 (int (length d)) = Inr hdr" "packets = [hdr, d]"
      by (auto simp: tight_png_image_def ebind_eq_Inr)
    from d(3) obtain hd cb l where h: "make_header TIGHT_PNG (er_x r) (er_y r) (er_w r) (er_h r) = Inr hd"
      "pack_fields [FB] [160] = Inr cb" "tight_length (int (length d)) = Inr l" "hdr = hd @ cb @ l"
      unfolding tight_header_def ebind_eq_Inr by blast
    obtain rh where rh: "rect_header TIGHT_PNG (er_x r) (er_y r) (er_w r) (er_h r) = Inr rh" "drop 4 hd = rh" "length hd = 16"
      using make_header_split [OF h(1)] by blast
    have "read_rect 4 (concat [drop 4 hdr, d] @ rest) = Some (([er_x r, er_y r, er_w r, er_h r, er_enc r], TightData 160 d), rest)" for rest
      using read_tight [OF rh(1) _ h(2,3), of rest] rh(2,3) h(4) 1 by simp
    then show ?thesis using 1 d by (simp add: region_data_def TIGHT_PNG_def ZLIB_def)
  next
    case 2
    have e: "tight_encode_image cx (Some ?img) (er_x r) (er_y r) (er_w r) (er_h r) (rs_quality s) (rs_speed s) = Inr packets" "s' = s"
      using assms(1) 2 assms(3,4) by (auto simp: encode_region_def Let_def TIGHT_def TIGHT_PNG_def)
    then obtain d hdr where d: "pillow_encode cx ''jpeg'' ?img (rs_quality s) (rs_speed s) = Inr d" "s' = s"
      "tight_header TIGHT (er_x r) (er_y r) (er_w r) (er_h r) 144 (int (length d)) = Inr hdr" "packets = [hdr, d]"
      by (auto simp: tight_encode_image_def ebind_eq_Inr)
    from d(3) obtain hd cb l where h: "make_header TIGHT (er_x r) (er_y r) (er_w r) (er_h r) = Inr hd"
      "pack_fields [FB] [144] = Inr cb" "tight_length (int (length d)) = Inr l" "hdr = hd @ cb @ l"
      unfolding tight_header_def ebind_eq_Inr by blast
    obtain rh where rh: "rect_header TIGHT (er_x r) (er_y r) (er_w r) (er_h r) = Inr rh" "drop 4 hd = rh" "length hd = 16"
      using make_header_split [OF h(1)] by blast
    have "read_rect 4 (concat [drop 4 hdr, d] @ rest) = Some (([er_x r, er_y r, er_w r, er_h r, er_enc r], TightData 144 d), rest)" for rest
      using read_tight [OF rh(1) _ h(2,3), of rest] rh(2,3) h(4) 2 by simp
    then show ?thesis using 2 d by (simp add: region_data_def TIGHT_PNG_def TIGHT_def ZLIB_def)
  next
    case 3
    have e: "encode_region cx r s =
        (case zlib_encode_image cx (Some ?img) (er_x r) (er_y r) (er_w r) (er_h r) hist of (res, h) \<Rightarrow> (res, s\<lparr>rs_zlib := Some h\<rparr>))"
      using 3 assms(3,4) hist by (simp add: encode_region_def Let_def TIGHT_PNG_def TIGHT_def ZLIB_def)
    obtain px where px: "raw_pixels (Some ?img) = Inr px"
      using assms(1) unfolding e by (auto simp: zlib_encode_image_def split: sum.splits)
    let ?d = "cx_zlib cx hist px"
    obtain hd n where h: "make_header ZLIB (er_x r) (er_y r) (er_w r) (er_h r) = Inr hd"
      "pack_fields [FI] [int (length ?d)] = Inr n" "packets = [hd @ n, ?d]" "s' = s\<lparr>rs_zlib := Some (hist @ [px])\<rparr>"
      using assms(1) px unfolding e by (auto simp: zlib_encode_image_def Let_def ebind_eq_Inr simp del: pack_fields.simps)
    obtain rh where rh: "rect_header ZLIB (er_x r) (er_y r) (er_w r) (er_h r) = Inr rh" "drop 4 hd = rh" "length hd = 16"
      using make_header_split [OF h(1)] by blast
    have "read_rect 4 (concat [drop 4 (hd @ n), ?d] @ rest) = Some (([er_x r, er_y r, er_w r, er_h r, er_enc r], ZlibData ?d), rest)" for rest
      using read_zlib [OF rh(1) h(2), of rest] rh(2,3) 3 by simp
    then show ?thesis using 3 px h(3,4) by (simp add: region_data_def TIGHT_PNG_def TIGHT_def ZLIB_def)
  next
    case 4
    have e: "raw_encode_image (Some ?img) (er_x r) (er_y r) (er_w r) (er_h r) = Inr packets" "s' = s"
      using assms(1) 4 assms(3,4) by (auto simp: encode_region_def Let_def RAW_def TIGHT_PNG_def TIGHT_def ZLIB_def)
    then obtain hd px where h: "make_header RAW (er_x r) (er_y r) (er_w r) (er_h r) = Inr hd"
      "raw_pixels (Some ?img) = Inr px" "packets = [hd, px]" "s' = s"
      by (auto simp: raw_encode_image_def ebind_eq_Inr)
    obtain rh where rh: "rect_header RAW (er_x r) (er_y r) (er_w r) (er_h r) = Inr rh" "drop 4 hd = rh"
      using make_header_split [OF h(1)] by blast
    have "int (length px) = er_w r * er_h r * 4"
      using raw_pixels_length [OF h(2)] rect_header_read(3,4) [OF rh(1)] ok by simp
    then have "read_rect 4 (concat [drop 4 hd, px] @ rest) = Some (([er_x r, er_y r, er_w r, er_h r, er_enc r], RawData px), rest)" for rest
      using read_raw [OF rh(1), of px rest] rh(2) 4 by simp
    then show ?thesis using 4 h(2-4) by (simp add: region_data_def RAW_def TIGHT_PNG_def TIGHT_def ZLIB_def)
  qed
qed

lemma region_data_cong:
  "rs_speed s' = rs_speed s \<Longrightarrow> rs_quality s' = rs_quality s \<Longrightarrow> regions_data cx s' hist rs = regions_data cx s hist rs"
  by (induction rs arbitrary: hist) (simp_all add: region_data_def)

lemma encode_each_read:
  assumes "encode_each cx rs s = (Inr es, s')" "list_all region_ok rs" "\<not> rs_closed s" "take 2 (rs_format s) = [32, 24]"
    and "hist = (case rs_zlib s of None \<Rightarrow> [] | Some h \<Rightarrow> h)"
  shows "\<exists>ds. regions_data cx s hist rs = Inr ds \<and> length es = length rs \<and>
    (\<forall>rest. read_rects 4 (length rs) (concat (concat es) @ rest) = Some (ds, rest))"
  using assms
proof (induction rs arbitrary: s es hist)
  case Nil
  then show ?case by simp
next
  case (Cons r rs)
  obtain packets s1 where p: "encode_region cx r s = (Inr packets, s1)"
    using Cons.prems(1) by (cases "encode_region cx r s") (auto split: sum.splits)
  obtain p ps d hist1 where r: "packets = p # ps" "region_data cx s hist r = Inr (d, hist1)"
    "s1 = (if er_enc r = ZLIB then s\<lparr>rs_zlib := Some hist1\<rparr> else s)" "er_enc r \<noteq> ZLIB \<longrightarrow> hist1 = hist"
    "\<And>rest. read_rect 4 (concat (drop 4 p # ps) @ rest) = Some (([er_x r, er_y r, er_w r, er_h r, er_enc r], d), rest)"
    using encode_region_read [OF p _ Cons.prems(3,4,5)] Cons.prems(2) by auto
  obtain es1 where e: "encode_each cx rs s1 = (Inr es1, s')" "es = (drop 4 p # ps) # es1"
    using Cons.prems(1) p r(1) by (auto split: prod.splits sum.splits)
  have "\<not> rs_closed s1" "take 2 (rs_format s1) = [32, 24]" "hist1 = (case rs_zlib s1 of None \<Rightarrow> [] | Some h \<Rightarrow> h)"
    using r(3,4) Cons.prems(3-5) by auto
  from Cons.IH [OF e(1) _ this] Cons.prems(2) obtain ds where ds: "regions_data cx s1 hist1 rs = Inr ds" "length es1 = length rs"
    "\<And>rest. read_rects 4 (length rs) (concat (concat es1) @ rest) = Some (ds, rest)" by auto
  have "regions_data cx s hist1 rs = Inr ds"
    using ds(1) r(3) region_data_cong [of s1 s cx hist1 rs] by (auto split: if_splits)
  moreover have "read_rects 4 (length (r # rs)) (concat (concat es) @ rest) =
      Some (([er_x r, er_y r, er_w r, er_h r, er_enc r], d) # ds, rest)" for rest
    using r(5) [of "concat (concat es1) @ rest"] ds(3) e(2) by simp
  ultimately show ?case using r(2) ds(2) e(2) by simp
qed

lemma encode_regions_read:
  assumes "encode_regions cx v rs s = (Inr (), s')" "list_all region_ok rs" "rs \<noteq> []" "\<not> rs_closed s" "rv_protocol v"
    "take 2 (rs_format s) = [32, 24]" "hist = (case rs_zlib s of None \<Rightarrow> [] | Some h \<Rightarrow> h)"
  shows "\<exists>msgs ds. rs_out s' = rs_out s @ msgs \<and> regions_data cx s hist rs = Inr ds \<and>
    read_update 4 (concat msgs) = Some (ds, [])"
proof -
  obtain es s1 where e: "encode_each cx rs s = (Inr es, s1)"
    using assms(1,4) by (cases "encode_each cx rs s") (auto simp: encode_regions_def split: sum.splits)
  from encode_each_read [OF e assms(2,4,6,7)] obtain ds where ds: "regions_data cx s hist rs = Inr ds" "length es = length rs"
    "\<And>rest. read_rects 4 (length rs) (concat (concat es) @ rest) = Some (ds, rest)" by blast
  have "es \<noteq> []" using ds(2) assms(3) by auto
  with assms(1,4) e obtain header where h: "pack_fields [FB, FB, FH] [0, 0, int (length es)] = Inr header"
    "s' = send_many v (header # concat es) s1"
    by (auto simp: encode_regions_def simp del: pack_fields.simps split: sum.splits)
  have n: "length header = 4" "header ! 0 = 0" "be_int (take 2 (drop 2 header)) = int (length es)"
    using pack_fields_length [OF h(1)] h(1) by (auto simp: ebind_eq_Inr be_int_be_bytes split: if_splits)
  have out: "rs_out s' = rs_out s @ join_packets [] (header # concat es)"
    using h(2) send_many_out [OF assms(5)] encode_each_only [OF e] by auto
  have "concat (join_packets [] (header # concat es)) = header @ concat (concat es) @ []"
    unfolding join_packets_concat by simp
  moreover have "read_update 4 (header @ concat (concat es) @ []) = Some (ds, [])"
    using n ds(2) ds(3) [of "[]"] by (simp add: read_update_def nth_append)
  ultimately show ?thesis using out ds(1) by auto
qed


definition toy_codecs :: rfb_codecs where
  "toy_codecs = \<lparr>cx_pillow = (\<lambda>encoding img quality speed. Inr [1, 2, 3]), cx_zlib = (\<lambda>hist px. of_nat (length hist) # px)\<rparr>"

definition toy_region :: "int \<Rightarrow> int \<Rightarrow> int \<Rightarrow> enc_region" where
  "toy_region w h enc = \<lparr>er_image = toy_image, er_x = 7, er_y = 8, er_w = w, er_h = h, er_enc = enc\<rparr>"

lemma toy_encoded:
  "fst (encode_regions toy_codecs toy_view [toy_region 2 2 RAW, toy_region 2 2 ZLIB, toy_region 2 2 TIGHT] new_source) = Inr ()"
  by code_simp


text \<open>Messages that were joined are at most as big as a packet that is read at once.\<close>

lemma update_messages_bound:
  "rv_protocol v \<Longrightarrow> m \<in> set (rs_out (send_many v ps s)) \<Longrightarrow> m \<in> set (rs_out s) \<or> m \<in> set ps \<or> int (length m) \<le> PACKET_JOIN_BYTES"
  using join_packets_bound [of "[]" m ps] by (auto simp: send_many_out PACKET_JOIN_BYTES_def)

section \<open>Updates that are not\<close>

text \<open>
  The window may give an image that is smaller than the region asked for, when a part of the region is
  outside; the header has the size of the region, and the client waits for pixels that never come.
\<close>

lemma clipped_image_starves:
  "fst (encode_regions toy_codecs toy_view [toy_region 3 2 RAW] new_source) = Inr ()"
  "read_update 4 (concat (rs_out (snd (encode_regions toy_codecs toy_view [toy_region 3 2 RAW] new_source)))) = None"
  by code_simp+

text \<open>With six bits for a pixel, the padding of the rows is converted as well, and sent.\<close>

lemma rgb222_sends_padding:
  "map_option snd (read_update 1 (concat (rs_out (snd (encode_regions toy_codecs toy_view [toy_region 2 2 RAW]
     (new_source\<lparr>rs_format := [8, 6, 0, 1, 3, 3, 3, 4, 2, 0]\<rparr>)))))) = Some [0]"
  by code_simp

text \<open>
  A picture that is too long for the tight encoding's length is an error for the whole update, after the
  compressor has been given the regions before it: the client's stream misses them from then on.
\<close>

lemma long_picture_breaks_zlib:
  assumes "encode_region cx r s = (Inr packets, s1)" "er_enc q = TIGHT_PNG" "take 2 (rs_format s1) = [32, 24]" "\<not> rs_closed s"
    "\<not> rs_closed s1" "pillow_encode cx ''png'' (er_image q) 0 (rs_speed s1) = Inr d" "4194303 \<le> length d"
  shows "\<exists>e. encode_regions cx v [r, q] s = (Inl e, s1)"
proof -
  have "tight_length (int (length d)) = Inl AssertionError" using assms(7) by (simp add: tight_length_def)
  then have "\<exists>e. tight_header TIGHT_PNG (er_x q) (er_y q) (er_w q) (er_h q) 160 (int (length d)) = Inl e"
    by (cases "make_header TIGHT_PNG (er_x q) (er_y q) (er_w q) (er_h q)") (simp_all add: tight_header_def)
  then obtain e where "tight_png_image cx (Some (er_image q)) (er_x q) (er_y q) (er_w q) (er_h q) (rs_speed s1) = Inl e"
    using assms(6) by (auto simp: tight_png_image_def)
  then have "encode_region cx q s1 = (Inl e, s1)"
    using assms(2,3,5) by (simp add: encode_region_def Let_def)
  with assms(1,4) show ?thesis by (simp add: encode_regions_def)
qed

end
