(* ===== verification/RFBServer.thy ===== *)
theory RFBServer
  imports RFBUpdates
begin

text \<open>
  The handlers of \<^verbatim>\<open>src/xpra/server/rfb/server.py\<close>: what a delivered message of a VNC client does to its
  source at once, and what it leaves to the user interface's thread. How a key is looked up in the
  keyboard's configuration belongs to the keyboard subsystem: the look-up is recorded.
\<close>

section \<open>Handlers\<close>

text \<open>What the user interface's thread is given to do: \<open>Draw\<close> is \<^verbatim>\<open>source.damage\<close>.\<close>

datatype rfb_task =
    Draw int int int int
  | DrawCursor
  | PointerTask int int int
  | KeyTask int int

record rfb_server =
  fs_readonly :: bool
  fs_source_readonly :: bool
  fs_pointer :: bool
  fs_keyboard :: bool
  fs_buttons :: int
  fs_tasks :: "rfb_task list"

definition later :: "rfb_task \<Rightarrow> rfb_server \<Rightarrow> rfb_server" where
  "later t sv = sv\<lparr>fs_tasks := fs_tasks sv @ [t]\<rparr>"

definition process_set_encodings :: "int list \<Rightarrow> rfb_server \<Rightarrow> rfb_source \<Rightarrow> rfb_server \<times> rfb_source" where
  "process_set_encodings encodings sv s =
     (let s = set_encodings encodings s in (if CURSOR \<in> set (rs_encodings s) then later DrawCursor sv else sv, s))"

definition process_set_pixel_format :: "int list \<Rightarrow> rfb_server \<Rightarrow> rfb_source \<Rightarrow> rfb_server \<times> rfb_source" where
  "process_set_pixel_format pf sv s =
     (let s = (set_pixel_format pf s)\<lparr>rs_cursor := None\<rparr>
      in (if CURSOR \<in> set (rs_encodings s) then later DrawCursor sv else sv, s))"

definition process_update_request ::
  "int \<Rightarrow> int \<Rightarrow> int \<Rightarrow> int \<Rightarrow> int \<Rightarrow> rfb_server \<Rightarrow> rfb_source \<Rightarrow> rfb_server \<times> rfb_source" where
  "process_update_request inc x y w h sv s =
     (if inc = 0 then (later (Draw x y w h) sv, s\<lparr>rs_pending := None\<rparr>) else (sv, request_update x y w h s))"

definition process_pointer :: "int \<Rightarrow> int \<Rightarrow> int \<Rightarrow> rfb_server \<Rightarrow> rfb_server" where
  "process_pointer buttons x y sv =
     (if \<not> fs_pointer sv \<or> fs_readonly sv \<or> fs_source_readonly sv then sv else later (PointerTask buttons x y) sv)"

definition process_key :: "int \<Rightarrow> int \<Rightarrow> rfb_server \<Rightarrow> rfb_server" where
  "process_key pressed key sv =
     (if \<not> fs_keyboard sv \<or> fs_readonly sv \<or> fs_source_readonly sv then sv else later (KeyTask pressed key) sv)"

text \<open>\<^verbatim>\<open>process_rfb_packet\<close>: the handler by the name of the type; there is none for the other types.\<close>

definition process_rfb_packet ::
  "rfb_view \<Rightarrow> rfb_packet \<Rightarrow> rfb_server \<Rightarrow> rfb_source \<Rightarrow> rfb_server \<times> rfb_source" where
  "process_rfb_packet v pkt sv s =
     (case pkt of RfbPacket t vs x \<Rightarrow>
        if t = 0 then process_set_pixel_format (take 10 (drop 3 vs)) sv s
        else if t = 2 then (case x of Encodings es \<Rightarrow> process_set_encodings es sv s | _ \<Rightarrow> (sv, s))
        else if t = 3 then process_update_request (vs ! 0) (vs ! 1) (vs ! 2) (vs ! 3) (vs ! 4) sv s
        else if t = 4 then (process_key (vs ! 0) (vs ! 3) sv, s)
        else if t = 5 then (process_pointer (vs ! 0) (vs ! 1) (vs ! 2) sv, s)
        else if t = 150 then (sv, set_continuous_updates v (vs ! 0 \<noteq> 0) (vs ! 1) (vs ! 2) (vs ! 3) (vs ! 4) s)
        else (sv, s))"

section \<open>Pointer buttons\<close>

text \<open>The buttons that have changed, from the first to the eighth, and whether they are pressed now.\<close>

definition changed_buttons :: "int \<Rightarrow> int \<Rightarrow> (nat \<times> bool) list" where
  "changed_buttons old buttons =
     concat (map (\<lambda>b. if buttons AND 2 ^ b \<noteq> old AND 2 ^ b then [(1 + b, buttons AND 2 ^ b \<noteq> 0)] else []) [0..<8])"

definition process_pointer_event :: "int \<Rightarrow> rfb_server \<Rightarrow> (nat \<times> bool) list \<times> rfb_server" where
  "process_pointer_event buttons sv =
     (if buttons \<noteq> fs_buttons sv then (changed_buttons (fs_buttons sv) buttons, sv\<lparr>fs_buttons := buttons\<rparr>) else ([], sv))"

fun press_button :: "nat \<times> bool \<Rightarrow> nat set \<Rightarrow> nat set" where
  "press_button (b, pressed) held = (if pressed then insert b held else held - {b})"

definition held_buttons :: "int \<Rightarrow> nat set" where
  "held_buttons buttons = {b. 1 \<le> b \<and> b \<le> 8 \<and> bit buttons (b - 1)}"

text \<open>All the pointer events, one after the other: the buttons that the display server holds.\<close>

fun pointer_events :: "int list \<Rightarrow> rfb_server \<Rightarrow> nat set \<Rightarrow> rfb_server \<times> nat set" where
  "pointer_events [] sv held = (sv, held)"
| "pointer_events (b # bs) sv held =
     (let (changes, sv) = process_pointer_event b sv in pointer_events bs sv (fold press_button changes held))"

lemma and_bit: "(n :: int) AND 2 ^ b = (if bit n b then 2 ^ b else 0)"
  by (rule bit_eqI) (auto simp: bit_simps)

lemma changed_buttons_bits:
  "changed_buttons old buttons =
     concat (map (\<lambda>b. if bit buttons b \<noteq> bit old b then [(1 + b, bit buttons b)] else []) [0..<8])"
  unfolding changed_buttons_def and_bit by (intro arg_cong [where f = concat] map_cong) auto

definition changes_upto :: "int \<Rightarrow> int \<Rightarrow> nat \<Rightarrow> (nat \<times> bool) list" where
  "changes_upto old buttons n = concat (map (\<lambda>b. if bit buttons b \<noteq> bit old b then [(1 + b, bit buttons b)] else []) [0..<n])"

lemma press_changes:
  "n \<le> 8 \<Longrightarrow> fold press_button (changes_upto old buttons n) (held_buttons old) =
    {b. 1 \<le> b \<and> b \<le> 8 \<and> (if b \<le> n then bit buttons (b - 1) else bit old (b - 1))}"
proof (induction n)
  case 0
  show ?case by (auto simp: held_buttons_def changes_upto_def)
next
  case (Suc n)
  let ?held = "{b. 1 \<le> b \<and> b \<le> 8 \<and> (if b \<le> n then bit buttons (b - 1) else bit old (b - 1))}"
  let ?c = "if bit buttons n \<noteq> bit old n then [(1 + n, bit buttons n)] else []"
  have "changes_upto old buttons (Suc n) = changes_upto old buttons n @ ?c" by (simp add: changes_upto_def)
  then have "fold press_button (changes_upto old buttons (Suc n)) (held_buttons old) = fold press_button ?c ?held"
    using Suc by simp
  moreover have "b \<in> fold press_button ?c ?held \<longleftrightarrow>
      1 \<le> b \<and> b \<le> 8 \<and> (if b \<le> Suc n then bit buttons (b - 1) else bit old (b - 1))" for b
    using Suc.prems by (cases "b = Suc n") (auto simp: le_Suc_eq)
  ultimately show ?case by blast
qed

lemma pointer_event_held:
  assumes "process_pointer_event buttons sv = (changes, sv')"
  shows "fold press_button changes (held_buttons (fs_buttons sv)) = held_buttons buttons \<and> fs_buttons sv' = buttons"
proof -
  have "changed_buttons (fs_buttons sv) buttons = changes_upto (fs_buttons sv) buttons 8"
    unfolding changed_buttons_bits changes_upto_def ..
  moreover have "fold press_button (changes_upto (fs_buttons sv) buttons 8) (held_buttons (fs_buttons sv)) = held_buttons buttons"
    unfolding press_changes [OF order_refl] unfolding held_buttons_def by (rule Collect_cong) auto
  ultimately show ?thesis using assms by (auto simp: process_pointer_event_def split: if_splits)
qed

text \<open>
  The buttons that are held on the server are, after every pointer event, exactly those whose bits the
  event has set, whatever events came before.
\<close>

theorem pointer_buttons_follow:
  "snd (pointer_events (bs @ [b]) sv (held_buttons (fs_buttons sv))) = held_buttons b"
proof (induction bs arbitrary: sv)
  case Nil
  obtain changes sv' where "process_pointer_event b sv = (changes, sv')" by fastforce
  with pointer_event_held [OF this] show ?case by simp
next
  case (Cons c bs)
  obtain changes sv' where e: "process_pointer_event c sv = (changes, sv')" by fastforce
  with pointer_event_held [OF e] Cons.IH [of sv'] show ?case by simp
qed

section \<open>Update requests\<close>

text \<open>The tasks of the user interface's thread that concern a source.\<close>

fun run_task :: "rfb_view \<Rightarrow> int \<Rightarrow> (int list \<times> bytes) option \<Rightarrow> rfb_task \<Rightarrow> rfb_source \<Rightarrow> rfb_source" where
  "run_task v wid cursor (Draw x y w h) s = snd (damage v wid x y w h False s)"
| "run_task v wid cursor DrawCursor s = snd (send_cursor v cursor s)"
| "run_task v wid cursor _ s = s"



end
