(* ===== verification/WindowState.thy ===== *)
theory WindowState
  imports Complex_Main Rectangles Images
begin

text \<open>
  The state of a \<^verbatim>\<open>WindowSource\<close> (\<^verbatim>\<open>src/xpra/server/window/compress.py\<close>), which collects the damage of one
  window for one client and sends it when the client keeps up, with the parts of its batch configuration
  (\<^verbatim>\<open>batch_config.py\<close>) and statistics (\<^verbatim>\<open>perfstats.py\<close>) that decide when. Times are seconds; where the code
  has floating point numbers, these are exact fractions. The clock stands still during an operation.
  The constants have their default values.
\<close>

section \<open>Numbers\<close>

text \<open>\<^verbatim>\<open>int()\<close> of a number cuts its fraction off.\<close>

definition to_int :: "rat \<Rightarrow> int" where
  "to_int r = (if r < 0 then \<lceil>r\<rceil> else \<lfloor>r\<rfloor>)"

definition ms_between :: "rat \<Rightarrow> rat \<Rightarrow> int" where
  "ms_between t0 t1 = to_int (1000 * (t1 - t0))"

text \<open>Appending to a \<^verbatim>\<open>deque\<close> with a \<^verbatim>\<open>maxlen\<close>.\<close>

definition push_max :: "nat \<Rightarrow> 'a list \<Rightarrow> 'a \<Rightarrow> 'a list" where
  "push_max n xs x = drop (Suc (length xs) - n) (xs @ [x])"

section \<open>Options\<close>

text \<open>
  The options of a screen update are a dictionary. \<open>num_opt\<close> is what \<^verbatim>\<open>get\<close> returns for the ones that are
  numbers or flags.
\<close>

datatype oval =
    OInt int
  | OBool bool
  | OStr string
  | OStrs "string list"
  | OPair int int
  | ORat rat

type_synonym options = "string \<Rightarrow> oval option"

definition num_opt :: "options \<Rightarrow> string \<Rightarrow> int \<Rightarrow> int" where
  "num_opt opts k d = (case opts k of Some (OInt i) \<Rightarrow> i | Some (OBool b) \<Rightarrow> of_bool b | _ \<Rightarrow> d)"

definition bool_opt :: "options \<Rightarrow> string \<Rightarrow> bool" where
  "bool_opt opts k = (num_opt opts k 0 \<noteq> 0)"

definition str_opt :: "options \<Rightarrow> string \<Rightarrow> string \<Rightarrow> string" where
  "str_opt opts k d = (case opts k of Some (OStr s) \<Rightarrow> s | _ \<Rightarrow> d)"

text \<open>The options of damage that is added to a region that is waiting.\<close>

definition merge_options :: "options \<Rightarrow> options \<Rightarrow> options" where
  "merge_options existing opts =
     (\<lambda>k. if k = ''override_options'' then existing k
          else case opts k of
            None \<Rightarrow> existing k
          | Some v \<Rightarrow> if bool_opt opts ''override_options'' \<or> existing k = None then Some v else existing k)"

record delayed =
  dr_time :: rat
  dr_encoding :: string
  dr_options :: options
  dr_regions :: "rectangle list"
  dr_expired :: bool

section \<open>Batch configuration and statistics\<close>

record batch =
  b_min_delay :: int
  b_max_delay :: int
  b_timeout_delay :: int
  b_expire_delay :: int
  b_delay :: int
  b_saved :: int
  b_locked :: bool
  b_last_event :: rat
  b_last_delays :: "(rat \<times> int) list"
  b_last_delay :: "(rat \<times> int) option"
  b_last_actual_delays :: "(rat \<times> int) list"
  b_last_actual_delay :: "(rat \<times> int) option"

definition START_DELAY :: int where "START_DELAY = 50"
definition TIMEOUT_DELAY :: int where "TIMEOUT_DELAY = 7500"

definition new_batch :: batch where
  "new_batch = \<lparr>b_min_delay = 16, b_max_delay = 500, b_timeout_delay = TIMEOUT_DELAY, b_expire_delay = 250,
     b_delay = START_DELAY, b_saved = START_DELAY, b_locked = False, b_last_event = 0, b_last_delays = [],
     b_last_delay = None, b_last_actual_delays = [], b_last_actual_delay = None\<rparr>"

definition match_vrefresh :: "int \<Rightarrow> int \<Rightarrow> int \<Rightarrow> batch \<Rightarrow> batch" where
  "match_vrefresh min_vrefresh max_vrefresh vrefresh b =
     (if min_vrefresh \<le> vrefresh \<and> vrefresh \<le> max_vrefresh
      then b\<lparr>b_min_delay := max (b_min_delay b) (max 5 (1000 div vrefresh))\<rparr> else b)"

text \<open>A packet that the client has not acknowledged.\<close>

record ack =
  k_queued :: rat
  k_coding :: string
  k_pixels :: int
  k_bytes :: int
  k_frame :: int
  k_damage :: rat

record wstats =
  s_init_time :: rat
  s_decode_time :: "(rat \<times> int \<times> int) list"
  s_encoding_stats :: "(rat \<times> string \<times> int \<times> int \<times> int) list"
  s_in_latency :: "(rat \<times> int \<times> rat \<times> rat) list"
  s_ack_pending :: "(int \<times> ack) list"
  s_totals :: "(string \<times> int \<times> int) list"
  s_encoding_pending :: "(int \<times> rat \<times> int \<times> int) list"
  s_events :: "(rat \<times> int \<times> int \<times> int \<times> int) list"
  s_last_event :: rat
  s_events_count :: int
  s_packet_count :: int
  s_resize_events :: "rat list"
  s_last_resized :: rat
  s_last_packet :: rat
  s_target_latency :: rat

definition NRECS :: nat where "NRECS = 100"

definition new_stats :: "rat \<Rightarrow> wstats" where
  "new_stats now = \<lparr>s_init_time = now, s_decode_time = [], s_encoding_stats = [], s_in_latency = [], s_ack_pending = [],
     s_totals = [], s_encoding_pending = [], s_events = [], s_last_event = 0, s_events_count = 0, s_packet_count = 0,
     s_resize_events = [], s_last_resized = 0, s_last_packet = 0, s_target_latency = 1 / 10\<rparr>"

definition get_acks_pending :: "wstats \<Rightarrow> int" where
  "get_acks_pending s = int (length (filter (\<lambda>(_, k). k_queued k \<noteq> 0) (s_ack_pending s)))"

definition get_late_acks :: "rat \<Rightarrow> rat \<Rightarrow> wstats \<Rightarrow> int" where
  "get_late_acks now latency s = int (length (filter (\<lambda>(_, k). k_queued k \<le> now - latency) (s_ack_pending s)))"

definition get_pixels_encoding_backlog :: "wstats \<Rightarrow> int \<times> int" where
  "get_pixels_encoding_backlog s =
     (sum_list (map (\<lambda>(_, _, w, h). w * h) (s_encoding_pending s)), int (length (s_encoding_pending s)))"

definition get_bitrate :: "rat \<Rightarrow> rat \<Rightarrow> wstats \<Rightarrow> int" where
  "get_bitrate now max_elapsed s =
     (let recs = filter (\<lambda>(t, _). t \<ge> now - max_elapsed) (map (\<lambda>(t, _, _, _, n). (t, n)) (s_encoding_stats s))
      in if length recs < 2 then 0
         else
           let bits = sum_list (map snd recs) * 8; elapsed = fst (last recs) - fst (hd recs)
           in if elapsed = 0 then 0 else to_int (of_int bits / elapsed))"

definition get_damage_pixels :: "rat \<Rightarrow> rat \<Rightarrow> wstats \<Rightarrow> int" where
  "get_damage_pixels now elapsed s =
     sum_list (map (\<lambda>(_, _, _, w, h). w * h) (filter (\<lambda>(t, _). t > now - elapsed) (s_events s)))"

text \<open>The statistics that all the windows of a client share.\<close>

record gstats =
  g_congestion_time :: rat
  g_congestion :: rat
  g_min_latency :: rat
  g_bytes_sent :: "(rat \<times> int) list"
  g_decode_errors :: int
  g_events_count :: int
  g_packet_count :: int

section \<open>The source\<close>

datatype slot =
    DecodeErrorTimer
  | MaySendTimer
  | RefreshTimer
  | TimeoutTimer
  | ExpireTimer
  | SoftTimer
  | AvSyncTimer

datatype call =
    ExpireDelayedRegion rat int
  | MaySendDelayed
  | SoftTimeout
  | RegionTimeout rat
  | RefreshFunction options
  | UpdateAvSync
  | DecodeErrorRefresh

text \<open>An image in the queue of the encode thread.\<close>

record enc_item =
  q_width :: int
  q_height :: int
  q_damage :: rat
  q_process :: rat
  q_image :: image
  q_coding :: string
  q_sequence :: int
  q_options :: options
  q_flush :: int

text \<open>
  What the source asks others to do: tell the window that its changes have been seen, at once or from
  the main loop, queue a \<^verbatim>\<open>draw\<close> packet, call \<open>may_send_delayed\<close> from the main loop, record congestion.
\<close>

record draw =
  d_wid :: int
  d_x :: int
  d_y :: int
  d_width :: int
  d_height :: int
  d_coding :: string
  d_data :: bytes
  d_sequence :: int
  d_stride :: int
  d_options :: options

datatype waction =
    Acknowledge
  | AcknowledgeLater
  | QueueDraw draw int bool
  | MaySendLater
  | Congestion int int

text \<open>The quality and speed settings.\<close>

record quality =
  y_fixed_quality :: int
  y_min_quality :: int
  y_max_quality :: int
  y_fixed_speed :: int
  y_min_speed :: int
  y_max_speed :: int
  y_quality :: int
  y_speed :: int
  y_hint :: int
  y_lossless :: int
  y_content :: "string list"
  y_rgb_formats :: "string list"
  y_lz4 :: bool
  y_zstd :: bool
  y_transparency :: bool

record wsrc =
  w_wid :: int
  w_closed :: bool
  w_timers :: "slot \<Rightarrow> (int \<times> call) option"
  w_delayed :: "delayed option"
  w_sequence :: int
  w_cancelled :: int
  w_packet_seq :: int
  w_suspended :: bool
  w_full_frames :: bool
  w_encoding :: string
  w_dims :: "int \<times> int"
  w_soft_expired :: int
  w_max_soft :: int
  w_small_regions :: int
  w_bytes_percent :: int
  w_packet_cost :: int
  w_mmap :: bool
  w_batch :: batch
  w_stats :: wstats
  w_gstats :: gstats
  w_bandwidth :: int
  w_jitter :: int
  w_quality :: quality
  w_refresh_encodings :: "string list"
  w_refresh_delay :: int
  w_base_refresh :: int
  w_min_refresh :: int
  w_refresh_quality :: int
  w_refresh_speed :: int
  w_refresh_event :: rat
  w_refresh_target :: rat
  w_refresh_regions :: "rectangle list"
  w_image_depth :: int
  w_pixel_format :: string
  w_has_alpha :: bool
  w_discard_alpha :: bool
  w_opaque :: "rectangle list"
  w_render_size :: "int \<times> int"
  w_av_sync :: bool
  w_av_delay :: int
  w_av_target :: int
  w_av_base :: int
  w_av_frame :: int
  w_idle :: bool
  w_iconic :: bool
  w_queue_max :: int
  w_encode_queue :: "enc_item list"
  w_busy :: "enc_item option"
  w_out :: "waction list"

definition MAX_SEQUENCE :: int where "MAX_SEQUENCE = 2 ^ 64"

abbreviation upd_batch :: "(batch \<Rightarrow> batch) \<Rightarrow> wsrc \<Rightarrow> wsrc" where "upd_batch f w \<equiv> w\<lparr>w_batch := f (w_batch w)\<rparr>"
abbreviation upd_stats :: "(wstats \<Rightarrow> wstats) \<Rightarrow> wsrc \<Rightarrow> wsrc" where "upd_stats f w \<equiv> w\<lparr>w_stats := f (w_stats w)\<rparr>"
abbreviation upd_gstats :: "(gstats \<Rightarrow> gstats) \<Rightarrow> wsrc \<Rightarrow> wsrc" where "upd_gstats f w \<equiv> w\<lparr>w_gstats := f (w_gstats w)\<rparr>"

definition do_action :: "waction \<Rightarrow> wsrc \<Rightarrow> wsrc" where
  "do_action a w = w\<lparr>w_out := w_out w @ [a]\<rparr>"

section \<open>The environment of an operation\<close>

text \<open>
  The clock, the thread, the window (whether it is managed, its dimensions and pixels), the size of the
  damage queue, the choice of encodings (with the preferred one, and for a refresh), whether a
  transaction of the connection takes over, and the rectangle that a refresh leaves out.
\<close>

record wenv =
  e_now :: rat
  e_main :: bool
  e_managed :: bool
  e_dims :: "int \<times> int"
  e_image :: "int \<Rightarrow> int \<Rightarrow> int \<Rightarrow> int \<Rightarrow> image option"
  e_queue_size :: int
  e_encoding :: "int \<Rightarrow> int \<Rightarrow> options \<Rightarrow> string \<Rightarrow> string"
  e_refresh_encoding :: "int \<Rightarrow> int \<Rightarrow> options \<Rightarrow> string \<Rightarrow> string"
  e_full_frame :: "string \<Rightarrow> bool"
  e_defer :: "int \<Rightarrow> int \<Rightarrow> int \<Rightarrow> int \<Rightarrow> bool"
  e_exclude :: "rectangle option"

section \<open>Timers\<close>

text \<open>Each slot holds one timer at most, and none can be set once the source is being cleaned up.\<close>

definition schedule_timer :: "slot \<Rightarrow> int \<Rightarrow> call \<Rightarrow> wsrc \<Rightarrow> wsrc" where
  "schedule_timer slot delay c w =
     (if w_closed w \<or> w_timers w slot \<noteq> None then w else w\<lparr>w_timers := (w_timers w)(slot \<mapsto> (delay, c))\<rparr>)"

definition cancel_timer :: "slot \<Rightarrow> wsrc \<Rightarrow> wsrc" where
  "cancel_timer slot w = w\<lparr>w_timers := (w_timers w)(slot := None)\<rparr>"

definition cancel_refresh_timer :: "wsrc \<Rightarrow> wsrc" where
  "cancel_refresh_timer w =
     (if w_timers w RefreshTimer = None then cancel_timer RefreshTimer w
      else (cancel_timer RefreshTimer w)\<lparr>w_refresh_event := 0, w_refresh_target := 0\<rparr>)"

section \<open>Cancelling\<close>

definition is_cancelled :: "int \<Rightarrow> wsrc \<Rightarrow> bool" where
  "is_cancelled sequence w \<longleftrightarrow> w_cancelled w \<ge> sequence"

definition cancel_damage :: "wenv \<Rightarrow> int \<Rightarrow> wsrc \<Rightarrow> wsrc" where
  "cancel_damage e limit w =
     (let w = w\<lparr>w_cancelled := if limit \<noteq> 0 then limit else w_sequence w\<rparr>;
          w = cancel_timer SoftTimer (cancel_timer MaySendTimer (cancel_timer ExpireTimer w));
          w = cancel_timer TimeoutTimer (cancel_refresh_timer w);
          w = cancel_timer DecodeErrorTimer (cancel_timer AvSyncTimer w);
          dropped = w_delayed w;
          w = w\<lparr>w_refresh_regions := [], w_delayed := None\<rparr>;
          w = upd_stats (\<lambda>s. s\<lparr>s_encoding_pending := filter (\<lambda>(seq, _). \<not> w_cancelled w \<ge> seq) (s_encoding_pending s)\<rparr>) w
      in if dropped = None then w else do_action (if e_main e then Acknowledge else AcknowledgeLater) w)"

text \<open>The terminal clean up, as far as the damage goes: the timers and what is pending.\<close>

definition cleanup_source :: "wenv \<Rightarrow> wsrc \<Rightarrow> wsrc" where
  "cleanup_source e w = cancel_damage e MAX_SEQUENCE (w\<lparr>w_closed := True, w_timers := (\<lambda>_. None)\<rparr>)"

definition reset_stats :: "wenv \<Rightarrow> wsrc \<Rightarrow> wsrc" where
  "reset_stats e w = w\<lparr>w_stats := new_stats (e_now e)\<rparr>"

definition reset_backlog :: "wsrc \<Rightarrow> wsrc" where
  "reset_backlog w = upd_stats (\<lambda>s. s\<lparr>s_ack_pending := []\<rparr>) w"

section \<open>Idle windows\<close>

definition LOCKED_BATCH_DELAY :: int where "LOCKED_BATCH_DELAY = 1000"

definition lock_batch_delay :: "int \<Rightarrow> wsrc \<Rightarrow> wsrc" where
  "lock_batch_delay delay w =
     (let w = (if b_locked (w_batch w) then w else upd_batch (\<lambda>b. b\<lparr>b_locked := True, b_saved := b_delay b\<rparr>) w)
      in upd_batch (\<lambda>b. b\<lparr>b_delay := max delay (b_delay b)\<rparr>) w)"

definition unlock_batch_delay :: "wsrc \<Rightarrow> wsrc" where
  "unlock_batch_delay w =
     (if w_iconic w \<or> \<not> b_locked (w_batch w) then w
      else upd_batch (\<lambda>b. b\<lparr>b_locked := False, b_delay := b_saved b\<rparr>) w)"

definition go_idle :: "wsrc \<Rightarrow> wsrc" where
  "go_idle w = lock_batch_delay LOCKED_BATCH_DELAY (w\<lparr>w_idle := True\<rparr>)"

definition no_idle :: "wsrc \<Rightarrow> wsrc" where
  "no_idle w = unlock_batch_delay (w\<lparr>w_idle := False\<rparr>)"

definition iconic_changed :: "bool \<Rightarrow> wsrc \<Rightarrow> wsrc" where
  "iconic_changed iconic w = (let w = w\<lparr>w_iconic := iconic\<rparr> in if iconic then go_idle w else no_idle w)"

definition unmap :: "wenv \<Rightarrow> wsrc \<Rightarrow> wsrc" where
  "unmap e w = go_idle (reset_stats e (cancel_damage e 0 w))"

definition suspend :: "wenv \<Rightarrow> wsrc \<Rightarrow> wsrc" where
  "suspend e w = (reset_stats e (cancel_damage e 0 w))\<lparr>w_suspended := True\<rparr>"

section \<open>Dimensions\<close>

definition opaque_contains :: "int \<Rightarrow> int \<Rightarrow> int \<Rightarrow> int \<Rightarrow> wsrc \<Rightarrow> bool" where
  "opaque_contains x y ww hh w \<longleftrightarrow> list_ex (\<lambda>r. contains_rect r (rect x y ww hh)) (w_opaque w)"

definition update_discard_alpha :: "wsrc \<Rightarrow> wsrc" where
  "update_discard_alpha w = w\<lparr>w_discard_alpha := opaque_contains 0 0 (fst (w_dims w)) (snd (w_dims w)) w\<rparr>"

definition MAX_SYNC_BUFFER_SIZE :: int where "MAX_SYNC_BUFFER_SIZE = 256 * 1024 * 1024"

text \<open>The division raises for a window without pixels.\<close>

definition update_window_dimensions :: "wenv \<Rightarrow> int \<Rightarrow> int \<Rightarrow> wsrc \<Rightarrow> unit result \<times> wsrc" where
  "update_window_dimensions e ww wh w =
     (let w = upd_stats (\<lambda>s. s\<lparr>s_last_resized := e_now e, s_resize_events := push_max 4 (s_resize_events s) (e_now e)\<rparr>) w;
          w = w\<lparr>w_dims := (ww, wh)\<rparr>
      in if ww * wh * 4 = 0 then (Inl ZeroDivisionError, w)
         else (Inr (), update_discard_alpha (w\<lparr>w_queue_max := max 2 (min 30 (MAX_SYNC_BUFFER_SIZE div (ww * wh * 4)))\<rparr>)))"

definition may_update_window_dimensions :: "wenv \<Rightarrow> wsrc \<Rightarrow> (int \<times> int) result \<times> wsrc" where
  "may_update_window_dimensions e w =
     (let (ww, wh) = e_dims e
      in if w_dims w \<noteq> (ww, wh) then
           (case update_window_dimensions e ww wh w of
              (Inl err, w) \<Rightarrow> (Inl err, w)
            | (Inr _, w) \<Rightarrow> (Inr (ww, wh), w))
         else (Inr (ww, wh), w))"

section \<open>The backlog\<close>

definition ACK_JITTER :: int where "ACK_JITTER = 100"

definition get_packets_backlog :: "wenv \<Rightarrow> wsrc \<Rightarrow> int" where
  "get_packets_backlog e w =
     (let elapsed = e_now e - g_congestion_time (w_gstats w);
          tolerance_pct = to_int (of_int (min (w_packet_seq w) 10) * min elapsed 10);
          latency = s_target_latency (w_stats w) + of_int ACK_JITTER / 1000 * (1 + of_int tolerance_pct / 100)
      in get_late_acks (e_now e) latency (w_stats w))"

section \<open>Audio and video\<close>

definition AV_SYNC_RATE_CHANGE :: int where "AV_SYNC_RATE_CHANGE = 20"
definition AV_SYNC_TIME_CHANGE :: int where "AV_SYNC_TIME_CHANGE = 500"

definition schedule_av_sync_update :: "int \<Rightarrow> wsrc \<Rightarrow> wsrc" where
  "schedule_av_sync_update delay w =
     (if w_timers w AvSyncTimer \<noteq> None then w
      else if \<not> w_av_sync w then w\<lparr>w_av_delay := 0\<rparr>
      else if w_av_delay w = w_av_target w then w
      else schedule_timer AvSyncTimer delay UpdateAvSync w)"

definition may_update_av_sync_delay :: "wsrc \<Rightarrow> wsrc" where
  "may_update_av_sync_delay w = schedule_av_sync_update 0 (w\<lparr>w_av_target := max 0 (w_av_base w - w_av_frame w)\<rparr>)"

definition update_av_sync_delay :: "wsrc \<Rightarrow> wsrc" where
  "update_av_sync_delay w =
     (let delta = w_av_target w - w_av_delay w
      in if delta = 0 then w
         else
           let w = w\<lparr>w_av_delay := w_av_delay w + min AV_SYNC_RATE_CHANGE (max (- AV_SYNC_RATE_CHANGE) delta)\<rparr>
           in if w_av_delay w \<noteq> w_av_target w then schedule_av_sync_update AV_SYNC_TIME_CHANGE w else w)"

section \<open>A new source\<close>

text \<open>
  \<^verbatim>\<open>__init__\<close>: the window and its dimensions, the settings that the client has negotiated, and the encodings
  that a refresh may use.
\<close>

definition new_quality :: quality where
  "new_quality = \<lparr>y_fixed_quality = -1, y_min_quality = 0, y_max_quality = 100, y_fixed_speed = -1, y_min_speed = 0,
     y_max_speed = 100, y_quality = 100, y_speed = 80, y_hint = -1, y_lossless = 85, y_content = [], y_rgb_formats = [],
     y_lz4 = False, y_zstd = False, y_transparency = True\<rparr>"

definition new_gstats :: gstats where
  "new_gstats = \<lparr>g_congestion_time = 0, g_congestion = 0, g_min_latency = 1 / 10, g_bytes_sent = [], g_decode_errors = 0,
     g_events_count = 0, g_packet_count = 0\<rparr>"

definition new_wsrc :: "rat \<Rightarrow> int \<Rightarrow> int \<times> int \<Rightarrow> int \<Rightarrow> string \<Rightarrow> string list \<Rightarrow> int \<Rightarrow> wsrc" where
  "new_wsrc now wid dims max_soft encoding refresh_encodings refresh_delay =
     \<lparr>w_wid = wid, w_closed = False, w_timers = (\<lambda>_. None), w_delayed = None, w_sequence = 1, w_cancelled = 0, w_packet_seq = 1,
      w_suspended = False, w_full_frames = False, w_encoding = encoding, w_dims = dims, w_soft_expired = 0,
      w_max_soft = max 0 (min 100 max_soft), w_small_regions = 40, w_bytes_percent = 60, w_packet_cost = 1024, w_mmap = False,
      w_batch = new_batch, w_stats = new_stats now, w_gstats = new_gstats, w_bandwidth = 0, w_jitter = 0,
      w_quality = new_quality, w_refresh_encodings = refresh_encodings, w_refresh_delay = refresh_delay,
      w_base_refresh = refresh_delay, w_min_refresh = 50, w_refresh_quality = 100, w_refresh_speed = 50, w_refresh_event = 0,
      w_refresh_target = 0, w_refresh_regions = [], w_image_depth = 24, w_pixel_format = [], w_has_alpha = False,
      w_discard_alpha = False, w_opaque = [], w_render_size = (0, 0), w_av_sync = False, w_av_delay = 0, w_av_target = 0,
      w_av_base = 0, w_av_frame = 0, w_idle = False, w_iconic = False, w_queue_max = 10, w_encode_queue = [], w_busy = None,
      w_out = []\<rparr>"

end
