(* ===== verification/WindowRegions.thy ===== *)
theory WindowRegions
  imports WindowState
begin

text \<open>
  Sending regions: what \<^verbatim>\<open>WindowSource\<close> (\<^verbatim>\<open>src/xpra/server/window/compress.py\<close>) does with a list of damaged
  regions whose time has come. It chooses what to send, captures the images and queues them for the
  encode thread. Everything that is damaged gets there.
\<close>

section \<open>Quality and speed\<close>

definition is_screen_content :: "string list \<Rightarrow> bool" where
  "is_screen_content types \<longleftrightarrow>
     ''video'' \<notin> set types \<and> list_ex (\<lambda>x. x \<in> set types) [''text'', ''browser'', ''desktop'', ''lossless'']"

definition is_video_content :: "string list \<Rightarrow> bool" where
  "is_video_content types \<longleftrightarrow> \<not> is_screen_content types \<and> list_ex (\<lambda>x. x \<in> set types) [''video'', ''picture'']"

definition TEXT_QUALITY :: int where "TEXT_QUALITY = 100"

text \<open>The speed, and whether the backlog was looked at for it.\<close>

definition assign_speed :: "wenv \<Rightarrow> options \<Rightarrow> int \<Rightarrow> wsrc \<Rightarrow> int" where
  "assign_speed e opts speed_pct w =
     (let y = w_quality w; speed = num_opt opts ''speed'' 0
      in if speed \<noteq> 0 then speed
         else if y_fixed_speed y > 0 then y_fixed_speed y
         else
           min (y_max_speed y)
             (max 1 (max (y_min_speed y) ((y_speed y - get_packets_backlog e w * 20) * speed_pct div 100))))"

definition assign_quality :: "wenv \<Rightarrow> options \<Rightarrow> int \<Rightarrow> wsrc \<Rightarrow> int" where
  "assign_quality e opts quality_pct w =
     (let y = w_quality w; quality = num_opt opts ''quality'' 0;
          automatic = quality = 0 \<and> y_fixed_quality y \<le> 0 \<and> y_hint y < 0;
          quality =
            (if quality \<noteq> 0 then quality
             else if y_fixed_quality y > 0 then y_fixed_quality y
             else
               let q = (if ''text'' \<in> set (y_content y) then TEXT_QUALITY else y_quality y);
                   backlog = get_packets_backlog e w;
                   q = (if backlog = 0 then q + to_int ((e_now e - s_last_packet (w_stats w)) * 25) else q);
                   discount = (if opts ''scaled-width'' \<noteq> None \<or> opts ''scaled-height'' \<noteq> None then 20 else 0);
                   q = (q - backlog * 20 - discount) * quality_pct div 100
               in min (y_max_quality y) (max 1 (max (y_min_quality y) q)))
      in if automatic \<and> \<not> is_video_content (y_content y) \<and> y_lossless y < quality \<and> quality < 100
         then y_max_quality y else quality)"

definition assign_sq_options :: "wenv \<Rightarrow> options \<Rightarrow> int \<Rightarrow> int \<Rightarrow> wsrc \<Rightarrow> options" where
  "assign_sq_options e opts speed_pct quality_pct w =
     (let y = w_quality w;
          eo = opts(''quality'' \<mapsto> OInt (assign_quality e opts quality_pct w), ''speed'' \<mapsto> OInt (assign_speed e opts speed_pct w),
                    ''rgb_formats'' \<mapsto> OStrs (y_rgb_formats y), ''lz4'' \<mapsto> OBool (y_lz4 y), ''zstd'' \<mapsto> OBool (y_zstd y));
          eo = (if w_encoding w = ''grayscale'' then eo(''grayscale'' \<mapsto> OBool True) else eo);
          eo = (if \<not> y_transparency y then eo(''alpha'' \<mapsto> OBool False) else eo)
      in if y_content y \<noteq> [] then eo(''content-types'' \<mapsto> OStrs (y_content y)) else eo)"

section \<open>Capturing\<close>

definition DOWNSCALE_THRESHOLD :: int where "DOWNSCALE_THRESHOLD = 20"

definition scaled_size :: "image \<Rightarrow> wsrc \<Rightarrow> (int \<times> int) option" where
  "scaled_size img w =
     (let (crsw, crsh) = w_render_size w; (ww, wh) = w_dims w
      in if w_render_size w = (0, 0) then None
         else if ww - crsw > DOWNSCALE_THRESHOLD \<and> wh - crsh > DOWNSCALE_THRESHOLD
         then Some (i_width img * crsw div ww, i_height img * crsh div wh)
         else None)"

text \<open>\<^verbatim>\<open>replace("A", "X")\<close>\<close>

definition without_alpha :: "string \<Rightarrow> string" where
  "without_alpha f = map (\<lambda>c. if c = CHR ''A'' then CHR ''X'' else c) f"

definition do_process_damage_image :: "wenv \<Rightarrow> rat \<Rightarrow> image \<Rightarrow> string \<Rightarrow> int \<Rightarrow> options \<Rightarrow> int \<Rightarrow> wsrc \<Rightarrow> bool \<times> wsrc" where
  "do_process_damage_image e damage_time img coding sequence opts flush w =
     (True, w\<lparr>w_encode_queue := w_encode_queue w @
       [\<lparr>q_width = i_width img, q_height = i_height img, q_damage = damage_time, q_process = e_now e, q_image = img,
         q_coding = coding, q_sequence = sequence, q_options = opts, q_flush = flush\<rparr>]\<rparr>)"

definition strip_alpha :: "image \<Rightarrow> options \<Rightarrow> wsrc \<Rightarrow> image \<times> string \<times> int" where
  "strip_alpha img opts w =
     (let f = i_format img; d = i_depth img
      in if d = 32 \<and> w_has_alpha w \<and> CHR ''A'' \<in> set f \<and> \<not> bool_opt opts ''preserve-premultiplied-alpha'' then
           if w_discard_alpha w then (img\<lparr>i_format := without_alpha f\<rparr>, without_alpha f, 24)
           else if opaque_contains (i_target_x img) (i_target_y img) (i_width img) (i_height img) w
           then (img\<lparr>i_format := without_alpha f\<rparr>, f, 24)
           else (img, f, d)
         else (img, f, d))"

definition process_damage_image :: "wenv \<Rightarrow> rat \<Rightarrow> image \<Rightarrow> string \<Rightarrow> int \<Rightarrow> options \<Rightarrow> int \<Rightarrow> wsrc \<Rightarrow> bool \<times> wsrc" where
  "process_damage_image e damage_time img coding sequence opts flush w =
     (if i_width img = 0 \<or> i_height img = 0 then (False, w)
      else if is_cancelled sequence w then (False, w)
      else
        let (img, pixel_format, depth) = strip_alpha img opts w;
            w = w\<lparr>w_image_depth := depth, w_pixel_format := pixel_format\<rparr>;
            eo = (if opts ''window-size'' = None then opts(''window-size'' \<mapsto> OPair (fst (w_dims w)) (snd (w_dims w))) else opts);
            eo = (case scaled_size img w of
                    None \<Rightarrow> eo
                  | Some (sw, sh) \<Rightarrow> eo(''scaled-width'' \<mapsto> OInt sw, ''scaled-height'' \<mapsto> OInt sh))
        in do_process_damage_image e damage_time img coding sequence eo flush w)"

text \<open>
  A region that reaches outside of the window is cut to what is right of and below its corner. The
  value is whether an image was captured.
\<close>

definition process_damage_region ::
  "wenv \<Rightarrow> rat \<Rightarrow> int \<Rightarrow> int \<Rightarrow> int \<Rightarrow> int \<Rightarrow> string \<Rightarrow> options \<Rightarrow> int \<Rightarrow> wsrc \<Rightarrow> bool result \<times> wsrc" where
  "process_damage_region e damage_time x y rw rh coding opts flush w =
     (if coding = [] then (Inl RuntimeError, w)
      else if \<not> e_managed e then (Inr False, w)
      else
        (case may_update_window_dimensions e w of
           (Inl err, w) \<Rightarrow> (Inl err, w)
         | (Inr (ww, wh), w) \<Rightarrow>
             if x + rw < 0 \<or> y + rh < 0 then (Inr False, w)
             else
               let (rw, rh) = (if x + rw > ww \<or> y + rh > wh then (ww - x, wh - y) else (rw, rh))
               in if rw \<le> 0 \<or> rh \<le> 0 then (Inr False, w)
                  else if e_defer e x y rw rh then (Inr False, w)
                  else
                    let w = w\<lparr>w_sequence := w_sequence w + 1\<rparr>; sequence = w_sequence w
                    in if is_cancelled sequence w then (Inr False, w)
                       else
                         (case e_image e x y rw rh of
                            None \<Rightarrow> (Inr False, w)
                          | Some img \<Rightarrow>
                              let opts = (if x = 0 \<and> y = 0 \<and> (i_width img, i_height img) \<noteq> (rw, rh)
                                          then opts(''scaled-damage-size'' \<mapsto> OPair rw rh) else opts)
                              in (Inr True, snd (process_damage_image e damage_time img coding sequence opts flush w)))))"

section \<open>Choosing what to send\<close>

definition MIN_WINDOW_REGION_SIZE :: int where "MIN_WINDOW_REGION_SIZE = 1024"

definition packet_cost :: "rectangle list \<Rightarrow> wsrc \<Rightarrow> int" where
  "packet_cost rs w = sum_list (map area rs) + w_packet_cost w * int (length rs)"

text \<open>The merged regions, when they cost less; \<open>None\<close> stands for the whole window.\<close>

definition try_merge :: "rectangle option \<Rightarrow> rectangle list \<Rightarrow> wsrc \<Rightarrow> rectangle list option result" where
  "try_merge exclude rs w =
     (let (ww, wh) = w_dims w; threshold = ww * wh * w_bytes_percent w div 100
      in if packet_cost rs w \<ge> threshold \<and> exclude = None then Inr None
         else
           ebind (merge_all rs) (\<lambda>merged.
             let merged_rects = (case exclude of None \<Rightarrow> [merged] | Some ex \<Rightarrow> subtract_rect merged ex)
             in if w_mmap w \<or> packet_cost merged_rects w < packet_cost rs w \<or>
                     sum_list (map area merged_rects) < sum_list (map area rs)
                then Inr (Some merged_rects) else Inr (Some rs)))"

definition covers_window :: "rectangle list \<Rightarrow> wsrc \<Rightarrow> bool" where
  "covers_window rs w =
     (let (ww, wh) = w_dims w
      in case rs of
           [m] \<Rightarrow> r_x m \<le> 1 \<and> r_y m \<le> 1 \<and> \<bar>ww - r_width m\<bar> < 2 \<and> \<bar>wh - r_height m\<bar> < 2
         | _ \<Rightarrow> False)"

definition select_regions :: "rectangle option \<Rightarrow> rectangle list \<Rightarrow> wsrc \<Rightarrow> rectangle list option result" where
  "select_regions exclude rs w =
     (let (ww, wh) = w_dims w
      in if exclude = None \<and>
            (w_full_frames w \<or> w_encoding w = ''stream'' \<or> int (length rs) > w_small_regions w \<or> ww * wh \<le> MIN_WINDOW_REGION_SIZE)
         then Inr None
         else
           let rs = unique_regions (case exclude of None \<Rightarrow> rs | Some ex \<Rightarrow> concat (map (\<lambda>r. subtract_rect r ex) rs))
           in ebind (if length rs > 1 then try_merge exclude rs w else Inr (Some rs)) (\<lambda>sel.
                case sel of
                  None \<Rightarrow> Inr None
                | Some rs \<Rightarrow> Inr (if covers_window rs w then None else Some rs)))"

text \<open>The regions with their encodings, from the last to the first, each with its place as the flush count.\<close>

fun process_regions :: "wenv \<Rightarrow> rat \<Rightarrow> options \<Rightarrow> (nat \<times> rectangle \<times> string) list \<Rightarrow> wsrc \<Rightarrow> unit result \<times> wsrc" where
  "process_regions e damage_time opts [] w = (Inr (), w)"
| "process_regions e damage_time opts ((i, r, coding) # rs) w =
     (case process_damage_region e damage_time (r_x r) (r_y r) (r_width r) (r_height r) coding opts (int i) w of
        (Inl err, w) \<Rightarrow> (Inl err, w)
      | (Inr _, w) \<Rightarrow> process_regions e damage_time opts rs w)"

definition process_window :: "wenv \<Rightarrow> rat \<Rightarrow> string \<Rightarrow> options \<Rightarrow> wsrc \<Rightarrow> unit result \<times> wsrc" where
  "process_window e damage_time coding opts w =
     (case process_damage_region e damage_time 0 0 (fst (w_dims w)) (snd (w_dims w)) coding opts 0 w of
        (Inl err, w) \<Rightarrow> (Inl err, w)
      | (Inr _, w) \<Rightarrow> (Inr (), w))"

definition do_send_regions ::
  "wenv \<Rightarrow> rat \<Rightarrow> rectangle list \<Rightarrow> string \<Rightarrow> options \<Rightarrow> rectangle option \<Rightarrow>
     (int \<Rightarrow> int \<Rightarrow> options \<Rightarrow> string \<Rightarrow> string) \<Rightarrow> wsrc \<Rightarrow> unit result \<times> wsrc" where
  "do_send_regions e damage_time rs coding opts exclude best w =
     (let (ww, wh) = w_dims w; opts = assign_sq_options e opts 100 100 w
      in case select_regions exclude rs w of
           Inl err \<Rightarrow> (Inl err, w)
         | Inr None \<Rightarrow>
             let encoding = best ww wh opts coding
             in if encoding = [] then (Inl RuntimeError, w) else process_window e damage_time encoding opts w
         | Inr (Some rs) \<Rightarrow>
             let encs = map (\<lambda>(i, r). (i, r, best (r_width r) (r_height r) opts coding)) (enumerate 0 rs)
             in (case List.find (\<lambda>(_, _, enc). w_full_frames w \<or> e_full_frame e enc) encs of
                   Some (_, _, enc) \<Rightarrow> process_window e damage_time enc opts w
                 | None \<Rightarrow> process_regions e damage_time opts (rev encs) w))"

definition send_delayed_regions :: "wenv \<Rightarrow> delayed \<Rightarrow> wsrc \<Rightarrow> unit result \<times> wsrc" where
  "send_delayed_regions e dr w =
     (if \<not> e_managed e then (Inr (), w)
      else
        let w = upd_batch (\<lambda>b. b\<lparr>b_last_event := e_now e\<rparr>) (do_action Acknowledge w)
        in if is_cancelled MAX_SEQUENCE w then (Inr (), w)
           else do_send_regions e (dr_time dr) (dr_regions dr) (dr_encoding dr) (dr_options dr) None (e_encoding e) w)"

definition do_send_delayed :: "wenv \<Rightarrow> wsrc \<Rightarrow> unit result \<times> wsrc" where
  "do_send_delayed e w =
     (let w = cancel_timer SoftTimer (cancel_timer TimeoutTimer w)
      in case w_delayed w of
           None \<Rightarrow> (Inr (), w)
         | Some dr \<Rightarrow>
             let lad = (e_now e, ms_between (dr_time dr) (e_now e));
                 w = upd_batch (\<lambda>b. b\<lparr>b_last_actual_delays := push_max 64 (b_last_actual_delays b) lad,
                                     b_last_actual_delay := Some lad, b_last_delays := push_max 64 (b_last_delays b) lad,
                                     b_last_delay := Some lad\<rparr>) (w\<lparr>w_delayed := None\<rparr>)
             in send_delayed_regions e dr w)"

end
