(* ===== verification/WindowBatch.thy ===== *)
theory WindowBatch
  imports WindowRegions
begin

text \<open>
  When a \<^verbatim>\<open>WindowSource\<close> (\<^verbatim>\<open>src/xpra/server/window/compress.py\<close>) sends its damage: the region that collects
  it, its timers, and the refresh of what was sent with losses.
\<close>

section \<open>Congestion\<close>

text \<open>A sample of the bytes sent that is more than a second old, and what comes before it.\<close>

fun first_sample :: "rat \<Rightarrow> nat \<Rightarrow> (rat \<times> int) list \<Rightarrow> (rat \<times> int) \<times> (rat \<times> int) list" where
  "first_sample now n [] = ((0, 0), [])"
| "first_sample now n (s # rest) = (if n \<le> 1 \<or> now - fst s > 1 then (s, rest) else first_sample now (n - 1) rest)"

text \<open>How much earlier, and with what value, the sample is that the speed is measured from.\<close>

fun earlier_sample :: "rat \<times> int \<Rightarrow> rat \<times> int \<Rightarrow> (rat \<times> int) list \<Rightarrow> rat \<times> int" where
  "earlier_sample s1 found [] = found"
| "earlier_sample s1 found ((time2, value2) # rest) =
     (let t = fst s1 - time2
      in if t > 10 \<or> (t \<ge> 4 \<and> snd s1 - value2 \<ge> 65536) then (t, value2) else earlier_sample s1 (t, value2) rest)"

definition measured_speed :: "rat \<Rightarrow> int \<Rightarrow> int \<Rightarrow> (rat \<times> int) list \<Rightarrow> int" where
  "measured_speed now late_pct cur_send_speed sent =
     (if length sent < 5 then cur_send_speed
      else
        let (s1, rest) = first_sample now 3 (rev sent); (t, value2) = earlier_sample s1 (0, 0) (butlast rest)
        in if 4 \<le> t \<and> t \<le> 10 then
             let avg = \<lfloor>of_int ((snd s1 - value2) * 8) / t\<rfloor>
             in if cur_send_speed \<noteq> 0 then (avg * 100 + cur_send_speed * late_pct) div 2 div (100 + late_pct) else avg
           else cur_send_speed)"

definition networksend_congestion_event :: "wenv \<Rightarrow> int \<Rightarrow> int \<Rightarrow> wsrc \<Rightarrow> wsrc" where
  "networksend_congestion_event e late_pct cur_send_speed w =
     (let send_speed = measured_speed (e_now e) late_pct cur_send_speed (g_bytes_sent (w_gstats w));
          w = (if w_refresh_target w \<noteq> 0 then w\<lparr>w_refresh_target := max (w_refresh_target w) (e_now e + 2)\<rparr> else w)
      in do_action (Congestion late_pct send_speed) w)"

section \<open>Sending what is waiting\<close>

definition check_again :: "rat \<Rightarrow> wsrc \<Rightarrow> wsrc" where
  "check_again delay w =
     schedule_timer MaySendTimer (to_int (min (of_int (b_max_delay (w_batch w))) (max 10 delay))) MaySendDelayed w"

definition may_send_delayed :: "wenv \<Rightarrow> wsrc \<Rightarrow> unit result \<times> wsrc" where
  "may_send_delayed e w =
     (case w_delayed w of
        None \<Rightarrow> (Inr (), w)
      | Some dd \<Rightarrow>
          if \<not> dr_expired dd then (Inr (), w)
          else
            let packets_backlog = get_packets_backlog e w; actual_delay = ms_between (dr_time dd) (e_now e); b = w_batch w
            in if packets_backlog > 0 then
                 (Inr (), if actual_delay > b_timeout_delay b then reset_backlog w else w)
               else if b_locked b then
                 (if b_delay b > actual_delay then (Inr (), check_again (of_int (b_delay b - actual_delay)) w)
                  else do_send_delayed e w)
               else if w_bandwidth w > 0 \<and> get_bitrate (e_now e) 1 (w_stats w) \<ge> w_bandwidth w then
                 (Inr (), check_again 50 w)
               else
                 let (pixels_backlog, count) = get_pixels_encoding_backlog (w_stats w); (ww, wh) = w_dims w
                 in if pixels_backlog \<ge> ww * wh \<or> count > 10 then
                      (Inr (), if get_acks_pending (w_stats w) = 0 then check_again (of_int actual_delay / 10) w else w)
                    else do_send_delayed e (w\<lparr>w_soft_expired := 0\<rparr>))"

text \<open>
  The region has waited long enough: send it now if the client keeps up, else wait for its
  acknowledgements, but not for ever.
\<close>

definition wait_for_acks :: "wenv \<Rightarrow> rat \<Rightarrow> int \<Rightarrow> delayed \<Rightarrow> wsrc \<Rightarrow> wsrc" where
  "wait_for_acks e due target_delay dr w =
     (let max_soft = min (1 + s_events_count (w_stats w) div 2) (w_max_soft w)
      in if w_soft_expired w < max_soft then
           let w = w\<lparr>w_soft_expired := w_soft_expired w + 1\<rparr>
           in schedule_timer SoftTimer (w_soft_expired w * target_delay) SoftTimeout w
         else
           let w = (if max_soft = w_max_soft w \<and> e_now e - g_congestion_time (w_gstats w) < 10
                    then networksend_congestion_event e (2 * 100 * w_soft_expired w) 0 w else w)
           in if w_timers w TimeoutTimer = None
              then schedule_timer TimeoutTimer (b_timeout_delay (w_batch w)) (RegionTimeout (dr_time dr)) w else w)"

definition expire_delayed_region :: "wenv \<Rightarrow> rat \<Rightarrow> int \<Rightarrow> wsrc \<Rightarrow> unit result \<times> wsrc" where
  "expire_delayed_region e due target_delay w =
     (case w_delayed w of
        None \<Rightarrow> (Inr (), w)
      | Some dr \<Rightarrow>
          if w_timers w SoftTimer \<noteq> None then (Inr (), w)
          else
            (case may_send_delayed e (cancel_timer MaySendTimer (w\<lparr>w_delayed := Some (dr\<lparr>dr_expired := True\<rparr>)\<rparr>)) of
               (Inl err, w) \<Rightarrow> (Inl err, w)
             | (Inr _, w) \<Rightarrow>
                 (Inr (),
                  if w_delayed w = None then w
                  else if e_now e < due then
                    let delay = max (b_min_delay (w_batch w)) (min (b_expire_delay (w_batch w)) (ms_between (e_now e) due))
                    in schedule_timer ExpireTimer delay (ExpireDelayedRegion due 100) w
                  else wait_for_acks e due target_delay dr w)))"

definition delayed_region_soft_timeout :: "wenv \<Rightarrow> wsrc \<Rightarrow> unit result \<times> wsrc" where
  "delayed_region_soft_timeout e w = do_send_delayed e w"

section \<open>Refreshing the whole window\<close>

definition get_refresh_options :: "wsrc \<Rightarrow> options" where
  "get_refresh_options w =
     [''optimize'' \<mapsto> OBool False, ''auto_refresh'' \<mapsto> OBool True, ''quality'' \<mapsto> OInt (w_refresh_quality w),
      ''speed'' \<mapsto> OInt (w_refresh_speed w)]"

definition full_quality_refresh :: "wenv \<Rightarrow> options \<Rightarrow> wsrc \<Rightarrow> unit result \<times> wsrc" where
  "full_quality_refresh e opts w =
     (if \<not> e_managed e then (Inr (), w)
      else if w_refresh_encodings w = [] \<or> is_cancelled MAX_SEQUENCE w then (Inr (), w)
      else
        let w = w\<lparr>w_refresh_regions := []\<rparr>; (ww, wh) = w_dims w
        in if e_defer e 0 0 ww wh then (Inr (), w)
           else
             (case new_rectangle 0 0 ww wh of
                Inl err \<Rightarrow> (Inl err, w)
              | Inr r \<Rightarrow>
                  send_delayed_regions e
                    \<lparr>dr_time = e_now e, dr_encoding = hd (w_refresh_encodings w), dr_options = opts ++ get_refresh_options w,
                     dr_regions = [r], dr_expired = False\<rparr> w))"

definition delayed_region_timeout :: "wenv \<Rightarrow> rat \<Rightarrow> wsrc \<Rightarrow> unit result \<times> wsrc" where
  "delayed_region_timeout e time w =
     (case w_delayed w of
        None \<Rightarrow> (Inr (), w)
      | Some dr \<Rightarrow>
          if dr_time dr \<noteq> time then (Inr (), w)
          else
            let w = cancel_damage e 0 w; w = cancel_refresh_timer (cancel_timer ExpireTimer w);
                w = (cancel_timer SoftTimer w)\<lparr>w_delayed := None\<rparr>
            in full_quality_refresh e (dr_options dr) w)"

section \<open>Damage\<close>

text \<open>Damage near the areas that are due for a refresh puts the refresh off.\<close>

definition delay_refresh :: "wenv \<Rightarrow> int \<Rightarrow> int \<Rightarrow> options \<Rightarrow> wsrc \<Rightarrow> wsrc" where
  "delay_refresh e ww wh opts w =
     (let overlap = sum_list (map area (w_refresh_regions w))
      in if w_timers w RefreshTimer \<noteq> None \<and> num_opt opts ''quality'' (y_quality (w_quality w)) < w_refresh_quality w \<and> overlap > 0
         then
           let pct = to_int (of_int (min 100 (100 * overlap div (ww * wh))) * (1 + g_congestion (w_gstats w)));
               sched_delay = max (w_min_refresh w) (w_base_refresh w * pct div 100)
           in w\<lparr>w_refresh_target := max (w_refresh_target w) (e_now e + of_int sched_delay / 1000)\<rparr>
         else w)"

definition extend_delayed :: "wenv \<Rightarrow> int \<Rightarrow> int \<Rightarrow> rectangle \<Rightarrow> options \<Rightarrow> delayed \<Rightarrow> wsrc \<Rightarrow> wsrc" where
  "extend_delayed e ww wh region opts dr w =
     (let regions = (if w_full_frames w \<or> int (length (dr_regions dr)) \<ge> w_small_regions w then [rect 0 0 ww wh]
                     else snd (add_rectangle region (dr_regions dr)));
          w = w\<lparr>w_delayed := Some (dr\<lparr>dr_regions := regions, dr_options := merge_options (dr_options dr) opts\<rparr>)\<rparr>
      in if w_timers w ExpireTimer = None \<and> w_timers w SoftTimer = None \<and> w_soft_expired w = 0
         then schedule_timer ExpireTimer 0 (ExpireDelayedRegion (e_now e) 100) w else w)"

definition FRAME_OVERHEAD :: int where "FRAME_OVERHEAD = 1"

text \<open>The delay before the time since the last event is taken off it.\<close>

definition batch_delay :: "wenv \<Rightarrow> options \<Rightarrow> wsrc \<Rightarrow> int" where
  "batch_delay e opts w =
     (let b = w_batch w; s = w_stats w; now = e_now e;
          delay = num_opt opts ''delay'' (b_delay b);
          resize_elapsed = ms_between (s_last_resized s) now; n = length (s_resize_events s);
          delay = (if resize_elapsed < 500 \<and> n \<ge> 2 \<and> now - s_resize_events s ! (n - 2) < 1
                   then delay + (500 - resize_elapsed) div 2 else delay);
          congestion_elapsed = ms_between (g_congestion_time (w_gstats w)) now;
          delay = (if congestion_elapsed < 1000 then delay + (1000 - congestion_elapsed) div 4 else delay);
          min_delay = max (of_bool (bool_opt opts ''more'') * 5) (b_min_delay b * max 2 (e_queue_size e) div 2 - FRAME_OVERHEAD)
      in min (max delay (num_opt opts ''min_delay'' min_delay)) (num_opt opts ''max_delay'' (b_max_delay b)))"

text \<open>What is added when the last delays were longer.\<close>

definition delay_increase :: "rat \<Rightarrow> int \<Rightarrow> (rat \<times> int) option list \<Rightarrow> int" where
  "delay_increase now expire_delay vs =
     fold (\<lambda>v inc.
       case v of
         None \<Rightarrow> inc
       | Some (time, d) \<Rightarrow>
           let delta = now - time
           in if d > expire_delay \<and> delta < 5 then max inc (to_int (of_int (d - expire_delay) * ((5 - delta) / 10))) else inc) vs 0"

definition start_delayed :: "wenv \<Rightarrow> rectangle \<Rightarrow> options \<Rightarrow> wsrc \<Rightarrow> wsrc" where
  "start_delayed e region opts w =
     (let b = w_batch w; now = e_now e; target_delay = batch_delay e opts w;
          elapsed = ms_between (b_last_event b) now;
          delay = max (of_bool (bool_opt opts ''more'') * 5) (target_delay - elapsed);
          w = w\<lparr>w_delayed := Some \<lparr>dr_time = now, dr_encoding = str_opt opts ''encoding'' (w_encoding w), dr_options = opts,
                                    dr_regions = [region], dr_expired = False\<rparr>\<rparr>;
          expire_delay = min (b_expire_delay b) delay;
          expire_delay = expire_delay + delay_increase now expire_delay [b_last_actual_delay b, b_last_delay b];
          w = upd_batch (\<lambda>b. b\<lparr>b_last_delays := push_max 64 (b_last_delays b) (now, delay), b_last_delay := Some (now, delay)\<rparr>) w
      in schedule_timer ExpireTimer expire_delay (ExpireDelayedRegion (now + of_int expire_delay / 1000) target_delay) w)"

definition do_damage :: "wenv \<Rightarrow> int \<Rightarrow> int \<Rightarrow> int \<Rightarrow> int \<Rightarrow> int \<Rightarrow> int \<Rightarrow> options \<Rightarrow> wsrc \<Rightarrow> unit result \<times> wsrc" where
  "do_damage e ww wh x y rw rh opts w =
     (let w = delay_refresh e ww wh opts w
      in case w_delayed w of
           Some dr \<Rightarrow>
             if w_full_frames w \<or> int (length (dr_regions dr)) \<ge> w_small_regions w
             then (Inr (), extend_delayed e ww wh (rect 0 0 ww wh) opts dr w)
             else
               (case new_rectangle x y rw rh of
                  Inl err \<Rightarrow> (Inl err, w)
                | Inr region \<Rightarrow> (Inr (), extend_delayed e ww wh region opts dr w))
         | None \<Rightarrow>
             (case new_rectangle x y rw rh of
                Inl err \<Rightarrow> (Inl err, w)
              | Inr region \<Rightarrow> (Inr (), start_delayed e region opts w)))"

definition MAX_WINDOW_SIZE :: int where "MAX_WINDOW_SIZE = 2 ^ 15 - 2 ^ 13"

text \<open>Damage that comes from the window itself is counted.\<close>

definition count_damage :: "wenv \<Rightarrow> int \<Rightarrow> int \<Rightarrow> int \<Rightarrow> int \<Rightarrow> wsrc \<Rightarrow> wsrc" where
  "count_damage e x y rw rh w =
     upd_gstats (\<lambda>g. g\<lparr>g_events_count := g_events_count g + 1\<rparr>)
       (upd_stats (\<lambda>s. s\<lparr>s_events := push_max (4 * NRECS) (s_events s) (e_now e, x, y, rw, rh),
                       s_events_count := s_events_count s + 1\<rparr>) w)"

definition damage_area :: "wenv \<Rightarrow> int \<Rightarrow> int \<Rightarrow> int \<Rightarrow> int \<Rightarrow> int \<Rightarrow> int \<Rightarrow> options \<Rightarrow> wsrc \<Rightarrow> bool result \<times> wsrc" where
  "damage_area e ww wh x y rw rh opts w =
     (let seen = upd_stats (\<lambda>s. s\<lparr>s_last_event := e_now e\<rparr>)
      in if e_defer e x y rw rh then (Inr True, seen w)
         else
           (case do_damage e ww wh x y rw rh opts w of
              (Inl err, w) \<Rightarrow> (Inl err, w)
            | (Inr _, w) \<Rightarrow> (Inr True, seen w)))"

definition damage :: "wenv \<Rightarrow> int \<Rightarrow> int \<Rightarrow> int \<Rightarrow> int \<Rightarrow> options \<Rightarrow> wsrc \<Rightarrow> bool result \<times> wsrc" where
  "damage e x y rw rh opts w =
     (if w_suspended w then (Inr False, w)
      else if rw = 0 \<or> rh = 0 then (Inr False, w)
      else
        (case may_update_window_dimensions e (if bool_opt opts ''damage'' then count_damage e x y rw rh w else w) of
           (Inl err, w) \<Rightarrow> (Inl err, w)
         | (Inr (ww, wh), w) \<Rightarrow>
             let opts = opts(''damage'' := None)
             in if ww = 0 \<or> wh = 0 then (Inr False, w)
                else if ww > MAX_WINDOW_SIZE \<or> wh > MAX_WINDOW_SIZE then (Inr False, w)
                else if w_full_frames w then damage_area e ww wh 0 0 ww wh opts w
                else damage_area e ww wh x y rw rh opts w))"

definition refresh :: "wenv \<Rightarrow> options \<Rightarrow> wsrc \<Rightarrow> bool result \<times> wsrc" where
  "refresh e opts w = damage e 0 0 (fst (w_dims w)) (snd (w_dims w)) opts w"

text \<open>The icon that is sent as well belongs to another class.\<close>

definition resume :: "wenv \<Rightarrow> wsrc \<Rightarrow> bool result \<times> wsrc" where
  "resume e w = refresh e [''quality'' \<mapsto> OInt 100] ((reset_stats e (cancel_damage e 0 w))\<lparr>w_suspended := False\<rparr>)"

section \<open>Refreshing what was lossy\<close>

definition can_refresh :: "wenv \<Rightarrow> wsrc \<Rightarrow> bool" where
  "can_refresh e w \<longleftrightarrow>
     e_managed e \<and> \<not> (w_refresh_delay w \<le> 0 \<or> is_cancelled MAX_SEQUENCE w \<or> w_refresh_encodings w = [])"

definition timer_full_refresh :: "wenv \<Rightarrow> wsrc \<Rightarrow> unit result \<times> wsrc" where
  "timer_full_refresh e w =
     (let event_time = w_refresh_event w; rs = w_refresh_regions w; w = w\<lparr>w_refresh_event := 0, w_refresh_regions := []\<rparr>
      in if can_refresh e w \<and> rs \<noteq> [] \<and> event_time > 0
         then do_send_regions e (e_now e) rs (hd (w_refresh_encodings w)) (get_refresh_options w) (e_exclude e) (e_refresh_encoding e) w
         else (Inr (), w))"

definition refresh_timer_function :: "wenv \<Rightarrow> options \<Rightarrow> wsrc \<Rightarrow> unit result \<times> wsrc" where
  "refresh_timer_function e opts w =
     (if \<not> can_refresh e w then (Inr (), w\<lparr>w_refresh_event := 0\<rparr>)
      else if w_refresh_event w = 0 then (Inr (), w)
      else
        let delta = w_refresh_target w - e_now e
        in if delta < 1 / 20 then timer_full_refresh e w
           else (Inr (), schedule_timer RefreshTimer (to_int (delta * 1000)) (RefreshFunction opts) w))"

text \<open>
  \<^verbatim>\<open>sqrt(n)//10\<close>, exactly: the largest number whose square is at most a hundredth of \<open>n\<close>.
\<close>

fun isqrt_up :: "nat \<Rightarrow> nat \<Rightarrow> nat \<Rightarrow> nat" where
  "isqrt_up n k 0 = k"
| "isqrt_up n k (Suc fuel) = (if (k + 1) * (k + 1) \<le> n then isqrt_up n (k + 1) fuel else k)"

definition sqrt_tenth :: "rat \<Rightarrow> int" where
  "sqrt_tenth r = (let n = nat \<lfloor>r / 100\<rfloor> in int (isqrt_up n 0 n))"

definition LOSSY_PIXEL_FORMATS :: "string list" where
  "LOSSY_PIXEL_FORMATS = [''NV12'', ''YUV420P'', ''YUVA420P'', ''YUV422P'', ''YUVA422P'']"

definition is_lossy :: "string \<Rightarrow> options \<Rightarrow> wsrc \<Rightarrow> bool" where
  "is_lossy encoding client_options w \<longleftrightarrow>
     (if take 3 encoding = ''png'' then w_image_depth w > 32 \<or> w_image_depth w = 30
      else if take 3 encoding = ''rgb'' \<or> encoding = ''mmap'' then False
      else num_opt client_options ''quality'' 0 < w_refresh_quality w \<or>
        (\<exists>csc\<in>set LOSSY_PIXEL_FORMATS. client_options ''csc'' = Some (OStr csc)) \<or> client_options ''scaled_size'' \<noteq> None)"

text \<open>The time when what has been sent with losses is sent again.\<close>

definition postpone_refresh :: "wenv \<Rightarrow> int \<Rightarrow> int \<Rightarrow> int \<Rightarrow> wsrc \<Rightarrow> wsrc" where
  "postpone_refresh e added pct window_pixcount w =
     (let due_pixcount = sum_list (map area (w_refresh_regions w));
          pct = (if added \<ge> due_pixcount div 2 then 100 * due_pixcount div window_pixcount else pct);
          sched_delay = max (b_delay (w_batch w) * 5) (max (w_min_refresh w) (w_base_refresh w * pct div 100));
          max_time = w_refresh_event w + of_int (5 * w_base_refresh w)
      in w\<lparr>w_refresh_target := min max_time (max (w_refresh_target w) (e_now e + of_int sched_delay / 1000))\<rparr>)"

definition start_refresh :: "wenv \<Rightarrow> int \<Rightarrow> options \<Rightarrow> wsrc \<Rightarrow> wsrc" where
  "start_refresh e pct opts w =
     (let mult = sqrt_tenth (of_int pct * (1 + g_congestion (w_gstats w)));
          sched_delay = max (b_delay (w_batch w) * 5) (max (w_min_refresh w) (w_base_refresh w * mult))
      in schedule_timer RefreshTimer sched_delay (RefreshFunction opts)
           (w\<lparr>w_refresh_event := e_now e, w_refresh_target := e_now e + of_int sched_delay / 1000\<rparr>))"

text \<open>The pixels of the window and of the region, without those of the rectangle that is left out.\<close>

definition window_pixels :: "wenv \<Rightarrow> wsrc \<Rightarrow> int" where
  "window_pixels e w = fst (w_dims w) * snd (w_dims w) - (case e_exclude e of None \<Rightarrow> 0 | Some ex \<Rightarrow> area ex)"

definition region_pixels :: "wenv \<Rightarrow> rectangle \<Rightarrow> int" where
  "region_pixels e region =
     area region - (case e_exclude e of
                      None \<Rightarrow> 0
                    | Some ex \<Rightarrow> (case intersection_rect region ex of None \<Rightarrow> 0 | Some i \<Rightarrow> area i))"

definition lossy_refresh :: "wenv \<Rightarrow> rectangle \<Rightarrow> options \<Rightarrow> wsrc \<Rightarrow> wsrc" where
  "lossy_refresh e region opts w =
     (let window_pixcount = window_pixels e w; region_pixcount = region_pixels e region;
          (added, rs) = add_rectangle region (w_refresh_regions w); w = w\<lparr>w_refresh_regions := rs\<rparr>;
          pct = (if window_pixcount \<le> 0 then 100 else 100 * region_pixcount div window_pixcount);
          w = (if pct = 100 then cancel_refresh_timer w else w)
      in if w_timers w RefreshTimer = None then
           (if region_pixcount \<le> 0 \<or> rs = [] then w else start_refresh e pct opts w)
         else postpone_refresh e added pct window_pixcount w)"

definition do_schedule_auto_refresh :: "wenv \<Rightarrow> string \<Rightarrow> rectangle \<Rightarrow> options \<Rightarrow> options \<Rightarrow> wsrc \<Rightarrow> wsrc" where
  "do_schedule_auto_refresh e encoding region client_options opts w =
     (if w_encoding w = ''stream'' then w
      else if \<not> is_lossy encoding client_options w \<or> bool_opt opts ''auto_refresh'' then
        let w = w\<lparr>w_refresh_regions := remove_rectangle (w_refresh_regions w) region\<rparr>
        in if w_timers w RefreshTimer = None then w
           else if w_refresh_regions w = [] then cancel_refresh_timer w else w
      else if fst (w_dims w) \<le> 0 \<or> snd (w_dims w) \<le> 0 then cancel_refresh_timer w
      else lossy_refresh e region opts w)"

end
