(* ===== verification/WindowEncode.thy ===== *)
theory WindowEncode
  imports WindowBatch "HOL-Library.AList"
begin

text \<open>
  The encode thread and the acknowledgements of a \<^verbatim>\<open>WindowSource\<close> (\<^verbatim>\<open>src/xpra/server/window/compress.py\<close>):
  encoding the images of the queue, queueing their packets, and what happens when the client has
  painted them. Encoding takes its time, so its beginning and its end are two operations.
\<close>

section \<open>Refresh\<close>

definition schedule_auto_refresh :: "wenv \<Rightarrow> draw \<Rightarrow> options \<Rightarrow> wsrc \<Rightarrow> wsrc" where
  "schedule_auto_refresh e d opts w =
     (if \<not> can_refresh e w then cancel_refresh_timer w
      else do_schedule_auto_refresh e (d_coding d) (rect (d_x d) (d_y d) (d_width d) (d_height d)) (d_options d) opts w)"

section \<open>Packets\<close>

definition scaled_damage_packet_size :: "int \<Rightarrow> int \<Rightarrow> options \<Rightarrow> options \<Rightarrow> int \<times> int \<times> options" where
  "scaled_damage_packet_size outw outh client_options opts =
     (case opts ''scaled-damage-size'' of
        Some (OPair tw th) \<Rightarrow>
          if tw > 0 \<and> th > 0 \<and> (outw, outh) \<noteq> (tw, th) then
            (tw, th, if client_options ''scaled_size'' = None then client_options(''scaled_size'' \<mapsto> OPair outw outh) else client_options)
          else (outw, outh, client_options)
      | _ \<Rightarrow> (outw, outh, client_options))"

text \<open>The options that are passed on to the client when they are there.\<close>

definition passed_options :: "string list" where
  "passed_options =
     [''window-size'', ''backing-epoch'', ''subsurface-backing-epoch'', ''subsurface-composite'', ''subsurface-reset'',
      ''subsurface-topology-epoch'', ''subsurface-transaction-id'', ''subsurface-stage-index'', ''subsurface-stage-count'']"

definition pass_options :: "options \<Rightarrow> options \<Rightarrow> options" where
  "pass_options opts client_options =
     fold (\<lambda>k co. case opts k of None \<Rightarrow> co | Some v \<Rightarrow> co(k \<mapsto> v)) passed_options client_options"

definition make_draw_packet ::
  "int \<Rightarrow> int \<Rightarrow> int \<Rightarrow> int \<Rightarrow> string \<Rightarrow> bytes \<Rightarrow> int \<Rightarrow> options \<Rightarrow> options \<Rightarrow> wsrc \<Rightarrow> draw \<times> wsrc" where
  "make_draw_packet x y outw outh coding data outstride client_options opts w =
     (let (outw, outh, co) = scaled_damage_packet_size outw outh (pass_options opts client_options) opts
      in (\<lparr>d_wid = w_wid w, d_x = x, d_y = y, d_width = outw, d_height = outh, d_coding = coding, d_data = data,
           d_sequence = w_packet_seq w, d_stride = outstride, d_options = co\<rparr>,
          w\<lparr>w_packet_seq := w_packet_seq w + 1\<rparr>))"

text \<open>
  What an encoder returns: nothing, or the encoding, the data, options for the client, the width, height,
  stride and bits per pixel.
\<close>

type_synonym encoded = "(string \<times> bytes \<times> options \<times> int \<times> int \<times> int \<times> int) option"
type_synonym encoders = "string \<Rightarrow> (image \<Rightarrow> options \<Rightarrow> encoded result) option"

text \<open>The first part of \<^verbatim>\<open>make_data_packet\<close>: the options of the image, if it is still wanted.\<close>

definition prepare_item :: "enc_item \<Rightarrow> wsrc \<Rightarrow> enc_item option result" where
  "prepare_item q w =
     (if is_cancelled (q_sequence q) w \<or> w_suspended w then Inr None
      else if i_width (q_image q) \<le> 0 \<or> i_height (q_image q) \<le> 0 then Inl RuntimeError
      else
        Inr (Some (q\<lparr>q_options := (q_options q)(''damage-time'' \<mapsto> ORat (q_damage q), ''process-damage-time'' \<mapsto> ORat (q_process q),
                                          ''depth'' \<mapsto> OInt (w_image_depth w))\<rparr>)))"

text \<open>An image of the first place of the queue: it is being encoded, or dropped.\<close>

definition begin_encode :: "wsrc \<Rightarrow> wsrc" where
  "begin_encode w =
     (case w_encode_queue w of
        [] \<Rightarrow> w
      | q # qs \<Rightarrow>
          (case prepare_item q w of
             Inr (Some q') \<Rightarrow>
               upd_stats (\<lambda>s. s\<lparr>s_encoding_pending := AList.update (q_sequence q) (q_damage q, q_width q, q_height q) (s_encoding_pending s)\<rparr>)
                 (w\<lparr>w_encode_queue := qs, w_busy := Some q'\<rparr>)
           | _ \<Rightarrow>
               upd_stats (\<lambda>s. s\<lparr>s_encoding_pending := AList.delete (q_sequence q) (s_encoding_pending s)\<rparr>) (w\<lparr>w_encode_queue := qs\<rparr>)))"

definition make_data_packet :: "wenv \<Rightarrow> encoders \<Rightarrow> enc_item \<Rightarrow> wsrc \<Rightarrow> draw option result \<times> wsrc" where
  "make_data_packet e encs q w =
     (case encs (q_coding q) of
        None \<Rightarrow> (if is_cancelled (q_sequence q) w then Inr None else Inl RuntimeError, w)
      | Some encoder \<Rightarrow>
          (case encoder (q_image q) (q_options q) of
             Inl err \<Rightarrow> (if err = TypeError \<or> err = RuntimeError then Inr None else Inl err, w)
           | Inr None \<Rightarrow> (Inr None, w)
           | Inr (Some (coding, data, client_options, outw, outh, outstride, bpp)) \<Rightarrow>
               if coding \<noteq> ''mmap'' \<and> (is_cancelled (q_sequence q) w \<or> w_suspended w) then (Inr None, w)
               else
                 let co = client_options(''flush'' \<mapsto> OInt (q_flush q));
                     (outw, outh, co) = scaled_damage_packet_size outw outh co (q_options q); img = q_image q;
                     w = upd_stats (\<lambda>s. s\<lparr>s_encoding_stats := push_max NRECS (s_encoding_stats s)
                            (e_now e, coding, i_width img * i_height img, bpp, int (length data))\<rparr>) w;
                     (d, w) = make_draw_packet (i_target_x img) (i_target_y img) outw outh coding data outstride co (q_options q) w
                 in (Inr (Some d), w)))"

fun add_total :: "string \<Rightarrow> int \<Rightarrow> (string \<times> int \<times> int) list \<Rightarrow> (string \<times> int \<times> int) list" where
  "add_total coding pixcount [] = [(coding, 1, pixcount)]"
| "add_total coding pixcount ((c, n, t) # rest) =
     (if c = coding then (c, n + 1, t + pixcount) # rest else (c, n, t) # add_total coding pixcount rest)"

text \<open>\<^verbatim>\<open>queue_damage_packet\<close>: every \<^verbatim>\<open>draw\<close> packet is recorded before it is queued.\<close>

definition queue_damage_packet :: "wenv \<Rightarrow> draw \<Rightarrow> rat \<Rightarrow> rat \<Rightarrow> options \<Rightarrow> wsrc \<Rightarrow> wsrc" where
  "queue_damage_packet e d damage_time process_damage_time opts w =
     (let pixcount = d_width d * d_height d; now = e_now e;
          w = schedule_auto_refresh e d opts w;
          k = \<lparr>k_queued = now, k_coding = d_coding d, k_pixels = pixcount, k_bytes = int (length (d_data d)),
               k_frame = num_opt (d_options d) ''frame'' (-1), k_damage = damage_time\<rparr>;
          w = upd_stats (\<lambda>s. s\<lparr>s_ack_pending := AList.update (d_sequence d) k (s_ack_pending s)\<rparr>) w;
          w = do_action (QueueDraw d pixcount (num_opt (d_options d) ''flush'' 0 > 0)) w;
          w = (if process_damage_time > 0
               then upd_stats (\<lambda>s. s\<lparr>s_in_latency := push_max NRECS (s_in_latency s)
                      (now, pixcount, process_damage_time - damage_time, now - process_damage_time)\<rparr>) w else w)
      in upd_gstats (\<lambda>g. g\<lparr>g_packet_count := g_packet_count g + 1\<rparr>)
           (upd_stats (\<lambda>s. s\<lparr>s_last_packet := now, s_packet_count := s_packet_count s + 1,
                           s_totals := add_total (d_coding d) pixcount (s_totals s)\<rparr>) w))"

text \<open>The end of the encoding of an image.\<close>

definition finish_encode :: "wenv \<Rightarrow> encoders \<Rightarrow> wsrc \<Rightarrow> wsrc" where
  "finish_encode e encs w =
     (case w_busy w of
        None \<Rightarrow> w
      | Some q \<Rightarrow>
          let (r, w) = make_data_packet e encs q (w\<lparr>w_busy := None\<rparr>);
              w = upd_stats (\<lambda>s. s\<lparr>s_encoding_pending := AList.delete (q_sequence q) (s_encoding_pending s)\<rparr>) w
          in (case r of
                Inr (Some d) \<Rightarrow> queue_damage_packet e d (q_damage q) (q_process q) (q_options q) w
              | _ \<Rightarrow> w))"

section \<open>Acknowledgements\<close>

text \<open>The base two logarithm, rounded down.\<close>

fun flog2 :: "nat \<Rightarrow> int" where
  "flog2 n = (if n < 2 then 0 else 1 + flog2 (n div 2))"

declare flog2.simps [simp del]

text \<open>Without a limit, \<^verbatim>\<open>int(10*logp(bytecount/1024))\<close>: the logarithm of the tenth power.\<close>

definition estimate_send_delay :: "int \<Rightarrow> wsrc \<Rightarrow> int" where
  "estimate_send_delay bytecount w =
     (if w_bandwidth w > 0 then 1000 * bytecount * 8 div max 200000 (w_bandwidth w)
      else flog2 (nat \<lfloor>(1 + of_int bytecount / 1024) ^ 10 :: rat\<rfloor>))"

definition WINDOW_DECODE_ERROR :: int where "WINDOW_DECODE_ERROR = -1"

definition client_decode_error :: "wsrc \<Rightarrow> wsrc" where
  "client_decode_error w =
     (let w = upd_gstats (\<lambda>g. g\<lparr>g_decode_errors := g_decode_errors g + 1\<rparr>) w
      in if w_timers w DecodeErrorTimer = None
         then schedule_timer DecodeErrorTimer (min 1000 (250 + g_decode_errors (w_gstats w) * 100)) DecodeErrorRefresh w
         else w)"

definition decode_error_refresh :: "wenv \<Rightarrow> wsrc \<Rightarrow> unit result \<times> wsrc" where
  "decode_error_refresh e w = full_quality_refresh e Map.empty w"

text \<open>\<^verbatim>\<open>record_latency\<close> of the statistics of the client, which has decoding times in microseconds.\<close>

definition record_latency :: "wenv \<Rightarrow> int \<Rightarrow> rat \<Rightarrow> gstats \<Rightarrow> gstats" where
  "record_latency e decode_time queued_at g =
     g\<lparr>g_min_latency := min (g_min_latency g) (max 0 (e_now e - queued_at - of_int decode_time / 1000 / 1000))\<rparr>"

definition ACK_TOLERANCE :: int where "ACK_TOLERANCE = 250"

text \<open>An acknowledgement that comes later than it should is a sign of congestion.\<close>

definition check_late :: "wenv \<Rightarrow> ack \<Rightarrow> int \<Rightarrow> wsrc \<Rightarrow> wsrc" where
  "check_late e k decode_time w =
     (if k_frame k = 0 then w
      else
        let netlatency = \<lfloor>1000 * g_min_latency (w_gstats w) * of_int (100 + ACK_JITTER) / 100\<rfloor>;
            sendlatency = min 200 (estimate_send_delay (k_bytes k) w);
            live_time = ms_between (s_init_time (w_stats w)) (e_now e);
            ack_tolerance = w_jitter w + ACK_TOLERANCE + max 0 (200 - live_time div 10);
            latency = netlatency + sendlatency + decode_time + ack_tolerance;
            actual = ms_between (k_queued k) (e_now e)
        in if actual - latency > 0 \<and> (live_time \<ge> 1000 \<or> k_pixels k \<ge> 4096) then
             let actual_send_latency = actual - netlatency - decode_time;
                 late_pct = actual_send_latency * 100 div (1 + sendlatency);
                 send_speed = (if k_pixels k \<le> 4096 \<or> actual_send_latency \<le> 0 then 0 else k_bytes k * 8 * 1000 div actual_send_latency)
             in networksend_congestion_event e late_pct send_speed w
           else w)"

definition damage_packet_acked :: "wenv \<Rightarrow> int \<Rightarrow> int \<Rightarrow> int \<Rightarrow> int \<Rightarrow> wsrc \<Rightarrow> wsrc" where
  "damage_packet_acked e sequence width height decode_time w =
     (let pending = map_of (s_ack_pending (w_stats w)) sequence;
          w = upd_stats (\<lambda>s. s\<lparr>s_ack_pending := AList.delete sequence (s_ack_pending s)\<rparr>) w;
          w = (if decode_time > 0
               then upd_stats (\<lambda>s. s\<lparr>s_decode_time := push_max NRECS (s_decode_time s) (e_now e, width * height, decode_time)\<rparr>) w
               else if decode_time = WINDOW_DECODE_ERROR then client_decode_error w else w)
      in case pending of
           None \<Rightarrow> w
         | Some k \<Rightarrow>
             let w = (if decode_time > 0 then upd_gstats (record_latency e decode_time (k_queued k)) w else w);
                 w = check_late e k decode_time w
             in (case w_delayed w of
                   None \<Rightarrow> w\<lparr>w_soft_expired := 0\<rparr>
                 | Some dr \<Rightarrow> if dr_expired dr then do_action MaySendLater w else w))"

definition call_may_send_delayed :: "wenv \<Rightarrow> wsrc \<Rightarrow> unit result \<times> wsrc" where
  "call_may_send_delayed e w = may_send_delayed e (cancel_timer MaySendTimer w)"

section \<open>Timers that go off\<close>

text \<open>The timer is taken out of its slot before its function is called.\<close>

definition run_call :: "wenv \<Rightarrow> call \<Rightarrow> wsrc \<Rightarrow> unit result \<times> wsrc" where
  "run_call e c w =
     (case c of
        ExpireDelayedRegion due target \<Rightarrow> expire_delayed_region e due target w
      | MaySendDelayed \<Rightarrow> may_send_delayed e w
      | SoftTimeout \<Rightarrow> delayed_region_soft_timeout e w
      | RegionTimeout time \<Rightarrow> delayed_region_timeout e time w
      | RefreshFunction opts \<Rightarrow> refresh_timer_function e opts w
      | UpdateAvSync \<Rightarrow> (Inr (), update_av_sync_delay w)
      | DecodeErrorRefresh \<Rightarrow> decode_error_refresh e w)"

definition fire_timer :: "wenv \<Rightarrow> slot \<Rightarrow> wsrc \<Rightarrow> unit result \<times> wsrc" where
  "fire_timer e slot w =
     (case w_timers w slot of
        None \<Rightarrow> (Inr (), w)
      | Some (_, c) \<Rightarrow> run_call e c (cancel_timer slot w))"

end
