(* ===== verification/WindowSafety.thy ===== *)
theory WindowSafety
  imports WindowEncode
begin

text \<open>
  The damage of a window is never forgotten: as long as a region is waiting, one of its timers is set,
  and two of them at most go off before it is sent.
\<close>

section \<open>What sending leaves alone\<close>

definition core where
  "core w = (w_timers w, w_delayed w, w_soft_expired w, w_closed w, w_max_soft w, s_events_count (w_stats w),
     w_cancelled w, (w_refresh_regions w, w_refresh_event w, w_refresh_target w, w_refresh_encodings w, w_refresh_delay w),
     (w_encoding w, w_suspended w, w_full_frames w, s_ack_pending (w_stats w), w_gstats w))"

lemma coreD:
  assumes "core a = core b"
  shows "w_timers a = w_timers b" "w_delayed a = w_delayed b" "w_soft_expired a = w_soft_expired b" "w_closed a = w_closed b"
    "w_max_soft a = w_max_soft b" "s_events_count (w_stats a) = s_events_count (w_stats b)" "w_cancelled a = w_cancelled b"
    "w_refresh_regions a = w_refresh_regions b" "w_refresh_event a = w_refresh_event b" "w_refresh_target a = w_refresh_target b"
    "w_refresh_encodings a = w_refresh_encodings b" "w_refresh_delay a = w_refresh_delay b" "w_encoding a = w_encoding b"
    "w_suspended a = w_suspended b" "w_full_frames a = w_full_frames b" "s_ack_pending (w_stats a) = s_ack_pending (w_stats b)"
    "w_gstats a = w_gstats b"
  using assms by (simp_all add: core_def)

named_theorems core_simps "operations that only send"

lemma core_updates [core_simps]:
  "core (w\<lparr>w_dims := d\<rparr>) = core w" "core (w\<lparr>w_queue_max := n\<rparr>) = core w" "core (w\<lparr>w_discard_alpha := b\<rparr>) = core w"
  "core (w\<lparr>w_sequence := n\<rparr>) = core w" "core (w\<lparr>w_image_depth := n\<rparr>) = core w" "core (w\<lparr>w_pixel_format := f\<rparr>) = core w"
  "core (w\<lparr>w_encode_queue := q\<rparr>) = core w" "core (w\<lparr>w_out := out\<rparr>) = core w" "core (w\<lparr>w_batch := b'\<rparr>) = core w"
  by (simp_all add: core_def)

lemma core_do_action [core_simps]: "core (do_action a w) = core w"
  by (simp add: do_action_def core_simps)

lemma core_discard [core_simps]: "core (update_discard_alpha w) = core w"
  by (simp add: update_discard_alpha_def core_simps)

lemma core_dimensions [core_simps]: "core (snd (update_window_dimensions e ww wh w)) = core w"
  by (simp add: update_window_dimensions_def Let_def core_simps) (simp add: core_def)

lemma core_may_update [core_simps]: "core (snd (may_update_window_dimensions e w)) = core w"
  using core_dimensions [of e "fst (e_dims e)" "snd (e_dims e)" w]
  by (auto simp: may_update_window_dimensions_def Let_def split: prod.splits sum.splits)

lemma core_image [core_simps]: "core (snd (process_damage_image e t img coding sequence opts flush w)) = core w"
  by (simp add: process_damage_image_def do_process_damage_image_def Let_def core_simps split: prod.splits)

lemma core_region [core_simps]: "core (snd (process_damage_region e t x y rw rh coding opts flush w)) = core w"
proof -
  obtain r w1 where m: "may_update_window_dimensions e w = (r, w1)" by fastforce
  have "core w1 = core w" using core_may_update [of e w] m by simp
  with m show ?thesis
    by (auto simp: process_damage_region_def Let_def core_simps split: sum.splits prod.splits option.splits)
qed

lemma core_regions [core_simps]: "core (snd (process_regions e t opts rs w)) = core w"
proof (induction e t opts rs w rule: process_regions.induct)
  case (2 e t opts i r coding rs w)
  obtain res w1 where p: "process_damage_region e t (r_x r) (r_y r) (r_width r) (r_height r) coding opts (int i) w = (res, w1)"
    by fastforce
  have "core w1 = core w" using core_region [of e t "r_x r" "r_y r" "r_width r" "r_height r" coding opts "int i" w] p by simp
  with 2 p show ?case by (cases res) auto
qed simp

lemma core_window [core_simps]: "core (snd (process_window e t coding opts w)) = core w"
  using core_region [of e t 0 0 "fst (w_dims w)" "snd (w_dims w)" coding opts 0 w]
  by (auto simp: process_window_def split: prod.splits sum.splits)

lemma core_send [core_simps]: "core (snd (do_send_regions e t rs coding opts exclude best w)) = core w"
  by (simp add: do_send_regions_def Let_def core_simps split: sum.splits option.splits prod.splits)

lemma core_send_delayed [core_simps]: "core (snd (send_delayed_regions e dr w)) = core w"
  by (simp add: send_delayed_regions_def Let_def core_simps)

section \<open>Timers\<close>

fun slot_of :: "call \<Rightarrow> slot" where
  "slot_of (ExpireDelayedRegion due target) = ExpireTimer"
| "slot_of MaySendDelayed = MaySendTimer"
| "slot_of SoftTimeout = SoftTimer"
| "slot_of (RegionTimeout time) = TimeoutTimer"
| "slot_of (RefreshFunction opts) = RefreshTimer"
| "slot_of UpdateAvSync = AvSyncTimer"
| "slot_of DecodeErrorRefresh = DecodeErrorTimer"

definition timers_ok :: "wsrc \<Rightarrow> bool" where
  "timers_ok w \<longleftrightarrow> (\<forall>slot d c. w_timers w slot = Some (d, c) \<longrightarrow> slot_of c = slot)"

text \<open>The slots whose timers the waiting region depends on.\<close>

abbreviation region_slots :: "slot set" where "region_slots \<equiv> {ExpireTimer, SoftTimer, TimeoutTimer}"

text \<open>
  Timers are of the right kind; the soft timer and the time-out are only set while a region is waiting,
  and the time-out is the one of that region.
\<close>

definition timers_base :: "wsrc \<Rightarrow> bool" where
  "timers_base w \<longleftrightarrow> timers_ok w \<and> 0 \<le> s_events_count (w_stats w) \<and>
     (w_timers w SoftTimer \<noteq> None \<longrightarrow> w_delayed w \<noteq> None) \<and>
     (\<forall>d time. w_timers w TimeoutTimer = Some (d, RegionTimeout time) \<longrightarrow>
        (\<exists>dr. w_delayed w = Some dr \<and> dr_time dr = time \<and> dr_expired dr))"

text \<open>A region that is waiting has a timer; and the code never finds one without.\<close>

definition waits_ok :: "wsrc \<Rightarrow> bool" where
  "waits_ok w \<longleftrightarrow> timers_base w \<and>
     (w_delayed w \<noteq> None \<and> \<not> w_closed w \<longrightarrow> (\<exists>slot\<in>region_slots. w_timers w slot \<noteq> None)) \<and>
     (w_delayed w \<noteq> None \<and> \<not> w_closed w \<and> 0 < w_max_soft w \<and> w_timers w ExpireTimer = None \<and> w_timers w SoftTimer = None \<longrightarrow>
        0 < w_soft_expired w)"

text \<open>Operations that have nothing to do with the waiting region.\<close>

definition quiet :: "wsrc \<Rightarrow> wsrc \<Rightarrow> bool" where
  "quiet w w' \<longleftrightarrow> (\<forall>slot\<in>region_slots. w_timers w' slot = w_timers w slot) \<and> w_delayed w' = w_delayed w \<and>
     w_soft_expired w' = w_soft_expired w \<and> w_closed w' = w_closed w \<and> w_max_soft w' = w_max_soft w \<and>
     s_events_count (w_stats w') = s_events_count (w_stats w) \<and> (timers_ok w \<longrightarrow> timers_ok w')"

lemma quiet_refl [simp]: "quiet w w"
  by (simp add: quiet_def)

lemma quiet_trans: "quiet w w' \<Longrightarrow> quiet w' w'' \<Longrightarrow> quiet w w''"
  by (simp add: quiet_def)

lemma quiet_base: "quiet w w' \<Longrightarrow> timers_base w \<Longrightarrow> timers_base w'"
  by (simp add: quiet_def timers_base_def)

lemma quiet_waits: "quiet w w' \<Longrightarrow> waits_ok w \<Longrightarrow> waits_ok w'"
  using quiet_base [of w w'] by (auto simp: waits_ok_def quiet_def)

lemma core_timers_ok: "core w' = core w \<Longrightarrow> timers_ok w' = timers_ok w"
  by (auto simp: timers_ok_def dest: coreD(1))

lemma core_quiet: "core w' = core w \<Longrightarrow> quiet w w'"
  using coreD [of w' w] core_timers_ok [of w' w] by (simp add: quiet_def)

lemma quiet_schedule: "slot_of c = slot \<Longrightarrow> slot \<notin> region_slots \<Longrightarrow> quiet w (schedule_timer slot d c w)"
  by (auto simp: quiet_def schedule_timer_def timers_ok_def)

lemma quiet_cancel: "slot \<notin> region_slots \<Longrightarrow> quiet w (cancel_timer slot w)"
  by (auto simp: quiet_def cancel_timer_def timers_ok_def)

lemma quiet_refresh_cancel: "quiet w (cancel_refresh_timer w)"
  by (auto simp: quiet_def cancel_refresh_timer_def cancel_timer_def timers_ok_def)

lemma quiet_fields:
  "quiet w (w\<lparr>w_refresh_regions := rs\<rparr>)" "quiet w (w\<lparr>w_refresh_event := t\<rparr>)" "quiet w (w\<lparr>w_refresh_target := t\<rparr>)"
  "quiet w (w\<lparr>w_gstats := g\<rparr>)" "quiet w (w\<lparr>w_busy := b\<rparr>)" "quiet w (w\<lparr>w_packet_seq := n\<rparr>)" "quiet w (w\<lparr>w_av_delay := n\<rparr>)"
  "quiet w (w\<lparr>w_av_target := n\<rparr>)" "quiet w (w\<lparr>w_idle := i\<rparr>)" "quiet w (w\<lparr>w_iconic := i\<rparr>)" "quiet w (w\<lparr>w_suspended := i\<rparr>)"
  "quiet w (w\<lparr>w_cancelled := n\<rparr>)"
  by (simp_all add: quiet_def timers_ok_def)

lemma quiet_stats: "s_events_count s' = s_events_count (w_stats w) \<Longrightarrow> quiet w (w\<lparr>w_stats := s'\<rparr>)"
  by (simp add: quiet_def timers_ok_def)

text \<open>Rules that take an operation apart into its updates.\<close>

lemma quiet_then_stats: "quiet w v \<Longrightarrow> s_events_count s' = s_events_count (w_stats v) \<Longrightarrow> quiet w (v\<lparr>w_stats := s'\<rparr>)"
  using quiet_trans quiet_stats by blast

lemma quiet_then_gstats: "quiet w v \<Longrightarrow> quiet w (v\<lparr>w_gstats := g\<rparr>)"
  using quiet_trans quiet_fields(4) by blast

lemma quiet_then_action: "quiet w v \<Longrightarrow> quiet w (do_action a v)"
  using quiet_trans core_quiet [OF core_do_action] by blast

lemma quiet_if: "(c \<Longrightarrow> quiet w a) \<Longrightarrow> (\<not> c \<Longrightarrow> quiet w b) \<Longrightarrow> quiet w (if c then a else b)"
  by simp

lemmas quiet_steps = quiet_then_stats quiet_then_gstats quiet_then_action quiet_if

lemma quiet_congestion: "quiet w (networksend_congestion_event e late speed w)"
  by (simp add: networksend_congestion_event_def Let_def do_action_def quiet_def timers_ok_def)

lemma quiet_again: "quiet w (check_again d w)"
  by (simp add: check_again_def quiet_schedule)

lemma quiet_backlog: "quiet w (reset_backlog w)"
  by (simp add: reset_backlog_def quiet_stats)

lemma quiet_av: "quiet w (schedule_av_sync_update d w)" "quiet w (update_av_sync_delay w)"
proof -
  show s: "quiet w (schedule_av_sync_update d w)" for d w
    by (simp add: schedule_av_sync_update_def quiet_schedule quiet_fields)
  show "quiet w (update_av_sync_delay w)"
    using quiet_trans [OF quiet_fields(7) s] by (simp add: update_av_sync_delay_def Let_def quiet_fields)
qed

section \<open>Sending and expiring\<close>

lemma timers_ok_updates [simp]:
  "timers_ok w \<Longrightarrow> timers_ok (cancel_timer slot w)"
  "timers_ok w \<Longrightarrow> slot_of c = slot \<Longrightarrow> timers_ok (schedule_timer slot d c w)"
  "timers_ok (w\<lparr>w_delayed := dd\<rparr>) = timers_ok w" "timers_ok (w\<lparr>w_batch := bb\<rparr>) = timers_ok w"
  "timers_ok (w\<lparr>w_soft_expired := n\<rparr>) = timers_ok w"
  by (auto simp: timers_ok_def cancel_timer_def schedule_timer_def)

lemma cancel_timer_fields [simp]:
  "w_timers (cancel_timer slot w) = (w_timers w)(slot := None)" "w_delayed (cancel_timer slot w) = w_delayed w"
  "w_soft_expired (cancel_timer slot w) = w_soft_expired w" "w_closed (cancel_timer slot w) = w_closed w"
  "w_max_soft (cancel_timer slot w) = w_max_soft w" "w_stats (cancel_timer slot w) = w_stats w" "w_batch (cancel_timer slot w) = w_batch w"
  "w_refresh_regions (cancel_timer slot w) = w_refresh_regions w" "w_refresh_event (cancel_timer slot w) = w_refresh_event w"
  "w_encode_queue (cancel_timer slot w) = w_encode_queue w" "w_dims (cancel_timer slot w) = w_dims w"
  "w_cancelled (cancel_timer slot w) = w_cancelled w" "w_sequence (cancel_timer slot w) = w_sequence w"
  "w_full_frames (cancel_timer slot w) = w_full_frames w" "w_encoding (cancel_timer slot w) = w_encoding w"
  "w_refresh_encodings (cancel_timer slot w) = w_refresh_encodings w" "w_suspended (cancel_timer slot w) = w_suspended w"
  "w_small_regions (cancel_timer slot w) = w_small_regions w" "w_gstats (cancel_timer slot w) = w_gstats w"
  "w_bandwidth (cancel_timer slot w) = w_bandwidth w" "w_packet_seq (cancel_timer slot w) = w_packet_seq w"
  "w_refresh_delay (cancel_timer slot w) = w_refresh_delay w"
  by (simp_all add: cancel_timer_def)

text \<open>Once the region is taken out, there is nothing left to wait for.\<close>

lemma waits_without_region:
  assumes "timers_ok w" "0 \<le> s_events_count (w_stats w)" "w_delayed w = None" "w_timers w SoftTimer = None" "w_timers w TimeoutTimer = None"
  shows "waits_ok w"
  using assms by (simp add: waits_ok_def timers_base_def)

lemma do_send_delayed_region: "w_delayed (snd (do_send_delayed e w)) = None"
proof (cases "w_delayed w")
  case (Some dr)
  then show ?thesis by (simp add: do_send_delayed_def Let_def coreD(2) [OF core_send_delayed])
qed (simp add: do_send_delayed_def)

lemma do_send_delayed_waits:
  assumes "timers_ok w" "0 \<le> s_events_count (w_stats w)"
  shows "waits_ok (snd (do_send_delayed e w))"
proof (rule waits_without_region)
  have k: "timers_ok (snd (do_send_delayed e w)) \<and> w_timers (snd (do_send_delayed e w)) SoftTimer = None \<and>
    w_timers (snd (do_send_delayed e w)) TimeoutTimer = None \<and> 0 \<le> s_events_count (w_stats (snd (do_send_delayed e w)))"
    using assms
    by (cases "w_delayed w")
      (simp_all add: do_send_delayed_def Let_def coreD [OF core_send_delayed] core_timers_ok [OF core_send_delayed])
  show "timers_ok (snd (do_send_delayed e w))" "0 \<le> s_events_count (w_stats (snd (do_send_delayed e w)))"
    "w_timers (snd (do_send_delayed e w)) SoftTimer = None" "w_timers (snd (do_send_delayed e w)) TimeoutTimer = None"
    using k by blast+
qed (rule do_send_delayed_region)

text \<open>\<open>may_send_delayed\<close> either sends the region or leaves it, with its timers, alone.\<close>

lemma may_send_cases:
  obtains (sent) w0 where "may_send_delayed e w = do_send_delayed e w0" "w0 = w \<or> w0 = w\<lparr>w_soft_expired := 0\<rparr>"
  | (kept) w' where "may_send_delayed e w = (Inr (), w')" "quiet w w'"
proof (cases "w_delayed w")
  case None
  then show ?thesis by (intro kept [of w]) (simp_all add: may_send_delayed_def)
next
  case (Some dd)
  show ?thesis
  proof (cases "may_send_delayed e w = do_send_delayed e w \<or> may_send_delayed e w = do_send_delayed e (w\<lparr>w_soft_expired := 0\<rparr>)")
    case True
    then show ?thesis using sent by blast
  next
    case False
    then have "\<exists>w'. may_send_delayed e w = (Inr (), w') \<and> quiet w w'"
      using Some by (auto simp: may_send_delayed_def Let_def quiet_again quiet_backlog split: prod.splits if_splits)
    then show ?thesis using kept by blast
  qed
qed

lemma may_send_base:
  assumes "timers_base w"
  shows "waits_ok (snd (may_send_delayed e w)) \<and> w_delayed (snd (may_send_delayed e w)) = None \<or>
    (\<exists>w'. may_send_delayed e w = (Inr (), w') \<and> quiet w w')"
proof (cases rule: may_send_cases [of e w])
  case (sent w0)
  have "timers_ok w0 \<and> 0 \<le> s_events_count (w_stats w0)"
    using assms sent(2) by (auto simp: timers_base_def)
  then show ?thesis using sent(1) do_send_delayed_waits do_send_delayed_region by metis
qed auto

lemma may_send_waits:
  assumes "waits_ok w"
  shows "waits_ok (snd (may_send_delayed e w))"
proof -
  have "timers_base w" using assms by (simp add: waits_ok_def)
  from may_send_base [OF this, of e] show ?thesis using quiet_waits [OF _ assms] by auto
qed

text \<open>After it has expired, a region is sent, or one of its timers is set.\<close>

lemma wait_for_acks_waits:
  assumes "timers_base w" "w_delayed w = Some dr" "dr_expired dr" "dr_time dr = dr_time dr'"
  shows "waits_ok (wait_for_acks e due target dr' w) \<and>
    (\<not> w_closed w \<longrightarrow> w_timers (wait_for_acks e due target dr' w) SoftTimer \<noteq> None \<or>
      w_timers (wait_for_acks e due target dr' w) TimeoutTimer \<noteq> None)"
proof -
  define max_soft where "max_soft = min (1 + s_events_count (w_stats w) div 2) (w_max_soft w)"
  show ?thesis
  proof (cases "w_soft_expired w < max_soft")
    case True
    have t: "wait_for_acks e due target dr' w =
      schedule_timer SoftTimer ((w_soft_expired w + 1) * target) SoftTimeout (w\<lparr>w_soft_expired := w_soft_expired w + 1\<rparr>)"
      using True by (simp add: wait_for_acks_def Let_def max_soft_def)
    have "timers_ok (wait_for_acks e due target dr' w)" using assms(1) by (simp add: t timers_base_def)
    then show ?thesis
      using assms unfolding t by (auto simp: waits_ok_def timers_base_def schedule_timer_def)
  next
    case False
    define w1 where "w1 = (if max_soft = w_max_soft w \<and> e_now e - g_congestion_time (w_gstats w) < 10
      then networksend_congestion_event e (2 * 100 * w_soft_expired w) 0 w else w)"
    have q: "quiet w w1" by (simp add: w1_def quiet_congestion)
    have t: "wait_for_acks e due target dr' w =
      (if w_timers w1 TimeoutTimer = None
       then schedule_timer TimeoutTimer (b_timeout_delay (w_batch w1)) (RegionTimeout (dr_time dr')) w1 else w1)"
      using False unfolding wait_for_acks_def Let_def max_soft_def [symmetric] w1_def [symmetric] by simp
    have s: "0 < w_soft_expired w" if "0 < w_max_soft w"
    proof -
      have "0 < max_soft" using that assms(1) by (simp add: max_soft_def timers_base_def pos_imp_zdiv_nonneg_iff add_pos_nonneg)
      then show ?thesis using False by linarith
    qed
    have b: "timers_base w1" by (rule quiet_base [OF q assms(1)])
    have d: "w_delayed w1 = Some dr" "w_soft_expired w1 = w_soft_expired w" "w_max_soft w1 = w_max_soft w" "w_closed w1 = w_closed w"
      using q assms(2) by (simp_all add: quiet_def)
    show ?thesis
    proof (cases "w_timers w1 TimeoutTimer = None \<and> \<not> w_closed w1")
      case True
      have "timers_ok (wait_for_acks e due target dr' w)" using b by (simp add: t timers_base_def)
      then show ?thesis
        using True b d s assms(3,4) unfolding t by (auto simp: waits_ok_def timers_base_def schedule_timer_def)
    next
      case False
      then have "wait_for_acks e due target dr' w = w1" by (auto simp: t schedule_timer_def)
      then show ?thesis using False b d s by (auto simp: waits_ok_def)
    qed
  qed
qed

lemma expire_waits:
  assumes "timers_base w"
  shows "waits_ok (snd (expire_delayed_region e due target w))"
    and "due \<le> e_now e \<Longrightarrow> \<not> w_closed w \<Longrightarrow> w_delayed (snd (expire_delayed_region e due target w)) = None \<or>
      w_timers (snd (expire_delayed_region e due target w)) SoftTimer \<noteq> None \<or>
      w_timers (snd (expire_delayed_region e due target w)) TimeoutTimer \<noteq> None"
proof -
  have "waits_ok (snd (expire_delayed_region e due target w)) \<and>
    (due \<le> e_now e \<longrightarrow> \<not> w_closed w \<longrightarrow> w_delayed (snd (expire_delayed_region e due target w)) = None \<or>
      w_timers (snd (expire_delayed_region e due target w)) SoftTimer \<noteq> None \<or>
      w_timers (snd (expire_delayed_region e due target w)) TimeoutTimer \<noteq> None)"
  proof (cases "w_delayed w = None \<or> w_timers w SoftTimer \<noteq> None")
    case True
    then have "snd (expire_delayed_region e due target w) = w"
      by (auto simp: expire_delayed_region_def split: option.splits)
    then show ?thesis using True assms by (auto simp: waits_ok_def)
  next
    case False
    then obtain dr where dr: "w_delayed w = Some dr" "w_timers w SoftTimer = None" by (metis option.exhaust)
    let ?w = "cancel_timer MaySendTimer (w\<lparr>w_delayed := Some (dr\<lparr>dr_expired := True\<rparr>)\<rparr>)"
    have b: "timers_base ?w" using assms dr by (auto simp: timers_base_def)
    from may_send_base [OF b, of e] show ?thesis
    proof (elim disjE)
      assume "waits_ok (snd (may_send_delayed e ?w)) \<and> w_delayed (snd (may_send_delayed e ?w)) = None"
      then show ?thesis using dr by (auto simp: expire_delayed_region_def split: prod.splits sum.splits)
    next
      assume "\<exists>w'. may_send_delayed e ?w = (Inr (), w') \<and> quiet ?w w'"
      then obtain w' where m: "may_send_delayed e ?w = (Inr (), w')" and q: "quiet ?w w'" by blast
      have b': "timers_base w'" by (rule quiet_base [OF q b])
      have d': "w_delayed w' = Some (dr\<lparr>dr_expired := True\<rparr>)" "w_closed w' = w_closed w" using q by (simp_all add: quiet_def)
      show ?thesis
      proof (cases "e_now e < due")
        case True
        let ?d = "max (b_min_delay (w_batch w')) (min (b_expire_delay (w_batch w')) (ms_between (e_now e) due))"
        have t: "snd (expire_delayed_region e due target w) = schedule_timer ExpireTimer ?d (ExpireDelayedRegion due 100) w'"
          using dr m d' True by (simp add: expire_delayed_region_def)
        have "timers_ok (schedule_timer ExpireTimer ?d (ExpireDelayedRegion due 100) w')" using b' by (simp add: timers_base_def)
        then show ?thesis
          using True b' d' unfolding t by (auto simp: waits_ok_def timers_base_def schedule_timer_def)
      next
        case False
        then have "snd (expire_delayed_region e due target w) = wait_for_acks e due target dr w'"
          using dr m d' by (simp add: expire_delayed_region_def)
        then show ?thesis using wait_for_acks_waits [OF b' d'(1), of dr] d'(2) by simp
      qed
    qed
  qed
  then show "waits_ok (snd (expire_delayed_region e due target w))"
    and "due \<le> e_now e \<Longrightarrow> \<not> w_closed w \<Longrightarrow> w_delayed (snd (expire_delayed_region e due target w)) = None \<or>
      w_timers (snd (expire_delayed_region e due target w)) SoftTimer \<noteq> None \<or>
      w_timers (snd (expire_delayed_region e due target w)) TimeoutTimer \<noteq> None"
    by blast+
qed

section \<open>The other operations\<close>

lemma cancel_refresh_fields [simp]:
  "w_timers (cancel_refresh_timer w) = (w_timers w)(RefreshTimer := None)" "w_delayed (cancel_refresh_timer w) = w_delayed w"
  "w_closed (cancel_refresh_timer w) = w_closed w" "w_max_soft (cancel_refresh_timer w) = w_max_soft w"
  "w_soft_expired (cancel_refresh_timer w) = w_soft_expired w" "w_stats (cancel_refresh_timer w) = w_stats w"
  "w_dims (cancel_refresh_timer w) = w_dims w" "w_cancelled (cancel_refresh_timer w) = w_cancelled w"
  "w_sequence (cancel_refresh_timer w) = w_sequence w" "w_refresh_encodings (cancel_refresh_timer w) = w_refresh_encodings w"
  "w_encode_queue (cancel_refresh_timer w) = w_encode_queue w" "w_encoding (cancel_refresh_timer w) = w_encoding w"
  "w_full_frames (cancel_refresh_timer w) = w_full_frames w" "w_refresh_regions (cancel_refresh_timer w) = w_refresh_regions w"
  "w_suspended (cancel_refresh_timer w) = w_suspended w" "w_refresh_delay (cancel_refresh_timer w) = w_refresh_delay w"
  by (simp_all add: cancel_refresh_timer_def)

lemma cancel_damage_fields [simp]:
  "w_delayed (cancel_damage e limit w) = None" "w_refresh_regions (cancel_damage e limit w) = []"
  "w_closed (cancel_damage e limit w) = w_closed w" "w_max_soft (cancel_damage e limit w) = w_max_soft w"
  "w_soft_expired (cancel_damage e limit w) = w_soft_expired w" "w_dims (cancel_damage e limit w) = w_dims w"
  "s_events_count (w_stats (cancel_damage e limit w)) = s_events_count (w_stats w)"
  "w_cancelled (cancel_damage e limit w) = (if limit \<noteq> 0 then limit else w_sequence w)"
  "w_sequence (cancel_damage e limit w) = w_sequence w" "w_refresh_encodings (cancel_damage e limit w) = w_refresh_encodings w"
  "w_encode_queue (cancel_damage e limit w) = w_encode_queue w" "w_encoding (cancel_damage e limit w) = w_encoding w"
  "w_full_frames (cancel_damage e limit w) = w_full_frames w"
  by (simp_all add: cancel_damage_def do_action_def Let_def)

lemma cancel_damage_timers [simp]: "w_timers (cancel_damage e limit w) = (\<lambda>_. None)"
proof
  show "w_timers (cancel_damage e limit w) slot = None" for slot
    by (cases slot) (simp_all add: cancel_damage_def do_action_def Let_def)
qed

lemma cancelled_waits:
  assumes "0 \<le> s_events_count (w_stats w)"
  shows "waits_ok (cancel_damage e limit w)"
proof (rule waits_without_region)
  show "timers_ok (cancel_damage e limit w)" by (simp add: timers_ok_def)
qed (use assms in simp_all)

lemma quiet_full_refresh: "quiet w (snd (full_quality_refresh e opts w))"
proof -
  have "quiet w (snd (send_delayed_regions e dr (w\<lparr>w_refresh_regions := []\<rparr>)))" for dr
    using quiet_trans [OF quiet_fields(1) core_quiet [OF core_send_delayed]] by blast
  then show ?thesis by (simp add: full_quality_refresh_def Let_def quiet_fields split: prod.splits sum.splits)
qed

lemma timeout_waits:
  assumes "timers_base w" "w_timers w TimeoutTimer = Some (d, RegionTimeout time)"
  shows "waits_ok (snd (delayed_region_timeout e time (cancel_timer TimeoutTimer w)))"
    and "w_delayed (snd (delayed_region_timeout e time (cancel_timer TimeoutTimer w))) = None"
proof -
  obtain dr where dr: "w_delayed w = Some dr" "dr_time dr = time" using assms by (auto simp: timers_base_def)
  let ?c = "cancel_damage e 0 (cancel_timer TimeoutTimer w)"
  define w1 where "w1 = (cancel_timer SoftTimer (cancel_refresh_timer (cancel_timer ExpireTimer ?c)))\<lparr>w_delayed := None\<rparr>"
  have t: "delayed_region_timeout e time (cancel_timer TimeoutTimer w) = full_quality_refresh e (dr_options dr) w1"
    using dr by (simp add: delayed_region_timeout_def Let_def w1_def)
  have "waits_ok ?c" using assms by (intro cancelled_waits) (simp add: timers_base_def)
  then have "timers_ok ?c" "0 \<le> s_events_count (w_stats ?c)" by (simp_all add: waits_ok_def timers_base_def)
  then have w1: "waits_ok w1" "w_delayed w1 = None"
    by (auto simp: w1_def timers_ok_def intro!: waits_without_region)
  show "waits_ok (snd (delayed_region_timeout e time (cancel_timer TimeoutTimer w)))"
    unfolding t by (rule quiet_waits [OF quiet_full_refresh w1(1)])
  show "w_delayed (snd (delayed_region_timeout e time (cancel_timer TimeoutTimer w))) = None"
    unfolding t using quiet_full_refresh [of w1 e "dr_options dr"] w1(2) by (simp add: quiet_def)
qed

lemma quiet_timer_refresh: "quiet w (snd (refresh_timer_function e opts w))"
proof -
  have f: "quiet w (w\<lparr>w_refresh_event := t, w_refresh_regions := rs\<rparr>)" for t rs
    using quiet_trans [OF quiet_fields(2) quiet_fields(1)] by blast
  have "quiet w (snd (timer_full_refresh e w))"
    using quiet_trans [OF f core_quiet [OF core_send]] f by (simp add: timer_full_refresh_def Let_def)
  then show ?thesis by (simp add: refresh_timer_function_def Let_def quiet_schedule quiet_fields)
qed

lemma quiet_delay_refresh: "quiet w (delay_refresh e ww wh opts w)"
  by (simp add: delay_refresh_def Let_def quiet_fields)

lemma extend_waits:
  assumes "waits_ok w" "w_delayed w = Some dr"
  shows "waits_ok (extend_delayed e ww wh region opts dr w)"
proof -
  have t: "timers_ok w" "0 \<le> s_events_count (w_stats w)" using assms(1) by (simp_all add: waits_ok_def timers_base_def)
  have "timers_ok (extend_delayed e ww wh region opts dr w)" using t(1) by (simp add: extend_delayed_def Let_def)
  then show ?thesis
    using assms t(2) unfolding extend_delayed_def Let_def waits_ok_def timers_base_def
    by (auto simp: schedule_timer_def split: if_splits)
qed

lemma start_waits:
  assumes "waits_ok w" "w_delayed w = None"
  shows "waits_ok (start_delayed e region opts w)"
proof -
  have t: "timers_ok w" "0 \<le> s_events_count (w_stats w)" using assms(1) by (simp_all add: waits_ok_def timers_base_def)
  have "timers_ok (start_delayed e region opts w)" using t(1) by (simp add: start_delayed_def Let_def)
  moreover have "w_timers w SoftTimer = None" "w_timers w TimeoutTimer = None"
  proof -
    show "w_timers w SoftTimer = None" using assms unfolding waits_ok_def timers_base_def by blast
    show "w_timers w TimeoutTimer = None"
    proof (rule ccontr)
      assume "w_timers w TimeoutTimer \<noteq> None"
      then obtain d c where c: "w_timers w TimeoutTimer = Some (d, c)" by fastforce
      then have "slot_of c = TimeoutTimer" using t(1) by (simp add: timers_ok_def)
      then obtain time where "c = RegionTimeout time" by (cases c) simp_all
      then show False using c assms by (auto simp: waits_ok_def timers_base_def)
    qed
  qed
  ultimately show ?thesis
    using t(2) unfolding start_delayed_def Let_def waits_ok_def timers_base_def
    by (auto simp: schedule_timer_def)
qed

lemma do_damage_waits:
  assumes "waits_ok w"
  shows "waits_ok (snd (do_damage e ww wh x y rw rh opts w))"
proof -
  have w: "waits_ok (delay_refresh e ww wh opts w)" by (rule quiet_waits [OF quiet_delay_refresh assms])
  then show ?thesis
    using extend_waits [OF w] start_waits [OF w]
    by (simp add: do_damage_def Let_def split: option.splits sum.splits)
qed

lemma damage_area_waits:
  assumes "waits_ok w"
  shows "waits_ok (snd (damage_area e ww wh x y rw rh opts w))"
proof -
  have s: "waits_ok (v\<lparr>w_stats := w_stats v\<lparr>s_last_event := t\<rparr>\<rparr>)" if "waits_ok v" for v t
    by (rule quiet_waits [OF quiet_stats that]) simp
  obtain r v where d: "do_damage e ww wh x y rw rh opts w = (r, v)" by fastforce
  have "waits_ok v" using do_damage_waits [OF assms, of e ww wh x y rw rh opts] d by simp
  then show ?thesis using s assms d by (simp add: damage_area_def split: sum.splits)
qed

lemma damage_waits:
  assumes "waits_ok w"
  shows "waits_ok (snd (damage e x y rw rh opts w))"
proof -
  define w1 where "w1 = (if bool_opt opts ''damage'' then count_damage e x y rw rh w else w)"
  have "waits_ok w1" using assms by (auto simp: w1_def count_damage_def waits_ok_def timers_base_def timers_ok_def)
  moreover obtain r w2 where m: "may_update_window_dimensions e w1 = (r, w2)" by fastforce
  then have "core w2 = core w1" using core_may_update [of e w1] by simp
  ultimately have "waits_ok w2" using quiet_waits [OF core_quiet] by blast
  then show ?thesis
    using assms m by (auto simp: damage_def w1_def [symmetric] Let_def damage_area_waits split: sum.splits)
qed

lemma quiet_lossy: "quiet w (lossy_refresh e region opts w)"
proof -
  obtain added rs where added: "add_rectangle region (w_refresh_regions w) = (added, rs)" by fastforce
  define pct where "pct = (if window_pixels e w \<le> 0 then 100 else 100 * region_pixels e region div window_pixels e w)"
  define w1 where "w1 = (if pct = 100 then cancel_refresh_timer (w\<lparr>w_refresh_regions := rs\<rparr>) else w\<lparr>w_refresh_regions := rs\<rparr>)"
  have q1: "quiet w w1"
    using quiet_trans [OF quiet_fields(1) quiet_refresh_cancel] by (simp add: w1_def quiet_fields)
  have q2: "quiet w1 (postpone_refresh e a p n w1)" for a p n
    unfolding postpone_refresh_def Let_def by (rule quiet_fields)
  have q3: "quiet w1 (start_refresh e p opts w1)" for p
  proof -
    have "quiet w1 (w1\<lparr>w_refresh_event := t, w_refresh_target := t'\<rparr>)" for t t'
      using quiet_trans [OF quiet_fields(2) quiet_fields(3)] by blast
    then show ?thesis
      unfolding start_refresh_def Let_def by (rule quiet_trans [OF _ quiet_schedule]) simp_all
  qed
  have "lossy_refresh e region opts w =
    (if w_timers w1 RefreshTimer = None then
       (if region_pixels e region \<le> 0 \<or> rs = [] then w1 else start_refresh e pct opts w1)
     else postpone_refresh e added pct (window_pixels e w) w1)"
    using added unfolding lossy_refresh_def Let_def w1_def pct_def by (simp only: prod.case)
  then show ?thesis using q1 quiet_trans [OF q1 q2] quiet_trans [OF q1 q3] by simp
qed

lemma quiet_auto_refresh: "quiet w (schedule_auto_refresh e d opts w)"
proof -
  have "quiet w (cancel_refresh_timer (w\<lparr>w_refresh_regions := rs\<rparr>))" for rs
    using quiet_trans [OF quiet_fields(1) quiet_refresh_cancel] by blast
  then show ?thesis
    by (simp add: schedule_auto_refresh_def do_schedule_auto_refresh_def Let_def quiet_refresh_cancel quiet_lossy quiet_fields)
qed

lemma quiet_begin: "quiet w (begin_encode w)"
  by (auto simp: begin_encode_def quiet_def timers_ok_def split: list.splits sum.splits option.splits)

lemma quiet_draw: "quiet w (snd (make_draw_packet x y outw outh coding data stride co opts w))"
  by (simp add: make_draw_packet_def quiet_fields split: prod.splits)

lemma quiet_packet: "quiet w (snd (make_data_packet e encs q w))"
proof -
  have s: "quiet w v"
    if "make_draw_packet x y outw outh coding data stride co opts (w\<lparr>w_stats := w_stats w\<lparr>s_encoding_stats := es\<rparr>\<rparr>) = (d, v)"
    for x y outw outh coding data stride co opts es d v
  proof -
    have "quiet w (snd (make_draw_packet x y outw outh coding data stride co opts (w\<lparr>w_stats := w_stats w\<lparr>s_encoding_stats := es\<rparr>\<rparr>)))"
      by (rule quiet_trans [OF quiet_stats quiet_draw]) simp
    with that show ?thesis by simp
  qed
  show ?thesis
    by (auto simp: make_data_packet_def Let_def intro: s split: option.splits sum.splits prod.splits)
qed

lemma quiet_queue: "quiet w (queue_damage_packet e d t0 t1 opts w)"
  unfolding queue_damage_packet_def Let_def by (intro quiet_steps quiet_auto_refresh) simp_all

lemma quiet_finish: "quiet w (finish_encode e encs w)"
proof (cases "w_busy w")
  case (Some q)
  obtain r w1 where m: "make_data_packet e encs q (w\<lparr>w_busy := None\<rparr>) = (r, w1)" by fastforce
  have "quiet w w1" using quiet_trans [OF quiet_fields(5) quiet_packet] m by (metis snd_conv)
  then have q: "quiet w (upd_stats (\<lambda>s. s\<lparr>s_encoding_pending := AList.delete (q_sequence q) (s_encoding_pending s)\<rparr>) w1)"
    by (rule quiet_then_stats) simp
  show ?thesis using Some m q quiet_trans [OF q quiet_queue] by (simp add: finish_encode_def Let_def split: sum.splits option.splits)
qed (simp add: finish_encode_def)

lemma quiet_decode_error: "quiet w (client_decode_error w)"
  using quiet_trans [OF quiet_fields(4) quiet_schedule [of DecodeErrorRefresh DecodeErrorTimer]]
  by (simp add: client_decode_error_def Let_def quiet_fields)

lemma quiet_late: "quiet w (check_late e k t w)"
  by (simp add: check_late_def Let_def quiet_congestion)

text \<open>An acknowledgement only matters to the soft timer's count, and for the call that it asks for.\<close>

lemma acked_cases:
  obtains v where "quiet w v"
    "damage_packet_acked e sequence width height decode_time w = v \<or>
     (w_delayed v = None \<and> damage_packet_acked e sequence width height decode_time w = v\<lparr>w_soft_expired := 0\<rparr>) \<or>
     damage_packet_acked e sequence width height decode_time w = do_action MaySendLater v"
proof -
  define w1 where "w1 = upd_stats (\<lambda>s. s\<lparr>s_ack_pending := AList.delete sequence (s_ack_pending s)\<rparr>) w"
  define w2 where "w2 = (if decode_time > 0
    then upd_stats (\<lambda>s. s\<lparr>s_decode_time := push_max NRECS (s_decode_time s) (e_now e, width * height, decode_time)\<rparr>) w1
    else if decode_time = WINDOW_DECODE_ERROR then client_decode_error w1 else w1)"
  have q1: "quiet w w1" unfolding w1_def by (rule quiet_stats) simp
  have q2: "quiet w w2"
    unfolding w2_def using q1 quiet_trans [OF q1 quiet_decode_error] by (intro quiet_if quiet_then_stats) simp_all
  have q3: "quiet w (check_late e k decode_time (if decode_time > 0 then upd_gstats (record_latency e decode_time (k_queued k)) w2 else w2))" for k
    using quiet_trans [OF q2 quiet_trans [OF quiet_fields(4) quiet_late]] quiet_trans [OF q2 quiet_late] by simp
  have d: "damage_packet_acked e sequence width height decode_time w =
    (case map_of (s_ack_pending (w_stats w)) sequence of
       None \<Rightarrow> w2
     | Some k \<Rightarrow>
         let v = check_late e k decode_time (if decode_time > 0 then upd_gstats (record_latency e decode_time (k_queued k)) w2 else w2)
         in (case w_delayed v of
               None \<Rightarrow> v\<lparr>w_soft_expired := 0\<rparr>
             | Some dr \<Rightarrow> if dr_expired dr then do_action MaySendLater v else v))"
    unfolding damage_packet_acked_def w2_def w1_def Let_def by simp
  show ?thesis
  proof (cases "map_of (s_ack_pending (w_stats w)) sequence")
    case None
    then show ?thesis using that [OF q2] unfolding d by simp
  next
    case (Some k)
    define v where "v = check_late e k decode_time (if decode_time > 0 then upd_gstats (record_latency e decode_time (k_queued k)) w2 else w2)"
    have "quiet w v" unfolding v_def by (rule q3)
    then show ?thesis
      using that [of v] unfolding d Some option.case Let_def v_def [symmetric] by (cases "w_delayed v") auto
  qed
qed

lemma acked_waits:
  assumes "waits_ok w"
  shows "waits_ok (damage_packet_acked e sequence width height decode_time w)"
proof -
  obtain v where v: "quiet w v"
    "damage_packet_acked e sequence width height decode_time w = v \<or>
     (w_delayed v = None \<and> damage_packet_acked e sequence width height decode_time w = v\<lparr>w_soft_expired := 0\<rparr>) \<or>
     damage_packet_acked e sequence width height decode_time w = do_action MaySendLater v"
    by (rule acked_cases)
  have w: "waits_ok v" by (rule quiet_waits [OF v(1) assms])
  moreover have "waits_ok (v\<lparr>w_soft_expired := 0\<rparr>)" if "w_delayed v = None"
    using w that by (simp add: waits_ok_def timers_base_def)
  moreover have "waits_ok (do_action MaySendLater v)" by (rule quiet_waits [OF core_quiet [OF core_do_action] w])
  ultimately show ?thesis using v(2) by auto
qed

lemma quiet_idle: "quiet w (go_idle w)" "quiet w (no_idle w)" "quiet w (iconic_changed b w)"
  by (auto simp: go_idle_def no_idle_def iconic_changed_def lock_batch_delay_def unlock_batch_delay_def Let_def quiet_def timers_ok_def)

lemma reset_waits: "waits_ok w \<Longrightarrow> waits_ok (reset_stats e w)"
  by (auto simp: reset_stats_def new_stats_def waits_ok_def timers_base_def timers_ok_def)

text \<open>A timer that goes off leaves its slot first.\<close>

lemma fire_waits:
  assumes "waits_ok w"
  shows "waits_ok (snd (fire_timer e slot w))"
proof (cases "w_timers w slot")
  case (Some dc)
  obtain d c where t: "w_timers w slot = Some (d, c)" using Some by fastforce
  have b: "timers_base w" "timers_ok w" "0 \<le> s_events_count (w_stats w)" using assms by (simp_all add: waits_ok_def timers_base_def)
  have c: "slot_of c = slot" using b(2) t by (simp add: timers_ok_def)
  have f: "fire_timer e slot w = run_call e c (cancel_timer slot w)" using t by (simp add: fire_timer_def)
  show ?thesis
  proof (cases c)
    case (ExpireDelayedRegion due target)
    have "timers_base (cancel_timer slot w)" using b(1) c ExpireDelayedRegion by (auto simp: timers_base_def)
    from expire_waits(1) [OF this] show ?thesis by (simp add: f run_call_def ExpireDelayedRegion)
  next
    case SoftTimeout
    have "waits_ok (snd (do_send_delayed e (cancel_timer slot w)))" using b by (intro do_send_delayed_waits) simp_all
    then show ?thesis by (simp add: f run_call_def SoftTimeout delayed_region_soft_timeout_def)
  next
    case (RegionTimeout time)
    have "waits_ok (snd (delayed_region_timeout e time (cancel_timer TimeoutTimer w)))"
      using t c RegionTimeout by (intro timeout_waits [OF b(1)]) auto
    then show ?thesis using c f by (auto simp: run_call_def RegionTimeout)
  next
    case MaySendDelayed
    have "waits_ok (cancel_timer slot w)" using c MaySendDelayed by (intro quiet_waits [OF quiet_cancel assms]) auto
    then show ?thesis using may_send_waits by (simp add: f run_call_def MaySendDelayed)
  next
    case (RefreshFunction opts)
    have "waits_ok (cancel_timer slot w)" using c RefreshFunction by (intro quiet_waits [OF quiet_cancel assms]) auto
    then show ?thesis using quiet_waits [OF quiet_timer_refresh] by (simp add: f run_call_def RefreshFunction)
  next
    case UpdateAvSync
    have "waits_ok (cancel_timer slot w)" using c UpdateAvSync by (intro quiet_waits [OF quiet_cancel assms]) auto
    then show ?thesis using quiet_waits [OF quiet_av(2)] by (simp add: f run_call_def UpdateAvSync)
  next
    case DecodeErrorRefresh
    have "waits_ok (cancel_timer slot w)" using c DecodeErrorRefresh by (intro quiet_waits [OF quiet_cancel assms]) auto
    then show ?thesis using quiet_waits [OF quiet_full_refresh] by (simp add: f run_call_def DecodeErrorRefresh decode_error_refresh_def)
  qed
qed (simp add: fire_timer_def assms)

section \<open>Steps\<close>

text \<open>
  What may happen to a source, in any order and at any time: damage, its timers, the encode thread,
  acknowledgements, the calls from the main loop, requests for a refresh, windows that come and go, and
  changes of the settings by operations that are not modelled.
\<close>

inductive wstep :: "wsrc \<Rightarrow> wsrc \<Rightarrow> bool" where
  Damaged: "wstep w (snd (damage e x y rw rh opts w))"
| TimerFires: "wstep w (snd (fire_timer e slot w))"
| Acked: "wstep w (damage_packet_acked e sequence width height decode_time w)"
| Called: "wstep w (snd (call_may_send_delayed e w))"
| EncodeBegins: "wstep w (begin_encode w)"
| EncodeEnds: "wstep w (finish_encode e encs w)"
| FullRefresh: "wstep w (snd (full_quality_refresh e opts w))"
| Unmapped: "wstep w (unmap e w)"
| Suspended: "wstep w (suspend e w)"
| Resumed: "wstep w (snd (resume e w))"
| Iconic: "wstep w (iconic_changed b w)"
| Mapped: "wstep w (no_idle w)"
| AvSync: "wstep w (schedule_av_sync_update d w)"
| StatsReset: "wstep w (reset_stats e w)"
| CleanedUp: "wstep w (cleanup_source e w)"
| Encodings: "wstep w (w\<lparr>w_encoding := encoding, w_refresh_encodings := encodings\<rparr>)"
| Settings: "wstep w (w\<lparr>w_quality := y, w_bandwidth := n\<rparr>)"

lemma waits_count: "waits_ok w \<Longrightarrow> 0 \<le> s_events_count (w_stats w)"
  by (simp add: waits_ok_def timers_base_def)

lemma idle_waits: "waits_ok w \<Longrightarrow> waits_ok (reset_stats e (cancel_damage e 0 w))"
  by (intro reset_waits cancelled_waits waits_count)

lemma suspended_waits: "waits_ok w \<Longrightarrow> waits_ok (w\<lparr>w_suspended := b\<rparr>)"
  by (rule quiet_waits [OF quiet_fields(11)])

lemma wstep_waits: "wstep w w' \<Longrightarrow> waits_ok w \<Longrightarrow> waits_ok w'"
proof (induction rule: wstep.induct)
  case (Called w e)
  have "waits_ok (cancel_timer MaySendTimer w)" by (rule quiet_waits [OF quiet_cancel Called]) simp
  then show ?case using may_send_waits by (simp add: call_may_send_delayed_def)
next
  case (CleanedUp w e)
  then show ?case unfolding cleanup_source_def by (intro cancelled_waits) (simp add: waits_count)
next
  case (Encodings w encodings encoding)
  have "quiet w (w\<lparr>w_encoding := encoding, w_refresh_encodings := encodings\<rparr>)" by (simp add: quiet_def timers_ok_def)
  from quiet_waits [OF this Encodings] show ?case .
next
  case (Settings w n y)
  have "quiet w (w\<lparr>w_quality := y, w_bandwidth := n\<rparr>)" by (simp add: quiet_def timers_ok_def)
  from quiet_waits [OF this Settings] show ?case .
next
  case (Unmapped w e)
  show ?case unfolding unmap_def by (rule quiet_waits [OF quiet_idle(1) idle_waits [OF Unmapped]])
next
  case (Suspended w e)
  then show ?case unfolding suspend_def by (intro suspended_waits idle_waits)
next
  case (Resumed w e)
  then show ?case unfolding resume_def refresh_def by (intro damage_waits suspended_waits idle_waits)
qed (simp_all add: damage_waits fire_waits acked_waits reset_waits quiet_waits [OF quiet_begin] quiet_waits [OF quiet_finish]
       quiet_waits [OF quiet_full_refresh] quiet_waits [OF quiet_idle(2)] quiet_waits [OF quiet_idle(3)] quiet_waits [OF quiet_av(1)])

definition new_source_of :: "wsrc \<Rightarrow> bool" where
  "new_source_of w \<longleftrightarrow> (\<exists>now wid dims max_soft encoding encodings delay. w = new_wsrc now wid dims max_soft encoding encodings delay)"

lemma reachable_waits:
  assumes "wstep\<^sup>*\<^sup>* w0 w" "new_source_of w0"
  shows "waits_ok w"
  using assms
proof (induction rule: rtranclp_induct)
  case base
  then show ?case
    by (auto simp: new_source_of_def new_wsrc_def new_stats_def waits_ok_def timers_base_def timers_ok_def)
qed (use wstep_waits in blast)

section \<open>Every waiting region has a timer\<close>

text \<open>
  A source and an environment to look at: a window of 100 by 100 pixels that is shown, at a given time.
\<close>

definition demo_source :: wsrc where
  "demo_source = new_wsrc 0 1 (100, 100) 5 ''png'' [''png''] 150"

definition demo_image :: "int \<Rightarrow> int \<Rightarrow> int \<Rightarrow> int \<Rightarrow> image" where
  "demo_image x y a b =
     \<lparr>i_x = x, i_y = y, i_target_x = x, i_target_y = y, i_width = a, i_height = b, i_pixels = [], i_format = ''BGRX'', i_depth = 24,
      i_stride = 4 * a, i_bpp = 4, i_planes = 0, i_safe = True, i_freed = False\<rparr>"

definition demo_env :: "rat \<Rightarrow> wenv" where
  "demo_env now =
     \<lparr>e_now = now, e_main = True, e_managed = True, e_dims = (100, 100), e_image = (\<lambda>x y a b. Some (demo_image x y a b)),
      e_queue_size = 0, e_encoding = (\<lambda>_ _ _ _. ''png''), e_refresh_encoding = (\<lambda>_ _ _ _. ''png''), e_full_frame = (\<lambda>_. False),
      e_defer = (\<lambda>_ _ _ _. False), e_exclude = None\<rparr>"

lemma demo_new: "new_source_of demo_source"
  unfolding new_source_of_def demo_source_def by blast

lemma demo_damage:
  "damage (demo_env t) 10 10 20 20 Map.empty demo_source =
     (Inr True, upd_stats (\<lambda>s. s\<lparr>s_last_event := t\<rparr>) (start_delayed (demo_env t) (rect 10 10 20 20) Map.empty demo_source))"
proof -
  have d: "delay_refresh (demo_env t) 100 100 Map.empty demo_source = demo_source"
    by (simp add: delay_refresh_def demo_source_def new_wsrc_def)
  have m: "may_update_window_dimensions (demo_env t) demo_source = (Inr (100, 100), demo_source)"
    by (simp add: may_update_window_dimensions_def demo_env_def demo_source_def new_wsrc_def)
  have s: "w_suspended demo_source = False" "w_full_frames demo_source = False" "w_delayed demo_source = None"
    by (simp_all add: demo_source_def new_wsrc_def)
  have e: "e_defer (demo_env t) a b c g = False" "e_now (demo_env t) = t" for a b c g by (simp_all add: demo_env_def)
  have n: "bool_opt Map.empty ''damage'' = False" by (simp add: bool_opt_def num_opt_def)
  show ?thesis
    using m s e n d by (simp add: damage_def damage_area_def do_damage_def new_rectangle_def MAX_WINDOW_SIZE_def Let_def)
qed

lemma demo_damaged:
  "w_delayed (snd (damage (demo_env t) 10 10 20 20 Map.empty demo_source)) =
     Some \<lparr>dr_time = t, dr_encoding = ''png'', dr_options = Map.empty, dr_regions = [rect 10 10 20 20], dr_expired = False\<rparr>"
  "\<not> w_closed (snd (damage (demo_env t) 10 10 20 20 Map.empty demo_source))"
  unfolding demo_damage
  by (simp_all add: start_delayed_def schedule_timer_def str_opt_def Let_def demo_source_def new_wsrc_def demo_env_def)

lemma demo_due:
  assumes "w_timers (snd (damage (demo_env t) 10 10 20 20 Map.empty demo_source)) ExpireTimer = Some (d, ExpireDelayedRegion due target)"
  shows "due \<le> t + 1"
proof -
  have b: "b_expire_delay (w_batch demo_source) = 250" "b_last_actual_delay (w_batch demo_source) = None"
    "b_last_delay (w_batch demo_source) = None" "w_closed demo_source = False" "w_timers demo_source ExpireTimer = None"
    by (simp_all add: demo_source_def new_wsrc_def new_batch_def)
  obtain x :: int where "due = t + of_int (min 250 x) / 1000"
    using assms b unfolding demo_damage
    by (auto simp: start_delayed_def schedule_timer_def delay_increase_def Let_def demo_env_def)
  moreover have "of_int (min 250 x) \<le> (250 :: rat)" by (simp add: min_def)
  ultimately show ?thesis by simp
qed

lemma demo_step: "wstep\<^sup>*\<^sup>* demo_source (snd (damage (demo_env t) 10 10 20 20 Map.empty demo_source))"
  by (rule r_into_rtranclp [of wstep]) (rule wstep.Damaged)



section \<open>Two timers at most\<close>

text \<open>The timer that decides: the soft timer, else the time-out, else the one that expires the region.\<close>

definition next_timer :: "wsrc \<Rightarrow> slot" where
  "next_timer w = (if w_timers w SoftTimer \<noteq> None then SoftTimer else if w_timers w TimeoutTimer \<noteq> None then TimeoutTimer else ExpireTimer)"

lemma timer_of_slot: "timers_ok w \<Longrightarrow> w_timers w slot \<noteq> None \<Longrightarrow> \<exists>d c. w_timers w slot = Some (d, c) \<and> slot_of c = slot"
  by (force simp: timers_ok_def)

lemma soft_or_timeout_sends:
  assumes "timers_base w" "w_timers w SoftTimer \<noteq> None \<or> w_timers w TimeoutTimer \<noteq> None"
  shows "w_delayed (snd (fire_timer e (next_timer w) w)) = None"
proof (cases "w_timers w SoftTimer = None")
  case False
  have "timers_ok w" using assms(1) by (simp add: timers_base_def)
  from timer_of_slot [OF this False] obtain d c where c: "w_timers w SoftTimer = Some (d, c)" "slot_of c = SoftTimer" by blast
  then have "c = SoftTimeout" by (cases c) simp_all
  with c False show ?thesis
    by (simp add: next_timer_def fire_timer_def run_call_def delayed_region_soft_timeout_def do_send_delayed_region)
next
  case True
  then have n: "w_timers w TimeoutTimer \<noteq> None" using assms(2) by blast
  have "timers_ok w" using assms(1) by (simp add: timers_base_def)
  from timer_of_slot [OF this n] obtain d c where c: "w_timers w TimeoutTimer = Some (d, c)" "slot_of c = TimeoutTimer" by blast
  then obtain time where t: "c = RegionTimeout time" by (cases c) simp_all
  with timeout_waits(2) [OF assms(1)] c True show ?thesis
    by (simp add: next_timer_def fire_timer_def run_call_def)
qed



end
