(* ===== verification/WindowCoverage.thy ===== *)
theory WindowCoverage
  imports WindowSafety
begin

text \<open>
  Every damaged pixel gets to the encode thread: the regions that are chosen cover the damage, the images
  that are captured cover the regions, and until then the damage is kept.
\<close>

section \<open>Chosen regions\<close>

abbreviation window_rect :: "wsrc \<Rightarrow> rectangle" where "window_rect w \<equiv> rect 0 0 (fst (w_dims w)) (snd (w_dims w))"

definition kept_out :: "rectangle option \<Rightarrow> (int \<times> int) set" where
  "kept_out exclude = (case exclude of None \<Rightarrow> {} | Some ex \<Rightarrow> pixels ex)"

text \<open>What a choice stands for.\<close>

definition chosen_pixels :: "rectangle list option \<Rightarrow> wsrc \<Rightarrow> (int \<times> int) set" where
  "chosen_pixels sel w = (case sel of None \<Rightarrow> pixels (window_rect w) | Some rs \<Rightarrow> all_pixels rs)"

lemma subtract_all_pixels:
  assumes "list_all wf_rect rs" "wf_rect ex"
  shows "all_pixels (concat (map (\<lambda>r. subtract_rect r ex) rs)) = all_pixels rs - pixels ex"
  using assms(1)
proof (induction rs)
  case (Cons r rs)
  have "all_pixels (subtract_rect r ex) = pixels r - pixels ex" using Cons.prems assms(2) by (intro subtract_pixels) simp_all
  moreover have "all_pixels (concat (map (\<lambda>r. subtract_rect r ex) rs)) = all_pixels rs - pixels ex" using Cons by simp
  ultimately show ?case by (simp only: list.map concat.simps all_pixels_simps Un_Diff)
qed simp

lemma subtract_all_wf:
  assumes "list_all wf_rect rs" "wf_rect ex"
  shows "list_all wf_rect (concat (map (\<lambda>r. subtract_rect r ex) rs))"
proof -
  have "list_all wf_rect (subtract_rect r ex)" if "wf_rect r" for r
    using subtract_wf [OF that assms(2)] by (auto simp: list_all_iff)
  with assms(1) show ?thesis by (induction rs) simp_all
qed

lemma merge_all_wf: "merge_all rs = Inr m \<Longrightarrow> wf_rect m"
  by (auto simp: merge_all_def new_rectangle_def wf_rect_def split: list.splits prod.splits if_splits)

lemma try_merge_covers:
  assumes "list_all wf_rect rs" "rs \<noteq> []" "\<And>ex. exclude = Some ex \<Longrightarrow> wf_rect ex"
  shows "\<exists>sel. try_merge exclude rs w = Inr sel \<and>
    all_pixels rs \<inter> pixels (window_rect w) - kept_out exclude \<subseteq> chosen_pixels sel w"
proof -
  obtain m where m: "merge_all rs = Inr m" using merge_all_some [OF assms(2,1)] by blast
  have c: "all_pixels rs \<subseteq> pixels m" by (rule merge_all_pixels [OF m])
  have x: "all_pixels (case exclude of None \<Rightarrow> [m] | Some ex \<Rightarrow> subtract_rect m ex) = pixels m - kept_out exclude"
    using assms(3) merge_all_wf [OF m] by (cases exclude) (simp_all add: kept_out_def subtract_pixels)
  define merged where "merged = (case exclude of None \<Rightarrow> [m] | Some ex \<Rightarrow> subtract_rect m ex)"
  have t: "try_merge exclude rs w = Inr None \<or> try_merge exclude rs w = Inr (Some merged) \<or> try_merge exclude rs w = Inr (Some rs)"
    by (simp add: try_merge_def m merged_def Let_def split: prod.splits)
  have "chosen_pixels (Some merged) w = pixels m - kept_out exclude" using x by (simp add: chosen_pixels_def merged_def)
  then have "all_pixels rs \<inter> pixels (window_rect w) - kept_out exclude \<subseteq> chosen_pixels (Some merged) w" using c by blast
  moreover have "all_pixels rs \<inter> pixels (window_rect w) - kept_out exclude \<subseteq> chosen_pixels None w"
    "all_pixels rs \<inter> pixels (window_rect w) - kept_out exclude \<subseteq> chosen_pixels (Some rs) w"
    unfolding chosen_pixels_def by auto
  ultimately show ?thesis using t by blast
qed

lemma select_covers:
  assumes "list_all wf_rect rs" "\<And>ex. exclude = Some ex \<Longrightarrow> wf_rect ex"
  shows "\<exists>sel. select_regions exclude rs w = Inr sel \<and>
    all_pixels rs \<inter> pixels (window_rect w) - kept_out exclude \<subseteq> chosen_pixels sel w"
proof -
  obtain ww wh where d: "w_dims w = (ww, wh)" by fastforce
  let ?whole = "exclude = None \<and> (w_full_frames w \<or> w_encoding w = ''stream'' \<or> int (length rs) > w_small_regions w \<or> ww * wh \<le> MIN_WINDOW_REGION_SIZE)"
  define us where "us = unique_regions (case exclude of None \<Rightarrow> rs | Some ex \<Rightarrow> concat (map (\<lambda>r. subtract_rect r ex) rs))"
  have u: "all_pixels us = all_pixels rs - kept_out exclude"
    using assms by (cases exclude) (simp_all add: us_def kept_out_def subtract_all_pixels)
  have uw: "list_all wf_rect us"
    using assms(1) subtract_all_wf [OF assms(1) assms(2)] by (cases exclude) (simp_all add: us_def list_all_iff)
  show ?thesis
  proof (cases ?whole)
    case True
    then show ?thesis by (auto simp: select_regions_def d chosen_pixels_def)
  next
    case False
    have "\<exists>sel. (if length us > 1 then try_merge exclude us w else Inr (Some us)) = Inr sel \<and>
      all_pixels us \<inter> pixels (window_rect w) - kept_out exclude \<subseteq> chosen_pixels sel w"
    proof (cases "length us > 1")
      case True
      then have "us \<noteq> []" by auto
      from try_merge_covers [OF uw this assms(2), of exclude w] show ?thesis using True by simp
    qed (auto simp: chosen_pixels_def)
    then obtain sel where sel: "(if length us > 1 then try_merge exclude us w else Inr (Some us)) = Inr sel"
      "all_pixels us \<inter> pixels (window_rect w) - kept_out exclude \<subseteq> chosen_pixels sel w" by blast
    have t: "select_regions exclude rs w =
      Inr (case sel of None \<Rightarrow> None | Some rs \<Rightarrow> if covers_window rs w then None else Some rs)"
      using False sel(1) by (cases sel) (simp_all add: select_regions_def d us_def [symmetric] Let_def)
    show ?thesis
      unfolding t using sel(2) u by (cases sel) (auto simp: chosen_pixels_def)
  qed
qed

section \<open>Captured images\<close>

definition item_rect :: "enc_item \<Rightarrow> rectangle" where
  "item_rect q = rect (i_target_x (q_image q)) (i_target_y (q_image q)) (i_width (q_image q)) (i_height (q_image q))"

definition queue_pixels :: "wsrc \<Rightarrow> (int \<times> int) set" where
  "queue_pixels w = all_pixels (map item_rect (w_encode_queue w))"

text \<open>
  The window is there, has the dimensions that the source knows, and gives the pixels that it is asked
  for.
\<close>

definition ready :: "wenv \<Rightarrow> wsrc \<Rightarrow> bool" where
  "ready e w \<longleftrightarrow> e_managed e \<and> e_dims e = w_dims w \<and> 0 < fst (w_dims w) \<and> 0 < snd (w_dims w) \<and>
     (\<forall>x y a b. \<not> e_defer e x y a b) \<and>
     (\<forall>x y a b. 0 < a \<and> 0 < b \<longrightarrow>
        (\<exists>img. e_image e x y a b = Some img \<and> i_target_x img = x \<and> i_target_y img = y \<and> i_width img = a \<and> i_height img = b))"

text \<open>The next sequence numbers have not been cancelled.\<close>

definition live :: "wsrc \<Rightarrow> bool" where
  "live w \<longleftrightarrow> w_cancelled w \<le> w_sequence w \<and> w_cancelled w < MAX_SEQUENCE"

text \<open>What sending images keeps, and that the queue only grows.\<close>

definition sends :: "wsrc \<Rightarrow> wsrc \<Rightarrow> bool" where
  "sends w w' \<longleftrightarrow> w_dims w' = w_dims w \<and> w_cancelled w' = w_cancelled w \<and> w_sequence w \<le> w_sequence w' \<and>
     queue_pixels w \<subseteq> queue_pixels w'"

lemma sends_refl [simp]: "sends w w"
  by (simp add: sends_def)

lemma sends_trans: "sends w w' \<Longrightarrow> sends w' w'' \<Longrightarrow> sends w w''"
  by (auto simp: sends_def)

lemma sends_ready: "sends w w' \<Longrightarrow> ready e w \<Longrightarrow> ready e w'"
  by (simp add: sends_def ready_def)

lemma sends_live: "sends w w' \<Longrightarrow> live w \<Longrightarrow> live w'"
  by (simp add: sends_def live_def)

lemma image_queued:
  assumes "w_cancelled w < sequence" "i_width img \<noteq> 0" "i_height img \<noteq> 0"
  shows "sends w (snd (process_damage_image e t img coding sequence opts flush w)) \<and>
    pixels (rect (i_target_x img) (i_target_y img) (i_width img) (i_height img)) \<subseteq>
      queue_pixels (snd (process_damage_image e t img coding sequence opts flush w))"
proof -
  obtain img' f d where s: "strip_alpha img opts w = (img', f, d)" by (metis prod_cases3)
  have i: "i_target_x img' = i_target_x img" "i_target_y img' = i_target_y img" "i_width img' = i_width img" "i_height img' = i_height img"
    using s by (auto simp: strip_alpha_def Let_def split: if_splits)
  have "\<not> is_cancelled sequence w" using assms(1) by (simp add: is_cancelled_def)
  then show ?thesis
    using assms s i
    by (auto simp: process_damage_image_def do_process_damage_image_def sends_def queue_pixels_def item_rect_def Let_def)
qed

lemma region_queued:
  assumes "ready e w" "live w" "coding \<noteq> []"
  shows "\<exists>b w'. process_damage_region e t x y rw rh coding opts flush w = (Inr b, w') \<and> sends w w' \<and>
    pixels (rect x y rw rh) \<inter> pixels (window_rect w) \<subseteq> queue_pixels w'"
proof -
  obtain ww wh where d: "w_dims w = (ww, wh)" by fastforce
  have m: "may_update_window_dimensions e w = (Inr (ww, wh), w)"
    using assms(1) d by (simp add: may_update_window_dimensions_def ready_def)
  define rw' rh' where "rw' = (if x + rw > ww \<or> y + rh > wh then ww - x else rw)"
    and "rh' = (if x + rw > ww \<or> y + rh > wh then wh - y else rh)"
  have cut: "(if x + rw > ww \<or> y + rh > wh then (ww - x, wh - y) else (rw, rh)) = (rw', rh')"
    by (simp add: rw'_def rh'_def)
  have covers: "pixels (rect x y rw rh) \<inter> pixels (window_rect w) \<subseteq> pixels (rect x y rw' rh')"
    by (auto simp: d in_pixels rw'_def rh'_def)
  show ?thesis
  proof (cases "x + rw < 0 \<or> y + rh < 0 \<or> rw' \<le> 0 \<or> rh' \<le> 0")
    case True
    have "pixels (rect x y rw rh) \<inter> pixels (window_rect w) = {}"
      using True covers by (auto simp: d in_pixels)
    moreover have "process_damage_region e t x y rw rh coding opts flush w = (Inr False, w)"
      using assms True m cut by (auto simp: process_damage_region_def ready_def)
    ultimately show ?thesis by (intro exI [of _ False] exI [of _ w]) simp
  next
    case False
    then obtain img where img: "e_image e x y rw' rh' = Some img" "i_target_x img = x" "i_target_y img = y"
      "i_width img = rw'" "i_height img = rh'"
      using assms(1) unfolding ready_def by (metis not_le)
    let ?w = "w\<lparr>w_sequence := w_sequence w + 1\<rparr>"
    define opts' where "opts' = (if x = 0 \<and> y = 0 \<and> (i_width img, i_height img) \<noteq> (rw', rh')
      then opts(''scaled-damage-size'' \<mapsto> OPair rw' rh') else opts)"
    define w' where "w' = snd (process_damage_image e t img coding (w_sequence w + 1) opts' flush ?w)"
    have c: "w_cancelled ?w < w_sequence w + 1" using assms(2) by (simp add: live_def)
    have p: "process_damage_region e t x y rw rh coding opts flush w = (Inr True, w')"
      using assms False m cut img(1) c
      by (simp add: process_damage_region_def ready_def is_cancelled_def Let_def opts'_def w'_def)
    have "sends ?w w' \<and> pixels (rect x y rw' rh') \<subseteq> queue_pixels w'"
      using image_queued [OF c, of img e t coding opts' flush] img False by (simp add: w'_def)
    moreover have "sends w ?w" by (simp add: sends_def queue_pixels_def)
    ultimately show ?thesis using p covers sends_trans by (intro exI [of _ True] exI [of _ w']) blast
  qed
qed

lemma regions_queued:
  assumes "ready e w" "live w" "\<forall>(i, r, coding)\<in>set rs. coding \<noteq> []"
  shows "\<exists>w'. process_regions e t opts rs w = (Inr (), w') \<and> sends w w' \<and>
    all_pixels (map (\<lambda>(_, r, _). r) rs) \<inter> pixels (window_rect w) \<subseteq> queue_pixels w'"
  using assms
proof (induction rs arbitrary: w)
  case (Cons item rs)
  obtain i r coding where item: "item = (i, r, coding)" by (cases item) auto
  have e: "rect (r_x r) (r_y r) (r_width r) (r_height r) = r" by simp
  have n: "coding \<noteq> []" using Cons.prems(3) by (simp add: item)
  obtain b w1 where w1: "process_damage_region e t (r_x r) (r_y r) (r_width r) (r_height r) coding opts (int i) w = (Inr b, w1)"
    "sends w w1" "pixels r \<inter> pixels (window_rect w) \<subseteq> queue_pixels w1"
    using region_queued [OF Cons.prems(1,2) n, of t "r_x r" "r_y r" "r_width r" "r_height r" opts "int i", unfolded e] by blast
  obtain w2 where w2: "process_regions e t opts rs w1 = (Inr (), w2)" "sends w1 w2"
    "all_pixels (map (\<lambda>(_, r, _). r) rs) \<inter> pixels (window_rect w1) \<subseteq> queue_pixels w2"
    using Cons.IH [OF sends_ready [OF w1(2) Cons.prems(1)] sends_live [OF w1(2) Cons.prems(2)]] Cons.prems(3) by auto
  have "process_regions e t opts (item # rs) w = (Inr (), w2)" by (simp add: item w1(1) w2(1))
  moreover have "sends w w2" by (rule sends_trans [OF w1(2) w2(2)])
  moreover have "all_pixels (map (\<lambda>(_, r, _). r) (item # rs)) \<inter> pixels (window_rect w) \<subseteq> queue_pixels w2"
    using w1(2,3) w2(2,3) by (auto simp: item sends_def)
  ultimately show ?case by blast
qed simp

lemma window_queued:
  assumes "ready e w" "live w" "coding \<noteq> []"
  shows "\<exists>w'. process_window e t coding opts w = (Inr (), w') \<and> sends w w' \<and> pixels (window_rect w) \<subseteq> queue_pixels w'"
  using region_queued [OF assms, of t 0 0 "fst (w_dims w)" "snd (w_dims w)" opts 0]
  by (fastforce simp: process_window_def)

lemma send_regions_queued:
  assumes "ready e w" "live w" "\<And>a b opts c. best a b opts c \<noteq> []" "list_all wf_rect rs" "\<And>ex. exclude = Some ex \<Longrightarrow> wf_rect ex"
  shows "\<exists>w'. do_send_regions e t rs coding opts exclude best w = (Inr (), w') \<and> sends w w' \<and>
    all_pixels rs \<inter> pixels (window_rect w) - kept_out exclude \<subseteq> queue_pixels w'"
proof -
  obtain sel where sel: "select_regions exclude rs w = Inr sel"
    "all_pixels rs \<inter> pixels (window_rect w) - kept_out exclude \<subseteq> chosen_pixels sel w"
    using select_covers [OF assms(4,5)] by blast
  define o2 where "o2 = assign_sq_options e opts 100 100 w"
  show ?thesis
  proof (cases sel)
    case None
    obtain w' where "process_window e t (best (fst (w_dims w)) (snd (w_dims w)) o2 coding) o2 w = (Inr (), w')" "sends w w'"
      "pixels (window_rect w) \<subseteq> queue_pixels w'"
      using window_queued [OF assms(1,2,3)] by blast
    then show ?thesis
      using sel assms(3) by (auto simp: do_send_regions_def None o2_def [symmetric] Let_def split: prod.splits)
  next
    case (Some qs)
    define encs where "encs = map (\<lambda>(i, r). (i, r, best (r_width r) (r_height r) o2 coding)) (enumerate 0 qs)"
    have q: "all_pixels (map (\<lambda>(_, r, _). r) (rev encs)) = all_pixels qs"
    proof -
      have "map (\<lambda>(_, r, _). r) encs = qs"
        by (simp add: encs_def comp_def case_prod_beta enumerate_eq_zip)
      then show ?thesis by (metis all_pixels_def rev_map set_rev)
    qed
    have n: "\<forall>(i, r, enc)\<in>set (rev encs). enc \<noteq> []" using assms(3) by (auto simp: encs_def)
    show ?thesis
    proof (cases "List.find (\<lambda>(_, _, enc). w_full_frames w \<or> e_full_frame e enc) encs")
      case None
      obtain w' where "process_regions e t o2 (rev encs) w = (Inr (), w')" "sends w w'"
        "all_pixels qs \<inter> pixels (window_rect w) \<subseteq> queue_pixels w'"
        using regions_queued [OF assms(1,2) n, of t o2] q by auto
      then show ?thesis
        using sel None
        by (auto simp: do_send_regions_def Some o2_def [symmetric] encs_def [symmetric] Let_def chosen_pixels_def split: prod.splits)
    next
      case full: (Some f)
      obtain i r enc where f: "f = (i, r, enc)" by (cases f) auto
      have "(i, r, enc) \<in> set encs" using full by (auto simp: f find_Some_iff) (metis nth_mem)+
      then have "enc \<noteq> []" using n by auto
      then obtain w' where "process_window e t enc o2 w = (Inr (), w')" "sends w w'" "pixels (window_rect w) \<subseteq> queue_pixels w'"
        using window_queued [OF assms(1,2)] by blast
      then show ?thesis
        using sel full
        by (auto simp: do_send_regions_def Some o2_def [symmetric] encs_def [symmetric] Let_def f split: prod.splits)
    qed
  qed
qed

section \<open>Damage is kept\<close>

definition regions_ok :: "rectangle list \<Rightarrow> bool" where
  "regions_ok rs \<longleftrightarrow> list_all wf_rect rs \<and> apart_rects rs"

text \<open>The pixels that are waiting, and that the rectangles of the region are sound.\<close>

definition pending :: "wsrc \<Rightarrow> (int \<times> int) set" where
  "pending w = (case w_delayed w of None \<Rightarrow> {} | Some dr \<Rightarrow> all_pixels (dr_regions dr))"

definition pending_ok :: "wsrc \<Rightarrow> bool" where
  "pending_ok w \<longleftrightarrow> (\<forall>dr. w_delayed w = Some dr \<longrightarrow> regions_ok (dr_regions dr))"

lemma quiet_pending: "quiet w w' \<Longrightarrow> pending w' = pending w"
  by (simp add: quiet_def pending_def)

lemma extend_pending:
  assumes "regions_ok (dr_regions dr)" "wf_rect region" "w_dims w = (ww, wh)" "0 \<le> ww" "0 \<le> wh"
  shows "(all_pixels (dr_regions dr) \<union> pixels region) \<inter> pixels (rect 0 0 ww wh) \<subseteq> pending (extend_delayed e ww wh region opts dr w)"
    and "pending_ok (extend_delayed e ww wh region opts dr w)"
proof -
  define rs where "rs = (if w_full_frames w \<or> int (length (dr_regions dr)) \<ge> w_small_regions w then [rect 0 0 ww wh]
    else snd (add_rectangle region (dr_regions dr)))"
  have t: "w_delayed (extend_delayed e ww wh region opts dr w) = Some (dr\<lparr>dr_regions := rs, dr_options := merge_options (dr_options dr) opts\<rparr>)"
    by (simp add: extend_delayed_def rs_def schedule_timer_def Let_def)
  have a: "adds (pixels region) (dr_regions dr) (fst (add_rectangle region (dr_regions dr))) (snd (add_rectangle region (dr_regions dr)))"
    using assms(1,2) by (intro add_rectangle_adds) (simp_all add: regions_ok_def)
  have "(all_pixels (dr_regions dr) \<union> pixels region) \<inter> pixels (rect 0 0 ww wh) \<subseteq> all_pixels rs \<and> regions_ok rs"
    using a assms(4,5) by (auto simp: rs_def adds_def regions_ok_def wf_rect_def)
  then show "(all_pixels (dr_regions dr) \<union> pixels region) \<inter> pixels (rect 0 0 ww wh) \<subseteq> pending (extend_delayed e ww wh region opts dr w)"
    and "pending_ok (extend_delayed e ww wh region opts dr w)"
    by (simp_all add: pending_def pending_ok_def t)
qed

lemma start_pending:
  "pending (start_delayed e region opts w) = pixels region"
  "wf_rect region \<Longrightarrow> pending_ok (start_delayed e region opts w)"
  by (simp_all add: pending_def pending_ok_def regions_ok_def start_delayed_def schedule_timer_def Let_def)

lemma delay_refresh_same [simp]:
  "w_delayed (delay_refresh e ww wh opts w) = w_delayed w" "w_dims (delay_refresh e ww wh opts w) = w_dims w"
  "w_full_frames (delay_refresh e ww wh opts w) = w_full_frames w" "w_small_regions (delay_refresh e ww wh opts w) = w_small_regions w"
  by (simp_all add: delay_refresh_def Let_def)

lemma do_damage_pending:
  assumes "pending_ok w" "w_dims w = (ww, wh)" "0 \<le> ww" "0 \<le> wh" "0 \<le> rw" "0 \<le> rh"
  shows "\<exists>w'. do_damage e ww wh x y rw rh opts w = (Inr (), w') \<and> pending_ok w' \<and>
    (pending w \<union> pixels (rect x y rw rh)) \<inter> pixels (rect 0 0 ww wh) \<subseteq> pending w'"
proof -
  define w1 where "w1 = delay_refresh e ww wh opts w"
  have w1: "w_delayed w1 = w_delayed w" "w_dims w1 = (ww, wh)" by (simp_all add: w1_def assms(2))
  have r: "new_rectangle x y rw rh = Inr (rect x y rw rh)" "wf_rect (rect x y rw rh)" "wf_rect (rect 0 0 ww wh)"
    using assms(3-6) by (simp_all add: new_rectangle_def wf_rect_def)
  show ?thesis
  proof (cases "w_delayed w")
    case None
    then have "do_damage e ww wh x y rw rh opts w = (Inr (), start_delayed e (rect x y rw rh) opts w1)"
      by (simp add: do_damage_def w1_def [symmetric] w1 r(1))
    then show ?thesis using None start_pending r(2) by (auto simp: pending_def)
  next
    case (Some dr)
    have ok: "regions_ok (dr_regions dr)" using assms(1) Some by (simp add: pending_ok_def)
    define full where "full \<longleftrightarrow> w_full_frames w1 \<or> int (length (dr_regions dr)) \<ge> w_small_regions w1"
    define region where "region = (if full then rect 0 0 ww wh else rect x y rw rh)"
    have "do_damage e ww wh x y rw rh opts w = (Inr (), extend_delayed e ww wh region opts dr w1)"
      using Some by (simp add: do_damage_def w1_def [symmetric] w1 r(1) region_def full_def Let_def)
    moreover have "wf_rect region" using r by (simp add: region_def)
    moreover have "pixels (rect x y rw rh) \<inter> pixels (rect 0 0 ww wh) \<subseteq> pixels region" by (simp add: region_def)
    ultimately show ?thesis
      using extend_pending [OF ok _ w1(2) assms(3,4), of region e opts] Some by (auto simp: pending_def)
  qed
qed

text \<open>
  Damage to a window is recorded: when the source is not suspended and the window is of a sensible size,
  the part of the damaged area that is inside of the window is waiting, with all that was waiting before.
\<close>

theorem damage_recorded_pixels:
  assumes "ready e w" "pending_ok w" "\<not> w_suspended w" "0 < rw" "0 < rh"
    "fst (w_dims w) \<le> MAX_WINDOW_SIZE" "snd (w_dims w) \<le> MAX_WINDOW_SIZE"
  shows "fst (damage e x y rw rh opts w) = Inr True \<and> pending_ok (snd (damage e x y rw rh opts w)) \<and>
    (pending w \<union> pixels (rect x y rw rh)) \<inter> pixels (window_rect w) \<subseteq> pending (snd (damage e x y rw rh opts w))"
proof -
  obtain ww wh where d: "w_dims w = (ww, wh)" by fastforce
  define w1 where "w1 = (if bool_opt opts ''damage'' then count_damage e x y rw rh w else w)"
  have w1: "w_dims w1 = (ww, wh)" "pending w1 = pending w" "pending_ok w1" "w_full_frames w1 = w_full_frames w"
    using assms(2) d by (simp_all add: w1_def count_damage_def pending_def pending_ok_def)
  have m: "may_update_window_dimensions e w1 = (Inr (ww, wh), w1)"
    using assms(1) d w1(1) by (simp add: may_update_window_dimensions_def ready_def)
  have p: "0 < ww" "0 < wh" "ww \<le> MAX_WINDOW_SIZE" "wh \<le> MAX_WINDOW_SIZE" "\<not> e_defer e a b c g" for a b c g
    using assms(1,6,7) d by (simp_all add: ready_def)
  have area: "fst (damage_area e ww wh a b c g opts' w1) = Inr True \<and> pending_ok (snd (damage_area e ww wh a b c g opts' w1)) \<and>
    (pending w \<union> pixels (rect a b c g)) \<inter> pixels (rect 0 0 ww wh) \<subseteq> pending (snd (damage_area e ww wh a b c g opts' w1))"
    if cg: "0 \<le> c" "0 \<le> g" for a b c g opts'
  proof -
    obtain w2 where "do_damage e ww wh a b c g opts' w1 = (Inr (), w2)" "pending_ok w2"
      "(pending w1 \<union> pixels (rect a b c g)) \<inter> pixels (rect 0 0 ww wh) \<subseteq> pending w2"
      using do_damage_pending [OF w1(3,1) _ _ cg] p by fastforce
    then show ?thesis using p(5) w1(2) by (simp add: damage_area_def pending_def pending_ok_def)
  qed
  have "damage e x y rw rh opts w = (if w_full_frames w then damage_area e ww wh 0 0 ww wh (opts(''damage'' := None)) w1
    else damage_area e ww wh x y rw rh (opts(''damage'' := None)) w1)"
    using assms(3-5) m p w1(4) by (simp add: damage_def w1_def [symmetric])
  then show ?thesis
    using area [of rw rh x y] area [of ww wh 0 0] assms(4,5) p d by (auto split: if_splits)
qed

section \<open>Damage that is sent\<close>

lemma ready_fields [simp]:
  "ready e (cancel_timer slot w) = ready e w" "ready e (w\<lparr>w_delayed := dd\<rparr>) = ready e w" "ready e (w\<lparr>w_soft_expired := n\<rparr>) = ready e w"
  "ready e (w\<lparr>w_batch := bb\<rparr>) = ready e w" "ready e (w\<lparr>w_refresh_regions := rs\<rparr>) = ready e w" "ready e (do_action a w) = ready e w"
  "ready e (cancel_refresh_timer w) = ready e w" "ready e (cancel_damage e' limit w) = ready e w"
  by (simp_all add: ready_def do_action_def)

lemma live_fields [simp]:
  "live (cancel_timer slot w) = live w" "live (w\<lparr>w_delayed := dd\<rparr>) = live w" "live (w\<lparr>w_soft_expired := n\<rparr>) = live w"
  "live (w\<lparr>w_batch := bb\<rparr>) = live w" "live (w\<lparr>w_refresh_regions := rs\<rparr>) = live w" "live (do_action a w) = live w"
  "live (cancel_refresh_timer w) = live w"
  by (simp_all add: live_def do_action_def)

text \<open>The encodings that the source may choose have names, and there is one for a refresh.\<close>

definition has_encodings :: "wenv \<Rightarrow> wsrc \<Rightarrow> bool" where
  "has_encodings e w \<longleftrightarrow> (\<forall>a b opts c. e_encoding e a b opts c \<noteq> [])"

lemma delayed_regions_queued:
  assumes "ready e w" "live w" "has_encodings e w" "list_all wf_rect (dr_regions dr)"
  shows "\<exists>w'. send_delayed_regions e dr w = (Inr (), w') \<and>
    all_pixels (dr_regions dr) \<inter> pixels (window_rect w) \<subseteq> queue_pixels w'"
proof -
  let ?w = "(do_action Acknowledge w)\<lparr>w_batch := (w_batch (do_action Acknowledge w))\<lparr>b_last_event := e_now e\<rparr>\<rparr>"
  have r: "ready e ?w" "live ?w" using assms by simp_all
  have d: "w_dims ?w = w_dims w" by (simp add: do_action_def)
  have "e_managed e" using assms(1) by (simp add: ready_def)
  moreover have "\<not> is_cancelled MAX_SEQUENCE ?w" using r(2) by (simp add: live_def is_cancelled_def)
  moreover obtain w' where "do_send_regions e (dr_time dr) (dr_regions dr) (dr_encoding dr) (dr_options dr) None (e_encoding e) ?w = (Inr (), w')"
    "all_pixels (dr_regions dr) \<inter> pixels (window_rect ?w) - kept_out None \<subseteq> queue_pixels w'"
    using send_regions_queued [OF r, of "e_encoding e" "dr_regions dr" None] assms(3,4) by (fastforce simp: has_encodings_def)
  ultimately show ?thesis using d by (simp add: send_delayed_regions_def kept_out_def)
qed

lemma do_send_delayed_queued:
  assumes "ready e w" "live w" "has_encodings e w" "pending_ok w"
  shows "\<exists>w'. do_send_delayed e w = (Inr (), w') \<and> pending w \<inter> pixels (window_rect w) \<subseteq> queue_pixels w'"
proof (cases "w_delayed w")
  case (Some dr)
  define w1 where "w1 = upd_batch (\<lambda>b. b\<lparr>b_last_actual_delays := push_max 64 (b_last_actual_delays b) (e_now e, ms_between (dr_time dr) (e_now e)),
    b_last_actual_delay := Some (e_now e, ms_between (dr_time dr) (e_now e)),
    b_last_delays := push_max 64 (b_last_delays b) (e_now e, ms_between (dr_time dr) (e_now e)),
    b_last_delay := Some (e_now e, ms_between (dr_time dr) (e_now e))\<rparr>) ((cancel_timer SoftTimer (cancel_timer TimeoutTimer w))\<lparr>w_delayed := None\<rparr>)"
  have d: "do_send_delayed e w = send_delayed_regions e dr w1"
    using Some by (simp add: do_send_delayed_def w1_def Let_def)
  have "ready e w1" "live w1" "has_encodings e w1" "w_dims w1 = w_dims w"
    using assms(1-3) by (simp_all add: w1_def has_encodings_def)
  moreover have "list_all wf_rect (dr_regions dr)" using assms(4) Some by (simp add: pending_ok_def regions_ok_def)
  ultimately show ?thesis
    using delayed_regions_queued [of e w1 dr] Some d by (simp add: pending_def)
qed (simp add: do_send_delayed_def pending_def)

text \<open>Where the damage may be after a step: still waiting, or in the queue of the encode thread.\<close>

definition kept :: "wsrc \<Rightarrow> wsrc \<Rightarrow> bool" where
  "kept w w' \<longleftrightarrow> pending w \<inter> pixels (window_rect w) \<subseteq> pending w' \<union> queue_pixels w'"

lemma quiet_kept: "quiet w w' \<Longrightarrow> kept w w'"
  using quiet_pending [of w w'] by (auto simp: kept_def)

lemma may_send_kept:
  assumes "ready e w" "live w" "has_encodings e w" "pending_ok w"
  shows "kept w (snd (may_send_delayed e w)) \<and>
    ((\<exists>w'. may_send_delayed e w = (Inr (), w') \<and> quiet w w') \<or> w_delayed (snd (may_send_delayed e w)) = None)"
proof (cases rule: may_send_cases [of e w])
  case (sent w0)
  have "ready e w0" "live w0" "has_encodings e w0" "pending_ok w0" "pending w0 = pending w" "w_dims w0 = w_dims w"
    using assms sent(2) by (auto simp: has_encodings_def pending_ok_def pending_def)
  from do_send_delayed_queued [OF this(1-4)] this(5,6) show ?thesis
    using do_send_delayed_region [of e w0] by (auto simp: sent(1) kept_def)
next
  case (kept w')
  then show ?thesis using quiet_kept by auto
qed

lemma wait_for_acks_delayed [simp]: "w_delayed (wait_for_acks e due target dr w) = w_delayed w"
  by (simp add: wait_for_acks_def networksend_congestion_event_def do_action_def schedule_timer_def Let_def)

lemma schedule_delayed [simp]: "w_delayed (schedule_timer slot d c w) = w_delayed w"
  by (simp add: schedule_timer_def)

lemma expire_kept:
  assumes "ready e w" "live w" "has_encodings e w" "pending_ok w"
  shows "kept w (snd (expire_delayed_region e due target w))"
proof (cases "w_delayed w = None \<or> w_timers w SoftTimer \<noteq> None")
  case True
  then have "snd (expire_delayed_region e due target w) = w" by (auto simp: expire_delayed_region_def split: option.splits)
  then show ?thesis using quiet_kept [OF quiet_refl] by simp
next
  case False
  then obtain dr where dr: "w_delayed w = Some dr" "w_timers w SoftTimer = None" by (metis option.exhaust)
  let ?w = "cancel_timer MaySendTimer (w\<lparr>w_delayed := Some (dr\<lparr>dr_expired := True\<rparr>)\<rparr>)"
  have p: "pending ?w = pending w" "w_dims ?w = w_dims w" using dr by (simp_all add: pending_def)
  have "ready e ?w" "live ?w" "has_encodings e ?w" "pending_ok ?w"
    using assms dr by (simp_all add: has_encodings_def pending_ok_def)
  note k = conjunct1 [OF may_send_kept [OF this]] conjunct2 [OF may_send_kept [OF this]]
  from k(2) show ?thesis
  proof
    assume "\<exists>w'. may_send_delayed e ?w = (Inr (), w') \<and> quiet ?w w'"
    then obtain w' where m: "may_send_delayed e ?w = (Inr (), w')" "quiet ?w w'" by blast
    have "w_delayed (snd (expire_delayed_region e due target w)) = w_delayed w'"
      using dr m(1) by (simp add: expire_delayed_region_def Let_def)
    then have "pending (snd (expire_delayed_region e due target w)) = pending w"
      using quiet_pending [OF m(2)] p by (simp add: pending_def)
    then show ?thesis by (auto simp: kept_def)
  next
    assume n: "w_delayed (snd (may_send_delayed e ?w)) = None"
    then have "snd (expire_delayed_region e due target w) = snd (may_send_delayed e ?w)"
      using dr by (auto simp: expire_delayed_region_def split: prod.splits sum.splits)
    then show ?thesis using k(1) p by (simp add: kept_def)
  qed
qed

lemma full_refresh_queued:
  assumes "ready e w" "live w" "has_encodings e w" "w_refresh_encodings w \<noteq> []"
  shows "pixels (window_rect w) \<subseteq> queue_pixels (snd (full_quality_refresh e opts w))"
proof -
  obtain ww wh where d: "w_dims w = (ww, wh)" by fastforce
  let ?w = "w\<lparr>w_refresh_regions := []\<rparr>"
  let ?dr = "\<lparr>dr_time = e_now e, dr_encoding = hd (w_refresh_encodings ?w), dr_options = opts ++ get_refresh_options ?w,
    dr_regions = [rect 0 0 ww wh], dr_expired = False\<rparr>"
  have p: "0 < ww" "0 < wh" "e_managed e" "\<And>a b c g. \<not> e_defer e a b c g" using assms(1) d by (simp_all add: ready_def)
  have n: "new_rectangle 0 0 ww wh = Inr (rect 0 0 ww wh)" using p by (simp add: new_rectangle_def)
  have "\<not> is_cancelled MAX_SEQUENCE w" using assms(2) by (simp add: live_def is_cancelled_def)
  then have t: "full_quality_refresh e opts w = send_delayed_regions e ?dr ?w"
    using assms(4) p n d by (simp add: full_quality_refresh_def Let_def)
  have "list_all wf_rect (dr_regions ?dr)" using p by (simp add: wf_rect_def)
  then show ?thesis
    using delayed_regions_queued [of e ?w ?dr] assms(1-3) d unfolding t by (fastforce simp: has_encodings_def)
qed

lemma timeout_kept:
  assumes "ready e w" "w_sequence w < MAX_SEQUENCE" "has_encodings e w" "w_refresh_encodings w \<noteq> []"
  shows "kept w (snd (delayed_region_timeout e time w))"
proof (cases "w_delayed w")
  case (Some dr)
  let ?c = "cancel_timer SoftTimer (cancel_refresh_timer (cancel_timer ExpireTimer (cancel_damage e 0 w)))"
  have "live (?c\<lparr>w_delayed := None\<rparr>)" using assms(2) by (simp add: live_def)
  then have "pixels (window_rect w) \<subseteq> queue_pixels (snd (full_quality_refresh e (dr_options dr) (?c\<lparr>w_delayed := None\<rparr>)))"
    using full_refresh_queued [of e "?c\<lparr>w_delayed := None\<rparr>" "dr_options dr"] assms by (simp add: has_encodings_def)
  then show ?thesis
    using Some by (auto simp: delayed_region_timeout_def Let_def kept_def)
qed (simp add: kept_def pending_def)

lemma same_kept: "w_delayed w' = w_delayed w \<Longrightarrow> kept w w'"
  by (auto simp: kept_def pending_def)

lemma damage_kept:
  assumes "ready e w" "pending_ok w" "0 \<le> rw" "0 \<le> rh"
  shows "kept w (snd (damage e x y rw rh opts w))"
proof -
  obtain ww wh where d: "w_dims w = (ww, wh)" by fastforce
  define w1 where "w1 = (if bool_opt opts ''damage'' then count_damage e x y rw rh w else w)"
  have w1: "w_dims w1 = (ww, wh)" "w_delayed w1 = w_delayed w" "pending_ok w1" "0 \<le> ww" "0 \<le> wh"
    using assms(1,2) d by (simp_all add: w1_def count_damage_def pending_ok_def ready_def)
  have m: "may_update_window_dimensions e w1 = (Inr (ww, wh), w1)"
    using assms(1) d w1(1) by (simp add: may_update_window_dimensions_def ready_def)
  have area: "kept w (snd (damage_area e ww wh a b c g opts' w1))" if cg: "0 \<le> c" "0 \<le> g" for a b c g opts'
  proof -
    obtain w2 where w2: "do_damage e ww wh a b c g opts' w1 = (Inr (), w2)"
      "(pending w1 \<union> pixels (rect a b c g)) \<inter> pixels (rect 0 0 ww wh) \<subseteq> pending w2"
      using do_damage_pending [OF w1(3,1,4,5) cg] by blast
    have "pending (snd (damage_area e ww wh a b c g opts' w1)) = (if e_defer e a b c g then pending w else pending w2)"
      using w2(1) w1(2) by (simp add: damage_area_def pending_def)
    moreover have "pending w1 = pending w" using w1(2) by (simp add: pending_def)
    ultimately show ?thesis using w2(2) d by (auto simp: kept_def)
  qed
  have "snd (damage e x y rw rh opts w) \<in> {w, w1, snd (damage_area e ww wh 0 0 ww wh (opts(''damage'' := None)) w1),
    snd (damage_area e ww wh x y rw rh (opts(''damage'' := None)) w1)}"
    using m by (auto simp: damage_def w1_def [symmetric] Let_def)
  then show ?thesis
    using same_kept [OF refl, of w] same_kept [OF w1(2)] area [OF w1(4,5), of 0 0 "opts(''damage'' := None)"]
      area [OF assms(3,4), of x y "opts(''damage'' := None)"] by (elim insertE emptyE) simp_all
qed

lemma fire_kept:
  assumes "ready e w" "live w" "w_sequence w < MAX_SEQUENCE" "has_encodings e w" "w_refresh_encodings w \<noteq> []" "pending_ok w"
  shows "kept w (snd (fire_timer e slot w))"
proof (cases "w_timers w slot")
  case (Some dc)
  obtain d c where c: "w_timers w slot = Some (d, c)" using Some by fastforce
  let ?w = "cancel_timer slot w"
  have f: "fire_timer e slot w = run_call e c ?w" using c by (simp add: fire_timer_def)
  have w: "ready e ?w" "live ?w" "w_sequence ?w < MAX_SEQUENCE" "has_encodings e ?w" "w_refresh_encodings ?w \<noteq> []" "pending_ok ?w"
    using assms by (simp_all add: has_encodings_def pending_ok_def)
  have k: "kept w v" if "kept ?w v" for v using that by (simp add: kept_def pending_def)
  have "kept ?w (snd (run_call e c ?w))"
  proof (cases c)
    case SoftTimeout
    obtain w' where "do_send_delayed e ?w = (Inr (), w')" "pending ?w \<inter> pixels (window_rect ?w) \<subseteq> queue_pixels w'"
      using do_send_delayed_queued [OF w(1,2,4,6)] by blast
    then show ?thesis by (auto simp: SoftTimeout run_call_def delayed_region_soft_timeout_def kept_def)
  qed (simp_all add: run_call_def decode_error_refresh_def expire_kept [OF w(1,2,4,6)] timeout_kept [OF w(1,3,4,5)]
        conjunct1 [OF may_send_kept [OF w(1,2,4,6)]] quiet_kept [OF quiet_timer_refresh] quiet_kept [OF quiet_full_refresh]
        quiet_kept [OF quiet_av(2)])
  with k f show ?thesis by simp
qed (simp add: fire_timer_def quiet_kept)

text \<open>What goes on while a window is shown and its client is there.\<close>

inductive working :: "wenv \<Rightarrow> wsrc \<Rightarrow> wsrc \<Rightarrow> bool" for e where
  WDamage: "0 \<le> rw \<Longrightarrow> 0 \<le> rh \<Longrightarrow> working e w (snd (damage e x y rw rh opts w))"
| WTimer: "working e w (snd (fire_timer e slot w))"
| WAck: "working e w (damage_packet_acked e sequence width height decode_time w)"
| WCall: "working e w (snd (call_may_send_delayed e w))"
| WBegin: "working e w (begin_encode w)"
| WEnd: "working e w (finish_encode e encs w)"
| WRefresh: "working e w (snd (full_quality_refresh e opts w))"
| WIconic: "working e w (iconic_changed b w)"


lemma demo_ready: "ready (demo_env t) demo_source"
  by (simp add: ready_def demo_env_def demo_source_def new_wsrc_def demo_image_def)

theorem damage_recorded_pixels_witness:
  "fst (damage (demo_env 1) 90 90 20 20 Map.empty demo_source) = Inr True \<and>
     pixels (rect 90 90 20 20) \<inter> pixels (rect 0 0 100 100) \<subseteq> pending (snd (damage (demo_env 1) 90 90 20 20 Map.empty demo_source))"
proof -
  have "pending_ok demo_source" "\<not> w_suspended demo_source" "w_dims demo_source = (100, 100)"
    by (simp_all add: pending_ok_def demo_source_def new_wsrc_def)
  then show ?thesis
    using damage_recorded_pixels [OF demo_ready, where rw = 20 and rh = 20 and x = 90 and y = 90 and opts = Map.empty]
    by (auto simp: MAX_WINDOW_SIZE_def)
qed

text \<open>The demonstration source with a region that has expired and waits for its soft timer.\<close>

definition demo_waiting :: wsrc where
  "demo_waiting = demo_source\<lparr>w_delayed := Some \<lparr>dr_time = 1, dr_encoding = ''png'', dr_options = Map.empty,
     dr_regions = [rect 10 10 20 20], dr_expired = True\<rparr>, w_timers := [SoftTimer \<mapsto> (100, SoftTimeout)]\<rparr>"


text \<open>
  Without encodings for a refresh, as with shared memory, the time-out drops the region: nothing is waiting
  any more, no timer is set and nothing is queued.
\<close>

lemma timeout_loses_damage:
  assumes "w_delayed w = Some dr" "w_refresh_encodings w = []"
  shows "pending (snd (delayed_region_timeout e (dr_time dr) w)) = {} \<and>
    w_timers (snd (delayed_region_timeout e (dr_time dr) w)) = (\<lambda>_. None) \<and>
    w_encode_queue (snd (delayed_region_timeout e (dr_time dr) w)) = w_encode_queue w"
  using assms
  by (simp add: delayed_region_timeout_def full_quality_refresh_def pending_def Let_def fun_eq_iff)

end
