(* ===== verification/WindowTimers.thy ===== *)
theory WindowTimers
  imports WindowState
begin

text \<open>
  The life of the timers of a \<^verbatim>\<open>WindowSource\<close> (\<^verbatim>\<open>src/xpra/server/window/compress.py\<close>) between threads: a
  timer is published in its slot before GLib has a source for it, it may be dispatched before its
  identifier is known, cancelled at any moment, and the clean up closes them all and waits for those that
  are running. The parts of the code that hold the lock are functions; a step relation interleaves them.
  The other theories use the timers as if all of this was atomic, which is shown to be right here.
\<close>

section \<open>The state under the lock\<close>

text \<open>
  A \<^verbatim>\<open>_TimerLease\<close>, with what the callback of its source has from \<^verbatim>\<open>_schedule_timer\<close>. Leases are compared
  by identity, so they are known by their place in the list of all of them; the source of a lease is set
  together with its identifier, which is not zero.
\<close>

record lease =
  l_slot :: slot
  l_delay :: int
  l_call :: call
  l_epoch :: nat
  l_source_id :: int

text \<open>
  The attributes of the source that belong to its timers and its clean up, and the sources that are
  attached to the main context. A thread is its identifier, which is not zero.
\<close>

record timers =
  tm_epoch :: nat
  tm_closed :: bool
  tm_started :: bool
  tm_complete :: bool
  tm_requested :: bool
  tm_owner :: nat
  tm_unregistering :: bool
  tm_active :: nat
  tm_threads :: "nat \<Rightarrow> nat"
  tm_leases :: "slot \<Rightarrow> nat option"
  tm_attr :: "slot \<Rightarrow> int"
  tm_store :: "lease list"
  tm_attached :: "nat set"

definition init_timer_lifecycle :: timers where
  "init_timer_lifecycle = \<lparr>tm_epoch = 0, tm_closed = False, tm_started = False, tm_complete = False, tm_requested = False,
     tm_owner = 0, tm_unregistering = False, tm_active = 0, tm_threads = (\<lambda>_. 0), tm_leases = (\<lambda>_. None),
     tm_attr = (\<lambda>_. 0), tm_store = [], tm_attached = {}\<rparr>"

definition PENDING_TIMER :: int where "PENDING_TIMER = -1"

abbreviation lease_of :: "timers \<Rightarrow> nat \<Rightarrow> lease" where
  "lease_of s l \<equiv> tm_store s ! l"

text \<open>\<^verbatim>\<open>self._timer_leases.get(slot) is lease\<close>, \<^verbatim>\<open>pop\<close> with the reset of the attribute if it has a given value.\<close>

definition holds :: "timers \<Rightarrow> nat \<Rightarrow> bool" where
  "holds s l \<longleftrightarrow> tm_leases s (l_slot (lease_of s l)) = Some l"

definition pop_lease :: "slot \<Rightarrow> int \<Rightarrow> timers \<Rightarrow> timers" where
  "pop_lease slot value s =
     s\<lparr>tm_leases := (tm_leases s)(slot := None),
       tm_attr := (if tm_attr s slot = value then (tm_attr s)(slot := 0) else tm_attr s)\<rparr>"

section \<open>Scheduling\<close>

definition publish_lease :: "slot \<Rightarrow> int \<Rightarrow> call \<Rightarrow> timers \<Rightarrow> nat option \<times> timers" where
  "publish_lease slot delay c s =
     (if tm_closed s \<or> tm_requested s \<or> tm_leases s slot \<noteq> None then (None, s)
      else
        let l = length (tm_store s)
        in (Some l, s\<lparr>tm_leases := (tm_leases s)(slot := Some l), tm_attr := (tm_attr s)(slot := PENDING_TIMER),
                      tm_store := tm_store s @ [\<lparr>l_slot = slot, l_delay = delay, l_call = c, l_epoch = tm_epoch s, l_source_id = 0\<rparr>]\<rparr>))"

definition attach_source :: "nat \<Rightarrow> timers \<Rightarrow> timers" where
  "attach_source l s = s\<lparr>tm_attached := insert l (tm_attached s)\<rparr>"

definition destroy_sources :: "nat list \<Rightarrow> timers \<Rightarrow> timers" where
  "destroy_sources ls s = s\<lparr>tm_attached := tm_attached s - set ls\<rparr>"

text \<open>Creating or attaching the source has raised.\<close>

definition abandon_lease :: "nat \<Rightarrow> timers \<Rightarrow> timers" where
  "abandon_lease l s = (if holds s l then pop_lease (l_slot (lease_of s l)) PENDING_TIMER s else s)"

text \<open>The identifier of the source is known: the value is whether it is kept.\<close>

definition commit_source :: "nat \<Rightarrow> int \<Rightarrow> timers \<Rightarrow> bool \<times> timers" where
  "commit_source l source_id s =
     (let slot = l_slot (lease_of s l);
          s = s\<lparr>tm_store := (tm_store s)[l := (lease_of s l)\<lparr>l_source_id := source_id\<rparr>]\<rparr>
      in if \<not> tm_closed s \<and> \<not> tm_requested s \<and> l_epoch (lease_of s l) = tm_epoch s \<and> holds s l
         then (True, s\<lparr>tm_attr := (tm_attr s)(slot := source_id)\<rparr>)
         else (False, if holds s l then pop_lease slot PENDING_TIMER s else s))"

text \<open>The lease that \<^verbatim>\<open>_cancel_timer\<close> takes out, for its source to be destroyed.\<close>

definition cancel_lease :: "slot \<Rightarrow> timers \<Rightarrow> nat option \<times> timers" where
  "cancel_lease slot s =
     (tm_leases s slot, s\<lparr>tm_leases := (tm_leases s)(slot := None), tm_attr := (tm_attr s)(slot := 0)\<rparr>)"

definition cancelled_sources :: "nat option \<Rightarrow> timers \<Rightarrow> nat list" where
  "cancelled_sources x s = (case x of None \<Rightarrow> [] | Some l \<Rightarrow> if l_source_id (lease_of s l) = 0 then [] else [l])"

section \<open>Callbacks\<close>

datatype taken =
    Remove
  | Keep
  | Run

text \<open>The beginning of the callback of a source: whether the function of the timer is called.\<close>

definition take_callback :: "nat \<Rightarrow> nat \<Rightarrow> timers \<Rightarrow> taken \<times> timers" where
  "take_callback t l s =
     (if \<not> holds s l then (Remove, s)
      else if l_source_id (lease_of s l) = 0 then (Keep, s)
      else
        let popped = pop_lease (l_slot (lease_of s l)) (l_source_id (lease_of s l)) s
        in if tm_closed s \<or> tm_requested s \<or> l_epoch (lease_of s l) \<noteq> tm_epoch s then (Remove, popped)
           else (Run, popped\<lparr>tm_active := tm_active s + 1, tm_threads := (tm_threads s)(t := tm_threads s t + 1)\<rparr>))"

text \<open>Its end, with whether a clean up that was asked for has to be run now.\<close>

definition end_callback :: "nat \<Rightarrow> timers \<Rightarrow> bool \<times> timers" where
  "end_callback t s =
     (let s = s\<lparr>tm_active := tm_active s - 1, tm_threads := (tm_threads s)(t := tm_threads s t - 1)\<rparr>
      in (tm_active s = 0 \<and> tm_requested s \<and> tm_owner s = 0 \<and> \<not> tm_complete s, s))"

section \<open>Clean up\<close>

datatype claim =
    Refused
  | MustWait
  | Claimed

text \<open>
  The first part of \<^verbatim>\<open>_begin_terminal_cleanup\<close>: it is refused when there is nothing left to do, or when the
  thread would have to wait for itself.
\<close>

definition begin_cleanup :: "nat \<Rightarrow> timers \<Rightarrow> claim \<times> timers" where
  "begin_cleanup t s =
     (if tm_complete s then (Refused, s)
      else if tm_threads s t \<noteq> 0 then (Refused, s\<lparr>tm_requested := True\<rparr>)
      else if tm_owner s = t then (Refused, s)
      else if tm_owner s \<noteq> 0 then (MustWait, s)
      else (Claimed, s\<lparr>tm_owner := t, tm_unregistering := True\<rparr>))"

text \<open>The packets could not be deactivated: others may try again.\<close>

definition unregister_failed :: "timers \<Rightarrow> timers" where
  "unregister_failed s = s\<lparr>tm_unregistering := False, tm_owner := 0\<rparr>"

text \<open>The slots of this class; the one of the window icon belongs to its base class.\<close>

definition TIMER_SLOTS :: "slot list" where
  "TIMER_SLOTS = [DecodeErrorTimer, MaySendTimer, RefreshTimer, TimeoutTimer, ExpireTimer, SoftTimer, AvSyncTimer]"

definition take_timer_leases :: "timers \<Rightarrow> nat list \<times> timers" where
  "take_timer_leases s =
     (if tm_closed s then ([], s)
      else
        (concat (map (\<lambda>slot. cancelled_sources (tm_leases s slot) s) TIMER_SLOTS),
         s\<lparr>tm_closed := True, tm_epoch := tm_epoch s + 1, tm_leases := (\<lambda>_. None),
           tm_attr := (\<lambda>slot. if tm_leases s slot = None then tm_attr s slot else 0)\<rparr>))"

definition close_timers :: "timers \<Rightarrow> nat list \<times> timers" where
  "close_timers s =
     (let (sources, s) = take_timer_leases (s\<lparr>tm_unregistering := False, tm_started := True\<rparr>)
      in (sources, s\<lparr>tm_requested := False\<rparr>))"

definition finish_cleanup :: "nat \<Rightarrow> timers \<Rightarrow> timers" where
  "finish_cleanup t s = (if tm_owner s = t then s\<lparr>tm_complete := True, tm_requested := False, tm_owner := 0\<rparr> else s)"

section \<open>Threads\<close>

text \<open>
  Where a thread is, between two parts with the lock: it creates a source, it has attached it, it destroys
  sources, GLib has dispatched a source to it, it runs the function of a timer, it returns to GLib, it
  asks for the clean up, it deactivates the packets, destroys the sources of all the timers, waits for
  those that are running, does the rest of the clean up.
\<close>

datatype tframe =
    Publishing nat
  | Attached nat
  | Destroying "nat list"
  | Dispatched nat
  | InCallback nat
  | Returning nat bool
  | BeginCleanup
  | Unregistering
  | DestroyAll "nat list"
  | WaitCallbacks
  | CleanupTail

text \<open>
  The code that does other things, and may call the methods of the source or iterate the main loop: what
  is outside of the source, the function of a timer, the deactivation of the packets, the rest of the
  clean up.
\<close>

fun user_code :: "tframe list \<Rightarrow> bool" where
  "user_code [] = True"
| "user_code (f # _) = (case f of InCallback _ \<Rightarrow> True | Unregistering \<Rightarrow> True | CleanupTail \<Rightarrow> True | _ \<Rightarrow> False)"

datatype event =
    Scheduled slot int call
  | Cancelled slot
  | Starts nat
  | Abandoned nat
  | UnregisterError
  | CleanedUp
  | Quiet

type_synonym world = "timers \<times> (nat \<Rightarrow> tframe list)"

text \<open>
  A source that is attached may be dispatched at any time, to any thread that lets it; a callback that
  returns false is the end of its source. There is no step for a thread that has to wait.
\<close>

inductive tstep :: "world \<Rightarrow> event \<Rightarrow> world \<Rightarrow> bool" where
  Schedule: "user_code (k t) \<Longrightarrow> t \<noteq> 0 \<Longrightarrow> publish_lease slot delay c s = (x, s') \<Longrightarrow>
    tstep (s, k) (Scheduled slot delay c) (s', k(t := (case x of None \<Rightarrow> [] | Some l \<Rightarrow> [Publishing l]) @ k t))"
| Attach: "k t = Publishing l # r \<Longrightarrow> tstep (s, k) Quiet (attach_source l s, k(t := Attached l # r))"
| AttachFails: "k t = Publishing l # r \<Longrightarrow> tstep (s, k) (Abandoned l) (abandon_lease l s, k(t := r))"
| Commit: "k t = Attached l # r \<Longrightarrow> 0 < source_id \<Longrightarrow> commit_source l source_id s = (kept, s') \<Longrightarrow>
    tstep (s, k) Quiet (s', k(t := (if kept then [] else [Destroying [l]]) @ r))"
| Destroy: "k t = Destroying ls # r \<Longrightarrow> tstep (s, k) Quiet (destroy_sources ls s, k(t := r))"
| Cancel: "user_code (k t) \<Longrightarrow> t \<noteq> 0 \<Longrightarrow> cancel_lease slot s = (x, s') \<Longrightarrow>
    tstep (s, k) (Cancelled slot) (s', k(t := Destroying (cancelled_sources x s) # k t))"
| Dispatch: "user_code (k t) \<Longrightarrow> t \<noteq> 0 \<Longrightarrow> l \<in> tm_attached s \<Longrightarrow> tstep (s, k) Quiet (s, k(t := Dispatched l # k t))"
| NotRun: "k t = Dispatched l # r \<Longrightarrow> take_callback t l s = (v, s') \<Longrightarrow> v \<noteq> Run \<Longrightarrow>
    tstep (s, k) Quiet (s', k(t := Returning l (v = Keep) # r))"
| Start: "k t = Dispatched l # r \<Longrightarrow> take_callback t l s = (Run, s') \<Longrightarrow> tstep (s, k) (Starts l) (s', k(t := InCallback l # r))"
| Ends: "k t = InCallback l # r \<Longrightarrow> end_callback t s = (deferred, s') \<Longrightarrow>
    tstep (s, k) Quiet (s', k(t := (if deferred then [BeginCleanup] else []) @ Returning l False # r))"
| Return: "k t = Returning l again # r \<Longrightarrow> tstep (s, k) Quiet (if again then s else destroy_sources [l] s, k(t := r))"
| Cleanup: "user_code (k t) \<Longrightarrow> t \<noteq> 0 \<Longrightarrow> tstep (s, k) Quiet (s, k(t := BeginCleanup # k t))"
| Refuse: "k t = BeginCleanup # r \<Longrightarrow> begin_cleanup t s = (Refused, s') \<Longrightarrow> tstep (s, k) Quiet (s', k(t := r))"
| Claim: "k t = BeginCleanup # r \<Longrightarrow> begin_cleanup t s = (Claimed, s') \<Longrightarrow>
    tstep (s, k) Quiet (s', k(t := Unregistering # r))"
| UnregisterFails: "k t = Unregistering # r \<Longrightarrow> tstep (s, k) UnregisterError (unregister_failed s, k(t := r))"
| Close: "k t = Unregistering # r \<Longrightarrow> close_timers s = (ls, s') \<Longrightarrow> tstep (s, k) Quiet (s', k(t := DestroyAll ls # r))"
| DestroyedAll: "k t = DestroyAll ls # r \<Longrightarrow> tstep (s, k) Quiet (destroy_sources ls s, k(t := WaitCallbacks # r))"
| Waited: "k t = WaitCallbacks # r \<Longrightarrow> tm_active s = 0 \<Longrightarrow> tstep (s, k) CleanedUp (s, k(t := CleanupTail # r))"
| Finish: "k t = CleanupTail # r \<Longrightarrow> tstep (s, k) Quiet (finish_cleanup t s, k(t := r))"

text \<open>The runs from the beginning, with what happened in them.\<close>

inductive trun :: "world \<Rightarrow> event list \<Rightarrow> world \<Rightarrow> bool" where
  Nothing: "trun w [] w"
| Then: "trun w es w' \<Longrightarrow> tstep w' e w'' \<Longrightarrow> trun w (es @ [e]) w''"

definition started :: world where
  "started = (init_timer_lifecycle, \<lambda>_. [])"

end
