(* ===== verification/TimerInvariants.thy ===== *)
theory TimerInvariants
  imports WindowTimers
begin

text \<open>
  The invariants of the timers of a \<^verbatim>\<open>WindowSource\<close>: the callbacks that are counted, the leases in the slots,
  the phases of the clean up, the stacks of the threads, the sources that are attached. Each is kept by every
  step.
\<close>

lemmas lock_defs = publish_lease_def attach_source_def destroy_sources_def abandon_lease_def commit_source_def
  cancel_lease_def take_callback_def end_callback_def begin_cleanup_def unregister_failed_def take_timer_leases_def
  close_timers_def finish_cleanup_def pop_lease_def

section \<open>Callbacks that are running\<close>

primrec callbacks :: "tframe list \<Rightarrow> nat" where
  "callbacks [] = 0"
| "callbacks (f # fs) = (case f of InCallback _ \<Rightarrow> 1 | _ \<Rightarrow> 0) + callbacks fs"

text \<open>A function with finitely many values other than zero, and their sum.\<close>

definition total :: "(nat \<Rightarrow> nat) \<Rightarrow> nat \<Rightarrow> bool" where
  "total f n \<longleftrightarrow> finite {t. f t \<noteq> 0} \<and> n = sum f {t. f t \<noteq> 0}"

lemma total_over: "finite A \<Longrightarrow> {t. f t \<noteq> 0} \<subseteq> A \<Longrightarrow> total f n \<longleftrightarrow> n = sum f A"
  unfolding total_def by (metis (mono_tags, lifting) DiffD2 finite_subset mem_Collect_eq sum.mono_neutral_left)

lemma sum_upd:
  fixes f :: "nat \<Rightarrow> nat"
  assumes "finite A" "t \<in> A"
  shows "sum (f(t := n)) A = n + sum f (A - {t})"
proof -
  have "sum (f(t := n)) (A - {t}) = sum f (A - {t})" by (rule sum.cong) auto
  then show ?thesis using sum.remove [OF assms, of "f(t := n)"] by simp
qed

lemma total_add:
  assumes "total f n"
  shows "total (f(t := f t + 1)) (n + 1)"
proof -
  let ?A = "insert t {t. f t \<noteq> 0}"
  have f: "finite ?A" "t \<in> ?A" using assms by (simp_all add: total_def)
  have "n = sum f ?A" using assms total_over [OF f(1), of f] by auto
  with sum.remove [OF f, of f] sum_upd [OF f, of f "f t + 1"] have "n + 1 = sum (f(t := f t + 1)) ?A" by linarith
  moreover have "{u. (f(t := f t + 1)) u \<noteq> 0} \<subseteq> ?A" using f by auto
  ultimately show ?thesis by (simp only: total_over [OF f(1)])
qed

lemma total_remove:
  assumes "total f n" "f t \<noteq> 0"
  shows "total (f(t := f t - 1)) (n - 1)"
proof -
  let ?A = "{t. f t \<noteq> 0}"
  have f: "finite ?A" "t \<in> ?A" using assms by (simp_all add: total_def)
  have "n = sum f ?A" using assms by (simp add: total_def)
  with assms(2) sum.remove [OF f, of f] sum_upd [OF f, of f "f t - 1"] have "n - 1 = sum (f(t := f t - 1)) ?A" by linarith
  moreover have "{u. (f(t := f t - 1)) u \<noteq> 0} \<subseteq> ?A" using f by auto
  ultimately show ?thesis by (simp only: total_over [OF f(1)])
qed

lemma total_zero: "total f 0 \<longleftrightarrow> (\<forall>t. f t = 0)"
  by (auto simp: total_def)

definition counts_ok :: "world \<Rightarrow> bool" where
  "counts_ok w \<longleftrightarrow> (\<forall>t. tm_threads (fst w) t = callbacks (snd w t)) \<and> total (tm_threads (fst w)) (tm_active (fst w))"

lemma counts_step: "tstep w e w' \<Longrightarrow> counts_ok w \<Longrightarrow> counts_ok w'"
proof (induction rule: tstep.induct)
  case (Start k t l r s s')
  then have "s' = (pop_lease (l_slot (lease_of s l)) (l_source_id (lease_of s l)) s)
      \<lparr>tm_active := tm_active s + 1, tm_threads := (tm_threads s)(t := tm_threads s t + 1)\<rparr>"
    by (auto simp: take_callback_def Let_def split: if_splits)
  with Start show ?case using total_add [of "tm_threads s" "tm_active s" t] by (auto simp: counts_ok_def)
next
  case (Ends k t l r s deferred s')
  then have "tm_threads s t \<noteq> 0" by (simp add: counts_ok_def)
  with Ends show ?case using total_remove [of "tm_threads s" "tm_active s" t]
    by (auto simp: counts_ok_def end_callback_def Let_def)
qed (auto simp: counts_ok_def lock_defs Let_def split: if_splits option.splits)


section \<open>The slots\<close>

text \<open>Every slot that is taken has a lease of its own, of this epoch, and its attribute shows it.\<close>

fun shown :: "lease list \<Rightarrow> nat option \<Rightarrow> int" where
  "shown store None = 0"
| "shown store (Some l) = (if l_source_id (store ! l) = 0 then PENDING_TIMER else l_source_id (store ! l))"

definition slots_ok :: "timers \<Rightarrow> bool" where
  "slots_ok s \<longleftrightarrow>
     (\<forall>slot l. tm_leases s slot = Some l \<longrightarrow>
        l < length (tm_store s) \<and> l_slot (lease_of s l) = slot \<and> l_epoch (lease_of s l) = tm_epoch s \<and> \<not> tm_closed s) \<and>
     (\<forall>slot. tm_attr s slot = shown (tm_store s) (tm_leases s slot)) \<and>
     (\<forall>l<length (tm_store s). 0 \<le> l_source_id (lease_of s l))"

text \<open>The leases that a thread has to do with.\<close>

fun concerns :: "tframe \<Rightarrow> nat list" where
  "concerns (Publishing l) = [l]"
| "concerns (Attached l) = [l]"
| "concerns (Destroying ls) = ls"
| "concerns (Dispatched l) = [l]"
| "concerns (InCallback l) = [l]"
| "concerns (Returning l _) = [l]"
| "concerns (DestroyAll ls) = ls"
| "concerns _ = []"

definition known :: "world \<Rightarrow> bool" where
  "known w \<longleftrightarrow>
     (\<forall>t. \<forall>f\<in>set (snd w t). \<forall>l\<in>set (concerns f). l < length (tm_store (fst w))) \<and>
     (\<forall>l\<in>tm_attached (fst w). l < length (tm_store (fst w)))"

lemma holds_slot: "slots_ok s \<Longrightarrow> tm_leases s slot = Some l \<Longrightarrow> holds s l"
  by (auto simp: slots_ok_def holds_def)

lemma slots_okI:
  assumes "\<And>slot l. tm_leases s slot = Some l \<Longrightarrow>
      l < length (tm_store s) \<and> l_slot (lease_of s l) = slot \<and> l_epoch (lease_of s l) = tm_epoch s \<and> \<not> tm_closed s"
    "\<And>slot. tm_attr s slot = shown (tm_store s) (tm_leases s slot)"
    "\<And>l. l < length (tm_store s) \<Longrightarrow> 0 \<le> l_source_id (lease_of s l)"
  shows "slots_ok s"
  unfolding slots_ok_def using assms by blast

lemma slots_okD:
  assumes "slots_ok s"
  shows "tm_leases s slot = Some l \<Longrightarrow>
      l < length (tm_store s) \<and> l_slot (lease_of s l) = slot \<and> l_epoch (lease_of s l) = tm_epoch s \<and> \<not> tm_closed s"
    "tm_attr s slot = shown (tm_store s) (tm_leases s slot)"
    "l < length (tm_store s) \<Longrightarrow> 0 \<le> l_source_id (lease_of s l)"
  using assms unfolding slots_ok_def by blast+

lemma shown_same: "(\<And>l. x = Some l \<Longrightarrow> store' ! l = store ! l) \<Longrightarrow> shown store' x = shown store x"
  by (cases x) auto

lemma slots_publish:
  assumes "slots_ok s" "publish_lease slot delay c s = (x, s')"
  shows "slots_ok s'"
proof (cases "tm_closed s \<or> tm_requested s \<or> tm_leases s slot \<noteq> None")
  case False
  let ?n = "\<lparr>l_slot = slot, l_delay = delay, l_call = c, l_epoch = tm_epoch s, l_source_id = 0\<rparr>"
  have s': "s' = s\<lparr>tm_leases := (tm_leases s)(slot := Some (length (tm_store s))), tm_attr := (tm_attr s)(slot := PENDING_TIMER),
      tm_store := tm_store s @ [?n]\<rparr>"
    using assms(2) False by (auto simp: publish_lease_def Let_def)
  have n: "(tm_store s @ [?n]) ! l = tm_store s ! l" if "tm_leases s u = Some l" for u l
    using slots_okD(1) [OF assms(1) that] by (simp add: nth_append)
  show ?thesis
  proof (rule slots_okI)
    show "l < length (tm_store s') \<and> l_slot (lease_of s' l) = u \<and> l_epoch (lease_of s' l) = tm_epoch s' \<and> \<not> tm_closed s'"
      if "tm_leases s' u = Some l" for u l
      using that slots_okD(1) [OF assms(1), of u l] n [of u l] False by (auto simp: s' split: if_splits)
    show "tm_attr s' u = shown (tm_store s') (tm_leases s' u)" for u
      using slots_okD(2) [OF assms(1)] shown_same [OF n] by (auto simp: s')
    show "0 \<le> l_source_id (lease_of s' l)" if "l < length (tm_store s')" for l
      using that slots_okD(3) [OF assms(1), of l] by (auto simp: s' nth_append)
  qed
qed (use assms in \<open>auto simp: publish_lease_def\<close>)

lemma slots_pop:
  assumes "slots_ok s" "holds s l" "value = shown (tm_store s) (Some l)"
  shows "slots_ok (pop_lease (l_slot (lease_of s l)) value s)"
proof -
  let ?u = "l_slot (lease_of s l)"
  have "tm_attr s ?u = value" using assms(2,3) slots_okD(2) [OF assms(1)] by (simp add: holds_def)
  then show ?thesis
    using slots_okD [OF assms(1)] by (intro slots_okI) (auto simp: pop_lease_def split: if_splits)
qed

lemma slots_abandon: "slots_ok s \<Longrightarrow> l_source_id (lease_of s l) = 0 \<Longrightarrow> slots_ok (abandon_lease l s)"
  by (auto simp: abandon_lease_def intro: slots_pop)

lemma slots_cancel: "slots_ok s \<Longrightarrow> cancel_lease slot s = (x, s') \<Longrightarrow> slots_ok s'"
  by (rule slots_okI) (auto simp: cancel_lease_def dest: slots_okD split: if_splits)

lemma slots_commit:
  assumes "slots_ok s" "l < length (tm_store s)" "0 < source_id" "l_source_id (lease_of s l) = 0"
    "commit_source l source_id s = (kept, s')"
  shows "slots_ok s'"
proof -
  define n where "n = (lease_of s l)\<lparr>l_source_id := source_id\<rparr>"
  define s1 where "s1 = s\<lparr>tm_store := (tm_store s)[l := n]\<rparr>"
  have l: "lease_of s1 l = n" using assms(2) by (simp add: s1_def)
  have n: "l_slot n = l_slot (lease_of s l)" "l_epoch n = l_epoch (lease_of s l)" "l_source_id n = source_id" by (simp_all add: n_def)
  have h: "holds s1 l \<longleftrightarrow> holds s l" using l n by (simp add: holds_def) (simp add: s1_def)
  have s': "s' = (if \<not> tm_closed s \<and> \<not> tm_requested s \<and> l_epoch (lease_of s l) = tm_epoch s \<and> holds s l
      then s1\<lparr>tm_attr := (tm_attr s)(l_slot (lease_of s l) := source_id)\<rparr>
      else if holds s l then pop_lease (l_slot (lease_of s l)) PENDING_TIMER s1 else s1)"
  proof -
    have "commit_source l source_id s =
        (if \<not> tm_closed s1 \<and> \<not> tm_requested s1 \<and> l_epoch (lease_of s1 l) = tm_epoch s1 \<and> holds s1 l
         then (True, s1\<lparr>tm_attr := (tm_attr s1)(l_slot (lease_of s l) := source_id)\<rparr>)
         else (False, if holds s1 l then pop_lease (l_slot (lease_of s l)) PENDING_TIMER s1 else s1))"
      unfolding commit_source_def Let_def n_def s1_def by (rule refl)
    moreover have "tm_closed s1 = tm_closed s" "tm_requested s1 = tm_requested s" "tm_epoch s1 = tm_epoch s" "tm_attr s1 = tm_attr s"
      by (simp_all add: s1_def)
    ultimately show ?thesis using assms(5) by (auto simp: h l n split: if_splits)
  qed
  have a: "tm_attr s (l_slot (lease_of s l)) = PENDING_TIMER" if "holds s l"
    using that slots_okD(2) [OF assms(1), of "l_slot (lease_of s l)"] assms(4) by (simp add: holds_def)
  have o: "shown (tm_store s1) (tm_leases s u) = shown (tm_store s) (tm_leases s u)" if "u \<noteq> l_slot (lease_of s l) \<or> \<not> holds s l" for u
  proof (rule shown_same)
    fix m assume m: "tm_leases s u = Some m"
    have "m \<noteq> l" using that m slots_okD(1) [OF assms(1) m] by (auto simp: holds_def)
    then show "tm_store s1 ! m = tm_store s ! m" by (simp add: s1_def)
  qed
  have k: "l_slot (lease_of s1 m) = l_slot (lease_of s m) \<and> l_epoch (lease_of s1 m) = l_epoch (lease_of s m)" for m
    by (cases "m = l") (simp_all add: l n, simp_all add: s1_def)
  have f: "tm_store s' = tm_store s1" "tm_epoch s' = tm_epoch s" "tm_closed s' = tm_closed s" "length (tm_store s1) = length (tm_store s)"
    by (auto simp: s' s1_def pop_lease_def)
  have g: "tm_leases s1 = tm_leases s" "tm_attr s1 = tm_attr s" by (simp_all add: s1_def)
  show ?thesis
  proof (rule slots_okI)
    fix u m assume m: "tm_leases s' u = Some m"
    then have "tm_leases s u = Some m" by (auto simp: s' s1_def pop_lease_def split: if_splits)
    from slots_okD(1) [OF assms(1) this]
    show "m < length (tm_store s') \<and> l_slot (lease_of s' m) = u \<and> l_epoch (lease_of s' m) = tm_epoch s' \<and> \<not> tm_closed s'"
      by (simp add: f k)
  next
    fix u
    show "tm_attr s' u = shown (tm_store s') (tm_leases s' u)"
    proof (cases "u = l_slot (lease_of s l) \<and> holds s l")
      case True
      then have u: "tm_leases s u = Some l" "tm_attr s u = PENDING_TIMER" using a by (simp_all add: holds_def)
      have "shown (tm_store s1) (Some l) = source_id" using l n(3) assms(3) by simp
      then show ?thesis using True u by (simp add: s' g pop_lease_def del: shown.simps(2))
    next
      case False
      then show ?thesis using o [of u] slots_okD(2) [OF assms(1), of u] by (auto simp: s' g pop_lease_def simp del: shown.simps(2))
    qed
  next
    fix m assume "m < length (tm_store s')"
    then show "0 \<le> l_source_id (lease_of s' m)"
      using slots_okD(3) [OF assms(1), of m] n assms(3) by (cases "m = l") (simp_all add: f l, simp_all add: s1_def)
  qed
qed

lemma slots_fields [simp]:
  "slots_ok (s\<lparr>tm_active := n, tm_threads := f\<rparr>) = slots_ok s"
  "slots_ok (s\<lparr>tm_attached := A\<rparr>) = slots_ok s"
  "slots_ok (s\<lparr>tm_requested := b\<rparr>) = slots_ok s"
  "slots_ok (s\<lparr>tm_unregistering := b, tm_owner := n\<rparr>) = slots_ok s"
  "slots_ok (s\<lparr>tm_owner := n, tm_unregistering := b\<rparr>) = slots_ok s"
  "slots_ok (s\<lparr>tm_complete := b, tm_requested := b', tm_owner := n\<rparr>) = slots_ok s"
  by (simp_all add: slots_ok_def)

lemma slots_take: "slots_ok s \<Longrightarrow> take_callback t l s = (v, s') \<Longrightarrow> slots_ok s'"
  using slots_pop [of s l] by (auto simp: take_callback_def Let_def split: if_splits)

lemma slots_close: "slots_ok s \<Longrightarrow> close_timers s = (ls, s') \<Longrightarrow> slots_ok s'"
  by (rule slots_okI) (auto simp: close_timers_def take_timer_leases_def Let_def slots_okD(2) dest: slots_okD split: if_splits)

text \<open>A lease is published by one thread, and its source has no identifier until then.\<close>

primrec published :: "tframe list \<Rightarrow> nat list" where
  "published [] = []"
| "published (f # fs) = (case f of Publishing l \<Rightarrow> [l] | Attached l \<Rightarrow> [l] | _ \<Rightarrow> []) @ published fs"

definition publishing :: "world \<Rightarrow> bool" where
  "publishing w \<longleftrightarrow>
     (\<forall>t. distinct (published (snd w t)) \<and> (\<forall>l\<in>set (published (snd w t)). l_source_id (lease_of (fst w) l) = 0)) \<and>
     (\<forall>t u. t \<noteq> u \<longrightarrow> set (published (snd w t)) \<inter> set (published (snd w u)) = {})"

text \<open>What the parts with the lock leave alone.\<close>

lemma store_publish: "publish_lease slot delay c s = (x, s') \<Longrightarrow> length (tm_store s) \<le> length (tm_store s') \<and>
    (\<forall>l<length (tm_store s). lease_of s' l = lease_of s l) \<and> tm_attached s' = tm_attached s \<and>
    (\<forall>l. x = Some l \<longrightarrow> l = length (tm_store s) \<and> l < length (tm_store s') \<and> l_source_id (lease_of s' l) = 0)"
  by (auto simp: publish_lease_def Let_def nth_append split: if_splits)

lemma store_commit: "commit_source l source_id s = (kept, s') \<Longrightarrow>
    tm_store s' = (tm_store s)[l := (lease_of s l)\<lparr>l_source_id := source_id\<rparr>] \<and> tm_attached s' = tm_attached s"
  by (auto simp: commit_source_def pop_lease_def Let_def split: if_splits)

lemma store_same [simp]:
  "tm_store (attach_source l s) = tm_store s" "tm_store (destroy_sources ls s) = tm_store s"
  "tm_store (abandon_lease l s) = tm_store s" "tm_store (unregister_failed s) = tm_store s" "tm_store (finish_cleanup t s) = tm_store s"
  "tm_attached (attach_source l s) = insert l (tm_attached s)" "tm_attached (destroy_sources ls s) = tm_attached s - set ls"
  "tm_attached (abandon_lease l s) = tm_attached s" "tm_attached (unregister_failed s) = tm_attached s"
  "tm_attached (finish_cleanup t s) = tm_attached s"
  by (simp_all add: lock_defs)

lemma store_take: "take_callback t l s = (v, s') \<Longrightarrow> tm_store s' = tm_store s \<and> tm_attached s' = tm_attached s"
  by (auto simp: take_callback_def pop_lease_def Let_def split: if_splits)

lemma store_others:
  "cancel_lease slot s = (x, s') \<Longrightarrow> tm_store s' = tm_store s \<and> tm_attached s' = tm_attached s"
  "end_callback t s = (b, s') \<Longrightarrow> tm_store s' = tm_store s \<and> tm_attached s' = tm_attached s"
  "begin_cleanup t s = (c, s') \<Longrightarrow> tm_store s' = tm_store s \<and> tm_attached s' = tm_attached s"
  "close_timers s = (ls, s') \<Longrightarrow> tm_store s' = tm_store s \<and> tm_attached s' = tm_attached s"
  by (auto simp: cancel_lease_def end_callback_def begin_cleanup_def close_timers_def take_timer_leases_def Let_def split: if_splits)

lemma cancelled_known: "slots_ok s \<Longrightarrow> l \<in> set (cancelled_sources (tm_leases s slot) s') \<Longrightarrow> l < length (tm_store s)"
  using slots_okD(1) [of s slot l] by (auto simp: cancelled_sources_def split: option.splits if_splits)

lemma closed_known: "slots_ok s \<Longrightarrow> close_timers s = (ls, s') \<Longrightarrow> l \<in> set ls \<Longrightarrow> l < length (tm_store s)"
  using cancelled_known [of s] by (auto simp: close_timers_def take_timer_leases_def Let_def split: if_splits)

lemma known_upd:
  assumes "known (s, k)" "length (tm_store s) \<le> length (tm_store s')" "tm_attached s' \<subseteq> tm_attached s \<union> {..<length (tm_store s')}"
    "\<And>f l. f \<in> set fs \<Longrightarrow> l \<in> set (concerns f) \<Longrightarrow> (\<exists>g\<in>set (k t). l \<in> set (concerns g)) \<or> l < length (tm_store s')"
  shows "known (s', k(t := fs))"
proof -
  have o: "l < length (tm_store s')" if "g \<in> set (k u)" "l \<in> set (concerns g)" for g l u
    using assms(1,2) that unfolding known_def by (metis fst_conv order_less_le_trans snd_conv)
  have a: "l < length (tm_store s')" if "l \<in> tm_attached s'" for l
    using assms(1,2,3) that unfolding known_def by fastforce
  have n: "l < length (tm_store s')" if "f \<in> set fs" "l \<in> set (concerns f)" for f l
    using assms(4) [OF that] o by blast
  show ?thesis unfolding known_def using o a n by (auto split: if_splits)
qed

lemma knownD: "known (s, k) \<Longrightarrow> g \<in> set (k t) \<Longrightarrow> l \<in> set (concerns g) \<Longrightarrow> l < length (tm_store s)"
  by (auto simp: known_def)

lemma known_step: "tstep w e w' \<Longrightarrow> slots_ok (fst w) \<Longrightarrow> known w \<Longrightarrow> known w'"
proof (induction rule: tstep.induct)
  case (Schedule k t slot delay c s x s')
  from store_publish [OF Schedule(3)] Schedule(5) show ?case
    by (intro known_upd [OF Schedule(5)]) (auto split: option.splits)
next
  case (Attach k t l r s)
  have "l < length (tm_store s)" using Attach(1) knownD [OF Attach(3), of "Publishing l" t l] by simp
  then show ?case using Attach(1) by (intro known_upd [OF Attach(3)]) auto
next
  case (Commit k t l r source_id s kept s')
  from store_commit [OF Commit(3)] Commit(1) show ?case
    by (intro known_upd [OF Commit(5)]) (auto split: if_splits)
next
  case (Cancel k t slot s x s')
  have "l < length (tm_store s)" if "l \<in> set (cancelled_sources x s)" for l
    using that Cancel(3) cancelled_known Cancel(4) by (auto simp: cancel_lease_def)
  with store_others(1) [OF Cancel(3)] show ?case by (intro known_upd [OF Cancel(5)]) auto
next
  case (Dispatch k t l s)
  then have "l < length (tm_store s)" by (simp add: known_def)
  with Dispatch show ?case by (intro known_upd [OF Dispatch(5)]) auto
next
  case (Close k t r s ls s')
  have "l < length (tm_store s)" if "l \<in> set ls" for l
    using closed_known [OF _ Close(2) that] Close(3) by simp
  with store_others(4) [OF Close(2)] Close(1) show ?case by (intro known_upd [OF Close(4)]) auto
qed (auto elim!: known_upd dest!: store_take store_others split: if_splits)

lemma published_known: "known w \<Longrightarrow> l \<in> set (published (snd w t)) \<Longrightarrow> l < length (tm_store (fst w))"
proof -
  have "\<exists>f\<in>set fs. l \<in> set (concerns f)" if "l \<in> set (published fs)" for fs
    using that by (induction fs) (auto split: tframe.splits)
  then show "known w \<Longrightarrow> l \<in> set (published (snd w t)) \<Longrightarrow> l < length (tm_store (fst w))"
    unfolding known_def by blast
qed

text \<open>A step changes the stack of one thread.\<close>

lemma publishing_upd:
  assumes "publishing (s, k)" "set (published fs) \<subseteq> set (published (k t))" "distinct (published (k t)) \<Longrightarrow> distinct (published fs)"
    "\<And>l u. l \<in> set (published ((k(t := fs)) u)) \<Longrightarrow> lease_of s' l = lease_of s l"
  shows "publishing (s', k(t := fs))"
proof -
  have p: "distinct (published (k u))" "l \<in> set (published (k u)) \<Longrightarrow> l_source_id (lease_of s l) = 0"
    "u \<noteq> v \<Longrightarrow> set (published (k u)) \<inter> set (published (k v)) = {}" for u v l
    using assms(1) by (auto simp: publishing_def)
  have i: "set (published ((k(t := fs)) u)) \<subseteq> set (published (k u))" for u using assms(2) by simp
  have "distinct (published ((k(t := fs)) u))" for u using assms(3) p(1) by simp
  moreover have "l_source_id (lease_of s' l) = 0" if "l \<in> set (published ((k(t := fs)) u))" for l u
    using that i p(2) assms(4) by (metis subsetD)
  moreover have "set (published ((k(t := fs)) u)) \<inter> set (published ((k(t := fs)) v)) = {}" if "u \<noteq> v" for u v
    using p(3) [OF that] i [of u] i [of v] by blast
  ultimately show ?thesis unfolding publishing_def by simp
qed

lemma publishing_step: "tstep w e w' \<Longrightarrow> known w \<Longrightarrow> publishing w \<Longrightarrow> publishing w'"
proof (induction rule: tstep.induct)
  case (Schedule k t slot delay c s x s')
  note p = store_publish [OF Schedule(3)]
  have old: "lease_of s' l = lease_of s l" if "l \<in> set (published (k u))" for l u
    using published_known [OF Schedule(4), of l u] that p by simp
  show ?case
  proof (cases x)
    case None
    then show ?thesis using Schedule(5) old by (intro publishing_upd [OF Schedule(5)]) (auto simp: publishing_def split: if_splits)
  next
    case (Some n)
    then have n: "n \<notin> set (published (k u))" for u using published_known [OF Schedule(4), of n u] p by auto
    have "l_source_id (lease_of s' l) = 0" if "l \<in> set (published (k u))" for l u
      using Schedule(5) old [OF that] that by (auto simp: publishing_def)
    then show ?thesis using Schedule(5) Some n p by (auto simp: publishing_def)
  qed
next
  case (Commit k t l r source_id s kept s')
  have "distinct (published (k t))" using Commit(5) by (simp add: publishing_def)
  then have r: "l \<notin> set (published r)" "distinct (published r)" using Commit(1) by simp_all
  have "l \<notin> set (published (k u))" if "u \<noteq> t" for u
  proof -
    have "set (published (k u)) \<inter> set (published (k t)) = {}" using Commit(5) that by (simp add: publishing_def)
    then show ?thesis using Commit(1) by auto
  qed
  then have "lease_of s' m = lease_of s m" if "m \<in> set (published ((k(t := (if kept then [] else [Destroying [l]]) @ r)) u))" for m u
    using that r store_commit [OF Commit(3)] by (cases "m = l") (auto split: if_splits)
  then show ?case using Commit(1) r by (intro publishing_upd [OF Commit(5)]) auto
qed (auto elim!: publishing_upd dest!: store_take store_others split: if_splits)

lemma publishing_id: "publishing (s, k) \<Longrightarrow> l \<in> set (published (k t)) \<Longrightarrow> l_source_id (lease_of s l) = 0"
  by (simp add: publishing_def)

lemma slots_step: "tstep w e w' \<Longrightarrow> known w \<Longrightarrow> publishing w \<Longrightarrow> slots_ok (fst w) \<Longrightarrow> slots_ok (fst w')"
proof (induction rule: tstep.induct)
  case (AttachFails k t l r s)
  then have "l_source_id (lease_of s l) = 0" using publishing_id [of s k l t] by simp
  with AttachFails show ?case by (simp add: slots_abandon)
next
  case (Commit k t l r source_id s kept s')
  then have "l < length (tm_store s)" using knownD [OF Commit(4), of "Attached l" t l] by simp
  moreover from Commit have "l_source_id (lease_of s l) = 0" using publishing_id [of s k l t] by simp
  ultimately show ?case using Commit slots_commit by simp
next
  case (Claim k t r s s')
  then show ?case by (auto simp: begin_cleanup_def split: if_splits)
next
  case (Refuse k t r s s')
  then show ?case by (auto simp: begin_cleanup_def split: if_splits)
qed (auto simp: attach_source_def destroy_sources_def unregister_failed_def finish_cleanup_def end_callback_def Let_def
  dest: slots_publish slots_cancel slots_take slots_close)

section \<open>The clean up\<close>

text \<open>The frames of the thread that does the clean up, and those once the timers are closed.\<close>

fun is_cleaning :: "tframe \<Rightarrow> bool" where
  "is_cleaning Unregistering = True"
| "is_cleaning (DestroyAll _) = True"
| "is_cleaning WaitCallbacks = True"
| "is_cleaning CleanupTail = True"
| "is_cleaning _ = False"

primrec cleaning :: "tframe list \<Rightarrow> nat" where
  "cleaning [] = 0"
| "cleaning (f # fs) = of_bool (is_cleaning f) + cleaning fs"

definition closing :: "tframe list \<Rightarrow> bool" where
  "closing fs \<longleftrightarrow> (\<exists>f\<in>set fs. is_cleaning f \<and> f \<noteq> Unregistering)"

lemma closing_Cons [simp]: "closing (f # fs) \<longleftrightarrow> is_cleaning f \<and> f \<noteq> Unregistering \<or> closing fs"
  by (auto simp: closing_def)

lemma cleaning_closing: "cleaning fs = 0 \<Longrightarrow> \<not> closing fs"
  by (induction fs) (auto simp: closing_def)

lemma tail_closing: "CleanupTail \<in> set fs \<Longrightarrow> closing fs"
  by (force simp: closing_def)

text \<open>
  One thread at most cleans up, the owner. The timers are closed from then on, and when the owner has got
  past the callbacks, none is running.
\<close>

definition released :: "world \<Rightarrow> bool" where
  "released w \<longleftrightarrow> tm_complete (fst w) \<or> (\<exists>t. CleanupTail \<in> set (snd w t))"

definition phase_ok :: "world \<Rightarrow> bool" where
  "phase_ok w \<longleftrightarrow>
     (\<forall>t. cleaning (snd w t) = of_bool (t \<noteq> 0 \<and> tm_owner (fst w) = t)) \<and>
     (tm_complete (fst w) \<longrightarrow> tm_owner (fst w) = 0) \<and>
     (tm_closed (fst w) \<longleftrightarrow> tm_complete (fst w) \<or> (\<exists>t. closing (snd w t))) \<and>
     (released w \<longrightarrow> tm_active (fst w) = 0)"

lemma ex_upd: "(\<exists>u. P ((k(t := fs)) u)) \<longleftrightarrow> P fs \<or> (\<exists>u. u \<noteq> t \<and> P (k u))"
  by auto

lemma ex_same: "P fs = P (k t) \<Longrightarrow> (\<exists>u. P ((k(t := fs)) u)) \<longleftrightarrow> (\<exists>u. P (k u))"
  by (metis fun_upd_apply)

lemma owner_top:
  assumes "phase_ok (s, k)" "k t = f # r" "is_cleaning f"
  shows "t \<noteq> 0 \<and> tm_owner s = t \<and> cleaning r = 0"
proof -
  have "cleaning (k t) = of_bool (t \<noteq> 0 \<and> tm_owner s = t)" using assms(1) by (simp add: phase_ok_def)
  then show ?thesis using assms(2,3) by (auto simp: of_bool_def split: if_splits)
qed

lemma phase_upd:
  assumes "phase_ok (s, k)" "cleaning fs = cleaning (k t)" "closing fs = closing (k t)"
    "CleanupTail \<in> set fs \<longleftrightarrow> CleanupTail \<in> set (k t)"
    "tm_owner s' = tm_owner s" "tm_complete s' = tm_complete s" "tm_closed s' = tm_closed s"
    "tm_closed s \<Longrightarrow> tm_active s = 0 \<Longrightarrow> tm_active s' = 0"
  shows "phase_ok (s', k(t := fs))"
proof -
  have c: "(\<exists>u. closing ((k(t := fs)) u)) \<longleftrightarrow> (\<exists>u. closing (k u))" by (rule ex_same) (rule assms(3))
  have "(\<exists>u. CleanupTail \<in> set ((k(t := fs)) u)) \<longleftrightarrow> (\<exists>u. CleanupTail \<in> set (k u))" by (rule ex_same) (rule assms(4))
  then have r: "released (s', k(t := fs)) = released (s, k)" by (simp add: released_def assms(6))
  have "released (s, k) \<Longrightarrow> tm_closed s" using assms(1) tail_closing by (auto simp: phase_ok_def released_def)
  then show ?thesis using assms(1,2,5-8) c r by (simp add: phase_ok_def)
qed

lemma phase_step: "tstep w e w' \<Longrightarrow> phase_ok w \<Longrightarrow> phase_ok w'"
proof (induction rule: tstep.induct)
  case (Claim k t r s s')
  then have s': "s' = s\<lparr>tm_owner := t, tm_unregistering := True\<rparr>" "tm_owner s = 0" "\<not> tm_complete s" "t \<noteq> 0"
    by (auto simp: begin_cleanup_def split: if_splits)
  have "cleaning (k u) = 0" for u using Claim(3) s'(2) by (cases "u = 0") (simp_all add: phase_ok_def)
  moreover from this [of t] have "cleaning r = 0" using Claim(1) by simp
  moreover have "(\<exists>u. closing ((k(t := Unregistering # r)) u)) \<longleftrightarrow> (\<exists>u. closing (k u))"
    "(\<exists>u. CleanupTail \<in> set ((k(t := Unregistering # r)) u)) \<longleftrightarrow> (\<exists>u. CleanupTail \<in> set (k u))"
    by (rule ex_same, simp add: Claim(1))+
  ultimately show ?case using Claim(2,3) s' by (auto simp: phase_ok_def released_def)
next
  case (UnregisterFails k t r s)
  have t: "t \<noteq> 0" "tm_owner s = t" "cleaning r = 0" using owner_top [of s k t] UnregisterFails by simp_all
  moreover have "(\<exists>u. closing ((k(t := r)) u)) \<longleftrightarrow> (\<exists>u. closing (k u))"
    "(\<exists>u. CleanupTail \<in> set ((k(t := r)) u)) \<longleftrightarrow> (\<exists>u. CleanupTail \<in> set (k u))"
    by (rule ex_same, simp add: UnregisterFails(1))+
  ultimately show ?case using UnregisterFails(2) by (auto simp: phase_ok_def released_def unregister_failed_def)
next
  case (Close k t r s ls s')
  have t: "t \<noteq> 0" "tm_owner s = t" "cleaning r = 0" using owner_top [of s k t] Close by simp_all
  have s': "tm_closed s'" "tm_owner s' = tm_owner s" "tm_complete s' = tm_complete s" "tm_active s' = tm_active s"
    using Close(2) by (auto simp: close_timers_def take_timer_leases_def Let_def split: if_splits)
  have "(\<exists>u. CleanupTail \<in> set ((k(t := DestroyAll ls # r)) u)) \<longleftrightarrow> (\<exists>u. CleanupTail \<in> set (k u))"
    by (rule ex_same, simp add: Close(1))
  moreover have "\<exists>u. closing ((k(t := DestroyAll ls # r)) u)" by (rule exI [of _ t]) simp
  ultimately show ?case using Close(3) s' t by (auto simp: phase_ok_def released_def)
next
  case (Waited k t r s)
  have t: "t \<noteq> 0" "tm_owner s = t" "cleaning r = 0" using owner_top [of s k t] Waited by simp_all
  have "(\<exists>u. closing ((k(t := CleanupTail # r)) u)) \<longleftrightarrow> (\<exists>u. closing (k u))"
    by (rule ex_same, simp add: Waited(1))
  with Waited(2,3) t show ?case by (auto simp: phase_ok_def released_def)
next
  case (Finish k t r s)
  have t: "t \<noteq> 0" "tm_owner s = t" "cleaning r = 0" using owner_top [of s k t] Finish by simp_all
  have "released (s, k)" using Finish(1) by (auto simp: released_def intro: exI [of _ t])
  moreover have "closing (k t)" using Finish(1) by simp
  ultimately have "tm_closed s" "tm_active s = 0" using Finish(2) by (auto simp: phase_ok_def)
  with Finish(2) t show ?case by (auto simp: phase_ok_def released_def finish_cleanup_def)
next
  case (Ends k t l r s deferred s')
  then show ?case by (intro phase_upd [OF Ends(3)]) (auto simp: end_callback_def Let_def)
qed (auto simp: lock_defs Let_def elim!: phase_upd split: if_splits option.splits)


text \<open>
  Only code that calls others has frames above its own, and a thread that cleans up has no callback to
  return to: its own callbacks are never waited for.
\<close>

fun calls :: "tframe \<Rightarrow> bool" where
  "calls (InCallback _) = True"
| "calls (Returning _ _) = True"
| "calls Unregistering = True"
| "calls CleanupTail = True"
| "calls _ = False"

primrec stacked :: "tframe list \<Rightarrow> bool" where
  "stacked [] = True"
| "stacked (f # fs) \<longleftrightarrow> (fs = [] \<or> calls (hd fs)) \<and> (is_cleaning f \<longrightarrow> callbacks fs = 0) \<and> stacked fs"

lemma user_calls: "user_code fs \<Longrightarrow> fs = [] \<or> calls (hd fs)"
  by (cases fs) (auto split: tframe.splits)

definition stacks_ok :: "world \<Rightarrow> bool" where
  "stacks_ok w \<longleftrightarrow> (\<forall>t. stacked (snd w t))"

lemma stacks_upd: "stacks_ok (s, k) \<Longrightarrow> (stacked (k t) \<Longrightarrow> stacked fs) \<Longrightarrow> stacks_ok (s', k(t := fs))"
  by (simp add: stacks_ok_def)

lemma stacks_step: "tstep w e w' \<Longrightarrow> counts_ok w \<Longrightarrow> stacks_ok w \<Longrightarrow> stacks_ok w'"
proof (induction rule: tstep.induct)
  case (Claim k t r s s')
  then have "callbacks r = 0" by (auto simp: begin_cleanup_def counts_ok_def split: if_splits)
  with Claim show ?case by (intro stacks_upd [OF Claim(4)]) simp
next
  case (Schedule k t slot delay c s x s')
  then show ?case by (cases x) (auto simp: stacks_ok_def dest: user_calls)
qed (auto elim!: stacks_upd dest: user_calls split: option.splits)

section \<open>The sources\<close>

text \<open>The frames of all threads, and those of the other threads with the rest of one.\<close>

definition frames :: "(nat \<Rightarrow> tframe list) \<Rightarrow> tframe set" where
  "frames k = (\<Union>t. set (k t))"

definition rest :: "(nat \<Rightarrow> tframe list) \<Rightarrow> nat \<Rightarrow> tframe list \<Rightarrow> tframe set" where
  "rest k t r = set r \<union> (\<Union>u\<in>- {t}. set (k u))"

lemma frames_top: "frames k = set (k t) \<union> rest k t []"
  by (auto simp: frames_def rest_def)

lemma frames_upd: "frames (k(t := new @ r)) = set new \<union> rest k t r"
  by (auto simp: frames_def rest_def split: if_splits)

lemma frames_at: "k t = f # r \<Longrightarrow> frames k = insert f (rest k t r)"
  unfolding frames_top [of k t] by (auto simp: rest_def)

text \<open>
  The sources that a frame is about to destroy or has no more use for. A source that is attached belongs to
  a lease in its slot, or somebody will destroy it; the source of a timer that has been scheduled is attached.
\<close>

fun gone :: "tframe \<Rightarrow> nat list" where
  "gone (Destroying ls) = ls"
| "gone (DestroyAll ls) = ls"
| "gone (InCallback l) = [l]"
| "gone (Returning l again) = (if again then [] else [l])"
| "gone _ = []"

definition gones :: "tframe set \<Rightarrow> nat set" where
  "gones F = (\<Union>f\<in>F. set (gone f))"

definition pubs :: "tframe set \<Rightarrow> nat set" where
  "pubs F = {l. Publishing l \<in> F}"

definition atts :: "tframe set \<Rightarrow> nat set" where
  "atts F = {l. Attached l \<in> F}"

definition unnamed :: "timers \<Rightarrow> nat set" where
  "unnamed s = {l. l_source_id (lease_of s l) = 0}"

abbreviation held :: "timers \<Rightarrow> nat set" where
  "held s \<equiv> ran (tm_leases s)"

definition sources_ok :: "timers \<Rightarrow> tframe set \<Rightarrow> bool" where
  "sources_ok s F \<longleftrightarrow>
     gones F \<inter> held s = {} \<and> tm_attached s \<subseteq> held s \<union> gones F \<union> atts F \<and>
     held s \<inter> unnamed s \<subseteq> pubs F \<union> atts F \<and> held s - unnamed s \<subseteq> tm_attached s \<and>
     held s \<inter> atts F \<subseteq> tm_attached s \<and> pubs F \<inter> tm_attached s = {}"

lemma frame_sets [simp]:
  "gones (insert f F) = set (gone f) \<union> gones F" "gones (F \<union> G) = gones F \<union> gones G" "gones {} = {}"
  "pubs (insert f F) = (case f of Publishing l \<Rightarrow> {l} | _ \<Rightarrow> {}) \<union> pubs F" "pubs (F \<union> G) = pubs F \<union> pubs G" "pubs {} = {}"
  "atts (insert f F) = (case f of Attached l \<Rightarrow> {l} | _ \<Rightarrow> {}) \<union> atts F" "atts (F \<union> G) = atts F \<union> atts G" "atts {} = {}"
  by (auto simp: gones_def pubs_def atts_def split: tframe.splits)

text \<open>What the parts with the lock do to the leases in the slots.\<close>

lemma held_holds: "slots_ok s \<Longrightarrow> l \<in> held s \<longleftrightarrow> holds s l"
  by (auto simp: ran_def holds_def dest: slots_okD(1))

lemma ran_clear:
  assumes "m v = Some l" "\<And>u. m u = Some l \<Longrightarrow> u = v"
  shows "ran (m(v := None)) = ran m - {l}"
proof -
  have "x \<in> ran (m(v := None)) \<longleftrightarrow> x \<in> ran m \<and> x \<noteq> l" for x
  proof
    assume "x \<in> ran (m(v := None))"
    then obtain u where u: "u \<noteq> v" "m u = Some x" by (auto simp: ran_def split: if_splits)
    then have "x \<noteq> l" using assms(2) by blast
    then show "x \<in> ran m \<and> x \<noteq> l" using u by (blast intro: ranI)
  next
    assume x: "x \<in> ran m \<and> x \<noteq> l"
    then obtain u where u: "m u = Some x" by (auto simp: ran_def)
    then have "u \<noteq> v" using assms(1) x by auto
    then show "x \<in> ran (m(v := None))" using u by (intro ranI [of _ u]) simp
  qed
  then show ?thesis by blast
qed

lemma held_clear:
  assumes "slots_ok s" "tm_leases s slot = Some l"
  shows "ran ((tm_leases s)(slot := None)) = held s - {l}"
proof (rule ran_clear)
  show "u = slot" if "tm_leases s u = Some l" for u
    using slots_okD(1) [OF assms(1) that] slots_okD(1) [OF assms] by simp
qed (rule assms(2))

lemma held_pop: "slots_ok s \<Longrightarrow> holds s l \<Longrightarrow> held (pop_lease (l_slot (lease_of s l)) v s) = held s - {l}"
  by (simp add: held_clear holds_def pop_lease_def)

lemma held_publish: "publish_lease slot delay c s = (x, s') \<Longrightarrow>
    (x = None \<and> s' = s) \<or> (x = Some (length (tm_store s)) \<and> held s' = insert (length (tm_store s)) (held s))"
  by (auto simp: publish_lease_def Let_def split: if_splits)

lemma held_abandon: "slots_ok s \<Longrightarrow> held (abandon_lease l s) = held s - {l}"
  using held_pop held_holds by (auto simp: abandon_lease_def)

lemma held_cancel: "slots_ok s \<Longrightarrow> cancel_lease slot s = (x, s') \<Longrightarrow> held s' = held s - set_option x"
  by (cases "tm_leases s slot") (auto simp: cancel_lease_def fun_upd_idem held_clear simp del: not_None_eq dest: sym)

lemma held_commit:
  assumes "slots_ok s" "l < length (tm_store s)" "commit_source l source_id s = (kept, s')"
  shows "if kept then held s' = held s \<and> l \<in> held s else held s' = held s - {l}"
proof -
  let ?s = "s\<lparr>tm_store := (tm_store s)[l := (lease_of s l)\<lparr>l_source_id := source_id\<rparr>]\<rparr>"
  have h: "holds ?s l = holds s l" using assms(2) by (simp add: holds_def)
  have p: "held (pop_lease (l_slot (lease_of s l)) v ?s) = held (pop_lease (l_slot (lease_of s l)) v s)" for v
    by (simp add: pop_lease_def)
  show ?thesis
    using assms(3) h p held_pop [OF assms(1), of l] held_holds [OF assms(1), of l]
    by (auto simp: commit_source_def Let_def split: if_splits)
qed

lemma held_take: "slots_ok s \<Longrightarrow> take_callback t l s = (v, s') \<Longrightarrow>
    (v = Keep \<and> s' = s) \<or> (v = Remove \<and> held s' = held s - {l}) \<or> (v = Run \<and> l \<in> held s \<and> held s' = held s - {l})"
  using held_pop [of s l] held_holds [of s l] by (auto simp: take_callback_def Let_def split: if_splits)

lemma cancelled_same [simp]: "cancelled_sources x (s\<lparr>tm_unregistering := b, tm_started := c\<rparr>) = cancelled_sources x s"
  by (simp add: cancelled_sources_def split: option.splits)

lemma held_close:
  assumes "slots_ok s" "close_timers s = (ls, s')"
  shows "held s' = {} \<and> set ls = held s - unnamed s"
proof (cases "tm_closed s")
  case True
  then have "held s = {}" using slots_okD(1) [OF assms(1)] unfolding ran_def by blast
  with True assms(2) show ?thesis by (auto simp: close_timers_def take_timer_leases_def Let_def)
next
  case False
  have "slot \<in> set TIMER_SLOTS" for slot by (cases slot) (simp_all add: TIMER_SLOTS_def)
  then have "set TIMER_SLOTS = UNIV" by blast
  then have "set (concat (map (\<lambda>slot. cancelled_sources (tm_leases s slot) s) TIMER_SLOTS)) = (\<Union>slot. set (cancelled_sources (tm_leases s slot) s))"
    by simp
  also have "\<dots> = held s - unnamed s"
  proof -
    have "l \<in> set (cancelled_sources (tm_leases s slot) s) \<longleftrightarrow> tm_leases s slot = Some l \<and> l \<notin> unnamed s" for l slot
      by (cases "tm_leases s slot") (auto simp: cancelled_sources_def unnamed_def)
    then show ?thesis by (auto simp: ran_def)
  qed
  finally have "set (concat (map (\<lambda>slot. cancelled_sources (tm_leases s slot) s) TIMER_SLOTS)) = held s - unnamed s" .
  moreover have "tm_leases (snd (close_timers s)) = (\<lambda>_. None)"
    "fst (close_timers s) = concat (map (\<lambda>slot. cancelled_sources (tm_leases s slot) s) TIMER_SLOTS)"
    by (simp_all add: close_timers_def take_timer_leases_def Let_def False)
  ultimately show ?thesis using assms(2) by simp
qed

lemma held_others:
  "end_callback t s = (b, s') \<Longrightarrow> tm_leases s' = tm_leases s" "begin_cleanup t s = (c, s') \<Longrightarrow> tm_leases s' = tm_leases s"
  by (auto simp: end_callback_def begin_cleanup_def Let_def split: if_splits)

lemma held_same [simp]:
  "tm_leases (attach_source l s) = tm_leases s" "tm_leases (destroy_sources ls s) = tm_leases s"
  "tm_leases (unregister_failed s) = tm_leases s" "tm_leases (finish_cleanup t s) = tm_leases s"
  by (simp_all add: lock_defs)

lemma unnamed_same: "tm_store s' = tm_store s \<Longrightarrow> unnamed s' = unnamed s"
  by (simp add: unnamed_def)

lemma published_frames: "l \<in> set (published fs) \<longleftrightarrow> Publishing l \<in> set fs \<or> Attached l \<in> set fs"
  by (induction fs) (auto split: tframe.splits)

text \<open>A lease that one thread publishes is not published by another.\<close>

lemma publishing_once:
  assumes "publishing (s, k)" "k t = f # r" "l \<in> set (published [f])"
  shows "l \<notin> pubs (rest k t r) \<and> l \<notin> atts (rest k t r)"
proof -
  have "distinct (published (k t))" using assms(1) by (simp add: publishing_def)
  then have "l \<notin> set (published r)" using assms(2,3) by auto
  moreover have "l \<notin> set (published (k u))" if "u \<noteq> t" for u
  proof -
    have "set (published (k u)) \<inter> set (published (k t)) = {}" using assms(1) that by (simp add: publishing_def)
    then show ?thesis using assms(2,3) by auto
  qed
  ultimately show ?thesis by (auto simp: published_frames pubs_def atts_def rest_def)
qed

lemma frames_push: "frames (k(t := new @ k t)) = set new \<union> frames k"
  by (auto simp: frames_def split: if_splits)

lemma sources_same:
  assumes "sources_ok s F" "gones F' = gones F" "pubs F' = pubs F" "atts F' = atts F"
    "tm_leases s' = tm_leases s" "tm_store s' = tm_store s" "tm_attached s' = tm_attached s"
  shows "sources_ok s' F'"
  using assms(1) unfolding sources_ok_def assms(2-5,7) unnamed_same [OF assms(6)] .

lemma sources_done:
  assumes "sources_ok s F" "gones F = G \<union> gones R" "pubs F = pubs R" "atts F = atts R"
    "tm_leases s' = tm_leases s" "tm_store s' = tm_store s" "tm_attached s' = tm_attached s - G"
  shows "sources_ok s' R"
  using assms(1) unfolding sources_ok_def assms(2-5,7) unnamed_same [OF assms(6)] by blast

text \<open>Leases are taken out of their slots, for a frame that will destroy their sources; or for nobody.\<close>

lemma sources_taken:
  assumes "sources_ok s F" "held s' = held s - L" "gones F' = G \<union> gones F" "G \<subseteq> L" "L \<inter> tm_attached s \<subseteq> G \<union> gones F \<union> atts F"
    "pubs F' = pubs F" "atts F' = atts F" "tm_store s' = tm_store s" "tm_attached s' = tm_attached s"
  shows "sources_ok s' F'"
  using assms(1,4,5) unfolding sources_ok_def assms(2,3,6,7,9) unnamed_same [OF assms(8)] by blast

lemma held_known: "slots_ok (fst w) \<Longrightarrow> l \<in> held (fst w) \<Longrightarrow> l < length (tm_store (fst w))"
  unfolding ran_def using slots_okD(1) by blast

lemma gones_known: "known w \<Longrightarrow> l \<in> gones (frames (snd w)) \<Longrightarrow> l < length (tm_store (fst w))"
proof -
  have "set (gone f) \<subseteq> set (concerns f)" for f by (cases f) auto
  then show "known w \<Longrightarrow> l \<in> gones (frames (snd w)) \<Longrightarrow> l < length (tm_store (fst w))"
    unfolding known_def gones_def frames_def by blast
qed

lemma atts_known: "known w \<Longrightarrow> l \<in> atts (frames (snd w)) \<Longrightarrow> l < length (tm_store (fst w))"
  using knownD [of "fst w" "snd w" "Attached l"] by (auto simp: atts_def frames_def)

lemma sources_step: "tstep w e w' \<Longrightarrow> slots_ok (fst w) \<Longrightarrow> known w \<Longrightarrow> publishing w \<Longrightarrow>
    sources_ok (fst w) (frames (snd w)) \<Longrightarrow> sources_ok (fst w') (frames (snd w'))"
proof (induction rule: tstep.induct)
  case (Schedule k t slot delay c s x s')
  note a = store_publish [OF Schedule(3)]
  have k: "l < length (tm_store s)" if "l \<in> held s \<or> l \<in> tm_attached s \<or> l \<in> gones (frames k) \<or> l \<in> atts (frames k)" for l
    using that Schedule(5) held_known [OF Schedule(4)] gones_known [OF Schedule(5)] atts_known [OF Schedule(5)] by (auto simp: known_def)
  show ?case
  proof (cases x)
    case None
    then show ?thesis using held_publish [OF Schedule(3)] Schedule(7) by auto
  next
    case (Some n)
    let ?k = "k(t := [Publishing n] @ k t)"
    have n: "n = length (tm_store s)" "held s' = insert n (held s)" "n \<in> unnamed s'" "tm_attached s' = tm_attached s"
      using Some a held_publish [OF Schedule(3)] by (auto simp: unnamed_def)
    moreover have "l \<in> unnamed s' \<longleftrightarrow> l \<in> unnamed s" if "l \<in> held s" for l using a k that by (simp add: unnamed_def)
    moreover have "gones (frames ?k) = gones (frames k)" "atts (frames ?k) = atts (frames k)" "pubs (frames ?k) = insert n (pubs (frames k))"
      by (simp_all only: frames_push) simp_all
    ultimately have "sources_ok s' (frames ?k)"
      using Schedule(7) k [of n] unfolding sources_ok_def by auto
    then show ?thesis by (simp only: Some fst_conv snd_conv option.case)
  qed
next
  case (Attach k t l r s)
  let ?R = "rest k t r" and ?k = "k(t := [Attached l] @ r)"
  note F = frames_at [of k, OF Attach(1)] frames_upd [of k t "[Attached l]" r]
  have "gones (frames ?k) = gones (frames k)" "atts (frames ?k) = insert l (atts (frames k))" "pubs (frames k) = insert l (pubs (frames ?k))"
    "l \<notin> pubs (frames ?k)"
    using publishing_once [OF Attach(4) Attach(1), of l] by (simp_all only: F) simp_all
  then have "sources_ok (attach_source l s) (frames ?k)"
    using Attach(5) unfolding sources_ok_def by (auto simp: unnamed_def)
  then show ?case by (simp only: fst_conv snd_conv append.simps)
next
  case (AttachFails k t l r s)
  note F = frames_at [of k, OF AttachFails(1)] frames_upd [of k t "[]" r]
  from AttachFails(5) have o: "sources_ok s (insert (Publishing l) (rest k t r))" by (simp add: F)
  have "sources_ok (abandon_lease l s) (rest k t r)"
    using publishing_once [OF AttachFails(4) AttachFails(1), of l] o held_abandon [OF AttachFails(2) [simplified], of l]
    unfolding sources_ok_def by (auto simp: unnamed_def)
  then show ?case using F by (simp only: fst_conv snd_conv append.simps list.set Un_empty_left)
next
  case (Commit k t l r source_id s kept s')
  let ?new = "if kept then [] else [Destroying [l]]"
  note F = frames_at [of k, OF Commit(1)] frames_upd [of k t ?new r]
  have l: "l < length (tm_store s)" using knownD [OF Commit(5), of "Attached l" t l] Commit(1) by simp
  have u: "unnamed s' = unnamed s - {l}"
    using store_commit [OF Commit(3)] Commit(2) l by (auto simp: unnamed_def nth_list_update)
  have i: "l \<in> unnamed s" using publishing_id [OF Commit(6), of l t] Commit(1) by (simp add: unnamed_def)
  from publishing_once [OF Commit(6) Commit(1), of l] have p: "l \<notin> pubs (rest k t r)" "l \<notin> atts (rest k t r)" by simp_all
  have h: "if kept then held s' = held s \<and> l \<in> held s else held s' = held s - {l}"
    using held_commit [OF _ l Commit(3)] Commit(4) by simp
  have a: "tm_attached s' = tm_attached s" using store_commit [OF Commit(3)] by simp
  from Commit(7) have o: "sources_ok s (insert (Attached l) (rest k t r))" by (simp add: F)
  have "sources_ok s' (set ?new \<union> rest k t r)"
  proof (cases kept)
    case True
    then show ?thesis using o p h i unfolding sources_ok_def u a by auto
  next
    case False
    then show ?thesis using o p h i unfolding sources_ok_def u a by auto
  qed
  then show ?case using F by (simp only: fst_conv snd_conv)
next
  case (Destroy k t ls r s)
  note F = frames_at [of k, OF Destroy(1)] frames_upd [of k t "[]" r]
  have "sources_ok (destroy_sources ls s) (rest k t r)"
    using Destroy(5) unfolding fst_conv snd_conv F by (rule sources_done [where G = "set ls"]) simp_all
  then show ?case using F by (simp only: fst_conv snd_conv append.simps list.set Un_insert_left Un_empty_left)
next
  case (Cancel k t slot s x s')
  let ?k = "k(t := [Destroying (cancelled_sources x s)] @ k t)"
  have x: "x = tm_leases s slot" using Cancel(3) by (simp add: cancel_lease_def)
  have c: "set (cancelled_sources x s) = set_option x - unnamed s" "set_option x \<subseteq> held s"
    unfolding x by (cases "tm_leases s slot", auto simp: cancelled_sources_def unnamed_def intro: ranI)+
  have "set_option x \<inter> tm_attached s \<inter> unnamed s \<subseteq> atts (frames k)"
    using Cancel(7) c(2) unfolding sources_ok_def by auto
  then have a: "set_option x \<inter> tm_attached s \<subseteq> (set_option x - unnamed s) \<union> gones (frames k) \<union> atts (frames k)" by blast
  have "sources_ok s' (frames ?k)"
  proof (rule sources_taken [OF _ _ _ _ a])
    show "sources_ok s (frames k)" using Cancel(7) by simp
    show "held s' = held s - set_option x" using held_cancel [OF _ Cancel(3)] Cancel(4) by simp
    show "gones (frames ?k) = set_option x - unnamed s \<union> gones (frames k)" unfolding frames_push using c(1) by simp
    show "pubs (frames ?k) = pubs (frames k)" "atts (frames ?k) = atts (frames k)" unfolding frames_push by simp_all
    show "tm_store s' = tm_store s" "tm_attached s' = tm_attached s" using store_others(1) [OF Cancel(3)] by simp_all
  qed blast
  then show ?case by (simp only: fst_conv snd_conv append.simps)
next
  case (Dispatch k t l s)
  have "sources_ok s (frames (k(t := [Dispatched l] @ k t)))"
    using Dispatch(7) unfolding fst_conv snd_conv frames_push by (rule sources_same) simp_all
  then show ?case by (simp only: fst_conv snd_conv append.simps)
next
  case (NotRun k t l r s v s')
  note F = frames_at [of k, OF NotRun(1)] frames_upd [of k t "[Returning l (v = Keep)]" r]
  from NotRun(7) have o: "sources_ok s (insert (Dispatched l) (rest k t r))" by (simp add: F)
  from held_take [OF _ NotRun(2)] NotRun(3,4) consider "v = Keep" "s' = s" | "v = Remove" "held s' = held s - {l}" by auto
  then have "sources_ok s' (insert (Returning l (v = Keep)) (rest k t r))"
  proof cases
    case 1
    with o show ?thesis by (intro sources_same [OF o]) simp_all
  next
    case 2
    with store_take [OF NotRun(2)] show ?thesis
      by (intro sources_taken [OF o, where L = "{l}" and G = "{l}"]) auto
  qed
  then show ?case using F by (simp only: fst_conv snd_conv append.simps list.set Un_insert_left Un_empty_left)
next
  case (Start k t l r s s')
  note F = frames_at [of k, OF Start(1)] frames_upd [of k t "[InCallback l]" r]
  from Start(6) have o: "sources_ok s (insert (Dispatched l) (rest k t r))" by (simp add: F)
  have "sources_ok s' (insert (InCallback l) (rest k t r))"
    using held_take [OF _ Start(2)] Start(3) store_take [OF Start(2)]
    by (intro sources_taken [OF o, where L = "{l}" and G = "{l}"]) auto
  then show ?case using F by (simp only: fst_conv snd_conv append.simps list.set Un_insert_left Un_empty_left)
next
  case (Ends k t l r s deferred s')
  let ?new = "(if deferred then [BeginCleanup] else []) @ [Returning l False]"
  note F = frames_at [of k, OF Ends(1)] frames_upd [of k t ?new r]
  from Ends(6) have o: "sources_ok s (insert (InCallback l) (rest k t r))" by (simp add: F)
  have "sources_ok s' (set ?new \<union> rest k t r)"
    using held_others(1) [OF Ends(2)] store_others(2) [OF Ends(2)] by (cases deferred; intro sources_same [OF o]) simp_all
  then show ?case using F by (simp only: fst_conv snd_conv append_assoc append.simps)
next
  case (Return k t l again r s)
  note F = frames_at [of k, OF Return(1)] frames_upd [of k t "[]" r]
  have "sources_ok (if again then s else destroy_sources [l] s) (rest k t r)"
    using Return(5) unfolding fst_conv snd_conv F
    by (rule sources_done [where G = "if again then {} else {l}"]) auto
  then show ?case using F by (simp only: fst_conv snd_conv append.simps list.set Un_insert_left Un_empty_left)
next
  case (Cleanup k t s)
  have "sources_ok s (frames (k(t := [BeginCleanup] @ k t)))"
    using Cleanup(6) unfolding fst_conv snd_conv frames_push by (rule sources_same) simp_all
  then show ?case by (simp only: fst_conv snd_conv append.simps)
next
  case (Refuse k t r s s')
  note F = frames_at [of k, OF Refuse(1)] frames_upd [of k t "[]" r]
  from Refuse(6) have o: "sources_ok s (insert BeginCleanup (rest k t r))" by (simp add: F)
  have "sources_ok s' (rest k t r)"
    using held_others(2) [OF Refuse(2)] store_others(3) [OF Refuse(2)] by (intro sources_same [OF o]) auto
  then show ?case using F by (simp only: fst_conv snd_conv append.simps list.set Un_insert_left Un_empty_left)
next
  case (Claim k t r s s')
  note F = frames_at [of k, OF Claim(1)] frames_upd [of k t "[Unregistering]" r]
  from Claim(6) have o: "sources_ok s (insert BeginCleanup (rest k t r))" by (simp add: F)
  have "sources_ok s' (insert Unregistering (rest k t r))"
    using held_others(2) [OF Claim(2)] store_others(3) [OF Claim(2)] by (intro sources_same [OF o]) auto
  then show ?case using F by (simp only: fst_conv snd_conv append.simps list.set Un_insert_left Un_empty_left)
next
  case (UnregisterFails k t r s)
  note F = frames_at [of k, OF UnregisterFails(1)] frames_upd [of k t "[]" r]
  from UnregisterFails(5) have o: "sources_ok s (insert Unregistering (rest k t r))" by (simp add: F)
  have "sources_ok (unregister_failed s) (rest k t r)" by (intro sources_same [OF o]) auto
  then show ?case using F by (simp only: fst_conv snd_conv append.simps list.set Un_insert_left Un_empty_left)
next
  case (Close k t r s ls s')
  note F = frames_at [of k, OF Close(1)] frames_upd [of k t "[DestroyAll ls]" r]
  from Close(6) have o: "sources_ok s (insert Unregistering (rest k t r))" by (simp add: F)
  from held_close [OF _ Close(2)] Close(3) have c: "held s' = {}" "set ls = held s - unnamed s" by simp_all
  have "held s \<inter> tm_attached s \<inter> unnamed s \<subseteq> atts (rest k t r)"
    using o unfolding sources_ok_def by auto
  then have "sources_ok s' (insert (DestroyAll ls) (rest k t r))"
    using c store_others(4) [OF Close(2)]
    by (intro sources_taken [OF o, where L = "held s" and G = "held s - unnamed s"]) auto
  then show ?case using F by (simp only: fst_conv snd_conv append.simps list.set Un_insert_left Un_empty_left)
next
  case (DestroyedAll k t ls r s)
  note F = frames_at [of k, OF DestroyedAll(1)] frames_upd [of k t "[WaitCallbacks]" r]
  from DestroyedAll(5) have o: "sources_ok s (insert (DestroyAll ls) (rest k t r))" by (simp add: F)
  have "sources_ok (destroy_sources ls s) (insert WaitCallbacks (rest k t r))"
    by (rule sources_done [OF o, where G = "set ls"]) auto
  then show ?case using F by (simp only: fst_conv snd_conv append.simps list.set Un_insert_left Un_empty_left)
next
  case (Waited k t r s)
  note F = frames_at [of k, OF Waited(1)] frames_upd [of k t "[CleanupTail]" r]
  from Waited(6) have o: "sources_ok s (insert WaitCallbacks (rest k t r))" by (simp add: F)
  have "sources_ok s (insert CleanupTail (rest k t r))" by (intro sources_same [OF o]) auto
  then show ?case using F by (simp only: fst_conv snd_conv append.simps list.set Un_insert_left Un_empty_left)
next
  case (Finish k t r s)
  note F = frames_at [of k, OF Finish(1)] frames_upd [of k t "[]" r]
  from Finish(5) have o: "sources_ok s (insert CleanupTail (rest k t r))" by (simp add: F)
  have "sources_ok (finish_cleanup t s) (rest k t r)" by (intro sources_same [OF o]) auto
  then show ?case using F by (simp only: fst_conv snd_conv append.simps list.set Un_insert_left Un_empty_left)
qed


section \<open>All of them\<close>

lemma top_thread: "k t = f # r \<Longrightarrow> k 0 = [] \<Longrightarrow> (t :: nat) \<noteq> 0"
  by (cases t) auto

lemma thread_step: "tstep w e w' \<Longrightarrow> snd w 0 = [] \<Longrightarrow> snd w' 0 = []"
  by (induction rule: tstep.induct) (auto dest: top_thread)

definition timers_inv :: "world \<Rightarrow> bool" where
  "timers_inv w \<longleftrightarrow>
     slots_ok (fst w) \<and> known w \<and> publishing w \<and> counts_ok w \<and> phase_ok w \<and> stacks_ok w \<and>
     sources_ok (fst w) (frames (snd w)) \<and> snd w 0 = []"

lemma timers_inv_step: "tstep w e w' \<Longrightarrow> timers_inv w \<Longrightarrow> timers_inv w'"
  unfolding timers_inv_def
  by (intro conjI; elim conjE; rule slots_step known_step publishing_step counts_step phase_step stacks_step sources_step thread_step)

lemma timers_inv_started: "timers_inv started"
  by (auto simp: timers_inv_def started_def slots_ok_def known_def publishing_def counts_ok_def total_def phase_ok_def released_def
      closing_def stacks_ok_def sources_ok_def frames_def gones_def pubs_def atts_def init_timer_lifecycle_def)

lemma trun_inv: "trun w es w' \<Longrightarrow> timers_inv w \<Longrightarrow> timers_inv w'"
  by (induction rule: trun.induct) (auto intro: timers_inv_step)

lemmas started_inv = trun_inv [OF _ timers_inv_started]

text \<open>A clean up that has been asked for is being done, or the callbacks are waited for that will do it.\<close>

definition requested_ok :: "world \<Rightarrow> bool" where
  "requested_ok w \<longleftrightarrow>
     (tm_complete (fst w) \<longrightarrow> \<not> tm_requested (fst w)) \<and>
     (tm_requested (fst w) \<longrightarrow>
        tm_owner (fst w) \<noteq> 0 \<or> tm_active (fst w) \<noteq> 0 \<or> BeginCleanup \<in> frames (snd w))"

lemma requested_upd:
  assumes "requested_ok (s, k)" "BeginCleanup \<in> set (k t) \<Longrightarrow> BeginCleanup \<in> set fs" "tm_complete s' = tm_complete s"
    "tm_requested s' = tm_requested s" "tm_owner s' = tm_owner s" "tm_active s \<le> tm_active s'"
  shows "requested_ok (s', k(t := fs))"
proof -
  have "BeginCleanup \<in> frames (k(t := fs))" if "BeginCleanup \<in> frames k"
    using that assms(2) by (force simp: frames_def)
  then show ?thesis using assms(1,3-6) by (auto simp: requested_ok_def)
qed

lemma requested_step: "tstep w e w' \<Longrightarrow> e \<noteq> UnregisterError \<Longrightarrow> timers_inv w \<Longrightarrow> requested_ok w \<Longrightarrow> requested_ok w'"
proof (induction rule: tstep.induct)
  case (Ends k t l r s deferred s')
  have "BeginCleanup \<in> frames (k(t := (if deferred then [BeginCleanup] else []) @ Returning l False # r))"
    if "deferred \<or> BeginCleanup \<in> frames k"
    using that Ends(1) by (force simp: frames_def)
  with Ends show ?case by (auto simp: requested_ok_def end_callback_def Let_def)
next
  case (Refuse k t r s s')
  have t: "t \<noteq> 0" using Refuse(1,4) top_thread by (auto simp: timers_inv_def)
  have a: "tm_active s \<noteq> 0" if "tm_threads s t \<noteq> 0"
    using Refuse(4) that total_zero [of "tm_threads s"] by (auto simp: timers_inv_def counts_ok_def)
  show ?case using Refuse(2,5) t a by (auto simp: requested_ok_def begin_cleanup_def split: if_splits)
next
  case (Claim k t r s s')
  then show ?case by (auto simp: requested_ok_def begin_cleanup_def split: if_splits)
next
  case (Close k t r s ls s')
  then show ?case by (auto simp: requested_ok_def close_timers_def Let_def split: prod.splits)
next
  case (Finish k t r s)
  have "tm_owner s = t" using Finish(1,3) owner_top [of s k t] by (auto simp: timers_inv_def)
  then show ?case by (simp add: requested_ok_def finish_cleanup_def)
qed (auto simp: lock_defs Let_def elim!: requested_upd split: if_splits option.splits)

end
