(* ===== verification/TimerSafety.thy ===== *)
theory TimerSafety
  imports TimerInvariants
begin

text \<open>
  What the timers of a \<^verbatim>\<open>WindowSource\<close> promise: between threads they behave as the atomic operations that
  the other theories use, a timer that has been cancelled never runs, no source is lost or left behind,
  and the clean up ends with no callback running and none to come, without a deadlock.
\<close>

section \<open>Atomic timers\<close>

text \<open>
  The timers as the rest of the source sees them. From the moment the clean up is asked for, none is set.
\<close>

definition closing_down :: "timers \<Rightarrow> bool" where
  "closing_down s \<longleftrightarrow> tm_closed s \<or> tm_requested s"

definition lease_timer :: "timers \<Rightarrow> nat \<Rightarrow> int \<times> call" where
  "lease_timer s l = (l_delay (lease_of s l), l_call (lease_of s l))"

definition slot_timer :: "timers \<Rightarrow> slot \<Rightarrow> (int \<times> call) option" where
  "slot_timer s slot = (if closing_down s then None else map_option (lease_timer s) (tm_leases s slot))"

definition as_atomic :: "timers \<Rightarrow> wsrc \<Rightarrow> wsrc" where
  "as_atomic s w = w\<lparr>w_closed := closing_down s, w_timers := slot_timer s\<rparr>"

lemma as_atomic_closing: "closing_down s \<Longrightarrow> as_atomic s w = w\<lparr>w_closed := True, w_timers := (\<lambda>_. None)\<rparr>"
proof -
  assume c: "closing_down s"
  then have "slot_timer s = (\<lambda>_. None)" by (simp add: slot_timer_def fun_eq_iff)
  with c show ?thesis by (simp add: as_atomic_def)
qed

lemma as_atomic_same:
  assumes "tm_leases s' = tm_leases s" "\<And>slot l. tm_leases s slot = Some l \<Longrightarrow> lease_timer s' l = lease_timer s l"
    "closing_down s' = closing_down s"
  shows "as_atomic s' w = as_atomic s w"
proof -
  have "slot_timer s' slot = slot_timer s slot" for slot
    using assms(2) by (cases "tm_leases s slot") (auto simp: slot_timer_def assms(1,3))
  then have "slot_timer s' = slot_timer s" ..
  then show ?thesis by (simp add: as_atomic_def assms(3))
qed

lemma as_atomic_cancel:
  assumes "tm_leases s' = (tm_leases s)(slot := None)" "tm_store s' = tm_store s" "closing_down s' = closing_down s"
  shows "as_atomic s' w = cancel_timer slot (as_atomic s w)"
proof -
  have "slot_timer s' u = ((slot_timer s)(slot := None)) u" for u
    by (cases "tm_leases s u") (simp_all add: slot_timer_def assms lease_timer_def)
  then have "slot_timer s' = (slot_timer s)(slot := None)" ..
  then show ?thesis by (simp add: as_atomic_def cancel_timer_def assms(3))
qed

lemma publish_atomic:
  assumes "slots_ok s" "publish_lease slot delay c s = (x, s')"
  shows "as_atomic s' w = schedule_timer slot delay c (as_atomic s w)"
proof (cases "closing_down s \<or> tm_leases s slot \<noteq> None")
  case True
  then have "s' = s" using assms(2) by (auto simp: publish_lease_def closing_down_def split: if_splits)
  moreover have "closing_down s \<or> slot_timer s slot \<noteq> None" using True unfolding slot_timer_def by auto
  ultimately show ?thesis by (simp add: schedule_timer_def as_atomic_def del: not_None_eq not_Some_eq)
next
  case False
  let ?n = "\<lparr>l_slot = slot, l_delay = delay, l_call = c, l_epoch = tm_epoch s, l_source_id = 0\<rparr>"
  have s': "s' = s\<lparr>tm_leases := (tm_leases s)(slot := Some (length (tm_store s))), tm_attr := (tm_attr s)(slot := PENDING_TIMER),
      tm_store := tm_store s @ [?n]\<rparr>"
    using assms(2) False by (auto simp: publish_lease_def Let_def closing_down_def)
  have c: "\<not> closing_down s'" using False by (simp add: s' closing_down_def)
  have "slot_timer s' u = ((slot_timer s)(slot := Some (delay, c))) u" for u
    using slots_okD(1) [OF assms(1), of u] False c
    by (cases "tm_leases s u") (auto simp: slot_timer_def lease_timer_def s' nth_append)
  then have "slot_timer s' = (slot_timer s)(slot := Some (delay, c))" ..
  moreover have "slot_timer s slot = None" using False by (simp add: slot_timer_def)
  ultimately show ?thesis using False c by (simp add: schedule_timer_def as_atomic_def)
qed

lemma pop_atomic:
  "tm_leases (pop_lease slot v s) = (tm_leases s)(slot := None)" "tm_store (pop_lease slot v s) = tm_store s"
  "closing_down (pop_lease slot v s) = closing_down s"
  by (simp_all add: pop_lease_def closing_down_def)

lemma commit_atomic:
  assumes "slots_ok s" "l < length (tm_store s)" "commit_source l source_id s = (kept, s')"
  shows "as_atomic s' w = as_atomic s w"
proof -
  define n where "n = (lease_of s l)\<lparr>l_source_id := source_id\<rparr>"
  have st: "tm_store s' = (tm_store s)[l := n]" using store_commit [OF assms(3)] by (simp add: n_def)
  have c: "closing_down s' = closing_down s"
    using assms(3) by (auto simp: commit_source_def closing_down_def pop_lease_def Let_def split: if_splits)
  have t: "lease_timer s' m = lease_timer s m" for m
    using assms(2) by (cases "m = l") (simp_all add: lease_timer_def st n_def)
  show ?thesis
  proof (cases "closing_down s")
    case True
    then show ?thesis using c by (simp add: as_atomic_closing)
  next
    case False
    let ?s = "s\<lparr>tm_store := (tm_store s)[l := n]\<rparr>"
    have h: "holds ?s l = holds s l" using assms(2) by (simp add: holds_def n_def)
    have e: "l_epoch (lease_of s l) = tm_epoch s" if "holds s l"
      using that slots_okD(1) [OF assms(1)] by (auto simp: holds_def)
    have "tm_leases s' = tm_leases s"
      using assms(3) False h e assms(2)
      by (auto simp: commit_source_def Let_def closing_down_def n_def [symmetric] split: if_splits) (simp_all add: n_def)
    then show ?thesis using t c by (intro as_atomic_same) auto
  qed
qed

lemma take_atomic:
  assumes "slots_ok s" "take_callback t l s = (v, s')"
  shows "(v = Run \<longrightarrow> slot_timer s (l_slot (lease_of s l)) = Some (lease_timer s l) \<and>
            as_atomic s' w = cancel_timer (l_slot (lease_of s l)) (as_atomic s w)) \<and>
    (v \<noteq> Run \<longrightarrow> as_atomic s' w = as_atomic s w)"
proof -
  let ?p = "pop_lease (l_slot (lease_of s l)) (l_source_id (lease_of s l)) s"
  have e: "l_epoch (lease_of s l) = tm_epoch s" if "holds s l"
    using that slots_okD(1) [OF assms(1)] by (auto simp: holds_def)
  consider "v \<noteq> Run" "s' = s" | "v \<noteq> Run" "s' = ?p" "closing_down s"
    | "v = Run" "holds s l" "\<not> closing_down s" "s' = ?p\<lparr>tm_active := tm_active s + 1, tm_threads := (tm_threads s)(t := tm_threads s t + 1)\<rparr>"
  proof (cases "\<not> holds s l \<or> l_source_id (lease_of s l) = 0")
    case True
    then have "v \<noteq> Run \<and> s' = s" using assms(2) unfolding take_callback_def by (cases "holds s l") auto
    then show thesis using that(1) by blast
  next
    case False
    then have h: "holds s l" "l_source_id (lease_of s l) \<noteq> 0" "l_epoch (lease_of s l) = tm_epoch s" using e by auto
    show thesis
    proof (cases "closing_down s")
      case True
      then have "v = Remove \<and> s' = ?p" using assms(2) h unfolding take_callback_def closing_down_def Let_def by auto
      then show thesis using that(2) True by blast
    next
      case False
      then show thesis using that(3) assms(2) h unfolding take_callback_def closing_down_def Let_def by simp
    qed
  qed
  then show ?thesis
  proof cases
    case 2
    then show ?thesis using pop_atomic(3) [of "l_slot (lease_of s l)" "l_source_id (lease_of s l)" s]
      by (simp add: as_atomic_closing)
  next
    case 3
    then have "slot_timer s (l_slot (lease_of s l)) = Some (lease_timer s l)" by (simp add: slot_timer_def holds_def)
    moreover have "as_atomic s' w = cancel_timer (l_slot (lease_of s l)) (as_atomic s w)"
      by (rule as_atomic_cancel) (simp_all add: 3(4) pop_lease_def closing_down_def)
    ultimately show ?thesis using 3 by simp
  qed simp
qed

lemma quiet_atomic:
  "as_atomic (attach_source l s) w = as_atomic s w" "as_atomic (destroy_sources ls s) w = as_atomic s w"
  "as_atomic (unregister_failed s) w = as_atomic s w"
  "end_callback t s = (b, s') \<Longrightarrow> as_atomic s' w = as_atomic s w"
  "begin_cleanup t s = (Claimed, s') \<Longrightarrow> as_atomic s' w = as_atomic s w"
  by (auto simp: lock_defs Let_def closing_down_def lease_timer_def split: if_splits intro!: as_atomic_same)

text \<open>The atomic operation that an event stands for.\<close>

definition stands_for :: "timers \<Rightarrow> event \<Rightarrow> wsrc \<Rightarrow> wsrc \<Rightarrow> bool" where
  "stands_for s e w w' =
     (case e of
        Scheduled slot delay c \<Rightarrow> w' = schedule_timer slot delay c w
      | Cancelled slot \<Rightarrow> w' = cancel_timer slot w
      | Starts l \<Rightarrow> w_timers w (l_slot (lease_of s l)) = Some (lease_timer s l) \<and> w' = cancel_timer (l_slot (lease_of s l)) w
      | Abandoned l \<Rightarrow> w' = w \<or> w' = cancel_timer (l_slot (lease_of s l)) w
      | Quiet \<Rightarrow> w' = w \<or> w' = w\<lparr>w_closed := True, w_timers := (\<lambda>_. None)\<rparr>
      | _ \<Rightarrow> w' = w)"

lemma step_atomic: "tstep v e v' \<Longrightarrow> timers_inv v \<Longrightarrow> stands_for (fst v) e (as_atomic (fst v) w) (as_atomic (fst v') w)"
proof (induction rule: tstep.induct)
  case (Schedule k t slot delay c s x s')
  then show ?case using publish_atomic [of s slot delay c x s' w] by (simp add: stands_for_def timers_inv_def)
next
  case (AttachFails k t l r s)
  show ?case
  proof (cases "holds s l")
    case True
    then have "as_atomic (abandon_lease l s) w = cancel_timer (l_slot (lease_of s l)) (as_atomic s w)"
      by (intro as_atomic_cancel) (simp_all add: abandon_lease_def pop_atomic)
    then show ?thesis by (simp add: stands_for_def)
  qed (simp add: stands_for_def abandon_lease_def)
next
  case (Commit k t l r source_id s kept s')
  then have "l < length (tm_store s)" using knownD [of s k "Attached l" t l] by (simp add: timers_inv_def)
  then show ?case using commit_atomic [of s l source_id kept s' w] Commit(3,4) by (simp add: stands_for_def timers_inv_def)
next
  case (Cancel k t slot s x s')
  then have "as_atomic s' w = cancel_timer slot (as_atomic s w)"
    by (intro as_atomic_cancel) (auto simp: cancel_lease_def closing_down_def)
  then show ?case by (simp add: stands_for_def)
next
  case (NotRun k t l r s v s')
  then show ?case using take_atomic [of s t l v s' w] by (simp add: stands_for_def timers_inv_def)
next
  case (Start k t l r s s')
  then show ?case using take_atomic [of s t l Run s' w] by (simp add: stands_for_def timers_inv_def as_atomic_def)
next
  case (Refuse k t r s s')
  then have "s' = s \<or> closing_down s'" by (auto simp: begin_cleanup_def closing_down_def split: if_splits)
  then show ?case using as_atomic_closing [of s' w] as_atomic_def by (auto simp: stands_for_def as_atomic_def)
next
  case (Close k t r s ls s')
  then have "closing_down s'" by (auto simp: close_timers_def take_timer_leases_def closing_down_def Let_def split: if_splits)
  then show ?case using as_atomic_closing [of s' w] by (auto simp: stands_for_def as_atomic_def)
next
  case (Finish k t r s)
  have p: "phase_ok (s, k)" using Finish(2) by (simp add: timers_inv_def)
  have "closing (k t)" using Finish(1) by simp
  then have "tm_closed s" using p unfolding phase_ok_def by auto
  then have "closing_down s" "closing_down (finish_cleanup t s)" by (simp_all add: closing_down_def finish_cleanup_def)
  then show ?case by (simp add: stands_for_def as_atomic_closing)
qed (auto simp: stands_for_def quiet_atomic)

text \<open>
  C15: the timers as threads share them refine the atomic ones: whatever the threads do, scheduling,
  cancelling and the start of a timer that is due are the atomic operations at the moment of their part with
  the lock, the clean up closes all of them at once, and everything else changes nothing.
\<close>

theorem timers_refine_atomic:
  assumes "trun started es v" "tstep v e v'"
  shows "stands_for (fst v) e (as_atomic (fst v) w) (as_atomic (fst v') w)"
  by (rule step_atomic [OF assms(2) started_inv [OF assms(1)]])

section \<open>What never runs\<close>

text \<open>A lease that is out of its slot stays out of it: its timer cannot start any more.\<close>

definition dead :: "world \<Rightarrow> nat \<Rightarrow> bool" where
  "dead v l \<longleftrightarrow> l < length (tm_store (fst v)) \<and> l \<notin> held (fst v)"

lemma held_step: "tstep v e v' \<Longrightarrow> timers_inv v \<Longrightarrow>
    length (tm_store (fst v)) \<le> length (tm_store (fst v')) \<and>
    held (fst v') \<subseteq> held (fst v) \<union> {length (tm_store (fst v))} \<and>
    (\<forall>l. e = Starts l \<longrightarrow> l \<in> held (fst v) \<and> l \<notin> held (fst v'))"
proof (induction rule: tstep.induct)
  case (Schedule k t slot delay c s x s')
  then show ?case using held_publish [of slot delay c s x s'] store_publish [of slot delay c s x s'] by auto
next
  case (AttachFails k t l r s)
  then show ?case using held_abandon [of s l] by (auto simp: timers_inv_def)
next
  case (Commit k t l r source_id s kept s')
  then have "l < length (tm_store s)" using knownD [of s k "Attached l" t l] by (simp add: timers_inv_def)
  then show ?case using held_commit [of s l source_id kept s'] store_commit [of l source_id s kept s'] Commit(3,4)
    by (auto simp: timers_inv_def split: if_splits)
next
  case (Cancel k t slot s x s')
  then show ?case using held_cancel [of s slot x s'] store_others(1) [of slot s x s'] by (auto simp: timers_inv_def)
next
  case (NotRun k t l r s v s')
  then show ?case using held_take [of s t l v s'] store_take [of t l s v s'] by (auto simp: timers_inv_def)
next
  case (Start k t l r s s')
  then show ?case using held_take [of s t l Run s'] store_take [of t l s Run s'] by (auto simp: timers_inv_def)
next
  case (Close k t r s ls s')
  then show ?case using held_close [of s ls s'] store_others(4) [of s ls s'] by (auto simp: timers_inv_def)
qed (auto dest: held_others store_others)

lemma dead_step: "tstep v e v' \<Longrightarrow> timers_inv v \<Longrightarrow> dead v l \<Longrightarrow> dead v' l \<and> e \<noteq> Starts l"
  using held_step [of v e v'] by (auto simp: dead_def)

lemma dead_run: "trun v es v' \<Longrightarrow> timers_inv v \<Longrightarrow> dead v l \<Longrightarrow> dead v' l \<and> Starts l \<notin> set es"
proof (induction rule: trun.induct)
  case (Then w es w' e w'')
  then show ?case using dead_step [OF Then(2) trun_inv [OF Then(1)], of l] by auto
qed simp

lemma started_dead: "trun v es v' \<Longrightarrow> timers_inv v \<Longrightarrow> Starts l \<in> set es \<Longrightarrow> dead v' l"
proof (induction rule: trun.induct)
  case (Then w es w' e w'')
  have i: "timers_inv w'" by (rule trun_inv [OF Then(1,4)])
  show ?case
  proof (cases "e = Starts l")
    case True
    then show ?thesis using held_step [OF Then(2) i] held_known [of w' l] i by (auto simp: dead_def timers_inv_def)
  next
    case False
    then show ?thesis using Then dead_step [OF Then(2) i] by auto
  qed
qed simp

inductive_cases cancelled_stepE: "tstep v (Cancelled slot) v'"

text \<open>
  C16: a timer that is cancelled has not run before, and however the threads go on, with a callback that has
  already been dispatched or a source that is not even attached, it never runs.
\<close>

theorem cancelled_timer_never_runs:
  assumes "trun started es v" "tm_leases (fst v) slot = Some l" "tstep v (Cancelled slot) v'" "trun v' es' v''"
  shows "Starts l \<notin> set es \<and> Starts l \<notin> set es'"
proof -
  have i: "timers_inv v" by (rule started_inv [OF assms(1)])
  have h: "l \<in> held (fst v)" using assms(2) by (rule ranI)
  have "dead v' l" using assms(3)
  proof (rule cancelled_stepE)
    fix k t s x s' assume a: "v = (s, k)" "v' = (s', k(t := Destroying (cancelled_sources x s) # k t))" "cancel_lease slot s = (x, s')"
    have "x = Some l" using a(1,3) assms(2) by (simp add: cancel_lease_def)
    then show ?thesis using a i h held_cancel [of s slot x s'] held_known [of v l] store_others(1) [of slot s x s']
      by (auto simp: dead_def timers_inv_def)
  qed
  then show ?thesis
    using dead_run [OF assms(4) timers_inv_step [OF assms(3) i]] started_dead [OF assms(1) timers_inv_started, of l] h
    by (auto simp: dead_def)
qed

section \<open>The end of the clean up\<close>

lemma released_upd:
  assumes "released (s, k)" "CleanupTail \<in> set (k t) \<Longrightarrow> CleanupTail \<in> set fs" "tm_complete s \<Longrightarrow> tm_complete s'"
  shows "released (s', k(t := fs))"
  using assms unfolding released_def by (metis fst_conv fun_upd_apply snd_conv)

lemma released_step: "tstep v e v' \<Longrightarrow> timers_inv v \<Longrightarrow> released v \<or> e = CleanedUp \<Longrightarrow> released v'"
proof (induction rule: tstep.induct)
  case (Finish k t r s)
  have "tm_owner s = t" using Finish(1,2) owner_top [of s k t] by (auto simp: timers_inv_def)
  then show ?case by (simp add: released_def finish_cleanup_def)
next
  case (Waited k t r s)
  then show ?case by (auto simp: released_def intro: exI [of _ t])
qed (auto simp: lock_defs Let_def elim!: released_upd split: if_splits option.splits)

lemma released_run: "trun v es v' \<Longrightarrow> timers_inv v \<Longrightarrow> released v \<or> CleanedUp \<in> set es \<Longrightarrow> released v'"
proof (induction rule: trun.induct)
  case (Then w es w' e w'')
  then show ?case using released_step [OF Then(2) trun_inv [OF Then(1)]] by auto
qed simp

lemma released_closed:
  assumes "timers_inv v" "released v"
  shows "tm_closed (fst v)" "tm_active (fst v) = 0" "callbacks (snd v t) = 0" "tm_leases (fst v) slot = None"
proof -
  show c: "tm_closed (fst v)" and a: "tm_active (fst v) = 0"
    using assms tail_closing unfolding timers_inv_def phase_ok_def released_def by blast+
  show "callbacks (snd v t) = 0" using assms(1) a total_zero unfolding timers_inv_def counts_ok_def by auto
  show "tm_leases (fst v) slot = None" using assms(1) c slots_okD(1) [of "fst v" slot] unfolding timers_inv_def by (cases "tm_leases (fst v) slot") auto
qed

lemma released_starts: "trun v es v' \<Longrightarrow> timers_inv v \<Longrightarrow> released v \<Longrightarrow> Starts l \<notin> set es"
proof (induction rule: trun.induct)
  case (Then w es w' e w'')
  have i: "timers_inv w'" "released w'" using trun_inv released_run Then by blast+
  then have "held (fst w') = {}" using released_closed(4) by (auto simp: ran_def)
  then show ?case using held_step [OF Then(2) i(1)] Then by auto
qed simp

lemma callbacks_none: "callbacks fs = 0 \<Longrightarrow> InCallback l \<notin> set fs"
  by (induction fs) auto

text \<open>
  C17: once the clean up has waited for the callbacks, none is running in any thread, no timer is in any slot
  and none will be, and no callback will ever start.
\<close>

theorem nothing_runs_after_cleanup:
  assumes "trun started es v" "CleanedUp \<in> set es" "trun v es' v'"
  shows "(\<forall>t l. InCallback l \<notin> set (snd v' t)) \<and> (\<forall>slot. tm_leases (fst v') slot = None) \<and> (\<forall>l. Starts l \<notin> set es')"
proof -
  have i: "timers_inv v" "released v" using started_inv [OF assms(1)] released_run [OF assms(1) timers_inv_started] assms(2) by simp_all
  then have "timers_inv v'" "released v'" using trun_inv [OF assms(3)] released_run [OF assms(3)] by simp_all
  then show ?thesis using released_closed(3,4) callbacks_none released_starts [OF assms(3) i] by blast
qed

section \<open>No deadlock\<close>

text \<open>A thread that has to wait for others.\<close>

definition must_wait :: "world \<Rightarrow> nat \<Rightarrow> bool" where
  "must_wait v t \<longleftrightarrow>
     (case snd v t of
        WaitCallbacks # _ \<Rightarrow> tm_active (fst v) \<noteq> 0
      | BeginCleanup # _ \<Rightarrow> fst (begin_cleanup t (fst v)) = MustWait
      | _ \<Rightarrow> False)"

lemma can_step:
  assumes "snd v t \<noteq> []" "t \<noteq> 0" "\<not> must_wait v t"
  shows "\<exists>e v'. tstep v e v' \<and> snd v' t \<noteq> snd v t"
proof -
  obtain s k where v: "v = (s, k)" by fastforce
  obtain f r where k: "k t = f # r" using assms(1) v by (cases "k t") auto
  have go: "\<exists>e v'. tstep v e v' \<and> snd v' t \<noteq> snd v t" if "tstep (s, k) e (s', k(t := fs))" "fs \<noteq> k t" for e s' fs
    using that v by (intro exI [of _ e] exI [of _ "(s', k(t := fs))"]) simp
  show ?thesis
  proof (cases f)
    case (Publishing l)
    then show ?thesis using go [OF Attach] k by simp
  next
    case (Attached l)
    obtain kept s' where c: "commit_source l 1 s = (kept, s')" by fastforce
    from Commit [of k t l r 1 s kept s'] have "tstep (s, k) Quiet (s', k(t := (if kept then [] else [Destroying [l]]) @ r))"
      using k Attached c by simp
    from go [OF this] show ?thesis using k Attached by (cases kept) simp_all
  next
    case (Destroying ls)
    then show ?thesis using go [OF Destroy] k by simp
  next
    case (Dispatched l)
    obtain c s' where c: "take_callback t l s = (c, s')" by fastforce
    show ?thesis
    proof (cases "c = Run")
      case True
      then show ?thesis using go [OF Start] k Dispatched c by simp
    next
      case False
      then show ?thesis using go [OF NotRun [OF _ c]] k Dispatched by simp
    qed
  next
    case (InCallback l)
    obtain d s' where c: "end_callback t s = (d, s')" by fastforce
    from Ends [of k t l r s d s'] have "tstep (s, k) Quiet (s', k(t := (if d then [BeginCleanup] else []) @ Returning l False # r))"
      using k InCallback c by simp
    from go [OF this] show ?thesis using k InCallback by (cases d) simp_all
  next
    case (Returning l again)
    then show ?thesis using go [OF Return] k by simp
  next
    case BeginCleanup
    obtain c s' where c: "begin_cleanup t s = (c, s')" by fastforce
    show ?thesis
    proof (cases c)
      case Refused
      then show ?thesis using go [OF Refuse] k BeginCleanup c by simp
    next
      case MustWait
      then show ?thesis using assms(3) v k BeginCleanup c by (simp add: must_wait_def)
    next
      case Claimed
      then show ?thesis using go [OF Claim] k BeginCleanup c by simp
    qed
  next
    case Unregistering
    then show ?thesis using go [OF UnregisterFails] k by simp
  next
    case (DestroyAll ls)
    then show ?thesis using go [OF DestroyedAll] k by simp
  next
    case WaitCallbacks
    then show ?thesis using go [OF Waited] k assms(3) v by (simp add: must_wait_def)
  next
    case CleanupTail
    then show ?thesis using go [OF Finish] k by simp
  qed
qed

text \<open>A thread with a callback never waits, so those that are waited for go on.\<close>

lemma callback_goes_on:
  assumes "timers_inv v" "callbacks (snd v u) \<noteq> 0"
  shows "snd v u \<noteq> [] \<and> \<not> must_wait v u"
proof -
  obtain f r where k: "snd v u = f # r" using assms(2) by (cases "snd v u") auto
  have "stacked (f # r)" using assms(1) k unfolding timers_inv_def stacks_ok_def by metis
  moreover have "tm_threads (fst v) u \<noteq> 0" using assms unfolding timers_inv_def counts_ok_def by simp
  then have "fst (begin_cleanup u (fst v)) \<noteq> MustWait" by (simp add: begin_cleanup_def)
  ultimately show ?thesis using assms(2) k by (cases f) (simp_all add: must_wait_def)
qed

lemma callback_somewhere: "timers_inv v \<Longrightarrow> tm_active (fst v) \<noteq> 0 \<Longrightarrow> \<exists>u. callbacks (snd v u) \<noteq> 0"
proof (rule ccontr)
  assume i: "timers_inv v" "tm_active (fst v) \<noteq> 0" and "\<not> (\<exists>u. callbacks (snd v u) \<noteq> 0)"
  then have "tm_threads (fst v) = (\<lambda>_. 0)" by (auto simp: timers_inv_def counts_ok_def)
  then have "tm_active (fst v) = 0" using i(1) by (simp add: timers_inv_def counts_ok_def total_def)
  with i(2) show False by simp
qed

lemma must_wait_cases:
  assumes "must_wait v t"
  obtains r where "snd v t = WaitCallbacks # r" "tm_active (fst v) \<noteq> 0"
    | r where "snd v t = BeginCleanup # r" "fst (begin_cleanup t (fst v)) = MustWait"
proof -
  obtain f r where k: "snd v t = f # r" using assms by (cases "snd v t") (simp_all add: must_wait_def)
  show thesis
  proof (cases f)
    case WaitCallbacks
    then show thesis using that(1) k assms by (simp add: must_wait_def)
  next
    case BeginCleanup
    then show thesis using that(2) k assms by (simp add: must_wait_def)
  qed (use k assms in \<open>simp_all add: must_wait_def\<close>)
qed

lemma waits_for_callback:
  assumes "timers_inv v" "must_wait v t" "snd v t = WaitCallbacks # r"
  shows "\<exists>u. callbacks (snd v u) \<noteq> 0 \<and> u \<noteq> t"
proof -
  have "stacked (WaitCallbacks # r)" using assms(1,3) unfolding timers_inv_def stacks_ok_def by metis
  then have "callbacks (snd v t) = 0" using assms(3) by simp
  moreover have "tm_active (fst v) \<noteq> 0" using assms(2,3) by (simp add: must_wait_def)
  from callback_somewhere [OF assms(1) this] obtain u where "callbacks (snd v u) \<noteq> 0" by blast
  ultimately show ?thesis by metis
qed

text \<open>
  C18: the clean up never deadlocks. When a thread has to wait, for the callbacks that are running or for
  another thread that cleans up, there is a thread that is in the middle of something and can go on; a
  clean up from within a callback does not wait, so it is never waited for in vain.
\<close>

theorem cleanup_never_deadlocks:
  assumes "trun started es v" "must_wait v t"
  shows "\<exists>u e v'. u \<noteq> t \<and> snd v u \<noteq> [] \<and> \<not> must_wait v u \<and> tstep v e v' \<and> snd v' u \<noteq> snd v u"
proof -
  have i: "timers_inv v" by (rule started_inv [OF assms(1)])
  then have z: "snd v 0 = []" by (simp add: timers_inv_def)
  have "\<exists>u. u \<noteq> t \<and> snd v u \<noteq> [] \<and> \<not> must_wait v u"
    using assms(2)
  proof (cases rule: must_wait_cases)
    case (1 r)
    then show ?thesis using waits_for_callback [OF i assms(2)] callback_goes_on [OF i] by blast
  next
    case (2 r)
    then have o: "tm_owner (fst v) \<noteq> 0" "tm_owner (fst v) \<noteq> t" "tm_threads (fst v) t = 0"
      by (auto simp: begin_cleanup_def split: if_splits)
    let ?u = "tm_owner (fst v)"
    have "cleaning (snd v ?u) = 1" using i o(1) unfolding timers_inv_def phase_ok_def by simp
    then have u: "snd v ?u \<noteq> []" by auto
    show ?thesis
    proof (cases "must_wait v ?u")
      case True
      then obtain r where "snd v ?u = WaitCallbacks # r" using o(1) by (cases rule: must_wait_cases) (auto simp: begin_cleanup_def split: if_splits)
      from waits_for_callback [OF i True this] obtain x where x: "callbacks (snd v x) \<noteq> 0" by blast
      have "callbacks (snd v t) = 0" using i o(3) unfolding timers_inv_def counts_ok_def by simp
      then show ?thesis using callback_goes_on [OF i x] x by metis
    qed (use u o(2) in blast)
  qed
  then obtain u where u: "u \<noteq> t" "snd v u \<noteq> []" "\<not> must_wait v u" by blast
  moreover have "u \<noteq> 0" using u(2) z by metis
  ultimately show ?thesis using can_step [of v u] by blast
qed

section \<open>When nothing is going on\<close>

lemma nobody_there:
  assumes "timers_inv v" "\<forall>t. snd v t = []"
  shows "tm_active (fst v) = 0 \<and> tm_owner (fst v) = 0"
proof (rule conjI)
  show "tm_active (fst v) = 0"
  proof (rule ccontr)
    assume "tm_active (fst v) \<noteq> 0"
    from callback_somewhere [OF assms(1) this] assms(2) show False by simp
  qed
  show "tm_owner (fst v) = 0"
  proof (rule ccontr)
    assume "tm_owner (fst v) \<noteq> 0"
    then have "cleaning (snd v (tm_owner (fst v))) = 1" using assms(1) unfolding timers_inv_def phase_ok_def by simp
    with assms(2) show False by simp
  qed
qed

text \<open>
  Whenever no thread is in the middle of something, the sources that are attached to the main loop are
  exactly those of the timers in the slots, each slot's attribute is the identifier of its source, or zero,
  nobody is counted as running and nobody owns the clean up: no source is leaked or lost.
\<close>

theorem timers_settled:
  assumes "trun started es v" "\<forall>t. snd v t = []"
  shows "tm_attached (fst v) = ran (tm_leases (fst v)) \<and> tm_active (fst v) = 0 \<and> tm_owner (fst v) = 0 \<and>
    (\<forall>slot. case tm_leases (fst v) slot of
        None \<Rightarrow> tm_attr (fst v) slot = 0
      | Some l \<Rightarrow> tm_attr (fst v) slot = l_source_id (lease_of (fst v) l) \<and> 0 < l_source_id (lease_of (fst v) l))"
proof -
  have i: "timers_inv v" by (rule started_inv [OF assms(1)])
  have "frames (snd v) = {}" using assms(2) by (simp add: frames_def)
  then have a: "tm_attached (fst v) = held (fst v)" "held (fst v) \<inter> unnamed (fst v) = {}"
    using i unfolding timers_inv_def sources_ok_def by auto
  from nobody_there [OF i assms(2)] have "tm_active (fst v) = 0" "tm_owner (fst v) = 0" by simp_all
  moreover have "case tm_leases (fst v) slot of
        None \<Rightarrow> tm_attr (fst v) slot = 0
      | Some l \<Rightarrow> tm_attr (fst v) slot = l_source_id (lease_of (fst v) l) \<and> 0 < l_source_id (lease_of (fst v) l)" for slot
  proof (cases "tm_leases (fst v) slot")
    case (Some l)
    have s: "slots_ok (fst v)" using i by (simp add: timers_inv_def)
    have "l \<notin> unnamed (fst v)" using a(2) ranI [of "tm_leases (fst v)" slot l] Some by blast
    then have "l_source_id (lease_of (fst v) l) \<noteq> 0" by (simp add: unnamed_def)
    then show ?thesis using Some slots_okD(2) [OF s, of slot] slots_okD(1) [OF s Some] slots_okD(3) [OF s, of l] by simp
  next
    case None
    then show ?thesis using i slots_okD(2) [of "fst v" slot] by (simp add: timers_inv_def)
  qed
  ultimately show ?thesis using a(1) by blast
qed

section \<open>A clean up that is put off\<close>

lemma closing_step: "tstep v e v' \<Longrightarrow> timers_inv v \<Longrightarrow> closing_down (fst v) \<Longrightarrow> closing_down (fst v')"
proof (induction rule: tstep.induct)
  case (Finish k t r s)
  have p: "phase_ok (s, k)" using Finish(2) by (simp add: timers_inv_def)
  have "closing (k t)" using Finish(1) by simp
  then have "tm_closed s" using p unfolding phase_ok_def by auto
  then show ?case by (simp add: closing_down_def finish_cleanup_def)
qed (auto simp: closing_down_def lock_defs Let_def split: if_splits option.splits)

lemma closing_run: "trun v es v' \<Longrightarrow> timers_inv v \<Longrightarrow> closing_down (fst v) \<Longrightarrow> closing_down (fst v')"
proof (induction rule: trun.induct)
  case (Then w es w' e w'')
  then show ?case using closing_step [OF Then(2) trun_inv [OF Then(1)]] by auto
qed simp

lemma requested_run: "trun v es v' \<Longrightarrow> timers_inv v \<Longrightarrow> requested_ok v \<Longrightarrow> UnregisterError \<notin> set es \<Longrightarrow> requested_ok v'"
proof (induction rule: trun.induct)
  case (Then w es w' e w'')
  then show ?case using requested_step [OF Then(2) _ trun_inv [OF Then(1)]] by auto
qed simp

lemma trun_append: "trun v' es' v'' \<Longrightarrow> trun v es v' \<Longrightarrow> trun v (es @ es') v''"
proof (induction rule: trun.induct)
  case (Then w fs w' e w'')
  then show ?case using trun.Then [of v "es @ fs" w' e w''] by simp
qed simp

text \<open>
  A clean up that a callback asks for is put off, but not forgotten: as long as the packets can be
  deactivated, it is complete by the time when no thread is in the middle of something.
\<close>

theorem requested_cleanup_completes:
  assumes "trun started es v" "tm_requested (fst v)" "trun v es' v'" "UnregisterError \<notin> set es \<union> set es'" "\<forall>t. snd v' t = []"
  shows "tm_complete (fst v')"
proof -
  have i: "timers_inv v" by (rule started_inv [OF assms(1)])
  have r: "trun started (es @ es') v'" by (rule trun_append [OF assms(3,1)])
  have "requested_ok started" by (simp add: requested_ok_def started_def init_timer_lifecycle_def)
  from requested_run [OF r timers_inv_started this] assms(4) have q: "requested_ok v'" by simp
  have i': "timers_inv v'" by (rule started_inv [OF r])
  have f: "frames (snd v') = {}" using assms(5) by (simp add: frames_def)
  have "tm_owner (fst v') = 0 \<and> tm_active (fst v') = 0" by (rule conj_commute [THEN iffD1, OF nobody_there [OF i' assms(5)]])
  then have "\<not> tm_requested (fst v')" using q f by (simp add: requested_ok_def)
  moreover have "closing_down (fst v')" using closing_run [OF assms(3) i] assms(2) by (simp add: closing_down_def)
  ultimately have "tm_closed (fst v')" by (simp add: closing_down_def)
  moreover have "\<not> closing (snd v' t)" for t using assms(5) by (simp add: closing_def)
  ultimately show ?thesis using i' unfolding timers_inv_def phase_ok_def by blast
qed

section \<open>Some runs\<close>

text \<open>One thread, with a stack.\<close>

abbreviation thread :: "nat \<Rightarrow> tframe list \<Rightarrow> nat \<Rightarrow> tframe list" where
  "thread t fs \<equiv> (\<lambda>_. [])(t := fs)"

lemma run_step:
  assumes "trun v es (s, k)" "tstep (s, k) e (s', k(t := fs))" "k' = k(t := fs)"
  shows "trun v (es @ [e]) (s', k')"
  using trun.Then [OF assms(1,2)] assms(3) by simp

definition demo_timer :: timers where
  "demo_timer = snd (commit_source 0 7 (attach_source 0 (snd (publish_lease SoftTimer 10 SoftTimeout init_timer_lifecycle))))"

lemma demo_scheduled: "trun started [Scheduled SoftTimer 10 SoftTimeout, Quiet, Quiet] (demo_timer, \<lambda>_. [])"
proof -
  let ?p = "snd (publish_lease SoftTimer 10 SoftTimeout init_timer_lifecycle)"
  have "trun started ([] @ [Scheduled SoftTimer 10 SoftTimeout]) (?p, thread 1 [Publishing 0])"
    unfolding started_def
    by (rule run_step [OF trun.Nothing tstep.Schedule [where t = 1 and x = "Some 0"]])
      (simp_all add: publish_lease_def init_timer_lifecycle_def)
  from run_step [OF this tstep.Attach [where t = 1], of 0 "[]" "thread 1 [Attached 0]"]
  have a: "trun started [Scheduled SoftTimer 10 SoftTimeout, Quiet] (attach_source 0 ?p, thread 1 [Attached 0])" by simp
  have "commit_source 0 7 (attach_source 0 ?p) = (True, demo_timer)"
    by (simp add: demo_timer_def commit_source_def attach_source_def publish_lease_def init_timer_lifecycle_def holds_def Let_def)
  from run_step [OF a tstep.Commit [where t = 1, OF _ _ this], of "[]" "\<lambda>_. []"] show ?thesis by (simp add: fun_eq_iff)
qed

text \<open>A thread cleans up.\<close>

lemma cleans_up:
  assumes "trun started es (s, k)" "t \<noteq> 0" "k t = []" "fst (begin_cleanup t s) = Claimed"
  shows "trun started (es @ [Quiet, Quiet, Quiet, Quiet])
    (destroy_sources (fst (close_timers (snd (begin_cleanup t s)))) (snd (close_timers (snd (begin_cleanup t s)))), k(t := [WaitCallbacks]))"
proof -
  let ?b = "snd (begin_cleanup t s)" and ?c = "close_timers (snd (begin_cleanup t s))"
  have "trun started (es @ [Quiet]) (s, k(t := [BeginCleanup]))"
    using run_step [OF assms(1) tstep.Cleanup [of k t s]] assms(2,3) by simp
  from run_step [OF this tstep.Claim [where t = t and s' = ?b and r = "[]"]] assms(4)
  have "trun started ((es @ [Quiet]) @ [Quiet]) (?b, k(t := [Unregistering]))" by (metis fun_upd_same fun_upd_upd prod.collapse)
  from run_step [OF this tstep.Close [where t = t and ls = "fst ?c" and s' = "snd ?c" and r = "[]"]]
  have "trun started (((es @ [Quiet]) @ [Quiet]) @ [Quiet]) (snd ?c, k(t := [DestroyAll (fst ?c)]))" by simp
  from run_step [OF this tstep.DestroyedAll [where t = t and ls = "fst ?c" and r = "[]"]] show ?thesis by simp
qed

text \<open>The timer starts, with and without another thread that cleans up meanwhile.\<close>

definition demo_running :: timers where
  "demo_running = snd (take_callback 1 0 demo_timer)"

lemma demo_started: "trun started ([Scheduled SoftTimer 10 SoftTimeout, Quiet, Quiet] @ [Quiet, Starts 0]) (demo_running, thread 1 [InCallback 0])"
proof -
  have "0 \<in> tm_attached demo_timer"
    by (simp add: demo_timer_def commit_source_def attach_source_def publish_lease_def init_timer_lifecycle_def holds_def Let_def)
  from run_step [OF demo_scheduled tstep.Dispatch [of "\<lambda>_. []" 1, OF _ _ this]]
  have d: "trun started ([Scheduled SoftTimer 10 SoftTimeout, Quiet, Quiet] @ [Quiet]) (demo_timer, thread 1 [Dispatched 0])" by simp
  have "take_callback 1 0 demo_timer = (Run, demo_running)"
    by (simp add: demo_running_def demo_timer_def take_callback_def pop_lease_def commit_source_def attach_source_def publish_lease_def
        init_timer_lifecycle_def holds_def Let_def)
  from run_step [OF d tstep.Start [where t = 1, OF _ this], of "[]"] show ?thesis by simp
qed



lemma demo_leases: "tm_leases demo_timer SoftTimer = Some 0"
  by (simp add: demo_timer_def commit_source_def attach_source_def publish_lease_def init_timer_lifecycle_def holds_def Let_def)

lemma demo_cancel: "tstep (demo_timer, \<lambda>_. []) (Cancelled SoftTimer)
    (snd (cancel_lease SoftTimer demo_timer), thread 1 [Destroying (cancelled_sources (Some 0) demo_timer)])"
  using tstep.Cancel [of "\<lambda>_. []" 1 SoftTimer demo_timer "Some 0" "snd (cancel_lease SoftTimer demo_timer)"] demo_leases
  by (simp add: cancel_lease_def)

theorem timers_refine_atomic_witness:
  "let w = new_wsrc 0 1 (100, 100) 5 ''png'' [''png''] 150
   in stands_for demo_timer (Cancelled SoftTimer) (as_atomic demo_timer w) (as_atomic (snd (cancel_lease SoftTimer demo_timer)) w)"
  using timers_refine_atomic [OF demo_scheduled demo_cancel] by (simp add: Let_def)

theorem cancelled_timer_never_runs_witness:
  "trun started [Scheduled SoftTimer 10 SoftTimeout, Quiet, Quiet] (demo_timer, \<lambda>_. []) \<and>
     Starts 0 \<notin> set [Scheduled SoftTimer 10 SoftTimeout, Quiet, Quiet]"
  using cancelled_timer_never_runs [OF demo_scheduled _ demo_cancel trun.Nothing, of 0] demo_leases demo_scheduled by simp

theorem timers_settled_witness: "tm_attached demo_timer = ran (tm_leases demo_timer) \<and> tm_attr demo_timer SoftTimer = 7"
proof -
  have "l_source_id (lease_of demo_timer 0) = 7"
    by (simp add: demo_timer_def commit_source_def attach_source_def publish_lease_def init_timer_lifecycle_def holds_def Let_def)
  moreover have "\<forall>slot. case tm_leases demo_timer slot of
        None \<Rightarrow> tm_attr demo_timer slot = 0
      | Some l \<Rightarrow> tm_attr demo_timer slot = l_source_id (lease_of demo_timer l) \<and> 0 < l_source_id (lease_of demo_timer l)"
    "tm_attached demo_timer = ran (tm_leases demo_timer)"
    using timers_settled [OF demo_scheduled, unfolded fst_conv snd_conv] by blast+
  ultimately show ?thesis using demo_leases by (auto dest: spec [of _ SoftTimer])
qed

text \<open>Another thread cleans up while the timer runs, and has to wait.\<close>

definition demo_closed :: timers where
  "demo_closed = (let (ls, s) = close_timers (snd (begin_cleanup 2 demo_running)) in destroy_sources ls s)"

lemma demo_waiting_run:
  "trun started ([Scheduled SoftTimer 10 SoftTimeout, Quiet, Quiet, Quiet, Starts 0] @ [Quiet, Quiet, Quiet, Quiet])
     (demo_closed, (thread 1 [InCallback 0])(2 := [WaitCallbacks]))"
proof -
  have "fst (begin_cleanup 2 demo_running) = Claimed"
    by (simp add: demo_running_def demo_timer_def begin_cleanup_def take_callback_def pop_lease_def commit_source_def attach_source_def
        publish_lease_def init_timer_lifecycle_def holds_def Let_def)
  from cleans_up [OF demo_started, of 2, OF _ _ this] show ?thesis by (simp add: demo_closed_def split_beta)
qed

lemma demo_closed_active: "tm_active demo_closed = 1"
  by (simp add: demo_closed_def demo_running_def demo_timer_def begin_cleanup_def take_callback_def pop_lease_def commit_source_def
      attach_source_def publish_lease_def init_timer_lifecycle_def holds_def close_timers_def take_timer_leases_def destroy_sources_def
      Let_def)

theorem cleanup_never_deadlocks_witness:
  "\<exists>u e v'. u \<noteq> 2 \<and> ((thread 1 [InCallback 0])(2 := [WaitCallbacks])) u \<noteq> [] \<and>
     tstep (demo_closed, (thread 1 [InCallback 0])(2 := [WaitCallbacks])) e v' \<and>
     snd v' u \<noteq> ((thread 1 [InCallback 0])(2 := [WaitCallbacks])) u"
proof -
  have "must_wait (demo_closed, (thread 1 [InCallback 0])(2 := [WaitCallbacks])) 2"
    by (simp add: must_wait_def demo_closed_active)
  from cleanup_never_deadlocks [OF demo_waiting_run this] show ?thesis by (simp only: fst_conv snd_conv) blast
qed


text \<open>A callback asks for the clean up; its thread does it when the callback returns.\<close>

definition demo_asked :: timers where
  "demo_asked = snd (begin_cleanup 1 demo_running)"

definition demo_ended :: timers where
  "demo_ended = snd (end_callback 1 demo_asked)"

definition demo_shut :: timers where
  "demo_shut = (let (ls, s) = close_timers (snd (begin_cleanup 1 demo_ended)) in destroy_sources ls s)"

lemmas demo_defs = demo_shut_def demo_ended_def demo_asked_def demo_running_def demo_timer_def begin_cleanup_def take_callback_def
  pop_lease_def commit_source_def attach_source_def publish_lease_def init_timer_lifecycle_def holds_def end_callback_def
  close_timers_def take_timer_leases_def destroy_sources_def finish_cleanup_def Let_def

lemma demo_asked_run:
  "trun started [Scheduled SoftTimer 10 SoftTimeout, Quiet, Quiet, Quiet, Starts 0, Quiet, Quiet] (demo_asked, thread 1 [InCallback 0])"
proof -
  from run_step [OF demo_started tstep.Cleanup [of "thread 1 [InCallback 0]" 1]]
  have b: "trun started [Scheduled SoftTimer 10 SoftTimeout, Quiet, Quiet, Quiet, Starts 0, Quiet] (demo_running, thread 1 [BeginCleanup, InCallback 0])"
    by simp
  have "begin_cleanup 1 demo_running = (Refused, demo_asked)" by (simp add: demo_defs)
  from run_step [OF b tstep.Refuse [where t = 1, OF _ this], of "[InCallback 0]"] show ?thesis by simp
qed

lemma demo_shut_run: "trun (demo_asked, thread 1 [InCallback 0]) [Quiet, Quiet, Quiet, Quiet, CleanedUp, Quiet, Quiet]
    (destroy_sources [0] (finish_cleanup 1 demo_shut), \<lambda>_. [])"
proof -
  have e: "end_callback 1 demo_asked = (True, demo_ended)" by (simp add: demo_defs)
  from run_step [OF trun.Nothing tstep.Ends [where t = 1, OF _ e], of "thread 1 [InCallback 0]" 0 "[]"]
  have a: "trun (demo_asked, thread 1 [InCallback 0]) [Quiet] (demo_ended, thread 1 [BeginCleanup, Returning 0 False])" by simp
  have "begin_cleanup 1 demo_ended = (Claimed, snd (begin_cleanup 1 demo_ended))" by (simp add: demo_defs)
  from run_step [OF a tstep.Claim [where t = 1, OF _ this], of "[Returning 0 False]"]
  have b: "trun (demo_asked, thread 1 [InCallback 0]) [Quiet, Quiet]
      (snd (begin_cleanup 1 demo_ended), thread 1 [Unregistering, Returning 0 False])" by simp
  let ?c = "close_timers (snd (begin_cleanup 1 demo_ended))"
  from run_step [OF b tstep.Close [where t = 1 and ls = "fst ?c" and s' = "snd ?c" and r = "[Returning 0 False]"]]
  have c: "trun (demo_asked, thread 1 [InCallback 0]) [Quiet, Quiet, Quiet] (snd ?c, thread 1 [DestroyAll (fst ?c), Returning 0 False])" by simp
  from run_step [OF c tstep.DestroyedAll [where t = 1 and ls = "fst ?c" and r = "[Returning 0 False]"]]
  have d: "trun (demo_asked, thread 1 [InCallback 0]) [Quiet, Quiet, Quiet, Quiet] (demo_shut, thread 1 [WaitCallbacks, Returning 0 False])"
    by (simp add: demo_shut_def split_beta)
  have "tm_active demo_shut = 0" by (simp add: demo_defs)
  from run_step [OF d tstep.Waited [where t = 1, OF _ this], of "[Returning 0 False]"]
  have f: "trun (demo_asked, thread 1 [InCallback 0]) [Quiet, Quiet, Quiet, Quiet, CleanedUp] (demo_shut, thread 1 [CleanupTail, Returning 0 False])"
    by simp
  from run_step [OF f tstep.Finish [where t = 1], of "[Returning 0 False]"]
  have g: "trun (demo_asked, thread 1 [InCallback 0]) [Quiet, Quiet, Quiet, Quiet, CleanedUp, Quiet]
      (finish_cleanup 1 demo_shut, thread 1 [Returning 0 False])" by simp
  from run_step [OF g tstep.Return [where t = 1], of 0 False "[]" "\<lambda>_. []"] show ?thesis by (simp add: fun_eq_iff)
qed

theorem requested_cleanup_completes_witness: "tm_complete (destroy_sources [0] (finish_cleanup 1 demo_shut))"
proof -
  have "tm_requested demo_asked" by (simp add: demo_defs)
  with requested_cleanup_completes [OF demo_asked_run _ demo_shut_run] show ?thesis by simp
qed

theorem nothing_runs_after_cleanup_witness:
  "\<forall>slot. tm_leases (destroy_sources [0] (finish_cleanup 1 demo_shut)) slot = None"
  using nothing_runs_after_cleanup [OF trun_append [OF demo_shut_run demo_asked_run] _ trun.Nothing] by simp

end
