(* ===== verification/PacketDispatch.thy ===== *)
theory PacketDispatch
  imports PacketValues "HOL-Library.AList"
begin

text \<open>
  The dispatching of packets (\<^verbatim>\<open>src/xpra/net/dispatch.py\<close>): the registries of handlers, those of the
  subsystems and those of the endpoint, the routing of a packet by its type, and the limit on the errors
  that are reported. A handler is an element of any type; whether it raises is a part of the environment,
  and so is whether the endpoint has a main loop to which the calls for the main thread are handed.
\<close>

section \<open>The handlers of a subsystem\<close>

text \<open>A handler is kept with whether it wants the main thread. Dictionaries are lists in order of insertion.\<close>

record 'h subsystem =
  sub_PREFIX :: pystr
  sub_handlers :: "(pystr \<times> 'h \<times> bool) list"

definition dash :: int where "dash = 45"

text \<open>What a registration can raise: \<^verbatim>\<open>ValueError\<close> outside of the namespace, \<^verbatim>\<open>AttributeError\<close> from \<^verbatim>\<open>getattr\<close>.\<close>

datatype register_error = OutsideNamespace | NoSuchMethod

definition owns_packet :: "'h subsystem \<Rightarrow> pystr \<Rightarrow> bool" where
  "owns_packet sub t \<longleftrightarrow>
     (let prefix = sub_PREFIX sub in
      prefix \<noteq> [] \<and> (t = prefix \<or> take (length prefix + 1) t = prefix @ [dash]))"

definition packet_subtype :: "'h subsystem \<Rightarrow> pystr \<Rightarrow> pystr" where
  "packet_subtype sub t = (if t = sub_PREFIX sub then [] else drop (length (sub_PREFIX sub) + 1) t)"

text \<open>\<^verbatim>\<open>"_process_"\<close> as code points, and \<^verbatim>\<open>replace("-", "_")\<close>.\<close>

definition process_prefix :: pystr where "process_prefix = [95, 112, 114, 111, 99, 101, 115, 115, 95]"

definition packet_handler_name :: "'h subsystem \<Rightarrow> pystr \<Rightarrow> pystr" where
  "packet_handler_name sub t =
     (let subtype = (if owns_packet sub t then packet_subtype sub t else []) in
      process_prefix @ map (\<lambda>c. if c = dash then 95 else c) (if subtype \<noteq> [] then subtype else t))"

definition sub_add_handler :: "pystr \<Rightarrow> 'h \<Rightarrow> bool \<Rightarrow> 'h subsystem \<Rightarrow> register_error + 'h subsystem" where
  "sub_add_handler t h main sub =
     (if \<not> owns_packet sub t then Inl OutsideNamespace
      else Inr (sub\<lparr>sub_handlers := AList.update (packet_subtype sub t) (h, main) (sub_handlers sub)\<rparr>))"

text \<open>
  Several handlers: those registered before the exception stay. \<open>methods\<close> are the methods of the
  instance by their names.
\<close>

fun sub_add_handlers :: "(pystr \<times> 'h) list \<Rightarrow> bool \<Rightarrow> 'h subsystem \<Rightarrow> (register_error + unit) \<times> 'h subsystem" where
  "sub_add_handlers [] main sub = (Inr (), sub)"
| "sub_add_handlers ((t, h) # defs) main sub =
     (case sub_add_handler t h main sub of
        Inl e \<Rightarrow> (Inl e, sub)
      | Inr sub' \<Rightarrow> sub_add_handlers defs main sub')"

fun sub_add_packets :: "(pystr \<Rightarrow> 'h option) \<Rightarrow> pystr list \<Rightarrow> bool \<Rightarrow> 'h subsystem \<Rightarrow> (register_error + unit) \<times> 'h subsystem" where
  "sub_add_packets methods [] main sub = (Inr (), sub)"
| "sub_add_packets methods (t # ts) main sub =
     (case methods (packet_handler_name sub t) of
        None \<Rightarrow> (Inl NoSuchMethod, sub)
      | Some h \<Rightarrow>
          (case sub_add_handler t h main sub of
             Inl e \<Rightarrow> (Inl e, sub)
           | Inr sub' \<Rightarrow> sub_add_packets methods ts main sub'))"

definition get_packet_handler :: "'h subsystem \<Rightarrow> pystr \<Rightarrow> ('h \<times> bool) option" where
  "get_packet_handler sub subtype = map_of (sub_handlers sub) subtype"

definition sub_remove_handler :: "pystr \<Rightarrow> 'h subsystem \<Rightarrow> 'h subsystem" where
  "sub_remove_handler subtype sub = sub\<lparr>sub_handlers := AList.delete subtype (sub_handlers sub)\<rparr>"

definition sub_remove_handlers :: "pystr list \<Rightarrow> 'h subsystem \<Rightarrow> 'h subsystem" where
  "sub_remove_handlers ts sub =
     fold (\<lambda>t s. if owns_packet s t then sub_remove_handler (packet_subtype s t) s else s) ts sub"

definition sub_packet_types :: "'h subsystem \<Rightarrow> pystr list" where
  "sub_packet_types sub =
     map (\<lambda>(subtype, _). if subtype \<noteq> [] then sub_PREFIX sub @ [dash] @ subtype else sub_PREFIX sub) (sub_handlers sub)"

section \<open>Routing to a subsystem\<close>

text \<open>\<^verbatim>\<open>s.partition("-")\<close>, with whether the separator was found.\<close>

definition partition_dash :: "pystr \<Rightarrow> pystr \<times> bool \<times> pystr" where
  "partition_dash s = (takeWhile (\<lambda>c. c \<noteq> dash) s, dash \<in> set s, drop 1 (dropWhile (\<lambda>c. c \<noteq> dash) s))"

text \<open>The subsystem that is found is named by its key in the dictionary.\<close>

type_synonym 'h found = "pystr \<times> pystr \<times> 'h \<times> bool"

definition try_prefix :: "(pystr \<times> 'h subsystem) list \<Rightarrow> pystr \<Rightarrow> pystr \<Rightarrow> 'h found option" where
  "try_prefix subsystems prefix subtype =
     (case map_of subsystems prefix of
        None \<Rightarrow> None
      | Some sub \<Rightarrow> map_option (\<lambda>(h, main). (prefix, subtype, h, main)) (get_packet_handler sub subtype))"

lemma length_rest: "length (drop 1 (dropWhile P xs)) \<le> length xs"
  using length_dropWhile_le [of P xs] by simp

lemma length_rest_lt: "x \<in> set xs \<Longrightarrow> \<not> P x \<Longrightarrow> length (drop 1 (dropWhile P xs)) < length xs"
  using length_dropWhile_le [of P xs] by (cases "dropWhile P xs") (auto dest: dropWhile_eq_Nil_conv [THEN iffD1])

function find_from :: "(pystr \<times> 'h subsystem) list \<Rightarrow> pystr \<Rightarrow> bool \<Rightarrow> pystr \<Rightarrow> 'h found option" where
  "find_from subsystems prefix sep subtype =
     (case try_prefix subsystems prefix subtype of
        Some found \<Rightarrow> Some found
      | None \<Rightarrow>
          if \<not> sep then None
          else let (more, sep', subtype') = partition_dash subtype in
            find_from subsystems (prefix @ [dash] @ more) sep' subtype')"
  by auto

termination
proof (relation "measure (\<lambda>(_, _, sep, subtype). length subtype + (if sep then 1 else 0))", simp)
  fix subsystems :: "(pystr \<times> 'h subsystem) list" and prefix sep subtype x y more sep' subtype'
  assume "\<not> \<not> sep" "x = partition_dash subtype" "(more, y) = x" "(sep', subtype') = y"
  then show "((subsystems, prefix @ [dash] @ more, sep', subtype'), (subsystems, prefix, sep, subtype))
      \<in> measure (\<lambda>(_, _, sep, subtype). length subtype + (if sep then 1 else 0))"
    using length_rest [of "\<lambda>c. c \<noteq> dash" subtype] length_rest_lt [of dash subtype "\<lambda>c. c \<noteq> dash"]
    by (auto simp: partition_dash_def)
qed

definition find_packet_handler :: "(pystr \<times> 'h subsystem) list \<Rightarrow> pystr \<Rightarrow> 'h found option" where
  "find_packet_handler subsystems t =
     (let (prefix, sep, subtype) = partition_dash t in find_from subsystems prefix sep subtype)"

section \<open>The dispatcher\<close>

text \<open>
  The attributes of a \<^verbatim>\<open>PacketDispatcher\<close>. \<open>pd_idle\<close> are the calls handed to the main loop, and \<open>pd_events\<close>
  what was done: the handlers that ran, the errors that were reported, when and with the number of those
  suppressed before, the protocols that were closed.
\<close>

datatype 'h dispatch_event = Handled 'h packet | Reported int pystr int | Closed

record 'h dispatcher =
  pd_auth :: "(pystr \<times> 'h) list"
  pd_auth_ui :: "(pystr \<times> 'h) list"
  pd_default :: "(pystr \<times> 'h) list"
  pd_default_ui :: "(pystr \<times> 'h) list"
  pd_subsystems :: "(pystr \<times> 'h subsystem) list"
  pd_error_count :: int
  pd_errors_suppressed :: int
  pd_errors_pending :: int
  pd_next_error_log :: int
  pd_idle :: "('h \<times> packet) list"
  pd_events :: "'h dispatch_event list"

definition new_dispatcher :: "'h dispatcher" where
  "new_dispatcher = \<lparr>pd_auth = [], pd_auth_ui = [], pd_default = [], pd_default_ui = [], pd_subsystems = [],
     pd_error_count = 0, pd_errors_suppressed = 0, pd_errors_pending = 0, pd_next_error_log = 0,
     pd_idle = [], pd_events = []\<rparr>"

definition dispatcher_packet_types :: "'h dispatcher \<Rightarrow> pystr list" where
  "dispatcher_packet_types d =
     map fst (pd_auth_ui d) @ map fst (pd_auth d) @ concat (map (\<lambda>(_, sub). sub_packet_types sub) (pd_subsystems d))"

definition remove_packet_handler :: "pystr \<Rightarrow> 'h dispatcher \<Rightarrow> 'h dispatcher" where
  "remove_packet_handler k d =
     (let d = d\<lparr>pd_auth := AList.delete k (pd_auth d), pd_auth_ui := AList.delete k (pd_auth_ui d),
                pd_default := AList.delete k (pd_default d), pd_default_ui := AList.delete k (pd_default_ui d)\<rparr> in
      case find_packet_handler (pd_subsystems d) k of
        None \<Rightarrow> d
      | Some (key, subtype, _) \<Rightarrow>
          d\<lparr>pd_subsystems := AList.map_entry key (sub_remove_handler subtype) (pd_subsystems d)\<rparr>)"

definition remove_packet_handlers :: "pystr list \<Rightarrow> 'h dispatcher \<Rightarrow> 'h dispatcher" where
  "remove_packet_handlers ks d = fold remove_packet_handler ks d"

definition add_packet_handler :: "pystr \<Rightarrow> 'h \<Rightarrow> bool \<Rightarrow> 'h dispatcher \<Rightarrow> 'h dispatcher" where
  "add_packet_handler t h main d =
     (let d = remove_packet_handlers [t] d in
      if main then d\<lparr>pd_auth_ui := AList.update t h (pd_auth_ui d)\<rparr>
      else d\<lparr>pd_auth := AList.update t h (pd_auth d)\<rparr>)"

definition add_packet_handlers :: "(pystr \<times> 'h) list \<Rightarrow> bool \<Rightarrow> 'h dispatcher \<Rightarrow> 'h dispatcher" where
  "add_packet_handlers defs main d = fold (\<lambda>(t, h). add_packet_handler t h main) defs d"

fun add_packets :: "(pystr \<Rightarrow> 'h option) \<Rightarrow> pystr list \<Rightarrow> bool \<Rightarrow> 'h dispatcher \<Rightarrow> (register_error + unit) \<times> 'h dispatcher" where
  "add_packets methods [] main d = (Inr (), d)"
| "add_packets methods (t # ts) main d =
     (case methods (process_prefix @ map (\<lambda>c. if c = dash then 95 else c) t) of
        None \<Rightarrow> (Inl NoSuchMethod, d)
      | Some h \<Rightarrow> add_packets methods ts main (add_packet_handler t h main d))"

section \<open>Dispatching\<close>

text \<open>
  The environment: whether the protocol is closed, which handlers raise an exception, the clock in
  seconds, and whether \<^verbatim>\<open>call_in_main_thread\<close> hands its call to a main loop, as the endpoints do.
\<close>

record 'h denv =
  de_closed :: bool
  de_raises :: "'h \<Rightarrow> packet \<Rightarrow> bool"
  de_now :: int
  de_main_loop :: bool
  de_str :: "pval \<Rightarrow> pystr"

definition get_type :: "(pval \<Rightarrow> pystr) \<Rightarrow> packet \<Rightarrow> pystr result" where
  "get_type str_of packet =
     ebind (py_index packet 0) (\<lambda>v. Inr (case v of PStr cs \<Rightarrow> cs | _ \<Rightarrow> str_of v))"

definition PACKET_ERROR_LOG_INTERVAL :: int where "PACKET_ERROR_LOG_INTERVAL = 5"

definition log_packet_error :: "int \<Rightarrow> pystr \<Rightarrow> 'h dispatcher \<Rightarrow> 'h dispatcher" where
  "log_packet_error now t d =
     (let d = d\<lparr>pd_error_count := pd_error_count d + 1\<rparr> in
      if now < pd_next_error_log d then
        d\<lparr>pd_errors_suppressed := pd_errors_suppressed d + 1, pd_errors_pending := pd_errors_pending d + 1\<rparr>
      else
        d\<lparr>pd_errors_pending := 0, pd_next_error_log := now + PACKET_ERROR_LOG_INTERVAL,
          pd_events := pd_events d @ [Reported now t (pd_errors_pending d)]\<rparr>)"

text \<open>The inner function \<^verbatim>\<open>call\<close> of \<^verbatim>\<open>call_packet_handler\<close>: the packet has a type, or it was not dispatched.\<close>

definition call :: "'h denv \<Rightarrow> 'h \<Rightarrow> packet \<Rightarrow> 'h dispatcher \<Rightarrow> 'h dispatcher" where
  "call e h packet d =
     (let d = d\<lparr>pd_events := pd_events d @ [Handled h packet]\<rparr> in
      if de_raises e h packet then
        (case get_type (de_str e) packet of Inl _ \<Rightarrow> d | Inr t \<Rightarrow> log_packet_error (de_now e) t d)
      else d)"

definition call_packet_handler :: "'h denv \<Rightarrow> bool \<Rightarrow> 'h \<Rightarrow> packet \<Rightarrow> 'h dispatcher \<Rightarrow> 'h dispatcher" where
  "call_packet_handler e main h packet d =
     (if main \<and> de_main_loop e then d\<lparr>pd_idle := pd_idle d @ [(h, packet)]\<rparr>
      else call e h packet d)"

definition run_idle :: "'h denv \<Rightarrow> 'h dispatcher \<Rightarrow> 'h dispatcher" where
  "run_idle e d =
     (case pd_idle d of
        [] \<Rightarrow> d
      | (h, packet) # rest \<Rightarrow> call e h packet (d\<lparr>pd_idle := rest\<rparr>))"

definition handle_invalid_packet :: "'h denv \<Rightarrow> 'h dispatcher \<Rightarrow> 'h dispatcher" where
  "handle_invalid_packet e d = (if de_closed e then d else d\<lparr>pd_events := pd_events d @ [Closed]\<rparr>)"

definition dispatch_packet :: "'h denv \<Rightarrow> packet \<Rightarrow> bool \<Rightarrow> 'h dispatcher \<Rightarrow> unit result \<times> 'h dispatcher" where
  "dispatch_packet e packet authenticated d =
     (case get_type (de_str e) packet of
        Inl err \<Rightarrow> (Inl err, d)
      | Inr t \<Rightarrow>
          (Inr (),
           let defaults =
             (case map_of (pd_default_ui d) t of
                Some h \<Rightarrow> call_packet_handler e True h packet d
              | None \<Rightarrow>
                  (case map_of (pd_default d) t of
                     Some h \<Rightarrow> call_packet_handler e False h packet d
                   | None \<Rightarrow> handle_invalid_packet e d)) in
           if authenticated \<and> \<not> de_closed e then
             (case map_of (pd_auth_ui d) t of
                Some h \<Rightarrow> call_packet_handler e True h packet d
              | None \<Rightarrow>
                  (case map_of (pd_auth d) t of
                     Some h \<Rightarrow> call_packet_handler e False h packet d
                   | None \<Rightarrow>
                       (case find_packet_handler (pd_subsystems d) t of
                          Some (_, _, h, main) \<Rightarrow> call_packet_handler e main h packet d
                        | None \<Rightarrow> defaults)))
           else defaults))"

section \<open>Routing looks at every way of cutting the type\<close>

text \<open>The ways to cut a packet type at a dash, the shortest prefix first, and last the whole type.\<close>

fun splits :: "pystr \<Rightarrow> (pystr \<times> pystr) list" where
  "splits [] = [([], [])]"
| "splits (c # cs) = (if c = dash then [([], cs)] else []) @ map (\<lambda>(p, s). (c # p, s)) (splits cs)"

fun first_some :: "('a \<Rightarrow> 'b option) \<Rightarrow> 'a list \<Rightarrow> 'b option" where
  "first_some f [] = None"
| "first_some f (x # xs) = (case f x of None \<Rightarrow> first_some f xs | Some y \<Rightarrow> Some y)"

definition behind :: "pystr \<Rightarrow> (pystr \<times> pystr) list \<Rightarrow> (pystr \<times> pystr) list" where
  "behind prefix = map (\<lambda>ps. (prefix @ [dash] @ fst ps, snd ps))"

lemma splits_partition:
  "splits t =
     (case partition_dash t of (prefix, sep, subtype) \<Rightarrow>
        if sep then (prefix, subtype) # behind prefix (splits subtype) else [(prefix, [])])"
proof (induction t)
  case (Cons c t)
  then show ?case
    by (cases "c = dash"; cases "dash \<in> set t") (auto simp: partition_dash_def behind_def split_beta)
qed (simp add: partition_dash_def)

lemma partition_no_sep: "partition_dash t = (prefix, False, subtype) \<Longrightarrow> subtype = []"
proof -
  assume a: "partition_dash t = (prefix, False, subtype)"
  then have "dropWhile (\<lambda>c. c \<noteq> dash) t = []" by (auto simp: partition_dash_def)
  with a show ?thesis by (simp add: partition_dash_def)
qed

lemma behind_behind: "behind prefix (behind q xs) = behind (prefix @ [dash] @ q) xs"
  by (simp add: behind_def comp_def)

lemma behind_Cons: "behind prefix (ps # xs) = (prefix @ [dash] @ fst ps, snd ps) # behind prefix xs"
  by (simp add: behind_def)

declare find_from.simps [simp del]

lemma find_from_splits:
  "(sep \<longrightarrow> find_from subsystems prefix sep subtype =
      first_some (\<lambda>(p, s). try_prefix subsystems p s) ((prefix, subtype) # behind prefix (splits subtype))) \<and>
   (\<not> sep \<longrightarrow> find_from subsystems prefix sep subtype = try_prefix subsystems prefix subtype)"
proof (induction subsystems prefix sep subtype rule: find_from.induct)
  case (1 subsystems prefix sep subtype)
  obtain more sep' subtype' where p: "partition_dash subtype = (more, sep', subtype')"
    by (cases "partition_dash subtype") auto
  have sp: "splits subtype = (if sep' then (more, subtype') # behind more (splits subtype') else [(more, [])])"
    by (subst splits_partition) (simp add: p)
  show ?case
  proof (cases "try_prefix subsystems prefix subtype")
    case None
    note IH = 1 [OF None _ p [symmetric] refl]
    have r: "sep \<Longrightarrow> find_from subsystems prefix sep subtype = find_from subsystems (prefix @ [dash] @ more) sep' subtype'"
      using None p by (subst find_from.simps) simp
    show ?thesis
    proof (cases sep')
      case True
      with sp have "behind prefix (splits subtype) =
          (prefix @ [dash] @ more, subtype') # behind (prefix @ [dash] @ more) (splits subtype')"
        by (simp only: if_True behind_Cons behind_behind fst_conv snd_conv)
      with IH r None True show ?thesis by (auto simp: find_from.simps [of _ _ False])
    next
      case False
      with sp have "behind prefix (splits subtype) = [(prefix @ [dash] @ more, [])]" by (simp add: behind_def)
      moreover from False p have "subtype' = []" using partition_no_sep [of subtype more subtype'] by simp
      ultimately show ?thesis using IH r None False by (auto simp: find_from.simps [of _ _ False] split: option.splits)
    qed
  qed (simp add: find_from.simps)
qed

lemma routing_cuts:
  "find_packet_handler subsystems t = first_some (\<lambda>(p, s). try_prefix subsystems p s) (splits t)"
proof -
  obtain prefix sep subtype where p: "partition_dash t = (prefix, sep, subtype)"
    by (cases "partition_dash t") auto
  have "splits t = (if sep then (prefix, subtype) # behind prefix (splits subtype) else [(prefix, [])])"
    by (subst splits_partition) (simp add: p)
  then show ?thesis
    using find_from_splits [of sep subsystems prefix subtype] partition_no_sep [of t prefix subtype] p
    by (cases sep) (auto simp: find_packet_handler_def split: option.splits)
qed

text \<open>A cut of the type puts it together again, apart from a dash at its end.\<close>

lemma in_splits_Cons:
  "(q, s) \<in> set (splits (c # cs)) \<longleftrightarrow> (c = dash \<and> q = [] \<and> s = cs) \<or> (\<exists>p. q = c # p \<and> (p, s) \<in> set (splits cs))"
  by force

lemma splits_join: "(p, s) \<in> set (splits t) \<Longrightarrow> t = p @ [dash] @ s \<or> t = p \<and> s = []"
proof (induction t arbitrary: p)
  case (Cons c t)
  from Cons.prems consider "c = dash" "p = []" "s = t" | q where "p = c # q" "(q, s) \<in> set (splits t)"
    unfolding in_splits_Cons by blast
  then show ?case using Cons.IH by cases auto
qed simp

lemma splits_all: "p @ [dash] @ s = t \<Longrightarrow> (p, s) \<in> set (splits t)"
proof (induction t arbitrary: p)
  case (Cons c t)
  then show ?case unfolding in_splits_Cons by (cases p) auto
qed simp

lemma splits_whole: "(t, []) \<in> set (splits t)"
  by (induction t) (auto simp: in_splits_Cons simp del: splits.simps(2))

lemma first_some_SomeD: "first_some f xs = Some y \<Longrightarrow> \<exists>x \<in> set xs. f x = Some y"
  by (induction xs) (auto split: option.splits)

lemma first_some_None: "first_some f xs = None \<longleftrightarrow> (\<forall>x \<in> set xs. f x = None)"
  by (induction xs) (auto split: option.splits)

lemma find_SomeD:
  "find_packet_handler subsystems t = Some (key, subtype, h, main) \<Longrightarrow>
     (\<exists>sub. map_of subsystems key = Some sub \<and> get_packet_handler sub subtype = Some (h, main)) \<and>
     (t = key @ [dash] @ subtype \<or> t = key \<and> subtype = [])"
  unfolding routing_cuts by (drule first_some_SomeD) (auto simp: try_prefix_def dest: splits_join split: option.splits)

section \<open>A registered handler is found\<close>

definition keyed :: "(pystr \<times> 'h subsystem) list \<Rightarrow> bool" where
  "keyed subsystems \<longleftrightarrow> (\<forall>(key, sub) \<in> set subsystems. sub_PREFIX sub = key)"

text \<open>The packets of a subsystem: its prefix, and what follows its prefix and a dash.\<close>

lemma owns_cut:
  assumes "owns_packet sub t"
  shows "(sub_PREFIX sub, packet_subtype sub t) \<in> set (splits t)"
proof (cases "t = sub_PREFIX sub")
  case True
  then show ?thesis using splits_whole [of t] by (simp add: packet_subtype_def)
next
  case False
  with assms have "take (length (sub_PREFIX sub) + 1) t = sub_PREFIX sub @ [dash]"
    by (simp add: owns_packet_def Let_def)
  then have "sub_PREFIX sub @ [dash] @ drop (length (sub_PREFIX sub) + 1) t = t"
    using append_take_drop_id [of "length (sub_PREFIX sub) + 1" t] by simp
  from splits_all [OF this] False show ?thesis by (simp add: packet_subtype_def)
qed

lemma found_somewhere:
  assumes "map_of subsystems (sub_PREFIX sub) = Some sub" "owns_packet sub t"
    "get_packet_handler sub (packet_subtype sub t) = Some hm"
  shows "find_packet_handler subsystems t \<noteq> None"
proof -
  have "try_prefix subsystems (sub_PREFIX sub) (packet_subtype sub t) \<noteq> None"
    using assms by (simp add: try_prefix_def)
  with owns_cut [OF assms(2)] show ?thesis unfolding routing_cuts first_some_None
    by (metis case_prodI2 case_prod_conv)
qed

text \<open>
  The search through increasingly long prefixes finds what looking at every way to cut the packet type
  at a dash finds, the shortest prefix first and the whole type last: no subsystem that claims a packet is
  missed, whatever dashes its prefix has.
\<close>

theorem routing_tries_every_prefix:
  "find_packet_handler subsystems t = first_some (\<lambda>(p, s). try_prefix subsystems p s) (splits t)"
  by (rule routing_cuts)

section \<open>Strangers reach the default handlers only\<close>

fun handled_by :: "'h dispatch_event \<Rightarrow> 'h list" where
  "handled_by (Handled h packet) = [h]"
| "handled_by (Reported now t n) = []"
| "handled_by Closed = []"

definition handlers_used :: "'h dispatcher \<Rightarrow> 'h set" where
  "handlers_used d = set (concat (map handled_by (pd_events d))) \<union> fst ` set (pd_idle d)"

definition default_handlers :: "'h dispatcher \<Rightarrow> 'h set" where
  "default_handlers d = snd ` set (pd_default d) \<union> snd ` set (pd_default_ui d)"

text \<open>
  What happens to a dispatcher: handlers come and go, packets arrive, with whether they may come from an
  authenticated connection, the main loop makes the calls it was given, and time passes.
\<close>

inductive dstep :: "bool \<Rightarrow> int \<times> 'h dispatcher \<Rightarrow> int \<times> 'h dispatcher \<Rightarrow> bool" for trusted where
  Added: "dstep trusted (now, d) (now, add_packet_handler t h main d)"
| Removed: "dstep trusted (now, d) (now, remove_packet_handlers ts d)"
| Subsystems: "dstep trusted (now, d) (now, d\<lparr>pd_subsystems := subsystems\<rparr>)"
| Arrived: "dstep trusted (now, d) (now, snd (dispatch_packet e packet authenticated d))"
    if "authenticated \<longrightarrow> trusted" "de_now e = now"
| Idle: "dstep trusted (now, d) (now, run_idle e d)" if "de_now e = now"
| Later: "dstep trusted (now, d) (now', d)" if "now \<le> now'"

abbreviation dsteps where "dsteps trusted \<equiv> (dstep trusted)\<^sup>*\<^sup>*"

lemma remove_fields [simp]:
  "pd_events (remove_packet_handlers ts d) = pd_events d" "pd_idle (remove_packet_handlers ts d) = pd_idle d"
  "pd_error_count (remove_packet_handlers ts d) = pd_error_count d"
  "pd_errors_suppressed (remove_packet_handlers ts d) = pd_errors_suppressed d"
  "pd_errors_pending (remove_packet_handlers ts d) = pd_errors_pending d"
  "pd_next_error_log (remove_packet_handlers ts d) = pd_next_error_log d"
  unfolding remove_packet_handlers_def
  by (induction ts arbitrary: d) (auto simp: remove_packet_handler_def Let_def split: option.splits)

lemma add_fields [simp]:
  "pd_events (add_packet_handler t h main d) = pd_events d" "pd_idle (add_packet_handler t h main d) = pd_idle d"
  "pd_error_count (add_packet_handler t h main d) = pd_error_count d"
  "pd_errors_suppressed (add_packet_handler t h main d) = pd_errors_suppressed d"
  "pd_errors_pending (add_packet_handler t h main d) = pd_errors_pending d"
  "pd_next_error_log (add_packet_handler t h main d) = pd_next_error_log d"
  by (simp_all add: add_packet_handler_def Let_def)

lemma remove_defaults: "default_handlers (remove_packet_handlers ts d) \<subseteq> default_handlers d"
  unfolding remove_packet_handlers_def
proof (induction ts arbitrary: d)
  case (Cons t ts)
  have "default_handlers (remove_packet_handler t d) \<subseteq> default_handlers d"
    by (auto simp: remove_packet_handler_def default_handlers_def Let_def AList.delete_eq image_iff split: option.splits)
  with Cons [of "remove_packet_handler t d"] show ?case by auto
qed simp

lemma add_defaults: "default_handlers (add_packet_handler t h main d) \<subseteq> default_handlers d"
  using remove_defaults [of "[t]" d] by (auto simp: add_packet_handler_def default_handlers_def Let_def)

lemma log_fields [simp]:
  "default_handlers (log_packet_error now t d) = default_handlers d"
  "handlers_used (log_packet_error now t d) = handlers_used d"
  by (auto simp: log_packet_error_def default_handlers_def handlers_used_def Let_def)

lemma call_fields:
  "default_handlers (call e h packet d) = default_handlers d"
  "handlers_used (call e h packet d) = insert h (handlers_used d)"
  by (auto simp: call_def Let_def split: sum.splits) (auto simp: default_handlers_def handlers_used_def)

lemma call_handler_fields:
  "default_handlers (call_packet_handler e main h packet d) = default_handlers d"
  "handlers_used (call_packet_handler e main h packet d) = insert h (handlers_used d)"
  by (auto simp: call_packet_handler_def call_fields) (auto simp: default_handlers_def handlers_used_def)

lemma invalid_fields:
  "default_handlers (handle_invalid_packet e d) = default_handlers d"
  "handlers_used (handle_invalid_packet e d) = handlers_used d"
  by (auto simp: handle_invalid_packet_def default_handlers_def handlers_used_def)

lemma default_mapI:
  "map_of (pd_default d) t = Some h \<Longrightarrow> h \<in> default_handlers d"
  "map_of (pd_default_ui d) t = Some h \<Longrightarrow> h \<in> default_handlers d"
  by (force simp: default_handlers_def dest: map_of_SomeD)+

lemma dispatch_defaults: "default_handlers (snd (dispatch_packet e packet authenticated d)) = default_handlers d"
  by (simp add: dispatch_packet_def Let_def call_handler_fields invalid_fields split: sum.split option.split prod.split)

lemma dispatch_stranger:
  "handlers_used (snd (dispatch_packet e packet False d)) \<subseteq> handlers_used d \<union> default_handlers d"
  by (auto simp: dispatch_packet_def Let_def call_handler_fields invalid_fields intro: default_mapI
        split: sum.splits option.splits)

lemma run_idle_fields:
  "default_handlers (run_idle e d) = default_handlers d" "handlers_used (run_idle e d) = handlers_used d"
  by (auto simp: run_idle_def call_fields split: list.splits) (auto simp: default_handlers_def handlers_used_def)

lemma dstep_stranger:
  "dstep False x y \<Longrightarrow> default_handlers (snd y) \<subseteq> default_handlers (snd x) \<and>
     handlers_used (snd y) \<subseteq> handlers_used (snd x) \<union> default_handlers (snd x)"
proof (induction rule: dstep.induct)
  case (Arrived authenticated e now d packet)
  then show ?case using dispatch_stranger [of e packet d] by (auto simp: dispatch_defaults)
qed (auto simp: run_idle_fields dest: subsetD [OF add_defaults] subsetD [OF remove_defaults],
     auto simp: handlers_used_def default_handlers_def)

lemma dsteps_stranger:
  "dsteps False x y \<Longrightarrow> default_handlers (snd y) \<subseteq> default_handlers (snd x) \<and>
     handlers_used (snd y) \<subseteq> handlers_used (snd x) \<union> default_handlers (snd x)"
proof (induction rule: rtranclp_induct)
  case (step y z)
  from dstep_stranger [OF step.hyps(2)] step.IH show ?case by blast
qed simp

text \<open>
  C6: Whatever handlers are added and removed, while no packet has come from an authenticated connection,
  every handler that has been called, or that waits for the main loop, was one of the default handlers at
  the start: a stranger cannot reach any other handler, nor one of a subsystem.
\<close>

theorem strangers_reach_defaults_only:
  assumes "dsteps False (now0, d0) (now, d)" "handlers_used d0 = {}"
  shows "handlers_used d \<subseteq> default_handlers d0"
  using dsteps_stranger [OF assms(1)] assms(2) by simp

section \<open>The errors that are reported\<close>

fun reports :: "'h dispatch_event list \<Rightarrow> (int \<times> int) list" where
  "reports [] = []"
| "reports (Reported now t n # evs) = (now, n) # reports evs"
| "reports (Handled h packet # evs) = reports evs"
| "reports (Closed # evs) = reports evs"

lemma reports_append: "reports (xs @ ys) = reports xs @ reports ys"
  by (induction xs rule: reports.induct) simp_all

definition spaced :: "(int \<times> int) list \<Rightarrow> bool" where
  "spaced rs \<longleftrightarrow> sorted_wrt (\<lambda>r s. fst r + PACKET_ERROR_LOG_INTERVAL \<le> fst s) rs"

definition errors_ok :: "'h dispatcher \<Rightarrow> bool" where
  "errors_ok d \<longleftrightarrow>
     (let rs = reports (pd_events d) in
      spaced rs \<and> (\<forall>r \<in> set rs. fst r + PACKET_ERROR_LOG_INTERVAL \<le> pd_next_error_log d) \<and>
      pd_error_count d = int (length rs) + pd_errors_suppressed d \<and>
      pd_errors_suppressed d = sum_list (map snd rs) + pd_errors_pending d \<and> 0 \<le> pd_errors_pending d)"

lemma log_error_ok: "errors_ok d \<Longrightarrow> errors_ok (log_packet_error now t d)"
  by (auto simp: log_packet_error_def errors_ok_def Let_def reports_append spaced_def sorted_wrt_append
        PACKET_ERROR_LOG_INTERVAL_def)

lemma handled_ok: "errors_ok (d\<lparr>pd_events := pd_events d @ [Handled h packet]\<rparr>) = errors_ok d"
  by (simp add: errors_ok_def reports_append)

lemma idle_ok: "errors_ok (d\<lparr>pd_idle := q\<rparr>) = errors_ok d"
  by (simp add: errors_ok_def)

lemma call_ok: "errors_ok d \<Longrightarrow> errors_ok (call e h packet d)"
  by (simp add: call_def Let_def handled_ok log_error_ok split: sum.split)

lemma call_handler_ok: "errors_ok d \<Longrightarrow> errors_ok (call_packet_handler e main h packet d)"
  by (simp add: call_packet_handler_def call_ok idle_ok)

lemma invalid_ok: "errors_ok d \<Longrightarrow> errors_ok (handle_invalid_packet e d)"
  by (simp add: handle_invalid_packet_def errors_ok_def reports_append)

lemma dispatch_ok: "errors_ok d \<Longrightarrow> errors_ok (snd (dispatch_packet e packet authenticated d))"
  by (simp add: dispatch_packet_def Let_def call_handler_ok invalid_ok split: sum.split option.split prod.split)

lemma dstep_errors: "dstep trusted x y \<Longrightarrow> errors_ok (snd x) \<Longrightarrow> errors_ok (snd y)"
proof (induction rule: dstep.induct)
  case (Idle e now d)
  then show ?case by (auto simp: run_idle_def idle_ok intro: call_ok split: list.splits)
qed (auto simp: dispatch_ok, auto simp: errors_ok_def)

lemma dsteps_errors: "dsteps trusted x y \<Longrightarrow> errors_ok (snd x) \<Longrightarrow> errors_ok (snd y)"
  by (induction rule: rtranclp_induct) (auto dest: dstep_errors)


section \<open>Registered packets are dispatched\<close>

lemma add_handler_get:
  assumes "sub_add_handler t h main sub = Inr sub'"
  shows "sub_PREFIX sub' = sub_PREFIX sub" "owns_packet sub' t"
    "get_packet_handler sub' (packet_subtype sub' t) = Some (h, main)"
proof -
  from assms have o: "owns_packet sub t"
    and s: "sub' = sub\<lparr>sub_handlers := AList.update (packet_subtype sub t) (h, main) (sub_handlers sub)\<rparr>"
    by (auto simp: sub_add_handler_def split: if_splits)
  from s show p: "sub_PREFIX sub' = sub_PREFIX sub" by simp
  from p o show "owns_packet sub' t" by (simp add: owns_packet_def)
  from p have "packet_subtype sub' t = packet_subtype sub t" by (simp add: packet_subtype_def)
  with s show "get_packet_handler sub' (packet_subtype sub' t) = Some (h, main)"
    by (simp add: get_packet_handler_def AList.update_conv)
qed

lemma splits_sorted: "sorted_wrt (\<lambda>a b. length (fst a) < length (fst b)) (splits t)"
  by (induction t) (auto simp: sorted_wrt_map split_beta)

lemma first_some_sorted:
  assumes "sorted_wrt (\<lambda>a b. m a < (m b :: nat)) xs" "x \<in> set xs" "f x = Some y" "\<forall>z \<in> set xs. m z < m x \<longrightarrow> f z = None"
  shows "first_some f xs = Some y"
  using assms by (induction xs) (auto split: option.splits)

definition claimed_before :: "(pystr \<times> 'h subsystem) list \<Rightarrow> pystr \<Rightarrow> pystr \<Rightarrow> bool" where
  "claimed_before subsystems prefix t \<longleftrightarrow>
     (\<exists>(p, s) \<in> set (splits t). length p < length prefix \<and> try_prefix subsystems p s \<noteq> None)"

lemma found_first:
  assumes "map_of subsystems (sub_PREFIX sub) = Some sub" "owns_packet sub t"
    "get_packet_handler sub (packet_subtype sub t) = Some (h, main)" "\<not> claimed_before subsystems (sub_PREFIX sub) t"
  shows "find_packet_handler subsystems t = Some (sub_PREFIX sub, packet_subtype sub t, h, main)"
  unfolding routing_cuts
proof (rule first_some_sorted [OF splits_sorted owns_cut [OF assms(2)]])
  show "\<forall>z \<in> set (splits t). length (fst z) < length (fst (sub_PREFIX sub, packet_subtype sub t)) \<longrightarrow>
      (case z of (p, s) \<Rightarrow> try_prefix subsystems p s) = None"
    using assms(4) unfolding claimed_before_def by auto
qed (use assms in \<open>simp add: try_prefix_def\<close>)


section \<open>At concrete inputs\<close>

text \<open>An endpoint whose handler 1 for hello is a default one, and whose handler 2 wants authenticated packets.\<close>

definition demo_hello :: pystr where "demo_hello = [104, 101, 108, 108, 111]"

definition demo_bell :: pystr where "demo_bell = [98, 101, 108, 108]"

definition demo_env :: "nat denv" where
  "demo_env = \<lparr>de_closed = False, de_raises = (\<lambda>h _. h = 1), de_now = 0, de_main_loop = True, de_str = (\<lambda>_. [])\<rparr>"

definition demo_dispatcher :: "nat dispatcher" where
  "demo_dispatcher = add_packet_handler demo_bell 2 True (new_dispatcher\<lparr>pd_default := [(demo_hello, 1)]\<rparr>)"

theorem strangers_reach_defaults_only_witness:
  "handlers_used (snd (dispatch_packet demo_env [PStr demo_hello] False demo_dispatcher)) = {1} \<and>
   handlers_used (snd (dispatch_packet demo_env [PStr demo_hello] False demo_dispatcher)) \<subseteq>
     default_handlers demo_dispatcher"
proof -
  have "dstep False (0, demo_dispatcher) (0, snd (dispatch_packet demo_env [PStr demo_hello] False demo_dispatcher))"
    by (rule Arrived) (simp_all add: demo_env_def)
  then have run: "dsteps False (0, demo_dispatcher)
      (0, snd (dispatch_packet demo_env [PStr demo_hello] False demo_dispatcher))" by simp
  have "handlers_used demo_dispatcher = {}" by (simp add: demo_dispatcher_def handlers_used_def new_dispatcher_def)
  from strangers_reach_defaults_only [OF run this]
  have "handlers_used (snd (dispatch_packet demo_env [PStr demo_hello] False demo_dispatcher)) \<subseteq>
      default_handlers demo_dispatcher" .
  moreover have "handlers_used (snd (dispatch_packet demo_env [PStr demo_hello] False demo_dispatcher)) = {1}"
    by code_simp
  ultimately show ?thesis by blast
qed



end
