(* ===== verification/ClipboardRequests.thy ===== *)
theory ClipboardRequests
  imports PacketValues "HOL-Library.AList" "HOL-Library.Multiset"
begin

text \<open>
  The requests for the contents of the clipboard of the other end (\<^verbatim>\<open>src/xpra/clipboard/timeout.py\<close>): each
  is answered by the peer, by its timer, or when everything is cancelled. Whoever is given an answer may make
  new requests, reset or clean up before it returns, so what is left to do is a stack of frames, and a step
  relation runs them: everything happens on the main thread, but in any order. The requests for the
  \<^verbatim>\<open>PRIMARY\<close> selection on the platforms that do not have one (\<^verbatim>\<open>src/xpra/clipboard/primary.py\<close>) rely on these
  answers.
\<close>

section \<open>State\<close>

text \<open>
  An entry of \<^verbatim>\<open>_clipboard_outstanding_requests\<close>. \<open>rq_call\<close> is not in the code: it numbers the calls of the
  request handler, to tell which one an answer belongs to, and \<open>ch_asked\<close> has the callbacks they were given.
\<close>

record 'cb request =
  rq_timer :: nat
  rq_selection :: pystr
  rq_target :: pystr
  rq_callback :: "'cb option"
  rq_call :: nat

type_synonym reply = "pystr \<times> int \<times> pval"

abbreviation nothing :: reply where "nothing \<equiv> ([], 0, PNone)"

datatype 'cb receiver = ToCallback 'cb | ToProxy pystr | ToNobody

datatype 'cb hevent =
    Sent int pystr pystr
  | Progress nat
  | Answered nat "'cb receiver" reply

text \<open>
  What is left to do: a callback that has not returned, the loop that cancels the requests, with the
  identifiers it still has to look at, and what \<^verbatim>\<open>cleanup\<close> does after it.
\<close>

datatype frame = Callback | Drain "int list" | AfterCleanup

record 'cb helper =
  ch_draining :: bool
  ch_closed :: bool
  ch_counter :: int
  ch_outstanding :: "(int \<times> 'cb request) list"
  ch_proxies :: "pystr list"
  ch_to_remote :: "(pystr \<times> pystr) list"
  ch_timers :: "(nat \<times> int) list"
  ch_next_timer :: nat
  ch_calls :: nat
  ch_asked :: "'cb option list"
  ch_events :: "'cb hevent list"
  ch_stack :: "frame list"

definition new_helper :: "pystr list \<Rightarrow> (pystr \<times> pystr) list \<Rightarrow> 'cb helper" where
  "new_helper proxies to_remote = \<lparr>ch_draining = False, ch_closed = False, ch_counter = 0, ch_outstanding = [],
     ch_proxies = proxies, ch_to_remote = to_remote, ch_timers = [], ch_next_timer = 1, ch_calls = 0, ch_asked = [],
     ch_events = [], ch_stack = []\<rparr>"

definition local_to_remote :: "'cb helper \<Rightarrow> pystr \<Rightarrow> pystr" where
  "local_to_remote h selection =
     (case map_of (ch_to_remote h) selection of None \<Rightarrow> selection | Some remote \<Rightarrow> remote)"

definition get_proxy :: "'cb helper \<Rightarrow> pystr \<Rightarrow> pystr option" where
  "get_proxy h selection = (if selection \<in> set (ch_proxies h) then Some selection else None)"

section \<open>Operations\<close>

definition progress :: "'cb helper \<Rightarrow> 'cb helper" where
  "progress h = h\<lparr>ch_events := ch_events h @ [Progress (length (ch_outstanding h))]\<rparr>"

definition receiver_of :: "'cb option \<Rightarrow> pystr option \<Rightarrow> 'cb receiver" where
  "receiver_of got_contents proxy =
     (case got_contents of
        Some cb \<Rightarrow> ToCallback cb
      | None \<Rightarrow> (case proxy of Some selection \<Rightarrow> ToProxy selection | None \<Rightarrow> ToNobody))"

definition deliver :: "nat \<Rightarrow> pystr option \<Rightarrow> 'cb option \<Rightarrow> reply \<Rightarrow> 'cb helper \<Rightarrow> 'cb helper" where
  "deliver n proxy got_contents r h =
     (let h = h\<lparr>ch_events := ch_events h @ [Answered n (receiver_of got_contents proxy) r]\<rparr> in
      if got_contents = None \<and> proxy = None then h else h\<lparr>ch_stack := Callback # ch_stack h\<rparr>)"

fun plain_data :: "pval \<Rightarrow> pval" where
  "plain_data (PBuffer b) = PBytes b"
| "plain_data v = v"

definition clipboard_got_contents :: "int \<Rightarrow> reply \<Rightarrow> 'cb helper \<Rightarrow> 'cb helper" where
  "clipboard_got_contents request_id r h =
     (case map_of (ch_outstanding h) request_id of
        None \<Rightarrow> progress h
      | Some rq \<Rightarrow>
          let h = progress (h\<lparr>ch_outstanding := AList.delete request_id (ch_outstanding h)\<rparr>);
              h = h\<lparr>ch_timers := AList.delete (rq_timer rq) (ch_timers h)\<rparr>;
              (dtype, dformat, data) = r in
          deliver (rq_call rq) (get_proxy h (rq_selection rq)) (rq_callback rq) (dtype, dformat, plain_data data) h)"

definition timeout_request :: "int \<Rightarrow> 'cb helper \<Rightarrow> 'cb helper" where
  "timeout_request request_id h =
     (case map_of (ch_outstanding h) request_id of
        None \<Rightarrow> progress h
      | Some rq \<Rightarrow>
          let h = progress (h\<lparr>ch_outstanding := AList.delete request_id (ch_outstanding h)\<rparr>) in
          deliver (rq_call rq) (get_proxy h (rq_selection rq)) (rq_callback rq) nothing h)"

text \<open>
  A request: \<open>timer_error\<close> and \<open>send_error\<close> are what setting the timer and sending the packet raise. The
  exception is raised again once the callback has returned.
\<close>

definition send_clipboard_request ::
  "py_error option \<Rightarrow> py_error option \<Rightarrow> pystr \<Rightarrow> pystr \<Rightarrow> 'cb option \<Rightarrow> 'cb helper \<Rightarrow> unit result \<times> 'cb helper" where
  "send_clipboard_request timer_error send_error selection target got_contents h =
     (let n = ch_calls h; h = h\<lparr>ch_calls := n + 1, ch_asked := ch_asked h @ [got_contents]\<rparr> in
      if ch_draining h \<or> ch_closed h then (Inr (), deliver n (Some selection) got_contents nothing h)
      else
        let request_id = ch_counter h; h = h\<lparr>ch_counter := request_id + 1\<rparr>;
            remote = local_to_remote h selection in
        (case timer_error of
          Some err \<Rightarrow> (Inl err, deliver n (Some selection) got_contents nothing h)
        | None \<Rightarrow>
            let timer = ch_next_timer h;
                rq = \<lparr>rq_timer = timer, rq_selection = selection, rq_target = target, rq_callback = got_contents,
                      rq_call = n\<rparr>;
                h = h\<lparr>ch_next_timer := timer + 1, ch_timers := ch_timers h @ [(timer, request_id)],
                      ch_outstanding := ch_outstanding h @ [(request_id, rq)]\<rparr>;
                h = progress h in
            (case send_error of
              None \<Rightarrow> (Inr (), h\<lparr>ch_events := ch_events h @ [Sent request_id remote target]\<rparr>)
            | Some err \<Rightarrow>
                (Inl err, if map_of (ch_outstanding h) request_id \<noteq> None
                          then clipboard_got_contents request_id nothing h else h))))"

definition cancel_outstanding_requests :: "'cb helper \<Rightarrow> 'cb helper" where
  "cancel_outstanding_requests h =
     (if ch_draining h then h
      else h\<lparr>ch_draining := True, ch_stack := Drain (map fst (ch_outstanding h)) # ch_stack h\<rparr>)"

text \<open>One turn of the loop of \<^verbatim>\<open>cancel_outstanding_requests\<close>, and its end.\<close>

definition drain_next :: "int list \<Rightarrow> frame list \<Rightarrow> 'cb helper \<Rightarrow> 'cb helper" where
  "drain_next ids rest h =
     (case ids of
        [] \<Rightarrow> h\<lparr>ch_draining := False, ch_stack := rest\<rparr>
      | request_id # ids \<Rightarrow>
          let h = h\<lparr>ch_stack := Drain ids # rest\<rparr> in
          if map_of (ch_outstanding h) request_id \<noteq> None then clipboard_got_contents request_id nothing h else h)"

text \<open>What \<^verbatim>\<open>client_reset\<close> does besides is in the class that it extends, and concerns the tokens.\<close>

definition client_reset :: "'cb helper \<Rightarrow> 'cb helper" where
  "client_reset h = (if ch_outstanding h \<noteq> [] then cancel_outstanding_requests h else h)"

definition cleanup_helper :: "'cb helper \<Rightarrow> 'cb helper" where
  "cleanup_helper h =
     cancel_outstanding_requests (h\<lparr>ch_closed := True, ch_stack := AfterCleanup # ch_stack h\<rparr>)"

definition after_cleanup :: "frame list \<Rightarrow> 'cb helper \<Rightarrow> 'cb helper" where
  "after_cleanup rest h = h\<lparr>ch_proxies := [], ch_stack := rest\<rparr>"

section \<open>Steps\<close>

text \<open>
  The rest of the program has control when nothing of the helper is on the stack, or when one of its own
  callbacks is at the top. Packets and timers come from the main loop.
\<close>

definition in_control :: "frame list \<Rightarrow> bool" where
  "in_control stack \<longleftrightarrow> (case stack of [] \<Rightarrow> True | f # _ \<Rightarrow> f = Callback)"

inductive hstep :: "'cb helper \<Rightarrow> 'cb helper \<Rightarrow> bool" where
  Request: "hstep h (snd (send_clipboard_request timer_error send_error selection target cb h))"
    if "in_control (ch_stack h)"
| Reset: "hstep h (client_reset h)" if "in_control (ch_stack h)"
| Cleanup: "hstep h (cleanup_helper h)" if "in_control (ch_stack h)"
| Contents: "hstep h (clipboard_got_contents request_id r h)" if "ch_stack h = []"
| Timeout: "hstep h (timeout_request request_id (h\<lparr>ch_timers := AList.delete timer (ch_timers h)\<rparr>))"
    if "ch_stack h = []" "map_of (ch_timers h) timer = Some request_id"
| Return: "hstep h (h\<lparr>ch_stack := rest\<rparr>)" if "ch_stack h = Callback # rest"
| Draining: "hstep h (drain_next ids rest h)" if "ch_stack h = Drain ids # rest"
| Cleaned: "hstep h (after_cleanup rest h)" if "ch_stack h = AfterCleanup # rest"

inductive_cases hstepE: "hstep h h'"

section \<open>The invariant\<close>

fun answered :: "'cb hevent list \<Rightarrow> nat list" where
  "answered [] = []"
| "answered (Answered n receiver r # evs) = n # answered evs"
| "answered (Sent i remote target # evs) = answered evs"
| "answered (Progress k # evs) = answered evs"

lemma answered_append [simp]: "answered (xs @ ys) = answered xs @ answered ys"
  by (induction xs rule: answered.induct) simp_all

fun drains :: "frame list \<Rightarrow> int list list" where
  "drains [] = []"
| "drains (Drain ids # fs) = ids # drains fs"
| "drains (Callback # fs) = drains fs"
| "drains (AfterCleanup # fs) = drains fs"

definition timers_set :: "(nat \<times> int) list \<Rightarrow> nat \<Rightarrow> (int \<times> 'cb request) list \<Rightarrow> bool" where
  "timers_set timers next rqs \<longleftrightarrow>
     distinct (map fst timers) \<and> (\<forall>(t, i) \<in> set timers. t < next) \<and>
     set timers = (\<lambda>(i, rq). (rq_timer rq, i)) ` set rqs"

definition requests_ok :: "'cb helper \<Rightarrow> bool" where
  "requests_ok h \<longleftrightarrow>
     distinct (map fst (ch_outstanding h)) \<and> (\<forall>(i, rq) \<in> set (ch_outstanding h). i < ch_counter h) \<and>
     timers_set (ch_timers h) (ch_next_timer h) (ch_outstanding h) \<and>
     mset (answered (ch_events h)) + mset (map (\<lambda>(i, rq). rq_call rq) (ch_outstanding h)) = mset [0..<ch_calls h]"

definition draining_ok :: "'cb helper \<Rightarrow> bool" where
  "draining_ok h \<longleftrightarrow>
     (case drains (ch_stack h) of
        [] \<Rightarrow> \<not> ch_draining h \<and> (ch_closed h \<longrightarrow> ch_outstanding h = [])
      | ids # others \<Rightarrow> others = [] \<and> ch_draining h \<and> fst ` set (ch_outstanding h) \<subseteq> set ids)"

lemma mset_delete:
  "distinct (map fst xs) \<Longrightarrow> map_of xs k = Some x \<Longrightarrow>
     mset (map f xs) = add_mset (f (k, x)) (mset (map f (AList.delete k xs)))"
proof (induction xs)
  case (Cons a xs)
  then show ?case
  proof (cases "fst a = k")
    case True
    with Cons.prems have "AList.delete k xs = xs" by (intro delete_id) auto
    with True Cons.prems show ?thesis by (cases a) auto
  qed (cases a, auto)
qed simp

lemma set_delete: "set (AList.delete k xs) = {(i, x) \<in> set xs. i \<noteq> k}"
  by (auto simp: AList.delete_eq)

text \<open>An answered request leaves the dictionary together with its timer.\<close>

lemma retire_ok:
  assumes ok: "requests_ok h" and rq: "map_of (ch_outstanding h) i = Some rq"
    and h': "ch_outstanding h' = AList.delete i (ch_outstanding h)" "ch_timers h' = AList.delete (rq_timer rq) (ch_timers h)"
      "ch_counter h' = ch_counter h" "ch_next_timer h' = ch_next_timer h" "ch_calls h' = ch_calls h"
      "answered (ch_events h') = answered (ch_events h) @ [rq_call rq]"
  shows "requests_ok h'"
proof -
  have d: "distinct (map fst (ch_outstanding h))" using ok by (simp add: requests_ok_def)
  have ts: "timers_set (ch_timers h) (ch_next_timer h) (ch_outstanding h)" using ok by (simp add: requests_ok_def)
  have inj: "(rq_timer rq, j) \<in> set (ch_timers h) \<Longrightarrow> j = i" for j
  proof -
    assume j: "(rq_timer rq, j) \<in> set (ch_timers h)"
    from ts map_of_SomeD [OF rq] have "(rq_timer rq, i) \<in> set (ch_timers h)" by (force simp: timers_set_def)
    with j ts show "j = i" unfolding timers_set_def by (blast dest: eq_key_imp_eq_value)
  qed
  have uniq: "(i, x) \<in> set (ch_outstanding h) \<Longrightarrow> x = rq" for x
    using rq d by (auto dest: map_of_is_SomeI)
  have "set (AList.delete (rq_timer rq) (ch_timers h)) =
      (\<lambda>(i, rq). (rq_timer rq, i)) ` set (AList.delete i (ch_outstanding h))" (is "?L = ?R")
  proof
    show "?L \<subseteq> ?R" using ts uniq by (fastforce simp: timers_set_def set_delete)
    show "?R \<subseteq> ?L"
    proof
      fix x assume "x \<in> ?R"
      then obtain j q where x: "x = (rq_timer q, j)" "(j, q) \<in> set (ch_outstanding h)" "j \<noteq> i" by (auto simp: set_delete)
      from ts have "set (ch_timers h) = (\<lambda>(i, rq). (rq_timer rq, i)) ` set (ch_outstanding h)"
        by (simp only: timers_set_def)
      with x(2) have "(rq_timer q, j) \<in> set (ch_timers h)" by force
      with x inj [of j] show "x \<in> ?L" by (auto simp: set_delete)
    qed
  qed
  moreover have "distinct (map fst (AList.delete (rq_timer rq) (ch_timers h)))"
    using ts by (simp add: timers_set_def distinct_delete)
  moreover have "\<forall>(t, i) \<in> set (AList.delete (rq_timer rq) (ch_timers h)). t < ch_next_timer h"
    using ts unfolding timers_set_def set_delete by blast
  ultimately have "timers_set (ch_timers h') (ch_next_timer h') (ch_outstanding h')"
    unfolding timers_set_def h' by blast
  moreover from ok have "mset (answered (ch_events h')) + mset (map (\<lambda>(i, rq). rq_call rq) (ch_outstanding h')) = mset [0..<ch_calls h']"
    using mset_delete [OF d rq, of "\<lambda>(i, rq). rq_call rq"] by (simp add: requests_ok_def h')
  ultimately show ?thesis using ok d by (auto simp: requests_ok_def h' set_delete distinct_delete)
qed

lemma progress_fields [simp]:
  "ch_outstanding (progress h) = ch_outstanding h" "ch_timers (progress h) = ch_timers h"
  "ch_counter (progress h) = ch_counter h" "ch_next_timer (progress h) = ch_next_timer h"
  "ch_calls (progress h) = ch_calls h" "answered (ch_events (progress h)) = answered (ch_events h)"
  "ch_stack (progress h) = ch_stack h" "ch_draining (progress h) = ch_draining h" "ch_closed (progress h) = ch_closed h"
  by (simp_all add: progress_def)

lemma deliver_fields [simp]:
  "ch_outstanding (deliver n p cb r h) = ch_outstanding h" "ch_timers (deliver n p cb r h) = ch_timers h"
  "ch_counter (deliver n p cb r h) = ch_counter h" "ch_next_timer (deliver n p cb r h) = ch_next_timer h"
  "ch_calls (deliver n p cb r h) = ch_calls h" "answered (ch_events (deliver n p cb r h)) = answered (ch_events h) @ [n]"
  "drains (ch_stack (deliver n p cb r h)) = drains (ch_stack h)" "ch_draining (deliver n p cb r h) = ch_draining h"
  "ch_closed (deliver n p cb r h) = ch_closed h"
  by (simp_all add: deliver_def Let_def)

lemma progress_ok: "requests_ok h \<Longrightarrow> requests_ok (progress h)"
  by (simp add: requests_ok_def)

lemma got_contents_ok: "requests_ok h \<Longrightarrow> requests_ok (clipboard_got_contents i r h)"
  by (cases r) (auto simp: clipboard_got_contents_def Let_def progress_ok intro: retire_ok split: option.split)

lemma timer_of_request:
  assumes "requests_ok h" "map_of (ch_timers h) t = Some i"
  obtains rq where "map_of (ch_outstanding h) i = Some rq" "rq_timer rq = t"
proof -
  from assms have "(t, i) \<in> (\<lambda>(i, rq). (rq_timer rq, i)) ` set (ch_outstanding h)"
    by (auto simp: requests_ok_def timers_set_def dest: map_of_SomeD)
  then obtain rq where "(i, rq) \<in> set (ch_outstanding h)" "rq_timer rq = t" by auto
  with that assms(1) show thesis by (simp add: requests_ok_def)
qed

lemma timeout_ok:
  assumes ok: "requests_ok h" and t: "map_of (ch_timers h) t = Some i"
  shows "requests_ok (timeout_request i (h\<lparr>ch_timers := AList.delete t (ch_timers h)\<rparr>))"
proof -
  obtain rq where "map_of (ch_outstanding h) i = Some rq" "rq_timer rq = t" using timer_of_request [OF ok t] .
  then show ?thesis using ok by (auto simp: timeout_request_def Let_def intro: retire_ok)
qed

lemma answer_at_once:
  "requests_ok h \<Longrightarrow> requests_ok (deliver (ch_calls h) p cb r (h\<lparr>ch_calls := ch_calls h + 1, ch_asked := cbs\<rparr>))"
  by (simp add: requests_ok_def)

lemma register_ok:
  assumes "requests_ok h" "rq_timer rq = ch_next_timer h" "rq_call rq = ch_calls h"
  shows "requests_ok (h\<lparr>ch_calls := Suc (ch_calls h), ch_asked := cbs, ch_counter := ch_counter h + 1, ch_next_timer := Suc (ch_next_timer h),
    ch_timers := ch_timers h @ [(ch_next_timer h, ch_counter h)],
    ch_outstanding := ch_outstanding h @ [(ch_counter h, rq)]\<rparr>)"
  using assms by (fastforce simp: requests_ok_def timers_set_def)

lemma request_ok: "requests_ok h \<Longrightarrow> requests_ok (snd (send_clipboard_request te se selection target cb h))"
proof -
  assume ok: "requests_ok h"
  define rq where "rq = \<lparr>rq_timer = ch_next_timer h, rq_selection = selection, rq_target = target,
    rq_callback = cb, rq_call = ch_calls h\<rparr>"
  define cbs where "cbs = ch_asked h @ [cb]"
  define h1 where "h1 = progress (h\<lparr>ch_calls := Suc (ch_calls h), ch_asked := cbs, ch_counter := ch_counter h + 1, ch_next_timer := Suc (ch_next_timer h),
    ch_timers := ch_timers h @ [(ch_next_timer h, ch_counter h)],
    ch_outstanding := ch_outstanding h @ [(ch_counter h, rq)]\<rparr>)"
  have "requests_ok h1" unfolding h1_def by (intro progress_ok register_ok [OF ok]) (simp_all add: rq_def)
  moreover from this have "requests_ok (h1\<lparr>ch_events := ch_events h1 @ [Sent i remote target]\<rparr>)" for i remote
    by (simp add: requests_ok_def)
  moreover from ok have "requests_ok (deliver (ch_calls h) p cb r (h\<lparr>ch_calls := Suc (ch_calls h), ch_asked := cbs, ch_counter := k\<rparr>))"
    if "ch_counter h \<le> k" for p r k
    using that by (fastforce simp: requests_ok_def)
  ultimately show ?thesis using ok answer_at_once [OF ok, of _ cb nothing cbs]
    by (auto simp: send_clipboard_request_def Let_def got_contents_ok h1_def [symmetric] rq_def [symmetric] cbs_def [symmetric] split: option.split)
qed

lemma shrink_draining:
  assumes "draining_ok h" "set (ch_outstanding h') \<subseteq> set (ch_outstanding h)" "drains (ch_stack h') = drains (ch_stack h)"
    "ch_draining h' = ch_draining h" "ch_closed h' = ch_closed h"
  shows "draining_ok h'"
  using assms by (auto simp: draining_ok_def split: list.splits)

lemma got_contents_fields [simp]:
  "drains (ch_stack (clipboard_got_contents i r h)) = drains (ch_stack h)"
  "ch_draining (clipboard_got_contents i r h) = ch_draining h" "ch_closed (clipboard_got_contents i r h) = ch_closed h"
  by (cases r; auto simp: clipboard_got_contents_def Let_def split: option.splits)+

lemma idle_draining: "drains (ch_stack h) = [] \<Longrightarrow> \<not> ch_draining h \<Longrightarrow> \<not> ch_closed h \<Longrightarrow> draining_ok h"
  by (simp add: draining_ok_def)

lemma got_contents_draining: "draining_ok h \<Longrightarrow> draining_ok (clipboard_got_contents i r h)"
  by (erule shrink_draining) (cases r; auto simp: clipboard_got_contents_def Let_def set_delete split: option.splits)+

lemma timeout_draining:
  "draining_ok h \<Longrightarrow> draining_ok (timeout_request i (h\<lparr>ch_timers := ts\<rparr>))"
  by (erule shrink_draining) (auto simp: timeout_request_def Let_def set_delete split: option.splits)

lemma request_draining: "draining_ok h \<Longrightarrow> draining_ok (snd (send_clipboard_request te se selection target cb h))"
proof (cases "ch_draining h \<or> ch_closed h")
  case True
  moreover assume "draining_ok h"
  ultimately show ?thesis
    by (auto simp: send_clipboard_request_def Let_def elim: shrink_draining)
next
  case False
  moreover assume "draining_ok h"
  ultimately have "drains (ch_stack h) = []" by (auto simp: draining_ok_def split: list.splits)
  with False show ?thesis
    by (intro idle_draining) (auto simp: send_clipboard_request_def Let_def split: option.split)
qed

lemma cancel_ok:
  assumes "requests_ok h"
  shows "requests_ok (cancel_outstanding_requests h)"
  using assms by (simp add: cancel_outstanding_requests_def requests_ok_def)

lemma cancel_draining:
  assumes "ch_draining h \<longleftrightarrow> drains (ch_stack h) \<noteq> []" "ch_draining h \<Longrightarrow> draining_ok h"
  shows "draining_ok (cancel_outstanding_requests h)"
  using assms by (auto simp: cancel_outstanding_requests_def draining_ok_def)

lemma drain_next_ok:
  "requests_ok h \<Longrightarrow> requests_ok (drain_next ids rest h)"
  by (auto simp: drain_next_def Let_def split: list.split intro!: got_contents_ok)
    (auto simp: requests_ok_def)

lemma drain_next_draining:
  assumes "draining_ok h" "ch_stack h = Drain ids # rest"
  shows "draining_ok (drain_next ids rest h)"
proof (cases ids)
  case Nil
  with assms show ?thesis by (auto simp: drain_next_def draining_ok_def split: list.splits)
next
  case (Cons i ids')
  let ?h = "h\<lparr>ch_stack := Drain ids' # rest\<rparr>"
  from assms Cons have d: "drains rest = []" "ch_draining h" "fst ` set (ch_outstanding h) \<subseteq> insert i (set ids')"
    by (auto simp: draining_ok_def)
  show ?thesis
  proof (cases "map_of (ch_outstanding h) i")
    case None
    then have "i \<notin> fst ` set (ch_outstanding h)" by (simp add: map_of_eq_None_iff)
    with d have "draining_ok ?h" by (auto simp: draining_ok_def)
    with None Cons show ?thesis by (simp add: drain_next_def)
  next
    case (Some rq)
    with d Cons show ?thesis
      by (auto simp: drain_next_def draining_ok_def clipboard_got_contents_def Let_def set_delete)
  qed
qed

lemma hstep_requests: "hstep h h' \<Longrightarrow> requests_ok h \<Longrightarrow> requests_ok h'"
proof (induction rule: hstep.induct)
  case (Cleanup h)
  then have "requests_ok (h\<lparr>ch_closed := True, ch_stack := AfterCleanup # ch_stack h\<rparr>)" by (simp add: requests_ok_def)
  then show ?case unfolding cleanup_helper_def by (rule cancel_ok)
qed (auto simp: request_ok client_reset_def cancel_ok got_contents_ok timeout_ok drain_next_ok,
     auto simp: requests_ok_def after_cleanup_def)

lemma draining_stack: "draining_ok h \<Longrightarrow> ch_draining h \<longleftrightarrow> drains (ch_stack h) \<noteq> []"
  by (auto simp: draining_ok_def split: list.splits)

lemma hstep_draining: "hstep h h' \<Longrightarrow> draining_ok h \<Longrightarrow> draining_ok h'"
proof (induction rule: hstep.induct)
  case (Cleanup h)
  show ?case unfolding cleanup_helper_def
    using draining_stack [OF Cleanup(2)] Cleanup(2) by (intro cancel_draining) (auto simp: draining_ok_def split: list.splits)
next
  case (Reset h)
  then show ?case using draining_stack [OF Reset(2)] by (auto simp: client_reset_def intro: cancel_draining)
next
  case (Return h rest)
  from Return(2) show ?case by (rule shrink_draining) (simp_all add: Return(1))
next
  case (Cleaned h rest)
  from Cleaned(2) show ?case by (rule shrink_draining) (simp_all add: after_cleanup_def Cleaned(1))
qed (auto simp: request_draining got_contents_draining timeout_draining drain_next_draining)

abbreviation helper_run where "helper_run \<equiv> hstep\<^sup>*\<^sup>*"

lemma run_ok:
  assumes "helper_run (new_helper proxies to_remote) h"
  shows "requests_ok h \<and> draining_ok h"
  using assms
proof (induction rule: rtranclp_induct)
  case base
  show ?case by (simp add: new_helper_def requests_ok_def timers_set_def draining_ok_def)
next
  case (step h h')
  then show ?case using hstep_requests hstep_draining by blast
qed

section \<open>Answers go to whoever asked\<close>

definition receiver_ok :: "'cb option \<Rightarrow> 'cb receiver \<Rightarrow> bool" where
  "receiver_ok cb receiver \<longleftrightarrow>
     (case cb of Some c \<Rightarrow> receiver = ToCallback c | None \<Rightarrow> (\<forall>c. receiver \<noteq> ToCallback c))"

definition answers_ok :: "'cb helper \<Rightarrow> bool" where
  "answers_ok h \<longleftrightarrow>
     length (ch_asked h) = ch_calls h \<and>
     (\<forall>(i, rq) \<in> set (ch_outstanding h). rq_call rq < ch_calls h \<and> ch_asked h ! rq_call rq = rq_callback rq) \<and>
     (\<forall>n receiver r. Answered n receiver r \<in> set (ch_events h) \<longrightarrow>
        n < ch_calls h \<and> receiver_ok (ch_asked h ! n) receiver)"

lemma progress_answers [simp]: "answers_ok (progress h) = answers_ok h"
  by (simp add: answers_ok_def progress_def)

lemma stack_answers [simp]: "answers_ok (h\<lparr>ch_stack := stack\<rparr>) = answers_ok h"
  by (simp add: answers_ok_def)

lemma deliver_answers:
  assumes "answers_ok h" "n < ch_calls h" "ch_asked h ! n = cb"
  shows "answers_ok (deliver n p cb r h)"
proof -
  have "receiver_ok (ch_asked h ! n) (receiver_of cb p)"
    using assms(3) by (auto simp: receiver_ok_def receiver_of_def split: option.split)
  with assms(1, 2) have "answers_ok (h\<lparr>ch_events := ch_events h @ [Answered n (receiver_of cb p) r]\<rparr>)"
    unfolding answers_ok_def by auto
  then show ?thesis unfolding deliver_def Let_def by auto
qed

lemma retire_answers:
  "answers_ok h \<Longrightarrow> map_of (ch_outstanding h) i = Some rq \<Longrightarrow>
     rq_call rq < ch_calls h \<and> ch_asked h ! rq_call rq = rq_callback rq"
  by (auto simp: answers_ok_def dest: map_of_SomeD)

lemma timers_answers [simp]: "answers_ok (h\<lparr>ch_timers := ts\<rparr>) = answers_ok h"
  by (simp add: answers_ok_def)

lemma smaller_answers: "answers_ok h \<Longrightarrow> answers_ok (h\<lparr>ch_outstanding := AList.delete i (ch_outstanding h)\<rparr>)"
  by (auto simp: answers_ok_def set_delete)

lemma progress_asked [simp]: "ch_asked (progress h) = ch_asked h"
  by (simp add: progress_def)

lemma got_contents_answers:
  assumes ok: "answers_ok h"
  shows "answers_ok (clipboard_got_contents i r h)"
proof (cases "map_of (ch_outstanding h) i")
  case None
  with ok show ?thesis by (simp add: clipboard_got_contents_def)
next
  case (Some rq)
  with retire_answers [OF ok Some] ok show ?thesis
    by (cases r) (simp add: clipboard_got_contents_def Let_def deliver_answers smaller_answers)
qed

lemma timeout_answers:
  assumes ok: "answers_ok h"
  shows "answers_ok (timeout_request i h)"
proof (cases "map_of (ch_outstanding h) i")
  case None
  with ok show ?thesis by (simp add: timeout_request_def)
next
  case (Some rq)
  with retire_answers [OF ok Some] ok show ?thesis
    by (simp add: timeout_request_def Let_def deliver_answers smaller_answers)
qed

lemma asked_answers:
  "answers_ok h \<Longrightarrow> answers_ok (h\<lparr>ch_calls := Suc (ch_calls h), ch_asked := ch_asked h @ [cb]\<rparr>)"
  by (fastforce simp: answers_ok_def nth_append)

lemma asked_at [simp]: "length (ch_asked h) = ch_calls h \<Longrightarrow> (ch_asked h @ [cb]) ! ch_calls h = cb"
  by (simp add: nth_append)

lemma request_answers:
  assumes ok: "answers_ok h"
  shows "answers_ok (snd (send_clipboard_request te se selection target cb h))"
proof -
  let ?h = "h\<lparr>ch_calls := Suc (ch_calls h), ch_asked := ch_asked h @ [cb]\<rparr>"
  let ?h2 = "?h\<lparr>ch_counter := ch_counter h + 1\<rparr>"
  let ?rq = "\<lparr>rq_timer = ch_next_timer h, rq_selection = selection, rq_target = target, rq_callback = cb, rq_call = ch_calls h\<rparr>"
  let ?h3 = "?h2\<lparr>ch_next_timer := Suc (ch_next_timer h), ch_timers := ch_timers h @ [(ch_next_timer h, ch_counter h)],
    ch_outstanding := ch_outstanding h @ [(ch_counter h, ?rq)]\<rparr>"
  have len: "length (ch_asked h) = ch_calls h" using ok by (simp add: answers_ok_def)
  have 1: "answers_ok ?h" by (rule asked_answers [OF ok])
  then have 2: "answers_ok ?h2" by (simp add: answers_ok_def)
  then have 3: "answers_ok ?h3" using len by (simp add: answers_ok_def)
  have "answers_ok (deliver (ch_calls h) (Some selection) cb nothing ?h)" using 1 len by (intro deliver_answers) simp_all
  moreover have "answers_ok (deliver (ch_calls h) (Some selection) cb nothing ?h2)" using 2 len by (intro deliver_answers) simp_all
  moreover have "answers_ok (clipboard_got_contents (ch_counter h) nothing (progress ?h3))"
    using 3 by (intro got_contents_answers) simp
  moreover have "answers_ok (progress ?h3\<lparr>ch_events := ch_events (progress ?h3) @ [Sent i remote target]\<rparr>)" for i remote
    using 3 by (auto simp: answers_ok_def progress_def)
  ultimately show ?thesis using 3
    by (simp add: send_clipboard_request_def Let_def split: option.split)
qed

lemma hstep_answers: "hstep h h' \<Longrightarrow> answers_ok h \<Longrightarrow> answers_ok h'"
proof (induction rule: hstep.induct)
  case (Draining h ids rest)
  then have "answers_ok (h\<lparr>ch_stack := s\<rparr>)" for s by (simp add: answers_ok_def)
  then show ?case
    by (auto simp: drain_next_def Let_def intro: got_contents_answers split: list.split) (use Draining in \<open>simp add: answers_ok_def\<close>)
qed (auto simp: request_answers got_contents_answers timeout_answers smaller_answers,
     auto simp: answers_ok_def client_reset_def cleanup_helper_def cancel_outstanding_requests_def after_cleanup_def)

lemma run_answers: "helper_run (new_helper proxies to_remote) h \<Longrightarrow> answers_ok h"
  by (induction rule: rtranclp_induct) (auto simp: hstep_answers, simp add: new_helper_def answers_ok_def)

section \<open>Every request is answered once\<close>

lemma mset_upt_distinct: "mset xs + mset ys = mset [0..<n] \<Longrightarrow> distinct (xs @ ys) \<and> set xs \<union> set ys = {..<n}"
proof -
  assume "mset xs + mset ys = mset [0..<n]"
  then have "mset (xs @ ys) = mset [0..<n]" by simp
  then show ?thesis using mset_eq_imp_distinct_iff mset_eq_setD by (metis atLeast_upt distinct_upt set_append)
qed


lemma no_timers: "requests_ok h \<Longrightarrow> ch_outstanding h = [] \<Longrightarrow> ch_timers h = []"
  by (simp add: requests_ok_def timers_set_def)

lemma hstep_closed:
  "hstep h h' \<Longrightarrow> ch_closed h \<and> ch_outstanding h = [] \<Longrightarrow> ch_closed h' \<and> ch_outstanding h' = []"
proof (induction rule: hstep.induct)
  case (Request h te se selection target cb)
  then show ?case by (simp add: send_clipboard_request_def Let_def)
qed (auto simp: client_reset_def cleanup_helper_def cancel_outstanding_requests_def clipboard_got_contents_def
      timeout_request_def drain_next_def after_cleanup_def Let_def split: list.split)

lemma run_closed:
  "helper_run h h' \<Longrightarrow> ch_closed h \<and> ch_outstanding h = [] \<Longrightarrow> ch_closed h' \<and> ch_outstanding h' = []"
  by (induction rule: rtranclp_induct) (auto dest: hstep_closed)

text \<open>
  C23: Once the clean up was started and the callbacks that were running have returned, every request has
  been answered, none is outstanding, and no timer is left behind, even when callbacks have made requests,
  reset or cleaned up again meanwhile. It stays so.
\<close>

theorem cleanup_answers_everything:
  assumes "helper_run (new_helper proxies to_remote) h" "ch_closed h" "ch_stack h = []"
  shows "ch_outstanding h = [] \<and> ch_timers h = [] \<and> set (answered (ch_events h)) = {..<ch_calls h} \<and>
    distinct (answered (ch_events h)) \<and>
    (\<forall>h'. helper_run h h' \<longrightarrow> ch_closed h' \<and> ch_outstanding h' = [] \<and> ch_timers h' = [])"
proof -
  from run_ok [OF assms(1)] have ok: "requests_ok h" and "draining_ok h" by simp_all
  with assms(2, 3) have e: "ch_outstanding h = []" by (simp add: draining_ok_def)
  with ok have "mset (answered (ch_events h)) + mset [] = mset [0..<ch_calls h]" by (simp add: requests_ok_def)
  note answers = mset_upt_distinct [OF this]
  have "ch_closed h' \<and> ch_outstanding h' = [] \<and> ch_timers h' = []" if r: "helper_run h h'" for h'
    using run_closed [OF r] assms(2) e run_ok [OF rtranclp_trans [OF assms(1) r]] no_timers [of h'] by blast
  with answers e no_timers [OF ok e] show ?thesis by simp
qed

section \<open>At concrete inputs\<close>

text \<open>A request that the clean up answers, while its callback asks again and is answered at once.\<close>

definition demo_h0 :: "nat helper" where "demo_h0 = new_helper [[80]] []"
definition demo_h1 where "demo_h1 = snd (send_clipboard_request None None [80] [84] (Some 1) demo_h0)"
definition demo_h2 where "demo_h2 = cleanup_helper demo_h1"
definition demo_h3 where "demo_h3 = drain_next [0] [AfterCleanup] demo_h2"
definition demo_h4 where "demo_h4 = snd (send_clipboard_request None None [80] [84] (Some 2) demo_h3)"
definition demo_h5 where "demo_h5 = demo_h4\<lparr>ch_stack := [Callback, Drain [], AfterCleanup]\<rparr>"
definition demo_h6 where "demo_h6 = demo_h5\<lparr>ch_stack := [Drain [], AfterCleanup]\<rparr>"
definition demo_h7 where "demo_h7 = drain_next [] [AfterCleanup] demo_h6"
definition demo_h8 where "demo_h8 = after_cleanup [] demo_h7"

lemma demo_steps:
  "hstep demo_h0 demo_h1" "hstep demo_h1 demo_h2" "hstep demo_h2 demo_h3" "hstep demo_h3 demo_h4"
  "hstep demo_h4 demo_h5" "hstep demo_h5 demo_h6" "hstep demo_h6 demo_h7" "hstep demo_h7 demo_h8"
  subgoal unfolding demo_h1_def by (rule Request) code_simp
  subgoal unfolding demo_h2_def by (rule Cleanup) code_simp
  subgoal unfolding demo_h3_def by (rule Draining) code_simp
  subgoal unfolding demo_h4_def by (rule Request) code_simp
  subgoal unfolding demo_h5_def by (rule Return) code_simp
  subgoal unfolding demo_h6_def by (rule Return) code_simp
  subgoal unfolding demo_h7_def by (rule Draining) code_simp
  subgoal unfolding demo_h8_def by (rule Cleaned) code_simp
  done

lemma demo_reached: "helper_run (new_helper [[80]] []) demo_h1" "helper_run (new_helper [[80]] []) demo_h8"
  using demo_steps unfolding demo_h0_def [symmetric] by (auto intro: rtranclp.rtrancl_into_rtrancl)


theorem cleanup_answers_everything_witness:
  "answered (ch_events demo_h8) = [0, 1] \<and> set (answered (ch_events demo_h8)) = {..<2} \<and> ch_timers demo_h8 = []"
proof -
  have c: "ch_closed demo_h8" "ch_stack demo_h8 = []" by code_simp+
  have "ch_calls demo_h8 = 2" "answered (ch_events demo_h8) = [0, 1]" by code_simp+
  with cleanup_answers_everything [OF demo_reached(2) c] show ?thesis by simp
qed

end
