(* ===== verification/ClipboardTargets.thy ===== *)
theory ClipboardTargets
  imports TypeDict "HOL-Library.Sublist"
begin

text \<open>
  The names of the targets of a clipboard, which say what a selection can be converted to
  (\<^verbatim>\<open>src/xpra/clipboard/targets.py\<close>), and what both ends of the clipboard say of themselves
  (\<^verbatim>\<open>src/xpra/clipboard/common.py\<close>). The settings of the environment have their default values.
\<close>

section \<open>Names\<close>

definition text_of :: "string \<Rightarrow> pystr" where
  "text_of s = map (\<lambda>c. of_char c) s"

definition UTF8_TEXT_FALLBACK_TARGETS :: "pystr list" where
  "UTF8_TEXT_FALLBACK_TARGETS = map text_of [''text/csv'', ''text/tab-separated-values'', ''text/markdown'']"

definition TEXT_TARGETS :: "pystr list" where
  "TEXT_TARGETS = map text_of
     [''UTF8_STRING'', ''TEXT'', ''STRING'',
      ''text/plain;charset=utf-8'', ''text/plain;charset=UTF-8'',
      ''text/plain;charset=utf8'', ''text/plain;charset=UTF8'',
      ''text/plain; charset=utf-8'', ''text/plain; charset=UTF-8'', ''text/plain'',
      ''text/html'', ''text/html;charset=utf-8'', ''text/html;charset=UTF-8'',
      ''text/html; charset=utf-8'', ''text/html; charset=UTF-8''] @ UTF8_TEXT_FALLBACK_TARGETS"

definition HTML_TARGETS :: "pystr list" where
  "HTML_TARGETS = map text_of
     [''text/html'', ''text/html;charset=utf-8'', ''text/html;charset=UTF-8'',
      ''text/html; charset=utf-8'', ''text/html; charset=UTF-8'']"

definition URI_TARGETS :: "pystr list" where
  "URI_TARGETS = [text_of ''text/uri-list'']"

definition PLAIN_TEXT_TARGETS :: "pystr list" where
  "PLAIN_TEXT_TARGETS = filter (\<lambda>t. t \<notin> set HTML_TARGETS \<and> t \<notin> set URI_TARGETS) TEXT_TARGETS"

definition RTF_TARGETS :: "pystr list" where
  "RTF_TARGETS = map text_of [''text/rtf'', ''application/rtf'']"

definition EAGER_TARGETS :: "pystr list" where
  "EAGER_TARGETS = map text_of
     [''UTF8_STRING'', ''text/plain;charset=utf-8'', ''text/plain;charset=UTF-8'',
      ''text/plain;charset=utf8'', ''text/plain;charset=UTF8'',
      ''text/plain; charset=utf-8'', ''text/plain; charset=UTF-8'', ''text/plain'',
      ''text/html'', ''text/html;charset=utf-8'', ''text/html;charset=UTF-8'',
      ''text/html; charset=utf-8'', ''text/html; charset=UTF-8'', ''text/uri-list'', ''TEXT'', ''STRING''] @
     UTF8_TEXT_FALLBACK_TARGETS @ RTF_TARGETS @
     map text_of [''image/png'', ''image/jpeg'', ''image/webp'', ''image/bmp'', ''application/pdf'']"

section \<open>Patterns\<close>

text \<open>
  The regular expressions of the targets to discard, matched at the start of a name: characters, the dot,
  which is any character but a newline, and the dollar, which is the end or a newline before it.
\<close>

datatype pattern_item = Char int | Dot | Dollar

fun re_match :: "pattern_item list \<Rightarrow> pystr \<Rightarrow> bool" where
  "re_match [] s = True"
| "re_match (Dollar # ps) s = ((s = [] \<or> s = [10]) \<and> re_match ps s)"
| "re_match (Char c # ps) [] = False"
| "re_match (Char c # ps) (x # s) = (x = c \<and> re_match ps s)"
| "re_match (Dot # ps) [] = False"
| "re_match (Dot # ps) (x # s) = (x \<noteq> 10 \<and> re_match ps s)"

definition literally :: "string \<Rightarrow> pattern_item list" where
  "literally s = map Char (text_of s)"

definition DISCARD_EXTRA_TARGETS :: "pattern_item list list" where
  "DISCARD_EXTRA_TARGETS =
     [literally ''SAVE_TARGETS'' @ [Dollar], literally ''COMPOUND_TEXT'', literally ''GTK_TEXT_BUFFER_CONTENTS'']"

definition DISCARD_TARGETS :: "pattern_item list list" where
  "DISCARD_TARGETS =
     [literally ''NeXT'', literally ''com.apple.'', literally ''CorePasteboardFlavorType'', literally ''dyn.'',
      literally ''resource-transfer-format'', literally ''x-special/'',
      literally ''application/vnd'' @ [Dot] @ literally ''portal'' @ [Dot]]"

definition must_discard_extra :: "pystr \<Rightarrow> bool" where
  "must_discard_extra target \<longleftrightarrow> list_ex (\<lambda>p. re_match p target) DISCARD_EXTRA_TARGETS"

definition must_discard :: "pystr \<Rightarrow> bool" where
  "must_discard target \<longleftrightarrow> list_ex (\<lambda>p. re_match p target) DISCARD_TARGETS"

definition filter_targets :: "(pval \<Rightarrow> pystr) \<Rightarrow> pval list \<Rightarrow> pystr list" where
  "filter_targets str_of targets =
     filter (\<lambda>t. \<not> (must_discard t \<or> must_discard_extra t)) (map (bytestostr str_of) targets)"

section \<open>Text and the choice of targets\<close>

fun contains :: "pystr \<Rightarrow> pystr \<Rightarrow> bool" where
  "contains sub [] = (sub = [])"
| "contains sub (c # cs) = (prefix sub (c # cs) \<or> contains sub cs)"

text \<open>\<open>lower\<close> is \<^verbatim>\<open>str.lower\<close>. The fallback names have no capitals and no spaces.\<close>

definition is_utf8_target :: "(pystr \<Rightarrow> pystr) \<Rightarrow> pystr \<Rightarrow> bool" where
  "is_utf8_target lower target \<longleftrightarrow>
     (let name = filter (\<lambda>c. c \<noteq> 32) (lower target) in
      name = text_of ''utf8_string'' \<or> contains (text_of ''charset=utf-8'') name \<or>
      contains (text_of ''charset=utf8'') name \<or> name = text_of ''public.utf8-plain-text'' \<or>
      name \<in> set UTF8_TEXT_FALLBACK_TARGETS)"

text \<open>\<^verbatim>\<open>tuple(dict.fromkeys(xs))\<close>: the first of each.\<close>

definition fromkeys :: "'a list \<Rightarrow> 'a list" where
  "fromkeys xs = rev (remdups (rev xs))"

definition choose_eager_targets :: "pystr list \<Rightarrow> pystr list \<Rightarrow> pystr list" where
  "choose_eager_targets targets preferred_targets =
     (let available = fromkeys targets; preferred = fromkeys preferred_targets;
          supported = set (if preferred \<noteq> [] then preferred else available);
          eager = filter (\<lambda>t. t \<in> set available \<and> t \<in> supported) EAGER_TARGETS;
          common = filter (\<lambda>t. t \<in> set available) preferred in
      if eager \<noteq> [] then eager
      else if take 1 common \<noteq> [] then take 1 common else take 1 available)"

section \<open>Capabilities\<close>

text \<open>The size of an item of a format: \<open>sizeof_long\<close> is that of the C type of the platform.\<close>

definition get_format_size :: "int \<Rightarrow> int \<Rightarrow> int" where
  "get_format_size sizeof_long dformat = max 8 (if dformat = 32 then sizeof_long * 8 else dformat)"

definition parse_selection_capability ::
  "(pval \<Rightarrow> pystr) \<Rightarrow> (pystr \<Rightarrow> int result) \<Rightarrow> tdict \<Rightarrow> pystr \<Rightarrow> pystr list \<Rightarrow> pval list result" where
  "parse_selection_capability str_of text_int caps name selections =
     (let is_list = (case td_get name caps of
                       None \<Rightarrow> False
                     | Some v \<Rightarrow> (case unwrap v of PList _ \<Rightarrow> True | PTuple _ \<Rightarrow> True | _ \<Rightarrow> False)) in
      if is_list then strtupleget str_of text_int None None name [] caps
      else ebind (boolget name False caps) (\<lambda>b. Inr (if b then map PStr selections else [])))"

definition parse_want_targets where
  "parse_want_targets str_of text_int caps selections =
     parse_selection_capability str_of text_int caps (text_of ''want_targets'') selections"

definition parse_greedy where
  "parse_greedy str_of text_int caps selections =
     parse_selection_capability str_of text_int caps (text_of ''greedy'') selections"

section \<open>Facts\<close>

lemma set_fromkeys [simp]: "set (fromkeys xs) = set xs"
  by (simp add: fromkeys_def)

lemma distinct_fromkeys [simp]: "distinct (fromkeys xs)"
  by (simp add: fromkeys_def)

lemma eager_available: "set (choose_eager_targets targets preferred) \<subseteq> set targets"
  by (auto simp: choose_eager_targets_def Let_def dest: in_set_takeD split: if_splits)

text \<open>
  Unless nothing is available, something is chosen; and what is chosen is something that is preferred, as
  long as one of the preferred targets is available.
\<close>

lemma eager_something: "targets \<noteq> [] \<Longrightarrow> choose_eager_targets targets preferred \<noteq> []"
  by (auto simp: choose_eager_targets_def Let_def fromkeys_def)

lemma eager_preferred:
  assumes "set targets \<inter> set preferred \<noteq> {}"
  shows "set (choose_eager_targets targets preferred) \<subseteq> set preferred"
proof -
  from assms have "filter (\<lambda>t. t \<in> set targets) (fromkeys preferred) \<noteq> []"
    by (auto simp: filter_empty_conv)
  moreover have "fromkeys preferred \<noteq> []" using assms by (auto simp: fromkeys_def)
  ultimately show ?thesis
    by (auto simp: choose_eager_targets_def Let_def dest!: in_set_takeD split: if_splits)
qed

end
