(* ===== verification/ClipboardPrimary.thy ===== *)
theory ClipboardPrimary
  imports ClipboardTargets ClipboardRequests
begin

text \<open>
  The \<^verbatim>\<open>PRIMARY\<close> selection on the platforms that do not have one (\<^verbatim>\<open>src/xpra/clipboard/primary.py\<close>): a
  proxy that never sends, asks the peer for the contents some time after it was told of them, and saves
  them to the clipboard. It relies on each of its requests being answered exactly once, as
  \<open>ClipboardRequests\<close> shows, to know which answers to throw away.
\<close>

section \<open>The proxy\<close>

record primary =
  pm_enabled :: bool
  pm_can_send :: bool
  pm_can_receive :: bool
  pm_request_timer :: bool
  pm_pending :: int
  pm_stale :: int
  pm_got_tokens :: int
  pm_requests :: int
  pm_texts :: "pystr list"

definition init_primary :: primary where
  "init_primary = \<lparr>pm_enabled = False, pm_can_send = False, pm_can_receive = False, pm_request_timer = False,
     pm_pending = 0, pm_stale = 0, pm_got_tokens = 0, pm_requests = 0, pm_texts = []\<rparr>"

definition primary_set_direction :: "bool \<Rightarrow> bool \<Rightarrow> primary \<Rightarrow> primary" where
  "primary_set_direction can_send can_receive p = p\<lparr>pm_can_send := False, pm_can_receive := can_receive\<rparr>"

text \<open>
  The environment: \<^verbatim>\<open>str.lower\<close>, the decoder of UTF-8, and \<^verbatim>\<open>str()\<close>.
\<close>

record text_env =
  te_lower :: "pystr \<Rightarrow> pystr"
  te_unutf8 :: "bytes \<Rightarrow> pystr result"
  te_str :: "pval \<Rightarrow> pystr"

definition save_text :: "text_env \<Rightarrow> pystr \<Rightarrow> reply \<Rightarrow> primary \<Rightarrow> unit result \<times> primary" where
  "save_text e target r p =
     (let (dtype, dformat, data) = r in
      if dformat \<noteq> 8 \<or> \<not> py_bool data \<or> target \<notin> set PLAIN_TEXT_TARGETS then (Inr (), p)
      else
        (case (if is_utf8_target (te_lower e) dtype
               then (case data of PBytes b \<Rightarrow> te_unutf8 e b | _ \<Rightarrow> Inl AttributeError)
               else Inr (bytestostr (te_str e) data)) of
           Inl err \<Rightarrow> (Inl err, p)
         | Inr text \<Rightarrow> (Inr (), p\<lparr>pm_texts := pm_texts p @ [text]\<rparr>)))"

definition schedule_request :: "primary \<Rightarrow> primary" where
  "schedule_request p = (if pm_request_timer p then p else p\<lparr>pm_request_timer := True\<rparr>)"

definition cancel_request :: "primary \<Rightarrow> primary" where
  "cancel_request p =
     (let p = p\<lparr>pm_request_timer := False\<rparr> in p\<lparr>pm_stale := pm_stale p + pm_pending p, pm_pending := 0\<rparr>)"

text \<open>The handler of requests is called for the target \<^verbatim>\<open>UTF8_STRING\<close>, without a callback.\<close>

definition request_contents :: "primary \<Rightarrow> primary" where
  "request_contents p =
     (let p = p\<lparr>pm_request_timer := False\<rparr> in p\<lparr>pm_requests := pm_requests p + 1, pm_pending := pm_pending p + 1\<rparr>)"

definition primary_got_token :: "text_env \<Rightarrow> (pystr \<times> reply) list \<Rightarrow> primary \<Rightarrow> unit result \<times> primary" where
  "primary_got_token e target_data p =
     (let p = p\<lparr>pm_got_tokens := pm_got_tokens p + 1\<rparr> in
      if \<not> pm_enabled p \<or> \<not> pm_can_receive p then (Inr (), p)
      else if target_data = [] then (Inr (), schedule_request p)
      else
        let p = cancel_request p in
        case filter (\<lambda>t. map_of target_data t \<noteq> None) PLAIN_TEXT_TARGETS of
          [] \<Rightarrow> (Inr (), p)
        | target # _ \<Rightarrow> save_text e target (the (map_of target_data target)) p)"

definition primary_got_contents :: "text_env \<Rightarrow> pystr \<Rightarrow> reply \<Rightarrow> primary \<Rightarrow> unit result \<times> primary" where
  "primary_got_contents e target r p =
     (if pm_stale p > 0 then (Inr (), p\<lparr>pm_stale := pm_stale p - 1\<rparr>)
      else save_text e target r (p\<lparr>pm_pending := max 0 (pm_pending p - 1)\<rparr>))"

section \<open>Requests and answers\<close>

text \<open>
  The proxy with its requests that are not answered yet, oldest first, and whether each has been cancelled
  since. With \<open>ordered\<close> the answers come in the order of the requests.
\<close>

inductive pstep :: "bool \<Rightarrow> primary \<times> bool list \<Rightarrow> primary \<times> bool list \<Rightarrow> bool" for ordered where
  Enabled: "pstep ordered (p, flight) (p\<lparr>pm_enabled := b\<rparr>, flight)"
| Direction: "pstep ordered (p, flight) (primary_set_direction s r p, flight)"
| Told: "pstep ordered (p, flight) (snd (primary_got_token e [] p), flight)"
| Data: "pstep ordered (p, flight)
    (snd (primary_got_token e target_data p),
     if pm_enabled p \<and> pm_can_receive p then map (\<lambda>_. True) flight else flight)" if "target_data \<noteq> []"
| Fires: "pstep ordered (p, flight) (request_contents p, flight @ [False])" if "pm_request_timer p"
| Cancelled: "pstep ordered (p, flight) (cancel_request p, map (\<lambda>_. True) flight)"
| Answer: "pstep ordered (p, flight)
    (snd (primary_got_contents e (text_of ''UTF8_STRING'') r p), take k flight @ drop (Suc k) flight)"
    if "k < length flight" "ordered \<longrightarrow> k = 0"

abbreviation psteps where "psteps ordered \<equiv> (pstep ordered)\<^sup>*\<^sup>*"

definition counts_ok :: "bool \<Rightarrow> primary \<times> bool list \<Rightarrow> bool" where
  "counts_ok ordered = (\<lambda>(p, flight).
     0 \<le> pm_pending p \<and> 0 \<le> pm_stale p \<and> pm_pending p + pm_stale p = int (length flight) \<and>
     (ordered \<longrightarrow> flight = replicate (nat (pm_stale p)) True @ replicate (nat (pm_pending p)) False))"

lemma save_text_counts [simp]:
  "pm_pending (snd (save_text e t r p)) = pm_pending p" "pm_stale (snd (save_text e t r p)) = pm_stale p"
  by (auto simp: save_text_def Let_def split: prod.split sum.split)

lemma token_counts:
  "pm_pending (snd (primary_got_token e td p)) = (if pm_enabled p \<and> pm_can_receive p \<and> td \<noteq> [] then 0 else pm_pending p)"
  "pm_stale (snd (primary_got_token e td p)) =
     (if pm_enabled p \<and> pm_can_receive p \<and> td \<noteq> [] then pm_stale p + pm_pending p else pm_stale p)"
  by (auto simp: primary_got_token_def schedule_request_def cancel_request_def Let_def split: list.split)

lemma contents_counts:
  "pm_stale (snd (primary_got_contents e t r p)) = (if pm_stale p > 0 then pm_stale p - 1 else pm_stale p)"
  "pm_pending (snd (primary_got_contents e t r p)) =
     (if pm_stale p > 0 then pm_pending p else max 0 (pm_pending p - 1))"
  by (auto simp: primary_got_contents_def)

lemma all_cancelled:
  "counts_ok ordered (p, flight) \<Longrightarrow> pm_pending p' = 0 \<Longrightarrow> pm_stale p' = pm_stale p + pm_pending p \<Longrightarrow>
     counts_ok ordered (p', map (\<lambda>_. True) flight)"
  by (auto simp: counts_ok_def map_replicate_const)

lemma pstep_counts: "pstep ordered x y \<Longrightarrow> counts_ok ordered x \<Longrightarrow> counts_ok ordered y"
proof (induction rule: pstep.induct)
  case (Data target_data p flight e)
  then show ?case
    using all_cancelled [of ordered p flight "snd (primary_got_token e target_data p)"]
    by (auto simp: token_counts) (auto simp: counts_ok_def token_counts)
next
  case (Fires p flight)
  then show ?case by (auto simp: counts_ok_def request_contents_def Let_def nat_add_distrib replicate_append_same)
next
  case (Cancelled p flight)
  then show ?case by (auto simp: cancel_request_def Let_def intro!: all_cancelled)
next
  case (Answer k flight p e r)
  from Answer(3) have c: "0 \<le> pm_pending p" "0 \<le> pm_stale p" "pm_pending p + pm_stale p = int (length flight)"
    and o: "ordered \<Longrightarrow> flight = replicate (nat (pm_stale p)) True @ replicate (nat (pm_pending p)) False"
    by (simp_all add: counts_ok_def)
  have len: "int (length (take k flight @ drop (Suc k) flight)) = int (length flight) - 1" using Answer(1) by simp
  have first: "take k flight @ drop (Suc k) flight = tl flight" if ordered
    using that Answer(2) by (simp add: drop_Suc)
  show ?case
  proof (cases "pm_stale p > 0")
    case True
    have "tl flight = replicate (nat (pm_stale p - 1)) True @ replicate (nat (pm_pending p)) False" if ordered
      unfolding o [OF that] using True by (cases "nat (pm_stale p)") (auto simp: nat_diff_distrib)
    with True c len first show ?thesis by (simp add: counts_ok_def contents_counts)
  next
    case False
    with c Answer(1) have s: "pm_stale p = 0" "pm_pending p > 0" by linarith+
    have "tl flight = replicate (nat (pm_pending p - 1)) False" if ordered
      unfolding o [OF that] using s by (cases "nat (pm_pending p)") (auto simp: nat_diff_distrib)
    moreover from Answer(1) have "flight \<noteq> []" "max 0 (int (length flight) - 1) = int (length flight) - 1" by auto
    ultimately show ?thesis using s c len first by (simp add: counts_ok_def contents_counts)
  qed
qed (auto simp: counts_ok_def primary_set_direction_def token_counts)

lemma psteps_counts: "psteps ordered (init_primary, []) x \<Longrightarrow> counts_ok ordered x"
  by (induction rule: rtranclp_induct) (auto simp: pstep_counts, simp add: counts_ok_def init_primary_def)

text \<open>
  The two counters of the proxy add up to its requests that are not answered. As long as the answers
  come in the order of the requests, the answer to a request that was cancelled since changes nothing but
  the counter, and the answer to any other is saved as what it is.
\<close>

theorem primary_drops_stale_answers:
  assumes "psteps True (init_primary, []) (p, stale # flight)"
  shows "pm_pending p + pm_stale p = int (length (stale # flight)) \<and>
    primary_got_contents e target r p =
      (if stale then (Inr (), p\<lparr>pm_stale := pm_stale p - 1\<rparr>)
       else save_text e target r (p\<lparr>pm_pending := pm_pending p - 1\<rparr>))"
proof -
  from psteps_counts [OF assms] have c: "0 \<le> pm_pending p" "0 \<le> pm_stale p"
      "pm_pending p + pm_stale p = int (length (stale # flight))"
      "stale # flight = replicate (nat (pm_stale p)) True @ replicate (nat (pm_pending p)) False"
    by (simp_all add: counts_ok_def)
  have "stale \<longleftrightarrow> pm_stale p > 0"
    using c by (cases "nat (pm_stale p)"; cases "nat (pm_pending p)") auto
  moreover have "\<not> stale \<Longrightarrow> pm_pending p > 0" using c calculation by auto
  ultimately show ?thesis using c(3) by (simp add: primary_got_contents_def)
qed

section \<open>At concrete inputs\<close>

definition ascii_env :: text_env where
  "ascii_env = \<lparr>te_lower = map (\<lambda>c. if 65 \<le> c \<and> c \<le> 90 then c + 32 else c), te_unutf8 = (\<lambda>b. Inr (map uint b)),
     te_str = (\<lambda>_. [])\<rparr>"

text \<open>A proxy that was told twice and has asked twice; its first request was cancelled in between.\<close>

definition asked_again :: primary where
  "asked_again = request_contents (snd (primary_got_token ascii_env []
     (cancel_request (request_contents (snd (primary_got_token ascii_env []
       (primary_set_direction False True (init_primary\<lparr>pm_enabled := True\<rparr>))))))))"

lemma asked_again_reached: "psteps ordered (init_primary, []) (asked_again, [True, False])"
proof -
  let ?p1 = "init_primary\<lparr>pm_enabled := True\<rparr>"
  let ?p2 = "primary_set_direction False True ?p1"
  let ?p3 = "snd (primary_got_token ascii_env [] ?p2)"
  let ?p4 = "request_contents ?p3"
  let ?p5 = "cancel_request ?p4"
  let ?p6 = "snd (primary_got_token ascii_env [] ?p5)"
  have "pstep ordered (init_primary, []) (?p1, [])" by (rule Enabled)
  moreover have "pstep ordered (?p1, []) (?p2, [])" by (rule Direction)
  moreover have "pstep ordered (?p2, []) (?p3, [])" by (rule Told)
  moreover have "pstep ordered (?p3, []) (?p4, [] @ [False])" by (rule Fires) code_simp
  moreover have "pstep ordered (?p4, [False]) (?p5, map (\<lambda>_. True) [False])" by (rule Cancelled)
  moreover have "pstep ordered (?p5, [True]) (?p6, [True])" by (rule Told)
  moreover have "pstep ordered (?p6, [True]) (asked_again, [True] @ [False])"
    unfolding asked_again_def by (rule Fires) code_simp
  ultimately show ?thesis
    unfolding append_Nil append_Cons list.map by (meson r_into_rtranclp rtranclp.rtrancl_into_rtrancl)
qed

theorem primary_drops_stale_answers_witness:
  "primary_got_contents ascii_env (text_of ''UTF8_STRING'') (text_of ''UTF8_STRING'', 8, PBytes [79, 76, 68]) asked_again =
     (Inr (), asked_again\<lparr>pm_stale := 0\<rparr>)"
proof -
  have "pm_stale asked_again = 1" by code_simp
  with primary_drops_stale_answers [OF asked_again_reached, of ascii_env] show ?thesis by simp
qed

text \<open>
  Answers do not have to come in the order of the requests: a request that the peer does not answer is
  answered by its timer, long after the next one may have been. Then the new contents are thrown away, and
  when the old ones come after all, they are saved although their request was cancelled.
\<close>

lemma late_answer_saved:
  "let answer = (\<lambda>text p. snd (primary_got_contents ascii_env (text_of ''UTF8_STRING'')
                              (text_of ''UTF8_STRING'', 8, PBytes text) p));
       p = answer [79, 76, 68] (answer [78, 69, 87] asked_again) in
   pm_texts p = [[79, 76, 68]] \<and> pm_pending p = 0 \<and> pm_stale p = 0"
  by code_simp

end
