(* ===== verification/ClipboardProxy.thy ===== *)
theory ClipboardProxy
  imports ClipboardTargets "HOL-Library.AList"
begin

text \<open>
  The proxy of a selection (\<^verbatim>\<open>src/xpra/clipboard/proxy.py\<close>): when it tells the peer that its selection has a
  new owner, how it spaces these tokens out, and how it collects the contents that go with them. What a
  token needs from the toolkit is a parameter. Times are in milliseconds, as the code compares them.
\<close>

section \<open>State\<close>

text \<open>\<open>cp_emitted\<close> is not in the code: the tokens that were sent, with the back-off after each, the last first.\<close>

record cproxy =
  cp_selection :: pystr
  cp_enabled :: bool
  cp_have_token :: bool
  cp_origin :: pystr
  cp_can_send :: bool
  cp_can_receive :: bool
  cp_greedy :: bool
  cp_want_targets :: bool
  cp_blocked :: bool
  cp_last_emit :: int
  cp_timer :: bool
  cp_backoff :: int
  cp_due :: int
  cp_sent_tokens :: int
  cp_preferred :: "pystr list"
  cp_token_delay :: int
  cp_backoff_max :: int
  cp_emitted :: "(int \<times> int) list"

definition TOKEN_BACKOFF_RESET :: int where "TOKEN_BACKOFF_RESET = 1000"

definition MAX_CLIPBOARD_TOKEN_SIZE :: int where "MAX_CLIPBOARD_TOKEN_SIZE = 4 * 1024 * 1024"

definition new_proxy :: "pystr \<Rightarrow> int \<Rightarrow> int \<Rightarrow> cproxy" where
  "new_proxy selection token_delay backoff_max = \<lparr>cp_selection = selection, cp_enabled = False, cp_have_token = False,
     cp_origin = [], cp_can_send = False, cp_can_receive = False, cp_greedy = False, cp_want_targets = False,
     cp_blocked = False, cp_last_emit = 0, cp_timer = False, cp_backoff = 0, cp_due = 0, cp_sent_tokens = 0,
     cp_preferred = [], cp_token_delay = token_delay, cp_backoff_max = backoff_max, cp_emitted = []\<rparr>"

section \<open>Tokens\<close>

definition emit_token_scale :: "cproxy \<Rightarrow> int" where
  "emit_token_scale p = (if cp_want_targets p then 2 else 1) * (if cp_greedy p then 2 else 1)"

definition emit_token_delay :: "cproxy \<Rightarrow> int" where
  "emit_token_delay p =
     (if cp_token_delay p < 0 then 0
      else if cp_backoff p \<noteq> 0 then cp_backoff p else cp_token_delay p * emit_token_scale p)"

definition cancel_emit_token :: "cproxy \<Rightarrow> cproxy" where
  "cancel_emit_token p = p\<lparr>cp_due := 0, cp_timer := False\<rparr>"

text \<open>\<open>sent\<close> is what \<^verbatim>\<open>do_emit_token\<close> of the backend returns, and \<open>now\<close> the time when it has.\<close>

definition emit_token :: "int \<Rightarrow> bool \<Rightarrow> cproxy \<Rightarrow> cproxy" where
  "emit_token now sent p =
     (let p = p\<lparr>cp_timer := False, cp_due := 0, cp_blocked := True, cp_have_token := False\<rparr> in
      if \<not> sent then p
      else
        let p = p\<lparr>cp_last_emit := now, cp_sent_tokens := cp_sent_tokens p + 1\<rparr>;
            backoff = (if cp_backoff p * 2 \<noteq> 0 then cp_backoff p * 2 else cp_token_delay p * emit_token_scale p);
            p = (if cp_backoff_max p > 0 \<and> cp_token_delay p > 0
                 then p\<lparr>cp_backoff := min (cp_backoff_max p) backoff\<rparr> else p) in
        p\<lparr>cp_emitted := (now, cp_backoff p) # cp_emitted p\<rparr>)"

definition schedule_emit_token :: "int \<Rightarrow> int \<Rightarrow> int \<Rightarrow> bool \<Rightarrow> cproxy \<Rightarrow> cproxy" where
  "schedule_emit_token min_delay now later sent p =
     (let elapsed = now - cp_last_emit p;
          p = (if elapsed \<ge> TOKEN_BACKOFF_RESET then p\<lparr>cp_backoff := 0\<rparr> else p);
          delay = max min_delay (emit_token_delay p - elapsed);
          due = now + delay in
      if cp_timer p \<and> due \<ge> cp_due p then p
      else
        let p = (if cp_timer p then cancel_emit_token p else p) in
        if delay \<le> 0 then emit_token later sent p
        else p\<lparr>cp_due := due, cp_timer := True\<rparr>)"

definition do_owner_changed :: "int \<Rightarrow> int \<Rightarrow> bool \<Rightarrow> cproxy \<Rightarrow> cproxy" where
  "do_owner_changed now later sent p =
     (let p = p\<lparr>cp_origin := []\<rparr> in
      if \<not> cp_enabled p \<or> cp_blocked p then p
      else if cp_have_token p \<or> ((cp_greedy p \<or> cp_want_targets p) \<and> cp_can_send p)
      then schedule_emit_token 0 now later sent p
      else p)"

definition cancel_unblock :: "cproxy \<Rightarrow> cproxy" where
  "cancel_unblock p = p\<lparr>cp_blocked := False\<rparr>"

definition remove_block :: "cproxy \<Rightarrow> cproxy" where
  "remove_block p = p\<lparr>cp_blocked := False\<rparr>"

definition cleanup_proxy :: "cproxy \<Rightarrow> cproxy" where
  "cleanup_proxy p = cancel_unblock (cancel_emit_token (p\<lparr>cp_enabled := False\<rparr>))"

definition set_direction :: "bool \<Rightarrow> bool \<Rightarrow> cproxy \<Rightarrow> cproxy" where
  "set_direction can_send can_receive p = p\<lparr>cp_can_send := can_send, cp_can_receive := can_receive\<rparr>"

definition set_want_targets :: "bool \<Rightarrow> cproxy \<Rightarrow> cproxy" where
  "set_want_targets want p = p\<lparr>cp_want_targets := want\<rparr>"

definition set_enabled :: "bool \<Rightarrow> cproxy \<Rightarrow> cproxy" where
  "set_enabled enabled p = p\<lparr>cp_enabled := enabled\<rparr>"

definition set_greedy_client :: "bool \<Rightarrow> cproxy \<Rightarrow> cproxy" where
  "set_greedy_client greedy p = p\<lparr>cp_greedy := greedy\<rparr>"

definition set_preferred_targets :: "pystr list \<Rightarrow> cproxy \<Rightarrow> cproxy" where
  "set_preferred_targets targets p = p\<lparr>cp_preferred := targets\<rparr>"

definition get_eager_targets :: "pystr list \<Rightarrow> cproxy \<Rightarrow> pystr list" where
  "get_eager_targets targets p = choose_eager_targets targets (cp_preferred p)"

section \<open>Collecting contents\<close>

definition contents_size :: "(pystr \<Rightarrow> bytes result) \<Rightarrow> int \<Rightarrow> int \<Rightarrow> pval \<Rightarrow> int result" where
  "contents_size utf8 sizeof_long dformat data =
     (case data of
        PStr s \<Rightarrow> ebind (utf8 s) (\<lambda>b. Inr (int (length b)))
      | PBuffer b \<Rightarrow> Inr (int (length b))
      | PBytes b \<Rightarrow> Inr (int (length b))
      | _ \<Rightarrow> ebind (py_len data) (\<lambda>n. Inr (int n * get_format_size sizeof_long dformat div 8)))"

type_synonym reply = "pystr \<times> int \<times> pval"

text \<open>
  \<open>get\<close> is the answer to the request for each target, and \<open>valid\<close> what each call of \<^verbatim>\<open>request_valid\<close>
  returns, by its number: when the request is no longer valid, nobody is called back, which is \<open>None\<close>.
\<close>

fun collect_next ::
  "(pystr \<Rightarrow> bytes result) \<Rightarrow> int \<Rightarrow> (nat \<Rightarrow> bool) \<Rightarrow> (pystr \<Rightarrow> reply) \<Rightarrow> int \<Rightarrow> nat \<Rightarrow> pystr list \<Rightarrow>
   (pystr \<times> reply) list \<Rightarrow> int \<Rightarrow> (pystr \<times> reply) list option result" where
  "collect_next utf8 sl valid get max_size n [] got so_far = Inr (if valid n then Some got else None)"
| "collect_next utf8 sl valid get max_size n (target # pending) got so_far =
     (if \<not> valid n then Inr None
      else if \<not> valid (n + 1) then Inr None
      else
        let (dtype, dformat, data) = get target in
        if dtype \<noteq> [] \<and> dformat \<noteq> 0 \<and> py_bool data then
          ebind (contents_size utf8 sl dformat data) (\<lambda>size.
            if max_size \<le> 0 \<or> so_far + size \<le> max_size
            then collect_next utf8 sl valid get max_size (n + 2) pending (got @ [(target, dtype, dformat, data)]) (so_far + size)
            else collect_next utf8 sl valid get max_size (n + 2) pending got so_far)
        else collect_next utf8 sl valid get max_size (n + 2) pending got so_far)"

definition collect_contents where
  "collect_contents utf8 sl valid get max_size targets =
     collect_next utf8 sl valid get max_size 0 (fromkeys targets) [] 0"

section \<open>Tokens are spaced out\<close>

text \<open>
  What can happen to a proxy, with the clock: its settings change, the selection changes hands, the timer
  goes off when it is due, and time passes. \<open>later\<close> is the time when the token is out. The tokens that
  \<^verbatim>\<open>send_tokens\<close> sends at once are not among the steps.
\<close>

inductive kstep :: "int \<times> cproxy \<Rightarrow> int \<times> cproxy \<Rightarrow> bool" where
  Later: "kstep (now, p) (now', p)" if "now \<le> now'"
| Owner: "kstep (now, p) (later, do_owner_changed now later sent p)" if "now \<le> later"
| Schedule: "kstep (now, p) (later, schedule_emit_token min_delay now later sent p)" if "now \<le> later"
| Fires: "kstep (now, p) (later, emit_token later sent p)" if "cp_timer p" "cp_due p \<le> now" "now \<le> later"
| Cancelled: "kstep (now, p) (now, cancel_emit_token p)"
| Unblocked: "kstep (now, p) (now, remove_block p)"
| Cleaned: "kstep (now, p) (now, cleanup_proxy p)"
| Direction: "kstep (now, p) (now, set_direction s r p)"
| Targets: "kstep (now, p) (now, set_want_targets b p)"
| Enabled: "kstep (now, p) (now, set_enabled b p)"
| Greedy: "kstep (now, p) (now, set_greedy_client b p)"
| Preferred: "kstep (now, p) (now, set_preferred_targets ts p)"
| GotToken: "kstep (now, p) (now, p\<lparr>cp_have_token := b, cp_blocked := c, cp_origin := origin\<rparr>)"

abbreviation follows :: "int \<Rightarrow> int \<times> int \<Rightarrow> int \<times> int \<Rightarrow> bool" where
  "follows backoff_max \<equiv> \<lambda>(t', b') (t, b).
     t + min TOKEN_BACKOFF_RESET b \<le> t' \<and> (b' = min backoff_max (2 * b) \<or> t + TOKEN_BACKOFF_RESET \<le> t')"

definition token_ok :: "int \<Rightarrow> int \<Rightarrow> int \<times> cproxy \<Rightarrow> bool" where
  "token_ok td bm = (\<lambda>(now, p).
     cp_token_delay p = td \<and> cp_backoff_max p = bm \<and>
     successively (follows bm) (cp_emitted p) \<and> (\<forall>(t, b) \<in> set (cp_emitted p). min bm td \<le> b \<and> b \<le> bm) \<and>
     (case cp_emitted p of
        [] \<Rightarrow> cp_backoff p = 0
      | (t, b) # _ \<Rightarrow> cp_last_emit p = t \<and> t \<le> now \<and>
          (cp_backoff p = b \<or> cp_backoff p = 0 \<and> t + TOKEN_BACKOFF_RESET \<le> now) \<and>
          (cp_timer p \<longrightarrow> t + min TOKEN_BACKOFF_RESET b \<le> cp_due p)))"

lemma scale_bounds: "1 \<le> emit_token_scale p"
  by (simp add: emit_token_scale_def)

lemma scaled: "0 < td \<Longrightarrow> td \<le> td * emit_token_scale p"
  using scale_bounds [of p] by (simp add: mult_le_cancel_left1)

lemma emit_ok:
  assumes ok: "token_ok td bm (now, p)" and pos: "0 < td" "0 < bm" and "now \<le> later"
    and due: "\<And>t b rest. cp_emitted p = (t, b) # rest \<Longrightarrow> t + min TOKEN_BACKOFF_RESET b \<le> later"
  shows "token_ok td bm (later, emit_token later sent p)"
proof (cases sent)
  case False
  with ok \<open>now \<le> later\<close> show ?thesis by (auto simp: emit_token_def token_ok_def split: list.splits)
next
  case True
  show ?thesis
  proof (cases "cp_emitted p")
    case Nil
    with True ok pos scaled [of td p] show ?thesis
      by (auto simp: emit_token_def token_ok_def emit_token_scale_def Let_def)
  next
    case (Cons tb rest)
    obtain t b where tb: "tb = (t, b)" by (cases tb)
    with ok Cons pos have b: "min bm td \<le> b" "b \<le> bm" "0 < b" by (auto simp: token_ok_def)
    from ok Cons tb have grown: "cp_backoff p = b \<or> cp_backoff p = 0 \<and> t + TOKEN_BACKOFF_RESET \<le> now"
      by (simp add: token_ok_def)
    from due [of t b rest] Cons tb have "t + min TOKEN_BACKOFF_RESET b \<le> later" by simp
    with True ok pos Cons tb b grown \<open>now \<le> later\<close> scaled [of td p] show ?thesis
      by (auto simp: emit_token_def token_ok_def emit_token_scale_def Let_def mult.commute)
  qed
qed

lemma token_later: "token_ok td bm (now, p) \<Longrightarrow> now \<le> later \<Longrightarrow> token_ok td bm (later, p)"
  by (auto simp: token_ok_def split: list.splits)

lemma token_cancelled: "token_ok td bm (now, p) \<Longrightarrow> token_ok td bm (now, cancel_emit_token p)"
  by (auto simp: token_ok_def cancel_emit_token_def split: list.splits)

lemma token_reset:
  "token_ok td bm (now, p) \<Longrightarrow> now - cp_last_emit p \<ge> TOKEN_BACKOFF_RESET \<Longrightarrow> token_ok td bm (now, p\<lparr>cp_backoff := 0\<rparr>)"
  by (auto simp: token_ok_def split: list.splits)

text \<open>The deadline that is computed from the last token is far enough from it.\<close>

lemma due_far_enough:
  assumes ok: "token_ok td bm (now, p)" and pos: "0 < td" "0 < bm" and e: "cp_emitted p = (t, b) # rest"
  shows "t + min TOKEN_BACKOFF_RESET b \<le> now + max min_delay (emit_token_delay p - (now - cp_last_emit p)) \<or>
    t + min TOKEN_BACKOFF_RESET b \<le> now"
proof -
  from ok e pos have "0 < b" "cp_last_emit p = t" "cp_backoff p = b \<or> cp_backoff p = 0 \<and> t + TOKEN_BACKOFF_RESET \<le> now"
    "cp_token_delay p = td" by (auto simp: token_ok_def)
  with pos show ?thesis by (auto simp: emit_token_delay_def)
qed

lemma schedule_ok:
  assumes ok: "token_ok td bm (now, p)" and pos: "0 < td" "0 < bm" and l: "now \<le> later"
  shows "token_ok td bm (later, schedule_emit_token min_delay now later sent p)"
proof -
  define q where "q = (if now - cp_last_emit p \<ge> TOKEN_BACKOFF_RESET then p\<lparr>cp_backoff := 0\<rparr> else p)"
  define delay where "delay = max min_delay (emit_token_delay q - (now - cp_last_emit p))"
  define r where "r = (if cp_timer q then cancel_emit_token q else q)"
  have q: "token_ok td bm (now, q)" using ok token_reset by (simp add: q_def)
  then have r: "token_ok td bm (now, r)" using token_cancelled by (simp add: r_def)
  have same: "cp_last_emit q = cp_last_emit p" "cp_emitted r = cp_emitted q" by (simp_all add: q_def r_def cancel_emit_token_def)
  have result: "schedule_emit_token min_delay now later sent p =
      (if cp_timer q \<and> now + delay \<ge> cp_due q then q
       else if delay \<le> 0 then emit_token later sent r
       else r\<lparr>cp_due := now + delay, cp_timer := True\<rparr>)"
    by (simp add: schedule_emit_token_def Let_def q_def delay_def r_def)
  have far: "t + min TOKEN_BACKOFF_RESET b \<le> now + delay \<or> t + min TOKEN_BACKOFF_RESET b \<le> now"
    if "cp_emitted q = (t, b) # rest" for t b rest
    using due_far_enough [OF q pos that, of min_delay] by (simp add: delay_def same)
  show ?thesis
  proof (cases "cp_timer q \<and> now + delay \<ge> cp_due q")
    case True
    with q l show ?thesis by (simp add: result token_later)
  next
    case False
    show ?thesis
    proof (cases "delay \<le> 0")
      case True
      have "token_ok td bm (later, emit_token later sent r)"
        using far True l by (intro emit_ok [OF r pos l]) (fastforce simp: same)
      with False True show ?thesis by (auto simp: result)
    next
      case late: False
      have "token_ok td bm (now, r\<lparr>cp_due := now + delay, cp_timer := True\<rparr>)"
        using r far late by (fastforce simp: token_ok_def same split: list.splits)
      with False late l show ?thesis by (auto simp: result intro: token_later)
    qed
  qed
qed

lemma owner_ok:
  "token_ok td bm (now, p) \<Longrightarrow> 0 < td \<Longrightarrow> 0 < bm \<Longrightarrow> now \<le> later \<Longrightarrow>
     token_ok td bm (later, do_owner_changed now later sent p)"
proof -
  assume ok: "token_ok td bm (now, p)" and pos: "0 < td" "0 < bm" and l: "now \<le> later"
  from ok have "token_ok td bm (now, p\<lparr>cp_origin := []\<rparr>)" by (auto simp: token_ok_def split: list.splits)
  with pos l show ?thesis by (auto simp: do_owner_changed_def Let_def intro: schedule_ok token_later)
qed

lemma kstep_ok: "kstep x y \<Longrightarrow> token_ok td bm x \<Longrightarrow> 0 < td \<Longrightarrow> 0 < bm \<Longrightarrow> token_ok td bm y"
proof (induction rule: kstep.induct)
  case (Fires p now later sent)
  show ?case
  proof (rule emit_ok [OF Fires.prems Fires.hyps(3)])
    fix t b rest
    assume "cp_emitted p = (t, b) # rest"
    with Fires.prems(1) Fires.hyps show "t + min TOKEN_BACKOFF_RESET b \<le> later" by (auto simp: token_ok_def)
  qed
qed (auto simp: owner_ok schedule_ok token_later token_cancelled cleanup_proxy_def,
     auto simp: token_ok_def remove_block_def cancel_unblock_def cancel_emit_token_def set_direction_def
       set_want_targets_def set_enabled_def set_greedy_client_def set_preferred_targets_def split: list.splits)

lemma ksteps_ok: "kstep\<^sup>*\<^sup>* x y \<Longrightarrow> token_ok td bm x \<Longrightarrow> 0 < td \<Longrightarrow> 0 < bm \<Longrightarrow> token_ok td bm y"
  by (induction rule: rtranclp_induct) (auto intro: kstep_ok)

text \<open>
  C27: However often the selection changes, and whatever changes in between, a token follows the one before
  it by at least the back-off that this one has left, or by the time after which the back-off is reset; and
  the back-off doubles up to its maximum from token to token, unless this time has passed. It is never below
  the delay between tokens, unless the maximum is. So a selection that keeps changing sends ever fewer tokens.
  Only what asks for a token at once (\<^verbatim>\<open>send_tokens\<close>, at start-up and from a menu) is not spaced out.
\<close>

theorem tokens_back_off:
  assumes "kstep\<^sup>*\<^sup>* (start, new_proxy selection td bm) (now, p)" "0 < td" "0 < bm"
  shows "successively (follows bm) (cp_emitted p) \<and> (\<forall>(t, b) \<in> set (cp_emitted p). min bm td \<le> b \<and> b \<le> bm)"
proof -
  have "token_ok td bm (start, new_proxy selection td bm)" by (simp add: token_ok_def new_proxy_def)
  from ksteps_ok [OF assms(1) this assms(2, 3)] show ?thesis by (simp add: token_ok_def)
qed

text \<open>
  Scheduling a token never makes it later: the token goes out at once, or its timer is set for a time that
  is no later than it was, and no later than the spacing and the time that the application needs ask for.
\<close>

lemma schedule_never_postpones:
  "let q = (if now - cp_last_emit p \<ge> TOKEN_BACKOFF_RESET then p\<lparr>cp_backoff := 0\<rparr> else p);
       p' = schedule_emit_token min_delay now later sent p in
   (\<exists>r. p' = emit_token later sent r \<and> cp_emitted r = cp_emitted p) \<or>
   cp_timer p' \<and> cp_due p' \<le> now + max min_delay (emit_token_delay q - (now - cp_last_emit p)) \<and>
     (cp_timer p \<longrightarrow> cp_due p' \<le> cp_due p)"
proof -
  have "cp_emitted (cancel_emit_token r) = cp_emitted r" for r by (simp add: cancel_emit_token_def)
  then show ?thesis by (auto simp: schedule_emit_token_def Let_def)
qed

theorem tokens_back_off_witness:
  "let p = emit_token 5020 True (schedule_emit_token 0 5010 5010 True
             (schedule_emit_token 0 5000 5000 True (new_proxy [80] 20 1000))) in
   cp_emitted p = [(5020, 40), (5000, 20)] \<and> successively (follows 1000) (cp_emitted p)"
proof -
  let ?p0 = "new_proxy [80] 20 1000"
  let ?p1 = "schedule_emit_token 0 5000 5000 True ?p0"
  let ?p2 = "schedule_emit_token 0 5010 5010 True ?p1"
  let ?p3 = "emit_token 5020 True ?p2"
  have "kstep (5000, ?p0) (5000, ?p1)" by (rule Schedule) simp
  moreover have "kstep (5000, ?p1) (5010, ?p1)" by (rule Later) simp
  moreover have "kstep (5010, ?p1) (5010, ?p2)" by (rule Schedule) simp
  moreover have "kstep (5010, ?p2) (5020, ?p2)" by (rule Later) simp
  moreover have "kstep (5020, ?p2) (5020, ?p3)" by (rule Fires) code_simp+
  ultimately have "kstep\<^sup>*\<^sup>* (5000, ?p0) (5020, ?p3)"
    by (meson r_into_rtranclp rtranclp.rtrancl_into_rtrancl)
  from tokens_back_off [OF this] have "successively (follows 1000) (cp_emitted ?p3)" by simp
  moreover have "cp_emitted ?p3 = [(5020, 40), (5000, 20)]" by code_simp
  ultimately show ?thesis by simp
qed

section \<open>What is collected\<close>

definition total_size :: "(pystr \<Rightarrow> bytes result) \<Rightarrow> int \<Rightarrow> (pystr \<times> reply) list \<Rightarrow> int" where
  "total_size utf8 sl items =
     sum_list (map (\<lambda>(_, dtype, dformat, data). case contents_size utf8 sl dformat data of Inr n \<Rightarrow> n | Inl _ \<Rightarrow> 0) items)"

lemma total_size_snoc:
  "contents_size utf8 sl dformat data = Inr n \<Longrightarrow>
     total_size utf8 sl (items @ [(target, dtype, dformat, data)]) = total_size utf8 sl items + n"
  by (simp add: total_size_def)

lemma collect_next_items:
  assumes "collect_next utf8 sl valid get max_size n pending items so_far = Inr (Some result)"
    "so_far = total_size utf8 sl items" "0 < max_size \<longrightarrow> so_far \<le> max_size" "\<forall>(t, r) \<in> set items. r = get t"
  shows "(0 < max_size \<longrightarrow> total_size utf8 sl result \<le> max_size) \<and> (\<forall>(t, r) \<in> set result. r = get t) \<and>
    (\<exists>more. map fst result = map fst items @ more \<and> subseq more pending)"
  using assms
proof (induction pending arbitrary: n items so_far)
  case Nil
  then show ?case by (auto split: if_splits)
next
  case (Cons target pending)
  obtain dtype dformat data where g: "get target = (dtype, dformat, data)" by (cases "get target") auto
  from Cons.prems(1) have v: "valid n" "valid (n + 1)" by (auto split: if_splits)
  show ?case
  proof (cases "collect_next utf8 sl valid get max_size (n + 2) pending items so_far = Inr (Some result)")
    case True
    from Cons.IH [OF True Cons.prems(2-)] show ?thesis by auto
  next
    case False
    with Cons.prems(1) v g obtain size where size: "contents_size utf8 sl dformat data = Inr size"
      and fits: "max_size \<le> 0 \<or> so_far + size \<le> max_size"
      and rest: "collect_next utf8 sl valid get max_size (n + 2) pending (items @ [(target, dtype, dformat, data)])
        (so_far + size) = Inr (Some result)"
      by (auto simp: ebind_eq_Inr Let_def split: if_splits)
    from Cons.IH [OF rest] Cons.prems(2-) size fits g
    show ?thesis by (auto simp: total_size_snoc)
  qed
qed

text \<open>
  The contents that are collected for a token are those that the selection has answered with, each
  target once and in the order asked for, and together they are within the limit.
\<close>

theorem collected_within_limit:
  assumes "collect_contents utf8 sl valid get max_size targets = Inr (Some result)"
  shows "(0 < max_size \<longrightarrow> total_size utf8 sl result \<le> max_size) \<and> (\<forall>(t, r) \<in> set result. r = get t) \<and>
    subseq (map fst result) (fromkeys targets)"
  using collect_next_items [of utf8 sl valid get max_size 0 "fromkeys targets" "[]" 0 result] assms
  by (auto simp: collect_contents_def total_size_def)

theorem collected_within_limit_witness:
  "let get = (\<lambda>t. (t, 8, PBytes (replicate 3 65))) in
   collect_contents (\<lambda>_. Inl TypeError) 8 (\<lambda>_. True) get 7 [[1], [2], [1], [3]] = Inr (Some [([1], get [1]), ([2], get [2])]) \<and>
   total_size (\<lambda>_. Inl TypeError) 8 [([1], get [1]), ([2], get [2])] \<le> 7"
proof -
  let ?get = "\<lambda>t. (t, 8, PBytes (replicate 3 65))"
  let ?utf8 = "\<lambda>_. Inl TypeError"
  have "collect_contents ?utf8 8 (\<lambda>_. True) ?get 7 [[1], [2], [1], [3]] = Inr (Some [([1], ?get [1]), ([2], ?get [2])])"
    by code_simp
  from collected_within_limit [OF this] this show ?thesis by simp
qed

end
