(* ===== verification/ClipboardData.thy ===== *)
theory ClipboardData
  imports ClipboardProxy
begin

text \<open>
  The clipboard helper without its time-outs (\<^verbatim>\<open>src/xpra/clipboard/core.py\<close>): the selections and their names
  on both sides, the conversion of contents between what toolkits use and what travels, the limits on what is
  sent and received, the packets, and the origins by which tokens that come back are recognised.
\<close>

section \<open>Contents on the wire\<close>

text \<open>
  The environment: \<^verbatim>\<open>str()\<close>, \<^verbatim>\<open>int()\<close> of a text, the codecs of UTF-8, the size of the C type \<^verbatim>\<open>long\<close> and
  the byte order of the platform, whether it is a POSIX one, and whether a pattern matches the start of a text.
\<close>

record cenv =
  ce_str :: "pval \<Rightarrow> pystr"
  ce_int :: "pystr \<Rightarrow> int result"
  ce_utf8 :: "pystr \<Rightarrow> bytes result"
  ce_unutf8 :: "bytes \<Rightarrow> pystr result"
  ce_long :: nat
  ce_big :: bool
  ce_posix :: bool
  ce_match :: "pystr \<Rightarrow> pystr \<Rightarrow> bool"

definition native_bytes :: "bool \<Rightarrow> nat \<Rightarrow> int \<Rightarrow> bytes" where
  "native_bytes big k n = (if big then be_bytes k n else rev (be_bytes k n))"

definition native_int :: "bool \<Rightarrow> bytes \<Rightarrow> int" where
  "native_int big bs = (if big then be_int bs else be_int (rev bs))"

text \<open>\<^verbatim>\<open>struct.unpack\<close> and \<^verbatim>\<open>struct.pack\<close> of so many items of \<open>k\<close> bytes, in native order without padding.\<close>

fun chunks :: "nat \<Rightarrow> nat \<Rightarrow> bytes \<Rightarrow> bytes list" where
  "chunks k 0 bs = []"
| "chunks k (Suc n) bs = take k bs # chunks k n (drop k bs)"

definition struct_unpack :: "bool \<Rightarrow> nat \<Rightarrow> nat \<Rightarrow> bytes \<Rightarrow> int list result" where
  "struct_unpack big k n bs =
     (if length bs \<noteq> k * n then Inl StructError else Inr (map (native_int big) (chunks k n bs)))"

definition pack_item :: "bool \<Rightarrow> nat \<Rightarrow> pval \<Rightarrow> bytes result" where
  "pack_item big k v =
     (let pack = (\<lambda>n. if 0 \<le> n \<and> n < 256 ^ k then Inr (native_bytes big k n) else Inl StructError) in
      case v of PInt n \<Rightarrow> pack n | PIntEnum n \<Rightarrow> pack n | PBool b \<Rightarrow> pack (if b then 1 else 0) | _ \<Rightarrow> Inl StructError)"

definition struct_pack :: "bool \<Rightarrow> nat \<Rightarrow> pval list \<Rightarrow> bytes result" where
  "struct_pack big k vs = ebind (emap (pack_item big k) vs) (\<lambda>bss. Inr (concat bss))"

text \<open>\<^verbatim>\<open>data[:n]\<close>, for what can be sliced.\<close>

fun cut_data :: "nat \<Rightarrow> pval \<Rightarrow> pval result" where
  "cut_data n (PStr s) = Inr (PStr (take n s))"
| "cut_data n (PBytes b) = Inr (PBytes (take n b))"
| "cut_data n (PBuffer b) = Inr (PBuffer (take n b))"
| "cut_data n (PList xs) = Inr (PList (take n xs))"
| "cut_data n (PTuple xs) = Inr (PTuple (take n xs))"
| "cut_data n v = Inl TypeError"

text \<open>The policy on the size: what may be kept, and how much is cut off.\<close>

definition limit_data :: "cenv \<Rightarrow> int \<Rightarrow> int \<Rightarrow> pval \<Rightarrow> (pval \<times> int) result" where
  "limit_data e max_size dformat data =
     (if max_size \<le> 0 then Inr (data, 0)
      else ebind (py_len data) (\<lambda>n.
        let max_len = max_size * 8 div get_format_size (int (ce_long e)) dformat in
        if int n > max_len then ebind (cut_data (nat max_len) data) (\<lambda>kept. Inr (kept, int n - max_len))
        else Inr (data, 0)))"

definition UNMARSHALLABLE :: "pystr list" where
  "UNMARSHALLABLE = map text_of [''WINDOW'', ''PIXMAP'', ''BITMAP'', ''DRAWABLE'', ''PIXEL'', ''COLORMAP'']"

text \<open>
  The filters are patterns of text, and to match one with bytes raises \<^verbatim>\<open>TypeError\<close>.
\<close>

fun filtered :: "cenv \<Rightarrow> pystr list \<Rightarrow> pval \<Rightarrow> bool result" where
  "filtered e [] data = Inr False"
| "filtered e (x # xs) data =
     (case data of
        PStr s \<Rightarrow> if ce_match e x s then Inr True else filtered e xs data
      | _ \<Rightarrow> Inl TypeError)"

definition bytes_like :: "pval \<Rightarrow> bytes result" where
  "bytes_like v = (case v of PBytes b \<Rightarrow> Inr b | PBuffer b \<Rightarrow> Inr b | _ \<Rightarrow> Inl TypeError)"

text \<open>\<^verbatim>\<open>len(data or "")\<close>, which is logged: data without a length raises an exception there.\<close>

definition logged_len :: "pval \<Rightarrow> nat result" where
  "logged_len data = (if py_bool data then py_len data else Inr 0)"

lemma logged_len_sized [simp]:
  "logged_len (PBytes b) = Inr (length b)" "logged_len (PTuple xs) = Inr (length xs)"
  by (simp_all add: logged_len_def py_bool_def)

text \<open>The encoding and the data; an empty encoding says that there is nothing to send.\<close>

definition do_munge_raw_selection_to_wire ::
  "cenv \<Rightarrow> pystr list \<Rightarrow> pystr \<Rightarrow> int \<Rightarrow> pval \<Rightarrow> (pystr \<times> pval) result" where
  "do_munge_raw_selection_to_wire e filters dtype dformat data = ebind (logged_len data) (\<lambda>_.
      if dformat = 32 then
        if dtype \<in> {text_of ''ATOM'', text_of ''ATOM_PAIR''} \<and> ce_posix e then Inr ([], PTuple [])
        else
          ebind (py_len data) (\<lambda>n. ebind (bytes_like data) (\<lambda>b.
            ebind (struct_unpack (ce_big e) (ce_long e) (n div ce_long e) b) (\<lambda>ints.
              Inr (text_of ''integers'', PTuple (map PInt ints)))))
      else if dformat = 16 then
        ebind (py_len data) (\<lambda>n. ebind (bytes_like data) (\<lambda>b.
          ebind (struct_unpack (ce_big e) 2 (n div 2) b) (\<lambda>ints.
            Inr (text_of ''integers'', PTuple (map PInt ints)))))
      else if dformat = 8 then
        ebind (filtered e filters data) (\<lambda>drop. Inr (if drop then ([], PTuple []) else (text_of ''bytes'', data)))
      else Inr ([], PTuple []))"

definition remote_targets :: "cenv \<Rightarrow> pval list \<Rightarrow> pystr list" where
  "remote_targets e targets = filter_targets (ce_str e) targets"

definition munge_raw_selection_to_wire ::
  "cenv \<Rightarrow> int \<Rightarrow> pystr list \<Rightarrow> pystr \<Rightarrow> pystr \<Rightarrow> int \<Rightarrow> pval \<Rightarrow> (pystr \<times> pval) result" where
  "munge_raw_selection_to_wire e max_send filters target dtype dformat data =
     ebind (limit_data e max_send dformat data) (\<lambda>(data, _).
       if dtype \<in> set UNMARSHALLABLE then ebind (logged_len data) (\<lambda>_. Inr ([], PTuple []))
       else
         (case (if target = text_of ''TARGETS'' \<and> dtype = text_of ''ATOM''
                then (case data of PTuple xs \<Rightarrow> Some xs | PList xs \<Rightarrow> Some xs | _ \<Rightarrow> None) else None) of
            Some xs \<Rightarrow> Inr (text_of ''atoms'', PTuple (map PStr (remote_targets e xs)))
          | None \<Rightarrow> do_munge_raw_selection_to_wire e filters dtype dformat data))"

definition munge_wire_selection_to_raw ::
  "cenv \<Rightarrow> int \<Rightarrow> pystr \<Rightarrow> int \<Rightarrow> pval \<Rightarrow> pval result" where
  "munge_wire_selection_to_raw e max_receive encoding dformat data =
     ebind (logged_len data) (\<lambda>_. ebind (limit_data e max_receive dformat data) (\<lambda>(data, _).
       let data = (case data of PBuffer b \<Rightarrow> if b \<noteq> [] then PBytes b else data | _ \<Rightarrow> data) in
       if encoding = text_of ''bytes'' then Inr data
       else if encoding = text_of ''integers'' then
         if \<not> py_bool data then Inr (PBytes [])
         else
           ebind (if dformat = 32 then Inr (ce_long e) else if dformat = 16 then Inr 2
                  else if dformat = 8 then Inr 1 else Inl ValueError) (\<lambda>k.
             ebind (py_len data) (\<lambda>_. ebind (py_list data) (\<lambda>vs.
               ebind (struct_pack (ce_big e) k vs) (\<lambda>b. Inr (PBytes b)))))
       else Inl ValueError))"

section \<open>Contents arrive as they were\<close>

lemma length_native_bytes [simp]: "length (native_bytes big k n) = k"
  by (simp add: native_bytes_def)

lemma native_int_bytes: "0 \<le> n \<Longrightarrow> n < 256 ^ k \<Longrightarrow> native_int big (native_bytes big k n) = n"
  by (simp add: native_int_def native_bytes_def be_int_be_bytes)

lemma native_bytes_int: "length bs = k \<Longrightarrow> native_bytes big k (native_int big bs) = bs"
  by (simp add: native_int_def native_bytes_def be_bytes_be_int)

lemma native_int_range: "0 \<le> native_int big bs" "length bs = k \<Longrightarrow> native_int big bs < 256 ^ k"
  using be_int_bound [of bs] be_int_bound [of "rev bs"] by (auto simp: native_int_def)

lemma chunks_length: "length (chunks k n bs) = n"
  by (induction k n bs rule: chunks.induct) simp_all

lemma chunks_each: "length bs = k * n \<Longrightarrow> c \<in> set (chunks k n bs) \<Longrightarrow> length c = k"
  by (induction k n bs rule: chunks.induct) auto

lemma chunks_concat: "length bs = k * n \<Longrightarrow> concat (chunks k n bs) = bs"
  by (induction k n bs rule: chunks.induct) auto

lemma chunks_of_concat: "(\<forall>c \<in> set cs. length c = k) \<Longrightarrow> chunks k (length cs) (concat cs) = cs"
  by (induction cs) auto

lemma emap_Inr: "(\<And>x. x \<in> set xs \<Longrightarrow> f x = Inr (g x)) \<Longrightarrow> emap f xs = Inr (map g xs)"
  by (induction xs) auto

definition item_size :: "cenv \<Rightarrow> int \<Rightarrow> nat" where
  "item_size e dformat = (if dformat = 32 then ce_long e else if dformat = 16 then 2 else 1)"

definition numbers :: "cenv \<Rightarrow> int \<Rightarrow> bytes \<Rightarrow> int list" where
  "numbers e dformat b =
     map (native_int (ce_big e)) (chunks (item_size e dformat) (length b div item_size e dformat) b)"

lemma pack_numbers:
  assumes "\<forall>n \<in> set ns. 0 \<le> n \<and> n < 256 ^ k"
  shows "struct_pack big k (map PInt ns) = Inr (concat (map (native_bytes big k) ns))"
proof -
  have "emap (pack_item big k) (map PInt ns) = Inr (map (\<lambda>v. case v of PInt n \<Rightarrow> native_bytes big k n | _ \<Rightarrow> []) (map PInt ns))"
    using assms by (intro emap_Inr) (auto simp: pack_item_def)
  then show ?thesis by (simp add: struct_pack_def comp_def)
qed

lemma numbers_packed:
  assumes "\<forall>n \<in> set ns. 0 \<le> n \<and> n < 256 ^ item_size e dformat" "0 < item_size e dformat"
  shows "numbers e dformat (concat (map (native_bytes (ce_big e) (item_size e dformat)) ns)) = ns"
proof -
  let ?cs = "map (native_bytes (ce_big e) (item_size e dformat)) ns"
  have each: "\<forall>c \<in> set ?cs. length c = item_size e dformat" by auto
  then have "length (concat ?cs) = item_size e dformat * length ns"
    by (simp add: length_concat sum_list_triv comp_def mult.commute)
  then have "chunks (item_size e dformat) (length (concat ?cs) div item_size e dformat) (concat ?cs) = ?cs"
    using chunks_of_concat [OF each] assms(2) by simp
  then show ?thesis using assms(1) by (simp add: numbers_def native_int_bytes map_idI)
qed

lemma numbers_same:
  assumes "length b = item_size e dformat * n" "0 < item_size e dformat"
  shows "concat (map (native_bytes (ce_big e) (item_size e dformat)) (numbers e dformat b)) = b"
proof -
  have "map (native_bytes (ce_big e) (item_size e dformat)) (numbers e dformat b) = chunks (item_size e dformat) n b"
    using assms chunks_each [of b "item_size e dformat" n] by (auto simp: numbers_def native_bytes_int intro!: map_idI)
  then show ?thesis using chunks_concat [OF assms(1)] by simp
qed

lemma numbers_range:
  assumes "length b = item_size e dformat * n" "0 < item_size e dformat" "v \<in> set (numbers e dformat b)"
  shows "0 \<le> v" "v < 256 ^ item_size e dformat"
  using assms chunks_each [of b "item_size e dformat" n] native_int_range by (auto simp: numbers_def)

lemma munge_numbers:
  assumes "length b = item_size e dformat * n" "0 < item_size e dformat" "dformat = 16 \<or> dformat = 32"
    "dtype \<notin> {text_of ''ATOM'', text_of ''ATOM_PAIR''} \<or> \<not> ce_posix e"
  shows "do_munge_raw_selection_to_wire e filters dtype dformat (PBytes b) =
    Inr (text_of ''integers'', PTuple (map PInt (numbers e dformat b)))"
  using assms by (auto simp: do_munge_raw_selection_to_wire_def bytes_like_def struct_unpack_def numbers_def item_size_def)

lemma text_encodings: "text_of ''integers'' \<noteq> text_of ''bytes''"
  by code_simp

lemma unmunge_numbers:
  assumes "max_receive \<le> 0" "\<forall>v \<in> set ns. 0 \<le> v \<and> v < 256 ^ item_size e dformat" "dformat = 16 \<or> dformat = 32"
  shows "munge_wire_selection_to_raw e max_receive (text_of ''integers'') dformat (PTuple (map PInt ns)) =
    Inr (PBytes (concat (map (native_bytes (ce_big e) (item_size e dformat)) ns)))"
  using assms pack_numbers [of ns "item_size e dformat" "ce_big e"] text_encodings
  by (auto simp: munge_wire_selection_to_raw_def limit_data_def py_bool_def item_size_def Let_def)

text \<open>
  C26: Without limits and filters, contents arrive at the other end as they were. Text and other bytes are
  the same bytes; formats of 16 and 32 bits are the same numbers, in the order and the size of the other
  platform, as long as they fit in it, and the same bytes if the platforms are alike.
\<close>

theorem clipboard_contents_roundtrip:
  assumes format: "dformat \<in> {8, 16, 32}" and whole: "item_size e dformat dvd length b"
    and sizes: "0 < ce_long e" "0 < ce_long e'" and limits: "max_send \<le> 0" "max_receive \<le> 0"
    and sendable: "dtype \<notin> set UNMARSHALLABLE" "dtype \<notin> {text_of ''ATOM'', text_of ''ATOM_PAIR''}"
    and fits: "\<forall>n \<in> set (numbers e dformat b). n < 256 ^ item_size e' dformat"
  shows "\<exists>encoding wire b'.
    munge_raw_selection_to_wire e max_send [] target dtype dformat (PBytes b) = Inr (encoding, wire) \<and>
    munge_wire_selection_to_raw e' max_receive encoding dformat wire = Inr (PBytes b') \<and>
    numbers e' dformat b' = numbers e dformat b \<and>
    (dformat = 8 \<or> ce_long e' = ce_long e \<and> ce_big e' = ce_big e \<longrightarrow> b' = b)"
proof (cases "dformat = 8")
  case True
  have one: "numbers e' 8 b = numbers e 8 b"
  proof -
    have "native_int big c = native_int big' c" if "c \<in> set (chunks 1 (length b) b)" for c big big'
    proof -
      from that chunks_each [of b 1 "length b" c] obtain x where "c = [x]" by (auto simp: length_Suc_conv)
      then show ?thesis by (simp add: native_int_def)
    qed
    then show ?thesis by (auto simp: numbers_def item_size_def)
  qed
  have "munge_raw_selection_to_wire e max_send [] target dtype dformat (PBytes b) = Inr (text_of ''bytes'', PBytes b)"
    using True limits sendable by (auto simp: munge_raw_selection_to_wire_def do_munge_raw_selection_to_wire_def limit_data_def)
  moreover have "munge_wire_selection_to_raw e' max_receive (text_of ''bytes'') dformat (PBytes b) = Inr (PBytes b)"
    using limits by (simp add: munge_wire_selection_to_raw_def limit_data_def)
  ultimately show ?thesis using one True by blast
next
  case False
  with format have f: "dformat = 16 \<or> dformat = 32" by auto
  from sizes have pos: "0 < item_size e dformat" "0 < item_size e' dformat" by (simp_all add: item_size_def)
  from whole obtain n where n: "length b = item_size e dformat * n" by (auto simp: dvd_def)
  let ?b' = "concat (map (native_bytes (ce_big e') (item_size e' dformat)) (numbers e dformat b))"
  have range: "\<forall>v \<in> set (numbers e dformat b). 0 \<le> v \<and> v < 256 ^ item_size e' dformat"
    using numbers_range [OF n pos(1)] fits by blast
  have "munge_raw_selection_to_wire e max_send [] target dtype dformat (PBytes b) =
      Inr (text_of ''integers'', PTuple (map PInt (numbers e dformat b)))"
    using munge_numbers [OF n pos(1) f] sendable limits by (simp add: munge_raw_selection_to_wire_def limit_data_def)
  moreover have "munge_wire_selection_to_raw e' max_receive (text_of ''integers'') dformat
      (PTuple (map PInt (numbers e dformat b))) = Inr (PBytes ?b')"
    by (rule unmunge_numbers [OF limits(2) range f])
  moreover have "numbers e' dformat ?b' = numbers e dformat b" by (rule numbers_packed [OF range pos(2)])
  moreover have "ce_long e' = ce_long e \<and> ce_big e' = ce_big e \<longrightarrow> ?b' = b"
    using numbers_same [OF n pos(1)] by (auto simp: item_size_def)
  ultimately show ?thesis using False by blast
qed

section \<open>Limits\<close>

lemma format_size: "8 \<le> get_format_size sl dformat"
  by (simp add: get_format_size_def)

lemma cut_len: "cut_data k v = Inr v' \<Longrightarrow> py_len v' = Inr n \<Longrightarrow> n \<le> k"
  by (cases v) auto

lemma py_list_len: "py_list v = Inr vs \<Longrightarrow> py_len v = Inr (length vs)"
  by (cases v) auto

lemma limit_size:
  assumes "limit_data e max_size dformat data = Inr (data', dropped)" "0 < max_size" "py_len data' = Inr n"
  shows "int n \<le> max_size * 8 div get_format_size (int (ce_long e)) dformat"
proof -
  have "0 \<le> max_size * 8 div get_format_size (int (ce_long e)) dformat"
    using assms(2) format_size [of "int (ce_long e)" dformat] by (subst pos_imp_zdiv_nonneg_iff) auto
  with assms show ?thesis
    by (auto simp: limit_data_def Let_def ebind_eq_Inr dest!: cut_len split: if_splits)
qed

lemma fits_limit:
  assumes "int n \<le> m * 8 div f" "8 * int k \<le> f" "0 < f" "0 < k"
  shows "int (k * n) \<le> m"
proof -
  have "(m * 8 div f) * f \<le> m * 8"
    using pos_mod_sign [OF assms(3), of "m * 8"] div_mult_mod_eq [of "m * 8" f] by linarith
  moreover have "int n * f \<le> (m * 8 div f) * f" using assms(1, 3) by (intro mult_right_mono) auto
  moreover have "int n * (8 * int k) \<le> int n * f" using assms(2) by (intro mult_left_mono) auto
  ultimately show ?thesis by (simp add: mult.commute mult.left_commute)
qed

lemma struct_pack_length: "struct_pack big k vs = Inr b \<Longrightarrow> length b = k * length vs"
proof (induction vs arbitrary: b)
  case (Cons v vs)
  then obtain x bss where "pack_item big k v = Inr x" "emap (pack_item big k) vs = Inr bss" "b = x @ concat bss"
    by (auto simp: struct_pack_def ebind_eq_Inr)
  moreover from this have "length x = k" by (auto simp: pack_item_def Let_def split: pval.splits if_splits)
  ultimately show ?case using Cons.IH [of "concat bss"] by (simp add: struct_pack_def)
qed (simp add: struct_pack_def)

lemma integers_limit:
  assumes "0 < max_receive" "py_len data = Inr n" "int n \<le> max_receive * 8 div get_format_size (int (ce_long e)) dformat"
    "struct_pack big k vs = Inr b" "py_list data = Inr vs" "8 * int k \<le> get_format_size (int (ce_long e)) dformat" "0 < k"
  shows "int (length b) \<le> max_receive"
proof -
  from py_list_len [OF assms(5)] assms(2) have "n = length vs" by simp
  then have "length b = k * n" using struct_pack_length [OF assms(4)] by simp
  with fits_limit [OF assms(3, 6) _ assms(7)] format_size [of "int (ce_long e)" dformat] show ?thesis by simp
qed

text \<open>What is received is within the limit, whatever the encoding and the format.\<close>

lemma received_limit:
  assumes r: "munge_wire_selection_to_raw e max_receive encoding dformat data = Inr (PBytes b)"
    and pos: "0 < max_receive" "0 < ce_long e"
  shows "int (length b) \<le> max_receive"
proof -
  let ?f = "get_format_size (int (ce_long e)) dformat"
  from r obtain kept dropped where l: "limit_data e max_receive dformat data = Inr (kept, dropped)"
    by (auto simp: munge_wire_selection_to_raw_def ebind_eq_Inr)
  note small = limit_size [OF l pos(1)]
  define plain where "plain = (case kept of PBuffer b \<Rightarrow> if b \<noteq> [] then PBytes b else kept | _ \<Rightarrow> kept)"
  have same: "py_len plain = py_len kept" by (auto simp: plain_def split: pval.split)
  consider "plain = PBytes b" | "b = []" | vs where "8 * int (item_size e dformat) \<le> ?f" "py_list plain = Inr vs"
      "struct_pack (ce_big e) (item_size e dformat) vs = Inr b"
    using r l pos(2) by (auto simp: munge_wire_selection_to_raw_def Let_def plain_def [symmetric] ebind_eq_Inr get_format_size_def
        item_size_def split: if_splits)
  then show ?thesis
  proof cases
    case 1
    then have "int (length b) \<le> max_receive * 8 div ?f" using small same by simp
    from fits_limit [OF this, of 1] format_size [of "int (ce_long e)" dformat] show ?thesis by simp
  next
    case 2
    with pos show ?thesis by simp
  next
    case 3
    from py_list_len [OF 3(2)] have len: "py_len plain = Inr (length vs)" .
    have "0 < item_size e dformat" using pos(2) by (simp add: item_size_def)
    with small len same show ?thesis by (intro integers_limit [OF pos(1) len _ 3(3, 2, 1)]) simp_all
  qed
qed

text \<open>
  The limit on what is sent counts items of a format, but cuts bytes: of contents in a format of 32 bits it
  leaves an eighth of what it allows, and the cut may go through an item. Then they are not sent at all, and
  whoever asked for them waits until the request times out.
\<close>

definition linux_env :: cenv where
  "linux_env = \<lparr>ce_str = (\<lambda>_. []), ce_int = py_int, ce_utf8 = (\<lambda>_. Inl UnicodeDecodeError), ce_unutf8 = (\<lambda>b. Inr (map uint b)),
     ce_long = 8, ce_big = False, ce_posix = True, ce_match = (\<lambda>_ _. False)\<rparr>"

lemma send_limit_cuts_items:
  "munge_raw_selection_to_wire linux_env 100 [] [84] (text_of ''INTEGER'') 32 (PBytes (replicate 16 1)) = Inl StructError"
  by code_simp

text \<open>With a filter, no contents in bytes can be sent any more: matching them raises an exception.\<close>

lemma filters_break_bytes:
  "filters \<noteq> [] \<Longrightarrow> max_send \<le> 0 \<Longrightarrow> dtype \<notin> set UNMARSHALLABLE \<Longrightarrow>
     munge_raw_selection_to_wire e max_send filters target dtype 8 (PBytes b) = Inl TypeError"
  by (cases filters) (auto simp: munge_raw_selection_to_wire_def limit_data_def do_munge_raw_selection_to_wire_def)

text \<open>A platform whose long integers have four bytes, the last first.\<close>

definition small_env :: cenv where
  "small_env = linux_env\<lparr>ce_long := 4, ce_big := True\<rparr>"

theorem clipboard_contents_roundtrip_witness:
  "\<exists>encoding wire b'.
     munge_raw_selection_to_wire linux_env 0 [] [84] (text_of ''INTEGER'') 32 (PBytes [1, 2, 0, 0, 0, 0, 0, 0]) = Inr (encoding, wire) \<and>
     munge_wire_selection_to_raw small_env 0 encoding 32 wire = Inr (PBytes b') \<and> numbers small_env 32 b' = [513]"
proof -
  let ?b = "[1, 2, 0, 0, 0, 0, 0, 0] :: bytes"
  have c: "(32::int) \<in> {8, 16, 32}" "item_size linux_env 32 dvd length ?b" "0 < ce_long linux_env" "0 < ce_long small_env"
    "(0::int) \<le> 0" "(0::int) \<le> 0" "text_of ''INTEGER'' \<notin> set UNMARSHALLABLE"
    "text_of ''INTEGER'' \<notin> {text_of ''ATOM'', text_of ''ATOM_PAIR''}"
    "\<forall>n \<in> set (numbers linux_env 32 ?b). n < 256 ^ item_size small_env 32"
    by code_simp+
  have "numbers linux_env 32 ?b = [513]" by code_simp
  with clipboard_contents_roundtrip [OF c, of "[84]"] show ?thesis by auto
qed

end
