(* ===== verification/ClipboardHelper.thy ===== *)
theory ClipboardHelper
  imports ClipboardData
begin

text \<open>
  The packets of the clipboard (\<^verbatim>\<open>ClipboardProtocolHelperCore\<close> of \<^verbatim>\<open>src/xpra/clipboard/core.py\<close>): tokens with
  the origins by which they are recognised when they come back, requests for contents and their answers,
  and the settings of the selections. What a toolkit does with a token or a request is recorded, and what
  it returns is a parameter.
\<close>

section \<open>State\<close>

definition MAX_CLIPBOARD_ORIGINS :: nat where "MAX_CLIPBOARD_ORIGINS = 16"
definition MAX_CLIPBOARD_ORIGIN_SIZE :: nat where "MAX_CLIPBOARD_ORIGIN_SIZE = 64"
definition MAX_CLIPBOARD_TARGETS :: nat where "MAX_CLIPBOARD_TARGETS = 100"
definition MIN_CLIPBOARD_COMPRESS_SIZE :: nat where "MIN_CLIPBOARD_COMPRESS_SIZE = 512"

type_synonym contents = "(pystr \<times> pystr \<times> int \<times> pval) list"

text \<open>
  What the helper does: packets, requests for contents of a local selection, tokens that a proxy is given
  (targets, contents, whether to claim the selection), and what the progress callback is told.
\<close>

datatype clipboard_event =
    Send packet
  | GetContents int pystr pystr pystr
  | GotToken pystr "pystr list option" "contents option" bool bool
  | PendingRequests int
  | ContentsArrived int pystr int pval

record clipboard =
  cb_can_send :: bool
  cb_can_receive :: bool
  cb_max_packet :: int
  cb_max_receive :: int
  cb_max_send :: int
  cb_filters :: "pystr list"
  cb_origins :: "(pystr \<times> pystr list) list"
  cb_local_to_remote :: "(pystr \<times> pystr) list"
  cb_remote_to_local :: "(pystr \<times> pystr) list"
  cb_want_targets :: "pystr list"
  cb_greedy :: "pystr list"
  cb_proxies :: "(pystr \<times> cproxy) list"
  cb_local_greedy :: "pystr list"
  cb_events :: "clipboard_event list"

definition emit :: "clipboard_event \<Rightarrow> clipboard \<Rightarrow> clipboard" where
  "emit ev c = c\<lparr>cb_events := cb_events c @ [ev]\<rparr>"

definition set_proxy :: "pystr \<Rightarrow> cproxy \<Rightarrow> clipboard \<Rightarrow> clipboard" where
  "set_proxy name p c = c\<lparr>cb_proxies := AList.update name p (cb_proxies c)\<rparr>"

definition map_proxies :: "(pystr \<Rightarrow> cproxy \<Rightarrow> cproxy) \<Rightarrow> clipboard \<Rightarrow> clipboard" where
  "map_proxies f c = c\<lparr>cb_proxies := map (\<lambda>(name, p). (name, f name p)) (cb_proxies c)\<rparr>"

section \<open>Selections\<close>

text \<open>
  The translation of one selection, if both sides have a list: \<open>env_value\<close> and \<open>setting\<close> are what the
  environment and the configuration name.
\<close>

definition get_selection :: "pystr option \<Rightarrow> pystr option \<Rightarrow> pystr list \<Rightarrow> pystr" where
  "get_selection env_value setting selections =
     (case selections of
        [] \<Rightarrow> []
      | first # _ \<Rightarrow>
          (case filter (\<lambda>x. x \<noteq> [] \<and> x \<in> set selections) (List.map_filter id [env_value, setting]) of
             x # _ \<Rightarrow> x | [] \<Rightarrow> first))"

definition init_translation :: "pystr \<Rightarrow> pystr \<Rightarrow> clipboard \<Rightarrow> clipboard" where
  "init_translation local remote c =
     (if local \<noteq> [] \<and> remote \<noteq> []
      then c\<lparr>cb_local_to_remote := AList.update local remote (cb_local_to_remote c),
             cb_remote_to_local := AList.update remote local (cb_remote_to_local c)\<rparr>
      else c)"

definition to_remote :: "clipboard \<Rightarrow> pystr \<Rightarrow> pystr" where
  "to_remote c selection = (case map_of (cb_local_to_remote c) selection of Some r \<Rightarrow> r | None \<Rightarrow> selection)"

definition to_local :: "clipboard \<Rightarrow> pystr \<Rightarrow> pystr" where
  "to_local c selection = (case map_of (cb_remote_to_local c) selection of Some l \<Rightarrow> l | None \<Rightarrow> selection)"

definition get_remote_selections :: "clipboard \<Rightarrow> pystr list" where
  "get_remote_selections c = map (to_remote c \<circ> fst) (cb_proxies c)"

definition set_want_targets_client :: "pystr list \<Rightarrow> clipboard \<Rightarrow> clipboard" where
  "set_want_targets_client want c =
     (let c = c\<lparr>cb_want_targets := want\<rparr> in map_proxies (\<lambda>name. set_want_targets (to_remote c name \<in> set want)) c)"

definition set_greedy_clients :: "pystr list \<Rightarrow> clipboard \<Rightarrow> clipboard" where
  "set_greedy_clients greedy c =
     (let c = c\<lparr>cb_greedy := greedy\<rparr> in map_proxies (\<lambda>name. set_greedy_client (to_remote c name \<in> set greedy)) c)"

definition set_all_preferred_targets :: "pystr list \<Rightarrow> clipboard \<Rightarrow> clipboard" where
  "set_all_preferred_targets ts = map_proxies (\<lambda>_. set_preferred_targets ts)"

definition enable_selections :: "pystr list \<Rightarrow> clipboard \<Rightarrow> clipboard" where
  "enable_selections selections = map_proxies (\<lambda>name. set_enabled (name \<in> set selections))"

definition set_limits :: "int option \<Rightarrow> int option \<Rightarrow> clipboard \<Rightarrow> clipboard" where
  "set_limits max_send max_receive c =
     (let c = (case max_send of Some n \<Rightarrow> c\<lparr>cb_max_send := n\<rparr> | None \<Rightarrow> c) in
      case max_receive of Some n \<Rightarrow> c\<lparr>cb_max_receive := n\<rparr> | None \<Rightarrow> c)"

definition set_directions :: "bool \<Rightarrow> bool \<Rightarrow> int option \<Rightarrow> int option \<Rightarrow> clipboard \<Rightarrow> clipboard" where
  "set_directions can_send can_receive max_send max_receive c =
     map_proxies (\<lambda>_. set_direction can_send can_receive)
       (set_limits max_send max_receive (c\<lparr>cb_can_send := can_send, cb_can_receive := can_receive\<rparr>))"

definition reset_peer :: "clipboard \<Rightarrow> clipboard" where
  "reset_peer c =
     map_proxies (\<lambda>_ p. (cancel_emit_token p)\<lparr>cp_origin := []\<rparr>) (c\<lparr>cb_origins := []\<rparr>)"

text \<open>
  The tokens that are sent at once, instead of any that was to be sent later. \<open>sent\<close> says for which selections the
  backend has something to send.
\<close>

definition send_tokens :: "int \<Rightarrow> (pystr \<Rightarrow> bool) \<Rightarrow> pystr list \<Rightarrow> clipboard \<Rightarrow> clipboard" where
  "send_tokens now sent =
     fold (\<lambda>selection c.
       (case map_of (cb_proxies c) selection of
          Some p \<Rightarrow> set_proxy selection (emit_token now (sent selection) (cancel_emit_token p)) c
        | None \<Rightarrow> c))"

definition send_all_tokens :: "int \<Rightarrow> (pystr \<Rightarrow> bool) \<Rightarrow> clipboard \<Rightarrow> clipboard" where
  "send_all_tokens now sent c = send_tokens now sent (map fst (cb_proxies c)) c"

text \<open>The clean up; the errors of a toolkit are left out. Nothing is sent after it.\<close>

definition cleanup_clipboard :: "clipboard \<Rightarrow> clipboard" where
  "cleanup_clipboard c = c\<lparr>cb_proxies := [], cb_origins := []\<rparr>"

section \<open>Origins\<close>

text \<open>The last origins of a selection, the oldest first: a \<^verbatim>\<open>deque\<close> of limited length.\<close>

definition remember_clipboard_origin :: "pystr \<Rightarrow> pystr \<Rightarrow> clipboard \<Rightarrow> clipboard" where
  "remember_clipboard_origin selection origin c =
     (let old = (case map_of (cb_origins c) selection of Some xs \<Rightarrow> xs | None \<Rightarrow> []);
          kept = remove1 origin old @ [origin] in
      c\<lparr>cb_origins := AList.update selection (drop (length kept - MAX_CLIPBOARD_ORIGINS) kept) (cb_origins c)\<rparr>)"

definition is_clipboard_loop :: "clipboard \<Rightarrow> pystr \<Rightarrow> pystr \<Rightarrow> bool" where
  "is_clipboard_loop c selection origin \<longleftrightarrow>
     (case map_of (cb_origins c) selection of Some xs \<Rightarrow> origin \<in> set xs | None \<Rightarrow> False)"

section \<open>Sending\<close>

text \<open>
  \<^verbatim>\<open>_may_compress\<close>: \<open>Inr None\<close> when the data is too big. Texts and bytes from a size on are wrapped, to be
  compressed later.
\<close>

definition may_compress :: "cenv \<Rightarrow> clipboard \<Rightarrow> pval \<Rightarrow> pval option result" where
  "may_compress e c wire_data =
     ebind (py_len wire_data) (\<lambda>size.
       if int size > cb_max_packet c then Inr None
       else if size \<ge> MIN_CLIPBOARD_COMPRESS_SIZE then
         (case wire_data of
            PStr s \<Rightarrow> ebind (ce_utf8 e s) (\<lambda>b. Inr (Some (PCompressible (PBytes b))))
          | PBytes b \<Rightarrow> Inr (Some (PCompressible (PBytes b)))
          | _ \<Rightarrow> Inr (Some wire_data))
       else Inr (Some wire_data))"

definition unwrap_compressible :: "pval \<Rightarrow> pval" where
  "unwrap_compressible v = (case v of PCompressible d \<Rightarrow> d | _ \<Rightarrow> v)"

text \<open>The items of a token, in wire format; those that cannot be sent are left out.\<close>

fun wire_contents :: "cenv \<Rightarrow> clipboard \<Rightarrow> contents \<Rightarrow> (pval \<times> pval) list result" where
  "wire_contents e c [] = Inr []"
| "wire_contents e c ((target, dtype, dformat, data) # items) =
     ebind (munge_raw_selection_to_wire e (cb_max_send c) (cb_filters c) target dtype dformat data) (\<lambda>(encoding, wire).
       if encoding = [] then wire_contents e c items
       else
         ebind (may_compress e c wire) (\<lambda>sent.
           case sent of
             None \<Rightarrow> wire_contents e c items
           | Some v \<Rightarrow>
               ebind (wire_contents e c items) (\<lambda>more.
                 Inr ((PStr target, PTuple [PStr dtype, PInt dformat, PStr encoding, unwrap_compressible v]) # more))))"

text \<open>A token: \<open>uuid\<close> is fresh for each; the origin is remembered before the contents are converted.\<close>

definition send_clipboard_token ::
  "cenv \<Rightarrow> pystr \<Rightarrow> pystr \<Rightarrow> pystr list \<Rightarrow> contents \<Rightarrow> clipboard \<Rightarrow> unit result \<times> clipboard" where
  "send_clipboard_token e uuid name targets items c =
     (case map_of (cb_proxies c) name of
        None \<Rightarrow> (Inl KeyError, c)
      | Some p \<Rightarrow>
          let remote = to_remote c (cp_selection p);
              origin = (if cp_origin p \<noteq> [] then cp_origin p else uuid);
              c = set_proxy name (p\<lparr>cp_origin := origin\<rparr>) c;
              c = remember_clipboard_origin (cp_selection p) origin c in
          (case wire_contents e c items of
            Inl err \<Rightarrow> (Inl err, c)
          | Inr wire \<Rightarrow>
              (Inr (), emit (Send [PStr (text_of ''clipboard-data''), PStr remote, PDict (
                 [(pstr ''claim'', PBool (cp_can_send p)),
                  (pstr ''greedy'', PBool (cp_selection p \<in> set (cb_local_greedy c))),
                  (pstr ''origin'', PStr origin)] @
                 (if targets \<noteq> [] then [(pstr ''targets'', PTuple (map PStr targets))] else []) @
                 (if wire \<noteq> [] then [(pstr ''data'', PDict wire)] else []))]) c)))"

definition no_contents :: "int \<Rightarrow> pystr \<Rightarrow> clipboard \<Rightarrow> clipboard" where
  "no_contents request_id selection = emit (Send [pstr ''clipboard-contents-none'', PInt request_id, PStr selection])"

definition proxy_got_contents ::
  "cenv \<Rightarrow> int \<Rightarrow> pystr \<Rightarrow> pystr \<Rightarrow> pystr \<Rightarrow> int \<Rightarrow> pval \<Rightarrow> clipboard \<Rightarrow> unit result \<times> clipboard" where
  "proxy_got_contents e request_id selection target dtype dformat data c =
     (if data = PNone \<or> (dformat = 0 \<and> \<not> py_bool data) then (Inr (), no_contents request_id selection c)
      else
        (case ebind (limit_data e (cb_max_send c) dformat data) (\<lambda>(data, truncated).
                ebind (munge_raw_selection_to_wire e (cb_max_send c) (cb_filters c) target dtype dformat data) (\<lambda>(encoding, wire).
                  if encoding = [] then Inr (encoding, None, truncated)
                  else ebind (may_compress e c wire) (\<lambda>sent. Inr (encoding, sent, truncated)))) of
           Inl err \<Rightarrow> (Inl err, c)
         | Inr (encoding, sent, truncated) \<Rightarrow>
             (Inr (),
              if encoding = [] then no_contents request_id selection c
              else case sent of
                None \<Rightarrow> c
              | Some wire \<Rightarrow>
                  emit (Send [pstr ''clipboard-contents'', PInt request_id, PStr selection, PStr dtype, PInt dformat,
                              PStr encoding, wire, PInt truncated]) c)))"

section \<open>Receiving\<close>

definition process_request :: "cenv \<Rightarrow> packet \<Rightarrow> clipboard \<Rightarrow> unit result \<times> clipboard" where
  "process_request e packet c =
     (case ebind (get_u64 (ce_int e) packet 1) (\<lambda>request_id.
             ebind (get_str (ce_unutf8 e) (ce_str e) packet 2) (\<lambda>selection.
               ebind (get_str (ce_unutf8 e) (ce_str e) packet 3) (\<lambda>target. Inr (request_id, selection, target)))) of
        Inl err \<Rightarrow> (Inl err, c)
      | Inr (request_id, selection, target) \<Rightarrow>
          (Inr (),
           if must_discard target then no_contents request_id selection c
           else
             case map_of (cb_proxies c) (to_local c selection) of
               None \<Rightarrow> no_contents request_id selection c
             | Some p \<Rightarrow>
                 if \<not> cp_enabled p then no_contents request_id selection c
                 else if \<not> cp_can_send p then no_contents request_id selection c
                 else emit (GetContents request_id selection (to_local c selection) target) c))"

definition process_contents :: "cenv \<Rightarrow> packet \<Rightarrow> clipboard \<Rightarrow> unit result \<times> clipboard" where
  "process_contents e packet c =
     (case ebind (get_u64 (ce_int e) packet 1) (\<lambda>request_id.
             ebind (get_str (ce_unutf8 e) (ce_str e) packet 2) (\<lambda>_.
               ebind (get_str (ce_unutf8 e) (ce_str e) packet 3) (\<lambda>dtype.
                 ebind (get_u8 (ce_int e) packet 4) (\<lambda>dformat.
                   ebind (get_str (ce_unutf8 e) (ce_str e) packet 5) (\<lambda>encoding.
                     ebind (py_index packet 6) (\<lambda>wire.
                       ebind (munge_wire_selection_to_raw e (cb_max_receive c) encoding dformat wire) (\<lambda>raw.
                         Inr (request_id, dtype, dformat, raw)))))))) of
        Inl err \<Rightarrow> (Inl err, c)
      | Inr (request_id, dtype, dformat, raw) \<Rightarrow> (Inr (), emit (ContentsArrived request_id dtype dformat raw) c))"

definition process_contents_none :: "cenv \<Rightarrow> packet \<Rightarrow> clipboard \<Rightarrow> unit result \<times> clipboard" where
  "process_contents_none e packet c =
     (case get_u64 (ce_int e) packet 1 of
        Inl err \<Rightarrow> (Inl err, c)
      | Inr request_id \<Rightarrow> (Inr (), emit (ContentsArrived request_id [] 0 PNone) c))"

definition process_pending_requests :: "cenv \<Rightarrow> packet \<Rightarrow> clipboard \<Rightarrow> unit result \<times> clipboard" where
  "process_pending_requests e packet c =
     (case get_u8 (ce_int e) packet 1 of Inl err \<Rightarrow> (Inl err, c) | Inr n \<Rightarrow> (Inr (), emit (PendingRequests n) c))"

definition process_enable_selections :: "cenv \<Rightarrow> packet \<Rightarrow> clipboard \<Rightarrow> unit result \<times> clipboard" where
  "process_enable_selections e packet c =
     (case get_strs (ce_str e) packet 1 of
        Inl err \<Rightarrow> (Inl err, c)
      | Inr selections \<Rightarrow> (Inr (), enable_selections selections c))"

definition clipboard_token_proxy :: "clipboard \<Rightarrow> pystr \<Rightarrow> (pystr \<times> cproxy) option" where
  "clipboard_token_proxy c selection =
     (case map_of (cb_proxies c) (to_local c selection) of
        None \<Rightarrow> None
      | Some p \<Rightarrow> if cp_enabled p then Some (to_local c selection, p) else None)"

definition local_targets :: "cenv \<Rightarrow> pval list \<Rightarrow> pystr list" where
  "local_targets e targets = take MAX_CLIPBOARD_TARGETS (filter_targets (ce_str e) targets)"

text \<open>An item of the contents of a token: \<open>None\<close> when its target is discarded.\<close>

definition item_fields :: "pval \<Rightarrow> (pval \<times> pval \<times> pval \<times> pval) option" where
  "item_fields item =
     (case (case item of PTuple xs \<Rightarrow> xs | PList xs \<Rightarrow> xs | _ \<Rightarrow> []) of
        dtype # dformat # encoding # wire # _ \<Rightarrow> Some (dtype, dformat, encoding, wire)
      | _ \<Rightarrow> None)"

definition raw_item :: "cenv \<Rightarrow> int \<Rightarrow> pystr \<Rightarrow> pval \<Rightarrow> (pystr \<times> int \<times> pval) option result" where
  "raw_item e max_receive target item =
     (case item_fields item of
        None \<Rightarrow> Inl ValueError
      | Some (dtype, dformat, encoding, wire) \<Rightarrow>
          ebind (py_int_of (ce_int e) dformat) (\<lambda>dformat.
            if dformat \<notin> {8, 16, 32} then Inl ValueError
            else if target \<noteq> [] \<and> \<not> must_discard target then
              ebind (munge_wire_selection_to_raw e max_receive (bytestostr (ce_str e) encoding) dformat wire) (\<lambda>raw.
                Inr (Some (bytestostr (ce_str e) dtype, dformat, raw)))
            else Inr None))"

text \<open>The contents of a token; a target that comes twice, as bytes and as text, keeps the last.\<close>

fun raw_contents :: "cenv \<Rightarrow> int \<Rightarrow> (pval \<times> pval) list \<Rightarrow> contents \<Rightarrow> contents result" where
  "raw_contents e max_receive [] got = Inr got"
| "raw_contents e max_receive ((target, item) # items) got =
     (let target = bytestostr (ce_str e) target in
      ebind (raw_item e max_receive target item) (\<lambda>r.
        raw_contents e max_receive items (case r of None \<Rightarrow> got | Some v \<Rightarrow> AList.update target v got)))"

definition received :: "cenv \<Rightarrow> clipboard \<Rightarrow> tdict \<Rightarrow> (pystr list option \<times> contents option) result" where
  "received e c options =
     ebind (if td_item options (text_of ''targets'') \<noteq> None
            then ebind (strtupleget (ce_str e) (ce_int e) None None (text_of ''targets'') [] options) (\<lambda>ts.
                   Inr (Some (local_targets e ts)))
            else Inr None) (\<lambda>targets.
       ebind (dictget (text_of ''data'') [] options) (\<lambda>wire_items.
         let wire_items = take MAX_CLIPBOARD_TARGETS wire_items in
         if wire_items \<noteq> []
         then ebind (raw_contents e (cb_max_receive c) wire_items []) (\<lambda>items. Inr (targets, Some items))
         else Inr (targets, None)))"

text \<open>
  What a token says: its origin, the targets and the contents, and whether it claims the selection, is from a
  greedy client, is a token at all, and comes from a synchronous client. \<open>None\<close>: it has come back.
\<close>

type_synonym token_options = "pystr \<times> pystr list option \<times> contents option \<times> bool \<times> bool \<times> bool \<times> bool"

definition parse_token :: "cenv \<Rightarrow> clipboard \<Rightarrow> cproxy \<Rightarrow> packet \<Rightarrow> token_options option result" where
  "parse_token e c p packet =
     ebind (get_dict packet 2) (\<lambda>options.
       ebind (strget (ce_str e) (text_of ''origin'') [] options) (\<lambda>origin.
         let origin = (if length origin > MAX_CLIPBOARD_ORIGIN_SIZE then [] else origin) in
         if origin \<noteq> [] \<and> is_clipboard_loop c (cp_selection p) origin then Inr None
         else
           ebind (if cp_can_receive p then received e c options else Inr (None, None)) (\<lambda>(targets, items).
             ebind (boolget (text_of ''claim'') True options) (\<lambda>claim.
               ebind (boolget (text_of ''greedy'') (cp_greedy p) options) (\<lambda>greedy.
                 ebind (boolget (text_of ''token'') True options) (\<lambda>token.
                   ebind (boolget (text_of ''synchronous'') False options) (\<lambda>synchronous.
                     Inr (Some (origin, targets, items, claim, greedy, token, synchronous)))))))))"

text \<open>
  A token of the peer. \<open>answer\<close> is what \<^verbatim>\<open>got_token\<close> of the proxy returns: \<open>Some False\<close> declines the
  ownership.
\<close>

definition process_data ::
  "cenv \<Rightarrow> bool option result \<Rightarrow> packet \<Rightarrow> clipboard \<Rightarrow> unit result \<times> clipboard" where
  "process_data e answer packet c =
     (case get_str (ce_unutf8 e) (ce_str e) packet 1 of
        Inl err \<Rightarrow> (Inl err, c)
      | Inr selection \<Rightarrow>
          (case clipboard_token_proxy c selection of
             None \<Rightarrow> (Inr (), c)
           | Some (name, p) \<Rightarrow>
               (case parse_token e c p packet of
                  Inl err \<Rightarrow> (Inl err, c)
                | Inr None \<Rightarrow> (Inr (), c)
                | Inr (Some (origin, targets, items, claim, greedy, token, synchronous)) \<Rightarrow>
                    let p = p\<lparr>cp_greedy := greedy\<rparr> in
                    if \<not> token then (Inr (), set_proxy name p c)
                    else
                      let receiving = (claim \<and> cp_can_receive p);
                          told = emit (GotToken name targets items claim synchronous) c;
                          accepted = set_proxy name (if receiving then p\<lparr>cp_origin := origin\<rparr> else p) told in
                      (case answer of
                        Inl err \<Rightarrow> (Inl err, set_proxy name p told)
                      | Inr r \<Rightarrow> (Inr (), if receiving \<and> r = Some False then set_proxy name p told else accepted)))))"

section \<open>Dispatching\<close>

text \<open>\<^verbatim>\<open>process_clipboard_packet\<close>: the handlers are those that are registered, by their packet types.\<close>

definition process_clipboard_packet ::
  "cenv \<Rightarrow> bool option result \<Rightarrow> packet \<Rightarrow> clipboard \<Rightarrow> unit result \<times> clipboard" where
  "process_clipboard_packet e answer packet c =
     (case py_index packet 0 of
        Inl err \<Rightarrow> (Inl err, c)
      | Inr v \<Rightarrow>
          let t = (case v of PStr s \<Rightarrow> s | _ \<Rightarrow> ce_str e v) in
          if t = text_of ''clipboard-data'' then process_data e answer packet c
          else if t = text_of ''clipboard-request'' then process_request e packet c
          else if t = text_of ''clipboard-contents'' then process_contents e packet c
          else if t = text_of ''clipboard-contents-none'' then process_contents_none e packet c
          else if t = text_of ''clipboard-pending-requests'' then process_pending_requests e packet c
          else if t = text_of ''clipboard-enable-selections'' then process_enable_selections e packet c
          else (Inr (), c))"

end
