(* ===== verification/ClipboardSafety.thy ===== *)
theory ClipboardSafety
  imports ClipboardHelper
begin

text \<open>
  What the packets of the clipboard cannot do: a token that comes back is recognised, contents leave only a
  selection that may be read, and what a token brings is within the limits.
\<close>

section \<open>Origins\<close>

text \<open>The origins of the tokens sent for a selection, each once, the last first.\<close>

definition recent :: "(pystr \<times> pystr) list \<Rightarrow> pystr \<Rightarrow> pystr list" where
  "recent sent selection = fromkeys (map snd (filter (\<lambda>(s, _). s = selection) (rev sent)))"

definition origins_of :: "clipboard \<Rightarrow> pystr \<Rightarrow> pystr list" where
  "origins_of c selection = (case map_of (cb_origins c) selection of Some xs \<Rightarrow> xs | None \<Rightarrow> [])"

lemma fromkeys_Cons: "fromkeys (x # xs) = x # filter (\<lambda>y. y \<noteq> x) (fromkeys xs)"
  by (simp add: fromkeys_def remdups_append2 rev_filter remdups_filter)
    (induction xs arbitrary: x rule: rev_induct; auto)

lemma remove1_filter: "distinct xs \<Longrightarrow> remove1 x xs = filter (\<lambda>y. y \<noteq> x) xs"
  by (simp add: distinct_remove1_removeAll removeAll_filter_not_eq eq_commute)

lemma take_filter_take:
  "distinct xs \<Longrightarrow> take n (filter (\<lambda>y. y \<noteq> x) (take (Suc n) xs)) = take n (filter (\<lambda>y. y \<noteq> x) xs)"
proof (induction xs arbitrary: n)
  case (Cons a xs)
  show ?case
  proof (cases "a = x")
    case True
    with Cons.prems have "filter (\<lambda>y. y \<noteq> x) xs = xs" "filter (\<lambda>y. y \<noteq> x) (take n xs) = take n xs"
      by (auto simp: filter_id_conv dest: in_set_takeD)
    with True show ?thesis by simp
  next
    case False
    with Cons show ?thesis by (cases n) simp_all
  qed
qed simp

lemma recent_snoc:
  "recent (sent @ [(selection, origin)]) s =
     (if s = selection then origin # filter (\<lambda>y. y \<noteq> origin) (recent sent s) else recent sent s)"
  by (simp add: recent_def fromkeys_Cons)

lemma drop_rev_take: "drop (length xs - n) xs = rev (take n (rev xs))"
  by (simp add: rev_take)

lemma distinct_recent [simp]: "distinct (recent sent s)"
  by (simp add: recent_def)

lemma remember_other:
  "s \<noteq> selection \<Longrightarrow> origins_of (remember_clipboard_origin selection origin c) s = origins_of c s"
  by (simp add: remember_clipboard_origin_def origins_of_def AList.update_conv Let_def)

lemma remember_same:
  assumes "origins_of c selection = rev (take MAX_CLIPBOARD_ORIGINS (recent sent selection))"
  shows "origins_of (remember_clipboard_origin selection origin c) selection =
    rev (take MAX_CLIPBOARD_ORIGINS (recent (sent @ [(selection, origin)]) selection))"
proof -
  let ?R = "recent sent selection"
  have "origins_of (remember_clipboard_origin selection origin c) selection =
      (let kept = remove1 origin (rev (take MAX_CLIPBOARD_ORIGINS ?R)) @ [origin] in
       drop (length kept - MAX_CLIPBOARD_ORIGINS) kept)"
    using assms by (simp add: remember_clipboard_origin_def origins_of_def AList.update_conv Let_def)
  also have "\<dots> = rev (take MAX_CLIPBOARD_ORIGINS (origin # filter (\<lambda>y. y \<noteq> origin) (take MAX_CLIPBOARD_ORIGINS ?R)))"
    by (simp only: Let_def drop_rev_take) (simp add: remove1_filter rev_filter)
  also have "\<dots> = rev (take MAX_CLIPBOARD_ORIGINS (origin # filter (\<lambda>y. y \<noteq> origin) ?R))"
    using take_filter_take [of ?R 15 origin] by (simp add: MAX_CLIPBOARD_ORIGINS_def)
  finally show ?thesis by (simp add: recent_snoc)
qed

definition origins_ok :: "clipboard \<times> (pystr \<times> pystr) list \<Rightarrow> bool" where
  "origins_ok = (\<lambda>(c, sent). \<forall>s. origins_of c s = rev (take MAX_CLIPBOARD_ORIGINS (recent sent s)))"

lemma remember_ok:
  "origins_ok (c, sent) \<Longrightarrow> origins_ok (remember_clipboard_origin selection origin c, sent @ [(selection, origin)])"
  using remember_same remember_other by (fastforce simp: origins_ok_def recent_snoc)

section \<open>The helper at work\<close>

text \<open>
  Everything that can happen to the helper, with the tokens that were sent since it last was reset: the
  selection of each, and its origin.
\<close>

definition token_origin :: "pystr \<Rightarrow> pystr \<Rightarrow> clipboard \<Rightarrow> (pystr \<times> pystr) list" where
  "token_origin uuid name c =
     (case map_of (cb_proxies c) name of
        None \<Rightarrow> []
      | Some p \<Rightarrow> [(cp_selection p, if cp_origin p \<noteq> [] then cp_origin p else uuid)])"

inductive cstep :: "clipboard \<times> (pystr \<times> pystr) list \<Rightarrow> clipboard \<times> (pystr \<times> pystr) list \<Rightarrow> bool" where
  Token: "cstep (c, sent) (snd (send_clipboard_token e uuid name targets items c), sent @ token_origin uuid name c)"
| Packet: "cstep (c, sent) (snd (process_clipboard_packet e answer packet c), sent)"
| Contents: "cstep (c, sent) (snd (proxy_got_contents e request_id selection target dtype dformat data c), sent)"
| Reset: "cstep (c, sent) (reset_peer c, [])"
| Cleanup: "cstep (c, sent) (cleanup_clipboard c, [])"
| Directions: "cstep (c, sent) (set_directions can_send can_receive max_send max_receive c, sent)"
| Enable: "cstep (c, sent) (enable_selections selections c, sent)"
| Targets: "cstep (c, sent) (set_want_targets_client want c, sent)"
| Greedy: "cstep (c, sent) (set_greedy_clients greedy c, sent)"
| Preferred: "cstep (c, sent) (set_all_preferred_targets ts c, sent)"
| Proxies: "cstep (c, sent) (c\<lparr>cb_proxies := proxies\<rparr>, sent)"

abbreviation csteps where "csteps \<equiv> cstep\<^sup>*\<^sup>*"

lemma origins_fields [simp]:
  "cb_origins (emit ev c) = cb_origins c" "cb_origins (set_proxy name p c) = cb_origins c"
  "cb_origins (map_proxies f c) = cb_origins c" "cb_origins (no_contents i s c) = cb_origins c"
  by (simp_all add: emit_def set_proxy_def map_proxies_def no_contents_def)

lemma same_origins: "cb_origins c' = cb_origins c \<Longrightarrow> origins_ok (c', sent) = origins_ok (c, sent)"
  by (simp add: origins_ok_def origins_of_def)

lemma settings_origins [simp]:
  "cb_origins (enable_selections selections c) = cb_origins c"
  "cb_origins (set_directions s r ms mr c) = cb_origins c"
  "cb_origins (set_want_targets_client want c) = cb_origins c"
  "cb_origins (set_greedy_clients greedy c) = cb_origins c"
  "cb_origins (set_all_preferred_targets ts c) = cb_origins c"
  by (simp_all add: enable_selections_def set_directions_def set_limits_def set_want_targets_client_def
      set_greedy_clients_def set_all_preferred_targets_def Let_def split: option.split)

lemma data_origins [simp]: "cb_origins (snd (process_data e answer packet c)) = cb_origins c"
  by (auto simp: process_data_def Let_def split: sum.split option.split prod.split)

lemma process_origins [simp]:
  "cb_origins (snd (process_request e packet c)) = cb_origins c"
  "cb_origins (snd (process_contents e packet c)) = cb_origins c"
  "cb_origins (snd (process_contents_none e packet c)) = cb_origins c"
  "cb_origins (snd (process_pending_requests e packet c)) = cb_origins c"
  "cb_origins (snd (process_enable_selections e packet c)) = cb_origins c"
  by (simp_all add: process_request_def process_contents_def process_contents_none_def
      process_pending_requests_def process_enable_selections_def split: sum.split option.split prod.split)

lemma packet_origins [simp]: "cb_origins (snd (process_clipboard_packet e answer packet c)) = cb_origins c"
  by (simp add: process_clipboard_packet_def Let_def split: sum.split)

lemma contents_origins [simp]: "cb_origins (snd (proxy_got_contents e i s t d f v c)) = cb_origins c"
  by (auto simp: proxy_got_contents_def split: sum.split option.split prod.split)

lemma token_ok:
  assumes "origins_ok (c, sent)"
  shows "origins_ok (snd (send_clipboard_token e uuid name targets items c), sent @ token_origin uuid name c)"
proof (cases "map_of (cb_proxies c) name")
  case None
  with assms show ?thesis by (simp add: send_clipboard_token_def token_origin_def)
next
  case (Some p)
  let ?o = "if cp_origin p \<noteq> [] then cp_origin p else uuid"
  let ?c = "set_proxy name (p\<lparr>cp_origin := ?o\<rparr>) c"
  have "origins_ok (?c, sent)" using assms same_origins [of ?c c] by simp
  then have "origins_ok (remember_clipboard_origin (cp_selection p) ?o ?c, sent @ token_origin uuid name c)"
    using Some by (auto simp: token_origin_def intro: remember_ok)
  moreover have "cb_origins (snd (send_clipboard_token e uuid name targets items c)) =
      cb_origins (remember_clipboard_origin (cp_selection p) ?o ?c)"
    using Some by (simp add: send_clipboard_token_def Let_def split: sum.split)
  ultimately show ?thesis using same_origins by blast
qed

lemma cstep_ok: "cstep x y \<Longrightarrow> origins_ok x \<Longrightarrow> origins_ok y"
proof (induction rule: cstep.induct)
  case (Token c sent e uuid name targets items)
  then show ?case by (rule token_ok)
next
  case (Reset c sent)
  then show ?case by (simp add: origins_ok_def origins_of_def recent_def fromkeys_def reset_peer_def)
next
  case (Cleanup c sent)
  then show ?case by (simp add: origins_ok_def origins_of_def recent_def fromkeys_def cleanup_clipboard_def)
qed (rule same_origins [THEN iffD2]; simp)+

lemma csteps_ok:
  assumes "csteps (c0, []) x" "cb_origins c0 = []"
  shows "origins_ok x"
  using assms(1)
proof (induction rule: rtranclp_induct)
  case base
  show ?case using assms(2) by (simp add: origins_ok_def origins_of_def recent_def fromkeys_def)
qed (rule cstep_ok)

text \<open>
  C24: A token whose origin is one of the last sixteen that this end has sent for the selection is a token
  that has come back, whatever happened in between, and it is ignored: nothing changes. Others are not taken
  for one.
\<close>

theorem returned_token_ignored:
  assumes run: "csteps (c0, []) (c, sent)" "cb_origins c0 = []"
    and proxy: "get_str (ce_unutf8 e) (ce_str e) packet 1 = Inr selection" "clipboard_token_proxy c selection = Some (name, p)"
    and origin: "get_dict packet 2 = Inr options" "strget (ce_str e) (text_of ''origin'') [] options = Inr origin"
      "origin \<noteq> []" "length origin \<le> MAX_CLIPBOARD_ORIGIN_SIZE"
  shows "(is_clipboard_loop c (cp_selection p) origin \<longleftrightarrow>
      origin \<in> set (take MAX_CLIPBOARD_ORIGINS (recent sent (cp_selection p)))) \<and>
    (origin \<in> set (take MAX_CLIPBOARD_ORIGINS (recent sent (cp_selection p))) \<longrightarrow>
      process_data e answer packet c = (Inr (), c))"
proof -
  have "origins_of c (cp_selection p) = rev (take MAX_CLIPBOARD_ORIGINS (recent sent (cp_selection p)))"
    using csteps_ok [OF run] by (simp add: origins_ok_def)
  then have loop: "is_clipboard_loop c (cp_selection p) origin \<longleftrightarrow>
      origin \<in> set (take MAX_CLIPBOARD_ORIGINS (recent sent (cp_selection p)))"
    by (auto simp: is_clipboard_loop_def origins_of_def split: option.splits)
  moreover have "process_data e answer packet c = (Inr (), c)" if "is_clipboard_loop c (cp_selection p) origin"
    using that proxy origin by (simp add: process_data_def parse_token_def Let_def)
  ultimately show ?thesis by blast
qed

section \<open>Contents of a token\<close>

definition item_ok :: "cenv \<Rightarrow> int \<Rightarrow> pystr \<times> pystr \<times> int \<times> pval \<Rightarrow> bool" where
  "item_ok e max_receive = (\<lambda>(target, dtype, dformat, raw).
     target \<noteq> [] \<and> \<not> must_discard target \<and> dformat \<in> {8, 16, 32} \<and>
     (\<forall>b. raw = PBytes b \<longrightarrow> 0 < max_receive \<longrightarrow> int (length b) \<le> max_receive))"

lemma set_update: "set (AList.update k v xs) \<subseteq> insert (k, v) (set xs)"
  by (induction xs) auto

lemma length_update: "length (AList.update k v xs) \<le> Suc (length xs)"
  by (induction xs) auto

lemma raw_item_ok:
  assumes "0 < ce_long e" "raw_item e max_receive target item = Inr (Some v)"
  shows "item_ok e max_receive (target, v)"
proof -
  from assms(2) obtain dtype dformat encoding wire raw where
      "target \<noteq> []" "\<not> must_discard target" "dformat \<in> {8, 16, 32}" "v = (dtype, dformat, raw)"
      "munge_wire_selection_to_raw e max_receive encoding dformat wire = Inr raw"
    by (auto simp: raw_item_def ebind_eq_Inr split: option.splits if_splits)
  with received_limit [of e max_receive encoding dformat wire] assms(1) show ?thesis by (auto simp: item_ok_def)
qed

lemma raw_contents_items:
  assumes "0 < ce_long e" "raw_contents e max_receive items got = Inr result" "\<forall>x \<in> set got. item_ok e max_receive x"
  shows "(\<forall>x \<in> set result. item_ok e max_receive x) \<and> length result \<le> length got + length items"
  using assms(2, 3)
proof (induction items arbitrary: got)
  case (Cons x items)
  obtain target item where x: "x = (target, item)" by (cases x)
  let ?t = "bytestostr (ce_str e) target"
  from Cons.prems(1) x obtain r where r: "raw_item e max_receive ?t item = Inr r"
    and rest: "raw_contents e max_receive items (case r of None \<Rightarrow> got | Some v \<Rightarrow> AList.update ?t v got) = Inr result"
    by (auto simp: ebind_eq_Inr Let_def)
  show ?case
  proof (cases r)
    case None
    with Cons.IH [OF _ Cons.prems(2)] rest show ?thesis by simp
  next
    case (Some v)
    have "\<forall>x \<in> set (AList.update ?t v got). item_ok e max_receive x"
      using set_update [of ?t v got] raw_item_ok [OF assms(1), of max_receive ?t item v] r Some Cons.prems(2) by auto
    with Cons.IH [of "AList.update ?t v got"] rest Some length_update [of ?t v got] show ?thesis by auto
  qed
qed simp

lemma received_ok:
  assumes "received e c options = Inr (targets, items)" "0 < ce_long e"
  shows "(\<forall>ts. targets = Some ts \<longrightarrow> length ts \<le> MAX_CLIPBOARD_TARGETS) \<and>
    (\<forall>xs. items = Some xs \<longrightarrow> length xs \<le> MAX_CLIPBOARD_TARGETS \<and> (\<forall>x \<in> set xs. item_ok e (cb_max_receive c) x))"
proof -
  have "length xs \<le> MAX_CLIPBOARD_TARGETS \<and> (\<forall>x \<in> set xs. item_ok e (cb_max_receive c) x)"
    if "raw_contents e (cb_max_receive c) (take MAX_CLIPBOARD_TARGETS wire) [] = Inr xs" for wire xs
    using raw_contents_items [OF assms(2) that] by auto
  with assms(1) show ?thesis
    by (auto simp: received_def ebind_eq_Inr Let_def local_targets_def split: if_splits)
qed


section \<open>Contents leave with permission\<close>

text \<open>
  A request of the peer asks a selection for its contents only if the selection is enabled and may be sent,
  and the target is not to be discarded. Otherwise the answer is at once that there are none.
\<close>

lemma contents_need_permission:
  assumes "get_u64 (ce_int e) packet 1 = Inr i" "get_str (ce_unutf8 e) (ce_str e) packet 2 = Inr selection"
    "get_str (ce_unutf8 e) (ce_str e) packet 3 = Inr target"
  shows "process_request e packet c =
    (Inr (),
     if \<not> must_discard target \<and>
        (\<exists>p. map_of (cb_proxies c) (to_local c selection) = Some p \<and> cp_enabled p \<and> cp_can_send p)
     then emit (GetContents i selection (to_local c selection) target) c
     else no_contents i selection c)"
  using assms by (auto simp: process_request_def split: option.split)

text \<open>
  What a selection answers goes out as one packet for the same request, or not at all: when it is too big or
  cannot be converted, the peer is told nothing and waits for its time-out.
\<close>

lemma one_answer_per_request:
  "\<exists>evs. cb_events (snd (proxy_got_contents e i selection target dtype dformat data c)) = cb_events c @ evs \<and>
     (evs = [] \<or> (\<exists>rest. evs = [Send (pstr ''clipboard-contents-none'' # PInt i # PStr selection # rest)]) \<or>
      (\<exists>rest. evs = [Send (pstr ''clipboard-contents'' # PInt i # PStr selection # rest)]))"
  by (auto simp: proxy_got_contents_def emit_def no_contents_def split: sum.split option.split prod.split)

lemma too_big_unanswered:
  "proxy_got_contents linux_env 7 [80] [84] [84] 8 (PBytes [1, 2, 3]) c = (Inr (), c)"
  if "cb_max_send c = 0" "cb_filters c = []" "cb_max_packet c = 2"
  using that by (simp add: proxy_got_contents_def limit_data_def munge_raw_selection_to_wire_def
      do_munge_raw_selection_to_wire_def may_compress_def UNMARSHALLABLE_def text_of_def)

section \<open>At concrete inputs\<close>

definition demo_clipboard :: clipboard where
  "demo_clipboard = \<lparr>cb_can_send = True, cb_can_receive = True, cb_max_packet = 16777216, cb_max_receive = 4, cb_max_send = -1,
     cb_filters = [], cb_origins = [], cb_local_to_remote = [], cb_remote_to_local = [], cb_want_targets = [],
     cb_greedy = [], cb_proxies = [([80], (new_proxy [80] 20 1000)\<lparr>cp_enabled := True, cp_can_receive := True\<rparr>)],
     cb_local_greedy = [], cb_events = []\<rparr>"

definition demo_token :: "pystr \<Rightarrow> (pval \<times> pval) list \<Rightarrow> packet" where
  "demo_token origin items =
     [PStr (text_of ''clipboard-data''), PStr [80],
      PDict [(PStr (text_of ''origin''), PStr origin), (PStr (text_of ''data''), PDict items)]]"

theorem returned_token_ignored_witness:
  "let c = snd (send_clipboard_token linux_env [85] [80] [] [] demo_clipboard) in
   process_data linux_env (Inr None) (demo_token [85] []) c = (Inr (), c)"
proof -
  let ?c = "snd (send_clipboard_token linux_env [85] [80] [] [] demo_clipboard)"
  have "cstep (demo_clipboard, []) (?c, [] @ token_origin [85] [80] demo_clipboard)" by (rule Token)
  then have run: "csteps (demo_clipboard, []) (?c, [([80], [85])])"
    by (simp add: token_origin_def demo_clipboard_def new_proxy_def)
  have "\<exists>p. clipboard_token_proxy ?c [80] = Some ([80], p) \<and> cp_selection p = [80]"
    by (simp add: clipboard_token_proxy_def send_clipboard_token_def demo_clipboard_def to_local_def set_proxy_def
        remember_clipboard_origin_def emit_def new_proxy_def Let_def)
  then obtain p where p: "clipboard_token_proxy ?c [80] = Some ([80], p)" "cp_selection p = [80]" by blast
  have fields: "cb_origins demo_clipboard = []" "get_str (ce_unutf8 linux_env) (ce_str linux_env) (demo_token [85] []) 1 = Inr [80]"
    "get_dict (demo_token [85] []) 2 = Inr [(PStr (text_of ''origin''), PStr [85]), (PStr (text_of ''data''), PDict [])]"
    "strget (ce_str linux_env) (text_of ''origin'') []
       [(PStr (text_of ''origin''), PStr [85]), (PStr (text_of ''data''), PDict [])] = Inr [85]"
    "length [85 :: int] \<le> MAX_CLIPBOARD_ORIGIN_SIZE" "[85 :: int] \<in> set (take MAX_CLIPBOARD_ORIGINS (recent [([80], [85])] [80]))"
    by code_simp+
  from returned_token_ignored [OF run fields(1, 2) p(1) fields(3, 4) _ fields(5), of "Inr None"] fields(6) p(2)
  show ?thesis by simp
qed

definition demo_items :: "(pval \<times> pval) list" where
  "demo_items = [(PStr [84], PTuple [PStr [84], PInt 8, PStr (text_of ''bytes''), PBytes [1, 2, 3, 4, 5, 6]])]"


end
