(* ===== verification/ClipboardSource.thy ===== *)
theory ClipboardSource
  imports ClipboardTargets PacketCodec "HOL-Library.Sublist"
begin

text \<open>
  The clipboard of one client of a server (\<^verbatim>\<open>src/xpra/server/source/clipboard.py\<close>): what the client says it
  can do, the limit on how often clipboard packets are sent to it, and the notifications of the requests that
  are pending. Times are in milliseconds, and the clock stands still during an operation.
\<close>

section \<open>State\<close>

definition MAX_CLIPBOARD_LIMIT :: nat where "MAX_CLIPBOARD_LIMIT = 30"
definition MAX_CLIPBOARD_LIMIT_DURATION :: nat where "MAX_CLIPBOARD_LIMIT_DURATION = 3"

text \<open>
  \<open>cs_queued\<close> are the times of the packets that were queued for compression, \<open>cs_sent\<close> the counts that the
  client was notified of.
\<close>

record clipboard_source =
  cs_enabled :: bool
  cs_record :: bool
  cs_notifications :: bool
  cs_current :: int
  cs_pending :: int
  cs_timer :: bool
  cs_stats :: "int list"
  cs_greedy :: "pval list"
  cs_want_targets :: "pval list"
  cs_selections :: "pval list"
  cs_preferred :: "pval list"
  cs_lz4 :: bool
  cs_brotli :: bool
  cs_hello_sent :: bool
  cs_suspended :: bool
  cs_queued :: "int list"
  cs_sent :: "int list"

definition init_source :: "pval list \<Rightarrow> clipboard_source" where
  "init_source selections = \<lparr>cs_enabled = False, cs_record = False, cs_notifications = False, cs_current = 0,
     cs_pending = 0, cs_timer = False, cs_stats = [], cs_greedy = [], cs_want_targets = [], cs_selections = selections,
     cs_preferred = [], cs_lz4 = False, cs_brotli = False, cs_hello_sent = False, cs_suspended = False,
     cs_queued = [], cs_sent = []\<rparr>"

section \<open>Operations\<close>

definition pval_texts :: "pval list \<Rightarrow> pystr list" where
  "pval_texts vs = map (\<lambda>v. case v of PStr s \<Rightarrow> s | _ \<Rightarrow> []) vs"

text \<open>\<open>recording\<close> is what \<^verbatim>\<open>is_recording_allowed\<close> says. The attributes before an exception are set.\<close>

definition parse_client_caps ::
  "(pval \<Rightarrow> pystr) \<Rightarrow> (pystr \<Rightarrow> int result) \<Rightarrow> bool \<Rightarrow> tdict \<Rightarrow> clipboard_source \<Rightarrow> clipboard_source result" where
  "parse_client_caps str_of text_int recording caps s =
     ebind (case td_get (text_of ''clipboard'') caps of
              Some (PDict ccaps) \<Rightarrow>
                if ccaps = [] then Inr s
                else
                  ebind (boolget (text_of ''enabled'') True ccaps) (\<lambda>enabled.
                  ebind (boolget (text_of ''notifications'') False ccaps) (\<lambda>notifications.
                  ebind (strtupleget str_of text_int None None (text_of ''selections'')
                          (map (\<lambda>x. PStr (text_of x)) [''CLIPBOARD'', ''PRIMARY'', ''SECONDARY'']) ccaps) (\<lambda>selections.
                  ebind (parse_greedy str_of text_int ccaps (pval_texts selections)) (\<lambda>greedy.
                  ebind (parse_want_targets str_of text_int ccaps (pval_texts selections)) (\<lambda>want.
                  ebind (strtupleget str_of text_int None None (text_of ''preferred-targets'') [] ccaps) (\<lambda>preferred.
                  ebind (boolget (text_of ''record'') False ccaps) (\<lambda>recorded.
                    Inr (s\<lparr>cs_enabled := enabled, cs_notifications := notifications, cs_selections := selections,
                           cs_greedy := greedy, cs_want_targets := want, cs_preferred := preferred,
                           cs_record := recorded \<and> recording\<rparr>))))))))
            | _ \<Rightarrow> Inr s) (\<lambda>s.
       ebind (strtupleget str_of text_int None None (text_of ''compressors'') [] caps) (\<lambda>compressors.
         Inr (s\<lparr>cs_lz4 := PStr (text_of ''lz4'') \<in> set compressors,
                cs_brotli := PStr (text_of ''brotli'') \<in> set compressors\<rparr>)))"

definition cancel_progress_timer :: "clipboard_source \<Rightarrow> clipboard_source" where
  "cancel_progress_timer s = s\<lparr>cs_timer := False\<rparr>"

definition send_clipboard_progress :: "int \<Rightarrow> clipboard_source \<Rightarrow> clipboard_source" where
  "send_clipboard_progress count s =
     (if \<not> cs_notifications s \<or> \<not> cs_hello_sent s \<or> cs_timer s then s
      else s\<lparr>cs_pending := count, cs_timer := True\<rparr>)"

definition progress_delay :: "int \<Rightarrow> int" where
  "progress_delay count = (if count = 0 then 100 else 0)"

definition may_send_progress_update :: "clipboard_source \<Rightarrow> clipboard_source" where
  "may_send_progress_update s =
     (let s = s\<lparr>cs_timer := False\<rparr> in
      if cs_current s \<noteq> cs_pending s then s\<lparr>cs_current := cs_pending s, cs_sent := cs_sent s @ [cs_pending s]\<rparr>
      else s)"

text \<open>The last times at which there was something to send, in a \<^verbatim>\<open>deque\<close> of limited length, the oldest first.\<close>

definition record_event :: "int \<Rightarrow> int list \<Rightarrow> int list" where
  "record_event now stats =
     (let stats = stats @ [now] in drop (length stats - MAX_CLIPBOARD_LIMIT * MAX_CLIPBOARD_LIMIT_DURATION) stats)"

definition send_clipboard :: "int \<Rightarrow> clipboard_source \<Rightarrow> clipboard_source" where
  "send_clipboard now s =
     (if (\<not> cs_enabled s \<and> \<not> cs_record s) \<or> \<not> cs_hello_sent s then s
      else if cs_suspended s then s
      else
        let s = s\<lparr>cs_stats := record_event now (cs_stats s)\<rparr> in
        if length (cs_stats s) \<ge> MAX_CLIPBOARD_LIMIT \<and>
           now - cs_stats s ! (length (cs_stats s) - MAX_CLIPBOARD_LIMIT) < 1000
        then s
        else s\<lparr>cs_queued := cs_queued s @ [now]\<rparr>)"

text \<open>
  In the encode thread: the data of the items that are to be compressed, which is bytes, with the algorithm
  that the client has. The result is the packet to queue, if any.
\<close>

definition compress_item :: "compressions \<Rightarrow> clipboard_source \<Rightarrow> pval \<Rightarrow> pval result" where
  "compress_item comps s item =
     (case item of
        PCompressible (PBytes b) \<Rightarrow>
          compressed_wrapper comps b 9 False
            (\<lambda>algo. if cs_brotli s then algo = ''brotli'' else cs_lz4 s \<and> algo = ''lz4'') 0
      | PCompressible _ \<Rightarrow> Inl TypeError
      | _ \<Rightarrow> Inr item)"

definition compress_clipboard :: "compressions \<Rightarrow> bool \<Rightarrow> clipboard_source \<Rightarrow> packet \<Rightarrow> packet option result" where
  "compress_clipboard comps closed s packet =
     (if closed then Inr None else ebind (emap (compress_item comps s) packet) (\<lambda>items. Inr (Some items)))"

section \<open>The limit on the rate\<close>

text \<open>
  The source with the clock and the times of all the packets that there were to send, which the code keeps
  the last of: packets come, the client changes its settings, notifications are sent.
\<close>

definition counted :: "clipboard_source \<Rightarrow> bool" where
  "counted s \<longleftrightarrow> (cs_enabled s \<or> cs_record s) \<and> cs_hello_sent s \<and> \<not> cs_suspended s"

inductive sstep :: "int \<times> clipboard_source \<times> int list \<Rightarrow> int \<times> clipboard_source \<times> int list \<Rightarrow> bool" where
  Sending: "sstep (now, s, evs) (later, send_clipboard later s, if counted s then evs @ [later] else evs)"
    if "now \<le> later"
| Caps: "sstep (now, s, evs) (now, s', evs)" if "parse_client_caps str_of text_int recording caps s = Inr s'"
| Progress: "sstep (now, s, evs) (now, send_clipboard_progress count s, evs)"
| Timer: "sstep (now, s, evs) (now, may_send_progress_update s, evs)" if "cs_timer s"
| Closing: "sstep (now, s, evs) (now, cancel_progress_timer s, evs)"
| Connection: "sstep (now, s, evs) (now, s\<lparr>cs_hello_sent := hello, cs_suspended := suspended, cs_enabled := enabled\<rparr>, evs)"

definition rate_ok :: "int \<times> clipboard_source \<times> int list \<Rightarrow> bool" where
  "rate_ok = (\<lambda>(now, s, evs).
     cs_stats s = drop (length evs - MAX_CLIPBOARD_LIMIT * MAX_CLIPBOARD_LIMIT_DURATION) evs \<and>
     sorted evs \<and> (\<forall>t \<in> set evs. t \<le> now) \<and> subseq (cs_queued s) evs \<and>
     (\<forall>i. i + 29 < length (cs_queued s) \<longrightarrow> cs_queued s ! i + 1000 \<le> cs_queued s ! (i + 29)))"

lemma subseq_nth_le:
  assumes "subseq xs ys" "sorted_wrt (\<ge>) ys" "k < length xs"
  shows "xs ! k \<le> (ys ! k :: int)"
  using assms
proof (induction arbitrary: k rule: list_emb.induct)
  case (list_emb_Cons xs ys y)
  have "k < length ys" using list_emb_Cons.prems list_emb_length [OF list_emb_Cons.hyps] by simp
  then have "(y # ys) ! Suc k \<le> (y # ys) ! k"
    using sorted_wrt_nth_less [OF list_emb_Cons.prems(1), of k "Suc k"] by simp
  then have "ys ! k \<le> (y # ys) ! k" by simp
  with list_emb_Cons.IH [of k] list_emb_Cons.prems show ?case by auto
next
  case (list_emb_Cons2 x y xs ys)
  then show ?case by (cases k) auto
qed simp

lemma subseq_rev_rev: "subseq xs ys \<Longrightarrow> subseq (rev xs) (rev ys)"
proof (induction rule: list_emb.induct)
  case (list_emb_Cons xs ys y)
  then show ?case using list_emb_append_mono [of _ "rev xs" "rev ys" "[]" "[y]"] by simp
next
  case (list_emb_Cons2 x y xs ys)
  then show ?case by (simp add: list_emb_append_mono)
qed simp

lemma drop_last_n:
  "drop (length (drop (length xs - n) xs @ [x]) - n) (drop (length xs - n) xs @ [x]) = drop (length (xs @ [x]) - n) (xs @ [x])"
  if "0 < n"
proof (cases "length xs < n")
  case False
  then have "length xs - (length xs - n) = n" by simp
  with False that show ?thesis by (simp add: Suc_diff_le)
qed simp

lemma subseq_last_le:
  assumes "subseq xs ys" "sorted ys" "k < length xs"
  shows "xs ! (length xs - Suc k) \<le> (ys ! (length ys - Suc k) :: int)"
proof -
  have "subseq (rev xs) (rev ys)" using assms(1) by (rule subseq_rev_rev)
  moreover have "sorted_wrt (\<ge>) (rev ys)" using assms(2) by (simp add: sorted_wrt_rev)
  ultimately have "rev xs ! k \<le> rev ys ! k" using assms(3) by (intro subseq_nth_le) simp_all
  moreover have "k < length ys" using assms(3) list_emb_length [OF assms(1)] by simp
  ultimately show ?thesis using assms(3) by (simp add: rev_nth)
qed

lemma sending_ok:
  assumes ok: "rate_ok (now, s, evs)" and later: "now \<le> later" and c: "counted s"
  shows "rate_ok (later, send_clipboard later s, evs @ [later])"
proof -
  define stats where "stats = record_event later (cs_stats s)"
  from ok have stats0: "cs_stats s = drop (length evs - 90) evs" and srt: "sorted evs" "\<forall>t \<in> set evs. t \<le> now"
    and sub: "subseq (cs_queued s) evs"
    and gap: "\<forall>i. i + 29 < length (cs_queued s) \<longrightarrow> cs_queued s ! i + 1000 \<le> cs_queued s ! (i + 29)"
    by (simp_all add: rate_ok_def MAX_CLIPBOARD_LIMIT_def MAX_CLIPBOARD_LIMIT_DURATION_def)
  have stats: "stats = drop (length (evs @ [later]) - 90) (evs @ [later])"
    using drop_last_n [of 90 evs later] stats0
    by (simp add: stats_def record_event_def Let_def MAX_CLIPBOARD_LIMIT_def MAX_CLIPBOARD_LIMIT_DURATION_def)
  have srt2: "sorted (evs @ [later])" "\<forall>t \<in> set (evs @ [later]). t \<le> later"
    using srt later by (auto simp: sorted_append)
  let ?q = "cs_queued s @ [later]"
  have sub2: "subseq ?q (evs @ [later])" using sub by (simp add: list_emb_append_mono)
  have base: "rate_ok (later, s\<lparr>cs_stats := stats\<rparr>, evs @ [later])"
    using stats srt2 gap list_emb_prefix sub
    by (auto simp: rate_ok_def MAX_CLIPBOARD_LIMIT_def MAX_CLIPBOARD_LIMIT_DURATION_def)
  show ?thesis
  proof (cases "length stats \<ge> 30 \<and> later - stats ! (length stats - 30) < 1000")
    case True
    with c base show ?thesis
      by (auto simp: send_clipboard_def counted_def Let_def stats_def MAX_CLIPBOARD_LIMIT_def)
  next
    case False
    have new: "?q ! i + 1000 \<le> ?q ! (i + 29)" if i: "i + 29 = length (cs_queued s)" for i
    proof -
      have "length ?q = i + 30" using i by simp
      then have "i + 30 \<le> length (evs @ [later])" using list_emb_length [OF sub2] by simp
      then have big: "length stats \<ge> 30" by (simp add: stats)
      have "?q ! (length ?q - Suc 29) \<le> (evs @ [later]) ! (length (evs @ [later]) - Suc 29)"
        by (rule subseq_last_le [OF sub2 srt2(1)]) (use i in simp)
      moreover have "(evs @ [later]) ! (length (evs @ [later]) - Suc 29) = stats ! (length stats - 30)"
        using big unfolding stats by (simp only: nth_drop length_drop) (auto intro: arg_cong [where f = "\<lambda>k. (evs @ [later]) ! k"])
      moreover have "length ?q - Suc 29 = i" using i by simp
      ultimately have "?q ! i \<le> stats ! (length stats - 30)" by simp
      with False big i show ?thesis by (simp add: nth_append)
    qed
    have "?q ! i + 1000 \<le> ?q ! (i + 29)" if i: "i + 29 < length ?q" for i
    proof (cases "i + 29 = length (cs_queued s)")
      case True
      then show ?thesis by (rule new)
    next
      case False
      with i have "i + 29 < length (cs_queued s)" by simp
      with gap show ?thesis by (simp add: nth_append)
    qed
    with base sub2 have "rate_ok (later, s\<lparr>cs_stats := stats, cs_queued := ?q\<rparr>, evs @ [later])"
      by (auto simp: rate_ok_def)
    with False c show ?thesis
      by (auto simp: send_clipboard_def counted_def Let_def stats_def MAX_CLIPBOARD_LIMIT_def)
  qed
qed

lemma parse_client_caps_keeps:
  assumes "parse_client_caps str_of text_int recording caps s = Inr s'"
  shows "cs_stats s' = cs_stats s" "cs_queued s' = cs_queued s"
  using assms unfolding parse_client_caps_def
  by (auto simp: ebind_eq_Inr split: option.splits pval.splits if_splits)

lemma uncounted_ok:
  assumes "rate_ok (now, s, evs)" "now \<le> later" "\<not> counted s"
  shows "rate_ok (later, send_clipboard later s, evs)"
  using assms by (auto simp: rate_ok_def send_clipboard_def counted_def)

lemma same_times_ok:
  assumes "rate_ok (now, s, evs)" "cs_stats s' = cs_stats s" "cs_queued s' = cs_queued s"
  shows "rate_ok (now, s', evs)"
  using assms by (simp add: rate_ok_def)

lemma step_rate_ok: "sstep c c' \<Longrightarrow> rate_ok c \<Longrightarrow> rate_ok c'"
proof (induction rule: sstep.induct)
  case (Sending now later s evs)
  then show ?case by (cases "counted s") (auto intro: sending_ok uncounted_ok)
next
  case (Caps str_of text_int recording caps s s' now evs)
  then show ?case using parse_client_caps_keeps [OF Caps(1)] by (auto intro: same_times_ok)
qed (auto elim!: same_times_ok simp: send_clipboard_progress_def may_send_progress_update_def
       cancel_progress_timer_def Let_def)

lemma run_rate_ok:
  assumes "sstep\<^sup>*\<^sup>* c c'" "rate_ok c"
  shows "rate_ok c'"
  using assms by (induction rule: rtranclp_induct) (auto intro: step_rate_ok)

lemma init_rate_ok: "rate_ok (now, init_source selections, [])"
  by (simp add: rate_ok_def init_source_def)

section \<open>Properties\<close>

text \<open>
  C28: No client is flooded with clipboard packets: of the packets queued for a client, any thirty in a row take
  at least a second, whatever else happens to the source in between, such as a change of the client's
  capabilities or of the state of the connection.
\<close>
theorem clipboard_rate_limited:
  assumes "sstep\<^sup>*\<^sup>* (start, init_source selections, []) (now, s, evs)" "i + 29 < length (cs_queued s)"
  shows "cs_queued s ! i + 1000 \<le> cs_queued s ! (i + 29)"
  using run_rate_ok [OF assms(1) init_rate_ok] assms(2) by (simp add: rate_ok_def)

text \<open>A ready source that is asked to send at every given time.\<close>

definition ready_source :: "clipboard_source" where
  "ready_source = (init_source [])\<lparr>cs_hello_sent := True, cs_suspended := False, cs_enabled := True\<rparr>"

definition send_at :: "int list \<Rightarrow> clipboard_source" where
  "send_at moments = fold send_clipboard moments ready_source"

lemma counted_send: "counted s \<Longrightarrow> counted (send_clipboard t s)"
  by (auto simp: counted_def send_clipboard_def Let_def)

lemma sending_reachable:
  "counted s \<Longrightarrow> sorted (now # moments) \<Longrightarrow>
   sstep\<^sup>*\<^sup>* (now, s, evs) (last (now # moments), fold send_clipboard moments s, evs @ moments)"
proof (induction moments arbitrary: now s evs)
  case (Cons t moments)
  have "sstep (now, s, evs) (t, send_clipboard t s, evs @ [t])"
    using sstep.Sending [of now t s evs] Cons.prems by simp
  moreover have "sstep\<^sup>*\<^sup>* (t, send_clipboard t s, evs @ [t])
      (last (t # moments), fold send_clipboard moments (send_clipboard t s), (evs @ [t]) @ moments)"
    by (rule Cons.IH) (use Cons.prems in \<open>simp_all add: counted_send\<close>)
  ultimately show ?case by (simp add: converse_rtranclp_into_rtranclp)
qed simp

lemma send_at_reachable:
  assumes "sorted (0 # moments)"
  shows "sstep\<^sup>*\<^sup>* (0, init_source [], []) (last (0 # moments), send_at moments, moments)"
proof -
  have "sstep (0, init_source [], []) (0, ready_source, [])"
    unfolding ready_source_def by (rule sstep.Connection)
  moreover have "sstep\<^sup>*\<^sup>* (0, ready_source, []) (last (0 # moments), fold send_clipboard moments ready_source, [] @ moments)"
    by (rule sending_reachable [OF _ assms]) (simp add: ready_source_def init_source_def counted_def)
  ultimately show ?thesis by (simp add: send_at_def converse_rtranclp_into_rtranclp)
qed

text \<open>A burst of thirty two packets, of which twenty nine are queued, and a packet two seconds later.\<close>

definition burst :: "int list" where "burst = map int [0..<32] @ [2000]"

theorem clipboard_rate_limited_witness:
  "length (cs_queued (send_at burst)) = 30 \<and>
   cs_queued (send_at burst) ! 0 + 1000 \<le> cs_queued (send_at burst) ! (0 + 29)"
proof -
  have n: "length (cs_queued (send_at burst)) = 30" by code_simp
  have "sstep\<^sup>*\<^sup>* (0, init_source [], []) (last (0 # burst), send_at burst, burst)"
    by (rule send_at_reachable) (simp add: burst_def upt_rec)
  from clipboard_rate_limited [OF this, of 0] n show ?thesis by simp
qed

text \<open>
  A count that is reported while the timer of the previous one is set is lost: the client that was told of one
  pending request is not told that there is none any more.
\<close>

lemma late_progress_dropped:
  "let s = may_send_progress_update (send_clipboard_progress 0 (send_clipboard_progress 1
             (ready_source\<lparr>cs_notifications := True\<rparr>)))
   in cs_sent s = [1] \<and> cs_current s = 1 \<and> cs_timer s = False"
  by (simp add: ready_source_def init_source_def send_clipboard_progress_def may_send_progress_update_def)

end
