(* ===== verification/Spec2Isabelle.thy ===== *)
theory Spec2Isabelle
  imports TerminalInput SocketSafety SocketClose WebSocket MmapArea FileDelivery RFBServer WindowCoverage TimerSafety PacketDispatch
    ClipboardRequests ClipboardPrimary ClipboardSafety ClipboardSource
begin

text \<open>
  A verification development for the core of xpra, the persistent remote display server:
  what happens between the bytes that a peer sends and the packets that the rest of the program
  handles, who is let in, what a peer can do to the files and the clipboard of the other side, the gateway
  that serves the desktop to VNC clients, and how the damage of a window becomes the updates that a client is
  sent. All the paths below are under \<^verbatim>\<open>src/xpra/\<close>.

  \<^bold>\<open>The program.\<close> A connection of xpra carries packets: lists of values, serialised by a packet encoder,
  cut into chunks (large items travel as raw chunks of their own), compressed, encrypted, and each
  prefixed with a header of eight bytes. \<^verbatim>\<open>SocketProtocol\<close> does all of this in both directions with one
  thread for reading, one for parsing and one for writing; \<^verbatim>\<open>WebSocketProtocol\<close> puts a layer of
  websocket frames below it. The first packet that a server accepts is a hello, which the
  authentication manager checks against a chain of authentication modules. On an accepted connection
  files can be transferred in both directions, and pixels can be left in a memory area that both ends
  map. A VNC client speaks another protocol on the same port: its handshake uses the same modules, its
  requests are answered from lists of damaged rectangles. For the other clients, each window has a
  \<^verbatim>\<open>WindowSource\<close> for each client, which collects the damaged regions while the client or the network
  cannot keep up, then captures and encodes them, waits for the acknowledgement of every packet, and
  refreshes later what it has sent with losses. The clipboards of both ends are kept in step by tokens, which
  say that a selection has a new owner and may carry its contents, and by requests for contents, which are
  answered or time out. The terminal client has no window system:
  its keyboard, pointer and window reports are escape sequences on the standard input.

  \<^bold>\<open>Theories.\<close> A theory imports those of the parts that its own part calls.

  \<^item> \<open>XpraPrelude\<close>: bytes, Python's exceptions (\<open>error\<close>, \<open>'a result\<close>, \<open>ebind\<close>), integers in bytes as
    \<^verbatim>\<open>struct\<close> has them, \<^verbatim>\<open>int()\<close> of a text, slices; the collections \<open>err_simps\<close>, \<open>be_simps\<close>,
    \<open>slice_simps\<close>. \<open>Framing\<close> and \<open>Runs\<close> hold the locales \<open>incremental_parser\<close> and \<open>guided_run\<close>.
  \<^item> \<open>PacketHeader\<close> (\<^verbatim>\<open>net/protocol/header.py\<close>), \<open>PacketValues\<close> (\<^verbatim>\<open>net/common.py\<close>), \<open>PacketCodec\<close>
    (\<^verbatim>\<open>net/compression.py\<close>, \<^verbatim>\<open>net/packet_encoding.py\<close>), \<open>PacketCrypto\<close> (\<^verbatim>\<open>net/crypto.py\<close>) and \<open>TypeDict\<close>
    (\<^verbatim>\<open>typedict\<close> of \<^verbatim>\<open>util/objects.py\<close>): the vocabulary of the packets.
  \<^item> \<^verbatim>\<open>net/protocol/socket_handler.py\<close>: \<open>SocketState\<close> has the attributes of \<^verbatim>\<open>SocketProtocol\<close> as the record
    \<open>proto\<close>, and the operations that configure and close it; \<open>SocketReceive\<close> the read and parse
    threads; \<open>SocketSend\<close> the write side; \<open>SocketClose\<close> the step relation of \<^verbatim>\<open>flush_then_close\<close>.
    \<open>SocketStream\<close>, \<open>SocketWire\<close> and \<open>SocketSafety\<close> hold what is shown of both halves.
  \<^item> \<open>PacketDispatch\<close> (\<^verbatim>\<open>net/dispatch.py\<close>): the registries of packet handlers, the routing of a packet to a
    subsystem, and the limit on the errors that are reported.
  \<^item> \<open>WebSocketFrames\<close> (\<^verbatim>\<open>net/websockets/header.py\<close>, \<^verbatim>\<open>mask.pyx\<close>) and \<open>WebSocket\<close>
    (\<^verbatim>\<open>net/websockets/protocol.py\<close>).
  \<^item> \<open>MmapRing\<close> and \<open>MmapArea\<close> (\<^verbatim>\<open>net/mmap/io.py\<close>, \<^verbatim>\<open>net/mmap/objects.py\<close>).
  \<^item> \<open>FileNames\<close>, \<open>FileTransfer\<close>, \<open>FileSend\<close> (\<^verbatim>\<open>net/file_transfer.py\<close>, \<^verbatim>\<open>util/str_fn.py\<close>): names and paths,
    the receiving and the sending half of \<^verbatim>\<open>FileTransferHandler\<close>; \<open>FileSafety\<close> and \<open>FileDelivery\<close> hold the
    step relations and what is shown of them.
  \<^item> \<open>AuthDigest\<close> (\<^verbatim>\<open>net/digest.py\<close>), \<open>D3DES\<close> (\<^verbatim>\<open>net/rfb/d3des.py\<close>), \<open>RateLimit\<close> (\<^verbatim>\<open>auth/ratelimit.py\<close>),
    \<open>Authenticators\<close> (\<^verbatim>\<open>auth/sys_auth_base.py\<close>, \<^verbatim>\<open>auth/code_base.py\<close>), \<open>AuthServer\<close> (\<^verbatim>\<open>server/auth.py\<close>) and
    \<open>AuthModules\<close> (the modules of \<^verbatim>\<open>auth/\<close> that need nothing outside of the program).
  \<^item> \<open>RFBProtocol\<close> (\<^verbatim>\<open>net/rfb/protocol.py\<close>, \<^verbatim>\<open>net/rfb/const.py\<close>, \<^verbatim>\<open>server/rfb/protocol.py\<close>), with \<open>RFBSafety\<close> and
    \<open>RFBMessages\<close>; \<open>Rectangles\<close> (\<^verbatim>\<open>util/rectangle.pyx\<close>), \<open>Images\<close> (\<^verbatim>\<open>codecs/image.py\<close>), \<open>RFBEncode\<close>
    (\<^verbatim>\<open>net/rfb/encode.py\<close>), \<open>RFBSource\<close> (\<^verbatim>\<open>server/rfb/source.py\<close>), with \<open>RFBUpdates\<close>; and \<open>RFBServer\<close>
    (the handlers of \<^verbatim>\<open>server/rfb/server.py\<close>).
  \<^item> \<^verbatim>\<open>WindowSource\<close> of \<^verbatim>\<open>server/window/compress.py\<close>, with \<^verbatim>\<open>batch_config.py\<close> and \<^verbatim>\<open>perfstats.py\<close> beside
    it: \<open>WindowState\<close> has its attributes as the record \<open>wsrc\<close>; \<open>WindowRegions\<close> sends a list of regions
    (\<^verbatim>\<open>do_send_delayed_regions\<close>, \<^verbatim>\<open>process_damage_region\<close>), \<open>WindowBatch\<close> collects them (\<^verbatim>\<open>damage\<close>,
    \<^verbatim>\<open>may_send_delayed\<close>, the timers, refreshes), \<open>WindowEncode\<close> has the encode thread and the
    acknowledgements; \<open>WindowSafety\<close> and \<open>WindowCoverage\<close> hold the step relation and what is shown.
    \<open>WindowTimers\<close> has the leases of the timers between threads (\<^verbatim>\<open>_schedule_timer\<close>, \<^verbatim>\<open>_cancel_timer\<close>, the
    terminal clean up), with \<open>TimerInvariants\<close> and \<open>TimerSafety\<close>.
  \<^item> The clipboard: \<open>ClipboardTargets\<close> (\<^verbatim>\<open>clipboard/targets.py\<close>, \<^verbatim>\<open>clipboard/common.py\<close>), \<open>ClipboardRequests\<close>
    (\<^verbatim>\<open>clipboard/timeout.py\<close>: the requests and what answers them), \<open>ClipboardPrimary\<close> (\<^verbatim>\<open>clipboard/primary.py\<close>),
    \<open>ClipboardProxy\<close> (\<^verbatim>\<open>clipboard/proxy.py\<close>: one selection, when its tokens are sent and what they carry),
    \<open>ClipboardData\<close> and \<open>ClipboardHelper\<close> (\<^verbatim>\<open>clipboard/core.py\<close>: the conversions and the packets) with
    \<open>ClipboardSafety\<close>, and \<open>ClipboardSource\<close> (\<^verbatim>\<open>server/source/clipboard.py\<close>).
  \<^item> \<open>TerminalInput\<close> (\<^verbatim>\<open>client/terminal/input.py\<close>).

  \<^bold>\<open>How the code is modelled.\<close> An object is a record of its attributes, and a method a function that
  returns its result beside the new record, so that what it did before it raised is kept. An exception
  is a value \<open>Inl e\<close>. What a method asks of others (packets sent, timers, callbacks, programs started)
  is appended to a list in the record. Python's integers are \<open>int\<close>, bytes are \<open>8 word\<close>, text is a list
  of code points. Threads, timers and the peer are steps of an inductive relation wherever their order
  matters: \<open>fstep\<close> (closing), \<open>file_step\<close> and \<open>link_step\<close> (files), \<open>ring_step\<close> (memory area), \<open>rfb_step\<close> (VNC
  handshake), \<open>dstep\<close> (handlers and packets), \<open>wstep\<close> (a window: damage, timers, encoding, acknowledgements, clean up), \<open>tstep\<close> (the
  parts of the timers that hold their lock, on the stacks of any number of threads), \<open>hstep\<close> (requests for
  clipboard contents, with the callbacks that make further ones on a stack), \<open>pstep\<close> (the primary selection),
  \<open>kstep\<close> (the tokens of a selection and the clock), \<open>cstep\<close> (clipboard packets) and \<open>sstep\<close> (the clipboard of a
  client). In the theories of
  windows, floating point numbers are exact fractions, and the clock stands still during an operation. Libraries that the sources only call (ciphers, compressors, serialisers, hash functions,
  image codecs, the file system, the clock, random numbers) are parameters; what is relied on is a
  premise that says what they document, such as that decompressing undoes compressing. Every
  property with premises has a witness beside it, at a concrete input with concrete functions.

  \<^bold>\<open>Interfaces.\<close>

  \<^item> \<open>incremental_parser\<close>: a decoder that looks at the start of a buffer and a loop around it, whose
    events do not depend on the pieces in which the input arrives. Its interpretations are the terminal
    parser, the websocket frames and the messages of VNC clients.
  \<^item> \<open>guided_run\<close>: steps that are determined and get ahead, and so arrive; interpreted on the transfer
    of a file in chunks.
  \<^item> \<open>auth_modules\<close>: what the authentication manager relies on in its modules, from which it follows
    what an accepted hello has proved; interpreted on all the modules of \<open>AuthModules\<close>.
  \<^item> \<open>rfb_gate\<close>: what a handshake of a VNC client relies on in the same modules; interpreted on those
    that require a password and on those whose challenges combine two salts.
  \<^item> \<open>feistel\<close>: rounds that undo each other; interpreted on the rounds of DES.

  \<^bold>\<open>What is shown.\<close> \<open>SocketWire\<close>: what one end sends, the other delivers, packet by packet and in order,
  for all settings of compression, raw chunks and encryption; \<open>SocketStream\<close>: in whatever pieces the
  transport delivers the bytes. \<open>SocketSafety\<close>, \<open>PacketCodec\<close>, \<open>PacketHeader\<close>: what a header has to
  satisfy to be accepted, and that nothing unencrypted is accepted on an encrypted connection.
  \<open>SocketClose\<close>: closing ends. \<open>AuthModules\<close>: a connection is accepted only when every module has been
  passed for that connection with a proof for a challenge of its own, and a wrong answer never counts.
  \<open>PacketDispatch\<close>: until then only default handlers are called, after that a registered handler is always
  found, and every error of a handler is accounted for.
  \<open>RateLimit\<close>: the bounded table of failures refines one that remembers everything. \<open>FileSafety\<close>,
  \<open>FileNames\<close>: a peer never changes a file that exists and never leaves the download directory;
  \<open>FileDelivery\<close>: a transfer in chunks arrives whole. \<open>MmapRing\<close>: data stays intact until it is
  read. \<open>WindowSafety\<close>, \<open>WindowCoverage\<close>: a damaged pixel of a window is waiting or with the encoder until it
  is sent or given up for a reason, waiting damage has a timer, and two timers at most go off before it
  is sent to a client that keeps up. \<open>TimerSafety\<close>: between threads the timers refine the
  atomic ones that the other theories use, a cancelled timer never runs, and the clean up ends without a
  deadlock, after which nothing runs. \<open>RFBSafety\<close>: there is no VNC session without the password. \<open>RFBMessages\<close>: messages arrive in
  order whatever the pieces. \<open>RFBUpdates\<close>: damage is always followed by a timer that leads to a
  picture that covers it, the queues are bounded, and a client reads back exactly what was encoded.
  \<open>Rectangles\<close>, \<open>Images\<close>: the operations do to sets of pixels what they are named for.
  \<open>ClipboardRequests\<close>: every request for contents is answered exactly once, whatever happens from within
  whichever callback, and the clean up leaves none. \<open>ClipboardProxy\<close>, \<open>ClipboardSource\<close>: tokens are spaced out
  ever more, and packets are limited in their rate. \<open>ClipboardSafety\<close>: tokens that come back are recognised,
  and what a peer sends is bounded. \<open>ClipboardData\<close>: contents survive the two conversions, also between
  platforms of different sizes and byte orders.

  \<^bold>\<open>Loops and bounds.\<close> The recursions of the model end, with their measures, apart from two loops, which
  are a \<open>partial_function (option)\<close> whose value \<open>None\<close> says that the code does not return. \<open>pick_name\<close> looks
  for a file name that is free, and is shown to find one once some number is free
  (\<open>pick_download_ends\<close>). \<open>rfb_loop\<close> is the read thread of a VNC connection, which really can hang
  (\<open>rfb_negative_text_hangs\<close>). It is shown to
  return for all the messages that well-behaved clients send (\<open>rfb_messages_delivered\<close>). \<open>rfb_run\<close> takes
  a bound on the number of turns, for evaluation only, and agrees with it. The loop that polls in
  \<open>flush_then_close\<close> is a step relation, and \<open>flush_timers_run_out\<close> bounds its steps.

  \<^bold>\<open>What modelling showed.\<close> Counterexamples stand beside the properties they limit: a write that fills
  the shared memory exactly is reported as free space (\<open>exact_fill_reported_free\<close>), a masked websocket
  message of several items is masked out of step (\<open>masked_items_out_of_step\<close>), a superscript digit wedges
  the terminal parser (\<open>terminal_superscript_wedges\<close>), the callback of a requested file is lost
  (\<open>requested_callback_lost\<close>), a VNC client can never log in with a password (\<open>rfb_password_never_accepted\<close>)
  and can stop its read thread from returning (\<open>rfb_negative_text_hangs\<close>), a picture that was clipped
  leaves the VNC client waiting (\<open>clipped_image_starves\<close>), damage that times out is dropped when the
  window has no encodings for refreshes (\<open>timeout_loses_damage\<close>), a clipboard filter stops all contents in
  bytes (\<open>filters_break_bytes\<close>), contents that are too big are never answered (\<open>too_big_unanswered\<close>), and others in the same places.

  \<^bold>\<open>Not modelled.\<close> Widgets, X11, Wayland, OpenGL and the support of the platforms, GStreamer, the bindings
  of video codecs, SSH, QUIC and TLS are glue over libraries and services. Of \<^verbatim>\<open>server/window\<close>, the choice
  of the encoding and the encoders are parameters (\<open>wenv\<close>), and the heuristics that tune the batch delay,
  the speed and the quality, the subclass for video, the transactions of a connection, the timer of the
  icon and the errors of the clean up are left out. Start-up, the command
  line, the proxy and the session registries manage processes; the HTTP scripts and the other
  authentication modules are clients of external services. Logging and the statistics of \<^verbatim>\<open>get_info\<close>
  are left out everywhere, and so are the planes of planar images, the cursor and audio of VNC, Windows
  handles, the clipboards of the toolkits and the filters on images that they hold, and the printing and
  opening of files that have arrived, which are recorded as actions.
\<close>

end
